(* ===== verification/Prelude.thy ===== *)
theory Prelude
  imports Main "HOL-Library.Word"
begin

text \<open>
  Shared vocabulary of the development: machine integers of the C++ sources,
  a result type for throwing functions, field access in byte arrays, and the
  list lemmas the components share.

  The sources are C++20.  An unsigned integer of width w is a \<open>w word\<close>;
  a \<open>std::vector<std::byte>\<close>, a \<open>std::array<uint8_t, N>\<close> and the contents of
  a header string field are byte lists; an exception is the \<open>Inl\<close> side of a
  sum; \<open>std::optional\<close> is \<open>option\<close>.
\<close>

unbundle bit_operations_syntax

section \<open>Machine types\<close>

type_synonym u8 = "8 word"
type_synonym u16 = "16 word"
type_synonym u32 = "32 word"
type_synonym u64 = "64 word"
type_synonym bytes = "u8 list"

named_theorems byte_simps
named_theorems res_simps

section \<open>Results of functions that may throw\<close>

definition bind_res :: "'e + 'a \<Rightarrow> ('a \<Rightarrow> 'e + 'b) \<Rightarrow> 'e + 'b" where
  "bind_res m f = (case m of Inl e \<Rightarrow> Inl e | Inr a \<Rightarrow> f a)"

definition require :: "bool \<Rightarrow> 'e \<Rightarrow> 'e + unit" where
  "require b e = (if b then Inr () else Inl e)"

definition is_ok :: "'e + 'a \<Rightarrow> bool" where
  "is_ok r = (case r of Inl _ \<Rightarrow> False | Inr _ \<Rightarrow> True)"

lemma bind_res_simps [simp, res_simps]:
  "bind_res (Inl e) f = Inl e"
  "bind_res (Inr a) f = f a"
  by (simp_all add: bind_res_def)

lemma bind_res_Inr [res_simps]:
  "bind_res m f = Inr b \<longleftrightarrow> (\<exists>a. m = Inr a \<and> f a = Inr b)"
  by (cases m) simp_all

lemma bind_res_Inl [res_simps]:
  "bind_res m f = Inl e \<longleftrightarrow> m = Inl e \<or> (\<exists>a. m = Inr a \<and> f a = Inl e)"
  by (cases m) simp_all

lemma require_Inr [simp, res_simps]: "require b e = Inr u \<longleftrightarrow> b"
  by (simp add: require_def)

lemma require_Inl [simp, res_simps]: "require b e = Inl e' \<longleftrightarrow> \<not> b \<and> e' = e"
  by (auto simp: require_def)

lemma require_simps [simp, res_simps]:
  "require True e = Inr ()" "require False e = Inl e"
  by (simp_all add: require_def)

lemma is_ok_simps [simp, res_simps]: "is_ok (Inl e) = False" "is_ok (Inr a) = True"
  by (simp_all add: is_ok_def)

lemma is_ok_iff: "is_ok r \<longleftrightarrow> (\<exists>a. r = Inr a)"
  by (cases r) simp_all

section \<open>Fields of byte arrays\<close>

text \<open>
  \<open>field off n bs\<close> is the n bytes at offset off; \<open>overwrite bs off xs\<close> overwrites
  them, which is what \<open>std::copy\<close> and \<open>memcpy\<close> into an array do.
\<close>

definition field :: "nat \<Rightarrow> nat \<Rightarrow> 'a list \<Rightarrow> 'a list" where
  "field off n bs = take n (drop off bs)"

definition overwrite :: "'a list \<Rightarrow> nat \<Rightarrow> 'a list \<Rightarrow> 'a list" where
  "overwrite bs off xs = take off bs @ xs @ drop (off + length xs) bs"

lemma length_field: "off + n \<le> length bs \<Longrightarrow> length (field off n bs) = n"
  by (simp add: field_def)

lemma nth_field: "i < n \<Longrightarrow> off + n \<le> length bs \<Longrightarrow> field off n bs ! i = bs ! (off + i)"
  by (simp add: field_def)

lemma length_overwrite: "off + length xs \<le> length bs \<Longrightarrow> length (overwrite bs off xs) = length bs"
  by (simp add: overwrite_def)

lemma nth_overwrite:
  "off + length xs \<le> length bs \<Longrightarrow> i < length bs \<Longrightarrow>
   overwrite bs off xs ! i = (if off \<le> i \<and> i < off + length xs then xs ! (i - off) else bs ! i)"
  by (auto simp: overwrite_def nth_append)

lemma field_overwrite_same:
  "off + length xs \<le> length bs \<Longrightarrow> n = length xs \<Longrightarrow> field off n (overwrite bs off xs) = xs"
  by (simp add: field_def overwrite_def)

lemma field_overwrite_other:
  assumes "off + length xs \<le> length bs" and "o2 + n \<le> off \<or> off + length xs \<le> o2"
    and "o2 + n \<le> length bs"
  shows "field o2 n (overwrite bs off xs) = field o2 n bs"
  using assms by (intro nth_equalityI) (auto simp: length_field length_overwrite nth_field nth_overwrite)

lemma overwrite_Nil [simp]: "overwrite bs off [] = bs"
  by (simp add: overwrite_def)

lemma overwrite_snoc:
  "off + length xs < length bs \<Longrightarrow>
   overwrite bs off (xs @ [x]) = (overwrite bs off xs)[off + length xs := x]"
  by (intro nth_equalityI) (auto simp: length_overwrite nth_overwrite nth_append nth_list_update)

lemma foldl_update_overwrite:
  assumes "off + n \<le> length bs"
  shows "foldl (\<lambda>b i. b[off + i := f i]) bs [0..<n] = overwrite bs off (map f [0..<n])"
  using assms
proof (induction n)
  case 0
  then show ?case by simp
next
  case (Suc n)
  then show ?case using overwrite_snoc [of off "map f [0..<n]" bs "f n"] by simp
qed

lemma field_full: "n = length bs \<Longrightarrow> field 0 n bs = bs"
  by (simp add: field_def)

lemma field_append_split: "field off (n + m) bs = field off n bs @ field (off + n) m bs"
  by (simp add: field_def take_add) (simp add: add.commute)

lemma field_take: "off + n \<le> m \<Longrightarrow> field off n (take m bs) = field off n bs"
  by (simp add: field_def drop_take take_take min_def)

lemma field_drop: "field off n (drop m bs) = field (m + off) n bs"
  by (simp add: field_def add.commute)

lemma field_append1: "off + n \<le> length xs \<Longrightarrow> field off n (xs @ ys) = field off n xs"
  by (simp add: field_def)

section \<open>Decimal text\<close>

definition digit_char :: "nat \<Rightarrow> char" where
  "digit_char d = char_of (48 + d)"

text \<open>What \<open>std::format\<close> and \<open>std::to_string\<close> print for an unsigned integer.\<close>

fun decimal :: "nat \<Rightarrow> string" where
  "decimal n = (if n < 10 then [digit_char n] else decimal (n div 10) @ [digit_char (n mod 10)])"

declare decimal.simps [simp del]

section \<open>Lists\<close>

lemma concat_map_append_snoc: "concat (map f (xs @ [x])) = concat (map f xs) @ f x"
  by simp

lemma list_all_snoc [simp]: "list_all P (xs @ [x]) \<longleftrightarrow> list_all P xs \<and> P x"
  by simp

end
