(* ===== verification/Bytes.thy ===== *)
theory Bytes
  imports Prelude
begin

text \<open>
  Little-endian integers in byte arrays: the \<open>put_\<close> and \<open>get_\<close> helpers of
  src/neotape_format.cpp, \<open>uint64_to_le_bytes\<close> and \<open>le64_from_bytes\<close> of
  src/neotape_socket_util.cpp, and \<open>read_be32\<close> of src/neotape_signature.cpp.
  The loops are folds over the byte index, as in the code; the lemmas show
  that each put/get pair is a bijection between the integer and its bytes.
\<close>

unbundle bit_operations_syntax

section \<open>Operations\<close>

definition put_u16 :: "bytes \<Rightarrow> nat \<Rightarrow> u16 \<Rightarrow> bytes" where
  "put_u16 bs off v = bs[off := ucast (v AND 0xff), off + 1 := ucast (drop_bit 8 v AND 0xff)]"

definition put_u32 :: "bytes \<Rightarrow> nat \<Rightarrow> u32 \<Rightarrow> bytes" where
  "put_u32 bs off v =
     foldl (\<lambda>b i. b[off + i := ucast (drop_bit (i * 8) v AND 0xff)]) bs [0..<4]"

definition put_u64 :: "bytes \<Rightarrow> nat \<Rightarrow> u64 \<Rightarrow> bytes" where
  "put_u64 bs off v =
     foldl (\<lambda>b i. b[off + i := ucast (drop_bit (i * 8) v AND 0xff)]) bs [0..<8]"

definition get_u16 :: "bytes \<Rightarrow> nat \<Rightarrow> u16" where
  "get_u16 bs off = ucast (bs ! off) OR push_bit 8 (ucast (bs ! (off + 1)))"

definition get_u32 :: "bytes \<Rightarrow> nat \<Rightarrow> u32" where
  "get_u32 bs off =
     foldl (\<lambda>value i. value OR push_bit (i * 8) (ucast (bs ! (off + i)))) 0 [0..<4]"

definition get_u64 :: "bytes \<Rightarrow> nat \<Rightarrow> u64" where
  "get_u64 bs off =
     foldl (\<lambda>value i. value OR push_bit (i * 8) (ucast (bs ! (off + i)))) 0 [0..<8]"

definition uint64_to_le_bytes :: "u64 \<Rightarrow> bytes" where
  "uint64_to_le_bytes v =
     foldl (\<lambda>out i. out[i := ucast (drop_bit (8 * i) v AND 0xff)]) (replicate 8 0) [0..<8]"

definition le64_from_bytes :: "bytes \<Rightarrow> u64" where
  "le64_from_bytes payload =
     foldl (\<lambda>v i. v OR push_bit (8 * i) (ucast (payload ! i))) 0 [0..<min (length payload) 8]"

definition read_be32 :: "bytes \<Rightarrow> u32" where
  "read_be32 data =
     push_bit 24 (ucast (data ! 0)) OR push_bit 16 (ucast (data ! 1)) OR
     push_bit 8 (ucast (data ! 2)) OR ucast (data ! 3)"

section \<open>The byte string of an integer\<close>

definition le_bytes :: "nat \<Rightarrow> 'a::len word \<Rightarrow> bytes" where
  "le_bytes n v = map (\<lambda>i. ucast (drop_bit (i * 8) v)) [0..<n]"

definition le_value :: "bytes \<Rightarrow> 'a::len word" where
  "le_value bs = foldl (\<lambda>v i. v OR push_bit (i * 8) (ucast (bs ! i))) 0 [0..<length bs]"

lemma length_le_bytes [simp]: "length (le_bytes n v) = n"
  by (simp add: le_bytes_def)

lemma ucast_and_ff: "(ucast (v AND 0xff) :: u8) = ucast (v :: 'a::len word)"
proof (rule bit_word_eqI)
  fix n assume "n < LENGTH(8)"
  moreover have "(0xff :: 'a word) = mask 8" by (simp add: mask_eq_exp_minus_1)
  ultimately show "bit (ucast (v AND 0xff) :: u8) n = bit (ucast v :: u8) n"
    by (simp only: bit_simps) (auto dest: bit_imp_le_length)
qed

lemma bit_foldl_or:
  "bit (foldl (\<lambda>v i. v OR f i) (a :: 'a::len word) is) n \<longleftrightarrow>
   bit a n \<or> (\<exists>i\<in>set is. bit (f i) n)"
  by (induction "is" arbitrary: a) (auto simp: bit_or_iff)

lemma bit_byte_shift:
  "bit (push_bit (i * 8) (ucast (b :: u8)) :: 'a::len word) n \<longleftrightarrow>
   n < LENGTH('a) \<and> i = n div 8 \<and> bit b (n mod 8)"
proof -
  have eq: "bit (push_bit (i * 8) (ucast b) :: 'a word) n \<longleftrightarrow>
            n < LENGTH('a) \<and> i * 8 \<le> n \<and> bit b (n - i * 8)"
    by (auto simp: bit_push_bit_iff bit_ucast_iff)
  show ?thesis
  proof (cases "i = n div 8")
    case True
    then have "i * 8 \<le> n" and "n - i * 8 = n mod 8"
      by (simp_all add: minus_div_mult_eq_mod)
    with True eq show ?thesis by simp
  next
    case False
    have "n div 8 = i" if "i * 8 \<le> n" "n - i * 8 < 8"
      using that by (intro div_nat_eqI) simp_all
    moreover have "bit b (n - i * 8) \<Longrightarrow> n - i * 8 < 8"
      using bit_imp_le_length [of b "n - i * 8"] by simp
    ultimately show ?thesis using eq False by blast
  qed
qed

lemma bit_le_value:
  "bit (le_value bs :: 'a::len word) n \<longleftrightarrow>
   n < LENGTH('a) \<and> n div 8 < length bs \<and> bit (bs ! (n div 8)) (n mod 8)"
  by (simp only: le_value_def bit_foldl_or bit_byte_shift set_upt bit_0_eq) auto

lemma le_value_le_bytes:
  assumes "LENGTH('a) = n * 8"
  shows "le_value (le_bytes n v) = (v :: 'a::len word)"
proof (rule bit_word_eqI)
  fix k assume "k < LENGTH('a)"
  moreover from this assms have "k div 8 < n" by (simp add: div_less_iff_less_mult)
  ultimately show "bit (le_value (le_bytes n v) :: 'a word) k = bit v k"
    by (simp add: bit_le_value le_bytes_def bit_simps)
qed

lemma le_bytes_le_value:
  assumes "LENGTH('a) = length bs * 8"
  shows "le_bytes (length bs) (le_value bs :: 'a::len word) = bs"
proof (rule nth_equalityI)
  fix i assume "i < length (le_bytes (length bs) (le_value bs :: 'a word))"
  then have i: "i < length bs" by simp
  have "bit (ucast (drop_bit (i * 8) (le_value bs :: 'a word)) :: u8) k = bit (bs ! i) k" if "k < 8" for k
  proof -
    have "i * 8 + k < LENGTH('a)" and "(i * 8 + k) div 8 = i" and "(i * 8 + k) mod 8 = k"
      using i that assms by auto
    with i that show ?thesis by (simp add: bit_simps bit_le_value)
  qed
  with i show "le_bytes (length bs) (le_value bs :: 'a word) ! i = bs ! i"
    by (auto simp: le_bytes_def intro!: bit_word_eqI)
qed simp

section \<open>The operations as overwrites and field reads\<close>

lemma put_u16_overwrite: "off + 2 \<le> length bs \<Longrightarrow> put_u16 bs off v = overwrite bs off (le_bytes 2 v)"
  using foldl_update_overwrite [of off 2 bs "\<lambda>i. ucast (drop_bit (i * 8) v)"]
  by (simp add: put_u16_def le_bytes_def ucast_and_ff upt_rec numeral_2_eq_2)

lemma put_u32_overwrite: "off + 4 \<le> length bs \<Longrightarrow> put_u32 bs off v = overwrite bs off (le_bytes 4 v)"
  by (simp add: put_u32_def le_bytes_def ucast_and_ff foldl_update_overwrite)

lemma put_u64_overwrite: "off + 8 \<le> length bs \<Longrightarrow> put_u64 bs off v = overwrite bs off (le_bytes 8 v)"
  by (simp add: put_u64_def le_bytes_def ucast_and_ff foldl_update_overwrite)

lemma get_u16_field: "off + 2 \<le> length bs \<Longrightarrow> get_u16 bs off = le_value (field off 2 bs)"
  by (simp add: get_u16_def le_value_def length_field nth_field upt_rec numeral_2_eq_2)

lemma foldl_cong_index:
  "(\<And>i. i \<in> set is \<Longrightarrow> f i = g i) \<Longrightarrow>
   foldl (\<lambda>v i. v OR f i) a is = foldl (\<lambda>v i. v OR g i) (a :: 'a::len word) is"
  by (induction "is" arbitrary: a) auto

lemma get_u32_field: "off + 4 \<le> length bs \<Longrightarrow> get_u32 bs off = le_value (field off 4 bs)"
  unfolding get_u32_def le_value_def
  by (simp only: length_field) (auto intro!: foldl_cong_index simp: nth_field)

lemma get_u64_field: "off + 8 \<le> length bs \<Longrightarrow> get_u64 bs off = le_value (field off 8 bs)"
  unfolding get_u64_def le_value_def
  by (simp only: length_field) (auto intro!: foldl_cong_index simp: nth_field)

lemma uint64_to_le_bytes_eq: "uint64_to_le_bytes v = le_bytes 8 v"
proof -
  have "uint64_to_le_bytes v = overwrite (replicate 8 0) 0 (map (\<lambda>i. ucast (drop_bit (8 * i) v)) [0..<8])"
    using foldl_update_overwrite [of 0 8 "replicate 8 (0::u8)" "\<lambda>i. ucast (drop_bit (8 * i) v)"]
    by (simp add: uint64_to_le_bytes_def ucast_and_ff)
  then show ?thesis by (simp add: overwrite_def le_bytes_def mult.commute)
qed

lemma le64_from_bytes_eq: "length p = 8 \<Longrightarrow> le64_from_bytes p = le_value p"
  by (simp add: le64_from_bytes_def le_value_def mult.commute)

lemma length_uint64_to_le_bytes [simp]: "length (uint64_to_le_bytes v) = 8"
  by (simp add: uint64_to_le_bytes_eq)

text \<open>
  The acknowledgement payload carries the sequence number exactly.
\<close>

lemma le64_roundtrip [simp]: "le64_from_bytes (uint64_to_le_bytes v) = v"
  by (simp add: uint64_to_le_bytes_eq le64_from_bytes_eq le_value_le_bytes)

lemma le64_roundtrip_bytes: "length p = 8 \<Longrightarrow> uint64_to_le_bytes (le64_from_bytes p) = p"
  using le_bytes_le_value [of p, where ?'a = 64] by (simp add: uint64_to_le_bytes_eq le64_from_bytes_eq)

end
