(* ===== verification/Format.thy ===== *)
theory Format
  imports Bytes
begin

text \<open>
  The frame header of src/neotape_format.cpp and include/neotape/format.hpp:
  its in-memory record, the 512-byte image, the frame-local rules, and the
  integrity check of a received record.

  BLAKE3 is third-party code and is the parameter \<open>H\<close> of every definition
  that hashes; incremental updates hash the concatenation of the pieces.
  The exceptions of the code are the constructors of \<open>format_error\<close>.
\<close>

unbundle bit_operations_syntax

section \<open>Constants\<close>

definition fixed_header_size :: nat where "fixed_header_size = 512"
definition magic :: bytes where
  "magic = [0x4E, 0x65, 0x6F, 0x54, 0x61, 0x70, 0x65, 0x00]"
definition header_version :: u8 where "header_version = 1"
definition min_block_size :: u32 where "min_block_size = 4096"
definition max_block_size :: u32 where "max_block_size = 8 * 1024 * 1024"
definition nt_uuid_size :: nat where "nt_uuid_size = 37"
definition archive_label_size :: nat where "archive_label_size = 65"
definition signature_size :: nat where "signature_size = 72"
definition sideband_size :: nat where "sideband_size = 128"
definition hash_size :: nat where "hash_size = 32"

definition off_magic :: nat where "off_magic = 0"
definition off_header_version :: nat where "off_header_version = 8"
definition off_channel_type :: nat where "off_channel_type = 9"
definition off_volume_block_size_kib :: nat where "off_volume_block_size_kib = 10"
definition off_archive_uuid :: nat where "off_archive_uuid = 12"
definition off_archive_label :: nat where "off_archive_label = 49"
definition off_volume_seq_num :: nat where "off_volume_seq_num = 114"
definition off_global_frame_seq_num :: nat where "off_global_frame_seq_num = 122"
definition off_slice_seq_num :: nat where "off_slice_seq_num = 130"
definition off_channel_frame_seq_num :: nat where "off_channel_frame_seq_num = 138"
definition off_frame_payload_size :: nat where "off_frame_payload_size = 146"
definition off_flags :: nat where "off_flags = 150"
definition off_reserved :: nat where "off_reserved = 158"
definition reserved_size :: nat where "reserved_size = 122"
definition off_sideband :: nat where "off_sideband = 280"
definition off_signature :: nat where "off_signature = 408"
definition off_frame_hash :: nat where "off_frame_hash = 480"

lemmas format_consts =
  fixed_header_size_def nt_uuid_size_def archive_label_size_def signature_size_def
  sideband_size_def hash_size_def off_magic_def off_header_version_def
  off_channel_type_def off_volume_block_size_kib_def off_archive_uuid_def
  off_archive_label_def off_volume_seq_num_def off_global_frame_seq_num_def
  off_slice_seq_num_def off_channel_frame_seq_num_def off_frame_payload_size_def
  off_flags_def off_reserved_def reserved_size_def off_sideband_def
  off_signature_def off_frame_hash_def

definition frame_flag_end :: u64 where "frame_flag_end = push_bit 0 1"
definition frame_flag_signed :: u64 where "frame_flag_signed = push_bit 1 1"
definition frame_flag_sideband :: u64 where "frame_flag_sideband = push_bit 2 1"
definition frame_flag_clean_end :: u64 where "frame_flag_clean_end = push_bit 63 1"

definition has_frame_flag_end :: "u64 \<Rightarrow> bool" where
  "has_frame_flag_end flags \<longleftrightarrow> flags AND frame_flag_end \<noteq> 0"
definition has_frame_flag_signed :: "u64 \<Rightarrow> bool" where
  "has_frame_flag_signed flags \<longleftrightarrow> flags AND frame_flag_signed \<noteq> 0"
definition has_frame_flag_sideband :: "u64 \<Rightarrow> bool" where
  "has_frame_flag_sideband flags \<longleftrightarrow> flags AND frame_flag_sideband \<noteq> 0"
definition has_frame_flag_clean_end :: "u64 \<Rightarrow> bool" where
  "has_frame_flag_clean_end flags \<longleftrightarrow> flags AND frame_flag_clean_end \<noteq> 0"

section \<open>Header record\<close>

datatype channel = CH_CONTENT | CH_METADATA | ARCHIVE_END

fun channel_code :: "channel \<Rightarrow> u8" where
  "channel_code CH_CONTENT = 1"
| "channel_code CH_METADATA = 2"
| "channel_code ARCHIVE_END = 255"

record frame_header =
  channel_type :: channel
  volume_block_size_kib :: u16
  archive_uuid :: bytes
  archive_label :: bytes
  volume_seq_num :: u64
  global_frame_seq_num :: u64
  slice_seq_num :: u64
  channel_frame_seq_num :: u64
  frame_payload_size :: u32
  flags :: u64
  sideband_data :: bytes
  signature :: bytes
  frame_hash :: bytes

text \<open>The default-constructed header of \<open>FrameHeader h;\<close>.\<close>

definition default_header :: frame_header where
  "default_header = \<lparr>channel_type = CH_CONTENT, volume_block_size_kib = 0,
     archive_uuid = [], archive_label = [], volume_seq_num = 0,
     global_frame_seq_num = 0, slice_seq_num = 0, channel_frame_seq_num = 0,
     frame_payload_size = 0, flags = 0, sideband_data = replicate sideband_size 0,
     signature = replicate signature_size 0, frame_hash = replicate hash_size 0\<rparr>"

datatype format_error =
    FixedStringWithoutNul
  | UnsupportedChannelType
  | ReservedBytesNonZero
  | UnsignedFrameWithSignature
  | InvalidVolumeBlockSize
  | PayloadExceedsCapacity
  | ReservedFlagBitsSet
  | SidebandNotSupported
  | ArchiveEndMissingFlags
  | ArchiveEndNonZeroSlice
  | ArchiveEndNonZeroChannelSeq
  | ArchiveEndCarriesPayload
  | CleanEndOutsideArchiveEnd
  | NonEndPayloadNotFull
  | ShortFixedHeader
  | BadMagic
  | UnsupportedHeaderVersion u8
  | RecordShorterThanHeader

section \<open>Field helpers\<close>

text \<open>
  \<open>put_fixed_string\<close> copies at most \<open>field_size - 1\<close> bytes and zero-fills the
  rest; \<open>get_fixed_string\<close> reads up to the first NUL.
\<close>

definition put_fixed_string :: "bytes \<Rightarrow> nat \<Rightarrow> nat \<Rightarrow> bytes \<Rightarrow> bytes" where
  "put_fixed_string bs off field_size value =
     (let n = min (length value) (field_size - 1)
      in overwrite (overwrite bs off (take n value)) (off + n) (replicate (field_size - n) 0))"

definition get_fixed_string :: "bytes \<Rightarrow> nat \<Rightarrow> nat \<Rightarrow> format_error + bytes" where
  "get_fixed_string bs off field_size =
     (if bs ! (off + field_size - 1) \<noteq> 0 then Inl FixedStringWithoutNul
      else Inr (takeWhile (\<lambda>c. c \<noteq> 0) (field off field_size bs)))"

definition get_channel_type :: "u8 \<Rightarrow> format_error + channel" where
  "get_channel_type value =
     (if value = channel_code CH_CONTENT then Inr CH_CONTENT
      else if value = channel_code CH_METADATA then Inr CH_METADATA
      else if value = channel_code ARCHIVE_END then Inr ARCHIVE_END
      else Inl UnsupportedChannelType)"

definition validate_reserved :: "bytes \<Rightarrow> format_error + unit" where
  "validate_reserved data =
     require (list_all (\<lambda>i. data ! i = 0) [off_reserved..<off_reserved + reserved_size])
       ReservedBytesNonZero"

definition has_nonzero_signature :: "bytes \<Rightarrow> bool" where
  "has_nonzero_signature sig \<longleftrightarrow> list_ex (\<lambda>b. b \<noteq> 0) sig"

definition validate_serialized_signature :: "frame_header \<Rightarrow> format_error + unit" where
  "validate_serialized_signature h =
     (if \<not> has_frame_flag_signed (flags h) \<and> has_nonzero_signature (signature h)
      then Inl UnsignedFrameWithSignature else Inr ())"

definition decoded_block_size :: "frame_header \<Rightarrow> u32" where
  "decoded_block_size h = ucast (volume_block_size_kib h) * 1024"

definition valid_block_size :: "u32 \<Rightarrow> bool" where
  "valid_block_size block_size \<longleftrightarrow>
     block_size \<ge> min_block_size \<and> block_size \<le> max_block_size \<and> block_size mod 1024 = 0"

section \<open>Frame-local rules\<close>

text \<open>
  The subtraction \<open>block_size - fixed_header_size\<close> is on \<open>size_t\<close> in the code; it
  is reached only for a valid block size (at least 4096), so it does not wrap.
\<close>

definition payload_limit :: "frame_header \<Rightarrow> nat" where
  "payload_limit h = unat (decoded_block_size h) - fixed_header_size"

definition allowed_flags :: u64 where
  "allowed_flags = frame_flag_end OR frame_flag_signed OR frame_flag_sideband OR frame_flag_clean_end"

definition validate_header :: "frame_header \<Rightarrow> format_error + unit" where
  "validate_header h =
    (if \<not> valid_block_size (decoded_block_size h) then Inl InvalidVolumeBlockSize
     else if unat (frame_payload_size h) > payload_limit h then Inl PayloadExceedsCapacity
     else if flags h AND NOT allowed_flags \<noteq> 0 then Inl ReservedFlagBitsSet
     else if has_frame_flag_sideband (flags h) \<or> list_ex (\<lambda>b. b \<noteq> 0) (sideband_data h)
       then Inl SidebandNotSupported
     else if channel_type h = ARCHIVE_END then
       (if \<not> has_frame_flag_end (flags h) \<or> \<not> has_frame_flag_clean_end (flags h)
          then Inl ArchiveEndMissingFlags
        else if slice_seq_num h \<noteq> 0 then Inl ArchiveEndNonZeroSlice
        else if channel_frame_seq_num h \<noteq> 0 then Inl ArchiveEndNonZeroChannelSeq
        else if frame_payload_size h \<noteq> 0 then Inl ArchiveEndCarriesPayload
        else Inr ())
     else if has_frame_flag_clean_end (flags h) then Inl CleanEndOutsideArchiveEnd
     else if \<not> has_frame_flag_end (flags h) \<and> unat (frame_payload_size h) \<noteq> payload_limit h
       then Inl NonEndPayloadNotFull
     else Inr ())"

section \<open>Parsing and serializing the fixed header\<close>

definition has_frame_magic :: "bytes \<Rightarrow> bool" where
  "has_frame_magic data \<longleftrightarrow>
     length data \<ge> off_magic + length magic \<and> field off_magic (length magic) data = magic"

definition header_of_image :: "bytes \<Rightarrow> channel \<Rightarrow> bytes \<Rightarrow> bytes \<Rightarrow> frame_header" where
  "header_of_image data ch uuid label = \<lparr>
     channel_type = ch,
     volume_block_size_kib = get_u16 data off_volume_block_size_kib,
     archive_uuid = uuid,
     archive_label = label,
     volume_seq_num = get_u64 data off_volume_seq_num,
     global_frame_seq_num = get_u64 data off_global_frame_seq_num,
     slice_seq_num = get_u64 data off_slice_seq_num,
     channel_frame_seq_num = get_u64 data off_channel_frame_seq_num,
     frame_payload_size = get_u32 data off_frame_payload_size,
     flags = get_u64 data off_flags,
     sideband_data = field off_sideband sideband_size data,
     signature = field off_signature signature_size data,
     frame_hash = field off_frame_hash hash_size data\<rparr>"

definition parse_fixed_header :: "bytes \<Rightarrow> format_error + frame_header" where
  "parse_fixed_header data =
    (if length data < fixed_header_size then Inl ShortFixedHeader
     else if \<not> has_frame_magic data then Inl BadMagic
     else if data ! off_header_version \<noteq> header_version
       then Inl (UnsupportedHeaderVersion (data ! off_header_version))
     else bind_res (validate_reserved data) (\<lambda>_.
       bind_res (get_channel_type (data ! off_channel_type)) (\<lambda>ch.
       bind_res (get_fixed_string data off_archive_uuid nt_uuid_size) (\<lambda>uuid.
       bind_res (get_fixed_string data off_archive_label archive_label_size) (\<lambda>label.
         let h = header_of_image data ch uuid label
         in bind_res (validate_header h) (\<lambda>_. Inr h))))))"

definition header_image :: "frame_header \<Rightarrow> bytes" where
  "header_image h =
    (let b = overwrite (replicate fixed_header_size 0) off_magic magic;
         b = b[off_header_version := header_version];
         b = b[off_channel_type := channel_code (channel_type h)];
         b = put_u16 b off_volume_block_size_kib (volume_block_size_kib h);
         b = put_fixed_string b off_archive_uuid nt_uuid_size (archive_uuid h);
         b = put_fixed_string b off_archive_label archive_label_size (archive_label h);
         b = put_u64 b off_volume_seq_num (volume_seq_num h);
         b = put_u64 b off_global_frame_seq_num (global_frame_seq_num h);
         b = put_u64 b off_slice_seq_num (slice_seq_num h);
         b = put_u64 b off_channel_frame_seq_num (channel_frame_seq_num h);
         b = put_u32 b off_frame_payload_size (frame_payload_size h);
         b = put_u64 b off_flags (flags h);
         b = overwrite b off_sideband (sideband_data h);
         b = overwrite b off_signature (signature h)
     in overwrite b off_frame_hash (frame_hash h))"

definition serialize_frame_header :: "frame_header \<Rightarrow> format_error + bytes" where
  "serialize_frame_header h =
     bind_res (validate_serialized_signature h) (\<lambda>_.
       let image = header_image h
       in bind_res (parse_fixed_header image) (\<lambda>_. Inr image))"

section \<open>Record hashing\<close>

definition canonical_header :: "bytes \<Rightarrow> u64 \<Rightarrow> bytes" where
  "canonical_header data vol =
    (let c = put_u64 (take fixed_header_size data) off_volume_seq_num vol
     in overwrite c off_signature (replicate (fixed_header_size - off_signature) 0))"

definition frame_hash_with_volume_seq ::
  "(bytes \<Rightarrow> bytes) \<Rightarrow> bytes \<Rightarrow> u64 \<Rightarrow> format_error + bytes" where
  "frame_hash_with_volume_seq H data vol =
    (if length data < fixed_header_size then Inl RecordShorterThanHeader
     else Inr (H (canonical_header data vol @ drop fixed_header_size data)))"

definition compute_frame_hash :: "(bytes \<Rightarrow> bytes) \<Rightarrow> bytes \<Rightarrow> format_error + bytes" where
  "compute_frame_hash H data =
     frame_hash_with_volume_seq H data (get_u64 data off_volume_seq_num)"

record checked_frame =
  header :: frame_header
  size_ok :: bool
  hash_ok :: bool

definition check_frame :: "(bytes \<Rightarrow> bytes) \<Rightarrow> bytes \<Rightarrow> format_error + checked_frame" where
  "check_frame H data =
     bind_res (parse_fixed_header data) (\<lambda>h.
       let size_ok = (length data = unat (decoded_block_size h))
       in if size_ok
          then bind_res (compute_frame_hash H data) (\<lambda>d.
                 Inr \<lparr>header = h, size_ok = True, hash_ok = (d = frame_hash h)\<rparr>)
          else Inr \<lparr>header = h, size_ok = False, hash_ok = False\<rparr>)"

fun channel_type_name :: "channel \<Rightarrow> string" where
  "channel_type_name CH_CONTENT = ''CH_CONTENT''"
| "channel_type_name CH_METADATA = ''CH_METADATA''"
| "channel_type_name ARCHIVE_END = ''ARCHIVE_END''"

section \<open>Layout of the header image\<close>

text \<open>
  The sizes of the fixed arrays are part of the C++ type; here they are the
  predicate \<open>arrays_ok\<close>.
\<close>

definition arrays_ok :: "frame_header \<Rightarrow> bool" where
  "arrays_ok h \<longleftrightarrow> length (sideband_data h) = sideband_size \<and>
     length (signature h) = signature_size \<and> length (frame_hash h) = hash_size"

definition fixed_string :: "nat \<Rightarrow> bytes \<Rightarrow> bytes" where
  "fixed_string n v = take (n - 1) v @ replicate (n - min (length v) (n - 1)) 0"

definition canon_string :: "nat \<Rightarrow> bytes \<Rightarrow> bytes" where
  "canon_string n v = takeWhile (\<lambda>c. c \<noteq> 0) (take (n - 1) v)"

definition canon_header :: "frame_header \<Rightarrow> frame_header" where
  "canon_header h = h\<lparr>archive_uuid := canon_string nt_uuid_size (archive_uuid h),
                     archive_label := canon_string archive_label_size (archive_label h)\<rparr>"

definition header_layout :: "frame_header \<Rightarrow> bytes" where
  "header_layout h =
     magic @ [header_version] @ [channel_code (channel_type h)]
     @ le_bytes 2 (volume_block_size_kib h)
     @ fixed_string nt_uuid_size (archive_uuid h)
     @ fixed_string archive_label_size (archive_label h)
     @ le_bytes 8 (volume_seq_num h) @ le_bytes 8 (global_frame_seq_num h)
     @ le_bytes 8 (slice_seq_num h) @ le_bytes 8 (channel_frame_seq_num h)
     @ le_bytes 4 (frame_payload_size h) @ le_bytes 8 (flags h)
     @ replicate reserved_size 0
     @ sideband_data h @ signature h @ frame_hash h"

lemma length_fixed_string [simp]: "0 < n \<Longrightarrow> length (fixed_string n v) = n"
  by (simp add: fixed_string_def min_def)

lemma length_magic [simp]: "length magic = 8"
  by (simp add: magic_def)

lemma length_header_layout: "arrays_ok h \<Longrightarrow> length (header_layout h) = fixed_header_size"
  by (simp add: header_layout_def arrays_ok_def format_consts)

lemma overwrite_zeros:
  "length p = off \<Longrightarrow> length xs \<le> n \<Longrightarrow>
   overwrite (p @ replicate n 0) off xs = p @ xs @ replicate (n - length xs) 0"
  by (simp add: overwrite_def)

lemma update_zeros:
  "length p = off \<Longrightarrow> 0 < n \<Longrightarrow>
   (p @ replicate n 0)[off := x] = p @ [x] @ replicate (n - 1) 0"
  by (cases n) (simp_all add: list_update_append)

lemma put_fixed_string_zeros:
  assumes "length p = off" and "0 < m" and "m \<le> n"
  shows "put_fixed_string (p @ replicate n 0) off m v = p @ fixed_string m v @ replicate (n - m) 0"
proof -
  let ?k = "min (length v) (m - 1)"
  have k: "?k < m" using assms by (simp add: min_def) linarith
  have "overwrite (p @ replicate n 0) off (take ?k v) = (p @ take ?k v) @ replicate (n - ?k) 0"
    using assms k by (subst overwrite_zeros) auto
  moreover have "overwrite ((p @ take ?k v) @ replicate (n - ?k) 0) (off + ?k) (replicate (m - ?k) 0)
      = (p @ take ?k v) @ replicate (m - ?k) 0 @ replicate (n - ?k - (m - ?k)) 0"
    using assms k by (subst overwrite_zeros) auto
  moreover have "take ?k v = take (m - 1) v" by (simp add: min_def)
  moreover have "n - ?k - (m - ?k) = n - m" using assms k by simp
  ultimately show ?thesis by (simp add: put_fixed_string_def Let_def fixed_string_def)
qed

lemma put_u16_zeros:
  "length p = off \<Longrightarrow> 2 \<le> n \<Longrightarrow>
   put_u16 (p @ replicate n 0) off v = p @ le_bytes 2 v @ replicate (n - 2) 0"
  by (simp add: put_u16_overwrite overwrite_zeros)

lemma put_u32_zeros:
  "length p = off \<Longrightarrow> 4 \<le> n \<Longrightarrow>
   put_u32 (p @ replicate n 0) off v = p @ le_bytes 4 v @ replicate (n - 4) 0"
  by (simp add: put_u32_overwrite overwrite_zeros)

lemma put_u64_zeros:
  "length p = off \<Longrightarrow> 8 \<le> n \<Longrightarrow>
   put_u64 (p @ replicate n 0) off v = p @ le_bytes 8 v @ replicate (n - 8) 0"
  by (simp add: put_u64_overwrite overwrite_zeros)

lemma header_image_layout:
  assumes "arrays_ok h"
  shows "header_image h = header_layout h"
proof -
  define p where "p = magic"
  define q where "q = p @ [header_version] @ [channel_code (channel_type h)] @
    le_bytes 2 (volume_block_size_kib h)"
  define r where "r = q @ fixed_string nt_uuid_size (archive_uuid h) @
    fixed_string archive_label_size (archive_label h)"
  define t where "t = r @ le_bytes 8 (volume_seq_num h) @ le_bytes 8 (global_frame_seq_num h)
     @ le_bytes 8 (slice_seq_num h) @ le_bytes 8 (channel_frame_seq_num h)"
  define u where "u = t @ le_bytes 4 (frame_payload_size h) @ le_bytes 8 (flags h)"
  have len: "length p = 8" "length q = 12" "length r = 114" "length t = 146" "length u = 158"
    by (simp_all add: p_def q_def r_def t_def u_def nt_uuid_size_def archive_label_size_def)
  have 1: "overwrite (replicate fixed_header_size 0) off_magic magic = p @ replicate 504 0"
    using overwrite_zeros [of "[]" 0 magic 512] by (simp add: p_def format_consts)
  have 2: "put_u16 ((p @ replicate 504 0)[off_header_version := header_version,
      off_channel_type := channel_code (channel_type h)])
      off_volume_block_size_kib (volume_block_size_kib h) = q @ replicate 500 0"
    using update_zeros [of p 8 504 header_version]
      update_zeros [of "p @ [header_version]" 9 503 "channel_code (channel_type h)"]
      put_u16_zeros [of "p @ [header_version] @ [channel_code (channel_type h)]" 10 502
        "volume_block_size_kib h"] len
    by (simp add: off_header_version_def off_channel_type_def off_volume_block_size_kib_def q_def)
  have 3: "put_fixed_string (put_fixed_string (q @ replicate 500 0) off_archive_uuid nt_uuid_size
      (archive_uuid h)) off_archive_label archive_label_size (archive_label h) = r @ replicate 398 0"
    using put_fixed_string_zeros [of q 12 37 500 "archive_uuid h"]
      put_fixed_string_zeros [of "q @ fixed_string 37 (archive_uuid h)" 49 65 463 "archive_label h"] len
    by (simp add: off_archive_uuid_def off_archive_label_def nt_uuid_size_def archive_label_size_def r_def)
  have 4: "put_u64 (put_u64 (put_u64 (put_u64 (r @ replicate 398 0) off_volume_seq_num (volume_seq_num h))
      off_global_frame_seq_num (global_frame_seq_num h)) off_slice_seq_num (slice_seq_num h))
      off_channel_frame_seq_num (channel_frame_seq_num h) = t @ replicate 366 0"
    using put_u64_zeros [of r 114 398 "volume_seq_num h"]
      put_u64_zeros [of "r @ le_bytes 8 (volume_seq_num h)" 122 390 "global_frame_seq_num h"]
      put_u64_zeros [of "r @ le_bytes 8 (volume_seq_num h) @ le_bytes 8 (global_frame_seq_num h)"
        130 382 "slice_seq_num h"]
      put_u64_zeros [of "r @ le_bytes 8 (volume_seq_num h) @ le_bytes 8 (global_frame_seq_num h) @
        le_bytes 8 (slice_seq_num h)" 138 374 "channel_frame_seq_num h"] len
    by (simp add: off_volume_seq_num_def off_global_frame_seq_num_def off_slice_seq_num_def
        off_channel_frame_seq_num_def t_def)
  have 5: "put_u64 (put_u32 (t @ replicate 366 0) off_frame_payload_size (frame_payload_size h))
      off_flags (flags h) = u @ replicate 354 0"
    using put_u32_zeros [of t 146 366 "frame_payload_size h"]
      put_u64_zeros [of "t @ le_bytes 4 (frame_payload_size h)" 150 362 "flags h"] len
    by (simp add: off_frame_payload_size_def off_flags_def u_def)
  have z: "replicate 354 (0::u8) = replicate 122 0 @ replicate 232 0"
    by (simp flip: replicate_add)
  have 6: "overwrite (overwrite (overwrite (u @ replicate 354 0) off_sideband (sideband_data h))
      off_signature (signature h)) off_frame_hash (frame_hash h) = header_layout h"
    using assms len z
      overwrite_zeros [of "u @ replicate 122 0" 280 "sideband_data h" 232]
      overwrite_zeros [of "u @ replicate 122 0 @ sideband_data h" 408 "signature h" 104]
      overwrite_zeros [of "u @ replicate 122 0 @ sideband_data h @ signature h" 480 "frame_hash h" 32]
    by (simp add: arrays_ok_def sideband_size_def signature_size_def hash_size_def off_sideband_def
        off_signature_def off_frame_hash_def header_layout_def u_def t_def r_def q_def p_def
        reserved_size_def)
  show ?thesis
    unfolding header_image_def Let_def 1 2 3 4 5 6 ..
qed

section \<open>Reading the image back\<close>

lemma layout_fields:
  assumes "arrays_ok h"
  shows "field off_magic 8 (header_layout h) = magic"
    and "header_layout h ! off_header_version = header_version"
    and "header_layout h ! off_channel_type = channel_code (channel_type h)"
    and "field off_volume_block_size_kib 2 (header_layout h) = le_bytes 2 (volume_block_size_kib h)"
    and "field off_archive_uuid nt_uuid_size (header_layout h) = fixed_string nt_uuid_size (archive_uuid h)"
    and "field off_archive_label archive_label_size (header_layout h) =
         fixed_string archive_label_size (archive_label h)"
    and "field off_volume_seq_num 8 (header_layout h) = le_bytes 8 (volume_seq_num h)"
    and "field off_global_frame_seq_num 8 (header_layout h) = le_bytes 8 (global_frame_seq_num h)"
    and "field off_slice_seq_num 8 (header_layout h) = le_bytes 8 (slice_seq_num h)"
    and "field off_channel_frame_seq_num 8 (header_layout h) = le_bytes 8 (channel_frame_seq_num h)"
    and "field off_frame_payload_size 4 (header_layout h) = le_bytes 4 (frame_payload_size h)"
    and "field off_flags 8 (header_layout h) = le_bytes 8 (flags h)"
    and "field off_reserved reserved_size (header_layout h) = replicate reserved_size 0"
    and "field off_sideband sideband_size (header_layout h) = sideband_data h"
    and "field off_signature signature_size (header_layout h) = signature h"
    and "field off_frame_hash hash_size (header_layout h) = frame_hash h"
  using assms
  by (simp_all add: header_layout_def field_def format_consts arrays_ok_def nth_append)

lemma nth_off_field: "off + n \<le> length bs \<Longrightarrow> 0 < n \<Longrightarrow> bs ! (off + n - 1) = last (field off n bs)"
proof -
  assume a: "off + n \<le> length bs" "0 < n"
  then have "field off n bs \<noteq> []" and "length (field off n bs) = n"
    by (auto simp: length_field simp flip: length_greater_0_conv)
  then have "last (field off n bs) = field off n bs ! (n - 1)" by (simp add: last_conv_nth)
  also have "\<dots> = bs ! (off + (n - 1))" using a by (intro nth_field) auto
  also have "off + (n - 1) = off + n - 1" using a by simp
  finally show ?thesis by simp
qed

lemma last_fixed_string: "0 < n \<Longrightarrow> last (fixed_string n v) = 0"
  by (simp add: fixed_string_def min_def)

lemma takeWhile_append_zeros:
  "takeWhile (\<lambda>c. c \<noteq> 0) (xs @ replicate k (0::u8)) = takeWhile (\<lambda>c. c \<noteq> 0) xs"
  by (induction xs) (auto simp: takeWhile_eq_Nil_iff)

lemma takeWhile_fixed_string: "takeWhile (\<lambda>c. c \<noteq> 0) (fixed_string n v) = canon_string n v"
  by (simp add: fixed_string_def canon_string_def takeWhile_append_zeros)

lemma get_fixed_string_field:
  assumes "off + n \<le> length bs" and "0 < n" and "field off n bs = fixed_string n v"
  shows "get_fixed_string bs off n = Inr (canon_string n v)"
proof -
  have "bs ! (off + n - 1) = 0"
    using nth_off_field [OF assms(1,2)] last_fixed_string [OF assms(2), of v] assms(3) by simp
  then show ?thesis by (simp only: get_fixed_string_def assms(3) takeWhile_fixed_string) simp
qed

lemma get_channel_type_code [simp]: "get_channel_type (channel_code c) = Inr c"
  by (cases c) (simp_all add: get_channel_type_def)

lemma get_channel_type_Inr: "get_channel_type b = Inr c \<longleftrightarrow> b = channel_code c"
  by (cases c) (auto simp: get_channel_type_def)

lemma validate_reserved_field:
  assumes "length bs \<ge> off_reserved + reserved_size"
  shows "validate_reserved bs = Inr u \<longleftrightarrow> field off_reserved reserved_size bs = replicate reserved_size 0"
proof -
  have "list_all (\<lambda>i. bs ! i = 0) [off_reserved..<off_reserved + reserved_size] \<longleftrightarrow>
        (\<forall>i<reserved_size. bs ! (off_reserved + i) = 0)"
    by (auto simp: list_all_iff) (metis add_diff_inverse_nat add_less_cancel_left not_less)
  also have "\<dots> \<longleftrightarrow> field off_reserved reserved_size bs = replicate reserved_size 0"
    using assms by (auto simp: list_eq_iff_nth_eq length_field nth_field)
  finally show ?thesis by (simp add: validate_reserved_def)
qed

lemma validate_header_canon [simp]: "validate_header (canon_header h) = validate_header h"
  by (simp add: validate_header_def canon_header_def decoded_block_size_def payload_limit_def)

lemma has_frame_magic_layout: "arrays_ok h \<Longrightarrow> has_frame_magic (header_layout h)"
  using layout_fields(1) [of h]
  by (simp add: has_frame_magic_def length_header_layout fixed_header_size_def off_magic_def)

lemma header_of_layout:
  assumes "arrays_ok h"
  shows "header_of_image (header_layout h @ rest) (channel_type h) (canon_string nt_uuid_size (archive_uuid h))
     (canon_string archive_label_size (archive_label h)) = canon_header h"
  using assms layout_fields [OF assms] length_header_layout [OF assms]
  by (simp add: header_of_image_def canon_header_def get_u16_field get_u32_field get_u64_field
      field_append1 le_value_le_bytes format_consts)

lemma parse_layout_append:
  assumes "arrays_ok h"
  shows "parse_fixed_header (header_layout h @ rest) = bind_res (validate_header h) (\<lambda>_. Inr (canon_header h))"
proof -
  let ?b = "header_layout h @ rest"
  note L = layout_fields [OF assms] length_header_layout [OF assms]
  have magic: "has_frame_magic ?b"
    using L by (simp add: has_frame_magic_def off_magic_def field_append1 fixed_header_size_def)
  have res: "validate_reserved ?b = Inr ()"
    using L by (subst validate_reserved_field) (simp_all add: field_append1 format_consts)
  have uuid: "get_fixed_string ?b off_archive_uuid nt_uuid_size = Inr (canon_string nt_uuid_size (archive_uuid h))"
    using L by (intro get_fixed_string_field) (simp_all add: field_append1 format_consts)
  have label: "get_fixed_string ?b off_archive_label archive_label_size =
      Inr (canon_string archive_label_size (archive_label h))"
    using L by (intro get_fixed_string_field) (simp_all add: field_append1 format_consts)
  have ver: "?b ! off_header_version = header_version" "?b ! off_channel_type = channel_code (channel_type h)"
    using L by (simp_all add: nth_append format_consts)
  show ?thesis
    using magic res uuid label ver L(17)
    by (simp add: parse_fixed_header_def header_of_layout [OF assms] Let_def)
qed

lemma parse_layout:
  "arrays_ok h \<Longrightarrow> parse_fixed_header (header_layout h) = bind_res (validate_header h) (\<lambda>_. Inr (canon_header h))"
  using parse_layout_append [of h "[]"] by simp

lemma serialize_eq:
  "arrays_ok h \<Longrightarrow> serialize_frame_header h =
   bind_res (validate_serialized_signature h) (\<lambda>_. bind_res (validate_header h) (\<lambda>_. Inr (header_layout h)))"
  by (cases "validate_header h")
    (simp_all add: serialize_frame_header_def header_image_layout parse_layout Let_def)

lemma serialize_Inr:
  "arrays_ok h \<Longrightarrow> serialize_frame_header h = Inr bs \<longleftrightarrow>
   validate_serialized_signature h = Inr () \<and> validate_header h = Inr () \<and> bs = header_layout h"
  by (auto simp: serialize_eq bind_res_Inr)

section \<open>What a parsed header guarantees\<close>

lemma parse_InrD:
  assumes "parse_fixed_header data = Inr h"
  shows "fixed_header_size \<le> length data" and "has_frame_magic data"
    and "data ! off_header_version = header_version"
    and "data ! off_channel_type = channel_code (channel_type h)"
    and "validate_reserved data = Inr ()"
    and "get_fixed_string data off_archive_uuid nt_uuid_size = Inr (archive_uuid h)"
    and "get_fixed_string data off_archive_label archive_label_size = Inr (archive_label h)"
    and "h = header_of_image data (channel_type h) (archive_uuid h) (archive_label h)"
    and "validate_header h = Inr ()"
  using assms
  by (auto simp: parse_fixed_header_def bind_res_Inr Let_def get_channel_type_Inr
      header_of_image_def split: if_splits)

lemma parse_arrays_ok:
  assumes "parse_fixed_header data = Inr h"
  shows "arrays_ok h"
proof -
  have "512 \<le> length data" using parse_InrD(1) [OF assms] by (simp add: fixed_header_size_def)
  then show ?thesis
    by (subst parse_InrD(8) [OF assms])
      (simp add: arrays_ok_def header_of_image_def length_field format_consts)
qed

lemma image_split:
  assumes "fixed_header_size \<le> length data"
  shows "take fixed_header_size data =
     field off_magic 8 data @ field off_header_version 1 data @ field off_channel_type 1 data
     @ field off_volume_block_size_kib 2 data @ field off_archive_uuid nt_uuid_size data
     @ field off_archive_label archive_label_size data
     @ field off_volume_seq_num 8 data @ field off_global_frame_seq_num 8 data
     @ field off_slice_seq_num 8 data @ field off_channel_frame_seq_num 8 data
     @ field off_frame_payload_size 4 data @ field off_flags 8 data
     @ field off_reserved reserved_size data @ field off_sideband sideband_size data
     @ field off_signature signature_size data @ field off_frame_hash hash_size data"
proof -
  have split: "\<And>a b c. field a (b + c) data = field a b data @ field (a + b) c data"
    by (rule field_append_split)
  have "take 512 data = field 0 (8 + (1 + (1 + (2 + (37 + (65 + (8 + (8 + (8 + (8 +
      (4 + (8 + (122 + (128 + (72 + 32))))))))))))))) data"
    by (simp add: field_def)
  then show ?thesis by (simp only: split format_consts) simp
qed

lemma field_one: "off < length bs \<Longrightarrow> field off 1 bs = [bs ! off]"
  by (simp add: field_def take_Suc_conv_app_nth Cons_nth_drop_Suc [symmetric])

text \<open>
  Serializing a parsed header gives back the bytes that were parsed, except for
  whatever followed the first NUL inside the two string fields.
\<close>

lemma layout_of_parsed:
  assumes "parse_fixed_header data = Inr h"
  shows "header_layout h = overwrite (overwrite (take fixed_header_size data)
      off_archive_uuid (fixed_string nt_uuid_size (archive_uuid h)))
      off_archive_label (fixed_string archive_label_size (archive_label h))"
proof -
  note P = parse_InrD [OF assms]
  have len: "512 \<le> length data" using P(1) by (simp add: fixed_header_size_def)
  have lf: "\<And>off n. off + n \<le> 512 \<Longrightarrow> length (field off n data) = n"
    using len by (simp add: length_field)
  have magic: "field off_magic 8 data = magic"
    using P(2) by (simp add: has_frame_magic_def)
  have ver: "field off_header_version 1 data = [header_version]"
    "field off_channel_type 1 data = [channel_code (channel_type h)]"
    using P(3,4) len field_one [of off_header_version data] field_one [of off_channel_type data]
    by (simp_all add: off_header_version_def off_channel_type_def)
  have res: "field off_reserved reserved_size data = replicate reserved_size 0"
    using P(5) len by (subst (asm) validate_reserved_field) (simp_all add: format_consts)
  have le: "\<And>b. length b = 8 \<Longrightarrow> le_bytes 8 (le_value b :: u64) = b"
    "\<And>b. length b = 4 \<Longrightarrow> le_bytes 4 (le_value b :: u32) = b"
    "\<And>b. length b = 2 \<Longrightarrow> le_bytes 2 (le_value b :: u16) = b"
    using le_bytes_le_value [where ?'a = 64] le_bytes_le_value [where ?'a = 32]
      le_bytes_le_value [where ?'a = 16] by fastforce+
  have nums: "le_bytes 2 (volume_block_size_kib h) = field off_volume_block_size_kib 2 data"
    "le_bytes 8 (volume_seq_num h) = field off_volume_seq_num 8 data"
    "le_bytes 8 (global_frame_seq_num h) = field off_global_frame_seq_num 8 data"
    "le_bytes 8 (slice_seq_num h) = field off_slice_seq_num 8 data"
    "le_bytes 8 (channel_frame_seq_num h) = field off_channel_frame_seq_num 8 data"
    "le_bytes 4 (frame_payload_size h) = field off_frame_payload_size 4 data"
    "le_bytes 8 (flags h) = field off_flags 8 data"
    "sideband_data h = field off_sideband sideband_size data"
    "signature h = field off_signature signature_size data"
    "frame_hash h = field off_frame_hash hash_size data"
    using len
    by (subst P(8), simp add: header_of_image_def get_u16_field get_u32_field get_u64_field
        le lf format_consts)+
  show ?thesis
    unfolding image_split [OF P(1)] header_layout_def magic ver res nums overwrite_def
    using lf by (simp add: format_consts)
qed

section \<open>Hashing ignores volume, signature and hash fields\<close>

lemma length_canonical_header:
  "fixed_header_size \<le> length data \<Longrightarrow> length (canonical_header data vol) = fixed_header_size"
  by (simp add: canonical_header_def put_u64_overwrite length_overwrite format_consts Let_def)

text \<open>
  The canonical image is a function of the bytes before the volume ordinal and
  those between it and the signature.
\<close>

lemma canonical_header_eq:
  assumes "fixed_header_size \<le> length data"
  shows "canonical_header data vol =
    take off_volume_seq_num data @ le_bytes 8 vol
    @ field off_global_frame_seq_num (off_signature - off_global_frame_seq_num) data @ replicate 104 0"
  using assms
  by (simp add: canonical_header_def put_u64_overwrite overwrite_def field_def format_consts Let_def
      take_drop min_def)

lemma canonical_header_layout:
  assumes "arrays_ok h"
  shows "canonical_header (header_layout h @ rest) vol =
    take off_signature (header_layout (h\<lparr>volume_seq_num := vol\<rparr>)) @ replicate 104 0"
  using assms length_header_layout [OF assms]
  by (simp add: canonical_header_eq)
    (simp add: header_layout_def field_def format_consts arrays_ok_def)

lemma frame_hash_layout:
  assumes "arrays_ok h"
  shows "frame_hash_with_volume_seq H (header_layout h @ rest) vol =
    Inr (H (take off_signature (header_layout (h\<lparr>volume_seq_num := vol\<rparr>)) @ replicate 104 0 @ rest))"
  using assms length_header_layout [OF assms]
  by (simp add: frame_hash_with_volume_seq_def canonical_header_layout)

lemma compute_frame_hash_layout:
  assumes "arrays_ok h"
  shows "compute_frame_hash H (header_layout h @ rest) =
    Inr (H (take off_signature (header_layout h) @ replicate 104 0 @ rest))"
proof -
  have "get_u64 (header_layout h @ rest) off_volume_seq_num = volume_seq_num h"
    using layout_fields(7) [OF assms] length_header_layout [OF assms]
    by (simp add: get_u64_field field_append1 le_value_le_bytes format_consts)
  then show ?thesis using frame_hash_layout [OF assms, of H rest "volume_seq_num h"]
    by (simp add: compute_frame_hash_def)
qed

text \<open>The signed prefix does not contain the signature or the hash.\<close>

lemma signed_prefix_update [simp]:
  "arrays_ok h \<Longrightarrow> take off_signature (header_layout (h\<lparr>signature := s\<rparr>)) = take off_signature (header_layout h)"
  "arrays_ok h \<Longrightarrow> take off_signature (header_layout (h\<lparr>frame_hash := d\<rparr>)) = take off_signature (header_layout h)"
  by (simp_all add: header_layout_def format_consts arrays_ok_def)

section \<open>Properties\<close>

lemma fixed_string_canon:
  assumes "0 < n"
  shows "fixed_string n (canon_string n v) = canon_string n v @ replicate (n - length (canon_string n v)) 0"
proof -
  have "length (canon_string n v) \<le> n - 1"
    using length_takeWhile_le [of "\<lambda>c. c \<noteq> 0" "take (n - 1) v"] by (simp add: canon_string_def)
  then show ?thesis using assms by (simp add: fixed_string_def min_def)
qed

lemma canon_string_id: "length v < n \<Longrightarrow> 0 \<notin> set v \<Longrightarrow> canon_string n v = v"
  by (auto simp: canon_string_def takeWhile_eq_all_conv)

text \<open>C14. A header that serializes is read back by the parser: every field is
  preserved, whatever payload follows; the two strings come back cut at the
  first NUL byte and at the capacity of their field.\<close>
theorem serialize_parse_roundtrip:
  assumes "arrays_ok h" and "serialize_frame_header h = Inr bs"
  shows "length bs = fixed_header_size \<and> parse_fixed_header (bs @ payload) = Inr (canon_header h)"
  using assms by (simp add: serialize_Inr parse_layout_append length_header_layout)

definition sample_header :: frame_header where
  "sample_header = default_header\<lparr>volume_block_size_kib := 4, archive_uuid := [0x61, 0x62],
     volume_seq_num := 1, global_frame_seq_num := 7, frame_payload_size := 10, flags := frame_flag_end\<rparr>"

lemma sample_header_ok:
  "arrays_ok sample_header" "validate_header sample_header = Inr ()"
  "validate_serialized_signature sample_header = Inr ()"
  "serialize_frame_header sample_header = Inr (header_layout sample_header)"
proof -
  show a: "arrays_ok sample_header"
    by (simp add: sample_header_def default_header_def arrays_ok_def)
  show v: "validate_header sample_header = Inr ()"
    by (simp add: sample_header_def default_header_def validate_header_def decoded_block_size_def
        valid_block_size_def min_block_size_def max_block_size_def payload_limit_def fixed_header_size_def
        allowed_flags_def frame_flag_end_def frame_flag_signed_def frame_flag_sideband_def
        frame_flag_clean_end_def has_frame_flag_sideband_def has_frame_flag_clean_end_def
        has_frame_flag_end_def list_ex_iff sideband_size_def)
  show s: "validate_serialized_signature sample_header = Inr ()"
    by (simp add: sample_header_def default_header_def validate_serialized_signature_def
        has_nonzero_signature_def list_ex_iff signature_size_def)
  show "serialize_frame_header sample_header = Inr (header_layout sample_header)"
    using a v s by (simp add: serialize_Inr)
qed

theorem serialize_parse_roundtrip_witness:
  "length (header_layout sample_header) = fixed_header_size \<and>
   parse_fixed_header (header_layout sample_header @ [1, 2, 3]) = Inr (canon_header sample_header)"
  using serialize_parse_roundtrip [OF sample_header_ok(1) sample_header_ok(4), of "[1, 2, 3]"] .

text \<open>Parsing loses nothing but string tails: the image of a parsed header is
  the parsed bytes with only the bytes after the first NUL of the two string
  fields cleared.\<close>
lemma parse_serialize_image:
  assumes "parse_fixed_header data = Inr h"
  shows "header_image h = overwrite (overwrite (take fixed_header_size data)
      off_archive_uuid (fixed_string nt_uuid_size (archive_uuid h)))
      off_archive_label (fixed_string archive_label_size (archive_label h))"
  using layout_of_parsed [OF assms] header_image_layout [OF parse_arrays_ok [OF assms]] by simp

lemma parse_serialize_image_witness:
  "header_image (canon_header sample_header) =
   overwrite (overwrite (take fixed_header_size (header_layout sample_header))
      off_archive_uuid (fixed_string nt_uuid_size (archive_uuid (canon_header sample_header))))
      off_archive_label (fixed_string archive_label_size (archive_label (canon_header sample_header)))"
  by (rule parse_serialize_image) (simp add: parse_layout sample_header_ok)

text \<open>What the frame hash is computed over.\<close>

definition hashed_image :: "bytes \<Rightarrow> bytes" where
  "hashed_image data = canonical_header data (get_u64 data off_volume_seq_num) @ drop fixed_header_size data"

lemma check_frame_InrD:
  assumes "check_frame H data = Inr f"
  shows "parse_fixed_header data = Inr (header f)"
    and "size_ok f \<longleftrightarrow> length data = unat (decoded_block_size (header f))"
    and "hash_ok f \<longleftrightarrow> size_ok f \<and> compute_frame_hash H data = Inr (frame_hash (header f))"
  using assms by (auto simp: check_frame_def bind_res_Inr Let_def split: if_splits)


lemma canonical_own_volume:
  assumes "fixed_header_size \<le> length data"
  shows "canonical_header data (get_u64 data off_volume_seq_num) = take off_signature data @ replicate 104 0"
proof -
  have len: "512 \<le> length data" using assms by (simp add: fixed_header_size_def)
  have "le_bytes 8 (get_u64 data 114) = field 114 8 data"
    using le_bytes_le_value [of "field 114 8 data", where ?'a = 64] len
    by (simp add: get_u64_field length_field)
  moreover have "take 408 data = take 114 data @ field 114 8 data @ field 122 286 data"
    using field_append_split [of 0 114 "8 + 286" data] field_append_split [of 114 8 286 data]
    by (simp add: field_def)
  ultimately show ?thesis using assms by (simp add: canonical_header_eq format_consts)
qed

lemma get_fixed_string_take:
  assumes "off + n \<le> m" and "0 < n" and "m \<le> length bs"
  shows "get_fixed_string (take m bs) off n = get_fixed_string bs off n"
  using assms by (simp add: get_fixed_string_def field_take)

lemma header_of_prefix:
  assumes p1: "parse_fixed_header d1 = Inr h1" and p2: "parse_fixed_header d2 = Inr h2"
    and eq: "take off_signature d1 = take off_signature d2"
  shows "h1 = h2\<lparr>signature := signature h1, frame_hash := frame_hash h1\<rparr>"
proof -
  note A = parse_InrD [OF p1] and B = parse_InrD [OF p2]
  have len: "512 \<le> length d1" "512 \<le> length d2" using A(1) B(1) by (simp_all add: fixed_header_size_def)
  have f: "field off n d1 = field off n d2" if "off + n \<le> 408" for off n
    using that eq field_take [of off n 408 d1] field_take [of off n 408 d2] by (simp add: off_signature_def)
  have nth: "d1 ! 9 = d2 ! 9"
    using eq nth_take [of 9 408 d1] nth_take [of 9 408 d2] by (simp add: off_signature_def)
  have ch: "channel_type h1 = channel_type h2"
  proof -
    have "get_channel_type (d1 ! 9) = Inr (channel_type h1)" "get_channel_type (d2 ! 9) = Inr (channel_type h2)"
      using A(4) B(4) by (simp_all add: off_channel_type_def)
    with nth show ?thesis by simp
  qed
  have gs: "get_fixed_string d1 off n = get_fixed_string d2 off n" if "off + n \<le> 408" "0 < n" for off n
    using that eq len get_fixed_string_take [of off n 408 d1] get_fixed_string_take [of off n 408 d2]
    by (simp add: off_signature_def)
  have st: "archive_uuid h1 = archive_uuid h2" "archive_label h1 = archive_label h2"
    using A(6,7) B(6,7) gs [of off_archive_uuid nt_uuid_size] gs [of off_archive_label archive_label_size]
    by (simp_all add: format_consts)
  have "h1 = header_of_image d1 (channel_type h2) (archive_uuid h2) (archive_label h2)"
    using A(8) ch st by simp
  also have "\<dots> = (header_of_image d2 (channel_type h2) (archive_uuid h2) (archive_label h2))
      \<lparr>signature := field off_signature signature_size d1, frame_hash := field off_frame_hash hash_size d1\<rparr>"
    using len by (simp add: header_of_image_def get_u16_field get_u32_field get_u64_field f format_consts)
  also have "\<dots> = h2\<lparr>signature := signature h1, frame_hash := frame_hash h1\<rparr>"
    using B(8) A(8) by (auto simp: header_of_image_def dest: arg_cong [where f = signature])
      (metis frame_header.select_convs(12,13) header_of_image_def)
  finally show ?thesis .
qed

text \<open>C15. The frame hash binds the record: two records whose integrity check
  succeeds with the same frame hash carry the same header fields (signature
  apart) and the same payload and padding, unless their canonical images are a
  collision of the hash function.\<close>
theorem hash_ok_binds_record:
  assumes "check_frame H d1 = Inr f1" and "hash_ok f1"
    and "check_frame H d2 = Inr f2" and "hash_ok f2"
    and "frame_hash (header f1) = frame_hash (header f2)"
    and "H (hashed_image d1) = H (hashed_image d2) \<Longrightarrow> hashed_image d1 = hashed_image d2"
  shows "drop fixed_header_size d1 = drop fixed_header_size d2 \<and>
    header f1 = (header f2)\<lparr>signature := signature (header f1)\<rparr>"
proof -
  note C1 = check_frame_InrD [OF assms(1)] and C2 = check_frame_InrD [OF assms(3)]
  note l1 = parse_InrD(1) [OF C1(1)] and l2 = parse_InrD(1) [OF C2(1)]
  have "H (hashed_image d1) = frame_hash (header f1)" "H (hashed_image d2) = frame_hash (header f2)"
    using C1(3) C2(3) assms(2,4) l1 l2
    by (auto simp: compute_frame_hash_def frame_hash_with_volume_seq_def hashed_image_def)
  with assms(5,6) have "hashed_image d1 = hashed_image d2" by simp
  then have "take off_signature d1 @ replicate 104 0 = take off_signature d2 @ replicate 104 0"
    and pay: "drop fixed_header_size d1 = drop fixed_header_size d2"
    using l1 l2 by (simp_all add: hashed_image_def length_canonical_header flip: canonical_own_volume)
  then have "take off_signature d1 = take off_signature d2" by simp
  from header_of_prefix [OF C1(1) C2(1) this] assms(5) pay show ?thesis by simp
qed

definition zero_hash :: "bytes \<Rightarrow> bytes" where
  "zero_hash x = replicate hash_size 0"

definition sample_record :: bytes where
  "sample_record = header_layout sample_header @ replicate 3584 0"

lemma canon_sample_header [simp]: "canon_header sample_header = sample_header"
  by (simp add: sample_header_def default_header_def canon_header_def canon_string_def nt_uuid_size_def)

lemma decoded_sample_header: "decoded_block_size sample_header = 4096"
  by (simp add: sample_header_def default_header_def decoded_block_size_def)

text \<open>A record laid out from a valid header with an all-zero hash passes the check under \<open>zero_hash\<close>.\<close>

lemma check_zero_record:
  assumes "arrays_ok h" and "validate_header h = Inr ()" and "validate_serialized_signature h = Inr ()"
    and "canon_header h = h" and "decoded_block_size h = 4096" and "frame_hash h = replicate hash_size 0"
  shows "check_frame zero_hash (header_layout h @ replicate 3584 0) = Inr \<lparr>header = h, size_ok = True, hash_ok = True\<rparr>"
  using assms length_header_layout [OF assms(1)]
  by (simp add: check_frame_def parse_layout_append compute_frame_hash_layout zero_hash_def
      fixed_header_size_def Let_def)

lemma check_sample_record:
  "check_frame zero_hash sample_record = Inr \<lparr>header = sample_header, size_ok = True, hash_ok = True\<rparr>"
  unfolding sample_record_def
  by (rule check_zero_record [OF sample_header_ok(1-3) canon_sample_header decoded_sample_header])
    (simp add: sample_header_def default_header_def)

definition signed_sample :: "bytes \<Rightarrow> frame_header" where
  "signed_sample sig = sample_header\<lparr>flags := frame_flag_end OR frame_flag_signed, signature := sig\<rparr>"

lemma check_signed_sample:
  assumes "length sig = 72"
  shows "check_frame zero_hash (header_layout (signed_sample sig) @ replicate 3584 0) =
    Inr \<lparr>header = signed_sample sig, size_ok = True, hash_ok = True\<rparr>"
proof -
  let ?h = "signed_sample sig"
  have a: "arrays_ok ?h"
    using assms by (simp add: signed_sample_def sample_header_def default_header_def arrays_ok_def signature_size_def)
  have "validate_header ?h = Inr ()" "validate_serialized_signature ?h = Inr ()"
    by (simp_all add: signed_sample_def sample_header_def default_header_def validate_header_def
        decoded_block_size_def valid_block_size_def min_block_size_def max_block_size_def payload_limit_def
        fixed_header_size_def allowed_flags_def frame_flag_end_def frame_flag_signed_def
        frame_flag_sideband_def frame_flag_clean_end_def has_frame_flag_sideband_def
        has_frame_flag_clean_end_def has_frame_flag_end_def has_frame_flag_signed_def list_ex_iff
        sideband_size_def validate_serialized_signature_def)
  moreover have "canon_header ?h = ?h" "decoded_block_size ?h = 4096" "frame_hash ?h = replicate hash_size 0"
    by (simp_all add: signed_sample_def sample_header_def default_header_def canon_header_def canon_string_def
        nt_uuid_size_def decoded_block_size_def)
  ultimately show ?thesis using a by (intro check_zero_record)
qed

theorem hash_ok_binds_record_witness:
  "signed_sample (replicate 72 1) = (signed_sample (replicate 72 2))\<lparr>signature := replicate 72 1\<rparr> \<and>
   header_layout (signed_sample (replicate 72 1)) \<noteq> header_layout (signed_sample (replicate 72 2))"
proof -
  let ?r = "\<lambda>s. header_layout (signed_sample s) @ replicate 3584 0"
  have l: "length (header_layout (signed_sample (replicate 72 b))) = 512" for b
    by (subst length_header_layout)
      (simp_all add: arrays_ok_def signed_sample_def sample_header_def default_header_def format_consts)
  have sig: "field off_signature signature_size (header_layout (signed_sample (replicate 72 b))) = replicate 72 b" for b
    by (subst layout_fields)
      (simp_all add: arrays_ok_def signed_sample_def sample_header_def default_header_def format_consts)
  have [simp]: "arrays_ok (sample_header\<lparr>flags := w\<rparr>)" for w
    by (simp add: arrays_ok_def sample_header_def default_header_def format_consts)
  have "hashed_image (?r (replicate 72 1)) = hashed_image (?r (replicate 72 2))"
    using l by (simp add: hashed_image_def canonical_own_volume fixed_header_size_def)
      (simp add: signed_sample_def off_signature_def [symmetric])
  then have "signed_sample (replicate 72 1) =
      (signed_sample (replicate 72 2))\<lparr>signature := signature (signed_sample (replicate 72 1))\<rparr>"
    using hash_ok_binds_record [OF check_signed_sample [of "replicate 72 1"] _
        check_signed_sample [of "replicate 72 2"]]
    by (simp add: signed_sample_def)
  then show ?thesis using sig [of 1] sig [of 2] by (auto simp: signed_sample_def)
qed

end
