(* ===== verification/Signature.thy ===== *)
theory Signature
  imports Format
begin

text \<open>
  Frame and challenge signatures of src/neotape_signature.cpp: signify key
  files, domain-separated Ed25519 messages, and the signature policy applied to
  a received frame.

  Ed25519, bcrypt\_pbkdf, SHA-512 and base64 decoding are bundled third-party
  code and are parameters: \<open>ed_sign sk m\<close> is the signed message (64 signature
  bytes followed by m) or \<open>None\<close> when the call fails, \<open>ed_open pk sm\<close> tells
  whether a signed message opens.  File contents, the passphrase prompt and the
  random nonce are arguments.
\<close>

unbundle bit_operations_syntax

section \<open>Keys and constants\<close>

type_synonym ed_sign = "bytes \<Rightarrow> bytes \<Rightarrow> bytes option"
type_synonym ed_open = "bytes \<Rightarrow> bytes \<Rightarrow> bool"

record public_key =
  pk_key_id :: bytes
  pk_public_key :: bytes
  pk_comment :: string
  pk_source_path :: string

record secret_key =
  sk_key_id :: bytes
  sk_secret_key :: bytes
  sk_comment :: string
  sk_source_path :: string

datatype signature_error =
    FileOpenFailed
  | InvalidCommentHeader
  | MissingBase64Payload
  | TrailingDataAfterPayload
  | Base64PayloadTooLarge
  | InvalidBase64Payload
  | UnsupportedAlgorithm string
  | PassphraseFileContainsNul
  | PromptFailed
  | EmptyPassphrase
  | BcryptFailed
  | IncorrectPassphrase
  | CryptoSignFailed

definition comment_header :: string where "comment_header = ''untrusted comment: ''"

definition char_byte :: "char \<Rightarrow> u8" where "char_byte c = of_char c"

definition frame_signature_domain :: bytes where
  "frame_signature_domain = map char_byte ''NeoTape-frame'' @ [0]"
definition auth_signature_domain :: bytes where
  "auth_signature_domain = map char_byte ''NeoTape-auth'' @ [0]"
definition pkalg :: bytes where "pkalg = map char_byte ''Ed''"
definition kdfalg :: bytes where "kdfalg = map char_byte ''BK''"

definition key_id_size :: nat where "key_id_size = 8"
definition auth_nonce_size :: nat where "auth_nonce_size = 32"
definition detached_size :: nat where "detached_size = 64"
definition public_key_blob_size :: nat where "public_key_blob_size = 42"
definition secret_key_blob_size :: nat where "secret_key_blob_size = 104"
definition salt_size :: nat where "salt_size = 16"
definition checksum_size :: nat where "checksum_size = 8"

section \<open>Armored key files\<close>

record armored_blob =
  blob_comment :: string
  blob_base64 :: string

text \<open>\<open>text.find(c)\<close>: the first position of a character, or \<open>None\<close> for npos.\<close>

fun find_char :: "char \<Rightarrow> string \<Rightarrow> nat option" where
  "find_char c [] = None"
| "find_char c (x # xs) = (if x = c then Some 0 else map_option Suc (find_char c xs))"

definition newline :: char where "newline = CHR 0x0A"
definition carriage_return :: char where "carriage_return = CHR 0x0D"
definition nul :: char where "nul = CHR 0x00"

text \<open>
  \<open>read_text_file\<close>: the contents of the file, \<open>None\<close> when it cannot be opened.
\<close>

definition read_text_file :: "string option \<Rightarrow> signature_error + string" where
  "read_text_file contents = (case contents of None \<Rightarrow> Inl FileOpenFailed | Some t \<Rightarrow> Inr t)"

definition parse_armored_blob :: "string option \<Rightarrow> signature_error + armored_blob" where
  "parse_armored_blob contents =
    bind_res (read_text_file contents) (\<lambda>text.
    case find_char newline text of
      None \<Rightarrow> Inl InvalidCommentHeader
    | Some first_nl \<Rightarrow>
      if take (length comment_header) text \<noteq> comment_header then Inl InvalidCommentHeader
      else let second_line_start = first_nl + 1;
               second_nl = (case find_char newline (drop second_line_start text) of
                              None \<Rightarrow> length text | Some i \<Rightarrow> second_line_start + i)
           in if second_nl = second_line_start then Inl MissingBase64Payload
              else if second_nl \<noteq> length text \<and>
                      list_ex (\<lambda>c. c \<noteq> carriage_return \<and> c \<noteq> newline) (drop (second_nl + 1) text)
                then Inl TrailingDataAfterPayload
              else let base64 = take (second_nl - second_line_start) (drop second_line_start text)
                   in if length base64 > 2048 then Inl Base64PayloadTooLarge
                      else Inr \<lparr>blob_comment = take (first_nl - length comment_header)
                                                 (drop (length comment_header) text),
                                blob_base64 = base64\<rparr>)"

text \<open>
  \<open>b64 s n\<close> is \<open>b64_pton\<close> into a buffer of n bytes: the decoded bytes, or
  \<open>None\<close> for an error return.
\<close>

definition decode_armored_payload ::
  "(string \<Rightarrow> nat \<Rightarrow> bytes option) \<Rightarrow> nat \<Rightarrow> string option \<Rightarrow> signature_error + (bytes \<times> string)" where
  "decode_armored_payload b64 n contents =
    bind_res (parse_armored_blob contents) (\<lambda>blob.
      case b64 (blob_base64 blob) n of
        None \<Rightarrow> Inl InvalidBase64Payload
      | Some decoded \<Rightarrow> if length decoded \<noteq> n then Inl InvalidBase64Payload
                        else Inr (decoded, blob_comment blob))"

definition raw_key_id_equals :: "bytes \<Rightarrow> bytes \<Rightarrow> bool" where
  "raw_key_id_equals lhs rhs \<longleftrightarrow> lhs = rhs"

definition verify_algorithms :: "bytes \<Rightarrow> bytes \<Rightarrow> string \<Rightarrow> signature_error + unit" where
  "verify_algorithms expected actual label =
     (if length actual \<noteq> length expected \<or> actual \<noteq> expected
      then Inl (UnsupportedAlgorithm label) else Inr ())"

definition read_signify_passphrase_file :: "string option \<Rightarrow> signature_error + string" where
  "read_signify_passphrase_file contents =
    bind_res (read_text_file contents) (\<lambda>p0.
      let p1 = (if p0 \<noteq> [] \<and> last p0 = newline
                then (let q = butlast p0
                      in if q \<noteq> [] \<and> last q = carriage_return then butlast q else q)
                else p0)
      in if nul \<in> set p1 then Inl PassphraseFileContainsNul else Inr p1)"

definition load_signify_public_key ::
  "(string \<Rightarrow> nat \<Rightarrow> bytes option) \<Rightarrow> string \<Rightarrow> string option \<Rightarrow> signature_error + public_key" where
  "load_signify_public_key b64 path contents =
    bind_res (decode_armored_payload b64 public_key_blob_size contents) (\<lambda>(blob, comment).
    bind_res (verify_algorithms pkalg (field 0 2 blob) ''public key'') (\<lambda>_.
      Inr \<lparr>pk_key_id = field 2 key_id_size blob, pk_public_key = field 10 32 blob,
           pk_comment = comment, pk_source_path = path\<rparr>))"

text \<open>
  The secret key is stored XORed with a key derived from the passphrase; zero
  KDF rounds mean it is stored in the clear.  \<open>prompt\<close> is the answer of the
  terminal prompt, used only when no passphrase was given.
\<close>

definition derive_xor_key ::
  "(string \<Rightarrow> bytes \<Rightarrow> nat \<Rightarrow> u32 \<Rightarrow> bytes option) \<Rightarrow> (signature_error + string) \<Rightarrow>
   string option \<Rightarrow> bytes \<Rightarrow> u32 \<Rightarrow> signature_error + bytes" where
  "derive_xor_key bcrypt prompt passphrase salt rounds =
    (if rounds = 0 then Inr (replicate 64 0)
     else bind_res (case passphrase of None \<Rightarrow> prompt | Some p \<Rightarrow> Inr p) (\<lambda>p.
       if p = [] then Inl EmptyPassphrase
       else case bcrypt p salt 64 rounds of None \<Rightarrow> Inl BcryptFailed | Some k \<Rightarrow> Inr k))"

definition load_signify_secret_key ::
  "(string \<Rightarrow> nat \<Rightarrow> bytes option) \<Rightarrow> (string \<Rightarrow> bytes \<Rightarrow> nat \<Rightarrow> u32 \<Rightarrow> bytes option) \<Rightarrow>
   (bytes \<Rightarrow> bytes) \<Rightarrow> (signature_error + string) \<Rightarrow> string \<Rightarrow> string option \<Rightarrow> string option \<Rightarrow>
   signature_error + secret_key" where
  "load_signify_secret_key b64 bcrypt sha512 prompt path passphrase contents =
    bind_res (decode_armored_payload b64 secret_key_blob_size contents) (\<lambda>(blob, comment).
    bind_res (verify_algorithms pkalg (field 0 2 blob) ''secret key'') (\<lambda>_.
    bind_res (verify_algorithms kdfalg (field 2 2 blob) ''secret key KDF'') (\<lambda>_.
    bind_res (derive_xor_key bcrypt prompt passphrase (field 8 salt_size blob)
                (read_be32 (field 4 4 blob))) (\<lambda>xor_key.
      let secret = map (\<lambda>i. blob ! (40 + i) XOR xor_key ! i) [0..<64]
      in if take checksum_size (sha512 secret) \<noteq> field 24 checksum_size blob
         then Inl IncorrectPassphrase
         else Inr \<lparr>sk_key_id = field 32 key_id_size blob, sk_secret_key = secret,
                   sk_comment = comment, sk_source_path = path\<rparr>))))"

section \<open>Signing and verifying\<close>

definition domain_separated_message :: "bytes \<Rightarrow> bytes \<Rightarrow> bytes" where
  "domain_separated_message domain payload = domain @ payload"

definition frame_signature_message :: "bytes \<Rightarrow> bytes" where
  "frame_signature_message hash = domain_separated_message frame_signature_domain hash"

definition auth_signature_message :: "bytes \<Rightarrow> bytes" where
  "auth_signature_message nonce = domain_separated_message auth_signature_domain nonce"

definition sign_detached_message :: "ed_sign \<Rightarrow> secret_key \<Rightarrow> bytes \<Rightarrow> signature_error + bytes" where
  "sign_detached_message ed_sign key message =
    (case ed_sign (sk_secret_key key) message of
       None \<Rightarrow> Inl CryptoSignFailed
     | Some sigbuf \<Rightarrow> Inr (take detached_size sigbuf))"

definition verify_detached_message_signature ::
  "ed_open \<Rightarrow> bytes \<Rightarrow> bytes \<Rightarrow> public_key \<Rightarrow> bool" where
  "verify_detached_message_signature ed_open sig message key =
     ed_open (pk_public_key key) (sig @ message)"

definition signature_key_id :: "bytes \<Rightarrow> bytes" where
  "signature_key_id sig = take key_id_size sig"

definition sign_frame_hash :: "ed_sign \<Rightarrow> secret_key \<Rightarrow> bytes \<Rightarrow> signature_error + bytes" where
  "sign_frame_hash ed_sign key hash =
    bind_res (sign_detached_message ed_sign key (frame_signature_message hash)) (\<lambda>detached.
      Inr (overwrite (overwrite (replicate signature_size 0) 0 (sk_key_id key))
             (length (sk_key_id key)) detached))"

definition verify_frame_hash_signature :: "ed_open \<Rightarrow> bytes \<Rightarrow> bytes \<Rightarrow> public_key \<Rightarrow> bool" where
  "verify_frame_hash_signature ed_open sig hash key =
    (if \<not> raw_key_id_equals (field 0 key_id_size sig) (pk_key_id key) then False
     else verify_detached_message_signature ed_open (field key_id_size detached_size sig)
            (frame_signature_message hash) key)"

definition sign_auth_nonce :: "ed_sign \<Rightarrow> secret_key \<Rightarrow> bytes \<Rightarrow> signature_error + bytes" where
  "sign_auth_nonce ed_sign key nonce = sign_detached_message ed_sign key (auth_signature_message nonce)"

definition verify_auth_nonce_signature :: "ed_open \<Rightarrow> bytes \<Rightarrow> bytes \<Rightarrow> public_key \<Rightarrow> bool" where
  "verify_auth_nonce_signature ed_open sig nonce key =
     verify_detached_message_signature ed_open sig (auth_signature_message nonce) key"

section \<open>Signature policy of a received frame\<close>

datatype frame_signature_status = Unsigned_frame | Signed_unverified | Verified | Invalid

datatype frame_signature_error =
    SignatureBytesWithoutFlag u64
  | UnsignedFrame u64
  | SignedFlagZeroSignature u64
  | NoConfiguredPublicKey u64 bytes
  | NoPublicKeyFor bytes u64
  | VerificationFailed bytes u64

record frame_signature_validation =
  sig_status :: frame_signature_status
  sig_error :: "frame_signature_error option"

definition sig_invalid :: "frame_signature_error \<Rightarrow> frame_signature_validation" where
  "sig_invalid e = \<lparr>sig_status = Invalid, sig_error = Some e\<rparr>"

definition validate_frame_signature ::
  "ed_open \<Rightarrow> frame_header \<Rightarrow> public_key list \<Rightarrow> bool \<Rightarrow> frame_signature_validation" where
  "validate_frame_signature ed_open h keys require_signed =
    (let signature_present = list_ex (\<lambda>b. b \<noteq> 0) (signature h);
         g = global_frame_seq_num h
     in if \<not> has_frame_flag_signed (flags h) then
          (if signature_present then sig_invalid (SignatureBytesWithoutFlag g)
           else if require_signed then sig_invalid (UnsignedFrame g)
           else \<lparr>sig_status = Unsigned_frame, sig_error = None\<rparr>)
        else if \<not> signature_present then sig_invalid (SignedFlagZeroSignature g)
        else let key_id = signature_key_id (signature h)
             in if keys = [] then
                  (if require_signed then sig_invalid (NoConfiguredPublicKey g key_id)
                   else \<lparr>sig_status = Signed_unverified, sig_error = None\<rparr>)
                else (case find (\<lambda>k. pk_key_id k = key_id) keys of
                        None \<Rightarrow> sig_invalid (NoPublicKeyFor key_id g)
                      | Some k \<Rightarrow>
                          if \<not> verify_frame_hash_signature ed_open (signature h) (frame_hash h) k
                          then sig_invalid (VerificationFailed key_id g)
                          else \<lparr>sig_status = Verified, sig_error = None\<rparr>))"

section \<open>Lemmas\<close>

lemma length_domains [simp]:
  "length frame_signature_domain = 14" "length auth_signature_domain = 13"
  by (simp_all add: frame_signature_domain_def auth_signature_domain_def)

text \<open>
  Documented behaviour of the signature scheme, as the code relies on it: a
  signed message is 64 bytes longer than the message, and opens under the
  public key of the signer.
\<close>

definition ed_pair :: "ed_sign \<Rightarrow> ed_open \<Rightarrow> secret_key \<Rightarrow> public_key \<Rightarrow> bool" where
  "ed_pair ed_sign ed_open sk pk \<longleftrightarrow> pk_key_id pk = sk_key_id sk \<and> length (sk_key_id sk) = key_id_size \<and>
     (\<forall>m s. ed_sign (sk_secret_key sk) m = Some s \<longrightarrow>
        length s = detached_size + length m \<and>
        ed_open (pk_public_key pk) (take detached_size s @ m))"

lemma sign_frame_hash_Inr:
  assumes "sign_frame_hash ed_sign sk hash = Inr sig" and "ed_pair ed_sign ed_open sk pk"
  obtains s where "ed_sign (sk_secret_key sk) (frame_signature_message hash) = Some s"
    and "sig = sk_key_id sk @ take detached_size s" and "length sig = signature_size"
proof -
  from assms obtain s where s: "ed_sign (sk_secret_key sk) (frame_signature_message hash) = Some s"
    and len: "length s \<ge> detached_size" "length (sk_key_id sk) = key_id_size"
    by (auto simp: sign_frame_hash_def sign_detached_message_def bind_res_Inr ed_pair_def split: option.splits)
  have "sig = sk_key_id sk @ take detached_size s"
    using assms(1) s len
    by (simp add: sign_frame_hash_def sign_detached_message_def overwrite_def key_id_size_def
        detached_size_def signature_size_def)
  with s len that show thesis by (simp add: key_id_size_def detached_size_def signature_size_def)
qed

lemma sign_frame_hash_verifies:
  assumes "ed_pair ed_sign ed_open sk pk" and "sign_frame_hash ed_sign sk hash = Inr sig"
  shows "length sig = signature_size \<and> signature_key_id sig = pk_key_id pk \<and>
         verify_frame_hash_signature ed_open sig hash pk"
proof -
  from sign_frame_hash_Inr [OF assms(2,1)] obtain s where
    s: "ed_sign (sk_secret_key sk) (frame_signature_message hash) = Some s"
      "sig = sk_key_id sk @ take detached_size s" "length sig = signature_size" .
  then show ?thesis using assms(1)
    by (auto simp: signature_key_id_def ed_pair_def verify_frame_hash_signature_def raw_key_id_equals_def
        verify_detached_message_signature_def field_def)
qed

text \<open>A frame hash signed with a secret key verifies under the matching public
  key, and the signature carries the signer's key id.\<close>
lemma sign_verify_frame_hash:
  assumes "ed_pair ed_sign ed_open sk pk" and "sign_frame_hash ed_sign sk hash = Inr sig"
  shows "length sig = signature_size \<and> signature_key_id sig = pk_key_id pk \<and>
         verify_frame_hash_signature ed_open sig hash pk"
  by (rule sign_frame_hash_verifies [OF assms])

definition toy_sign :: ed_sign where
  "toy_sign sk m = Some (take 64 (sk @ replicate 64 1) @ m)"
definition toy_open :: ed_open where
  "toy_open pk sm \<longleftrightarrow> take 64 sm = take 64 (pk @ replicate 64 1)"
definition toy_sk :: secret_key where
  "toy_sk = \<lparr>sk_key_id = [1,2,3,4,5,6,7,8], sk_secret_key = [9], sk_comment = [], sk_source_path = []\<rparr>"
definition toy_pk :: public_key where
  "toy_pk = \<lparr>pk_key_id = [1,2,3,4,5,6,7,8], pk_public_key = [9], pk_comment = [], pk_source_path = []\<rparr>"

lemma toy_pair: "ed_pair toy_sign toy_open toy_sk toy_pk"
  by (simp add: ed_pair_def toy_sign_def toy_open_def toy_sk_def toy_pk_def key_id_size_def detached_size_def)

lemma toy_sign_frame:
  "sign_frame_hash toy_sign toy_sk hash = Inr ([1,2,3,4,5,6,7,8] @ take 64 (9 # replicate 64 1))"
  by (simp add: sign_frame_hash_def sign_detached_message_def toy_sign_def toy_sk_def overwrite_def
      detached_size_def signature_size_def)

lemma sign_verify_frame_hash_witness:
  "verify_frame_hash_signature toy_open ([1,2,3,4,5,6,7,8] @ take 64 (9 # replicate 64 1)) [0, 1] toy_pk"
  using sign_verify_frame_hash [OF toy_pair toy_sign_frame] by blast

text \<open>Domain separation: no message signed for a frame is a message signed for
  an authentication challenge, whatever hash and nonce are.\<close>
lemma signature_domains_disjoint:
  "frame_signature_message hash \<noteq> auth_signature_message nonce"
proof
  assume "frame_signature_message hash = auth_signature_message nonce"
  then have "frame_signature_message hash ! 8 = auth_signature_message nonce ! 8" by simp
  then show False
    by (simp add: frame_signature_message_def auth_signature_message_def domain_separated_message_def
        frame_signature_domain_def auth_signature_domain_def char_byte_def)
qed

lemma validate_frame_signature_error_iff:
  "sig_error (validate_frame_signature ed_open h keys r) = None \<longleftrightarrow>
   sig_status (validate_frame_signature ed_open h keys r) \<noteq> Invalid"
  by (simp add: validate_frame_signature_def sig_invalid_def Let_def split: option.splits)

lemma find_SomeD: "find P xs = Some k \<Longrightarrow> k \<in> set xs \<and> P k"
  by (induction xs) (auto split: if_splits)

text \<open>C16. The policy is sound: when signatures are required and the frame passes, it
  carries the SIGNED flag and a signature that verifies under a configured key
  whose id it names; and an error is reported exactly for the status invalid.\<close>
theorem required_signature_sound:
  assumes "sig_error (validate_frame_signature ed_open h keys True) = None"
  shows "sig_status (validate_frame_signature ed_open h keys True) = Verified \<and>
    has_frame_flag_signed (flags h) \<and>
    (\<exists>k\<in>set keys. pk_key_id k = signature_key_id (signature h) \<and>
       verify_frame_hash_signature ed_open (signature h) (frame_hash h) k)"
  using assms
  by (auto simp: validate_frame_signature_def sig_invalid_def Let_def dest!: find_SomeD
      split: option.splits if_splits)

definition signed_sample_header :: frame_header where
  "signed_sample_header = sample_header\<lparr>flags := frame_flag_end OR frame_flag_signed,
     signature := [1,2,3,4,5,6,7,8] @ take 64 (9 # replicate 64 1)\<rparr>"

lemma signed_sample_verified:
  "validate_frame_signature toy_open signed_sample_header [toy_pk] True =
   \<lparr>sig_status = Verified, sig_error = None\<rparr>"
proof -
  have "verify_frame_hash_signature toy_open ([1,2,3,4,5,6,7,8] @ take 64 (9 # replicate 64 1)) h toy_pk" for h
    using sign_verify_frame_hash [OF toy_pair toy_sign_frame] by blast
  then show ?thesis
    by (simp add: validate_frame_signature_def signed_sample_header_def has_frame_flag_signed_def
        frame_flag_end_def frame_flag_signed_def signature_key_id_def key_id_size_def toy_pk_def)
qed

theorem required_signature_sound_witness:
  "\<exists>k\<in>set [toy_pk]. pk_key_id k = signature_key_id (signature signed_sample_header) \<and>
     verify_frame_hash_signature toy_open (signature signed_sample_header) (frame_hash signed_sample_header) k"
  using required_signature_sound [of toy_open signed_sample_header "[toy_pk]"] signed_sample_verified by simp

end
