(* ===== verification/FrameBuilder.thy ===== *)
theory FrameBuilder
  imports Signature
begin

text \<open>
  src/neotape_frame_builder.cpp and include/neotape/frame\_builder.hpp: finalizing
  and re-finalizing records, the channel-run frame builder, the archive-end
  record, and the retention buffer.

  \<open>std::copy\<close> and the copy loops into a record are \<open>overwrite\<close>; a record is
  always at least as long as the header where they run, because the header has
  been validated or parsed before.  An \<open>assert\<close> that fails is the error
  \<open>AssertionFailed\<close>.
\<close>

section \<open>Record finalization\<close>

datatype build_error = BuildFormat format_error | BuildSign signature_error | AssertionFailed

definition lift_format :: "format_error + 'a \<Rightarrow> build_error + 'a" where
  "lift_format r = (case r of Inl e \<Rightarrow> Inl (BuildFormat e) | Inr a \<Rightarrow> Inr a)"

definition lift_sign :: "signature_error + 'a \<Rightarrow> build_error + 'a" where
  "lift_sign r = (case r of Inl e \<Rightarrow> Inl (BuildSign e) | Inr a \<Rightarrow> Inr a)"

definition copy_header_to_record :: "bytes \<Rightarrow> bytes \<Rightarrow> bytes" where
  "copy_header_to_record hdr rec = overwrite rec 0 hdr"

definition finalize_record ::
  "(bytes \<Rightarrow> bytes) \<Rightarrow> ed_sign \<Rightarrow> frame_header \<Rightarrow> bytes \<Rightarrow> secret_key option \<Rightarrow>
   build_error + frame_header \<times> bytes" where
  "finalize_record H ed_sign h rec signer =
    (let h = h\<lparr>flags := (if signer \<noteq> None then flags h OR frame_flag_signed
                          else flags h AND NOT frame_flag_signed),
               signature := replicate signature_size 0\<rparr>
     in bind_res (lift_format (serialize_frame_header h)) (\<lambda>header_bytes.
        let rec = copy_header_to_record header_bytes rec
        in bind_res (lift_format (compute_frame_hash H rec)) (\<lambda>d.
           let h = h\<lparr>frame_hash := d\<rparr>
           in bind_res (case signer of None \<Rightarrow> Inr h
                        | Some k \<Rightarrow> bind_res (lift_sign (sign_frame_hash ed_sign k d)) (\<lambda>s.
                                       Inr (h\<lparr>signature := s\<rparr>))) (\<lambda>h.
              bind_res (lift_format (serialize_frame_header h)) (\<lambda>header_bytes.
                Inr (h, copy_header_to_record header_bytes rec))))))"

definition patch_volume_seq_num ::
  "(bytes \<Rightarrow> bytes) \<Rightarrow> ed_sign \<Rightarrow> bytes \<Rightarrow> u64 \<Rightarrow> secret_key option \<Rightarrow> build_error + bytes" where
  "patch_volume_seq_num H ed_sign rec new_volume_seq_num signer =
    bind_res (lift_format (parse_fixed_header rec)) (\<lambda>hdr.
      let wants_signed = (signer \<noteq> None);
          has_hash = list_ex (\<lambda>b. b \<noteq> 0) (frame_hash hdr)
      in if volume_seq_num hdr = new_volume_seq_num \<and>
            has_frame_flag_signed (flags hdr) = wants_signed \<and> has_hash
         then Inr rec
         else bind_res (finalize_record H ed_sign (hdr\<lparr>volume_seq_num := new_volume_seq_num\<rparr>) rec signer)
                (\<lambda>(h, rec). Inr rec))"

definition build_archive_end_record ::
  "(bytes \<Rightarrow> bytes) \<Rightarrow> ed_sign \<Rightarrow> u32 \<Rightarrow> u64 \<Rightarrow> bytes \<Rightarrow> bytes \<Rightarrow> u64 \<Rightarrow> secret_key option \<Rightarrow>
   build_error + bytes" where
  "build_archive_end_record H ed_sign block_size volume_seq uuid name global_seq signer =
    (let h = default_header\<lparr>channel_type := ARCHIVE_END,
               volume_block_size_kib := ucast (block_size div 1024),
               archive_uuid := uuid, archive_label := name, volume_seq_num := volume_seq,
               global_frame_seq_num := global_seq, slice_seq_num := 0, channel_frame_seq_num := 0,
               frame_payload_size := 0, flags := frame_flag_end OR frame_flag_clean_end\<rparr>
     in bind_res (finalize_record H ed_sign h (replicate (unat block_size) 0) signer)
          (\<lambda>(h, rec). Inr rec))"

section \<open>The builder\<close>

record frame_builder =
  fb_block_size :: u32
  fb_archive_uuid :: bytes
  fb_archive_name :: bytes
  fb_global_seq :: u64
  fb_channel_seq :: u64
  fb_slice :: u64
  fb_channel :: channel
  fb_pending :: bytes

record built_frame =
  bf_record :: bytes
  bf_global_seq :: u64

definition new_frame_builder :: "u32 \<Rightarrow> bytes \<Rightarrow> bytes \<Rightarrow> frame_builder" where
  "new_frame_builder block_size uuid name = \<lparr>fb_block_size = block_size, fb_archive_uuid = uuid,
     fb_archive_name = name, fb_global_seq = 0, fb_channel_seq = 0, fb_slice = 0,
     fb_channel = CH_CONTENT, fb_pending = []\<rparr>"

definition payload_capacity :: "frame_builder \<Rightarrow> u32" where
  "payload_capacity b = fb_block_size b - word_of_nat fixed_header_size"

definition begin_channel :: "frame_builder \<Rightarrow> u64 \<Rightarrow> channel \<Rightarrow> build_error + frame_builder" where
  "begin_channel b slice_num c =
    (if fb_pending b \<noteq> [] then Inl AssertionFailed
     else if c = ARCHIVE_END then Inl AssertionFailed
     else Inr (b\<lparr>fb_slice := slice_num, fb_channel := c, fb_channel_seq := 0\<rparr>))"

definition built_header :: "frame_builder \<Rightarrow> bytes \<Rightarrow> bool \<Rightarrow> frame_header" where
  "built_header b payload is_final = default_header\<lparr>channel_type := fb_channel b,
     volume_block_size_kib := ucast (fb_block_size b div 1024),
     archive_uuid := fb_archive_uuid b, archive_label := fb_archive_name b, volume_seq_num := 0,
     global_frame_seq_num := fb_global_seq b, slice_seq_num := fb_slice b,
     channel_frame_seq_num := fb_channel_seq b,
     frame_payload_size := word_of_nat (length payload),
     flags := (if is_final then frame_flag_end else 0)\<rparr>"

definition build_frame ::
  "frame_builder \<Rightarrow> bytes \<Rightarrow> bool \<Rightarrow> build_error + frame_builder \<times> built_frame" where
  "build_frame b payload is_final =
    (if length payload > unat (payload_capacity b) then Inl AssertionFailed
     else let fh = built_header b payload is_final;
              b' = b\<lparr>fb_global_seq := fb_global_seq b + 1, fb_channel_seq := fb_channel_seq b + 1\<rparr>
          in bind_res (lift_format (serialize_frame_header fh)) (\<lambda>hdr.
             let rec = copy_header_to_record hdr (replicate (unat (fb_block_size b)) 0)
             in Inr (b', \<lparr>bf_record = overwrite rec fixed_header_size payload,
                          bf_global_seq = global_frame_seq_num fh\<rparr>)))"

lemma lift_format_simps [simp]: "lift_format (Inl e) = Inl (BuildFormat e)" "lift_format (Inr a) = Inr a"
  by (simp_all add: lift_format_def)

lemma lift_format_Inr [simp]: "lift_format r = Inr a \<longleftrightarrow> r = Inr a"
  by (cases r) simp_all

lemma lift_sign_Inr [simp]: "lift_sign r = Inr a \<longleftrightarrow> r = Inr a"
  by (cases r) (simp_all add: lift_sign_def)

text \<open>A frame that builds has a valid block size, so the payload capacity is not 0.\<close>

lemma arrays_ok_built [simp]: "arrays_ok (built_header b payload e)"
  by (simp add: arrays_ok_def built_header_def default_header_def)

lemma valid_block_size_unat:
  "valid_block_size bs \<Longrightarrow> 4096 \<le> unat bs \<and> unat bs \<le> 8388608 \<and> unat bs mod 1024 = 0"
  by (simp add: valid_block_size_def min_block_size_def max_block_size_def word_le_nat_alt
      word_arith_nat_mod unat_of_nat word_unat_eq_iff)

lemma small_block_kib: "bs < 1024 \<Longrightarrow> bs div 1024 = (0 :: u32)"
  by (simp add: word_unat_eq_iff unat_div word_less_nat_alt)

lemma build_frame_capacity:
  assumes "build_frame b payload is_final = Inr r"
  shows "0 < unat (payload_capacity b)"
proof -
  let ?h = "built_header b payload is_final"
  have "validate_header ?h = Inr ()"
    using assms by (auto simp: build_frame_def Let_def bind_res_Inr serialize_Inr split: if_splits)
  then have "valid_block_size (decoded_block_size ?h)"
    by (simp add: validate_header_def split: if_splits)
  then have "decoded_block_size ?h \<noteq> 0" using valid_block_size_unat by fastforce
  then have "\<not> fb_block_size b < 1024"
    using small_block_kib [of "fb_block_size b"]
    by (auto simp: decoded_block_size_def built_header_def)
  then have "1024 \<le> unat (fb_block_size b)" by (simp add: word_less_nat_alt)
  moreover have "unat (fb_block_size b - 512) = unat (fb_block_size b) - 512"
    using calculation by (subst unat_sub) (simp_all add: word_le_nat_alt)
  ultimately show ?thesis by (simp add: payload_capacity_def fixed_header_size_def)
qed

text \<open>
  The loop of \<open>feed\<close>: it ends because a frame takes at least one byte out of the
  pending ones, or fails to build.
\<close>

function feed_loop :: "frame_builder \<Rightarrow> built_frame list \<Rightarrow> build_error + frame_builder \<times> built_frame list" where
  "feed_loop b out =
    (if length (fb_pending b) > unat (payload_capacity b) then
       (case build_frame b (take (unat (payload_capacity b)) (fb_pending b)) False of
          Inl e \<Rightarrow> Inl e
        | Inr (b', frame) \<Rightarrow>
            feed_loop (b'\<lparr>fb_pending := drop (unat (payload_capacity b)) (fb_pending b)\<rparr>) (out @ [frame]))
     else Inr (b, out))"
  by pat_completeness auto

termination
  by (relation "measure (\<lambda>(b, out). length (fb_pending b))") (auto dest: build_frame_capacity)

declare feed_loop.simps [simp del]

definition feed :: "frame_builder \<Rightarrow> bytes \<Rightarrow> build_error + frame_builder \<times> built_frame list" where
  "feed b bs = feed_loop (b\<lparr>fb_pending := fb_pending b @ bs\<rparr>) []"

definition flush :: "frame_builder \<Rightarrow> build_error + frame_builder \<times> built_frame list" where
  "flush b =
    (if fb_pending b = [] then Inr (b, [])
     else bind_res (build_frame b (fb_pending b) True) (\<lambda>(b', frame).
            Inr (b'\<lparr>fb_pending := []\<rparr>, [frame])))"

section \<open>Retention buffer\<close>

text \<open>\<open>pop_front\<close> runs only on a full buffer of positive capacity.\<close>

record retention_buffer =
  rb_max_frames :: nat
  rb_frames :: "(u64 \<times> bytes) list"

definition retention_add :: "retention_buffer \<Rightarrow> u64 \<Rightarrow> bytes \<Rightarrow> retention_buffer" where
  "retention_add rb g rec = rb\<lparr>rb_frames :=
     (if length (rb_frames rb) = rb_max_frames rb then tl (rb_frames rb) else rb_frames rb) @ [(g, rec)]\<rparr>"

fun remove_seq :: "u64 \<Rightarrow> (u64 \<times> bytes) list \<Rightarrow> (u64 \<times> bytes) list" where
  "remove_seq g [] = []"
| "remove_seq g (f # fs) = (if fst f = g then fs else f # remove_seq g fs)"

definition retention_ack :: "retention_buffer \<Rightarrow> u64 \<Rightarrow> retention_buffer" where
  "retention_ack rb g = rb\<lparr>rb_frames := remove_seq g (rb_frames rb)\<rparr>"

definition retention_get :: "retention_buffer \<Rightarrow> u64 \<Rightarrow> bytes option" where
  "retention_get rb g = map_option snd (find (\<lambda>f. fst f = g) (rb_frames rb))"

end
