(* ===== verification/Validate.thy ===== *)
theory Validate
  imports Format
begin

text \<open>
  The archive-level frame validator of src/neotape_validate.cpp: the state of
  \<open>FrameValidator\<close>, the replay check, and the three entry points
  \<open>validate\<close>, \<open>validate_restore_frame\<close> and \<open>validate_salvage_frame\<close>.

  An operation returns the new state and the error, as the member function
  updates the object and returns \<open>std::optional<string>\<close>; the state is updated
  on error paths exactly as far as the code got.  The two-element arrays are
  total functions on the channel index, of which 0 and 1 are used.
\<close>

section \<open>State\<close>

record replay_identity =
  ri_global_seq :: u64
  ri_volume_seq :: u64
  ri_frame_hash :: bytes

record frame_validator =
  last_was_replay :: bool
  v_archive_uuid :: bytes
  v_archive_label :: bytes
  expected_global_frame_seq :: u64
  current_slice_seq_num :: u64
  v_volume_block_size :: u32
  saw_any_frame :: bool
  saw_archive_end :: bool
  next_channel_seq :: "nat \<Rightarrow> u64"
  channel_seen :: "nat \<Rightarrow> bool"
  channel_ended :: "nat \<Rightarrow> bool"
  channel_seq_unknown :: "nat \<Rightarrow> bool"
  stream_start_seeded :: bool
  replay_history :: "replay_identity list"
  replay_next :: "u64 option"

datatype validate_error =
    ReplayFailedIntegrity
  | ReplayStateUnavailable
  | ConflictingReplay
  | NonContiguousReplay
  | NewFrameBeforeReplayCompleted
  | FrameAfterArchiveEnd u64
  | RecordSizeMismatch u32
  | FrameHashMismatch u64
  | BlockSizeChanged u32 u32
  | ArchiveUuidMismatch
  | ArchiveLabelMismatch
  | GlobalSeqMismatch u64 u64
  | ArchiveEndBeforeChannelsEnded u64
  | FirstFrameSliceNotZero u64
  | SliceJumped u64 u64
  | SliceTransitionBeforeEnd u64
  | FrameAfterChannelEnd channel u64
  | ChannelSeqMismatch u64 u64 channel
  | ThrownFormatError format_error
  | ArchiveEndHasNoChannelIndex

definition initial_validator :: frame_validator where
  "initial_validator = \<lparr>last_was_replay = False, v_archive_uuid = [], v_archive_label = [],
     expected_global_frame_seq = 0, current_slice_seq_num = 0, v_volume_block_size = 0,
     saw_any_frame = False, saw_archive_end = False, next_channel_seq = (\<lambda>_. 0),
     channel_seen = (\<lambda>_. False), channel_ended = (\<lambda>_. False), channel_seq_unknown = (\<lambda>_. False),
     stream_start_seeded = False, replay_history = [], replay_next = None\<rparr>"

section \<open>Operations\<close>

text \<open>\<open>channel_index\<close> throws for \<open>ARCHIVE_END\<close>: \<open>None\<close>.\<close>

fun channel_index :: "channel \<Rightarrow> nat option" where
  "channel_index CH_CONTENT = Some 0"
| "channel_index CH_METADATA = Some 1"
| "channel_index ARCHIVE_END = None"

definition all_seen_channels_ended :: "frame_validator \<Rightarrow> bool" where
  "all_seen_channels_ended st \<longleftrightarrow> list_all (\<lambda>i. \<not> (channel_seen st i \<and> \<not> channel_ended st i)) [0, 1]"

definition reset :: "frame_validator \<Rightarrow> frame_validator" where
  "reset st = st\<lparr>last_was_replay := False, replay_history := [], replay_next := None,
     v_archive_uuid := [], v_archive_label := [], expected_global_frame_seq := 0,
     current_slice_seq_num := 0, v_volume_block_size := 0, saw_any_frame := False,
     saw_archive_end := False, next_channel_seq := (\<lambda>_. 0), channel_seen := (\<lambda>_. False),
     channel_ended := (\<lambda>_. False), channel_seq_unknown := (\<lambda>_. False),
     stream_start_seeded := False\<rparr>"

definition seed_for_stream_start :: "frame_validator \<Rightarrow> frame_header \<Rightarrow> frame_validator" where
  "seed_for_stream_start st h = (reset st)\<lparr>expected_global_frame_seq := global_frame_seq_num h,
     current_slice_seq_num := slice_seq_num h, stream_start_seeded := True,
     channel_seq_unknown := (\<lambda>_. True)\<rparr>"

definition retry_history_records :: nat where "retry_history_records = 8192"

definition remember_record :: "frame_validator \<Rightarrow> checked_frame \<Rightarrow> frame_validator" where
  "remember_record st frame =
    (if \<not> hash_ok frame then st
     else let h = header frame;
              hist = replay_history st @ [\<lparr>ri_global_seq = global_frame_seq_num h,
                       ri_volume_seq = volume_seq_num h, ri_frame_hash = frame_hash h\<rparr>]
          in st\<lparr>replay_history := (if length hist > retry_history_records then tl hist else hist)\<rparr>)"

definition begin_connection :: "frame_validator \<Rightarrow> frame_validator" where
  "begin_connection st = st\<lparr>replay_next := None\<rparr>"

text \<open>
  A frame older than the expected one must repeat a remembered record: re-hashed
  under the volume ordinal of the original, it has the original's hash.
\<close>

definition check_replay ::
  "(bytes \<Rightarrow> bytes) \<Rightarrow> frame_validator \<Rightarrow> checked_frame \<Rightarrow> bytes \<Rightarrow> frame_validator \<times> validate_error option" where
  "check_replay H st frame data =
    (let h = header frame; g = global_frame_seq_num h in
     if g < expected_global_frame_seq st then
       (if \<not> hash_ok frame then (st, Some ReplayFailedIntegrity)
        else case find (\<lambda>e. ri_global_seq e = g) (replay_history st) of
          None \<Rightarrow> (st, Some ReplayStateUnavailable)
        | Some found \<Rightarrow>
          (case frame_hash_with_volume_seq H (take (unat (decoded_block_size h)) data) (ri_volume_seq found) of
             Inl e \<Rightarrow> (st, Some (ThrownFormatError e))
           | Inr d \<Rightarrow>
             if d \<noteq> ri_frame_hash found then (st, Some ConflictingReplay)
             else if replay_next st \<noteq> None \<and> replay_next st \<noteq> Some g then (st, Some NonContiguousReplay)
             else (st\<lparr>replay_next := (if g + 1 = expected_global_frame_seq st then None else Some (g + 1)),
                      last_was_replay := True\<rparr>, None)))
     else if replay_next st \<noteq> None then (st, Some NewFrameBeforeReplayCompleted)
     else (st, None))"

definition validate_channel ::
  "frame_validator \<Rightarrow> checked_frame \<Rightarrow> frame_validator \<times> validate_error option" where
  "validate_channel st frame =
    (let h = header frame in
     case channel_index (channel_type h) of
       None \<Rightarrow> (st, Some ArchiveEndHasNoChannelIndex)
     | Some index \<Rightarrow>
       if channel_ended st index then
         (st, Some (FrameAfterChannelEnd (channel_type h) (slice_seq_num h)))
       else let st = (if channel_seq_unknown st index
                      then st\<lparr>channel_seq_unknown := (channel_seq_unknown st)(index := False),
                              next_channel_seq := (next_channel_seq st)(index := channel_frame_seq_num h)\<rparr>
                      else st)
            in if channel_frame_seq_num h \<noteq> next_channel_seq st index then
                 (st, Some (ChannelSeqMismatch (channel_frame_seq_num h) (next_channel_seq st index) (channel_type h)))
               else (remember_record
                      (st\<lparr>channel_seen := (channel_seen st)(index := True),
                          next_channel_seq := (next_channel_seq st)(index := channel_frame_seq_num h + 1),
                          channel_ended := (channel_ended st)(index := has_frame_flag_end (flags h))\<rparr>) frame,
                     None))"

definition validate_slice ::
  "frame_validator \<Rightarrow> checked_frame \<Rightarrow> bool \<Rightarrow> frame_validator \<times> validate_error option" where
  "validate_slice st frame had_previous_frame =
    (let h = header frame; s = slice_seq_num h in
     if \<not> saw_any_frame st \<and> \<not> stream_start_seeded st \<and> s \<noteq> 0 then
       (st, Some (FirstFrameSliceNotZero s))
     else let st = (if \<not> saw_any_frame st then st\<lparr>current_slice_seq_num := s, saw_any_frame := True\<rparr> else st)
          in if s \<noteq> current_slice_seq_num st then
               (if s \<noteq> current_slice_seq_num st + 1 then
                  (st, Some (SliceJumped s (current_slice_seq_num st)))
                else if had_previous_frame \<and> \<not> all_seen_channels_ended st then
                  (st, Some (SliceTransitionBeforeEnd (global_frame_seq_num h)))
                else validate_channel
                       (st\<lparr>current_slice_seq_num := s, next_channel_seq := (\<lambda>_. 0),
                           channel_seen := (\<lambda>_. False), channel_ended := (\<lambda>_. False),
                           channel_seq_unknown := (\<lambda>_. False)\<rparr>) frame)
             else validate_channel st frame)"

definition validate_sequence ::
  "frame_validator \<Rightarrow> checked_frame \<Rightarrow> bool \<Rightarrow> frame_validator \<times> validate_error option" where
  "validate_sequence st frame had_previous_frame =
    (let h = header frame; g = global_frame_seq_num h in
     if g \<noteq> expected_global_frame_seq st then
       (st, Some (GlobalSeqMismatch g (expected_global_frame_seq st)))
     else let st = st\<lparr>expected_global_frame_seq := g + 1\<rparr> in
       if channel_type h = ARCHIVE_END then
         (if had_previous_frame \<and> \<not> all_seen_channels_ended st then
            (st, Some (ArchiveEndBeforeChannelsEnded g))
          else (remember_record (st\<lparr>saw_archive_end := True\<rparr>) frame, None))
       else validate_slice st frame had_previous_frame)"

definition validate_identity ::
  "frame_validator \<Rightarrow> checked_frame \<Rightarrow> bool \<Rightarrow> frame_validator \<times> validate_error option" where
  "validate_identity st frame had_previous_frame =
    (let h = header frame; block_size = decoded_block_size h in
     if v_volume_block_size st \<noteq> 0 \<and> block_size \<noteq> v_volume_block_size st then
       (st, Some (BlockSizeChanged (v_volume_block_size st) block_size))
     else let st = (if v_volume_block_size st = 0 then st\<lparr>v_volume_block_size := block_size\<rparr> else st) in
       if v_archive_uuid st = [] then
         validate_sequence (st\<lparr>v_archive_uuid := archive_uuid h, v_archive_label := archive_label h\<rparr>)
           frame had_previous_frame
       else if archive_uuid h \<noteq> v_archive_uuid st then (st, Some ArchiveUuidMismatch)
       else if archive_label h \<noteq> v_archive_label st then (st, Some ArchiveLabelMismatch)
       else validate_sequence st frame had_previous_frame)"

definition validate_new ::
  "frame_validator \<Rightarrow> checked_frame \<Rightarrow> bool \<Rightarrow> frame_validator \<times> validate_error option" where
  "validate_new st frame allow_bad_hash =
    (let h = header frame; g = global_frame_seq_num h in
     if saw_archive_end st then (st, Some (FrameAfterArchiveEnd g))
     else if \<not> size_ok frame then (st, Some (RecordSizeMismatch (decoded_block_size h)))
     else if \<not> hash_ok frame \<and> \<not> allow_bad_hash then (st, Some (FrameHashMismatch g))
     else validate_identity st frame (saw_any_frame st))"

definition validate ::
  "(bytes \<Rightarrow> bytes) \<Rightarrow> frame_validator \<Rightarrow> checked_frame \<Rightarrow> bytes \<Rightarrow> bool \<Rightarrow>
   frame_validator \<times> validate_error option" where
  "validate H st frame data allow_bad_hash =
    (case check_replay H (st\<lparr>last_was_replay := False\<rparr>) frame data of
       (st, Some e) \<Rightarrow> (st, Some e)
     | (st, None) \<Rightarrow> if last_was_replay st then (st, None) else validate_new st frame allow_bad_hash)"

datatype restore_status = Restore_ok | Restore_warning | Restore_fatal

datatype restore_message =
    NoMessage
  | ValidationMessage validate_error
  | MetadataHashMismatch u64
  | SalvageHashMismatch u64
  | SalvageSizeMismatch u64

definition validate_restore_frame ::
  "(bytes \<Rightarrow> bytes) \<Rightarrow> frame_validator \<Rightarrow> checked_frame \<Rightarrow> bytes \<Rightarrow>
   frame_validator \<times> restore_status \<times> restore_message" where
  "validate_restore_frame H st frame data =
    (let advisory = (channel_type (header frame) = CH_METADATA) in
     case validate H st frame data advisory of
       (st, Some e) \<Rightarrow> (st, Restore_fatal, ValidationMessage e)
     | (st, None) \<Rightarrow>
         if \<not> hash_ok frame
         then (st, Restore_warning, MetadataHashMismatch (global_frame_seq_num (header frame)))
         else (st, Restore_ok, NoMessage))"

definition validate_salvage_frame ::
  "(bytes \<Rightarrow> bytes) \<Rightarrow> frame_validator \<Rightarrow> checked_frame \<Rightarrow> bytes \<Rightarrow>
   frame_validator \<times> restore_status \<times> restore_message" where
  "validate_salvage_frame H st frame data =
    (let h = header frame; g = global_frame_seq_num h; st = st\<lparr>last_was_replay := False\<rparr> in
     if \<not> size_ok frame \<or> \<not> hash_ok frame then
       (st, Restore_fatal, if size_ok frame then SalvageHashMismatch g else SalvageSizeMismatch g)
     else let st = (if v_archive_uuid st \<noteq> archive_uuid h
                    then st\<lparr>replay_history := [], replay_next := None,
                            expected_global_frame_seq := 0, v_archive_uuid := archive_uuid h\<rparr>
                    else st)
          in case check_replay H st frame data of
               (st, Some e) \<Rightarrow> (st, Restore_fatal, ValidationMessage e)
             | (st, None) \<Rightarrow>
                 (if last_was_replay st then st
                  else (remember_record st frame)\<lparr>expected_global_frame_seq := g + 1\<rparr>,
                  Restore_ok, NoMessage))"

section \<open>Basic lemmas\<close>

lemma reset_initial: "reset st = initial_validator"
  by (simp add: reset_def initial_validator_def)

lemma remember_record_simps [simp]:
  "last_was_replay (remember_record st f) = last_was_replay st"
  "v_archive_uuid (remember_record st f) = v_archive_uuid st"
  "v_archive_label (remember_record st f) = v_archive_label st"
  "expected_global_frame_seq (remember_record st f) = expected_global_frame_seq st"
  "current_slice_seq_num (remember_record st f) = current_slice_seq_num st"
  "v_volume_block_size (remember_record st f) = v_volume_block_size st"
  "saw_any_frame (remember_record st f) = saw_any_frame st"
  "saw_archive_end (remember_record st f) = saw_archive_end st"
  "next_channel_seq (remember_record st f) = next_channel_seq st"
  "channel_seen (remember_record st f) = channel_seen st"
  "channel_ended (remember_record st f) = channel_ended st"
  "channel_seq_unknown (remember_record st f) = channel_seq_unknown st"
  "stream_start_seeded (remember_record st f) = stream_start_seeded st"
  "replay_next (remember_record st f) = replay_next st"
  by (simp_all add: remember_record_def Let_def)

end
