(* ===== verification/ValidateSpec.thy ===== *)
theory ValidateSpec
  imports Validate
begin

text \<open>
  What the validator promises, stated on the sequence of headers alone, and the
  proof that the state machine of \<open>Validate\<close> implements it: a frame that is
  not a replay is accepted exactly when it fits the frames accepted before it.
\<close>

section \<open>Specification on header sequences\<close>

definition end_flag :: "frame_header \<Rightarrow> bool" where
  "end_flag h \<longleftrightarrow> has_frame_flag_end (flags h)"

text \<open>The frames of the slice being received, newest first.\<close>

definition current_run :: "frame_header list \<Rightarrow> frame_header list" where
  "current_run p = takeWhile (\<lambda>x. slice_seq_num x = slice_seq_num (last p)) (rev p)"

definition channel_frames :: "channel \<Rightarrow> frame_header list \<Rightarrow> frame_header list" where
  "channel_frames c xs = filter (\<lambda>x. channel_type x = c) xs"

definition channel_closed :: "channel \<Rightarrow> frame_header list \<Rightarrow> bool" where
  "channel_closed c xs \<longleftrightarrow> channel_frames c xs \<noteq> [] \<and> end_flag (hd (channel_frames c xs))"

definition channel_open :: "channel \<Rightarrow> frame_header list \<Rightarrow> bool" where
  "channel_open c xs \<longleftrightarrow> channel_frames c xs \<noteq> [] \<and> \<not> end_flag (hd (channel_frames c xs))"

definition slice_complete :: "frame_header list \<Rightarrow> bool" where
  "slice_complete p \<longleftrightarrow> \<not> channel_open CH_CONTENT (current_run p) \<and> \<not> channel_open CH_METADATA (current_run p)"

definition archive_ended :: "frame_header list \<Rightarrow> bool" where
  "archive_ended p \<longleftrightarrow> list_ex (\<lambda>x. channel_type x = ARCHIVE_END) p"

text \<open>
  Block size never changes; a non-empty archive\_uuid pins both uuid and label.
\<close>

definition same_archive :: "frame_header list \<Rightarrow> frame_header \<Rightarrow> bool" where
  "same_archive p h \<longleftrightarrow>
     list_all (\<lambda>x. decoded_block_size x = decoded_block_size h \<and>
       (archive_uuid x \<noteq> [] \<longrightarrow> archive_uuid h = archive_uuid x \<and> archive_label h = archive_label x)) p"

definition channel_fits :: "frame_header list \<Rightarrow> frame_header \<Rightarrow> bool" where
  "channel_fits run h \<longleftrightarrow> \<not> channel_closed (channel_type h) run \<and>
     channel_frame_seq_num h = word_of_nat (length (channel_frames (channel_type h) run))"

definition slice_fits :: "frame_header list \<Rightarrow> frame_header \<Rightarrow> bool" where
  "slice_fits p h \<longleftrightarrow>
    (if p = [] then slice_seq_num h = 0 \<and> channel_fits [] h
     else if slice_seq_num h = slice_seq_num (last p) then channel_fits (current_run p) h
     else slice_seq_num h = slice_seq_num (last p) + 1 \<and> slice_complete p \<and> channel_fits [] h)"

definition fits :: "frame_header list \<Rightarrow> frame_header \<Rightarrow> bool" where
  "fits p h \<longleftrightarrow> \<not> archive_ended p \<and> same_archive p h \<and>
     global_frame_seq_num h = word_of_nat (length p) \<and>
     (if channel_type h = ARCHIVE_END then p = [] \<or> slice_complete p else slice_fits p h)"

fun archive_prefix :: "frame_header list \<Rightarrow> frame_header list \<Rightarrow> bool" where
  "archive_prefix p [] = True"
| "archive_prefix p (h # hs) = (fits p h \<and> archive_prefix (p @ [h]) hs)"

section \<open>The state tracks the accepted frames\<close>

definition tracks_channels :: "frame_validator \<Rightarrow> frame_header list \<Rightarrow> bool" where
  "tracks_channels st run \<longleftrightarrow> (\<forall>c i. channel_index c = Some i \<longrightarrow>
     channel_seen st i = (channel_frames c run \<noteq> []) \<and>
     channel_ended st i = channel_closed c run \<and> \<not> channel_seq_unknown st i \<and>
     next_channel_seq st i = word_of_nat (length (channel_frames c run)))"

definition tracks_identity :: "frame_validator \<Rightarrow> frame_header list \<Rightarrow> bool" where
  "tracks_identity st p \<longleftrightarrow>
     (v_volume_block_size st = 0 \<longleftrightarrow> p = []) \<and>
     (v_archive_uuid st \<noteq> [] \<longrightarrow> (\<exists>x\<in>set p. archive_uuid x \<noteq> [])) \<and>
     (\<forall>x\<in>set p. decoded_block_size x = v_volume_block_size st \<and>
        (archive_uuid x \<noteq> [] \<longrightarrow> archive_uuid x = v_archive_uuid st \<and> archive_label x = v_archive_label st))"

definition tracks_slices :: "frame_validator \<Rightarrow> frame_header list \<Rightarrow> bool" where
  "tracks_slices st p \<longleftrightarrow> saw_any_frame st = (p \<noteq> []) \<and>
     (p \<noteq> [] \<longrightarrow> current_slice_seq_num st = slice_seq_num (last p)) \<and>
     tracks_channels st (current_run p)"

definition tracks :: "frame_validator \<Rightarrow> frame_header list \<Rightarrow> bool" where
  "tracks st p \<longleftrightarrow> replay_next st = None \<and> \<not> stream_start_seeded st \<and>
     expected_global_frame_seq st = word_of_nat (length p) \<and>
     saw_archive_end st = archive_ended p \<and>
     (\<not> archive_ended p \<longrightarrow> tracks_identity st p \<and> tracks_slices st p)"

lemma current_run_Nil [simp]: "current_run [] = []"
  by (simp add: current_run_def)

lemma current_run_single [simp]: "current_run [h] = [h]"
  by (simp add: current_run_def)

lemma current_run_snoc:
  "current_run (p @ [h]) =
   (if p \<noteq> [] \<and> slice_seq_num h = slice_seq_num (last p) then h # current_run p else [h])"
proof (cases "rev p")
  case (Cons x xs)
  then have "p \<noteq> [] \<and> last p = x" by (metis last_rev rev_rev_ident list.sel(1) rev_is_Nil_conv hd_rev list.discI)
  then show ?thesis using Cons by (auto simp: current_run_def)
qed (simp add: current_run_def)

lemma channel_frames_simps [simp]:
  "channel_frames c [] = []"
  "channel_frames c (x # xs) = (if channel_type x = c then x # channel_frames c xs else channel_frames c xs)"
  by (simp_all add: channel_frames_def)

lemma channel_closed_simps [simp]:
  "channel_closed c [] = False"
  "channel_closed c (x # xs) = (if channel_type x = c then end_flag x else channel_closed c xs)"
  "channel_open c [] = False"
  "channel_open c (x # xs) = (if channel_type x = c then \<not> end_flag x else channel_open c xs)"
  by (simp_all add: channel_closed_def channel_open_def)

lemma channel_index_neq:
  "channel_index c = Some i \<Longrightarrow> channel_index d = Some j \<Longrightarrow> i = j \<longleftrightarrow> c = d"
  by (cases c; cases d) auto

lemma tracks_channels_update [simp]:
  "tracks_channels (st\<lparr>last_was_replay := b\<rparr>) run = tracks_channels st run"
  "tracks_channels (st\<lparr>v_volume_block_size := v\<rparr>) run = tracks_channels st run"
  "tracks_channels (st\<lparr>v_archive_uuid := u\<rparr>) run = tracks_channels st run"
  "tracks_channels (st\<lparr>v_archive_label := l\<rparr>) run = tracks_channels st run"
  "tracks_channels (st\<lparr>expected_global_frame_seq := g\<rparr>) run = tracks_channels st run"
  "tracks_channels (st\<lparr>current_slice_seq_num := s\<rparr>) run = tracks_channels st run"
  "tracks_channels (st\<lparr>saw_any_frame := b\<rparr>) run = tracks_channels st run"
  by (simp_all add: tracks_channels_def)

lemma all_ended_complete:
  assumes "tracks_channels st run"
  shows "all_seen_channels_ended st \<longleftrightarrow> \<not> channel_open CH_CONTENT run \<and> \<not> channel_open CH_METADATA run"
proof -
  have "channel_seen st 0 = (channel_frames CH_CONTENT run \<noteq> [])"
    "channel_ended st 0 = channel_closed CH_CONTENT run"
    "channel_seen st 1 = (channel_frames CH_METADATA run \<noteq> [])"
    "channel_ended st 1 = channel_closed CH_METADATA run"
    using assms by (simp_all add: tracks_channels_def)
  then show ?thesis by (auto simp: all_seen_channels_ended_def channel_open_def channel_closed_def)
qed

text \<open>
  The fields the channel, slice and sequence stages never touch, and what an
  accepted frame adds to the replay history: its identity, the oldest of 8192
  making room for it.
\<close>

definition identity_of :: "frame_header \<Rightarrow> replay_identity" where
  "identity_of h = \<lparr>ri_global_seq = global_frame_seq_num h, ri_volume_seq = volume_seq_num h,
     ri_frame_hash = frame_hash h\<rparr>"

definition push_history :: "replay_identity list \<Rightarrow> checked_frame \<Rightarrow> replay_identity list" where
  "push_history hist f = (if \<not> hash_ok f then hist
     else if length hist < retry_history_records then hist @ [identity_of (header f)]
     else tl (hist @ [identity_of (header f)]))"

lemma remember_record_history [simp]:
  "replay_history (remember_record st f) = push_history (replay_history st) f"
  by (auto simp: remember_record_def push_history_def identity_of_def Let_def)

definition keeps_identity :: "checked_frame \<Rightarrow> frame_validator \<Rightarrow> frame_validator \<Rightarrow> bool" where
  "keeps_identity f st st' \<longleftrightarrow> last_was_replay st' = last_was_replay st \<and>
     v_archive_uuid st' = v_archive_uuid st \<and> v_archive_label st' = v_archive_label st \<and>
     v_volume_block_size st' = v_volume_block_size st \<and>
     stream_start_seeded st' = stream_start_seeded st \<and> replay_next st' = replay_next st \<and>
     replay_history st' = push_history (replay_history st) f"

text \<open>The channel stage accepts exactly what \<open>channel_fits\<close> says.\<close>

lemma validate_channel_ok:
  assumes "tracks_channels st run" and "channel_type (header f) \<noteq> ARCHIVE_END"
    and "channel_fits run (header f)"
  shows "\<exists>st'. validate_channel st f = (st', None) \<and> tracks_channels st' (header f # run) \<and>
    keeps_identity f st st' \<and> expected_global_frame_seq st' = expected_global_frame_seq st \<and>
    current_slice_seq_num st' = current_slice_seq_num st \<and>
    saw_any_frame st' = saw_any_frame st \<and> saw_archive_end st' = saw_archive_end st"
proof -
  let ?h = "header f"
  from assms(2) obtain i where i: "channel_index (channel_type ?h) = Some i"
    by (cases "channel_type ?h") auto
  with assms(1,3) have st: "\<not> channel_ended st i" "\<not> channel_seq_unknown st i"
    "next_channel_seq st i = channel_frame_seq_num ?h"
    by (auto simp: tracks_channels_def channel_fits_def)
  define t where "t = remember_record (st\<lparr>channel_seen := (channel_seen st)(i := True),
        next_channel_seq := (next_channel_seq st)(i := channel_frame_seq_num ?h + 1),
        channel_ended := (channel_ended st)(i := has_frame_flag_end (flags ?h))\<rparr>) f"
  have "validate_channel st f = (t, None)"
    using i st by (simp add: validate_channel_def Let_def t_def)
  moreover have "tracks_channels t (?h # run)"
    using assms(1,3) i
    by (auto simp: tracks_channels_def t_def channel_index_neq channel_fits_def end_flag_def add.commute)
  ultimately show ?thesis by (simp add: t_def keeps_identity_def)
qed

lemma validate_channel_reject:
  assumes "tracks_channels st run" and "channel_type (header f) \<noteq> ARCHIVE_END"
    and "\<not> channel_fits run (header f)"
  shows "snd (validate_channel st f) \<noteq> None"
proof -
  from assms(2) obtain i where i: "channel_index (channel_type (header f)) = Some i"
    by (cases "channel_type (header f)") auto
  with assms(1,3) show ?thesis
    by (auto simp: validate_channel_def Let_def tracks_channels_def channel_fits_def)
qed

lemma tracks_channels_fresh:
  "tracks_channels (st\<lparr>current_slice_seq_num := s, next_channel_seq := (\<lambda>_. 0), channel_seen := (\<lambda>_. False),
     channel_ended := (\<lambda>_. False), channel_seq_unknown := (\<lambda>_. False)\<rparr>) []"
  by (simp add: tracks_channels_def)

text \<open>The slice stage: what it hands to the channel stage in the three cases.\<close>

lemma validate_slice_first:
  assumes "tracks_slices st []" and "\<not> stream_start_seeded st" and "slice_seq_num (header f) = 0"
  shows "validate_slice st f False =
    validate_channel (st\<lparr>current_slice_seq_num := 0, saw_any_frame := True\<rparr>) f"
  using assms by (simp add: validate_slice_def Let_def tracks_slices_def)

lemma validate_slice_same:
  assumes "tracks_slices st p" and "p \<noteq> []" and "slice_seq_num (header f) = slice_seq_num (last p)"
  shows "validate_slice st f b = validate_channel st f"
  using assms by (simp add: validate_slice_def Let_def tracks_slices_def)

lemma validate_slice_next:
  assumes "tracks_slices st p" and "p \<noteq> []" and "slice_seq_num (header f) = slice_seq_num (last p) + 1"
    and "slice_complete p"
  shows "validate_slice st f b =
    validate_channel (st\<lparr>current_slice_seq_num := slice_seq_num (header f), next_channel_seq := (\<lambda>_. 0),
      channel_seen := (\<lambda>_. False), channel_ended := (\<lambda>_. False), channel_seq_unknown := (\<lambda>_. False)\<rparr>) f"
proof -
  have "all_seen_channels_ended st"
    using assms all_ended_complete [of st "current_run p"]
    by (simp add: tracks_slices_def slice_complete_def)
  then show ?thesis using assms by (simp add: validate_slice_def Let_def tracks_slices_def)
qed

lemma validate_slice_ok:
  assumes "tracks_slices st p" and "\<not> stream_start_seeded st"
    and "channel_type (header f) \<noteq> ARCHIVE_END" and "slice_fits p (header f)"
  shows "\<exists>st'. validate_slice st f (p \<noteq> []) = (st', None) \<and> tracks_slices st' (p @ [header f]) \<and>
    keeps_identity f st st' \<and> expected_global_frame_seq st' = expected_global_frame_seq st \<and>
    saw_archive_end st' = saw_archive_end st"
proof -
  let ?h = "header f"
  note T = assms(1) [unfolded tracks_slices_def]
  consider (first) "p = []" | (same) "p \<noteq> []" "slice_seq_num ?h = slice_seq_num (last p)"
    | (nextslice) "p \<noteq> []" "slice_seq_num ?h \<noteq> slice_seq_num (last p)" by blast
  then show ?thesis
  proof cases
    case first
    let ?s = "st\<lparr>current_slice_seq_num := 0, saw_any_frame := True\<rparr>"
    have "tracks_channels ?s []" "channel_fits [] ?h" and z: "slice_seq_num ?h = 0"
      using T assms(4) first by (simp_all add: slice_fits_def)
    from validate_channel_ok [OF this(1) assms(3) this(2)] show ?thesis
      using validate_slice_first [of st f] assms(1,2) first z
      by (auto simp: tracks_slices_def current_run_snoc keeps_identity_def)
  next
    case same
    then have "tracks_channels st (current_run p)" "channel_fits (current_run p) ?h"
      using T assms(4) by (simp_all add: slice_fits_def)
    from validate_channel_ok [OF this(1) assms(3) this(2)] show ?thesis
      using validate_slice_same [OF assms(1) same] T same
      by (auto simp: tracks_slices_def current_run_snoc)
  next
    case nextslice
    then have c: "channel_fits [] ?h" "slice_complete p" "slice_seq_num ?h = slice_seq_num (last p) + 1"
      using assms(4) by (simp_all add: slice_fits_def)
    from validate_channel_ok [OF tracks_channels_fresh [of "slice_seq_num ?h" st] assms(3) c(1)] show ?thesis
      using validate_slice_next [OF assms(1) nextslice(1) c(3,2)] T nextslice
      by (auto simp: tracks_slices_def current_run_snoc keeps_identity_def)
  qed
qed

lemma validate_slice_reject:
  assumes "tracks_slices st p" and "\<not> stream_start_seeded st"
    and "channel_type (header f) \<noteq> ARCHIVE_END" and "\<not> slice_fits p (header f)"
  shows "snd (validate_slice st f (p \<noteq> [])) \<noteq> None"
proof -
  let ?h = "header f"
  note T = assms(1) [unfolded tracks_slices_def]
  consider (first) "p = []" | (same) "p \<noteq> []" "slice_seq_num ?h = slice_seq_num (last p)"
    | (nextslice) "p \<noteq> []" "slice_seq_num ?h \<noteq> slice_seq_num (last p)" by blast
  then show ?thesis
  proof cases
    case first
    have "tracks_channels (st\<lparr>current_slice_seq_num := slice_seq_num ?h, saw_any_frame := True\<rparr>) []"
      using T first by simp
    from validate_channel_reject [OF this assms(3)] show ?thesis
      using assms(2,4) T first by (auto simp: validate_slice_def Let_def slice_fits_def)
  next
    case same
    with T validate_channel_reject [of st "current_run p" f] assms(3,4) show ?thesis
      by (auto simp: validate_slice_def Let_def slice_fits_def)
  next
    case nextslice
    with T validate_channel_reject [OF tracks_channels_fresh assms(3)] assms(2,4) show ?thesis
      by (auto simp: validate_slice_def Let_def slice_fits_def slice_complete_def all_ended_complete)
  qed
qed

lemma tracks_slices_update [simp]:
  "tracks_slices (st\<lparr>last_was_replay := b\<rparr>) p = tracks_slices st p"
  "tracks_slices (st\<lparr>v_volume_block_size := v\<rparr>) p = tracks_slices st p"
  "tracks_slices (st\<lparr>v_archive_uuid := u\<rparr>) p = tracks_slices st p"
  "tracks_slices (st\<lparr>v_archive_label := l\<rparr>) p = tracks_slices st p"
  "tracks_slices (st\<lparr>expected_global_frame_seq := g\<rparr>) p = tracks_slices st p"
  by (simp_all add: tracks_slices_def)

lemma archive_ended_simps [simp]:
  "archive_ended [] = False"
  "archive_ended (p @ q) \<longleftrightarrow> archive_ended p \<or> archive_ended q"
  "archive_ended [h] \<longleftrightarrow> channel_type h = ARCHIVE_END"
  by (auto simp: archive_ended_def list_ex_iff)

definition sequence_fits :: "frame_header list \<Rightarrow> frame_header \<Rightarrow> bool" where
  "sequence_fits p h \<longleftrightarrow> global_frame_seq_num h = word_of_nat (length p) \<and>
     (if channel_type h = ARCHIVE_END then p = [] \<or> slice_complete p else slice_fits p h)"

lemma all_ended_expected [simp]:
  "all_seen_channels_ended (st\<lparr>expected_global_frame_seq := g\<rparr>) = all_seen_channels_ended st"
  by (simp add: all_seen_channels_ended_def)

lemma validate_sequence_ok:
  assumes "tracks_slices st p" and "\<not> stream_start_seeded st"
    and "expected_global_frame_seq st = word_of_nat (length p)" and "sequence_fits p (header f)"
    and "\<not> saw_archive_end st"
  shows "\<exists>st'. validate_sequence st f (p \<noteq> []) = (st', None) \<and> keeps_identity f st st' \<and>
    (channel_type (header f) \<noteq> ARCHIVE_END \<longrightarrow> tracks_slices st' (p @ [header f])) \<and>
    expected_global_frame_seq st' = word_of_nat (length (p @ [header f])) \<and>
    saw_archive_end st' = (channel_type (header f) = ARCHIVE_END)"
proof (cases "channel_type (header f) = ARCHIVE_END")
  case True
  have "p = [] \<or> all_seen_channels_ended st"
    using True assms(1,4) all_ended_complete [of st "current_run p"]
    by (auto simp: sequence_fits_def tracks_slices_def slice_complete_def)
  moreover have "global_frame_seq_num (header f) = word_of_nat (length p)"
    using assms(4) by (simp add: sequence_fits_def)
  ultimately show ?thesis
    using True assms(3) by (auto simp: validate_sequence_def Let_def keeps_identity_def add.commute)
next
  case False
  let ?s = "st\<lparr>expected_global_frame_seq := global_frame_seq_num (header f) + 1\<rparr>"
  have "tracks_slices ?s p" "slice_fits p (header f)" using assms(1,4) False by (simp_all add: sequence_fits_def)
  from validate_slice_ok [OF this(1) _ False this(2)] assms(2) obtain st' where
    st': "validate_slice ?s f (p \<noteq> []) = (st', None)" "tracks_slices st' (p @ [header f])"
    "keeps_identity f ?s st'" "expected_global_frame_seq st' = global_frame_seq_num (header f) + 1"
    "saw_archive_end st' = saw_archive_end st"
    by auto
  have "validate_sequence st f (p \<noteq> []) = (st', None)"
    using st'(1) assms(3,4) False by (simp add: validate_sequence_def Let_def sequence_fits_def)
  then show ?thesis
    using st' assms(4,5) False by (simp add: keeps_identity_def sequence_fits_def add.commute)
qed

lemma validate_sequence_reject:
  assumes "tracks_slices st p" and "\<not> stream_start_seeded st"
    and "expected_global_frame_seq st = word_of_nat (length p)" and "\<not> sequence_fits p (header f)"
  shows "snd (validate_sequence st f (p \<noteq> [])) \<noteq> None"
proof (cases "channel_type (header f) = ARCHIVE_END")
  case True
  with assms all_ended_complete [of st "current_run p"] show ?thesis
    by (auto simp: validate_sequence_def Let_def sequence_fits_def tracks_slices_def slice_complete_def)
next
  case False
  let ?s = "st\<lparr>expected_global_frame_seq := global_frame_seq_num (header f) + 1\<rparr>"
  have "tracks_slices ?s p" using assms(1) by simp
  from validate_slice_reject [OF this _ False] assms False show ?thesis
    by (auto simp: validate_sequence_def Let_def sequence_fits_def)
qed

text \<open>The identity stage: block size, archive uuid and label.\<close>

lemma tracks_identity_snoc:
  assumes "tracks_identity st p" and "same_archive p h" and "decoded_block_size h \<noteq> 0"
    and "v_volume_block_size st' = decoded_block_size h"
    and "v_archive_uuid st' = archive_uuid h" and "v_archive_label st' = archive_label h"
  shows "tracks_identity st' (p @ [h])"
  using assms unfolding tracks_identity_def same_archive_def list_all_iff by auto

lemma same_archive_checks:
  assumes "tracks_identity st p"
  shows "same_archive p h \<longleftrightarrow>
    (v_volume_block_size st = 0 \<or> decoded_block_size h = v_volume_block_size st) \<and>
    (v_archive_uuid st = [] \<or> archive_uuid h = v_archive_uuid st \<and> archive_label h = v_archive_label st)"
proof (cases "p = []")
  case True
  then show ?thesis using assms by (auto simp: tracks_identity_def same_archive_def)
next
  case False
  then obtain x where "x \<in> set p" by (cases p) auto
  then show ?thesis using assms False unfolding tracks_identity_def same_archive_def list_all_iff
    by (metis (no_types, lifting))
qed

definition pin_identity :: "frame_validator \<Rightarrow> frame_header \<Rightarrow> frame_validator" where
  "pin_identity st h = st\<lparr>v_volume_block_size := decoded_block_size h,
     v_archive_uuid := archive_uuid h, v_archive_label := archive_label h\<rparr>"

lemma validate_identity_enters:
  assumes "tracks_identity st p" and "same_archive p (header f)"
  shows "validate_identity st f b = validate_sequence (pin_identity st (header f)) f b"
proof -
  have c: "v_volume_block_size st = 0 \<or> decoded_block_size (header f) = v_volume_block_size st"
    "v_archive_uuid st = [] \<or> archive_uuid (header f) = v_archive_uuid st \<and>
      archive_label (header f) = v_archive_label st"
    using same_archive_checks [OF assms(1)] assms(2) by auto
  then show ?thesis by (auto simp: validate_identity_def Let_def pin_identity_def)
qed

lemma tracks_slices_pin [simp]: "tracks_slices (pin_identity st h) p = tracks_slices st p"
  by (simp add: pin_identity_def)

lemma validate_identity_reject:
  assumes "tracks_identity st p" and "\<not> same_archive p (header f)"
  shows "snd (validate_identity st f b) \<noteq> None"
  using same_archive_checks [OF assms(1), of "header f"] assms(2)
  by (auto simp: validate_identity_def Let_def)

section \<open>The validator implements the specification\<close>

text \<open>
  A frame that is not a replay: whole, with a good hash (or a bad one where the
  caller allows it), numbered at or after the expected number.
\<close>

definition fresh_frame :: "bool \<Rightarrow> checked_frame \<Rightarrow> frame_header list \<Rightarrow> bool" where
  "fresh_frame b f p \<longleftrightarrow> size_ok f \<and> (hash_ok f \<or> b) \<and> decoded_block_size (header f) \<noteq> 0 \<and>
     \<not> global_frame_seq_num (header f) < word_of_nat (length p)"

lemma fits_stages:
  "fits p h \<longleftrightarrow> \<not> archive_ended p \<and> same_archive p h \<and> sequence_fits p h"
  by (auto simp: fits_def sequence_fits_def)

lemma validate_new_ok:
  assumes "tracks st p" and "fresh_frame b f p" and "fits p (header f)"
  shows "\<exists>st'. validate_new st f b = (st', None) \<and> tracks st' (p @ [header f]) \<and>
    last_was_replay st' = last_was_replay st \<and>
    replay_history st' = push_history (replay_history st) f"
proof -
  let ?h = "header f"
  have f: "\<not> archive_ended p" "same_archive p ?h" "sequence_fits p ?h"
    using assms(3) by (simp_all add: fits_stages)
  note T = assms(1) [unfolded tracks_def]
  have ti: "tracks_identity st p" and ts: "tracks_slices st p" and sa: "saw_any_frame st = (p \<noteq> [])"
    using T f(1) by (auto simp: tracks_slices_def)
  let ?s = "pin_identity st ?h"
  have "tracks_slices ?s p" "\<not> stream_start_seeded ?s" "expected_global_frame_seq ?s = word_of_nat (length p)"
    "\<not> saw_archive_end ?s"
    using ts T f(1) by (simp_all add: pin_identity_def)
  from validate_sequence_ok [OF this(1-3) f(3) this(4)] obtain st' where
    st': "validate_sequence ?s f (p \<noteq> []) = (st', None)" "keeps_identity f ?s st'"
    "channel_type ?h \<noteq> ARCHIVE_END \<longrightarrow> tracks_slices st' (p @ [?h])"
    "expected_global_frame_seq st' = word_of_nat (length (p @ [?h]))"
    "saw_archive_end st' = (channel_type ?h = ARCHIVE_END)" by blast
  have "tracks_identity st' (p @ [?h])"
    by (rule tracks_identity_snoc [OF ti f(2)])
      (use st'(2) assms(2) in \<open>simp_all add: keeps_identity_def pin_identity_def fresh_frame_def\<close>)
  then have "tracks st' (p @ [?h])"
    using st' T f(1) by (simp add: tracks_def keeps_identity_def pin_identity_def)
  moreover have "validate_new st f b = (st', None)"
    using st'(1) validate_identity_enters [OF ti f(2)] sa T f(1) assms(2)
    by (auto simp: validate_new_def Let_def fresh_frame_def)
  ultimately show ?thesis using st'(2) by (simp add: keeps_identity_def pin_identity_def)
qed

lemma validate_new_reject:
  assumes "tracks st p" and "fresh_frame b f p" and "\<not> fits p (header f)"
  shows "snd (validate_new st f b) \<noteq> None"
proof (cases "archive_ended p")
  case True
  then show ?thesis using assms(1) by (simp add: validate_new_def Let_def tracks_def)
next
  case False
  note T = assms(1) [unfolded tracks_def]
  have ti: "tracks_identity st p" and ts: "tracks_slices st p" and sa: "saw_any_frame st = (p \<noteq> [])"
    using T False by (auto simp: tracks_slices_def)
  have e: "validate_new st f b = validate_identity st f (p \<noteq> [])"
    using T False assms(2) sa by (auto simp: validate_new_def Let_def fresh_frame_def)
  show ?thesis
  proof (cases "same_archive p (header f)")
    case True
    let ?s = "pin_identity st (header f)"
    have "tracks_slices ?s p" "\<not> stream_start_seeded ?s" "expected_global_frame_seq ?s = word_of_nat (length p)"
      "\<not> sequence_fits p (header f)"
      using ts T True False assms(3) by (simp_all add: pin_identity_def fits_stages)
    from validate_sequence_reject [OF this] show ?thesis
      using e validate_identity_enters [OF ti True] by simp
  next
    case d: False
    then show ?thesis using e validate_identity_reject [OF ti] by simp
  qed
qed

lemma tracks_replay_flag [simp]: "tracks (st\<lparr>last_was_replay := b\<rparr>) p = tracks st p"
  by (simp add: tracks_def tracks_identity_def)

lemma validate_fresh:
  assumes "tracks st p" and "fresh_frame b f p"
  shows "validate H st f data b = validate_new (st\<lparr>last_was_replay := False\<rparr>) f b"
  using assms by (simp add: validate_def check_replay_def Let_def tracks_def fresh_frame_def)

lemma tracks_initial: "tracks initial_validator []"
  by (simp add: tracks_def initial_validator_def tracks_identity_def tracks_slices_def tracks_channels_def)

section \<open>A receiver's run\<close>

text \<open>
  What a consumer of frames does with the validator: \<open>begin_connection\<close> on every
  (re)connection, \<open>validate\<close> on every frame, and a stop at the first error.
  The headers of the frames it takes as new ones are collected.
\<close>

datatype arrival = Reconnect | Arrived checked_frame bytes

fun receive ::
  "(bytes \<Rightarrow> bytes) \<Rightarrow> (checked_frame \<Rightarrow> bool) \<Rightarrow> frame_validator \<Rightarrow> arrival list \<Rightarrow> frame_header list \<times> bool" where
  "receive H allow st [] = ([], True)"
| "receive H allow st (Reconnect # evs) = receive H allow (begin_connection st) evs"
| "receive H allow st (Arrived f data # evs) =
    (case validate H st f data (allow f) of
       (st', Some e) \<Rightarrow> ([], False)
     | (st', None) \<Rightarrow>
         (case receive H allow st' evs of (hs, ok) \<Rightarrow>
            (if last_was_replay st' then hs else header f # hs, ok)))"

definition sized :: "arrival \<Rightarrow> bool" where
  "sized ev \<longleftrightarrow> (case ev of Reconnect \<Rightarrow> True | Arrived f d \<Rightarrow> decoded_block_size (header f) \<noteq> 0)"

definition tracks_any :: "frame_validator \<Rightarrow> frame_header list \<Rightarrow> bool" where
  "tracks_any st p \<longleftrightarrow> tracks (st\<lparr>replay_next := None\<rparr>) p"

lemma tracks_any_simps [simp]:
  "tracks_any (st\<lparr>replay_next := r\<rparr>) p = tracks_any st p"
  "tracks_any (st\<lparr>last_was_replay := b\<rparr>) p = tracks_any st p"
  "tracks_any (begin_connection st) p = tracks_any st p"
  by (simp_all add: tracks_any_def begin_connection_def tracks_def tracks_identity_def tracks_slices_def
      tracks_channels_def)

lemma tracks_imp_any: "tracks st p \<Longrightarrow> tracks_any st p"
  by (simp add: tracks_any_def tracks_def tracks_identity_def tracks_slices_def tracks_channels_def)

lemma tracks_any_None: "tracks_any st p \<Longrightarrow> replay_next st = None \<Longrightarrow> tracks st p"
  by (simp add: tracks_any_def tracks_def tracks_identity_def tracks_slices_def tracks_channels_def)

text \<open>Whether a frame is taken as a replay is settled by \<open>check_replay\<close>.\<close>

lemma check_replay_cases:
  assumes "check_replay H st f data = (st', None)" and "\<not> last_was_replay st"
  shows "(last_was_replay st' \<and> (\<exists>r. st' = st\<lparr>replay_next := r, last_was_replay := True\<rparr>) \<and>
            global_frame_seq_num (header f) < expected_global_frame_seq st \<and> hash_ok f) \<or>
         (st' = st \<and> replay_next st = None \<and> \<not> global_frame_seq_num (header f) < expected_global_frame_seq st)"
  using assms
  by (auto simp: check_replay_def Let_def split: if_splits option.splits sum.splits)

lemma validate_step:
  assumes "tracks_any st p" and "decoded_block_size (header f) \<noteq> 0"
    and "validate H st f data b = (st', None)"
  shows "last_was_replay st' \<and> tracks_any st' p \<and> replay_history st' = replay_history st \<or>
    \<not> last_was_replay st' \<and> fits p (header f) \<and> size_ok f \<and> (hash_ok f \<or> b) \<and> tracks st' (p @ [header f]) \<and>
    replay_history st' = push_history (replay_history st) f"
proof -
  let ?s = "st\<lparr>last_was_replay := False\<rparr>"
  obtain s1 where c: "check_replay H ?s f data = (s1, None)"
    using assms(3) by (cases "check_replay H ?s f data") (auto simp: validate_def split: option.splits)
  from check_replay_cases [OF this] consider
    (replay) r where "s1 = ?s\<lparr>replay_next := r, last_was_replay := True\<rparr>" |
    (new) "s1 = ?s" "replay_next ?s = None"
      "\<not> global_frame_seq_num (header f) < expected_global_frame_seq st" by auto
  then show ?thesis
  proof cases
    case replay
    then show ?thesis using c assms by (auto simp: validate_def)
  next
    case new
    then have t: "tracks ?s p" using assms(1) by (intro tracks_any_None) simp_all
    have v: "validate_new ?s f b = (st', None)" using assms(3) c new by (simp add: validate_def)
    have e: "expected_global_frame_seq st = word_of_nat (length p)" using t by (simp add: tracks_def)
    have "size_ok f \<and> (hash_ok f \<or> b)"
      using v by (auto simp: validate_new_def Let_def split: if_splits)
    then have fr: "fresh_frame b f p" using new e assms(2) by (simp add: fresh_frame_def)
    have "fits p (header f)" using validate_new_reject [OF t fr] v by auto
    from validate_new_ok [OF t fr this] v \<open>size_ok f \<and> (hash_ok f \<or> b)\<close> this show ?thesis
      by auto
  qed
qed

lemma receive_prefix:
  "tracks_any st p \<Longrightarrow> list_all sized evs \<Longrightarrow> archive_prefix p (fst (receive H allow st evs))"
proof (induction evs arbitrary: st p rule: list.induct)
  case (Cons ev evs)
  show ?case
  proof (cases ev)
    case Reconnect
    then show ?thesis using Cons by simp
  next
    case (Arrived f data)
    obtain st' e where v: "validate H st f data (allow f) = (st', e)" by fastforce
    show ?thesis
    proof (cases e)
      case None
      have "decoded_block_size (header f) \<noteq> 0" using Cons.prems(2) Arrived by (simp add: sized_def)
      from validate_step [OF Cons.prems(1) this v [unfolded None]]
      have "last_was_replay st' \<and> tracks_any st' p \<or>
        \<not> last_was_replay st' \<and> fits p (header f) \<and> tracks_any st' (p @ [header f])"
        by (auto intro: tracks_imp_any)
      then show ?thesis
        using v None Arrived Cons.IH [of st' p] Cons.IH [of st' "p @ [header f]"] Cons.prems(2)
        by (auto split: prod.splits)
    qed (use v Arrived in simp)
  qed
qed simp

lemma tracks_any_initial: "tracks_any initial_validator []"
  by (rule tracks_imp_any [OF tracks_initial])

lemma receive_all:
  "tracks st p \<Longrightarrow> \<forall>(f, d) \<in> set fs. size_ok f \<and> hash_ok f \<and> decoded_block_size (header f) \<noteq> 0 \<Longrightarrow>
   archive_prefix p (map (header \<circ> fst) fs) \<Longrightarrow>
   receive H allow st (map (\<lambda>(f, d). Arrived f d) fs) = (map (header \<circ> fst) fs, True)"
proof (induction fs arbitrary: st p)
  case (Cons fd fs)
  obtain f d where fd: "fd = (f, d)" by force
  have fit: "fits p (header f)" using Cons.prems(3) fd by simp
  then have fr: "fresh_frame (allow f) f p"
    using Cons.prems(2) fd by (simp add: fresh_frame_def fits_def)
  have "tracks (st\<lparr>last_was_replay := False\<rparr>) p" using Cons.prems(1) by simp
  from validate_new_ok [OF this fr fit] obtain st' where st':
    "validate_new (st\<lparr>last_was_replay := False\<rparr>) f (allow f) = (st', None)"
    "tracks st' (p @ [header f])" "\<not> last_was_replay st'" by auto
  then show ?case
    using Cons.IH [OF st'(2)] Cons.prems(2,3) fd validate_fresh [OF Cons.prems(1) fr] by simp
qed simp

section \<open>Reachable validator states\<close>

inductive validator_run ::
  "(bytes \<Rightarrow> bytes) \<Rightarrow> (checked_frame \<Rightarrow> bool) \<Rightarrow> frame_validator \<Rightarrow> frame_header list \<Rightarrow> bool"
  for H allow where
  start: "validator_run H allow initial_validator []"
| reconnect: "validator_run H allow st p \<Longrightarrow> validator_run H allow (begin_connection st) p"
| replayed: "validator_run H allow st p \<Longrightarrow> decoded_block_size (header f) \<noteq> 0 \<Longrightarrow>
    validate H st f data (allow f) = (st', None) \<Longrightarrow> last_was_replay st' \<Longrightarrow> validator_run H allow st' p"
| accepted: "validator_run H allow st p \<Longrightarrow> decoded_block_size (header f) \<noteq> 0 \<Longrightarrow>
    validate H st f data (allow f) = (st', None) \<Longrightarrow> \<not> last_was_replay st' \<Longrightarrow>
    validator_run H allow st' (p @ [header f])"

inductive_cases validator_run_NilE: "validator_run H allow st []"

lemma archive_prefix_append:
  "archive_prefix p (xs @ ys) \<longleftrightarrow> archive_prefix p xs \<and> archive_prefix (p @ xs) ys"
  by (induction xs arbitrary: p) auto

lemma archive_prefix_nth:
  "archive_prefix p xs \<Longrightarrow> i < length xs \<Longrightarrow> fits (p @ take i xs) (xs ! i)"
proof (induction xs arbitrary: p i)
  case (Cons x xs)
  then show ?case using Cons.IH [of "p @ [x]" "i - 1"] by (cases i) auto
qed simp

lemma archive_prefix_number:
  assumes "archive_prefix [] p" and "i < length p"
  shows "global_frame_seq_num (p ! i) = word_of_nat i"
  using archive_prefix_nth [OF assms] assms(2) by (simp add: fits_def min_def)

lemma validator_run_tracks:
  "validator_run H allow st p \<Longrightarrow> tracks_any st p \<and> archive_prefix [] p"
proof (induction rule: validator_run.induct)
  case start
  then show ?case by (simp add: tracks_any_initial)
next
  case (replayed st p f data st')
  then show ?case using validate_step [of st p f H data "allow f" st'] by auto
next
  case (accepted st p f data st')
  then show ?case using validate_step [of st p f H data "allow f" st']
    by (auto simp: archive_prefix_append intro: tracks_imp_any)
qed simp

definition last_records :: "frame_header list \<Rightarrow> frame_header list" where
  "last_records p = drop (length p - retry_history_records) p"

lemma push_history_last:
  assumes "hash_ok f"
  shows "push_history (map identity_of (last_records p)) f = map identity_of (last_records (p @ [header f]))"
proof (cases "length p < retry_history_records")
  case True
  then show ?thesis using assms by (simp add: push_history_def last_records_def)
next
  case False
  then have l: "length (last_records p) = retry_history_records"
    by (simp add: last_records_def)
  have s: "Suc (length p) - retry_history_records = Suc (length p - retry_history_records)"
    using False by simp
  have "0 < retry_history_records" by (simp add: retry_history_records_def)
  then have "length p - retry_history_records < length p" using False by linarith
  then have "tl (last_records p @ [header f]) = last_records (p @ [header f])"
    using s by (simp add: last_records_def drop_Suc tl_drop)
  from this [symmetric] show ?thesis using assms l by (simp add: push_history_def map_tl)
qed

lemma validator_run_history:
  "validator_run H (\<lambda>_. False) st p \<Longrightarrow> replay_history st = map identity_of (last_records p)"
proof (induction rule: validator_run.induct)
  case start
  then show ?case by (simp add: initial_validator_def last_records_def)
next
  case (reconnect st p)
  then show ?case by (simp add: begin_connection_def)
next
  case (replayed st p f data st')
  then show ?case using validate_step [of st p f H data False st'] validator_run_tracks [of H "\<lambda>_. False" st p]
    by auto
next
  case (accepted st p f data st')
  then show ?case using validate_step [of st p f H data False st'] validator_run_tracks [of H "\<lambda>_. False" st p]
    by (auto simp: push_history_last)
qed

lemma find_last_record:
  assumes "archive_prefix [] p" and "length p < 2 ^ 64" and "g < word_of_nat (length p)"
  shows "find (\<lambda>e. ri_global_seq e = g) (map identity_of (last_records p)) =
    (if length p - retry_history_records \<le> unat g then Some (identity_of (p ! unat g)) else None)"
proof -
  let ?k = "length p - retry_history_records"
  have g: "unat g < length p" using assms(2,3) by (simp add: word_less_nat_alt unat_of_nat)
  have num: "ri_global_seq (map identity_of (last_records p) ! i) = word_of_nat (?k + i)"
    if "i < length p - ?k" for i
    using that archive_prefix_number [OF assms(1), of "?k + i"] by (simp add: last_records_def identity_of_def)
  have eq: "word_of_nat (?k + i) = g \<longleftrightarrow> ?k + i = unat g" if "i < length p - ?k" for i
  proof -
    have "?k + i < 2 ^ 64" using that assms(2) by linarith
    then have "unat (word_of_nat (?k + i) :: u64) = ?k + i"
      by (simp add: unat_of_nat del: of_nat_add)
    then show ?thesis by (simp only: word_unat_eq_iff)
  qed
  have len: "length (last_records p) = length p - ?k" by (simp add: last_records_def)
  show ?thesis
  proof (cases "?k \<le> unat g")
    case True
    let ?i = "unat g - ?k"
    have i: "?i < length p - ?k" using True g by linarith
    have "find (\<lambda>e. ri_global_seq e = g) (map identity_of (last_records p)) =
      Some (map identity_of (last_records p) ! ?i)"
      unfolding find_Some_iff
    proof (intro exI [of _ ?i] conjI allI impI)
      show "ri_global_seq (map identity_of (last_records p) ! ?i) = g"
        using num [OF i] eq [OF i] True by simp
      show "ri_global_seq (map identity_of (last_records p) ! j) \<noteq> g" if "j < ?i" for j
      proof -
        have "j < length p - ?k" "?k + j \<noteq> unat g" using i that by linarith+
        then show ?thesis using num [of j] eq [of j] by simp
      qed
    qed (use i len in simp_all)
    then show ?thesis using True i by (simp add: last_records_def)
  next
    case False
    have "ri_global_seq e \<noteq> g" if "e \<in> set (map identity_of (last_records p))" for e
    proof -
      from that obtain i where "i < length p - ?k" "e = map identity_of (last_records p) ! i"
        using len by (metis in_set_conv_nth length_map)
      then show ?thesis using num [of i] eq [of i] False by simp
    qed
    then show ?thesis using False by (auto simp: find_None_iff)
  qed
qed

section \<open>Properties\<close>

text \<open>C5. Whatever arrives and however often the connection is renewed, the
  headers a receiver takes as new frames form a prefix of an archive: numbered from 0,
  one block size, one archive identity once a uuid is present, slices in order, each
  channel of a slice numbered from 0 and closed by its end frame before the next slice
  or the archive end, and nothing after the archive end.\<close>
theorem accepted_frames_form_archive:
  assumes "list_all sized evs"
  shows "archive_prefix [] (fst (receive H allow initial_validator evs))"
  by (rule receive_prefix [OF tracks_any_initial assms])

text \<open>C17. Conversely the validator rejects no intact archive: frames whose headers
  form an archive prefix are all accepted, in order, as new frames.\<close>
theorem archive_prefix_accepted:
  assumes "archive_prefix [] (map (header \<circ> fst) fs)"
    and "\<forall>(f, d) \<in> set fs. size_ok f \<and> hash_ok f \<and> decoded_block_size (header f) \<noteq> 0"
  shows "receive H allow initial_validator (map (\<lambda>(f, d). Arrived f d) fs) = (map (header \<circ> fst) fs, True)"
  by (rule receive_all [OF tracks_initial assms(2,1)])

text \<open>The replay history of a strict receiver is always the identities of the
  last 8192 accepted frames, in order.\<close>
lemma replay_history_window:
  assumes "validator_run H (\<lambda>_. False) st p"
  shows "replay_history st = map identity_of (drop (length p - 8192) p) \<and> length (replay_history st) \<le> 8192"
  using validator_run_history [OF assms] by (simp add: last_records_def retry_history_records_def)

text \<open>C18. A strict receiver that has accepted the frames p takes a repeated frame
  number exactly when the record is intact, its original is one of the last 8192, and its
  image rehashed under the original's volume ordinal has the original's hash; a replay run
  in progress must continue with the next number.\<close>
theorem replay_accepted_iff:
  assumes "validator_run H (\<lambda>_. False) st p" and "length p < 2 ^ 64"
    and "global_frame_seq_num (header f) < word_of_nat (length p)"
  shows "snd (validate H st f data b) = None \<longleftrightarrow>
    hash_ok f \<and> length p - 8192 \<le> unat (global_frame_seq_num (header f)) \<and>
    frame_hash_with_volume_seq H (take (unat (decoded_block_size (header f))) data)
      (volume_seq_num (p ! unat (global_frame_seq_num (header f)))) =
      Inr (frame_hash (p ! unat (global_frame_seq_num (header f)))) \<and>
    (replay_next st = None \<or> replay_next st = Some (global_frame_seq_num (header f)))"
proof -
  have t: "tracks_any st p" and a: "archive_prefix [] p" using validator_run_tracks [OF assms(1)] by auto
  have e: "expected_global_frame_seq st = word_of_nat (length p)"
    using t by (simp add: tracks_any_def tracks_def)
  show ?thesis
    using find_last_record [OF a assms(2,3)] validator_run_history [OF assms(1)] assms(3) e
    by (auto simp: validate_def check_replay_def Let_def identity_of_def retry_history_records_def
        split: sum.splits)
qed

section \<open>Concrete instances\<close>

definition sample_stream :: "frame_header list" where
  "sample_stream = [sample_header\<lparr>global_frame_seq_num := 0\<rparr>,
     sample_header\<lparr>global_frame_seq_num := 1, channel_type := ARCHIVE_END\<rparr>]"

definition whole :: "frame_header \<Rightarrow> checked_frame" where
  "whole h = \<lparr>header = h, size_ok = True, hash_ok = True\<rparr>"

lemma sample_stream_sized: "h \<in> set sample_stream \<Longrightarrow> decoded_block_size h = 4096"
  by (auto simp: sample_stream_def decoded_block_size_def sample_header_def)

lemma sample_stream_prefix: "archive_prefix [] sample_stream"
  by (simp add: sample_stream_def sample_header_def default_header_def fits_def archive_ended_def same_archive_def
      slice_fits_def channel_fits_def slice_complete_def channel_frames_def channel_closed_def channel_open_def
      decoded_block_size_def end_flag_def has_frame_flag_end_def frame_flag_end_def current_run_def)

theorem accepted_frames_form_archive_witness:
  "archive_prefix [] (fst (receive zero_hash (\<lambda>_. False) initial_validator
     [Reconnect, Arrived (whole (sample_stream ! 0)) [], Reconnect, Arrived (whole (sample_stream ! 1)) []]))"
  by (rule accepted_frames_form_archive) (simp add: sized_def whole_def sample_stream_sized sample_stream_def decoded_block_size_def sample_header_def)

theorem archive_prefix_accepted_witness:
  "receive zero_hash (\<lambda>_. False) initial_validator (map (\<lambda>(f, d). Arrived f d) (map (\<lambda>h. (whole h, [])) sample_stream)) =
   (sample_stream, True)"
  using archive_prefix_accepted [of "map (\<lambda>h. (whole h, [])) sample_stream" zero_hash "\<lambda>_. False"]
    sample_stream_prefix sample_stream_sized
  by (simp add: whole_def comp_def)

lemma sample_validator_run:
  "\<exists>st. validator_run zero_hash (\<lambda>_. False) st [sample_stream ! 0] \<and> replay_next st = None"
proof -
  let ?h = "sample_stream ! 0"
  have h: "archive_prefix [] [?h]" "decoded_block_size ?h \<noteq> 0"
    using sample_stream_prefix sample_stream_sized [of ?h] by (auto simp: sample_stream_def)
  then have "fits [] ?h" "fresh_frame False (whole ?h) []"
    by (simp_all add: fresh_frame_def whole_def)
  from validate_new_ok [OF _ this(2), of "initial_validator\<lparr>last_was_replay := False\<rparr>"] this(1) obtain st' where
    "validate_new (initial_validator\<lparr>last_was_replay := False\<rparr>) (whole ?h) False = (st', None)"
    "tracks st' [?h]" "\<not> last_was_replay st'"
    using tracks_initial by (auto simp: whole_def)
  moreover from this have "validate zero_hash initial_validator (whole ?h) [] False = (st', None)"
    using validate_fresh [OF tracks_initial \<open>fresh_frame False (whole ?h) []\<close>] by simp
  ultimately show ?thesis
    using validator_run.accepted [OF validator_run.start, of "whole ?h" zero_hash "[]" "\<lambda>_. False" st'] h(2)
    by (auto simp: whole_def tracks_def)
qed

lemma replay_history_window_witness:
  "\<exists>st. validator_run zero_hash (\<lambda>_. False) st [sample_stream ! 0] \<and>
    replay_history st = [identity_of (sample_stream ! 0)]"
proof -
  obtain st where st: "validator_run zero_hash (\<lambda>_. False) st [sample_stream ! 0]"
    using sample_validator_run by blast
  from replay_history_window [OF st] st show ?thesis by auto
qed

theorem replay_accepted_iff_witness:
  "\<exists>st. snd (validate zero_hash st (whole (sample_stream ! 0)) (replicate 4096 0) False) = None \<and>
    snd (validate zero_hash st (whole (sample_stream ! 0)) (replicate 100 0) False) \<noteq> None"
proof -
  obtain st where st: "validator_run zero_hash (\<lambda>_. False) st [sample_stream ! 0]" "replay_next st = None"
    using sample_validator_run by blast
  have g: "global_frame_seq_num (header (whole (sample_stream ! 0))) = 0"
    "frame_hash (sample_stream ! 0) = replicate hash_size 0" "decoded_block_size (sample_stream ! 0) = 4096"
    by (simp_all add: whole_def sample_stream_def sample_header_def default_header_def decoded_block_size_def)
  show ?thesis
    using replay_accepted_iff [OF st(1), of "whole (sample_stream ! 0)"] st(2) g
    by (intro exI [of _ st]) (simp add: frame_hash_with_volume_seq_def fixed_header_size_def zero_hash_def whole_def)
qed

end
