(* ===== verification/FrameBuilderSpec.thy ===== *)
theory FrameBuilderSpec
  imports FrameBuilder ValidateSpec
begin

text \<open>
  Properties of finalized records and of the frame builder.
\<close>

section \<open>Flag bits\<close>

lemma flag_bits:
  "has_frame_flag_end f \<longleftrightarrow> bit f 0" "has_frame_flag_signed f \<longleftrightarrow> bit f 1"
  "has_frame_flag_sideband f \<longleftrightarrow> bit f 2" "has_frame_flag_clean_end f \<longleftrightarrow> bit f 63"
  by (simp_all add: has_frame_flag_end_def has_frame_flag_signed_def has_frame_flag_sideband_def
      has_frame_flag_clean_end_def frame_flag_end_def frame_flag_signed_def frame_flag_sideband_def
      frame_flag_clean_end_def bit_iff_and_push_bit_not_eq_0)

lemma signed_bit: "bit frame_flag_signed n \<longleftrightarrow> n = 1"
  by (auto simp: frame_flag_signed_def bit_simps)

lemma set_signed_flags [simp]:
  "has_frame_flag_end (f OR frame_flag_signed) = has_frame_flag_end f"
  "has_frame_flag_sideband (f OR frame_flag_signed) = has_frame_flag_sideband f"
  "has_frame_flag_clean_end (f OR frame_flag_signed) = has_frame_flag_clean_end f"
  "has_frame_flag_signed (f OR frame_flag_signed)"
  by (simp_all add: flag_bits bit_simps signed_bit)

lemma clear_signed_flags [simp]:
  "has_frame_flag_end (f AND NOT frame_flag_signed) = has_frame_flag_end f"
  "has_frame_flag_sideband (f AND NOT frame_flag_signed) = has_frame_flag_sideband f"
  "has_frame_flag_clean_end (f AND NOT frame_flag_signed) = has_frame_flag_clean_end f"
  "\<not> has_frame_flag_signed (f AND NOT frame_flag_signed)"
  by (simp_all add: flag_bits bit_simps signed_bit)

lemma signed_allowed [simp]:
  "(f OR frame_flag_signed) AND NOT allowed_flags = f AND NOT allowed_flags"
  "(f AND NOT frame_flag_signed) AND NOT allowed_flags = f AND NOT allowed_flags"
  by (rule bit_eqI; auto simp: bit_simps signed_bit allowed_flags_def)+

definition signed_flags :: "u64 \<Rightarrow> bool \<Rightarrow> u64" where
  "signed_flags f wants = (if wants then f OR frame_flag_signed else f AND NOT frame_flag_signed)"

lemma signed_flags_simps [simp]:
  "has_frame_flag_end (signed_flags f s) = has_frame_flag_end f"
  "has_frame_flag_sideband (signed_flags f s) = has_frame_flag_sideband f"
  "has_frame_flag_clean_end (signed_flags f s) = has_frame_flag_clean_end f"
  "has_frame_flag_signed (signed_flags f s) = s"
  "signed_flags f s AND NOT allowed_flags = f AND NOT allowed_flags"
  by (simp_all add: signed_flags_def)

lemma signed_flags_idem [simp]: "signed_flags (signed_flags f s) t = signed_flags f t"
  by (rule bit_eqI) (auto simp: signed_flags_def bit_simps signed_bit)

lemma validate_header_signed [simp]:
  "validate_header (h\<lparr>flags := signed_flags (flags h) s\<rparr>) = validate_header h"
  by (simp add: validate_header_def decoded_block_size_def payload_limit_def)

lemma validate_header_seal [simp]:
  "validate_header (h\<lparr>signature := s\<rparr>) = validate_header h"
  "validate_header (h\<lparr>frame_hash := d\<rparr>) = validate_header h"
  "validate_header (h\<lparr>volume_seq_num := v\<rparr>) = validate_header h"
  by (simp_all add: validate_header_def decoded_block_size_def payload_limit_def)

section \<open>Finalized records\<close>

text \<open>
  \<open>hash_width H\<close> is the only fact about BLAKE3 that is used: a digest has 32
  bytes.  \<open>signer_ok\<close> says that a configured signer is a working Ed25519 key pair.
\<close>

definition hash_width :: "(bytes \<Rightarrow> bytes) \<Rightarrow> bool" where
  "hash_width H \<longleftrightarrow> (\<forall>x. length (H x) = hash_size)"

definition signer_ok :: "ed_sign \<Rightarrow> ed_open \<Rightarrow> secret_key option \<Rightarrow> public_key \<Rightarrow> bool" where
  "signer_ok ed_sign ed_open signer pk \<longleftrightarrow> (case signer of None \<Rightarrow> True | Some k \<Rightarrow> ed_pair ed_sign ed_open k pk)"

definition sealed_digest :: "(bytes \<Rightarrow> bytes) \<Rightarrow> frame_header \<Rightarrow> bytes \<Rightarrow> bytes" where
  "sealed_digest H h payload = H (take off_signature (header_layout h) @ replicate 104 0 @ payload)"

lemma arrays_ok_seal [simp]:
  "arrays_ok (h\<lparr>flags := f\<rparr>) = arrays_ok h" "arrays_ok (h\<lparr>volume_seq_num := v\<rparr>) = arrays_ok h"
  "arrays_ok h \<Longrightarrow> arrays_ok (h\<lparr>signature := replicate signature_size 0\<rparr>)"
  by (simp_all add: arrays_ok_def)

lemma overwrite_header:
  "length hdr = fixed_header_size \<Longrightarrow> copy_header_to_record hdr rec = hdr @ drop fixed_header_size rec"
  by (simp add: copy_header_to_record_def overwrite_def)

lemma sealed_digest_seal [simp]:
  "arrays_ok h \<Longrightarrow> sealed_digest H (h\<lparr>signature := s\<rparr>) p = sealed_digest H h p"
  "arrays_ok h \<Longrightarrow> sealed_digest H (h\<lparr>frame_hash := d\<rparr>) p = sealed_digest H h p"
  by (simp_all add: sealed_digest_def)

lemma sealed_digest_both [simp]:
  "arrays_ok h \<Longrightarrow> sealed_digest H (h\<lparr>signature := s, frame_hash := d\<rparr>) p = sealed_digest H h p"
  by (simp add: sealed_digest_def header_layout_def format_consts arrays_ok_def)

definition sealed :: "(bytes \<Rightarrow> bytes) \<Rightarrow> bool \<Rightarrow> frame_header \<Rightarrow> bytes \<Rightarrow> bytes \<Rightarrow> frame_header" where
  "sealed H wants h payload sig =
    (let h1 = h\<lparr>flags := signed_flags (flags h) wants\<rparr>
     in h1\<lparr>signature := sig, frame_hash := sealed_digest H h1 payload\<rparr>)"

definition seal_signature :: "ed_sign \<Rightarrow> secret_key option \<Rightarrow> bytes \<Rightarrow> bytes option" where
  "seal_signature ed_sign signer d = (case signer of None \<Rightarrow> Some (replicate signature_size 0)
     | Some k \<Rightarrow> (case sign_frame_hash ed_sign k d of Inl _ \<Rightarrow> None | Inr s \<Rightarrow> Some s))"

lemma seal_signature_length:
  assumes "seal_signature ed_sign signer d = Some s" and "signer_ok ed_sign ed_open signer pk"
  shows "length s = signature_size"
  using assms sign_frame_hash_verifies
  by (auto simp: seal_signature_def signer_ok_def split: option.splits sum.splits)

text \<open>What \<open>finalize_record\<close> computes, in closed form.\<close>

lemma finalize_record_Inr:
  assumes "arrays_ok h" and "fixed_header_size \<le> length rec" and "hash_width H"
    and "signer_ok ed_sign ed_open signer pk"
  shows "finalize_record H ed_sign h rec signer = Inr (h', rec') \<longleftrightarrow>
    validate_header h = Inr () \<and>
    (\<exists>sig. h' = sealed H (signer \<noteq> None) h (drop fixed_header_size rec) sig \<and>
       seal_signature ed_sign signer (frame_hash h') = Some sig) \<and>
    rec' = header_layout h' @ drop fixed_header_size rec"
proof -
  let ?p = "drop fixed_header_size rec"
  let ?h0 = "h\<lparr>flags := signed_flags (flags h) (signer \<noteq> None)\<rparr>"
  let ?h1 = "?h0\<lparr>signature := replicate signature_size 0\<rparr>"
  let ?d = "sealed_digest H ?h0 ?p"
  have a1: "arrays_ok ?h1" using assms(1) by simp
  have dl: "length ?d = hash_size" using assms(3) by (simp add: hash_width_def sealed_digest_def)
  have a2: "arrays_ok (?h1\<lparr>frame_hash := ?d\<rparr>)" using a1 dl by (simp add: arrays_ok_def)
  have v0: "validate_serialized_signature (?h1\<lparr>frame_hash := d\<rparr>) = Inr ()"
    "validate_serialized_signature ?h1 = Inr ()" for d
    by (simp_all add: validate_serialized_signature_def has_nonzero_signature_def list_ex_iff)
  have cp: "copy_header_to_record (header_layout ?h1) rec = header_layout ?h1 @ ?p"
    using length_header_layout [OF a1] by (rule overwrite_header)
  have d: "compute_frame_hash H (header_layout ?h1 @ ?p) = Inr ?d"
    using a1 assms(1) by (simp add: compute_frame_hash_layout sealed_digest_def)
  let ?h2 = "\<lambda>sig. sealed H (signer \<noteq> None) h ?p sig"
  have e_some: "?h1\<lparr>frame_hash := ?d, signature := sig\<rparr> = ?h2 sig" for sig
    by (simp add: sealed_def Let_def)
  have e_none: "?h1\<lparr>frame_hash := ?d\<rparr> = ?h2 (replicate signature_size 0)"
    by (simp add: sealed_def Let_def)
  show ?thesis
  proof (cases "validate_header h = Inr ()")
    case False
    then show ?thesis
      using a1 by (auto simp: finalize_record_def Let_def bind_res_Inr serialize_Inr signed_flags_def [symmetric])
  next
    case True
    have s1: "serialize_frame_header ?h1 = Inr (header_layout ?h1)"
      using a1 v0 True by (simp add: serialize_Inr)
    have s2: "serialize_frame_header (?h2 sig) = Inr (header_layout (?h2 sig)) \<and>
        copy_header_to_record (header_layout (?h2 sig)) (header_layout ?h1 @ ?p) = header_layout (?h2 sig) @ ?p"
      if "seal_signature ed_sign signer ?d = Some sig" for sig
    proof -
      have "arrays_ok (?h2 sig)"
        using a2 seal_signature_length [OF that assms(4)] by (simp add: sealed_def Let_def arrays_ok_def)
      moreover have "validate_serialized_signature (?h2 sig) = Inr ()"
        using that by (cases signer) (auto simp: validate_serialized_signature_def sealed_def seal_signature_def
            has_nonzero_signature_def list_ex_iff Let_def)
      moreover have "validate_header (?h2 sig) = Inr ()" using True by (simp add: sealed_def Let_def)
      ultimately show ?thesis
        using length_header_layout [OF a1] length_header_layout [of "?h2 sig"]
        by (simp add: serialize_Inr overwrite_header)
    qed
    have fin: "finalize_record H ed_sign h rec signer =
      bind_res (case signer of None \<Rightarrow> Inr (?h1\<lparr>frame_hash := ?d\<rparr>)
                | Some k \<Rightarrow> bind_res (lift_sign (sign_frame_hash ed_sign k ?d)) (\<lambda>s.
                     Inr (?h1\<lparr>frame_hash := ?d, signature := s\<rparr>))) (\<lambda>h.
        bind_res (lift_format (serialize_frame_header h)) (\<lambda>hb.
                Inr (h, copy_header_to_record hb (header_layout ?h1 @ ?p))))"
      unfolding finalize_record_def signed_flags_def [symmetric] Let_def
      by (simp only: s1 cp d lift_format_simps bind_res_simps)
    have "finalize_record H ed_sign h rec signer = Inr (h', rec') \<longleftrightarrow> (\<exists>sig. seal_signature ed_sign signer ?d = Some sig \<and>
        bind_res (lift_format (serialize_frame_header (?h2 sig))) (\<lambda>hb.
                Inr (?h2 sig, copy_header_to_record hb (header_layout ?h1 @ ?p))) = Inr (h', rec'))"
      unfolding fin e_some unfolding e_none
      by (cases signer) (auto simp: seal_signature_def bind_res_Inr split: sum.splits)
    also have "\<dots> \<longleftrightarrow> (\<exists>sig. seal_signature ed_sign signer ?d = Some sig \<and> h' = ?h2 sig \<and>
        rec' = header_layout h' @ ?p)"
    proof (intro iff_exI conj_cong refl)
      fix sig assume "seal_signature ed_sign signer ?d = Some sig"
      from s2 [OF this] have "bind_res (lift_format (serialize_frame_header (?h2 sig))) (\<lambda>hb.
          Inr (?h2 sig, copy_header_to_record hb (header_layout ?h1 @ ?p))) =
        Inr (?h2 sig, header_layout (?h2 sig) @ ?p)"
        by (simp only: lift_format_simps bind_res_simps)
      then show "(bind_res (lift_format (serialize_frame_header (?h2 sig))) (\<lambda>hb.
          Inr (?h2 sig, copy_header_to_record hb (header_layout ?h1 @ ?p))) = Inr (h', rec')) =
        (h' = ?h2 sig \<and> rec' = header_layout h' @ ?p)"
        by (simp only: sum.inject prod.inject) blast
    qed
    finally have r: "finalize_record H ed_sign h rec signer = Inr (h', rec') \<longleftrightarrow>
        (\<exists>sig. seal_signature ed_sign signer ?d = Some sig \<and> h' = ?h2 sig \<and> rec' = header_layout h' @ ?p)" .
    have q: "frame_hash (?h2 sig) = ?d" for sig by (simp add: sealed_def Let_def)
    show ?thesis unfolding r using True by (auto simp only: q)
  qed
qed

lemma canon_header_fields [simp]:
  "frame_hash (canon_header h) = frame_hash h" "signature (canon_header h) = signature h"
  "volume_seq_num (canon_header h) = volume_seq_num h" "flags (canon_header h) = flags h"
  "global_frame_seq_num (canon_header h) = global_frame_seq_num h"
  "slice_seq_num (canon_header h) = slice_seq_num h"
  "channel_frame_seq_num (canon_header h) = channel_frame_seq_num h"
  "channel_type (canon_header h) = channel_type h"
  "frame_payload_size (canon_header h) = frame_payload_size h"
  "volume_block_size_kib (canon_header h) = volume_block_size_kib h"
  "decoded_block_size (canon_header h) = decoded_block_size h"
  by (simp_all add: canon_header_def decoded_block_size_def)

text \<open>
  \<open>sealed_image H h payload\<close>: the record consisting of h and the payload area is
  exactly what \<open>finalize_record\<close> writes.
\<close>

definition sealed_image :: "(bytes \<Rightarrow> bytes) \<Rightarrow> frame_header \<Rightarrow> bytes \<Rightarrow> bool" where
  "sealed_image H h payload \<longleftrightarrow> arrays_ok h \<and> validate_header h = Inr () \<and>
     validate_serialized_signature h = Inr () \<and> frame_hash h = sealed_digest H h payload"

lemma check_sealed_image:
  assumes "sealed_image H h payload"
  shows "check_frame H (header_layout h @ payload) =
    (let s = (fixed_header_size + length payload = unat (decoded_block_size h))
     in Inr \<lparr>header = canon_header h, size_ok = s, hash_ok = s\<rparr>)"
  using assms length_header_layout [of h]
  by (auto simp: sealed_image_def check_frame_def parse_layout_append compute_frame_hash_layout
      sealed_digest_def Let_def)

lemma parse_sealed_image:
  "sealed_image H h payload \<Longrightarrow> parse_fixed_header (header_layout h @ payload) = Inr (canon_header h)"
  by (simp add: sealed_image_def parse_layout_append)

lemma finalize_sealed:
  assumes "arrays_ok h" and "fixed_header_size \<le> length rec" and "hash_width H"
    and "signer_ok ed_sign ed_open signer pk"
    and "finalize_record H ed_sign h rec signer = Inr (h', rec')"
  shows "sealed_image H h' (drop fixed_header_size rec)"
    and "rec' = header_layout h' @ drop fixed_header_size rec"
    and "h' = h\<lparr>flags := signed_flags (flags h) (signer \<noteq> None),
                frame_hash := frame_hash h', signature := signature h'\<rparr>"
    and "seal_signature ed_sign signer (frame_hash h') = Some (signature h')"
proof -
  let ?p = "drop fixed_header_size rec"
  from assms(5) [unfolded finalize_record_Inr [OF assms(1-4)]] obtain sig where
    v: "validate_header h = Inr ()" and h': "h' = sealed H (signer \<noteq> None) h ?p sig"
    and s: "seal_signature ed_sign signer (frame_hash h') = Some sig"
    and r: "rec' = header_layout h' @ ?p" by blast
  have sh: "signature h' = sig" by (simp add: h' sealed_def Let_def)
  show "rec' = header_layout h' @ ?p" by (rule r)
  show "seal_signature ed_sign signer (frame_hash h') = Some (signature h')" using s sh by simp
  show "h' = h\<lparr>flags := signed_flags (flags h) (signer \<noteq> None),
                frame_hash := frame_hash h', signature := signature h'\<rparr>"
    unfolding h' by (simp add: sealed_def Let_def)
  have "arrays_ok h'"
    using assms(1,3) seal_signature_length [OF s assms(4)]
    by (simp add: h' sealed_def Let_def arrays_ok_def hash_width_def sealed_digest_def)
  moreover have "validate_header h' = Inr ()" using v by (simp add: h' sealed_def Let_def)
  moreover have "validate_serialized_signature h' = Inr ()"
    using s sh by (cases signer) (auto simp: h' sealed_def Let_def validate_serialized_signature_def
        seal_signature_def has_nonzero_signature_def list_ex_iff)
  moreover have "frame_hash h' = sealed_digest H h' ?p"
    using assms(1) calculation(1) by (simp add: h' sealed_def Let_def)
  ultimately show "sealed_image H h' ?p" by (simp add: sealed_image_def)
qed

lemma canon_string_parsed:
  assumes "get_fixed_string bs off n = Inr v" and "0 < n" and "off + n \<le> length bs"
  shows "canon_string n v = v"
proof -
  have v: "v = takeWhile (\<lambda>c. c \<noteq> 0) (field off n bs)" and z: "bs ! (off + n - 1) = 0"
    using assms(1) by (auto simp: get_fixed_string_def split: if_splits)
  have nz: "0 \<notin> set v" unfolding v by (auto dest: set_takeWhileD)
  have "length v < n"
  proof (rule ccontr)
    assume "\<not> length v < n"
    then have "length v = length (field off n bs)"
      using length_takeWhile_le [of "\<lambda>c. c \<noteq> 0" "field off n bs"] assms(3) by (simp add: v length_field)
    then have "v = field off n bs" unfolding v by (metis takeWhile_eq_take take_all order_refl)
    moreover have "field off n bs ! (n - 1) = 0" using nth_field [of "n - 1" n off bs] assms(2,3) z by simp
    ultimately have "v ! (n - 1) = 0" "n - 1 < length v" using assms(2,3) by (simp_all add: length_field)
    then show False using nz nth_mem by metis
  qed
  with nz show ?thesis by (rule canon_string_id [rotated])
qed

lemma parse_canon:
  assumes "parse_fixed_header data = Inr h"
  shows "canon_header h = h"
proof -
  have l: "512 \<le> length data" using parse_InrD(1) [OF assms] by (simp add: fixed_header_size_def)
  have "canon_string nt_uuid_size (archive_uuid h) = archive_uuid h"
    "canon_string archive_label_size (archive_label h) = archive_label h"
    using canon_string_parsed [OF parse_InrD(6) [OF assms]] canon_string_parsed [OF parse_InrD(7) [OF assms]] l
    by (simp_all add: format_consts)
  then show ?thesis by (simp add: canon_header_def)
qed

text \<open>What re-numbering a record gives: either the record as it is, or a sealed record.\<close>

lemma patch_volume_cases:
  assumes "patch_volume_seq_num H ed_sign rec v signer = Inr rec'"
    and "parse_fixed_header rec = Inr h" and "hash_width H" and "signer_ok ed_sign ed_open signer pk"
  obtains (kept) "rec' = rec" "volume_seq_num h = v" "has_frame_flag_signed (flags h) = (signer \<noteq> None)"
      "list_ex (\<lambda>b. b \<noteq> 0) (frame_hash h)"
  | (sealed) h' where "rec' = header_layout h' @ drop fixed_header_size rec"
      "sealed_image H h' (drop fixed_header_size rec)"
      "h' = h\<lparr>volume_seq_num := v, flags := signed_flags (flags h) (signer \<noteq> None),
              frame_hash := frame_hash h', signature := signature h'\<rparr>"
      "seal_signature ed_sign signer (frame_hash h') = Some (signature h')"
proof (cases "volume_seq_num h = v \<and> has_frame_flag_signed (flags h) = (signer \<noteq> None) \<and>
    list_ex (\<lambda>b. b \<noteq> 0) (frame_hash h)")
  case True
  then show thesis using assms(1,2) kept by (auto simp: patch_volume_seq_num_def Let_def)
next
  case False
  let ?h = "h\<lparr>volume_seq_num := v\<rparr>"
  obtain h' where "finalize_record H ed_sign ?h rec signer = Inr (h', rec')"
    using assms(1,2) False by (auto simp: patch_volume_seq_num_def Let_def bind_res_Inr split: if_splits)
  from finalize_sealed [OF _ _ assms(3,4) this] show thesis
    using sealed [of h'] parse_arrays_ok [OF assms(2)] parse_InrD(1) [OF assms(2)] by simp
qed

lemma canon_header_id:
  "canon_header h = h \<longleftrightarrow> canon_string nt_uuid_size (archive_uuid h) = archive_uuid h \<and>
     canon_string archive_label_size (archive_label h) = archive_label h"
  by (cases h) (auto simp: canon_header_def)

lemma sealed_canon:
  assumes "h' = h\<lparr>volume_seq_num := v, flags := f, frame_hash := d, signature := s\<rparr>" and "canon_header h = h"
  shows "canon_header h' = h'"
  using assms(2) unfolding assms(1) by (simp add: canon_header_id)

lemma signed_flags_same [simp]: "signed_flags f (has_frame_flag_signed f) = f"
  by (rule bit_eqI) (auto simp: signed_flags_def flag_bits bit_simps signed_bit)

lemma sealed_prefix_volume:
  assumes "arrays_ok h" and "h' = h\<lparr>volume_seq_num := v, flags := flags h, frame_hash := d, signature := s\<rparr>"
  shows "take off_signature (header_layout (h'\<lparr>volume_seq_num := volume_seq_num h\<rparr>)) =
    take off_signature (header_layout h)"
  using assms by (simp add: header_layout_def format_consts arrays_ok_def)

lemma reissue_sealed:
  assumes "sealed_image H h1 payload" and "canon_header h1 = h1"
    and "has_frame_flag_signed (flags h1) = (signer \<noteq> None)" and "hash_width H"
    and "signer_ok ed_sign ed_open signer pk"
    and "patch_volume_seq_num H ed_sign (header_layout h1 @ payload) v2 signer = Inr rec2"
  shows "\<exists>h2. rec2 = header_layout h2 @ payload \<and> sealed_image H h2 payload \<and> canon_header h2 = h2 \<and>
    h2 = h1\<lparr>volume_seq_num := v2, frame_hash := frame_hash h2, signature := signature h2\<rparr> \<and>
    frame_hash_with_volume_seq H rec2 (volume_seq_num h1) = Inr (frame_hash h1)"
proof -
  have a: "arrays_ok h1" using assms(1) by (simp add: sealed_image_def)
  have p: "parse_fixed_header (header_layout h1 @ payload) = Inr h1"
    using parse_sealed_image [OF assms(1)] assms(2) by simp
  have d: "drop fixed_header_size (header_layout h1 @ payload) = payload"
    using length_header_layout [OF a] by simp
  from assms(6) p assms(4,5) show ?thesis
  proof (cases rule: patch_volume_cases)
    case kept
    have "header_layout (h1\<lparr>volume_seq_num := v2\<rparr>) = header_layout h1"
      using kept(2) by (simp add: header_layout_def)
    then show ?thesis using kept assms(1,2) a
      by (intro exI [of _ h1]) (simp add: frame_hash_layout sealed_image_def sealed_digest_def)
  next
    case (sealed h2)
    have "signed_flags (flags h1) (signer \<noteq> None) = flags h1"
      using signed_flags_same [of "flags h1"] by (simp only: assms(3))
    then have e: "h2 = h1\<lparr>volume_seq_num := v2, flags := flags h1, frame_hash := frame_hash h2, signature := signature h2\<rparr>"
      using sealed(3) by (simp only:)
    have a2: "arrays_ok h2" using sealed(2) by (simp add: sealed_image_def)
    have "frame_hash_with_volume_seq H rec2 (volume_seq_num h1) = Inr (frame_hash h1)"
      using sealed_prefix_volume [OF a e] a2 assms(1) sealed(1) d
      by (simp add: frame_hash_layout sealed_image_def sealed_digest_def)
    moreover have "h1\<lparr>volume_seq_num := v2, flags := flags h1, frame_hash := frame_hash h2, signature := signature h2\<rparr> =
      h1\<lparr>volume_seq_num := v2, frame_hash := frame_hash h2, signature := signature h2\<rparr>"
      by simp
    ultimately show ?thesis
      using sealed(1,2) e sealed_canon [OF e assms(2)] unfolding d by (intro exI [of _ h2] conjI; argo)
  qed
qed

section \<open>The builder\<close>

definition capacity :: "frame_builder \<Rightarrow> nat" where
  "capacity b = unat (fb_block_size b) - fixed_header_size"

definition builder_ok :: "frame_builder \<Rightarrow> bool" where
  "builder_ok b \<longleftrightarrow> valid_block_size (fb_block_size b) \<and> fb_channel b \<noteq> ARCHIVE_END"

definition advance :: "frame_builder \<Rightarrow> frame_builder" where
  "advance b = b\<lparr>fb_global_seq := fb_global_seq b + 1, fb_channel_seq := fb_channel_seq b + 1\<rparr>"

definition built :: "frame_builder \<Rightarrow> bytes \<Rightarrow> bool \<Rightarrow> built_frame" where
  "built b payload is_final = \<lparr>bf_record = header_layout (built_header b payload is_final) @ payload @
       replicate (capacity b - length payload) 0, bf_global_seq = fb_global_seq b\<rparr>"

lemma valid_block_kib:
  assumes "valid_block_size bs"
  shows "(ucast (ucast (bs div 1024) :: u16) * 1024 :: u32) = bs"
proof -
  have v: "4096 \<le> unat bs" "unat bs \<le> 8388608" "unat bs mod 1024 = 0"
    using valid_block_size_unat [OF assms] by simp_all
  have "unat bs div 1024 \<le> 8192" using v(2) by linarith
  then have "unat (ucast (ucast (bs div 1024) :: u16) :: u32) = unat bs div 1024"
    by (simp add: unsigned_ucast_eq unsigned_take_bit_eq unat_div take_bit_nat_eq_self)
  moreover have "unat bs div 1024 * 1024 = unat bs" using v(3) by (simp add: mult.commute mod_0_imp_dvd)
  ultimately show ?thesis using v(2)
    by (simp add: word_unat_eq_iff unat_word_ariths)
qed

lemma payload_capacity_nat:
  assumes "valid_block_size (fb_block_size b)"
  shows "unat (payload_capacity b) = capacity b"
proof -
  have "4096 \<le> unat (fb_block_size b)" using valid_block_size_unat [OF assms] by simp
  then show ?thesis unfolding payload_capacity_def capacity_def
    by (subst unat_sub) (simp_all add: word_le_nat_alt fixed_header_size_def)
qed

lemma built_header_simps [simp]:
  "channel_type (built_header b p e) = fb_channel b" "slice_seq_num (built_header b p e) = fb_slice b"
  "global_frame_seq_num (built_header b p e) = fb_global_seq b"
  "channel_frame_seq_num (built_header b p e) = fb_channel_seq b"
  "flags (built_header b p e) = (if e then frame_flag_end else 0)"
  "sideband_data (built_header b p e) = replicate sideband_size 0"
  "signature (built_header b p e) = replicate signature_size 0"
  "frame_hash (built_header b p e) = replicate hash_size 0" "volume_seq_num (built_header b p e) = 0"
  "archive_uuid (built_header b p e) = fb_archive_uuid b" "archive_label (built_header b p e) = fb_archive_name b"
  by (simp_all add: built_header_def default_header_def)

lemma decoded_built [simp]:
  "valid_block_size (fb_block_size b) \<Longrightarrow> decoded_block_size (built_header b p e) = fb_block_size b"
  by (simp add: decoded_block_size_def built_header_def valid_block_kib)

lemma payload_size_built:
  assumes "valid_block_size (fb_block_size b)" and "length p \<le> capacity b"
  shows "unat (frame_payload_size (built_header b p e)) = length p"
proof -
  have "length p \<le> 8388608"
    using assms(2) valid_block_size_unat [OF assms(1)] unfolding capacity_def by linarith
  then have "length p < 2 ^ 32" by simp
  then show ?thesis by (simp add: built_header_def unat_of_nat)
qed

lemma flag_end_bits [simp]:
  "has_frame_flag_end frame_flag_end" "\<not> has_frame_flag_clean_end frame_flag_end"
  "\<not> has_frame_flag_sideband frame_flag_end" "\<not> has_frame_flag_signed frame_flag_end"
  "frame_flag_end AND NOT allowed_flags = 0" "\<not> has_frame_flag_end 0" "\<not> has_frame_flag_clean_end 0"
  "\<not> has_frame_flag_sideband 0" "\<not> has_frame_flag_signed 0"
  by (simp_all add: flag_bits frame_flag_end_def allowed_flags_def frame_flag_signed_def
      frame_flag_sideband_def frame_flag_clean_end_def)

lemma validate_built:
  assumes "builder_ok b" and "length p \<le> capacity b" and "e \<or> length p = capacity b"
  shows "validate_header (built_header b p e) = Inr ()"
  using assms payload_size_built [of b p True] payload_size_built [of b p False]
  by (auto simp: builder_ok_def validate_header_def payload_limit_def capacity_def list_ex_iff)

lemma build_frame_ok:
  assumes "builder_ok b" and "length p \<le> capacity b" and "e \<or> length p = capacity b"
  shows "build_frame b p e = Inr (advance b, built b p e)"
proof -
  let ?h = "built_header b p e"
  have v: "valid_block_size (fb_block_size b)" using assms(1) by (simp add: builder_ok_def)
  have s: "serialize_frame_header ?h = Inr (header_layout ?h)"
    using validate_built [OF assms]
    by (simp add: serialize_Inr validate_serialized_signature_def has_nonzero_signature_def list_ex_iff)
  have l: "length (header_layout ?h) = fixed_header_size" by (simp add: length_header_layout)
  have "overwrite (copy_header_to_record (header_layout ?h) (replicate (unat (fb_block_size b)) 0))
      fixed_header_size p = header_layout ?h @ p @ replicate (capacity b - length p) 0"
    using l by (simp add: overwrite_header overwrite_def capacity_def)
  then show ?thesis
    using assms(2) s by (simp add: build_frame_def payload_capacity_nat [OF v] Let_def advance_def built_def)
qed

lemma advance_simps [simp]:
  "fb_block_size (advance b) = fb_block_size b" "fb_channel (advance b) = fb_channel b"
  "fb_slice (advance b) = fb_slice b" "fb_pending (advance b) = fb_pending b"
  "fb_archive_uuid (advance b) = fb_archive_uuid b" "fb_archive_name (advance b) = fb_archive_name b"
  "capacity (advance b) = capacity b" "builder_ok (advance b) = builder_ok b"
  "fb_global_seq (advance b) = fb_global_seq b + 1" "fb_channel_seq (advance b) = fb_channel_seq b + 1"
  by (simp_all add: advance_def capacity_def builder_ok_def)

lemma pending_simps [simp]:
  "capacity (b\<lparr>fb_pending := x\<rparr>) = capacity b" "builder_ok (b\<lparr>fb_pending := x\<rparr>) = builder_ok b"
  "built (b\<lparr>fb_pending := x\<rparr>) p e = built b p e"
  "advance (b\<lparr>fb_pending := x\<rparr>) = (advance b)\<lparr>fb_pending := x\<rparr>"
  by (simp_all add: capacity_def builder_ok_def built_def built_header_def advance_def)

section \<open>Channel runs\<close>

text \<open>
  The frames of a run over its payload pieces: full frames without the end flag,
  and the last piece in an end frame.
\<close>

fun run_frames :: "frame_builder \<Rightarrow> bytes list \<Rightarrow> built_frame list" where
  "run_frames b [] = []"
| "run_frames b [p] = [built b p True]"
| "run_frames b (p # q # ps) = built b p False # run_frames (advance b) (q # ps)"

fun middle_frames :: "frame_builder \<Rightarrow> bytes list \<Rightarrow> built_frame list" where
  "middle_frames b [] = []"
| "middle_frames b (p # ps) = built b p False # middle_frames (advance b) ps"

definition advance_by :: "nat \<Rightarrow> frame_builder \<Rightarrow> frame_builder" where
  "advance_by n b = (advance ^^ n) b"

lemma advance_by_simps [simp]:
  "advance_by 0 b = b" "advance_by (Suc n) b = advance_by n (advance b)"
  by (simp_all add: advance_by_def funpow_swap1)

lemma advance_by_pending [simp]:
  "advance_by n (b\<lparr>fb_pending := x\<rparr>) = (advance_by n b)\<lparr>fb_pending := x\<rparr>"
  by (induction n arbitrary: b) simp_all

lemma advance_by_fields [simp]:
  "fb_pending (advance_by n b) = fb_pending b" "capacity (advance_by n b) = capacity b"
  "builder_ok (advance_by n b) = builder_ok b"
  "fb_global_seq (advance_by n b) = fb_global_seq b + word_of_nat n"
  "fb_channel_seq (advance_by n b) = fb_channel_seq b + word_of_nat n"
  by (induction n arbitrary: b) (simp_all add: algebra_simps)

lemma advance_by_add: "advance_by m (advance_by n b) = advance_by (n + m) b"
  by (simp add: advance_by_def funpow_add add.commute)

lemma middle_frames_pending [simp]: "middle_frames (b\<lparr>fb_pending := x\<rparr>) ps = middle_frames b ps"
  by (induction ps arbitrary: b) simp_all

lemma middle_frames_append:
  "middle_frames b (ps @ qs) = middle_frames b ps @ middle_frames (advance_by (length ps) b) qs"
  by (induction ps arbitrary: b) simp_all

definition full_pieces :: "frame_builder \<Rightarrow> bytes list \<Rightarrow> bool" where
  "full_pieces b ps \<longleftrightarrow> list_all (\<lambda>p. length p = capacity b) ps"

lemma feed_loop_ok:
  "builder_ok b \<Longrightarrow> \<exists>ps r. feed_loop b out = Inr ((advance_by (length ps) b)\<lparr>fb_pending := r\<rparr>, out @ middle_frames b ps) \<and>
     full_pieces b ps \<and> concat ps @ r = fb_pending b \<and> length r \<le> capacity b \<and> (fb_pending b \<noteq> [] \<longrightarrow> r \<noteq> [])"
proof (induction b out rule: feed_loop.induct)
  case (1 b out)
  have v: "valid_block_size (fb_block_size b)" using 1(2) by (simp add: builder_ok_def)
  note cap = payload_capacity_nat [OF v]
  show ?case
  proof (cases "length (fb_pending b) > capacity b")
    case False
    then show ?thesis
      by (intro exI [of _ "[]"] exI [of _ "fb_pending b"])
        (subst feed_loop.simps, simp add: cap full_pieces_def)
  next
    case True
    let ?p = "take (capacity b) (fb_pending b)" and ?q = "drop (capacity b) (fb_pending b)"
    have bf: "build_frame b ?p False = Inr (advance b, built b ?p False)"
      using True 1(2) by (intro build_frame_ok) simp_all
    have step: "feed_loop b out = feed_loop ((advance b)\<lparr>fb_pending := ?q\<rparr>) (out @ [built b ?p False])"
      using True bf by (subst feed_loop.simps) (simp add: cap)
    have "?q \<noteq> []" using True by simp
    moreover obtain ps r where ps: "feed_loop b out = Inr ((advance_by (Suc (length ps)) b)\<lparr>fb_pending := r\<rparr>,
        out @ built b ?p False # middle_frames (advance b) ps)"
      "full_pieces b ps" "concat ps @ r = ?q" "length r \<le> capacity b" "?q \<noteq> [] \<longrightarrow> r \<noteq> []"
      using 1(1) [OF _ _ refl] True bf 1(2) step by (auto simp: cap full_pieces_def)
    moreover have "concat (?p # ps) @ r = fb_pending b" using ps(3) by simp
    ultimately show ?thesis using ps True
      by (intro exI [of _ "?p # ps"] exI [of _ r]) (simp add: full_pieces_def)
  qed
qed

text \<open>
  How the callers drive the builder for one channel of a slice: \<open>begin_channel\<close>,
  \<open>feed\<close> for every piece of input, \<open>flush\<close>.
\<close>

fun feed_all :: "frame_builder \<Rightarrow> bytes list \<Rightarrow> build_error + frame_builder \<times> built_frame list" where
  "feed_all b [] = Inr (b, [])"
| "feed_all b (c # cs) = bind_res (feed b c) (\<lambda>(b, fs).
     bind_res (feed_all b cs) (\<lambda>(b, gs). Inr (b, fs @ gs)))"

definition channel_run ::
  "frame_builder \<Rightarrow> u64 \<Rightarrow> channel \<Rightarrow> bytes list \<Rightarrow> build_error + frame_builder \<times> built_frame list" where
  "channel_run b sl c chunks =
    bind_res (begin_channel b sl c) (\<lambda>b.
    bind_res (feed_all b chunks) (\<lambda>(b, fs).
    bind_res (flush b) (\<lambda>(b, gs). Inr (b, fs @ gs))))"

lemma feed_ok:
  assumes "builder_ok b"
  shows "\<exists>ps r. feed b bs = Inr ((advance_by (length ps) b)\<lparr>fb_pending := r\<rparr>, middle_frames b ps) \<and>
    full_pieces b ps \<and> concat ps @ r = fb_pending b @ bs \<and> length r \<le> capacity b \<and>
    (fb_pending b @ bs \<noteq> [] \<longrightarrow> r \<noteq> [])"
  using feed_loop_ok [of "b\<lparr>fb_pending := fb_pending b @ bs\<rparr>" "[]"] assms
  by (auto simp: feed_def full_pieces_def)

lemma full_pieces_simps [simp]:
  "full_pieces (advance_by n b) ps = full_pieces b ps" "full_pieces (b\<lparr>fb_pending := x\<rparr>) ps = full_pieces b ps"
  "full_pieces b (ps @ qs) = (full_pieces b ps \<and> full_pieces b qs)" "full_pieces b []"
  by (simp_all add: full_pieces_def)

lemma feed_all_ok:
  "builder_ok b \<Longrightarrow> length (fb_pending b) \<le> capacity b \<Longrightarrow>
   \<exists>ps r. feed_all b cs = Inr ((advance_by (length ps) b)\<lparr>fb_pending := r\<rparr>, middle_frames b ps) \<and>
    full_pieces b ps \<and> concat ps @ r = fb_pending b @ concat cs \<and> length r \<le> capacity b \<and>
    (fb_pending b @ concat cs \<noteq> [] \<longrightarrow> r \<noteq> [])"
proof (induction cs arbitrary: b)
  case Nil
  then show ?case by (intro exI [of _ "[]"] exI [of _ "fb_pending b"]) simp
next
  case (Cons c cs)
  obtain ps r where 1: "feed b c = Inr ((advance_by (length ps) b)\<lparr>fb_pending := r\<rparr>, middle_frames b ps)"
    "full_pieces b ps" "concat ps @ r = fb_pending b @ c" "length r \<le> capacity b"
    "fb_pending b @ c \<noteq> [] \<longrightarrow> r \<noteq> []"
    using feed_ok [OF Cons.prems(1), of c] by blast
  let ?b = "(advance_by (length ps) b)\<lparr>fb_pending := r\<rparr>"
  obtain qs s where 2: "feed_all ?b cs = Inr ((advance_by (length ps + length qs) b)\<lparr>fb_pending := s\<rparr>,
      middle_frames (advance_by (length ps) b) qs)"
    "full_pieces b qs" "concat qs @ s = r @ concat cs" "length s \<le> capacity b" "r @ concat cs \<noteq> [] \<longrightarrow> s \<noteq> []"
    using Cons.IH [of ?b] Cons.prems 1(4) by (auto simp: advance_by_add)
  have "concat (ps @ qs) @ s = fb_pending b @ concat (c # cs)"
    using 1(3) 2(3) by simp
  moreover have "fb_pending b @ concat (c # cs) \<noteq> [] \<longrightarrow> s \<noteq> []" using 1(5) 2(5) by auto
  ultimately show ?case using 1 2
    by (intro exI [of _ "ps @ qs"] exI [of _ s]) (simp add: middle_frames_append)
qed

definition run_pieces :: "frame_builder \<Rightarrow> bytes list \<Rightarrow> bool" where
  "run_pieces b ps \<longleftrightarrow> full_pieces b (butlast ps) \<and> (ps \<noteq> [] \<longrightarrow> last ps \<noteq> [] \<and> length (last ps) \<le> capacity b)"

definition run_start :: "frame_builder \<Rightarrow> u64 \<Rightarrow> channel \<Rightarrow> frame_builder" where
  "run_start b sl c = b\<lparr>fb_slice := sl, fb_channel := c, fb_channel_seq := 0\<rparr>"

lemma run_frames_snoc:
  "run_frames b (ps @ [p]) = middle_frames b ps @ [built (advance_by (length ps) b) p True]"
proof (induction ps arbitrary: b)
  case (Cons q qs)
  then show ?case by (cases qs) simp_all
qed simp

lemma channel_run_ok:
  assumes "valid_block_size (fb_block_size b)" and "fb_pending b = []" and "c \<noteq> ARCHIVE_END"
  shows "\<exists>ps. channel_run b sl c chunks =
      Inr (advance_by (length ps) (run_start b sl c), run_frames (run_start b sl c) ps) \<and>
    run_pieces b ps \<and> concat ps = concat chunks"
proof -
  let ?b = "run_start b sl c"
  have ok: "builder_ok ?b" and p: "fb_pending ?b = []" and cap: "capacity ?b = capacity b"
    using assms by (simp_all add: builder_ok_def run_start_def capacity_def)
  have bc: "begin_channel b sl c = Inr ?b" using assms by (simp add: begin_channel_def run_start_def)
  obtain ps r where f: "feed_all ?b chunks = Inr ((advance_by (length ps) ?b)\<lparr>fb_pending := r\<rparr>, middle_frames ?b ps)"
    "full_pieces ?b ps" "concat ps @ r = concat chunks" "length r \<le> capacity b" "concat chunks \<noteq> [] \<longrightarrow> r \<noteq> []"
    using feed_all_ok [OF ok, of chunks] p cap by auto
  show ?thesis
  proof (cases "r = []")
    case True
    have e: "concat ps = []" using f(3,5) True by (metis append_Nil2)
    have "0 < capacity b" using assms(1) valid_block_size_unat [OF assms(1)]
      by (simp add: capacity_def fixed_header_size_def)
    then have ps: "ps = []" using f(2) e cap by (cases ps) (auto simp: full_pieces_def)
    have "?b\<lparr>fb_pending := []\<rparr> = ?b" using p by (cases ?b) simp
    then show ?thesis using True f bc p ps
      by (intro exI [of _ "[]"]) (simp add: channel_run_def flush_def run_pieces_def)
  next
    case False
    let ?a = "advance_by (length ps) ?b"
    have bf: "build_frame (?a\<lparr>fb_pending := r\<rparr>) r True = Inr (advance (?a\<lparr>fb_pending := r\<rparr>), built ?a r True)"
      using build_frame_ok [of "?a\<lparr>fb_pending := r\<rparr>" r True] f(4) ok cap by simp
    have pa: "(advance ?a)\<lparr>fb_pending := []\<rparr> = advance ?a"
      using p by (cases "advance ?a") (use advance_simps(4) [of ?a] advance_by_fields(1) [of "length ps" ?b] in simp)
    have "flush (?a\<lparr>fb_pending := r\<rparr>) = Inr (advance ?a, [built ?a r True])"
      using False bf pa by (simp add: flush_def)
    moreover have "advance ?a = advance_by (length (ps @ [r])) ?b" by (simp add: advance_by_def)
    ultimately show ?thesis using f bc False cap
      by (intro exI [of _ "ps @ [r]"])
        (simp add: channel_run_def run_frames_snoc run_pieces_def full_pieces_def)
  qed
qed

section \<open>The archive-end record\<close>

definition archive_end_header :: "u32 \<Rightarrow> u64 \<Rightarrow> bytes \<Rightarrow> bytes \<Rightarrow> u64 \<Rightarrow> frame_header" where
  "archive_end_header bs v uuid name g = default_header\<lparr>channel_type := ARCHIVE_END,
     volume_block_size_kib := ucast (bs div 1024), archive_uuid := uuid, archive_label := name,
     volume_seq_num := v, global_frame_seq_num := g, slice_seq_num := 0, channel_frame_seq_num := 0,
     frame_payload_size := 0, flags := frame_flag_end OR frame_flag_clean_end\<rparr>"

lemma archive_end_flags:
  "has_frame_flag_end (frame_flag_end OR frame_flag_clean_end)"
  "has_frame_flag_clean_end (frame_flag_end OR frame_flag_clean_end)"
  "\<not> has_frame_flag_sideband (frame_flag_end OR frame_flag_clean_end)"
  "(frame_flag_end OR frame_flag_clean_end) AND NOT allowed_flags = 0"
  by (simp_all add: flag_bits frame_flag_end_def frame_flag_clean_end_def allowed_flags_def
      frame_flag_signed_def frame_flag_sideband_def bit_simps)

lemma archive_end_header_ok:
  assumes "valid_block_size bs"
  shows "validate_header (archive_end_header bs v uuid name g) = Inr ()"
    and "arrays_ok (archive_end_header bs v uuid name g)"
    and "decoded_block_size (archive_end_header bs v uuid name g) = bs"
proof -
  show d: "decoded_block_size (archive_end_header bs v uuid name g) = bs"
    using assms by (simp add: archive_end_header_def decoded_block_size_def valid_block_kib)
  show "arrays_ok (archive_end_header bs v uuid name g)"
    by (simp add: archive_end_header_def default_header_def arrays_ok_def)
  show "validate_header (archive_end_header bs v uuid name g) = Inr ()"
    using assms d archive_end_flags
    by (simp add: validate_header_def) (simp add: archive_end_header_def default_header_def list_ex_iff)
qed

lemma build_archive_end_ok:
  assumes "valid_block_size bs" and "hash_width H"
  shows "\<exists>h. build_archive_end_record H ed_sign bs v uuid name g None =
      Inr (header_layout h @ replicate (unat bs - fixed_header_size) 0) \<and>
    sealed_image H h (replicate (unat bs - fixed_header_size) 0) \<and>
    h = (archive_end_header bs v uuid name g)\<lparr>flags := signed_flags (frame_flag_end OR frame_flag_clean_end) False,
      frame_hash := frame_hash h, signature := signature h\<rparr>"
proof -
  let ?h = "archive_end_header bs v uuid name g" and ?rec = "replicate (unat bs) (0::u8)"
  have l: "fixed_header_size \<le> length ?rec"
    using valid_block_size_unat [OF assms(1)] by (simp add: fixed_header_size_def)
  have ok: "signer_ok ed_sign (\<lambda>_ _. True) None undefined" by (simp add: signer_ok_def)
  have a: "arrays_ok ?h" using archive_end_header_ok [OF assms(1)] by blast
  let ?s = "sealed H False ?h (drop fixed_header_size ?rec) (replicate signature_size 0)"
  have f: "finalize_record H ed_sign ?h ?rec None = Inr (?s, header_layout ?s @ drop fixed_header_size ?rec)"
    using archive_end_header_ok [OF assms(1)] l
    by (subst finalize_record_Inr [OF a l assms(2) ok]) (auto simp: seal_signature_def)
  have b: "build_archive_end_record H ed_sign bs v uuid name g None = Inr (header_layout ?s @ drop fixed_header_size ?rec)"
    using f by (simp add: build_archive_end_record_def archive_end_header_def Let_def)
  have "flags ?h = frame_flag_end OR frame_flag_clean_end" by (simp add: archive_end_header_def)
  with finalize_sealed [OF a l assms(2) ok f] b show ?thesis
    by (intro exI [of _ ?s]) simp
qed

section \<open>Properties\<close>

lemma seal_signature_nonzero:
  assumes "seal_signature ed_sign (Some k) d = Some s" and "ed_pair ed_sign ed_open k pk"
    and "list_ex (\<lambda>b. b \<noteq> 0) (sk_key_id k)"
  shows "list_ex (\<lambda>b. b \<noteq> 0) s"
proof -
  have "sign_frame_hash ed_sign k d = Inr s" using assms(1) by (simp add: seal_signature_def split: sum.splits)
  from sign_frame_hash_Inr [OF this assms(2)] obtain x where "s = sk_key_id k @ x" by metis
  then show ?thesis using assms(3) by simp
qed

lemma sealed_signature_status:
  assumes "seal_signature ed_sign signer (frame_hash h) = Some (signature h)"
    and "has_frame_flag_signed (flags h) = (signer \<noteq> None)"
    and "signer_ok ed_sign ed_open signer pk"
    and "case signer of None \<Rightarrow> True | Some k \<Rightarrow> list_ex (\<lambda>b. b \<noteq> 0) (sk_key_id k)"
  shows "validate_frame_signature ed_open h [pk] (signer \<noteq> None) =
    \<lparr>sig_status = (if signer = None then Unsigned_frame else Verified), sig_error = None\<rparr>"
proof (cases signer)
  case None
  then have "signature h = replicate signature_size 0" using assms(1) by (simp add: seal_signature_def)
  then show ?thesis using None assms(2)
    by (simp add: validate_frame_signature_def list_ex_iff Let_def)
next
  case (Some k)
  then have s: "sign_frame_hash ed_sign k (frame_hash h) = Inr (signature h)" "ed_pair ed_sign ed_open k pk"
    using assms(1,3) by (auto simp: seal_signature_def signer_ok_def split: sum.splits)
  have "list_ex (\<lambda>b. b \<noteq> 0) (signature h)"
    using seal_signature_nonzero [of ed_sign k "frame_hash h" "signature h" ed_open pk] assms(1,4) s Some by simp
  then show ?thesis using sign_frame_hash_verifies [OF s(2,1)] assms(2) Some
    by (simp add: validate_frame_signature_def Let_def)
qed

text \<open>Sealing a record works: whatever the header was, a record of the header's
  block size that \<open>finalize_record\<close> returns passes the integrity check, carries the same
  payload, differs from the given header only in the signed flag, hash and signature, and
  satisfies the signature policy that matches the signer.\<close>
lemma finalize_record_valid:
  assumes "arrays_ok h" and "hash_width H" and "signer_ok ed_sign ed_open signer pk"
    and "case signer of None \<Rightarrow> True | Some k \<Rightarrow> list_ex (\<lambda>b. b \<noteq> 0) (sk_key_id k)"
    and "length rec = unat (decoded_block_size h)" and "fixed_header_size \<le> length rec"
    and "finalize_record H ed_sign h rec signer = Inr (h', rec')"
  shows "check_frame H rec' = Inr \<lparr>header = canon_header h', size_ok = True, hash_ok = True\<rparr> \<and>
    drop fixed_header_size rec' = drop fixed_header_size rec \<and>
    h' = h\<lparr>flags := signed_flags (flags h) (signer \<noteq> None), frame_hash := frame_hash h', signature := signature h'\<rparr> \<and>
    validate_frame_signature ed_open (canon_header h') [pk] (signer \<noteq> None) =
      \<lparr>sig_status = (if signer = None then Unsigned_frame else Verified), sig_error = None\<rparr>"
proof -
  note F = finalize_sealed [OF assms(1,6,2,3,7)]
  have l: "length (header_layout h') = fixed_header_size"
    using F(1) by (simp add: sealed_image_def length_header_layout)
  have d: "decoded_block_size h' = decoded_block_size h" and f: "flags h' = signed_flags (flags h) (signer \<noteq> None)"
    by (subst F(3), simp add: decoded_block_size_def)+
  have "check_frame H rec' = Inr \<lparr>header = canon_header h', size_ok = True, hash_ok = True\<rparr>"
    unfolding F(2) check_sealed_image [OF F(1)] using d assms(5,6) by simp
  moreover have "drop fixed_header_size rec' = drop fixed_header_size rec" unfolding F(2) using l by simp
  moreover have "validate_frame_signature ed_open (canon_header h') [pk] (signer \<noteq> None) =
      \<lparr>sig_status = (if signer = None then Unsigned_frame else Verified), sig_error = None\<rparr>"
    by (rule sealed_signature_status) (use F(4) f assms(3,4) in simp_all)
  ultimately show ?thesis using F(3) by blast
qed

text \<open>C19. Re-issuing a frame under another volume: a record sealed by
  \<open>finalize_record\<close> and re-numbered by \<open>patch_volume_seq_num\<close> for a new connection still
  has the same payload, differs in the header only in the volume ordinal, the hash and the
  signature, passes the integrity check, and re-hashed under the old ordinal has the old
  hash, which is what the receiver's replay check asks for.\<close>
theorem reissued_record_replays:
  assumes "sealed_image H h1 payload" and "canon_header h1 = h1"
    and "has_frame_flag_signed (flags h1) = (signer \<noteq> None)" and "hash_width H"
    and "signer_ok ed_sign ed_open signer pk"
    and "fixed_header_size + length payload = unat (decoded_block_size h1)"
    and "patch_volume_seq_num H ed_sign (header_layout h1 @ payload) v2 signer = Inr rec2"
  shows "\<exists>h2. check_frame H rec2 = Inr \<lparr>header = h2, size_ok = True, hash_ok = True\<rparr> \<and>
    h2 = h1\<lparr>volume_seq_num := v2, frame_hash := frame_hash h2, signature := signature h2\<rparr> \<and>
    drop fixed_header_size rec2 = payload \<and>
    frame_hash_with_volume_seq H (take (unat (decoded_block_size h2)) rec2) (volume_seq_num h1) =
      Inr (frame_hash h1)"
proof -
  from reissue_sealed [OF assms(1-5,7)] obtain h2 where h2: "rec2 = header_layout h2 @ payload"
    "sealed_image H h2 payload" "canon_header h2 = h2"
    "h2 = h1\<lparr>volume_seq_num := v2, frame_hash := frame_hash h2, signature := signature h2\<rparr>"
    "frame_hash_with_volume_seq H rec2 (volume_seq_num h1) = Inr (frame_hash h1)" by blast
  have d: "decoded_block_size h2 = decoded_block_size h1"
    by (subst h2(4)) (simp add: decoded_block_size_def)
  have l: "length (header_layout h2) = fixed_header_size"
    using h2(2) by (simp add: sealed_image_def length_header_layout)
  have "check_frame H rec2 = Inr \<lparr>header = h2, size_ok = True, hash_ok = True\<rparr>"
    unfolding h2(1) check_sealed_image [OF h2(2)] using d assms(6) h2(3) by simp
  moreover have "length rec2 = unat (decoded_block_size h2)" unfolding h2(1) using l d assms(6) by simp
  moreover have "drop fixed_header_size rec2 = payload" unfolding h2(1) using l by simp
  ultimately show ?thesis using h2(4,5) by (intro exI [of _ h2]) simp
qed

text \<open>The payload bytes of a record, as every reader takes them.\<close>

definition record_payload :: "bytes \<Rightarrow> bytes" where
  "record_payload rec = (case parse_fixed_header rec of Inl _ \<Rightarrow> []
     | Inr h \<Rightarrow> take (unat (frame_payload_size h)) (drop fixed_header_size rec))"

lemma built_record:
  assumes "builder_ok b" and "length p \<le> capacity b" and "e \<or> length p = capacity b"
  shows "parse_fixed_header (bf_record (built b p e)) = Inr (canon_header (built_header b p e))"
    and "record_payload (bf_record (built b p e)) = p"
    and "length (bf_record (built b p e)) = unat (fb_block_size b)"
proof -
  have v: "valid_block_size (fb_block_size b)" using assms(1) by (simp add: builder_ok_def)
  show 1: "parse_fixed_header (bf_record (built b p e)) = Inr (canon_header (built_header b p e))"
    using validate_built [OF assms] by (simp add: built_def parse_layout_append)
  show "record_payload (bf_record (built b p e)) = p"
    using 1 payload_size_built [OF v assms(2), of e]
    by (simp add: record_payload_def) (simp add: built_def length_header_layout)
  show "length (bf_record (built b p e)) = unat (fb_block_size b)"
    using assms(2) valid_block_size_unat [OF v, THEN conjunct1]
    by (simp add: built_def length_header_layout capacity_def fixed_header_size_def)
qed

lemma run_pieces_Cons:
  "run_pieces b (p # ps) \<longleftrightarrow> (ps = [] \<and> p \<noteq> [] \<and> length p \<le> capacity b) \<or>
     (ps \<noteq> [] \<and> length p = capacity b \<and> run_pieces b ps)"
  by (auto simp: run_pieces_def full_pieces_def)

lemma run_frames_nth:
  "i < length ps \<Longrightarrow> run_frames b ps ! i = built (advance_by i b) (ps ! i) (i = length ps - 1)"
proof (induction b ps arbitrary: i rule: run_frames.induct)
  case (3 b p q ps)
  then show ?case by (cases i) auto
qed simp_all

lemma length_run_frames [simp]: "length (run_frames b ps) = length ps"
  by (induction b ps rule: run_frames.induct) simp_all

lemma run_pieces_nth:
  "run_pieces b ps \<Longrightarrow> i < length ps \<Longrightarrow>
   length (ps ! i) \<le> capacity b \<and> (i = length ps - 1 \<or> length (ps ! i) = capacity b)"
proof (induction ps arbitrary: i)
  case (Cons p ps)
  show ?case
  proof (cases i)
    case (Suc j)
    then have "run_pieces b ps" "j < length ps" "0 < length ps"
      using Cons.prems by (auto simp: run_pieces_Cons)
    then show ?thesis using Cons.IH [of j] Suc by auto
  qed (use Cons.prems in \<open>auto simp: run_pieces_Cons\<close>)
qed simp

lemma concat_payloads:
  assumes "length fs = length ps" and "\<And>i. i < length ps \<Longrightarrow> record_payload (bf_record (fs ! i)) = ps ! i"
  shows "concat (map (record_payload \<circ> bf_record) fs) = concat ps"
proof -
  have "map (record_payload \<circ> bf_record) fs = ps" using assms by (intro nth_equalityI) simp_all
  then show ?thesis by simp
qed

text \<open>C20. A channel run loses nothing and numbers everything: however the input is
  cut into pieces, feeding it to an empty builder with a valid block size and flushing gives
  records of the block size whose payloads concatenate to the input; the i-th parses, carries
  the run's slice and channel, number i in the channel and the next number in the archive,
  and only the last has the end flag.\<close>
theorem channel_run_roundtrip:
  assumes "valid_block_size (fb_block_size b)" and "fb_pending b = []" and "c \<noteq> ARCHIVE_END"
  shows "\<exists>b' fs. channel_run b sl c chunks = Inr (b', fs) \<and> fb_pending b' = [] \<and>
    fb_global_seq b' = fb_global_seq b + word_of_nat (length fs) \<and>
    concat (map (record_payload \<circ> bf_record) fs) = concat chunks \<and>
    (\<forall>i<length fs. \<exists>h. parse_fixed_header (bf_record (fs ! i)) = Inr h \<and>
       length (bf_record (fs ! i)) = unat (fb_block_size b) \<and> channel_type h = c \<and>
       slice_seq_num h = sl \<and> channel_frame_seq_num h = word_of_nat i \<and>
       global_frame_seq_num h = fb_global_seq b + word_of_nat i \<and>
       (has_frame_flag_end (flags h) \<longleftrightarrow> i = length fs - 1))"
proof -
  let ?b = "run_start b sl c"
  obtain ps where run: "channel_run b sl c chunks = Inr (advance_by (length ps) ?b, run_frames ?b ps)"
    and ps: "run_pieces b ps" "concat ps = concat chunks"
    using channel_run_ok [OF assms] by blast
  have ok: "builder_ok ?b" and f: "fb_block_size ?b = fb_block_size b" "fb_channel ?b = c" "fb_slice ?b = sl"
    "fb_global_seq ?b = fb_global_seq b" "fb_channel_seq ?b = 0" "fb_pending ?b = []" "capacity ?b = capacity b"
    using assms by (simp_all add: run_start_def builder_ok_def capacity_def)
  have adv: "fb_block_size (advance_by i ?b) = fb_block_size b \<and> fb_channel (advance_by i ?b) = c \<and>
      fb_slice (advance_by i ?b) = sl" for i
    using f by (induction i arbitrary: b) (simp_all add: advance_by_def)
  have rec: "parse_fixed_header (bf_record (run_frames ?b ps ! i)) =
        Inr (canon_header (built_header (advance_by i ?b) (ps ! i) (i = length ps - 1)))"
    "record_payload (bf_record (run_frames ?b ps ! i)) = ps ! i"
    "length (bf_record (run_frames ?b ps ! i)) = unat (fb_block_size b)" if "i < length ps" for i
    using built_record [of "advance_by i ?b" "ps ! i" "i = length ps - 1"] run_pieces_nth [OF ps(1) that]
      run_frames_nth [OF that] ok f(7) adv [of i] by auto
  have "concat (map (record_payload \<circ> bf_record) (run_frames ?b ps)) = concat chunks"
    using concat_payloads [of "run_frames ?b ps" ps] rec(2) ps(2) by simp
  then show ?thesis using run rec(1,3) f adv
    by (intro exI [of _ "advance_by (length ps) ?b"] exI [of _ "run_frames ?b ps"]) simp
qed

section \<open>Concrete instances\<close>

theorem channel_run_roundtrip_witness:
  "\<exists>b' fs. channel_run (new_frame_builder 4096 [97] [98]) 0 CH_CONTENT [[1, 2], [], [3]] = Inr (b', fs) \<and>
    concat (map (record_payload \<circ> bf_record) fs) = [1, 2, 3]"
proof -
  have "valid_block_size (fb_block_size (new_frame_builder 4096 [97] [98]))"
    "fb_pending (new_frame_builder 4096 [97] [98]) = []"
    by (simp_all add: new_frame_builder_def valid_block_size_def min_block_size_def max_block_size_def)
  from channel_run_roundtrip [OF this, of CH_CONTENT 0 "[[1, 2], [], [3]]"] show ?thesis by auto
qed

lemma zero_hash_width: "hash_width zero_hash"
  by (simp add: hash_width_def zero_hash_def)

lemma sample_finalizes:
  "\<exists>h' rec'. finalize_record zero_hash toy_sign sample_header (replicate 4096 0) (Some toy_sk) = Inr (h', rec')"
proof -
  let ?p = "drop fixed_header_size (replicate 4096 0 :: bytes)"
  let ?s = "[1,2,3,4,5,6,7,8] @ take 64 (9 # replicate 64 1) :: bytes"
  let ?h = "sealed zero_hash True sample_header ?p ?s"
  have ok: "signer_ok toy_sign toy_open (Some toy_sk) toy_pk" by (simp add: signer_ok_def toy_pair)
  have "seal_signature toy_sign (Some toy_sk) (frame_hash ?h) = Some ?s"
    by (simp only: seal_signature_def toy_sign_frame option.case sum.case)
  then have "finalize_record zero_hash toy_sign sample_header (replicate 4096 0) (Some toy_sk) =
      Inr (?h, header_layout ?h @ ?p)"
    using sample_header_ok(1,2) ok zero_hash_width
    by (subst finalize_record_Inr [OF _ _ zero_hash_width ok]) (auto simp: fixed_header_size_def)
  then show ?thesis by blast
qed

lemma finalize_record_valid_witness:
  "\<exists>h' rec'. check_frame zero_hash rec' = Inr \<lparr>header = canon_header h', size_ok = True, hash_ok = True\<rparr> \<and>
    validate_frame_signature toy_open (canon_header h') [toy_pk] True = \<lparr>sig_status = Verified, sig_error = None\<rparr>"
proof -
  obtain h' rec' where f: "finalize_record zero_hash toy_sign sample_header (replicate 4096 0) (Some toy_sk) = Inr (h', rec')"
    using sample_finalizes by blast
  have ok: "signer_ok toy_sign toy_open (Some toy_sk) toy_pk" by (simp add: signer_ok_def toy_pair)
  from finalize_record_valid [OF sample_header_ok(1) zero_hash_width ok _ _ _ f] show ?thesis
    by (auto simp: toy_sk_def decoded_sample_header fixed_header_size_def)
qed

theorem reissued_record_replays_witness:
  "\<exists>rec2 h2. patch_volume_seq_num zero_hash toy_sign sample_record 5 None = Inr rec2 \<and>
    check_frame zero_hash rec2 = Inr \<lparr>header = h2, size_ok = True, hash_ok = True\<rparr> \<and> volume_seq_num h2 = 5"
proof -
  have im: "sealed_image zero_hash sample_header (replicate 3584 0)"
    using sample_header_ok by (simp add: sealed_image_def sealed_digest_def zero_hash_def)
      (simp add: sample_header_def default_header_def)
  have sg: "has_frame_flag_signed (flags sample_header) = (None \<noteq> (None :: secret_key option))"
    by (simp add: sample_header_def)
  have ok: "signer_ok toy_sign toy_open None toy_pk" by (simp add: signer_ok_def)
  let ?h = "sample_header\<lparr>volume_seq_num := 5\<rparr>"
  have p: "parse_fixed_header sample_record = Inr sample_header"
    using parse_sealed_image [OF im] by (simp add: sample_record_def)
  have v: "volume_seq_num sample_header \<noteq> 5" "\<not> has_frame_flag_signed (flags sample_header)"
    by (simp_all add: sample_header_def)
  have fin: "finalize_record zero_hash toy_sign ?h sample_record None =
      Inr (sealed zero_hash False ?h (drop fixed_header_size sample_record) (replicate signature_size 0),
           header_layout (sealed zero_hash False ?h (drop fixed_header_size sample_record) (replicate signature_size 0)) @
           drop fixed_header_size sample_record)"
    using sample_header_ok length_header_layout [OF sample_header_ok(1)]
    by (subst finalize_record_Inr [OF _ _ zero_hash_width ok])
      (auto simp: sample_record_def seal_signature_def fixed_header_size_def)
  obtain rec2 where r: "patch_volume_seq_num zero_hash toy_sign sample_record 5 None = Inr rec2"
    using fin v p by (simp add: patch_volume_seq_num_def Let_def)
  have "fixed_header_size + length (replicate 3584 0 :: bytes) = unat (decoded_block_size sample_header)"
    by (simp add: fixed_header_size_def decoded_sample_header)
  from reissued_record_replays [OF im canon_sample_header sg zero_hash_width ok this r [unfolded sample_record_def]]
  obtain h2 where h2: "check_frame zero_hash rec2 = Inr \<lparr>header = h2, size_ok = True, hash_ok = True\<rparr>"
    "h2 = sample_header\<lparr>volume_seq_num := 5, frame_hash := frame_hash h2, signature := signature h2\<rparr>" by blast
  have "volume_seq_num h2 = 5" by (subst h2(2)) simp
  then show ?thesis using r h2(1) by blast
qed

end
