(* ===== verification/Protocol.thy ===== *)
theory Protocol
  imports Bytes
begin

text \<open>
  src/neotape_tcp_protocol.cpp and the payload helpers of
  src/neotape_socket_util.cpp: length-prefixed messages over a stream socket,
  and address strings.

  A file descriptor that is read is the list of results its \<open>read\<close> calls give
  (a chunk of bytes, an interruption, an error); an exhausted list is the end of the
  stream.  A descriptor that is written is the list of results of its \<open>write\<close> calls,
  and the bytes it accepted; a call beyond the list fails.  \<open>errno\<close> texts are
  left out of the error values.
\<close>

section \<open>Messages\<close>

datatype message_type =
    Next_frame | Frame_record | Tape_eof | Error_msg | Ack_frame | Auth_challenge | Auth_response

fun message_code :: "message_type \<Rightarrow> u8" where
  "message_code Next_frame = 1"
| "message_code Frame_record = 2"
| "message_code Tape_eof = 3"
| "message_code Error_msg = 4"
| "message_code Ack_frame = 5"
| "message_code Auth_challenge = 6"
| "message_code Auth_response = 7"

record message =
  msg_type :: message_type
  msg_payload :: bytes

definition message_header_size :: nat where "message_header_size = 1 + 8"
definition max_message_payload_size :: nat where "max_message_payload_size = 16 * 1024 * 1024"

definition is_valid_message_type :: "u8 \<Rightarrow> bool" where
  "is_valid_message_type b \<longleftrightarrow> b \<ge> 1 \<and> b \<le> 7"

text \<open>The cast of a byte that \<open>is_valid_message_type\<close> admits.\<close>

definition message_type_of :: "u8 \<Rightarrow> message_type" where
  "message_type_of b = (if b = 1 then Next_frame else if b = 2 then Frame_record
     else if b = 3 then Tape_eof else if b = 4 then Error_msg else if b = 5 then Ack_frame
     else if b = 6 then Auth_challenge else Auth_response)"

datatype protocol_error =
    ReadFailed | WriteFailed | WriteReturnedZero
  | ShortMessageHeader | UnknownMessageType u8 | MessageTooLarge u64 | ShortMessagePayload
  | TcpAddressMissingPort | BadAddressScheme

datatype read_result = Chunk bytes | Read_interrupted | Read_error

fun read_exact :: "read_result list \<Rightarrow> nat \<Rightarrow> protocol_error + bytes \<times> read_result list" where
  "read_exact [] n = Inr ([], [])"
| "read_exact (r # rs) n =
    (if n = 0 then Inr ([], r # rs)
     else case r of
       Read_interrupted \<Rightarrow> read_exact rs n
     | Read_error \<Rightarrow> Inl ReadFailed
     | Chunk bs \<Rightarrow>
         if bs = [] then Inr ([], rs)
         else if length bs \<le> n then
           bind_res (read_exact rs (n - length bs)) (\<lambda>(got, rest). Inr (bs @ got, rest))
         else Inr (take n bs, Chunk (drop n bs) # rs))"

text \<open>A \<open>write\<close> call accepts a number of bytes, is interrupted, or fails.\<close>

datatype write_result = Wrote nat | Write_interrupted | Write_error

fun write_exact :: "write_result list \<Rightarrow> bytes \<Rightarrow> protocol_error + bytes \<times> write_result list" where
  "write_exact ws [] = Inr ([], ws)"
| "write_exact [] (b # bs) = Inl WriteFailed"
| "write_exact (w # ws) (b # bs) =
    (case w of
       Wrote k \<Rightarrow> if k = 0 then Inl WriteReturnedZero
                   else bind_res (write_exact ws (drop k (b # bs))) (\<lambda>(out, ws).
                          Inr (take k (b # bs) @ out, ws))
     | Write_interrupted \<Rightarrow> write_exact ws (b # bs)
     | Write_error \<Rightarrow> Inl WriteFailed)"

definition read_message :: "read_result list \<Rightarrow> protocol_error + message option \<times> read_result list" where
  "read_message fd =
    bind_res (read_exact fd message_header_size) (\<lambda>(hdr, fd).
      if length hdr = 0 then Inr (None, fd)
      else if length hdr \<noteq> message_header_size then Inl ShortMessageHeader
      else let type_byte = hdr ! 0
           in if \<not> is_valid_message_type type_byte then Inl (UnknownMessageType type_byte)
           else let len = get_u64 hdr 1
           in if len > word_of_nat max_message_payload_size then Inl (MessageTooLarge len)
           else if len > 0 then
             bind_res (read_exact fd (unat len)) (\<lambda>(payload, fd).
               if length payload \<noteq> unat len then Inl ShortMessagePayload
               else Inr (Some \<lparr>msg_type = message_type_of type_byte, msg_payload = payload\<rparr>, fd))
           else Inr (Some \<lparr>msg_type = message_type_of type_byte, msg_payload = []\<rparr>, fd))"

definition message_header :: "message \<Rightarrow> bytes" where
  "message_header msg = message_code (msg_type msg) #
     map (\<lambda>i. ucast (drop_bit (8 * i) (word_of_nat (length (msg_payload msg)) :: u64) AND 0xff)) [0..<8]"

definition write_message :: "write_result list \<Rightarrow> message \<Rightarrow> protocol_error + bytes \<times> write_result list" where
  "write_message fd msg =
    bind_res (write_exact fd (message_header msg)) (\<lambda>(out, fd).
      if length (msg_payload msg) > 0 then
        bind_res (write_exact fd (msg_payload msg)) (\<lambda>(out2, fd). Inr (out @ out2, fd))
      else Inr (out, fd))"

fun message_type_name :: "message_type \<Rightarrow> string" where
  "message_type_name Next_frame = ''NEXT_FRAME''"
| "message_type_name Frame_record = ''FRAME_RECORD''"
| "message_type_name Tape_eof = ''TAPE_EOF''"
| "message_type_name Error_msg = ''ERROR''"
| "message_type_name Ack_frame = ''ACK_FRAME''"
| "message_type_name Auth_challenge = ''AUTH_CHALLENGE''"
| "message_type_name Auth_response = ''AUTH_RESPONSE''"

text \<open>The error message of a text.\<close>

definition error_message :: "string \<Rightarrow> message" where
  "error_message text = \<lparr>msg_type = Error_msg, msg_payload = map of_char text\<rparr>"

definition send_error :: "write_result list \<Rightarrow> string \<Rightarrow> protocol_error + bytes \<times> write_result list" where
  "send_error fd text = write_message fd (error_message text)"

text \<open>
  A connection as the message handlers see it: the results of their successive
  \<open>read_message\<close> calls (an exhausted list is a closed peer), the number of
  \<open>write_message\<close> calls that still succeed, and the messages sent.
\<close>

record connection =
  cn_reads :: "(protocol_error + message option) list"
  cn_writes_left :: nat
  cn_sent :: "message list"

definition conn_read :: "connection \<Rightarrow> (protocol_error + message option) \<times> connection" where
  "conn_read c = (case cn_reads c of [] \<Rightarrow> (Inr None, c) | r # rs \<Rightarrow> (r, c\<lparr>cn_reads := rs\<rparr>))"

definition conn_write :: "connection \<Rightarrow> message \<Rightarrow> bool \<times> connection" where
  "conn_write c m = (if cn_writes_left c = 0 then (False, c)
     else (True, c\<lparr>cn_writes_left := cn_writes_left c - 1, cn_sent := cn_sent c @ [m]\<rparr>))"

section \<open>Addresses\<close>

record address =
  is_unix :: bool
  addr_host :: string
  addr_port :: string
  addr_path :: string

definition tcp_prefix :: string where "tcp_prefix = ''tcp://''"
definition unix_prefix :: string where "unix_prefix = ''unix://''"

definition starts_with :: "string \<Rightarrow> string \<Rightarrow> bool" where
  "starts_with s p \<longleftrightarrow> take (length p) s = p"

text \<open>\<open>rfind(c)\<close>: the position of the last c.\<close>

fun rfind_char :: "char \<Rightarrow> string \<Rightarrow> nat option" where
  "rfind_char c [] = None"
| "rfind_char c (x # xs) =
    (case rfind_char c xs of Some i \<Rightarrow> Some (Suc i) | None \<Rightarrow> if x = c then Some 0 else None)"

definition strip_brackets :: "string \<Rightarrow> string" where
  "strip_brackets host =
    (if length host \<ge> 2 \<and> hd host = CHR ''['' \<and> last host = CHR '']''
     then take (length host - 2) (drop 1 host) else host)"

definition parse_address :: "string \<Rightarrow> protocol_error + address" where
  "parse_address addr =
    (if starts_with addr tcp_prefix then
       let rest = drop (length tcp_prefix) addr
       in (case rfind_char CHR '':'' rest of
             None \<Rightarrow> Inl TcpAddressMissingPort
           | Some colon \<Rightarrow> Inr \<lparr>is_unix = False, addr_host = strip_brackets (take colon rest),
                              addr_port = drop (colon + 1) rest, addr_path = []\<rparr>)
     else if starts_with addr unix_prefix then
       Inr \<lparr>is_unix = True, addr_host = [], addr_port = [], addr_path = drop (length unix_prefix) addr\<rparr>
     else Inl BadAddressScheme)"

section \<open>Streams\<close>

text \<open>
  The bytes a descriptor will deliver up to its end, error or empty chunk.
\<close>

fun stream_bytes :: "read_result list \<Rightarrow> bytes" where
  "stream_bytes [] = []"
| "stream_bytes (Chunk bs # rs) = (if bs = [] then [] else bs @ stream_bytes rs)"
| "stream_bytes (Read_interrupted # rs) = stream_bytes rs"
| "stream_bytes (Read_error # rs) = []"

lemma read_exact_zero [simp]: "read_exact fd 0 = Inr ([], fd)"
  by (cases fd) simp_all

text \<open>However the stream is cut into chunks, a satisfied read gives its first bytes.\<close>

lemma read_exact_stream:
  "n \<le> length (stream_bytes fd) \<Longrightarrow>
   \<exists>fd'. read_exact fd n = Inr (take n (stream_bytes fd), fd') \<and> stream_bytes fd' = drop n (stream_bytes fd)"
proof (induction fd arbitrary: n)
  case (Cons r rs)
  show ?case
  proof (cases "n = 0")
    case False
    show ?thesis
    proof (cases r)
      case (Chunk bs)
      then have bs: "bs \<noteq> []" using Cons.prems False by auto
      show ?thesis
      proof (cases "length bs \<le> n")
        case True
        then have "n - length bs \<le> length (stream_bytes rs)" using Cons.prems Chunk bs by simp
        from Cons.IH [OF this] show ?thesis using False Chunk bs True by auto
      qed (use False Chunk bs in simp)
    qed (use Cons.IH [of n] Cons.prems False in simp_all)
  qed simp
qed simp

lemma read_exact_short:
  "length (stream_bytes fd) < n \<Longrightarrow>
   read_exact fd n = Inl ReadFailed \<or> (\<exists>fd'. read_exact fd n = Inr (stream_bytes fd, fd'))"
proof (induction fd arbitrary: n)
  case (Cons r rs)
  then have n: "n \<noteq> 0" by auto
  show ?case
  proof (cases r)
    case (Chunk bs)
    show ?thesis
    proof (cases "bs = []")
      case False
      then have "length bs \<le> n" "length (stream_bytes rs) < n - length bs" using Cons.prems Chunk by auto
      from Cons.IH [OF this(2)] show ?thesis using n Chunk False \<open>length bs \<le> n\<close> by auto
    qed (use n Chunk in simp)
  qed (use Cons.IH [of n] Cons.prems n in simp_all)
qed simp

lemma stream_chunk [simp]: "stream_bytes (map Chunk bss) = concat (takeWhile (\<lambda>bs. bs \<noteq> []) bss)"
  by (induction bss) simp_all

lemma message_type_code [simp]: "message_type_of (message_code t) = t" "is_valid_message_type (message_code t)"
  by (cases t; simp add: message_type_of_def is_valid_message_type_def)+

lemma length_message_header [simp]: "length (message_header m) = 9" "message_header m \<noteq> []"
  by (simp_all add: message_header_def)

definition message_bytes :: "message \<Rightarrow> bytes" where
  "message_bytes m = message_header m @ msg_payload m"

lemma message_header_le: "message_header m = message_code (msg_type m) # le_bytes 8 (word_of_nat (length (msg_payload m)) :: u64)"
  by (simp add: message_header_def le_bytes_def ucast_and_ff mult.commute)

lemma message_header_length_field:
  "get_u64 (message_header m) 1 = word_of_nat (length (msg_payload m))"
proof -
  have "field 1 8 (message_header m) = le_bytes 8 (word_of_nat (length (msg_payload m)) :: u64)"
    by (simp add: message_header_le field_def)
  then show ?thesis by (simp add: get_u64_field le_value_le_bytes)
qed

lemma read_message_header:
  assumes "length (stream_bytes fd) \<ge> 9" and "take 9 (stream_bytes fd) = message_header m"
    and "length (msg_payload m) \<le> max_message_payload_size"
  obtains fd' where "stream_bytes fd' = drop 9 (stream_bytes fd)"
    and "read_message fd = (if msg_payload m = [] then Inr (Some \<lparr>msg_type = msg_type m, msg_payload = []\<rparr>, fd')
      else bind_res (read_exact fd' (length (msg_payload m))) (\<lambda>(payload, fd).
        if length payload \<noteq> length (msg_payload m) then Inl ShortMessagePayload
        else Inr (Some \<lparr>msg_type = msg_type m, msg_payload = payload\<rparr>, fd)))"
proof -
  obtain fd' where fd': "read_exact fd 9 = Inr (message_header m, fd')" "stream_bytes fd' = drop 9 (stream_bytes fd)"
    using read_exact_stream [OF assms(1)] assms(2) by auto
  have l: "length (msg_payload m) < 2 ^ 64" "unat (word_of_nat (length (msg_payload m)) :: u64) = length (msg_payload m)"
    using assms(3) by (simp_all add: max_message_payload_size_def unat_of_nat)
  have nz: "(0 :: u64) < word_of_nat (length (msg_payload m)) \<longleftrightarrow> msg_payload m \<noteq> []"
    using l by (simp add: word_less_nat_alt)
  have le: "\<not> (word_of_nat max_message_payload_size :: u64) < word_of_nat (length (msg_payload m))"
    using assms(3) l by (simp add: word_less_nat_alt max_message_payload_size_def)
  have hd: "message_header m ! 0 = message_code (msg_type m)" by (simp add: message_header_le)
  have "read_message fd = (if msg_payload m = [] then Inr (Some \<lparr>msg_type = msg_type m, msg_payload = []\<rparr>, fd')
      else bind_res (read_exact fd' (length (msg_payload m))) (\<lambda>(payload, fd).
        if length payload \<noteq> length (msg_payload m) then Inl ShortMessagePayload
        else Inr (Some \<lparr>msg_type = msg_type m, msg_payload = payload\<rparr>, fd)))"
    using fd' l(2) nz le hd
    by (simp add: read_message_def message_header_size_def message_header_length_field [unfolded One_nat_def] Let_def)
      (unfold message_type_code, simp)
  with fd'(2) show thesis by (rule that)
qed

lemma write_exact_all: "write_exact ws bs = Inr (out, ws') \<Longrightarrow> out = bs"
proof (induction ws bs arbitrary: out ws' rule: write_exact.induct)
  case (3 w ws b bs)
  then show ?case
    by (auto simp: bind_res_Inr split: write_result.splits if_splits)
      (metis append_take_drop_id)
qed auto

lemma write_message_all: "write_message ws m = Inr (out, ws') \<Longrightarrow> out = message_bytes m"
  by (auto simp: write_message_def message_bytes_def bind_res_Inr dest!: write_exact_all split: if_splits)

lemma read_message_stream:
  assumes "stream_bytes fd = message_bytes m @ rest" and "length (msg_payload m) \<le> max_message_payload_size"
  shows "\<exists>fd'. read_message fd = Inr (Some m, fd') \<and> stream_bytes fd' = rest"
proof -
  have h: "length (stream_bytes fd) \<ge> 9" "take 9 (stream_bytes fd) = message_header m"
    using assms(1) by (simp_all add: message_bytes_def)
  obtain fd' where fd': "stream_bytes fd' = drop 9 (stream_bytes fd)"
    "read_message fd = (if msg_payload m = [] then Inr (Some \<lparr>msg_type = msg_type m, msg_payload = []\<rparr>, fd')
      else bind_res (read_exact fd' (length (msg_payload m))) (\<lambda>(payload, fd).
        if length payload \<noteq> length (msg_payload m) then Inl ShortMessagePayload
        else Inr (Some \<lparr>msg_type = msg_type m, msg_payload = payload\<rparr>, fd)))"
    by (rule read_message_header [OF h assms(2)])
  have s: "stream_bytes fd' = msg_payload m @ rest" using fd'(1) assms(1) by (simp add: message_bytes_def)
  then show ?thesis
    using read_exact_stream [of "length (msg_payload m)" fd'] fd'(2) by auto
qed

section \<open>Properties\<close>

text \<open>C21. A message that was written is read back from the stream, however the
  stream is cut into chunks and interrupted, and exactly the bytes after it are left.\<close>
theorem message_roundtrip:
  assumes "write_message ws m = Inr (out, ws')" and "stream_bytes fd = out @ rest"
    and "length (msg_payload m) \<le> max_message_payload_size"
  shows "\<exists>fd'. read_message fd = Inr (Some m, fd') \<and> stream_bytes fd' = rest"
  using read_message_stream [of fd m rest] assms write_message_all [OF assms(1)] by simp

text \<open>A stream that ends inside a message never yields a message: reading it is an
  error, unless nothing of the message arrived.\<close>
lemma truncated_message_rejected:
  assumes "stream_bytes fd = take k (message_bytes m)" and "k < length (message_bytes m)"
    and "length (msg_payload m) \<le> max_message_payload_size"
  shows "(k = 0 \<and> (\<exists>fd'. read_message fd = Inr (None, fd'))) \<or> (\<exists>e. read_message fd = Inl e)"
proof (cases "k < 9")
  case True
  then have l: "length (stream_bytes fd) = k" "stream_bytes fd = [] \<longleftrightarrow> k = 0"
    using assms(1,2) by auto
  with True read_exact_short [of fd 9] show ?thesis
    by (cases "k = 0") (auto simp: read_message_def message_header_size_def)
next
  case False
  then have h: "length (stream_bytes fd) \<ge> 9" "take 9 (stream_bytes fd) = message_header m"
    using assms(1,2) by (simp_all add: message_bytes_def)
  obtain fd' where fd': "stream_bytes fd' = drop 9 (stream_bytes fd)"
    "read_message fd = (if msg_payload m = [] then Inr (Some \<lparr>msg_type = msg_type m, msg_payload = []\<rparr>, fd')
      else bind_res (read_exact fd' (length (msg_payload m))) (\<lambda>(payload, fd).
        if length payload \<noteq> length (msg_payload m) then Inl ShortMessagePayload
        else Inr (Some \<lparr>msg_type = msg_type m, msg_payload = payload\<rparr>, fd)))"
    by (rule read_message_header [OF h assms(3)])
  have "length (stream_bytes fd') < length (msg_payload m)"
    using fd'(1) assms(1,2) False by (simp add: message_bytes_def)
  with fd'(2) read_exact_short [OF this] show ?thesis by auto
qed

text \<open>Address strings: printing any host and a port without a colon, or a unix path,
  and parsing the text gives the parts back, and a bracketed IPv6 literal loses its brackets
  and nothing else.\<close>
lemma parse_address_forms:
  assumes "CHR '':'' \<notin> set port"
  shows "parse_address (tcp_prefix @ host @ CHR '':'' # port) =
      Inr \<lparr>is_unix = False, addr_host = strip_brackets host, addr_port = port, addr_path = []\<rparr> \<and>
    parse_address (tcp_prefix @ CHR ''['' # host @ CHR '']'' # CHR '':'' # port) =
      Inr \<lparr>is_unix = False, addr_host = host, addr_port = port, addr_path = []\<rparr> \<and>
    parse_address (unix_prefix @ path) = Inr \<lparr>is_unix = True, addr_host = [], addr_port = [], addr_path = path\<rparr>"
proof -
  have none: "rfind_char CHR '':'' port = None" using assms by (induction port) auto
  have rf: "rfind_char CHR '':'' (xs @ CHR '':'' # port) = Some (length xs)" for xs
    by (induction xs) (simp_all add: none)
  have 1: "parse_address (tcp_prefix @ xs @ CHR '':'' # port) =
      Inr \<lparr>is_unix = False, addr_host = strip_brackets xs, addr_port = port, addr_path = []\<rparr>" for xs
    by (simp add: parse_address_def starts_with_def rf Let_def)
  have 2: "strip_brackets (CHR ''['' # host @ [CHR '']'']) = host"
    by (simp add: strip_brackets_def)
  have 3: "parse_address (unix_prefix @ path) = Inr \<lparr>is_unix = True, addr_host = [], addr_port = [], addr_path = path\<rparr>"
    by (simp add: parse_address_def starts_with_def tcp_prefix_def unix_prefix_def)
  show ?thesis using 1 [of host] 1 [of "CHR ''['' # host @ [CHR '']'']"] 2 3 by simp
qed

section \<open>Concrete instances\<close>

definition sample_message :: message where
  "sample_message = \<lparr>msg_type = Ack_frame, msg_payload = [7, 0, 0]\<rparr>"

theorem message_roundtrip_witness:
  "\<exists>fd'. read_message [Chunk [5, 3, 0], Read_interrupted, Chunk [0, 0, 0, 0, 0, 0, 7], Chunk [0, 0, 2, 1]] =
     Inr (Some sample_message, fd') \<and> stream_bytes fd' = [2, 1]"
proof -
  have w: "write_message [Wrote 4, Write_interrupted, Wrote 5, Wrote 3] sample_message =
      Inr ([5, 3, 0, 0, 0, 0, 0, 0, 0, 7, 0, 0], [])"
    by (simp add: write_message_def sample_message_def message_header_def upt_rec)
  show ?thesis
    by (rule message_roundtrip [OF w]) (simp_all add: sample_message_def max_message_payload_size_def)
qed

lemma truncated_message_rejected_witness:
  "\<exists>e. read_message [Chunk [5, 3, 0], Read_interrupted, Chunk [0, 0, 0, 0, 0, 0, 7]] = Inl e"
  using truncated_message_rejected [of "[Chunk [5, 3, 0], Read_interrupted, Chunk [0, 0, 0, 0, 0, 0, 7]]" 10 sample_message]
  by (simp add: sample_message_def message_bytes_def message_header_def max_message_payload_size_def upt_rec)

lemma parse_address_forms_witness:
  "parse_address ''tcp://[::1]:99'' = Inr \<lparr>is_unix = False, addr_host = ''::1'', addr_port = ''99'', addr_path = []\<rparr>"
  using parse_address_forms [of "''99''" "''::1''" "[]"] by (simp add: tcp_prefix_def)

end
