(* ===== verification/Extractor.thy ===== *)
theory Extractor
  imports FrameBuilderSpec Protocol
begin

text \<open>
  src/neotape_extractor.cpp: the extractor serves reader connections, checks every
  frame record (integrity, signature policy, place in the archive), writes the
  content payloads to the output and the metadata payloads to the metadata output, and
  acknowledges each frame after that.

  An output \<open>FILE\<close> is the bytes written so far, the number of bytes that can still be
  written (\<open>None\<close>: any number) and whether \<open>fflush\<close> succeeds.  Lines printed
  to stderr are left out.
\<close>

section \<open>State\<close>

record out_file =
  of_bytes :: bytes
  of_space :: "nat option"
  of_flush_ok :: bool

definition write_output :: "out_file \<Rightarrow> bytes \<Rightarrow> bool \<times> out_file" where
  "write_output out data =
    (if data = [] then (True, out)
     else case of_space out of
       None \<Rightarrow> (True, out\<lparr>of_bytes := of_bytes out @ data\<rparr>)
     | Some n \<Rightarrow> (length data \<le> n, out\<lparr>of_bytes := of_bytes out @ take n data, of_space := Some (n - length data)\<rparr>))"

definition flush_output :: "out_file \<Rightarrow> bool" where
  "flush_output out = of_flush_ok out"

record extractor =
  ex_validator :: frame_validator
  ex_saw_archive_end :: bool
  ex_require_signed :: bool
  ex_keys :: "public_key list"
  ex_warned :: bool
  ex_salvage :: bool
  ex_output_slice :: "u64 option"
  ex_processed :: u64
  ex_fatal :: bool
  ex_metadata :: "out_file option"
  ex_output :: out_file

section \<open>One frame\<close>

text \<open>The payload bytes of a record of at least header size.\<close>

definition frame_payload :: "bytes \<Rightarrow> frame_header \<Rightarrow> bytes" where
  "frame_payload data h = take (unat (frame_payload_size h)) (drop fixed_header_size data)"

text \<open>What happens to a new frame after validation; the slice the validator was in before is given.\<close>

definition output_frame :: "u64 \<Rightarrow> extractor \<Rightarrow> bytes \<Rightarrow> checked_frame \<Rightarrow> bool \<times> extractor" where
  "output_frame prev_slice st data frame =
    (let h = header frame; st = st\<lparr>ex_processed := ex_processed st + 1\<rparr>
     in if channel_type h = CH_METADATA then
          (case ex_metadata st of
             None \<Rightarrow> (True, st)
           | Some meta \<Rightarrow>
               if \<not> hash_ok frame then (True, st)
               else case write_output meta (frame_payload data h) of
                 (ok, meta) \<Rightarrow> (ok \<and> (\<not> has_frame_flag_end (flags h) \<or> flush_output meta),
                               st\<lparr>ex_metadata := Some meta\<rparr>))
        else if (\<not> ex_salvage st \<and> saw_archive_end (ex_validator st)) \<or>
                (ex_salvage st \<and> channel_type h = ARCHIVE_END) then
          (if \<not> flush_output (ex_output st) then (False, st)
           else (True, st\<lparr>ex_saw_archive_end := True\<rparr>))
        else let slice_changed = (if ex_salvage st
                   then (case ex_output_slice st of None \<Rightarrow> False | Some s \<Rightarrow> slice_seq_num h \<noteq> s)
                   else slice_seq_num h \<noteq> prev_slice)
             in if slice_changed \<and> \<not> flush_output (ex_output st) then (False, st)
                else if channel_type h = CH_CONTENT then
                  (case write_output (ex_output st) (frame_payload data h) of
                     (False, out) \<Rightarrow> (False, st\<lparr>ex_output := out\<rparr>)
                   | (True, out) \<Rightarrow> (True, st\<lparr>ex_output := out, ex_output_slice := Some (slice_seq_num h)\<rparr>))
                else (True, st))"

definition judge_frame ::
  "(bytes \<Rightarrow> bytes) \<Rightarrow> extractor \<Rightarrow> bytes \<Rightarrow> checked_frame \<Rightarrow> bool \<times> extractor" where
  "judge_frame H st data frame =
    (let prev_slice = current_slice_seq_num (ex_validator st)
     in case (if ex_salvage st then validate_salvage_frame H (ex_validator st) frame data
              else validate_restore_frame H (ex_validator st) frame data) of
          (v, status, msg) \<Rightarrow>
            let st = st\<lparr>ex_validator := v\<rparr>
            in if status = Restore_fatal then (ex_salvage st, st)
               else if last_was_replay v then (True, st)
               else output_frame prev_slice st data frame)"

definition process_frame ::
  "(bytes \<Rightarrow> bytes) \<Rightarrow> ed_open \<Rightarrow> extractor \<Rightarrow> bytes \<Rightarrow> checked_frame \<Rightarrow> bool \<times> extractor" where
  "process_frame H ed_open st data frame =
    (let h = header frame
     in if \<not> hash_ok frame \<and> ex_keys st \<noteq> [] \<and> has_frame_flag_signed (flags h) then (False, st)
        else let sv = validate_frame_signature ed_open h (ex_keys st) (ex_require_signed st)
        in if sig_error sv \<noteq> None then (False, st)
        else judge_frame H (if sig_status sv = Signed_unverified then st\<lparr>ex_warned := True\<rparr> else st) data frame)"

text \<open>The handler of a frame record message: an exception of the check is a rejected frame.\<close>

definition handle_record ::
  "(bytes \<Rightarrow> bytes) \<Rightarrow> ed_open \<Rightarrow> extractor \<Rightarrow> bytes \<Rightarrow> u64 option \<times> extractor" where
  "handle_record H ed_open st data =
    (case check_frame H data of
       Inl e \<Rightarrow> (None, st\<lparr>ex_fatal := True\<rparr>)
     | Inr frame \<Rightarrow>
         (case process_frame H ed_open st data frame of
            (True, st) \<Rightarrow> (Some (global_frame_seq_num (header frame)), st)
          | (False, st) \<Rightarrow> (None, st\<lparr>ex_fatal := True\<rparr>)))"

section \<open>One connection\<close>

definition ack_message :: "u64 \<Rightarrow> message" where
  "ack_message g = \<lparr>msg_type = Ack_frame, msg_payload = uint64_to_le_bytes g\<rparr>"

lemma conn_read_shrinks:
  "conn_read c = (Inr (Some m), c') \<Longrightarrow> length (cn_reads c') < length (cn_reads c)"
  by (auto simp: conn_read_def split: list.splits)

lemma conn_write_reads: "conn_write c m = (b, c') \<Longrightarrow> cn_reads c' = cn_reads c"
  by (auto simp: conn_write_def split: if_splits)

text \<open>The loop of \<open>serve_client\<close>; a message that cannot be written throws, which ends the
  connection.\<close>

function serve_frames ::
  "(bytes \<Rightarrow> bytes) \<Rightarrow> ed_open \<Rightarrow> extractor \<Rightarrow> connection \<Rightarrow> bool \<times> extractor \<times> connection" where
  "serve_frames H ed_open st c =
    (case conn_write c \<lparr>msg_type = Next_frame, msg_payload = []\<rparr> of
       (False, c) \<Rightarrow> (False, st, c)
     | (True, c) \<Rightarrow>
        (case conn_read c of
           (Inl e, c) \<Rightarrow> (False, st, c)
         | (Inr None, c) \<Rightarrow> (False, st, c)
         | (Inr (Some resp), c) \<Rightarrow>
             (case msg_type resp of
                Frame_record \<Rightarrow>
                  (case handle_record H ed_open st (msg_payload resp) of
                     (None, st) \<Rightarrow> (False, st, snd (conn_write c (error_message ''frame validation failed'')))
                   | (Some g, st) \<Rightarrow>
                       (case conn_write c (ack_message g) of
                          (False, c) \<Rightarrow> (False, st, c)
                        | (True, c) \<Rightarrow> if ex_saw_archive_end st then (True, st, c)
                                      else serve_frames H ed_open st c))
              | Tape_eof \<Rightarrow> (False, st, c)
              | Error_msg \<Rightarrow> (False, st, c)
              | _ \<Rightarrow> (False, st, snd (conn_write c (error_message ''unexpected request from extractor client''))))))"
  by pat_completeness auto

termination
  by (relation "measure (\<lambda>(H, ed_open, st, c). length (cn_reads c))")
    (auto dest!: conn_read_shrinks [OF sym] conn_write_reads [OF sym])

declare serve_frames.simps [simp del]

definition serve_client ::
  "(bytes \<Rightarrow> bytes) \<Rightarrow> ed_open \<Rightarrow> extractor \<Rightarrow> connection \<Rightarrow> bool \<times> extractor \<times> connection" where
  "serve_client H ed_open st c =
    serve_frames H ed_open (st\<lparr>ex_validator := begin_connection (ex_validator st)\<rparr>) c"

section \<open>The run\<close>

record extractor_options =
  xo_require_signed :: bool
  xo_keys :: "public_key list"
  xo_salvage :: bool
  xo_metadata :: "out_file option"
  xo_output :: out_file

definition initial_extractor :: "extractor_options \<Rightarrow> extractor" where
  "initial_extractor opts = \<lparr>ex_validator = initial_validator, ex_saw_archive_end = False,
     ex_require_signed = xo_require_signed opts, ex_keys = xo_keys opts, ex_warned = False,
     ex_salvage = xo_salvage opts, ex_output_slice = None, ex_processed = 0, ex_fatal = False,
     ex_metadata = xo_metadata opts, ex_output = xo_output opts\<rparr>"

datatype extract_result = Extract_complete u64 | Extract_waiting | Extract_fatal

fun serve_readers ::
  "(bytes \<Rightarrow> bytes) \<Rightarrow> ed_open \<Rightarrow> extractor \<Rightarrow> connection list \<Rightarrow> extract_result \<times> extractor" where
  "serve_readers H ed_open st conns =
    (if ex_saw_archive_end st then (Extract_complete (ex_processed st), st)
     else case conns of
       [] \<Rightarrow> (Extract_waiting, st)
     | c # cs \<Rightarrow>
        (case serve_client H ed_open st c of
           (complete, st, c) \<Rightarrow>
             if ex_fatal st then (Extract_fatal, st)
             else if complete then (Extract_complete (ex_processed st), st)
             else serve_readers H ed_open st cs))"

definition run_tcp_extractor ::
  "(bytes \<Rightarrow> bytes) \<Rightarrow> ed_open \<Rightarrow> extractor_options \<Rightarrow> connection list \<Rightarrow> extract_result \<times> extractor" where
  "run_tcp_extractor H ed_open opts conns = serve_readers H ed_open (initial_extractor opts) conns"

section \<open>What has been extracted\<close>

type_synonym accepted = "(checked_frame \<times> bytes) list"

definition acc_headers :: "accepted \<Rightarrow> frame_header list" where
  "acc_headers p = map (header \<circ> fst) p"

definition content_bytes :: "accepted \<Rightarrow> bytes" where
  "content_bytes p = concat (map (\<lambda>(f, d). frame_payload d (header f))
     (filter (\<lambda>(f, d). channel_type (header f) = CH_CONTENT) p))"

text \<open>What every accepted frame has gone through: the integrity check (a bad hash is
  tolerated in advisory metadata only) and the signature policy.\<close>

definition authentic :: "(bytes \<Rightarrow> bytes) \<Rightarrow> ed_open \<Rightarrow> public_key list \<Rightarrow> bool \<Rightarrow> checked_frame \<times> bytes \<Rightarrow> bool" where
  "authentic H ed_open keys required fd \<longleftrightarrow> (case fd of (f, d) \<Rightarrow>
     check_frame H d = Inr f \<and> size_ok f \<and> (hash_ok f \<or> channel_type (header f) = CH_METADATA) \<and>
     sig_error (validate_frame_signature ed_open (header f) keys required) = None)"

definition unlimited :: "out_file \<Rightarrow> bool" where
  "unlimited out \<longleftrightarrow> of_space out = None"

text \<open>The state of a restoring extractor that has accepted the frames p, starting with the output bytes b.\<close>

definition extracted :: "(bytes \<Rightarrow> bytes) \<Rightarrow> ed_open \<Rightarrow> bytes \<Rightarrow> extractor \<Rightarrow> accepted \<Rightarrow> bool" where
  "extracted H ed_open b st p \<longleftrightarrow> \<not> ex_salvage st \<and> unlimited (ex_output st) \<and>
     tracks_any (ex_validator st) (acc_headers p) \<and> archive_prefix [] (acc_headers p) \<and>
     list_all (authentic H ed_open (ex_keys st) (ex_require_signed st)) p \<and>
     of_bytes (ex_output st) = b @ content_bytes p \<and>
     (ex_saw_archive_end st \<longrightarrow> archive_ended (acc_headers p))"

lemma content_bytes_snoc [simp]:
  "content_bytes (p @ [(f, d)]) =
   content_bytes p @ (if channel_type (header f) = CH_CONTENT then frame_payload d (header f) else [])"
  by (simp add: content_bytes_def)

lemma acc_headers_snoc [simp]: "acc_headers (p @ [(f, d)]) = acc_headers p @ [header f]" "acc_headers [] = []"
  by (simp_all add: acc_headers_def)

lemma tracks_any_archive_end: "tracks_any v p \<Longrightarrow> saw_archive_end v = archive_ended p"
  by (simp add: tracks_any_def tracks_def)

lemma write_unlimited:
  "unlimited out \<Longrightarrow> write_output out d = (True, out\<lparr>of_bytes := of_bytes out @ d\<rparr>)"
  by (auto simp: write_output_def unlimited_def)

lemma output_frame_new:
  assumes "output_frame prev st data f = (ok, st')" and "\<not> ex_salvage st" and "unlimited (ex_output st)"
  shows "ex_validator st' = ex_validator st \<and> \<not> ex_salvage st' \<and> unlimited (ex_output st') \<and>
    ex_keys st' = ex_keys st \<and> ex_require_signed st' = ex_require_signed st \<and>
    (ex_saw_archive_end st' \<longrightarrow> ex_saw_archive_end st \<or> saw_archive_end (ex_validator st)) \<and>
    (ok \<longrightarrow> channel_type (header f) = CH_CONTENT \<longrightarrow> \<not> saw_archive_end (ex_validator st) \<longrightarrow>
       of_bytes (ex_output st') = of_bytes (ex_output st) @ frame_payload data (header f)) \<and>
    (\<not> ok \<or> channel_type (header f) \<noteq> CH_CONTENT \<or> saw_archive_end (ex_validator st) \<longrightarrow>
       of_bytes (ex_output st') = of_bytes (ex_output st))"
  using assms write_unlimited [of "ex_output st" "frame_payload data (header f)"]
  by (auto simp: output_frame_def Let_def unlimited_def split: if_splits option.splits prod.splits bool.splits)

lemma restore_step:
  assumes "tracks_any v p" and "decoded_block_size (header f) \<noteq> 0"
    and "validate_restore_frame H v f data = (v', status, msg)" and "status \<noteq> Restore_fatal"
  shows "(last_was_replay v' \<and> tracks_any v' p) \<or>
    (\<not> last_was_replay v' \<and> fits p (header f) \<and> size_ok f \<and>
     (hash_ok f \<or> channel_type (header f) = CH_METADATA) \<and> tracks_any v' (p @ [header f]))"
proof -
  obtain r where v: "validate H v f data (channel_type (header f) = CH_METADATA) = (v', r)"
    using assms(3) by (auto simp: validate_restore_frame_def Let_def split: prod.splits option.splits if_splits)
  then have "r = None"
    using assms(3,4) by (cases r) (auto simp: validate_restore_frame_def Let_def)
  from validate_step [OF assms(1,2) v [unfolded this]] show ?thesis by (auto intro: tracks_imp_any)
qed

lemma validate_header_block:
  assumes "validate_header h = Inr ()"
  shows "decoded_block_size h \<noteq> 0"
proof -
  have "valid_block_size (decoded_block_size h)" using assms by (simp add: validate_header_def split: if_splits)
  then show ?thesis using valid_block_size_unat by fastforce
qed

text \<open>The frame handler keeps the account, or gives up with the output as it was.\<close>

lemma judge_frame_new:
  assumes "judge_frame H st data f = (True, st')" and "\<not> ex_salvage st"
  obtains v status msg where "validate_restore_frame H (ex_validator st) f data = (v, status, msg)"
    and "status \<noteq> Restore_fatal"
    and "if last_was_replay v then st' = st\<lparr>ex_validator := v\<rparr>
      else output_frame (current_slice_seq_num (ex_validator st)) (st\<lparr>ex_validator := v\<rparr>) data f = (True, st')"
  using assms
  by (cases "validate_restore_frame H (ex_validator st) f data")
    (simp add: judge_frame_def Let_def split: if_splits)

lemma process_frame_new:
  assumes "process_frame H ed_open st data f = (True, st')"
  obtains st1 where "sig_error (validate_frame_signature ed_open (header f) (ex_keys st) (ex_require_signed st)) = None"
    and "st1 = st \<or> st1 = st\<lparr>ex_warned := True\<rparr>" and "judge_frame H st1 data f = (True, st')"
  using assms by (fastforce simp: process_frame_def Let_def split: if_split_asm)

lemma authentic_update [simp]:
  "content_bytes [] = []" "extracted H ed_open b (st\<lparr>ex_fatal := x\<rparr>) p = extracted H ed_open b st p"
  "extracted H ed_open b (st\<lparr>ex_warned := x\<rparr>) p = extracted H ed_open b st p"
  by (simp_all add: content_bytes_def extracted_def)

lemma handle_record_step:
  assumes "extracted H ed_open b st p" and "handle_record H ed_open st data = (Some g, st')"
  shows "\<exists>q. extracted H ed_open b st' (p @ q)"
proof -
  obtain f where c: "check_frame H data = Inr f" and pf: "process_frame H ed_open st data f = (True, st')"
    using assms(2) by (auto simp: handle_record_def split: sum.splits prod.splits bool.splits)
  have bs: "decoded_block_size (header f) \<noteq> 0"
    using validate_header_block [OF parse_InrD(9) [OF check_frame_InrD(1) [OF c]]] .
  from process_frame_new [OF pf] obtain st1 where
    sg: "sig_error (validate_frame_signature ed_open (header f) (ex_keys st) (ex_require_signed st)) = None"
    and st1: "st1 = st \<or> st1 = st\<lparr>ex_warned := True\<rparr>" and j: "judge_frame H st1 data f = (True, st')" .
  have E1: "extracted H ed_open b st1 p" and same: "ex_validator st1 = ex_validator st" "ex_keys st1 = ex_keys st"
    "ex_require_signed st1 = ex_require_signed st" and ns: "\<not> ex_salvage st1"
    using assms(1) st1 by (auto simp: extracted_def)
  from judge_frame_new [OF j ns] obtain v status msg where
    v: "validate_restore_frame H (ex_validator st) f data = (v, status, msg)" "status \<noteq> Restore_fatal"
    and out: "if last_was_replay v then st' = st1\<lparr>ex_validator := v\<rparr>
      else output_frame (current_slice_seq_num (ex_validator st)) (st1\<lparr>ex_validator := v\<rparr>) data f = (True, st')"
    unfolding same .
  note E = E1 [unfolded extracted_def]
  have tr: "tracks_any (ex_validator st) (acc_headers p)" using E same by simp
  from restore_step [OF tr bs v] show ?thesis
  proof
    assume "last_was_replay v \<and> tracks_any v (acc_headers p)"
    then have "extracted H ed_open b st' (p @ [])" using out E by (auto simp: extracted_def)
    then show ?thesis by blast
  next
    assume new: "\<not> last_was_replay v \<and> fits (acc_headers p) (header f) \<and> size_ok f \<and>
     (hash_ok f \<or> channel_type (header f) = CH_METADATA) \<and> tracks_any v (acc_headers p @ [header f])"
    have of: "output_frame (current_slice_seq_num (ex_validator st)) (st1\<lparr>ex_validator := v\<rparr>) data f = (True, st')"
      using out new by simp
    have ae: "saw_archive_end v = archive_ended (acc_headers p @ [header f])"
      using new by (intro tracks_any_archive_end) simp
    have ne: "\<not> archive_ended (acc_headers p)" using new by (simp add: fits_def)
    have "authentic H ed_open (ex_keys st) (ex_require_signed st) (f, data)"
      using c new sg by (simp add: authentic_def)
    moreover have "archive_prefix [] (acc_headers p @ [header f])"
      using E new by (simp add: archive_prefix_append)
    ultimately have "extracted H ed_open b st' (p @ [(f, data)])"
      using output_frame_new [OF of] E new ae ne same
      by (auto simp: extracted_def)
    then show ?thesis by blast
  qed
qed

lemma handle_record_fails:
  assumes "extracted H ed_open b st p" and "handle_record H ed_open st data = (None, st')"
  shows "ex_fatal st' \<and> of_bytes (ex_output st') = of_bytes (ex_output st)"
proof -
  have e: "\<not> ex_salvage st" "unlimited (ex_output st)" using assms(1) by (simp_all add: extracted_def)
  have j: "of_bytes (ex_output t') = of_bytes (ex_output t)"
    if "judge_frame H t data f = (False, t')" "\<not> ex_salvage t" "unlimited (ex_output t)" for t t' f
  proof -
    obtain v status msg where v: "validate_restore_frame H (ex_validator t) f data = (v, status, msg)"
      by (metis prod_cases3)
    with that show ?thesis
      using output_frame_new [of "current_slice_seq_num (ex_validator t)" "t\<lparr>ex_validator := v\<rparr>" data f False t']
      by (auto simp: judge_frame_def Let_def split: if_splits)
  qed
  have "of_bytes (ex_output t') = of_bytes (ex_output st)" if "process_frame H ed_open st data f = (False, t')" for f t'
    using that j [of "st\<lparr>ex_warned := True\<rparr>" f t'] j [of st f t'] e
    by (auto simp: process_frame_def Let_def split: if_split_asm)
  then show ?thesis using assms(2)
    by (auto simp: handle_record_def split: sum.splits prod.splits bool.splits)
qed

definition accounted :: "(bytes \<Rightarrow> bytes) \<Rightarrow> ed_open \<Rightarrow> bytes \<Rightarrow> extractor \<Rightarrow> bool" where
  "accounted H ed_open b st \<longleftrightarrow> (\<exists>p. extracted H ed_open b st p) \<or>
     (ex_fatal st \<and> (\<exists>p. archive_prefix [] (acc_headers p) \<and>
        list_all (authentic H ed_open (ex_keys st) (ex_require_signed st)) p \<and>
        of_bytes (ex_output st) = b @ content_bytes p))"

lemma handle_record_config:
  "handle_record H ed_open st data = (r, st') \<Longrightarrow> \<not> ex_salvage st \<Longrightarrow> unlimited (ex_output st) \<Longrightarrow>
   ex_keys st' = ex_keys st \<and> ex_require_signed st' = ex_require_signed st"
proof -
  assume a: "handle_record H ed_open st data = (r, st')" "\<not> ex_salvage st" "unlimited (ex_output st)"
  have j: "ex_keys t' = ex_keys t \<and> ex_require_signed t' = ex_require_signed t"
    if "judge_frame H t data f = (ok, t')" "\<not> ex_salvage t" "unlimited (ex_output t)" for t t' f ok
  proof -
    obtain v status msg where v: "validate_restore_frame H (ex_validator t) f data = (v, status, msg)"
      by (metis prod_cases3)
    with that show ?thesis
      using output_frame_new [of "current_slice_seq_num (ex_validator t)" "t\<lparr>ex_validator := v\<rparr>" data f ok t']
      by (auto simp: judge_frame_def Let_def split: if_splits)
  qed
  have "ex_keys t' = ex_keys st \<and> ex_require_signed t' = ex_require_signed st"
    if "process_frame H ed_open st data f = (ok, t')" for f t' ok
    using that j [of "st\<lparr>ex_warned := True\<rparr>" f ok t'] j [of st f ok t'] a
    by (auto simp: process_frame_def Let_def split: if_split_asm)
  then show ?thesis using a(1)
    by (fastforce simp: handle_record_def split: sum.splits prod.splits bool.splits)
qed

lemma serve_frames_accounted:
  "extracted H ed_open b st p \<Longrightarrow> serve_frames H ed_open st c = (r, st', c') \<Longrightarrow>
   accounted H ed_open b st' \<and> (r \<longrightarrow> ex_saw_archive_end st') \<and>
   (\<not> ex_fatal st \<longrightarrow> \<not> ex_fatal st' \<longrightarrow> (\<exists>q. extracted H ed_open b st' q)) \<and>
   ex_keys st' = ex_keys st \<and> ex_require_signed st' = ex_require_signed st"
proof (induction H ed_open st c arbitrary: p rule: serve_frames.induct)
  case (1 H ed_open st c)
  have acc: "accounted H ed_open b st" using 1(2) by (auto simp: accounted_def)
  obtain w c1 where w: "conn_write c \<lparr>msg_type = Next_frame, msg_payload = []\<rparr> = (w, c1)" by force
  obtain m c2 where m: "conn_read c1 = (m, c2)" by force
  show ?case
  proof (cases "w \<and> (\<exists>resp. m = Inr (Some resp) \<and> msg_type resp = Frame_record)")
    case False
    then have "st' = st" "\<not> r" using 1(3) w m
      by (subst (asm) serve_frames.simps; auto split: bool.splits sum.splits option.splits message_type.splits)+
    then show ?thesis using acc 1(2) by blast
  next
    case True
    then obtain resp where resp: "w" "m = Inr (Some resp)" "msg_type resp = Frame_record" by blast
    obtain g st1 where h: "handle_record H ed_open st (msg_payload resp) = (g, st1)" by force
    have cfg: "ex_keys st1 = ex_keys st" "ex_require_signed st1 = ex_require_signed st"
      using handle_record_config [OF h] 1(2) by (auto simp: extracted_def)
    show ?thesis
    proof (cases g)
      case None
      then have "st' = st1" "\<not> r" using 1(3) w m resp h by (subst (asm) serve_frames.simps; auto)+
      moreover have "ex_fatal st1" "of_bytes (ex_output st1) = of_bytes (ex_output st)"
        using handle_record_fails [OF 1(2)] h None by auto
      ultimately show ?thesis using 1(2) cfg by (auto simp: accounted_def extracted_def)
    next
      case (Some n)
      from handle_record_step [OF 1(2)] h Some obtain q where q: "extracted H ed_open b st1 (p @ q)" by blast
      obtain w2 c3 where w2: "conn_write c2 (ack_message n) = (w2, c3)" by force
      show ?thesis
      proof (cases "w2 \<and> \<not> ex_saw_archive_end st1")
        case True
        then have "serve_frames H ed_open st1 c3 = (r, st', c')"
          using 1(3) w m resp h Some w2 by (subst (asm) serve_frames.simps) simp
        note rest = this
        have wt: "w = True" "w2 = True" "\<not> ex_saw_archive_end st1" using resp(1) True by simp_all
        from 1(1) [OF w [symmetric] wt(1) m [symmetric] resp(2) refl resp(3) h [symmetric] Some w2 [symmetric]
            wt(2,3) q rest]
        have "accounted H ed_open b st'" "r \<longrightarrow> ex_saw_archive_end st'"
          "\<not> ex_fatal st' \<longrightarrow> (\<exists>a. extracted H ed_open b st' a)"
          "ex_keys st' = ex_keys st" "ex_require_signed st' = ex_require_signed st"
          using cfg by (auto simp: accounted_def)
        then show ?thesis by blast
      next
        case False
        then have "st' = st1" "r \<longrightarrow> ex_saw_archive_end st1"
          using 1(3) w m resp h Some w2 by (subst (asm) serve_frames.simps; auto split: bool.splits)+
        then show ?thesis using q cfg by (auto simp: accounted_def)
      qed
    qed
  qed
qed

lemma serve_readers_accounted:
  "extracted H ed_open b st p \<Longrightarrow> \<not> ex_fatal st \<Longrightarrow> serve_readers H ed_open st conns = (res, st') \<Longrightarrow>
   ex_keys st' = ex_keys st \<and> ex_require_signed st' = ex_require_signed st \<and> accounted H ed_open b st' \<and>
   (\<forall>n. res = Extract_complete n \<longrightarrow> ex_saw_archive_end st' \<and> (\<exists>q. extracted H ed_open b st' q))"
proof (induction conns arbitrary: st p)
  case Nil
  then show ?case by (auto simp: accounted_def split: if_splits)
next
  case (Cons c cs)
  show ?case
  proof (cases "ex_saw_archive_end st")
    case True
    then have "res = Extract_complete (ex_processed st)" "st' = st" using Cons.prems(3) by auto
    then show ?thesis using Cons.prems(1) True by (auto simp: accounted_def)
  next
    case False
    obtain r st1 c1 where sc: "serve_client H ed_open st c = (r, st1, c1)" by (metis prod_cases3)
    have "extracted H ed_open b (st\<lparr>ex_validator := begin_connection (ex_validator st)\<rparr>) p"
      using Cons.prems(1) by (simp add: extracted_def)
    from serve_frames_accounted [OF this sc [unfolded serve_client_def]]
    have s: "accounted H ed_open b st1" "r \<longrightarrow> ex_saw_archive_end st1"
      "\<not> ex_fatal st1 \<longrightarrow> (\<exists>q. extracted H ed_open b st1 q)"
      "ex_keys st1 = ex_keys st" "ex_require_signed st1 = ex_require_signed st"
      using Cons.prems(2) by auto
    consider (fatal) "ex_fatal st1" | (complete) "\<not> ex_fatal st1" r | (again) "\<not> ex_fatal st1" "\<not> r" by blast
    then show ?thesis
    proof cases
      case fatal
      then show ?thesis using Cons.prems(3) False sc s by auto
    next
      case complete
      then show ?thesis using Cons.prems(3) False sc s by auto
    next
      case again
      then obtain q where q: "extracted H ed_open b st1 q" using s(3) by blast
      have "serve_readers H ed_open st1 cs = (res, st')" using Cons.prems(3) False sc again by simp
      from Cons.IH [OF q again(1) this] s(4,5) show ?thesis by simp
    qed
  qed
qed

section \<open>Properties\<close>

text \<open>C3. What a restoring extractor has written, at the end of any run over any
  connections (lost, resumed, replaying, corrupt or hostile), is exactly the payload of the
  content frames of a prefix of one archive: every frame passed the integrity check and the
  signature policy, replays are written once, and completion is reported only after the
  archive-end frame.\<close>
theorem extraction_sound:
  assumes "run_tcp_extractor H ed_open opts conns = (res, st)" and "\<not> xo_salvage opts"
    and "unlimited (xo_output opts)"
  shows "\<exists>p. archive_prefix [] (acc_headers p) \<and>
    list_all (authentic H ed_open (xo_keys opts) (xo_require_signed opts)) p \<and>
    of_bytes (ex_output st) = of_bytes (xo_output opts) @ content_bytes p \<and>
    (\<forall>n. res = Extract_complete n \<longrightarrow> archive_ended (acc_headers p))"
proof -
  let ?b = "of_bytes (xo_output opts)"
  have "extracted H ed_open ?b (initial_extractor opts) []" "\<not> ex_fatal (initial_extractor opts)"
    using assms(2,3) tracks_any_initial by (simp_all add: extracted_def initial_extractor_def)
  from serve_readers_accounted [OF this assms(1) [unfolded run_tcp_extractor_def]]
  have s: "ex_keys st = xo_keys opts" "ex_require_signed st = xo_require_signed opts" "accounted H ed_open ?b st"
    "\<forall>n. res = Extract_complete n \<longrightarrow> ex_saw_archive_end st \<and> (\<exists>q. extracted H ed_open ?b st q)"
    by (auto simp: initial_extractor_def)
  show ?thesis
  proof (cases "\<exists>n. res = Extract_complete n")
    case True
    then obtain q where "extracted H ed_open ?b st q" "ex_saw_archive_end st" using s(4) by blast
    then show ?thesis using s(1,2) by (intro exI [of _ q]) (simp add: extracted_def)
  next
    case False
    then show ?thesis using s(1-3) by (auto simp: accounted_def extracted_def)
  qed
qed

section \<open>Concrete instances\<close>

definition sample_extractor_options :: extractor_options where
  "sample_extractor_options = \<lparr>xo_require_signed = False, xo_keys = [], xo_salvage = False, xo_metadata = None,
     xo_output = \<lparr>of_bytes = [9], of_space = None, of_flush_ok = True\<rparr>\<rparr>"

theorem extraction_sound_witness:
  "\<exists>p. archive_prefix [] (acc_headers p) \<and>
    of_bytes (ex_output (snd (run_tcp_extractor zero_hash toy_open sample_extractor_options
      [\<lparr>cn_reads = [Inr (Some \<lparr>msg_type = Frame_record, msg_payload = sample_record\<rparr>)],
        cn_writes_left = 5, cn_sent = []\<rparr>]))) = [9] @ content_bytes p"
proof -
  obtain res st where r: "run_tcp_extractor zero_hash toy_open sample_extractor_options
      [\<lparr>cn_reads = [Inr (Some \<lparr>msg_type = Frame_record, msg_payload = sample_record\<rparr>)],
        cn_writes_left = 5, cn_sent = []\<rparr>] = (res, st)" by force
  have "\<not> xo_salvage sample_extractor_options" "unlimited (xo_output sample_extractor_options)"
    "of_bytes (xo_output sample_extractor_options) = [9]"
    by (simp_all add: sample_extractor_options_def unlimited_def)
  with extraction_sound [OF r this(1,2)] r show ?thesis by auto
qed

end
