(* ===== verification/Writer.thy ===== *)
theory Writer
  imports FrameBuilderSpec Protocol
begin

text \<open>
  src/neotape_writer.cpp: one writer connection.  The receiver requests frames,
  validates them and enqueues them; the output thread writes them to the record
  sink and acknowledges each written record.

  The two threads share the session under a mutex.  Each step below is one critical
  section, or one blocking call together with the local computation around it;
  the step relation interleaves the steps of the two threads.  A tape device is the
  scripted results of its calls and the log of what it has written.

  Reading a response blocks.  The peer may wait for acknowledgements before it sends one:
  for each response still to come the session holds how many it waits for.  A read whose
  response is not there is a step that cannot be taken, until the output thread shuts the
  reading side of the socket down.
\<close>

section \<open>Record sink\<close>

datatype mt_error = No_space | Device_error

datatype tape_item = Tape_record bytes | Tape_mark

text \<open>
  Scripts: the results of successive status queries (an error, or whether the tape is at
  its end; an exhausted script says no), of record writes and of filemark writes
  (an exhausted script succeeds).
\<close>

record tape_device =
  td_status :: "(mt_error + bool) list"
  td_write_results :: "mt_error option list"
  td_mark_results :: "mt_error option list"
  td_log :: "tape_item list"

definition device_status :: "tape_device \<Rightarrow> (mt_error + bool) \<times> tape_device" where
  "device_status d = (case td_status d of [] \<Rightarrow> (Inr False, d) | r # rs \<Rightarrow> (r, d\<lparr>td_status := rs\<rparr>))"

definition device_write :: "tape_device \<Rightarrow> bytes \<Rightarrow> mt_error option \<times> tape_device" where
  "device_write d rec = (case td_write_results d of
     [] \<Rightarrow> (None, d\<lparr>td_log := td_log d @ [Tape_record rec]\<rparr>)
   | Some e # rs \<Rightarrow> (Some e, d\<lparr>td_write_results := rs\<rparr>)
   | None # rs \<Rightarrow> (None, d\<lparr>td_write_results := rs, td_log := td_log d @ [Tape_record rec]\<rparr>))"

definition device_mark :: "tape_device \<Rightarrow> mt_error option \<times> tape_device" where
  "device_mark d = (case td_mark_results d of
     [] \<Rightarrow> (None, d\<lparr>td_log := td_log d @ [Tape_mark]\<rparr>)
   | Some e # rs \<Rightarrow> (Some e, d\<lparr>td_mark_results := rs\<rparr>)
   | None # rs \<Rightarrow> (None, d\<lparr>td_mark_results := rs, td_log := td_log d @ [Tape_mark]\<rparr>))"

record record_sink =
  rk_device :: "tape_device option"
  rk_capacity :: "u64 option"
  rk_used :: u64

definition new_record_sink :: "tape_device option \<Rightarrow> u64 option \<Rightarrow> u64 \<Rightarrow> mt_error + record_sink" where
  "new_record_sink device limit used =
    (if (case limit of None \<Rightarrow> False | Some c \<Rightarrow> used > c) then Inl No_space
     else Inr \<lparr>rk_device = device, rk_capacity = limit, rk_used = used\<rparr>)"

text \<open>\<open>RecordSink::write\<close>: the value is whether the tape is at its end after the write.\<close>

definition sink_write :: "record_sink \<Rightarrow> bytes \<Rightarrow> (mt_error + bool) \<times> record_sink" where
  "sink_write sk rec =
    (let size = word_of_nat (length rec) :: u64
     in if (case rk_capacity sk of None \<Rightarrow> False | Some c \<Rightarrow> size > c - rk_used sk) then (Inl No_space, sk)
        else case rk_device sk of
          None \<Rightarrow> (Inr False, sk\<lparr>rk_used := rk_used sk + size\<rparr>)
        | Some d \<Rightarrow>
            (case device_status d of
               (Inl e, d) \<Rightarrow> (Inl e, sk\<lparr>rk_device := Some d\<rparr>)
             | (Inr True, d) \<Rightarrow> (Inl No_space, sk\<lparr>rk_device := Some d\<rparr>)
             | (Inr False, d) \<Rightarrow>
                 (case device_write d rec of
                    (Some e, d) \<Rightarrow> (Inl e, sk\<lparr>rk_device := Some d\<rparr>)
                  | (None, d) \<Rightarrow>
                      (case device_status d of
                         (r, d) \<Rightarrow> (r, sk\<lparr>rk_device := Some d, rk_used := rk_used sk + size\<rparr>)))))"

definition sink_filemark :: "record_sink \<Rightarrow> mt_error option \<times> record_sink" where
  "sink_filemark sk = (case rk_device sk of
     None \<Rightarrow> (None, sk)
   | Some d \<Rightarrow> (case device_mark d of (r, d) \<Rightarrow> (r, sk\<lparr>rk_device := Some d\<rparr>)))"

section \<open>The session\<close>

record pending =
  pd_header :: frame_header
  pd_bytes :: bytes
  pd_filemark :: bool

datatype session_status = Running | Complete | Volume_full | Failed

datatype writer_error =
    Unexpected_disconnect | Connection_failed | Bad_frame format_error | Invalid_frame validate_error
  | Bad_signature frame_signature_error | Replay_in_connection | Source_error bytes
  | Unexpected_response | Media_error mt_error | No_archive_end | Empty_output_buffer

datatype receiver_pc =
    R_wait | R_request | R_response | R_received "protocol_error + message option"
  | R_enqueue pending | R_closed

datatype output_pc =
    O_wait | O_mark | O_write pending | O_ack pending bool | O_final_mark
  | O_end session_status "writer_error option" | O_shutdown | O_done

record session =
  ss_queue :: "pending list"
  ss_queued_bytes :: nat
  ss_input_closed :: bool
  ss_status :: session_status
  ss_error :: "writer_error option"
  ss_input_bytes :: nat
  ss_output_bytes :: nat
  ss_frames :: nat
  ss_last :: frame_header
  ss_conn :: connection
  ss_peer_needs :: "nat list"
  ss_read_shut :: bool
  ss_sink :: record_sink
  ss_validator :: frame_validator
  ss_seeded :: bool
  ss_receive_error :: "writer_error option"
  ss_rpc :: receiver_pc
  ss_opc :: output_pc

definition initial_session :: "nat list \<Rightarrow> connection \<Rightarrow> record_sink \<Rightarrow> session" where
  "initial_session needs c sk = \<lparr>ss_queue = [], ss_queued_bytes = 0, ss_input_closed = False,
     ss_status = Running, ss_error = None, ss_input_bytes = 0, ss_output_bytes = 0, ss_frames = 0,
     ss_last = default_header, ss_conn = c, ss_peer_needs = needs, ss_read_shut = False, ss_sink = sk, ss_validator = initial_validator,
     ss_seeded = False, ss_receive_error = None, ss_rpc = R_wait, ss_opc = O_wait\<rparr>"

section \<open>The receiver\<close>

text \<open>After the loop, \<open>input_closed\<close> is set.\<close>

definition close_input :: "writer_error option \<Rightarrow> session \<Rightarrow> session" where
  "close_input e s = s\<lparr>ss_receive_error := e, ss_input_closed := True, ss_rpc := R_closed\<rparr>"

text \<open>The validation of a frame record: the item to enqueue, with the validator's new state.\<close>

definition receive_frame ::
  "(bytes \<Rightarrow> bytes) \<Rightarrow> ed_open \<Rightarrow> public_key list \<Rightarrow> session \<Rightarrow> bytes \<Rightarrow> (writer_error + pending) \<times> session" where
  "receive_frame H ed_open keys s data =
    (case check_frame H data of
       Inl e \<Rightarrow> (Inl (Bad_frame e), s)
     | Inr frame \<Rightarrow>
        let h = header frame;
            v = (if \<not> ss_seeded s then seed_for_stream_start (ss_validator s) h else ss_validator s);
            s = s\<lparr>ss_seeded := True\<rparr>
        in case validate H v frame data False of
             (v, Some e) \<Rightarrow> (Inl (Invalid_frame e), s\<lparr>ss_validator := v\<rparr>)
           | (v, None) \<Rightarrow>
               let s = s\<lparr>ss_validator := v\<rparr>;
                   sv = validate_frame_signature ed_open h keys (keys \<noteq> [])
               in (case sig_error sv of
                     Some e \<Rightarrow> (Inl (Bad_signature e), s)
                   | None \<Rightarrow> if last_was_replay v then (Inl Replay_in_connection, s)
                             else (Inr \<lparr>pd_header = h, pd_bytes = data, pd_filemark = False\<rparr>, s)))"

definition receive_message ::
  "(bytes \<Rightarrow> bytes) \<Rightarrow> ed_open \<Rightarrow> public_key list \<Rightarrow> session \<Rightarrow> message \<Rightarrow> (writer_error + pending) \<times> session" where
  "receive_message H ed_open keys s m =
    (case msg_type m of
       Tape_eof \<Rightarrow> (Inr \<lparr>pd_header = default_header, pd_bytes = [], pd_filemark = True\<rparr>, s)
     | Frame_record \<Rightarrow> receive_frame H ed_open keys s (msg_payload m)
     | Error_msg \<Rightarrow> (Inl (Source_error (msg_payload m)), s)
     | _ \<Rightarrow> (Inl Unexpected_response, s))"

text \<open>Request and response.  A failed call is kept for the check that follows it.\<close>

definition receive_request :: "session \<Rightarrow> session" where
  "receive_request s =
    (case conn_write (ss_conn s) \<lparr>msg_type = Next_frame, msg_payload = []\<rparr> of
       (False, c) \<Rightarrow> s\<lparr>ss_conn := c, ss_rpc := R_received (Inl WriteFailed)\<rparr>
     | (True, c) \<Rightarrow> s\<lparr>ss_conn := c, ss_rpc := R_response\<rparr>)"

text \<open>The acknowledgements that have gone out, and whether the peer has all it waits for before its next response.\<close>

definition acks_sent :: "session \<Rightarrow> message list" where
  "acks_sent s = filter (\<lambda>m. msg_type m = Ack_frame) (cn_sent (ss_conn s))"

definition peer_ready :: "session \<Rightarrow> bool" where
  "peer_ready s = (case ss_peer_needs s of [] \<Rightarrow> True | n # _ \<Rightarrow> n \<le> length (acks_sent s))"

text \<open>\<open>None\<close>: the read blocks.  Behind a shutdown it finds the end of the stream.\<close>

definition receive_response :: "session \<Rightarrow> session option" where
  "receive_response s =
    (if peer_ready s then
       (case conn_read (ss_conn s) of
          (r, c) \<Rightarrow> Some (s\<lparr>ss_conn := c, ss_peer_needs := tl (ss_peer_needs s), ss_rpc := R_received r\<rparr>))
     else if ss_read_shut s then Some (s\<lparr>ss_rpc := R_received (Inr None)\<rparr>)
     else None)"

text \<open>Once the output thread has ended, whatever happened ends the loop.\<close>

definition receive_checked ::
  "(bytes \<Rightarrow> bytes) \<Rightarrow> ed_open \<Rightarrow> public_key list \<Rightarrow> protocol_error + message option \<Rightarrow> session \<Rightarrow> session" where
  "receive_checked H ed_open keys r s =
    (if ss_status s \<noteq> Running then close_input None s
     else case r of
       Inl e \<Rightarrow> close_input (Some Connection_failed) s
     | Inr None \<Rightarrow> close_input (Some Unexpected_disconnect) s
     | Inr (Some msg) \<Rightarrow>
         (case receive_message H ed_open keys s msg of
            (Inl e, s) \<Rightarrow> close_input (Some e) s
          | (Inr item, s) \<Rightarrow> s\<lparr>ss_rpc := R_enqueue item\<rparr>))"

definition receive_enqueue :: "pending \<Rightarrow> session \<Rightarrow> session" where
  "receive_enqueue item s =
    (if ss_status s \<noteq> Running then close_input None s
     else let s = s\<lparr>ss_input_bytes := ss_input_bytes s + length (pd_bytes item),
                    ss_queued_bytes := ss_queued_bytes s + length (pd_bytes item),
                    ss_queue := ss_queue s @ [item]\<rparr>
          in if \<not> pd_filemark item \<and> channel_type (pd_header item) = ARCHIVE_END
             then close_input None s else s\<lparr>ss_rpc := R_wait\<rparr>)"

text \<open>\<open>None\<close>: the receiver waits for room or for the peer, or has ended.\<close>

definition receiver_step ::
  "(bytes \<Rightarrow> bytes) \<Rightarrow> ed_open \<Rightarrow> public_key list \<Rightarrow> nat \<Rightarrow> session \<Rightarrow> session option" where
  "receiver_step H ed_open keys limit s =
    (case ss_rpc s of
       R_wait \<Rightarrow> if ss_status s \<noteq> Running then Some (close_input None s)
                 else if ss_queued_bytes s < limit then Some (s\<lparr>ss_rpc := R_request\<rparr>)
                 else None
     | R_request \<Rightarrow> Some (receive_request s)
     | R_response \<Rightarrow> receive_response s
     | R_received r \<Rightarrow> Some (receive_checked H ed_open keys r s)
     | R_enqueue item \<Rightarrow> Some (receive_enqueue item s)
     | R_closed \<Rightarrow> None)"

section \<open>The output thread\<close>

text \<open>The loop ends with a result; the next critical section publishes it, and the call behind it wakes a blocked read.\<close>

definition finish_output :: "session_status \<Rightarrow> writer_error option \<Rightarrow> session \<Rightarrow> session" where
  "finish_output status e s = s\<lparr>ss_opc := O_end status e\<rparr>"

definition publish_result :: "session_status \<Rightarrow> writer_error option \<Rightarrow> session \<Rightarrow> session" where
  "publish_result status e s = s\<lparr>ss_status := status, ss_error := e, ss_opc := O_shutdown\<rparr>"

definition shutdown_read :: "session \<Rightarrow> session" where
  "shutdown_read s = s\<lparr>ss_read_shut := True, ss_opc := O_done\<rparr>"

text \<open>The handler of \<open>mt::Error\<close>: running out of space ends the volume, unless the archive end
  has been written.\<close>

definition output_fails :: "mt_error \<Rightarrow> session \<Rightarrow> session" where
  "output_fails e s =
    (if e = No_space \<and> channel_type (ss_last s) \<noteq> ARCHIVE_END then finish_output Volume_full None s
     else finish_output Failed (Some (Media_error e)) s)"

definition output_pop :: "session \<Rightarrow> session option" where
  "output_pop s =
    (case ss_queue s of
       [] \<Rightarrow> if ss_input_closed s then Some (finish_output Failed None s) else None
     | item # rest \<Rightarrow>
         Some (s\<lparr>ss_queue := rest, ss_queued_bytes := ss_queued_bytes s - length (pd_bytes item),
                 ss_opc := (if pd_filemark item then O_mark else O_write item)\<rparr>))"

definition output_mark :: "session \<Rightarrow> session" where
  "output_mark s = (case sink_filemark (ss_sink s) of
     (None, sk) \<Rightarrow> s\<lparr>ss_sink := sk, ss_opc := O_wait\<rparr>
   | (Some e, sk) \<Rightarrow> output_fails e (s\<lparr>ss_sink := sk\<rparr>))"

definition output_write :: "pending \<Rightarrow> session \<Rightarrow> session" where
  "output_write item s = (case sink_write (ss_sink s) (pd_bytes item) of
     (Inl e, sk) \<Rightarrow> output_fails e (s\<lparr>ss_sink := sk\<rparr>)
   | (Inr at_end, sk) \<Rightarrow>
       s\<lparr>ss_sink := sk, ss_output_bytes := ss_output_bytes s + length (pd_bytes item),
         ss_frames := ss_frames s + 1, ss_last := pd_header item, ss_opc := O_ack item at_end\<rparr>)"

definition output_ack :: "pending \<Rightarrow> bool \<Rightarrow> session \<Rightarrow> session" where
  "output_ack item at_end s =
    (case conn_write (ss_conn s) \<lparr>msg_type = Ack_frame,
              msg_payload = uint64_to_le_bytes (global_frame_seq_num (pd_header item))\<rparr> of
       (False, c) \<Rightarrow> finish_output Failed (Some Connection_failed) (s\<lparr>ss_conn := c\<rparr>)
     | (True, c) \<Rightarrow>
         let s = s\<lparr>ss_conn := c\<rparr>
         in if channel_type (pd_header item) = ARCHIVE_END then s\<lparr>ss_opc := O_final_mark\<rparr>
            else if at_end then finish_output Volume_full None s
            else s\<lparr>ss_opc := O_wait\<rparr>)"

definition output_final_mark :: "session \<Rightarrow> session" where
  "output_final_mark s = (case sink_filemark (ss_sink s) of
     (None, sk) \<Rightarrow> finish_output Complete None (s\<lparr>ss_sink := sk\<rparr>)
   | (Some e, sk) \<Rightarrow> output_fails e (s\<lparr>ss_sink := sk\<rparr>))"

definition output_step :: "session \<Rightarrow> session option" where
  "output_step s =
    (case ss_opc s of
       O_wait \<Rightarrow> output_pop s
     | O_mark \<Rightarrow> Some (output_mark s)
     | O_write item \<Rightarrow> Some (output_write item s)
     | O_ack item at_end \<Rightarrow> Some (output_ack item at_end s)
     | O_final_mark \<Rightarrow> Some (output_final_mark s)
     | O_end status e \<Rightarrow> Some (publish_result status e s)
     | O_shutdown \<Rightarrow> Some (shutdown_read s)
     | O_done \<Rightarrow> None)"

section \<open>Interleaving and result\<close>

inductive writer_step ::
  "(bytes \<Rightarrow> bytes) \<Rightarrow> ed_open \<Rightarrow> public_key list \<Rightarrow> nat \<Rightarrow> session \<Rightarrow> session \<Rightarrow> bool"
  for H ed_open keys limit where
  by_receiver: "receiver_step H ed_open keys limit s = Some s' \<Longrightarrow> writer_step H ed_open keys limit s s'"
| by_output: "output_step s = Some s' \<Longrightarrow> writer_step H ed_open keys limit s s'"

inductive_cases writer_stepE: "writer_step H ed_open keys limit s s'"

inductive writer_reaches ::
  "(bytes \<Rightarrow> bytes) \<Rightarrow> ed_open \<Rightarrow> public_key list \<Rightarrow> nat \<Rightarrow> session \<Rightarrow> session \<Rightarrow> bool"
  for H ed_open keys limit s0 where
  reaches_start: "writer_reaches H ed_open keys limit s0 s0"
| reaches_step: "writer_reaches H ed_open keys limit s0 s \<Longrightarrow> writer_step H ed_open keys limit s s' \<Longrightarrow>
    writer_reaches H ed_open keys limit s0 s'"

record write_result_record =
  wr_complete :: bool
  wr_frames :: nat
  wr_final_global_seq :: u64

text \<open>What \<open>write_volume\<close> returns or throws once both threads have ended.\<close>

definition write_volume_result :: "session \<Rightarrow> writer_error + write_result_record" where
  "write_volume_result s =
    (case ss_error s of Some e \<Rightarrow> Inl e
     | None \<Rightarrow> (case ss_receive_error s of Some e \<Rightarrow> Inl e
       | None \<Rightarrow>
           if ss_status s = Volume_full then
             Inr \<lparr>wr_complete = False, wr_frames = ss_frames s, wr_final_global_seq = global_frame_seq_num (ss_last s)\<rparr>
           else if ss_status s \<noteq> Complete then Inl No_archive_end
           else Inr \<lparr>wr_complete = True, wr_frames = ss_frames s, wr_final_global_seq = global_frame_seq_num (ss_last s)\<rparr>))"

end
