(* ===== verification/WriterSpec.thy ===== *)
theory WriterSpec
  imports Writer
begin

text \<open>
  What a writer session does to its tape and tells its source, over every interleaving of
  the two threads: the history invariant behind the safety properties, the accounting of the
  queue, and progress and termination.
\<close>

section \<open>Histories\<close>

definition is_frame :: "pending \<Rightarrow> bool" where
  "is_frame p \<longleftrightarrow> \<not> pd_filemark p"

definition frames_of :: "pending list \<Rightarrow> pending list" where
  "frames_of ps = filter is_frame ps"

definition tape_entry :: "pending \<Rightarrow> tape_item" where
  "tape_entry p = (if pd_filemark p then Tape_mark else Tape_record (pd_bytes p))"

definition ack_of :: "pending \<Rightarrow> message" where
  "ack_of p = \<lparr>msg_type = Ack_frame, msg_payload = uint64_to_le_bytes (global_frame_seq_num (pd_header p))\<rparr>"

definition tape_log :: "session \<Rightarrow> tape_item list" where
  "tape_log s = (case rk_device (ss_sink s) of None \<Rightarrow> [] | Some d \<Rightarrow> td_log d)"

definition has_device :: "session \<Rightarrow> bool" where
  "has_device s \<longleftrightarrow> rk_device (ss_sink s) \<noteq> None"

text \<open>A frame that passed every check of the receiver.\<close>

definition checked_item :: "(bytes \<Rightarrow> bytes) \<Rightarrow> ed_open \<Rightarrow> public_key list \<Rightarrow> pending \<Rightarrow> bool" where
  "checked_item H ed_open keys p \<longleftrightarrow>
     check_frame H (pd_bytes p) = Inr \<lparr>header = pd_header p, size_ok = True, hash_ok = True\<rparr> \<and>
     sig_error (validate_frame_signature ed_open (pd_header p) keys (keys \<noteq> [])) = None"

text \<open>Numbered without gap or repetition, and nothing after an archive end.\<close>

fun consecutive :: "pending list \<Rightarrow> bool" where
  "consecutive [] = True"
| "consecutive [p] = True"
| "consecutive (p # q # ps) \<longleftrightarrow> global_frame_seq_num (pd_header q) = global_frame_seq_num (pd_header p) + 1 \<and>
     channel_type (pd_header p) \<noteq> ARCHIVE_END \<and> consecutive (q # ps)"

definition incoming :: "session \<Rightarrow> pending list" where
  "incoming s = (case ss_rpc s of R_enqueue p \<Rightarrow> [p] | _ \<Rightarrow> [])"

definition stream_ok :: "(bytes \<Rightarrow> bytes) \<Rightarrow> ed_open \<Rightarrow> public_key list \<Rightarrow> pending list \<Rightarrow> bool" where
  "stream_ok H ed_open keys ps \<longleftrightarrow> consecutive (frames_of ps) \<and> list_all (checked_item H ed_open keys) (frames_of ps)"

text \<open>While it is receiving, the validator expects the number after the last frame received.\<close>

definition validator_follows :: "session \<Rightarrow> pending list \<Rightarrow> bool" where
  "validator_follows s ps \<longleftrightarrow> (ss_rpc s \<noteq> R_closed \<longrightarrow>
     (ss_seeded s \<longleftrightarrow> frames_of ps \<noteq> []) \<and>
     (frames_of ps \<noteq> [] \<longrightarrow>
        expected_global_frame_seq (ss_validator s) = global_frame_seq_num (pd_header (last (frames_of ps))) + 1 \<and>
        saw_archive_end (ss_validator s) = (channel_type (pd_header (last (frames_of ps))) = ARCHIVE_END)))"

definition counted :: "session \<Rightarrow> pending list \<Rightarrow> bool" where
  "counted s ws \<longleftrightarrow> ss_frames s = length (frames_of ws) \<and>
     (frames_of ws \<noteq> [] \<longrightarrow> ss_last s = pd_header (last (frames_of ws)))"

definition ends_archive :: "pending list \<Rightarrow> bool" where
  "ends_archive ps \<longleftrightarrow> ps \<noteq> [] \<and> is_frame (last ps) \<and> channel_type (pd_header (last ps)) = ARCHIVE_END"

text \<open>A published or decided result.\<close>

definition result_ok :: "session_status \<Rightarrow> session \<Rightarrow> pending list \<Rightarrow> pending list \<Rightarrow> tape_item list \<Rightarrow> bool" where
  "result_ok status s ws dropped marks \<longleftrightarrow> status \<noteq> Running \<and> length dropped \<le> 1 \<and>
     (acks_sent s = map ack_of (frames_of ws) \<or>
      ws \<noteq> [] \<and> is_frame (last ws) \<and> acks_sent s = map ack_of (frames_of (butlast ws))) \<and>
     (if status = Complete then marks = [Tape_mark] \<and> acks_sent s = map ack_of (frames_of ws) \<and>
        ends_archive ws \<and> counted s ws
      else marks = [])"

definition output_ok :: "session \<Rightarrow> pending list \<Rightarrow> pending list \<Rightarrow> tape_item list \<Rightarrow> bool" where
  "output_ok s ws dropped marks \<longleftrightarrow>
     (case ss_opc s of
        O_end status e \<Rightarrow> ss_status s = Running \<and> result_ok status s ws dropped marks
      | O_shutdown \<Rightarrow> result_ok (ss_status s) s ws dropped marks
      | O_done \<Rightarrow> result_ok (ss_status s) s ws dropped marks
      | O_ack item at_end \<Rightarrow> ss_status s = Running \<and> marks = [] \<and> dropped = [] \<and> counted s ws \<and>
          ws \<noteq> [] \<and> last ws = item \<and> is_frame item \<and> acks_sent s = map ack_of (frames_of (butlast ws))
      | pc \<Rightarrow> ss_status s = Running \<and> marks = [] \<and> counted s ws \<and> acks_sent s = map ack_of (frames_of ws) \<and>
          (case pc of O_mark \<Rightarrow> (\<exists>m. dropped = [m] \<and> pd_filemark m)
           | O_write item \<Rightarrow> dropped = [item] \<and> is_frame item
           | O_final_mark \<Rightarrow> dropped = [] \<and> ends_archive ws
           | _ \<Rightarrow> dropped = []))"

definition history_ok ::
  "(bytes \<Rightarrow> bytes) \<Rightarrow> ed_open \<Rightarrow> public_key list \<Rightarrow> tape_item list \<Rightarrow> session \<Rightarrow>
   pending list \<Rightarrow> pending list \<Rightarrow> tape_item list \<Rightarrow> bool" where
  "history_ok H ed_open keys l0 s ws dropped marks \<longleftrightarrow>
     has_device s \<and> tape_log s = l0 @ map tape_entry ws @ marks \<and>
     stream_ok H ed_open keys (ws @ dropped @ ss_queue s @ incoming s) \<and>
     validator_follows s (ws @ dropped @ ss_queue s @ incoming s) \<and>
     output_ok s ws dropped marks"

section \<open>Lemmas on histories\<close>

lemma frames_of_simps [simp]:
  "frames_of [] = []"
  "frames_of (p # ps) = (if is_frame p then p # frames_of ps else frames_of ps)"
  "frames_of (ps @ qs) = frames_of ps @ frames_of qs"
  by (simp_all add: frames_of_def)

lemma consecutive_snoc:
  "consecutive (ps @ [q]) \<longleftrightarrow> consecutive ps \<and>
     (ps \<noteq> [] \<longrightarrow> global_frame_seq_num (pd_header q) = global_frame_seq_num (pd_header (last ps)) + 1 \<and>
        channel_type (pd_header (last ps)) \<noteq> ARCHIVE_END)"
  by (induction ps rule: consecutive.induct) auto

lemma consecutive_append1: "consecutive (ps @ qs) \<Longrightarrow> consecutive ps"
proof (induction qs arbitrary: ps)
  case (Cons q qs)
  from Cons.IH [of "ps @ [q]"] Cons.prems show ?case by (simp add: consecutive_snoc)
qed simp

lemma conn_write_sent:
  "conn_write c m = (b, c') \<Longrightarrow> cn_sent c' = (if b then cn_sent c @ [m] else cn_sent c)"
  by (auto simp: conn_write_def split: if_splits)

lemma conn_read_sent: "conn_read c = (r, c') \<Longrightarrow> cn_sent c' = cn_sent c"
  by (auto simp: conn_read_def split: list.splits)

lemma device_status_log: "device_status d = (r, d') \<Longrightarrow> td_log d' = td_log d"
  by (auto simp: device_status_def split: list.splits)

lemma device_write_log:
  "device_write d rec = (r, d') \<Longrightarrow> td_log d' = (if r = None then td_log d @ [Tape_record rec] else td_log d)"
  by (auto simp: device_write_def split: list.splits option.splits)

lemma device_mark_log:
  "device_mark d = (r, d') \<Longrightarrow> td_log d' = (if r = None then td_log d @ [Tape_mark] else td_log d)"
  by (auto simp: device_mark_def split: list.splits option.splits)

text \<open>A reported write is on the tape; a failed one may be.\<close>

lemma sink_write_log:
  assumes "sink_write sk rec = (r, sk')" and "rk_device sk = Some d"
  obtains d' where "rk_device sk' = Some d'"
    and "td_log d' = td_log d @ [Tape_record rec] \<or> (\<exists>e. r = Inl e) \<and> td_log d' = td_log d"
proof -
  from assms show ?thesis
    by (auto simp: sink_write_def Let_def dest!: device_status_log device_write_log intro: that
        split: if_splits prod.splits sum.splits bool.splits option.splits)
qed

lemma sink_filemark_log:
  assumes "sink_filemark sk = (r, sk')" and "rk_device sk = Some d"
  obtains d' where "rk_device sk' = Some d'"
    and "td_log d' = (if r = None then td_log d @ [Tape_mark] else td_log d)"
  using assms by (auto simp: sink_filemark_def dest: device_mark_log split: prod.splits)

section \<open>The receiver\<close>

lemma validate_new_numbers:
  assumes "validate_new v f False = (v', None)"
  shows "size_ok f" and "hash_ok f" and "\<not> saw_archive_end v"
    and "global_frame_seq_num (header f) = expected_global_frame_seq v"
    and "expected_global_frame_seq v' = global_frame_seq_num (header f) + 1"
    and "saw_archive_end v' = (channel_type (header f) = ARCHIVE_END)"
  using assms
  by (auto simp: validate_new_def validate_identity_def validate_sequence_def validate_slice_def
      validate_channel_def Let_def split: if_splits option.splits)

lemma validate_numbers:
  assumes "validate H v f data False = (v', None)" and "\<not> last_was_replay v'"
  shows "size_ok f" and "hash_ok f" and "\<not> saw_archive_end v"
    and "global_frame_seq_num (header f) = expected_global_frame_seq v"
    and "expected_global_frame_seq v' = global_frame_seq_num (header f) + 1"
    and "saw_archive_end v' = (channel_type (header f) = ARCHIVE_END)"
proof -
  let ?w = "v\<lparr>last_was_replay := False\<rparr>"
  have "check_replay H ?w f data = (?w, None)" "validate_new ?w f False = (v', None)"
    using assms by (auto simp: validate_def check_replay_def Let_def split: if_splits option.splits sum.splits)
  from validate_new_numbers [OF this(2)] show "size_ok f" "hash_ok f" "\<not> saw_archive_end v"
    "global_frame_seq_num (header f) = expected_global_frame_seq v"
    "expected_global_frame_seq v' = global_frame_seq_num (header f) + 1"
    "saw_archive_end v' = (channel_type (header f) = ARCHIVE_END)"
    by simp_all
qed

lemma checked_frame_eq: "size_ok f \<Longrightarrow> hash_ok f \<Longrightarrow> f = \<lparr>header = header f, size_ok = True, hash_ok = True\<rparr>"
  by (cases f) simp

text \<open>Only the validator moves while a message is judged.\<close>

definition same_but_validator :: "session \<Rightarrow> session \<Rightarrow> bool" where
  "same_but_validator s s' \<longleftrightarrow> (\<exists>v b. s' = s\<lparr>ss_validator := v, ss_seeded := b\<rparr>)"

lemma same_but_validatorI [intro]:
  "same_but_validator s s"
  "same_but_validator s (s\<lparr>ss_validator := v\<rparr>)"
  "same_but_validator s (s\<lparr>ss_seeded := b\<rparr>)"
  "same_but_validator s (s\<lparr>ss_seeded := b, ss_validator := v\<rparr>)"
proof -
  have "s = s\<lparr>ss_validator := ss_validator s, ss_seeded := ss_seeded s\<rparr>"
    "s\<lparr>ss_validator := v\<rparr> = s\<lparr>ss_validator := v, ss_seeded := ss_seeded s\<rparr>"
    "s\<lparr>ss_seeded := b\<rparr> = s\<lparr>ss_validator := ss_validator s, ss_seeded := b\<rparr>"
    "s\<lparr>ss_seeded := b, ss_validator := v\<rparr> = s\<lparr>ss_validator := v, ss_seeded := b\<rparr>"
    by simp_all
  then show "same_but_validator s s" "same_but_validator s (s\<lparr>ss_validator := v\<rparr>)"
    "same_but_validator s (s\<lparr>ss_seeded := b\<rparr>)" "same_but_validator s (s\<lparr>ss_seeded := b, ss_validator := v\<rparr>)"
    unfolding same_but_validator_def by blast+
qed

lemma receive_frame_same: "receive_frame H ed_open keys s data = (r, s') \<Longrightarrow> same_but_validator s s'"
  by (auto simp: receive_frame_def Let_def split: sum.splits prod.splits option.splits if_splits)

lemma receive_message_same: "receive_message H ed_open keys s m = (r, s') \<Longrightarrow> same_but_validator s s'"
  by (auto simp: receive_message_def dest: receive_frame_same split: message_type.splits)

lemma seed_numbers [simp]:
  "expected_global_frame_seq (seed_for_stream_start v h) = global_frame_seq_num h"
  "\<not> saw_archive_end (seed_for_stream_start v h)"
  by (simp_all add: seed_for_stream_start_def reset_def)

lemma receive_frame_ok:
  assumes "receive_frame H ed_open keys s data = (Inr p, s')"
  defines "v \<equiv> (if ss_seeded s then ss_validator s else seed_for_stream_start (ss_validator s) (pd_header p))"
  shows "is_frame p" and "checked_item H ed_open keys p" and "ss_seeded s'" and "\<not> saw_archive_end v"
    and "global_frame_seq_num (pd_header p) = expected_global_frame_seq v"
    and "expected_global_frame_seq (ss_validator s') = global_frame_seq_num (pd_header p) + 1"
    and "saw_archive_end (ss_validator s') = (channel_type (pd_header p) = ARCHIVE_END)"
proof -
  from assms(1) obtain f v' where f: "check_frame H data = Inr f" "p = \<lparr>pd_header = header f, pd_bytes = data, pd_filemark = False\<rparr>"
    and v': "validate H (if \<not> ss_seeded s then seed_for_stream_start (ss_validator s) (header f) else ss_validator s) f data False = (v', None)"
      "\<not> last_was_replay v'" "sig_error (validate_frame_signature ed_open (header f) keys (keys \<noteq> [])) = None"
    and s': "s' = s\<lparr>ss_seeded := True, ss_validator := v'\<rparr>"
    by (auto simp: receive_frame_def Let_def split: sum.splits prod.splits option.splits if_splits)
  have vv: "v = (if \<not> ss_seeded s then seed_for_stream_start (ss_validator s) (header f) else ss_validator s)"
    by (simp add: v_def f(2))
  note n = validate_numbers [OF v'(1,2), folded vv]
  from n checked_frame_eq [OF n(1,2)] f v'(3) s'
  show "is_frame p" "checked_item H ed_open keys p" "ss_seeded s'" "\<not> saw_archive_end v"
    "global_frame_seq_num (pd_header p) = expected_global_frame_seq v"
    "expected_global_frame_seq (ss_validator s') = global_frame_seq_num (pd_header p) + 1"
    "saw_archive_end (ss_validator s') = (channel_type (pd_header p) = ARCHIVE_END)"
    by (simp_all add: is_frame_def checked_item_def)
qed

lemma receive_message_ok:
  assumes "receive_message H ed_open keys s m = (Inr p, s')"
  shows "(pd_filemark p \<and> s' = s) \<or> (\<exists>data. receive_frame H ed_open keys s data = (Inr p, s'))"
  using assms by (auto simp: receive_message_def split: message_type.splits)

text \<open>A message that is accepted extends the stream.\<close>

lemma receive_message_stream:
  assumes "receive_message H ed_open keys s m = (Inr p, s')" and "ss_rpc s \<noteq> R_closed"
    and "stream_ok H ed_open keys ps" and "validator_follows s ps"
  shows "stream_ok H ed_open keys (ps @ [p]) \<and> validator_follows (s'\<lparr>ss_rpc := pc\<rparr>) (ps @ [p])"
  using receive_message_ok [OF assms(1)]
proof (elim disjE exE conjE)
  assume "pd_filemark p" "s' = s"
  then show ?thesis using assms(2-4) by (simp add: stream_ok_def validator_follows_def is_frame_def)
next
  fix data assume r: "receive_frame H ed_open keys s data = (Inr p, s')"
  note p = receive_frame_ok [OF r]
  have "frames_of ps \<noteq> [] \<Longrightarrow> global_frame_seq_num (pd_header p) = global_frame_seq_num (pd_header (last (frames_of ps))) + 1 \<and>
      channel_type (pd_header (last (frames_of ps))) \<noteq> ARCHIVE_END"
    using p(4,5) assms(2,4) by (simp add: validator_follows_def)
  then show ?thesis using p assms(2-4)
    by (simp add: stream_ok_def validator_follows_def consecutive_snoc)
qed

text \<open>What the receiver leaves alone.\<close>

definition output_part :: "session \<Rightarrow> session_status \<times> output_pc \<times> nat \<times> frame_header \<times> record_sink \<times> message list" where
  "output_part s = (ss_status s, ss_opc s, ss_frames s, ss_last s, ss_sink s, acks_sent s)"

lemma output_ok_part: "output_part s' = output_part s \<Longrightarrow> output_ok s' ws dropped marks = output_ok s ws dropped marks"
  by (simp add: output_part_def output_ok_def result_ok_def counted_def split: output_pc.split)

lemma history_ok_part:
  assumes "history_ok H ed_open keys l0 s ws dropped marks" and "output_part s' = output_part s"
    and "stream_ok H ed_open keys (ws @ dropped @ ss_queue s' @ incoming s')"
    and "validator_follows s' (ws @ dropped @ ss_queue s' @ incoming s')"
  shows "history_ok H ed_open keys l0 s' ws dropped marks"
  using assms output_ok_part [OF assms(2)]
  by (simp add: history_ok_def output_part_def has_device_def tape_log_def)

lemma stream_ok_append1: "stream_ok H ed_open keys (ps @ qs) \<Longrightarrow> stream_ok H ed_open keys ps"
  by (auto simp: stream_ok_def dest: consecutive_append1)

lemma validator_follows_closed [simp]: "ss_rpc s = R_closed \<Longrightarrow> validator_follows s ps"
  by (simp add: validator_follows_def)

lemma validator_follows_cong:
  "ss_rpc s \<noteq> R_closed \<Longrightarrow> ss_validator s' = ss_validator s \<Longrightarrow> ss_seeded s' = ss_seeded s \<Longrightarrow>
   validator_follows s ps \<Longrightarrow> validator_follows s' ps"
  by (simp add: validator_follows_def)

lemma acks_request:
  "conn_write (ss_conn s) \<lparr>msg_type = Next_frame, msg_payload = []\<rparr> = (b, c) \<Longrightarrow>
   acks_sent (s\<lparr>ss_conn := c, ss_rpc := pc\<rparr>) = acks_sent s"
  by (auto simp: acks_sent_def dest: conn_write_sent split: if_splits)

lemma output_part_close [simp]: "output_part (close_input e s) = output_part s"
  by (simp add: output_part_def close_input_def acks_sent_def)

lemma output_part_same: "same_but_validator s s' \<Longrightarrow> output_part s' = output_part s"
  by (auto simp: same_but_validator_def output_part_def acks_sent_def)

lemma close_input_simps [simp]:
  "ss_rpc (close_input e s) = R_closed" "ss_queue (close_input e s) = ss_queue s"
  "incoming (close_input e s) = []"
  by (simp_all add: close_input_def incoming_def)

lemma close_input_history:
  assumes "history_ok H ed_open keys l0 s ws dropped marks" and "output_part s' = output_part s"
    and "ss_queue s' = ss_queue s"
  shows "history_ok H ed_open keys l0 (close_input e s') ws dropped marks"
proof -
  have "stream_ok H ed_open keys ((ws @ dropped @ ss_queue s) @ incoming s)" using assms(1) by (simp add: history_ok_def)
  from stream_ok_append1 [OF this] show ?thesis using assms by (intro history_ok_part [OF assms(1)]) simp_all
qed

lemma receive_request_history:
  assumes "history_ok H ed_open keys l0 s ws dropped marks" and "ss_rpc s = R_request"
  shows "history_ok H ed_open keys l0 (receive_request s) ws dropped marks"
proof -
  obtain b c where c: "conn_write (ss_conn s) \<lparr>msg_type = Next_frame, msg_payload = []\<rparr> = (b, c)" by fastforce
  then obtain pc where s': "receive_request s = s\<lparr>ss_conn := c, ss_rpc := pc\<rparr>" and pc: "pc \<noteq> R_closed" "\<And>p. pc \<noteq> R_enqueue p"
    by (cases b) (auto simp: receive_request_def)
  have i: "incoming (receive_request s) = incoming s" using assms(2) pc(2) by (auto simp: s' incoming_def split: receiver_pc.split)
  have "output_part (receive_request s) = output_part s"
    using acks_request [OF c] by (simp add: s' output_part_def)
  from history_ok_part [OF assms(1) this] assms i validator_follows_cong [of s "receive_request s"]
  show ?thesis by (simp add: history_ok_def s' i)
qed

text \<open>A read that returns: a response of a peer that is ready, or the end behind a shutdown.\<close>

lemma receive_response_cases:
  assumes "receive_response s = Some s'"
  obtains r c where "peer_ready s" and "conn_read (ss_conn s) = (r, c)"
      and "s' = s\<lparr>ss_conn := c, ss_peer_needs := tl (ss_peer_needs s), ss_rpc := R_received r\<rparr>"
    | "\<not> peer_ready s" and "ss_read_shut s" and "s' = s\<lparr>ss_rpc := R_received (Inr None)\<rparr>"
  using assms by (auto simp: receive_response_def split: if_splits prod.splits)

lemma receive_response_history:
  assumes "receive_response s = Some s'" and "history_ok H ed_open keys l0 s ws dropped marks" and "ss_rpc s = R_response"
  shows "history_ok H ed_open keys l0 s' ws dropped marks"
proof -
  have acks: "conn_read (ss_conn s) = (r, c) \<Longrightarrow> cn_sent c = cn_sent (ss_conn s)" for r c by (rule conn_read_sent)
  from assms(1,3) have part: "output_part s' = output_part s" and i: "incoming s' = incoming s"
    and same: "ss_validator s' = ss_validator s" "ss_seeded s' = ss_seeded s" "ss_queue s' = ss_queue s"
    by (auto elim!: receive_response_cases simp: output_part_def acks_sent_def incoming_def dest!: acks)
  from history_ok_part [OF assms(2) part] assms(2,3) i same validator_follows_cong [of s s' "ws @ dropped @ ss_queue s @ incoming s"]
  show ?thesis by (simp add: history_ok_def)
qed

lemma receive_checked_history:
  assumes "history_ok H ed_open keys l0 s ws dropped marks" and "ss_rpc s = R_received r"
  shows "history_ok H ed_open keys l0 (receive_checked H ed_open keys r s) ws dropped marks"
proof -
  let ?ps = "ws @ dropped @ ss_queue s"
  have inv: "stream_ok H ed_open keys ?ps" "validator_follows s ?ps"
    using assms by (simp_all add: history_ok_def incoming_def)
  show ?thesis
  proof (cases "ss_status s \<noteq> Running \<or> (\<forall>m. r \<noteq> Inr (Some m))")
    case True
    then have "\<exists>e. receive_checked H ed_open keys r s = close_input e s"
      by (cases r) (auto simp: receive_checked_def split: option.splits)
    with close_input_history [OF assms(1)] show ?thesis by auto
  next
    case False
    then obtain m where m: "r = Inr (Some m)" "ss_status s = Running" by auto
    obtain res s' where s': "receive_message H ed_open keys s m = (res, s')" by fastforce
    note same = receive_message_same [OF s']
    have q: "ss_queue s' = ss_queue s" using same by (auto simp: same_but_validator_def)
    show ?thesis
    proof (cases res)
      case (Inl e)
      with close_input_history [OF assms(1) output_part_same [OF same] q] m s' show ?thesis
        by (simp add: receive_checked_def)
    next
      case (Inr p)
      have "output_part (s'\<lparr>ss_rpc := R_enqueue p\<rparr>) = output_part s"
        using output_part_same [OF same] by (simp add: output_part_def acks_sent_def)
      from history_ok_part [OF assms(1) this] receive_message_stream [OF s' [unfolded Inr] _ inv, of "R_enqueue p"]
        assms(2) q m s' Inr
      show ?thesis by (simp add: receive_checked_def incoming_def)
    qed
  qed
qed

lemma receive_enqueue_history:
  assumes "history_ok H ed_open keys l0 s ws dropped marks" and "ss_rpc s = R_enqueue p"
  shows "history_ok H ed_open keys l0 (receive_enqueue p s) ws dropped marks"
proof (cases "ss_status s = Running")
  case False
  with close_input_history [OF assms(1)] show ?thesis by (simp add: receive_enqueue_def)
next
  case True
  let ?u = "s\<lparr>ss_input_bytes := ss_input_bytes s + length (pd_bytes p),
    ss_queued_bytes := ss_queued_bytes s + length (pd_bytes p), ss_queue := ss_queue s @ [p]\<rparr>"
  obtain s' where s': "receive_enqueue p s = s'" and "s' = close_input None ?u \<or> s' = ?u\<lparr>ss_rpc := R_wait\<rparr>"
    using True by (auto simp: receive_enqueue_def Let_def)
  then have "output_part s' = output_part s" "ss_queue s' @ incoming s' = ss_queue s @ incoming s"
    "validator_follows s (ws @ dropped @ ss_queue s @ incoming s) \<Longrightarrow> validator_follows s' (ws @ dropped @ ss_queue s @ incoming s)"
    using assms(2) by (auto simp: output_part_def acks_sent_def close_input_def incoming_def validator_follows_def)
  with history_ok_part [OF assms(1), of s'] assms(1) s' show ?thesis by (simp add: history_ok_def)
qed

lemma receiver_step_history:
  assumes "receiver_step H ed_open keys limit s = Some s'" and "history_ok H ed_open keys l0 s ws dropped marks"
  shows "history_ok H ed_open keys l0 s' ws dropped marks"
proof (cases "ss_rpc s")
  case R_wait
  have "history_ok H ed_open keys l0 (s\<lparr>ss_rpc := R_request\<rparr>) ws dropped marks"
    by (rule history_ok_part [OF assms(2)])
      (use assms(2) R_wait in \<open>simp_all add: output_part_def acks_sent_def history_ok_def incoming_def validator_follows_def\<close>)
  with assms R_wait close_input_history [OF assms(2)] show ?thesis
    by (auto simp: receiver_step_def split: if_splits)
qed (use assms in \<open>auto simp: receiver_step_def intro: receive_request_history receive_response_history
    receive_checked_history receive_enqueue_history\<close>)

section \<open>The output thread\<close>

text \<open>What the output thread leaves alone: it moves items along the stream.\<close>

lemma history_ok_output:
  assumes "history_ok H ed_open keys l0 s ws dropped marks"
    and "ss_rpc s' = ss_rpc s" and "ss_validator s' = ss_validator s" and "ss_seeded s' = ss_seeded s"
    and "ws' @ dropped' @ ss_queue s' = ws @ dropped @ ss_queue s"
    and "has_device s'" and "tape_log s' = l0 @ map tape_entry ws' @ marks'"
    and "output_ok s' ws' dropped' marks'"
  shows "history_ok H ed_open keys l0 s' ws' dropped' marks'"
proof -
  have i: "incoming s' = incoming s" using assms(2) by (simp add: incoming_def)
  have "ws' @ dropped' @ ss_queue s' @ incoming s' = ws @ dropped @ ss_queue s @ incoming s"
    using arg_cong [OF assms(5), of "\<lambda>ps. ps @ incoming s"] by (simp add: i)
  with assms show ?thesis by (simp add: history_ok_def validator_follows_def)
qed

lemma output_pop_history:
  assumes "output_pop s = Some s'" and "history_ok H ed_open keys l0 s ws dropped marks" and "ss_opc s = O_wait"
  shows "\<exists>dropped'. history_ok H ed_open keys l0 s' ws dropped' marks"
proof -
  have o: "ss_status s = Running" "marks = []" "counted s ws" "acks_sent s = map ack_of (frames_of ws)" "dropped = []"
    using assms(2,3) by (simp_all add: history_ok_def output_ok_def)
  have d: "has_device s" "tape_log s = l0 @ map tape_entry ws @ marks" using assms(2) by (simp_all add: history_ok_def)
  show ?thesis
  proof (cases "ss_queue s")
    case Nil
    then have s': "s' = finish_output Failed None s" using assms(1) by (auto simp: output_pop_def split: if_splits)
    have "history_ok H ed_open keys l0 s' ws [] marks"
      by (rule history_ok_output [OF assms(2)])
        (use o d in \<open>simp_all add: s' finish_output_def has_device_def tape_log_def output_ok_def result_ok_def acks_sent_def\<close>)
    then show ?thesis ..
  next
    case (Cons p rest)
    then have s': "s' = s\<lparr>ss_queue := rest, ss_queued_bytes := ss_queued_bytes s - length (pd_bytes p),
        ss_opc := (if pd_filemark p then O_mark else O_write p)\<rparr>" using assms(1) by (simp add: output_pop_def)
    have "history_ok H ed_open keys l0 s' ws [p] marks"
      by (rule history_ok_output [OF assms(2)])
        (use o d Cons in \<open>simp_all add: s' has_device_def tape_log_def output_ok_def acks_sent_def counted_def is_frame_def\<close>)
    then show ?thesis ..
  qed
qed

lemma sink_deviceE:
  assumes "has_device s" obtains d where "rk_device (ss_sink s) = Some d" and "tape_log s = td_log d"
  using assms by (auto simp: has_device_def tape_log_def)

lemma output_fails_simps [simp]:
  "ss_rpc (output_fails e s) = ss_rpc s" "ss_validator (output_fails e s) = ss_validator s"
  "ss_seeded (output_fails e s) = ss_seeded s" "ss_queue (output_fails e s) = ss_queue s"
  "has_device (output_fails e s) = has_device s" "tape_log (output_fails e s) = tape_log s"
  "acks_sent (output_fails e s) = acks_sent s" "ss_status (output_fails e s) = ss_status s"
  by (simp_all add: output_fails_def finish_output_def has_device_def tape_log_def acks_sent_def)

lemma output_fails_ok:
  assumes "ss_status s = Running" and "length dropped \<le> 1" and "marks = []"
    and "acks_sent s = map ack_of (frames_of ws) \<or>
      ws \<noteq> [] \<and> is_frame (last ws) \<and> acks_sent s = map ack_of (frames_of (butlast ws))"
  shows "output_ok (output_fails e s) ws dropped marks"
proof -
  have "ss_opc (output_fails e s) = O_end Volume_full None \<or>
      ss_opc (output_fails e s) = O_end Failed (Some (Media_error e))"
    by (simp add: output_fails_def finish_output_def)
  then obtain status err where "ss_opc (output_fails e s) = O_end status err" "status \<noteq> Complete" "status \<noteq> Running"
    by blast
  then show ?thesis using assms by (simp add: output_ok_def result_ok_def)
qed

lemma output_mark_history:
  assumes "history_ok H ed_open keys l0 s ws dropped marks" and "ss_opc s = O_mark"
  shows "\<exists>ws' dropped'. history_ok H ed_open keys l0 (output_mark s) ws' dropped' marks"
proof -
  from assms obtain m where o: "ss_status s = Running" "marks = []" "counted s ws"
    "acks_sent s = map ack_of (frames_of ws)" "dropped = [m]" "pd_filemark m"
    by (auto simp: history_ok_def output_ok_def)
  from assms(1) have d: "has_device s" "tape_log s = l0 @ map tape_entry ws" by (simp_all add: history_ok_def o(2))
  obtain r sk where r: "sink_filemark (ss_sink s) = (r, sk)" by fastforce
  from sink_deviceE [OF d(1)] obtain d0 where d0: "rk_device (ss_sink s) = Some d0" "tape_log s = td_log d0" by blast
  from sink_filemark_log [OF r d0(1)] obtain d' where
    d': "rk_device sk = Some d'" "td_log d' = (if r = None then td_log d0 @ [Tape_mark] else td_log d0)" by blast
  show ?thesis
  proof (cases r)
    case None
    have "history_ok H ed_open keys l0 (output_mark s) (ws @ [m]) [] marks"
      by (rule history_ok_output [OF assms(1)])
        (use o d d0 d' r None in \<open>simp_all add: output_mark_def has_device_def tape_log_def tape_entry_def
          output_ok_def acks_sent_def counted_def is_frame_def\<close>)
    then show ?thesis by blast
  next
    case (Some e)
    have "history_ok H ed_open keys l0 (output_mark s) ws [m] marks"
    proof (rule history_ok_output [OF assms(1)])
      show "output_ok (output_mark s) ws [m] marks"
        using o r Some by (simp add: output_mark_def) (intro output_fails_ok; simp add: acks_sent_def)
    qed (use o d d0 d' r Some in \<open>simp_all add: output_mark_def\<close>, simp_all add: has_device_def tape_log_def)
    then show ?thesis by blast
  qed
qed

lemma output_write_history:
  assumes "history_ok H ed_open keys l0 s ws dropped marks" and "ss_opc s = O_write p"
  shows "\<exists>ws' dropped'. history_ok H ed_open keys l0 (output_write p s) ws' dropped' marks"
proof -
  from assms have o: "ss_status s = Running" "marks = []" "counted s ws"
    "acks_sent s = map ack_of (frames_of ws)" "dropped = [p]" "is_frame p"
    by (auto simp: history_ok_def output_ok_def)
  from assms(1) have d: "has_device s" "tape_log s = l0 @ map tape_entry ws" by (simp_all add: history_ok_def o(2))
  obtain r sk where r: "sink_write (ss_sink s) (pd_bytes p) = (r, sk)" by fastforce
  from sink_deviceE [OF d(1)] obtain d0 where d0: "rk_device (ss_sink s) = Some d0" "tape_log s = td_log d0" by blast
  from sink_write_log [OF r d0(1)] obtain d' where d': "rk_device sk = Some d'"
    "td_log d' = td_log d0 @ [Tape_record (pd_bytes p)] \<or> (\<exists>e. r = Inl e) \<and> td_log d' = td_log d0" by blast
  have e: "tape_entry p = Tape_record (pd_bytes p)" using o(6) by (simp add: is_frame_def tape_entry_def)
  show ?thesis
  proof (cases r)
    case (Inr at_end)
    have "history_ok H ed_open keys l0 (output_write p s) (ws @ [p]) [] marks"
      by (rule history_ok_output [OF assms(1)])
        (use o d d0 d' r Inr e in \<open>simp_all add: output_write_def has_device_def tape_log_def
          output_ok_def acks_sent_def counted_def\<close>)
    then show ?thesis by blast
  next
    case (Inl err)
    let ?s = "output_write p s"
    have s': "?s = output_fails err (s\<lparr>ss_sink := sk\<rparr>)" using r Inl by (simp add: output_write_def)
    have log: "has_device ?s" "tape_log ?s = td_log d'" using d' by (simp_all add: s') (simp_all add: has_device_def tape_log_def)
    have a: "acks_sent ?s = map ack_of (frames_of ws)" using o(4) by (simp add: s') (simp add: acks_sent_def)
    from d'(2) show ?thesis
    proof (elim disjE conjE)
      assume l: "td_log d' = td_log d0 @ [Tape_record (pd_bytes p)]"
      have "history_ok H ed_open keys l0 ?s (ws @ [p]) [] marks"
      proof (rule history_ok_output [OF assms(1)])
        show "output_ok ?s (ws @ [p]) [] marks"
          unfolding s' by (rule output_fails_ok) (use o a in \<open>simp_all add: acks_sent_def\<close>)
      qed (use o d d0 log l e in \<open>simp_all add: s'\<close>)
      then show ?thesis by blast
    next
      assume l: "td_log d' = td_log d0"
      have "history_ok H ed_open keys l0 ?s ws [p] marks"
      proof (rule history_ok_output [OF assms(1)])
        show "output_ok ?s ws [p] marks"
          unfolding s' by (rule output_fails_ok) (use o a in \<open>simp_all add: acks_sent_def\<close>)
      qed (use o d d0 log l e in \<open>simp_all add: s'\<close>)
      then show ?thesis by blast
    qed
  qed
qed


lemma append_last: "ws \<noteq> [] \<Longrightarrow> frames_of (butlast ws) @ frames_of [last ws] = frames_of ws"
  by (cases ws rule: rev_cases) simp_all

lemma frames_of_last: "ws \<noteq> [] \<Longrightarrow> is_frame (last ws) \<Longrightarrow> frames_of ws \<noteq> [] \<and> last (frames_of ws) = last ws"
  by (cases ws rule: rev_cases) simp_all

lemma output_ack_history:
  assumes "history_ok H ed_open keys l0 s ws dropped marks" and "ss_opc s = O_ack p at_end"
  shows "history_ok H ed_open keys l0 (output_ack p at_end s) ws dropped marks"
proof -
  from assms have o: "ss_status s = Running" "marks = []" "dropped = []" "counted s ws"
    "ws \<noteq> []" "last ws = p" "is_frame p" "acks_sent s = map ack_of (frames_of (butlast ws))"
    by (auto simp: history_ok_def output_ok_def)
  from assms(1) have d: "has_device s" "tape_log s = l0 @ map tape_entry ws" by (simp_all add: history_ok_def o(2))
  obtain b c where c: "conn_write (ss_conn s) (ack_of p) = (b, c)" by fastforce
  have all: "map ack_of (frames_of (butlast ws)) @ [ack_of p] = map ack_of (frames_of ws)"
    using o(5-7) by (cases ws rule: rev_cases) simp_all
  have sent: "filter (\<lambda>m. msg_type m = Ack_frame) (cn_sent c) =
      map ack_of (if b then frames_of ws else frames_of (butlast ws))"
    using conn_write_sent [OF c] o(8) all by (auto simp: acks_sent_def ack_of_def)
  show ?thesis
  proof (cases b)
    case True
    then have sent': "acks_sent (s\<lparr>ss_conn := c\<rparr>) = map ack_of (frames_of ws)" using sent by (simp add: acks_sent_def)
    let ?t = "s\<lparr>ss_conn := c, ss_opc := (if channel_type (pd_header p) = ARCHIVE_END then O_final_mark
        else if at_end then O_end Volume_full None else O_wait)\<rparr>"
    have t: "output_ack p at_end s = ?t"
      using c True by (simp add: output_ack_def ack_of_def finish_output_def Let_def)
    have "output_ok ?t ws dropped marks"
      using o sent' by (simp add: output_ok_def result_ok_def acks_sent_def counted_def ends_archive_def)
    then show ?thesis unfolding t
      by (intro history_ok_output [OF assms(1)]) (use d o(2) in \<open>simp_all add: has_device_def tape_log_def\<close>)
  next
    case False
    then have sent': "acks_sent (s\<lparr>ss_conn := c\<rparr>) = map ack_of (frames_of (butlast ws))" using sent by (simp add: acks_sent_def)
    let ?t = "s\<lparr>ss_conn := c, ss_opc := O_end Failed (Some Connection_failed)\<rparr>"
    have t: "output_ack p at_end s = ?t" using c False by (simp add: output_ack_def ack_of_def finish_output_def)
    have "output_ok ?t ws dropped marks"
      using o sent' by (simp add: output_ok_def result_ok_def acks_sent_def)
    then show ?thesis unfolding t
      by (intro history_ok_output [OF assms(1)]) (use d o(2) in \<open>simp_all add: has_device_def tape_log_def\<close>)
  qed
qed

lemma output_final_mark_history:
  assumes "history_ok H ed_open keys l0 s ws dropped marks" and "ss_opc s = O_final_mark"
  shows "\<exists>marks'. history_ok H ed_open keys l0 (output_final_mark s) ws dropped marks'"
proof -
  from assms have o: "ss_status s = Running" "marks = []" "dropped = []" "counted s ws"
    "ends_archive ws" "acks_sent s = map ack_of (frames_of ws)"
    by (auto simp: history_ok_def output_ok_def)
  from assms(1) have d: "has_device s" "tape_log s = l0 @ map tape_entry ws" by (simp_all add: history_ok_def o(2))
  obtain r sk where r: "sink_filemark (ss_sink s) = (r, sk)" by fastforce
  from sink_deviceE [OF d(1)] obtain d0 where d0: "rk_device (ss_sink s) = Some d0" "tape_log s = td_log d0" by blast
  from sink_filemark_log [OF r d0(1)] obtain d' where
    d': "rk_device sk = Some d'" "td_log d' = (if r = None then td_log d0 @ [Tape_mark] else td_log d0)" by blast
  show ?thesis
  proof (cases r)
    case None
    have "history_ok H ed_open keys l0 (output_final_mark s) ws dropped [Tape_mark]"
      by (rule history_ok_output [OF assms(1)])
        (use o d d0 d' r None in \<open>simp_all add: output_final_mark_def finish_output_def has_device_def tape_log_def
          output_ok_def result_ok_def acks_sent_def counted_def\<close>)
    then show ?thesis by blast
  next
    case (Some e)
    have "history_ok H ed_open keys l0 (output_final_mark s) ws dropped marks"
    proof (rule history_ok_output [OF assms(1)])
      show "output_ok (output_final_mark s) ws dropped marks"
        using o r Some by (simp add: output_final_mark_def) (intro output_fails_ok; simp add: acks_sent_def)
    qed (use o d d0 d' r Some in \<open>simp_all add: output_final_mark_def\<close>, simp_all add: has_device_def tape_log_def)
    then show ?thesis by blast
  qed
qed

lemma publish_result_simps [simp]:
  "acks_sent (publish_result st e s) = acks_sent s" "counted (publish_result st e s) = counted s"
  "ss_opc (publish_result st e s) = O_shutdown" "ss_status (publish_result st e s) = st"
  by (simp_all add: publish_result_def acks_sent_def counted_def fun_eq_iff)

lemma publish_history:
  assumes "history_ok H ed_open keys l0 s ws dropped marks" and "ss_opc s = O_end status e"
  shows "history_ok H ed_open keys l0 (publish_result status e s) ws dropped marks"
proof -
  have "output_ok (publish_result status e s) ws dropped marks"
    using assms by (simp add: history_ok_def output_ok_def result_ok_def)
  then show ?thesis using assms(1)
    by (intro history_ok_output [OF assms(1)])
      (simp_all add: history_ok_def publish_result_def has_device_def tape_log_def)
qed

lemma shutdown_read_simps [simp]:
  "acks_sent (shutdown_read s) = acks_sent s" "counted (shutdown_read s) = counted s"
  "ss_opc (shutdown_read s) = O_done" "ss_status (shutdown_read s) = ss_status s"
  by (simp_all add: shutdown_read_def acks_sent_def counted_def fun_eq_iff)

lemma shutdown_history:
  assumes "history_ok H ed_open keys l0 s ws dropped marks" and "ss_opc s = O_shutdown"
  shows "history_ok H ed_open keys l0 (shutdown_read s) ws dropped marks"
proof -
  have "output_ok (shutdown_read s) ws dropped marks"
    using assms by (simp add: history_ok_def output_ok_def result_ok_def)
  then show ?thesis using assms(1)
    by (intro history_ok_output [OF assms(1)])
      (simp_all add: history_ok_def shutdown_read_def has_device_def tape_log_def)
qed

lemma output_step_history:
  assumes "output_step s = Some s'" and "history_ok H ed_open keys l0 s ws dropped marks"
  shows "\<exists>ws' dropped' marks'. history_ok H ed_open keys l0 s' ws' dropped' marks'"
proof (cases "ss_opc s")
  case O_wait
  then have "output_pop s = Some s'" using assms(1) by (simp add: output_step_def)
  from output_pop_history [OF this assms(2) O_wait] show ?thesis by blast
next
  case O_mark
  with output_mark_history [OF assms(2)] assms(1) show ?thesis by (auto simp: output_step_def)
next
  case (O_write p)
  with output_write_history [OF assms(2)] assms(1) show ?thesis by (auto simp: output_step_def)
next
  case (O_ack p e)
  with output_ack_history [OF assms(2)] assms(1) show ?thesis by (auto simp: output_step_def)
next
  case O_final_mark
  with output_final_mark_history [OF assms(2)] assms(1) show ?thesis by (auto simp: output_step_def)
next
  case (O_end st e)
  with publish_history [OF assms(2)] assms(1) show ?thesis by (auto simp: output_step_def)
next
  case O_shutdown
  with shutdown_history [OF assms(2)] assms(1) show ?thesis by (auto simp: output_step_def)
qed (use assms(1) in \<open>simp add: output_step_def\<close>)

section \<open>Every reachable state has a history\<close>

lemma initial_history:
  assumes "rk_device sk = Some d" and "filter (\<lambda>m. msg_type m = Ack_frame) (cn_sent c) = []"
  shows "history_ok H ed_open keys (td_log d) (initial_session needs c sk) [] [] []"
  using assms by (simp add: history_ok_def initial_session_def has_device_def tape_log_def stream_ok_def
      validator_follows_def output_ok_def counted_def acks_sent_def incoming_def)

lemma reachable_history:
  assumes "writer_reaches H ed_open keys limit (initial_session needs c sk) s"
    and "rk_device sk = Some d" and "filter (\<lambda>m. msg_type m = Ack_frame) (cn_sent c) = []"
  shows "\<exists>ws dropped marks. history_ok H ed_open keys (td_log d) s ws dropped marks"
  using assms(1)
proof induction
  case reaches_start
  show ?case using initial_history [OF assms(2,3)] by blast
next
  case (reaches_step s s')
  then obtain ws dropped marks where h: "history_ok H ed_open keys (td_log d) s ws dropped marks" by blast
  from reaches_step.hyps(2) show ?case
  proof cases
    case by_receiver
    with receiver_step_history h show ?thesis by blast
  next
    case by_output
    with output_step_history h show ?thesis by blast
  qed
qed

section \<open>Queue accounting\<close>

text \<open>The queue's byte count, and its bound: room for one more record is checked before it is requested.\<close>

definition largest_record :: nat where "largest_record = unat max_block_size"

definition queue_limit :: "nat \<Rightarrow> receiver_pc \<Rightarrow> nat" where
  "queue_limit limit pc = (case pc of R_wait \<Rightarrow> limit + largest_record | R_closed \<Rightarrow> limit + largest_record | _ \<Rightarrow> limit)"

definition queue_counted :: "nat \<Rightarrow> session \<Rightarrow> bool" where
  "queue_counted limit s \<longleftrightarrow>
     ss_queued_bytes s = sum_list (map (length \<circ> pd_bytes) (ss_queue s)) \<and>
     (\<forall>p \<in> set (incoming s). length (pd_bytes p) \<le> largest_record) \<and>
     ss_queued_bytes s < queue_limit limit (ss_rpc s)"

lemma checked_item_size:
  assumes "checked_item H ed_open keys p"
  shows "length (pd_bytes p) \<le> largest_record"
proof -
  from assms have c: "check_frame H (pd_bytes p) = Inr \<lparr>header = pd_header p, size_ok = True, hash_ok = True\<rparr>"
    by (simp add: checked_item_def)
  from parse_InrD(9) [OF check_frame_InrD(1) [OF c]] have "decoded_block_size (pd_header p) \<le> max_block_size"
    by (simp add: validate_header_def valid_block_size_def split: if_splits)
  with check_frame_InrD(2) [OF c] show ?thesis by (simp add: largest_record_def word_le_nat_alt)
qed

lemma receive_message_size:
  assumes "receive_message H ed_open keys s m = (Inr p, s')"
  shows "length (pd_bytes p) \<le> largest_record"
proof (cases "msg_type m")
  case Tape_eof
  with assms show ?thesis by (auto simp: receive_message_def)
next
  case Frame_record
  with assms have "receive_frame H ed_open keys s (msg_payload m) = (Inr p, s')" by (simp add: receive_message_def)
  from receive_frame_ok(2) [OF this] show ?thesis by (rule checked_item_size)
qed (use assms in \<open>simp_all add: receive_message_def\<close>)

lemma queue_limit_le: "queue_limit limit pc \<le> limit + largest_record"
  by (simp add: queue_limit_def split: receiver_pc.split)

lemma close_input_counted:
  assumes "queue_counted limit s" and "ss_queue s' = ss_queue s" and "ss_queued_bytes s' = ss_queued_bytes s"
  shows "queue_counted limit (close_input e s')"
  using assms queue_limit_le [of limit "ss_rpc s"]
  by (simp add: queue_counted_def close_input_def incoming_def queue_limit_def)

lemma receive_checked_counted:
  assumes "queue_counted limit s" and "ss_rpc s = R_received r"
  shows "queue_counted limit (receive_checked H ed_open keys r s)"
proof (cases "ss_status s = Running \<and> (\<exists>m. r = Inr (Some m))")
  case True
  then obtain m where m: "r = Inr (Some m)" "ss_status s = Running" by blast
  obtain res s' where s': "receive_message H ed_open keys s m = (res, s')" by fastforce
  then have q: "ss_queue s' = ss_queue s" "ss_queued_bytes s' = ss_queued_bytes s"
    by (auto dest!: receive_message_same simp: same_but_validator_def)
  show ?thesis
  proof (cases res)
    case (Inl e)
    with close_input_counted [OF assms(1) q] m s' show ?thesis by (simp add: receive_checked_def)
  next
    case (Inr p)
    with receive_message_size s' have "length (pd_bytes p) \<le> largest_record" by blast
    then show ?thesis using assms m s' Inr q
      by (simp add: receive_checked_def queue_counted_def queue_limit_def incoming_def)
  qed
next
  case False
  then have "\<exists>e. receive_checked H ed_open keys r s = close_input e s"
    by (cases r) (auto simp: receive_checked_def split: option.splits)
  with close_input_counted [OF assms(1)] show ?thesis by auto
qed

lemma receive_response_counted:
  "receive_response s = Some s' \<Longrightarrow> ss_rpc s = R_response \<Longrightarrow> queue_counted limit s \<Longrightarrow> queue_counted limit s'"
  by (elim receive_response_cases) (simp_all add: queue_counted_def queue_limit_def incoming_def)

lemma receiver_step_counted:
  assumes "receiver_step H ed_open keys limit s = Some s'" and "queue_counted limit s"
  shows "queue_counted limit s'"
proof (cases "ss_rpc s")
  case R_wait
  with assms close_input_counted [OF assms(2)] show ?thesis
    by (auto simp: receiver_step_def queue_counted_def queue_limit_def incoming_def split: if_splits)
next
  case R_request
  with assms show ?thesis
    by (auto simp: receiver_step_def receive_request_def queue_counted_def queue_limit_def incoming_def
        split: prod.splits bool.splits)
next
  case R_response
  with assms receive_response_counted [of s s'] show ?thesis by (simp add: receiver_step_def)
next
  case (R_received r)
  with assms(1) receive_checked_counted [OF assms(2) R_received] show ?thesis by (auto simp: receiver_step_def)
next
  case (R_enqueue p)
  with assms close_input_counted [OF assms(2)] show ?thesis
    by (auto simp: receiver_step_def receive_enqueue_def queue_counted_def queue_limit_def incoming_def
        close_input_def Let_def split: if_splits)
qed (use assms in \<open>simp add: receiver_step_def\<close>)

text \<open>The output thread touches the queue only when it pops.\<close>

definition same_input :: "session \<Rightarrow> session \<Rightarrow> bool" where
  "same_input s s' \<longleftrightarrow> ss_queue s' = ss_queue s \<and> ss_queued_bytes s' = ss_queued_bytes s \<and> ss_rpc s' = ss_rpc s \<and>
     ss_input_closed s' = ss_input_closed s \<and> cn_reads (ss_conn s') = cn_reads (ss_conn s) \<and>
     ss_peer_needs s' = ss_peer_needs s"

lemma conn_write_reads_same: "conn_write c m = (b, c') \<Longrightarrow> cn_reads c' = cn_reads c"
  by (auto simp: conn_write_def split: if_splits)

lemma output_fails_input [simp]: "same_input s (output_fails e t) = same_input s t"
  by (simp add: same_input_def output_fails_def finish_output_def)

lemma output_step_input:
  assumes "output_step s = Some s'"
  shows "same_input s s' \<or> (ss_opc s = O_wait \<and> (\<exists>p rest. ss_queue s = p # rest \<and>
    s' = s\<lparr>ss_queue := rest, ss_queued_bytes := ss_queued_bytes s - length (pd_bytes p),
           ss_opc := (if pd_filemark p then O_mark else O_write p)\<rparr>))"
proof (cases "ss_opc s")
  case O_wait
  with assms show ?thesis
    by (auto simp: output_step_def output_pop_def finish_output_def same_input_def split: list.splits if_splits)
next
  case O_mark
  with assms show ?thesis
    by (auto simp: output_step_def output_mark_def split: prod.splits option.splits) (simp_all add: same_input_def)
next
  case (O_write p)
  with assms show ?thesis
    by (auto simp: output_step_def output_write_def split: prod.splits sum.splits) (simp_all add: same_input_def)
next
  case (O_ack p e)
  with assms show ?thesis
    by (auto simp: output_step_def output_ack_def finish_output_def same_input_def Let_def
        dest!: conn_write_reads_same split: prod.splits bool.splits if_splits)
next
  case O_final_mark
  with assms show ?thesis
    by (auto simp: output_step_def output_final_mark_def split: prod.splits option.splits)
      (simp_all add: same_input_def finish_output_def)
qed (use assms in \<open>auto simp: output_step_def publish_result_def shutdown_read_def same_input_def\<close>)

lemma output_step_counted:
  assumes "output_step s = Some s'" and "queue_counted limit s"
  shows "queue_counted limit s'"
  using output_step_input [OF assms(1)] assms(2)
  by (auto simp: queue_counted_def same_input_def incoming_def)

lemma reachable_counted:
  assumes "writer_reaches H ed_open keys limit (initial_session needs c sk) s" and "0 < limit"
  shows "queue_counted limit s"
  using assms(1)
proof induction
  case reaches_start
  show ?case using assms(2) by (simp add: queue_counted_def initial_session_def incoming_def queue_limit_def)
next
  case (reaches_step s s')
  from reaches_step.hyps(2) reaches_step.IH show ?case
    by cases (auto intro: receiver_step_counted output_step_counted)
qed

section \<open>Progress and termination\<close>

text \<open>The receiver is closed only when the input is, and the output thread keeps the status
  running until it publishes, and has shut the reading side down when it ends.\<close>

definition threads_agree :: "session \<Rightarrow> bool" where
  "threads_agree s \<longleftrightarrow> (ss_rpc s = R_closed \<longrightarrow> ss_input_closed s) \<and>
     (ss_opc s = O_shutdown \<or> ss_opc s = O_done \<longleftrightarrow> ss_status s \<noteq> Running) \<and> (\<forall>e. ss_opc s \<noteq> O_end Running e) \<and>
     (ss_opc s = O_done \<longrightarrow> ss_read_shut s)"

definition output_side :: "session \<Rightarrow> session_status \<times> output_pc \<times> bool" where
  "output_side s = (ss_status s, ss_opc s, ss_read_shut s)"

lemma receiver_step_agree:
  assumes "receiver_step H ed_open keys limit s = Some s'" and "threads_agree s"
  shows "threads_agree s'"
proof -
  have same: "same_but_validator s t \<Longrightarrow> output_side t = output_side s" for t
    by (auto simp: same_but_validator_def output_side_def)
  have "output_side s' = output_side s \<and> (ss_rpc s' = R_closed \<longrightarrow> ss_input_closed s')"
    using assms(1)
    by (auto simp: receiver_step_def receive_request_def receive_response_def receive_checked_def receive_enqueue_def
        close_input_def output_side_def Let_def dest!: receive_message_same same
        split: receiver_pc.splits if_splits prod.splits bool.splits sum.splits option.splits)
  with assms(2) show ?thesis by (simp add: threads_agree_def output_side_def)
qed

lemma output_fails_agree:
  "ss_status s = Running \<Longrightarrow> (ss_rpc s = R_closed \<longrightarrow> ss_input_closed s) \<Longrightarrow> threads_agree (output_fails e s)"
  by (simp add: threads_agree_def output_fails_def finish_output_def)

lemma output_step_agree:
  assumes "output_step s = Some s'" and "threads_agree s"
  shows "threads_agree s'"
proof (cases "ss_opc s = O_shutdown")
  case True
  with assms show ?thesis by (simp add: output_step_def shutdown_read_def threads_agree_def) (auto simp: threads_agree_def)
next
  case False
  with assms have "ss_status s = Running" "ss_rpc s = R_closed \<longrightarrow> ss_input_closed s"
    by (auto simp: threads_agree_def output_step_def)
  moreover have "\<forall>e. ss_opc s \<noteq> O_end Running e" using assms(2) by (simp add: threads_agree_def)
  ultimately show ?thesis using assms(1) False
    by (auto simp: output_step_def output_pop_def output_mark_def output_write_def output_ack_def output_final_mark_def
        publish_result_def finish_output_def Let_def intro!: output_fails_agree
        split: output_pc.splits list.splits if_splits prod.splits bool.splits sum.splits option.splits)
      (auto simp: threads_agree_def)
qed

lemma reachable_agree:
  assumes "writer_reaches H ed_open keys limit (initial_session needs c sk) s"
  shows "threads_agree s"
  using assms
proof induction
  case reaches_start
  show ?case by (simp add: threads_agree_def initial_session_def)
next
  case (reaches_step s s')
  from reaches_step.hyps(2) reaches_step.IH show ?case
    by cases (auto intro: receiver_step_agree output_step_agree)
qed

text \<open>What the session owes its source: the frames it has received and not acknowledged yet.  They are
  in the hands of the receiver, in the queue, or in the hands of the output thread.\<close>

fun frame_messages :: "(protocol_error + message option) list \<Rightarrow> nat" where
  "frame_messages [] = 0"
| "frame_messages (r # rs) = (case r of Inr (Some m) \<Rightarrow> if msg_type m = Frame_record then 1 else 0 | _ \<Rightarrow> 0) + frame_messages rs"

fun received_frames :: "receiver_pc \<Rightarrow> nat" where
  "received_frames (R_received r) = frame_messages [r]"
| "received_frames (R_enqueue p) = (if is_frame p then 1 else 0)"
| "received_frames _ = 0"

text \<open>\<open>None\<close>: the loop of the output thread has been left, or is about to.\<close>

fun output_frames :: "output_pc \<Rightarrow> nat option" where
  "output_frames O_wait = Some 0"
| "output_frames O_mark = Some 0"
| "output_frames (O_write p) = Some 1"
| "output_frames (O_ack p e) = Some 1"
| "output_frames _ = None"

definition first_acks :: "connection \<Rightarrow> nat" where
  "first_acks c = length (filter (\<lambda>m. msg_type m = Ack_frame) (cn_sent c))"

definition owed :: "nat list \<Rightarrow> connection \<Rightarrow> nat \<Rightarrow> session \<Rightarrow> bool" where
  "owed needs c k s \<longleftrightarrow> cn_reads (ss_conn s) = drop k (cn_reads c) \<and> ss_peer_needs s = drop k needs \<and>
     (\<forall>n. ss_rpc s \<noteq> R_closed \<and> output_frames (ss_opc s) = Some n \<longrightarrow>
       first_acks c + frame_messages (take k (cn_reads c)) =
         length (acks_sent s) + n + length (frames_of (ss_queue s)) + received_frames (ss_rpc s))"

lemma frame_messages_take_Suc:
  "conn_read d = (r, d') \<Longrightarrow> cn_reads d = drop k rs \<Longrightarrow>
   cn_reads d' = drop (Suc k) rs \<and> frame_messages (take (Suc k) rs) = frame_messages (take k rs) + frame_messages [r]"
proof (induction k arbitrary: rs)
  case 0
  then show ?case by (cases rs) (auto simp: conn_read_def)
next
  case (Suc k)
  from Suc.prems Suc.IH [of "tl rs"] show ?case by (cases rs) (auto simp: conn_read_def)
qed

lemma receive_message_frame:
  assumes "receive_message H ed_open keys s m = (Inr p, s')"
  shows "(if is_frame p then 1 else 0) = frame_messages [Inr (Some m)]"
  using assms receive_frame_ok(1) [of H ed_open keys s "msg_payload m" p s']
  by (cases "msg_type m") (auto simp: receive_message_def is_frame_def)

lemma owed_closed: "owed needs c k s \<Longrightarrow> cn_reads (ss_conn s') = cn_reads (ss_conn s) \<Longrightarrow> ss_peer_needs s' = ss_peer_needs s \<Longrightarrow>
    owed needs c k (close_input e s')"
  by (simp add: owed_def close_input_def)

lemma receive_checked_owed:
  assumes "owed needs c k s" and "ss_rpc s = R_received r"
  shows "owed needs c k (receive_checked H ed_open keys r s)"
proof (cases "ss_status s = Running \<and> (\<exists>m. r = Inr (Some m))")
  case True
  then obtain m where m: "r = Inr (Some m)" "ss_status s = Running" by blast
  obtain res s' where s': "receive_message H ed_open keys s m = (res, s')" by fastforce
  then have q: "ss_queue s' = ss_queue s" "ss_conn s' = ss_conn s" "ss_peer_needs s' = ss_peer_needs s" "ss_opc s' = ss_opc s"
    by (auto dest!: receive_message_same simp: same_but_validator_def)
  show ?thesis
  proof (cases res)
    case (Inl e)
    with owed_closed [OF assms(1), of s'] q m s' show ?thesis by (simp add: receive_checked_def)
  next
    case (Inr p)
    from receive_message_frame [OF s' [unfolded Inr]] assms m s' Inr q show ?thesis
      by (simp add: receive_checked_def owed_def acks_sent_def)
  qed
next
  case False
  then have "\<exists>e. receive_checked H ed_open keys r s = close_input e s"
    by (cases r) (auto simp: receive_checked_def split: option.splits)
  with owed_closed [OF assms(1), of s] show ?thesis by auto
qed

lemma receiver_step_owed:
  assumes "receiver_step H ed_open keys limit s = Some s'" and "owed needs c k s" and "threads_agree s"
  shows "\<exists>k. owed needs c k s'"
proof (cases "ss_rpc s")
  case R_wait
  with assms owed_closed [OF assms(2), of s] have "owed needs c k s'"
    by (auto simp: receiver_step_def owed_def acks_sent_def split: if_splits)
  then show ?thesis ..
next
  case R_request
  have acks: "acks_sent (receive_request s) = acks_sent s"
    using acks_request [of s] by (auto simp: receive_request_def split: prod.splits bool.splits)
  moreover have "cn_reads (ss_conn (receive_request s)) = cn_reads (ss_conn s)"
    by (auto simp: receive_request_def dest!: conn_write_reads_same split: prod.splits bool.splits)
  moreover have "received_frames (ss_rpc (receive_request s)) = 0" "ss_opc (receive_request s) = ss_opc s"
    "ss_queue (receive_request s) = ss_queue s" "ss_peer_needs (receive_request s) = ss_peer_needs s"
    by (auto simp: receive_request_def split: prod.splits bool.splits)
  ultimately have "owed needs c k s'" using assms R_request by (simp add: receiver_step_def owed_def)
  then show ?thesis ..
next
  case R_response
  with assms(1) have "receive_response s = Some s'" by (simp add: receiver_step_def)
  then show ?thesis
  proof (cases rule: receive_response_cases)
    case (1 r d)
    from frame_messages_take_Suc [OF 1(2), of k "cn_reads c"] assms(2) R_response conn_read_sent [OF 1(2)]
    have "owed needs c (Suc k) s'" by (simp add: owed_def 1(3) acks_sent_def tl_drop drop_Suc)
    then show ?thesis ..
  next
    case 2
    with assms(2) R_response have "owed needs c k s'" by (simp add: owed_def acks_sent_def)
    then show ?thesis ..
  qed
next
  case (R_received r)
  with assms(1) receive_checked_owed [OF assms(2) R_received] show ?thesis by (auto simp: receiver_step_def)
next
  case (R_enqueue p)
  with assms owed_closed [OF assms(2), of s] have "owed needs c k s'"
    by (auto simp: receiver_step_def receive_enqueue_def owed_def acks_sent_def close_input_def Let_def split: if_splits)
  then show ?thesis ..
qed (use assms in \<open>simp add: receiver_step_def\<close>)

lemma output_step_owed:
  assumes "output_step s = Some s'" and "owed needs c k s" and "\<forall>p \<in> set (ss_queue s). is_frame p = (\<not> pd_filemark p)"
  shows "owed needs c k s'"
proof (cases "ss_opc s")
  case O_wait
  with assms show ?thesis
    by (auto simp: output_step_def output_pop_def finish_output_def owed_def acks_sent_def is_frame_def split: list.splits if_splits)
next
  case O_mark
  with assms(1,2) show ?thesis
    by (auto simp: output_step_def output_mark_def output_fails_def finish_output_def owed_def acks_sent_def
        split: prod.splits option.splits)
next
  case (O_write p)
  with assms(1,2) show ?thesis
    by (auto simp: output_step_def output_write_def output_fails_def finish_output_def owed_def acks_sent_def
        split: prod.splits sum.splits)
next
  case (O_ack p e)
  obtain b d where d: "conn_write (ss_conn s) (ack_of p) = (b, d)" by fastforce
  from conn_write_sent [OF d] conn_write_reads_same [OF d] O_ack assms(1,2) d show ?thesis
    by (auto simp: output_step_def output_ack_def finish_output_def owed_def acks_sent_def ack_of_def Let_def
        split: bool.splits if_splits)
next
  case O_final_mark
  with assms(1,2) show ?thesis
    by (auto simp: output_step_def output_final_mark_def output_fails_def finish_output_def owed_def acks_sent_def
        split: prod.splits option.splits)
qed (use assms(1,2) in \<open>auto simp: output_step_def publish_result_def shutdown_read_def owed_def acks_sent_def\<close>)

lemma reachable_owed:
  assumes "writer_reaches H ed_open keys limit (initial_session needs c sk) s"
  shows "\<exists>k. owed needs c k s"
  using assms
proof induction
  case reaches_start
  have "owed needs c 0 (initial_session needs c sk)"
    by (simp add: owed_def initial_session_def acks_sent_def first_acks_def)
  then show ?case ..
next
  case (reaches_step s s')
  then obtain k where k: "owed needs c k s" by blast
  from reaches_step.hyps(2) show ?case
  proof cases
    case by_receiver
    from receiver_step_owed [OF this k reachable_agree [OF reaches_step.hyps(1)]] show ?thesis .
  next
    case by_output
    from output_step_owed [OF this k] show ?thesis by (auto simp: is_frame_def)
  qed
qed

text \<open>A stuck state is a finished one, or one in which the peer waits.\<close>

definition blocked_on_peer :: "session \<Rightarrow> bool" where
  "blocked_on_peer s \<longleftrightarrow> ss_rpc s = R_response \<and> \<not> peer_ready s \<and> ss_opc s = O_wait \<and> ss_queue s = [] \<and> ss_status s = Running"

definition finished :: "session \<Rightarrow> bool" where
  "finished s \<longleftrightarrow> ss_rpc s = R_closed \<and> ss_opc s = O_done \<and> ss_status s \<noteq> Running"

text \<open>A peer whose demands can be met waits for no more acknowledgements than it has sent frames.\<close>

definition demands_met :: "nat list \<Rightarrow> connection \<Rightarrow> bool" where
  "demands_met needs c \<longleftrightarrow> (\<forall>k < length needs. needs ! k \<le> first_acks c + frame_messages (take k (cn_reads c)))"

lemma stuck_cases:
  assumes "threads_agree s" and "queue_counted limit s" and "0 < limit"
    and "\<forall>s'. \<not> writer_step H ed_open keys limit s s'"
  shows "finished s \<or> blocked_on_peer s"
proof -
  have r: "receiver_step H ed_open keys limit s = None"
    using assms(4) by (cases "receiver_step H ed_open keys limit s") (auto intro: writer_step.intros)
  have out: "output_step s = None" using assms(4) by (cases "output_step s") (auto intro: writer_step.intros)
  from out have o: "ss_opc s = O_done \<or> ss_opc s = O_wait \<and> ss_queue s = [] \<and> \<not> ss_input_closed s"
    by (auto simp: output_step_def output_pop_def split: output_pc.splits list.splits if_splits)
  from r have w: "ss_rpc s = R_closed \<or> ss_rpc s = R_wait \<and> ss_status s = Running \<and> limit \<le> ss_queued_bytes s \<or>
      ss_rpc s = R_response \<and> \<not> peer_ready s \<and> \<not> ss_read_shut s"
    by (auto simp: receiver_step_def receive_response_def split: receiver_pc.splits if_splits prod.splits)
  have q: "ss_queue s = [] \<Longrightarrow> ss_queued_bytes s = 0" using assms(2) by (simp add: queue_counted_def)
  from o show ?thesis
  proof
    assume "ss_opc s = O_done"
    with w assms(1) show ?thesis by (simp add: threads_agree_def finished_def)
  next
    assume a: "ss_opc s = O_wait \<and> ss_queue s = [] \<and> \<not> ss_input_closed s"
    then have "ss_status s = Running" using assms(1) by (auto simp: threads_agree_def)
    with a w q assms(1,3) show ?thesis by (simp add: threads_agree_def blocked_on_peer_def)
  qed
qed

lemma blocked_peer_demands:
  assumes "owed needs c k s" and "blocked_on_peer s"
  shows "k < length needs \<and> length (acks_sent s) = first_acks c + frame_messages (take k (cn_reads c)) \<and>
    length (acks_sent s) < needs ! k"
proof -
  from assms have n: "ss_peer_needs s = drop k needs" and
    a: "first_acks c + frame_messages (take k (cn_reads c)) = length (acks_sent s)"
    by (simp_all add: owed_def blocked_on_peer_def)
  from assms(2) obtain x xs where x: "ss_peer_needs s = x # xs" "length (acks_sent s) < x"
    by (auto simp: blocked_on_peer_def peer_ready_def split: list.splits)
  with n have k: "k < length needs" by (metis drop_all list.distinct(1) not_le)
  then have "needs ! k = x" using n x(1) by (metis hd_drop_conv_nth list.sel(1))
  with a k x(2) show ?thesis by simp
qed

text \<open>Each step spends some of the session's work: responses still to come, items to write,
  and positions in the two loops.\<close>

fun receiver_work :: "receiver_pc \<Rightarrow> nat" where
  "receiver_work R_wait = 4"
| "receiver_work R_request = 3"
| "receiver_work R_response = 2"
| "receiver_work (R_received r) = (case r of Inr (Some m) \<Rightarrow> 19 | _ \<Rightarrow> 1)"
| "receiver_work (R_enqueue p) = 18"
| "receiver_work R_closed = 0"

fun output_work :: "output_pc \<Rightarrow> nat" where
  "output_work O_wait = 3"
| "output_work O_mark = 4"
| "output_work (O_write p) = 6"
| "output_work (O_ack p e) = 5"
| "output_work O_final_mark = 4"
| "output_work (O_end st e) = 2"
| "output_work O_shutdown = 1"
| "output_work O_done = 0"

definition session_work :: "session \<Rightarrow> nat" where
  "session_work s = 20 * length (cn_reads (ss_conn s)) + receiver_work (ss_rpc s) +
     5 * length (ss_queue s) + output_work (ss_opc s)"

lemma same_but_validator_work:
  "same_but_validator s s' \<Longrightarrow> ss_conn s' = ss_conn s \<and> ss_queue s' = ss_queue s \<and> ss_opc s' = ss_opc s"
  by (auto simp: same_but_validator_def)

lemma conn_read_work:
  "conn_read c = (r, c') \<Longrightarrow> 20 * length (cn_reads c') + receiver_work (R_received r) < 20 * length (cn_reads c) + 2"
  by (auto simp: conn_read_def split: list.splits sum.splits option.splits)

lemma receiver_step_work:
  assumes "receiver_step H ed_open keys limit s = Some s'"
  shows "session_work s' < session_work s"
proof (cases "ss_rpc s")
  case R_wait
  with assms show ?thesis by (auto simp: receiver_step_def session_work_def close_input_def split: if_splits)
next
  case R_request
  with assms show ?thesis
    by (auto simp: receiver_step_def receive_request_def session_work_def dest!: conn_write_reads_same
        split: prod.splits bool.splits)
next
  case R_response
  with assms have "receive_response s = Some s'" by (simp add: receiver_step_def)
  then show ?thesis
    by (cases rule: receive_response_cases) (use R_response in \<open>auto simp: session_work_def dest!: conn_read_work\<close>)
next
  case (R_received r)
  with assms show ?thesis
    by (auto simp: receiver_step_def receive_checked_def session_work_def close_input_def
        dest!: receive_message_same same_but_validator_work
        split: if_splits prod.splits sum.splits option.splits)
next
  case (R_enqueue p)
  with assms show ?thesis
    by (auto simp: receiver_step_def receive_enqueue_def session_work_def close_input_def Let_def split: if_splits)
qed (use assms in \<open>simp add: receiver_step_def\<close>)

lemma output_step_work:
  assumes "output_step s = Some s'"
  shows "session_work s' < session_work s"
proof (cases "ss_opc s")
  case O_wait
  with assms show ?thesis
    by (auto simp: output_step_def output_pop_def finish_output_def session_work_def split: list.splits if_splits)
next
  case O_mark
  with assms show ?thesis
    by (auto simp: output_step_def output_mark_def session_work_def output_fails_def finish_output_def
        split: prod.splits option.splits)
next
  case (O_write p)
  with assms show ?thesis
    by (auto simp: output_step_def output_write_def session_work_def output_fails_def finish_output_def
        split: prod.splits sum.splits)
next
  case (O_ack p e)
  with assms show ?thesis
    by (auto simp: output_step_def output_ack_def finish_output_def session_work_def Let_def
        dest!: conn_write_reads_same split: prod.splits bool.splits if_splits)
next
  case O_final_mark
  with assms show ?thesis
    by (auto simp: output_step_def output_final_mark_def session_work_def output_fails_def finish_output_def
        split: prod.splits option.splits)
qed (use assms in \<open>auto simp: output_step_def publish_result_def shutdown_read_def session_work_def\<close>)

lemma writer_step_work: "writer_step H ed_open keys limit s s' \<Longrightarrow> session_work s' < session_work s"
  by (erule writer_step.cases) (auto intro: receiver_step_work output_step_work)

lemma writer_run_work:
  "(writer_step H ed_open keys limit ^^ n) s s' \<Longrightarrow> session_work s' + n \<le> session_work s"
proof (induction n arbitrary: s')
  case (Suc n)
  then obtain t where "(writer_step H ed_open keys limit ^^ n) s t" and t: "writer_step H ed_open keys limit t s'" by auto
  with Suc.IH [of t] writer_step_work [OF t] show ?case by simp
qed simp

section \<open>Properties\<close>

lemma acknowledged_log:
  assumes "writer_reaches H ed_open keys limit (initial_session needs c sk) s"
    and "rk_device sk = Some d" and "filter (\<lambda>m. msg_type m = Ack_frame) (cn_sent c) = []"
  shows "\<exists>ws marks. tape_log s = td_log d @ map tape_entry ws @ marks \<and> marks \<in> {[], [Tape_mark]} \<and>
    consecutive (frames_of ws) \<and> list_all (checked_item H ed_open keys) (frames_of ws) \<and>
    (acks_sent s = map ack_of (frames_of ws) \<or>
     ws \<noteq> [] \<and> is_frame (last ws) \<and> acks_sent s = map ack_of (frames_of (butlast ws)))"
proof -
  from reachable_history [OF assms] obtain ws dropped marks where
    h: "history_ok H ed_open keys (td_log d) s ws dropped marks" by blast
  then have "stream_ok H ed_open keys ws" by (auto simp: history_ok_def intro: stream_ok_append1)
  with h show ?thesis
    by (intro exI [of _ ws] exI [of _ marks])
      (auto simp: history_ok_def stream_ok_def output_ok_def result_ok_def split: output_pc.splits if_splits)
qed

lemma completed_log:
  assumes "writer_reaches H ed_open keys limit (initial_session needs c sk) s"
    and "rk_device sk = Some d" and "filter (\<lambda>m. msg_type m = Ack_frame) (cn_sent c) = []" and "ss_opc s = O_done"
    and "write_volume_result s = Inr r" and "wr_complete r"
  shows "\<exists>ws. tape_log s = td_log d @ map tape_entry ws @ [Tape_mark] \<and> ends_archive ws \<and>
    acks_sent s = map ack_of (frames_of ws) \<and> consecutive (frames_of ws) \<and>
    wr_frames r = length (frames_of ws) \<and> wr_final_global_seq r = global_frame_seq_num (pd_header (last ws)) \<and>
    list_all (checked_item H ed_open keys) (frames_of ws)"
proof -
  from reachable_history [OF assms(1-3)] obtain ws dropped marks where
    h: "history_ok H ed_open keys (td_log d) s ws dropped marks" by blast
  then have "list_all (checked_item H ed_open keys) (frames_of ws)"
    by (auto simp: history_ok_def stream_ok_def dest: stream_ok_append1)
  moreover have "consecutive (frames_of ws)" using h by (auto simp: history_ok_def stream_ok_def dest: stream_ok_append1 consecutive_append1)
  moreover have st: "ss_status s = Complete" and r: "wr_frames r = ss_frames s"
      "wr_final_global_seq r = global_frame_seq_num (ss_last s)"
    using assms(5,6) by (auto simp: write_volume_result_def split: option.splits if_splits)
  moreover have "ends_archive ws" "counted s ws" "acks_sent s = map ack_of (frames_of ws)" "marks = [Tape_mark]"
    using h assms(4) st by (simp_all add: history_ok_def output_ok_def result_ok_def)
  ultimately show ?thesis using h frames_of_last [of ws]
    by (intro exI [of _ ws]) (auto simp: history_ok_def ends_archive_def counted_def)
qed

text \<open>C11. At every point of every interleaving of the two threads, the tape holds, after
  what was on it, frames that each passed the integrity check and the signature policy,
  numbered without gap or repetition, with the slice filemarks between them; the
  acknowledgements sent (none was sent before the session) are exactly those of these frames, in order, at most the
  last one still missing.  Nothing is acknowledged before it is on the tape.\<close>
theorem acknowledged_frames_on_tape:
  assumes "writer_reaches H ed_open keys limit (initial_session needs c sk) s"
    and "rk_device sk = Some d" and "filter (\<lambda>m. msg_type m = Ack_frame) (cn_sent c) = []"
  shows "\<exists>ws marks. tape_log s = td_log d @ map tape_entry ws @ marks \<and> marks \<in> {[], [Tape_mark]} \<and>
    consecutive (frames_of ws) \<and> list_all (checked_item H ed_open keys) (frames_of ws) \<and>
    (acks_sent s = map ack_of (frames_of ws) \<or>
     ws \<noteq> [] \<and> is_frame (last ws) \<and> acks_sent s = map ack_of (frames_of (butlast ws)))"
  by (rule acknowledged_log [OF assms])

text \<open>C4. When a session reports a complete volume, the tape ends with the archive-end
  frame and a filemark, every frame on it has been acknowledged, and the frame count and the
  final number reported are those of the frames on the tape.\<close>
theorem complete_volume_on_tape:
  assumes "writer_reaches H ed_open keys limit (initial_session needs c sk) s"
    and "rk_device sk = Some d" and "filter (\<lambda>m. msg_type m = Ack_frame) (cn_sent c) = []" and "ss_opc s = O_done"
    and "write_volume_result s = Inr r" and "wr_complete r"
  shows "\<exists>ws. tape_log s = td_log d @ map tape_entry ws @ [Tape_mark] \<and> ends_archive ws \<and>
    acks_sent s = map ack_of (frames_of ws) \<and> consecutive (frames_of ws) \<and>
    wr_frames r = length (frames_of ws) \<and> wr_final_global_seq r = global_frame_seq_num (pd_header (last ws))"
  using completed_log [OF assms] by blast

text \<open>The receiver's queue is bounded: its byte count is exact and stays below the
  configured capacity plus the largest record.\<close>
lemma session_queue_bounded:
  assumes "writer_reaches H ed_open keys limit (initial_session needs c sk) s" and "0 < limit"
  shows "ss_queued_bytes s = sum_list (map (length \<circ> pd_bytes) (ss_queue s)) \<and>
    ss_queued_bytes s < limit + unat max_block_size"
  using reachable_counted [OF assms] queue_limit_le [of limit "ss_rpc s"]
  by (simp add: queue_counted_def largest_record_def)

lemma stuck_finished:
  assumes "writer_reaches H ed_open keys limit (initial_session needs c sk) s" and "0 < limit"
    and "\<forall>s'. \<not> writer_step H ed_open keys limit s s'"
  shows "(finished s \<or> blocked_on_peer s \<and>
      (\<exists>k < length needs. length (acks_sent s) = first_acks c + frame_messages (take k (cn_reads c)) \<and>
        length (acks_sent s) < needs ! k)) \<and>
    (demands_met needs c \<longrightarrow> finished s)"
proof -
  from stuck_cases [OF reachable_agree [OF assms(1)] reachable_counted [OF assms(1,2)] assms(2,3)]
  have s: "finished s \<or> blocked_on_peer s" .
  from reachable_owed [OF assms(1)] obtain k where k: "owed needs c k s" ..
  from blocked_peer_demands [OF k] s have "finished s \<or> blocked_on_peer s \<and> k < length needs \<and>
      length (acks_sent s) = first_acks c + frame_messages (take k (cn_reads c)) \<and> length (acks_sent s) < needs ! k" by blast
  then show ?thesis unfolding demands_met_def by (metis not_le)
qed

text \<open>C24. The two threads never deadlock, although a read of a response blocks for as long as the peer waits
  for acknowledgements.  A session that cannot move has closed its input, published a result and shut the reading side
  down; or it is blocked on a peer that waits for more acknowledgements than it has sent frames, and then the session
  is running and has acknowledged every frame it got.  With a peer that never does so every session that cannot
  move has ended, also when the output thread failed and the acknowledgement the peer waits for can never be sent.\<close>
theorem session_never_stuck:
  assumes "writer_reaches H ed_open keys limit (initial_session needs c sk) s" and "0 < limit"
    and "\<forall>s'. \<not> writer_step H ed_open keys limit s s'"
  shows "(finished s \<or> blocked_on_peer s \<and>
      (\<exists>k < length needs. length (acks_sent s) = first_acks c + frame_messages (take k (cn_reads c)) \<and>
        length (acks_sent s) < needs ! k)) \<and>
    (demands_met needs c \<longrightarrow> finished s)"
  by (rule stuck_finished [OF assms])

text \<open>C25. Every run of a session ends: with k responses still to come it has at most 20 k + 7
  steps, whatever the interleaving, the tape and the peer do.\<close>
theorem session_terminates:
  assumes "(writer_step H ed_open keys limit ^^ n) (initial_session needs c sk) s"
  shows "n \<le> 20 * length (cn_reads c) + 7"
  using writer_run_work [OF assms] by (simp add: session_work_def initial_session_def)

section \<open>Witnesses\<close>

text \<open>A schedule: which thread steps next.\<close>

fun run_schedule :: "(bytes \<Rightarrow> bytes) \<Rightarrow> ed_open \<Rightarrow> public_key list \<Rightarrow> nat \<Rightarrow> bool list \<Rightarrow> session \<Rightarrow> session option" where
  "run_schedule H ed_open keys limit [] s = Some s"
| "run_schedule H ed_open keys limit (b # bs) s =
    (case (if b then receiver_step H ed_open keys limit s else output_step s) of
       None \<Rightarrow> None | Some s' \<Rightarrow> run_schedule H ed_open keys limit bs s')"

lemma run_schedule_steps:
  "run_schedule H ed_open keys limit bs s = Some s' \<Longrightarrow> (writer_step H ed_open keys limit ^^ length bs) s s'"
proof (induction bs arbitrary: s)
  case (Cons b bs)
  then obtain t where t: "(if b then receiver_step H ed_open keys limit s else output_step s) = Some t"
    and r: "run_schedule H ed_open keys limit bs t = Some s'" by (auto split: option.splits)
  from t have "writer_step H ed_open keys limit s t" by (auto intro: writer_step.intros split: if_splits)
  moreover have "(writer_step H ed_open keys limit ^^ length bs) t s'" using Cons.IH [OF r] .
  ultimately show ?case by (simp add: relpowp_Suc_I2 del: relpowp.simps)
qed simp

lemma steps_reach: "(writer_step H ed_open keys limit ^^ n) s s' \<Longrightarrow> writer_reaches H ed_open keys limit s s'"
  by (induction n arbitrary: s') (auto intro: writer_reaches.intros)

definition end_header :: frame_header where
  "end_header = archive_end_header 4096 1 [97] [98] 3"

definition end_bytes :: bytes where
  "end_bytes = header_layout end_header @ replicate 3584 0"

lemma check_end_bytes:
  "check_frame zero_hash end_bytes = Inr \<lparr>header = end_header, size_ok = True, hash_ok = True\<rparr>"
proof -
  have v: "valid_block_size 4096" by (simp add: valid_block_size_def min_block_size_def max_block_size_def)
  show ?thesis unfolding end_bytes_def
    by (rule check_zero_record)
      (use archive_end_header_ok [OF v] in \<open>simp_all add: end_header_def\<close>,
       simp_all add: archive_end_header_def default_header_def validate_serialized_signature_def has_nonzero_signature_def
        canon_header_def canon_string_def nt_uuid_size_def archive_label_size_def list_ex_iff has_frame_flag_signed_def
        frame_flag_signed_def frame_flag_end_def frame_flag_clean_end_def)
qed

definition sample_tape :: tape_device where
  "sample_tape = \<lparr>td_status = [], td_write_results = [], td_mark_results = [], td_log = [Tape_mark]\<rparr>"

definition sample_sink :: record_sink where
  "sample_sink = \<lparr>rk_device = Some sample_tape, rk_capacity = None, rk_used = 0\<rparr>"

definition end_connection :: connection where
  "end_connection = \<lparr>cn_reads = [Inr (Some \<lparr>msg_type = Frame_record, msg_payload = end_bytes\<rparr>)],
     cn_writes_left = 9, cn_sent = []\<rparr>"

text \<open>The source sends the archive end; the output thread writes it, acknowledges it and ends.\<close>

definition end_schedule :: "bool list" where
  "end_schedule = [True, True, True, True, True, False, False, False, False, False, False]"

definition end_item :: pending where
  "end_item = \<lparr>pd_header = end_header, pd_bytes = end_bytes, pd_filemark = False\<rparr>"

lemma end_header_fields:
  "channel_type end_header = ARCHIVE_END" "global_frame_seq_num end_header = 3"
  "\<not> has_frame_flag_signed (flags end_header)" "signature end_header = replicate signature_size 0"
  by (simp_all add: end_header_def archive_end_header_def default_header_def has_frame_flag_signed_def
      frame_flag_signed_def frame_flag_end_def frame_flag_clean_end_def)

lemma end_frame_accepted:
  "\<exists>v. validate zero_hash (seed_for_stream_start initial_validator end_header)
     \<lparr>header = end_header, size_ok = True, hash_ok = True\<rparr> end_bytes False = (v, None) \<and> \<not> last_was_replay v"
  by (simp add: validate_def check_replay_def seed_for_stream_start_def reset_def validate_new_def
      validate_identity_def validate_sequence_def initial_validator_def end_header_fields Let_def)

lemma end_message_received:
  assumes "\<not> ss_seeded s" and "ss_validator s = initial_validator"
  shows "\<exists>v. receive_message zero_hash toy_open [] s \<lparr>msg_type = Frame_record, msg_payload = end_bytes\<rparr> =
    (Inr end_item, s\<lparr>ss_seeded := True, ss_validator := v\<rparr>)"
proof -
  have "sig_error (validate_frame_signature toy_open end_header [] False) = None"
    by (simp add: validate_frame_signature_def end_header_fields list_ex_iff)
  with end_frame_accepted assms show ?thesis
    by (auto simp: receive_message_def receive_frame_def check_end_bytes Let_def end_item_def)
qed

lemma end_run:
  "\<exists>s. run_schedule zero_hash toy_open [] 100 end_schedule (initial_session [0, 1] end_connection sample_sink) = Some s \<and>
     ss_rpc s = R_closed \<and> ss_opc s = O_done \<and>
     write_volume_result s = Inr \<lparr>wr_complete = True, wr_frames = 1, wr_final_global_seq = 3\<rparr>"
proof -
  let ?s = "(initial_session [0, 1] end_connection sample_sink)\<lparr>ss_conn := \<lparr>cn_reads = [], cn_writes_left = 8,
      cn_sent = [\<lparr>msg_type = Next_frame, msg_payload = []\<rparr>]\<rparr>, ss_peer_needs := [1],
      ss_rpc := R_received (Inr (Some \<lparr>msg_type = Frame_record, msg_payload = end_bytes\<rparr>))\<rparr>"
  have 1: "run_schedule zero_hash toy_open [] 100 end_schedule (initial_session [0, 1] end_connection sample_sink) =
      run_schedule zero_hash toy_open [] 100 [True, True, False, False, False, False, False, False] ?s"
    by (simp add: end_schedule_def receiver_step_def initial_session_def receive_request_def receive_response_def peer_ready_def
        acks_sent_def end_connection_def conn_write_def conn_read_def)
  from end_message_received [of ?s] obtain v where
    v: "receive_message zero_hash toy_open [] ?s \<lparr>msg_type = Frame_record, msg_payload = end_bytes\<rparr> =
      (Inr end_item, ?s\<lparr>ss_seeded := True, ss_validator := v\<rparr>)" by (auto simp: initial_session_def)
  let ?t = "?s\<lparr>ss_seeded := True, ss_validator := v, ss_rpc := R_enqueue end_item\<rparr>"
  have "receiver_step zero_hash toy_open [] 100 ?s = Some ?t"
    using v by (simp add: receiver_step_def receive_checked_def initial_session_def)
  then have 2: "run_schedule zero_hash toy_open [] 100 [True, True, False, False, False, False, False, False] ?s =
      run_schedule zero_hash toy_open [] 100 [True, False, False, False, False, False, False] ?t" by simp
  show ?thesis unfolding 1 2
    by (simp add: receiver_step_def receive_enqueue_def initial_session_def end_item_def end_header_fields close_input_def
        output_step_def output_pop_def output_write_def sink_write_def sample_sink_def sample_tape_def device_status_def
        device_write_def output_ack_def conn_write_def output_final_mark_def sink_filemark_def device_mark_def
        finish_output_def publish_result_def shutdown_read_def write_volume_result_def Let_def)
qed

lemma end_reaches:
  "\<exists>s. writer_reaches zero_hash toy_open [] 100 (initial_session [0, 1] end_connection sample_sink) s \<and>
     ss_rpc s = R_closed \<and> ss_opc s = O_done \<and>
     write_volume_result s = Inr \<lparr>wr_complete = True, wr_frames = 1, wr_final_global_seq = 3\<rparr>"
  using end_run run_schedule_steps steps_reach by blast

theorem acknowledged_frames_on_tape_witness:
  "\<exists>s ws marks. ss_opc s = O_done \<and> tape_log s = [Tape_mark] @ map tape_entry ws @ marks \<and>
     consecutive (frames_of ws) \<and> list_all (checked_item zero_hash toy_open []) (frames_of ws)"
proof -
  from end_reaches obtain s where s: "writer_reaches zero_hash toy_open [] 100 (initial_session [0, 1] end_connection sample_sink) s"
    "ss_opc s = O_done" by blast
  have "rk_device sample_sink = Some sample_tape" "filter (\<lambda>m. msg_type m = Ack_frame) (cn_sent end_connection) = []" "td_log sample_tape = [Tape_mark]"
    by (simp_all add: sample_sink_def end_connection_def sample_tape_def)
  with acknowledged_frames_on_tape [OF s(1) this(1,2)] s(2) show ?thesis by auto
qed

theorem complete_volume_on_tape_witness:
  "\<exists>s ws. tape_log s = [Tape_mark] @ map tape_entry ws @ [Tape_mark] \<and> ends_archive ws \<and>
     acks_sent s = map ack_of (frames_of ws) \<and> length (frames_of ws) = 1 \<and>
     global_frame_seq_num (pd_header (last ws)) = 3"
proof -
  from end_reaches obtain s where s: "writer_reaches zero_hash toy_open [] 100 (initial_session [0, 1] end_connection sample_sink) s"
    "ss_opc s = O_done" "write_volume_result s = Inr \<lparr>wr_complete = True, wr_frames = 1, wr_final_global_seq = 3\<rparr>" by blast
  have "rk_device sample_sink = Some sample_tape" "filter (\<lambda>m. msg_type m = Ack_frame) (cn_sent end_connection) = []" "td_log sample_tape = [Tape_mark]"
    by (simp_all add: sample_sink_def end_connection_def sample_tape_def)
  with complete_volume_on_tape [OF s(1) this(1,2) s(2,3)] show ?thesis by fastforce
qed

lemma session_queue_bounded_witness:
  "\<exists>s::session. ss_opc s = O_done \<and> ss_queued_bytes s < 100 + unat max_block_size"
proof -
  from end_reaches obtain s where s: "writer_reaches zero_hash toy_open [] 100 (initial_session [0, 1] end_connection sample_sink) s"
    "ss_opc s = O_done" by blast
  have "ss_queued_bytes s < 100 + unat max_block_size" using session_queue_bounded [OF s(1)] by simp
  with s(2) show ?thesis by blast
qed

definition failing_sink :: record_sink where
  "failing_sink = \<lparr>rk_device = Some (sample_tape\<lparr>td_write_results := [Some Device_error]\<rparr>), rk_capacity = None, rk_used = 0\<rparr>"

definition waiting_connection :: connection where
  "waiting_connection = \<lparr>cn_reads = [Inr (Some \<lparr>msg_type = Frame_record, msg_payload = sample_record\<rparr>)],
     cn_writes_left = 9, cn_sent = []\<rparr>"

text \<open>The receiver asks for a second response, which the peer holds back; the output thread fails.\<close>

definition blocked_schedule :: "bool list" where
  "blocked_schedule = [True, True, True, True, True, True, True, False, False, False, False, True, True]"

definition waiting_item :: pending where
  "waiting_item = \<lparr>pd_header = sample_header, pd_bytes = sample_record, pd_filemark = False\<rparr>"

lemma sample_frame_accepted:
  "\<exists>v. validate zero_hash (seed_for_stream_start initial_validator sample_header)
     \<lparr>header = sample_header, size_ok = True, hash_ok = True\<rparr> sample_record False = (v, None) \<and> \<not> last_was_replay v"
  by (simp add: validate_def check_replay_def seed_for_stream_start_def reset_def validate_new_def
      validate_identity_def validate_sequence_def validate_slice_def validate_channel_def initial_validator_def
      sample_header_def default_header_def Let_def)

lemma sample_message_received:
  assumes "\<not> ss_seeded s" and "ss_validator s = initial_validator"
  shows "\<exists>v. receive_message zero_hash toy_open [] s \<lparr>msg_type = Frame_record, msg_payload = sample_record\<rparr> =
    (Inr waiting_item, s\<lparr>ss_seeded := True, ss_validator := v\<rparr>)"
proof -
  have "sig_error (validate_frame_signature toy_open sample_header [] False) = None"
    by (simp add: validate_frame_signature_def sample_header_def default_header_def list_ex_iff has_frame_flag_signed_def
       frame_flag_signed_def frame_flag_end_def)
  with sample_frame_accepted assms show ?thesis
    by (auto simp: receive_message_def receive_frame_def check_sample_record Let_def waiting_item_def)
qed

lemma blocked_run:
  "\<exists>s. run_schedule zero_hash toy_open [] 10000 blocked_schedule (initial_session [0, 1] waiting_connection failing_sink) = Some s \<and>
     ss_rpc s = R_closed \<and> ss_opc s = O_done \<and> ss_error s = Some (Media_error Device_error) \<and> acks_sent s = []"
proof -
  let ?s = "(initial_session [0, 1] waiting_connection failing_sink)\<lparr>ss_conn := \<lparr>cn_reads = [], cn_writes_left = 8,
      cn_sent = [\<lparr>msg_type = Next_frame, msg_payload = []\<rparr>]\<rparr>, ss_peer_needs := [1],
      ss_rpc := R_received (Inr (Some \<lparr>msg_type = Frame_record, msg_payload = sample_record\<rparr>))\<rparr>"
  have 1: "run_schedule zero_hash toy_open [] 10000 blocked_schedule (initial_session [0, 1] waiting_connection failing_sink) =
      run_schedule zero_hash toy_open [] 10000 [True, True, True, True, False, False, False, False, True, True] ?s"
    by (simp add: blocked_schedule_def receiver_step_def initial_session_def receive_request_def receive_response_def peer_ready_def
        acks_sent_def waiting_connection_def conn_write_def conn_read_def)
  from sample_message_received [of ?s] obtain v where
    v: "receive_message zero_hash toy_open [] ?s \<lparr>msg_type = Frame_record, msg_payload = sample_record\<rparr> =
      (Inr waiting_item, ?s\<lparr>ss_seeded := True, ss_validator := v\<rparr>)" by (auto simp: initial_session_def)
  let ?t = "?s\<lparr>ss_seeded := True, ss_validator := v, ss_rpc := R_enqueue waiting_item\<rparr>"
  have "receiver_step zero_hash toy_open [] 10000 ?s = Some ?t"
    using v by (simp add: receiver_step_def receive_checked_def initial_session_def)
  then have 2: "run_schedule zero_hash toy_open [] 10000 [True, True, True, True, False, False, False, False, True, True] ?s =
      run_schedule zero_hash toy_open [] 10000 [True, True, True, False, False, False, False, True, True] ?t" by simp
  have "length sample_record = 4096" "channel_type sample_header \<noteq> ARCHIVE_END"
    using sample_header_ok(1) by (simp_all add: sample_record_def length_header_layout fixed_header_size_def)
      (simp add: sample_header_def default_header_def)
  then show ?thesis unfolding 1 2
    by (simp add: receiver_step_def receive_enqueue_def initial_session_def waiting_item_def close_input_def
        receive_request_def receive_response_def peer_ready_def acks_sent_def conn_write_def receive_checked_def
        output_step_def output_pop_def output_write_def sink_write_def failing_sink_def sample_tape_def device_status_def
        device_write_def output_fails_def finish_output_def publish_result_def shutdown_read_def Let_def)
qed

theorem session_never_stuck_witness:
  "\<exists>s. writer_reaches zero_hash toy_open [] 10000 (initial_session [0, 1] waiting_connection failing_sink) s \<and>
     demands_met [0, 1] waiting_connection \<and> acks_sent s = [] \<and> finished s"
proof -
  from blocked_run obtain s where s: "writer_reaches zero_hash toy_open [] 10000 (initial_session [0, 1] waiting_connection failing_sink) s"
    "ss_rpc s = R_closed" "ss_opc s = O_done" "acks_sent s = []" using run_schedule_steps steps_reach by blast
  then have "\<forall>s'. \<not> writer_step zero_hash toy_open [] 10000 s s'"
    by (auto elim!: writer_stepE simp: receiver_step_def output_step_def)
  moreover have "demands_met [0, 1] waiting_connection"
    by (auto simp: demands_met_def waiting_connection_def first_acks_def less_Suc_eq)
  ultimately show ?thesis using session_never_stuck [OF s(1)] s by auto
qed

theorem session_terminates_witness:
  "\<exists>s. (writer_step zero_hash toy_open [] 100 ^^ 11) (initial_session [0, 1] end_connection sample_sink) s \<and>
     (11::nat) \<le> 20 * length (cn_reads end_connection) + 7"
proof -
  from end_run obtain s where "(writer_step zero_hash toy_open [] 100 ^^ length end_schedule)
      (initial_session [0, 1] end_connection sample_sink) s" using run_schedule_steps by blast
  moreover have "length end_schedule = 11" by (simp add: end_schedule_def)
  ultimately show ?thesis using session_terminates [of 11 zero_hash toy_open "[]" 100 "[0, 1]" end_connection sample_sink s] by metis
qed

end
