(* ===== verification/VolumeServer.thy ===== *)
theory VolumeServer
  imports FrameBuilderSpec Protocol
begin

text \<open>
  src/neotape_volume_server.cpp: the archiver side of the writing pipeline.  One
  connection is one volume; frames come from the producer's queue or, after a lost
  connection, from the retention buffer, and stay retained until acknowledged.

  The environment of a connection is the list of results of its \<open>read_message\<close> calls (an
  exhausted list is a closed connection) and the number of \<open>write_message\<close> calls that
  succeed.  The producer is the list of the records it still pushes and whether it closes
  the queue after them, which it does only when it fails; \<open>pop\<close> on an exhausted open queue
  waits for ever, the outcome \<open>Waits\<close>.  Every exception is caught by the function, and
  is the outcome \<open>Throws\<close> of an action.  Diagnostics have no effect on the state.
\<close>

section \<open>State\<close>

record volume_record =
  vr_record :: bytes
  vr_global_seq :: u64
  vr_tape_eof :: bool
  vr_done :: bool

record volume_server_options =
  vo_block_size :: u32
  vo_archive_name :: bytes
  vo_initial_volume :: u64
  vo_retention_count :: u64
  vo_signer :: "secret_key option"

text \<open>The locals of \<open>serve_volume_client\<close> and the objects it is passed by reference.\<close>

record server =
  sv_conn :: connection
  sv_next_volume :: u64
  sv_last_acked :: u64
  sv_has_acked :: bool
  sv_retention :: retention_buffer
  sv_queue :: "volume_record list"
  sv_queue_closed :: bool
  sv_committed :: bool
  sv_served :: u64
  sv_next_send :: u64
  sv_end_seq :: "u64 option"

text \<open>An action continues with a value, returns from the function with
  \<open>archive_complete\<close>, throws, or waits for ever.\<close>

datatype 'a flow = Value 'a | Returns bool | Throws | Waits

type_synonym 'a act = "server \<Rightarrow> 'a flow \<times> server"

definition done_act :: "'a \<Rightarrow> 'a act" where
  "done_act a = (\<lambda>s. (Value a, s))"

definition then_act :: "'a act \<Rightarrow> ('a \<Rightarrow> 'b act) \<Rightarrow> 'b act" where
  "then_act m f = (\<lambda>s. case m s of
     (Value a, s) \<Rightarrow> f a s
   | (Returns b, s) \<Rightarrow> (Returns b, s)
   | (Throws, s) \<Rightarrow> (Throws, s)
   | (Waits, s) \<Rightarrow> (Waits, s))"

definition return_act :: "bool \<Rightarrow> 'a act" where
  "return_act b = (\<lambda>s. (Returns b, s))"

text \<open>An action chosen by the current state.\<close>

definition get_act :: "(server \<Rightarrow> 'a act) \<Rightarrow> 'a act" where
  "get_act f = (\<lambda>s. f s s)"

definition throw_act :: "'a act" where
  "throw_act = (\<lambda>s. (Throws, s))"

section \<open>Reading and writing the connection\<close>

definition read_act :: "message option act" where
  "read_act = (\<lambda>s. case cn_reads (sv_conn s) of
     [] \<Rightarrow> (Value None, s)
   | r # rs \<Rightarrow>
       (case r of Inl e \<Rightarrow> Throws | Inr m \<Rightarrow> Value m,
        s\<lparr>sv_conn := (sv_conn s)\<lparr>cn_reads := rs\<rparr>\<rparr>))"

definition write_act :: "message \<Rightarrow> unit act" where
  "write_act m = (\<lambda>s. if cn_writes_left (sv_conn s) = 0 then (Throws, s)
     else (Value (), s\<lparr>sv_conn := (sv_conn s)\<lparr>cn_writes_left := cn_writes_left (sv_conn s) - 1,
                                             cn_sent := cn_sent (sv_conn s) @ [m]\<rparr>\<rparr>))"

definition error_act :: "string \<Rightarrow> unit act" where
  "error_act text = write_act (error_message text)"

definition fail_act :: "string \<Rightarrow> 'a act" where
  "fail_act text = then_act (error_act text) (\<lambda>_. return_act False)"

section \<open>Authentication and acknowledgements\<close>

definition handle_auth_challenge :: "ed_sign \<Rightarrow> volume_server_options \<Rightarrow> bytes \<Rightarrow> bool act" where
  "handle_auth_challenge ed_sign opts payload =
    (if length payload \<noteq> auth_nonce_size then
       then_act (error_act (''auth_challenge payload must be '' @ decimal auth_nonce_size @ '' bytes'')) (\<lambda>_. done_act False)
     else case vo_signer opts of
       None \<Rightarrow> then_act (error_act ''auth challenge requires configured frame signer'') (\<lambda>_. done_act False)
     | Some k \<Rightarrow>
        (case sign_auth_nonce ed_sign k payload of
           Inl e \<Rightarrow> throw_act
         | Inr sig \<Rightarrow> then_act (write_act \<lparr>msg_type = Auth_response, msg_payload = sig\<rparr>) (\<lambda>_. done_act True)))"

datatype ack_result = Ack_rejected | Ack_accepted | Ack_archive_end

definition expected_ack :: "server \<Rightarrow> u64" where
  "expected_ack s = (if sv_has_acked s then sv_last_acked s + 1 else 0)"

definition process_ack_payload :: "bytes \<Rightarrow> ack_result act" where
  "process_ack_payload payload =
    (if length payload \<noteq> 8 then
       then_act (error_act ''ack_frame payload must be 8 bytes'') (\<lambda>_. done_act Ack_rejected)
     else (\<lambda>s. let g = le64_from_bytes payload in
       if g \<noteq> expected_ack s then
         then_act (error_act (''ack '' @ decimal (unat g) @ '' out of order; expected '' @
           decimal (unat (expected_ack s)))) (\<lambda>_. done_act Ack_rejected) s
       else (Value (case sv_end_seq s of
                      Some e \<Rightarrow> if g \<ge> e then Ack_archive_end else Ack_accepted
                    | None \<Rightarrow> Ack_accepted),
             s\<lparr>sv_committed := True, sv_last_acked := g, sv_has_acked := True,
               sv_retention := retention_ack (sv_retention s) g\<rparr>)))"

definition outstanding_frames :: "server \<Rightarrow> u64" where
  "outstanding_frames s = sv_next_send s - expected_ack s"

lemma write_act_reads [simp]: "cn_reads (sv_conn (snd (write_act m s))) = cn_reads (sv_conn s)"
  by (simp add: write_act_def)

lemma process_ack_reads:
  "process_ack_payload payload s = (r, s') \<Longrightarrow> cn_reads (sv_conn s') = cn_reads (sv_conn s)"
  by (auto split: if_splits simp: process_ack_payload_def then_act_def error_act_def done_act_def write_act_def Let_def)

text \<open>\<open>drain_acks_until\<close>: the value is the ack result that ended the loop.\<close>

function drain_acks_until :: "u64 \<Rightarrow> ack_result act" where
  "drain_acks_until limit s =
    (if outstanding_frames s \<ge> limit then
       (case read_act s of
          (Value None, s') \<Rightarrow> (Value Ack_rejected, s')
        | (Value (Some ack), s') \<Rightarrow>
            if msg_type ack \<noteq> Ack_frame then
              then_act (error_act ''send window full; expected ack_frame'') (\<lambda>_. done_act Ack_rejected) s'
            else (case process_ack_payload (msg_payload ack) s' of
                    (Value Ack_accepted, s'') \<Rightarrow> drain_acks_until limit s''
                  | r \<Rightarrow> r)
        | (Returns b, s') \<Rightarrow> (Returns b, s')
        | (Throws, s') \<Rightarrow> (Throws, s')
        | (Waits, s') \<Rightarrow> (Waits, s'))
     else (Value Ack_accepted, s))"
  by pat_completeness auto

lemma read_act_shrinks:
  "read_act s = (Value (Some m), s') \<Longrightarrow> length (cn_reads (sv_conn s')) < length (cn_reads (sv_conn s))"
  by (auto simp: read_act_def split: list.splits sum.splits)

termination drain_acks_until
  by (relation "measure (\<lambda>(limit, s). length (cn_reads (sv_conn s)))")
    (auto dest!: read_act_shrinks [OF sym] process_ack_reads [OF sym])

declare drain_acks_until.simps [simp del]

section \<open>Serving one connection\<close>

text \<open>\<open>pop\<close> on the record queue.\<close>

definition pop_act :: "volume_record option act" where
  "pop_act = (\<lambda>s. case sv_queue s of
     [] \<Rightarrow> if sv_queue_closed s then (Value None, s) else (Waits, s)
   | r # rs \<Rightarrow> (Value (Some r), s\<lparr>sv_queue := rs\<rparr>))"

text \<open>The end of an iteration that sent a frame record.\<close>

definition sent_act :: "bytes \<Rightarrow> unit act" where
  "sent_act rec = then_act (write_act \<lparr>msg_type = Frame_record, msg_payload = rec\<rparr>)
     (\<lambda>_ s. (Value (), s\<lparr>sv_served := sv_served s + 1, sv_next_send := sv_next_send s + 1\<rparr>))"

text \<open>Size check, re-numbering and transmission of a record.\<close>

definition transmit_record ::
  "(bytes \<Rightarrow> bytes) \<Rightarrow> ed_sign \<Rightarrow> volume_server_options \<Rightarrow> bytes \<Rightarrow> unit act" where
  "transmit_record H ed_sign opts rec =
    (if length rec \<noteq> unat (vo_block_size opts) then fail_act ''frame size mismatch''
     else get_act (\<lambda>s. case patch_volume_seq_num H ed_sign rec (sv_next_volume s) (vo_signer opts) of
             Inl e \<Rightarrow> throw_act
           | Inr rec' \<Rightarrow> sent_act rec'))"

definition retain_act :: "u64 \<Rightarrow> bytes \<Rightarrow> unit act" where
  "retain_act g rec = (\<lambda>s. (Value (), s\<lparr>sv_retention := retention_add (sv_retention s) g rec\<rparr>))"

definition set_end_act :: "u64 \<Rightarrow> unit act" where
  "set_end_act g = (\<lambda>s. (Value (), s\<lparr>sv_end_seq := Some g\<rparr>))"

text \<open>A popped end-of-archive record: every frame before it must be acknowledged first.\<close>

definition serve_done ::
  "(bytes \<Rightarrow> bytes) \<Rightarrow> ed_sign \<Rightarrow> volume_server_options \<Rightarrow> bytes \<Rightarrow> volume_record \<Rightarrow> unit act" where
  "serve_done H ed_sign opts uuid next =
    then_act (drain_acks_until 1) (\<lambda>r.
      case r of
        Ack_rejected \<Rightarrow> return_act False
      | Ack_archive_end \<Rightarrow> return_act True
      | Ack_accepted \<Rightarrow>
         get_act (\<lambda>s. case build_archive_end_record H ed_sign (vo_block_size opts) (sv_next_volume s) uuid
                 (vo_archive_name opts) (vr_global_seq next) (vo_signer opts) of
              Inl e \<Rightarrow> throw_act
            | Inr ae \<Rightarrow> then_act (retain_act (vr_global_seq next) ae) (\<lambda>_.
                          then_act (set_end_act (vr_global_seq next)) (\<lambda>_. sent_act ae))))"

definition serve_new_record ::
  "(bytes \<Rightarrow> bytes) \<Rightarrow> ed_sign \<Rightarrow> volume_server_options \<Rightarrow> bytes \<Rightarrow> string \<Rightarrow> unit act" where
  "serve_new_record H ed_sign opts uuid error_text =
    then_act pop_act (\<lambda>r. case r of
      None \<Rightarrow> fail_act (if error_text = [] then ''frame queue closed'' else error_text)
    | Some next \<Rightarrow>
        if vr_tape_eof next then write_act \<lparr>msg_type = Tape_eof, msg_payload = []\<rparr>
        else if vr_done next then serve_done H ed_sign opts uuid next
        else get_act (\<lambda>s. if vr_global_seq next \<noteq> sv_next_send s then
                     fail_act ''requested frame is no longer retained''
                   else then_act (retain_act (vr_global_seq next) (vr_record next)) (\<lambda>_.
                          transmit_record H ed_sign opts (vr_record next))))"

definition serve_retained_record ::
  "(bytes \<Rightarrow> bytes) \<Rightarrow> ed_sign \<Rightarrow> volume_server_options \<Rightarrow> bytes \<Rightarrow> unit act" where
  "serve_retained_record H ed_sign opts rec =
    (case parse_fixed_header rec of
       Inl e \<Rightarrow> throw_act
     | Inr hdr \<Rightarrow> get_act (\<lambda>s.
         then_act (if channel_type hdr = ARCHIVE_END then set_end_act (sv_next_send s) else done_act ()) (\<lambda>_.
           transmit_record H ed_sign opts rec)))"

definition serve_next_frame ::
  "(bytes \<Rightarrow> bytes) \<Rightarrow> ed_sign \<Rightarrow> volume_server_options \<Rightarrow> bytes \<Rightarrow> string \<Rightarrow> unit act" where
  "serve_next_frame H ed_sign opts uuid error_text =
    then_act (drain_acks_until (vo_retention_count opts)) (\<lambda>r.
      case r of
        Ack_rejected \<Rightarrow> return_act False
      | Ack_archive_end \<Rightarrow> return_act True
      | Ack_accepted \<Rightarrow>
          get_act (\<lambda>s. case retention_get (sv_retention s) (sv_next_send s) of
                 Some rec \<Rightarrow> serve_retained_record H ed_sign opts rec
               | None \<Rightarrow> serve_new_record H ed_sign opts uuid error_text))"

definition serve_request ::
  "(bytes \<Rightarrow> bytes) \<Rightarrow> ed_sign \<Rightarrow> volume_server_options \<Rightarrow> bytes \<Rightarrow> string \<Rightarrow> message \<Rightarrow> unit act" where
  "serve_request H ed_sign opts uuid error_text req =
    get_act (\<lambda>s. if sv_end_seq s \<noteq> None \<and> msg_type req \<noteq> Ack_frame then
           fail_act ''unexpected request after archive end''
         else case msg_type req of
           Next_frame \<Rightarrow> serve_next_frame H ed_sign opts uuid error_text
         | Ack_frame \<Rightarrow>
             then_act (process_ack_payload (msg_payload req)) (\<lambda>r. case r of
                 Ack_rejected \<Rightarrow> return_act False
               | Ack_archive_end \<Rightarrow> return_act True
               | Ack_accepted \<Rightarrow> done_act ())
         | Tape_eof \<Rightarrow> fail_act ''unexpected tape_eof request''
         | Auth_challenge \<Rightarrow> fail_act ''auth_challenge must be the first request''
         | Auth_response \<Rightarrow> fail_act ''unexpected auth_response request''
         | _ \<Rightarrow> fail_act ''unexpected request type'')"

text \<open>The request loop; a pending request has been read before.\<close>

function serve_loop ::
  "(bytes \<Rightarrow> bytes) \<Rightarrow> ed_sign \<Rightarrow> volume_server_options \<Rightarrow> bytes \<Rightarrow> string \<Rightarrow> message option \<Rightarrow> unit act" where
  "serve_loop H ed_sign opts uuid error_text pending s =
    (case (if pending \<noteq> None then (Value pending, s) else read_act s) of
       (Value None, s') \<Rightarrow> (Returns False, s')
     | (Value (Some req), s') \<Rightarrow>
         (case serve_request H ed_sign opts uuid error_text req s' of
            (Value _, s'') \<Rightarrow> serve_loop H ed_sign opts uuid error_text None s''
          | r \<Rightarrow> r)
     | (Returns b, s') \<Rightarrow> (Returns b, s')
     | (Throws, s') \<Rightarrow> (Throws, s')
     | (Waits, s') \<Rightarrow> (Waits, s'))"
  by pat_completeness auto

text \<open>No action gives messages back: the termination argument of the loop.\<close>

named_theorems consumes_intros

definition consumes :: "'a act \<Rightarrow> bool" where
  "consumes m \<longleftrightarrow> (\<forall>s. length (cn_reads (sv_conn (snd (m s)))) \<le> length (cn_reads (sv_conn s)))"

lemma consumesD: "consumes m \<Longrightarrow> m s = (r, s') \<Longrightarrow> length (cn_reads (sv_conn s')) \<le> length (cn_reads (sv_conn s))"
  by (metis consumes_def snd_conv)

lemma consumes_then [consumes_intros]:
  assumes "consumes m" and "\<And>a. consumes (f a)"
  shows "consumes (then_act m f)"
  unfolding consumes_def
proof
  fix s
  obtain r t where m: "m s = (r, t)" by force
  then have "length (cn_reads (sv_conn t)) \<le> length (cn_reads (sv_conn s))" by (rule consumesD [OF assms(1)])
  moreover have "length (cn_reads (sv_conn (snd (f a t)))) \<le> length (cn_reads (sv_conn t))" for a
    using assms(2) [of a] by (simp add: consumes_def)
  ultimately show "length (cn_reads (sv_conn (snd (then_act m f s)))) \<le> length (cn_reads (sv_conn s))"
    using m by (cases r) (auto simp: then_act_def intro: le_trans)
qed

lemma consumes_basic [consumes_intros]:
  "consumes (done_act a)" "consumes (return_act b)" "consumes throw_act" "consumes (write_act m)"
  "consumes pop_act" "consumes (retain_act g rec)" "consumes (set_end_act g)"
  "consumes (\<lambda>s. (Value v, s\<lparr>sv_served := sv_served s + 1, sv_next_send := sv_next_send s + 1\<rparr>))"
  "consumes (\<lambda>s. (Throws, s))"
  by (auto simp: consumes_def done_act_def return_act_def throw_act_def pop_act_def retain_act_def
      set_end_act_def split: list.splits)

lemma consumes_error [consumes_intros]: "consumes (error_act t)" "consumes (fail_act t)"
  by (auto simp: error_act_def fail_act_def intro!: consumes_intros)

lemma consumes_ack [consumes_intros]: "consumes (process_ack_payload p)"
  unfolding consumes_def by (metis order_refl process_ack_reads surjective_pairing)

lemma consumes_read: "consumes read_act"
  by (auto simp: consumes_def read_act_def split: list.splits)

lemma consumes_cases [consumes_intros]:
  "(\<And>s. consumes (f s)) \<Longrightarrow> consumes (get_act f)"
  "consumes a \<Longrightarrow> consumes b \<Longrightarrow> consumes (if c then a else b)"
  "consumes a \<Longrightarrow> (\<And>x. consumes (g x)) \<Longrightarrow> consumes (case ov of None \<Rightarrow> a | Some x \<Rightarrow> g x)"
  "(\<And>x. consumes (h x)) \<Longrightarrow> (\<And>y. consumes (k y)) \<Longrightarrow> consumes (case sv of Inl x \<Rightarrow> h x | Inr y \<Rightarrow> k y)"
  "consumes a \<Longrightarrow> consumes b \<Longrightarrow> consumes d \<Longrightarrow>
   consumes (case rv of Ack_rejected \<Rightarrow> a | Ack_accepted \<Rightarrow> b | Ack_archive_end \<Rightarrow> d)"
  by (auto simp: consumes_def get_act_def split: option.split sum.split ack_result.split)

lemma consumes_drain [consumes_intros]: "consumes (drain_acks_until limit)"
proof -
  have "length (cn_reads (sv_conn (snd (drain_acks_until limit s)))) \<le> length (cn_reads (sv_conn s))" for s
  proof (induction limit s rule: drain_acks_until.induct)
    case (1 limit s)
    show ?case
    proof (cases "outstanding_frames s \<ge> limit")
      case True
      obtain r t where r: "read_act s = (r, t)" by force
      have le: "length (cn_reads (sv_conn t)) \<le> length (cn_reads (sv_conn s))" by (rule consumesD [OF consumes_read r])
      show ?thesis
      proof (cases "\<exists>a. r = Value (Some a) \<and> msg_type a = Ack_frame")
        case False
        have "consumes (then_act (error_act ''send window full; expected ack_frame'') (\<lambda>_. done_act Ack_rejected))"
          by (intro consumes_intros)
        then have "length (cn_reads (sv_conn (snd (drain_acks_until limit s)))) \<le> length (cn_reads (sv_conn t))"
          using True r False
          by (subst drain_acks_until.simps) (auto simp: consumes_def split: flow.splits option.splits)
        then show ?thesis using le by simp
      next
        case ack: True
        then obtain a where a: "r = Value (Some a)" "msg_type a = Ack_frame" by blast
        obtain q u where q: "process_ack_payload (msg_payload a) t = (q, u)" by force
        have u: "length (cn_reads (sv_conn u)) \<le> length (cn_reads (sv_conn t))" by (rule consumesD [OF consumes_ack q])
        show ?thesis
        proof (cases "q = Value Ack_accepted")
          case acc: True
          have "length (cn_reads (sv_conn (snd (drain_acks_until limit u)))) \<le> length (cn_reads (sv_conn u))"
            using 1 True r a q acc by auto
          then show ?thesis using True r a q acc u le by (subst drain_acks_until.simps) simp
        next
          case False
          then have "drain_acks_until limit s = (q, u)" using True r a q
            by (subst drain_acks_until.simps) (auto split: flow.splits ack_result.splits)
          then show ?thesis using u le by simp
        qed
      qed
    qed (subst drain_acks_until.simps, simp)
  qed
  then show ?thesis by (simp add: consumes_def)
qed

lemma consumes_sent [consumes_intros]: "consumes (sent_act rec)"
  unfolding sent_act_def by (intro consumes_intros)

lemma consumes_transmit [consumes_intros]: "consumes (transmit_record H ed_sign opts rec)"
  unfolding transmit_record_def by (intro consumes_intros)

lemma consumes_serve_done [consumes_intros]: "consumes (serve_done H ed_sign opts uuid next)"
  unfolding serve_done_def by (intro consumes_intros)

lemma consumes_serve_new [consumes_intros]: "consumes (serve_new_record H ed_sign opts uuid error_text)"
  unfolding serve_new_record_def by (intro consumes_intros)

lemma consumes_serve_retained [consumes_intros]: "consumes (serve_retained_record H ed_sign opts rec)"
  unfolding serve_retained_record_def by (intro consumes_intros)

lemma consumes_serve_next [consumes_intros]: "consumes (serve_next_frame H ed_sign opts uuid error_text)"
  unfolding serve_next_frame_def by (intro consumes_intros)

lemma consumes_serve_request [consumes_intros]: "consumes (serve_request H ed_sign opts uuid error_text req)"
  unfolding serve_request_def
  by (cases "msg_type req"; simp only: message_type.case; intro consumes_intros)

lemma serve_request_reads:
  "serve_request H ed_sign opts uuid error_text req t = (r, u) \<Longrightarrow>
   length (cn_reads (sv_conn u)) \<le> length (cn_reads (sv_conn t))"
  by (rule consumesD [OF consumes_serve_request])

termination serve_loop
  by (relation "measure (\<lambda>(H, ed_sign, opts, uuid, error_text, pending, s).
    2 * length (cn_reads (sv_conn s)) + (if pending = None then 0 else 1))")
    (auto dest!: serve_request_reads [OF sym] read_act_shrinks [OF sym] split: if_splits)

declare serve_loop.simps [simp del]

record serve_result =
  sr_archive_complete :: bool
  sr_volume_committed :: bool
  sr_frame_transmissions :: u64

text \<open>The first request may be an authentication challenge.\<close>

definition serve_session ::
  "(bytes \<Rightarrow> bytes) \<Rightarrow> ed_sign \<Rightarrow> volume_server_options \<Rightarrow> bytes \<Rightarrow> string \<Rightarrow> unit act" where
  "serve_session H ed_sign opts uuid error_text =
    then_act read_act (\<lambda>pending_request.
      if (case pending_request of None \<Rightarrow> False | Some m \<Rightarrow> msg_type m = Auth_challenge) then
        then_act (handle_auth_challenge ed_sign opts (msg_payload (the pending_request))) (\<lambda>ok.
          if \<not> ok then return_act False
          else then_act read_act (\<lambda>pending_request. serve_loop H ed_sign opts uuid error_text pending_request))
      else serve_loop H ed_sign opts uuid error_text pending_request)"

text \<open>The locals at entry.\<close>

definition enter_connection :: "connection \<Rightarrow> server \<Rightarrow> server" where
  "enter_connection c s = s\<lparr>sv_conn := c, sv_committed := False, sv_served := 0,
     sv_next_send := expected_ack s, sv_end_seq := None\<rparr>"

text \<open>\<open>None\<close>: the call never returns, waiting for the producer.\<close>

definition serve_volume_client ::
  "(bytes \<Rightarrow> bytes) \<Rightarrow> ed_sign \<Rightarrow> volume_server_options \<Rightarrow> bytes \<Rightarrow> string \<Rightarrow> connection \<Rightarrow> server \<Rightarrow>
   serve_result option \<times> server" where
  "serve_volume_client H ed_sign opts uuid error_text c s =
    (case serve_session H ed_sign opts uuid error_text (enter_connection c s) of
       (Waits, s) \<Rightarrow> (None, s)
     | (r, s) \<Rightarrow> (Some \<lparr>sr_archive_complete = (case r of Returns b \<Rightarrow> b | _ \<Rightarrow> False),
                       sr_volume_committed = sv_committed s,
                       sr_frame_transmissions = sv_served s\<rparr>, s))"

section \<open>Serving volumes until the archive is complete\<close>

record volume_server_summary =
  vs_committed_frames :: u64
  vs_frame_transmissions :: u64
  vs_committed_volumes :: u64
  vs_connections :: u64
  vs_uncommitted_disconnects :: u64

definition initial_summary :: volume_server_summary where
  "initial_summary = \<lparr>vs_committed_frames = 0, vs_frame_transmissions = 0, vs_committed_volumes = 0,
     vs_connections = 0, vs_uncommitted_disconnects = 0\<rparr>"

definition initial_server :: "volume_server_options \<Rightarrow> volume_record list \<Rightarrow> bool \<Rightarrow> server" where
  "initial_server opts produced producer_fails =
    \<lparr>sv_conn = \<lparr>cn_reads = [], cn_writes_left = 0, cn_sent = []\<rparr>,
     sv_next_volume = vo_initial_volume opts, sv_last_acked = 0, sv_has_acked = False,
     sv_retention = \<lparr>rb_max_frames = unat (vo_retention_count opts), rb_frames = []\<rparr>,
     sv_queue = produced, sv_queue_closed = producer_fails,
     sv_committed = False, sv_served = 0, sv_next_send = 0, sv_end_seq = None\<rparr>"

text \<open>
  The loop over accepted connections.  \<open>Run_accepting\<close>: all given connections are
  over and the server waits in \<open>accept\<close>; \<open>Run_stuck\<close>: a connection waits for the producer.
\<close>

datatype run_state = Run_complete | Run_accepting | Run_stuck

definition account_connection :: "serve_result \<Rightarrow> server \<Rightarrow> volume_server_summary \<Rightarrow> volume_server_summary" where
  "account_connection r s sm =
    (let sm = sm\<lparr>vs_frame_transmissions := vs_frame_transmissions sm + sr_frame_transmissions r,
                 vs_committed_frames := expected_ack s\<rparr>
     in if sr_archive_complete r then
          (if sr_volume_committed r then sm\<lparr>vs_committed_volumes := vs_committed_volumes sm + 1\<rparr> else sm)
        else if sr_volume_committed r then sm\<lparr>vs_committed_volumes := vs_committed_volumes sm + 1\<rparr>
        else sm\<lparr>vs_uncommitted_disconnects := vs_uncommitted_disconnects sm + 1\<rparr>)"

fun serve_connections ::
  "(bytes \<Rightarrow> bytes) \<Rightarrow> ed_sign \<Rightarrow> volume_server_options \<Rightarrow> bytes \<Rightarrow> string \<Rightarrow> connection list \<Rightarrow>
   server \<Rightarrow> volume_server_summary \<Rightarrow> run_state \<times> server \<times> volume_server_summary" where
  "serve_connections H ed_sign opts uuid error_text [] s sm = (Run_accepting, s, sm)"
| "serve_connections H ed_sign opts uuid error_text (c # cs) s sm =
    (let sm = sm\<lparr>vs_connections := vs_connections sm + 1\<rparr>
     in case serve_volume_client H ed_sign opts uuid error_text c s of
          (None, s) \<Rightarrow> (Run_stuck, s, sm)
        | (Some r, s) \<Rightarrow>
            let sm = account_connection r s sm
            in if sr_archive_complete r then (Run_complete, s, sm)
               else serve_connections H ed_sign opts uuid error_text cs
                      (if sr_volume_committed r then s\<lparr>sv_next_volume := sv_next_volume s + 1\<rparr> else s) sm)"

datatype server_error = Invalid_volume_block_size

definition run_volume_server ::
  "(bytes \<Rightarrow> bytes) \<Rightarrow> ed_sign \<Rightarrow> volume_server_options \<Rightarrow> bytes \<Rightarrow> string \<Rightarrow> volume_record list \<Rightarrow> bool \<Rightarrow>
   connection list \<Rightarrow> server_error + run_state \<times> server \<times> volume_server_summary" where
  "run_volume_server H ed_sign opts uuid error_text produced producer_fails conns =
    (if \<not> valid_block_size (vo_block_size opts) then Inl Invalid_volume_block_size
     else Inr (serve_connections H ed_sign opts uuid error_text conns
                (initial_server opts produced producer_fails) initial_summary))"

section \<open>Completion\<close>

text \<open>The archive-end frame has been acknowledged.\<close>

definition end_acknowledged :: "server \<Rightarrow> bool" where
  "end_acknowledged s \<longleftrightarrow> sv_has_acked s \<and> sv_committed s \<and>
     (\<exists>e. sv_end_seq s = Some e \<and> e \<le> sv_last_acked s)"

named_theorems completes_intros

definition completes_acked :: "'a act \<Rightarrow> bool" where
  "completes_acked m \<longleftrightarrow> (\<forall>s s'. m s = (Returns True, s') \<longrightarrow> end_acknowledged s')"

definition ack_sound :: "ack_result act \<Rightarrow> bool" where
  "ack_sound m \<longleftrightarrow> (\<forall>s s'. m s = (Value Ack_archive_end, s') \<longrightarrow> end_acknowledged s')"

lemma completes_then [completes_intros]:
  "completes_acked m \<Longrightarrow> (\<And>a. completes_acked (f a)) \<Longrightarrow> completes_acked (then_act m f)"
  by (fastforce simp: completes_acked_def then_act_def split: flow.splits prod.splits)

lemma completes_cases [completes_intros]:
  "(\<And>s. completes_acked (f s)) \<Longrightarrow> completes_acked (get_act f)"
  "completes_acked a \<Longrightarrow> completes_acked b \<Longrightarrow> completes_acked (if c then a else b)"
  "completes_acked a \<Longrightarrow> (\<And>x. completes_acked (g x)) \<Longrightarrow> completes_acked (case ov of None \<Rightarrow> a | Some x \<Rightarrow> g x)"
  "(\<And>x. completes_acked (h x)) \<Longrightarrow> (\<And>y. completes_acked (k y)) \<Longrightarrow>
   completes_acked (case sv of Inl x \<Rightarrow> h x | Inr y \<Rightarrow> k y)"
  by (auto simp: completes_acked_def get_act_def split: option.split sum.split)

lemma completes_basic [completes_intros]:
  "completes_acked (done_act a)" "completes_acked (return_act False)" "completes_acked throw_act"
  "completes_acked (write_act m)" "completes_acked pop_act" "completes_acked (retain_act g rec)"
  "completes_acked (set_end_act g)" "completes_acked read_act"
  "completes_acked (\<lambda>s. (Value v, s\<lparr>sv_served := sv_served s + 1, sv_next_send := sv_next_send s + 1\<rparr>))"
  by (auto simp: completes_acked_def done_act_def return_act_def throw_act_def pop_act_def retain_act_def
      write_act_def set_end_act_def read_act_def split: list.splits if_splits sum.splits)

lemma completes_error [completes_intros]: "completes_acked (error_act t)" "completes_acked (fail_act t)"
  unfolding error_act_def fail_act_def by (intro completes_intros)+

lemma ack_sound_process: "ack_sound (process_ack_payload p)"
  by (auto simp: ack_sound_def process_ack_payload_def Let_def then_act_def error_act_def done_act_def
      write_act_def end_acknowledged_def split: if_splits option.splits)

lemma completes_process [completes_intros]: "completes_acked (process_ack_payload p)"
  by (auto simp: completes_acked_def process_ack_payload_def Let_def then_act_def error_act_def done_act_def
      write_act_def split: if_splits option.splits)

lemma drain_sound: "ack_sound (drain_acks_until limit)" "completes_acked (drain_acks_until limit)"
proof -
  have "(drain_acks_until limit s = (Value Ack_archive_end, s') \<longrightarrow> end_acknowledged s') \<and>
        (drain_acks_until limit s = (Returns True, s') \<longrightarrow> end_acknowledged s')" for s s'
  proof (induction limit s rule: drain_acks_until.induct)
    case (1 limit s)
    show ?case
    proof (cases "outstanding_frames s \<ge> limit")
      case True
      obtain r t where r: "read_act s = (r, t)" by force
      then have nt: "r \<noteq> Returns True" by (auto simp: read_act_def split: list.splits sum.splits)
      show ?thesis
      proof (cases "\<exists>a. r = Value (Some a) \<and> msg_type a = Ack_frame")
        case False
        then show ?thesis using True r nt
          by (subst (1 2) drain_acks_until.simps)
            (auto simp: then_act_def error_act_def done_act_def write_act_def split: flow.splits option.splits if_splits)
      next
        case ack: True
        then obtain a where a: "r = Value (Some a)" "msg_type a = Ack_frame" by blast
        obtain q u where q: "process_ack_payload (msg_payload a) t = (q, u)" by force
        show ?thesis
        proof (cases "q = Value Ack_accepted")
          case acc: True
          then have "drain_acks_until limit s = drain_acks_until limit u"
            using True r a q by (subst drain_acks_until.simps) simp
          then show ?thesis using 1 True r a q acc by auto
        next
          case False
          then have "drain_acks_until limit s = (q, u)" using True r a q
            by (subst drain_acks_until.simps) (auto split: flow.splits ack_result.splits)
          then show ?thesis using q ack_sound_process [of "msg_payload a"] completes_process [of "msg_payload a"]
            by (auto simp: ack_sound_def completes_acked_def)
        qed
      qed
    qed (subst (1 2) drain_acks_until.simps, simp)
  qed
  then show "ack_sound (drain_acks_until limit)" "completes_acked (drain_acks_until limit)"
    by (auto simp: ack_sound_def completes_acked_def)
qed

lemma completes_after_ack [completes_intros]:
  assumes "ack_sound m" and "completes_acked m" and "completes_acked a"
  shows "completes_acked (then_act m (\<lambda>r. case r of Ack_rejected \<Rightarrow> return_act False
      | Ack_accepted \<Rightarrow> a | Ack_archive_end \<Rightarrow> return_act True))"
  using assms
  by (fastforce simp: completes_acked_def ack_sound_def then_act_def return_act_def
      split: flow.splits prod.splits ack_result.splits)

lemmas completes_unfold = serve_request_def serve_next_frame_def serve_new_record_def
  serve_retained_record_def serve_done_def transmit_record_def sent_act_def

lemma completes_request: "completes_acked (serve_request H ed_sign opts uuid error_text req)"
  unfolding completes_unfold
  by (cases "msg_type req"; simp only: message_type.case;
      intro completes_intros ack_sound_process drain_sound)

lemma completes_loop [completes_intros]: "completes_acked (serve_loop H ed_sign opts uuid error_text pending)"
proof -
  have "serve_loop H ed_sign opts uuid error_text pending s = (Returns True, s') \<longrightarrow> end_acknowledged s'" for s s'
  proof (induction H ed_sign opts uuid error_text pending s rule: serve_loop.induct)
    case (1 H ed_sign opts uuid error_text pending s)
    obtain r t where r: "(if pending \<noteq> None then (Value pending, s) else read_act s) = (r, t)" by force
    then have nt: "r \<noteq> Returns True" by (auto simp: read_act_def split: list.splits sum.splits if_splits)
    show ?case
    proof (cases "\<exists>req. r = Value (Some req)")
      case False
      then show ?thesis using r nt
        by (subst serve_loop.simps) (auto simp del: not_None_eq split: flow.splits option.splits)
    next
      case True
      then obtain req where req: "r = Value (Some req)" by blast
      obtain q u where q: "serve_request H ed_sign opts uuid error_text req t = (q, u)" by force
      have c: "serve_loop H ed_sign opts uuid error_text pending s =
          (case q of Value _ \<Rightarrow> serve_loop H ed_sign opts uuid error_text None u | _ \<Rightarrow> (q, u))"
        unfolding serve_loop.simps [of H ed_sign opts uuid error_text pending s] r req
        using q by (auto split: flow.splits)
      show ?thesis
      proof (cases "\<exists>v. q = Value v")
        case val: True
        then show ?thesis using c 1 [OF r [symmetric] req refl q [symmetric]] by auto
      next
        case False
        then have "serve_loop H ed_sign opts uuid error_text pending s = (q, u)" using c by (cases q) auto
        then show ?thesis
          using completes_request [of H ed_sign opts uuid error_text req] q by (auto simp: completes_acked_def)
      qed
    qed
  qed
  then show ?thesis by (simp add: completes_acked_def)
qed

lemma completes_session: "completes_acked (serve_session H ed_sign opts uuid error_text)"
proof -
  have "completes_acked (handle_auth_challenge ed_sign opts p)" for p
    unfolding handle_auth_challenge_def by (intro completes_intros)
  then show ?thesis unfolding serve_session_def by (intro completes_intros)
qed

section \<open>The end number is that of an archive-end frame\<close>

text \<open>A record that is kept, or comes from the producer, under the number in its header; this matters for archive ends.\<close>

definition record_numbered :: "u64 \<Rightarrow> bytes \<Rightarrow> bool" where
  "record_numbered g rec \<longleftrightarrow>
     (\<forall>h. parse_fixed_header rec = Inr h \<and> channel_type h = ARCHIVE_END \<longrightarrow> global_frame_seq_num h = g)"

definition numbered :: "server \<Rightarrow> bool" where
  "numbered s \<longleftrightarrow> (\<forall>f \<in> set (rb_frames (sv_retention s)). record_numbered (fst f) (snd f)) \<and>
     (\<forall>r \<in> set (sv_queue s). \<not> vr_tape_eof r \<and> \<not> vr_done r \<longrightarrow> record_numbered (vr_global_seq r) (vr_record r))"

text \<open>An archive-end frame among the messages; with the number where \<open>k\<close> says that numbers are kept.\<close>

definition end_frame_in :: "bool \<Rightarrow> u64 \<Rightarrow> message list \<Rightarrow> bool" where
  "end_frame_in k e ms \<longleftrightarrow> (\<exists>m h. m \<in> set ms \<and> msg_type m = Frame_record \<and> parse_fixed_header (msg_payload m) = Inr h \<and>
     channel_type h = ARCHIVE_END \<and> (k \<longrightarrow> global_frame_seq_num h = e))"

text \<open>The invariant of a connection behind its first \<open>n\<close> messages: an end number stands for an archive-end frame that
  has been sent.\<close>

definition end_sent :: "bool \<Rightarrow> nat \<Rightarrow> server \<Rightarrow> bool" where
  "end_sent k n s \<longleftrightarrow> (k \<longrightarrow> numbered s) \<and> n \<le> length (cn_sent (sv_conn s)) \<and>
     (\<forall>e. sv_end_seq s = Some e \<longrightarrow> end_frame_in k e (drop n (cn_sent (sv_conn s))))"

named_theorems keeps_intros

text \<open>An action that goes on, or returns a complete archive, keeps the invariant.\<close>

definition keeps_end :: "bool \<Rightarrow> nat \<Rightarrow> 'a act \<Rightarrow> bool" where
  "keeps_end k n m \<longleftrightarrow> (\<forall>s r s'. m s = (r, s') \<longrightarrow> end_sent k n s \<longrightarrow> (\<exists>v. r = Value v) \<or> r = Returns True \<longrightarrow> end_sent k n s')"

lemma keeps_endD: "keeps_end k n m \<Longrightarrow> m s = (r, s') \<Longrightarrow> end_sent k n s \<Longrightarrow> (\<exists>v. r = Value v) \<or> r = Returns True \<Longrightarrow> end_sent k n s'"
  unfolding keeps_end_def by blast

lemma keeps_then [keeps_intros]:
  assumes "keeps_end k n m" and "\<And>a. keeps_end k n (f a)"
  shows "keeps_end k n (then_act m f)"
  unfolding keeps_end_def
proof (intro allI impI)
  fix s r s' assume a: "then_act m f s = (r, s')" "end_sent k n s" "(\<exists>v. r = Value v) \<or> r = Returns True"
  obtain q t where q: "m s = (q, t)" by force
  show "end_sent k n s'"
  proof (cases q)
    case (Value x)
    with keeps_endD [OF assms(1) q a(2)] have "end_sent k n t" by simp
    moreover have "f x t = (r, s')" using a(1) q Value by (simp add: then_act_def)
    ultimately show ?thesis using keeps_endD [OF assms(2)] a(3) by blast
  next
    case (Returns b)
    with keeps_endD [OF assms(1) q a(2)] a q show ?thesis by (auto simp: then_act_def)
  qed (use a q in \<open>auto simp: then_act_def\<close>)
qed

lemma keeps_cases [keeps_intros]:
  "(\<And>s. keeps_end k n (f s)) \<Longrightarrow> keeps_end k n (get_act f)"
  "keeps_end k n a \<Longrightarrow> keeps_end k n b \<Longrightarrow> keeps_end k n (if c then a else b)"
  "keeps_end k n a \<Longrightarrow> (\<And>x. keeps_end k n (g x)) \<Longrightarrow> keeps_end k n (case ov of None \<Rightarrow> a | Some x \<Rightarrow> g x)"
  "(\<And>x. keeps_end k n (h x)) \<Longrightarrow> (\<And>y. keeps_end k n (l y)) \<Longrightarrow> keeps_end k n (case sv of Inl x \<Rightarrow> h x | Inr y \<Rightarrow> l y)"
  "keeps_end k n a \<Longrightarrow> keeps_end k n b \<Longrightarrow> keeps_end k n d \<Longrightarrow>
   keeps_end k n (case rv of Ack_rejected \<Rightarrow> a | Ack_accepted \<Rightarrow> b | Ack_archive_end \<Rightarrow> d)"
  by (auto simp: keeps_end_def get_act_def split: option.split sum.split ack_result.split)

lemma end_frame_in_snoc: "end_frame_in k e ms \<Longrightarrow> end_frame_in k e (ms @ [m])"
  by (fastforce simp: end_frame_in_def)

lemma remove_seq_set: "set (remove_seq g fs) \<subseteq> set fs"
  by (induction fs) auto

lemma keeps_write [keeps_intros]: "keeps_end k n (write_act m)"
  by (auto simp: keeps_end_def end_sent_def numbered_def write_act_def intro: end_frame_in_snoc split: if_splits)

lemma keeps_basic [keeps_intros]:
  "keeps_end k n (done_act a)" "keeps_end k n (return_act b)" "keeps_end k n throw_act"
  "keeps_end k n (\<lambda>s. (Value v, s\<lparr>sv_served := sv_served s + 1, sv_next_send := sv_next_send s + 1\<rparr>))"
  "keeps_end k n read_act"
  by (auto simp: keeps_end_def end_sent_def numbered_def done_act_def return_act_def throw_act_def read_act_def
      split: list.splits)

lemma keeps_error [keeps_intros]: "keeps_end k n (error_act t)" "keeps_end k n (fail_act t)"
  unfolding error_act_def fail_act_def by (intro keeps_intros)+

lemma keeps_process [keeps_intros]: "keeps_end k n (process_ack_payload p)"
proof -
  have rejected: "keeps_end k n (then_act (error_act t) (\<lambda>_. done_act Ack_rejected))" for t by (intro keeps_intros)
  have accepted: "end_sent k n s \<Longrightarrow> end_sent k n (s\<lparr>sv_committed := True, sv_last_acked := g, sv_has_acked := True,
      sv_retention := retention_ack (sv_retention s) g\<rparr>)" for s g
    using remove_seq_set [of g "rb_frames (sv_retention s)"] by (auto simp: end_sent_def numbered_def retention_ack_def)
  show ?thesis unfolding keeps_end_def
  proof (intro allI impI)
    fix s r s' assume a: "process_ack_payload p s = (r, s')" "end_sent k n s" "(\<exists>v. r = Value v) \<or> r = Returns True"
    show "end_sent k n s'"
    proof (cases "length p = 8 \<and> le64_from_bytes p = expected_ack s")
      case True
      with a(1) accepted [OF a(2)] show ?thesis by (auto simp: process_ack_payload_def Let_def)
    next
      case False
      then have "\<exists>t. process_ack_payload p s = then_act (error_act t) (\<lambda>_. done_act Ack_rejected) s"
        by (cases "length p = 8") (auto simp: process_ack_payload_def Let_def)
      then obtain t where "process_ack_payload p s = then_act (error_act t) (\<lambda>_. done_act Ack_rejected) s" ..
      with a keeps_endD [OF rejected] show ?thesis by simp
    qed
  qed
qed

lemma keeps_drain [keeps_intros]: "keeps_end k n (drain_acks_until limit)"
proof -
  have rejected: "keeps_end k n (then_act (error_act t) (\<lambda>_. done_act Ack_rejected))" for t by (intro keeps_intros)
  have "drain_acks_until limit s = (r, s') \<Longrightarrow> end_sent k n s \<Longrightarrow> (\<exists>v. r = Value v) \<or> r = Returns True \<Longrightarrow> end_sent k n s'" for r s s'
  proof (induction limit s rule: drain_acks_until.induct)
    case (1 limit s)
    show ?case
    proof (cases "outstanding_frames s \<ge> limit")
      case True
      obtain q t where q: "read_act s = (q, t)" by force
      show ?thesis
      proof (cases "\<exists>v. q = Value v")
        case False
        with True q 1(2,4) show ?thesis
          by (subst (asm) drain_acks_until.simps) (auto simp: read_act_def split: flow.splits list.splits sum.splits)
      next
        case True': True
        then obtain v where v: "q = Value v" by blast
        have t: "end_sent k n t" using keeps_endD [OF keeps_basic(5) q 1(3)] v by simp
        show ?thesis
        proof (cases "\<exists>a. v = Some a \<and> msg_type a = Ack_frame")
          case False
          with True q v 1(2,4) t keeps_endD [OF rejected _ t] show ?thesis
            by (subst (asm) drain_acks_until.simps) (auto split: option.splits if_splits)
        next
          case ack: True
          then obtain a where a: "v = Some a" "msg_type a = Ack_frame" by blast
          obtain x u where x: "process_ack_payload (msg_payload a) t = (x, u)" by force
          show ?thesis
          proof (cases "x = Value Ack_accepted")
            case acc: True
            have u: "end_sent k n u" using keeps_endD [OF keeps_process x t] acc by simp
            have "drain_acks_until limit u = (r, s')"
              using 1(2) True q v a x acc by (subst (asm) drain_acks_until.simps) simp
            with 1(1) [OF True q [symmetric] v [unfolded a(1)] refl] a x acc u 1(4) show ?thesis by auto
          next
            case False
            then have "drain_acks_until limit s = (x, u)" using True q v a x
              by (subst drain_acks_until.simps) (auto split: flow.splits ack_result.splits)
            with 1(2,4) keeps_endD [OF keeps_process x t] show ?thesis by auto
          qed
        qed
      qed
    next
      case False
      with 1(2,3) show ?thesis by (subst (asm) drain_acks_until.simps) simp
    qed
  qed
  then show ?thesis by (auto simp: keeps_end_def)
qed

text \<open>Records keep their channel and number when they are re-numbered, and the archive end is built with both.\<close>

definition signer_fits :: "(bytes \<Rightarrow> bytes) \<Rightarrow> ed_sign \<Rightarrow> volume_server_options \<Rightarrow> bool" where
  "signer_fits H ed_sign opts \<longleftrightarrow> valid_block_size (vo_block_size opts) \<and> hash_width H \<and>
     (\<exists>ed_open pk. signer_ok ed_sign ed_open (vo_signer opts) pk)"

lemma patched_header:
  assumes "patch_volume_seq_num H ed_sign rec v (vo_signer opts) = Inr rec'" and "parse_fixed_header rec = Inr h"
    and "signer_fits H ed_sign opts"
  shows "\<exists>h'. parse_fixed_header rec' = Inr h' \<and> channel_type h' = channel_type h \<and> global_frame_seq_num h' = global_frame_seq_num h"
proof -
  from assms(3) obtain ed_open pk where s: "hash_width H" "signer_ok ed_sign ed_open (vo_signer opts) pk" by (auto simp: signer_fits_def)
  from patch_volume_cases [OF assms(1,2) s] show ?thesis
  proof cases
    case 1
    with assms(2) show ?thesis by simp
  next
    case (2 h')
    from parse_sealed_image [OF 2(2)] 2(1)
    have "parse_fixed_header rec' = Inr (canon_header h')" by simp
    moreover have "channel_type h' = channel_type h" "global_frame_seq_num h' = global_frame_seq_num h"
      by (subst 2(3), simp)+
    ultimately show ?thesis by simp
  qed
qed

lemma built_end_header:
  assumes "build_archive_end_record H ed_sign (vo_block_size opts) v uuid name g (vo_signer opts) = Inr ae"
    and "signer_fits H ed_sign opts"
  shows "\<exists>h. parse_fixed_header ae = Inr h \<and> channel_type h = ARCHIVE_END \<and> global_frame_seq_num h = g"
proof -
  let ?h = "archive_end_header (vo_block_size opts) v uuid name g"
  from assms(2) obtain ed_open pk where s: "valid_block_size (vo_block_size opts)" "hash_width H"
    "signer_ok ed_sign ed_open (vo_signer opts) pk" by (auto simp: signer_fits_def)
  have l: "fixed_header_size \<le> length (replicate (unat (vo_block_size opts)) (0 :: u8))"
    using valid_block_size_unat [OF s(1)] by (simp add: fixed_header_size_def)
  from assms(1) obtain h' where
    "finalize_record H ed_sign ?h (replicate (unat (vo_block_size opts)) 0) (vo_signer opts) = Inr (h', ae)"
    by (auto simp: build_archive_end_record_def archive_end_header_def Let_def bind_res_Inr)
  note f = finalize_sealed [OF archive_end_header_ok(2) [OF s(1)] l s(2,3) this]
  from parse_sealed_image [OF f(1)] f(2) have "parse_fixed_header ae = Inr (canon_header h')" by simp
  moreover have "channel_type h' = ARCHIVE_END" "global_frame_seq_num h' = g"
    by (subst f(3), simp add: archive_end_header_def)+
  ultimately show ?thesis by simp
qed

text \<open>The three places where frames go out.\<close>

lemma keeps_sent [keeps_intros]: "keeps_end k n (sent_act rec)"
  unfolding sent_act_def by (intro keeps_intros)

lemma keeps_transmit [keeps_intros]: "keeps_end k n (transmit_record H ed_sign opts rec)"
  unfolding transmit_record_def by (intro keeps_intros)

lemma set_tl_subset: "set (tl xs) \<subseteq> set xs"
  by (cases xs) auto

lemma keeps_retain: "(k \<Longrightarrow> record_numbered g rec) \<Longrightarrow> keeps_end k n (retain_act g rec)"
  by (auto simp: keeps_end_def retain_act_def end_sent_def numbered_def retention_add_def
      dest: subsetD [OF set_tl_subset] split: if_splits)

text \<open>Setting the end number and sending the frame of it, as one step.\<close>

lemma end_sent_act:
  assumes "parse_fixed_header rec = Inr h" and "channel_type h = ARCHIVE_END" and "k \<Longrightarrow> global_frame_seq_num h = e"
    and "end_sent k n s" and "sent_act rec (s\<lparr>sv_end_seq := Some e\<rparr>) = (r, s')" and "(\<exists>v. r = Value v) \<or> r = Returns True"
  shows "end_sent k n s'"
proof -
  have "s' = s\<lparr>sv_end_seq := Some e, sv_conn := (sv_conn s)\<lparr>cn_writes_left := cn_writes_left (sv_conn s) - 1,
      cn_sent := cn_sent (sv_conn s) @ [\<lparr>msg_type = Frame_record, msg_payload = rec\<rparr>]\<rparr>,
      sv_served := sv_served s + 1, sv_next_send := sv_next_send s + 1\<rparr>"
    using assms(5,6) by (auto simp: sent_act_def then_act_def write_act_def split: if_splits)
  moreover have "end_frame_in k e (drop n (cn_sent (sv_conn s)) @ [\<lparr>msg_type = Frame_record, msg_payload = rec\<rparr>])"
    using assms(1-3) by (auto simp: end_frame_in_def)
  ultimately show ?thesis using assms(4) by (simp add: end_sent_def numbered_def)
qed

lemma keeps_end_step:
  assumes "parse_fixed_header rec = Inr h" and "channel_type h = ARCHIVE_END" and "k \<Longrightarrow> global_frame_seq_num h = e"
  shows "keeps_end k n (then_act (set_end_act e) (\<lambda>_. sent_act rec))"
  using end_sent_act [where k = k and n = n, OF assms]
  by (auto simp: keeps_end_def then_act_def set_end_act_def split: prod.splits)

lemma keeps_serve_done:
  assumes "signer_fits H ed_sign opts"
  shows "keeps_end k n (serve_done H ed_sign opts uuid next)"
proof -
  have body: "keeps_end k n (case build_archive_end_record H ed_sign (vo_block_size opts) v uuid (vo_archive_name opts)
      (vr_global_seq next) (vo_signer opts) of
        Inl e \<Rightarrow> throw_act
      | Inr ae \<Rightarrow> then_act (retain_act (vr_global_seq next) ae) (\<lambda>_.
                    then_act (set_end_act (vr_global_seq next)) (\<lambda>_. sent_act ae)))" for v
  proof (cases "build_archive_end_record H ed_sign (vo_block_size opts) v uuid (vo_archive_name opts) (vr_global_seq next) (vo_signer opts)")
    case (Inl e)
    then show ?thesis by (simp add: keeps_basic)
  next
    case (Inr ae)
    from built_end_header [OF Inr assms] obtain h where
      h: "parse_fixed_header ae = Inr h" "channel_type h = ARCHIVE_END" "global_frame_seq_num h = vr_global_seq next" by blast
    then have "record_numbered (vr_global_seq next) ae" by (simp add: record_numbered_def)
    then show ?thesis unfolding Inr sum.case by (intro keeps_then keeps_retain keeps_end_step [OF h(1,2)]) (simp_all add: h(3))
  qed
  show ?thesis unfolding serve_done_def by (intro keeps_then keeps_drain keeps_cases(1,5) keeps_basic body)
qed

lemma keeps_pop:
  assumes "keeps_end k n (f None)"
    and "\<And>next. (k \<Longrightarrow> \<not> vr_tape_eof next \<Longrightarrow> \<not> vr_done next \<Longrightarrow> record_numbered (vr_global_seq next) (vr_record next)) \<Longrightarrow>
      keeps_end k n (f (Some next))"
  shows "keeps_end k n (then_act pop_act f)"
  unfolding keeps_end_def
proof (intro allI impI)
  fix s r s' assume a: "then_act pop_act f s = (r, s')" "end_sent k n s" "(\<exists>v. r = Value v) \<or> r = Returns True"
  show "end_sent k n s'"
  proof (cases "sv_queue s")
    case Nil
    with a keeps_endD [OF assms(1) _ a(2)] show ?thesis by (auto simp: then_act_def pop_act_def split: if_splits)
  next
    case (Cons x rest)
    then have "f (Some x) (s\<lparr>sv_queue := rest\<rparr>) = (r, s')" using a(1) by (simp add: then_act_def pop_act_def)
    moreover have "end_sent k n (s\<lparr>sv_queue := rest\<rparr>)" using a(2) Cons by (auto simp: end_sent_def numbered_def)
    moreover have "keeps_end k n (f (Some x))" using a(2) Cons by (intro assms(2)) (auto simp: end_sent_def numbered_def)
    ultimately show ?thesis using keeps_endD a(3) by blast
  qed
qed

lemma keeps_serve_new:
  assumes "signer_fits H ed_sign opts"
  shows "keeps_end k n (serve_new_record H ed_sign opts uuid error_text)"
  unfolding serve_new_record_def
proof (rule keeps_pop)
  fix nr :: volume_record
  assume r: "k \<Longrightarrow> \<not> vr_tape_eof nr \<Longrightarrow> \<not> vr_done nr \<Longrightarrow> record_numbered (vr_global_seq nr) (vr_record nr)"
  have retain: "keeps_end k n (retain_act (vr_global_seq nr) (vr_record nr))" if "\<not> vr_tape_eof nr" "\<not> vr_done nr"
    using r that by (intro keeps_retain)
  show "keeps_end k n (case Some nr of None \<Rightarrow> fail_act (if error_text = [] then ''frame queue closed'' else error_text)
    | Some next \<Rightarrow>
        if vr_tape_eof next then write_act \<lparr>msg_type = Tape_eof, msg_payload = []\<rparr>
        else if vr_done next then serve_done H ed_sign opts uuid next
        else get_act (\<lambda>s. if vr_global_seq next \<noteq> sv_next_send s then
                     fail_act ''requested frame is no longer retained''
                   else then_act (retain_act (vr_global_seq next) (vr_record next)) (\<lambda>_.
                          transmit_record H ed_sign opts (vr_record next))))"
    unfolding option.case
    by (cases "vr_tape_eof nr"; cases "vr_done nr"; simp only: if_True if_False;
        intro keeps_intros keeps_serve_done [OF assms] retain)
qed (simp only: option.case, intro keeps_intros)

text \<open>A retained record: the end number is set only for an archive end, and the frame of it is sent.\<close>

lemma serve_retained_end:
  assumes "signer_fits H ed_sign opts" and "k \<Longrightarrow> record_numbered (sv_next_send s) rec" and "end_sent k n s"
    and "serve_retained_record H ed_sign opts rec s = (r, s')" and "(\<exists>v. r = Value v) \<or> r = Returns True"
  shows "end_sent k n s'"
proof -
  from assms(4,5) obtain hdr where hdr: "parse_fixed_header rec = Inr hdr"
    by (auto simp: serve_retained_record_def throw_act_def split: sum.splits)
  show ?thesis
  proof (cases "channel_type hdr = ARCHIVE_END")
    case False
    with assms(4) hdr have "transmit_record H ed_sign opts rec s = (r, s')"
      by (simp add: serve_retained_record_def get_act_def then_act_def done_act_def)
    with keeps_endD [OF keeps_transmit _ assms(3)] assms(5) show ?thesis by blast
  next
    case True
    let ?s = "s\<lparr>sv_end_seq := Some (sv_next_send s)\<rparr>"
    from True assms(4) hdr have t: "transmit_record H ed_sign opts rec ?s = (r, s')"
      by (simp add: serve_retained_record_def get_act_def then_act_def set_end_act_def)
    with assms(5) obtain rec' where p: "patch_volume_seq_num H ed_sign rec (sv_next_volume s) (vo_signer opts) = Inr rec'"
      and sent: "sent_act rec' ?s = (r, s')"
      by (auto simp: transmit_record_def get_act_def throw_act_def fail_act_def error_act_def write_act_def then_act_def
          return_act_def split: if_splits sum.splits)
    from patched_header [OF p hdr assms(1)] obtain h where h: "parse_fixed_header rec' = Inr h"
      "channel_type h = ARCHIVE_END" "global_frame_seq_num h = global_frame_seq_num hdr" using True by auto
    have "global_frame_seq_num h = sv_next_send s" if k
      using assms(2) [OF that] hdr True h(3) by (simp add: record_numbered_def)
    from end_sent_act [OF h(1,2) this assms(3) sent assms(5)] show ?thesis .
  qed
qed

lemma retention_get_in: "retention_get rb g = Some rec \<Longrightarrow> (g, rec) \<in> set (rb_frames rb)"
  by (auto simp: retention_get_def find_Some_iff) (metis fst_conv nth_mem)

lemma keeps_serve_next:
  assumes "signer_fits H ed_sign opts"
  shows "keeps_end k n (serve_next_frame H ed_sign opts uuid error_text)"
proof -
  have body: "keeps_end k n (get_act (\<lambda>s. case retention_get (sv_retention s) (sv_next_send s) of
                 Some rec \<Rightarrow> serve_retained_record H ed_sign opts rec
               | None \<Rightarrow> serve_new_record H ed_sign opts uuid error_text))"
    unfolding keeps_end_def
  proof (intro allI impI)
    fix s r s'
    assume a: "get_act (\<lambda>s. case retention_get (sv_retention s) (sv_next_send s) of
                 Some rec \<Rightarrow> serve_retained_record H ed_sign opts rec
               | None \<Rightarrow> serve_new_record H ed_sign opts uuid error_text) s = (r, s')"
      and s: "end_sent k n s" and r: "(\<exists>v. r = Value v) \<or> r = Returns True"
    show "end_sent k n s'"
    proof (cases "retention_get (sv_retention s) (sv_next_send s)")
      case None
      with a keeps_endD [OF keeps_serve_new [OF assms] _ s r] show ?thesis by (simp add: get_act_def)
    next
      case (Some rec)
      have "record_numbered (sv_next_send s) rec" if k
        using s that retention_get_in [OF Some] by (auto simp: end_sent_def numbered_def)
      from serve_retained_end [OF assms this s _ r] a Some show ?thesis by (simp add: get_act_def)
    qed
  qed
  show ?thesis unfolding serve_next_frame_def by (intro keeps_then keeps_drain keeps_cases(5) keeps_basic body)
qed

lemma keeps_request:
  assumes "signer_fits H ed_sign opts"
  shows "keeps_end k n (serve_request H ed_sign opts uuid error_text req)"
  unfolding serve_request_def
  by (cases "msg_type req"; simp only: message_type.case; intro keeps_intros keeps_serve_next [OF assms])

lemma keeps_loop:
  assumes "signer_fits H ed_sign opts"
  shows "keeps_end k n (serve_loop H ed_sign opts uuid error_text pending)"
proof -
  have "signer_fits H ed_sign opts \<Longrightarrow> serve_loop H ed_sign opts uuid error_text pending s = (r, s') \<Longrightarrow> end_sent k n s \<Longrightarrow>
      (\<exists>v. r = Value v) \<or> r = Returns True \<Longrightarrow> end_sent k n s'" for r s s'
  proof (induction H ed_sign opts uuid error_text pending s rule: serve_loop.induct)
    case (1 H ed_sign opts uuid error_text pending s)
    obtain x t where x: "(if pending \<noteq> None then (Value pending, s) else read_act s) = (x, t)" by force
    show ?case
    proof (cases "\<exists>req. x = Value (Some req)")
      case False
      with x 1(3,5) show ?thesis
        by (subst (asm) serve_loop.simps)
          (auto simp: read_act_def simp del: not_None_eq split: flow.splits option.splits list.splits sum.splits if_splits)
    next
      case True
      then obtain req where req: "x = Value (Some req)" by blast
      have t: "end_sent k n t"
        using x req 1(4) keeps_endD [OF keeps_basic(5) _ 1(4)] by (cases "pending = None") auto
      obtain q u where q: "serve_request H ed_sign opts uuid error_text req t = (q, u)" by force
      have c: "serve_loop H ed_sign opts uuid error_text pending s =
          (case q of Value _ \<Rightarrow> serve_loop H ed_sign opts uuid error_text None u | _ \<Rightarrow> (q, u))"
        unfolding serve_loop.simps [of H ed_sign opts uuid error_text pending s] x req
        using q by (auto split: flow.splits)
      note u = keeps_endD [OF keeps_request [OF 1(2)] q t]
      show ?thesis
      proof (cases "\<exists>v. q = Value v")
        case val: True
        then have "serve_loop H ed_sign opts uuid error_text None u = (r, s')" using c 1(3) by auto
        with 1(1) [OF x [symmetric] req refl q [symmetric]] val 1(2,5) u show ?thesis by auto
      next
        case False
        then have "(q, u) = (r, s')" using c 1(3) by (cases q) auto
        with u 1(5) show ?thesis by auto
      qed
    qed
  qed
  with assms show ?thesis by (auto simp: keeps_end_def)
qed

lemma keeps_session:
  assumes "signer_fits H ed_sign opts"
  shows "keeps_end k n (serve_session H ed_sign opts uuid error_text)"
proof -
  have "keeps_end k n (handle_auth_challenge ed_sign opts p)" for p
    unfolding handle_auth_challenge_def by (intro keeps_intros)
  then show ?thesis unfolding serve_session_def by (intro keeps_intros keeps_loop [OF assms])
qed

section \<open>Properties\<close>


text \<open>Acknowledgements are strictly sequential: an acknowledgement is accepted exactly
  when it is 8 bytes long and carries the number after the last acknowledged one (0 at first);
  it then moves the last acknowledged number to it and releases that frame, and otherwise
  nothing but the error message changes.\<close>
lemma ack_accepted_iff:
  assumes "0 < cn_writes_left (sv_conn s)" and "process_ack_payload p s = (r, s')"
  shows "(length p = 8 \<and> le64_from_bytes p = (if sv_has_acked s then sv_last_acked s + 1 else 0) \<and>
      r \<noteq> Value Ack_rejected \<and> sv_last_acked s' = le64_from_bytes p \<and> sv_has_acked s' \<and>
      sv_retention s' = retention_ack (sv_retention s) (le64_from_bytes p) \<and> sv_conn s' = sv_conn s) \<or>
    (\<not> (length p = 8 \<and> le64_from_bytes p = (if sv_has_acked s then sv_last_acked s + 1 else 0)) \<and>
      r = Value Ack_rejected \<and> s' = s\<lparr>sv_conn := sv_conn s'\<rparr> \<and>
      map msg_type (cn_sent (sv_conn s')) = map msg_type (cn_sent (sv_conn s)) @ [Error_msg])"
  using assms
  by (auto simp: process_ack_payload_def Let_def expected_ack_def then_act_def error_act_def done_act_def
      write_act_def error_message_def split: if_splits option.splits)

section \<open>Three weak points\<close>

lemma drain_closed:
  "cn_reads (sv_conn s) = [] \<Longrightarrow> outstanding_frames s \<ge> limit \<Longrightarrow> drain_acks_until limit s = (Value Ack_rejected, s)"
  by (subst drain_acks_until.simps) (simp add: read_act_def)

lemma drain_open: "\<not> outstanding_frames s \<ge> limit \<Longrightarrow> drain_acks_until limit s = (Value Ack_accepted, s)"
  by (subst drain_acks_until.simps) simp

text \<open>A connection that has sent everything but the archive end, and is about to pop it.\<close>

definition before_end :: "volume_server_options \<Rightarrow> server \<Rightarrow> bool" where
  "before_end opts s \<longleftrightarrow> sv_end_seq s = None \<and> outstanding_frames s < vo_retention_count opts \<and>
     retention_get (sv_retention s) (sv_next_send s) = None"

lemmas serve_eval = serve_request_def serve_next_frame_def get_act_def then_act_def drain_open before_end_def
  serve_new_record_def pop_act_def return_act_def write_act_def error_act_def fail_act_def done_act_def

text \<open>C23. The end of the archive is lost when the connection breaks while the server waits for
  the last acknowledgements: the end marker has left the queue and is not retained, and every later
  connection that has caught up waits for ever on the empty queue.\<close>
theorem end_marker_lost:
  assumes "before_end opts s" and "sv_queue s = [d]" and "vr_done d" and "\<not> vr_tape_eof d"
    and "outstanding_frames s \<noteq> 0" and "cn_reads (sv_conn s) = []" and "msg_type req = Next_frame"
  shows "serve_request H ed_sign opts uuid error_text req s = (Returns False, s\<lparr>sv_queue := []\<rparr>) \<and>
    (\<forall>u. before_end opts u \<longrightarrow> sv_queue u = [] \<longrightarrow> \<not> sv_queue_closed u \<longrightarrow>
      serve_request H ed_sign opts uuid error_text req u = (Waits, u))"
proof (intro conjI allI impI)
  have "\<not> vo_retention_count opts \<le> outstanding_frames s" using assms(1) by (simp add: before_end_def not_le)
  moreover have "outstanding_frames (s\<lparr>sv_queue := []\<rparr>) \<ge> 1"
    using assms(5) word_less_1 [of "outstanding_frames s"] by (auto simp: outstanding_frames_def expected_ack_def not_less [symmetric] split: if_splits)
  ultimately show "serve_request H ed_sign opts uuid error_text req s = (Returns False, s\<lparr>sv_queue := []\<rparr>)"
    using assms drain_closed [of "s\<lparr>sv_queue := []\<rparr>" 1]
    by (simp add: serve_eval serve_done_def)
next
  fix u
  assume "before_end opts u" "sv_queue u = []" "\<not> sv_queue_closed u"
  moreover from this have "\<not> vo_retention_count opts \<le> outstanding_frames u" by (simp add: before_end_def not_le)
  ultimately show "serve_request H ed_sign opts uuid error_text req u = (Waits, u)"
    using assms(7) by (simp add: serve_eval)
qed

text \<open>A slice boundary is sent once and not retained: serving it sends one tape-eof
  message, takes it from the queue and leaves the retained frames as they were, so when the
  connection breaks before the message arrives nothing is left to send it again from.\<close>
lemma slice_boundary_not_retained:
  assumes "before_end opts s" and "sv_queue s = d # rest" and "vr_tape_eof d"
    and "0 < cn_writes_left (sv_conn s)" and "msg_type req = Next_frame"
  shows "\<exists>s'. serve_request H ed_sign opts uuid error_text req s = (Value (), s') \<and>
    cn_sent (sv_conn s') = cn_sent (sv_conn s) @ [\<lparr>msg_type = Tape_eof, msg_payload = []\<rparr>] \<and>
    sv_queue s' = rest \<and> sv_retention s' = sv_retention s"
proof -
  have "\<not> vo_retention_count opts \<le> outstanding_frames s" using assms(1) by (simp add: before_end_def not_le)
  then show ?thesis using assms by (simp add: serve_eval)
qed

text \<open>An acknowledgement of a frame that was never sent is accepted, as the check is only
  that it is the next number: on a fresh server the acknowledgement of frame 0 commits volume 1
  before any frame has left the queue, and the next connection starts at frame 1.\<close>
lemma unsent_frame_acknowledged:
  assumes "\<not> sv_has_acked s" and "sv_next_send s = 0"
  shows "\<exists>s'. process_ack_payload (uint64_to_le_bytes 0) s = (Value (case sv_end_seq s of
        Some e \<Rightarrow> if 0 \<ge> e then Ack_archive_end else Ack_accepted | None \<Rightarrow> Ack_accepted), s') \<and>
      sv_committed s' \<and> sv_served s' = sv_served s \<and> sv_queue s' = sv_queue s \<and>
      sv_next_send (enter_connection c s') = 1"
  using assms by (simp add: process_ack_payload_def Let_def expected_ack_def enter_connection_def)

section \<open>Concrete instances\<close>

definition sample_options :: volume_server_options where
  "sample_options = \<lparr>vo_block_size = 4096, vo_archive_name = [97], vo_initial_volume = 1,
     vo_retention_count = 256, vo_signer = None\<rparr>"

text \<open>Frame 0 has been sent and not acknowledged, and the producer has pushed the given records.\<close>

definition sample_server :: "message option list \<Rightarrow> volume_record list \<Rightarrow> server" where
  "sample_server msgs recs = (initial_server sample_options recs False)
     \<lparr>sv_conn := \<lparr>cn_reads = map Inr msgs, cn_writes_left = 10, cn_sent = []\<rparr>,
      sv_retention := \<lparr>rb_max_frames = 256, rb_frames = [(0, [])]\<rparr>, sv_next_send := 1\<rparr>"

definition end_record :: volume_record where
  "end_record = \<lparr>vr_record = [], vr_global_seq = 1, vr_tape_eof = False, vr_done = True\<rparr>"

definition boundary_record :: volume_record where
  "boundary_record = \<lparr>vr_record = [], vr_global_seq = 0, vr_tape_eof = True, vr_done = False\<rparr>"

definition next_request :: message where
  "next_request = \<lparr>msg_type = Next_frame, msg_payload = []\<rparr>"

lemma sample_before_end: "before_end sample_options (sample_server msgs recs)"
  by (simp add: before_end_def sample_server_def initial_server_def sample_options_def outstanding_frames_def
      expected_ack_def retention_get_def)

theorem end_marker_lost_witness:
  "fst (serve_request zero_hash toy_sign sample_options [] [] next_request (sample_server [] [end_record])) = Returns False \<and>
   fst (serve_request zero_hash toy_sign sample_options [] [] next_request (sample_server [] [])) = Waits"
proof -
  have "sv_queue (sample_server [] [end_record]) = [end_record]" "vr_done end_record" "\<not> vr_tape_eof end_record"
    "outstanding_frames (sample_server [] [end_record]) \<noteq> 0" "cn_reads (sv_conn (sample_server [] [end_record])) = []"
    "msg_type next_request = Next_frame" "sv_queue (sample_server [] []) = []" "\<not> sv_queue_closed (sample_server [] [])"
    by (simp_all add: sample_server_def initial_server_def end_record_def outstanding_frames_def expected_ack_def
        next_request_def)
  with end_marker_lost [OF sample_before_end this(1-6), of zero_hash toy_sign "[]" "[]"] sample_before_end [of "[]" "[]"]
  show ?thesis by simp
qed

lemma slice_boundary_not_retained_witness:
  "\<exists>s'. serve_request zero_hash toy_sign sample_options [] [] next_request (sample_server [] [boundary_record]) = (Value (), s') \<and>
    rb_frames (sv_retention s') = [(0, [])]"
proof -
  have s: "sv_queue (sample_server [] [boundary_record]) = boundary_record # []" "vr_tape_eof boundary_record"
    "0 < cn_writes_left (sv_conn (sample_server [] [boundary_record]))" "msg_type next_request = Next_frame"
    "rb_frames (sv_retention (sample_server [] [boundary_record])) = [(0, [])]"
    by (simp_all add: sample_server_def initial_server_def boundary_record_def next_request_def)
  from slice_boundary_not_retained [OF sample_before_end s(1-4), of zero_hash toy_sign "[]" "[]"] s(5)
  show ?thesis by auto
qed

lemma unsent_frame_acknowledged_witness:
  "\<exists>s'. process_ack_payload (uint64_to_le_bytes 0) (initial_server sample_options [] False) = (Value Ack_accepted, s') \<and>
    sv_committed s' \<and> sv_served s' = 0"
proof -
  have "\<not> sv_has_acked (initial_server sample_options [] False)" "sv_next_send (initial_server sample_options [] False) = 0"
    "sv_end_seq (initial_server sample_options [] False) = None" "sv_served (initial_server sample_options [] False) = 0"
    by (simp_all add: initial_server_def)
  from unsent_frame_acknowledged [OF this(1,2)] this(3,4) show ?thesis by auto
qed

lemma ack_accepted_iff_witness:
  "\<exists>s'. process_ack_payload (uint64_to_le_bytes 0) (sample_server [] []) = (Value Ack_accepted, s') \<and>
    sv_last_acked s' = 0 \<and> rb_frames (sv_retention s') = []"
proof -
  obtain r s' where p: "process_ack_payload (uint64_to_le_bytes 0) (sample_server [] []) = (r, s')" by force
  have w: "0 < cn_writes_left (sv_conn (sample_server [] []))" "\<not> sv_has_acked (sample_server [] [])"
    by (simp_all add: sample_server_def initial_server_def)
  from ack_accepted_iff [OF w(1) p] w(2) have "sv_last_acked s' = 0" "r \<noteq> Value Ack_rejected"
    "sv_retention s' = retention_ack (sv_retention (sample_server [] [])) 0" by auto
  moreover have "r = Value Ack_accepted"
    using p calculation(2) by (auto simp: process_ack_payload_def Let_def expected_ack_def sample_server_def
        initial_server_def split: if_splits)
  ultimately show ?thesis using p
    by (simp add: sample_server_def initial_server_def retention_ack_def)
qed

definition end_only_connection :: connection where
  "end_only_connection = \<lparr>cn_reads = [Inr (Some next_request),
       Inr (Some \<lparr>msg_type = Ack_frame, msg_payload = uint64_to_le_bytes 0\<rparr>)],
     cn_writes_left = 10, cn_sent = []\<rparr>"

lemma end_only_completes:
  "\<exists>r s'. serve_volume_client zero_hash toy_sign sample_options [] [] end_only_connection
      (initial_server sample_options [end_record\<lparr>vr_global_seq := 0\<rparr>] False) = (Some r, s') \<and> sr_archive_complete r"
proof -
  have "valid_block_size 4096"
    by (simp add: valid_block_size_def min_block_size_def max_block_size_def)
  from build_archive_end_ok [OF this zero_hash_width] obtain ae where
    b: "build_archive_end_record zero_hash toy_sign 4096 1 [] [97] 0 None = Inr ae" by blast
  show ?thesis
    by (simp add: serve_volume_client_def serve_session_def end_only_connection_def enter_connection_def
        initial_server_def expected_ack_def read_act_def then_act_def next_request_def serve_loop.simps
        serve_request_def get_act_def serve_next_frame_def drain_open outstanding_frames_def sample_options_def
        retention_get_def serve_new_record_def pop_act_def end_record_def serve_done_def b retain_act_def
        set_end_act_def sent_act_def write_act_def process_ack_payload_def return_act_def done_act_def Let_def)
qed


end
