(* ===== verification/Text.thy ===== *)
theory Text
  imports Prelude
begin

text \<open>
  src/neotape_common.cpp: parsing of numbers and sizes, escaping of path bytes for
  diagnostics, hexadecimal output and trailing slashes.  A \<open>std::string\<close> is a character
  list; \<open>static_cast<unsigned char>\<close> of a character is \<open>of_char\<close>.
\<close>

section \<open>Numbers\<close>

datatype text_error =
    Empty_number string
  | Invalid_number string string
  | Number_out_of_range string u64 u64

definition is_digit :: "char \<Rightarrow> bool" where
  "is_digit c \<longleftrightarrow> 48 \<le> (of_char c :: nat) \<and> (of_char c :: nat) \<le> 57"

definition digit_value :: "char \<Rightarrow> nat" where
  "digit_value c = of_char c - 48"

definition digits_value :: "string \<Rightarrow> nat" where
  "digits_value ds = foldl (\<lambda>n c. 10 * n + digit_value c) 0 ds"

text \<open>
  \<open>std::from_chars\<close> on a \<open>uint64_t\<close>: the value of the longest prefix of digits and the
  text after it; \<open>None\<close> when there is no digit or the value does not fit.
\<close>

definition from_chars_u64 :: "string \<Rightarrow> (u64 \<times> string) option" where
  "from_chars_u64 s =
    (let ds = takeWhile is_digit s
     in if ds = [] \<or> digits_value ds \<ge> 2 ^ 64 then None
        else Some (word_of_nat (digits_value ds), dropWhile is_digit s))"

definition parse_uint :: "string \<Rightarrow> string \<Rightarrow> u64 \<Rightarrow> u64 \<Rightarrow> text_error + u64" where
  "parse_uint s name minimum maximum =
    (if s = [] then Inl (Empty_number name)
     else case from_chars_u64 s of
       None \<Rightarrow> Inl (Invalid_number name s)
     | Some (v, rest) \<Rightarrow>
         if rest \<noteq> [] then Inl (Invalid_number name s)
         else if v < minimum \<or> v > maximum then Inl (Number_out_of_range name minimum maximum)
         else Inr v)"

definition size_multiplier :: "char \<Rightarrow> u64 option" where
  "size_multiplier c =
    (if c = CHR ''k'' \<or> c = CHR ''K'' then Some 1024
     else if c = CHR ''m'' \<or> c = CHR ''M'' then Some (1024 * 1024)
     else if c = CHR ''g'' \<or> c = CHR ''G'' then Some (1024 * 1024 * 1024)
     else if c = CHR ''t'' \<or> c = CHR ''T'' then Some (1024 * 1024 * 1024 * 1024)
     else None)"

definition parse_size :: "string \<Rightarrow> string \<Rightarrow> u64 \<Rightarrow> text_error + u64" where
  "parse_size s name maximum =
    (if s = [] then Inl (Empty_number name)
     else case (case size_multiplier (last s) of None \<Rightarrow> (s, 1) | Some m \<Rightarrow> (butlast s, m)) of
       (digits, multiplier) \<Rightarrow>
         bind_res (parse_uint digits name 1 (maximum div multiplier)) (\<lambda>v. Inr (v * multiplier)))"

section \<open>Hexadecimal\<close>

definition hex_digit :: "u8 \<Rightarrow> char" where
  "hex_digit n = ''0123456789abcdef'' ! unat n"

definition hex_encode :: "bytes \<Rightarrow> string" where
  "hex_encode bs = concat (map (\<lambda>b. [hex_digit (drop_bit 4 b), hex_digit (b AND 15)]) bs)"

section \<open>Escaping\<close>

definition reorders_or_hides_text :: "u32 \<Rightarrow> bool" where
  "reorders_or_hides_text code_point \<longleftrightarrow> list_ex (\<lambda>(lo, hi). lo \<le> code_point \<and> code_point \<le> hi)
     [(0x00ad, 0x00ad), (0x061c, 0x061c), (0x180e, 0x180e), (0x200b, 0x200f), (0x2028, 0x202e),
      (0x2060, 0x206f), (0xfeff, 0xfeff), (0xfff9, 0xfffb), (0xe0000, 0xe007f)]"

definition byte_at :: "string \<Rightarrow> nat \<Rightarrow> u32" where
  "byte_at s i = of_char (s ! i)"

definition utf8_length :: "u32 \<Rightarrow> nat" where
  "utf8_length lead =
    (if 0xc2 \<le> lead \<and> lead \<le> 0xdf then 2
     else if 0xe0 \<le> lead \<and> lead \<le> 0xef then 3
     else if 0xf0 \<le> lead \<and> lead \<le> 0xf4 then 4 else 0)"

text \<open>The loop over the continuation bytes.\<close>

fun continue_code_point :: "u32 \<Rightarrow> string \<Rightarrow> u32 option" where
  "continue_code_point cp [] = Some cp"
| "continue_code_point cp (c # cs) =
    (if of_char c AND 0xc0 \<noteq> (0x80 :: u32) then None
     else continue_code_point (push_bit 6 cp OR (of_char c AND 0x3f)) cs)"

definition displayable_utf8_length :: "string \<Rightarrow> nat" where
  "displayable_utf8_length s =
    (let lead = byte_at s 0; n = utf8_length lead
     in if n = 0 \<or> length s < n then 0
        else case continue_code_point (lead AND drop_bit (n + 1) 0xff) (take (n - 1) (tl s)) of
          None \<Rightarrow> 0
        | Some cp \<Rightarrow>
            let second = byte_at s 1
            in if (lead = 0xc2 \<and> second < 0xa0) \<or> (lead = 0xe0 \<and> second < 0xa0) \<or>
                  (lead = 0xed \<and> second > 0x9f) \<or> (lead = 0xf0 \<and> second < 0x90) \<or>
                  (lead = 0xf4 \<and> second > 0x8f) then 0
               else if reorders_or_hides_text cp then 0 else n)"

function escape_bytes_for_diagnostic :: "string \<Rightarrow> string" where
  "escape_bytes_for_diagnostic [] = []"
| "escape_bytes_for_diagnostic (c # cs) =
    (let b = of_char c :: u8; n = displayable_utf8_length (c # cs)
     in if b = 0x5c then CHR 0x5C # CHR 0x5C # escape_bytes_for_diagnostic cs
        else if 0x20 \<le> b \<and> b \<le> 0x7e then c # escape_bytes_for_diagnostic cs
        else if n \<noteq> 0 then take n (c # cs) @ escape_bytes_for_diagnostic (drop n (c # cs))
        else CHR 0x5C # CHR ''x'' # hex_digit (drop_bit 4 b) # hex_digit (b AND 0x0f) #
             escape_bytes_for_diagnostic cs)"
  by pat_completeness auto

termination
  by (relation "measure length") (simp_all add: Suc_diff_le split: nat.splits)

section \<open>Paths\<close>

fun strip_slashes_rev :: "string \<Rightarrow> string" where
  "strip_slashes_rev (c # d # cs) = (if c = CHR ''/'' then strip_slashes_rev (d # cs) else c # d # cs)"
| "strip_slashes_rev s = s"

text \<open>The loop shortens the view at its end.\<close>

definition strip_trailing_slashes :: "string \<Rightarrow> string" where
  "strip_trailing_slashes path = rev (strip_slashes_rev (rev path))"

section \<open>Columns\<close>

text \<open>The field \<open>{:>n}\<close> of \<open>std::format\<close>.\<close>

definition pad_left :: "nat \<Rightarrow> string \<Rightarrow> string" where
  "pad_left n s = replicate (n - length s) (CHR '' '') @ s"

section \<open>Lemmas on numbers\<close>

lemma digit_char [simp]:
  assumes "d < 10"
  shows "is_digit (digit_char d)" and "digit_value (digit_char d) = d"
  using assms by (simp_all add: digit_char_def is_digit_def digit_value_def)

lemma digits_value_snoc [simp]: "digits_value (ds @ [d]) = 10 * digits_value ds + digit_value d"
  by (simp add: digits_value_def)

lemma digits_value_Nil [simp]: "digits_value [] = 0"
  by (simp add: digits_value_def)

lemma decimal_digits:
  "decimal n \<noteq> [] \<and> list_all is_digit (decimal n) \<and> digits_value (decimal n) = n"
proof (induction n rule: decimal.induct)
  case (1 n)
  show ?case
  proof (cases "n < 10")
    case True
    then show ?thesis using digits_value_snoc [of "[]" "digit_char n"] by (simp add: decimal.simps [of n])
  next
    case False
    with 1 have "list_all is_digit (decimal (n div 10))" "digits_value (decimal (n div 10)) = n div 10" by auto
    with False show ?thesis by (simp add: decimal.simps [of n])
  qed
qed

lemma decimal_simps [simp]: "decimal n \<noteq> []" "list_all is_digit (decimal n)" "digits_value (decimal n) = n"
  using decimal_digits by simp_all

lemma span_digits:
  assumes "list_all is_digit ds" and "rest = [] \<or> \<not> is_digit (hd rest)"
  shows "takeWhile is_digit (ds @ rest) = ds \<and> dropWhile is_digit (ds @ rest) = rest"
  using assms by (induction ds) (auto simp: takeWhile_eq_Nil_iff dropWhile_eq_self_iff)

lemma from_chars_decimal:
  assumes "n < 2 ^ 64" and "rest = [] \<or> \<not> is_digit (hd rest)"
  shows "from_chars_u64 (decimal n @ rest) = Some (word_of_nat n, rest)"
  using span_digits [OF decimal_simps(2) assms(2), of n] assms(1)
  by (simp add: from_chars_u64_def not_le)

lemma parse_uint_Inr:
  "parse_uint s name mn mx = Inr v \<longleftrightarrow>
     s \<noteq> [] \<and> list_all is_digit s \<and> digits_value s = unat v \<and> mn \<le> v \<and> v \<le> mx"
proof -
  have drop: "dropWhile is_digit s = [] \<longleftrightarrow> list_all is_digit s" by (simp add: list_all_iff dropWhile_eq_Nil_conv)
  have take: "list_all is_digit s \<Longrightarrow> takeWhile is_digit s = s" by (simp add: list_all_iff takeWhile_eq_all_conv)
  have w: "n < 2 ^ 64 \<Longrightarrow> (word_of_nat n = v) = (n = unat v)" for n
    by (auto simp: unat_of_nat)
  have lt: "unat v < 2 ^ 64" using unsigned_less [of v] by simp
  show ?thesis
  proof (cases "s \<noteq> [] \<and> list_all is_digit s")
    case True
    then have t: "takeWhile is_digit s = s" and d: "dropWhile is_digit s = []" using drop take by blast+
    have "from_chars_u64 s = (if digits_value s \<ge> 2 ^ 64 then None else Some (word_of_nat (digits_value s), []))"
      using True by (simp add: from_chars_u64_def t d Let_def)
    with True w [of "digits_value s"] lt show ?thesis by (auto simp: parse_uint_def not_le not_less)
  next
    case False
    with drop show ?thesis by (auto simp: parse_uint_def from_chars_u64_def Let_def split: if_splits)
  qed
qed

lemma parse_uint_decimal:
  "mn \<le> v \<Longrightarrow> v \<le> mx \<Longrightarrow> parse_uint (decimal (unat v)) name mn mx = Inr v"
  by (simp add: parse_uint_Inr)

section \<open>Lemmas on escaping\<close>

definition hex_value :: "char \<Rightarrow> nat" where
  "hex_value c = (let n = of_char c in if n < 58 then n - 48 else n - 87)"

lemma hex_value_digit: "n < 16 \<Longrightarrow> hex_value (hex_digit n) = unat n"
proof -
  assume "n < 16"
  then have "unat n < 16" by (simp add: word_less_nat_alt)
  then have "unat n \<in> set [0..<16]" by simp
  then show ?thesis by (auto simp: hex_digit_def hex_value_def Let_def upt_rec)
qed

lemma hex_nibbles:
  fixes b :: u8
  shows "drop_bit 4 b < 16" and "b AND 15 < 16"
    and "16 * unat (drop_bit 4 b) + unat (b AND 15) = unat b"
proof -
  have a: "b AND 15 = take_bit 4 b" by (simp add: take_bit_eq_mask mask_eq_exp_minus_1)
  have u: "unat (drop_bit 4 b) = unat b div 16" "unat (b AND 15) = unat b mod 16"
    by (simp_all add: a unsigned_drop_bit_eq unsigned_take_bit_eq drop_bit_eq_div take_bit_eq_mod unat_div_distrib unat_mod_distrib)
  have "unat b < 256" using unsigned_less [of b] by simp
  with u show "drop_bit 4 b < 16" "b AND 15 < 16" by (simp_all add: word_less_nat_alt)
  show "16 * unat (drop_bit 4 b) + unat (b AND 15) = unat b" by (simp add: u)
qed

text \<open>Reading the escaped text back.\<close>

fun unescape :: "string \<Rightarrow> string" where
  "unescape (c # d # cs) =
    (if c \<noteq> CHR 0x5C then c # unescape (d # cs)
     else if d = CHR 0x5C then d # unescape cs
     else (case cs of a # b # cs' \<Rightarrow> char_of (16 * hex_value a + hex_value b) # unescape cs' | _ \<Rightarrow> []))"
| "unescape s = s"

lemma unescape_plain: "CHR 0x5C \<notin> set xs \<Longrightarrow> unescape (xs @ ys) = xs @ unescape ys"
proof (induction xs)
  case (Cons x xs)
  then show ?case by (cases "xs @ ys") auto
qed simp

lemma byte_char: "(of_char c :: u8) = word_of_nat (of_char c)" "unat (of_char c :: u8) = of_char c"
proof -
  show "(of_char c :: u8) = word_of_nat (of_char c)" by (simp only: of_nat_of_char)
  then show "unat (of_char c :: u8) = of_char c" by (simp add: unat_of_nat take_bit_eq_mod)
qed

lemma unat_byte: "unat (of_char c :: u32) = of_char c"
proof -
  have "unat (word_of_nat (of_char c) :: u32) = of_char c mod 2 ^ 32" by (simp only: unat_of_nat) simp
  moreover have "(of_char c :: nat) < 4294967296" using nat_of_char_less_256 [of c] by linarith
  ultimately show ?thesis by (simp only: of_nat_of_char) simp
qed

lemma continuation_byte:
  assumes "(of_char c :: u32) AND 0xc0 = 0x80"
  shows "128 \<le> (of_char c :: nat)"
proof (rule ccontr)
  assume "\<not> 128 \<le> (of_char c :: nat)"
  then have "\<not> bit (of_char c :: nat) 7" by (simp add: bit_iff_odd)
  then have "\<not> bit (word_of_nat (of_char c) :: u32) 7" by (simp only: bit_of_nat_iff) simp
  then have "\<not> bit (of_char c :: u32) 7" by (simp only: of_nat_of_char) simp
  moreover have "bit ((of_char c :: u32) AND 0xc0) 7" unfolding assms by (simp add: bit_simps)
  ultimately show False by (simp add: bit_and_iff)
qed

lemma continue_high:
  "continue_code_point cp cs = Some x \<Longrightarrow> \<forall>c \<in> set cs. 128 \<le> (of_char c :: nat)"
  by (induction cp cs rule: continue_code_point.induct) (auto split: if_splits dest: continuation_byte)

lemma displayable_cases:
  assumes "displayable_utf8_length s = n" and "n \<noteq> 0"
  shows "n \<le> length s" and "\<forall>c \<in> set (take n s). 128 \<le> (of_char c :: nat)"
    and "displayable_utf8_length (take n s) = n"
proof -
  obtain cp where n: "utf8_length (byte_at s 0) = n" "n \<le> length s" "2 \<le> n"
    and c: "continue_code_point (byte_at s 0 AND drop_bit (n + 1) 0xff) (take (n - 1) (tl s)) = Some cp"
    using assms by (auto simp: displayable_utf8_length_def Let_def utf8_length_def split: option.splits if_splits)
  then obtain a r where s: "s = a # r" by (cases s) auto
  have "0xc2 \<le> byte_at s 0" using n(1,3) by (auto simp: utf8_length_def word_le_nat_alt split: if_splits)
  then have "128 \<le> (of_char a :: nat)" using unat_byte [of a] by (simp add: byte_at_def s word_le_nat_alt)
  then show "\<forall>c \<in> set (take n s). 128 \<le> (of_char c :: nat)"
    using continue_high [OF c] n(3) by (cases n) (auto simp: s)
  show "n \<le> length s" by (rule n(2))
  have same: "byte_at (take n s) 0 = byte_at s 0" "byte_at (take n s) 1 = byte_at s 1"
    "take (n - 1) (tl (take n s)) = take (n - 1) (tl s)" "(length (take n s) < n) = (length s < n)"
    using n(2,3) by (simp_all add: byte_at_def tl_take)
  have "displayable_utf8_length (take n s) = displayable_utf8_length s"
    by (simp only: displayable_utf8_length_def Let_def same n(1))
  with assms(1) show "displayable_utf8_length (take n s) = n" by simp
qed

section \<open>What may be displayed\<close>

text \<open>The UTF-8 encoding of a code point, by arithmetic on its number.\<close>

definition utf8_encode :: "nat \<Rightarrow> string" where
  "utf8_encode cp = map char_of
    (if cp < 0x80 then [cp]
     else if cp < 0x800 then [0xC0 + cp div 64, 0x80 + cp mod 64]
     else if cp < 0x10000 then [0xE0 + cp div 4096, 0x80 + cp div 64 mod 64, 0x80 + cp mod 64]
     else [0xF0 + cp div 262144, 0x80 + cp div 4096 mod 64, 0x80 + cp div 64 mod 64, 0x80 + cp mod 64])"

text \<open>
  The code points that reorder or hide text, by their names in Unicode: the bidirectional marks, embeddings and
  isolates; the soft hyphen and the invisible joiners, spaces and operators; the line and paragraph separators; the
  interlinear annotations; the tags.
\<close>

definition hidden_code_points :: "nat set" where
  "hidden_code_points =
     {0x061C, 0x200E, 0x200F} \<union> {0x202A..0x202E} \<union> {0x2066..0x2069} \<union>
     {0x00AD, 0x180E, 0x200B, 0x200C, 0x200D, 0xFEFF} \<union> {0x2060..0x2065} \<union> {0x206A..0x206F} \<union>
     {0x2028, 0x2029} \<union> {0xFFF9..0xFFFB} \<union> {0xE0000..0xE007F}"

text \<open>A code point that may be displayed: a Unicode scalar value (so no surrogate) that is no control character (C0,
  delete or C1) and does not reorder or hide text.\<close>

definition displayable :: "nat \<Rightarrow> bool" where
  "displayable cp \<longleftrightarrow> 0x20 \<le> cp \<and> cp \<le> 0x10FFFF \<and> cp \<notin> {0x7F..0x9F} \<and> cp \<notin> {0xD800..0xDFFF} \<and>
     cp \<notin> hidden_code_points"

text \<open>A piece of the escaped text: one such code point.\<close>

definition safe_piece :: "string \<Rightarrow> bool" where
  "safe_piece p \<longleftrightarrow> (\<exists>cp. displayable cp \<and> p = utf8_encode cp)"

lemma continuation_iff:
  "(of_char c :: u32) AND 0xc0 = 0x80 \<longleftrightarrow> 128 \<le> (of_char c :: nat) \<and> (of_char c :: nat) < 192"
proof -
  let ?n = "of_char c :: nat"
  have n: "?n < 256" by (rule nat_of_char_less_256)
  have w: "(of_char c :: u32) = word_of_nat ?n" by (simp only: of_nat_of_char)
  have "?n AND 0xc0 = 64 * (?n div 64)"
  proof -
    have "(0xc0 :: nat) = push_bit 6 (mask 2)" by (simp add: mask_eq_exp_minus_1 push_bit_eq_mult)
    moreover have "?n AND push_bit 6 (mask 2) = push_bit 6 (take_bit 2 (drop_bit 6 ?n))"
      by (rule bit_eqI) (auto simp: bit_simps)
    ultimately have "?n AND 0xc0 = push_bit 6 (take_bit 2 (drop_bit 6 ?n))" by (simp only:)
    moreover have "?n div 64 < 4" using n by (intro less_mult_imp_div_less) simp
    ultimately show ?thesis by (simp add: push_bit_eq_mult drop_bit_eq_div take_bit_eq_mod)
  qed
  then have "unat ((of_char c :: u32) AND 0xc0) = 64 * (?n div 64)"
    using n by (simp add: unat_byte unsigned_and_eq)
  then have "(of_char c :: u32) AND 0xc0 = 0x80 \<longleftrightarrow> ?n div 64 = 2"
    by (simp add: word_unat_eq_iff)
  then show ?thesis using n by auto
qed

lemma low_bits:
  "unat ((of_char c :: u32) AND 0x3f) = (of_char c :: nat) mod 64"
  "unat ((of_char c :: u32) AND 0x1f) = (of_char c :: nat) mod 32"
  "unat ((of_char c :: u32) AND 0x0f) = (of_char c :: nat) mod 16"
  "unat ((of_char c :: u32) AND 0x07) = (of_char c :: nat) mod 8"
proof -
  have m: "(0x3f :: u32) = mask 6" "(0x1f :: u32) = mask 5" "(0x0f :: u32) = mask 4" "(0x07 :: u32) = mask 3"
    by (simp_all add: mask_eq_exp_minus_1)
  show "unat ((of_char c :: u32) AND 0x3f) = (of_char c :: nat) mod 64"
  "unat ((of_char c :: u32) AND 0x1f) = (of_char c :: nat) mod 32"
  "unat ((of_char c :: u32) AND 0x0f) = (of_char c :: nat) mod 16"
  "unat ((of_char c :: u32) AND 0x07) = (of_char c :: nat) mod 8"
    unfolding m by (simp_all add: take_bit_eq_mod unat_mod_distrib unat_byte flip: take_bit_eq_mask)
qed

lemma shift_in:
  assumes "unat x < 64" and "unat w < 2 ^ 26"
  shows "unat (push_bit 6 w OR x :: u32) = 64 * unat w + unat x"
proof -
  have "push_bit 6 w AND x = 0"
  proof (rule bit_eqI)
    fix i
    have "x = take_bit 6 x" using assms(1) by (simp add: word_unat_eq_iff take_bit_eq_mod unat_mod_distrib)
    then have "bit x i \<Longrightarrow> i < 6" by (metis bit_take_bit_iff)
    then show "bit (push_bit 6 w AND x) i = bit (0 :: u32) i" by (auto simp: bit_simps)
  qed
  then have "push_bit 6 w OR x = push_bit 6 w + x" by (simp add: disjunctive_add_eq_or)
  moreover have "unat (push_bit 6 w) = 64 * unat w" using assms(2)
    by (simp add: push_bit_eq_mult unat_word_ariths)
  ultimately show ?thesis using assms by (simp add: unat_word_ariths)
qed

definition continued :: "nat \<Rightarrow> string \<Rightarrow> nat" where
  "continued cp cs = foldl (\<lambda>a c. 64 * a + of_char c mod 64) cp cs"

lemma continued_simps [simp]: "continued cp [] = cp" "continued cp (c # cs) = continued (64 * cp + of_char c mod 64) cs"
  by (simp_all add: continued_def)

lemma continue_code_point_iff:
  "(unat w + 1) * 64 ^ length cs \<le> 2 ^ 26 \<Longrightarrow> continue_code_point w cs = Some cp \<longleftrightarrow>
    list_all (\<lambda>c. 128 \<le> (of_char c :: nat) \<and> (of_char c :: nat) < 192) cs \<and> unat cp = continued (unat w) cs"
proof (induction w cs rule: continue_code_point.induct)
  case (1 w)
  then show ?case by (auto simp: word_unat_eq_iff)
next
  case (2 w c cs)
  let ?w = "push_bit 6 w OR (of_char c AND 0x3f)"
  have "(unat w + 1) * 1 \<le> (unat w + 1) * 64 ^ length (c # cs)" by (intro mult_le_mono2) simp
  from le_trans [OF this 2(2)] have "unat w < 2 ^ 26" by simp
  moreover have "unat ((of_char c :: u32) AND 0x3f) < 64" by (simp add: low_bits)
  ultimately have w: "unat ?w = 64 * unat w + of_char c mod 64" using shift_in low_bits(1) by metis
  have m: "(of_char c :: nat) mod 64 < 64" by simp
  have bound: "64 * u + x + 1 \<le> 64 * (u + 1)" if "x < 64" for u x :: nat using that by simp
  have "(unat ?w + 1) * 64 ^ length cs \<le> (64 * (unat w + 1)) * 64 ^ length cs"
    unfolding w by (intro mult_le_mono1) (rule bound [OF m])
  also have "\<dots> = (unat w + 1) * 64 ^ length (c # cs)" by (simp only: list.size power_Suc mult_ac add_0_right)
     (simp add: algebra_simps)
  finally have "(unat ?w + 1) * 64 ^ length cs \<le> 2 ^ 26" using 2(2) by linarith
  note IH = 2(1) [OF _ this]
  show ?case
  proof (cases "128 \<le> (of_char c :: nat) \<and> (of_char c :: nat) < 192")
    case True
    then have "(of_char c :: u32) AND 0xc0 = 0x80" by (simp only: continuation_iff)
    with IH True w show ?thesis by simp
  next
    case False
    then have "(of_char c :: u32) AND 0xc0 \<noteq> 0x80" by (simp only: continuation_iff) simp
    with False show ?thesis by auto
  qed
qed


lemma hidden_iff: "reorders_or_hides_text cp \<longleftrightarrow> unat cp \<in> hidden_code_points"
proof -
  have r: "reorders_or_hides_text cp \<longleftrightarrow> (x = 0xad \<or> x = 0x61c \<or> x = 0x180e \<or> 0x200b \<le> x \<and> x \<le> 0x200f \<or>
      0x2028 \<le> x \<and> x \<le> 0x202e \<or> 0x2060 \<le> x \<and> x \<le> 0x206f \<or> x = 0xfeff \<or> 0xfff9 \<le> x \<and> x \<le> 0xfffb \<or>
      0xe0000 \<le> x \<and> x \<le> 0xe007f)" if "x = unat cp" for x
    unfolding that by (simp add: reorders_or_hides_text_def word_le_nat_alt word_unat_eq_iff eq_iff [of "unat cp"] conj_commute)
  have "0x200b \<le> x \<and> x \<le> 0x200f \<longleftrightarrow> x = 0x200b \<or> x = 0x200c \<or> x = 0x200d \<or> x = 0x200e \<or> x = 0x200f"
    "0x2028 \<le> x \<and> x \<le> 0x202e \<longleftrightarrow> x = 0x2028 \<or> x = 0x2029 \<or> 0x202a \<le> x \<and> x \<le> 0x202e"
    "0x2060 \<le> x \<and> x \<le> 0x206f \<longleftrightarrow> 0x2060 \<le> x \<and> x \<le> 0x2065 \<or> 0x2066 \<le> x \<and> x \<le> 0x2069 \<or> 0x206a \<le> x \<and> x \<le> 0x206f"
    for x :: nat by presburger+
  with r [OF refl] show ?thesis unfolding hidden_code_points_def Un_iff insert_iff atLeastAtMost_iff empty_iff by blast
qed

text \<open>What the bytes of the three lengths encode.\<close>

lemma div_mod_64: "k < 64 \<Longrightarrow> (64 * x + k) div 64 = (x :: nat)" "k < 64 \<Longrightarrow> (64 * x + k) mod 64 = (k :: nat)"
  by simp_all

lemma encode_two:
  assumes "2 \<le> l" and "l < 32" and "m < 64"
  shows "utf8_encode (64 * l + m) = map char_of [192 + l, 128 + m]"
  using assms by (simp add: utf8_encode_def div_mod_64)

lemma encode_three:
  assumes "32 \<le> 64 * l + m" and "l < 16" and "m < 64" and "k < 64"
  shows "utf8_encode (64 * (64 * l + m) + k) = map char_of [224 + l, 128 + m, 128 + k]"
proof -
  let ?cp = "64 * (64 * l + m) + k"
  have "(?cp < 128) = False" "(?cp < 2048) = False" "(?cp < 65536) = True" using assms by simp_all
  moreover have d: "?cp div 64 = 64 * l + m" "?cp mod 64 = k" using assms(4) by (rule div_mod_64)+
  moreover have "?cp div 4096 = l"
    using div_mult2_eq [of ?cp 64 64] unfolding d div_mod_64(1) [OF assms(3)] by simp
  ultimately show ?thesis unfolding utf8_encode_def by (simp only: if_False if_True div_mod_64(2) [OF assms(3)])
qed

lemma encode_four:
  assumes "16 \<le> 64 * l + m" and "l < 8" and "m < 64" and "k < 64" and "j < 64"
  shows "utf8_encode (64 * (64 * (64 * l + m) + k) + j) = map char_of [240 + l, 128 + m, 128 + k, 128 + j]"
proof -
  let ?cp = "64 * (64 * (64 * l + m) + k) + j"
  have "(?cp < 128) = False" "(?cp < 2048) = False" "(?cp < 65536) = False" using assms by simp_all
  moreover have d: "?cp div 64 = 64 * (64 * l + m) + k" "?cp mod 64 = j" using assms(5) by (rule div_mod_64)+
  moreover have d2: "?cp div 4096 = 64 * l + m"
    using div_mult2_eq [of ?cp 64 64] unfolding d div_mod_64(1) [OF assms(4)] by simp
  moreover have "?cp div 262144 = l"
    using div_mult2_eq [of ?cp 4096 64] unfolding d2 div_mod_64(1) [OF assms(3)] by simp
  ultimately show ?thesis unfolding utf8_encode_def
    by (simp only: if_False if_True div_mod_64(2) [OF assms(3)] div_mod_64(2) [OF assms(4)])
qed

lemma lead_unat: "unat (byte_at s 0) = of_char (s ! 0)" "unat (byte_at s 1) = of_char (s ! 1)"
  by (simp_all add: byte_at_def unat_byte)

lemma utf8_length_cases:
  assumes "utf8_length (byte_at s 0) = n" and "n \<noteq> 0"
  shows "n = 2 \<and> 0xc2 \<le> (of_char (s ! 0) :: nat) \<and> (of_char (s ! 0) :: nat) \<le> 0xdf \<or>
    n = 3 \<and> 0xe0 \<le> (of_char (s ! 0) :: nat) \<and> (of_char (s ! 0) :: nat) \<le> 0xef \<or>
    n = 4 \<and> 0xf0 \<le> (of_char (s ! 0) :: nat) \<and> (of_char (s ! 0) :: nat) \<le> 0xf4"
  using assms lead_unat(1) [of s] by (auto simp: utf8_length_def word_le_nat_alt split: if_splits)

lemma utf8_lead_bits:
  "drop_bit 3 0xff = (0x1f :: u32)" "drop_bit 4 0xff = (0x0f :: u32)" "drop_bit 5 0xff = (0x07 :: u32)"
  by (simp_all add: drop_bit_eq_div)

text \<open>The bits below the marks of the bytes are what is left of their numbers.\<close>

lemma mod_above: "q * n \<le> x \<Longrightarrow> x < q * n + n \<Longrightarrow> x mod n = x - q * (n :: nat)"
proof -
  assume x: "q * n \<le> x" "x < q * n + n"
  then have "x mod n = ((x - q * n) + q * n) mod n" by simp
  also have "\<dots> = x - q * n" using x unfolding mod_mult_self1 by simp
  finally show ?thesis .
qed

lemma mark_bits:
  "128 \<le> x \<Longrightarrow> x < 192 \<Longrightarrow> x mod 64 = x - (128 :: nat)"
  "192 \<le> x \<Longrightarrow> x < 224 \<Longrightarrow> x mod 32 = x - (192 :: nat)"
  "224 \<le> x \<Longrightarrow> x < 240 \<Longrightarrow> x mod 16 = x - (224 :: nat)"
  "240 \<le> x \<Longrightarrow> x < 248 \<Longrightarrow> x mod 8 = x - (240 :: nat)"
  using mod_above [of 2 64 x] mod_above [of 6 32 x] mod_above [of 14 16 x] mod_above [of 30 8 x] by simp_all

lemma displayableI:
  "0xa0 \<le> unat cp \<Longrightarrow> unat cp \<le> 0x10FFFF \<Longrightarrow> unat cp < 0xD800 \<or> 0xDFFF < unat cp \<Longrightarrow> \<not> reorders_or_hides_text cp \<Longrightarrow>
   displayable (unat cp)"
  by (auto simp: displayable_def hidden_iff)

lemma chars_back: "of_char c = (n :: nat) \<Longrightarrow> char_of n = c"
  by auto

lemma displayable_sequence:
  assumes "displayable_utf8_length s = n" and "n \<noteq> 0"
  shows "\<exists>cp. displayable cp \<and> take n s = utf8_encode cp"
proof -
  from assms obtain cp where n: "utf8_length (byte_at s 0) = n" "n \<le> length s"
    and c: "continue_code_point (byte_at s 0 AND drop_bit (n + 1) 0xff) (take (n - 1) (tl s)) = Some cp"
    and t: "\<not> ((byte_at s 0 = 0xc2 \<and> byte_at s 1 < 0xa0) \<or> (byte_at s 0 = 0xe0 \<and> byte_at s 1 < 0xa0) \<or>
      (byte_at s 0 = 0xed \<and> byte_at s 1 > 0x9f) \<or> (byte_at s 0 = 0xf0 \<and> byte_at s 1 < 0x90) \<or>
      (byte_at s 0 = 0xf4 \<and> byte_at s 1 > 0x8f))" and r: "\<not> reorders_or_hides_text cp"
    by (auto simp: displayable_utf8_length_def Let_def split: option.splits if_splits)
  note t = t [unfolded word_unat_eq_iff word_less_nat_alt lead_unat, simplified]
  from utf8_length_cases [OF n(1) assms(2)] show ?thesis
  proof (elim disjE conjE)
    assume n2: "n = 2" "0xc2 \<le> (of_char (s ! 0) :: nat)" "(of_char (s ! 0) :: nat) \<le> 0xdf"
    with n(2) obtain a b rest where s: "s = a # b # rest" by (auto simp: numeral_eq_Suc Suc_le_length_iff)
    have w: "unat (byte_at s 0 AND 0x1f) = of_char a mod 32" by (simp add: byte_at_def s low_bits)
    have "continue_code_point (byte_at s 0 AND 0x1f) [b] = Some cp" using c by (simp add: n2(1) s utf8_lead_bits)
    then have b: "128 \<le> (of_char b :: nat)" "(of_char b :: nat) < 192" and cp: "unat cp = 64 * (of_char a mod 32) + of_char b mod 64"
      using continue_code_point_iff [of "byte_at s 0 AND 0x1f" "[b]" cp] by (simp_all add: w)
    define l m where "l = (of_char a :: nat) - 192" and "m = (of_char b :: nat) - 128"
    with n2 b have lm: "of_char a = 192 + l" "of_char b = 128 + m" "2 \<le> l" "l < 32" "m < 64" by (simp_all add: s)
    with cp have cp: "unat cp = 64 * l + m" by (simp add: mark_bits)
    have "l = 2 \<Longrightarrow> 32 \<le> m" using t lm by (simp add: s)
    then have "0xa0 \<le> unat cp" "unat cp < 2048" unfolding cp using lm(3-5) by (cases "l = 2"; simp)+
    with r have "displayable (unat cp)" by (intro displayableI) simp_all
    moreover have "take n s = utf8_encode (unat cp)"
      unfolding cp encode_two [OF lm(3-5)] using chars_back [OF lm(1)] chars_back [OF lm(2)] by (simp add: s n2(1))
    ultimately show ?thesis by blast
  next
    assume n3: "n = 3" "0xe0 \<le> (of_char (s ! 0) :: nat)" "(of_char (s ! 0) :: nat) \<le> 0xef"
    with n(2) obtain a b d rest where s: "s = a # b # d # rest" by (auto simp: numeral_eq_Suc Suc_le_length_iff)
    have w: "unat (byte_at s 0 AND 0x0f) = of_char a mod 16" by (simp add: byte_at_def s low_bits)
    have args: "take (n - 1) (tl s) = [b, d]" "drop_bit (n + 1) 0xff = (0x0f :: u32)" by (simp_all add: n3(1) s utf8_lead_bits)
    have "continue_code_point (byte_at s 0 AND 0x0f) [b, d] = Some cp" using c unfolding args .
    then have b: "128 \<le> (of_char b :: nat)" "(of_char b :: nat) < 192" "128 \<le> (of_char d :: nat)" "(of_char d :: nat) < 192"
      and cp: "unat cp = 64 * (64 * (of_char a mod 16) + of_char b mod 64) + of_char d mod 64"
      using continue_code_point_iff [of "byte_at s 0 AND 0x0f" "[b, d]" cp] by (simp_all add: w)
    define l m k where "l = (of_char a :: nat) - 224" and "m = (of_char b :: nat) - 128" and "k = (of_char d :: nat) - 128"
    with n3 b have lm: "of_char a = 224 + l" "of_char b = 128 + m" "of_char d = 128 + k" "l < 16" "m < 64" "k < 64" by (simp_all add: s)
    with cp have cp: "unat cp = 64 * (64 * l + m) + k" by (simp add: mark_bits)
    have z: "l = 0 \<Longrightarrow> 32 \<le> m" "l = 13 \<Longrightarrow> m < 32" using t lm by (simp_all add: s)
    then have low: "32 \<le> 64 * l + m" by (cases "l = 0") auto
    have gap: "64 * l + m < 864 \<or> 896 \<le> 64 * l + m"
      using z(2) lm(5) by (cases "l < 13"; cases "l = 13") simp_all
    have bounds: "p < 864 \<or> 896 \<le> p \<Longrightarrow> 64 * p + k < 0xD800 \<or> 0xDFFF < 64 * p + k"
      "32 \<le> p \<Longrightarrow> 0xa0 \<le> 64 * p + k" "p < 1024 \<Longrightarrow> 64 * p + k \<le> 0x10FFFF" for p using lm(6) by auto
    have "64 * l + m < 1024" using lm(4,5) by simp
    with gap low have "unat cp < 0xD800 \<or> 0xDFFF < unat cp" "0xa0 \<le> unat cp" "unat cp \<le> 0x10FFFF"
      unfolding cp by (auto simp only: bounds)
    with r have "displayable (unat cp)" by (intro displayableI)
    moreover have "take n s = utf8_encode (unat cp)"
      unfolding cp encode_three [OF low lm(4-6)] using chars_back [OF lm(1)] chars_back [OF lm(2)] chars_back [OF lm(3)]
      by (simp add: s n3(1))
    ultimately show ?thesis by blast
  next
    assume n4: "n = 4" "0xf0 \<le> (of_char (s ! 0) :: nat)" "(of_char (s ! 0) :: nat) \<le> 0xf4"
    with n(2) obtain a b d e rest where s: "s = a # b # d # e # rest" by (auto simp: numeral_eq_Suc Suc_le_length_iff)
    have w: "unat (byte_at s 0 AND 0x07) = of_char a mod 8" by (simp add: byte_at_def s low_bits)
    have args: "take (n - 1) (tl s) = [b, d, e]" "drop_bit (n + 1) 0xff = (0x07 :: u32)" by (simp_all add: n4(1) s utf8_lead_bits)
    have "continue_code_point (byte_at s 0 AND 0x07) [b, d, e] = Some cp" using c unfolding args .
    then have b: "128 \<le> (of_char b :: nat)" "(of_char b :: nat) < 192" "128 \<le> (of_char d :: nat)" "(of_char d :: nat) < 192"
      "128 \<le> (of_char e :: nat)" "(of_char e :: nat) < 192"
      and cp: "unat cp = 64 * (64 * (64 * (of_char a mod 8) + of_char b mod 64) + of_char d mod 64) + of_char e mod 64"
      using continue_code_point_iff [of "byte_at s 0 AND 0x07" "[b, d, e]" cp] by (simp_all add: w)
    define l m k j where "l = (of_char a :: nat) - 240" and "m = (of_char b :: nat) - 128" and "k = (of_char d :: nat) - 128"
      and "j = (of_char e :: nat) - 128"
    with n4 b have lm: "of_char a = 240 + l" "of_char b = 128 + m" "of_char d = 128 + k" "of_char e = 128 + j"
      "l < 8" "m < 64" "k < 64" "j < 64" "l \<le> 4" by (simp_all add: s)
    with cp have cp: "unat cp = 64 * (64 * (64 * l + m) + k) + j" by (simp add: mark_bits)
    have z: "l = 0 \<Longrightarrow> 16 \<le> m" "l = 4 \<Longrightarrow> m < 16" using t lm by (simp_all add: s)
    then have low: "16 \<le> 64 * l + m" by (cases "l = 0") auto
    have "64 * l + m < 272" using z(2) lm(6,9) by (cases "l = 4") auto
    moreover have bounds: "16 \<le> p \<Longrightarrow> 0xDFFF < 64 * (64 * p + k) + j" "p < 272 \<Longrightarrow> 64 * (64 * p + k) + j \<le> 0x10FFFF" for p
      using lm(7,8) by simp_all
    ultimately have "0xDFFF < unat cp" "unat cp \<le> 0x10FFFF" unfolding cp using low by (simp_all only: bounds)
    then have "unat cp < 0xD800 \<or> 0xDFFF < unat cp" "0xa0 \<le> unat cp" "unat cp \<le> 0x10FFFF" by simp_all
    with r have "displayable (unat cp)" by (intro displayableI)
    moreover have "take n s = utf8_encode (unat cp)"
      unfolding cp encode_four [OF low lm(5-8)]
      using chars_back [OF lm(1)] chars_back [OF lm(2)] chars_back [OF lm(3)] chars_back [OF lm(4)] by (simp add: s n4(1))
    ultimately show ?thesis by blast
  qed
qed

lemma utf8_length_unat:
  "utf8_length lead = (let n = unat lead in if 0xc2 \<le> n \<and> n \<le> 0xdf then 2 else if 0xe0 \<le> n \<and> n \<le> 0xef then 3
     else if 0xf0 \<le> n \<and> n \<le> 0xf4 then 4 else 0)"
  by (simp add: utf8_length_def word_le_nat_alt Let_def)

lemma displayable_lengthI:
  assumes "utf8_length (byte_at s 0) = n" and "n \<noteq> 0" and "n \<le> length s"
    and "continue_code_point (byte_at s 0 AND drop_bit (n + 1) 0xff) (take (n - 1) (tl s)) = Some cp"
    and "\<not> ((of_char (s ! 0) = (0xc2 :: nat) \<and> of_char (s ! 1) < (0xa0 :: nat)) \<or> (of_char (s ! 0) = (0xe0 :: nat) \<and> of_char (s ! 1) < (0xa0 :: nat)) \<or>
      (of_char (s ! 0) = (0xed :: nat) \<and> of_char (s ! 1) > (0x9f :: nat)) \<or> (of_char (s ! 0) = (0xf0 :: nat) \<and> of_char (s ! 1) < (0x90 :: nat)) \<or>
      (of_char (s ! 0) = (0xf4 :: nat) \<and> of_char (s ! 1) > (0x8f :: nat)))"
    and "unat cp \<notin> hidden_code_points"
  shows "displayable_utf8_length s = n"
proof -
  have "\<not> ((byte_at s 0 = 0xc2 \<and> byte_at s 1 < 0xa0) \<or> (byte_at s 0 = 0xe0 \<and> byte_at s 1 < 0xa0) \<or>
      (byte_at s 0 = 0xed \<and> byte_at s 1 > 0x9f) \<or> (byte_at s 0 = 0xf0 \<and> byte_at s 1 < 0x90) \<or>
      (byte_at s 0 = 0xf4 \<and> byte_at s 1 > 0x8f))"
    unfolding word_unat_eq_iff word_less_nat_alt lead_unat using assms(5) by simp
  with assms show ?thesis
    by (simp only: displayable_utf8_length_def Let_def hidden_iff if_False simp_thms not_less [symmetric] option.case)
qed

lemma byte_of: "n < 256 \<Longrightarrow> of_char (char_of n) = (n :: nat)"
  by simp

lemma continue_some:
  "unat w = a \<Longrightarrow> (a + 1) * 64 ^ length cs \<le> 2 ^ 26 \<Longrightarrow> list_all (\<lambda>c. 128 \<le> (of_char c :: nat) \<and> (of_char c :: nat) < 192) cs \<Longrightarrow>
   continued a cs = unat v \<Longrightarrow> continue_code_point w cs = Some v"
  using continue_code_point_iff [of w cs v] by simp

lemma displayable_shown:
  assumes "displayable cp" and "0xa0 \<le> cp"
  shows "displayable_utf8_length (utf8_encode cp @ rest) = length (utf8_encode cp)"
proof -
  let ?s = "utf8_encode cp @ rest"
  have cp: "cp \<le> 0x10FFFF" "cp \<notin> {0xD800..0xDFFF}" "cp \<notin> hidden_code_points" using assms(1) by (simp_all add: displayable_def)
  define v :: u32 where "v = word_of_nat cp"
  have w: "unat v = cp" using cp(1) by (simp add: v_def unat_of_nat)
  have h: "unat v \<notin> hidden_code_points" using cp(3) unfolding w .
  define k j where "k = cp mod 64" and "j = cp div 64"
  then have kj: "cp = 64 * j + k" "k < 64" by simp_all
  define m l where "m = j mod 64" and "l = j div 64"
  then have ml: "j = 64 * l + m" "m < 64" by simp_all
  define p q where "p = l mod 64" and "q = l div 64"
  then have pq: "l = 64 * q + p" "p < 64" by simp_all
  consider (two) "cp < 2048" | (three) "2048 \<le> cp" "cp < 65536" | (four) "65536 \<le> cp" by linarith
  then show ?thesis
  proof cases
    case two
    with kj assms(2) have j: "2 \<le> j" "j < 32" by auto
    have z: "j = 2 \<longrightarrow> 32 \<le> k" using kj assms(2) by simp
    have e: "utf8_encode cp = [char_of (192 + j), char_of (128 + k)]" using encode_two [OF j kj(2)] by (simp add: kj(1))
    let ?a = "char_of (192 + j) :: char" and ?b = "char_of (128 + k) :: char"
    have b: "of_char ?a = 192 + j" "of_char ?b = 128 + k" using j kj(2) by (simp_all only: byte_of)
    have "unat (byte_at ?s 0 AND 0x1f) = j" using j by (simp add: e byte_at_def low_bits b mark_bits del: of_char_of)
    then have "continue_code_point (byte_at ?s 0 AND 0x1f) [?b] = Some v"
      by (rule continue_some) (use j kj in \<open>simp_all add: w b mark_bits del: of_char_of\<close>)
    then have "displayable_utf8_length ?s = 2"
      by (intro displayable_lengthI [OF _ _ _ _ _ h])
        (use z j in \<open>simp_all add: e utf8_length_unat lead_unat b Let_def utf8_lead_bits not_less del: of_char_of continue_code_point.simps\<close>)
    then show ?thesis by (simp add: e)
  next
    case three
    have low: "32 \<le> j" "l < 16" using three kj ml by auto
    have z: "0 < l \<or> 32 \<le> m" "l = 13 \<longrightarrow> m \<le> 31" using low ml cp(2) kj by auto
    have e: "utf8_encode cp = [char_of (224 + l), char_of (128 + m), char_of (128 + k)]"
      using encode_three [of l m k] low ml kj by simp
    let ?a = "char_of (224 + l) :: char" and ?b = "char_of (128 + m) :: char" and ?c = "char_of (128 + k) :: char"
    have b: "of_char ?a = 224 + l" "of_char ?b = 128 + m" "of_char ?c = 128 + k" using low kj(2) ml(2) by (simp_all only: byte_of)
    have "unat (byte_at ?s 0 AND 0x0f) = l" using low by (simp add: e byte_at_def low_bits b mark_bits del: of_char_of)
    then have "continue_code_point (byte_at ?s 0 AND 0x0f) [?b, ?c] = Some v"
      by (rule continue_some) (use low kj ml in \<open>simp_all add: w b mark_bits del: of_char_of\<close>)
    then have "displayable_utf8_length ?s = 3"
      by (intro displayable_lengthI [OF _ _ _ _ _ h])
        (use z low in \<open>simp_all add: e utf8_length_unat lead_unat b Let_def utf8_lead_bits not_less del: of_char_of continue_code_point.simps\<close>)
    then show ?thesis by (simp add: e)
  next
    case four
    have low: "16 \<le> l" "q < 8" "q \<le> 4" using four kj ml pq cp(1) by auto
    have z: "0 < q \<or> 16 \<le> p" "q = 4 \<longrightarrow> p \<le> 15" using low ml cp(1) kj pq by auto
    have e: "utf8_encode cp = [char_of (240 + q), char_of (128 + p), char_of (128 + m), char_of (128 + k)]"
      using encode_four [of q p m k] low ml kj pq by simp
    let ?a = "char_of (240 + q) :: char" and ?b = "char_of (128 + p) :: char" and ?c = "char_of (128 + m) :: char"
      and ?d = "char_of (128 + k) :: char"
    have b: "of_char ?a = 240 + q" "of_char ?b = 128 + p" "of_char ?c = 128 + m" "of_char ?d = 128 + k"
      using low kj(2) ml(2) pq(2) by (simp_all only: byte_of)
    have "unat (byte_at ?s 0 AND 0x07) = q" using low by (simp add: e byte_at_def low_bits b mark_bits del: of_char_of)
    then have "continue_code_point (byte_at ?s 0 AND 0x07) [?b, ?c, ?d] = Some v"
      by (rule continue_some) (use low kj ml pq in \<open>simp_all add: w b mark_bits del: of_char_of\<close>)
    then have "displayable_utf8_length ?s = 4"
      by (intro displayable_lengthI [OF _ _ _ _ _ h])
        (use z low in \<open>simp_all add: e utf8_length_unat lead_unat b Let_def utf8_lead_bits not_less del: of_char_of continue_code_point.simps\<close>)
    then show ?thesis by (simp add: e)
  qed
qed

section \<open>Properties\<close>

lemma safe_single: "0x20 \<le> (of_char c :: nat) \<Longrightarrow> (of_char c :: nat) \<le> 0x7e \<Longrightarrow> safe_piece [c]"
  unfolding safe_piece_def
  by (intro exI [of _ "of_char c :: nat"]) (auto simp: displayable_def hidden_code_points_def utf8_encode_def)

lemma safe_escape_chars: "safe_piece [CHR 0x5C]" "safe_piece [CHR ''x'']"
  by (rule safe_single; simp)+

lemma hex_printable: "n < 16 \<Longrightarrow> safe_piece [hex_digit n]"
proof (rule safe_single)
  assume "n < 16"
  then have "unat n < 16" by (simp add: word_less_nat_alt)
  then have "unat n \<in> set [0..<16]" by simp
  then show "0x20 \<le> (of_char (hex_digit n) :: nat)" "(of_char (hex_digit n) :: nat) \<le> 0x7e"
    by (auto simp: hex_digit_def upt_rec)
qed

lemma safe_sequence: "displayable_utf8_length s = n \<Longrightarrow> n \<noteq> 0 \<Longrightarrow> safe_piece (take n s)"
  using displayable_sequence [of s n] by (auto simp: safe_piece_def)

text \<open>The four branches of the loop, as an induction over the rest of the text.\<close>

lemma escape_branches:
  "(of_char c :: u8) = 0x5c \<Longrightarrow>
     escape_bytes_for_diagnostic (c # cs) = [CHR 0x5C, CHR 0x5C] @ escape_bytes_for_diagnostic cs"
  "(of_char c :: u8) \<noteq> 0x5c \<Longrightarrow> 0x20 \<le> (of_char c :: u8) \<and> (of_char c :: u8) \<le> 0x7e \<Longrightarrow>
     escape_bytes_for_diagnostic (c # cs) = [c] @ escape_bytes_for_diagnostic cs"
  "(of_char c :: u8) \<noteq> 0x5c \<Longrightarrow> \<not> (0x20 \<le> (of_char c :: u8) \<and> (of_char c :: u8) \<le> 0x7e) \<Longrightarrow>
     displayable_utf8_length (c # cs) = n \<Longrightarrow> n \<noteq> 0 \<Longrightarrow>
     escape_bytes_for_diagnostic (c # cs) = take n (c # cs) @ escape_bytes_for_diagnostic (drop n (c # cs))"
  "(of_char c :: u8) \<noteq> 0x5c \<Longrightarrow> \<not> (0x20 \<le> (of_char c :: u8) \<and> (of_char c :: u8) \<le> 0x7e) \<Longrightarrow>
     displayable_utf8_length (c # cs) = 0 \<Longrightarrow>
     escape_bytes_for_diagnostic (c # cs) =
       [CHR 0x5C, CHR ''x'', hex_digit (drop_bit 4 (of_char c)), hex_digit (of_char c AND 0x0f)] @
       escape_bytes_for_diagnostic cs"
  by (simp_all only: escape_bytes_for_diagnostic.simps Let_def if_True if_False append.simps simp_thms)

declare escape_bytes_for_diagnostic.simps(2) [simp del]

lemma escape_induct [case_names Nil Backslash Printable Utf8 Hex]:
  assumes "P []"
    and "\<And>c cs. c = CHR 0x5C \<Longrightarrow> P cs \<Longrightarrow>
      escape_bytes_for_diagnostic (c # cs) = [CHR 0x5C, CHR 0x5C] @ escape_bytes_for_diagnostic cs \<Longrightarrow> P (c # cs)"
    and "\<And>c cs. c \<noteq> CHR 0x5C \<Longrightarrow> 0x20 \<le> (of_char c :: nat) \<Longrightarrow> (of_char c :: nat) \<le> 0x7e \<Longrightarrow> P cs \<Longrightarrow>
      escape_bytes_for_diagnostic (c # cs) = [c] @ escape_bytes_for_diagnostic cs \<Longrightarrow> P (c # cs)"
    and "\<And>n s. displayable_utf8_length s = n \<Longrightarrow> n \<noteq> 0 \<Longrightarrow> P (drop n s) \<Longrightarrow>
      escape_bytes_for_diagnostic s = take n s @ escape_bytes_for_diagnostic (drop n s) \<Longrightarrow> P s"
    and "\<And>c cs. P cs \<Longrightarrow> escape_bytes_for_diagnostic (c # cs) =
      [CHR 0x5C, CHR ''x'', hex_digit (drop_bit 4 (of_char c)), hex_digit (of_char c AND 0x0f)] @
      escape_bytes_for_diagnostic cs \<Longrightarrow> P (c # cs)"
  shows "P s"
proof (induction s rule: length_induct)
  case (1 s)
  show ?case
  proof (cases s)
    case (Cons c cs)
    let ?b = "of_char c :: u8" and ?n = "displayable_utf8_length (c # cs)"
    have IH: "P cs" "?n \<noteq> 0 \<Longrightarrow> P (drop ?n (c # cs))" using 1 Cons by auto
    have r: "(0x20 \<le> ?b \<and> ?b \<le> 0x7e) = (0x20 \<le> (of_char c :: nat) \<and> (of_char c :: nat) \<le> 0x7e)"
      by (simp add: word_le_nat_alt byte_char(2))
    have bs: "?b = 0x5c \<longleftrightarrow> c = CHR 0x5C"
    proof
      assume "?b = 0x5c"
      then have "(of_char c :: nat) = of_char (CHR 0x5C)" using byte_char(2) [of c] by simp
      then show "c = CHR 0x5C" by (simp only: of_char_eq_iff)
    qed simp
    consider (a) "c = CHR 0x5C" | (b) "c \<noteq> CHR 0x5C" "0x20 \<le> ?b \<and> ?b \<le> 0x7e"
      | (c) "c \<noteq> CHR 0x5C" "\<not> (0x20 \<le> ?b \<and> ?b \<le> 0x7e)" "?n \<noteq> 0"
      | (d) "c \<noteq> CHR 0x5C" "\<not> (0x20 \<le> ?b \<and> ?b \<le> 0x7e)" "?n = 0" by blast
    then show ?thesis unfolding Cons
    proof cases
      case a
      with assms(2) [OF a IH(1)] escape_branches(1) bs show "P (c # cs)" by blast
    next
      case b
      with assms(3) [OF b(1) _ _ IH(1)] escape_branches(2) [of c cs] bs r show "P (c # cs)" by blast
    next
      case c
      with assms(4) [OF refl c(3) IH(2)] escape_branches(3) [of c cs, OF _ _ refl] bs show "P (c # cs)" by blast
    next
      case d
      with assms(5) [OF IH(1)] escape_branches(4) [of c cs] bs show "P (c # cs)" by blast
    qed
  qed (use assms(1) in simp)
qed

lemma escape_pieces: "\<exists>ps. escape_bytes_for_diagnostic s = concat ps \<and> list_all safe_piece ps"
proof (induction s rule: escape_induct)
  case Nil
  show ?case by (intro exI [of _ "[]"]) simp
next
  case (Backslash c cs)
  then obtain ps where "escape_bytes_for_diagnostic cs = concat ps" "list_all safe_piece ps" by blast
  with Backslash(2) safe_escape_chars show ?case by (intro exI [of _ "[CHR 0x5C] # [CHR 0x5C] # ps"]) simp
next
  case (Printable c cs)
  then obtain ps where "escape_bytes_for_diagnostic cs = concat ps" "list_all safe_piece ps" by blast
  with Printable safe_single [OF Printable(2,3)] show ?case by (intro exI [of _ "[c] # ps"]) simp
next
  case (Utf8 n s)
  then obtain ps where "escape_bytes_for_diagnostic (drop n s) = concat ps" "list_all safe_piece ps" by blast
  with Utf8(3) safe_sequence [OF Utf8(1,2)] show ?case by (intro exI [of _ "take n s # ps"]) simp
next
  case (Hex c cs)
  let ?b = "of_char c :: u8"
  from Hex obtain ps where "escape_bytes_for_diagnostic cs = concat ps" "list_all safe_piece ps" by blast
  with Hex safe_escape_chars hex_printable [OF hex_nibbles(1), of ?b] hex_printable [OF hex_nibbles(2), of ?b] show ?case
    by (intro exI [of _ "[CHR 0x5C] # [CHR ''x''] # [hex_digit (drop_bit 4 ?b)] # [hex_digit (?b AND 0x0f)] # ps"]) simp
qed

lemma unescape_escape: "unescape (escape_bytes_for_diagnostic s) = s"
proof (induction s rule: escape_induct)
  case (Utf8 n s)
  have "CHR 0x5C \<notin> set (take n s)" using displayable_cases(2) [OF Utf8(1,2)] by fastforce
  from unescape_plain [OF this] Utf8 show ?case by simp
next
  case (Printable c cs)
  then have "CHR 0x5C \<notin> set [c]" by auto
  from unescape_plain [OF this, of "escape_bytes_for_diagnostic cs"] Printable show ?case by simp
next
  case (Hex c cs)
  let ?b = "of_char c :: u8"
  have "char_of (16 * unat (drop_bit 4 ?b) + unat (?b AND 15)) = c"
    by (simp only: hex_nibbles(3) byte_char(2) char_of_char)
  with Hex hex_value_digit [OF hex_nibbles(1), of ?b] hex_value_digit [OF hex_nibbles(2), of ?b] show ?case by simp
qed simp_all

lemma parse_size_Inr:
  assumes "parse_size s name maximum = Inr v"
  obtains digits m where "(s, None) = (digits, size_multiplier (last s)) \<and> m = 1 \<or>
      s = digits @ [last s] \<and> size_multiplier (last s) = Some m"
    and "digits \<noteq> []" and "list_all is_digit digits" and "unat v = digits_value digits * unat m"
    and "1 \<le> digits_value digits" and "v \<le> maximum"
proof -
  obtain digits m where dm: "(case size_multiplier (last s) of None \<Rightarrow> (s, 1) | Some m \<Rightarrow> (butlast s, m)) = (digits, m)"
    by fastforce
  have s: "s \<noteq> []" using assms by (auto simp: parse_size_def)
  then obtain w where w: "parse_uint digits name 1 (maximum div m) = Inr w" "v = w * m"
    using assms dm by (auto simp: parse_size_def bind_res_Inr)
  from w(1) have d: "digits \<noteq> []" "list_all is_digit digits" "digits_value digits = unat w" "1 \<le> w" "w \<le> maximum div m"
    by (simp_all add: parse_uint_Inr)
  have "unat w * unat m \<le> unat maximum"
  proof -
    have "unat w \<le> unat maximum div unat m" using d(5) by (simp add: word_le_nat_alt unat_div_distrib)
    then have "unat w * unat m \<le> unat maximum div unat m * unat m" by (rule mult_le_mono1)
    then show ?thesis using div_times_less_eq_dividend [of "unat maximum" "unat m"] by linarith
  qed
  moreover have "unat maximum < 2 ^ 64" using unsigned_less [of maximum] by simp
  ultimately have v: "unat v = unat w * unat m" "unat v \<le> unat maximum"
    by (simp_all add: w(2) unat_word_ariths)
  have "1 \<le> unat w" using d(4) by (simp add: word_le_nat_alt)
  moreover have "(s, None) = (digits, size_multiplier (last s)) \<and> m = 1 \<or>
      s = digits @ [last s] \<and> size_multiplier (last s) = Some m"
    using dm s by (auto split: option.splits)
  ultimately show thesis using that [of digits m] d v by (simp add: word_le_nat_alt)
qed

lemma strip_slashes_rev_shape:
  "\<exists>n. s = replicate n CHR ''/'' @ strip_slashes_rev s \<and>
     (strip_slashes_rev s = [] \<longrightarrow> s = []) \<and>
     (length (strip_slashes_rev s) > 1 \<longrightarrow> hd (strip_slashes_rev s) \<noteq> CHR ''/'')"
proof (induction s rule: strip_slashes_rev.induct)
  case (1 c d cs)
  show ?case
  proof (cases "c = CHR ''/''")
    case True
    with 1 obtain n where "d # cs = replicate n CHR ''/'' @ strip_slashes_rev (d # cs)"
      "strip_slashes_rev (d # cs) \<noteq> []" "length (strip_slashes_rev (d # cs)) > 1 \<longrightarrow> hd (strip_slashes_rev (d # cs)) \<noteq> CHR ''/''"
      by auto
    then show ?thesis using True by (intro exI [of _ "Suc n"]) simp
  qed (intro exI [of _ 0], simp)
qed (intro exI [of _ 0], simp)+

text \<open>Sizes are exact: an accepted size is the decimal number times the unit of its
  suffix, computed without wrapping, at least 1 and at most the caller's maximum.\<close>
lemma parse_size_exact:
  assumes "parse_size s name maximum = Inr v"
  shows "\<exists>digits m. (s = digits \<and> m = 1 \<or> s = digits @ [last s] \<and> size_multiplier (last s) = Some m) \<and>
    digits \<noteq> [] \<and> list_all is_digit digits \<and> unat v = digits_value digits * unat m \<and> 1 \<le> unat v \<and> v \<le> maximum"
proof -
  from parse_size_Inr [OF assms] obtain digits m where d: "(s, None) = (digits, size_multiplier (last s)) \<and> m = 1 \<or>
      s = digits @ [last s] \<and> size_multiplier (last s) = Some m" "digits \<noteq> []" "list_all is_digit digits"
    "unat v = digits_value digits * unat m" "1 \<le> digits_value digits" "v \<le> maximum" .
  moreover have "1 \<le> unat m" using d(1) by (auto simp: size_multiplier_def split: if_splits)
  ultimately show ?thesis by (intro exI [of _ digits] exI [of _ m]) auto
qed

lemma parse_size_exact_witness:
  "\<exists>digits m. digits \<noteq> [] \<and> list_all is_digit digits \<and> (4194304 :: nat) = digits_value digits * unat (m :: u64)"
proof -
  have "parse_size ''4M'' ''size'' 18446744073709551615 = Inr 4194304"
    by (simp add: parse_size_def size_multiplier_def parse_uint_def from_chars_u64_def is_digit_def digits_value_def
        digit_value_def Let_def word_le_nat_alt word_less_nat_alt unat_div_distrib)
  from parse_size_exact [OF this] show ?thesis by auto
qed

text \<open>No byte of a piece is a C0 control.\<close>

lemma safe_piece_bytes:
  assumes "safe_piece p"
  shows "\<forall>c \<in> set p. 32 \<le> (of_char c :: nat)"
proof -
  from assms obtain cp where cp: "displayable cp" "p = utf8_encode cp" by (auto simp: safe_piece_def)
  then consider "cp \<le> 0x7e" | "0xa0 \<le> cp" unfolding displayable_def atLeastAtMost_iff by linarith
  then show ?thesis
  proof cases
    case 1
    with cp show ?thesis by (simp add: utf8_encode_def displayable_def)
  next
    case 2
    have "displayable_utf8_length p = length p" using displayable_shown [OF cp(1) 2, of "[]"] by (simp add: cp(2))
    moreover have "p \<noteq> []" by (simp add: cp(2) utf8_encode_def)
    ultimately show ?thesis using displayable_cases(2) [of p "length p"] by fastforce
  qed
qed

text \<open>Text that may be displayed, without backslashes, is not changed.\<close>

definition shown_piece :: "string \<Rightarrow> bool" where
  "shown_piece p \<longleftrightarrow> safe_piece p \<and> p \<noteq> [CHR 0x5C]"

lemma escape_shown_piece:
  assumes "shown_piece p"
  shows "escape_bytes_for_diagnostic (p @ rest) = p @ escape_bytes_for_diagnostic rest"
proof -
  from assms obtain cp where cp: "displayable cp" "p = utf8_encode cp" "p \<noteq> [CHR 0x5C]"
    by (auto simp: shown_piece_def safe_piece_def)
  then consider "cp \<le> 0x7e" | "0xa0 \<le> cp" unfolding displayable_def atLeastAtMost_iff by linarith
  then show ?thesis
  proof cases
    case 1
    then have p: "p = [char_of cp]" by (simp add: cp(2) utf8_encode_def)
    let ?c = "char_of cp :: char"
    have n: "(of_char ?c :: nat) = cp" using 1 by simp
    have "(of_char ?c :: u8) \<noteq> 0x5c"
    proof
      assume "(of_char ?c :: u8) = 0x5c"
      then have "(of_char ?c :: nat) = of_char (CHR 0x5C)" using byte_char(2) [of ?c] by simp
      then have "?c = CHR 0x5C" by (simp only: of_char_eq_iff)
      with p cp(3) show False by simp
    qed
    moreover have "0x20 \<le> (of_char ?c :: u8) \<and> (of_char ?c :: u8) \<le> 0x7e"
      unfolding word_le_nat_alt byte_char(2) n using 1 cp(1) by (simp add: displayable_def)
    ultimately show ?thesis using escape_branches(2) [of ?c rest] by (simp add: p)
  next
    case 2
    let ?n = "displayable_utf8_length (p @ rest)"
    have n: "?n = length p" using displayable_shown [OF cp(1) 2] by (simp add: cp(2))
    have ne: "p \<noteq> []" by (simp add: cp(2) utf8_encode_def)
    then obtain c cs where p: "p = c # cs" by (cases p) auto
    have "\<forall>x \<in> set (take ?n (p @ rest)). 128 \<le> (of_char x :: nat)"
      using displayable_cases(2) [of "p @ rest", OF refl] n ne by simp
    then have "128 \<le> (of_char c :: nat)" using n by (simp add: p)
    then have "(of_char c :: u8) \<noteq> 0x5c" "\<not> (0x20 \<le> (of_char c :: u8) \<and> (of_char c :: u8) \<le> 0x7e)"
      by (auto simp: word_le_nat_alt word_unat_eq_iff byte_char(2))
    from escape_branches(3) [OF this, of "cs @ rest" "length p"] n ne show ?thesis by (simp add: p)
  qed
qed

lemma escape_shown: "list_all shown_piece ps \<Longrightarrow> escape_bytes_for_diagnostic (concat ps) = concat ps"
  by (induction ps) (simp_all add: escape_shown_piece)

text \<open>C26. Escaping for diagnostics is safe, loses nothing and leaves readable text alone.  The escaped text of any bytes is
  a sequence of UTF-8 encoded code points that may be displayed: no control characters, no surrogates, none that
  reorders or hides text.  Unescaping it gives the original bytes, so distinct paths never print alike.
  Text of such code points without backslashes is displayed as it is.\<close>
theorem escape_safe_and_reversible:
  "(\<exists>ps. escape_bytes_for_diagnostic s = concat ps \<and> list_all safe_piece ps) \<and>
   unescape (escape_bytes_for_diagnostic s) = s \<and>
   (list_all shown_piece ps \<longrightarrow> escape_bytes_for_diagnostic (concat ps) = concat ps)"
  using escape_pieces unescape_escape escape_shown by blast

text \<open>The euro sign is shown; a right-to-left override between two letters does not get through.\<close>

theorem escape_safe_and_reversible_witness:
  "escape_bytes_for_diagnostic [CHR 0xE2, CHR 0x82, CHR 0xAC] = [CHR 0xE2, CHR 0x82, CHR 0xAC] \<and>
   unescape (escape_bytes_for_diagnostic [CHR ''a'', CHR 0xE2, CHR 0x80, CHR 0xAE, CHR ''b'']) =
     [CHR ''a'', CHR 0xE2, CHR 0x80, CHR 0xAE, CHR ''b'']"
proof -
  have "char_of (226 :: nat) = CHR 0xE2" "char_of (130 :: nat) = CHR 0x82" "char_of (172 :: nat) = CHR 0xAC"
    by (rule chars_back; simp)+
  then have e: "utf8_encode 0x20AC = [CHR 0xE2, CHR 0x82, CHR 0xAC]" using encode_three [of 2 2 44] by simp
  have "displayable 0x20AC" by (simp add: displayable_def hidden_code_points_def)
  then have "shown_piece [CHR 0xE2, CHR 0x82, CHR 0xAC]" using e by (auto simp: shown_piece_def safe_piece_def intro!: exI [of _ "0x20AC"])
  with escape_safe_and_reversible [of "[CHR ''a'', CHR 0xE2, CHR 0x80, CHR 0xAE, CHR ''b'']" "[[CHR 0xE2, CHR 0x82, CHR 0xAC]]"]
  show ?thesis by simp
qed

end
