(* ===== verification/Paths.thy ===== *)
theory Paths
  imports Text
begin

text \<open>
  The path arithmetic of src/neotape_common.cpp.  A \<open>std::filesystem::path\<close> is its
  text; the operations of the standard library that the sources use are given for POSIX
  paths: \<open>operator/\<close>, iteration, \<open>absolute\<close>, \<open>lexically_normal\<close> of an absolute path and
  \<open>lexically_relative\<close>.
\<close>

section \<open>Standard library\<close>

definition slash :: char where "slash = CHR ''/''"

definition is_absolute :: "string \<Rightarrow> bool" where
  "is_absolute p \<longleftrightarrow> p \<noteq> [] \<and> hd p = slash"

text \<open>\<open>p / q\<close>: a separator is added when p ends in a filename.\<close>

definition path_append :: "string \<Rightarrow> string \<Rightarrow> string" where
  "path_append p q =
    (if is_absolute q then q
     else if p \<noteq> [] \<and> last p \<noteq> slash then p @ slash # q
     else p @ q)"

text \<open>The filenames between separators, without empty ones, and whether the path ends in a separator.\<close>

fun split_names :: "string \<Rightarrow> string \<Rightarrow> string list" where
  "split_names acc [] = (if acc = [] then [] else [acc])"
| "split_names acc (c # cs) =
    (if c = slash then (if acc = [] then split_names [] cs else acc # split_names [] cs)
     else split_names (acc @ [c]) cs)"

definition ends_in_slash :: "string \<Rightarrow> bool" where
  "ends_in_slash p \<longleftrightarrow> p \<noteq> [] \<and> last p = slash"

fun join_names :: "string list \<Rightarrow> string" where
  "join_names [] = []"
| "join_names [n] = n"
| "join_names (n # m # ns) = n @ slash # join_names (m # ns)"

definition dot :: string where "dot = ''.''"
definition dot_dot :: string where "dot_dot = ''..''"

text \<open>Iteration: the root directory, the filenames, and an empty element after a trailing separator.\<close>

definition path_elements :: "string \<Rightarrow> string list" where
  "path_elements p =
    (let names = split_names [] p
     in (if is_absolute p then [[slash]] else []) @ names @
        (if names \<noteq> [] \<and> ends_in_slash p then [[]] else []))"

definition absolute_path :: "string \<Rightarrow> string \<Rightarrow> string option" where
  "absolute_path cwd p = (if p = [] then None else if is_absolute p then Some p else Some (path_append cwd p))"

text \<open>Dots are dropped and a dot-dot removes the name before it; at the root there is none.\<close>

fun normal_names :: "string list \<Rightarrow> string list \<Rightarrow> string list" where
  "normal_names st [] = rev st"
| "normal_names st (n # ns) =
    (if n = dot then normal_names st ns
     else if n = dot_dot then normal_names (tl st) ns
     else normal_names (n # st) ns)"

definition lexically_normal_absolute :: "string \<Rightarrow> string" where
  "lexically_normal_absolute p =
    (let names = split_names [] p; normal = normal_names [] names;
         trailing = normal \<noteq> [] \<and> (ends_in_slash p \<or> last names = dot \<or> last names = dot_dot)
     in slash # join_names normal @ (if trailing then [slash] else []))"

fun drop_common :: "string list \<Rightarrow> string list \<Rightarrow> string list \<times> string list" where
  "drop_common (a # as) (b # bs) = (if a = b then drop_common as bs else (a # as, b # bs))"
| "drop_common as bs = (as, bs)"

definition climb_count :: "string list \<Rightarrow> int" where
  "climb_count bs = int (length (filter (\<lambda>b. b \<noteq> [] \<and> b \<noteq> dot \<and> b \<noteq> dot_dot) bs)) -
     int (length (filter (\<lambda>b. b = dot_dot) bs))"

definition lexically_relative :: "string \<Rightarrow> string \<Rightarrow> string" where
  "lexically_relative p base =
    (if is_absolute p \<noteq> is_absolute base then []
     else case drop_common (path_elements p) (path_elements base) of
       (as, bs) \<Rightarrow>
         if as = [] \<and> bs = [] then dot
         else let n = climb_count bs
         in if n = 0 \<and> (as = [] \<or> hd as = []) then dot
            else if n < 0 then []
            else foldl path_append (foldl path_append [] (replicate (nat n) dot_dot)) as)"

section \<open>Sources\<close>

record source_spec =
  sp_archive_prefix :: string
  sp_open_path :: string

text \<open>\<open>None\<close>: \<open>absolute\<close> throws for an empty path, or the source cannot be examined.\<close>

definition make_source_spec :: "string \<Rightarrow> (string \<Rightarrow> bool) \<Rightarrow> string \<Rightarrow> source_spec option" where
  "make_source_spec cwd exists arg =
    (let cleaned = strip_trailing_slashes arg;
         prefix = (if cleaned \<noteq> [] \<and> hd cleaned = slash then tl cleaned else cleaned)
     in case absolute_path cwd cleaned of
          None \<Rightarrow> None
        | Some p \<Rightarrow> let open_path = lexically_normal_absolute p
                     in if exists open_path then Some \<lparr>sp_archive_prefix = prefix, sp_open_path = open_path\<rparr> else None)"

text \<open>\<open>None\<close>: \<open>absolute\<close> throws.\<close>

definition archive_path_for_source :: "string \<Rightarrow> source_spec \<Rightarrow> string \<Rightarrow> string option" where
  "archive_path_for_source cwd spec source_path =
    (case absolute_path cwd source_path of
       None \<Rightarrow> None
     | Some p \<Rightarrow>
         let relative = lexically_relative (lexically_normal_absolute p) (sp_open_path spec)
         in Some (if relative = [] \<or> relative = dot then sp_archive_prefix spec
                  else path_append (sp_archive_prefix spec) relative))"

section \<open>Archive paths\<close>

lemma set_path_append: "set (path_append p q) \<subseteq> set p \<union> set q \<union> {slash}"
  by (auto simp: path_append_def)

lemma set_split_names: "n \<in> set (split_names acc s) \<Longrightarrow> set n \<subseteq> set acc \<union> set s"
  by (induction acc s rule: split_names.induct) (fastforce split: if_splits)+

lemma split_names_plain: "slash \<notin> set acc \<Longrightarrow> n \<in> set (split_names acc s) \<Longrightarrow> slash \<notin> set n"
  by (induction acc s rule: split_names.induct) (auto split: if_splits)

lemma set_normal_names: "set (normal_names st ns) \<subseteq> set st \<union> set ns"
proof (induction st ns rule: normal_names.induct)
  case (2 st n ns)
  have "set (tl st) \<subseteq> set st" by (cases st) auto
  with 2 show ?case by auto
qed simp

lemma set_join_names: "set (join_names ns) \<subseteq> \<Union> (set ` set ns) \<union> {slash}"
  by (induction ns rule: join_names.induct) auto

lemma drop_common_subset: "drop_common as bs = (as', bs') \<Longrightarrow> set as' \<subseteq> set as \<and> set bs' \<subseteq> set bs"
  by (induction as bs rule: drop_common.induct) (auto split: if_splits)

lemma set_lexically_normal: "set (lexically_normal_absolute p) \<subseteq> set p \<union> {slash}"
proof -
  have "set (join_names (normal_names [] (split_names [] p))) \<subseteq> set p \<union> {slash}"
    using set_join_names [of "normal_names [] (split_names [] p)"] set_normal_names [of "[]" "split_names [] p"]
      set_split_names [of _ "[]" p] by fastforce
  then show ?thesis by (auto simp: lexically_normal_absolute_def Let_def)
qed

lemma set_path_elements: "e \<in> set (path_elements p) \<Longrightarrow> set e \<subseteq> set p \<union> {slash}"
  using set_split_names [of e "[]" p] by (auto simp: path_elements_def Let_def split: if_splits)

lemma set_foldl_append: "set (foldl path_append p qs) \<subseteq> set p \<union> \<Union> (set ` set qs) \<union> {slash}"
proof (induction qs arbitrary: p)
  case (Cons q qs)
  from Cons.IH [of "path_append p q"] set_path_append [of p q] show ?case by auto
qed auto

lemma set_lexically_relative: "set (lexically_relative p base) \<subseteq> set p \<union> {slash, CHR ''.''}"
proof (cases "is_absolute p = is_absolute base")
  case True
  obtain as bs where d: "drop_common (path_elements p) (path_elements base) = (as, bs)" by (cases "drop_common (path_elements p) (path_elements base)")
  let ?q = "foldl path_append [] (replicate (nat (climb_count bs)) dot_dot)"
  have "set ?q \<subseteq> {slash, CHR ''.''}"
    using set_foldl_append [of "[]" "replicate (nat (climb_count bs)) dot_dot"] by (auto simp: dot_dot_def split: if_splits)
  moreover have "\<Union> (set ` set as) \<subseteq> set p \<union> {slash}"
    using drop_common_subset [OF d] set_path_elements [of _ p] by blast
  ultimately have "set (foldl path_append ?q as) \<subseteq> set p \<union> {slash, CHR ''.''}"
    using set_foldl_append [of ?q as] by blast
  with True d show ?thesis by (auto simp: lexically_relative_def dot_def Let_def)
qed (simp add: lexically_relative_def)

lemma foldl_append_relative: "\<not> is_absolute p \<Longrightarrow> list_all (\<lambda>q. \<not> is_absolute q) qs \<Longrightarrow> \<not> is_absolute (foldl path_append p qs)"
proof (induction qs arbitrary: p)
  case (Cons q qs)
  then have "\<not> is_absolute (path_append p q)" by (cases p) (auto simp: path_append_def is_absolute_def)
  with Cons show ?case by simp
qed simp

lemma split_names_relative: "list_all (\<lambda>q. \<not> is_absolute q) (split_names [] p)"
proof -
  have "\<not> is_absolute n" if "n \<in> set (split_names [] p)" for n
    using split_names_plain [of "[]" n p] that by (cases n) (auto simp: is_absolute_def)
  then show ?thesis by (simp add: list_all_iff)
qed

text \<open>A relative path between two paths is never absolute.\<close>

lemma lexically_relative_relative: "\<not> is_absolute (lexically_relative p base)"
proof (cases "is_absolute p = is_absolute base")
  case True
  obtain as bs where d: "drop_common (path_elements p) (path_elements base) = (as, bs)" by (cases "drop_common (path_elements p) (path_elements base)")
  have "list_all (\<lambda>q. \<not> is_absolute q) as"
  proof (cases "is_absolute p")
    case False
    then have "list_all (\<lambda>q. \<not> is_absolute q) (path_elements p)"
      using split_names_relative [of p] by (auto simp: path_elements_def Let_def is_absolute_def)
    with drop_common_subset [OF d] show ?thesis by (auto simp: list_all_iff)
  next
    case abs: True
    let ?rest = "\<lambda>p. split_names [] p @ (if split_names [] p \<noteq> [] \<and> ends_in_slash p then [[]] else [])"
    have "path_elements p = [slash] # ?rest p" "path_elements base = [slash] # ?rest base"
      using abs True by (simp_all add: path_elements_def Let_def)
    with d have "drop_common (?rest p) (?rest base) = (as, bs)" by simp
    moreover have "list_all (\<lambda>q. \<not> is_absolute q) (?rest p)"
      using split_names_relative [of p] by (auto simp: is_absolute_def)
    ultimately show ?thesis using drop_common_subset by (fastforce simp: list_all_iff)
  qed
  moreover have "\<not> is_absolute (foldl path_append [] (replicate k dot_dot))" for k
    by (rule foldl_append_relative) (auto simp: is_absolute_def dot_dot_def slash_def list_all_iff)
  ultimately have "\<not> is_absolute (foldl path_append (foldl path_append [] (replicate k dot_dot)) as)" for k
    using foldl_append_relative [of "foldl path_append [] (replicate k dot_dot)" as] by blast
  with True d show ?thesis by (auto simp: lexically_relative_def Let_def is_absolute_def dot_def slash_def)
qed (simp add: lexically_relative_def is_absolute_def)

text \<open>A prefix that is a relative path gives archive paths that are relative paths.\<close>

lemma archive_path_relative:
  assumes "archive_path_for_source cwd spec p = Some q" and "sp_archive_prefix spec \<noteq> []" and "hd (sp_archive_prefix spec) \<noteq> slash"
  shows "q \<noteq> [] \<and> hd q \<noteq> slash"
  using assms lexically_relative_relative
  by (auto simp: archive_path_for_source_def Let_def path_append_def split: option.splits if_splits)

lemma archive_path_chars:
  assumes "archive_path_for_source cwd spec p = Some q"
  shows "set q \<subseteq> set (sp_archive_prefix spec) \<union> set cwd \<union> set p \<union> {slash, CHR ''.''}"
proof -
  from assms obtain a where a: "absolute_path cwd p = Some a" by (auto simp: archive_path_for_source_def split: option.splits)
  then have "set a \<subseteq> set cwd \<union> set p \<union> {slash}"
    using set_path_append [of cwd p] by (auto simp: absolute_path_def split: if_splits)
  then have "set (lexically_relative (lexically_normal_absolute a) (sp_open_path spec)) \<subseteq> set cwd \<union> set p \<union> {slash, CHR ''.''}"
    using set_lexically_relative [of "lexically_normal_absolute a" "sp_open_path spec"] set_lexically_normal [of a] by auto
  with assms a set_path_append [of "sp_archive_prefix spec"] show ?thesis
    by (fastforce simp: archive_path_for_source_def Let_def split: if_splits)
qed

end
