(* ===== verification/Plan.thy ===== *)
theory Plan
  imports Text
begin

text \<open>
  src/neotape_plan.cpp: the plan file.  A record is text ended by NUL and LF: a
  directory change \<open>/chdir/DIR\<close>, or an entry of nine fields ended by slashes and the
  path.  The reader checks each record and the numbering of slices and files.
\<close>

section \<open>Records\<close>

record planned_entry =
  pe_slice :: u64
  pe_file_num :: u64
  pe_kind :: char
  pe_size :: u64
  pe_mtime :: u64
  pe_uid :: u32
  pe_uname :: string
  pe_gid :: u32
  pe_gname :: string
  pe_path :: string

text \<open>The modification time is an \<open>int64_t\<close>, read with \<open>sint\<close>.\<close>

record plan_record =
  chdir_dir :: "string option"
  entry :: "planned_entry option"

datatype plan_error =
    Plan_number text_error
  | Invalid_mtime
  | Invalid_plan_record string u64
  | Invalid_entry_record string u64
  | Invalid_kind_or_path
  | Hardlink_with_size
  | Read_plan_failed
  | Unterminated_record string u64
  | Misplaced_chdir
  | Non_contiguous
  | Empty_plan_record

definition plan_number :: "text_error + 'a \<Rightarrow> plan_error + 'a" where
  "plan_number r = (case r of Inl e \<Rightarrow> Inl (Plan_number e) | Inr v \<Rightarrow> Inr v)"

section \<open>Parsing a record\<close>

definition parse_u64_field :: "string \<Rightarrow> string \<Rightarrow> u64 \<Rightarrow> plan_error + u64" where
  "parse_u64_field fld path num =
    plan_number (parse_uint fld (path @ '':'' @ decimal (unat num) @ '' numeric field'') 0 (- 1))"

text \<open>\<open>std::from_chars\<close> on an \<open>int64_t\<close>: an optional minus sign and digits.\<close>

definition from_chars_i64 :: "string \<Rightarrow> (u64 \<times> string) option" where
  "from_chars_i64 s =
    (let neg = s \<noteq> [] \<and> hd s = CHR ''-''; t = (if neg then tl s else s);
         ds = takeWhile is_digit t; n = digits_value ds
     in if ds = [] \<or> (if neg then n > 2 ^ 63 else n \<ge> 2 ^ 63) then None
        else Some (word_of_int (if neg then - int n else int n), dropWhile is_digit t))"

definition parse_mtime :: "string \<Rightarrow> plan_error + u64" where
  "parse_mtime fld =
    (case from_chars_i64 fld of
       None \<Rightarrow> Inl Invalid_mtime
     | Some (v, rest) \<Rightarrow> if rest \<noteq> [] then Inl Invalid_mtime else Inr v)"

definition parse_owner :: "string \<Rightarrow> plan_error + u32" where
  "parse_owner fld = bind_res (plan_number (parse_uint fld ''plan owner ID'' 0 0xffffffff)) (\<lambda>v. Inr (ucast v))"

text \<open>
  The loop that cuts n fields off the text after the first slash: the fields, and the
  rest of the text when the last of them was ended by a slash.
\<close>

fun split_fields :: "nat \<Rightarrow> string \<Rightarrow> string list \<times> string option" where
  "split_fields 0 s = ([], Some s)"
| "split_fields (Suc n) s =
    (case dropWhile (\<lambda>c. c \<noteq> CHR ''/'') s of
       [] \<Rightarrow> ([s], None)
     | _ # rest \<Rightarrow> (case split_fields n rest of (fs, r) \<Rightarrow> (takeWhile (\<lambda>c. c \<noteq> CHR ''/'') s # fs, r)))"

definition chdir_prefix :: string where "chdir_prefix = ''/chdir/''"
definition plan_kinds :: string where "plan_kinds = ''fhdlcbps''"

definition parse_entry_fields :: "string list \<Rightarrow> string \<Rightarrow> string \<Rightarrow> u64 \<Rightarrow> plan_error + planned_entry" where
  "parse_entry_fields fs entry_path path num =
    bind_res (parse_u64_field (fs ! 0) path num) (\<lambda>sl.
    bind_res (parse_u64_field (fs ! 1) path num) (\<lambda>file.
    bind_res (parse_u64_field (fs ! 3) path num) (\<lambda>size.
    bind_res (parse_mtime (fs ! 4)) (\<lambda>mtime.
    bind_res (parse_owner (fs ! 5)) (\<lambda>uid.
    bind_res (parse_owner (fs ! 7)) (\<lambda>gid.
      Inr \<lparr>pe_slice = sl, pe_file_num = file, pe_kind = hd (fs ! 2), pe_size = size, pe_mtime = mtime,
           pe_uid = uid, pe_uname = fs ! 6, pe_gid = gid, pe_gname = fs ! 8, pe_path = entry_path\<rparr>))))))"

definition parse_plan_record :: "string \<Rightarrow> string \<Rightarrow> u64 \<Rightarrow> plan_error + plan_record" where
  "parse_plan_record s path num =
    (if take (length chdir_prefix) s = chdir_prefix then
       Inr \<lparr>chdir_dir = Some (drop (length chdir_prefix) s), entry = None\<rparr>
     else if s = [] \<or> hd s \<noteq> CHR ''/'' then Inl (Invalid_plan_record path num)
     else case split_fields 9 (tl s) of
       (fs, None) \<Rightarrow> Inl (Invalid_entry_record path num)
     | (fs, Some entry_path) \<Rightarrow>
         if entry_path = [] \<or> length (fs ! 2) \<noteq> 1 then Inl (Invalid_entry_record path num)
         else let kind = hd (fs ! 2)
         in if kind \<notin> set plan_kinds \<or> hd entry_path = CHR ''/'' then Inl Invalid_kind_or_path
            else bind_res (if kind = CHR ''h'' then parse_u64_field (fs ! 3) path num else Inr 0) (\<lambda>size.
              if size \<noteq> 0 then Inl Hardlink_with_size
              else bind_res (parse_entry_fields fs entry_path path num) (\<lambda>e.
                Inr \<lparr>chdir_dir = None, entry = Some e\<rparr>)))"

section \<open>The reader\<close>

text \<open>
  The stream is the text still to be read and whether reading past it reports an error
  rather than the end of the file.
\<close>

record plan_reader =
  rd_input :: string
  rd_broken :: bool
  rd_path :: string
  rd_record_num :: u64
  rd_previous :: "planned_entry option"

definition new_plan_reader :: "string \<Rightarrow> bool \<Rightarrow> string \<Rightarrow> plan_reader" where
  "new_plan_reader input broken path =
    \<lparr>rd_input = input, rd_broken = broken, rd_path = path, rd_record_num = 0, rd_previous = None\<rparr>"

definition NUL :: char where "NUL = CHR 0x00"
definition LF :: char where "LF = CHR 0x0A"

definition follows :: "planned_entry option \<Rightarrow> planned_entry \<Rightarrow> bool" where
  "follows previous e =
    (case previous of
       None \<Rightarrow> pe_slice e = 0 \<and> pe_file_num e = 0
     | Some p \<Rightarrow>
         if pe_slice e = pe_slice p then pe_file_num p \<noteq> - 1 \<and> pe_file_num e = pe_file_num p + 1
         else pe_slice p \<noteq> - 1 \<and> pe_slice e = pe_slice p + 1 \<and> pe_file_num e = 0)"

definition accept_record :: "plan_reader \<Rightarrow> plan_record \<Rightarrow> plan_error + plan_record option \<times> plan_reader" where
  "accept_record r parsed =
    (case chdir_dir parsed of
       Some dir \<Rightarrow> if rd_record_num r \<noteq> 1 \<or> dir = [] then Inl Misplaced_chdir else Inr (Some parsed, r)
     | None \<Rightarrow>
         (case entry parsed of
            None \<Rightarrow> Inl Empty_plan_record
          | Some e \<Rightarrow> if \<not> follows (rd_previous r) e then Inl Non_contiguous
                      else Inr (Some parsed, r\<lparr>rd_previous := Some e\<rparr>)))"

definition reader_next :: "plan_reader \<Rightarrow> plan_error + plan_record option \<times> plan_reader" where
  "reader_next r =
    (let rec = takeWhile (\<lambda>c. c \<noteq> NUL) (rd_input r)
     in case dropWhile (\<lambda>c. c \<noteq> NUL) (rd_input r) of
       [] \<Rightarrow> if rd_broken r then Inl Read_plan_failed
             else if rec = [] then Inr (None, r)
             else Inl (Unterminated_record (rd_path r) (rd_record_num r + 1))
     | _ # after \<Rightarrow>
         let r = r\<lparr>rd_record_num := rd_record_num r + 1\<rparr>
         in (case after of
               [] \<Rightarrow> Inl (Unterminated_record (rd_path r) (rd_record_num r))
             | c # rest \<Rightarrow>
                 if c \<noteq> LF then Inl (Unterminated_record (rd_path r) (rd_record_num r))
                 else bind_res (parse_plan_record rec (rd_path r) (rd_record_num r))
                        (accept_record (r\<lparr>rd_input := rest\<rparr>))))"

section \<open>The writer\<close>

definition signed_decimal :: "int \<Rightarrow> string" where
  "signed_decimal i = (if i < 0 then CHR ''-'' # decimal (nat (- i)) else decimal (nat i))"

text \<open>A name that would break the record is left empty.\<close>

definition plan_name :: "string \<Rightarrow> string" where
  "plan_name name = (if list_ex (\<lambda>c. c = CHR ''/'' \<or> c = NUL) name then [] else name)"

definition entry_text :: "planned_entry \<Rightarrow> string" where
  "entry_text e =
     CHR ''/'' # decimal (unat (pe_slice e)) @ CHR ''/'' # decimal (unat (pe_file_num e)) @
     CHR ''/'' # [pe_kind e] @ CHR ''/'' # decimal (unat (pe_size e)) @
     CHR ''/'' # signed_decimal (sint (pe_mtime e)) @ CHR ''/'' # decimal (unat (pe_uid e)) @
     CHR ''/'' # plan_name (pe_uname e) @ CHR ''/'' # decimal (unat (pe_gid e)) @
     CHR ''/'' # plan_name (pe_gname e) @ CHR ''/'' # pe_path e"

text \<open>\<open>write_plan_record\<close>: the bytes given to \<open>fwrite\<close>.\<close>

definition write_plan_record :: "plan_record \<Rightarrow> plan_error + string" where
  "write_plan_record rec =
    (case chdir_dir rec of
       Some dir \<Rightarrow> Inr (chdir_prefix @ dir @ [NUL, LF])
     | None \<Rightarrow> (case entry rec of
         Some e \<Rightarrow> Inr (entry_text e @ [NUL, LF])
       | None \<Rightarrow> Inl Empty_plan_record))"

section \<open>Whole plans\<close>

lemma accept_record_input: "accept_record r p = Inr (x, r') \<Longrightarrow> rd_input r' = rd_input r"
  by (auto simp: accept_record_def split: option.splits if_splits)

lemma reader_next_shrinks:
  assumes "reader_next r = Inr (Some x, r')"
  shows "length (rd_input r') < length (rd_input r)"
proof -
  from assms obtain c after where d: "dropWhile (\<lambda>c. c \<noteq> NUL) (rd_input r) = c # after"
    by (auto simp: reader_next_def Let_def split: list.splits if_splits)
  then have "length (rd_input r') < length (c # after)"
    using assms by (auto simp: reader_next_def Let_def bind_res_Inr split: list.splits if_splits dest!: accept_record_input)
  also have "length (c # after) \<le> length (rd_input r)" using d by (metis length_dropWhile_le)
  finally show ?thesis .
qed

text \<open>The loop of every consumer: \<open>next()\<close> until it returns nothing.\<close>

function read_plan :: "plan_reader \<Rightarrow> plan_error + plan_record list" where
  "read_plan r =
    (case reader_next r of
       Inl e \<Rightarrow> Inl e
     | Inr (None, r') \<Rightarrow> Inr []
     | Inr (Some x, r') \<Rightarrow> bind_res (read_plan r') (\<lambda>xs. Inr (x # xs)))"
  by pat_completeness auto

termination read_plan
  by (relation "measure (\<lambda>r. length (rd_input r))") (auto dest: reader_next_shrinks [OF sym] reader_next_shrinks)

declare read_plan.simps [simp del]

definition plan_text :: "plan_record list \<Rightarrow> string" where
  "plan_text rs = concat (map (\<lambda>r. case write_plan_record r of Inr t \<Rightarrow> t | Inl e \<Rightarrow> []) rs)"

definition chdir_record :: "string \<Rightarrow> plan_record" where
  "chdir_record dir = \<lparr>chdir_dir = Some dir, entry = None\<rparr>"

definition entry_record :: "planned_entry \<Rightarrow> plan_record" where
  "entry_record e = \<lparr>chdir_dir = None, entry = Some e\<rparr>"

definition canon_entry :: "planned_entry \<Rightarrow> planned_entry" where
  "canon_entry e = e\<lparr>pe_uname := plan_name (pe_uname e), pe_gname := plan_name (pe_gname e)\<rparr>"

text \<open>What a plan entry must be to be read back.\<close>

definition valid_entry :: "planned_entry \<Rightarrow> bool" where
  "valid_entry e \<longleftrightarrow> pe_kind e \<in> set plan_kinds \<and> (pe_kind e = CHR ''h'' \<longrightarrow> pe_size e = 0) \<and>
     pe_path e \<noteq> [] \<and> hd (pe_path e) \<noteq> CHR ''/'' \<and> NUL \<notin> set (pe_path e)"

definition plan_entries :: "plan_record list \<Rightarrow> planned_entry list" where
  "plan_entries rs = map the (filter (\<lambda>x. x \<noteq> None) (map entry rs))"

lemma plan_entries_simps [simp]:
  "plan_entries [] = []" "plan_entries (r # rs) = (case entry r of None \<Rightarrow> [] | Some e \<Rightarrow> [e]) @ plan_entries rs"
  "plan_entries (rs @ qs) = plan_entries rs @ plan_entries qs"
  by (simp_all add: plan_entries_def split: option.split)

text \<open>Slices from 0 without gap, files of a slice from 0 without gap.\<close>

definition next_in_plan :: "planned_entry option \<Rightarrow> planned_entry \<Rightarrow> bool" where
  "next_in_plan previous e \<longleftrightarrow>
    (case previous of
       None \<Rightarrow> unat (pe_slice e) = 0 \<and> unat (pe_file_num e) = 0
     | Some p \<Rightarrow>
         unat (pe_slice e) = unat (pe_slice p) \<and> unat (pe_file_num e) = unat (pe_file_num p) + 1 \<or>
         unat (pe_slice e) = unat (pe_slice p) + 1 \<and> unat (pe_file_num e) = 0)"

fun contiguous :: "planned_entry option \<Rightarrow> planned_entry list \<Rightarrow> bool" where
  "contiguous p [] \<longleftrightarrow> True"
| "contiguous p (e # es) \<longleftrightarrow> next_in_plan p e \<and> contiguous (Some e) es"

lemma word_next_iff: "unat y = Suc (unat x) \<longleftrightarrow> x \<noteq> - 1 \<and> y = x + 1" for x :: u64
proof
  assume u: "unat y = Suc (unat x)"
  have "y = word_of_nat (unat y)" by simp
  then have y: "y = x + 1" unfolding u by simp
  moreover have "x \<noteq> - 1" using u y by auto
  ultimately show "x \<noteq> - 1 \<and> y = x + 1" by simp
next
  assume "x \<noteq> - 1 \<and> y = x + 1"
  then have "1 + x \<noteq> 0" by (metis eq_neg_iff_add_eq_0 add.commute)
  then show "unat y = Suc (unat x)" using \<open>x \<noteq> - 1 \<and> y = x + 1\<close> unatSuc [of x] by (simp add: add.commute)
qed

text \<open>What the reader checks is this numbering.\<close>

lemma next_in_plan_follows [simp]: "next_in_plan p e = follows p e"
  by (cases p) (auto simp: next_in_plan_def follows_def word_next_iff unat_eq_0 word_unat_eq_iff [symmetric])

section \<open>Lemmas\<close>

lemma NUL_neq [simp]: "NUL \<noteq> CHR ''-''" "NUL \<noteq> CHR ''/''" "CHR ''-'' \<noteq> NUL" "CHR ''/'' \<noteq> NUL" "LF \<noteq> NUL" "NUL \<noteq> LF"
  by (simp_all add: NUL_def LF_def)

lemma plain_digit: "is_digit c \<Longrightarrow> c \<noteq> CHR ''/'' \<and> c \<noteq> NUL \<and> c \<noteq> CHR ''-''"
  by (auto simp: is_digit_def NUL_def)

lemma decimal_plain [simp]:
  "CHR ''/'' \<notin> set (decimal n)" "NUL \<notin> set (decimal n)"
  using decimal_simps(2) [of n] plain_digit by (auto simp: list_all_iff)

lemma signed_decimal_plain [simp]:
  "CHR ''/'' \<notin> set (signed_decimal i)" "NUL \<notin> set (signed_decimal i)"
  by (simp_all add: signed_decimal_def)

lemma plan_name_plain [simp]: "CHR ''/'' \<notin> set (plan_name s)" "NUL \<notin> set (plan_name s)"
  by (auto simp: plan_name_def list_ex_iff)

lemma split_field:
  "CHR ''/'' \<notin> set f \<Longrightarrow>
   dropWhile (\<lambda>c. c \<noteq> CHR ''/'') (f @ CHR ''/'' # s) = CHR ''/'' # s \<and>
   takeWhile (\<lambda>c. c \<noteq> CHR ''/'') (f @ CHR ''/'' # s) = f"
  by (induction f) auto

lemma split_fields_print:
  "list_all (\<lambda>f. CHR ''/'' \<notin> set f) fs \<Longrightarrow>
   split_fields (length fs) (concat (map (\<lambda>f. f @ [CHR ''/'']) fs) @ rest) = (fs, Some rest)"
  by (induction fs) (simp_all add: split_field)

lemma split_fields_ok:
  "split_fields n s = (fs, Some rest) \<Longrightarrow> length fs = n \<and> list_all (\<lambda>f. CHR ''/'' \<notin> set f) fs \<and>
   s = concat (map (\<lambda>f. f @ [CHR ''/'']) fs) @ rest"
proof (induction n s arbitrary: fs rule: split_fields.induct)
  case (2 n s)
  let ?P = "\<lambda>c. c \<noteq> CHR ''/''"
  from 2 obtain c s' fs' where d: "dropWhile ?P s = c # s'" "split_fields n s' = (fs', Some rest)"
    "fs = takeWhile ?P s # fs'" by (auto split: list.splits prod.splits)
  have c: "c = CHR ''/''" using hd_dropWhile [of ?P s] d(1) by simp
  obtain f where f: "takeWhile ?P s = f" by blast
  have "CHR ''/'' \<notin> set f" using set_takeWhileD [of _ ?P s] f by blast
  moreover have "s = f @ CHR ''/'' # s'" using takeWhile_dropWhile_id [of ?P s] d(1) c f by simp
  moreover note 2(1) [OF d(1,2)]
  ultimately show ?case using d(3) f by simp
qed simp

definition entry_fields :: "planned_entry \<Rightarrow> string list" where
  "entry_fields e = [decimal (unat (pe_slice e)), decimal (unat (pe_file_num e)), [pe_kind e],
     decimal (unat (pe_size e)), signed_decimal (sint (pe_mtime e)), decimal (unat (pe_uid e)),
     plan_name (pe_uname e), decimal (unat (pe_gid e)), plan_name (pe_gname e)]"

lemma entry_text_fields:
  "entry_text e = CHR ''/'' # concat (map (\<lambda>f. f @ [CHR ''/'']) (entry_fields e)) @ pe_path e"
  by (simp add: entry_text_def entry_fields_def)

lemma parse_u64_decimal [simp]: "parse_u64_field (decimal (unat v)) path num = Inr v"
  by (simp add: parse_u64_field_def plan_number_def parse_uint_decimal)

lemma parse_u64_zero [simp]: "parse_u64_field (decimal 0) path num = Inr 0"
  using parse_u64_decimal [of 0] by simp

lemma parse_owner_decimal [simp]: "parse_owner (decimal (unat v)) = Inr v"
proof -
  have "unat v < 2 ^ 32" using unsigned_less [of v] by simp
  then have le: "unat v \<le> 4294967295" by simp
  then have u: "unat (ucast v :: u64) = unat v" by (simp add: unsigned_ucast_eq take_bit_eq_mod)
  have "parse_uint (decimal (unat (ucast v :: u64))) ''plan owner ID'' 0 0xffffffff = Inr (ucast v)"
    by (rule parse_uint_decimal) (simp_all add: word_le_nat_alt u le)
  moreover have "ucast (ucast v :: u64) = v" by (rule bit_word_eqI) (auto simp: bit_simps)
  ultimately show ?thesis by (simp add: parse_owner_def plan_number_def u)
qed

lemma parse_mtime_decimal [simp]: "parse_mtime (signed_decimal (sint v)) = Inr v"
proof -
  have range: "- (2 ^ 63) \<le> sint v" "sint v < 2 ^ 63" using sint_greater_eq [of v] sint_lt [of v] by simp_all
  have span: "takeWhile is_digit (decimal n) = decimal n \<and> dropWhile is_digit (decimal n) = []" for n
    using span_digits [OF decimal_simps(2), of "[]" n] by simp
  show ?thesis
  proof (cases "sint v < 0")
    case True
    then have "nat (- sint v) \<le> 2 ^ 63" using range(1) by (simp add: nat_le_iff)
    with True show ?thesis
      by (simp add: parse_mtime_def from_chars_i64_def signed_decimal_def span Let_def)
  next
    case False
    have "hd (decimal n) \<noteq> CHR ''-''" for n
      using decimal_simps(1,2) [of n] plain_digit by (cases "decimal n") auto
    moreover have "\<not> 2 ^ 63 \<le> nat (sint v)" using False range(2) by (simp add: le_nat_iff)
    ultimately show ?thesis using False
      by (simp add: parse_mtime_def from_chars_i64_def signed_decimal_def span Let_def)
  qed
qed

lemma entry_fields_plain: "pe_kind e \<noteq> CHR ''/'' \<Longrightarrow> list_all (\<lambda>f. CHR ''/'' \<notin> set f) (entry_fields e)"
  by (simp add: entry_fields_def)

lemma plan_kinds_plain: "c \<in> set plan_kinds \<Longrightarrow> c \<noteq> CHR ''/'' \<and> c \<noteq> NUL"
  by (auto simp: plan_kinds_def NUL_def)

lemma not_chdir: "take (length chdir_prefix) (CHR ''/'' # decimal n @ s) \<noteq> chdir_prefix"
proof -
  obtain c cs where c: "decimal n = c # cs" by (cases "decimal n") auto
  then have "c \<noteq> CHR ''c''" using decimal_simps(2) [of n] by (auto simp: is_digit_def)
  then show ?thesis by (simp add: c chdir_prefix_def)
qed

lemma parse_entry_text:
  assumes "valid_entry e"
  shows "parse_plan_record (entry_text e) path num = Inr (entry_record (canon_entry e))"
proof -
  have k: "pe_kind e \<in> set plan_kinds" "pe_path e \<noteq> []" "hd (pe_path e) \<noteq> CHR ''/''"
    and h: "pe_kind e = CHR ''h'' \<Longrightarrow> pe_size e = 0" using assms by (simp_all add: valid_entry_def)
  have len: "length (entry_fields e) = 9" by (simp add: entry_fields_def)
  have "split_fields 9 (tl (entry_text e)) = (entry_fields e, Some (pe_path e))"
    using split_fields_print [OF entry_fields_plain [of e], of "pe_path e"] plan_kinds_plain [OF k(1)]
    by (simp add: entry_text_fields len)
  moreover have "take (length chdir_prefix) (entry_text e) \<noteq> chdir_prefix"
    unfolding entry_text_def by (rule not_chdir)
  moreover have "parse_entry_fields (entry_fields e) (pe_path e) path num = Inr (canon_entry e)"
    by (simp add: parse_entry_fields_def entry_fields_def canon_entry_def)
  moreover have "entry_fields e ! 2 = [pe_kind e]" "entry_fields e ! 3 = decimal (unat (pe_size e))"
    by (simp_all add: entry_fields_def)
  ultimately show ?thesis using k h
    by (simp add: parse_plan_record_def entry_text_fields entry_record_def Let_def)
qed

lemma NUL_entry_text: "valid_entry e \<Longrightarrow> NUL \<notin> set (entry_text e)"
  using plan_kinds_plain [of "pe_kind e"] by (auto simp: valid_entry_def entry_text_def)

lemma span_NUL:
  "NUL \<notin> set t \<Longrightarrow> takeWhile (\<lambda>c. c \<noteq> NUL) (t @ NUL # s) = t \<and> dropWhile (\<lambda>c. c \<noteq> NUL) (t @ NUL # s) = NUL # s"
  by (induction t) auto

lemma reader_next_text:
  assumes "NUL \<notin> set t" and "rd_input r = t @ [NUL, LF] @ rest"
  shows "reader_next r = bind_res (parse_plan_record t (rd_path r) (rd_record_num r + 1))
    (accept_record (r\<lparr>rd_record_num := rd_record_num r + 1, rd_input := rest\<rparr>))"
  using span_NUL [OF assms(1), of "LF # rest"] assms(2) by (simp add: reader_next_def Let_def)

lemma follows_canon [simp]: "follows (Some (canon_entry p)) e = follows (Some p) e" "follows q (canon_entry e) = follows q e"
  by (simp_all add: follows_def canon_entry_def split: option.splits)

lemma contiguous_canon [simp]: "contiguous (Some (canon_entry p)) es = contiguous (Some p) es"
  by (cases es) simp_all

lemma plan_text_Cons: "plan_text (r # rs) = (case write_plan_record r of Inr t \<Rightarrow> t | Inl e \<Rightarrow> []) @ plan_text rs"
  by (simp add: plan_text_def)

lemma write_plan_record_simps [simp]:
  "write_plan_record (entry_record e) = Inr (entry_text e @ [NUL, LF])"
  "write_plan_record (chdir_record dir) = Inr (chdir_prefix @ dir @ [NUL, LF])"
  by (simp_all add: write_plan_record_def entry_record_def chdir_record_def)

lemma accept_record_simps [simp]:
  "accept_record r (entry_record e) =
    (if follows (rd_previous r) e then Inr (Some (entry_record e), r\<lparr>rd_previous := Some e\<rparr>) else Inl Non_contiguous)"
  "accept_record r (chdir_record dir) =
    (if rd_record_num r \<noteq> 1 \<or> dir = [] then Inl Misplaced_chdir else Inr (Some (chdir_record dir), r))"
  by (simp_all add: accept_record_def entry_record_def chdir_record_def)

lemma record_entry_simps [simp]: "entry (entry_record e) = Some e" "entry (chdir_record dir) = None"
  by (simp_all add: entry_record_def chdir_record_def)

lemma read_entries:
  assumes "contiguous (rd_previous r) es" and "list_all valid_entry es"
    and "rd_input r = plan_text (map entry_record es)" and "\<not> rd_broken r"
  shows "read_plan r = Inr (map (entry_record \<circ> canon_entry) es)"
  using assms
proof (induction es arbitrary: r)
  case Nil
  then show ?case by (simp add: read_plan.simps [of r] reader_next_def plan_text_def)
next
  case (Cons e es)
  let ?r = "r\<lparr>rd_record_num := rd_record_num r + 1, rd_input := plan_text (map entry_record es),
      rd_previous := Some (canon_entry e)\<rparr>"
  have "rd_input r = entry_text e @ [NUL, LF] @ plan_text (map entry_record es)"
    using Cons.prems(3) by (simp add: plan_text_Cons)
  from reader_next_text [OF NUL_entry_text this] Cons.prems parse_entry_text
  have "reader_next r = Inr (Some (entry_record (canon_entry e)), ?r)"
    by simp
  moreover have "read_plan ?r = Inr (map (entry_record \<circ> canon_entry) es)"
    by (rule Cons.IH) (use Cons.prems in simp_all)
  ultimately show ?case by (simp add: read_plan.simps [of r])
qed

lemma read_chdir:
  assumes "list_all valid_entry es" and "contiguous None es" and "dir \<noteq> []" and "NUL \<notin> set dir"
  shows "read_plan (new_plan_reader (plan_text (chdir_record dir # map entry_record es)) False path) =
      Inr (chdir_record dir # map (entry_record \<circ> canon_entry) es)"
proof -
  let ?r = "new_plan_reader (plan_text (chdir_record dir # map entry_record es)) False path"
  let ?r' = "?r\<lparr>rd_record_num := 1, rd_input := plan_text (map entry_record es)\<rparr>"
  have "NUL \<notin> set (chdir_prefix @ dir)" using assms(4) by (simp add: chdir_prefix_def NUL_def)
  moreover have "rd_input ?r = (chdir_prefix @ dir) @ [NUL, LF] @ plan_text (map entry_record es)"
    by (simp add: new_plan_reader_def plan_text_Cons)
  ultimately have "reader_next ?r = bind_res (parse_plan_record (chdir_prefix @ dir) (rd_path ?r) (rd_record_num ?r + 1))
    (accept_record (?r\<lparr>rd_record_num := rd_record_num ?r + 1, rd_input := plan_text (map entry_record es)\<rparr>))"
    by (rule reader_next_text)
  moreover have "parse_plan_record (chdir_prefix @ dir) q n = Inr (chdir_record dir)" for q n
    by (simp add: parse_plan_record_def chdir_record_def)
  ultimately have "reader_next ?r = Inr (Some (chdir_record dir), ?r')"
    using assms(3) by (simp add: new_plan_reader_def)
  moreover have "read_plan ?r' = Inr (map (entry_record \<circ> canon_entry) es)"
    by (rule read_entries) (use assms in \<open>simp_all add: new_plan_reader_def\<close>)
  ultimately show ?thesis
    by (simp add: read_plan.simps [of ?r])
qed

text \<open>What a parsed entry looks like.\<close>

lemma parse_plan_record_valid:
  assumes "parse_plan_record s path num = Inr p" and "NUL \<notin> set s"
  shows "(\<exists>dir. p = chdir_record dir) \<or> (\<exists>e. p = entry_record e \<and> valid_entry e)"
proof (cases "take (length chdir_prefix) s = chdir_prefix")
  case True
  with assms(1) show ?thesis by (auto simp: parse_plan_record_def chdir_record_def)
next
  case False
  with assms(1) obtain fs rest where f: "split_fields 9 (tl s) = (fs, Some rest)" "rest \<noteq> []" "s \<noteq> []"
    "hd (fs ! 2) \<in> set plan_kinds" "hd rest \<noteq> CHR ''/''"
    by (auto simp: parse_plan_record_def Let_def split: prod.splits option.splits if_splits)
  from False assms(1) f obtain e where e: "parse_entry_fields fs rest path num = Inr e" "p = entry_record e"
    and h: "hd (fs ! 2) = CHR ''h'' \<longrightarrow> parse_u64_field (fs ! 3) path num = Inr 0"
    by (auto simp: parse_plan_record_def bind_res_Inr entry_record_def Let_def split: if_splits)
  from e(1) have "pe_kind e = hd (fs ! 2)" "pe_path e = rest" "parse_u64_field (fs ! 3) path num = Inr (pe_size e)"
    by (auto simp: parse_entry_fields_def bind_res_Inr)
  moreover have "NUL \<notin> set rest"
    using split_fields_ok [OF f(1)] assms(2) f(3) by (cases s) auto
  ultimately show ?thesis using f h e(2) by (auto simp: valid_entry_def)
qed

lemma reader_next_accepts:
  assumes "reader_next r = Inr (Some p, r')"
  obtains t num r1 where "parse_plan_record t (rd_path r) num = Inr p" and "NUL \<notin> set t"
    and "accept_record r1 p = Inr (Some p, r')" and "rd_previous r1 = rd_previous r"
proof -
  let ?t = "takeWhile (\<lambda>c. c \<noteq> NUL) (rd_input r)"
  obtain c rest where d: "dropWhile (\<lambda>c. c \<noteq> NUL) (rd_input r) = c # LF # rest"
    using assms by (auto simp: reader_next_def Let_def split: list.splits if_splits)
  let ?r = "r\<lparr>rd_record_num := rd_record_num r + 1, rd_input := rest\<rparr>"
  from assms d obtain q where q: "parse_plan_record ?t (rd_path r) (rd_record_num r + 1) = Inr q"
    "accept_record ?r q = Inr (Some p, r')" by (auto simp: reader_next_def Let_def bind_res_Inr)
  then have "q = p" by (auto simp: accept_record_def split: option.splits if_splits)
  moreover have "NUL \<notin> set ?t" by (auto dest: set_takeWhileD)
  ultimately show thesis using that [of ?t _ ?r] q by simp
qed

lemma read_plan_contents:
  "read_plan r = Inr rs \<Longrightarrow> contiguous (rd_previous r) (plan_entries rs) \<and>
   (\<forall>p \<in> set rs. (\<exists>dir. p = chdir_record dir \<and> dir \<noteq> []) \<or> (\<exists>e. p = entry_record e \<and> valid_entry e))"
proof (induction r arbitrary: rs rule: read_plan.induct)
  case (1 r)
  show ?case
  proof (cases "reader_next r")
    case (Inl e)
    with "1.prems" show ?thesis by (simp add: read_plan.simps [of r])
  next
    case (Inr y)
    obtain x r' where y: "reader_next r = Inr (x, r')" using Inr by (cases y) simp
    show ?thesis
    proof (cases x)
      case None
      with "1.prems" y show ?thesis by (simp add: read_plan.simps [of r])
    next
      case (Some p)
      with "1.prems" y obtain ps where ps: "read_plan r' = Inr ps" "rs = p # ps"
        by (auto simp: read_plan.simps [of r] bind_res_Inr)
      from reader_next_accepts [OF y [unfolded Some]] obtain t num r1 where
        t: "parse_plan_record t (rd_path r) num = Inr p" "NUL \<notin> set t"
          "accept_record r1 p = Inr (Some p, r')" "rd_previous r1 = rd_previous r" .
      have IH: "contiguous (rd_previous r') (plan_entries ps)"
        "\<forall>p \<in> set ps. (\<exists>dir. p = chdir_record dir \<and> dir \<noteq> []) \<or> (\<exists>e. p = entry_record e \<and> valid_entry e)"
        using "1.IH" [OF Inr _ Some ps(1)] y Inr by auto
      from parse_plan_record_valid [OF t(1,2)] show ?thesis
      proof (elim disjE exE conjE)
        fix dir assume p: "p = chdir_record dir"
        with t(3,4) have "dir \<noteq> []" "rd_previous r' = rd_previous r"
          by (auto split: if_splits)
        with IH p show ?thesis by (auto simp: ps(2))
      next
        fix e assume p: "p = entry_record e" "valid_entry e"
        with t(3,4) have "follows (rd_previous r) e" "rd_previous r' = Some e"
          by (auto split: if_splits)
        with IH p show ?thesis by (auto simp: ps(2))
      qed
    qed
  qed
qed

section \<open>Properties\<close>

text \<open>C27. A plan survives its file: the records written for an optional directory and
  contiguously numbered entries are read back, field by field, owner names that contain a slash
  or NUL as empty names.\<close>
theorem plan_roundtrip:
  assumes "list_all valid_entry es" and "contiguous None es" and "dir \<noteq> []" and "NUL \<notin> set dir"
  shows "read_plan (new_plan_reader (plan_text (map entry_record es)) False path) =
      Inr (map (entry_record \<circ> canon_entry) es) \<and>
    read_plan (new_plan_reader (plan_text (chdir_record dir # map entry_record es)) False path) =
      Inr (chdir_record dir # map (entry_record \<circ> canon_entry) es)"
  using read_entries [of "new_plan_reader (plan_text (map entry_record es)) False path" es] read_chdir [OF assms] assms
  by (simp add: new_plan_reader_def)

text \<open>The reader is strict: whatever the bytes of a plan file, if it is read without an
  error then its entries are numbered contiguously from slice 0 and file 0, every entry has a known
  kind and a relative, non-empty path without NUL, and hard links have no size.\<close>
lemma plan_reader_strict:
  assumes "read_plan (new_plan_reader input broken path) = Inr rs"
  shows "contiguous None (plan_entries rs) \<and>
    (\<forall>p \<in> set rs. (\<exists>dir. p = chdir_record dir \<and> dir \<noteq> []) \<or> (\<exists>e. p = entry_record e \<and> valid_entry e))"
  using read_plan_contents [OF assms] by (simp add: new_plan_reader_def)

section \<open>Witnesses\<close>

definition sample_entry :: planned_entry where
  "sample_entry = \<lparr>pe_slice = 0, pe_file_num = 0, pe_kind = CHR ''f'', pe_size = 7, pe_mtime = - 5, pe_uid = 3,
     pe_uname = ''a/b'', pe_gid = 4, pe_gname = ''g'', pe_path = ''d/e''\<rparr>"

lemma sample_entry_ok:
  "list_all valid_entry [sample_entry]" "contiguous None [sample_entry]"
  "canon_entry sample_entry = sample_entry\<lparr>pe_uname := []\<rparr>"
  by (simp_all add: sample_entry_def valid_entry_def plan_kinds_def follows_def canon_entry_def plan_name_def NUL_def)

theorem plan_roundtrip_witness:
  "read_plan (new_plan_reader (plan_text [chdir_record ''x'', entry_record sample_entry]) False ''p'') =
   Inr [chdir_record ''x'', entry_record (sample_entry\<lparr>pe_uname := []\<rparr>)]"
  using plan_roundtrip [OF sample_entry_ok(1,2), of "''x''" "''p''"] by (simp add: NUL_def sample_entry_ok(3))

lemma plan_reader_strict_witness:
  "contiguous None [sample_entry\<lparr>pe_uname := []\<rparr>] \<and> valid_entry (sample_entry\<lparr>pe_uname := []\<rparr>)"
proof -
  have "read_plan (new_plan_reader (plan_text (map entry_record [sample_entry])) False ''p'') =
      Inr (map (entry_record \<circ> canon_entry) [sample_entry])"
    by (rule read_entries) (use sample_entry_ok in \<open>simp_all add: new_plan_reader_def\<close>)
  from plan_reader_strict [OF this] show ?thesis
    by (auto simp: sample_entry_ok(3) entry_record_def chdir_record_def)
qed

end
