(* ===== verification/Planner.thy ===== *)
theory Planner
  imports Paths Plan "HOL-Library.Char_ord" "HOL-Library.List_Lexorder"
begin

text \<open>
  src/neotape_plan_cmd.cpp: the planner walks the sources, numbers the entries, packs them
  into slices and writes the plan.

  The file system is a parameter: the result of \<open>lstat\<close> on a path, the names \<open>readdir\<close>
  gives for a directory (none when it cannot be opened), and the user and group databases.
  Progress lines and warnings are left out.
\<close>

section \<open>The environment\<close>

record file_stat =
  st_mode :: u32
  st_blocks :: u64
  st_size :: u64
  st_dev :: u64
  st_ino :: u64
  st_mtime :: u64
  st_uid :: u32
  st_gid :: u32

text \<open>The block count, the size and the modification time are signed, read with \<open>sint\<close>.\<close>

record plan_options =
  po_slice_size :: u64
  po_metadata_buffer_size :: u64
  po_one_file_system :: bool
  po_chdir_dir :: string
  po_sources :: "string list"
  po_entry_struct_size :: u64

text \<open>\<open>po_entry_struct_size\<close> is \<open>sizeof(EntryMeta)\<close>, which depends on the platform.\<close>

record plan_env =
  env_lstat :: "string \<Rightarrow> file_stat option"
  env_readdir :: "string \<Rightarrow> string list"
  env_user :: "u32 \<Rightarrow> string"
  env_group :: "u32 \<Rightarrow> string"
  env_cwd :: string
  env_chdir_ok :: "string \<Rightarrow> bool"
  env_options :: plan_options

section \<open>File metadata\<close>

definition file_type :: "u32 \<Rightarrow> u32" where "file_type mode = mode AND 0xf000"

definition is_reg :: "u32 \<Rightarrow> bool" where "is_reg mode \<longleftrightarrow> file_type mode = 0x8000"
definition is_dir :: "u32 \<Rightarrow> bool" where "is_dir mode \<longleftrightarrow> file_type mode = 0x4000"
definition is_lnk :: "u32 \<Rightarrow> bool" where "is_lnk mode \<longleftrightarrow> file_type mode = 0xa000"

definition kind_from_mode :: "u32 \<Rightarrow> char" where
  "kind_from_mode mode =
    (if is_reg mode then CHR ''f''
     else if is_dir mode then CHR ''d''
     else if is_lnk mode then CHR ''l''
     else if file_type mode = 0x2000 then CHR ''c''
     else if file_type mode = 0x6000 then CHR ''b''
     else if file_type mode = 0x1000 then CHR ''p''
     else if file_type mode = 0xc000 then CHR ''s''
     else CHR ''?'')"

definition disk_bytes_from_stat :: "file_stat \<Rightarrow> u64" where
  "disk_bytes_from_stat st = (if sint (st_blocks st) \<le> 0 then 0 else st_blocks st * 512)"

definition apparent_bytes_from_stat :: "file_stat \<Rightarrow> u64" where
  "apparent_bytes_from_stat st =
    (if is_reg (st_mode st) \<or> is_lnk (st_mode st) then (if sint (st_size st) < 0 then 0 else st_size st) else 0)"

record entry_meta =
  em_source_path :: string
  em_archive_path :: string
  em_kind :: char
  em_disk_bytes :: u64
  em_apparent_bytes :: u64
  em_device :: u64
  em_inode :: u64
  em_mtime :: u64
  em_uid :: u32
  em_uname :: string
  em_gid :: u32
  em_gname :: string

text \<open>The children of a directory, sorted by name.\<close>

definition sorted_children :: "plan_env \<Rightarrow> string \<Rightarrow> string list" where
  "sorted_children env path =
    map (path_append path) (sort (filter (\<lambda>n. n \<noteq> dot \<and> n \<noteq> dot_dot) (env_readdir env path)))"

datatype lstat_result = Entry_ok entry_meta | Entry_skipped | Entry_throws

definition stat_entry :: "plan_env \<Rightarrow> string \<Rightarrow> source_spec \<Rightarrow> bool \<Rightarrow> u64 option \<Rightarrow> lstat_result" where
  "stat_entry env path spec one_file_system root_device =
    (case env_lstat env path of
       None \<Rightarrow> Entry_skipped
     | Some st \<Rightarrow>
         if one_file_system \<and> (case root_device of None \<Rightarrow> False | Some d \<Rightarrow> is_dir (st_mode st) \<and> st_dev st \<noteq> d)
         then Entry_skipped
         else case archive_path_for_source (env_cwd env) spec path of
           None \<Rightarrow> Entry_throws
         | Some archive_path \<Rightarrow> Entry_ok \<lparr>em_source_path = path, em_archive_path = archive_path,
             em_kind = kind_from_mode (st_mode st), em_disk_bytes = disk_bytes_from_stat st,
             em_apparent_bytes = apparent_bytes_from_stat st, em_device = st_dev st, em_inode = st_ino st,
             em_mtime = st_mtime st, em_uid = st_uid st, em_uname = [], em_gid = st_gid st, em_gname = []\<rparr>)"

section \<open>State\<close>

record slice_plan =
  sl_entries :: "entry_meta list"
  sl_apparent_bytes :: u64
  sl_allocated_bytes :: u64

definition empty_slice :: slice_plan where
  "empty_slice = \<lparr>sl_entries = [], sl_apparent_bytes = 0, sl_allocated_bytes = 0\<rparr>"

record directory_work =
  dw_path :: string
  dw_spec :: source_spec
  dw_root_device :: "u64 option"

datatype planner_error =
    Plan_write_failed | Plan_record_failed plan_error | Chdir_failed | Source_failed | Scan_failed

text \<open>
  The records written so far stand for the text given to \<open>fwrite\<close> (\<open>plan_text\<close>);
  \<open>pl_writes\<close> says of each record whether its \<open>fwrite\<close> reports success.  The stream is
  buffered, so that a success does not mean that the bytes are in the file.
\<close>

record planner =
  pl_slice :: slice_plan
  pl_slice_num :: u64
  pl_entries :: u64
  pl_apparent_bytes :: u64
  pl_slice_sizes :: "u64 list"
  pl_records :: "plan_record list"
  pl_writes :: "nat \<Rightarrow> bool"
  pl_frontier :: "directory_work list"
  pl_users :: "u32 \<Rightarrow> string option"
  pl_groups :: "u32 \<Rightarrow> string option"
  pl_seen :: "(u64 \<times> u64) list"

definition initial_planner :: "(nat \<Rightarrow> bool) \<Rightarrow> planner" where
  "initial_planner writes = \<lparr>pl_slice = empty_slice, pl_slice_num = 0, pl_entries = 0, pl_apparent_bytes = 0,
     pl_slice_sizes = [], pl_records = [], pl_writes = writes, pl_frontier = [],
     pl_users = (\<lambda>_. None), pl_groups = (\<lambda>_. None), pl_seen = []\<rparr>"

section \<open>Writing slices\<close>

definition put_record :: "plan_record \<Rightarrow> planner \<Rightarrow> planner_error + planner" where
  "put_record rec pl =
    (case write_plan_record rec of
       Inl e \<Rightarrow> Inl (Plan_record_failed e)
     | Inr t \<Rightarrow>
         if pl_writes pl (length (pl_records pl)) then Inr (pl\<lparr>pl_records := pl_records pl @ [rec]\<rparr>)
         else Inl Plan_write_failed)"

definition entry_plan_record :: "u64 \<Rightarrow> nat \<Rightarrow> entry_meta \<Rightarrow> plan_record" where
  "entry_plan_record num i e = entry_record \<lparr>pe_slice = num, pe_file_num = word_of_nat i, pe_kind = em_kind e,
     pe_size = em_apparent_bytes e, pe_mtime = em_mtime e, pe_uid = em_uid e, pe_uname = em_uname e,
     pe_gid = em_gid e, pe_gname = em_gname e, pe_path = em_archive_path e\<rparr>"

fun emit_entries :: "u64 \<Rightarrow> nat \<Rightarrow> entry_meta list \<Rightarrow> planner \<Rightarrow> planner_error + planner" where
  "emit_entries num i [] pl = Inr pl"
| "emit_entries num i (e # es) pl = bind_res (put_record (entry_plan_record num i e) pl) (emit_entries num (i + 1) es)"

definition emit_slice :: "slice_plan \<Rightarrow> u64 \<Rightarrow> planner \<Rightarrow> planner_error + planner" where
  "emit_slice sl num pl =
    bind_res (emit_entries num 0 (sl_entries sl) pl) (\<lambda>pl.
      Inr (pl\<lparr>pl_slice_sizes := pl_slice_sizes pl @ [sl_apparent_bytes sl]\<rparr>))"

text \<open>\<open>emit_slice(slice, opts, slice_num++, ...); slice = SlicePlan{};\<close>\<close>

definition close_slice :: "planner \<Rightarrow> planner_error + planner" where
  "close_slice pl =
    bind_res (emit_slice (pl_slice pl) (pl_slice_num pl) (pl\<lparr>pl_slice_num := pl_slice_num pl + 1\<rparr>)) (\<lambda>pl.
      Inr (pl\<lparr>pl_slice := empty_slice\<rparr>))"

definition slice_preadd_limit :: "plan_options \<Rightarrow> u64" where
  "slice_preadd_limit opts =
    (let half = po_slice_size opts div 2
     in if po_slice_size opts > - 1 - half then - 1 else po_slice_size opts + half)"

definition should_start_next_slice :: "slice_plan \<Rightarrow> entry_meta \<Rightarrow> plan_options \<Rightarrow> bool" where
  "should_start_next_slice sl e opts \<longleftrightarrow>
     sl_entries sl \<noteq> [] \<and>
     (sl_apparent_bytes sl > slice_preadd_limit opts \<or>
      em_apparent_bytes e > slice_preadd_limit opts - sl_apparent_bytes sl)"

text \<open>Strings of at most 15 bytes are kept inside the string object.\<close>

definition path_heap :: "string \<Rightarrow> u64" where
  "path_heap s = (if length s \<le> 15 then 0 else word_of_nat (length s))"

definition grow_slice :: "plan_options \<Rightarrow> entry_meta \<Rightarrow> slice_plan \<Rightarrow> slice_plan" where
  "grow_slice opts e sl = sl\<lparr>sl_entries := sl_entries sl @ [e],
     sl_apparent_bytes := sl_apparent_bytes sl + em_apparent_bytes e,
     sl_allocated_bytes := sl_allocated_bytes sl +
       (po_entry_struct_size opts + path_heap (em_source_path e) + path_heap (em_archive_path e))\<rparr>"

definition add_to_slice :: "plan_options \<Rightarrow> entry_meta \<Rightarrow> planner \<Rightarrow> planner_error + planner" where
  "add_to_slice opts e pl =
    bind_res (if should_start_next_slice (pl_slice pl) e opts then close_slice pl else Inr pl) (\<lambda>pl.
      let pl = pl\<lparr>pl_slice := grow_slice opts e (pl_slice pl),
                  pl_entries := pl_entries pl + 1,
                  pl_apparent_bytes := pl_apparent_bytes pl + em_apparent_bytes e\<rparr>
      in if sl_allocated_bytes (pl_slice pl) \<ge> po_metadata_buffer_size opts \<or>
            sl_apparent_bytes (pl_slice pl) \<ge> po_slice_size opts
         then close_slice pl else Inr pl)"

section \<open>Names and hard links\<close>

definition resolve_user :: "plan_env \<Rightarrow> u32 \<Rightarrow> planner \<Rightarrow> string \<times> planner" where
  "resolve_user env uid pl =
    (case pl_users pl uid of
       Some name \<Rightarrow> (name, pl)
     | None \<Rightarrow> let name = env_user env uid in (name, pl\<lparr>pl_users := (pl_users pl)(uid := Some name)\<rparr>))"

definition resolve_group :: "plan_env \<Rightarrow> u32 \<Rightarrow> planner \<Rightarrow> string \<times> planner" where
  "resolve_group env gid pl =
    (case pl_groups pl gid of
       Some name \<Rightarrow> (name, pl)
     | None \<Rightarrow> let name = env_group env gid in (name, pl\<lparr>pl_groups := (pl_groups pl)(gid := Some name)\<rparr>))"

definition is_hardlink :: "u64 \<Rightarrow> u64 \<Rightarrow> planner \<Rightarrow> bool \<times> planner" where
  "is_hardlink dev ino pl =
    (if (dev, ino) \<in> set (pl_seen pl) then (True, pl) else (False, pl\<lparr>pl_seen := (dev, ino) # pl_seen pl\<rparr>))"

definition resolve_names :: "plan_env \<Rightarrow> entry_meta \<Rightarrow> planner \<Rightarrow> entry_meta \<times> planner" where
  "resolve_names env meta pl =
    (case resolve_user env (em_uid meta) pl of (uname, pl) \<Rightarrow>
     case resolve_group env (em_gid meta) pl of (gname, pl) \<Rightarrow>
       let meta = meta\<lparr>em_uname := uname, em_gname := gname\<rparr>
       in case is_hardlink (em_device meta) (em_inode meta) pl of
         (True, pl) \<Rightarrow> (meta\<lparr>em_kind := CHR ''h'', em_disk_bytes := 0, em_apparent_bytes := 0\<rparr>, pl)
       | (False, pl) \<Rightarrow> (meta, pl))"

section \<open>The walk\<close>

definition directory_frontier_capacity :: nat where "directory_frontier_capacity = 4096"

definition stat_children :: "plan_env \<Rightarrow> directory_work \<Rightarrow> string list \<Rightarrow> lstat_result list" where
  "stat_children env d children =
    map (\<lambda>p. stat_entry env p (dw_spec d) (po_one_file_system (env_options env)) (dw_root_device d)) children"

definition push_directory :: "directory_work \<Rightarrow> planner \<Rightarrow> planner" where
  "push_directory d pl = pl\<lparr>pl_frontier := pl_frontier pl @ [d]\<rparr>"

text \<open>One entry: names, slice; the caller enqueues a directory.\<close>

definition add_entry :: "plan_env \<Rightarrow> entry_meta \<Rightarrow> planner \<Rightarrow> planner_error + entry_meta \<times> planner" where
  "add_entry env meta pl =
    (case resolve_names env meta pl of
       (meta, pl) \<Rightarrow> bind_res (add_to_slice (env_options env) meta pl) (\<lambda>pl. Inr (meta, pl)))"

text \<open>
  \<open>process_one_directory\<close>, its loop over the results, and \<open>enqueue_directory\<close>, which
  processes directories while the frontier is full.  The first argument is fuel; \<open>None\<close>
  means it did not suffice.
\<close>

fun process_one_directory :: "nat \<Rightarrow> plan_env \<Rightarrow> planner \<Rightarrow> (planner_error + planner) option"
  and scan_results :: "nat \<Rightarrow> plan_env \<Rightarrow> directory_work \<Rightarrow> lstat_result list \<Rightarrow> planner \<Rightarrow> (planner_error + planner) option"
  and enqueue_directory :: "nat \<Rightarrow> plan_env \<Rightarrow> directory_work \<Rightarrow> planner \<Rightarrow> (planner_error + planner) option" where
  "process_one_directory 0 env pl = None"
| "process_one_directory (Suc n) env pl =
    (case pl_frontier pl of
       [] \<Rightarrow> Some (Inr pl)
     | d # rest \<Rightarrow>
         let rs = stat_children env d (sorted_children env (dw_path d))
         in if Entry_throws \<in> set rs then Some (Inl Scan_failed)
            else scan_results n env d rs (pl\<lparr>pl_frontier := rest\<rparr>))"
| "scan_results n env d [] pl = Some (Inr pl)"
| "scan_results n env d (Entry_skipped # rs) pl = scan_results n env d rs pl"
| "scan_results n env d (Entry_throws # rs) pl = Some (Inl Scan_failed)"
| "scan_results n env d (Entry_ok meta # rs) pl =
    (case add_entry env meta pl of
       Inl e \<Rightarrow> Some (Inl e)
     | Inr (meta, pl) \<Rightarrow>
         if em_kind meta = CHR ''d'' then
           (case enqueue_directory n env (d\<lparr>dw_path := em_source_path meta\<rparr>) pl of
              Some (Inr pl) \<Rightarrow> scan_results n env d rs pl
            | r \<Rightarrow> r)
         else scan_results n env d rs pl)"
| "enqueue_directory n env d pl =
    (if length (pl_frontier pl) < directory_frontier_capacity then Some (Inr (push_directory d pl))
     else case n of
       0 \<Rightarrow> None
     | Suc m \<Rightarrow> (case process_one_directory m env pl of
                    Some (Inr pl) \<Rightarrow> enqueue_directory m env d pl
                  | r \<Rightarrow> r))"

declare enqueue_directory.simps [simp del]

text \<open>\<open>while (!frontier_.empty()) process_one_directory();\<close>\<close>

fun drain_frontier :: "nat \<Rightarrow> plan_env \<Rightarrow> planner \<Rightarrow> (planner_error + planner) option" where
  "drain_frontier 0 env pl = (if pl_frontier pl = [] then Some (Inr pl) else None)"
| "drain_frontier (Suc n) env pl =
    (if pl_frontier pl = [] then Some (Inr pl)
     else case process_one_directory n env pl of
       Some (Inr pl) \<Rightarrow> drain_frontier n env pl
     | r \<Rightarrow> r)"

definition scan_source :: "nat \<Rightarrow> plan_env \<Rightarrow> source_spec \<Rightarrow> planner \<Rightarrow> (planner_error + planner) option" where
  "scan_source n env spec pl =
    (case stat_entry env (sp_open_path spec) spec False None of
       Entry_skipped \<Rightarrow> Some (Inl Source_failed)
     | Entry_throws \<Rightarrow> Some (Inl Scan_failed)
     | Entry_ok root \<Rightarrow>
         (case add_entry env root pl of
            Inl e \<Rightarrow> Some (Inl e)
          | Inr (meta, pl) \<Rightarrow>
              if em_kind meta \<noteq> CHR ''d'' then Some (Inr pl)
              else case enqueue_directory n env
                     \<lparr>dw_path = sp_open_path spec, dw_spec = spec, dw_root_device = Some (em_device root)\<rparr> pl of
                Some (Inr pl) \<Rightarrow> drain_frontier n env pl
              | r \<Rightarrow> r))"

fun scan_sources :: "nat \<Rightarrow> plan_env \<Rightarrow> source_spec list \<Rightarrow> planner \<Rightarrow> (planner_error + planner) option" where
  "scan_sources n env [] pl = Some (Inr pl)"
| "scan_sources n env (spec # specs) pl =
    (case scan_source n env spec pl of Some (Inr pl) \<Rightarrow> scan_sources n env specs pl | r \<Rightarrow> r)"

fun make_specs :: "plan_env \<Rightarrow> string list \<Rightarrow> source_spec list option" where
  "make_specs env [] = Some []"
| "make_specs env (s # ss) =
    (case make_source_spec (env_cwd env) (\<lambda>p. env_lstat env p \<noteq> None) s of
       None \<Rightarrow> None
     | Some spec \<Rightarrow> map_option ((#) spec) (make_specs env ss))"

definition write_chdir :: "plan_env \<Rightarrow> planner \<Rightarrow> planner_error + planner" where
  "write_chdir env pl =
    (let dir = po_chdir_dir (env_options env)
     in if dir = [] then Inr pl
        else if \<not> env_chdir_ok env dir then Inl Chdir_failed
        else put_record (chdir_record dir) pl)"

definition run_plan :: "nat \<Rightarrow> plan_env \<Rightarrow> (nat \<Rightarrow> bool) \<Rightarrow> (planner_error + planner) option" where
  "run_plan n env writes =
    (case write_chdir env (initial_planner writes) of
       Inl e \<Rightarrow> Some (Inl e)
     | Inr pl \<Rightarrow>
         (case make_specs env (po_sources (env_options env)) of
            None \<Rightarrow> Some (Inl Source_failed)
          | Some specs \<Rightarrow>
              (case scan_sources n env specs pl of
                 Some (Inr pl) \<Rightarrow> Some (if sl_entries (pl_slice pl) \<noteq> [] then close_slice pl else Inr pl)
               | r \<Rightarrow> r)))"

end
