(* ===== verification/PlannerSpec.thy ===== *)
theory PlannerSpec
  imports Planner
begin

text \<open>
  What the planner guarantees: slice and file numbers are contiguous, slices respect the size
  limit, plans are readable, and the walk visits every entry once and ends.
\<close>

section \<open>Writing records\<close>

definition slice_records :: "u64 \<Rightarrow> nat \<Rightarrow> entry_meta list \<Rightarrow> plan_record list" where
  "slice_records num i es = map (\<lambda>(j, e). entry_plan_record num j e) (enumerate i es)"

lemma slice_records_simps [simp]:
  "slice_records num i [] = []"
  "slice_records num i (e # es) = entry_plan_record num i e # slice_records num (Suc i) es"
  by (simp_all add: slice_records_def)

lemma put_record_Inr:
  "put_record r pl = Inr pl' \<Longrightarrow> pl' = pl\<lparr>pl_records := pl_records pl @ [r]\<rparr>"
  by (auto simp: put_record_def split: sum.splits if_splits)

lemma emit_entries_Inr:
  "emit_entries num i es pl = Inr pl' \<Longrightarrow> pl' = pl\<lparr>pl_records := pl_records pl @ slice_records num i es\<rparr>"
proof (induction es arbitrary: i pl)
  case (Cons e es)
  then obtain q where q: "put_record (entry_plan_record num i e) pl = Inr q" "emit_entries num (i + 1) es q = Inr pl'"
    by (auto simp: bind_res_Inr)
  from put_record_Inr [OF q(1)] Cons.IH [OF q(2)] show ?case by simp
qed simp

lemma close_slice_Inr:
  assumes "close_slice pl = Inr pl'"
  shows "pl' = pl\<lparr>pl_records := pl_records pl @ slice_records (pl_slice_num pl) 0 (sl_entries (pl_slice pl)),
     pl_slice_num := pl_slice_num pl + 1,
     pl_slice_sizes := pl_slice_sizes pl @ [sl_apparent_bytes (pl_slice pl)], pl_slice := empty_slice\<rparr>"
proof -
  from assms obtain q where q: "emit_entries (pl_slice_num pl) 0 (sl_entries (pl_slice pl))
      (pl\<lparr>pl_slice_num := pl_slice_num pl + 1\<rparr>) = Inr q"
    "pl' = q\<lparr>pl_slice_sizes := pl_slice_sizes q @ [sl_apparent_bytes (pl_slice pl)], pl_slice := empty_slice\<rparr>"
    by (auto simp: close_slice_def emit_slice_def bind_res_Inr)
  from emit_entries_Inr [OF q(1)] q(2) show ?thesis by simp
qed

text \<open>The entries of a plan under construction: written, or in the open slice.\<close>

definition entry_count :: "planner \<Rightarrow> nat" where
  "entry_count pl = length (plan_entries (pl_records pl)) + length (sl_entries (pl_slice pl))"

lemma entry_of_plan_record [simp]: "entry (entry_plan_record num i e) = Some \<lparr>pe_slice = num, pe_file_num = word_of_nat i,
   pe_kind = em_kind e, pe_size = em_apparent_bytes e, pe_mtime = em_mtime e, pe_uid = em_uid e, pe_uname = em_uname e,
   pe_gid = em_gid e, pe_gname = em_gname e, pe_path = em_archive_path e\<rparr>"
  by (simp add: entry_plan_record_def)

lemma slice_entries_props:
  "length (plan_entries (slice_records num i es)) = length es"
  "map pe_size (plan_entries (slice_records num i es)) = map em_apparent_bytes es"
  "map pe_path (plan_entries (slice_records num i es)) = map em_archive_path es"
  "e \<in> set (plan_entries (slice_records num i es)) \<Longrightarrow> pe_slice e = num"
  by (induction es arbitrary: i) auto

section \<open>Contiguous numbers\<close>

lemma contiguous_append:
  "contiguous p (xs @ ys) \<longleftrightarrow> contiguous p xs \<and> contiguous (if xs = [] then p else Some (last xs)) ys"
  by (induction p xs rule: contiguous.induct) auto

lemma word_suc: "i + 1 < 2 ^ 64 \<Longrightarrow> word_of_nat i \<noteq> (- 1 :: u64) \<and> word_of_nat (Suc i) = (word_of_nat i :: u64) + 1"
proof -
  assume "i + 1 < 2 ^ 64"
  moreover have "unat (- 1 :: u64) = 2 ^ 64 - 1" by (simp add: unsigned_minus_1_eq_mask mask_eq_exp_minus_1)
  ultimately have "unat (word_of_nat i :: u64) \<noteq> unat (- 1 :: u64)" by (simp add: unat_of_nat)
  then show ?thesis by auto
qed

lemma contiguous_slice_rest:
  assumes "pe_slice q = num" and "pe_file_num q = word_of_nat i" and "i + length es < 2 ^ 64"
  shows "contiguous (Some q) (plan_entries (slice_records num (Suc i) es))"
  using assms
proof (induction es arbitrary: i q)
  case (Cons e es)
  then have w: "word_of_nat i \<noteq> (- 1 :: u64) \<and> word_of_nat (Suc i) = (word_of_nat i :: u64) + 1" by (intro word_suc) simp
  with Cons show ?case by (auto simp: follows_def intro!: Cons.IH)
qed simp

lemma contiguous_slice:
  assumes "es \<noteq> []" and "length es < 2 ^ 64"
    and "(p = None \<and> num = 0) \<or> (\<exists>q. p = Some q \<and> pe_slice q \<noteq> - 1 \<and> num = pe_slice q + 1)"
  shows "contiguous p (plan_entries (slice_records num 0 es))"
proof (cases es)
  case (Cons e es')
  let ?q = "\<lparr>pe_slice = num, pe_file_num = 0, pe_kind = em_kind e, pe_size = em_apparent_bytes e, pe_mtime = em_mtime e,
    pe_uid = em_uid e, pe_uname = em_uname e, pe_gid = em_gid e, pe_gname = em_gname e, pe_path = em_archive_path e\<rparr>"
  have "contiguous (Some ?q) (plan_entries (slice_records num (Suc 0) es'))"
    by (rule contiguous_slice_rest) (use assms(2) Cons in simp_all)
  moreover have "follows p ?q" using assms(3) by (auto simp: follows_def)
  ultimately show ?thesis by (simp add: Cons)
qed (use assms(1) in simp)

section \<open>The packing invariant\<close>

definition total_bytes :: "u64 list \<Rightarrow> nat" where
  "total_bytes ws = sum_list (map unat ws)"

lemma total_bytes_simps [simp]:
  "total_bytes [] = 0" "total_bytes (w # ws) = unat w + total_bytes ws"
  "total_bytes (ws @ vs) = total_bytes ws + total_bytes vs"
  by (simp_all add: total_bytes_def)

definition within_limit :: "plan_options \<Rightarrow> u64 list \<Rightarrow> bool" where
  "within_limit opts sizes \<longleftrightarrow> length sizes \<le> 1 \<or> total_bytes sizes \<le> unat (slice_preadd_limit opts)"

definition open_slice_ok :: "plan_options \<Rightarrow> slice_plan \<Rightarrow> bool" where
  "open_slice_ok opts sl \<longleftrightarrow> within_limit opts (map em_apparent_bytes (sl_entries sl)) \<and>
     unat (sl_apparent_bytes sl) = total_bytes (map em_apparent_bytes (sl_entries sl))"

definition slice_sizes_of :: "planned_entry list \<Rightarrow> u64 \<Rightarrow> u64 list" where
  "slice_sizes_of es k = map pe_size (filter (\<lambda>e. pe_slice e = k) es)"

definition closed_slices_ok :: "plan_options \<Rightarrow> planner \<Rightarrow> bool" where
  "closed_slices_ok opts pl \<longleftrightarrow>
     (let es = plan_entries (pl_records pl); n = length (pl_slice_sizes pl)
      in contiguous None es \<and> pl_slice_num pl = word_of_nat n \<and> n \<le> length es \<and>
         (if es = [] then n = 0 else 0 < n \<and> pe_slice (last es) = word_of_nat (n - 1)) \<and>
         (\<forall>e \<in> set es. unat (pe_slice e) < n) \<and> (\<forall>k. within_limit opts (slice_sizes_of es k)))"

definition packed :: "plan_options \<Rightarrow> planner \<Rightarrow> bool" where
  "packed opts pl \<longleftrightarrow> (entry_count pl < 2 ^ 64 \<longrightarrow> open_slice_ok opts (pl_slice pl) \<and> closed_slices_ok opts pl)"

lemma empty_slice_ok [simp]: "open_slice_ok opts empty_slice"
  by (simp add: open_slice_ok_def empty_slice_def within_limit_def)

lemma close_slice_closed:
  assumes "close_slice pl = Inr pl'" and "closed_slices_ok opts pl" and "open_slice_ok opts (pl_slice pl)"
    and "sl_entries (pl_slice pl) \<noteq> []" and "entry_count pl < 2 ^ 64"
  shows "closed_slices_ok opts pl'"
proof -
  let ?es = "plan_entries (pl_records pl)" and ?n = "length (pl_slice_sizes pl)" and ?num = "pl_slice_num pl"
  let ?new = "plan_entries (slice_records ?num 0 (sl_entries (pl_slice pl)))"
  note pl' = close_slice_Inr [OF assms(1)]
  from assms(2) have I: "contiguous None ?es" "?num = word_of_nat ?n" "?n \<le> length ?es"
    "if ?es = [] then ?n = 0 else 0 < ?n \<and> pe_slice (last ?es) = word_of_nat (?n - 1)"
    "\<forall>e \<in> set ?es. unat (pe_slice e) < ?n" "\<forall>k. within_limit opts (slice_sizes_of ?es k)"
    unfolding closed_slices_ok_def Let_def by blast+
  have len: "length ?new = length (sl_entries (pl_slice pl))" by (rule slice_entries_props)
  then have ne: "?new \<noteq> []" using assms(4) by auto
  have cnt: "length ?es + length (sl_entries (pl_slice pl)) < 2 ^ 64" using assms(5) by (simp add: entry_count_def)
  then have un: "unat ?num = ?n" using I(2,3) by (simp add: unat_of_nat)
  have same: "\<forall>e \<in> set ?new. pe_slice e = ?num" using slice_entries_props(4) by blast
  have "contiguous (if ?es = [] then None else Some (last ?es)) ?new"
  proof (rule contiguous_slice [OF assms(4)])
    show "length (sl_entries (pl_slice pl)) < 2 ^ 64" using cnt by simp
    show "((if ?es = [] then None else Some (last ?es)) = None \<and> ?num = 0) \<or>
      (\<exists>q. (if ?es = [] then None else Some (last ?es)) = Some q \<and> pe_slice q \<noteq> - 1 \<and> ?num = pe_slice q + 1)"
    proof (cases "?es = []")
      case False
      with I(4) have "0 < ?n" "pe_slice (last ?es) = word_of_nat (?n - 1)" by simp_all
      moreover have "(?n - 1) + 1 < 2 ^ 64" using I(3) cnt \<open>0 < ?n\<close> by linarith
      ultimately show ?thesis using word_suc [of "?n - 1"] I(2) False by auto
    qed (use I in simp)
  qed
  with I(1) have 1: "contiguous None (?es @ ?new)" by (simp add: contiguous_append)
  have 2: "within_limit opts (slice_sizes_of (?es @ ?new) k)" for k
  proof (cases "k = ?num")
    case True
    have "filter (\<lambda>e. pe_slice e = k) ?es = []" using I(5) un True by (auto simp: filter_empty_conv)
    moreover have "filter (\<lambda>e. pe_slice e = k) ?new = ?new" using same True by (simp add: filter_id_conv)
    ultimately have "slice_sizes_of (?es @ ?new) k = map em_apparent_bytes (sl_entries (pl_slice pl))"
      by (simp add: slice_sizes_of_def slice_entries_props(2))
    with assms(3) show ?thesis by (simp add: open_slice_ok_def)
  next
    case False
    have "filter (\<lambda>e. pe_slice e = k) ?new = []" using same False by (auto simp: filter_empty_conv)
    with I(6) show ?thesis by (simp add: slice_sizes_of_def)
  qed
  have "pe_slice (last (?es @ ?new)) = ?num" using same ne by simp
  moreover have "1 \<le> length ?new" using ne by (cases ?new) auto
  moreover have "\<forall>e \<in> set (?es @ ?new). unat (pe_slice e) < Suc ?n" using I(5) same un by (auto simp: less_Suc_eq)
  ultimately show ?thesis using 1 2 I(2,3) ne by (simp add: closed_slices_ok_def Let_def pl')
qed

section \<open>Adding an entry\<close>

lemma preadd_limit: "unat (slice_preadd_limit opts) \<le> unat (po_slice_size opts) + unat (po_slice_size opts) div 2"
  "po_slice_size opts \<le> slice_preadd_limit opts"
proof -
  let ?s = "po_slice_size opts"
  have h: "unat (?s div 2) = unat ?s div 2" by (simp add: unat_div_distrib)
  have m: "unat (- 1 - ?s div 2) = 2 ^ 64 - 1 - unat ?s div 2"
    by (subst unat_sub) (simp_all add: h unsigned_minus_1_eq_mask mask_eq_exp_minus_1)
  have lt: "unat ?s < 2 ^ 64" using unsigned_less [of ?s] by simp
  show "unat (slice_preadd_limit opts) \<le> unat ?s + unat ?s div 2"
  proof (cases "?s > - 1 - ?s div 2")
    case True
    then have "2 ^ 64 - 1 - unat ?s div 2 < unat ?s" using m by (simp add: word_less_nat_alt)
    moreover have "unat (- 1 :: u64) = 2 ^ 64 - 1" by (simp add: unsigned_minus_1_eq_mask mask_eq_exp_minus_1)
    ultimately show ?thesis using True by (simp add: slice_preadd_limit_def Let_def)
  next
    case False
    then have "unat ?s \<le> 2 ^ 64 - 1 - unat ?s div 2" using m by (simp add: word_less_nat_alt)
    then have "unat (?s + ?s div 2) = unat ?s + unat ?s div 2" using lt by (simp add: unat_word_ariths h)
    with False show ?thesis by (simp add: slice_preadd_limit_def Let_def)
  qed
  show "?s \<le> slice_preadd_limit opts"
  proof (cases "?s > - 1 - ?s div 2")
    case False
    then have "unat ?s \<le> 2 ^ 64 - 1 - unat ?s div 2" using m by (simp add: word_less_nat_alt)
    then have "unat (?s + ?s div 2) = unat ?s + unat ?s div 2" using lt by (simp add: unat_word_ariths h)
    with False show ?thesis by (simp add: slice_preadd_limit_def Let_def word_le_nat_alt)
  qed (simp add: slice_preadd_limit_def Let_def)
qed

lemma grow_slice_ok:
  assumes "open_slice_ok opts sl" and "\<not> should_start_next_slice sl e opts"
  shows "open_slice_ok opts (grow_slice opts e sl)"
proof (cases "sl_entries sl = []")
  case True
  then have "sl_apparent_bytes sl = 0" using assms(1) by (simp add: open_slice_ok_def unat_eq_zero)
  with True show ?thesis by (simp add: open_slice_ok_def grow_slice_def within_limit_def)
next
  case False
  let ?a = "sl_apparent_bytes sl" and ?b = "em_apparent_bytes e" and ?l = "slice_preadd_limit opts"
  have le: "?a \<le> ?l" "?b \<le> ?l - ?a" using assms(2) False by (auto simp: should_start_next_slice_def)
  then have nat: "unat ?a + unat ?b \<le> unat ?l" by (simp add: word_le_nat_alt unat_sub)
  moreover have "unat ?l < 2 ^ 64" using unsigned_less [of ?l] by simp
  ultimately have "unat (?a + ?b) = unat ?a + unat ?b" by (simp add: unat_word_ariths)
  with nat assms(1) show ?thesis
    by (simp add: open_slice_ok_def grow_slice_def within_limit_def)
qed

text \<open>An entry added to a plan: the steps of \<open>add_to_slice\<close>.\<close>

definition appended :: "plan_options \<Rightarrow> entry_meta \<Rightarrow> planner \<Rightarrow> planner" where
  "appended opts e pl = pl\<lparr>pl_slice := grow_slice opts e (pl_slice pl), pl_entries := pl_entries pl + 1,
     pl_apparent_bytes := pl_apparent_bytes pl + em_apparent_bytes e\<rparr>"

lemma add_to_slice_steps:
  assumes "add_to_slice opts e pl = Inr pl'"
  obtains q where "(should_start_next_slice (pl_slice pl) e opts \<and> close_slice pl = Inr q) \<or>
      (\<not> should_start_next_slice (pl_slice pl) e opts \<and> q = pl)"
    and "close_slice (appended opts e q) = Inr pl' \<or> pl' = appended opts e q"
  using assms by (auto simp: add_to_slice_def bind_res_Inr appended_def Let_def split: if_splits)

lemma entry_count_close: "close_slice pl = Inr pl' \<Longrightarrow> entry_count pl' = entry_count pl"
  by (drule close_slice_Inr) (simp add: entry_count_def slice_entries_props empty_slice_def)

lemma entry_count_appended: "entry_count (appended opts e pl) = entry_count pl + 1"
  by (simp add: entry_count_def appended_def grow_slice_def)

lemma not_should_start_empty [simp]: "sl_entries sl = [] \<Longrightarrow> \<not> should_start_next_slice sl e opts"
  by (simp add: should_start_next_slice_def)

lemma not_should_start_fresh [simp]: "\<not> should_start_next_slice empty_slice e opts"
  by (simp add: empty_slice_def)

lemma add_to_slice_packed:
  assumes "add_to_slice opts e pl = Inr pl'" and "packed opts pl"
  shows "packed opts pl' \<and> entry_count pl' = entry_count pl + 1"
proof -
  from add_to_slice_steps [OF assms(1)] obtain q where
    q: "(should_start_next_slice (pl_slice pl) e opts \<and> close_slice pl = Inr q) \<or>
      (\<not> should_start_next_slice (pl_slice pl) e opts \<and> q = pl)"
    and pl': "close_slice (appended opts e q) = Inr pl' \<or> pl' = appended opts e q" .
  have cq: "entry_count q = entry_count pl" using q by (auto dest: entry_count_close)
  then have c: "entry_count pl' = entry_count pl + 1" using pl' by (auto simp: entry_count_appended dest: entry_count_close)
  moreover have "packed opts pl'"
    unfolding packed_def
  proof
    assume lt: "entry_count pl' < 2 ^ 64"
    then have P: "open_slice_ok opts (pl_slice pl)" "closed_slices_ok opts pl" "entry_count pl < 2 ^ 64"
      using assms(2) c by (simp_all add: packed_def)
    have Q: "open_slice_ok opts (pl_slice q) \<and> closed_slices_ok opts q \<and> \<not> should_start_next_slice (pl_slice q) e opts"
      using q
    proof
      assume s: "should_start_next_slice (pl_slice pl) e opts \<and> close_slice pl = Inr q"
      then have "sl_entries (pl_slice pl) \<noteq> []" by (auto simp: should_start_next_slice_def)
      moreover have "pl_slice q = empty_slice" using s by (auto dest: close_slice_Inr)
      ultimately show ?thesis using close_slice_closed [OF _ P(2,1) _ P(3)] s by simp
    qed (use P in simp)
    let ?t = "appended opts e q"
    have T: "open_slice_ok opts (pl_slice ?t)" "closed_slices_ok opts ?t" "sl_entries (pl_slice ?t) \<noteq> []" "entry_count ?t < 2 ^ 64"
      using grow_slice_ok [of opts "pl_slice q" e] Q cq lt c
      by (simp_all add: appended_def entry_count_appended [unfolded appended_def] closed_slices_ok_def) (simp add: grow_slice_def)
    from pl' show "open_slice_ok opts (pl_slice pl') \<and> closed_slices_ok opts pl'"
    proof
      assume cl: "close_slice ?t = Inr pl'"
      then have "pl_slice pl' = empty_slice" by (auto dest: close_slice_Inr)
      with close_slice_closed [OF cl T(2,1,3,4)] show ?thesis by simp
    qed (use T in simp)
  qed
  ultimately show ?thesis by simp
qed

section \<open>Invariants of the walk\<close>

text \<open>
  A property of the plan under construction that adding an admissible entry keeps holds at
  the end of the walk, whatever the file system: \<open>adm_spec\<close> says which sources are admissible
  and \<open>adm_meta\<close> which entries.
\<close>

locale scan_invariant =
  fixes env :: plan_env and P :: "planner \<Rightarrow> bool"
    and adm_spec :: "source_spec \<Rightarrow> bool" and adm_meta :: "entry_meta \<Rightarrow> bool"
  assumes stat_adm: "adm_spec spec \<Longrightarrow> stat_entry env path spec ofs dev = Entry_ok m \<Longrightarrow> adm_meta m"
    and names_adm: "adm_meta m \<Longrightarrow> adm_meta (m\<lparr>em_uname := u, em_gname := g\<rparr>)"
    and link_adm: "adm_meta m \<Longrightarrow> adm_meta (m\<lparr>em_kind := CHR ''h'', em_disk_bytes := 0, em_apparent_bytes := 0\<rparr>)"
    and add_inv: "P pl \<Longrightarrow> adm_meta m \<Longrightarrow> add_to_slice (env_options env) m pl = Inr pl' \<Longrightarrow> P pl'"
    and other_inv: "P pl \<Longrightarrow> P (pl\<lparr>pl_users := us, pl_groups := gs, pl_seen := seen, pl_frontier := fr\<rparr>)"
begin

definition walk_ok :: "planner \<Rightarrow> bool" where
  "walk_ok pl \<longleftrightarrow> P pl \<and> list_all (\<lambda>d. adm_spec (dw_spec d)) (pl_frontier pl)"

lemma frontier_inv: "P pl \<Longrightarrow> P (pl\<lparr>pl_frontier := fr\<rparr>)"
  using other_inv [where us = "pl_users pl" and gs = "pl_groups pl" and seen = "pl_seen pl" and fr = fr and pl = pl] by simp

lemma resolve_names_inv:
  assumes "resolve_names env m pl = (m', pl')" and "P pl" and "adm_meta m"
  shows "P pl' \<and> pl_frontier pl' = pl_frontier pl \<and> adm_meta m'"
proof -
  have "\<exists>u g. m' = m\<lparr>em_uname := u, em_gname := g\<rparr> \<or>
      m' = (m\<lparr>em_uname := u, em_gname := g\<rparr>)\<lparr>em_kind := CHR ''h'', em_disk_bytes := 0, em_apparent_bytes := 0\<rparr>"
    using assms(1) by (auto simp: resolve_names_def Let_def split: prod.splits bool.splits)
  with names_adm link_adm assms(3) have "adm_meta m'" by blast
  moreover obtain us gs seen where "pl' = pl\<lparr>pl_users := us, pl_groups := gs, pl_seen := seen, pl_frontier := pl_frontier pl\<rparr>"
  proof -
    have "pl_slice pl' = pl_slice pl \<and> pl_slice_num pl' = pl_slice_num pl \<and> pl_entries pl' = pl_entries pl \<and>
      pl_apparent_bytes pl' = pl_apparent_bytes pl \<and> pl_slice_sizes pl' = pl_slice_sizes pl \<and>
      pl_records pl' = pl_records pl \<and> pl_writes pl' = pl_writes pl \<and> pl_frontier pl' = pl_frontier pl"
      using assms(1) by (auto simp: resolve_names_def resolve_user_def resolve_group_def is_hardlink_def Let_def
          split: prod.splits bool.splits option.splits if_splits)
    then have "pl' = pl\<lparr>pl_users := pl_users pl', pl_groups := pl_groups pl', pl_seen := pl_seen pl',
      pl_frontier := pl_frontier pl\<rparr>" by simp
    then show thesis by (rule that)
  qed
  moreover from this have "P pl'" using other_inv [OF assms(2)] by blast
  ultimately show ?thesis by simp
qed

lemma add_to_slice_frontier: "add_to_slice opts m pl = Inr pl' \<Longrightarrow> pl_frontier pl' = pl_frontier pl"
  by (erule add_to_slice_steps) (auto simp: appended_def dest!: close_slice_Inr)

lemma add_entry_inv:
  assumes "add_entry env m pl = Inr (m', pl')" and "walk_ok pl" and "adm_meta m"
  shows "walk_ok pl'"
proof -
  from assms(1) obtain q where q: "resolve_names env m pl = (m', q)" "add_to_slice (env_options env) m' q = Inr pl'"
    by (auto simp: add_entry_def bind_res_Inr split: prod.splits)
  from resolve_names_inv [OF q(1)] assms(2,3) have "P q" "pl_frontier q = pl_frontier pl" "adm_meta m'"
    by (simp_all add: walk_ok_def)
  with add_inv [OF _ _ q(2)] add_to_slice_frontier [OF q(2)] assms(2) show ?thesis by (simp add: walk_ok_def)
qed

lemma walk_steps:
  "process_one_directory n e pl = Some (Inr pl') \<Longrightarrow> e = env \<Longrightarrow> walk_ok pl \<Longrightarrow> walk_ok pl'"
  "scan_results n e d rs pl = Some (Inr pl') \<Longrightarrow> e = env \<Longrightarrow> walk_ok pl \<Longrightarrow> adm_spec (dw_spec d) \<Longrightarrow>
     (\<forall>m. Entry_ok m \<in> set rs \<longrightarrow> adm_meta m) \<Longrightarrow> walk_ok pl'"
  "enqueue_directory n e d pl = Some (Inr pl') \<Longrightarrow> e = env \<Longrightarrow> walk_ok pl \<Longrightarrow> adm_spec (dw_spec d) \<Longrightarrow> walk_ok pl'"
proof (induction n e pl and n e d rs pl and n e d pl arbitrary: pl' and pl' and pl'
    rule: process_one_directory_scan_results_enqueue_directory.induct)
  case (2 n e pl)
  note [simp] = "2.prems"(2)
  show ?case
  proof (cases "pl_frontier pl")
    case (Cons d rest)
    let ?rs = "stat_children e d (sorted_children e (dw_path d))"
    have r: "Entry_throws \<notin> set ?rs" "scan_results n env d ?rs (pl\<lparr>pl_frontier := rest\<rparr>) = Some (Inr pl')"
      using "2.prems"(1) Cons by (auto simp: Let_def split: if_splits)
    have "walk_ok (pl\<lparr>pl_frontier := rest\<rparr>)" "adm_spec (dw_spec d)"
      using "2.prems"(3) Cons frontier_inv by (simp_all add: walk_ok_def)
    moreover have "\<forall>m. Entry_ok m \<in> set ?rs \<longrightarrow> adm_meta m"
    proof (intro allI impI)
      fix m assume "Entry_ok m \<in> set ?rs"
      then obtain p where "stat_entry env p (dw_spec d) (po_one_file_system (env_options env)) (dw_root_device d) = Entry_ok m"
        by (auto simp: stat_children_def image_iff)
      from stat_adm [OF \<open>adm_spec (dw_spec d)\<close> this] show "adm_meta m" .
    qed
    ultimately show ?thesis using "2.IH" [OF Cons refl] r by simp
  qed (use 2 in simp)
next
  case (6 n e d meta rs pl)
  note [simp] = "6.prems"(2)
  obtain m' q where a: "add_entry e meta pl = Inr (m', q)" using "6.prems"(1) by (auto split: sum.splits)
  have w: "walk_ok q" using add_entry_inv [OF a [simplified] "6.prems"(3)] "6.prems"(5) by simp
  show ?case
  proof (cases "em_kind m' = CHR ''d''")
    case True
    then obtain t where t: "enqueue_directory n e (d\<lparr>dw_path := em_source_path m'\<rparr>) q = Some (Inr t)"
      "scan_results n e d rs t = Some (Inr pl')"
      using "6.prems"(1) a by (auto split: option.splits sum.splits)
    have "walk_ok t" using "6.IH"(1) [OF a refl True t(1)] w "6.prems"(4) by simp
    then show ?thesis using "6.IH"(2) [OF a refl True t(1) refl t(2)] "6.prems"(4,5) by simp
  next
    case False
    then show ?thesis using "6.IH"(3) [OF a refl False] w "6.prems" a by simp
  qed
next
  case (7 n e d pl)
  note [simp] = "7.prems"(2)
  show ?case
  proof (cases "length (pl_frontier pl) < directory_frontier_capacity")
    case True
    then show ?thesis using 7 frontier_inv by (auto simp: walk_ok_def push_directory_def enqueue_directory.simps [of n])
  next
    case False
    then obtain m t where t: "n = Suc m" "process_one_directory m e pl = Some (Inr t)"
      "enqueue_directory m e d t = Some (Inr pl')"
      using "7.prems"(1) by (auto simp: enqueue_directory.simps [of n] split: nat.splits option.splits sum.splits)
    have "walk_ok t" using "7.IH"(1) [OF False t(1,2)] "7.prems"(3) by simp
    then show ?thesis using "7.IH"(2) [OF False t(1,2) refl t(3)] "7.prems"(4) by simp
  qed
qed auto

lemma drain_inv: "drain_frontier n env pl = Some (Inr pl') \<Longrightarrow> walk_ok pl \<Longrightarrow> walk_ok pl'"
proof (induction n arbitrary: pl)
  case (Suc n)
  show ?case
  proof (cases "pl_frontier pl = []")
    case False
    with Suc.prems(1) obtain t where "process_one_directory n env pl = Some (Inr t)" "drain_frontier n env t = Some (Inr pl')"
      by (auto split: option.splits sum.splits)
    with walk_steps(1) Suc show ?thesis by blast
  qed (use Suc.prems in simp)
qed (simp split: if_splits)

lemma scan_source_inv:
  assumes "scan_source n env spec pl = Some (Inr pl')" and "walk_ok pl" and "adm_spec spec"
  shows "walk_ok pl'"
proof -
  from assms(1) have "\<exists>root m q. stat_entry env (sp_open_path spec) spec False None = Entry_ok root \<and>
    add_entry env root pl = Inr (m, q) \<and>
    (pl' = q \<or> (\<exists>d t. enqueue_directory n env d q = Some (Inr t) \<and> dw_spec d = spec \<and>
      drain_frontier n env t = Some (Inr pl')))"
    by (auto simp: scan_source_def split: lstat_result.splits sum.splits option.splits if_splits)
      (metis (full_types) directory_work.select_convs(2))
  then obtain root m q where r: "stat_entry env (sp_open_path spec) spec False None = Entry_ok root"
    "add_entry env root pl = Inr (m, q)"
    and o: "pl' = q \<or> (\<exists>d t. enqueue_directory n env d q = Some (Inr t) \<and> dw_spec d = spec \<and>
      drain_frontier n env t = Some (Inr pl'))" by blast
  have w: "walk_ok q" using add_entry_inv [OF r(2) assms(2)] stat_adm [OF assms(3) r(1)] by blast
  from o show ?thesis
  proof (elim disjE exE conjE)
    fix d t assume t: "enqueue_directory n env d q = Some (Inr t)" "dw_spec d = spec" "drain_frontier n env t = Some (Inr pl')"
    from walk_steps(3) [OF t(1) refl w] t(2) assms(3) drain_inv [OF t(3)] show ?thesis by simp
  qed (use w in simp)
qed

lemma scan_sources_inv:
  "scan_sources n env specs pl = Some (Inr pl') \<Longrightarrow> walk_ok pl \<Longrightarrow> list_all adm_spec specs \<Longrightarrow> walk_ok pl'"
proof (induction specs arbitrary: pl)
  case (Cons spec specs)
  then obtain t where "scan_source n env spec pl = Some (Inr t)" "scan_sources n env specs t = Some (Inr pl')"
    by (auto split: option.splits sum.splits)
  with scan_source_inv [of n spec pl t] Cons show ?case by simp
qed simp

lemma scan_sources_P:
  "scan_sources n env specs pl = Some (Inr pl') \<Longrightarrow> P pl \<Longrightarrow> pl_frontier pl = [] \<Longrightarrow> list_all adm_spec specs \<Longrightarrow> P pl'"
  using scan_sources_inv [of n specs pl pl'] by (simp add: walk_ok_def)

end

section \<open>Packing\<close>

interpretation packing: scan_invariant env "packed (env_options env)" "\<lambda>_. True" "\<lambda>_. True" for env
proof unfold_locales
  show "packed (env_options env) pl'" if "packed (env_options env) pl" "add_to_slice (env_options env) m pl = Inr pl'" for pl m pl'
    using add_to_slice_packed [OF that(2,1)] by simp
qed (simp_all add: packed_def entry_count_def open_slice_ok_def closed_slices_ok_def)

text \<open>The parts of a successful run: the start, the walk over the sources and the last slice.\<close>

lemma run_plan_parts:
  assumes "run_plan n env writes = Some (Inr pl)"
  obtains specs p0 p1 where "write_chdir env (initial_planner writes) = Inr p0"
    and "make_specs env (po_sources (env_options env)) = Some specs"
    and "scan_sources n env specs p0 = Some (Inr p1)"
    and "(sl_entries (pl_slice p1) \<noteq> [] \<and> close_slice p1 = Inr pl) \<or> (sl_entries (pl_slice p1) = [] \<and> pl = p1)"
  using assms unfolding run_plan_def by (auto split: sum.splits option.splits if_splits)

lemma write_chdir_Inr:
  assumes "write_chdir env (initial_planner writes) = Inr pl"
  shows "pl = (initial_planner writes)\<lparr>pl_records :=
    (if po_chdir_dir (env_options env) = [] then [] else [chdir_record (po_chdir_dir (env_options env))])\<rparr>"
  using assms by (auto simp: write_chdir_def Let_def initial_planner_def split: if_splits dest: put_record_Inr)

lemma run_plan_packed:
  assumes "run_plan n env writes = Some (Inr pl)" and "length (plan_entries (pl_records pl)) < 2 ^ 64"
  shows "closed_slices_ok (env_options env) pl \<and> sl_entries (pl_slice pl) = []"
proof -
  from run_plan_parts [OF assms(1)] obtain specs p0 p1 where r: "write_chdir env (initial_planner writes) = Inr p0"
    "scan_sources n env specs p0 = Some (Inr p1)"
    and fin: "(sl_entries (pl_slice p1) \<noteq> [] \<and> close_slice p1 = Inr pl) \<or> (sl_entries (pl_slice p1) = [] \<and> pl = p1)" .
  have "packed (env_options env) p0"
    using write_chdir_Inr [OF r(1)] by (auto simp: packed_def initial_planner_def closed_slices_ok_def within_limit_def slice_sizes_of_def)
  moreover have "pl_frontier p0 = []" using write_chdir_Inr [OF r(1)] by (simp add: initial_planner_def)
  ultimately have p: "packed (env_options env) p1" using packing.scan_sources_P [OF r(2)] by (simp add: list_all_iff)
  from fin show ?thesis
  proof
    assume c: "sl_entries (pl_slice p1) \<noteq> [] \<and> close_slice p1 = Inr pl"
    then have s: "sl_entries (pl_slice pl) = []" by (auto dest: close_slice_Inr simp: empty_slice_def)
    with assms(2) have "entry_count p1 < 2 ^ 64" using c entry_count_close [of p1 pl] by (simp add: entry_count_def)
    with p close_slice_closed [of p1 pl "env_options env"] c s show ?thesis by (simp add: packed_def)
  next
    assume "sl_entries (pl_slice p1) = [] \<and> pl = p1"
    with p assms(2) show ?thesis by (simp add: packed_def entry_count_def)
  qed
qed

section \<open>Readable plans\<close>

definition readable_path :: "string \<Rightarrow> bool" where
  "readable_path p \<longleftrightarrow> p \<noteq> [] \<and> hd p \<noteq> slash \<and> NUL \<notin> set p"

definition readable_meta :: "entry_meta \<Rightarrow> bool" where
  "readable_meta m \<longleftrightarrow> em_kind m \<in> set plan_kinds \<and> (em_kind m = CHR ''h'' \<longrightarrow> em_apparent_bytes m = 0) \<and>
     readable_path (em_archive_path m)"

text \<open>
  What POSIX gives: path names hold no NUL and every file has one of the seven types.  The
  second definition is what a source argument must be for its archive paths to be relative.
\<close>

definition posix_files :: "plan_env \<Rightarrow> bool" where
  "posix_files env \<longleftrightarrow> NUL \<notin> set (env_cwd env) \<and>
     (\<forall>p st. env_lstat env p = Some st \<longrightarrow> NUL \<notin> set p \<and> kind_from_mode (st_mode st) \<noteq> CHR ''?'')"

definition archive_prefix_of :: "string \<Rightarrow> string" where
  "archive_prefix_of s = (let c = strip_trailing_slashes s in if c \<noteq> [] \<and> hd c = slash then tl c else c)"

lemma kind_from_mode_cases: "kind_from_mode mode \<noteq> CHR ''?'' \<Longrightarrow> kind_from_mode mode \<in> set plan_kinds \<and> kind_from_mode mode \<noteq> CHR ''h''"
  by (simp add: kind_from_mode_def plan_kinds_def split: if_splits)

lemma stat_entry_readable:
  assumes "stat_entry env path spec ofs dev = Entry_ok m" and "posix_files env" and "readable_path (sp_archive_prefix spec)"
  shows "readable_meta m"
proof -
  from assms(1) obtain st where st: "env_lstat env path = Some st" and
    m: "em_kind m = kind_from_mode (st_mode st)" "archive_path_for_source (env_cwd env) spec path = Some (em_archive_path m)"
    by (auto simp: stat_entry_def split: option.splits if_splits)
  with assms(2) have P: "NUL \<notin> set path" "NUL \<notin> set (env_cwd env)" "kind_from_mode (st_mode st) \<noteq> CHR ''?''"
    by (auto simp: posix_files_def)
  have "NUL \<notin> set (em_archive_path m)"
    using archive_path_chars [OF m(2)] P assms(3) by (auto simp: readable_path_def slash_def NUL_def)
  moreover have "em_archive_path m \<noteq> [] \<and> hd (em_archive_path m) \<noteq> slash"
    using archive_path_relative [OF m(2)] assms(3) by (simp add: readable_path_def)
  ultimately show ?thesis using kind_from_mode_cases [OF P(3)] m(1) by (simp add: readable_meta_def readable_path_def)
qed

definition readable_plan :: "plan_record list \<Rightarrow> planner \<Rightarrow> bool" where
  "readable_plan pre pl \<longleftrightarrow> (\<exists>es. pl_records pl = pre @ map entry_record es \<and> list_all valid_entry es) \<and>
     list_all readable_meta (sl_entries (pl_slice pl))"

lemma slice_records_valid:
  "list_all readable_meta ms \<Longrightarrow> \<exists>es. slice_records num i ms = map entry_record es \<and> list_all valid_entry es"
proof (induction ms arbitrary: i)
  case (Cons m ms)
  then obtain es where es: "slice_records num (Suc i) ms = map entry_record es" "list_all valid_entry es" by auto
  define e where "e = \<lparr>pe_slice = num, pe_file_num = word_of_nat i, pe_kind = em_kind m, pe_size = em_apparent_bytes m,
    pe_mtime = em_mtime m, pe_uid = em_uid m, pe_uname = em_uname m, pe_gid = em_gid m, pe_gname = em_gname m,
    pe_path = em_archive_path m\<rparr>"
  have "valid_entry e" using Cons.prems by (simp add: e_def valid_entry_def readable_meta_def readable_path_def slash_def)
  moreover have "slice_records num i (m # ms) = map entry_record (e # es)" using es(1) by (simp add: entry_plan_record_def e_def)
  ultimately show ?case using es(2) by (intro exI [of _ "e # es"]) simp
qed (intro exI [of _ "[]"], simp)

lemma close_slice_readable: "close_slice pl = Inr pl' \<Longrightarrow> readable_plan pre pl \<Longrightarrow> readable_plan pre pl'"
proof -
  assume c: "close_slice pl = Inr pl'" and r: "readable_plan pre pl"
  from r obtain es where es: "pl_records pl = pre @ map entry_record es" "list_all valid_entry es"
    "list_all readable_meta (sl_entries (pl_slice pl))" by (auto simp: readable_plan_def)
  from slice_records_valid [OF es(3), of "pl_slice_num pl" 0] obtain fs where
    "slice_records (pl_slice_num pl) 0 (sl_entries (pl_slice pl)) = map entry_record fs" "list_all valid_entry fs" by blast
  then show ?thesis using es unfolding readable_plan_def
    by (intro conjI exI [of _ "es @ fs"]) (simp_all add: close_slice_Inr [OF c] empty_slice_def)
qed

lemma add_to_slice_readable:
  assumes "add_to_slice opts m pl = Inr pl'" and "readable_plan pre pl" and "readable_meta m"
  shows "readable_plan pre pl'"
proof -
  from add_to_slice_steps [OF assms(1)] obtain q where
    q: "(should_start_next_slice (pl_slice pl) m opts \<and> close_slice pl = Inr q) \<or>
      (\<not> should_start_next_slice (pl_slice pl) m opts \<and> q = pl)"
    and pl': "close_slice (appended opts m q) = Inr pl' \<or> pl' = appended opts m q" .
  from q assms(2) have "readable_plan pre q" by (auto dest: close_slice_readable)
  with assms(3) have "readable_plan pre (appended opts m q)"
    by (simp add: readable_plan_def appended_def grow_slice_def)
  with pl' show ?thesis by (auto dest: close_slice_readable)
qed

text \<open>
  The instance of the walk for readable plans.  The premises on the file system are part of what
  is admissible, so that the instance holds for every environment.
\<close>

interpretation readable: scan_invariant env "readable_plan pre"
  "\<lambda>spec. posix_files env \<and> readable_path (sp_archive_prefix spec)" readable_meta for env pre
proof unfold_locales
  show "readable_meta m" if "posix_files env \<and> readable_path (sp_archive_prefix spec)" "stat_entry env path spec ofs dev = Entry_ok m"
    for spec path ofs dev m
    using stat_entry_readable [OF that(2)] that(1) by simp
  show "readable_plan pre pl'" if "readable_plan pre pl" "readable_meta m" "add_to_slice (env_options env) m pl = Inr pl'" for pl m pl'
    using add_to_slice_readable [OF that(3,1,2)] .
qed (simp_all add: readable_meta_def readable_plan_def plan_kinds_def)

lemma make_specs_readable:
  "make_specs env ss = Some specs \<Longrightarrow> list_all (\<lambda>s. readable_path (archive_prefix_of s)) ss \<Longrightarrow>
   list_all (\<lambda>spec. readable_path (sp_archive_prefix spec)) specs"
proof (induction ss arbitrary: specs)
  case (Cons s ss)
  then obtain spec specs' where s: "make_source_spec (env_cwd env) (\<lambda>p. env_lstat env p \<noteq> None) s = Some spec"
    "make_specs env ss = Some specs'" "specs = spec # specs'" by (auto split: option.splits)
  from s(1) have "sp_archive_prefix spec = archive_prefix_of s"
    by (auto simp: make_source_spec_def archive_prefix_of_def Let_def split: option.splits if_splits)
  with Cons s show ?case by simp
qed simp

lemma run_plan_readable:
  assumes "run_plan n env writes = Some (Inr pl)" and "posix_files env"
    and "list_all (\<lambda>s. readable_path (archive_prefix_of s)) (po_sources (env_options env))"
  shows "readable_plan (if po_chdir_dir (env_options env) = [] then [] else [chdir_record (po_chdir_dir (env_options env))]) pl"
    (is "readable_plan ?pre pl")
proof -
  from run_plan_parts [OF assms(1)] obtain specs p0 p1 where r: "write_chdir env (initial_planner writes) = Inr p0"
    "make_specs env (po_sources (env_options env)) = Some specs" "scan_sources n env specs p0 = Some (Inr p1)"
    and fin: "(sl_entries (pl_slice p1) \<noteq> [] \<and> close_slice p1 = Inr pl) \<or> (sl_entries (pl_slice p1) = [] \<and> pl = p1)" .
  have "readable_plan ?pre p0" "pl_frontier p0 = []"
    using write_chdir_Inr [OF r(1)] by (simp_all add: readable_plan_def initial_planner_def empty_slice_def)
  moreover have "list_all (\<lambda>spec. posix_files env \<and> readable_path (sp_archive_prefix spec)) specs"
    using make_specs_readable [OF r(2) assms(3)] assms(2) by (simp add: list_all_iff)
  ultimately have "readable_plan ?pre p1" using readable.scan_sources_P [OF r(3)] by blast
  with fin close_slice_readable show ?thesis by auto
qed

definition canon_record :: "plan_record \<Rightarrow> plan_record" where
  "canon_record r = r\<lparr>entry := map_option canon_entry (entry r)\<rparr>"

lemma canon_record_simps [simp]:
  "canon_record (entry_record e) = entry_record (canon_entry e)" "canon_record (chdir_record dir) = chdir_record dir"
  by (simp_all add: canon_record_def entry_record_def chdir_record_def)

section \<open>Properties\<close>

text \<open>C28. The plan that \<open>neotape-plan\<close> writes, for any file system and options, numbers its slices
  and the files of each slice from 0 without a gap, writes every planned entry, and packs a slice of
  several entries with at most one and a half times the slice size, with exact (unbounded) sums.\<close>
theorem plan_contiguous_and_packed:
  assumes "run_plan n env writes = Some (Inr pl)" and "length (plan_entries (pl_records pl)) < 2 ^ 64"
  shows "contiguous None (plan_entries (pl_records pl)) \<and> sl_entries (pl_slice pl) = [] \<and>
    (let size = unat (po_slice_size (env_options env)); sizes = slice_sizes_of (plan_entries (pl_records pl)) k
     in length sizes \<le> 1 \<or> total_bytes sizes \<le> size + size div 2)"
proof -
  from run_plan_packed [OF assms] have "contiguous None (plan_entries (pl_records pl))" "sl_entries (pl_slice pl) = []"
    "within_limit (env_options env) (slice_sizes_of (plan_entries (pl_records pl)) k)"
    by (simp_all add: closed_slices_ok_def Let_def)
  with preadd_limit(1) [of "env_options env"] show ?thesis by (auto simp: within_limit_def Let_def)
qed

text \<open>C29. Planner and plan reader agree: whatever the file system holds, when every source argument
  leaves a relative archive prefix, the plan that \<open>neotape-plan\<close> writes is accepted by the plan
  reader and read back record by record, in order.\<close>
theorem planner_output_readable:
  assumes "run_plan n env writes = Some (Inr pl)" and "length (plan_entries (pl_records pl)) < 2 ^ 64"
    and "posix_files env" and "list_all (\<lambda>s. readable_path (archive_prefix_of s)) (po_sources (env_options env))"
    and "NUL \<notin> set (po_chdir_dir (env_options env))"
  shows "read_plan (new_plan_reader (plan_text (pl_records pl)) False path) =
    Inr (map canon_record (pl_records pl))"
proof -
  let ?dir = "po_chdir_dir (env_options env)"
  let ?pre = "if ?dir = [] then [] else [chdir_record ?dir]"
  from run_plan_readable [OF assms(1,3,4)] obtain es where
    es: "pl_records pl = ?pre @ map entry_record es" "list_all valid_entry es" by (auto simp: readable_plan_def)
  have "plan_entries (map entry_record es) = es" by (induction es) simp_all
  with es(1) have "plan_entries (pl_records pl) = es" by (cases "?dir = []") simp_all
  with run_plan_packed [OF assms(1,2)] have c: "contiguous None es" unfolding closed_slices_ok_def Let_def by simp
  show ?thesis
  proof (cases "?dir = []")
    case True
    with es c show ?thesis by (intro read_entries [THEN trans]) (simp_all add: new_plan_reader_def comp_def)
  next
    case False
    with read_chdir [OF es(2) c False assms(5)] es(1) show ?thesis by (simp add: comp_def)
  qed
qed

section \<open>Witnesses\<close>

definition sample_stat :: "u32 \<Rightarrow> u64 \<Rightarrow> u64 \<Rightarrow> file_stat" where
  "sample_stat mode ino sz = \<lparr>st_mode = mode, st_blocks = 1, st_size = sz, st_dev = 1, st_ino = ino, st_mtime = 9,
     st_uid = 0, st_gid = 0\<rparr>"

text \<open>A directory with a file and a second name of it.\<close>

definition sample_env :: plan_env where
  "sample_env = \<lparr>
     env_lstat = (\<lambda>p. if p = ''/r'' then Some (sample_stat 0x41ed 1 0)
       else if p = ''/r/a'' \<or> p = ''/r/b'' then Some (sample_stat 0x81a4 2 7) else None),
     env_readdir = (\<lambda>p. if p = ''/r'' then [''b'', dot, ''a'', dot_dot] else []),
     env_user = (\<lambda>_. ''u''), env_group = (\<lambda>_. ''g''), env_cwd = ''/'', env_chdir_ok = (\<lambda>_. True),
     env_options = \<lparr>po_slice_size = 4, po_metadata_buffer_size = 1000, po_one_file_system = False, po_chdir_dir = [],
       po_sources = [''r''], po_entry_struct_size = 200\<rparr>\<rparr>"

definition sample_plan :: "planned_entry list" where
  "sample_plan = (case run_plan 5 sample_env (\<lambda>_. True) of Some (Inr pl) \<Rightarrow> plan_entries (pl_records pl) | _ \<Rightarrow> [])"

lemma sample_plan_run:
  "\<exists>pl. run_plan 5 sample_env (\<lambda>_. True) = Some (Inr pl) \<and> plan_entries (pl_records pl) = sample_plan"
proof -
  have "(case run_plan 5 sample_env (\<lambda>_. True) of Some (Inr pl) \<Rightarrow> True | _ \<Rightarrow> False)" by code_simp
  then show ?thesis by (auto simp: sample_plan_def split: option.splits sum.splits)
qed

lemma sample_plan_entries: "map (\<lambda>e. (pe_slice e, pe_file_num e, pe_kind e, pe_size e, pe_path e)) sample_plan =
  [(0, 0, CHR ''d'', 0, ''r''), (1, 0, CHR ''f'', 7, ''r/a''), (2, 0, CHR ''h'', 0, ''r/b'')]"
  by code_simp

theorem plan_contiguous_and_packed_witness:
  "contiguous None sample_plan \<and> slice_sizes_of sample_plan 1 = [7]"
proof -
  obtain pl where pl: "run_plan 5 sample_env (\<lambda>_. True) = Some (Inr pl)" "plan_entries (pl_records pl) = sample_plan"
    using sample_plan_run by blast
  have "length (plan_entries (pl_records pl)) < 2 ^ 64"
    using arg_cong [OF sample_plan_entries, of length] pl(2) by simp
  from plan_contiguous_and_packed [OF pl(1) this] have "contiguous None sample_plan" by (simp add: pl(2))
  moreover have "slice_sizes_of sample_plan 1 = [7]" by code_simp
  ultimately show ?thesis by simp
qed

lemma sample_posix: "posix_files sample_env"
  by (auto simp: posix_files_def sample_env_def sample_stat_def kind_from_mode_def is_reg_def is_dir_def file_type_def NUL_def
      split: if_splits)

theorem planner_output_readable_witness:
  "\<exists>pl. run_plan 5 sample_env (\<lambda>_. True) = Some (Inr pl) \<and> length (pl_records pl) = 3 \<and>
     read_plan (new_plan_reader (plan_text (pl_records pl)) False ''p'') = Inr (map canon_record (pl_records pl))"
proof -
  obtain pl where pl: "run_plan 5 sample_env (\<lambda>_. True) = Some (Inr pl)" "plan_entries (pl_records pl) = sample_plan"
    using sample_plan_run by blast
  have len: "length (plan_entries (pl_records pl)) < 2 ^ 64"
    using arg_cong [OF sample_plan_entries, of length] pl(2) by simp
  have "read_plan (new_plan_reader (plan_text (pl_records pl)) False ''p'') = Inr (map canon_record (pl_records pl))"
    by (rule planner_output_readable [OF pl(1) len sample_posix])
      (simp_all add: sample_env_def archive_prefix_of_def strip_trailing_slashes_def readable_path_def slash_def NUL_def)
  moreover have "(case run_plan 5 sample_env (\<lambda>_. True) of Some (Inr pl) \<Rightarrow> length (pl_records pl) = 3 | _ \<Rightarrow> False)"
    by code_simp
  ultimately show ?thesis using pl(1) by auto
qed

end
