(* ===== verification/PlannerWalk.thy ===== *)
theory PlannerWalk
  imports PlannerSpec "HOL-Library.Multiset"
begin

text \<open>
  The walk of src/neotape_plan_cmd.cpp against the tree it walks: it ends, and it plans every
  entry of the tree once.  The tree is given by rules; only a finite tree has one.
\<close>

section \<open>Trees\<close>

definition ok_metas :: "lstat_result list \<Rightarrow> entry_meta list" where
  "ok_metas rs = concat (map (\<lambda>r. case r of Entry_ok m \<Rightarrow> [m] | _ \<Rightarrow> []) rs)"

lemma ok_metas_simps [simp]:
  "ok_metas [] = []" "ok_metas (Entry_ok m # rs) = m # ok_metas rs" "ok_metas (Entry_skipped # rs) = ok_metas rs"
  by (simp_all add: ok_metas_def)

inductive subtree :: "plan_env \<Rightarrow> directory_work \<Rightarrow> entry_meta multiset \<Rightarrow> bool"
  and subtrees :: "plan_env \<Rightarrow> directory_work \<Rightarrow> entry_meta list \<Rightarrow> entry_meta multiset \<Rightarrow> bool" for env where
  subtree: "Entry_throws \<notin> set rs \<Longrightarrow> rs = stat_children env d (sorted_children env (dw_path d)) \<Longrightarrow>
    subtrees env d (ok_metas rs) M \<Longrightarrow> subtree env d M"
| no_entry: "subtrees env d [] {#}"
| other_entry: "em_kind m \<noteq> CHR ''d'' \<Longrightarrow> subtrees env d ms M \<Longrightarrow> subtrees env d (m # ms) (add_mset m M)"
| directory_entry: "em_kind m = CHR ''d'' \<Longrightarrow> subtree env (d\<lparr>dw_path := em_source_path m\<rparr>) N \<Longrightarrow> subtrees env d ms M \<Longrightarrow>
    subtrees env d (m # ms) (add_mset m (N + M))"

inductive_simps subtree_iff: "subtree env d M"
inductive_simps subtrees_Nil [simp]: "subtrees env d [] M"
inductive_simps subtrees_Cons: "subtrees env d (m # ms) M"

fun pending :: "plan_env \<Rightarrow> directory_work list \<Rightarrow> entry_meta multiset \<Rightarrow> bool" where
  "pending env [] P \<longleftrightarrow> P = {#}"
| "pending env (d # ds) P \<longleftrightarrow> (\<exists>M N. subtree env d M \<and> pending env ds N \<and> P = M + N)"

lemma pending_snoc: "pending env ds P \<Longrightarrow> subtree env d M \<Longrightarrow> pending env (ds @ [d]) (P + M)"
proof (induction ds arbitrary: P)
  case (Cons e ds)
  then obtain A B where "subtree env e A" "pending env ds B" "P = A + B" by auto
  with Cons show ?case by (auto simp: add.assoc)
qed simp

section \<open>Hard links\<close>

definition inode_of :: "entry_meta \<Rightarrow> u64 \<times> u64" where
  "inode_of m = (em_device m, em_inode m)"

text \<open>No directory among the entries has been seen, or is among them under a second name.\<close>

definition fresh :: "(u64 \<times> u64) list \<Rightarrow> entry_meta multiset \<Rightarrow> bool" where
  "fresh seen P \<longleftrightarrow> (\<forall>m \<in># P. em_kind m = CHR ''d'' \<longrightarrow> inode_of m \<notin> set seen \<and> count (image_mset inode_of P) (inode_of m) = 1)"

lemma fresh_step:
  assumes "fresh seen (add_mset m P)" and "set seen' \<subseteq> insert (inode_of m) (set seen)"
  shows "fresh seen' P"
  unfolding fresh_def
proof (intro ballI impI)
  fix d assume d: "d \<in># P" "em_kind d = CHR ''d''"
  then have f: "inode_of d \<notin> set seen" "count (image_mset inode_of (add_mset m P)) (inode_of d) = 1"
    using assms(1) by (simp_all add: fresh_def)
  have "inode_of d \<in># image_mset inode_of P" using d(1) by simp
  then have "0 < count (image_mset inode_of P) (inode_of d)" by (simp only: count_greater_zero_iff)
  with f(2) have "inode_of d \<noteq> inode_of m \<and> count (image_mset inode_of P) (inode_of d) = 1"
    by (cases "inode_of d = inode_of m") simp_all
  with f(1) assms(2) show "inode_of d \<notin> set seen' \<and> count (image_mset inode_of P) (inode_of d) = 1" by auto
qed

section \<open>Adding an entry\<close>

definition planned :: "planner \<Rightarrow> string multiset" where
  "planned pl = mset (map pe_path (plan_entries (pl_records pl))) + mset (map em_archive_path (sl_entries (pl_slice pl)))"

definition all_written :: "planner \<Rightarrow> bool" where
  "all_written pl \<longleftrightarrow> pl_writes pl = (\<lambda>_. True)"

lemma emit_entries_total: "all_written pl \<Longrightarrow> \<exists>pl'. emit_entries num i es pl = Inr pl'"
proof (induction es arbitrary: i pl)
  case (Cons e es)
  then have "put_record (entry_plan_record num i e) pl = Inr (pl\<lparr>pl_records := pl_records pl @ [entry_plan_record num i e]\<rparr>)"
    by (simp add: put_record_def entry_plan_record_def all_written_def)
  with Cons show ?case by (simp add: all_written_def)
qed simp

lemma put_chdir_total: "all_written pl \<Longrightarrow> \<exists>pl'. put_record (chdir_record dir) pl = Inr pl'"
  by (simp add: put_record_def all_written_def)

lemma close_slice_total:
  assumes "all_written pl"
  obtains pl' where "close_slice pl = Inr pl'" and "planned pl' = planned pl" and "all_written pl'"
    and "pl_frontier pl' = pl_frontier pl" and "pl_seen pl' = pl_seen pl"
proof -
  have "all_written (pl\<lparr>pl_slice_num := pl_slice_num pl + 1\<rparr>)" using assms by (simp add: all_written_def)
  from emit_entries_total [OF this] obtain q where
    "emit_entries (pl_slice_num pl) 0 (sl_entries (pl_slice pl)) (pl\<lparr>pl_slice_num := pl_slice_num pl + 1\<rparr>) = Inr q" by blast
  then obtain pl' where "close_slice pl = Inr pl'" by (simp add: close_slice_def emit_slice_def)
  from that [OF this] close_slice_Inr [OF this] show thesis
    using assms by (simp add: planned_def all_written_def slice_entries_props empty_slice_def)
qed

lemma add_to_slice_total:
  assumes "all_written pl"
  obtains pl' where "add_to_slice opts m pl = Inr pl'" and "planned pl' = add_mset (em_archive_path m) (planned pl)"
    and "all_written pl'" and "pl_frontier pl' = pl_frontier pl" and "pl_seen pl' = pl_seen pl"
proof -
  obtain q where q: "(if should_start_next_slice (pl_slice pl) m opts then close_slice pl else Inr pl) = Inr q"
    "planned q = planned pl" "all_written q" "pl_frontier q = pl_frontier pl" "pl_seen q = pl_seen pl"
  proof (cases "should_start_next_slice (pl_slice pl) m opts")
    case True
    from close_slice_total [OF assms] obtain q where "close_slice pl = Inr q" "planned q = planned pl" "all_written q"
      "pl_frontier q = pl_frontier pl" "pl_seen q = pl_seen pl" .
    then show thesis by (intro that [of q]) (use True in simp_all)
  next
    case False
    show thesis by (rule that [of pl]) (use False assms in simp_all)
  qed
  have a: "all_written (appended opts m q)" "planned (appended opts m q) = add_mset (em_archive_path m) (planned pl)"
    "pl_frontier (appended opts m q) = pl_frontier pl" "pl_seen (appended opts m q) = pl_seen pl"
    using q by (simp_all add: all_written_def planned_def appended_def grow_slice_def)
  have s: "add_to_slice opts m pl =
    (if sl_allocated_bytes (pl_slice (appended opts m q)) \<ge> po_metadata_buffer_size opts \<or>
        sl_apparent_bytes (pl_slice (appended opts m q)) \<ge> po_slice_size opts
     then close_slice (appended opts m q) else Inr (appended opts m q))"
    unfolding add_to_slice_def q(1) by (simp add: appended_def Let_def)
  from close_slice_total [OF a(1)] obtain t where "close_slice (appended opts m q) = Inr t"
    "planned t = planned (appended opts m q)" "all_written t" "pl_frontier t = pl_frontier (appended opts m q)"
    "pl_seen t = pl_seen (appended opts m q)" .
  with s a that show thesis by (auto split: if_splits)
qed

lemma add_entry_total:
  assumes "all_written pl"
  obtains m' pl' where "add_entry env m pl = Inr (m', pl')" and "planned pl' = add_mset (em_archive_path m) (planned pl)"
    and "all_written pl'" and "pl_frontier pl' = pl_frontier pl" and "set (pl_seen pl') = insert (inode_of m) (set (pl_seen pl))"
    and "em_source_path m' = em_source_path m"
    and "em_kind m' = (if inode_of m \<in> set (pl_seen pl) then CHR ''h'' else em_kind m)"
proof -
  obtain m' q where r: "resolve_names env m pl = (m', q)" by (cases "resolve_names env m pl")
  then have q: "pl_writes q = pl_writes pl" "planned q = planned pl" "pl_frontier q = pl_frontier pl"
    "set (pl_seen q) = insert (inode_of m) (set (pl_seen pl))" "em_source_path m' = em_source_path m"
    "em_archive_path m' = em_archive_path m"
    "em_kind m' = (if inode_of m \<in> set (pl_seen pl) then CHR ''h'' else em_kind m)"
    by (auto simp: resolve_names_def resolve_user_def resolve_group_def is_hardlink_def inode_of_def planned_def Let_def
        split: prod.splits bool.splits option.splits if_splits)
  with assms have "all_written q" by (simp add: all_written_def)
  from add_to_slice_total [OF this, of "env_options env" m'] obtain t where
    "add_to_slice (env_options env) m' q = Inr t" "planned t = add_mset (em_archive_path m') (planned q)" "all_written t"
    "pl_frontier t = pl_frontier q" "pl_seen t = pl_seen q" .
  with q r show thesis by (intro that [of m' t]) (simp_all add: add_entry_def)
qed

section \<open>The walk\<close>

text \<open>
  A walk to come: the frontier stands for the entries \<open>P\<close>, and \<open>R\<close> are entries to come later.
  \<open>load\<close> bounds the fuel.
\<close>

definition walking :: "plan_env \<Rightarrow> planner \<Rightarrow> entry_meta multiset \<Rightarrow> entry_meta multiset \<Rightarrow> bool" where
  "walking env pl P R \<longleftrightarrow> pending env (pl_frontier pl) P \<and> fresh (pl_seen pl) (P + R) \<and> all_written pl"

definition goal_of :: "planner \<Rightarrow> entry_meta multiset \<Rightarrow> string multiset" where
  "goal_of pl P = planned pl + image_mset em_archive_path P"

definition load :: "planner \<Rightarrow> entry_meta multiset \<Rightarrow> nat" where
  "load pl P = size P + length (pl_frontier pl)"

definition walks_to :: "plan_env \<Rightarrow> (planner_error + planner) option \<Rightarrow> entry_meta multiset \<Rightarrow> string multiset \<Rightarrow> nat \<Rightarrow> bool" where
  "walks_to env r R G k \<longleftrightarrow> (\<exists>pl' P'. r = Some (Inr pl') \<and> walking env pl' P' R \<and> goal_of pl' P' = G \<and> load pl' P' \<le> k)"

definition processes :: "plan_env \<Rightarrow> nat \<Rightarrow> bool" where
  "processes env n \<longleftrightarrow> (\<forall>pl P R. walking env pl P R \<longrightarrow> pl_frontier pl \<noteq> [] \<longrightarrow> 2 * load pl P \<le> n \<longrightarrow>
     walks_to env (process_one_directory n env pl) R (goal_of pl P) (load pl P - 1))"

definition enqueues :: "plan_env \<Rightarrow> nat \<Rightarrow> bool" where
  "enqueues env n \<longleftrightarrow> (\<forall>pl P R d N. walking env pl P (N + R) \<longrightarrow> subtree env d N \<longrightarrow> 2 * (load pl P + size N + 1) < n \<longrightarrow>
     walks_to env (enqueue_directory n env d pl) R (goal_of pl P + image_mset em_archive_path N) (load pl P + size N + 1))"

definition scans :: "plan_env \<Rightarrow> nat \<Rightarrow> bool" where
  "scans env n \<longleftrightarrow> (\<forall>pl P R d rs M. walking env pl P (M + R) \<longrightarrow> Entry_throws \<notin> set rs \<longrightarrow> subtrees env d (ok_metas rs) M \<longrightarrow>
     2 * (load pl P + size M) < n \<longrightarrow>
     walks_to env (scan_results n env d rs pl) R (goal_of pl P + image_mset em_archive_path M) (load pl P + size M))"

lemma walks_toI: "walking env pl P R \<Longrightarrow> goal_of pl P = G \<Longrightarrow> load pl P \<le> k \<Longrightarrow> walks_to env (Some (Inr pl)) R G k"
  by (auto simp: walks_to_def)

lemma walks_to_mono: "walks_to env r R G k \<Longrightarrow> k \<le> k' \<Longrightarrow> walks_to env r R G k'"
  unfolding walks_to_def by (blast intro: le_trans)

lemma enqueues_zero: "enqueues env 0"
  by (simp add: enqueues_def)

lemma enqueues_Suc:
  assumes "processes env n" and "enqueues env n"
  shows "enqueues env (Suc n)"
  unfolding enqueues_def
proof (intro allI impI)
  fix pl P R d N
  assume w: "walking env pl P (N + R)" and t: "subtree env d N" and n: "2 * (load pl P + size N + 1) < Suc n"
  let ?G = "goal_of pl P + image_mset em_archive_path N" and ?k = "load pl P + size N + 1"
  show "walks_to env (enqueue_directory (Suc n) env d pl) R ?G ?k"
  proof (cases "length (pl_frontier pl) < directory_frontier_capacity")
    case True
    have "walking env (push_directory d pl) (P + N) R"
      using w t by (auto simp: walking_def push_directory_def all_written_def add.assoc intro!: pending_snoc)
    moreover have "goal_of (push_directory d pl) (P + N) = ?G" by (simp add: goal_of_def push_directory_def planned_def)
    moreover have "load (push_directory d pl) (P + N) \<le> ?k" by (simp add: load_def push_directory_def)
    ultimately show ?thesis using True by (simp add: enqueue_directory.simps walks_toI)
  next
    case False
    then have "pl_frontier pl \<noteq> []" by (auto simp: directory_frontier_capacity_def)
    then have pos: "0 < load pl P" by (simp add: load_def)
    from assms(1) w \<open>pl_frontier pl \<noteq> []\<close> n have
      "walks_to env (process_one_directory n env pl) (N + R) (goal_of pl P) (load pl P - 1)" by (simp add: processes_def)
    then obtain q Q where q: "process_one_directory n env pl = Some (Inr q)" "walking env q Q (N + R)"
      "goal_of q Q = goal_of pl P" "load q Q \<le> load pl P - 1" by (auto simp: walks_to_def)
    have "2 * (load q Q + size N + 1) < n" using q(4) pos n by arith
    with assms(2) q(2) t have "walks_to env (enqueue_directory n env d q) R (goal_of q Q + image_mset em_archive_path N) (load q Q + size N + 1)"
      by (simp add: enqueues_def)
    moreover have "load q Q + size N + 1 \<le> ?k" using q(4) pos by arith
    ultimately have "walks_to env (enqueue_directory n env d q) R ?G ?k" unfolding q(3) by (rule walks_to_mono)
    moreover have "enqueue_directory (Suc n) env d pl = enqueue_directory n env d q"
      using q(1) False by (simp add: enqueue_directory.simps [of "Suc n"])
    ultimately show ?thesis by simp
  qed
qed

lemma scans_from_enqueues:
  assumes "enqueues env n"
  shows "scans env n"
proof -
  have "walks_to env (scan_results n env d rs pl) R (goal_of pl P + image_mset em_archive_path M) (load pl P + size M)"
    if "walking env pl P (M + R)" "Entry_throws \<notin> set rs" "subtrees env d (ok_metas rs) M" "2 * (load pl P + size M) < n"
    for pl P R d rs M
    using that
  proof (induction rs arbitrary: pl P M)
    case Nil
    then show ?case by (simp add: walks_toI)
  next
    case (Cons x rs)
    show ?case
    proof (cases x)
      case (Entry_ok m)
      with Cons.prems(3) have s: "subtrees env d (m # ok_metas rs) M" by simp
      from Cons.prems(1) have w: "pending env (pl_frontier pl) P" "fresh (pl_seen pl) (P + (M + R))" "all_written pl"
        by (simp_all add: walking_def)
      from add_entry_total [OF w(3), of env m] obtain m' q where a: "add_entry env m pl = Inr (m', q)"
        "planned q = add_mset (em_archive_path m) (planned pl)" "all_written q" "pl_frontier q = pl_frontier pl"
        "set (pl_seen q) = insert (inode_of m) (set (pl_seen pl))" "em_source_path m' = em_source_path m"
        "em_kind m' = (if inode_of m \<in> set (pl_seen pl) then CHR ''h'' else em_kind m)" .
      from s consider (other) M' where "em_kind m \<noteq> CHR ''d''" "subtrees env d (ok_metas rs) M'" "M = add_mset m M'"
        | (directory) N M' where "em_kind m = CHR ''d''" "subtree env (d\<lparr>dw_path := em_source_path m\<rparr>) N"
            "subtrees env d (ok_metas rs) M'" "M = add_mset m (N + M')"
        by (auto simp: subtrees_Cons)
      then show ?thesis
      proof cases
        case 1: (other M')
        have "fresh (pl_seen pl) (add_mset m (P + (M' + R)))" using w(2) by (simp add: 1(3))
        then have "fresh (pl_seen q) (P + (M' + R))" by (rule fresh_step) (simp add: a(5))
        then have "walking env q P (M' + R)" using w(1) a by (simp add: walking_def)
        moreover have "em_kind m' \<noteq> CHR ''d''" using a(7) 1 by simp
        moreover have "goal_of q P + image_mset em_archive_path M' = goal_of pl P + image_mset em_archive_path M"
          using a(2) 1 by (simp add: goal_of_def)
        moreover have "load q P = load pl P" using a(4) by (simp add: load_def)
        ultimately show ?thesis
          using Cons.IH [of q P M'] Cons.prems(2,4) 1 a(1) Entry_ok by (simp add: walks_to_mono)
      next
        case 2: (directory N M')
        have "fresh (pl_seen pl) (add_mset m (P + (N + (M' + R))))" using w(2) by (simp add: 2(4) add.assoc)
        then have "fresh (pl_seen q) (P + (N + (M' + R)))" by (rule fresh_step) (simp add: a(5))
        then have wq: "walking env q P (N + (M' + R))" using w(1) a by (simp add: walking_def)
        have "inode_of m \<notin> set (pl_seen pl)" using w(2) 2(1) unfolding fresh_def 2(4) by simp
        with a(7) 2 have k: "em_kind m' = CHR ''d''" by simp
        have l: "load q P = load pl P" using a(4) by (simp add: load_def)
        have "2 * (load q P + size N + 1) < n" using Cons.prems(4) 2 l by simp
        with assms wq 2 have "walks_to env (enqueue_directory n env (d\<lparr>dw_path := em_source_path m\<rparr>) q) (M' + R)
          (goal_of q P + image_mset em_archive_path N) (load q P + size N + 1)" by (simp add: enqueues_def)
        then obtain t T where t: "enqueue_directory n env (d\<lparr>dw_path := em_source_path m\<rparr>) q = Some (Inr t)"
          "walking env t T (M' + R)" "goal_of t T = goal_of q P + image_mset em_archive_path N"
          "load t T \<le> load q P + size N + 1" by (auto simp: walks_to_def)
        have "2 * (load t T + size M') < n" using Cons.prems(4) 2 l t(4) by simp
        with Cons.IH [OF t(2)] Cons.prems(2) 2 have
          "walks_to env (scan_results n env d rs t) R (goal_of t T + image_mset em_archive_path M') (load t T + size M')" by simp
        moreover have "goal_of t T + image_mset em_archive_path M' = goal_of pl P + image_mset em_archive_path M"
          using a(2) 2 t(3) by (simp add: goal_of_def)
        moreover have "load t T + size M' \<le> load pl P + size M" using t(4) l 2 by simp
        ultimately have "walks_to env (scan_results n env d rs t) R (goal_of pl P + image_mset em_archive_path M) (load pl P + size M)"
          by (simp only: walks_to_mono)
        moreover have "scan_results n env d (x # rs) pl = scan_results n env d rs t"
          using a(1,6) k t(1) Entry_ok by simp
        ultimately show ?thesis by simp
      qed
    next
      case Entry_skipped
      with Cons show ?thesis by simp
    next
      case Entry_throws
      with Cons.prems(2) show ?thesis by simp
    qed
  qed
  then show ?thesis unfolding scans_def by blast
qed

lemma processes_Suc:
  assumes "scans env n"
  shows "processes env (Suc n)"
  unfolding processes_def
proof (intro allI impI)
  fix pl P R
  assume w: "walking env pl P R" and "pl_frontier pl \<noteq> []" and n: "2 * load pl P \<le> Suc n"
  then obtain d ds where f: "pl_frontier pl = d # ds" by (cases "pl_frontier pl") auto
  let ?rs = "stat_children env d (sorted_children env (dw_path d))" and ?pl = "pl\<lparr>pl_frontier := ds\<rparr>"
  from w f obtain M N where m: "subtree env d M" "pending env ds N" "P = M + N" by (auto simp: walking_def)
  from m(1) have s: "Entry_throws \<notin> set ?rs" "subtrees env d (ok_metas ?rs) M" by (auto simp: subtree_iff)
  have "walking env ?pl N (M + R)" using w m by (simp add: walking_def all_written_def ac_simps)
  moreover have l: "load ?pl N + size M = load pl P - 1" and "0 < load pl P" using m f by (simp_all add: load_def)
  moreover have "2 * (load ?pl N + size M) < n" using l n \<open>0 < load pl P\<close> by arith
  moreover have "goal_of ?pl N + image_mset em_archive_path M = goal_of pl P"
    using m(3) by (simp add: goal_of_def planned_def ac_simps)
  ultimately have "walks_to env (scan_results n env d ?rs ?pl) R (goal_of pl P) (load pl P - 1)"
    using assms s unfolding scans_def by metis
  with f s(1) show "walks_to env (process_one_directory (Suc n) env pl) R (goal_of pl P) (load pl P - 1)"
    by (simp add: Let_def)
qed

lemma walk_total: "processes env n \<and> enqueues env n"
proof (induction n)
  case 0
  have "processes env 0" by (auto simp: processes_def load_def)
  then show ?case by (simp add: enqueues_zero)
next
  case (Suc n)
  then show ?case using processes_Suc [OF scans_from_enqueues] enqueues_Suc by blast
qed

lemma drain_total: "walking env pl P R \<Longrightarrow> 2 * load pl P < n \<Longrightarrow> walks_to env (drain_frontier n env pl) R (goal_of pl P) 0"
proof (induction n arbitrary: pl P)
  case (Suc n)
  show ?case
  proof (cases "pl_frontier pl = []")
    case True
    with Suc.prems(1) have "P = {#}" by (simp add: walking_def)
    with True Suc.prems(1) show ?thesis by (simp add: walks_toI load_def)
  next
    case False
    with walk_total [of env n] Suc.prems have "walks_to env (process_one_directory n env pl) R (goal_of pl P) (load pl P - 1)"
      by (simp add: processes_def)
    then obtain q Q where q: "process_one_directory n env pl = Some (Inr q)" "walking env q Q R" "goal_of q Q = goal_of pl P"
      "load q Q \<le> load pl P - 1" by (auto simp: walks_to_def)
    have "0 < load pl P" using False by (simp add: load_def)
    then have "2 * load q Q < n" using q(4) Suc.prems(2) by arith
    with Suc.IH [OF q(2)] q(1,3) False show ?thesis by simp
  qed
qed simp

text \<open>The entries of a source: its root, and below a directory its tree.\<close>

definition source_tree :: "plan_env \<Rightarrow> source_spec \<Rightarrow> entry_meta multiset \<Rightarrow> bool" where
  "source_tree env spec M \<longleftrightarrow> (\<exists>m. stat_entry env (sp_open_path spec) spec False None = Entry_ok m \<and>
     (if em_kind m = CHR ''d''
      then \<exists>N. subtree env \<lparr>dw_path = sp_open_path spec, dw_spec = spec, dw_root_device = Some (em_device m)\<rparr> N \<and> M = add_mset m N
      else M = {#m#}))"

lemma scan_source_total:
  assumes "walking env pl {#} (M + R)" and "pl_frontier pl = []" and "source_tree env spec M" and "2 * size M < n"
  shows "walks_to env (scan_source n env spec pl) R (goal_of pl {#} + image_mset em_archive_path M) 0"
proof -
  from assms(3) obtain m N where m: "stat_entry env (sp_open_path spec) spec False None = Entry_ok m" "M = add_mset m N"
    "if em_kind m = CHR ''d'' then subtree env \<lparr>dw_path = sp_open_path spec, dw_spec = spec, dw_root_device = Some (em_device m)\<rparr> N
     else N = {#}" by (auto simp: source_tree_def split: if_splits)
  have w: "fresh (pl_seen pl) (add_mset m (N + R))" "all_written pl" using assms(1) m(2) by (simp_all add: walking_def)
  from add_entry_total [OF w(2), of env m] obtain m' q where a: "add_entry env m pl = Inr (m', q)"
    "planned q = add_mset (em_archive_path m) (planned pl)" "all_written q" "pl_frontier q = pl_frontier pl"
    "set (pl_seen q) = insert (inode_of m) (set (pl_seen pl))" "em_source_path m' = em_source_path m"
    "em_kind m' = (if inode_of m \<in> set (pl_seen pl) then CHR ''h'' else em_kind m)" .
  have wq: "walking env q {#} (N + R)"
    using fresh_step [OF w(1), of "pl_seen q"] a assms(2) by (simp add: walking_def)
  have g: "goal_of q {#} + image_mset em_archive_path N = goal_of pl {#} + image_mset em_archive_path M"
    using a(2) m(2) by (simp add: goal_of_def)
  have l: "load q {#} = 0" using a(4) assms(2) by (simp add: load_def)
  show ?thesis
  proof (cases "em_kind m = CHR ''d''")
    case True
    let ?d = "\<lparr>dw_path = sp_open_path spec, dw_spec = spec, dw_root_device = Some (em_device m)\<rparr>"
    have t: "subtree env ?d N" using m(3) True by simp
    have "2 * (load q {#} + size N + 1) < n" using assms(4) m(2) l by simp
    with walk_total [of env n] wq t have "walks_to env (enqueue_directory n env ?d q) R
      (goal_of q {#} + image_mset em_archive_path N) (load q {#} + size N + 1)" unfolding enqueues_def by blast
    then obtain t T where t: "enqueue_directory n env ?d q = Some (Inr t)" "walking env t T R"
      "goal_of t T = goal_of pl {#} + image_mset em_archive_path M" "load t T \<le> size N + 1"
      using g l by (auto simp: walks_to_def)
    have "2 * load t T < n" using t(4) assms(4) m(2) by simp
    from drain_total [OF t(2) this] have d: "walks_to env (drain_frontier n env t) R (goal_of pl {#} + image_mset em_archive_path M) 0"
      by (simp add: t(3))
    have "inode_of m \<notin> set (pl_seen pl)" using w(1) True by (simp add: fresh_def)
    then have "scan_source n env spec pl = drain_frontier n env t"
      using m(1) a(1,7) True t(1) by (auto simp: scan_source_def split: option.splits sum.splits)
    with d show ?thesis by simp
  next
    case False
    then have "N = {#}" using m(3) by simp
    moreover have "scan_source n env spec pl = Some (Inr q)" using m(1) a(1,7) False by (simp add: scan_source_def)
    ultimately show ?thesis using wq g l by (simp add: walks_toI)
  qed
qed

lemma scan_sources_total:
  "walking env pl {#} (sum_list Ms) \<Longrightarrow> pl_frontier pl = [] \<Longrightarrow> list_all2 (source_tree env) specs Ms \<Longrightarrow>
   2 * size (sum_list Ms) < n \<Longrightarrow>
   \<exists>pl'. scan_sources n env specs pl = Some (Inr pl') \<and> all_written pl' \<and>
     planned pl' = planned pl + image_mset em_archive_path (sum_list Ms)"
proof (induction specs arbitrary: pl Ms)
  case Nil
  then show ?case by (simp add: walking_def)
next
  case (Cons spec specs)
  from Cons.prems(3) obtain M Ns where M: "Ms = M # Ns" "source_tree env spec M" "list_all2 (source_tree env) specs Ns"
    by (auto simp: list_all2_Cons1)
  have "walking env pl {#} (M + sum_list Ns)" "2 * size M < n" using Cons.prems(1,4) M(1) by simp_all
  from scan_source_total [OF this(1) Cons.prems(2) M(2) this(2)] obtain q Q where
    q: "scan_source n env spec pl = Some (Inr q)" "walking env q Q (sum_list Ns)"
      "goal_of q Q = goal_of pl {#} + image_mset em_archive_path M" "load q Q = 0" by (auto simp: walks_to_def)
  have e: "Q = {#}" "pl_frontier q = []" using q(4) by (simp_all add: load_def)
  have "2 * size (sum_list Ns) < n" using Cons.prems(4) M(1) by simp
  from Cons.IH [OF q(2) [unfolded e(1)] e(2) M(3) this] obtain pl' where
    "scan_sources n env specs q = Some (Inr pl')" "all_written pl'"
    "planned pl' = planned q + image_mset em_archive_path (sum_list Ns)" by blast
  then show ?case using q(1,3) e(1) M(1) by (simp add: goal_of_def)
qed

section \<open>Property\<close>

text \<open>C30. The walk ends and is complete: over a finite tree in which no directory is reached twice,
  with the fuel given and every write succeeding, the planner returns a plan that lists every entry of
  the sources exactly once, although the frontier is bounded and directories are processed in the middle
  of others.\<close>
theorem planner_lists_every_entry_once:
  assumes "po_chdir_dir (env_options env) = [] \<or> env_chdir_ok env (po_chdir_dir (env_options env))"
    and "make_specs env (po_sources (env_options env)) = Some specs"
    and "list_all2 (source_tree env) specs Ms" and "fresh [] (sum_list Ms)" and "2 * size (sum_list Ms) < n"
  shows "\<exists>pl. run_plan n env (\<lambda>_. True) = Some (Inr pl) \<and>
    mset (map pe_path (plan_entries (pl_records pl))) = image_mset em_archive_path (sum_list Ms)"
proof -
  let ?p0 = "initial_planner (\<lambda>_. True)"
  have "all_written ?p0" by (simp add: all_written_def initial_planner_def)
  then obtain p where p: "write_chdir env ?p0 = Inr p"
    using assms(1) put_chdir_total [of ?p0 "po_chdir_dir (env_options env)"]
    by (cases "po_chdir_dir (env_options env) = []") (auto simp: write_chdir_def Let_def)
  have i: "walking env p {#} (sum_list Ms)" "pl_frontier p = []" "planned p = {#}"
    using write_chdir_Inr [OF p] assms(4)
    by (simp_all add: walking_def all_written_def initial_planner_def planned_def empty_slice_def)
  from scan_sources_total [OF i(1,2) assms(3,5)] i(3) obtain q where q: "scan_sources n env specs p = Some (Inr q)"
    "all_written q" "planned q = image_mset em_archive_path (sum_list Ms)" by auto
  show ?thesis
  proof (cases "sl_entries (pl_slice q) = []")
    case True
    then show ?thesis using p q assms(2) by (auto simp: run_plan_def planned_def)
  next
    case False
    from close_slice_total [OF q(2)] obtain r where r: "close_slice q = Inr r" "planned r = planned q" by blast
    then have "sl_entries (pl_slice r) = []" by (auto dest: close_slice_Inr simp: empty_slice_def)
    then show ?thesis using p q r assms(2) False by (auto simp: run_plan_def planned_def)
  qed
qed

section \<open>Witness\<close>

definition sample_meta :: "string \<Rightarrow> string \<Rightarrow> char \<Rightarrow> u64 \<Rightarrow> u64 \<Rightarrow> entry_meta" where
  "sample_meta path archive kind ino sz = \<lparr>em_source_path = path, em_archive_path = archive, em_kind = kind,
     em_disk_bytes = 512, em_apparent_bytes = sz, em_device = 1, em_inode = ino, em_mtime = 9, em_uid = 0, em_uname = [],
     em_gid = 0, em_gname = []\<rparr>"

definition sample_root :: entry_meta where "sample_root = sample_meta ''/r'' ''r'' (CHR ''d'') 1 0"
definition sample_files :: "entry_meta list" where
  "sample_files = [sample_meta ''/r/a'' ''r/a'' (CHR ''f'') 2 7, sample_meta ''/r/b'' ''r/b'' (CHR ''f'') 2 7]"

definition sample_spec :: source_spec where
  "sample_spec = \<lparr>sp_archive_prefix = ''r'', sp_open_path = ''/r''\<rparr>"

lemma sample_tree: "source_tree sample_env sample_spec (add_mset sample_root (mset sample_files))"
proof -
  let ?d = "\<lparr>dw_path = ''/r'', dw_spec = sample_spec, dw_root_device = Some 1\<rparr>"
  have "stat_children sample_env ?d (sorted_children sample_env ''/r'') = map Entry_ok sample_files" by code_simp
  moreover have "ok_metas (map Entry_ok sample_files) = sample_files" by (simp add: sample_files_def)
  moreover have "subtrees sample_env ?d sample_files (mset sample_files)"
    by (simp add: sample_files_def sample_meta_def subtrees_Cons)
  ultimately have "subtree sample_env ?d (mset sample_files)" by (auto simp: subtree_iff)
  moreover have "stat_entry sample_env ''/r'' sample_spec False None = Entry_ok sample_root" by code_simp
  ultimately show ?thesis
    by (auto simp: source_tree_def sample_root_def sample_meta_def sample_spec_def)
qed

theorem planner_lists_every_entry_once_witness:
  "\<exists>pl. run_plan 7 sample_env (\<lambda>_. True) = Some (Inr pl) \<and>
     mset (map pe_path (plan_entries (pl_records pl))) = {#''r'', ''r/a'', ''r/b''#}"
proof -
  have "\<exists>pl. run_plan 7 sample_env (\<lambda>_. True) = Some (Inr pl) \<and>
     mset (map pe_path (plan_entries (pl_records pl))) =
     image_mset em_archive_path (sum_list [add_mset sample_root (mset sample_files)])"
  proof (rule planner_lists_every_entry_once)
    show "make_specs sample_env (po_sources (env_options sample_env)) = Some [sample_spec]" by code_simp
    show "list_all2 (source_tree sample_env) [sample_spec] [add_mset sample_root (mset sample_files)]"
      using sample_tree by simp
  qed (simp_all add: sample_env_def fresh_def sample_root_def sample_files_def sample_meta_def inode_of_def)
  then show ?thesis by (simp add: sample_root_def sample_files_def sample_meta_def)
qed

end
