(* ===== verification/Queues.thy ===== *)
theory Queues
  imports Prelude
begin

text \<open>
  The three blocking containers: \<open>ClosableQueue\<close> (include/neotape/closable\_queue.hpp),
  \<open>ResultStore\<close> (include/neotape/result\_store.hpp) and \<open>BoundedBuffer\<close>
  (src/neotape_bounded_buffer.cpp).

  Every member function locks the mutex for its whole body, so an operation is one
  atomic step of the state.  An operation that would wait on its condition variable
  in the given state is \<open>None\<close>: it has not happened yet, and happens later in another
  state.  Notifications wake waiters and change no state.
\<close>

section \<open>ClosableQueue\<close>

record 'a closable_queue =
  cq_max_size :: nat
  cq_items :: "'a list"
  cq_closed :: bool

definition new_queue :: "nat \<Rightarrow> 'a closable_queue" where
  "new_queue max_size = \<lparr>cq_max_size = max_size, cq_items = [], cq_closed = False\<rparr>"

definition queue_push :: "'a closable_queue \<Rightarrow> 'a \<Rightarrow> ('a closable_queue \<times> bool) option" where
  "queue_push q item =
    (if cq_max_size q > 0 \<and> \<not> (cq_closed q \<or> length (cq_items q) < cq_max_size q) then None
     else if cq_closed q then Some (q, False)
     else Some (q\<lparr>cq_items := cq_items q @ [item]\<rparr>, True))"

definition queue_pop :: "'a closable_queue \<Rightarrow> ('a closable_queue \<times> 'a option) option" where
  "queue_pop q =
    (if \<not> (cq_closed q \<or> cq_items q \<noteq> []) then None
     else if cq_items q = [] then Some (q, None)
     else Some (q\<lparr>cq_items := tl (cq_items q)\<rparr>, Some (hd (cq_items q))))"

definition queue_close :: "'a closable_queue \<Rightarrow> 'a closable_queue" where
  "queue_close q = q\<lparr>cq_closed := True\<rparr>"

section \<open>ResultStore\<close>

text \<open>\<open>emplace\<close> leaves an existing entry alone.\<close>

record 'a result_store =
  rs_max_size :: nat
  rs_results :: "(u64 \<times> 'a) list"
  rs_closed :: bool

definition store_put :: "'a result_store \<Rightarrow> u64 \<Rightarrow> 'a \<Rightarrow> ('a result_store \<times> bool) option" where
  "store_put s seq v =
    (if \<not> (rs_closed s \<or> rs_max_size s = 0 \<or> length (rs_results s) < rs_max_size s) then None
     else if rs_closed s then Some (s, False)
     else Some (s\<lparr>rs_results := (if map_of (rs_results s) seq = None
                                 then rs_results s @ [(seq, v)] else rs_results s)\<rparr>, True))"

definition store_take :: "'a result_store \<Rightarrow> u64 \<Rightarrow> ('a result_store \<times> 'a option) option" where
  "store_take s seq =
    (if \<not> (rs_closed s \<or> map_of (rs_results s) seq \<noteq> None) then None
     else case map_of (rs_results s) seq of
       None \<Rightarrow> Some (s, None)
     | Some v \<Rightarrow> Some (s\<lparr>rs_results := filter (\<lambda>e. fst e \<noteq> seq) (rs_results s)\<rparr>, Some v))"

definition store_close :: "'a result_store \<Rightarrow> 'a result_store" where
  "store_close s = s\<lparr>rs_closed := True\<rparr>"

section \<open>BoundedBuffer\<close>

record bounded_buffer =
  bb_capacity :: nat
  bb_total_bytes :: nat
  bb_buf :: "bytes list"
  bb_closed :: bool

definition new_buffer :: "nat \<Rightarrow> bounded_buffer" where
  "new_buffer capacity = \<lparr>bb_capacity = capacity, bb_total_bytes = 0, bb_buf = [], bb_closed = False\<rparr>"

definition buffer_push :: "bounded_buffer \<Rightarrow> bytes \<Rightarrow> (bounded_buffer \<times> bool) option" where
  "buffer_push b item =
    (if \<not> (bb_total_bytes b < bb_capacity b \<or> bb_closed b) then None
     else if bb_closed b then Some (b, False)
     else Some (b\<lparr>bb_total_bytes := bb_total_bytes b + length item, bb_buf := bb_buf b @ [item]\<rparr>, True))"

text \<open>
  \<open>pop\<close> and \<open>pop_after_fill\<close> return an empty vector at the end of a closed buffer;
  the end is \<open>None\<close> here, and \<open>item_or_empty\<close> is the vector of the code.
\<close>

definition buffer_take :: "bounded_buffer \<Rightarrow> bounded_buffer \<times> bytes option" where
  "buffer_take b =
    (if bb_buf b = [] then (b, None)
     else (b\<lparr>bb_buf := tl (bb_buf b), bb_total_bytes := bb_total_bytes b - length (hd (bb_buf b))\<rparr>,
           Some (hd (bb_buf b))))"

definition buffer_pop :: "bounded_buffer \<Rightarrow> (bounded_buffer \<times> bytes option) option" where
  "buffer_pop b = (if \<not> (bb_buf b \<noteq> [] \<or> bb_closed b) then None else Some (buffer_take b))"

definition buffer_pop_after_fill :: "bounded_buffer \<Rightarrow> nat \<Rightarrow> (bounded_buffer \<times> bytes option) option" where
  "buffer_pop_after_fill b min_bytes =
    (if \<not> (bb_closed b \<or> (bb_buf b \<noteq> [] \<and> bb_total_bytes b \<ge> min_bytes)) then None
     else Some (buffer_take b))"

definition item_or_empty :: "bytes option \<Rightarrow> bytes" where
  "item_or_empty r = (case r of None \<Rightarrow> [] | Some x \<Rightarrow> x)"

definition buffer_close :: "bounded_buffer \<Rightarrow> bounded_buffer" where
  "buffer_close b = b\<lparr>bb_closed := True\<rparr>"

definition size_bytes :: "bounded_buffer \<Rightarrow> nat" where "size_bytes b = bb_total_bytes b"
definition capacity_bytes :: "bounded_buffer \<Rightarrow> nat" where "capacity_bytes b = bb_capacity b"

section \<open>The contract of a closable FIFO\<close>

text \<open>
  What the users of a queue rely on, whatever the interleaving of the two sides:
  an operation that returns either appends, removes the front, or reports the end.
\<close>

datatype 'a queue_op = Push 'a | Pop | Close

locale closable_fifo =
  fixes contents :: "'s \<Rightarrow> 'a list" and closed :: "'s \<Rightarrow> bool"
    and push :: "'s \<Rightarrow> 'a \<Rightarrow> ('s \<times> bool) option"
    and pop :: "'s \<Rightarrow> ('s \<times> 'a option) option" and close :: "'s \<Rightarrow> 's"
  assumes push_ok: "push s x = Some (s', True) \<Longrightarrow> contents s' = contents s @ [x] \<and> \<not> closed s \<and> \<not> closed s'"
    and push_refused: "push s x = Some (s', False) \<Longrightarrow> s' = s \<and> closed s"
    and pop_item: "pop s = Some (s', Some x) \<Longrightarrow> contents s = x # contents s' \<and> closed s' = closed s"
    and pop_end: "pop s = Some (s', None) \<Longrightarrow> s' = s \<and> contents s = [] \<and> closed s"
    and close_ok: "contents (close s) = contents s \<and> closed (close s)"
begin

text \<open>A history of operations, in the order the mutex grants them: the final state, the items
  accepted and the items handed out.  A history containing a waiting operation is no history.\<close>

fun history :: "'s \<Rightarrow> 'a queue_op list \<Rightarrow> ('s \<times> 'a list \<times> 'a list) option" where
  "history s [] = Some (s, [], [])"
| "history s (Push x # ops) = (case push s x of None \<Rightarrow> None
     | Some (s, ok) \<Rightarrow> (case history s ops of None \<Rightarrow> None
         | Some (s, ins, outs) \<Rightarrow> Some (s, (if ok then x # ins else ins), outs)))"
| "history s (Pop # ops) = (case pop s of None \<Rightarrow> None
     | Some (s, r) \<Rightarrow> (case history s ops of None \<Rightarrow> None
         | Some (s, ins, outs) \<Rightarrow> Some (s, ins, (case r of None \<Rightarrow> outs | Some x \<Rightarrow> x # outs))))"
| "history s (Close # ops) = history (close s) ops"

lemma history_fifo:
  "history s ops = Some (s', ins, outs) \<Longrightarrow> contents s @ ins = outs @ contents s'"
proof (induction s ops arbitrary: ins outs rule: history.induct)
  case (2 s x ops)
  then obtain t ok t' ii oo where h: "push s x = Some (t, ok)" "history t ops = Some (s', ii, oo)"
    "ins = (if ok then x # ii else ii)" "outs = oo"
    by (auto split: option.splits prod.splits)
  then have "contents t @ ii = oo @ contents s'" using 2 by auto
  then show ?case using h push_ok [of s x t] push_refused [of s x t] by (cases ok) auto
next
  case (3 s ops)
  then obtain t r ii oo where h: "pop s = Some (t, r)" "history t ops = Some (s', ii, oo)"
    "ins = ii" "outs = (case r of None \<Rightarrow> oo | Some x \<Rightarrow> x # oo)"
    by (auto split: option.splits prod.splits)
  then have "contents t @ ii = oo @ contents s'" using 3 by auto
  then show ?case using h pop_item [of s t] pop_end [of s t] by (cases r) auto
next
  case (4 s ops)
  then show ?case using close_ok [of s] by auto
qed simp

lemma history_closed: "closed s \<Longrightarrow> history s ops = Some (s', ins, outs) \<Longrightarrow> ins = [] \<and> closed s'"
proof (induction s ops arbitrary: ins outs rule: history.induct)
  case (2 s x ops)
  then obtain t ok ii oo where h: "push s x = Some (t, ok)" "history t ops = Some (s', ii, oo)"
    "ins = (if ok then x # ii else ii)"
    by (auto split: option.splits prod.splits)
  then show ?case using 2 push_ok [of s x t] push_refused [of s x t] by (cases ok) auto
next
  case (3 s ops)
  then obtain t r ii oo where h: "pop s = Some (t, r)" "history t ops = Some (s', ii, oo)" "ins = ii"
    by (auto split: option.splits prod.splits)
  then show ?case using 3 pop_item [of s t] pop_end [of s t] by (cases r) auto
qed (use close_ok in auto)

lemma history_invariant:
  assumes "\<And>s x s' r. I s \<Longrightarrow> P x \<Longrightarrow> push s x = Some (s', r) \<Longrightarrow> I s'"
    and "\<And>s s' r. I s \<Longrightarrow> pop s = Some (s', r) \<Longrightarrow> I s'" and "\<And>s. I s \<Longrightarrow> I (close s)"
  shows "history s ops = Some (s', ins, outs) \<Longrightarrow> I s \<Longrightarrow> \<forall>x. Push x \<in> set ops \<longrightarrow> P x \<Longrightarrow> I s'"
proof (induction s ops arbitrary: ins outs rule: history.induct)
  case (2 s x ops)
  then obtain t ok ii oo where h: "push s x = Some (t, ok)" "history t ops = Some (s', ii, oo)"
    by (auto split: option.splits prod.splits)
  have "I t" using assms(1) [OF 2(3) _ h(1)] 2(4) by simp
  then show ?case using 2(1) [OF h(1) refl h(2)] 2(4) by simp
next
  case (3 s ops)
  then obtain t r ii oo where h: "pop s = Some (t, r)" "history t ops = Some (s', ii, oo)"
    by (auto split: option.splits prod.splits)
  have "I t" using assms(2) [OF 3(3) h(1)] .
  then show ?case using 3(1) [OF h(1) refl h(2)] 3(4) by simp
next
  case (4 s ops)
  then show ?case using assms(3) by simp
qed simp

end

text \<open>A queue whose consumer waits only while there is nothing to take.\<close>

locale prompt_fifo = closable_fifo +
  assumes pop_waits: "pop s = None \<Longrightarrow> contents s = [] \<and> \<not> closed s"
begin

lemma drain:
  "closed s \<Longrightarrow> \<exists>s'. history s (replicate (length (contents s)) Pop) = Some (s', [], contents s) \<and> contents s' = []"
proof (induction "contents s" arbitrary: s)
  case Nil
  then show ?case by simp
next
  case (Cons x xs)
  from Cons(2,3) obtain t r where p: "pop s = Some (t, r)" using pop_waits [of s] by fastforce
  have r: "r \<noteq> None" using p Cons(2) pop_end [of s t] by (cases r) auto
  then have t: "r = Some x \<and> contents t = xs \<and> closed t"
    using p Cons(2,3) pop_item [of s t] by (cases r) auto
  from Cons(1) [of t] t obtain u where
    "history t (replicate (length xs) Pop) = Some (u, [], xs) \<and> contents u = []" by auto
  then show ?case using Cons(2) [symmetric] p t by simp
qed

end

interpretation cq: prompt_fifo cq_items cq_closed queue_push queue_pop queue_close
  by unfold_locales
    (auto simp: queue_push_def queue_pop_def queue_close_def split: if_splits)

interpretation bb: prompt_fifo bb_buf bb_closed buffer_push buffer_pop buffer_close
  by unfold_locales
    (auto simp: buffer_push_def buffer_pop_def buffer_take_def buffer_close_def split: if_splits)

interpretation bf: closable_fifo bb_buf bb_closed buffer_push "\<lambda>b. buffer_pop_after_fill b min_bytes" buffer_close
  for min_bytes
  by unfold_locales
    (auto simp: buffer_push_def buffer_pop_after_fill_def buffer_take_def buffer_close_def split: if_splits)

section \<open>Bounds\<close>

definition queue_bounded :: "'a closable_queue \<Rightarrow> bool" where
  "queue_bounded q \<longleftrightarrow> cq_max_size q > 0 \<longrightarrow> length (cq_items q) \<le> cq_max_size q"

lemma queue_push_bounded:
  "queue_bounded q \<Longrightarrow> queue_push q x = Some (q', ok) \<Longrightarrow> queue_bounded q' \<and> cq_max_size q' = cq_max_size q"
  by (auto simp: queue_bounded_def queue_push_def split: if_splits)

lemma queue_pop_bounded:
  "queue_bounded q \<Longrightarrow> queue_pop q = Some (q', r) \<Longrightarrow> queue_bounded q' \<and> cq_max_size q' = cq_max_size q"
  by (auto simp: queue_bounded_def queue_pop_def split: if_splits)

lemma queue_close_bounded [simp]:
  "queue_bounded (queue_close q) = queue_bounded q" "cq_max_size (queue_close q) = cq_max_size q"
  by (simp_all add: queue_close_def queue_bounded_def)

lemma queue_history_bounded:
  assumes "queue_bounded q" and "cq.history q ops = Some (q', ins, outs)"
  shows "queue_bounded q' \<and> cq_max_size q' = cq_max_size q"
proof -
  have "queue_bounded q' \<and> cq_max_size q' = cq_max_size q"
    by (rule cq.history_invariant [OF _ _ _ assms(2), where P = "\<lambda>_. True" and
          I = "\<lambda>s. queue_bounded s \<and> cq_max_size s = cq_max_size q"])
      (use assms(1) in \<open>auto dest: queue_push_bounded queue_pop_bounded\<close>)
  then show ?thesis .
qed

text \<open>The byte count of the buffer is the size of its contents, and exceeds the capacity by less than
  one item.\<close>

definition buffer_counted :: "nat \<Rightarrow> bounded_buffer \<Rightarrow> bool" where
  "buffer_counted m b \<longleftrightarrow> bb_total_bytes b = length (concat (bb_buf b)) \<and>
     (\<forall>x\<in>set (bb_buf b). length x \<le> m) \<and>
     (bb_buf b \<noteq> [] \<longrightarrow> bb_total_bytes b < bb_capacity b + m)"

definition items_within :: "nat \<Rightarrow> bytes queue_op list \<Rightarrow> bool" where
  "items_within m ops \<longleftrightarrow> 0 < m \<and>
     list_all (\<lambda>op. case op of Push x \<Rightarrow> length x \<le> m | _ \<Rightarrow> True) ops"

lemma buffer_push_counted:
  "buffer_counted m b \<Longrightarrow> length x \<le> m \<Longrightarrow> 0 < m \<Longrightarrow> buffer_push b x = Some (b', ok) \<Longrightarrow>
   buffer_counted m b' \<and> bb_capacity b' = bb_capacity b"
  by (auto simp: buffer_counted_def buffer_push_def split: if_splits)

lemma buffer_pop_counted:
  "buffer_counted m b \<Longrightarrow> buffer_pop b = Some (b', r) \<Longrightarrow> buffer_counted m b' \<and> bb_capacity b' = bb_capacity b"
  by (cases "bb_buf b") (auto simp: buffer_counted_def buffer_pop_def buffer_take_def split: if_splits)

lemma buffer_close_counted [simp]:
  "buffer_counted m (buffer_close b) = buffer_counted m b" "bb_capacity (buffer_close b) = bb_capacity b"
  by (simp_all add: buffer_close_def buffer_counted_def)

lemma buffer_history_counted:
  assumes "buffer_counted m b" and "items_within m ops" and "bb.history b ops = Some (b', ins, outs)"
  shows "buffer_counted m b' \<and> bb_capacity b' = bb_capacity b"
proof -
  have m: "0 < m" and p: "\<forall>x. Push x \<in> set ops \<longrightarrow> length x \<le> m"
    using assms(2) by (auto simp: items_within_def list_all_iff)
  show ?thesis
    by (rule bb.history_invariant [OF _ _ _ assms(3) _ p, where
          I = "\<lambda>s. buffer_counted m s \<and> bb_capacity s = bb_capacity b"])
      (use assms(1) m in \<open>auto dest: buffer_push_counted buffer_pop_counted\<close>)
qed

section \<open>Properties\<close>

text \<open>Whatever the interleaving of pushes, pops and closes, a queue created empty
  hands out a prefix of the items it accepted, in order and without loss, still holds exactly
  the rest, and never holds more than its maximum.\<close>
lemma queue_fifo:
  assumes "cq.history (new_queue n) ops = Some (q', ins, outs)"
  shows "ins = outs @ cq_items q' \<and> (0 < n \<longrightarrow> length (cq_items q') \<le> n)"
  using cq.history_fifo [OF assms] queue_history_bounded [OF _ assms]
  by (auto simp: new_queue_def queue_bounded_def)

text \<open>Closing a queue loses nothing: after a close no push is accepted, and as many
  pops as there are items return them all, in order, without waiting.\<close>
lemma closed_queue_drains:
  assumes "cq.history (new_queue n) (ops @ [Close]) = Some (q, ins, outs)"
  shows "\<exists>q'. cq.history q (replicate (length (cq_items q)) Pop) = Some (q', [], cq_items q) \<and>
    cq_items q' = [] \<and> queue_push q x = Some (q, False)"
proof -
  have "cq.history s (ops @ [Close]) = Some (q, ins, outs) \<Longrightarrow> cq_closed q" for s ins outs
    by (induction s ops arbitrary: ins outs rule: cq.history.induct)
      (auto simp: queue_close_def split: option.splits prod.splits)
  then have "cq_closed q" using assms by blast
  with cq.drain [OF this] show ?thesis by (auto simp: queue_push_def)
qed

text \<open>The bounded buffer of the spooling writer is a FIFO whose byte count is exact:
  with items of at most m bytes it never holds \<open>capacity + m\<close> bytes or more.\<close>
lemma bounded_buffer_fifo:
  assumes "bb.history (new_buffer capacity) ops = Some (b', ins, outs)" and "items_within m ops"
  shows "ins = outs @ bb_buf b' \<and> size_bytes b' = length (concat (bb_buf b')) \<and>
    (bb_buf b' \<noteq> [] \<longrightarrow> size_bytes b' < capacity + m)"
proof -
  have "buffer_counted m (new_buffer capacity)" by (simp add: new_buffer_def buffer_counted_def)
  from buffer_history_counted [OF this assms(2,1)] bb.history_fifo [OF assms(1)] show ?thesis
    by (auto simp: new_buffer_def buffer_counted_def size_bytes_def)
qed

section \<open>Concrete instances\<close>

lemma queue_fifo_witness:
  "\<exists>q'. cq.history (new_queue 1) [Push (5::nat), Pop, Push 6] = Some (q', [5, 6], [5]) \<and> cq_items q' = [6]"
proof -
  have h: "cq.history (new_queue 1) [Push (5::nat), Pop, Push 6] =
      Some (\<lparr>cq_max_size = 1, cq_items = [6], cq_closed = False\<rparr>, [5, 6], [5])"
    by (simp add: new_queue_def queue_push_def queue_pop_def)
  from queue_fifo [OF this] h show ?thesis by auto
qed

lemma closed_queue_drains_witness:
  "\<exists>q q'. cq.history (new_queue 0) [Push (5::nat), Push 6, Close] = Some (q, [5, 6], []) \<and>
    cq.history q [Pop, Pop] = Some (q', [], [5, 6]) \<and> queue_push q 9 = Some (q, False)"
proof -
  let ?q = "\<lparr>cq_max_size = 0, cq_items = [5, 6], cq_closed = True\<rparr> :: nat closable_queue"
  have h: "cq.history (new_queue 0) ([Push (5::nat), Push 6] @ [Close]) = Some (?q, [5, 6], [])"
    by (simp add: new_queue_def queue_push_def queue_close_def)
  from closed_queue_drains [OF this, of 9] h show ?thesis by (auto simp: numeral_2_eq_2)
qed

lemma bounded_buffer_fifo_witness:
  "\<exists>b'. bb.history (new_buffer 3) [Push [1, 2], Push [3, 4], Pop] = Some (b', [[1, 2], [3, 4]], [[1, 2]]) \<and>
    size_bytes b' < 3 + 2"
proof -
  let ?b = "\<lparr>bb_capacity = 3, bb_total_bytes = 2, bb_buf = [[3, 4]], bb_closed = False\<rparr>"
  have h: "bb.history (new_buffer 3) [Push [1, 2], Push [3, 4], Pop] = Some (?b, [[1, 2], [3, 4]], [[1, 2]])"
    by (simp add: new_buffer_def buffer_push_def buffer_pop_def buffer_take_def)
  from bounded_buffer_fifo [OF this, of 2] h show ?thesis by (simp add: items_within_def)
qed

end
