(* ===== verification/StatPool.thy ===== *)
theory StatPool
  imports Planner Queues "HOL-Library.AList" "HOL-Library.Multiset"
begin

text \<open>
  \<open>WorkerPool\<close> of src/neotape_plan_cmd.cpp: threads that stat the children of a directory,
  and the collector that hands out the work through one queue, within a window, and reads the
  results from another.  A run is a sequence of steps of the threads, in any order.
\<close>

section \<open>State\<close>

record lstat_work =
  lw_index :: nat
  lw_path :: string
  lw_one_file_system :: bool
  lw_root_device :: "u64 option"
  lw_spec :: source_spec

type_synonym indexed_result = "nat \<times> lstat_result"

text \<open>A worker waits for a job, holds a result it has not pushed yet, or has returned.\<close>

datatype worker = Waiting | Holding indexed_result | Returned

datatype collect_outcome = Collecting | Collected "lstat_result list" | Rethrown | Pool_closed

record pool =
  wp_jobs :: "lstat_work closable_queue"
  wp_results :: "indexed_result closable_queue"
  wp_workers :: "worker list"
  wp_submitted :: nat
  wp_received :: nat
  wp_pending :: "indexed_result list"
  wp_outcome :: collect_outcome

text \<open>\<open>WorkerPool(n)\<close> and \<open>start(n)\<close>, for n > 0; \<open>collect\<close> begins.\<close>

definition queue_capacity :: "nat \<Rightarrow> nat" where "queue_capacity n = n * 4"

definition start_pool :: "nat \<Rightarrow> pool" where
  "start_pool n = \<lparr>wp_jobs = new_queue (queue_capacity n), wp_results = new_queue (queue_capacity n),
     wp_workers = replicate n Waiting, wp_submitted = 0, wp_received = 0, wp_pending = [], wp_outcome = Collecting\<rparr>"

definition begin_collect :: "pool \<Rightarrow> pool" where
  "begin_collect s = s\<lparr>wp_submitted := 0, wp_received := 0, wp_pending := [], wp_outcome := Collecting\<rparr>"

definition pool_stop :: "pool \<Rightarrow> pool" where
  "pool_stop s = s\<lparr>wp_jobs := queue_close (wp_jobs s), wp_results := queue_close (wp_results s)\<rparr>"

section \<open>Workers\<close>

definition run_lstat :: "plan_env \<Rightarrow> lstat_work \<Rightarrow> indexed_result" where
  "run_lstat env w = (lw_index w, stat_entry env (lw_path w) (lw_spec w) (lw_one_file_system w) (lw_root_device w))"

definition worker_step :: "plan_env \<Rightarrow> nat \<Rightarrow> pool \<Rightarrow> pool option" where
  "worker_step env i s =
    (if length (wp_workers s) \<le> i then None
     else case wp_workers s ! i of
       Returned \<Rightarrow> None
     | Waiting \<Rightarrow>
         (case queue_pop (wp_jobs s) of
            None \<Rightarrow> None
          | Some (q, None) \<Rightarrow> Some (s\<lparr>wp_jobs := q, wp_workers := (wp_workers s)[i := Returned]\<rparr>)
          | Some (q, Some w) \<Rightarrow> Some (s\<lparr>wp_jobs := q, wp_workers := (wp_workers s)[i := Holding (run_lstat env w)]\<rparr>))
     | Holding r \<Rightarrow>
         (case queue_push (wp_results s) r of
            None \<Rightarrow> None
          | Some (q, ok) \<Rightarrow> Some (s\<lparr>wp_results := q, wp_workers := (wp_workers s)[i := if ok then Waiting else Returned]\<rparr>)))"

section \<open>The collector\<close>

definition window :: "pool \<Rightarrow> nat \<Rightarrow> nat" where
  "window s total_paths = (if cq_max_size (wp_jobs s) = 0 then total_paths else cq_max_size (wp_jobs s))"

definition submit :: "directory_work \<Rightarrow> bool \<Rightarrow> string list \<Rightarrow> pool \<Rightarrow> pool option" where
  "submit d ofs paths s =
    (case queue_push (wp_jobs s) \<lparr>lw_index = wp_submitted s, lw_path = paths ! wp_submitted s, lw_one_file_system = ofs,
        lw_root_device = dw_root_device d, lw_spec = dw_spec d\<rparr> of
       None \<Rightarrow> None
     | Some (q, True) \<Rightarrow> Some (s\<lparr>wp_jobs := q, wp_submitted := wp_submitted s + 1\<rparr>)
     | Some (q, False) \<Rightarrow> Some (s\<lparr>wp_outcome := Pool_closed\<rparr>))"

definition receive :: "pool \<Rightarrow> pool option" where
  "receive s =
    (case queue_pop (wp_results s) of
       None \<Rightarrow> None
     | Some (q, None) \<Rightarrow> Some (s\<lparr>wp_outcome := Pool_closed\<rparr>)
     | Some (q, Some (i, r)) \<Rightarrow>
         let s = s\<lparr>wp_results := q, wp_received := wp_received s + 1\<rparr>
         in Some (if r = Entry_throws then s\<lparr>wp_outcome := Rethrown\<rparr>
                  else s\<lparr>wp_pending := AList.update i r (wp_pending s)\<rparr>))"

text \<open>
  The loop of \<open>collect\<close>: \<open>submit_more\<close> runs before the first result is awaited and after each
  one; the map of the pending results is read in the order of the indices.
\<close>

definition collector_step :: "directory_work \<Rightarrow> bool \<Rightarrow> string list \<Rightarrow> pool \<Rightarrow> pool option" where
  "collector_step d ofs paths s =
    (let total_paths = length paths
     in if wp_outcome s \<noteq> Collecting then None
        else if wp_submitted s < total_paths \<and> wp_submitted s - wp_received s < window s total_paths then submit d ofs paths s
        else if wp_received s < total_paths then receive s
        else Some (s\<lparr>wp_outcome := Collected (map snd (sort_key fst (wp_pending s)))\<rparr>))"

datatype thread = Worker nat | Collector

definition pool_step :: "plan_env \<Rightarrow> directory_work \<Rightarrow> bool \<Rightarrow> string list \<Rightarrow> thread \<Rightarrow> pool \<Rightarrow> pool option" where
  "pool_step env d ofs paths t s = (case t of Worker i \<Rightarrow> worker_step env i s | Collector \<Rightarrow> collector_step d ofs paths s)"

text \<open>A schedule: the threads in the order they step.  A thread that waits is not in it.\<close>

fun pool_run :: "plan_env \<Rightarrow> directory_work \<Rightarrow> bool \<Rightarrow> string list \<Rightarrow> thread list \<Rightarrow> pool \<Rightarrow> pool option" where
  "pool_run env d ofs paths [] s = Some s"
| "pool_run env d ofs paths (t # ts) s =
    (case pool_step env d ofs paths t s of None \<Rightarrow> None | Some s \<Rightarrow> pool_run env d ofs paths ts s)"

section \<open>The invariant\<close>

definition held :: "worker list \<Rightarrow> indexed_result list" where
  "held ws = concat (map (\<lambda>w. case w of Holding r \<Rightarrow> [r] | _ \<Rightarrow> []) ws)"

text \<open>Every submitted index is at one place: a job, a worker, a result or collected.\<close>

definition tokens :: "plan_env \<Rightarrow> pool \<Rightarrow> indexed_result multiset" where
  "tokens env s = mset (map (run_lstat env) (cq_items (wp_jobs s))) + mset (held (wp_workers s)) +
     mset (cq_items (wp_results s)) + mset (wp_pending s)"

definition indexed :: "lstat_result list \<Rightarrow> nat \<Rightarrow> indexed_result list" where
  "indexed rs n = map (\<lambda>i. (i, rs ! i)) [0..<n]"

definition pool_ready :: "nat \<Rightarrow> pool \<Rightarrow> bool" where
  "pool_ready n s \<longleftrightarrow> n > 0 \<and> cq_max_size (wp_jobs s) = queue_capacity n \<and> cq_max_size (wp_results s) = queue_capacity n \<and>
     cq_items (wp_jobs s) = [] \<and> cq_items (wp_results s) = [] \<and> \<not> cq_closed (wp_jobs s) \<and> \<not> cq_closed (wp_results s) \<and>
     wp_workers s = replicate n Waiting"

definition pool_open :: "nat \<Rightarrow> pool \<Rightarrow> bool" where
  "pool_open n s \<longleftrightarrow> n > 0 \<and> cq_max_size (wp_jobs s) = queue_capacity n \<and> cq_max_size (wp_results s) = queue_capacity n \<and>
     \<not> cq_closed (wp_jobs s) \<and> \<not> cq_closed (wp_results s) \<and> length (wp_workers s) = n \<and> Returned \<notin> set (wp_workers s)"

definition accounted :: "nat \<Rightarrow> plan_env \<Rightarrow> lstat_result list \<Rightarrow> pool \<Rightarrow> bool" where
  "accounted n env rs s \<longleftrightarrow> tokens env s = mset (indexed rs (wp_submitted s)) \<and> wp_submitted s \<le> length rs \<and>
     length (wp_pending s) = wp_received s \<and> wp_submitted s \<le> wp_received s + queue_capacity n \<and>
     Entry_throws \<notin> snd ` set (wp_pending s)"

definition pool_good :: "nat \<Rightarrow> plan_env \<Rightarrow> lstat_result list \<Rightarrow> pool \<Rightarrow> bool" where
  "pool_good n env rs s \<longleftrightarrow> pool_open n s \<and>
     (case wp_outcome s of
        Collecting \<Rightarrow> accounted n env rs s
      | Collected out \<Rightarrow> accounted n env rs s \<and> wp_received s = length rs \<and> out = rs \<and> Entry_throws \<notin> set rs
      | Rethrown \<Rightarrow> Entry_throws \<in> set rs
      | Pool_closed \<Rightarrow> False)"

text \<open>The steps still to come.\<close>

definition work_left :: "nat \<Rightarrow> pool \<Rightarrow> nat" where
  "work_left k s = 4 * (k - wp_submitted s) + 3 * length (cq_items (wp_jobs s)) + 2 * length (held (wp_workers s)) +
     length (cq_items (wp_results s)) + (if wp_outcome s = Collecting then 1 else 0)"

lemma held_simps [simp]: "held [] = []" "held (w # ws) = (case w of Holding r \<Rightarrow> [r] | _ \<Rightarrow> []) @ held ws"
  "held (ws @ vs) = held ws @ held vs"
  by (simp_all add: held_def)

lemma held_update:
  assumes "i < length ws"
  shows "mset (held (ws[i := w])) + mset (held [ws ! i]) = mset (held ws) + mset (held [w])"
proof -
  have "ws = take i ws @ ws ! i # drop (Suc i) ws" using assms by (rule id_take_nth_drop)
  then have "mset (held ws) = mset (held (take i ws)) + mset (held [ws ! i]) + mset (held (drop (Suc i) ws))"
    by (metis append_Cons append_Nil held_simps(3) mset_append add.assoc)
  moreover have "mset (held (ws[i := w])) = mset (held (take i ws)) + mset (held [w]) + mset (held (drop (Suc i) ws))"
    using assms by (simp add: upd_conv_take_nth_drop)
  ultimately show ?thesis by (simp add: ac_simps)
qed

lemma held_take: "i < length ws \<Longrightarrow> ws ! i = Waiting \<Longrightarrow> mset (held (ws[i := Holding r])) = add_mset r (mset (held ws))"
  using held_update [of i ws "Holding r"] by simp

lemma held_give: "i < length ws \<Longrightarrow> ws ! i = Holding r \<Longrightarrow> add_mset r (mset (held (ws[i := Waiting]))) = mset (held ws)"
  using held_update [of i ws Waiting] by simp

lemma indexed_Suc: "indexed rs (Suc n) = indexed rs n @ [(n, rs ! n)]"
  by (simp add: indexed_def)

lemma indexed_fst: "map fst (indexed rs n) = [0..<n]"
  by (simp add: indexed_def comp_def)

text \<open>The indices of the pending results are distinct and new for the next result.\<close>

lemma pending_new:
  assumes "tokens env s = mset (indexed rs n)" and "(i, r) \<in> set (held (wp_workers s)) \<or> (i, r) \<in> set (cq_items (wp_results s))"
  shows "i \<notin> fst ` set (wp_pending s)" "r = rs ! i"
proof -
  let ?rest = "mset (map (run_lstat env) (cq_items (wp_jobs s))) + mset (held (wp_workers s)) + mset (cq_items (wp_results s))"
  have "image_mset fst (tokens env s) = mset [0..<n]"
    using assms(1) indexed_fst [of rs n] by (metis mset_map)
  moreover have "image_mset fst (tokens env s) = image_mset fst ?rest + image_mset fst (mset (wp_pending s))"
    by (simp add: tokens_def)
  ultimately have t: "mset [0..<n] = image_mset fst ?rest + image_mset fst (mset (wp_pending s))" by simp
  have "count (mset [0..<n]) i \<le> 1" by (simp add: count_mset_set')
  then have c: "count (image_mset fst ?rest) i + count (image_mset fst (mset (wp_pending s))) i \<le> 1" unfolding t by (simp only: count_union)
  have "i \<in># image_mset fst ?rest" using assms(2) by force
  then have "0 < count (image_mset fst ?rest) i" by (simp only: count_greater_zero_iff)
  with c have "count (image_mset fst (mset (wp_pending s))) i = 0" by linarith
  then show "i \<notin> fst ` set (wp_pending s)" by (simp add: count_eq_zero_iff)
  have "(i, r) \<in># tokens env s" using assms(2) by (auto simp: tokens_def)
  then show "r = rs ! i" by (auto simp: assms(1) indexed_def)
qed

section \<open>The steps\<close>

lemma queue_pop_open:
  "\<not> cq_closed q \<Longrightarrow> queue_pop q = Some (q', x) \<Longrightarrow>
   \<exists>y. x = Some y \<and> cq_items q = y # cq_items q' \<and> cq_max_size q' = cq_max_size q \<and> \<not> cq_closed q'"
  by (cases "cq_items q") (auto simp: queue_pop_def split: if_splits)

lemma queue_push_open:
  "\<not> cq_closed q \<Longrightarrow> queue_push q x = Some (q', ok) \<Longrightarrow>
   ok \<and> cq_items q' = cq_items q @ [x] \<and> cq_max_size q' = cq_max_size q \<and> \<not> cq_closed q'"
  by (auto simp: queue_push_def split: if_splits)

lemma worker_step_effect:
  assumes "pool_open n s" and "worker_step env i s = Some s'"
  shows "pool_open n s' \<and> tokens env s' = tokens env s \<and> wp_submitted s' = wp_submitted s \<and> wp_received s' = wp_received s \<and>
    wp_pending s' = wp_pending s \<and> wp_outcome s' = wp_outcome s \<and> work_left k s' < work_left k s"
proof -
  have o: "\<not> cq_closed (wp_jobs s)" "\<not> cq_closed (wp_results s)" "i < length (wp_workers s)"
    using assms by (auto simp: pool_open_def worker_step_def split: if_splits)
  then have nr: "wp_workers s ! i \<noteq> Returned" using assms(1) by (auto simp: pool_open_def dest: nth_mem)
  show ?thesis
  proof (cases "wp_workers s ! i")
    case Waiting
    with assms(2) o(3) obtain q x where q: "queue_pop (wp_jobs s) = Some (q, x)"
      by (auto simp: worker_step_def split: option.splits)
    from queue_pop_open [OF o(1) this] obtain w where w: "x = Some w" "cq_items (wp_jobs s) = w # cq_items q"
      "cq_max_size q = cq_max_size (wp_jobs s)" "\<not> cq_closed q" by blast
    have s': "s' = s\<lparr>wp_jobs := q, wp_workers := (wp_workers s)[i := Holding (run_lstat env w)]\<rparr>"
      using assms(2) o(3) Waiting q w(1) by (simp add: worker_step_def)
    note h = held_take [OF o(3) Waiting, of "run_lstat env w"]
    from arg_cong [OF h, of size] have "length (held (wp_workers s')) = Suc (length (held (wp_workers s)))" by (simp add: s')
    with assms(1) w h s' show ?thesis
      by (auto simp: pool_open_def tokens_def work_left_def dest: set_update_subset_insert [THEN subsetD])
  next
    case (Holding r)
    with assms(2) o(3) obtain q ok where q: "queue_push (wp_results s) r = Some (q, ok)"
      by (auto simp: worker_step_def split: option.splits)
    from queue_push_open [OF o(2) this] have w: "ok" "cq_items q = cq_items (wp_results s) @ [r]"
      "cq_max_size q = cq_max_size (wp_results s)" "\<not> cq_closed q" by simp_all
    have s': "s' = s\<lparr>wp_results := q, wp_workers := (wp_workers s)[i := Waiting]\<rparr>"
      using assms(2) o(3) Holding q w(1) by (simp add: worker_step_def)
    note h = held_give [OF o(3) Holding]
    from arg_cong [OF h, of size] have "length (held (wp_workers s)) = Suc (length (held (wp_workers s')))" by (simp add: s')
    with assms(1) w h [symmetric] s' show ?thesis
      by (auto simp: pool_open_def tokens_def work_left_def dest: set_update_subset_insert [THEN subsetD])
  qed (use nr in simp)
qed

text \<open>The collected results are in the order of the paths, whatever the order in which they came.\<close>

lemma collected_in_order:
  assumes "tokens env s = mset (indexed rs (length rs))" and "length (wp_pending s) = length rs"
  shows "map snd (sort_key fst (wp_pending s)) = rs"
    and "cq_items (wp_jobs s) = []" and "held (wp_workers s) = []" and "cq_items (wp_results s) = []"
proof -
  from arg_cong [OF assms(1), of size] assms(2) have e: "cq_items (wp_jobs s) = [] \<and> held (wp_workers s) = [] \<and> cq_items (wp_results s) = []"
    by (simp add: tokens_def indexed_def)
  then show "cq_items (wp_jobs s) = []" "held (wp_workers s) = []" "cq_items (wp_results s) = []" by simp_all
  have m: "mset (indexed rs (length rs)) = mset (wp_pending s)" using assms(1) e by (simp add: tokens_def)
  have "inj_on fst (set (indexed rs (length rs)))" by (auto simp: inj_on_def indexed_def)
  then have "inj_on fst (set (wp_pending s))" by (simp only: mset_eq_setD [OF m])
  then have "sort_key fst (wp_pending s) = indexed rs (length rs)"
    by (intro sort_key_inj_key_eq) (simp_all add: m indexed_fst)
  then show "map snd (sort_key fst (wp_pending s)) = rs" by (simp add: indexed_def comp_def map_nth)
qed

lemma update_append_new: "i \<notin> fst ` set al \<Longrightarrow> AList.update i v al = al @ [(i, v)]"
  by (induction al) auto

lemma collector_step_effect:
  assumes "pool_good n env rs s" and "rs = stat_children env d paths" and "ofs = po_one_file_system (env_options env)"
    and "collector_step d ofs paths s = Some s'"
  shows "pool_good n env rs s' \<and> work_left (length rs) s' < work_left (length rs) s"
proof -
  have c: "wp_outcome s = Collecting" using assms(4) by (auto simp: collector_step_def Let_def split: if_splits)
  have len: "length rs = length paths" using assms(2) by (simp add: stat_children_def)
  from assms(1) c have o: "pool_open n s" and a: "accounted n env rs s" by (simp_all add: pool_good_def)
  then have oo: "n > 0" "cq_max_size (wp_jobs s) = queue_capacity n" "\<not> cq_closed (wp_jobs s)" "\<not> cq_closed (wp_results s)"
    and t: "tokens env s = mset (indexed rs (wp_submitted s))" "wp_submitted s \<le> length rs"
      "length (wp_pending s) = wp_received s" "wp_submitted s \<le> wp_received s + queue_capacity n"
      "Entry_throws \<notin> snd ` set (wp_pending s)"
    by (auto simp: pool_open_def accounted_def)
  have win: "window s (length paths) = queue_capacity n" using oo by (simp add: window_def queue_capacity_def)
  show ?thesis
  proof (cases "wp_submitted s < length paths \<and> wp_submitted s - wp_received s < queue_capacity n")
    case True
    let ?w = "\<lparr>lw_index = wp_submitted s, lw_path = paths ! wp_submitted s, lw_one_file_system = ofs,
        lw_root_device = dw_root_device d, lw_spec = dw_spec d\<rparr>"
    from assms(4) c True win have "submit d ofs paths s = Some s'" by (simp add: collector_step_def Let_def)
    then obtain q ok where q: "queue_push (wp_jobs s) ?w = Some (q, ok)" by (auto simp: submit_def split: option.splits)
    from queue_push_open [OF oo(3) q] have w: "ok" "cq_items q = cq_items (wp_jobs s) @ [?w]"
      "cq_max_size q = cq_max_size (wp_jobs s)" "\<not> cq_closed q" by simp_all
    have s': "s' = s\<lparr>wp_jobs := q, wp_submitted := wp_submitted s + 1\<rparr>"
      using \<open>submit d ofs paths s = Some s'\<close> q w(1) by (simp add: submit_def)
    have "run_lstat env ?w = (wp_submitted s, rs ! wp_submitted s)"
      using True by (simp add: run_lstat_def assms(2,3) stat_children_def)
    then have "tokens env s' = mset (indexed rs (Suc (wp_submitted s)))"
      using t(1) by (simp add: tokens_def s' w(2) indexed_Suc)
    moreover have "Suc (wp_submitted s) \<le> wp_received s + queue_capacity n" using True by arith
    ultimately have "accounted n env rs s'" using t True len by (simp add: accounted_def s')
    moreover have "pool_open n s'" using o w by (simp add: pool_open_def s')
    moreover have "4 * (length paths - wp_submitted s) = 4 * (length paths - Suc (wp_submitted s)) + 4" using True by arith
    ultimately show ?thesis using c len w by (simp add: pool_good_def s' work_left_def)
  next
    case full: False
    show ?thesis
    proof (cases "wp_received s < length paths")
      case True
      from assms(4) c full True win have rec: "receive s = Some s'" by (simp add: collector_step_def Let_def)
      then obtain q x where q: "queue_pop (wp_results s) = Some (q, x)" by (auto simp: receive_def split: option.splits)
      from queue_pop_open [OF oo(4) q] obtain i v where v: "x = Some (i, v)" "cq_items (wp_results s) = (i, v) # cq_items q"
        "cq_max_size q = cq_max_size (wp_results s)" "\<not> cq_closed q" by (cases "the x") force
      have new: "i \<notin> fst ` set (wp_pending s)" "v = rs ! i" using pending_new [OF t(1), of i v] v(2) by simp_all
      let ?s = "s\<lparr>wp_results := q, wp_received := wp_received s + 1\<rparr>"
      show ?thesis
      proof (cases "v = Entry_throws")
        case True
        then have s': "s' = ?s\<lparr>wp_outcome := Rethrown\<rparr>" using rec q v(1) by (simp add: receive_def Let_def)
        have "(i, v) \<in># tokens env s" using v(2) by (simp add: tokens_def)
        then have "v \<in> set rs" using t(1,2) by (auto simp: indexed_def)
        then show ?thesis using o v c True by (simp add: s' pool_good_def pool_open_def work_left_def)
      next
        case False
        then have s': "s' = ?s\<lparr>wp_pending := AList.update i v (wp_pending s)\<rparr>" using rec q v(1) by (simp add: receive_def Let_def)
        have u: "AList.update i v (wp_pending s) = wp_pending s @ [(i, v)]"
          using new(1) by (simp add: update_append_new)
        have "tokens env s' = tokens env s" by (simp add: tokens_def s' u v(2))
        then have "accounted n env rs s'" using t False by (auto simp: accounted_def s' u)
        moreover have "pool_open n s'" using o v by (simp add: pool_open_def s')
        ultimately show ?thesis using c v(2) by (simp add: pool_good_def s' work_left_def)
      qed
    next
      case False
      from assms(4) c full False win have s': "s' = s\<lparr>wp_outcome := Collected (map snd (sort_key fst (wp_pending s)))\<rparr>"
        by (auto simp: collector_step_def Let_def)
      have sz: "length (wp_pending s) \<le> wp_submitted s"
        using arg_cong [OF t(1), of size] by (simp add: tokens_def indexed_def)
      with False t(2,3) len have l: "wp_submitted s = length rs" "wp_received s = length rs" by simp_all
      have out: "map snd (sort_key fst (wp_pending s)) = rs" by (rule collected_in_order(1)) (use t l in simp_all)
      have "set rs = snd ` set (wp_pending s)" using arg_cong [OF out, of set] by simp
      then have "Entry_throws \<notin> set rs" using t(5) by simp
      moreover have "accounted n env rs s'" using t by (simp add: accounted_def tokens_def s')
      moreover have "pool_open n s'" using o by (simp add: pool_open_def s')
      ultimately show ?thesis using c out l by (simp add: pool_good_def s' work_left_def)
    qed
  qed
qed

lemma pool_step_effect:
  assumes "pool_good n env rs s" and "rs = stat_children env d paths" and "ofs = po_one_file_system (env_options env)"
    and "pool_step env d ofs paths t s = Some s'"
  shows "pool_good n env rs s' \<and> work_left (length rs) s' < work_left (length rs) s"
proof (cases t)
  case (Worker i)
  with assms(4) have w: "worker_step env i s = Some s'" by (simp add: pool_step_def)
  have "pool_open n s" using assms(1) by (simp add: pool_good_def)
  from worker_step_effect [OF this w] assms(1) show ?thesis
    by (simp add: pool_good_def accounted_def split: collect_outcome.splits)
next
  case Collector
  with collector_step_effect [OF assms(1-3)] assms(4) show ?thesis by (simp add: pool_step_def)
qed

lemma pool_run_effect:
  "pool_run env d ofs paths ts s = Some s' \<Longrightarrow> pool_good n env rs s \<Longrightarrow> rs = stat_children env d paths \<Longrightarrow>
   ofs = po_one_file_system (env_options env) \<Longrightarrow> pool_good n env rs s' \<and> length ts + work_left (length rs) s' \<le> work_left (length rs) s"
proof (induction ts arbitrary: s)
  case (Cons t ts)
  then obtain q where q: "pool_step env d ofs paths t s = Some q" "pool_run env d ofs paths ts q = Some s'"
    by (auto split: option.splits)
  from pool_step_effect [OF Cons.prems(2-4) q(1)] Cons.IH [OF q(2)] Cons.prems(3,4) show ?case by simp
qed simp

lemma held_none: "held ws = [] \<Longrightarrow> Returned \<notin> set ws \<Longrightarrow> ws = replicate (length ws) Waiting"
  by (induction ws) (auto split: worker.splits)

lemma receive_ready: "cq_items (wp_results s) \<noteq> [] \<Longrightarrow> \<exists>s'. receive s = Some s'"
  by (cases "hd (cq_items (wp_results s))") (simp add: receive_def queue_pop_def Let_def)

text \<open>While the collector has not finished, some thread can step: the window keeps the queues from filling.\<close>

lemma pool_progress:
  assumes "pool_good n env rs s" and "rs = stat_children env d paths" and "wp_outcome s = Collecting"
  shows "\<exists>t s'. pool_step env d ofs paths t s = Some s'"
proof -
  from assms have oo: "n > 0" "cq_max_size (wp_jobs s) = queue_capacity n" "cq_max_size (wp_results s) = queue_capacity n"
      "\<not> cq_closed (wp_jobs s)" "\<not> cq_closed (wp_results s)" "length (wp_workers s) = n" "Returned \<notin> set (wp_workers s)"
    and t: "tokens env s = mset (indexed rs (wp_submitted s))" "wp_submitted s \<le> length rs"
      "length (wp_pending s) = wp_received s" "wp_submitted s \<le> wp_received s + queue_capacity n"
    by (auto simp: pool_good_def pool_open_def accounted_def)
  have win: "window s (length paths) = queue_capacity n" "queue_capacity n > 0" using oo by (simp_all add: window_def queue_capacity_def)
  have count: "length (cq_items (wp_jobs s)) + length (held (wp_workers s)) + length (cq_items (wp_results s)) + wp_received s = wp_submitted s"
    using arg_cong [OF t(1), of size] t(3) by (simp add: tokens_def indexed_def)
  have len: "length rs = length paths" using assms(2) by (simp add: stat_children_def)
  show ?thesis
  proof (cases "wp_submitted s < length paths \<and> wp_submitted s - wp_received s < queue_capacity n")
    case True
    then have "length (cq_items (wp_jobs s)) < queue_capacity n" using count by linarith
    then have "\<exists>s'. submit d ofs paths s = Some s'" using oo by (simp add: submit_def queue_push_def)
    then have "\<exists>s'. collector_step d ofs paths s = Some s'" using True assms(3) win by (simp add: collector_step_def)
    then show ?thesis by (intro exI [of _ Collector]) (simp add: pool_step_def)
  next
    case full: False
    show ?thesis
    proof (cases "wp_received s < length paths \<and> cq_items (wp_results s) = []")
      case True
      then have h: "cq_items (wp_jobs s) \<noteq> [] \<or> held (wp_workers s) \<noteq> []" using count full win(2) t(4) by auto
      show ?thesis
      proof (cases "held (wp_workers s) = []")
        case False
        then obtain r where "r \<in> set (held (wp_workers s))" by (cases "held (wp_workers s)") auto
        then have "Holding r \<in> set (wp_workers s)" by (auto simp: held_def split: worker.splits)
        then obtain i where i: "i < length (wp_workers s)" "wp_workers s ! i = Holding r" unfolding in_set_conv_nth by blast
        have "queue_push (wp_results s) r \<noteq> None" using True oo win(2) by (simp add: queue_push_def)
        then have "\<exists>s'. worker_step env i s = Some s'" using i by (auto simp: worker_step_def)
        then show ?thesis by (intro exI [of _ "Worker i"]) (simp add: pool_step_def)
      next
        case True
        with h have j: "cq_items (wp_jobs s) \<noteq> []" by simp
        have i: "0 < length (wp_workers s)" using oo by simp
        have "wp_workers s ! 0 = replicate n Waiting ! 0" using held_none [OF True oo(7)] oo(6) by simp
        then have "wp_workers s ! 0 = Waiting" using oo(1) by simp
        then have "\<exists>s'. worker_step env 0 s = Some s'" using i j by (simp add: worker_step_def queue_pop_def)
        then show ?thesis by (intro exI [of _ "Worker 0"]) (simp add: pool_step_def)
      qed
    next
      case False
      then have "\<exists>s'. collector_step d ofs paths s = Some s'"
        using full assms(3) win receive_ready [of s] by (auto simp: collector_step_def Let_def)
      then show ?thesis by (intro exI [of _ Collector]) (simp add: pool_step_def)
    qed
  qed
qed

lemma begin_collect_good:
  assumes "pool_ready n s"
  shows "pool_good n env rs (begin_collect s)" and "work_left k (begin_collect s) = 4 * k + 1"
proof -
  have "held (replicate n Waiting) = []" by (simp add: held_def)
  then show "pool_good n env rs (begin_collect s)" "work_left k (begin_collect s) = 4 * k + 1"
    using assms by (auto simp: pool_good_def pool_open_def accounted_def begin_collect_def pool_ready_def tokens_def indexed_def
        work_left_def)
qed

lemma accounted_tokens: "accounted n env rs s \<Longrightarrow> tokens env s = mset (indexed rs (wp_submitted s))"
  by (simp add: accounted_def)

lemma collected_ready:
  assumes "pool_good n env rs s" and "wp_outcome s = Collected out"
  shows "pool_ready n s"
proof -
  from assms have a: "pool_open n s" "accounted n env rs s" "wp_received s = length rs" by (simp_all add: pool_good_def)
  have "length (wp_pending s) \<le> wp_submitted s"
    using arg_cong [OF accounted_tokens [OF a(2)], of size] by (simp add: tokens_def indexed_def)
  with a have "wp_submitted s = length rs" "length (wp_pending s) = length rs" by (simp_all add: accounted_def)
  with accounted_tokens [OF a(2)] have "tokens env s = mset (indexed rs (length rs))" "length (wp_pending s) = length rs" by simp_all
  from collected_in_order(2-4) [OF this] a(1) held_none [of "wp_workers s"] show ?thesis
    by (simp add: pool_ready_def pool_open_def)
qed

section \<open>Property\<close>

text \<open>C31. The worker pool is equivalent to the sequential loop: for any number of workers and any
  interleaving, a collection that finishes gives exactly the sequential results, in order, and leaves
  the pool ready for the next directory; it fails only when one of the sequential results is an
  exception; no schedule is longer than four steps per path and one; and until the end some thread can
  step, so that there is no deadlock.\<close>
theorem pool_equals_sequential:
  assumes "pool_ready n s" and "pool_run env d (po_one_file_system (env_options env)) paths ts (begin_collect s) = Some s'"
  shows "length ts \<le> 4 * length paths + 1 \<and>
    (case wp_outcome s' of
       Collected out \<Rightarrow> out = stat_children env d paths \<and> Entry_throws \<notin> set out \<and> pool_ready n s'
     | Rethrown \<Rightarrow> Entry_throws \<in> set (stat_children env d paths)
     | Pool_closed \<Rightarrow> False
     | Collecting \<Rightarrow> \<exists>t s''. pool_step env d (po_one_file_system (env_options env)) paths t s' = Some s'')"
proof -
  let ?rs = "stat_children env d paths"
  from pool_run_effect [OF assms(2) begin_collect_good(1) [OF assms(1)] refl refl]
  have g: "pool_good n env ?rs s'" and l: "length ts + work_left (length ?rs) s' \<le> work_left (length ?rs) (begin_collect s)" by simp_all
  then have "length ts \<le> 4 * length paths + 1" using begin_collect_good(2) [OF assms(1), of "length ?rs"] by (simp add: stat_children_def)
  moreover have "\<exists>t s''. pool_step env d (po_one_file_system (env_options env)) paths t s' = Some s''" if "wp_outcome s' = Collecting"
    using pool_progress [OF g refl that] .
  moreover have "pool_ready n s'" if "wp_outcome s' = Collected out" for out using collected_ready [OF g that] .
  ultimately show ?thesis using g by (auto simp: pool_good_def split: collect_outcome.splits)
qed

section \<open>Witness\<close>

definition sample_pool_env :: plan_env where
  "sample_pool_env = \<lparr>
     env_lstat = (\<lambda>p. if p = ''/r/a'' then Some \<lparr>st_mode = 0x81a4, st_blocks = 1, st_size = 7, st_dev = 1, st_ino = 2, st_mtime = 9,
       st_uid = 0, st_gid = 0\<rparr> else None),
     env_readdir = (\<lambda>_. []), env_user = (\<lambda>_. []), env_group = (\<lambda>_. []), env_cwd = ''/'', env_chdir_ok = (\<lambda>_. True),
     env_options = \<lparr>po_slice_size = 4, po_metadata_buffer_size = 1000, po_one_file_system = True, po_chdir_dir = [],
       po_sources = [''r''], po_entry_struct_size = 200\<rparr>\<rparr>"

definition sample_pool_dir :: directory_work where
  "sample_pool_dir = \<lparr>dw_path = ''/r'', dw_spec = \<lparr>sp_archive_prefix = ''r'', sp_open_path = ''/r''\<rparr>, dw_root_device = Some 1\<rparr>"

text \<open>Two workers; the result of the second path arrives first.\<close>

definition sample_schedule :: "thread list" where
  "sample_schedule = [Collector, Collector, Worker 1, Worker 0, Worker 0, Worker 1, Collector, Collector, Collector]"

definition sample_pool_run :: "pool option" where
  "sample_pool_run = pool_run sample_pool_env sample_pool_dir True [''/r/b'', ''/r/a''] sample_schedule (begin_collect (start_pool 2))"

theorem pool_equals_sequential_witness:
  "\<exists>s'. sample_pool_run = Some s' \<and>
     wp_outcome s' = Collected (stat_children sample_pool_env sample_pool_dir [''/r/b'', ''/r/a'']) \<and> pool_ready 2 s'"
proof -
  have ready: "pool_ready 2 (start_pool 2)" by (simp add: pool_ready_def start_pool_def new_queue_def)
  have "(case sample_pool_run of Some s \<Rightarrow> (case wp_outcome s of Collected _ \<Rightarrow> True | _ \<Rightarrow> False) | None \<Rightarrow> False)" by code_simp
  then obtain s' out where s': "sample_pool_run = Some s'" "wp_outcome s' = Collected out"
    by (auto split: option.splits collect_outcome.splits)
  have "po_one_file_system (env_options sample_pool_env) = True" by (simp add: sample_pool_env_def)
  with s' pool_equals_sequential [OF ready, of sample_pool_env sample_pool_dir "[''/r/b'', ''/r/a'']" sample_schedule s'] show ?thesis
    by (simp add: sample_pool_run_def)
qed

end
