(* ===== verification/Media.thy ===== *)
theory Media
  imports Format Protocol Text "HOL-Library.Char_ord" "HOL-Library.List_Lexorder" "HOL-Library.Product_Lexorder"
begin

text \<open>
  src/neotape_media.cpp: media locators, the names of spool files, the scan of a spool
  directory and the record reader over a spool or a tape.

  A directory is the list of its entries in the order of its iteration; a file that is
  opened is the list of results of its \<open>read\<close> calls, as in \<open>Protocol\<close>.  A tape drive is a
  record of functions on a state of its own.  Warnings are left out.
\<close>

section \<open>Locators\<close>

datatype media_kind = No_media | Tape_media | Spool_media | Null_sink

record media_locator =
  ml_kind :: media_kind
  ml_path :: string

datatype media_error =
    Bad_locator | Spool_number_overflow | Spool_duplicate u64 | Spool_open_failed string | Spool_missing
  | Spool_read_failed | Truncated_header string | Truncated_record string | Bad_spool_header format_error
  | Name_disagrees string | Bad_reader_kind | Tape_status_failed | Tape_read_failed | Tape_position_unknown
  | Tape_cannot_advance | Tape_space_failed

definition parse_media :: "string \<Rightarrow> bool \<Rightarrow> media_error + media_locator" where
  "parse_media text allow_null =
    (if allow_null \<and> text = ''null'' then Inr \<lparr>ml_kind = Null_sink, ml_path = []\<rparr>
     else if starts_with text ''tape:'' \<and> length text > 5 then Inr \<lparr>ml_kind = Tape_media, ml_path = drop 5 text\<rparr>
     else if starts_with text ''spool:'' \<and> length text > 6 then Inr \<lparr>ml_kind = Spool_media, ml_path = drop 6 text\<rparr>
     else Inl Bad_locator)"

section \<open>Names of spool files\<close>

definition spool_prefix :: string where "spool_prefix = ''neotape-''"
definition spool_ext :: string where "spool_ext = ''.nts''"

definition ends_with :: "string \<Rightarrow> string \<Rightarrow> bool" where
  "ends_with s p \<longleftrightarrow> length p \<le> length s \<and> drop (length s - length p) s = p"

record spool_file_name =
  sn_number :: u64
  sn_slice :: "u64 option"

text \<open>The lambda \<open>number\<close>: the digits at the front; a value that does not fit throws.\<close>

definition take_number :: "string \<Rightarrow> media_error + (u64 \<times> string) option" where
  "take_number s =
    (let ds = takeWhile is_digit s
     in if ds = [] then Inr None
        else if digits_value ds \<ge> 2 ^ 64 then Inl Spool_number_overflow
        else Inr (Some (word_of_nat (digits_value ds), dropWhile is_digit s)))"

definition is_name_char :: "char \<Rightarrow> bool" where
  "is_name_char c \<longleftrightarrow>
     (of_char c \<ge> (97 :: nat) \<and> of_char c \<le> (122 :: nat)) \<or> (of_char c \<ge> (65 :: nat) \<and> of_char c \<le> (90 :: nat)) \<or>
     (of_char c \<ge> (48 :: nat) \<and> of_char c \<le> (57 :: nat)) \<or> c = CHR ''_'' \<or> c = CHR ''-''"

text \<open>The label after the slice number or \<open>archive-end\<close>.\<close>

definition label_ok :: "string \<Rightarrow> bool" where
  "label_ok rest \<longleftrightarrow> rest = [] \<or> (hd rest = CHR ''-'' \<and> length rest \<noteq> 1 \<and> list_all is_name_char (tl rest))"

definition spool_name :: "string \<Rightarrow> media_error + spool_file_name option" where
  "spool_name name =
    (if \<not> starts_with name spool_prefix \<or> \<not> ends_with name spool_ext then Inr None
     else bind_res (take_number (take (length name - 12) (drop 8 name))) (\<lambda>x. case x of
       None \<Rightarrow> Inr None
     | Some (file, rest) \<Rightarrow>
         if rest = [] \<or> hd rest \<noteq> CHR ''.'' then Inr None
         else if starts_with (tl rest) ''slice-'' then
           bind_res (take_number (drop 6 (tl rest))) (\<lambda>y. case y of
             None \<Rightarrow> Inr None
           | Some (sl, rest) \<Rightarrow> Inr (if label_ok rest then Some \<lparr>sn_number = file, sn_slice = Some sl\<rparr> else None))
         else if starts_with (tl rest) ''archive-end'' then
           Inr (if label_ok (drop 11 (tl rest)) then Some \<lparr>sn_number = file, sn_slice = None\<rparr> else None)
         else Inr None))"

text \<open>\<open>parse_spool_file_name\<close> returns whether it set the number.\<close>

definition parse_spool_file_name :: "string \<Rightarrow> media_error + u64 option" where
  "parse_spool_file_name name = bind_res (spool_name name) (\<lambda>x. Inr (map_option sn_number x))"

section \<open>Scanning a spool directory\<close>

record spool_entry =
  se_name :: string
  se_regular :: bool
  se_reads :: "read_result list option"

text \<open>\<open>None\<close>: the entry cannot be opened.\<close>

fun spool_candidates :: "spool_entry list \<Rightarrow> media_error + spool_entry list" where
  "spool_candidates [] = Inr []"
| "spool_candidates (e # es) =
    (if \<not> se_regular e then spool_candidates es
     else bind_res (parse_spool_file_name (se_name e)) (\<lambda>x.
       bind_res (spool_candidates es) (\<lambda>fs. Inr (if x = None then fs else e # fs))))"

text \<open>The number of a name; zero when there is none, as the comparator's variables are.\<close>

definition spool_number :: "string \<Rightarrow> u64" where
  "spool_number name = (case parse_spool_file_name name of Inr (Some n) \<Rightarrow> n | _ \<Rightarrow> 0)"

fun check_duplicates :: "spool_entry list \<Rightarrow> media_error + unit" where
  "check_duplicates (e # f # es) =
    (if spool_number (se_name e) = spool_number (se_name f) then Inl (Spool_duplicate (spool_number (se_name f)))
     else check_duplicates (f # es))"
| "check_duplicates _ = Inr ()"

definition scan_spool_files :: "spool_entry list option \<Rightarrow> media_error + spool_entry list" where
  "scan_spool_files root =
    (case root of
       None \<Rightarrow> Inr []
     | Some es \<Rightarrow>
         bind_res (spool_candidates es) (\<lambda>fs.
           let files = sort_key (\<lambda>e. (spool_number (se_name e), se_name e)) fs
           in bind_res (check_duplicates files) (\<lambda>_. Inr files)))"

section \<open>Reading a spool\<close>

datatype record_event = Ev_record | Ev_filemark | Ev_end

record media_record =
  mr_event :: record_event
  mr_record :: bytes
  mr_file_num :: u64
  mr_source_name :: string

definition end_record :: media_record where
  "end_record = \<lparr>mr_event = Ev_end, mr_record = [], mr_file_num = 0, mr_source_name = []\<rparr>"

record spool_reader =
  sr_files :: "spool_entry list"
  sr_index :: nat
  sr_file_num :: u64
  sr_fd :: "read_result list option"
  sr_ended :: bool
  sr_block_size :: u32

definition open_spool :: "spool_reader \<Rightarrow> media_error + spool_reader" where
  "open_spool r =
    (if sr_index r = length (sr_files r) then Inr (r\<lparr>sr_ended := True\<rparr>)
     else let e = sr_files r ! sr_index r
     in case se_reads e of
       None \<Rightarrow> Inl (Spool_open_failed (se_name e))
     | Some reads \<Rightarrow> bind_res (parse_spool_file_name (se_name e)) (\<lambda>x.
         Inr (r\<lparr>sr_fd := Some reads, sr_file_num := (case x of None \<Rightarrow> sr_file_num r | Some n \<Rightarrow> n)\<rparr>)))"

definition new_spool_reader :: "spool_entry list option \<Rightarrow> media_error + spool_reader" where
  "new_spool_reader root =
    (if root = None then Inl Spool_missing
     else bind_res (scan_spool_files root) (\<lambda>files.
       open_spool \<lparr>sr_files = files, sr_index = 0, sr_file_num = 0, sr_fd = None, sr_ended = False, sr_block_size = 0\<rparr>))"

definition spool_skip_file :: "spool_reader \<Rightarrow> media_error + spool_reader" where
  "spool_skip_file r =
    (if sr_ended r then Inr r else open_spool (r\<lparr>sr_fd := None, sr_index := sr_index r + 1\<rparr>))"

definition read_stream :: "read_result list \<Rightarrow> nat \<Rightarrow> media_error + bytes \<times> read_result list" where
  "read_stream fd n = (case read_exact fd n of Inl _ \<Rightarrow> Inl Spool_read_failed | Inr r \<Rightarrow> Inr r)"

text \<open>The size of the record whose header has been read, and the block size remembered.\<close>

definition record_size :: "bytes \<Rightarrow> u32 \<Rightarrow> media_error + u32" where
  "record_size hdr block_size =
    (case parse_fixed_header hdr of
       Inl e \<Rightarrow> if block_size = 0 then Inl (Bad_spool_header e) else Inr block_size
     | Inr h \<Rightarrow> Inr (if block_size = 0 then decoded_block_size h else block_size))"

text \<open>An intact record must be in a file of its slice, or of the archive end.\<close>

definition name_agrees :: "string \<Rightarrow> frame_header \<Rightarrow> bool" where
  "name_agrees name h =
    (case spool_name name of
       Inr (Some sn) \<Rightarrow> (channel_type h = ARCHIVE_END) \<noteq> (sn_slice sn \<noteq> None) \<and>
         (case sn_slice sn of None \<Rightarrow> True | Some s \<Rightarrow> s = slice_seq_num h)
     | _ \<Rightarrow> False)"

definition intact_header :: "(bytes \<Rightarrow> bytes) \<Rightarrow> bytes \<Rightarrow> frame_header option" where
  "intact_header H rec = (case check_frame H rec of Inr f \<Rightarrow> if hash_ok f then Some (header f) else None | Inl _ \<Rightarrow> None)"

definition spool_next :: "(bytes \<Rightarrow> bytes) \<Rightarrow> spool_reader \<Rightarrow> media_error + media_record \<times> spool_reader" where
  "spool_next H r =
    (if sr_ended r then Inr (end_record, r)
     else case sr_fd r of
       None \<Rightarrow> Inl Spool_read_failed
     | Some fd \<Rightarrow>
         let name = se_name (sr_files r ! sr_index r)
         in bind_res (read_stream fd fixed_header_size) (\<lambda>(hdr, fd).
           if hdr = [] then
             bind_res (spool_skip_file (r\<lparr>sr_fd := Some fd\<rparr>)) (\<lambda>r'.
               Inr (\<lparr>mr_event = Ev_filemark, mr_record = [], mr_file_num = sr_file_num r, mr_source_name = name\<rparr>, r'))
           else if length hdr \<noteq> fixed_header_size then Inl (Truncated_header name)
           else bind_res (record_size hdr (sr_block_size r)) (\<lambda>size.
             bind_res (read_stream fd (unat size - fixed_header_size)) (\<lambda>(rest, fd).
               if length rest \<noteq> unat size - fixed_header_size then Inl (Truncated_record name)
               else let rec = hdr @ rest;
                        r' = r\<lparr>sr_fd := Some fd, sr_block_size := size\<rparr>;
                        res = \<lparr>mr_event = Ev_record, mr_record = rec, mr_file_num = sr_file_num r, mr_source_name = name\<rparr>
               in case intact_header H rec of
                    None \<Rightarrow> Inr (res, r')
                  | Some h \<Rightarrow>
                      if \<not> name_agrees name h then Inl (Name_disagrees name)
                      else Inr (res, if channel_type h = ARCHIVE_END then r'\<lparr>sr_block_size := 0\<rparr> else r')))))"

text \<open>A number of calls of \<open>next()\<close>: what they return.\<close>

fun spool_calls :: "(bytes \<Rightarrow> bytes) \<Rightarrow> nat \<Rightarrow> spool_reader \<Rightarrow> media_error + media_record list" where
  "spool_calls H 0 r = Inr []"
| "spool_calls H (Suc n) r = bind_res (spool_next H r) (\<lambda>(m, r). bind_res (spool_calls H n r) (\<lambda>ms. Inr (m # ms)))"

section \<open>Reading a tape\<close>

record tape_status =
  ts_eod :: bool
  ts_fileno :: int
  ts_blkno :: int

datatype tape_read = Tape_bytes bytes | Tape_interrupted | Tape_io_error | Tape_other_error

text \<open>
  The drive: \<open>MTIOCGET\<close>, \<open>read\<close> with the size of the buffer, and spacing over one file
  or one record, with the result of each call.
\<close>

record 'd tape_drive =
  dr_status :: "'d \<Rightarrow> tape_status option \<times> 'd"
  dr_read :: "'d \<Rightarrow> nat \<Rightarrow> tape_read \<times> 'd"
  dr_space_file :: "'d \<Rightarrow> bool \<times> 'd"
  dr_space_record :: "'d \<Rightarrow> bool \<times> 'd"

record 'd tape_reader =
  tr_drive :: 'd
  tr_file_num :: u64
  tr_ended :: bool
  tr_read_size :: nat

definition max_tape_record :: nat where "max_tape_record = unat max_block_size"

definition new_tape_reader :: "'d \<Rightarrow> 'd tape_reader" where
  "new_tape_reader d = \<lparr>tr_drive = d, tr_file_num = 0, tr_ended = False, tr_read_size = max_tape_record\<rparr>"

text \<open>The read size after a record: that of the archive once it is known.\<close>

definition next_read_size :: "(bytes \<Rightarrow> bytes) \<Rightarrow> bytes \<Rightarrow> nat \<Rightarrow> nat" where
  "next_read_size H rec cur =
    (if cur = max_tape_record \<or> (length rec \<ge> fixed_header_size \<and> rec ! 9 = 255) then
       (case intact_header H rec of
          None \<Rightarrow> cur
        | Some h \<Rightarrow> if channel_type h = ARCHIVE_END then max_tape_record else unat (decoded_block_size h))
     else cur)"

text \<open>The \<open>read\<close> loop over interruptions; the first argument is fuel.\<close>

fun tape_read_retry :: "nat \<Rightarrow> 'd tape_drive \<Rightarrow> nat \<Rightarrow> 'd \<Rightarrow> (tape_read \<times> 'd) option" where
  "tape_read_retry 0 drv n d = None"
| "tape_read_retry (Suc k) drv n d =
    (case dr_read drv d n of (Tape_interrupted, d) \<Rightarrow> tape_read_retry k drv n d | r \<Rightarrow> Some r)"

datatype position_check = Pos_unknown | Pos_same | Pos_moved

definition check_position :: "tape_status \<Rightarrow> tape_status \<Rightarrow> position_check" where
  "check_position before now =
    (if ts_fileno before < 0 \<or> ts_blkno before < 0 \<or> ts_fileno now \<noteq> ts_fileno before \<or> ts_blkno now < ts_blkno before
     then Pos_unknown
     else if ts_blkno now = ts_blkno before then Pos_same else Pos_moved)"

definition advanced :: "tape_status \<Rightarrow> tape_status \<Rightarrow> bool" where
  "advanced before after \<longleftrightarrow> ts_fileno after = ts_fileno before \<and> ts_blkno after > ts_blkno before"

text \<open>After an unreadable record: the drive past it, or the exception.\<close>

definition skip_unreadable :: "'d tape_drive \<Rightarrow> tape_status \<Rightarrow> tape_status \<Rightarrow> 'd \<Rightarrow> media_error + 'd" where
  "skip_unreadable drv before status d =
    (case check_position before status of
       Pos_unknown \<Rightarrow> Inl Tape_position_unknown
     | Pos_moved \<Rightarrow> Inr d
     | Pos_same \<Rightarrow>
         (case dr_space_record drv d of
            (False, d) \<Rightarrow> Inl Tape_space_failed
          | (True, d) \<Rightarrow>
              (case dr_status drv d of
                 (None, d) \<Rightarrow> Inl Tape_status_failed
               | (Some after, d) \<Rightarrow> if advanced before after then Inr d else Inl Tape_cannot_advance)))"

fun tape_next :: "nat \<Rightarrow> (bytes \<Rightarrow> bytes) \<Rightarrow> string \<Rightarrow> 'd tape_drive \<Rightarrow> 'd tape_reader \<Rightarrow>
    (media_error + media_record \<times> 'd tape_reader) option" where
  "tape_next 0 H name drv r = None"
| "tape_next (Suc k) H name drv r =
    (if tr_ended r then Some (Inr (end_record, r))
     else case dr_status drv (tr_drive r) of
       (None, d) \<Rightarrow> Some (Inl Tape_status_failed)
     | (Some before, d) \<Rightarrow>
         (case tape_read_retry (Suc k) drv (tr_read_size r) d of
            None \<Rightarrow> None
          | Some (res, d) \<Rightarrow>
              (case res of
                 Tape_other_error \<Rightarrow> Some (Inl Tape_read_failed)
               | Tape_bytes (b # bs) \<Rightarrow>
                   Some (Inr (\<lparr>mr_event = Ev_record, mr_record = b # bs, mr_file_num = tr_file_num r, mr_source_name = name\<rparr>,
                              r\<lparr>tr_drive := d, tr_read_size := next_read_size H (b # bs) (tr_read_size r)\<rparr>))
               | _ \<Rightarrow>
                   (case dr_status drv d of
                      (None, d) \<Rightarrow> Some (Inl Tape_status_failed)
                    | (Some status, d) \<Rightarrow>
                        if ts_eod status then Some (Inr (end_record, r\<lparr>tr_drive := d, tr_ended := True\<rparr>))
                        else if res = Tape_bytes [] then
                          Some (Inr (\<lparr>mr_event = Ev_filemark, mr_record = [], mr_file_num = tr_file_num r, mr_source_name = name\<rparr>,
                                     r\<lparr>tr_drive := d, tr_file_num := tr_file_num r + 1\<rparr>))
                        else case skip_unreadable drv before status d of
                          Inl e \<Rightarrow> Some (Inl e)
                        | Inr d \<Rightarrow> tape_next k H name drv (r\<lparr>tr_drive := d\<rparr>)))))"

text \<open>Skipping a file of the tape: an error is the end when the drive says so.\<close>

definition tape_skip_file :: "'d tape_drive \<Rightarrow> 'd tape_reader \<Rightarrow> media_error + 'd tape_reader" where
  "tape_skip_file drv r =
    (if tr_ended r then Inr r
     else case dr_space_file drv (tr_drive r) of
       (True, d) \<Rightarrow> Inr (r\<lparr>tr_drive := d, tr_file_num := tr_file_num r + 1\<rparr>)
     | (False, d) \<Rightarrow>
         (case dr_status drv d of
            (None, d) \<Rightarrow> Inl Tape_status_failed
          | (Some status, d) \<Rightarrow> if ts_eod status then Inr (r\<lparr>tr_drive := d, tr_ended := True\<rparr>) else Inl Tape_space_failed))"

end
