(* ===== verification/Spool.thy ===== *)
theory Spool
  imports Media
begin

text \<open>
  \<open>SpoolTapeDevice\<close> of src/neotape_tape.cpp: a directory that stands for a tape, one file per
  tape file.  The file being written has a temporary name until its filemark.

  The directory is a map from the names of its regular files to their contents.  The results
  of system calls are scripts: \<open>sd_writes\<close> for \<open>write\<close> (exhausted: everything is
  written), \<open>sd_faults\<close> for \<open>open\<close>, \<open>fsync\<close>, \<open>close\<close> and
  \<open>rename\<close> in the order they are made (true: the call fails; exhausted: it succeeds).
  An operation returns the exception, if any, and the device.
\<close>

section \<open>Names\<close>

text \<open>\<open>{:06}\<close>\<close>

definition pad6 :: "nat \<Rightarrow> string" where
  "pad6 n = replicate (6 - length (decimal n)) (CHR ''0'') @ decimal n"

definition spool_suffix_for_header :: "frame_header \<Rightarrow> string" where
  "spool_suffix_for_header h =
    (case channel_type h of ARCHIVE_END \<Rightarrow> ''archive-end'' | _ \<Rightarrow> ''slice-'' @ pad6 (unat (slice_seq_num h)))"

definition spool_final_name :: "u64 \<Rightarrow> frame_header \<Rightarrow> string" where
  "spool_final_name num h = spool_prefix @ pad6 (unat num) @ ''.'' @ spool_suffix_for_header h @ spool_ext"

definition spool_temp_name :: "u64 \<Rightarrow> string" where
  "spool_temp_name num = spool_prefix @ pad6 (unat num) @ ''.pending''"

section \<open>State\<close>

datatype spool_error =
    Not_writable | Bad_descriptor | Not_supported | Spool_write_failed | Fsync_failed | Close_failed
  | Spool_cannot_open | Rename_failed | Short_header | Unreadable_header format_error | Spool_scan media_error

record spool_device =
  sd_dir :: "string \<Rightarrow> bytes option"
  sd_read_write :: bool
  sd_fd :: "nat option"
  sd_files :: "string list"
  sd_next_file_num :: u64
  sd_current_file_num :: u64
  sd_current_record :: u64
  sd_current_block_size :: u32
  sd_current_is_temp :: bool
  sd_current_path :: string
  sd_writes :: "write_result list"
  sd_faults :: "bool list"

text \<open>The descriptor is its offset in the file \<open>sd_current_path\<close>; the empty path is no file.\<close>

definition syscall :: "spool_device \<Rightarrow> bool \<times> spool_device" where
  "syscall d = (case sd_faults d of [] \<Rightarrow> (True, d) | b # bs \<Rightarrow> (\<not> b, d\<lparr>sd_faults := bs\<rparr>))"

definition current_content :: "spool_device \<Rightarrow> bytes" where
  "current_content d = (case sd_dir d (sd_current_path d) of None \<Rightarrow> [] | Some c \<Rightarrow> c)"

text \<open>\<open>open_fd\<close> with \<open>O_CREAT | O_TRUNC\<close> on the temporary name of the current number.\<close>

definition open_temp :: "spool_device \<Rightarrow> spool_error option \<times> spool_device" where
  "open_temp d =
    (let d = d\<lparr>sd_current_path := spool_temp_name (sd_current_file_num d)\<rparr>
     in case syscall d of
       (False, d) \<Rightarrow> (Some Spool_cannot_open, d)
     | (True, d) \<Rightarrow> (None, d\<lparr>sd_dir := (sd_dir d)(sd_current_path d := Some []), sd_fd := Some 0, sd_current_is_temp := True\<rparr>))"

definition open_read :: "spool_device \<Rightarrow> spool_error option \<times> spool_device" where
  "open_read d = (case syscall d of (False, d) \<Rightarrow> (Some Spool_cannot_open, d) | (True, d) \<Rightarrow> (None, d\<lparr>sd_fd := Some 0\<rparr>))"

fun next_number :: "u64 \<Rightarrow> string list \<Rightarrow> u64" where
  "next_number n [] = n"
| "next_number n (f # fs) =
    next_number (case parse_spool_file_name f of Inr (Some k) \<Rightarrow> if k \<ge> n then k + 1 else n | _ \<Rightarrow> n) fs"

text \<open>The constructor, on the entries of the directory and their contents.\<close>

definition new_spool_device :: "spool_entry list \<Rightarrow> (string \<Rightarrow> bytes option) \<Rightarrow> bool \<Rightarrow> write_result list \<Rightarrow> bool list \<Rightarrow>
    spool_error option \<times> spool_device" where
  "new_spool_device entries dir rw writes faults =
    (let d = \<lparr>sd_dir = dir, sd_read_write = rw, sd_fd = None, sd_files = [], sd_next_file_num = 0, sd_current_file_num = 0,
       sd_current_record = 0, sd_current_block_size = 0, sd_current_is_temp = False, sd_current_path = [],
       sd_writes = writes, sd_faults = faults\<rparr>
     in case scan_spool_files (Some entries) of
       Inl e \<Rightarrow> (Some (Spool_scan e), d)
     | Inr es \<Rightarrow>
         let files = map se_name es;
             d = d\<lparr>sd_files := files, sd_next_file_num := next_number 0 files\<rparr>
         in if rw then open_temp (d\<lparr>sd_current_file_num := sd_next_file_num d\<rparr>)
            else if files = [] then (None, d)
            else open_read (d\<lparr>sd_current_file_num := spool_number (hd files), sd_current_path := hd files\<rparr>))"

section \<open>Writing a record\<close>

definition write_at :: "bytes \<Rightarrow> nat \<Rightarrow> bytes \<Rightarrow> bytes" where
  "write_at c pos data = take pos c @ data @ drop (pos + length data) c"

text \<open>The bytes that the loop of \<open>write\<close> calls gets into the file, and whether it ends without an error.\<close>

fun write_loop :: "write_result list \<Rightarrow> bytes \<Rightarrow> bytes \<times> bool \<times> write_result list" where
  "write_loop ws [] = ([], True, ws)"
| "write_loop [] (b # bs) = (b # bs, True, [])"
| "write_loop (w # ws) (b # bs) =
    (case w of
       Write_interrupted \<Rightarrow> write_loop ws (b # bs)
     | Write_error \<Rightarrow> ([], False, ws)
     | Wrote k \<Rightarrow>
         if k = 0 then ([], False, ws)
         else case write_loop ws (drop k (b # bs)) of (out, ok, ws) \<Rightarrow> (take k (b # bs) @ out, ok, ws))"

definition spool_write_record :: "bytes \<Rightarrow> spool_device \<Rightarrow> spool_error option \<times> spool_device" where
  "spool_write_record rec d =
    (if \<not> sd_read_write d then (Some Not_writable, d)
     else case sd_fd d of
       None \<Rightarrow> (Some Bad_descriptor, d)
     | Some pos \<Rightarrow>
         (case write_loop (sd_writes d) rec of
            (out, ok, ws) \<Rightarrow>
              let d = d\<lparr>sd_dir := (sd_dir d)(sd_current_path d := Some (write_at (current_content d) pos out)),
                        sd_fd := Some (pos + length out), sd_writes := ws\<rparr>
              in if ok then (None, d\<lparr>sd_current_record := sd_current_record d + 1\<rparr>) else (Some Spool_write_failed, d)))"

section \<open>Ending a file\<close>

definition finalize_current_file :: "spool_device \<Rightarrow> spool_error option \<times> spool_device" where
  "finalize_current_file d =
    (if \<not> sd_current_is_temp d \<or> sd_current_path d = [] then (None, d)
     else if length (current_content d) < fixed_header_size then (Some Short_header, d)
     else case parse_fixed_header (take fixed_header_size (current_content d)) of
       Inl e \<Rightarrow> (Some (Unreadable_header e), d)
     | Inr h \<Rightarrow>
         (case syscall (d\<lparr>sd_current_block_size := decoded_block_size h\<rparr>) of
            (False, d) \<Rightarrow> (Some Rename_failed, d)
          | (True, d) \<Rightarrow>
              (None, d\<lparr>sd_dir := (sd_dir d)(sd_current_path d := None,
                                            spool_final_name (sd_current_file_num d) h := Some (current_content d)),
                       sd_current_is_temp := False, sd_current_path := []\<rparr>)))"

definition spool_filemark :: "spool_device \<Rightarrow> spool_error option \<times> spool_device" where
  "spool_filemark d =
    (if \<not> sd_read_write d then (Some Not_supported, d)
     else if sd_fd d = None then (Some Bad_descriptor, d)
     else case syscall d of
       (False, d) \<Rightarrow> (Some Fsync_failed, d)
     | (True, d) \<Rightarrow>
         (case syscall d of
            (False, d) \<Rightarrow> (Some Close_failed, d)
          | (True, d) \<Rightarrow>
              (case finalize_current_file (d\<lparr>sd_fd := None\<rparr>) of
                 (Some e, d) \<Rightarrow> (Some e, d)
               | (None, d) \<Rightarrow>
                   (case open_temp (d\<lparr>sd_next_file_num := sd_next_file_num d + 1,
                                      sd_current_file_num := sd_next_file_num d + 1\<rparr>) of
                      (Some e, d) \<Rightarrow> (Some e, d)
                    | (None, d) \<Rightarrow> (None, d\<lparr>sd_current_block_size := 0, sd_current_record := 0\<rparr>)))))"

text \<open>The destructor; errors are swallowed.\<close>

definition remove_current :: "spool_device \<Rightarrow> spool_device" where
  "remove_current d = d\<lparr>sd_dir := (sd_dir d)(sd_current_path d := None)\<rparr>"

definition destroy_spool :: "spool_device \<Rightarrow> spool_device" where
  "destroy_spool d =
    (let d = d\<lparr>sd_fd := None\<rparr>
     in if sd_read_write d \<and> sd_current_is_temp d \<and> sd_current_record d > 0 then
          (case finalize_current_file d of (None, d) \<Rightarrow> d | (Some _, d) \<Rightarrow> remove_current d)
        else if sd_read_write d \<and> sd_current_is_temp d \<and> sd_current_path d \<noteq> [] then remove_current d
        else d)"

section \<open>Positioning\<close>

datatype mtop = MTWEOF | MTFSF | MTFSFM | MTREW | MTEOM | MTBSF | MTBSFM | MTFSR | MTBSR | MT_other

text \<open>The names that a rewind for writing removes: a weaker test than \<open>spool_name\<close>.\<close>

definition erased_name :: "string \<Rightarrow> bool" where
  "erased_name n \<longleftrightarrow> length n > length spool_prefix + length spool_ext \<and> starts_with n spool_prefix \<and> ends_with n spool_ext"

definition spool_erase :: "spool_device \<Rightarrow> spool_error option \<times> spool_device" where
  "spool_erase d =
    (let d = d\<lparr>sd_fd := None\<rparr>;
         d = (if sd_current_path d \<noteq> [] then (remove_current d)\<lparr>sd_current_path := []\<rparr> else d)
     in open_temp (d\<lparr>sd_current_is_temp := False, sd_dir := (\<lambda>n. if erased_name n then None else sd_dir d n),
          sd_next_file_num := 0, sd_current_file_num := 0, sd_current_record := 0, sd_current_block_size := 0, sd_files := []\<rparr>))"

definition spool_forward_file :: "spool_device \<Rightarrow> spool_error option \<times> spool_device" where
  "spool_forward_file d =
    (if sd_read_write d then (Some Not_supported, d)
     else let d = d\<lparr>sd_fd := None\<rparr>;
              before = takeWhile (\<lambda>f. f \<noteq> sd_current_path d) (sd_files d);
              index = (if sd_current_path d \<in> set (sd_files d) then length before + 1 else 0)
          in if index \<ge> length (sd_files d) then (None, d\<lparr>sd_current_path := []\<rparr>)
             else case open_read (d\<lparr>sd_current_path := sd_files d ! index, sd_current_file_num := spool_number (sd_files d ! index)\<rparr>) of
               (Some e, d) \<Rightarrow> (Some e, d)
             | (None, d) \<Rightarrow> (None, d\<lparr>sd_current_record := 0, sd_current_block_size := 0\<rparr>))"

definition do_mtop :: "mtop \<Rightarrow> int \<Rightarrow> spool_device \<Rightarrow> spool_error option \<times> spool_device" where
  "do_mtop op n d =
    (if n \<le> 0 then (None, d)
     else case op of
       MTWEOF \<Rightarrow> if sd_read_write d \<and> n \<noteq> 1 then (Some Not_supported, d) else spool_filemark d
     | MTFSF \<Rightarrow> spool_forward_file d
     | MTFSFM \<Rightarrow> spool_forward_file d
     | MTREW \<Rightarrow>
         if sd_read_write d then spool_erase d
         else if sd_fd d = None then (Some Bad_descriptor, d)
         else (None, d\<lparr>sd_fd := Some 0, sd_current_record := 0\<rparr>)
     | MTEOM \<Rightarrow>
         if sd_fd d = None then (Some Bad_descriptor, d)
         else (None, d\<lparr>sd_fd := Some (length (current_content d))\<rparr>)
     | _ \<Rightarrow> (Some Not_supported, d))"

section \<open>Status\<close>

record spool_status =
  ps_bot :: bool
  ps_eod :: bool
  ps_block_size :: u32
  ps_fileno :: u64
  ps_blkno :: u64

definition do_status :: "spool_device \<Rightarrow> spool_status" where
  "do_status d =
    (let writing = sd_read_write d \<and> sd_current_is_temp d \<and> sd_fd d \<noteq> None
     in \<lparr>ps_bot = (writing \<and> current_content d = []), ps_eod = (writing \<and> sd_files d = []),
         ps_block_size = sd_current_block_size d, ps_fileno = sd_current_file_num d, ps_blkno = sd_current_record d\<rparr>)"

definition do_tell :: "spool_device \<Rightarrow> spool_error + nat" where
  "do_tell d = (case sd_fd d of None \<Rightarrow> Inl Bad_descriptor | Some pos \<Rightarrow> Inr pos)"

end
