(* ===== verification/SpoolSpec.thy ===== *)
theory SpoolSpec
  imports Spool
begin

text \<open>
  What is written to a spool is read back: the records and filemarks that a
  \<open>SpoolTapeDevice\<close> has written are those that the record reader returns.
\<close>

section \<open>Headers\<close>

lemma parse_header_take:
  assumes "fixed_header_size \<le> length data"
  shows "parse_fixed_header (take fixed_header_size data) = parse_fixed_header data"
proof -
  let ?t = "take fixed_header_size data"
  have len: "512 \<le> length data" "length ?t = 512" using assms by (simp_all add: fixed_header_size_def)
  have u: "get_u16 ?t off_volume_block_size_kib = get_u16 data off_volume_block_size_kib"
    "get_u64 ?t off_volume_seq_num = get_u64 data off_volume_seq_num"
    "get_u64 ?t off_global_frame_seq_num = get_u64 data off_global_frame_seq_num"
    "get_u64 ?t off_slice_seq_num = get_u64 data off_slice_seq_num"
    "get_u64 ?t off_channel_frame_seq_num = get_u64 data off_channel_frame_seq_num"
    "get_u32 ?t off_frame_payload_size = get_u32 data off_frame_payload_size"
    "get_u64 ?t off_flags = get_u64 data off_flags"
    using len by (simp_all add: get_u16_field get_u32_field get_u64_field field_take format_consts)
  have s: "get_fixed_string ?t off_archive_uuid nt_uuid_size = get_fixed_string data off_archive_uuid nt_uuid_size"
    "get_fixed_string ?t off_archive_label archive_label_size = get_fixed_string data off_archive_label archive_label_size"
    using len by (simp_all add: get_fixed_string_def field_take format_consts)
  have "header_of_image ?t ch a b = header_of_image data ch a b" for ch a b
    unfolding header_of_image_def u by (simp add: field_take format_consts)
  moreover have "validate_reserved ?t = validate_reserved data" using len by (simp add: validate_reserved_def format_consts)
  moreover have "has_frame_magic ?t = has_frame_magic data" using len by (simp add: has_frame_magic_def field_take format_consts)
  moreover have "?t ! off_header_version = data ! off_header_version" "?t ! off_channel_type = data ! off_channel_type"
    by (simp_all add: fixed_header_size_def format_consts)
  ultimately show ?thesis using len unfolding parse_fixed_header_def s by (simp add: fixed_header_size_def)
qed

section \<open>Names\<close>

lemma zeros_digits: "list_all is_digit (replicate z (CHR ''0''))" "digits_value (replicate z (CHR ''0'') @ ds) = digits_value ds"
proof -
  show "list_all is_digit (replicate z (CHR ''0''))" by (simp add: list_all_iff is_digit_def)
  show "digits_value (replicate z (CHR ''0'') @ ds) = digits_value ds"
  proof (induction ds rule: rev_induct)
    case Nil
    show ?case
    proof (induction z)
      case (Suc z)
      have "replicate (Suc z) (CHR ''0'') = replicate z (CHR ''0'') @ [CHR ''0'']" by (simp add: replicate_append_same)
      with Suc show ?case by (simp add: digit_value_def del: replicate_Suc)
    qed simp
  next
    case (snoc d ds)
    then show ?case by (simp flip: append_assoc)
  qed
qed

lemma pad6_digits: "list_all is_digit (pad6 n)" "digits_value (pad6 n) = n" "pad6 n \<noteq> []"
  using zeros_digits decimal_simps by (simp_all add: pad6_def)

lemma take_number_pad6:
  assumes "rest = [] \<or> \<not> is_digit (hd rest)"
  shows "take_number (pad6 (unat (n :: u64)) @ rest) = Inr (Some (n, rest))"
proof -
  have "unat n < 2 ^ 64" using unsigned_less [of n] by simp
  then show ?thesis using span_digits [OF pad6_digits(1) assms] by (simp add: take_number_def Let_def pad6_digits)
qed

definition slice_of :: "frame_header \<Rightarrow> u64 option" where
  "slice_of h = (if channel_type h = ARCHIVE_END then None else Some (slice_seq_num h))"

lemma spool_name_final: "spool_name (spool_final_name num h) = Inr (Some \<lparr>sn_number = num, sn_slice = slice_of h\<rparr>)"
proof -
  let ?rest = "''.'' @ spool_suffix_for_header h"
  have n: "starts_with (spool_final_name num h) spool_prefix" "ends_with (spool_final_name num h) spool_ext"
    "take (length (spool_final_name num h) - 12) (drop 8 (spool_final_name num h)) = pad6 (unat num) @ ?rest"
    by (simp_all add: spool_final_name_def starts_with_def ends_with_def spool_prefix_def spool_ext_def)
  have t: "take_number (pad6 (unat num) @ ?rest) = Inr (Some (num, ?rest))"
    by (rule take_number_pad6) (simp add: is_digit_def)
  show ?thesis
  proof (cases "channel_type h = ARCHIVE_END")
    case True
    then show ?thesis using n t
      by (simp add: spool_name_def spool_suffix_for_header_def starts_with_def label_ok_def slice_of_def)
  next
    case False
    then have "spool_suffix_for_header h = ''slice-'' @ pad6 (unat (slice_seq_num h))"
      by (cases "channel_type h") (simp_all add: spool_suffix_for_header_def)
    then show ?thesis using n t take_number_pad6 [of "[]" "slice_seq_num h"] False
      by (simp add: spool_name_def starts_with_def label_ok_def slice_of_def)
  qed
qed

lemma spool_number_final [simp]: "parse_spool_file_name (spool_final_name num h) = Inr (Some num)"
  "spool_number (spool_final_name num h) = num"
  by (simp_all add: parse_spool_file_name_def spool_name_final spool_number_def)

lemma temp_not_spool: "parse_spool_file_name (spool_temp_name num) = Inr None"
  by (simp add: parse_spool_file_name_def spool_name_def spool_temp_name_def ends_with_def spool_ext_def spool_prefix_def)

section \<open>Volumes\<close>

text \<open>
  A tape file that the writer produces: intact frames of one block size, all of one slice or all
  archive ends.
\<close>

definition same_file :: "frame_header \<Rightarrow> frame_header \<Rightarrow> bool" where
  "same_file h h' \<longleftrightarrow> slice_of h' = slice_of h"

definition first_header :: "(bytes \<Rightarrow> bytes) \<Rightarrow> bytes list \<Rightarrow> frame_header" where
  "first_header H recs = the (intact_header H (hd recs))"

definition tape_file_ok :: "(bytes \<Rightarrow> bytes) \<Rightarrow> u32 \<Rightarrow> bytes list \<Rightarrow> bool" where
  "tape_file_ok H bs recs \<longleftrightarrow> recs \<noteq> [] \<and>
     list_all (\<lambda>rec. case intact_header H rec of None \<Rightarrow> False
       | Some h \<Rightarrow> decoded_block_size h = bs \<and> same_file (first_header H recs) h) recs"

definition file_name :: "(bytes \<Rightarrow> bytes) \<Rightarrow> nat \<Rightarrow> bytes list \<Rightarrow> string" where
  "file_name H k recs = spool_final_name (word_of_nat k) (first_header H recs)"

text \<open>The session's calls: the records of each file and its filemark, until one fails.\<close>

definition then_do :: "spool_error option \<times> spool_device \<Rightarrow> (spool_device \<Rightarrow> spool_error option \<times> spool_device) \<Rightarrow>
    spool_error option \<times> spool_device" where
  "then_do r f = (case r of (None, d) \<Rightarrow> f d | (Some e, d) \<Rightarrow> (Some e, d))"

fun write_records :: "bytes list \<Rightarrow> spool_device \<Rightarrow> spool_error option \<times> spool_device" where
  "write_records [] d = (None, d)"
| "write_records (r # rs) d = then_do (spool_write_record r d) (write_records rs)"

fun write_files :: "bytes list list \<Rightarrow> spool_device \<Rightarrow> spool_error option \<times> spool_device" where
  "write_files [] d = (None, d)"
| "write_files (f # fs) d = then_do (then_do (write_records f d) spool_filemark) (write_files fs)"

lemma then_do_None: "then_do r f = (None, d') \<longleftrightarrow> (\<exists>d. r = (None, d) \<and> f d = (None, d'))"
  by (auto simp: then_do_def split: prod.splits option.splits)

lemma intact_headerD:
  assumes "intact_header H rec = Some h"
  shows "parse_fixed_header rec = Inr h" and "length rec = unat (decoded_block_size h)"
    and "parse_fixed_header (take fixed_header_size rec) = Inr h" and "fixed_header_size \<le> length rec"
proof -
  from assms obtain f where f: "check_frame H rec = Inr f" "hash_ok f" "header f = h"
    by (auto simp: intact_header_def split: sum.splits if_splits)
  from check_frame_InrD [OF f(1)] f(2,3) show p: "parse_fixed_header rec = Inr h"
    and "length rec = unat (decoded_block_size h)" by auto
  show l: "fixed_header_size \<le> length rec" using parse_InrD(1) [OF p] .
  show "parse_fixed_header (take fixed_header_size rec) = Inr h" using parse_header_take [OF l] p by simp
qed

lemma tape_file_headers:
  assumes "tape_file_ok H bs recs" and "rec \<in> set recs"
  obtains h where "intact_header H rec = Some h" and "decoded_block_size h = bs" and "slice_of h = slice_of (first_header H recs)"
  using assms by (auto simp: tape_file_ok_def list_all_iff same_file_def split: option.splits)

lemma tape_file_first:
  assumes "tape_file_ok H bs recs"
  shows "parse_fixed_header (take fixed_header_size (concat recs)) = Inr (first_header H recs)"
    and "fixed_header_size \<le> length (concat recs)"
proof -
  from assms obtain r rs where r: "recs = r # rs" by (cases recs) (auto simp: tape_file_ok_def)
  from tape_file_headers [OF assms, of r] r obtain h where h: "intact_header H r = Some h" by auto
  from intact_headerD [OF this] r show "parse_fixed_header (take fixed_header_size (concat recs)) = Inr (first_header H recs)"
    "fixed_header_size \<le> length (concat recs)" by (simp_all add: first_header_def h)
qed

section \<open>Writing\<close>

text \<open>Every file so far is under its final name; the records of the next one are in the temporary file.\<close>

definition named :: "(bytes \<Rightarrow> bytes) \<Rightarrow> bytes list list \<Rightarrow> (string \<times> bytes) list" where
  "named H files = map (\<lambda>(k, recs). (file_name H k recs, concat recs)) (enumerate 0 files)"

lemma named_snoc: "named H (files @ [recs]) = named H files @ [(file_name H (length files) recs, concat recs)]"
  by (simp add: named_def enumerate_append_eq)

lemma file_name_number: "spool_number (file_name H k recs) = word_of_nat k"
  by (simp add: file_name_def)

lemma word_of_nat_less_inj: "i < j \<Longrightarrow> j < 2 ^ 64 \<Longrightarrow> (word_of_nat i :: u64) \<noteq> word_of_nat j"
proof
  assume b: "i < j" "j < 2 ^ 64" and eq: "(word_of_nat i :: u64) = word_of_nat j"
  have "unat (word_of_nat i :: u64) = i" "unat (word_of_nat j :: u64) = j" using b by (simp_all add: unat_of_nat)
  with eq b(1) show False by simp
qed

lemma named_new: "length files \<le> k \<Longrightarrow> k < 2 ^ 64 \<Longrightarrow> file_name H k recs \<notin> fst ` set (named H files)"
proof
  assume k: "length files \<le> k" "k < 2 ^ 64" and "file_name H k recs \<in> fst ` set (named H files)"
  then obtain j rs where "j < length files" "file_name H k recs = file_name H j rs"
    by (auto simp: named_def in_set_enumerate_eq)
  from arg_cong [OF this(2), of spool_number] this(1) k word_of_nat_less_inj [of j k] show False
    by (simp add: file_name_number)
qed

definition stores :: "(bytes \<Rightarrow> bytes) \<Rightarrow> bytes list list \<Rightarrow> spool_device \<Rightarrow> bool" where
  "stores H files d \<longleftrightarrow> (\<forall>n. parse_spool_file_name n \<noteq> Inr None \<longrightarrow> sd_dir d n = map_of (named H files) n)"

definition writing :: "(bytes \<Rightarrow> bytes) \<Rightarrow> bytes list list \<Rightarrow> bytes list \<Rightarrow> spool_device \<Rightarrow> bool" where
  "writing H files cur d \<longleftrightarrow> stores H files d \<and> sd_read_write d \<and> sd_current_is_temp d \<and>
     sd_current_path d = spool_temp_name (word_of_nat (length files)) \<and>
     sd_current_file_num d = word_of_nat (length files) \<and> sd_next_file_num d = word_of_nat (length files) \<and>
     sd_dir d (sd_current_path d) = Some (concat cur) \<and> sd_fd d = Some (length (concat cur)) \<and>
     sd_current_record d = word_of_nat (length cur)"

lemma write_loop_ok: "write_loop ws bs = (out, True, ws') \<Longrightarrow> out = bs"
proof (induction ws bs arbitrary: out rule: write_loop.induct)
  case (3 w ws b bs)
  show ?case
  proof (cases w)
    case (Wrote k)
    with "3.prems" obtain out2 where o: "k \<noteq> 0" "write_loop ws (drop k (b # bs)) = (out2, True, ws')" "out = take k (b # bs) @ out2"
      by (auto split: if_splits prod.splits)
    have "out2 = drop k (b # bs)" using "3.IH" Wrote o(1,2) by blast
    with o(3) show ?thesis by (simp only: append_take_drop_id)
  qed (use 3 in auto)
qed auto

lemma writing_content: "writing H files cur d \<Longrightarrow> current_content d = concat cur"
  by (auto simp: writing_def current_content_def)

lemma write_record_writing:
  assumes "spool_write_record rec d = (None, d')" and "writing H files cur d"
  shows "writing H files (cur @ [rec]) d'"
proof -
  let ?tmp = "spool_temp_name (word_of_nat (length files))"
  obtain out ok ws where w: "write_loop (sd_writes d) rec = (out, ok, ws)" by (cases "write_loop (sd_writes d) rec") auto
  with assms have ok: "ok" by (auto simp: spool_write_record_def writing_def Let_def split: if_splits)
  then have out: "out = rec" using write_loop_ok w by simp
  note c = writing_content [OF assms(2)]
  have d': "d' = d\<lparr>sd_dir := (sd_dir d)(?tmp := Some (concat cur @ rec)),
      sd_fd := Some (length (concat cur) + length rec), sd_writes := ws, sd_current_record := sd_current_record d + 1\<rparr>"
    using assms w ok out c by (simp add: spool_write_record_def writing_def Let_def write_at_def)
  have "stores H files d'" using assms(2) temp_not_spool by (auto simp: writing_def stores_def d')
  then show ?thesis using assms(2) by (simp add: writing_def d')
qed

lemma write_records_writing:
  "write_records recs d = (None, d') \<Longrightarrow> writing H files cur d \<Longrightarrow> writing H files (cur @ recs) d'"
proof (induction recs arbitrary: d cur)
  case (Cons r rs)
  then obtain q where "spool_write_record r d = (None, q)" "write_records rs q = (None, d')" by (auto simp: then_do_None)
  from Cons.IH [OF this(2) write_record_writing [OF this(1) Cons.prems(2)]] show ?case by simp
qed simp

lemma syscall_cases: "syscall d = (b, d') \<Longrightarrow> \<exists>fs. d' = d\<lparr>sd_faults := fs\<rparr>"
  by (cases d) (auto simp: syscall_def split: list.splits)

lemma finalize_effect:
  assumes "finalize_current_file d = (None, d')" and "sd_current_is_temp d" and "sd_current_path d \<noteq> []"
    and "parse_fixed_header (take fixed_header_size (current_content d)) = Inr h"
  shows "\<exists>fs. d' = d\<lparr>sd_current_block_size := decoded_block_size h, sd_faults := fs,
    sd_dir := (sd_dir d)(sd_current_path d := None, spool_final_name (sd_current_file_num d) h := Some (current_content d)),
    sd_current_is_temp := False, sd_current_path := []\<rparr>"
proof -
  from assms obtain q where q: "syscall (d\<lparr>sd_current_block_size := decoded_block_size h\<rparr>) = (True, q)"
    "d' = q\<lparr>sd_dir := (sd_dir q)(sd_current_path q := None, spool_final_name (sd_current_file_num q) h := Some (current_content q)),
      sd_current_is_temp := False, sd_current_path := []\<rparr>"
    by (auto simp: finalize_current_file_def split: if_splits prod.splits bool.splits)
  from syscall_cases [OF q(1)] obtain fs where "q = d\<lparr>sd_current_block_size := decoded_block_size h, sd_faults := fs\<rparr>" by blast
  with q(2) show ?thesis by (intro exI [of _ fs]) (simp add: current_content_def)
qed

lemma open_temp_effect:
  assumes "open_temp d = (None, d')"
  shows "\<exists>fs. d' = d\<lparr>sd_current_path := spool_temp_name (sd_current_file_num d), sd_faults := fs,
    sd_dir := (sd_dir d)(spool_temp_name (sd_current_file_num d) := Some []), sd_fd := Some 0, sd_current_is_temp := True\<rparr>"
proof -
  from assms obtain q where q: "syscall (d\<lparr>sd_current_path := spool_temp_name (sd_current_file_num d)\<rparr>) = (True, q)"
    "d' = q\<lparr>sd_dir := (sd_dir q)(sd_current_path q := Some []), sd_fd := Some 0, sd_current_is_temp := True\<rparr>"
    by (auto simp: open_temp_def Let_def split: prod.splits bool.splits)
  from syscall_cases [OF q(1)] obtain fs where "q = d\<lparr>sd_current_path := spool_temp_name (sd_current_file_num d), sd_faults := fs\<rparr>" by blast
  with q(2) show ?thesis by (intro exI [of _ fs]) simp
qed

lemma filemark_writing:
  assumes "spool_filemark d = (None, d')" and "writing H files recs d" and "tape_file_ok H bs recs" and "length files < 2 ^ 64"
  shows "writing H (files @ [recs]) [] d'"
proof -
  let ?k = "length files" and ?h = "first_header H recs"
  let ?name = "file_name H ?k recs"
  note w = assms(2) [unfolded writing_def]
  from assms(1) w obtain d1 d2 d3 d4 where
    s: "syscall d = (True, d1)" "syscall d1 = (True, d2)" "finalize_current_file (d2\<lparr>sd_fd := None\<rparr>) = (None, d3)"
    and o: "open_temp (d3\<lparr>sd_next_file_num := sd_next_file_num d3 + 1, sd_current_file_num := sd_next_file_num d3 + 1\<rparr>) = (None, d4)"
    and d': "d' = d4\<lparr>sd_current_block_size := 0, sd_current_record := 0\<rparr>"
    by (auto simp: spool_filemark_def split: prod.splits bool.splits option.splits)
  from syscall_cases [OF s(1)] syscall_cases [OF s(2)] obtain fs where d2: "d2 = d\<lparr>sd_faults := fs\<rparr>" by auto
  have c: "current_content (d2\<lparr>sd_fd := None\<rparr>) = concat recs"
    using writing_content [OF assms(2)] by (simp add: d2 current_content_def)
  have p: "parse_fixed_header (take fixed_header_size (current_content (d2\<lparr>sd_fd := None\<rparr>))) = Inr ?h"
    unfolding c by (rule tape_file_first [OF assms(3)])
  have t: "sd_current_is_temp (d2\<lparr>sd_fd := None\<rparr>)" "sd_current_path (d2\<lparr>sd_fd := None\<rparr>) \<noteq> []"
    using w by (simp_all add: d2 spool_temp_name_def spool_prefix_def)
  from finalize_effect [OF s(3) t p] obtain fs' where d3: "d3 = d2\<lparr>sd_fd := None, sd_current_block_size := decoded_block_size ?h,
      sd_faults := fs', sd_dir := (sd_dir d)(sd_current_path d := None, spool_final_name (sd_current_file_num d) ?h := Some (concat recs)),
      sd_current_is_temp := False, sd_current_path := []\<rparr>"
    unfolding c by (auto simp: d2)
  from open_temp_effect [OF o] have d4: "sd_current_path d4 = spool_temp_name (sd_next_file_num d + 1) \<and> sd_fd d4 = Some 0 \<and>
      sd_dir d4 = (sd_dir d3)(spool_temp_name (sd_next_file_num d + 1) := Some []) \<and> sd_current_is_temp d4 \<and>
      sd_read_write d4 = sd_read_write d \<and> sd_next_file_num d4 = sd_next_file_num d + 1 \<and> sd_current_file_num d4 = sd_next_file_num d + 1"
    by (auto simp: d3 d2)
  have dir: "sd_dir d' = (sd_dir d)(sd_current_path d := None, ?name := Some (concat recs),
      spool_temp_name (sd_next_file_num d + 1) := Some [])"
    using d4 w by (simp add: d' d3 file_name_def)
  have "stores H (files @ [recs]) d'"
    unfolding stores_def
  proof (intro allI impI)
    fix n assume n: "parse_spool_file_name n \<noteq> Inr None"
    have "map_of (named H files) ?name = None" using named_new [of files ?k H recs] assms(4) by (simp add: map_of_eq_None_iff)
    moreover have "n \<noteq> sd_current_path d" "n \<noteq> spool_temp_name (sd_next_file_num d + 1)" using n w temp_not_spool by auto
    moreover have "sd_dir d n = map_of (named H files) n" using w n by (simp add: stores_def)
    ultimately show "sd_dir d' n = map_of (named H (files @ [recs])) n"
      by (simp add: dir named_snoc map_add_def split: option.split)
  qed
  moreover have "sd_next_file_num d + 1 = word_of_nat (Suc ?k)" using w by simp
  ultimately show ?thesis using w d4 dir by (simp add: writing_def d' add.commute)
qed

lemma write_files_writing:
  "write_files fs d = (None, d') \<Longrightarrow> writing H files [] d \<Longrightarrow> list_all (tape_file_ok H bs) fs \<Longrightarrow>
   length files + length fs \<le> 2 ^ 64 \<Longrightarrow> writing H (files @ fs) [] d'"
proof (induction fs arbitrary: d files)
  case (Cons f fs)
  then obtain p q where s: "write_records f d = (None, p)" "spool_filemark p = (None, q)" "write_files fs q = (None, d')"
    by (auto simp: then_do_None)
  have "writing H (files @ [f]) [] q"
    using filemark_writing [OF s(2) write_records_writing [OF s(1) Cons.prems(2), simplified]] Cons.prems(3,4) by auto
  from Cons.IH [OF s(3) this] Cons.prems(3,4) show ?case by simp
qed simp

text \<open>The directory once the device is gone.\<close>

lemma destroyed:
  assumes "writing H files [] d"
  shows "stores H files (destroy_spool d)"
proof -
  have "destroy_spool d = remove_current (d\<lparr>sd_fd := None\<rparr>)"
    using assms by (auto simp: destroy_spool_def writing_def Let_def spool_temp_name_def spool_prefix_def)
  moreover have "n \<noteq> sd_current_path d" if "parse_spool_file_name n \<noteq> Inr None" for n
    using that assms temp_not_spool by (auto simp: writing_def)
  ultimately show ?thesis using assms by (simp add: stores_def remove_current_def writing_def)
qed

section \<open>Scanning\<close>

text \<open>The entries of a directory, in any order, with reads that deliver the contents in any pieces.\<close>

definition delivers :: "read_result list \<Rightarrow> bytes \<Rightarrow> bool" where
  "delivers fd bs \<longleftrightarrow> Read_error \<notin> set fd \<and> stream_bytes fd = bs"

definition listing :: "spool_entry list \<Rightarrow> (string \<Rightarrow> bytes option) \<Rightarrow> bool" where
  "listing es dir \<longleftrightarrow> distinct (map se_name es) \<and>
     (\<forall>n. dir n \<noteq> None \<longleftrightarrow> (\<exists>e \<in> set es. se_regular e \<and> se_name e = n)) \<and>
     (\<forall>e \<in> set es. se_regular e \<longrightarrow> (\<exists>fd c. se_reads e = Some fd \<and> dir (se_name e) = Some c \<and> delivers fd c))"

lemma candidates_filter:
  "(\<forall>e \<in> set es. se_regular e \<longrightarrow> (\<exists>x. parse_spool_file_name (se_name e) = Inr x)) \<Longrightarrow>
   spool_candidates es = Inr (filter (\<lambda>e. se_regular e \<and> parse_spool_file_name (se_name e) \<noteq> Inr None) es)"
  by (induction es) auto

lemma no_duplicates: "distinct (map (\<lambda>e. spool_number (se_name e)) es) \<Longrightarrow> check_duplicates es = Inr ()"
  by (induction es rule: check_duplicates.induct) auto

definition volume_names :: "(bytes \<Rightarrow> bytes) \<Rightarrow> bytes list list \<Rightarrow> string list" where
  "volume_names H files = map (\<lambda>(k, recs). file_name H k recs) (enumerate 0 files)"

definition name_key :: "string \<Rightarrow> u64 \<times> string" where
  "name_key n = (spool_number n, n)"

lemma volume_numbers: "map spool_number (volume_names H files) = map word_of_nat [0..<length files]"
  by (rule nth_equalityI) (simp_all add: volume_names_def nth_enumerate_eq file_name_number)

lemma word_of_nat_mono: "i < j \<Longrightarrow> j < 2 ^ 64 \<Longrightarrow> (word_of_nat i :: u64) < word_of_nat j"
  by (simp add: word_less_nat_alt unat_of_nat)

lemma names_sorted:
  assumes "length files \<le> 2 ^ 64"
  shows "sorted (map name_key (volume_names H files))" and "distinct (map spool_number (volume_names H files))"
proof -
  have len: "length (volume_names H files) = length files" by (simp add: volume_names_def)
  have n: "spool_number (volume_names H files ! i) = word_of_nat i" if "i < length files" for i
    using arg_cong [OF volume_numbers, of "\<lambda>l. l ! i" H files] that len by simp
  show "sorted (map name_key (volume_names H files))"
    unfolding sorted_iff_nth_mono_less
  proof (intro allI impI)
    fix i j assume "i < j" "j < length (map name_key (volume_names H files))"
    then show "map name_key (volume_names H files) ! i \<le> map name_key (volume_names H files) ! j"
      using word_of_nat_mono [of i j] assms len n by (simp add: name_key_def less_eq_prod_def)
  qed
  show "distinct (map spool_number (volume_names H files))"
    unfolding volume_numbers distinct_map
  proof (intro conjI inj_onI)
    fix i j assume ij: "i \<in> set [0..<length files]" "j \<in> set [0..<length files]" "(word_of_nat i :: u64) = word_of_nat j"
    then have "i < 2 ^ 64" "j < 2 ^ 64" using assms by simp_all
    then show "i = j" using ij(3) word_of_nat_less_inj [of i j] word_of_nat_less_inj [of j i] by (metis linorder_neqE_nat)
  qed simp
qed

lemma scan_volume:
  assumes "listing es dir" and "\<forall>n. parse_spool_file_name n \<noteq> Inr None \<longrightarrow> dir n = map_of (named H files) n"
    and "length files \<le> 2 ^ 64"
  obtains fs where "scan_spool_files (Some es) = Inr fs" and "map se_name fs = volume_names H files" and "set fs \<subseteq> set es"
    and "\<forall>e \<in> set fs. se_regular e"
proof -
  let ?c = "filter (\<lambda>e. se_regular e \<and> parse_spool_file_name (se_name e) \<noteq> Inr None) es"
  let ?fs = "sort_key (\<lambda>e. (spool_number (se_name e), se_name e)) ?c"
  have names: "set (volume_names H files) = fst ` set (named H files)"
    unfolding set_map [symmetric] by (simp add: volume_names_def named_def o_def case_prod_beta)
  have parsed: "\<exists>x. parse_spool_file_name n = Inr (Some x)" if "n \<in> set (volume_names H files)" for n
    using that by (auto simp: volume_names_def file_name_def)
  have D: "distinct (map se_name es)" "\<And>n. dir n \<noteq> None \<longleftrightarrow> (\<exists>e \<in> set es. se_regular e \<and> se_name e = n)"
    using assms(1) by (auto simp: listing_def)
  have named_dir: "dir n \<noteq> None \<longleftrightarrow> n \<in> set (volume_names H files)" if "parse_spool_file_name n \<noteq> Inr None" for n
    using assms(2) that by (simp add: names map_of_eq_None_iff)
  have "\<exists>x. parse_spool_file_name (se_name e) = Inr x" if "e \<in> set es" "se_regular e" for e
  proof (cases "parse_spool_file_name (se_name e) = Inr None")
    case False
    with named_dir D(2) that parsed show ?thesis by blast
  qed simp
  then have cand: "spool_candidates es = Inr ?c" by (intro candidates_filter) blast
  have set: "set (map se_name ?fs) = set (volume_names H files)"
  proof
    show "set (map se_name ?fs) \<subseteq> set (volume_names H files)" using named_dir D(2) by auto
    show "set (volume_names H files) \<subseteq> set (map se_name ?fs)"
    proof
      fix n assume n: "n \<in> set (volume_names H files)"
      with parsed have "parse_spool_file_name n \<noteq> Inr None" by fastforce
      with named_dir n D(2) show "n \<in> set (map se_name ?fs)" by auto
    qed
  qed
  have key: "sorted (map name_key (map se_name ?fs))"
    using sorted_sort_key [of "\<lambda>e. (spool_number (se_name e), se_name e)" ?c] by (simp add: name_key_def o_def)
  have inj: "inj name_key" by (auto simp: inj_def name_key_def)
  have "distinct (map se_name ?c)" using D(1) by (simp add: distinct_map_filter)
  then have dist: "distinct (map se_name ?fs)" by (simp add: distinct_map)
  have "map name_key (map se_name ?fs) = map name_key (volume_names H files)"
  proof (rule sorted_distinct_set_unique)
    show "sorted (map name_key (volume_names H files))" using names_sorted(1) [OF assms(3)] .
    have "distinct (volume_names H files)" using names_sorted(2) [OF assms(3)] by (simp add: distinct_map)
    then show "distinct (map name_key (volume_names H files))" using inj_on_subset [OF inj subset_UNIV] by (simp add: distinct_map)
    show "distinct (map name_key (map se_name ?fs))" using dist inj_on_subset [OF inj subset_UNIV] unfolding distinct_map [of name_key] by blast
    show "set (map name_key (map se_name ?fs)) = set (map name_key (volume_names H files))" using set by (simp only: set_map)
  qed (rule key)
  then have eq: "map se_name ?fs = volume_names H files" using inj by (simp only: inj_map_eq_map)
  then have "map spool_number (map se_name ?fs) = map spool_number (volume_names H files)" by (rule arg_cong)
  then have "map (\<lambda>e. spool_number (se_name e)) ?fs = map spool_number (volume_names H files)" by (simp only: map_map o_def)
  with names_sorted(2) [OF assms(3), of H] have "check_duplicates ?fs = Inr ()" by (intro no_duplicates) simp
  then have "scan_spool_files (Some es) = Inr ?fs" using cand by (simp add: scan_spool_files_def Let_def)
  moreover have "set ?fs \<subseteq> set es" "\<forall>e \<in> set ?fs. se_regular e" unfolding set_sort by (simp_all add: filter_is_subset)
  ultimately show thesis using eq by (intro that)
qed

section \<open>Reading\<close>

lemma read_exact_delivers:
  "Read_error \<notin> set fd \<Longrightarrow> n \<le> length (stream_bytes fd) \<Longrightarrow>
   \<exists>fd'. read_exact fd n = Inr (take n (stream_bytes fd), fd') \<and> delivers fd' (drop n (stream_bytes fd))"
proof (induction fd arbitrary: n)
  case (Cons r rs)
  show ?case
  proof (cases "n = 0")
    case False
    show ?thesis
    proof (cases r)
      case (Chunk bs)
      then have bs: "bs \<noteq> []" using Cons.prems False by auto
      show ?thesis
      proof (cases "length bs \<le> n")
        case True
        then have "Read_error \<notin> set rs" "n - length bs \<le> length (stream_bytes rs)" using Cons.prems Chunk bs by simp_all
        from Cons.IH [OF this] show ?thesis using False Chunk bs True by auto
      qed (use False Chunk bs Cons.prems in \<open>simp add: delivers_def\<close>)
    qed (use Cons.IH [of n] Cons.prems False in simp_all)
  qed (use Cons.prems in \<open>simp add: delivers_def\<close>)
qed (simp add: delivers_def)

lemma read_exact_end: "delivers fd [] \<Longrightarrow> \<exists>fd'. read_exact fd n = Inr ([], fd')"
proof (induction fd)
  case (Cons r rs)
  show ?case
  proof (cases r)
    case Read_interrupted
    with Cons show ?thesis by (cases "n = 0") (auto simp: delivers_def)
  qed (use Cons.prems in \<open>auto simp: delivers_def split: if_splits\<close>)
qed simp

lemma read_stream_delivers:
  assumes "delivers fd (xs @ ys)" and "length xs = n"
  obtains fd' where "read_stream fd n = Inr (xs, fd')" and "delivers fd' ys"
  using read_exact_delivers [of fd n] assms by (auto simp: delivers_def read_stream_def)

definition record_event :: "string \<Rightarrow> nat \<Rightarrow> bytes \<Rightarrow> media_record" where
  "record_event name k rec = \<lparr>mr_event = Ev_record, mr_record = rec, mr_file_num = word_of_nat k, mr_source_name = name\<rparr>"

definition filemark_event :: "string \<Rightarrow> nat \<Rightarrow> media_record" where
  "filemark_event name k = \<lparr>mr_event = Ev_filemark, mr_record = [], mr_file_num = word_of_nat k, mr_source_name = name\<rparr>"

text \<open>What reading a volume returns, from file number k on.\<close>

fun volume_events :: "(bytes \<Rightarrow> bytes) \<Rightarrow> nat \<Rightarrow> bytes list list \<Rightarrow> media_record list" where
  "volume_events H k [] = []"
| "volume_events H k (recs # files) =
    map (record_event (file_name H k recs) k) recs @ filemark_event (file_name H k recs) k # volume_events H (Suc k) files"

definition entry_holds :: "(bytes \<Rightarrow> bytes) \<Rightarrow> nat \<Rightarrow> bytes list \<Rightarrow> spool_entry \<Rightarrow> bool" where
  "entry_holds H k recs e \<longleftrightarrow> se_name e = file_name H k recs \<and> (\<exists>fd. se_reads e = Some fd \<and> delivers fd (concat recs))"

text \<open>The reader in file k, with the bytes \<open>bs\<close> of it to come.\<close>

definition reading :: "u32 \<Rightarrow> nat \<Rightarrow> string \<Rightarrow> bytes \<Rightarrow> spool_reader \<Rightarrow> bool" where
  "reading block k name bs r \<longleftrightarrow> \<not> sr_ended r \<and> sr_index r = k \<and> k < length (sr_files r) \<and> se_name (sr_files r ! k) = name \<and>
     sr_file_num r = word_of_nat k \<and> sr_block_size r \<in> {0, block} \<and> (\<exists>fd. sr_fd r = Some fd \<and> delivers fd bs)"

lemma name_agrees_final: "slice_of h = slice_of h0 \<Longrightarrow> name_agrees (spool_final_name num h0) h"
  by (auto simp: name_agrees_def spool_name_final slice_of_def split: if_splits)

lemma spool_next_record:
  assumes "reading block k name (rec @ bs) r" and "intact_header H rec = Some h" and "decoded_block_size h = block"
    and "name_agrees name h"
  shows "\<exists>r'. spool_next H r = Inr (record_event name k rec, r') \<and> reading block k name bs r' \<and> sr_files r' = sr_files r"
proof -
  note I = intact_headerD [OF assms(2)]
  let ?hdr = "take fixed_header_size rec" and ?rest = "drop fixed_header_size rec"
  from assms(1) obtain fd where r: "\<not> sr_ended r" "sr_index r = k" "k < length (sr_files r)" "se_name (sr_files r ! k) = name"
    "sr_file_num r = word_of_nat k" "sr_block_size r \<in> {0, block}" "sr_fd r = Some fd" "delivers fd (rec @ bs)"
    by (auto simp: reading_def)
  have "delivers fd (?hdr @ ?rest @ bs)" using r(8) by (simp flip: append_assoc)
  from read_stream_delivers [OF this] I(4) obtain fd1 where f1: "read_stream fd fixed_header_size = Inr (?hdr, fd1)" "delivers fd1 (?rest @ bs)"
    by auto
  have len: "length ?hdr = fixed_header_size" "?hdr \<noteq> []" using I(4) by (auto simp: fixed_header_size_def)
  from read_stream_delivers [OF f1(2), of "unat block - fixed_header_size"] obtain fd2 where
    f2: "read_stream fd1 (unat block - fixed_header_size) = Inr (?rest, fd2)" "delivers fd2 bs" using I(2) assms(3) by auto
  have size: "record_size ?hdr (sr_block_size r) = Inr block" using I(3) r(6) assms(3) by (auto simp: record_size_def)
  have lrest: "length ?rest = unat block - fixed_header_size" using I(2) assms(3) by simp
  show ?thesis
  proof (cases "channel_type h = ARCHIVE_END")
    case True
    let ?r = "r\<lparr>sr_fd := Some fd2, sr_block_size := 0\<rparr>"
    have "spool_next H r = Inr (record_event name k rec, ?r)"
      using r f1(1) f2(1) len size lrest assms(2,4) True by (simp add: spool_next_def record_event_def Let_def)
    moreover have "reading block k name bs ?r" using r f2(2) by (simp add: reading_def)
    ultimately show ?thesis by auto
  next
    case False
    let ?r = "r\<lparr>sr_fd := Some fd2, sr_block_size := block\<rparr>"
    have "spool_next H r = Inr (record_event name k rec, ?r)"
      using r f1(1) f2(1) len size lrest assms(2,4) False by (simp add: spool_next_def record_event_def Let_def)
    moreover have "reading block k name bs ?r" using r f2(2) by (simp add: reading_def)
    ultimately show ?thesis by auto
  qed
qed

text \<open>The loop over the records of one file.\<close>

lemma spool_calls_records:
  assumes "reading block k name (concat recs) r"
    and "\<forall>rec \<in> set recs. \<exists>h. intact_header H rec = Some h \<and> decoded_block_size h = block \<and> name_agrees name h"
  shows "\<exists>r'. reading block k name [] r' \<and> sr_files r' = sr_files r \<and>
    spool_calls H (length recs + n) r = bind_res (spool_calls H n r') (\<lambda>ms. Inr (map (record_event name k) recs @ ms))"
  using assms
proof (induction recs arbitrary: r)
  case Nil
  have "bind_res x (\<lambda>ms. Inr ms) = x" for x :: "media_error + media_record list" by (cases x) simp_all
  with Nil show ?case by auto
next
  case (Cons rec recs)
  from Cons.prems obtain h where h: "intact_header H rec = Some h" "decoded_block_size h = block" "name_agrees name h" by auto
  from Cons.prems(1) have "reading block k name (rec @ concat recs) r" by simp
  from spool_next_record [OF this h] obtain q where q: "spool_next H r = Inr (record_event name k rec, q)"
    "reading block k name (concat recs) q" "sr_files q = sr_files r" by blast
  from Cons.IH [OF q(2)] Cons.prems(2) obtain r' where r': "reading block k name [] r'" "sr_files r' = sr_files q"
    "spool_calls H (length recs + n) q = bind_res (spool_calls H n r') (\<lambda>ms. Inr (map (record_event name k) recs @ ms))" by auto
  have "spool_calls H (length (rec # recs) + n) r =
      bind_res (spool_calls H n r') (\<lambda>ms. Inr (map (record_event name k) (rec # recs) @ ms))"
    using q(1) r'(3) by (cases "spool_calls H n r'") simp_all
  with r'(1,2) q(3) show ?case by auto
qed

lemma spool_next_filemark:
  assumes "reading block k name [] r"
  shows "spool_next H r = bind_res (open_spool (r\<lparr>sr_fd := None, sr_index := Suc k\<rparr>)) (\<lambda>r'. Inr (filemark_event name k, r'))"
proof -
  from assms obtain fd where r: "\<not> sr_ended r" "sr_index r = k" "se_name (sr_files r ! k) = name" "sr_file_num r = word_of_nat k"
    "sr_fd r = Some fd" "delivers fd []" by (auto simp: reading_def)
  obtain fd' where "read_stream fd fixed_header_size = Inr ([], fd')"
    using read_exact_end [OF r(6), of fixed_header_size] by (auto simp: read_stream_def)
  with r show ?thesis by (simp add: spool_next_def spool_skip_file_def filemark_event_def Let_def)
qed

definition call_count :: "bytes list list \<Rightarrow> nat" where
  "call_count files = sum_list (map (\<lambda>recs. length recs + 1) files)"

lemma open_spool_reading:
  assumes "sr_index r < length (sr_files r)" and "entry_holds H (sr_index r) recs (sr_files r ! sr_index r)"
    and "\<not> sr_ended r" and "sr_block_size r \<in> {0, block}"
  shows "\<exists>r'. open_spool r = Inr r' \<and> reading block (sr_index r) (file_name H (sr_index r) recs) (concat recs) r' \<and> sr_files r' = sr_files r"
proof -
  from assms(2) obtain fd where "se_name (sr_files r ! sr_index r) = file_name H (sr_index r) recs"
    "se_reads (sr_files r ! sr_index r) = Some fd" "delivers fd (concat recs)" by (auto simp: entry_holds_def)
  with assms show ?thesis by (simp add: open_spool_def reading_def file_name_def Let_def)
qed

lemma spool_calls_volume:
  assumes "reading block k (file_name H k recs) (concat recs) r" and "tape_file_ok H block recs"
    and "list_all (tape_file_ok H block) files" and "length (sr_files r) = Suc (k + length files)"
    and "\<forall>i < length files. entry_holds H (Suc k + i) (files ! i) (sr_files r ! (Suc k + i))"
  shows "spool_calls H (call_count (recs # files) + 1) r = Inr (volume_events H k (recs # files) @ [end_record])"
  using assms
proof (induction files arbitrary: k recs r)
  case Nil
  have ok: "\<forall>rec \<in> set recs. \<exists>h. intact_header H rec = Some h \<and> decoded_block_size h = block \<and> name_agrees (file_name H k recs) h"
    unfolding file_name_def using Nil.prems(2) by (auto elim!: tape_file_headers intro!: name_agrees_final)
  from spool_calls_records [OF Nil.prems(1) ok, of 2] obtain r' where r': "reading block k (file_name H k recs) [] r'"
    "sr_files r' = sr_files r" "spool_calls H (length recs + 2) r =
      bind_res (spool_calls H 2 r') (\<lambda>ms. Inr (map (record_event (file_name H k recs) k) recs @ ms))" by blast
  have "open_spool (r'\<lparr>sr_fd := None, sr_index := Suc k\<rparr>) = Inr (r'\<lparr>sr_fd := None, sr_index := Suc k, sr_ended := True\<rparr>)"
    using Nil.prems(4) r'(2) by (simp add: open_spool_def)
  with spool_next_filemark [OF r'(1), of H] have "spool_calls H 2 r' = Inr [filemark_event (file_name H k recs) k, end_record]"
    by (simp add: numeral_2_eq_2 spool_next_def)
  with r'(3) show ?case by (simp add: call_count_def)
next
  case (Cons f files)
  have ok: "\<forall>rec \<in> set recs. \<exists>h. intact_header H rec = Some h \<and> decoded_block_size h = block \<and> name_agrees (file_name H k recs) h"
    unfolding file_name_def using Cons.prems(2) by (auto elim!: tape_file_headers intro!: name_agrees_final)
  let ?n = "Suc (call_count (f # files) + 1)"
  from spool_calls_records [OF Cons.prems(1) ok, of ?n] obtain r' where r': "reading block k (file_name H k recs) [] r'"
    "sr_files r' = sr_files r" "spool_calls H (length recs + ?n) r =
      bind_res (spool_calls H ?n r') (\<lambda>ms. Inr (map (record_event (file_name H k recs) k) recs @ ms))" by blast
  let ?q = "r'\<lparr>sr_fd := None, sr_index := Suc k\<rparr>"
  have "entry_holds H (Suc k) f (sr_files r ! Suc k)" using Cons.prems(5) [rule_format, of 0] by simp
  then have "\<exists>s. open_spool ?q = Inr s \<and> reading block (Suc k) (file_name H (Suc k) f) (concat f) s \<and> sr_files s = sr_files r"
    using open_spool_reading [of ?q H f block] Cons.prems(4) r'(1,2) by (auto simp: reading_def)
  then obtain s where s: "open_spool ?q = Inr s" "reading block (Suc k) (file_name H (Suc k) f) (concat f) s" "sr_files s = sr_files r" by blast
  have "\<forall>i < length files. entry_holds H (Suc (Suc k) + i) (files ! i) (sr_files s ! (Suc (Suc k) + i))"
  proof (intro allI impI)
    fix i assume "i < length files"
    then show "entry_holds H (Suc (Suc k) + i) (files ! i) (sr_files s ! (Suc (Suc k) + i))"
      using Cons.prems(5) [rule_format, of "Suc i"] s(3) by simp
  qed
  then have "spool_calls H (call_count (f # files) + 1) s = Inr (volume_events H (Suc k) (f # files) @ [end_record])"
    using Cons.IH [OF s(2)] Cons.prems(3,4) s(3) by simp
  with spool_next_filemark [OF r'(1), of H] s(1) have
    "spool_calls H ?n r' = Inr (filemark_event (file_name H k recs) k # volume_events H (Suc k) (f # files) @ [end_record])" by simp
  with r'(3) show ?case by (simp add: call_count_def)
qed

section \<open>Property\<close>

lemma new_device_writing:
  assumes "new_spool_device entries dir True writes faults = (None, d)" and "listing entries dir"
    and "\<forall>n. dir n \<noteq> None \<longrightarrow> parse_spool_file_name n = Inr None"
  shows "writing H [] [] d"
proof -
  have "\<forall>n. parse_spool_file_name n \<noteq> Inr None \<longrightarrow> dir n = map_of (named H []) n" using assms(3) by (auto simp: named_def)
  from scan_volume [OF assms(2) this] have scan: "scan_spool_files (Some entries) = Inr []" by (auto simp: volume_names_def)
  let ?d = "\<lparr>sd_dir = dir, sd_read_write = True, sd_fd = None, sd_files = [], sd_next_file_num = 0, sd_current_file_num = 0,
       sd_current_record = 0, sd_current_block_size = 0, sd_current_is_temp = False, sd_current_path = [],
       sd_writes = writes, sd_faults = faults\<rparr>"
  have "open_temp ?d = (None, d)" using assms(1) scan by (simp add: new_spool_device_def Let_def)
  from open_temp_effect [OF this] obtain fs where d: "d = ?d\<lparr>sd_current_path := spool_temp_name 0, sd_faults := fs,
    sd_dir := dir(spool_temp_name 0 := Some []), sd_fd := Some 0, sd_current_is_temp := True\<rparr>" by auto
  have "stores H [] d" using assms(3) temp_not_spool [of 0] by (auto simp: stores_def d named_def)
  then show ?thesis by (simp add: writing_def d)
qed

lemma volume_entries:
  assumes "listing es dir" and "\<forall>n. parse_spool_file_name n \<noteq> Inr None \<longrightarrow> dir n = map_of (named H files) n"
    and "map se_name fs = volume_names H files" and "set fs \<subseteq> set es" and "\<forall>e \<in> set fs. se_regular e" and "i < length files"
    and "length files \<le> 2 ^ 64"
  shows "entry_holds H i (files ! i) (fs ! i)"
proof -
  have len: "length fs = length files" using arg_cong [OF assms(3), of length] by (simp add: volume_names_def)
  have name: "se_name (fs ! i) = file_name H i (files ! i)"
    using arg_cong [OF assms(3), of "\<lambda>l. l ! i"] assms(6) len by (simp add: volume_names_def nth_enumerate_eq)
  have "fs ! i \<in> set fs" using assms(6) len by simp
  with assms(1,4,5) obtain fd c where f: "se_reads (fs ! i) = Some fd" "dir (se_name (fs ! i)) = Some c" "delivers fd c"
    unfolding listing_def by blast
  have "map fst (named H files) = volume_names H files" by (simp add: named_def volume_names_def o_def case_prod_beta)
  then have "distinct (map fst (named H files))" using names_sorted(2) [OF assms(7), of H] by (simp add: distinct_map)
  moreover have "(i, files ! i) \<in> set (enumerate 0 files)" using assms(6) by (simp add: in_set_enumerate_eq)
  then have "(file_name H i (files ! i), concat (files ! i)) \<in> set (named H files)" by (force simp: named_def)
  ultimately have "map_of (named H files) (file_name H i (files ! i)) = Some (concat (files ! i))" by (rule map_of_is_SomeI)
  moreover have "parse_spool_file_name (file_name H i (files ! i)) \<noteq> Inr None" by (simp add: file_name_def)
  ultimately have "c = concat (files ! i)" using assms(2) f(2) name by simp
  with name f show ?thesis by (auto simp: entry_holds_def)
qed

text \<open>C7. A spool gives back what was written to it: when every write and filemark of a
  spool device has been made without an error, then, once the device is gone, reading the directory, listed in
  any order and read in any pieces, returns exactly the records and filemarks written, in order, under
  consecutive file numbers, and then the end.\<close>
theorem spool_roundtrip:
  assumes "new_spool_device entries dir True writes faults = (None, d0)" and "listing entries dir"
    and "\<forall>n. dir n \<noteq> None \<longrightarrow> parse_spool_file_name n = Inr None"
    and "write_files files d0 = (None, d1)" and "list_all (tape_file_ok H block) files" and "length files \<le> 2 ^ 64"
    and "listing es (sd_dir (destroy_spool d1))"
  shows "\<exists>r. new_spool_reader (Some es) = Inr r \<and>
    spool_calls H (call_count files + 1) r = Inr (volume_events H 0 files @ [end_record])"
proof -
  have "writing H files [] d1"
    using write_files_writing [OF assms(4) new_device_writing [OF assms(1-3)] assms(5)] assms(6) by simp
  from destroyed [OF this] have st: "\<forall>n. parse_spool_file_name n \<noteq> Inr None \<longrightarrow> sd_dir (destroy_spool d1) n = map_of (named H files) n"
    by (simp add: stores_def)
  from scan_volume [OF assms(7) st assms(6)] obtain fs where fs: "scan_spool_files (Some es) = Inr fs"
    "map se_name fs = volume_names H files" "set fs \<subseteq> set es" "\<forall>e \<in> set fs. se_regular e" .
  note E = volume_entries [OF assms(7) st fs(2-4) _ assms(6)]
  have len: "length fs = length files" using arg_cong [OF fs(2), of length] by (simp add: volume_names_def)
  let ?r = "\<lparr>sr_files = fs, sr_index = 0, sr_file_num = 0, sr_fd = None, sr_ended = False, sr_block_size = 0\<rparr>"
  have new: "new_spool_reader (Some es) = open_spool ?r" by (simp add: new_spool_reader_def fs(1))
  show ?thesis
  proof (cases files)
    case Nil
    then show ?thesis using new len by (simp add: open_spool_def call_count_def spool_next_def)
  next
    case (Cons recs rest)
    have "entry_holds H 0 recs (fs ! 0)" using E [of 0] Cons by simp
    then obtain r where r: "open_spool ?r = Inr r" "reading block 0 (file_name H 0 recs) (concat recs) r" "sr_files r = fs"
      using open_spool_reading [of ?r H recs block] len Cons by auto
    have "spool_calls H (call_count (recs # rest) + 1) r = Inr (volume_events H 0 (recs # rest) @ [end_record])"
    proof (rule spool_calls_volume [OF r(2)])
      show "\<forall>i < length rest. entry_holds H (Suc 0 + i) (rest ! i) (sr_files r ! (Suc 0 + i))"
        using E [of "Suc i" for i] Cons r(3) by auto
    qed (use assms(5) Cons len r(3) in simp_all)
    with new r(1) Cons show ?thesis by simp
  qed
qed

section \<open>Witness\<close>

definition sample_record :: bytes where
  "sample_record = header_layout (signed_sample (replicate 72 1)) @ replicate 3584 0"

definition sample_name :: string where
  "sample_name = spool_final_name 0 (signed_sample (replicate 72 1))"

lemma sample_intact: "intact_header zero_hash sample_record = Some (signed_sample (replicate 72 1))"
  using check_signed_sample [of "replicate 72 1"] by (simp add: intact_header_def sample_record_def)

lemma sample_file_ok: "tape_file_ok zero_hash 4096 [sample_record]"
  by (simp add: tape_file_ok_def first_header_def sample_intact same_file_def signed_sample_def sample_header_def
      default_header_def decoded_block_size_def)

lemma write_loop_all: "write_loop [] bs = (bs, True, [])"
  by (cases bs) simp_all

lemma sample_written:
  "\<exists>d0 d1. new_spool_device [] (\<lambda>_. None) True [Write_interrupted] [] = (None, d0) \<and> write_files [[sample_record]] d0 = (None, d1) \<and>
     sd_dir (destroy_spool d1) = (\<lambda>n. if n = sample_name then Some sample_record else None)"
proof -
  let ?tmp = "spool_temp_name 0" and ?tmp1 = "spool_temp_name 1"
  let ?d0 = "\<lparr>sd_dir = (\<lambda>_. None)(?tmp := Some []), sd_read_write = True, sd_fd = Some 0, sd_files = [], sd_next_file_num = 0,
     sd_current_file_num = 0, sd_current_record = 0, sd_current_block_size = 0, sd_current_is_temp = True, sd_current_path = ?tmp,
     sd_writes = [Write_interrupted], sd_faults = []\<rparr>"
  have d0: "new_spool_device [] (\<lambda>_. None) True [Write_interrupted] [] = (None, ?d0)"
    by (simp add: new_spool_device_def scan_spool_files_def open_temp_def syscall_def Let_def)
  note I = intact_headerD [OF sample_intact]
  obtain b bs where b: "sample_record = b # bs" using I(4) by (cases sample_record) (auto simp: fixed_header_size_def)
  have loop: "write_loop [Write_interrupted] sample_record = (sample_record, True, [])"
    using write_loop_all [of sample_record] by (simp add: b)
  let ?c = "(\<lambda>_. None)(?tmp := Some sample_record)"
  let ?d1 = "?d0\<lparr>sd_dir := ?c, sd_fd := Some (length sample_record), sd_writes := [], sd_current_record := 1\<rparr>"
  have w: "write_records [sample_record] ?d0 = (None, ?d1)"
    using loop by (simp add: then_do_def spool_write_record_def current_content_def write_at_def Let_def)
  have neq: "?tmp \<noteq> sample_name" "?tmp1 \<noteq> sample_name"
    using temp_not_spool spool_number_final(1) unfolding sample_name_def by (metis option.distinct(1) sum.inject(2))+
  let ?d2 = "?d1\<lparr>sd_fd := Some 0, sd_dir := ?c(?tmp := None, sample_name := Some sample_record, ?tmp1 := Some []),
    sd_current_path := ?tmp1, sd_next_file_num := 1, sd_current_file_num := 1, sd_current_block_size := 0, sd_current_record := 0\<rparr>"
  have "spool_filemark ?d1 = (None, ?d2)"
    using I(3,4) by (simp add: spool_filemark_def syscall_def finalize_current_file_def current_content_def open_temp_def sample_name_def
        spool_temp_name_def spool_prefix_def Let_def not_less)
  with w have f: "write_files [[sample_record]] ?d0 = (None, ?d2)" by (simp add: then_do_def)
  have "sd_dir (destroy_spool ?d2) = (\<lambda>n. if n = sample_name then Some sample_record else None)"
    using neq by (auto simp: destroy_spool_def remove_current_def spool_temp_name_def spool_prefix_def Let_def)
  with d0 f show ?thesis by blast
qed

theorem spool_roundtrip_witness:
  "\<exists>r. new_spool_reader (Some [\<lparr>se_name = sample_name, se_regular = True,
      se_reads = Some [Chunk (take 100 sample_record), Read_interrupted, Chunk (drop 100 sample_record)]\<rparr>]) = Inr r \<and>
    spool_calls zero_hash 3 r = Inr [record_event sample_name 0 sample_record, filemark_event sample_name 0, end_record]"
proof -
  obtain d0 d1 where d: "new_spool_device [] (\<lambda>_. None) True [Write_interrupted] [] = (None, d0)"
    "write_files [[sample_record]] d0 = (None, d1)"
    "sd_dir (destroy_spool d1) = (\<lambda>n. if n = sample_name then Some sample_record else None)"
    using sample_written by blast
  have "length sample_record = 4096" using intact_headerD(2) [OF sample_intact]
    by (simp add: signed_sample_def sample_header_def default_header_def decoded_block_size_def)
  then have "take 100 sample_record \<noteq> []" "drop 100 sample_record \<noteq> []" by auto
  then have "delivers [Chunk (take 100 sample_record), Read_interrupted, Chunk (drop 100 sample_record)] sample_record"
    by (simp add: delivers_def)
  then have l: "listing [\<lparr>se_name = sample_name, se_regular = True,
      se_reads = Some [Chunk (take 100 sample_record), Read_interrupted, Chunk (drop 100 sample_record)]\<rparr>] (sd_dir (destroy_spool d1))"
    by (auto simp: listing_def d(3))
  have "listing [] (\<lambda>_. None)" by (simp add: listing_def)
  from spool_roundtrip [OF d(1) this _ d(2) _ _ l, of zero_hash 4096] sample_file_ok show ?thesis
    by (simp add: call_count_def file_name_def first_header_def sample_intact sample_name_def numeral_3_eq_3)
qed

end
