(* ===== verification/Dump.thy ===== *)
theory Dump
  imports SpoolSpec
begin

text \<open>
  src/neotape_dump_cmd.cpp, which copies a tape into files, and the part of
  src/neotape_write_cmd.cpp that opens a spool for writing and refuses one that holds data.

  The tape is the list of what the calls of \<open>RecordReader::next\<close> give.  The results of
  opening and writing the output files are a script (true: the call fails; exhausted: it
  succeeds).  A \<open>std::ofstream\<close> buffers: the bytes a write has taken are in the file for sure
  only after its close has flushed them.  What each close flushes is a script of its own.
\<close>

section \<open>The dump\<close>

definition dump_name :: "u64 \<Rightarrow> string" where
  "dump_name num = ''neotape-'' @ pad6 (unat num) @ ''.dump.nts''"

datatype dump_error = Dump_write_failed string | Dump_open_failed string | Dump_read_failed media_error | Target_not_empty

record dump_state =
  dm_dir :: "string \<Rightarrow> bytes option"
  dm_file_num :: u64
  dm_tape_files :: u64
  dm_records :: u64
  dm_bytes :: u64
  dm_pending :: bytes
  dm_closes :: "nat option list"
  dm_faults :: "bool list"

definition dump_syscall :: "dump_state \<Rightarrow> bool \<times> dump_state" where
  "dump_syscall st = (case dm_faults st of [] \<Rightarrow> (True, st) | b # bs \<Rightarrow> (\<not> b, st\<lparr>dm_faults := bs\<rparr>))"

definition current_path :: "dump_state \<Rightarrow> string" where
  "current_path st = dump_name (dm_file_num st)"

text \<open>
  The stream \<open>dm_pending\<close> holds the bytes the open file has been given.  A close that
  succeeds (\<open>None\<close>) leaves all of them in the file; one that fails (\<open>Some k\<close>) only the first
  \<open>k\<close>, and sets a bit of the stream which the program does not read before the next open
  clears it.
\<close>

fun flushed :: "nat option \<Rightarrow> bytes \<Rightarrow> bytes" where
  "flushed None bs = bs"
| "flushed (Some k) bs = take k bs"

definition next_close :: "nat option list \<Rightarrow> nat option" where
  "next_close cs = (case cs of [] \<Rightarrow> None | c # _ \<Rightarrow> c)"

definition dump_close :: "dump_state \<Rightarrow> dump_state" where
  "dump_close st = st\<lparr>dm_dir := (dm_dir st)(current_path st := Some (flushed (next_close (dm_closes st)) (dm_pending st))),
     dm_pending := [], dm_closes := tl (dm_closes st)\<rparr>"

definition open_output :: "dump_state \<Rightarrow> dump_error + dump_state" where
  "open_output st =
    (case dump_syscall st of
       (False, st) \<Rightarrow> Inl (Dump_open_failed (current_path st))
     | (True, st) \<Rightarrow> Inr (st\<lparr>dm_dir := (dm_dir st)(current_path st := Some []), dm_pending := []\<rparr>))"

definition dump_content :: "dump_state \<Rightarrow> bytes" where
  "dump_content st = (case dm_dir st (current_path st) of None \<Rightarrow> [] | Some c \<Rightarrow> c)"

definition dump_record :: "bytes \<Rightarrow> dump_state \<Rightarrow> dump_error + dump_state" where
  "dump_record rec st =
    (case dump_syscall st of
       (False, st) \<Rightarrow> Inl (Dump_write_failed (current_path st))
     | (True, st) \<Rightarrow> Inr (st\<lparr>dm_pending := dm_pending st @ rec,
         dm_records := dm_records st + 1, dm_bytes := dm_bytes st + word_of_nat (length rec)\<rparr>))"

definition dump_filemark :: "dump_state \<Rightarrow> dump_error + dump_state" where
  "dump_filemark st = open_output (st\<lparr>dm_tape_files := dm_tape_files st + 1, dm_file_num := dm_file_num st + 1\<rparr>)"

definition dump_end :: "dump_state \<Rightarrow> dump_state" where
  "dump_end st = (if dump_content st = [] then st\<lparr>dm_dir := (dm_dir st)(current_path st := None)\<rparr>
                  else st\<lparr>dm_tape_files := dm_tape_files st + 1\<rparr>)"

text \<open>The loop; a list without an end has no further call.\<close>

fun dump_loop :: "(media_error + media_record) list \<Rightarrow> dump_state \<Rightarrow> (dump_error + dump_state) option" where
  "dump_loop [] st = None"
| "dump_loop (Inl e # ms) st = Some (Inl (Dump_read_failed e))"
| "dump_loop (Inr m # ms) st =
    (case mr_event m of
       Ev_record \<Rightarrow> (case dump_record (mr_record m) st of Inl e \<Rightarrow> Some (Inl e) | Inr st \<Rightarrow> dump_loop ms st)
     | Ev_end \<Rightarrow> Some (Inr (dump_end (dump_close st)))
     | Ev_filemark \<Rightarrow> (case dump_filemark (dump_close st) of Inl e \<Rightarrow> Some (Inl e) | Inr st \<Rightarrow> dump_loop ms st))"

definition do_dump :: "(string \<Rightarrow> bytes option) \<Rightarrow> nat option list \<Rightarrow> bool list \<Rightarrow> (media_error + media_record) list \<Rightarrow> bool \<Rightarrow>
    (dump_error + dump_state) option" where
  "do_dump dir closes faults calls target_empty =
    (if \<not> target_empty then Some (Inl Target_not_empty)
     else case open_output \<lparr>dm_dir = dir, dm_file_num = 0, dm_tape_files = 0, dm_records = 0, dm_bytes = 0,
         dm_pending = [], dm_closes = closes, dm_faults = faults\<rparr> of
       Inl e \<Rightarrow> Some (Inl e)
     | Inr st \<Rightarrow> dump_loop calls st)"

section \<open>Opening a spool for writing\<close>

datatype target_error = Has_recovery_bundle | Not_at_bot | Contains_data | Target_failed spool_error

definition recovery_bundle :: string where "recovery_bundle = ''recovery-bundle.tar''"

definition position_target :: "bool \<Rightarrow> bool \<Rightarrow> spool_device \<Rightarrow> target_error + spool_device" where
  "position_target erase app d =
    (if \<not> erase \<and> \<not> app \<and> \<not> ps_bot (do_status d) then Inl Not_at_bot
     else if \<not> erase \<and> \<not> app \<and> \<not> ps_eod (do_status d) then Inl Contains_data
     else case do_mtop (if app then MTEOM else MTREW) 1 d of
       (Some e, d) \<Rightarrow> Inl (Target_failed e)
     | (None, d) \<Rightarrow> Inr d)"

definition open_spool_target :: "bool \<Rightarrow> bool \<Rightarrow> spool_entry list \<Rightarrow> (string \<Rightarrow> bytes option) \<Rightarrow> write_result list \<Rightarrow> bool list \<Rightarrow>
    target_error + spool_device" where
  "open_spool_target erase app entries dir writes faults =
    (if \<not> erase \<and> \<not> app \<and> dir recovery_bundle \<noteq> None then Inl Has_recovery_bundle
     else case new_spool_device entries dir True writes faults of
       (Some e, d) \<Rightarrow> Inl (Target_failed e)
     | (None, d) \<Rightarrow> position_target erase app d)"

section \<open>What a dump holds\<close>

text \<open>The records of the tape files before the end, the last without a filemark.\<close>

fun tape_files :: "bytes list \<Rightarrow> media_record list \<Rightarrow> bytes list list" where
  "tape_files cur [] = [cur]"
| "tape_files cur (m # ms) =
    (case mr_event m of
       Ev_record \<Rightarrow> tape_files (cur @ [mr_record m]) ms
     | Ev_end \<Rightarrow> [cur]
     | Ev_filemark \<Rightarrow> cur # tape_files [] ms)"

lemma dump_name_number: "spool_name (dump_name num) = Inr None"
proof -
  have t: "take_number (pad6 (unat num) @ ''.dump'') = Inr (Some (num, ''.dump''))"
    by (rule take_number_pad6) (simp add: is_digit_def)
  have "take (length (dump_name num) - 12) (drop 8 (dump_name num)) = pad6 (unat num) @ ''.dump''"
    by (simp add: dump_name_def)
  with t show ?thesis
    by (simp add: spool_name_def dump_name_def starts_with_def spool_prefix_def)
qed

lemma dump_name_inj: "dump_name i = dump_name j \<Longrightarrow> i = j"
proof -
  assume "dump_name i = dump_name j"
  then have "pad6 (unat i) = pad6 (unat j)" by (simp add: dump_name_def)
  then have "digits_value (pad6 (unat i)) = digits_value (pad6 (unat j))" by simp
  then show "i = j" unfolding pad6_digits word_unat_eq_iff .
qed

lemma dump_erased: "erased_name (dump_name num)"
proof -
  obtain c cs where "pad6 (unat num) = c # cs" using pad6_digits(3) by (cases "pad6 (unat num)") auto
  then show ?thesis by (simp add: erased_name_def dump_name_def starts_with_def ends_with_def spool_prefix_def spool_ext_def)
qed

lemma temp_not_dump: "spool_temp_name i \<noteq> dump_name j"
proof
  assume "spool_temp_name i = dump_name j"
  then have "erased_name (spool_temp_name i)" using dump_erased by simp
  then show False by (simp add: erased_name_def spool_temp_name_def ends_with_def spool_ext_def spool_prefix_def)
qed

text \<open>What the close of the \<open>k\<close>-th file does.\<close>

definition close_result :: "nat option list \<Rightarrow> nat \<Rightarrow> nat option" where
  "close_result closes k = (if k < length closes then closes ! k else None)"

lemma next_close_drop: "next_close (drop k closes) = close_result closes k" "tl (drop k closes) = drop (Suc k) closes"
  by (auto simp: next_close_def close_result_def drop_Suc tl_drop hd_drop_conv_nth split: list.splits)
    (metis hd_drop_conv_nth list.sel(1))+

text \<open>The files that are closed, and the one being written.\<close>

definition closed_files :: "nat option list \<Rightarrow> bytes list list \<Rightarrow> dump_state \<Rightarrow> bool" where
  "closed_files closes closed st \<longleftrightarrow>
     (\<forall>k < length closed. dm_dir st (dump_name (word_of_nat k)) = Some (flushed (close_result closes k) (concat (closed ! k)))) \<and>
     (\<forall>n. dm_dir st n \<noteq> None \<longrightarrow> (\<exists>num. n = dump_name num))"

definition dumping :: "nat option list \<Rightarrow> bytes list list \<Rightarrow> bytes list \<Rightarrow> dump_state \<Rightarrow> bool" where
  "dumping closes closed cur st \<longleftrightarrow> closed_files closes closed st \<and> dm_file_num st = word_of_nat (length closed) \<and>
     dm_pending st = concat cur \<and> dm_closes st = drop (length closed) closes \<and>
     dm_bytes st = word_of_nat (length (concat (concat closed)) + length (concat cur))"

lemma dump_syscall_cases: "dump_syscall st = (b, st') \<Longrightarrow> \<exists>fs. st' = st\<lparr>dm_faults := fs\<rparr>"
  by (cases st) (auto simp: dump_syscall_def split: list.splits)

lemma dump_name_other: "i < j \<Longrightarrow> j < 2 ^ 64 \<Longrightarrow> dump_name (word_of_nat i) \<noteq> dump_name (word_of_nat j)"
  using dump_name_inj word_of_nat_less_inj by blast

lemma dump_record_dumping:
  assumes "dump_record rec st = Inr st'" and "dumping closes closed cur st"
  shows "dumping closes closed (cur @ [rec]) st'"
proof -
  from assms(1) obtain q where q: "dump_syscall st = (True, q)"
    "st' = q\<lparr>dm_pending := dm_pending q @ rec, dm_records := dm_records q + 1,
      dm_bytes := dm_bytes q + word_of_nat (length rec)\<rparr>"
    by (auto simp: dump_record_def split: prod.splits bool.splits)
  from dump_syscall_cases [OF q(1)] obtain fs where fs: "q = st\<lparr>dm_faults := fs\<rparr>" by blast
  show ?thesis using assms(2) by (simp add: dumping_def closed_files_def q(2) fs)
qed

lemma open_output_effect:
  assumes "open_output st = Inr st'"
  shows "\<exists>fs. st' = st\<lparr>dm_faults := fs, dm_dir := (dm_dir st)(current_path st := Some []), dm_pending := []\<rparr>"
proof -
  from assms obtain q where q: "dump_syscall st = (True, q)"
    "st' = q\<lparr>dm_dir := (dm_dir q)(current_path q := Some []), dm_pending := []\<rparr>"
    by (auto simp: open_output_def split: prod.splits bool.splits)
  from dump_syscall_cases [OF q(1)] q(2) show ?thesis by (auto simp: current_path_def)
qed

text \<open>A close stores what it flushes and moves on in its script.\<close>

lemma dump_close_files:
  assumes "dumping closes closed cur st" and "length closed < 2 ^ 64"
  shows "closed_files closes (closed @ [cur]) (dump_close st)"
    and "dm_closes (dump_close st) = drop (Suc (length closed)) closes"
    and "dump_content (dump_close st) = flushed (close_result closes (length closed)) (concat cur)"
    and "current_path (dump_close st) = dump_name (word_of_nat (length closed))"
    and "dm_bytes (dump_close st) = dm_bytes st" and "dm_file_num (dump_close st) = dm_file_num st"
proof -
  let ?f = "flushed (close_result closes (length closed)) (concat cur)"
  have p: "current_path st = dump_name (word_of_nat (length closed))" using assms(1) by (simp add: current_path_def dumping_def)
  have dir: "dm_dir (dump_close st) = (dm_dir st)(dump_name (word_of_nat (length closed)) := Some ?f)"
    using assms(1) by (simp add: dump_close_def p dumping_def next_close_drop)
  show "closed_files closes (closed @ [cur]) (dump_close st)"
    using assms dump_name_other [of _ "length closed"] unfolding closed_files_def dir
    by (auto simp: dumping_def closed_files_def nth_append less_Suc_eq)
  show "dm_closes (dump_close st) = drop (Suc (length closed)) closes"
    using assms(1) by (simp add: dump_close_def dumping_def next_close_drop(2))
  show q: "current_path (dump_close st) = dump_name (word_of_nat (length closed))"
    by (simp add: dump_close_def current_path_def flip: p)
  show "dump_content (dump_close st) = ?f" by (simp add: dump_content_def q dir)
qed (simp_all add: dump_close_def)

lemma dump_filemark_dumping:
  assumes "dump_filemark (dump_close st) = Inr st'" and "dumping closes closed cur st" and "Suc (length closed) < 2 ^ 64"
  shows "dumping closes (closed @ [cur]) [] st'"
proof -
  let ?new = "dump_name (word_of_nat (Suc (length closed)))"
  have l: "length closed < 2 ^ 64" using assms(3) by simp
  note C = dump_close_files [OF assms(2) l]
  from open_output_effect [OF assms(1) [unfolded dump_filemark_def]] obtain fs where
    st': "st' = (dump_close st)\<lparr>dm_tape_files := dm_tape_files (dump_close st) + 1,
      dm_file_num := dm_file_num (dump_close st) + 1, dm_faults := fs,
      dm_dir := (dm_dir (dump_close st))(?new := Some []), dm_pending := []\<rparr>"
    using assms(2) C(6) by (auto simp: current_path_def dumping_def add.commute)
  have "dump_name (word_of_nat k) \<noteq> ?new" if "k < Suc (length closed)" for k
    using dump_name_other [OF that assms(3)] .
  with C(1) have "closed_files closes (closed @ [cur]) st'" by (auto simp: closed_files_def st')
  with assms(2) C show ?thesis by (simp add: dumping_def st' add.commute)
qed

lemma tape_files_ne: "tape_files cur ms \<noteq> []"
  by (induction ms arbitrary: cur) (auto split: record_event.split)

text \<open>The whole dump: what the files hold in the end.\<close>

lemma dump_loop_dumping:
  "dump_loop (map Inr ms) st = Some (Inr st') \<Longrightarrow> dumping closes closed cur st \<Longrightarrow>
   length closed + length (tape_files cur ms) \<le> 2 ^ 64 \<Longrightarrow>
   \<exists>st0. dumping closes (closed @ butlast (tape_files cur ms)) (last (tape_files cur ms)) st0 \<and> st' = dump_end (dump_close st0)"
proof (induction ms arbitrary: closed cur st)
  case (Cons m ms)
  show ?case
  proof (cases "mr_event m")
    case Ev_record
    with Cons.prems(1) obtain q where q: "dump_record (mr_record m) st = Inr q" "dump_loop (map Inr ms) q = Some (Inr st')"
      by (auto split: sum.splits)
    have l: "tape_files cur (m # ms) = tape_files (cur @ [mr_record m]) ms" using Ev_record by simp
    from Cons.IH [OF q(2) dump_record_dumping [OF q(1) Cons.prems(2)]] Cons.prems(3) l show ?thesis by simp
  next
    case Ev_filemark
    with Cons.prems(1) obtain q where q: "dump_filemark (dump_close st) = Inr q" "dump_loop (map Inr ms) q = Some (Inr st')"
      by (auto split: sum.splits)
    have l: "tape_files cur (m # ms) = cur # tape_files [] ms" using Ev_filemark by simp
    have "Suc (length closed) < 2 ^ 64" using Cons.prems(3) l tape_files_ne [of "[]" ms] by (cases "tape_files [] ms") auto
    from Cons.IH [OF q(2) dump_filemark_dumping [OF q(1) Cons.prems(2) this]] Cons.prems(3) l tape_files_ne show ?thesis by simp
  next
    case Ev_end
    with Cons.prems show ?thesis by auto
  qed
qed simp

text \<open>The end removes the last file when nothing of it is in the directory.\<close>

lemma dump_end_files:
  assumes "dumping closes closed cur st" and "length closed < 2 ^ 64"
  defines "f \<equiv> flushed (close_result closes (length closed)) (concat cur)"
  shows "\<forall>k < length closed. dm_dir (dump_end (dump_close st)) (dump_name (word_of_nat k)) =
      Some (flushed (close_result closes k) (concat (closed ! k)))"
    and "dm_dir (dump_end (dump_close st)) (dump_name (word_of_nat (length closed))) = (if f = [] then None else Some f)"
    and "\<forall>n. dm_dir (dump_end (dump_close st)) n \<noteq> None \<longrightarrow> (\<exists>num. n = dump_name num)"
    and "dm_bytes (dump_end (dump_close st)) = dm_bytes st"
proof -
  note C = dump_close_files [OF assms(1,2)]
  have c: "dump_content (dump_close st) = f" by (simp add: f_def C(3))
  show "\<forall>k < length closed. dm_dir (dump_end (dump_close st)) (dump_name (word_of_nat k)) =
      Some (flushed (close_result closes k) (concat (closed ! k)))"
  proof (intro allI impI)
    fix k assume k: "k < length closed"
    then have "dm_dir (dump_close st) (dump_name (word_of_nat k)) = Some (flushed (close_result closes k) (concat (closed ! k)))"
      using C(1) [unfolded closed_files_def, THEN conjunct1, rule_format, of k] by (simp add: nth_append)
    then show "dm_dir (dump_end (dump_close st)) (dump_name (word_of_nat k)) =
      Some (flushed (close_result closes k) (concat (closed ! k)))"
      using dump_name_other [OF k assms(2)] by (simp add: dump_end_def C(4))
  qed
  show "dm_dir (dump_end (dump_close st)) (dump_name (word_of_nat (length closed))) = (if f = [] then None else Some f)"
    using C(1) [unfolded closed_files_def, THEN conjunct1, rule_format, of "length closed"]
    by (simp add: dump_end_def c C(4) f_def)
  show "\<forall>n. dm_dir (dump_end (dump_close st)) n \<noteq> None \<longrightarrow> (\<exists>num. n = dump_name num)"
    using C(1) by (auto simp: dump_end_def closed_files_def)
  show "dm_bytes (dump_end (dump_close st)) = dm_bytes st" by (simp add: dump_end_def C(5))
qed

lemma dump_parse: "parse_spool_file_name (dump_name num) = Inr None"
  by (simp add: parse_spool_file_name_def dump_name_number)

lemma scan_dump:
  assumes "listing es dir" and "\<forall>n. dir n \<noteq> None \<longrightarrow> (\<exists>num. n = dump_name num)"
  shows "scan_spool_files (Some es) = Inr []"
proof -
  have "parse_spool_file_name (se_name e) = Inr None" if "e \<in> set es" "se_regular e" for e
  proof -
    have "dir (se_name e) \<noteq> None" using assms(1) that unfolding listing_def by blast
    with assms(2) obtain num where "se_name e = dump_name num" by blast
    then show ?thesis by (simp add: dump_parse)
  qed
  then have "spool_candidates es = Inr []" using candidates_filter [of es] by (auto simp: filter_empty_conv)
  then show ?thesis by (simp add: scan_spool_files_def)
qed

text \<open>The write command takes a directory without spool files for empty, and erases more than those.\<close>

lemma target_erases_dump:
  assumes "scan_spool_files (Some es) = Inr []" and "dir recovery_bundle = None"
  shows "\<exists>d. open_spool_target False False es dir writes [] = Inr d \<and> (\<forall>num. sd_dir d (dump_name num) = None)"
proof -
  let ?d = "\<lparr>sd_dir = dir(spool_temp_name 0 := Some []), sd_read_write = True, sd_fd = Some 0, sd_files = [], sd_next_file_num = 0,
     sd_current_file_num = 0, sd_current_record = 0, sd_current_block_size = 0, sd_current_is_temp = True,
     sd_current_path = spool_temp_name 0, sd_writes = writes, sd_faults = []\<rparr>"
  let ?e = "?d\<lparr>sd_dir := (\<lambda>n. if erased_name n then None else (dir(spool_temp_name 0 := None)) n)(spool_temp_name 0 := Some [])\<rparr>"
  have new: "new_spool_device es dir True writes [] = (None, ?d)"
    using assms(1) by (simp add: new_spool_device_def open_temp_def syscall_def Let_def)
  have "ps_bot (do_status ?d)" "ps_eod (do_status ?d)" by (simp_all add: do_status_def current_content_def Let_def)
  moreover have "spool_temp_name 0 \<noteq> []" by (simp add: spool_temp_name_def spool_prefix_def)
  then have "do_mtop MTREW 1 ?d = (None, ?e)"
    by (simp add: do_mtop_def spool_erase_def open_temp_def syscall_def Let_def) (simp add: fun_eq_iff remove_current_def)
  ultimately have "open_spool_target False False es dir writes [] = Inr ?e"
    using new assms(2) by (simp add: open_spool_target_def position_target_def)
  moreover have "sd_dir ?e (dump_name num) = None" for num using dump_erased temp_not_dump [of 0 num] by auto
  ultimately show ?thesis by blast
qed

section \<open>Property\<close>

text \<open>C32. A finished dump holds what its closes flushed, and is lost all the same.  The dump
  reports the bytes of every record of the tape.  Each file whose close succeeded holds exactly the
  bytes of its tape file; one whose close failed holds only the part that was flushed before, and
  the dump is reported complete like any other, because the result of \<open>output.close()\<close> is not read.
  No file of the dump has the name of a spool file, so that the record reader finds the dump empty,
  and opening the directory for writing without the erase option, which refuses a spool that holds
  data, accepts it and deletes every file of the dump.\<close>
theorem dump_exact_but_lost:
  assumes "do_dump (\<lambda>_. None) closes faults (map Inr calls) True = Some (Inr st)"
    and "tape_files [] calls = files" and "length files \<le> 2 ^ 64" and "listing es (dm_dir st)"
  shows "dm_bytes st = word_of_nat (length (concat (concat files))) \<and>
    (\<forall>k < length files. close_result closes k = None \<and> concat (files ! k) \<noteq> [] \<longrightarrow>
      dm_dir st (dump_name (word_of_nat k)) = Some (concat (files ! k))) \<and>
    (\<forall>k < length files. \<forall>n. close_result closes k = Some n \<longrightarrow>
      dm_dir st (dump_name (word_of_nat k)) =
        (if Suc k = length files \<and> take n (concat (files ! k)) = [] then None else Some (take n (concat (files ! k))))) \<and>
    (\<exists>r. new_spool_reader (Some es) = Inr r \<and> spool_next H r = Inr (end_record, r)) \<and>
    (\<exists>d. open_spool_target False False es (dm_dir st) writes [] = Inr d \<and> (\<forall>num. sd_dir d (dump_name num) = None))"
proof -
  let ?s = "\<lparr>dm_dir = \<lambda>_. None, dm_file_num = 0, dm_tape_files = 0, dm_records = 0, dm_bytes = 0,
    dm_pending = [], dm_closes = closes, dm_faults = faults\<rparr>"
  from assms(1) obtain q where q: "open_output ?s = Inr q" "dump_loop (map Inr calls) q = Some (Inr st)"
    by (auto simp: do_dump_def split: sum.splits)
  from open_output_effect [OF q(1)] have "dumping closes [] [] q"
    by (auto simp: dumping_def closed_files_def current_path_def split: if_splits)
  from dump_loop_dumping [OF q(2) this] assms(2,3) obtain st0 where
    st0: "dumping closes (butlast files) (last files) st0" "st = dump_end (dump_close st0)" by auto
  have ne: "files \<noteq> []" using assms(2) tape_files_ne by auto
  have len: "length (butlast files) < 2 ^ 64" using assms(3) ne by (cases files) auto
  note F = dump_end_files [OF st0(1) len, folded st0(2)]
  have files: "dm_dir st (dump_name (word_of_nat k)) =
      (if Suc k = length files \<and> flushed (close_result closes k) (concat (files ! k)) = [] then None
       else Some (flushed (close_result closes k) (concat (files ! k))))" if "k < length files" for k
  proof (cases "k < length (butlast files)")
    case True
    then have "Suc k \<noteq> length files" by simp
    with True F(1) show ?thesis by (simp add: nth_butlast)
  next
    case False
    with that have k: "k = length (butlast files)" by simp
    then have "files ! k = last files" "Suc k = length files" using ne that by (simp_all add: last_conv_nth)
    with F(2) k show ?thesis by simp
  qed
  have "concat (concat (butlast files)) @ concat (last files) = concat (concat files)"
    by (subst (3) append_butlast_last_id [OF ne, symmetric]) (simp del: append_butlast_last_id)
  then have bytes: "dm_bytes st = word_of_nat (length (concat (concat files)))"
    using F(4) st0(1) by (simp add: dumping_def flip: length_append)
  have scan: "scan_spool_files (Some es) = Inr []" by (rule scan_dump [OF assms(4) F(3)])
  have "dm_dir st recovery_bundle = None"
  proof (rule ccontr)
    assume "dm_dir st recovery_bundle \<noteq> None"
    with F(3) obtain num where "recovery_bundle = dump_name num" by blast
    then show False by (simp add: recovery_bundle_def dump_name_def)
  qed
  from target_erases_dump [where dir = "dm_dir st", OF scan this] have t: "\<exists>d. open_spool_target False False es (dm_dir st) writes [] = Inr d \<and>
    (\<forall>num. sd_dir d (dump_name num) = None)" .
  have "new_spool_reader (Some es) =
      Inr \<lparr>sr_files = [], sr_index = 0, sr_file_num = 0, sr_fd = None, sr_ended = True, sr_block_size = 0\<rparr>"
    by (simp add: new_spool_reader_def scan open_spool_def)
  then have "\<exists>r. new_spool_reader (Some es) = Inr r \<and> spool_next H r = Inr (end_record, r)" by (simp add: spool_next_def)
  moreover have "\<forall>k < length files. close_result closes k = None \<and> concat (files ! k) \<noteq> [] \<longrightarrow>
      dm_dir st (dump_name (word_of_nat k)) = Some (concat (files ! k))"
    using files by (auto simp del: concat_eq_Nil_conv)
  moreover have "\<forall>k < length files. \<forall>n. close_result closes k = Some n \<longrightarrow>
      dm_dir st (dump_name (word_of_nat k)) =
        (if Suc k = length files \<and> take n (concat (files ! k)) = [] then None else Some (take n (concat (files ! k))))"
    using files by (simp del: concat_eq_Nil_conv take_eq_Nil take_eq_Nil2)
  ultimately show ?thesis using bytes t by blast
qed

section \<open>Witness\<close>

definition sample_calls :: "media_record list" where
  "sample_calls = [\<lparr>mr_event = Ev_record, mr_record = [1, 2], mr_file_num = 0, mr_source_name = ''t''\<rparr>,
     \<lparr>mr_event = Ev_filemark, mr_record = [], mr_file_num = 0, mr_source_name = ''t''\<rparr>,
     \<lparr>mr_event = Ev_record, mr_record = [3, 4], mr_file_num = 1, mr_source_name = ''t''\<rparr>, end_record]"

text \<open>Two tape files; the close of the first succeeds, that of the second loses a byte.\<close>

theorem dump_exact_but_lost_witness:
  "\<exists>st d. do_dump (\<lambda>_. None) [None, Some 1] [] (map Inr sample_calls) True = Some (Inr st) \<and> dm_bytes st = 4 \<and>
     dm_dir st (dump_name 0) = Some [1, 2] \<and> dm_dir st (dump_name 1) = Some [3] \<and>
     open_spool_target False False
       [\<lparr>se_name = dump_name 0, se_regular = True, se_reads = Some [Chunk [1, 2]]\<rparr>,
        \<lparr>se_name = dump_name 1, se_regular = True, se_reads = Some [Chunk [3]]\<rparr>]
       (dm_dir st) [] [] = Inr d \<and> sd_dir d (dump_name 0) = None"
proof -
  let ?st = "\<lparr>dm_dir = (\<lambda>_. None)(dump_name 0 := Some [1, 2], dump_name 1 := Some [3]), dm_file_num = 1, dm_tape_files = 2,
    dm_records = 2, dm_bytes = 4, dm_pending = [], dm_closes = [], dm_faults = []\<rparr>"
  let ?es = "[\<lparr>se_name = dump_name 0, se_regular = True, se_reads = Some [Chunk [1, 2]]\<rparr>,
    \<lparr>se_name = dump_name 1, se_regular = True, se_reads = Some [Chunk [3]]\<rparr>]"
  have neq: "dump_name 1 \<noteq> dump_name 0" using dump_name_inj [of 1 0] by auto
  have run: "do_dump (\<lambda>_. None) [None, Some 1] [] (map Inr sample_calls) True = Some (Inr ?st)"
    using neq by (simp add: do_dump_def sample_calls_def end_record_def open_output_def dump_syscall_def current_path_def
        dump_record_def dump_content_def dump_filemark_def dump_end_def dump_close_def next_close_def fun_eq_iff)
  have files: "tape_files [] sample_calls = [[[1, 2]], [[3, 4]]]" by (simp add: sample_calls_def end_record_def)
  have list: "listing ?es (dm_dir ?st)"
    using neq by (auto simp: listing_def delivers_def)
  note T = dump_exact_but_lost [OF run files _ list, of zero_hash "[]"]
  from T obtain d where "open_spool_target False False ?es (dm_dir ?st) [] [] = Inr d" "sd_dir d (dump_name 0) = None"
    by fastforce
  moreover have "dm_dir ?st (dump_name 0) = Some [1, 2]" "dm_dir ?st (dump_name 1) = Some [3]" "dm_bytes ?st = 4" using neq by simp_all
  ultimately show ?thesis using run by blast
qed

end
