(* ===== verification/PaxPipeline.thy ===== *)
theory PaxPipeline
  imports Queues
begin

text \<open>
  The pipeline of src/neotape_pax_writer.cpp that turns the entries of one slice into a pax
  stream: the calling thread dispatches the entries, worker threads serialize small files, the
  serializer thread puts everything in order and streams large files, and the output thread
  hands the chunks to the callback of the client.

  libarchive, the file system and the client's callback are parameters (\<open>pax_env\<close>).  Every
  critical section of a queue is one step of a thread; a thread that waits has no step.  Thread
  creation is taken to succeed; diagnostics and verbose lines are left out.
\<close>

section \<open>Entries and libarchive\<close>

text \<open>The results of a libarchive call: \<open>ARCHIVE_OK\<close>, \<open>ARCHIVE_WARN\<close>, \<open>ARCHIVE_RETRY\<close> or
  \<open>ARCHIVE_FAILED\<close>, and \<open>ARCHIVE_FATAL\<close>.\<close>

datatype archive_status = A_ok | A_warn | A_failed | A_fatal

text \<open>A \<open>read\<close> of an open file; a script that is used up reads 0 bytes.\<close>

datatype file_read = File_data bytes | File_read_fails

text \<open>
  The entry accessors, opening a file for reading, and a pax writer of libarchive: setting one
  up (\<open>None\<close>: a call fails), and each call with what it passes to the client's write
  callback.  Then whether the client's callback throws on a chunk after some chunks, and whether
  the slice is the last one, which alone gets the end-of-archive marker.
\<close>

record ('e, 'w) pax_env =
  pe_is_reg :: "'e \<Rightarrow> bool"
  pe_size :: "'e \<Rightarrow> int"
  pe_sourcepath :: "'e \<Rightarrow> string option"
  pe_pathname :: "'e \<Rightarrow> string option"
  pe_open :: "string \<Rightarrow> file_read list option"
  pe_new_writer :: "'w option"
  pe_write_header :: "'w \<Rightarrow> 'e \<Rightarrow> archive_status \<times> bytes list \<times> 'w"
  pe_write_data :: "'w \<Rightarrow> bytes \<Rightarrow> int \<times> bytes list \<times> 'w"
  pe_finish_entry :: "'w \<Rightarrow> archive_status \<times> bytes list \<times> 'w"
  pe_close :: "'w \<Rightarrow> archive_status"
  pe_callback_throws :: "bytes list \<Rightarrow> bytes \<Rightarrow> bool"
  pe_last_slice :: bool

record pax_options =
  px_output_buf_size :: u64
  px_buffer_percent :: u32
  px_io_thread :: u32

definition small_file_threshold :: nat where "small_file_threshold = 4 * 1024 * 1024"
definition stream_flush_thresh :: nat where "stream_flush_thresh = 4 * 1024 * 1024"

definition check_archive_throw :: "archive_status \<Rightarrow> bool" where
  "check_archive_throw r \<longleftrightarrow> r \<noteq> A_ok \<and> r \<noteq> A_warn"

definition entry_source :: "('e, 'w) pax_env \<Rightarrow> 'e \<Rightarrow> string option" where
  "entry_source env e = (case pe_sourcepath env e of Some src \<Rightarrow> Some src | None \<Rightarrow> pe_pathname env e)"

definition open_entry_file :: "('e, 'w) pax_env \<Rightarrow> 'e \<Rightarrow> file_read list option" where
  "open_entry_file env e = (case entry_source env e of None \<Rightarrow> None | Some src \<Rightarrow> pe_open env src)"

text \<open>What the writer passed on, and the writer, or \<open>None\<close> for an exception.\<close>

fun copy_loop :: "('e, 'w) pax_env \<Rightarrow> file_read list \<Rightarrow> 'w \<Rightarrow> bytes list \<times> 'w option" where
  "copy_loop env [] w = ([], Some w)"
| "copy_loop env (File_read_fails # rs) w = ([], None)"
| "copy_loop env (File_data buf # rs) w =
    (if buf = [] then ([], Some w)
     else case pe_write_data env w buf of
       (n, out, w) \<Rightarrow>
         if n < 0 \<or> n \<noteq> int (length buf) then (out, None)
         else case copy_loop env rs w of (out', r) \<Rightarrow> (out @ out', r))"

definition copy_file_data :: "('e, 'w) pax_env \<Rightarrow> 'w \<Rightarrow> 'e \<Rightarrow> file_read list \<Rightarrow> bytes list \<times> 'w option" where
  "copy_file_data env w e fd = (if entry_source env e = None then ([], None) else copy_loop env fd w)"

datatype 'w write_outcome = Entry_throws | Entry_rejected 'w | Entry_written 'w

definition write_entry :: "('e, 'w) pax_env \<Rightarrow> 'w \<Rightarrow> 'e \<Rightarrow> file_read list option \<Rightarrow> bytes list \<times> 'w write_outcome" where
  "write_entry env w e fd =
    (case pe_write_header env w e of
       (r, out, w) \<Rightarrow>
         if r = A_fatal then (out, Entry_throws)
         else if r \<noteq> A_ok then (out, Entry_rejected w)
         else case (case fd of None \<Rightarrow> ([], Some w) | Some rs \<Rightarrow> copy_file_data env w e rs) of
           (out2, None) \<Rightarrow> (out @ out2, Entry_throws)
         | (out2, Some w) \<Rightarrow>
             (case pe_finish_entry env w of
                (r, out3, w) \<Rightarrow> (out @ out2 @ out3, if check_archive_throw r then Entry_throws else Entry_written w)))"

definition serialize_entry :: "('e, 'w) pax_env \<Rightarrow> 'e \<Rightarrow> file_read list option \<Rightarrow> bytes option" where
  "serialize_entry env e fd =
    (case pe_new_writer env of
       None \<Rightarrow> None
     | Some w \<Rightarrow>
         (case write_entry env w e fd of
            (_, Entry_throws) \<Rightarrow> None
          | (_, Entry_rejected w) \<Rightarrow> Some []
          | (out, Entry_written w) \<Rightarrow> if check_archive_throw (pe_close env w) then None else Some (concat out)))"

section \<open>State\<close>

record 'e pipeline_work_item =
  wi_seq :: u64
  wi_entry :: 'e

datatype order_kind = Inline_bytes | Worker_result | Large_entry

record 'e pipeline_order_item =
  oi_kind :: order_kind
  oi_seq :: u64
  oi_count_input :: bool
  oi_bytes :: bytes
  oi_entry :: "'e option"

datatype pipeline_error =
    Worker_error | Serializer_error | Callback_error | Publish_cancelled | Slice_aborted

text \<open>
  Where each thread is.  \<open>_cancel n\<close> is a thread in \<open>request_cancel\<close> (or the same calls in a
  catch block) with n of the four containers still to close.
\<close>

datatype 'e pax_worker =
    W_pop | W_run "'e pipeline_work_item" | W_put u64 bytes | W_cancel nat | W_returned

datatype 'w pax_serializer =
    S_pop | S_take u64 | S_emit bytes bool | S_stream bytes "bytes list" "'w write_outcome" | S_cancel nat | S_returned

datatype pax_output = O_pop bool | O_write bytes | O_check | O_cancel nat | O_returned

text \<open>
  The calling thread: the entries still to dispatch, a work or order item it publishes, cancelling,
  \<open>finish_input\<close> with n queues to close, and the steps of \<open>join_threads\<close>.
\<close>

datatype 'e pax_main =
    M_entry "'e list"
  | M_work 'e "'e list"
  | M_order "'e pipeline_order_item" "'e list option"
  | M_cancel nat
  | M_input nat
  | M_join_workers
  | M_close_results
  | M_join_serializer
  | M_close_buffer
  | M_join_output
  | M_done

record ('e, 'w) pipeline =
  pp_order :: "'e pipeline_order_item closable_queue"
  pp_work :: "'e pipeline_work_item closable_queue"
  pp_results :: "bytes result_store"
  pp_bb1 :: bounded_buffer
  pp_error :: "pipeline_error option"
  pp_workers :: "'e pax_worker list"
  pp_serializer :: "'w pax_serializer"
  pp_output :: pax_output
  pp_main :: "'e pax_main"
  pp_next_seq :: u64
  pp_chunks :: "bytes list"
  pp_input_bytes :: u64
  pp_output_bytes :: u64
  pp_walked_entries :: u64

definition pipeline_worker_count :: "pax_options \<Rightarrow> nat" where
  "pipeline_worker_count opts = (if px_io_thread opts > 0 then unat (px_io_thread opts - 1) else 0)"

definition pipeline_order_queue_capacity :: "pax_options \<Rightarrow> nat" where
  "pipeline_order_queue_capacity opts = max 64 (unat (px_io_thread opts * 8))"

definition pipeline_work_queue_capacity :: "pax_options \<Rightarrow> nat" where
  "pipeline_work_queue_capacity opts = max 1 (unat (px_io_thread opts * 4))"

definition pipeline_result_capacity :: "pax_options \<Rightarrow> nat" where
  "pipeline_result_capacity opts = pipeline_order_queue_capacity opts + pipeline_worker_count opts"

definition output_restart_bytes :: "pax_options \<Rightarrow> nat" where
  "output_restart_bytes opts = unat (px_output_buf_size opts * ucast (px_buffer_percent opts) div 100)"

text \<open>\<open>begin_slice\<close> with \<open>start\<close>, before the entries of the slice.\<close>

definition start_pipeline :: "pax_options \<Rightarrow> 'e list \<Rightarrow> ('e, 'w) pipeline" where
  "start_pipeline opts es = \<lparr>
     pp_order = new_queue (pipeline_order_queue_capacity opts),
     pp_work = new_queue (pipeline_work_queue_capacity opts),
     pp_results = \<lparr>rs_max_size = pipeline_result_capacity opts, rs_results = [], rs_closed = False\<rparr>,
     pp_bb1 = new_buffer (unat (px_output_buf_size opts)),
     pp_error = None,
     pp_workers = replicate (pipeline_worker_count opts) W_pop,
     pp_serializer = S_pop,
     pp_output = O_pop (output_restart_bytes opts > 0),
     pp_main = M_entry es, pp_next_seq = 0, pp_chunks = [],
     pp_input_bytes = 0, pp_output_bytes = 0, pp_walked_entries = 0\<rparr>"

section \<open>Cancelling\<close>

definition cancel_request :: "pipeline_error \<Rightarrow> ('e, 'w) pipeline \<Rightarrow> ('e, 'w) pipeline" where
  "cancel_request e s = (if pp_error s = None then s\<lparr>pp_error := Some e\<rparr> else s)"

definition close_container :: "nat \<Rightarrow> ('e, 'w) pipeline \<Rightarrow> ('e, 'w) pipeline" where
  "close_container n s =
    (if n = 4 then s\<lparr>pp_work := queue_close (pp_work s)\<rparr>
     else if n = 3 then s\<lparr>pp_order := queue_close (pp_order s)\<rparr>
     else if n = 2 then s\<lparr>pp_results := store_close (pp_results s)\<rparr>
     else s\<lparr>pp_bb1 := buffer_close (pp_bb1 s)\<rparr>)"

section \<open>The workers\<close>

definition set_worker :: "nat \<Rightarrow> 'e pax_worker \<Rightarrow> ('e, 'w) pipeline \<Rightarrow> ('e, 'w) pipeline" where
  "set_worker i w s = s\<lparr>pp_workers := (pp_workers s)[i := w]\<rparr>"

definition worker_run :: "('e, 'w) pax_env \<Rightarrow> nat \<Rightarrow> 'e pipeline_work_item \<Rightarrow> ('e, 'w) pipeline \<Rightarrow> ('e, 'w) pipeline" where
  "worker_run env i item s =
    (case open_entry_file env (wi_entry item) of
       None \<Rightarrow> set_worker i (W_put (wi_seq item) []) s
     | Some fd \<Rightarrow>
         (case serialize_entry env (wi_entry item) (Some fd) of
            Some bs \<Rightarrow> set_worker i (W_put (wi_seq item) bs) s
          | None \<Rightarrow> set_worker i (W_cancel 4) (cancel_request Worker_error s)))"

definition pipeline_worker_main :: "('e, 'w) pax_env \<Rightarrow> nat \<Rightarrow> ('e, 'w) pipeline \<Rightarrow> ('e, 'w) pipeline option" where
  "pipeline_worker_main env i s =
    (if length (pp_workers s) \<le> i then None
     else case pp_workers s ! i of
       W_pop \<Rightarrow>
         (case queue_pop (pp_work s) of
            None \<Rightarrow> None
          | Some (q, None) \<Rightarrow> Some (set_worker i W_returned (s\<lparr>pp_work := q\<rparr>))
          | Some (q, Some item) \<Rightarrow> Some (set_worker i (W_run item) (s\<lparr>pp_work := q\<rparr>)))
     | W_run item \<Rightarrow> Some (worker_run env i item s)
     | W_put seq bs \<Rightarrow>
         (case store_put (pp_results s) seq bs of
            None \<Rightarrow> None
          | Some (r, ok) \<Rightarrow> Some (set_worker i (if ok then W_pop else W_returned) (s\<lparr>pp_results := r\<rparr>)))
     | W_cancel 0 \<Rightarrow> Some (set_worker i W_returned s)
     | W_cancel (Suc n) \<Rightarrow> Some (set_worker i (W_cancel n) (close_container (Suc n) s))
     | W_returned \<Rightarrow> None)"

section \<open>The serializer\<close>

definition serializer_fails :: "('e, 'w) pipeline \<Rightarrow> ('e, 'w) pipeline" where
  "serializer_fails s = (cancel_request Serializer_error s)\<lparr>pp_serializer := S_cancel 4\<rparr>"

definition begin_emit :: "bytes \<Rightarrow> bool \<Rightarrow> 'w pax_serializer" where
  "begin_emit bs count_input = (if bs = [] then S_pop else S_emit bs count_input)"

definition emit_bytes_to_bb1 :: "bytes \<Rightarrow> bool \<Rightarrow> ('e, 'w) pipeline \<Rightarrow> ('e, 'w) pipeline option" where
  "emit_bytes_to_bb1 bs count_input s =
    (case buffer_push (pp_bb1 s) bs of
       None \<Rightarrow> None
     | Some (b, False) \<Rightarrow> Some (s\<lparr>pp_bb1 := b, pp_serializer := S_returned\<rparr>)
     | Some (b, True) \<Rightarrow>
         Some (s\<lparr>pp_bb1 := b, pp_serializer := S_pop,
                 pp_input_bytes := pp_input_bytes s + (if count_input then of_nat (length bs) else 0)\<rparr>))"

definition flush_sink :: "bytes \<Rightarrow> 'w pax_serializer \<Rightarrow> ('e, 'w) pipeline \<Rightarrow> ('e, 'w) pipeline option" where
  "flush_sink accum continue s =
    (case buffer_push (pp_bb1 s) accum of
       None \<Rightarrow> None
     | Some (b, False) \<Rightarrow> Some (serializer_fails (s\<lparr>pp_bb1 := b\<rparr>))
     | Some (b, True) \<Rightarrow>
         Some (s\<lparr>pp_bb1 := b, pp_serializer := continue, pp_input_bytes := pp_input_bytes s + of_nat (length accum)\<rparr>))"

text \<open>\<open>stream_large_entry\<close>, one call of the write callback \<open>bb_sink_write\<close> at a time: a
  callback that cannot flush fails the libarchive call, which throws.\<close>

definition stream_large_entry :: "bytes \<Rightarrow> bytes list \<Rightarrow> 'w write_outcome \<Rightarrow> ('e, 'w) pipeline \<Rightarrow> ('e, 'w) pipeline option" where
  "stream_large_entry accum out outcome s =
    (if length accum \<ge> stream_flush_thresh then flush_sink accum (S_stream [] out outcome) s
     else case out of
       bs # out \<Rightarrow> Some (s\<lparr>pp_serializer := S_stream (accum @ bs) out outcome\<rparr>)
     | [] \<Rightarrow>
         (case outcome of
            Entry_throws \<Rightarrow> Some (serializer_fails s)
          | Entry_rejected w \<Rightarrow> Some (s\<lparr>pp_serializer := S_pop\<rparr>)
          | Entry_written w \<Rightarrow>
              if accum = [] then Some (s\<lparr>pp_serializer := S_pop\<rparr>) else flush_sink accum S_pop s))"

definition begin_large :: "('e, 'w) pax_env \<Rightarrow> 'e \<Rightarrow> ('e, 'w) pipeline \<Rightarrow> ('e, 'w) pipeline" where
  "begin_large env e s =
    (case open_entry_file env e of
       None \<Rightarrow> s\<lparr>pp_serializer := S_pop\<rparr>
     | Some fd \<Rightarrow>
         (case pe_new_writer env of
            None \<Rightarrow> serializer_fails s
          | Some w \<Rightarrow> (case write_entry env w e (Some fd) of (out, outcome) \<Rightarrow> s\<lparr>pp_serializer := S_stream [] out outcome\<rparr>)))"

definition begin_item :: "('e, 'w) pax_env \<Rightarrow> 'e pipeline_order_item \<Rightarrow> ('e, 'w) pipeline \<Rightarrow> ('e, 'w) pipeline" where
  "begin_item env item s =
    (case oi_kind item of
       Inline_bytes \<Rightarrow> s\<lparr>pp_serializer := begin_emit (oi_bytes item) (oi_count_input item)\<rparr>
     | Worker_result \<Rightarrow> s\<lparr>pp_serializer := S_take (oi_seq item)\<rparr>
     | Large_entry \<Rightarrow> (case oi_entry item of None \<Rightarrow> s\<lparr>pp_serializer := S_pop\<rparr> | Some e \<Rightarrow> begin_large env e s))"

definition pipeline_serializer_main :: "('e, 'w) pax_env \<Rightarrow> ('e, 'w) pipeline \<Rightarrow> ('e, 'w) pipeline option" where
  "pipeline_serializer_main env s =
    (case pp_serializer s of
       S_pop \<Rightarrow>
         (case queue_pop (pp_order s) of
            None \<Rightarrow> None
          | Some (q, None) \<Rightarrow> Some (s\<lparr>pp_order := q, pp_serializer := S_returned\<rparr>)
          | Some (q, Some item) \<Rightarrow> Some (begin_item env item (s\<lparr>pp_order := q\<rparr>)))
     | S_take seq \<Rightarrow>
         (case store_take (pp_results s) seq of
            None \<Rightarrow> None
          | Some (r, None) \<Rightarrow> Some (s\<lparr>pp_results := r, pp_serializer := S_returned\<rparr>)
          | Some (r, Some bs) \<Rightarrow> Some (s\<lparr>pp_results := r, pp_serializer := begin_emit bs True\<rparr>))
     | S_emit bs count_input \<Rightarrow> emit_bytes_to_bb1 bs count_input s
     | S_stream accum out outcome \<Rightarrow> stream_large_entry accum out outcome s
     | S_cancel 0 \<Rightarrow> Some (s\<lparr>pp_serializer := S_returned\<rparr>)
     | S_cancel (Suc n) \<Rightarrow> Some ((close_container (Suc n) s)\<lparr>pp_serializer := S_cancel n\<rparr>)
     | S_returned \<Rightarrow> None)"

section \<open>The output thread\<close>

definition output_main :: "('e, 'w) pax_env \<Rightarrow> pax_options \<Rightarrow> ('e, 'w) pipeline \<Rightarrow> ('e, 'w) pipeline option" where
  "output_main env opts s =
    (case pp_output s of
       O_pop wait_for_waterline \<Rightarrow>
         (case (if wait_for_waterline then buffer_pop_after_fill (pp_bb1 s) (output_restart_bytes opts)
                else buffer_pop (pp_bb1 s)) of
            None \<Rightarrow> None
          | Some (b, r) \<Rightarrow>
              let chunk = item_or_empty r
              in Some (s\<lparr>pp_bb1 := b, pp_output := (if chunk = [] then O_returned else O_write chunk)\<rparr>))
     | O_write chunk \<Rightarrow>
         if pe_callback_throws env (pp_chunks s) chunk
         then Some ((cancel_request Callback_error s)\<lparr>pp_output := O_cancel 4\<rparr>)
         else Some (s\<lparr>pp_output := O_check, pp_chunks := pp_chunks s @ [chunk],
                      pp_output_bytes := pp_output_bytes s + of_nat (length chunk)\<rparr>)
     | O_check \<Rightarrow> Some (s\<lparr>pp_output := O_pop (output_restart_bytes opts > 0 \<and> size_bytes (pp_bb1 s) = 0)\<rparr>)
     | O_cancel 0 \<Rightarrow> Some (s\<lparr>pp_output := O_returned\<rparr>)
     | O_cancel (Suc n) \<Rightarrow> Some ((close_container (Suc n) s)\<lparr>pp_output := O_cancel n\<rparr>)
     | O_returned \<Rightarrow> None)"

section \<open>The calling thread\<close>

definition has_data :: "('e, 'w) pax_env \<Rightarrow> 'e \<Rightarrow> bool" where
  "has_data env e \<longleftrightarrow> pe_is_reg env e \<and> pe_size env e > 0"

definition is_large :: "('e, 'w) pax_env \<Rightarrow> pax_options \<Rightarrow> 'e \<Rightarrow> bool" where
  "is_large env opts e \<longleftrightarrow> pipeline_worker_count opts = 0 \<or> pe_size env e > int small_file_threshold"

definition inline_item :: "u64 \<Rightarrow> bytes \<Rightarrow> bool \<Rightarrow> 'e pipeline_order_item" where
  "inline_item seq bs count_input =
    \<lparr>oi_kind = Inline_bytes, oi_seq = seq, oi_count_input = count_input, oi_bytes = bs, oi_entry = None\<rparr>"

definition small_item :: "u64 \<Rightarrow> 'e pipeline_order_item" where
  "small_item seq = \<lparr>oi_kind = Worker_result, oi_seq = seq, oi_count_input = True, oi_bytes = [], oi_entry = None\<rparr>"

definition large_item :: "u64 \<Rightarrow> 'e \<Rightarrow> 'e pipeline_order_item" where
  "large_item seq e = \<lparr>oi_kind = Large_entry, oi_seq = seq, oi_count_input = True, oi_bytes = [], oi_entry = Some e\<rparr>"

text \<open>An exception in the calling thread: \<open>slices.abort()\<close>.\<close>

definition main_fails :: "pipeline_error \<Rightarrow> ('e, 'w) pipeline \<Rightarrow> ('e, 'w) pipeline" where
  "main_fails e s = (cancel_request e s)\<lparr>pp_main := M_cancel 4\<rparr>"

definition dispatch_entry_to_pipeline ::
  "('e, 'w) pax_env \<Rightarrow> pax_options \<Rightarrow> 'e \<Rightarrow> 'e list \<Rightarrow> ('e, 'w) pipeline \<Rightarrow> ('e, 'w) pipeline" where
  "dispatch_entry_to_pipeline env opts e rest s =
    (let seq = pp_next_seq s; s = s\<lparr>pp_next_seq := seq + 1, pp_walked_entries := pp_walked_entries s + 1\<rparr>
     in if \<not> has_data env e then
          (case serialize_entry env e None of
             None \<Rightarrow> main_fails Slice_aborted s
           | Some bs \<Rightarrow> s\<lparr>pp_main := M_order (inline_item seq bs True) (Some rest)\<rparr>)
        else if is_large env opts e then s\<lparr>pp_main := M_order (large_item seq e) (Some rest)\<rparr>
        else s\<lparr>pp_main := M_work e rest\<rparr>)"

definition emit_eoa :: "('e, 'w) pipeline \<Rightarrow> ('e, 'w) pipeline" where
  "emit_eoa s = s\<lparr>pp_next_seq := pp_next_seq s + 1,
     pp_main := M_order (inline_item (pp_next_seq s) (replicate 1024 0) False) None\<rparr>"

text \<open>The two pushes of \<open>enqueue_small\<close>, the push of the other items, and what follows a refused one.\<close>

definition enqueue_work :: "'e \<Rightarrow> 'e list \<Rightarrow> ('e, 'w) pipeline \<Rightarrow> ('e, 'w) pipeline option" where
  "enqueue_work e rest s =
    (case queue_push (pp_work s) \<lparr>wi_seq = pp_next_seq s - 1, wi_entry = e\<rparr> of
       None \<Rightarrow> None
     | Some (q, True) \<Rightarrow> Some (s\<lparr>pp_work := q, pp_main := M_order (small_item (pp_next_seq s - 1)) (Some rest)\<rparr>)
     | Some (q, False) \<Rightarrow> Some (main_fails Slice_aborted (s\<lparr>pp_work := q\<rparr>)))"

definition enqueue_order :: "'e pipeline_order_item \<Rightarrow> 'e list option \<Rightarrow> ('e, 'w) pipeline \<Rightarrow> ('e, 'w) pipeline option" where
  "enqueue_order item rest s =
    (case queue_push (pp_order s) item of
       None \<Rightarrow> None
     | Some (q, True) \<Rightarrow> Some (s\<lparr>pp_order := q, pp_main := (case rest of Some es \<Rightarrow> M_entry es | None \<Rightarrow> M_input 2)\<rparr>)
     | Some (q, False) \<Rightarrow>
         Some (main_fails (if oi_kind item = Worker_result then Publish_cancelled else Slice_aborted) (s\<lparr>pp_order := q\<rparr>)))"

definition finish_input :: "nat \<Rightarrow> ('e, 'w) pipeline \<Rightarrow> ('e, 'w) pipeline" where
  "finish_input n s =
    (if n = 2 then s\<lparr>pp_work := queue_close (pp_work s), pp_main := M_input 1\<rparr>
     else s\<lparr>pp_order := queue_close (pp_order s), pp_main := M_join_workers\<rparr>)"

definition main_step :: "('e, 'w) pax_env \<Rightarrow> pax_options \<Rightarrow> ('e, 'w) pipeline \<Rightarrow> ('e, 'w) pipeline option" where
  "main_step env opts s =
    (case pp_main s of
       M_entry [] \<Rightarrow> Some (if pe_last_slice env then emit_eoa s else s\<lparr>pp_main := M_input 2\<rparr>)
     | M_entry (e # rest) \<Rightarrow> Some (dispatch_entry_to_pipeline env opts e rest s)
     | M_work e rest \<Rightarrow> enqueue_work e rest s
     | M_order item rest \<Rightarrow> enqueue_order item rest s
     | M_cancel 0 \<Rightarrow> Some (s\<lparr>pp_main := M_input 2\<rparr>)
     | M_cancel (Suc n) \<Rightarrow> Some ((close_container (Suc n) s)\<lparr>pp_main := M_cancel n\<rparr>)
     | M_input n \<Rightarrow> Some (finish_input n s)
     | M_join_workers \<Rightarrow> if \<forall>w \<in> set (pp_workers s). w = W_returned then Some (s\<lparr>pp_main := M_close_results\<rparr>) else None
     | M_close_results \<Rightarrow> Some (s\<lparr>pp_results := store_close (pp_results s), pp_main := M_join_serializer\<rparr>)
     | M_join_serializer \<Rightarrow> if pp_serializer s = S_returned then Some (s\<lparr>pp_main := M_close_buffer\<rparr>) else None
     | M_close_buffer \<Rightarrow> Some (s\<lparr>pp_bb1 := buffer_close (pp_bb1 s), pp_main := M_join_output\<rparr>)
     | M_join_output \<Rightarrow> if pp_output s = O_returned then Some (s\<lparr>pp_main := M_done\<rparr>) else None
     | M_done \<Rightarrow> None)"

section \<open>Runs\<close>

datatype pax_thread = Main_thread | Worker_thread nat | Serializer_thread | Output_thread

definition pipeline_step ::
  "('e, 'w) pax_env \<Rightarrow> pax_options \<Rightarrow> pax_thread \<Rightarrow> ('e, 'w) pipeline \<Rightarrow> ('e, 'w) pipeline option" where
  "pipeline_step env opts t s =
    (case t of
       Main_thread \<Rightarrow> main_step env opts s
     | Worker_thread i \<Rightarrow> pipeline_worker_main env i s
     | Serializer_thread \<Rightarrow> pipeline_serializer_main env s
     | Output_thread \<Rightarrow> output_main env opts s)"

text \<open>A schedule: the threads in the order they step.  A thread that waits is not in it.\<close>

fun pipeline_run ::
  "('e, 'w) pax_env \<Rightarrow> pax_options \<Rightarrow> pax_thread list \<Rightarrow> ('e, 'w) pipeline \<Rightarrow> ('e, 'w) pipeline option" where
  "pipeline_run env opts [] s = Some s"
| "pipeline_run env opts (t # ts) s =
    (case pipeline_step env opts t s of None \<Rightarrow> None | Some s \<Rightarrow> pipeline_run env opts ts s)"

text \<open>What \<open>finish_slice\<close> of the joined pipeline does: it returns, or rethrows.\<close>

definition pipeline_result :: "('e, 'w) pipeline \<Rightarrow> pipeline_error + bytes list" where
  "pipeline_result s = (case pp_error s of Some e \<Rightarrow> Inl e | None \<Rightarrow> Inr (pp_chunks s))"

end
