(* ===== verification/PaxPipelineSpec.thy ===== *)
theory PaxPipelineSpec
  imports PaxPipeline "HOL-Library.Multiset" "HOL-Library.Sublist"
begin

text \<open>
  The pipeline against the sequential reference \<open>pax_stream\<close>: under every interleaving it
  hands out the entries in order, it never deadlocks, and it ends.
\<close>

section \<open>The reference\<close>

text \<open>What one entry contributes: nothing when its file cannot be opened or its header is rejected.\<close>

definition entry_input :: "('e, 'w) pax_env \<Rightarrow> 'e \<Rightarrow> file_read list option option" where
  "entry_input env e = (if has_data env e then map_option Some (open_entry_file env e) else Some None)"

definition entry_bytes :: "('e, 'w) pax_env \<Rightarrow> 'e \<Rightarrow> bytes" where
  "entry_bytes env e =
    (case entry_input env e of
       None \<Rightarrow> []
     | Some fd \<Rightarrow>
         (case pe_new_writer env of
            None \<Rightarrow> []
          | Some w \<Rightarrow> (case write_entry env w e fd of (out, Entry_written _) \<Rightarrow> concat out | _ \<Rightarrow> [])))"

definition pax_stream :: "('e, 'w) pax_env \<Rightarrow> 'e list \<Rightarrow> bytes" where
  "pax_stream env es = concat (map (entry_bytes env) es) @ (if pe_last_slice env then replicate 1024 0 else [])"

text \<open>The entries that end the archive: one of their calls throws.\<close>

definition entry_fails :: "('e, 'w) pax_env \<Rightarrow> pax_options \<Rightarrow> 'e \<Rightarrow> bool" where
  "entry_fails env opts e =
    (case entry_input env e of
       None \<Rightarrow> False
     | Some fd \<Rightarrow>
         if has_data env e \<and> is_large env opts e then
           (case pe_new_writer env of None \<Rightarrow> True | Some w \<Rightarrow> snd (write_entry env w e fd) = Entry_throws)
         else serialize_entry env e fd = None)"

text \<open>A rejected header is smaller than the sink's buffer, so that none of it has left the sink.\<close>

definition headers_fit :: "('e, 'w) pax_env \<Rightarrow> bool" where
  "headers_fit env \<longleftrightarrow> (\<forall>w e r out w'. pe_write_header env w e = (r, out, w') \<and> r \<noteq> A_ok \<longrightarrow>
     length (concat out) < stream_flush_thresh)"

section \<open>Streaming\<close>

text \<open>What a streamed entry still pushes.\<close>

function streamed :: "bytes \<Rightarrow> bytes list \<Rightarrow> 'w write_outcome \<Rightarrow> bytes" where
  "streamed accum out outcome =
    (if length accum \<ge> stream_flush_thresh then accum @ streamed [] out outcome
     else case out of
       bs # out \<Rightarrow> streamed (accum @ bs) out outcome
     | [] \<Rightarrow> (case outcome of Entry_written _ \<Rightarrow> accum | _ \<Rightarrow> []))"
  by pat_completeness auto
termination
  by (relation "measure (\<lambda>(accum, out, _). 2 * length out + (if length accum \<ge> stream_flush_thresh then 1 else 0))")
    (auto simp: stream_flush_thresh_def)

declare streamed.simps [simp del]

lemma streamed_written: "streamed accum out (Entry_written w) = accum @ concat out"
proof (induction accum out "Entry_written w :: 'a write_outcome" rule: streamed.induct)
  case (1 accum out)
  show ?case
  proof (cases "length accum \<ge> stream_flush_thresh")
    case True
    with 1(1) show ?thesis by (simp add: streamed.simps [of accum])
  next
    case False
    with 1(2) [OF False] show ?thesis by (cases out) (simp_all add: streamed.simps [of accum])
  qed
qed

lemma streamed_small:
  "length (accum @ concat out) < stream_flush_thresh \<Longrightarrow> streamed accum out (Entry_rejected w) = []"
proof (induction out arbitrary: accum)
  case (Cons bs out)
  then show ?case using Cons.IH [of "accum @ bs"] by (simp add: streamed.simps [of accum])
qed (simp add: streamed.simps)

definition entry_stream :: "('e, 'w) pax_env \<Rightarrow> pax_options \<Rightarrow> 'e \<Rightarrow> bytes" where
  "entry_stream env opts e =
    (case entry_input env e of
       None \<Rightarrow> []
     | Some fd \<Rightarrow>
         if has_data env e \<and> is_large env opts e then
           (case pe_new_writer env of
              None \<Rightarrow> []
            | Some w \<Rightarrow> (case write_entry env w e fd of (out, outcome) \<Rightarrow> streamed [] out outcome))
         else case serialize_entry env e fd of None \<Rightarrow> [] | Some bs \<Rightarrow> bs)"

lemma write_entry_rejected:
  "write_entry env w e fd = (out, Entry_rejected w') \<Longrightarrow> \<exists>r. pe_write_header env w e = (r, out, w') \<and> r \<noteq> A_ok"
  by (auto simp: write_entry_def split: prod.splits if_splits option.splits)

lemma entry_stream_eq:
  assumes "headers_fit env" and "\<not> entry_fails env opts e"
  shows "entry_stream env opts e = entry_bytes env e"
proof (cases "entry_input env e")
  case (Some fd)
  show ?thesis
  proof (cases "pe_new_writer env")
    case None
    with Some assms(2) show ?thesis by (simp add: entry_stream_def entry_bytes_def entry_fails_def serialize_entry_def split: if_splits)
  next
    case (Some w)
    obtain out oc where w: "write_entry env w e fd = (out, oc)" by (cases "write_entry env w e fd")
    note d = entry_stream_def entry_bytes_def entry_fails_def serialize_entry_def
    show ?thesis
    proof (cases oc)
      case Entry_throws
      with w Some \<open>entry_input env e = Some fd\<close> assms(2) show ?thesis by (simp add: d split: if_splits)
    next
      case (Entry_rejected w')
      from write_entry_rejected [OF w [unfolded this]] assms(1) have "length (concat out) < stream_flush_thresh"
        unfolding headers_fit_def by blast
      then have "streamed [] out oc = []" using Entry_rejected streamed_small [of "[]" out] by simp
      with w Some \<open>entry_input env e = Some fd\<close> Entry_rejected show ?thesis by (simp add: d)
    next
      case (Entry_written w')
      with w Some \<open>entry_input env e = Some fd\<close> assms(2) show ?thesis by (simp add: d streamed_written split: if_splits)
    qed
  qed
qed (simp add: entry_stream_def entry_bytes_def)

section \<open>Items by their index\<close>

definition seq_of :: "nat \<Rightarrow> u64" where "seq_of i = word_of_nat i"

definition small_at :: "('e, 'w) pax_env \<Rightarrow> pax_options \<Rightarrow> 'e list \<Rightarrow> nat \<Rightarrow> bool" where
  "small_at env opts es i \<longleftrightarrow> i < length es \<and> has_data env (es ! i) \<and> \<not> is_large env opts (es ! i)"

definition work_of :: "'e list \<Rightarrow> nat \<Rightarrow> 'e pipeline_work_item" where
  "work_of es i = \<lparr>wi_seq = seq_of i, wi_entry = es ! i\<rparr>"

definition planned_item :: "('e, 'w) pax_env \<Rightarrow> pax_options \<Rightarrow> 'e list \<Rightarrow> nat \<Rightarrow> 'e pipeline_order_item" where
  "planned_item env opts es i =
    (if i < length es then
       (if \<not> has_data env (es ! i) then inline_item (seq_of i) (the (serialize_entry env (es ! i) None)) True
        else if is_large env opts (es ! i) then large_item (seq_of i) (es ! i)
        else small_item (seq_of i))
     else inline_item (seq_of i) (replicate 1024 0) False)"

definition item_count :: "('e, 'w) pax_env \<Rightarrow> 'e list \<Rightarrow> nat" where
  "item_count env es = length es + (if pe_last_slice env then 1 else 0)"

definition outs :: "('e, 'w) pax_env \<Rightarrow> pax_options \<Rightarrow> 'e list \<Rightarrow> bytes list" where
  "outs env opts es = map (entry_stream env opts) es @ (if pe_last_slice env then [replicate 1024 0] else [])"

definition done_bytes :: "('e, 'w) pax_env \<Rightarrow> pax_options \<Rightarrow> 'e list \<Rightarrow> nat \<Rightarrow> bytes" where
  "done_bytes env opts es k = concat (take k (outs env opts es))"

definition none_failed :: "('e, 'w) pax_env \<Rightarrow> pax_options \<Rightarrow> 'e list \<Rightarrow> nat \<Rightarrow> bool" where
  "none_failed env opts es k \<longleftrightarrow> (\<forall>i<k. i < length es \<longrightarrow> \<not> entry_fails env opts (es ! i))"

lemma length_outs [simp]: "length (outs env opts es) = item_count env es"
  by (simp add: outs_def item_count_def)

lemma outs_nth: "i < length es \<Longrightarrow> outs env opts es ! i = entry_stream env opts (es ! i)"
  by (simp add: outs_def nth_append)

lemma outs_last: "pe_last_slice env \<Longrightarrow> outs env opts es ! length es = replicate 1024 0"
  by (simp add: outs_def nth_append)

lemma done_bytes_0 [simp]: "done_bytes env opts es 0 = []"
  by (simp add: done_bytes_def)

lemma done_bytes_Suc: "k < item_count env es \<Longrightarrow> done_bytes env opts es (Suc k) = done_bytes env opts es k @ outs env opts es ! k"
  by (simp add: done_bytes_def take_Suc_conv_app_nth)

lemma done_bytes_prefix: "prefix (done_bytes env opts es k) (concat (outs env opts es))"
  by (metis append_take_drop_id concat_append done_bytes_def prefixI)

lemma none_failed_0 [simp]: "none_failed env opts es 0"
  by (simp add: none_failed_def)

lemma none_failed_Suc:
  "none_failed env opts es (Suc k) \<longleftrightarrow> none_failed env opts es k \<and> (k < length es \<longrightarrow> \<not> entry_fails env opts (es ! k))"
  by (auto simp: none_failed_def less_Suc_eq)

section \<open>Invariant: what is published, serialized and written\<close>

definition main_at :: "('e, 'w) pax_env \<Rightarrow> pax_options \<Rightarrow> 'e list \<Rightarrow> nat \<Rightarrow> 'e pax_main \<Rightarrow> u64 \<Rightarrow> bool" where
  "main_at env opts es n m sq =
    (case m of
       M_entry rest \<Rightarrow> n \<le> length es \<and> rest = drop n es \<and> sq = seq_of n
     | M_work e rest \<Rightarrow> small_at env opts es n \<and> e = es ! n \<and> rest = drop (Suc n) es \<and> sq = seq_of (Suc n)
     | M_order it (Some rest) \<Rightarrow> n < length es \<and> it = planned_item env opts es n \<and> rest = drop (Suc n) es \<and>
         sq = seq_of (Suc n) \<and> (has_data env (es ! n) \<or> serialize_entry env (es ! n) None \<noteq> None)
     | M_order it None \<Rightarrow> n = length es \<and> pe_last_slice env \<and> it = planned_item env opts es n
     | _ \<Rightarrow> True)"

definition orders :: "('e, 'w) pax_env \<Rightarrow> pax_options \<Rightarrow> 'e list \<Rightarrow> nat \<Rightarrow> nat \<Rightarrow> 'e pipeline_order_item list \<Rightarrow> bool" where
  "orders env opts es k n items \<longleftrightarrow> k \<le> n \<and> n \<le> item_count env es \<and> items = map (planned_item env opts es) [k..<n] \<and>
     (\<forall>i<n. i < length es \<longrightarrow> has_data env (es ! i) \<or> serialize_entry env (es ! i) None \<noteq> None)"

definition result_ok :: "('e, 'w) pax_env \<Rightarrow> pax_options \<Rightarrow> 'e list \<Rightarrow> u64 \<Rightarrow> bytes \<Rightarrow> bool" where
  "result_ok env opts es q bs \<longleftrightarrow> (\<exists>i. small_at env opts es i \<and> q = seq_of i \<and> bs = outs env opts es ! i \<and> \<not> entry_fails env opts (es ! i))"

definition work_ok :: "('e, 'w) pax_env \<Rightarrow> pax_options \<Rightarrow> 'e list \<Rightarrow> 'e pipeline_work_item \<Rightarrow> bool" where
  "work_ok env opts es it \<longleftrightarrow> (\<exists>i. small_at env opts es i \<and> it = work_of es i)"

definition worker_ok :: "('e, 'w) pax_env \<Rightarrow> pax_options \<Rightarrow> 'e list \<Rightarrow> 'e pax_worker \<Rightarrow> bool" where
  "worker_ok env opts es w = (case w of W_run it \<Rightarrow> work_ok env opts es it | W_put q bs \<Rightarrow> result_ok env opts es q bs | _ \<Rightarrow> True)"

definition data_ok :: "('e, 'w) pax_env \<Rightarrow> pax_options \<Rightarrow> 'e list \<Rightarrow> 'e pipeline_work_item list \<Rightarrow> 'e pax_worker list \<Rightarrow>
    (u64 \<times> bytes) list \<Rightarrow> bool" where
  "data_ok env opts es items ws rs \<longleftrightarrow> (\<forall>it\<in>set items. work_ok env opts es it) \<and>
     (\<forall>w\<in>set ws. worker_ok env opts es w) \<and> (\<forall>(q, bs)\<in>set rs. result_ok env opts es q bs)"

text \<open>The serializer has taken k items and pushed the bytes P.\<close>

definition streaming :: "('e, 'w) pax_env \<Rightarrow> 'e \<Rightarrow> 'w write_outcome \<Rightarrow> bool" where
  "streaming env e oc \<longleftrightarrow> (\<exists>fd w. open_entry_file env e = Some fd \<and> pe_new_writer env = Some w \<and>
     snd (write_entry env w e (Some fd)) = oc)"

definition serializer_at :: "('e, 'w) pax_env \<Rightarrow> pax_options \<Rightarrow> 'e list \<Rightarrow> nat \<Rightarrow> bytes \<Rightarrow> 'w pax_serializer \<Rightarrow> bool" where
  "serializer_at env opts es k P ser =
    (case ser of
       S_pop \<Rightarrow> P = done_bytes env opts es k \<and> none_failed env opts es k
     | S_take q \<Rightarrow> (\<exists>j. k = Suc j \<and> small_at env opts es j \<and> q = seq_of j \<and> P = done_bytes env opts es j \<and> none_failed env opts es j)
     | S_emit bs c \<Rightarrow> (\<exists>j. k = Suc j \<and> bs \<noteq> [] \<and> bs = outs env opts es ! j \<and> P = done_bytes env opts es j \<and> none_failed env opts es k)
     | S_stream accum out oc \<Rightarrow> (\<exists>j fl. k = Suc j \<and> j < length es \<and> has_data env (es ! j) \<and> is_large env opts (es ! j) \<and>
         streaming env (es ! j) oc \<and> P = done_bytes env opts es j @ fl \<and>
         outs env opts es ! j = fl @ streamed accum out oc \<and> none_failed env opts es j)
     | S_cancel _ \<Rightarrow> prefix P (concat (outs env opts es))
     | S_returned \<Rightarrow> prefix P (concat (outs env opts es)))"

definition output_at :: "bytes \<Rightarrow> bytes list \<Rightarrow> bytes list \<Rightarrow> pax_output \<Rightarrow> bool" where
  "output_at P buf chunks t =
    (case t of
       O_pop _ \<Rightarrow> P = concat chunks @ concat buf
     | O_check \<Rightarrow> P = concat chunks @ concat buf
     | O_write c \<Rightarrow> P = concat chunks @ c @ concat buf
     | O_cancel _ \<Rightarrow> prefix (concat chunks) P
     | O_returned \<Rightarrow> prefix (concat chunks) P)"

definition caused :: "('e, 'w) pax_env \<Rightarrow> pax_options \<Rightarrow> 'e list \<Rightarrow> bool" where
  "caused env opts es \<longleftrightarrow> (\<exists>e\<in>set es. entry_fails env opts e) \<or> (\<exists>cs c. pe_callback_throws env cs c)"

section \<open>Invariant: the containers\<close>

definition configured :: "pax_options \<Rightarrow> ('e, 'w) pipeline \<Rightarrow> bool" where
  "configured opts s \<longleftrightarrow> cq_max_size (pp_order s) = pipeline_order_queue_capacity opts \<and>
     cq_max_size (pp_work s) = pipeline_work_queue_capacity opts \<and>
     rs_max_size (pp_results s) = pipeline_result_capacity opts \<and>
     bb_capacity (pp_bb1 s) = unat (px_output_buf_size opts) \<and>
     length (pp_workers s) = pipeline_worker_count opts \<and>
     length (cq_items (pp_order s)) \<le> pipeline_order_queue_capacity opts \<and>
     [] \<notin> set (bb_buf (pp_bb1 s)) \<and> bb_total_bytes (pp_bb1 s) = length (concat (bb_buf (pp_bb1 s)))"

text \<open>How far the calling thread has come in closing and joining.\<close>

definition stage :: "'e pax_main \<Rightarrow> nat" where
  "stage m = (case m of M_input n \<Rightarrow> if n = 2 then 0 else 1 | M_join_workers \<Rightarrow> 2 | M_close_results \<Rightarrow> 3 | M_join_serializer \<Rightarrow> 4
     | M_close_buffer \<Rightarrow> 5 | M_join_output \<Rightarrow> 6 | M_done \<Rightarrow> 7 | _ \<Rightarrow> 0)"

definition late :: "'e pax_main \<Rightarrow> bool" where
  "late m = (case m of M_entry _ \<Rightarrow> False | M_work _ _ \<Rightarrow> False | M_order _ _ \<Rightarrow> False | M_cancel _ \<Rightarrow> False | _ \<Rightarrow> True)"

definition cancelling_main :: "'e pax_main \<Rightarrow> nat option" where
  "cancelling_main m = (case m of M_cancel n \<Rightarrow> Some n | _ \<Rightarrow> None)"
definition cancelling_worker :: "'e pax_worker \<Rightarrow> nat option" where
  "cancelling_worker w = (case w of W_cancel n \<Rightarrow> Some n | _ \<Rightarrow> None)"
definition cancelling_serializer :: "'w pax_serializer \<Rightarrow> nat option" where
  "cancelling_serializer r = (case r of S_cancel n \<Rightarrow> Some n | _ \<Rightarrow> None)"
definition cancelling_output :: "pax_output \<Rightarrow> nat option" where
  "cancelling_output t = (case t of O_cancel n \<Rightarrow> Some n | _ \<Rightarrow> None)"

definition cancellers :: "('e, 'w) pipeline \<Rightarrow> nat option set" where
  "cancellers s = {cancelling_main (pp_main s), cancelling_serializer (pp_serializer s), cancelling_output (pp_output s)} \<union>
     set (map cancelling_worker (pp_workers s))"

definition closed_to :: "nat \<Rightarrow> ('e, 'w) pipeline \<Rightarrow> bool" where
  "closed_to n s \<longleftrightarrow> (n < 4 \<longrightarrow> cq_closed (pp_work s)) \<and> (n < 3 \<longrightarrow> cq_closed (pp_order s)) \<and>
     (n < 2 \<longrightarrow> rs_closed (pp_results s)) \<and> (n < 1 \<longrightarrow> bb_closed (pp_bb1 s))"

text \<open>After an error some thread is closing the containers, or all are closed.\<close>

definition cancelled :: "('e, 'w) pipeline \<Rightarrow> bool" where
  "cancelled s \<longleftrightarrow> (\<forall>n. Some n \<in> cancellers s \<longrightarrow> n \<le> 4 \<and> pp_error s \<noteq> None \<and> closed_to n s) \<and>
     (pp_error s \<noteq> None \<longrightarrow> (\<exists>n. Some n \<in> cancellers s) \<or> closed_to 0 s)"

text \<open>Without an error the containers are closed by the calling thread only, after their users have returned.\<close>

definition healthy :: "nat \<Rightarrow> nat \<Rightarrow> nat \<Rightarrow> ('e, 'w) pipeline \<Rightarrow> bool" where
  "healthy m k n s \<longleftrightarrow>
     cq_closed (pp_work s) = (1 \<le> stage (pp_main s)) \<and> cq_closed (pp_order s) = (2 \<le> stage (pp_main s)) \<and>
     rs_closed (pp_results s) = (4 \<le> stage (pp_main s)) \<and> bb_closed (pp_bb1 s) = (6 \<le> stage (pp_main s)) \<and>
     (late (pp_main s) \<longrightarrow> n = m) \<and>
     (3 \<le> stage (pp_main s) \<longrightarrow> (\<forall>w\<in>set (pp_workers s). w = W_returned)) \<and>
     (5 \<le> stage (pp_main s) \<longrightarrow> pp_serializer s = S_returned) \<and> (7 \<le> stage (pp_main s) \<longrightarrow> pp_output s = O_returned) \<and>
     (W_returned \<in> set (pp_workers s) \<longrightarrow> 1 \<le> stage (pp_main s) \<and> cq_items (pp_work s) = []) \<and>
     (pp_serializer s = S_returned \<longrightarrow> 2 \<le> stage (pp_main s) \<and> k = n) \<and>
     (pp_output s = O_returned \<longrightarrow> 6 \<le> stage (pp_main s) \<and> bb_buf (pp_bb1 s) = [])"

section \<open>Invariant: the small entries under way\<close>

definition busy :: "'e pax_worker list \<Rightarrow> u64 list" where
  "busy ws = concat (map (\<lambda>w. case w of W_run it \<Rightarrow> [wi_seq it] | W_put q bs \<Rightarrow> [q] | _ \<Rightarrow> []) ws)"

definition wanted :: "nat \<Rightarrow> 'w pax_serializer \<Rightarrow> nat" where
  "wanted k ser = (case ser of S_take _ \<Rightarrow> k - 1 | _ \<Rightarrow> k)"

definition handed_out :: "nat \<Rightarrow> 'e pax_main \<Rightarrow> nat" where
  "handed_out n m = (case m of M_order it (Some _) \<Rightarrow> if oi_kind it = Worker_result then Suc n else n | _ \<Rightarrow> n)"

definition under_way :: "('e, 'w) pax_env \<Rightarrow> pax_options \<Rightarrow> 'e list \<Rightarrow> nat \<Rightarrow> nat \<Rightarrow> nat list" where
  "under_way env opts es j n = filter (small_at env opts es) [j..<n]"

text \<open>The first d of them are with a worker or in the store, the others wait in the work queue.\<close>

definition spread :: "'e list \<Rightarrow> nat list \<Rightarrow> nat \<Rightarrow> 'e pipeline_work_item list \<Rightarrow> 'e pax_worker list \<Rightarrow> (u64 \<times> bytes) list \<Rightarrow> bool" where
  "spread es L d items ws rs \<longleftrightarrow> d \<le> length L \<and> items = map (work_of es) (drop d L) \<and>
     mset (busy ws) + mset (map fst rs) = mset (map seq_of (take d L)) \<and>
     (length ws = 1 \<longrightarrow> (\<forall>x\<in>set (busy ws). \<forall>y\<in>fst ` set rs. unat y < unat x))"

definition tokens_ok :: "('e, 'w) pax_env \<Rightarrow> pax_options \<Rightarrow> 'e list \<Rightarrow> nat \<Rightarrow> nat \<Rightarrow> ('e, 'w) pipeline \<Rightarrow> bool" where
  "tokens_ok env opts es k n s \<longleftrightarrow>
     (\<exists>d. spread es (under_way env opts es (wanted k (pp_serializer s)) (handed_out n (pp_main s))) d
        (cq_items (pp_work s)) (pp_workers s) (rs_results (pp_results s)))"

section \<open>The invariant\<close>

definition pipeline_ok :: "('e, 'w) pax_env \<Rightarrow> pax_options \<Rightarrow> 'e list \<Rightarrow> nat \<Rightarrow> nat \<Rightarrow> bytes \<Rightarrow> ('e, 'w) pipeline \<Rightarrow> bool" where
  "pipeline_ok env opts es k n P s \<longleftrightarrow> configured opts s \<and>
     main_at env opts es n (pp_main s) (pp_next_seq s) \<and> orders env opts es k n (cq_items (pp_order s)) \<and>
     data_ok env opts es (cq_items (pp_work s)) (pp_workers s) (rs_results (pp_results s)) \<and>
     serializer_at env opts es k P (pp_serializer s) \<and> output_at P (bb_buf (pp_bb1 s)) (pp_chunks s) (pp_output s) \<and>
     cancelled s \<and> (pp_error s \<noteq> None \<longrightarrow> caused env opts es) \<and>
     (pp_error s = None \<longrightarrow> healthy (item_count env es) k n s \<and> tokens_ok env opts es k n s \<and>
        (pp_output s = O_returned \<longrightarrow> P = concat (pp_chunks s)) \<and>
        (pp_serializer s = S_returned \<longrightarrow> P = done_bytes env opts es k \<and> none_failed env opts es k))"

end
