(* ===== verification/PaxPipelineSteps.thy ===== *)
theory PaxPipelineSteps
  imports PaxPipelineSpec
begin

text \<open>
  Every step of a thread of the pax pipeline keeps the invariant \<open>pipeline_ok\<close>: first the
  calling thread, then the workers.  The serializer and the output thread follow in PaxPipelineRun.
\<close>

section \<open>Parts of the invariant\<close>

lemmas main_pc = stage_def late_def cancelling_main_def handed_out_def

lemma planned_last: "planned_item env opts es (length es) = inline_item (seq_of (length es)) (replicate 1024 0) False"
  by (simp add: planned_item_def)

lemma order_capacity_pos [simp]: "0 < pipeline_order_queue_capacity opts"
  by (simp add: pipeline_order_queue_capacity_def)

lemma seq_of_Suc: "seq_of (Suc n) = seq_of n + 1"
  by (simp add: seq_of_def add.commute)

lemma cancel_request_simps [simp]:
  "pp_order (cancel_request e s) = pp_order s" "pp_work (cancel_request e s) = pp_work s"
  "pp_results (cancel_request e s) = pp_results s" "pp_bb1 (cancel_request e s) = pp_bb1 s"
  "pp_workers (cancel_request e s) = pp_workers s" "pp_serializer (cancel_request e s) = pp_serializer s"
  "pp_output (cancel_request e s) = pp_output s" "pp_main (cancel_request e s) = pp_main s"
  "pp_next_seq (cancel_request e s) = pp_next_seq s" "pp_chunks (cancel_request e s) = pp_chunks s"
  "\<exists>e'. pp_error (cancel_request e s) = Some e'"
  by (auto simp: cancel_request_def)

lemma configured_cong:
  "pp_order s' = pp_order s \<Longrightarrow> pp_work s' = pp_work s \<Longrightarrow> pp_results s' = pp_results s \<Longrightarrow> pp_bb1 s' = pp_bb1 s \<Longrightarrow>
   length (pp_workers s') = length (pp_workers s) \<Longrightarrow> configured opts s' = configured opts s"
  by (simp add: configured_def)

definition stays_closed :: "('e, 'w) pipeline \<Rightarrow> ('e, 'w) pipeline \<Rightarrow> bool" where
  "stays_closed s s' \<longleftrightarrow> (cq_closed (pp_work s) \<longrightarrow> cq_closed (pp_work s')) \<and> (cq_closed (pp_order s) \<longrightarrow> cq_closed (pp_order s')) \<and>
     (rs_closed (pp_results s) \<longrightarrow> rs_closed (pp_results s')) \<and> (bb_closed (pp_bb1 s) \<longrightarrow> bb_closed (pp_bb1 s'))"

lemma closed_to_mono: "stays_closed s s' \<Longrightarrow> closed_to n s \<Longrightarrow> m \<ge> n \<Longrightarrow> closed_to m s'"
  by (simp add: closed_to_def stays_closed_def)

lemma cancelled_same:
  assumes "cancelled s" and "cancellers s' = cancellers s" and "pp_error s' = pp_error s" and "stays_closed s s'"
  shows "cancelled s'"
proof -
  have "closed_to n s'" if "closed_to n s" for n using closed_to_mono [OF assms(4) that order_refl] .
  then show ?thesis using assms(1) unfolding cancelled_def assms(2,3) by blast
qed

lemma cancelled_request:
  assumes "cancelled s" and "Some 4 \<in> cancellers s'" and "cancellers s' \<subseteq> insert None (insert (Some 4) (cancellers s))"
    and "pp_error s' \<noteq> None" and "stays_closed s s'"
  shows "cancelled s'"
proof -
  have "n \<le> 4 \<and> closed_to n s'" if "Some n \<in> cancellers s'" for n
  proof (cases "n = 4")
    case True
    then show ?thesis by (simp add: closed_to_def)
  next
    case False
    with that assms(3) have "Some n \<in> cancellers s" by auto
    with assms(1) have "n \<le> 4" "closed_to n s" by (auto simp: cancelled_def)
    with closed_to_mono [OF assms(5) _ order_refl] show ?thesis by blast
  qed
  with assms(2,4) show ?thesis by (auto simp: cancelled_def)
qed

lemma pipeline_okI:
  assumes "configured opts s" "main_at env opts es n (pp_main s) (pp_next_seq s)" "orders env opts es k n (cq_items (pp_order s))"
    "data_ok env opts es (cq_items (pp_work s)) (pp_workers s) (rs_results (pp_results s))"
    "serializer_at env opts es k P (pp_serializer s)" "output_at P (bb_buf (pp_bb1 s)) (pp_chunks s) (pp_output s)"
    "cancelled s" "pp_error s \<noteq> None \<Longrightarrow> caused env opts es"
    "pp_error s = None \<Longrightarrow> healthy (item_count env es) k n s" "pp_error s = None \<Longrightarrow> tokens_ok env opts es k n s"
    "pp_error s = None \<Longrightarrow> pp_output s = O_returned \<Longrightarrow> P = concat (pp_chunks s)"
    "pp_error s = None \<Longrightarrow> pp_serializer s = S_returned \<Longrightarrow> P = done_bytes env opts es k \<and> none_failed env opts es k"
  shows "pipeline_ok env opts es k n P s"
  using assms unfolding pipeline_ok_def by blast

lemma pipeline_okD:
  assumes "pipeline_ok env opts es k n P s"
  shows "configured opts s" "main_at env opts es n (pp_main s) (pp_next_seq s)" "orders env opts es k n (cq_items (pp_order s))"
    "data_ok env opts es (cq_items (pp_work s)) (pp_workers s) (rs_results (pp_results s))"
    "serializer_at env opts es k P (pp_serializer s)" "output_at P (bb_buf (pp_bb1 s)) (pp_chunks s) (pp_output s)"
    "cancelled s" "pp_error s \<noteq> None \<Longrightarrow> caused env opts es"
    "pp_error s = None \<Longrightarrow> healthy (item_count env es) k n s" "pp_error s = None \<Longrightarrow> tokens_ok env opts es k n s"
    "pp_error s = None \<Longrightarrow> pp_output s = O_returned \<Longrightarrow> P = concat (pp_chunks s)"
    "pp_error s = None \<Longrightarrow> pp_serializer s = S_returned \<Longrightarrow> P = done_bytes env opts es k \<and> none_failed env opts es k"
  using assms unfolding pipeline_ok_def by blast+

text \<open>A step of the calling thread that only moves it.\<close>

lemma main_goes:
  assumes ok: "pipeline_ok env opts es k n P s" and st: "stage (pp_main s) = 0" "stage m = 0" "late m \<longrightarrow> n = item_count env es"
    and "handed_out n m = handed_out n (pp_main s)" "main_at env opts es n m q"
    and "cancelling_main m = cancelling_main (pp_main s)"
  shows "pipeline_ok env opts es k n P (s\<lparr>pp_next_seq := q, pp_walked_entries := w, pp_main := m\<rparr>)" (is "pipeline_ok _ _ _ _ _ _ ?s")
proof (rule pipeline_okI)
  show "cancelled ?s"
    by (rule cancelled_same [OF pipeline_okD(7) [OF ok]]) (simp_all add: cancellers_def assms(6) stays_closed_def assms(7))
  show "healthy (item_count env es) k n ?s" if "pp_error ?s = None"
    using pipeline_okD(9) [OF ok] that st by (auto simp: healthy_def)
  show "tokens_ok env opts es k n ?s" if "pp_error ?s = None"
    using pipeline_okD(10) [OF ok] that assms(5) by (simp add: tokens_ok_def)
  show "configured opts ?s" using pipeline_okD(1) [OF ok] by (simp add: configured_def)
qed (use pipeline_okD [OF ok] assms in simp_all)

lemma main_moves:
  assumes ok: "pipeline_ok env opts es k n P s" and st: "stage (pp_main s) = 0" "stage m = 0" "\<not> late m"
    and "handed_out n m = handed_out n (pp_main s)" "main_at env opts es n m q"
    and "cancelling_main m = cancelling_main (pp_main s)"
  shows "pipeline_ok env opts es k n P (s\<lparr>pp_next_seq := q, pp_walked_entries := w, pp_main := m\<rparr>)"
  by (rule main_goes) (use assms in simp_all)

lemma main_fails_ok:
  assumes ok: "pipeline_ok env opts es k n P s" and c: "pp_error s = None \<longrightarrow> caused env opts es" and m: "cancelling_main (pp_main s) = None"
  shows "pipeline_ok env opts es k n P (main_fails e (s\<lparr>pp_next_seq := q, pp_walked_entries := w\<rparr>))" (is "pipeline_ok _ _ _ _ _ _ ?s")
proof (rule pipeline_okI)
  have e: "pp_error ?s \<noteq> None" by (simp add: main_fails_def cancel_request_def)
  show "cancelled ?s"
    by (rule cancelled_request [OF pipeline_okD(7) [OF ok]])
      (use e in \<open>auto simp: main_fails_def cancellers_def cancelling_main_def stays_closed_def\<close>)
  show "caused env opts es" using c pipeline_okD(8) [OF ok] by auto
  show "configured opts ?s" using pipeline_okD(1) [OF ok] by (simp add: configured_def main_fails_def)
qed (use pipeline_okD [OF ok] in \<open>simp_all add: main_fails_def main_at_def cancel_request_def split: if_splits\<close>)

lemma eoa_ok:
  assumes "pipeline_ok env opts es k n P s" and "pp_main s = M_entry []" and "pe_last_slice env"
  shows "pipeline_ok env opts es k n P (emit_eoa s)"
proof -
  have "n = length es" using assms pipeline_okD(2) [OF assms(1)] by (simp add: main_at_def)
  with main_moves [OF assms(1), of "M_order (inline_item (pp_next_seq s) (replicate 1024 0) False) None" "pp_next_seq s + 1" "pp_walked_entries s"]
    assms(2,3) pipeline_okD(2) [OF assms(1)]
  have "pipeline_ok env opts es k n P (s\<lparr>pp_next_seq := pp_next_seq s + 1, pp_walked_entries := pp_walked_entries s,
      pp_main := M_order (inline_item (pp_next_seq s) (replicate 1024 0) False) None\<rparr>)"
    by (simp add: main_at_def planned_last main_pc)
  then show ?thesis by (simp add: emit_eoa_def)
qed

lemma no_eoa_ok:
  assumes "pipeline_ok env opts es k n P s" and "pp_main s = M_entry []" and "\<not> pe_last_slice env"
  shows "pipeline_ok env opts es k n P (s\<lparr>pp_main := M_input 2\<rparr>)"
proof -
  have "n = length es" using assms pipeline_okD(2) [OF assms(1)] by (simp add: main_at_def)
  with main_goes [OF assms(1), of "M_input 2" "pp_next_seq s" "pp_walked_entries s"] assms(2,3) show ?thesis
    by (simp add: main_at_def main_pc item_count_def)
qed

lemma dispatch_ok:
  assumes "pipeline_ok env opts es k n P s" and "pp_main s = M_entry (e # rest)"
  shows "pipeline_ok env opts es k n P (dispatch_entry_to_pipeline env opts e rest s)"
proof -
  have m: "n \<le> length es" "drop n es = e # rest" "pp_next_seq s = seq_of n"
    using assms(2) pipeline_okD(2) [OF assms(1)] by (auto simp: main_at_def)
  then have n: "n < length es" by (metis drop_all list.distinct(1) not_le)
  with m(2) have e: "e = es ! n" "rest = drop (Suc n) es" by (simp_all add: Cons_nth_drop_Suc [symmetric])
  note move = main_moves [OF assms(1), where w = "pp_walked_entries s + 1" and q = "pp_next_seq s + 1"]
  note d = dispatch_entry_to_pipeline_def Let_def main_at_def main_pc seq_of_Suc
  show ?thesis
  proof (cases "has_data env e")
    case data: True
    show ?thesis
    proof (cases "is_large env opts e")
      case True
      have "planned_item env opts es n = large_item (seq_of n) e" using n e data True by (simp add: planned_item_def)
      with move [of "M_order (large_item (seq_of n) e) (Some rest)"] assms(2) m n e data True show ?thesis
        by (simp add: d large_item_def)
    next
      case False
      with move [of "M_work e rest"] assms(2) m n e data show ?thesis by (simp add: d small_at_def)
    qed
  next
    case False
    show ?thesis
    proof (cases "serialize_entry env e None")
      case None
      then have "entry_fails env opts e" using False by (simp add: entry_fails_def entry_input_def)
      then have "caused env opts es" using n e by (auto simp: caused_def)
      with main_fails_ok [OF assms(1)] assms(2) None False show ?thesis by (simp add: d)
    next
      case (Some bs)
      have "planned_item env opts es n = inline_item (seq_of n) bs True" using n e False Some by (simp add: planned_item_def)
      with move [of "M_order (inline_item (seq_of n) bs True) (Some rest)"] assms(2) m n e False Some show ?thesis
        by (simp add: d inline_item_def)
    qed
  qed
qed


section \<open>The calling thread publishes\<close>

lemma planned_kind: "oi_kind (planned_item env opts es i) = Worker_result \<longleftrightarrow> small_at env opts es i"
  by (simp add: planned_item_def small_at_def inline_item_def large_item_def small_item_def)

lemma under_way_simps:
  "small_at env opts es n \<Longrightarrow> j \<le> n \<Longrightarrow> under_way env opts es j (Suc n) = under_way env opts es j n @ [n]"
  "\<not> small_at env opts es n \<Longrightarrow> under_way env opts es j (Suc n) = under_way env opts es j n"
  "\<not> small_at env opts es j \<Longrightarrow> under_way env opts es (Suc j) n = under_way env opts es j n"
  "small_at env opts es j \<Longrightarrow> j < n \<Longrightarrow> under_way env opts es j n = j # under_way env opts es (Suc j) n"
proof -
  show "\<not> small_at env opts es j \<Longrightarrow> under_way env opts es (Suc j) n = under_way env opts es j n"
    by (cases "j < n") (simp_all add: under_way_def upt_conv_Cons)
qed (auto simp: under_way_def upt_conv_Cons)

lemma wanted_le: "wanted k ser \<le> k"
  by (simp add: wanted_def split: pax_serializer.split)

lemma spread_push: "spread es L d items ws rs \<Longrightarrow> spread es (L @ [n]) d (items @ [work_of es n]) ws rs"
  by (simp add: spread_def)

lemma enqueue_work_ok:
  assumes ok: "pipeline_ok env opts es k n P s" and m: "pp_main s = M_work e rest" and st: "enqueue_work e rest s = Some s'"
  shows "pipeline_ok env opts es k n P s'"
proof -
  note D = pipeline_okD [OF ok]
  from D(2) m have a: "small_at env opts es n" "e = es ! n" "rest = drop (Suc n) es" "pp_next_seq s = seq_of (Suc n)"
    by (simp_all add: main_at_def)
  then have q: "pp_next_seq s - 1 = seq_of n" by (simp add: seq_of_Suc)
  let ?w = "\<lparr>wi_seq = seq_of n, wi_entry = e\<rparr>"
  from st obtain wq acc where push: "queue_push (pp_work s) ?w = Some (wq, acc)"
    by (auto simp: enqueue_work_def q split: option.splits)
  show ?thesis
  proof (cases acc)
    case False
    with push cq.push_refused [of "pp_work s" ?w wq] have "wq = pp_work s" "cq_closed (pp_work s)" by auto
    moreover have "pp_error s \<noteq> None" using D(9) calculation(2) m by (auto simp: healthy_def stage_def)
    moreover have "s' = main_fails Slice_aborted (s\<lparr>pp_work := wq\<rparr>)" using st push False by (simp add: enqueue_work_def q)
    ultimately show ?thesis using main_fails_ok [OF ok, where e = Slice_aborted and q = "pp_next_seq s" and w = "pp_walked_entries s"] m
      by (auto simp add: cancelling_main_def)
  next
    case True
    with push cq.push_ok [of "pp_work s" ?w wq] have w: "cq_items wq = cq_items (pp_work s) @ [?w]" "\<not> cq_closed (pp_work s)" "\<not> cq_closed wq"
      by auto
    have mx: "cq_max_size wq = cq_max_size (pp_work s)" using push by (auto simp: queue_push_def split: if_splits)
    have s': "s' = s\<lparr>pp_work := wq, pp_main := M_order (small_item (seq_of n)) (Some rest)\<rparr>"
      using st push True by (simp add: enqueue_work_def q)
    have it: "planned_item env opts es n = small_item (seq_of n)" using a(1) by (simp add: planned_item_def small_at_def)
    have we: "?w = work_of es n" by (simp add: work_of_def a(2))
    show ?thesis
    proof (rule pipeline_okI)
      show "configured opts s'" using D(1) mx by (simp add: configured_def s')
      show "main_at env opts es n (pp_main s') (pp_next_seq s')" using a it by (simp add: s' main_at_def small_at_def)
      show "data_ok env opts es (cq_items (pp_work s')) (pp_workers s') (rs_results (pp_results s'))"
        using D(4) a(1) by (auto simp: s' w(1) we data_ok_def work_ok_def)
      show "cancelled s'"
        by (rule cancelled_same [OF D(7)]) (simp_all add: s' cancellers_def cancelling_main_def m stays_closed_def w)
      show "healthy (item_count env es) k n s'" if "pp_error s' = None"
        using D(9) that w m by (auto simp: s' healthy_def stage_def late_def)
      have "wanted k (pp_serializer s) \<le> n" using wanted_le [of k "pp_serializer s"] D(3) by (simp add: orders_def)
      then show "tokens_ok env opts es k n s'" if "pp_error s' = None"
        using D(10) that under_way_simps(1) [OF a(1)]
        by (simp add: s' tokens_ok_def handed_out_def m w(1) we small_item_def) (metis spread_push)
    qed (use D in \<open>simp_all add: s'\<close>)
  qed
qed

lemma enqueue_order_ok:
  assumes ok: "pipeline_ok env opts es k n P s" and m: "pp_main s = M_order it rest" and st: "enqueue_order it rest s = Some s'"
  shows "\<exists>n. pipeline_ok env opts es k n P s'"
proof -
  note D = pipeline_okD [OF ok]
  from D(2) m have it: "it = planned_item env opts es n" and n: "n \<le> length es" "rest = None \<longleftrightarrow> n = length es" "rest = None \<longrightarrow> pe_last_slice env"
    by (auto simp: main_at_def split: option.splits)
  from st obtain oq acc where push: "queue_push (pp_order s) it = Some (oq, acc)"
    by (auto simp: enqueue_order_def split: option.splits)
  show ?thesis
  proof (cases acc)
    case False
    let ?e = "if oi_kind it = Worker_result then Publish_cancelled else Slice_aborted"
    from False push cq.push_refused [of "pp_order s" it oq] have "oq = pp_order s" "cq_closed (pp_order s)" by auto
    moreover have "pp_error s \<noteq> None" using D(9) calculation(2) m by (auto simp: healthy_def stage_def)
    moreover have "s' = main_fails ?e (s\<lparr>pp_order := oq\<rparr>)" using st push False by (simp add: enqueue_order_def)
    ultimately show ?thesis using main_fails_ok [OF ok, where e = ?e and q = "pp_next_seq s" and w = "pp_walked_entries s"] m
      by (auto simp add: cancelling_main_def)
  next
    case True
    with push cq.push_ok [of "pp_order s" it oq] have w: "cq_items oq = cq_items (pp_order s) @ [it]" "\<not> cq_closed (pp_order s)" "\<not> cq_closed oq"
      by auto
    have mx: "cq_max_size oq = cq_max_size (pp_order s)" "cq_max_size (pp_order s) > 0 \<longrightarrow> length (cq_items (pp_order s)) < cq_max_size (pp_order s)"
      using push True by (auto simp: queue_push_def split: if_splits)
    let ?m = "case rest of Some es \<Rightarrow> M_entry es | None \<Rightarrow> M_input 2"
    have s': "s' = s\<lparr>pp_order := oq, pp_main := ?m\<rparr>" using st push True by (simp add: enqueue_order_def)
    have pc: "stage ?m = 0" "cancelling_main ?m = None" "late ?m \<longrightarrow> Suc n = item_count env es" "handed_out (Suc n) ?m = Suc n"
      using n(2,3) by (auto simp: main_pc item_count_def split: option.split)
    have "pipeline_ok env opts es k (Suc n) P s'"
    proof (rule pipeline_okI)
      show "configured opts s'" using D(1) mx w(1) by (auto simp add: configured_def s')
      show "main_at env opts es (Suc n) (pp_main s') (pp_next_seq s')"
        using D(2) m n by (auto simp: s' main_at_def split: option.splits)
      show "orders env opts es k (Suc n) (cq_items (pp_order s'))"
        using D(2,3) m n by (auto simp: s' w(1) orders_def item_count_def it main_at_def less_Suc_eq split: option.splits)
      show "cancelled s'"
        by (rule cancelled_same [OF D(7)]) (use m in \<open>simp_all add: s' cancellers_def pc(2) stays_closed_def w cancelling_main_def [of "M_order it rest"]\<close>)
      show "healthy (item_count env es) k (Suc n) s'" if "pp_error s' = None"
        using D(9) that w m pc by (auto simp: s' healthy_def stage_def)
      have u: "under_way env opts es j (handed_out (Suc n) (pp_main s')) = under_way env opts es j (handed_out n (pp_main s))" for j
        using n(2) under_way_simps(2) [of env opts es n] by (cases rest) (auto simp: s' pc(4) m handed_out_def it planned_kind small_at_def)
      show "tokens_ok env opts es k (Suc n) s'" if "pp_error s' = None"
        using D(10) that u by (simp add: s' tokens_ok_def)
    qed (use D in \<open>simp_all add: s'\<close>)
    then show ?thesis ..
  qed
qed


section \<open>Closing and joining\<close>

lemma close_container_simps [simp]:
  "cq_items (pp_order (close_container n s)) = cq_items (pp_order s)" "cq_items (pp_work (close_container n s)) = cq_items (pp_work s)"
  "rs_results (pp_results (close_container n s)) = rs_results (pp_results s)" "bb_buf (pp_bb1 (close_container n s)) = bb_buf (pp_bb1 s)"
  "cq_max_size (pp_order (close_container n s)) = cq_max_size (pp_order s)"
  "cq_max_size (pp_work (close_container n s)) = cq_max_size (pp_work s)"
  "rs_max_size (pp_results (close_container n s)) = rs_max_size (pp_results s)"
  "bb_capacity (pp_bb1 (close_container n s)) = bb_capacity (pp_bb1 s)"
  "bb_total_bytes (pp_bb1 (close_container n s)) = bb_total_bytes (pp_bb1 s)"
  "pp_workers (close_container n s) = pp_workers s" "pp_serializer (close_container n s) = pp_serializer s"
  "pp_output (close_container n s) = pp_output s" "pp_main (close_container n s) = pp_main s"
  "pp_next_seq (close_container n s) = pp_next_seq s" "pp_chunks (close_container n s) = pp_chunks s"
  "pp_error (close_container n s) = pp_error s"
  by (simp_all add: close_container_def queue_close_def store_close_def buffer_close_def)

lemma close_container_closes:
  "closed_to (Suc m) s \<Longrightarrow> closed_to m (close_container (Suc m) s)" "stays_closed s (close_container n s)"
  by (auto simp: close_container_def closed_to_def stays_closed_def queue_close_def store_close_def buffer_close_def)

lemma configured_close [simp]: "configured opts (close_container n s) = configured opts s"
  by (simp add: configured_def)

lemma cancelled_next:
  assumes "cancelled s" and "Some (Suc m) \<in> cancellers s" and "closed_to (Suc m) s \<Longrightarrow> closed_to m s'" and "stays_closed s s'"
    and "pp_error s' = pp_error s" and "Some m \<in> cancellers s'" and "cancellers s' \<subseteq> insert None (insert (Some m) (cancellers s))"
  shows "cancelled s'"
proof -
  have c: "Suc m \<le> 4" "pp_error s \<noteq> None" "closed_to m s'" using assms(1-3) by (auto simp: cancelled_def)
  have "n \<le> 4 \<and> closed_to n s'" if "Some n \<in> cancellers s'" for n
  proof (cases "n = m")
    case True
    with c show ?thesis by simp
  next
    case False
    with that assms(7) have "Some n \<in> cancellers s" by auto
    with assms(1) have "n \<le> 4" "closed_to n s" by (auto simp: cancelled_def)
    with closed_to_mono [OF assms(4) _ order_refl] show ?thesis by blast
  qed
  with c(2) assms(5,6) show ?thesis by (auto simp: cancelled_def)
qed

lemma cancelled_last:
  assumes "cancelled s" and "Some 0 \<in> cancellers s" and "stays_closed s s'"
    and "pp_error s' = pp_error s" and "cancellers s' \<subseteq> insert None (cancellers s)"
  shows "cancelled s'"
proof -
  have c: "pp_error s \<noteq> None" "closed_to 0 s" using assms(1,2) by (auto simp: cancelled_def)
  have "n \<le> 4 \<and> closed_to n s'" if "Some n \<in> cancellers s'" for n
  proof -
    from that assms(5) have "Some n \<in> cancellers s" by auto
    with assms(1) have "n \<le> 4" by (auto simp: cancelled_def)
    with closed_to_mono [OF assms(3) c(2)] show ?thesis by simp
  qed
  with c assms(4) closed_to_mono [OF assms(3) c(2) order_refl] show ?thesis by (auto simp: cancelled_def)
qed

lemma canceller_error: "cancelled s \<Longrightarrow> Some n \<in> cancellers s \<Longrightarrow> pp_error s \<noteq> None"
  by (simp add: cancelled_def)

lemma main_cancels_ok:
  assumes ok: "pipeline_ok env opts es k n P s" and m: "pp_main s = M_cancel c" and st: "main_step env opts s = Some s'"
  shows "pipeline_ok env opts es k n P s'"
proof -
  note D = pipeline_okD [OF ok]
  have mem: "Some c \<in> cancellers s" using m by (simp add: cancellers_def cancelling_main_def)
  have err: "pp_error s \<noteq> None" by (rule canceller_error [OF D(7) mem])
  show ?thesis
  proof (cases c)
    case 0
    with st m have s': "s' = s\<lparr>pp_main := M_input 2\<rparr>" by (simp add: main_step_def)
    show ?thesis
    proof (rule pipeline_okI)
      show "cancelled s'"
        by (rule cancelled_last [OF D(7) mem [unfolded 0]]) (auto simp: s' cancellers_def cancelling_main_def stays_closed_def)
    qed (use D err in \<open>simp_all add: s' main_at_def configured_def\<close>)
  next
    case (Suc c')
    with st m have s': "s' = (close_container c s)\<lparr>pp_main := M_cancel c'\<rparr>" by (simp add: main_step_def)
    show ?thesis
    proof (rule pipeline_okI)
      show "cancelled s'"
        by (rule cancelled_next [OF D(7) mem [unfolded Suc]])
          (use close_container_closes(1) [where m = c' and s = s] close_container_closes(2) [where n = c and s = s] in
            \<open>auto simp: s' Suc cancellers_def cancelling_main_def stays_closed_def closed_to_def\<close>)
    qed (use D err in \<open>simp_all add: s' main_at_def configured_def\<close>)
  qed
qed

lemmas close_defs = queue_close_def store_close_def buffer_close_def

text \<open>A step of \<open>finish_input\<close> and \<open>join_threads\<close>.\<close>

lemma main_joins_ok:
  assumes ok: "pipeline_ok env opts es k n P s" and l: "late (pp_main s)" and st: "main_step env opts s = Some s'"
  shows "pipeline_ok env opts es k n P s'"
proof -
  note D = pipeline_okD [OF ok]
  have eff: "pp_order s' = pp_order s \<or> pp_order s' = queue_close (pp_order s)" "pp_work s' = pp_work s \<or> pp_work s' = queue_close (pp_work s)"
    "pp_results s' = pp_results s \<or> pp_results s' = store_close (pp_results s)" "pp_bb1 s' = pp_bb1 s \<or> pp_bb1 s' = buffer_close (pp_bb1 s)"
    "pp_error s' = pp_error s" "pp_workers s' = pp_workers s" "pp_serializer s' = pp_serializer s" "pp_output s' = pp_output s"
    "pp_chunks s' = pp_chunks s" "late (pp_main s')"
    using st l by (auto simp: main_step_def late_def finish_input_def split: pax_main.splits if_splits)
  have same: "cq_items (pp_order s') = cq_items (pp_order s)" "cq_items (pp_work s') = cq_items (pp_work s)"
    "rs_results (pp_results s') = rs_results (pp_results s)" "bb_buf (pp_bb1 s') = bb_buf (pp_bb1 s)"
    "cq_max_size (pp_order s') = cq_max_size (pp_order s)" "cq_max_size (pp_work s') = cq_max_size (pp_work s)"
    "rs_max_size (pp_results s') = rs_max_size (pp_results s)" "bb_capacity (pp_bb1 s') = bb_capacity (pp_bb1 s)"
    "bb_total_bytes (pp_bb1 s') = bb_total_bytes (pp_bb1 s)"
    using eff(1-4) by (auto simp: close_defs)
  have nc: "cancelling_main (pp_main s') = None" "cancelling_main (pp_main s) = None" "handed_out n (pp_main s') = handed_out n (pp_main s)"
    "main_at env opts es n (pp_main s') (pp_next_seq s')"
    using eff(10) l by (auto simp: late_def cancelling_main_def handed_out_def main_at_def split: pax_main.splits)
  show ?thesis
  proof (rule pipeline_okI)
    show "cancelled s'"
      by (rule cancelled_same [OF D(7)]) (use eff(1-4) in \<open>auto simp: cancellers_def nc eff stays_closed_def close_defs\<close>)
    show "healthy (item_count env es) k n s'" if "pp_error s' = None"
    proof -
      from that eff(5) D(9) have h: "healthy (item_count env es) k n s" by simp
      from st l h show ?thesis
        by (cases "pp_main s") (auto simp: main_step_def healthy_def late_def stage_def finish_input_def close_defs split: if_splits)
    qed
  qed (use D nc(3,4) in \<open>simp_all add: configured_def same eff tokens_ok_def\<close>)
qed

lemma main_step_ok:
  assumes ok: "pipeline_ok env opts es k n P s" and st: "main_step env opts s = Some s'"
  shows "\<exists>n. pipeline_ok env opts es k n P s'"
proof -
  consider (entry) l where "pp_main s = M_entry l" | (work) e rest where "pp_main s = M_work e rest"
    | (order) it rest where "pp_main s = M_order it rest" | (cancel) c where "pp_main s = M_cancel c" | (late) "late (pp_main s)"
    by (cases "pp_main s") (auto simp: late_def)
  then show ?thesis
  proof cases
    case entry
    then show ?thesis using st eoa_ok [OF ok] no_eoa_ok [OF ok] dispatch_ok [OF ok] by (cases l; cases "pe_last_slice env") (simp_all add: main_step_def, blast+)
  next
    case work
    then show ?thesis using st enqueue_work_ok [OF ok work] by (auto simp: main_step_def)
  next
    case order
    then show ?thesis using st enqueue_order_ok [OF ok order] by (simp add: main_step_def)
  next
    case cancel
    then show ?thesis using main_cancels_ok [OF ok cancel st] by blast
  next
    case late
    then show ?thesis using main_joins_ok [OF ok late st] by blast
  qed
qed

section \<open>The workers\<close>

lemma set_worker_simps [simp]:
  "pp_order (set_worker i w s) = pp_order s" "pp_work (set_worker i w s) = pp_work s"
  "pp_results (set_worker i w s) = pp_results s" "pp_bb1 (set_worker i w s) = pp_bb1 s"
  "pp_workers (set_worker i w s) = (pp_workers s)[i := w]" "pp_serializer (set_worker i w s) = pp_serializer s"
  "pp_output (set_worker i w s) = pp_output s" "pp_main (set_worker i w s) = pp_main s"
  "pp_next_seq (set_worker i w s) = pp_next_seq s" "pp_chunks (set_worker i w s) = pp_chunks s"
  "pp_error (set_worker i w s) = pp_error s"
  by (simp_all add: set_worker_def)

lemma mset_concat_update:
  assumes "i < length ws"
  shows "mset (concat (map f (ws[i := w]))) + mset (f (ws ! i)) = mset (concat (map f ws)) + mset (f w)"
proof -
  have "ws = take i ws @ ws ! i # drop (Suc i) ws" using assms by (rule id_take_nth_drop)
  then have "mset (concat (map f ws)) = mset (concat (map f (take i ws))) + mset (f (ws ! i)) + mset (concat (map f (drop (Suc i) ws)))"
    by (metis add.assoc concat.simps(2) concat_append list.simps(9) map_append mset_append)
  then show ?thesis using assms by (simp add: upd_conv_take_nth_drop ac_simps)
qed

lemma busy_update:
  "i < length ws \<Longrightarrow> mset (busy (ws[i := w])) + mset (busy [ws ! i]) = mset (busy ws) + mset (busy [w])"
  using mset_concat_update [of i ws "\<lambda>w. case w of W_run it \<Rightarrow> [wi_seq it] | W_put q bs \<Rightarrow> [q] | _ \<Rightarrow> []"] by (simp add: busy_def)

lemma busy_single [simp]:
  "busy [W_pop] = []" "busy [W_run it] = [wi_seq it]" "busy [W_put q bs] = [q]" "busy [W_cancel n] = []" "busy [W_returned] = []"
  by (simp_all add: busy_def)

definition indices_ok :: "nat list \<Rightarrow> bool" where
  "indices_ok L \<longleftrightarrow> sorted_wrt (<) L \<and> (\<forall>i\<in>set L. i < 2 ^ 64)"

lemma under_way_indices: "length es < 2 ^ 64 \<Longrightarrow> indices_ok (under_way env opts es j n)"
  by (auto simp: indices_ok_def under_way_def small_at_def intro!: sorted_wrt_filter)

lemma unat_seq_of: "i < 2 ^ 64 \<Longrightarrow> unat (seq_of i) = i"
  by (simp add: seq_of_def unsigned_of_nat take_bit_nat_eq_self)

lemma distinct_seqs:
  assumes "indices_ok L"
  shows "distinct (map seq_of L)"
proof -
  have "inj_on seq_of (set L)" using assms by (metis indices_ok_def inj_onI unat_seq_of)
  moreover have "distinct L" using assms strict_sorted_iff by (auto simp: indices_ok_def)
  ultimately show ?thesis by (simp add: distinct_map)
qed

lemma indices_take: "indices_ok L \<Longrightarrow> indices_ok (take d L)"
  by (auto simp: indices_ok_def sorted_wrt_take dest: in_set_takeD)

lemma spread_pop:
  assumes "spread es L d (it # items) ws rs" and "indices_ok L" and "i < length ws" and "ws ! i = W_pop"
  shows "spread es L (Suc d) items (ws[i := W_run it]) rs"
proof -
  from assms(1) have d: "d \<le> length L" "it # items = map (work_of es) (drop d L)"
    "mset (busy ws) + mset (map fst rs) = mset (map seq_of (take d L))" by (simp_all add: spread_def)
  then have l: "d < length L" by (metis drop_all list.distinct(1) list.simps(8) not_le)
  with d(2) have it: "it = work_of es (L ! d)" "items = map (work_of es) (drop (Suc d) L)"
    by (simp_all add: Cons_nth_drop_Suc [symmetric])
  have b: "mset (busy (ws[i := W_run it])) = add_mset (seq_of (L ! d)) (mset (busy ws))"
    using busy_update [OF assms(3), of "W_run it"] by (simp add: assms(4) it(1) work_of_def)
  have m: "mset (busy (ws[i := W_run it])) + mset (map fst rs) = mset (map seq_of (take (Suc d) L))"
    using d(3) l by (simp add: b take_Suc_conv_app_nth)
  have "unat y < unat x" if "length ws = 1" "x \<in> set (busy (ws[i := W_run it]))" "y \<in> fst ` set rs" for x y
  proof -
    from that(1) assms(3,4) have "ws = [W_pop]" "i = 0" by (cases ws, auto)
    then have x: "x = seq_of (L ! d)" using that(2) it(1) by (simp add: work_of_def)
    have "y \<in># mset (busy ws) + mset (map fst rs)" using that(3) by simp
    then have "y \<in> seq_of ` set (take d L)" unfolding d(3) by simp
    then obtain j where j: "j < d" "y = seq_of (L ! j)" using l by (auto simp: in_set_conv_nth)
    have "L ! j < L ! d" using assms(2) j(1) l by (auto simp: indices_ok_def sorted_wrt_iff_nth_less)
    moreover have "L ! j < 2 ^ 64" "L ! d < 2 ^ 64" using assms(2) j(1) l by (auto simp: indices_ok_def)
    ultimately show ?thesis by (simp add: x j(2) unat_seq_of)
  qed
  with l it(2) m show ?thesis by (auto simp: spread_def)
qed

lemma spread_put:
  assumes "spread es L d items ws rs" and "indices_ok L" and "i < length ws" and "ws ! i = W_put q bs"
  shows "map_of rs q = None" "spread es L d items (ws[i := W_pop]) (rs @ [(q, bs)])"
proof -
  from assms(1) have d: "d \<le> length L" "mset (busy ws) + mset (map fst rs) = mset (map seq_of (take d L))" by (simp_all add: spread_def)
  have b: "mset (busy ws) = add_mset q (mset (busy (ws[i := W_pop])))"
    using busy_update [OF assms(3), of W_pop] by (simp add: assms(4))
  have "mset (busy ws @ map fst rs) = mset (map seq_of (take d L))" using d(2) by simp
  then have "distinct (busy ws @ map fst rs)" using distinct_seqs [OF indices_take [OF assms(2), of d]] by (rule mset_eq_imp_distinct_iff [THEN iffD2])
  moreover have "q \<in> set (busy ws)" using b by (metis set_mset_mset union_single_eq_member)
  ultimately show "map_of rs q = None" by (auto simp: map_of_eq_None_iff)
  have "busy (ws[i := W_pop]) = []" if "length ws = 1" using that assms(3) by (cases ws) auto
  then show "spread es L d items (ws[i := W_pop]) (rs @ [(q, bs)])"
    using assms(1) b by (auto simp: spread_def)
qed

lemma spread_run:
  assumes "spread es L d items ws rs" and "i < length ws" and "busy [w] = busy [ws ! i]"
  shows "spread es L d items (ws[i := w]) rs"
proof -
  have "mset (busy (ws[i := w])) = mset (busy ws)" using busy_update [OF assms(2), of w] assms(3) by simp
  moreover from this have "set (busy (ws[i := w])) = set (busy ws)" by (metis set_mset_mset)
  ultimately show ?thesis using assms(1) by (simp add: spread_def)
qed

lemma cancellers_worker:
  "i < length (pp_workers s) \<Longrightarrow> cancelling_worker w = cancelling_worker (pp_workers s ! i) \<Longrightarrow>
   set (map cancelling_worker ((pp_workers s)[i := w])) = set (map cancelling_worker (pp_workers s))"
  by (simp only: map_update) (metis length_map list_update_id nth_map)

lemma cancellers_worker_subset:
  "set (map cancelling_worker ((pp_workers s)[i := w])) \<subseteq> insert (cancelling_worker w) (set (map cancelling_worker (pp_workers s)))"
  by (simp only: map_update set_update_subset_insert)

text \<open>A worker that goes on: what is in the work queue and the store may change with it.\<close>

lemma worker_moves:
  assumes ok: "pipeline_ok env opts es k n P s" and i: "i < length (pp_workers s)" and w0: "pp_workers s ! i \<noteq> W_returned"
    and nc: "cancelling_worker (pp_workers s ! i) = None" "cancelling_worker w = None" "w \<noteq> W_returned" "worker_ok env opts es w"
    and q: "cq_closed q = cq_closed (pp_work s)" "cq_max_size q = cq_max_size (pp_work s)" "set (cq_items q) \<subseteq> set (cq_items (pp_work s))"
    and r: "rs_closed r = rs_closed (pp_results s)" "rs_max_size r = rs_max_size (pp_results s)"
      "\<forall>(sq, bs)\<in>set (rs_results r). result_ok env opts es sq bs"
    and t: "\<And>L d. pp_error s = None \<Longrightarrow> indices_ok L \<Longrightarrow> spread es L d (cq_items (pp_work s)) (pp_workers s) (rs_results (pp_results s)) \<Longrightarrow>
      \<exists>d. spread es L d (cq_items q) ((pp_workers s)[i := w]) (rs_results r)"
    and len: "length es < 2 ^ 64"
  shows "pipeline_ok env opts es k n P (set_worker i w (s\<lparr>pp_work := q, pp_results := r\<rparr>))" (is "pipeline_ok _ _ _ _ _ _ ?s")
proof -
  note D = pipeline_okD [OF ok]
  have mem: "pp_workers s ! i \<in> set (pp_workers s)" using i by simp
  have sub: "set ((pp_workers s)[i := w]) \<subseteq> insert w (set (pp_workers s))" by (rule set_update_subset_insert)
  show ?thesis
  proof (rule pipeline_okI)
    show "configured opts ?s" using D(1) q r by (simp add: configured_def)
    show "data_ok env opts es (cq_items (pp_work ?s)) (pp_workers ?s) (rs_results (pp_results ?s))"
      using D(4) nc(4) q(3) r(3) sub by (auto simp: data_ok_def)
    show "cancelled ?s"
      by (rule cancelled_same [OF D(7)])
        (use cancellers_worker [OF i] nc(1,2) in \<open>simp_all add: cancellers_def stays_closed_def q r del: set_map\<close>)
    show "healthy (item_count env es) k n ?s" if "pp_error ?s = None"
    proof -
      have h: "healthy (item_count env es) k n s" using that D(9) by simp
      then have "\<not> 3 \<le> stage (pp_main s)" using mem w0 by (auto simp: healthy_def)
      moreover have "W_returned \<in> set ((pp_workers s)[i := w]) \<Longrightarrow> W_returned \<in> set (pp_workers s)" using sub nc(3) by auto
      ultimately show ?thesis using h q r by (auto simp: healthy_def)
    qed
    show "tokens_ok env opts es k n ?s" if "pp_error ?s = None"
      using D(10) t [OF _ under_way_indices [OF len]] that by (auto simp: tokens_ok_def)
  qed (use D in simp_all)
qed

lemma worker_fails_ok:
  assumes ok: "pipeline_ok env opts es k n P s" and i: "i < length (pp_workers s)" and c: "caused env opts es"
    and nc: "cancelling_worker (pp_workers s ! i) = None"
  shows "pipeline_ok env opts es k n P (set_worker i (W_cancel 4) (cancel_request e s))" (is "pipeline_ok _ _ _ _ _ _ ?s")
proof -
  note D = pipeline_okD [OF ok]
  have e: "pp_error ?s \<noteq> None" by (simp add: cancel_request_def)
  have sub: "set ((pp_workers s)[i := W_cancel 4]) \<subseteq> insert (W_cancel 4) (set (pp_workers s))" by (rule set_update_subset_insert)
  show ?thesis
  proof (rule pipeline_okI)
    show "configured opts ?s" using D(1) by (simp add: configured_def)
    show "data_ok env opts es (cq_items (pp_work ?s)) (pp_workers ?s) (rs_results (pp_results ?s))"
      using D(4) sub by (auto simp: data_ok_def worker_ok_def)
    show "cancelled ?s"
    proof (rule cancelled_request [OF D(7)])
      have "Some 4 \<in> set (map cancelling_worker ((pp_workers s)[i := W_cancel 4]))"
        using set_update_memI [OF i, of "W_cancel 4"] by (force simp: cancelling_worker_def)
      then show "Some 4 \<in> cancellers ?s" by (simp add: cancellers_def del: set_map)
      show "cancellers ?s \<subseteq> insert None (insert (Some 4) (cancellers s))"
        using cancellers_worker_subset [of s i "W_cancel 4"] by (auto simp: cancellers_def cancelling_worker_def [of "W_cancel 4"])
    qed (use e in \<open>simp_all add: stays_closed_def\<close>)
  qed (use D e c in simp_all)
qed


lemma worker_returns:
  assumes ok: "pipeline_ok env opts es k n P s" and i: "i < length (pp_workers s)" and b: "busy [pp_workers s ! i] = []"
    and nc: "cancelling_worker (pp_workers s ! i) = None"
    and q: "pp_error s = None \<Longrightarrow> 1 \<le> stage (pp_main s) \<and> cq_items (pp_work s) = []"
  shows "pipeline_ok env opts es k n P (set_worker i W_returned s)" (is "pipeline_ok _ _ _ _ _ _ ?s")
proof -
  note D = pipeline_okD [OF ok]
  have sub: "set ((pp_workers s)[i := W_returned]) \<subseteq> insert W_returned (set (pp_workers s))" by (rule set_update_subset_insert)
  show ?thesis
  proof (rule pipeline_okI)
    show "configured opts ?s" using D(1) by (simp add: configured_def)
    show "data_ok env opts es (cq_items (pp_work ?s)) (pp_workers ?s) (rs_results (pp_results ?s))"
      using D(4) sub by (auto simp: data_ok_def worker_ok_def)
    show "cancelled ?s"
      by (rule cancelled_same [OF D(7)])
        (use cancellers_worker [OF i, of W_returned] nc in \<open>simp_all add: cancellers_def stays_closed_def cancelling_worker_def [of W_returned] del: set_map\<close>)
    show "healthy (item_count env es) k n ?s" if "pp_error ?s = None"
      using that D(9) q sub by (auto simp: healthy_def)
    show "tokens_ok env opts es k n ?s" if "pp_error ?s = None"
      using D(10) that spread_run [OF _ i, where w = W_returned] b by (simp add: tokens_ok_def) metis
  qed (use D in simp_all)
qed

lemma result_ok_small:
  assumes "small_at env opts es j" and "open_entry_file env (es ! j) = None"
  shows "result_ok env opts es (seq_of j) []"
  using assms unfolding result_ok_def
  by (intro exI [of _ j]) (simp add: small_at_def outs_nth entry_stream_def entry_fails_def entry_input_def)

lemma result_ok_serialized:
  assumes "small_at env opts es j" and "open_entry_file env (es ! j) = Some fd" and "serialize_entry env (es ! j) (Some fd) = Some bs"
  shows "result_ok env opts es (seq_of j) bs"
  using assms unfolding result_ok_def
  by (intro exI [of _ j]) (simp add: small_at_def outs_nth entry_stream_def entry_fails_def entry_input_def)

lemma caused_small:
  assumes "small_at env opts es j" and "open_entry_file env (es ! j) = Some fd" and "serialize_entry env (es ! j) (Some fd) = None"
  shows "caused env opts es"
  using assms unfolding caused_def
  by (intro disjI1 bexI [of _ "es ! j"]) (simp_all add: small_at_def entry_fails_def entry_input_def)

lemma set_worker_same: "set_worker i w (s\<lparr>pp_work := pp_work s, pp_results := pp_results s\<rparr>) = set_worker i w s"
  by simp

lemma worker_run_ok:
  assumes ok: "pipeline_ok env opts es k n P s" and i: "i < length (pp_workers s)" and w: "pp_workers s ! i = W_run it"
    and len: "length es < 2 ^ 64"
  shows "pipeline_ok env opts es k n P (worker_run env i it s)"
proof -
  note D = pipeline_okD [OF ok]
  have "worker_ok env opts es (W_run it)" using D(4) w nth_mem [OF i] by (auto simp: data_ok_def)
  then obtain j where j: "small_at env opts es j" "it = work_of es j" by (auto simp: worker_ok_def work_ok_def)
  have rs: "\<forall>(sq, bs)\<in>set (rs_results (pp_results s)). result_ok env opts es sq bs" using D(4) by (simp add: data_ok_def)
  have go: "pipeline_ok env opts es k n P (set_worker i (W_put (seq_of j) bs) s)" if "result_ok env opts es (seq_of j) bs" for bs
  proof -
    have "busy [W_put (seq_of j) bs] = busy [pp_workers s ! i]" by (simp add: w j work_of_def)
    from worker_moves [OF ok i _ _ _ _ _ _ _ _ _ _ rs _ len, of "W_put (seq_of j) bs" "pp_work s"] that spread_run [OF _ i this] w
    show ?thesis by (fastforce simp: cancelling_worker_def worker_ok_def)
  qed
  show ?thesis
  proof (cases "open_entry_file env (es ! j)")
    case None
    then show ?thesis using go [OF result_ok_small [OF j(1) None]] by (simp add: worker_run_def j(2) work_of_def)
  next
    case (Some fd)
    show ?thesis
    proof (cases "serialize_entry env (es ! j) (Some fd)")
      case None
      from worker_fails_ok [OF ok i caused_small [OF j(1) Some None], of Worker_error] w show ?thesis
        by (simp add: worker_run_def j(2) work_of_def Some None cancelling_worker_def)
    next
      case (Some bs)
      with go [OF result_ok_serialized [OF j(1) \<open>open_entry_file env (es ! j) = Some fd\<close> Some]] \<open>open_entry_file env (es ! j) = Some fd\<close>
      show ?thesis by (simp add: worker_run_def j(2) work_of_def)
    qed
  qed
qed

lemma worker_pops_ok:
  assumes ok: "pipeline_ok env opts es k n P s" and i: "i < length (pp_workers s)" and w: "pp_workers s ! i = W_pop"
    and st: "pipeline_worker_main env i s = Some s'" and len: "length es < 2 ^ 64"
  shows "pipeline_ok env opts es k n P s'"
proof -
  note D = pipeline_okD [OF ok]
  from st i w obtain q r where pop: "queue_pop (pp_work s) = Some (q, r)"
    by (auto simp: pipeline_worker_main_def split: option.splits)
  show ?thesis
  proof (cases r)
    case None
    with pop cq.pop_end [of "pp_work s" q] have q: "q = pp_work s" "cq_items (pp_work s) = []" "cq_closed (pp_work s)" by auto
    have "1 \<le> stage (pp_main s)" if "pp_error s = None" using D(9) [OF that] q(3) by (simp add: healthy_def)
    with worker_returns [OF ok i] w q(2) st i pop None q(1) show ?thesis by (simp add: pipeline_worker_main_def cancelling_worker_def)
  next
    case (Some it)
    with pop cq.pop_item [of "pp_work s" q it] have q: "cq_items (pp_work s) = it # cq_items q" "cq_closed q = cq_closed (pp_work s)"
      by auto
    have mx: "cq_max_size q = cq_max_size (pp_work s)" using pop by (auto simp: queue_pop_def split: if_splits)
    have rs: "\<forall>(sq, bs)\<in>set (rs_results (pp_results s)). result_ok env opts es sq bs" using D(4) by (simp add: data_ok_def)
    have wk: "worker_ok env opts es (W_run it)" using D(4) by (simp add: data_ok_def worker_ok_def q(1))
    from worker_moves [OF ok i _ _ _ _ wk _ mx _ _ _ rs _ len] w q spread_pop [OF _ _ i w] st i pop Some
    show ?thesis by (fastforce simp: cancelling_worker_def pipeline_worker_main_def)
  qed
qed

lemma worker_puts_ok:
  assumes ok: "pipeline_ok env opts es k n P s" and i: "i < length (pp_workers s)" and w: "pp_workers s ! i = W_put sq bs"
    and st: "pipeline_worker_main env i s = Some s'" and len: "length es < 2 ^ 64"
  shows "pipeline_ok env opts es k n P s'"
proof -
  note D = pipeline_okD [OF ok]
  have mem: "W_put sq bs \<in> set (pp_workers s)" using w nth_mem [OF i] by simp
  from st i w obtain r acc where put: "store_put (pp_results s) sq bs = Some (r, acc)"
    by (auto simp: pipeline_worker_main_def split: option.splits)
  show ?thesis
  proof (cases acc)
    case False
    with put have r: "r = pp_results s" "rs_closed (pp_results s)" by (auto simp: store_put_def split: if_splits)
    have err: "pp_error s \<noteq> None"
    proof
      assume "pp_error s = None"
      from D(9) [OF this] r(2) have "3 \<le> stage (pp_main s) \<longrightarrow> (\<forall>w\<in>set (pp_workers s). w = W_returned)" "4 \<le> stage (pp_main s)"
        by (simp_all add: healthy_def)
      with mem show False by auto
    qed
    have s': "s' = set_worker i W_returned s" using st i w put False r(1) by (simp add: pipeline_worker_main_def)
    have sub: "set ((pp_workers s)[i := W_returned]) \<subseteq> insert W_returned (set (pp_workers s))" by (rule set_update_subset_insert)
    show ?thesis
    proof (rule pipeline_okI)
      show "data_ok env opts es (cq_items (pp_work s')) (pp_workers s') (rs_results (pp_results s'))"
        using D(4) sub by (auto simp: data_ok_def worker_ok_def s')
      show "cancelled s'"
        by (rule cancelled_same [OF D(7)])
          (use cancellers_worker [OF i, of W_returned] w in \<open>simp_all add: cancellers_def stays_closed_def cancelling_worker_def s' del: set_map\<close>)
    qed (use D err in \<open>simp_all add: s' configured_def\<close>)
  next
    case True
    with put have r: "\<not> rs_closed (pp_results s)" "\<not> rs_closed r" "rs_max_size r = rs_max_size (pp_results s)"
      "rs_results r = (if map_of (rs_results (pp_results s)) sq = None then rs_results (pp_results s) @ [(sq, bs)] else rs_results (pp_results s))"
      by (auto simp: store_put_def split: if_splits)
    have rok: "result_ok env opts es sq bs" using D(4) mem by (auto simp: data_ok_def worker_ok_def)
    have rs: "\<forall>(sq, bs)\<in>set (rs_results r). result_ok env opts es sq bs" using D(4) rok by (auto simp: data_ok_def r(4))
    have t: "spread es L d (cq_items (pp_work s)) ((pp_workers s)[i := W_pop]) (rs_results r)"
      if "spread es L d (cq_items (pp_work s)) (pp_workers s) (rs_results (pp_results s))" "indices_ok L" for L d
      using spread_put [OF that i w] by (simp add: r(4))
    have "s' = set_worker i W_pop (s\<lparr>pp_results := r\<rparr>)" using st i w put True by (simp add: pipeline_worker_main_def)
    moreover have "pipeline_ok env opts es k n P (set_worker i W_pop (s\<lparr>pp_work := pp_work s, pp_results := r\<rparr>))"
      by (rule worker_moves [OF ok i _ _ _ _ _ _ _ _ _ r(3) rs _ len]) (use w r(1,2) t in \<open>(blast | simp add: cancelling_worker_def worker_ok_def)+\<close>)
    ultimately show ?thesis by simp
  qed
qed

lemma worker_cancels_ok:
  assumes ok: "pipeline_ok env opts es k n P s" and i: "i < length (pp_workers s)" and w: "pp_workers s ! i = W_cancel c"
    and st: "pipeline_worker_main env i s = Some s'"
  shows "pipeline_ok env opts es k n P s'"
proof -
  note D = pipeline_okD [OF ok]
  have "Some c \<in> set (map cancelling_worker (pp_workers s))" using w nth_mem [OF i] by (force simp: cancelling_worker_def)
  then have mem: "Some c \<in> cancellers s" by (simp add: cancellers_def del: set_map)
  have err: "pp_error s \<noteq> None" by (rule canceller_error [OF D(7) mem])
  have upd: "data_ok env opts es (cq_items (pp_work s)) ((pp_workers s)[i := x]) (rs_results (pp_results s))" if "worker_ok env opts es x" for x
    using D(4) that set_update_subset_insert [of "pp_workers s" i x] by (auto simp: data_ok_def)
  show ?thesis
  proof (cases c)
    case 0
    with st i w have s': "s' = set_worker i W_returned s" by (simp add: pipeline_worker_main_def)
    show ?thesis
    proof (rule pipeline_okI)
      show "cancelled s'"
        by (rule cancelled_last [OF D(7) mem [unfolded 0]])
          (use cancellers_worker_subset [of s i W_returned] in \<open>auto simp: s' cancellers_def cancelling_worker_def [of W_returned] stays_closed_def\<close>)
    qed (use D err upd [of W_returned] in \<open>simp_all add: s' configured_def worker_ok_def\<close>)
  next
    case (Suc c')
    with st i w have s': "s' = set_worker i (W_cancel c') (close_container c s)" by (simp add: pipeline_worker_main_def)
    have "Some c' \<in> set (map cancelling_worker ((pp_workers s)[i := W_cancel c']))"
      using set_update_memI [OF i, of "W_cancel c'"] by (force simp: cancelling_worker_def)
    then have new: "Some c' \<in> cancellers s'" by (simp add: s' cancellers_def del: set_map)
    show ?thesis
    proof (rule pipeline_okI)
      show "cancelled s'"
        by (rule cancelled_next [OF D(7) mem [unfolded Suc] _ _ _ new])
          (use close_container_closes(1) [where m = c' and s = s] close_container_closes(2) [where n = c and s = s]
             cancellers_worker_subset [of s i "W_cancel c'"] in
            \<open>auto simp: s' Suc cancellers_def cancelling_worker_def [of "W_cancel c'"] stays_closed_def closed_to_def\<close>)
    qed (use D err upd [of "W_cancel c'"] in \<open>simp_all add: s' configured_def worker_ok_def\<close>)
  qed
qed

lemma worker_step_ok:
  assumes ok: "pipeline_ok env opts es k n P s" and st: "pipeline_worker_main env i s = Some s'" and len: "length es < 2 ^ 64"
  shows "pipeline_ok env opts es k n P s'"
proof -
  have i: "i < length (pp_workers s)" using st by (simp add: pipeline_worker_main_def split: if_splits)
  show ?thesis
  proof (cases "pp_workers s ! i")
    case W_pop
    from worker_pops_ok [OF ok i this st len] show ?thesis .
  next
    case (W_run it)
    with worker_run_ok [OF ok i this len] st i show ?thesis by (simp add: pipeline_worker_main_def)
  next
    case (W_put sq bs)
    from worker_puts_ok [OF ok i this st len] show ?thesis .
  next
    case (W_cancel c)
    from worker_cancels_ok [OF ok i this st] show ?thesis .
  next
    case W_returned
    with st i show ?thesis by (simp add: pipeline_worker_main_def)
  qed
qed

end
