(* ===== verification/PaxPipelineRun.thy ===== *)
theory PaxPipelineRun
  imports PaxPipelineSteps
begin

text \<open>
  The serializer and the output thread of the pax pipeline keep the invariant, hence every run does.
\<close>

section \<open>The serializer\<close>

lemma planned_cases:
  obtains (empty) "i < length es" "\<not> has_data env (es ! i)" "\<not> small_at env opts es i"
      "planned_item env opts es i = inline_item (seq_of i) (the (serialize_entry env (es ! i) None)) True"
  | (large) "i < length es" "has_data env (es ! i)" "is_large env opts (es ! i)" "\<not> small_at env opts es i"
      "planned_item env opts es i = large_item (seq_of i) (es ! i)"
  | (small) "small_at env opts es i" "planned_item env opts es i = small_item (seq_of i)"
  | (eoa) "i \<ge> length es" "\<not> small_at env opts es i" "planned_item env opts es i = inline_item (seq_of i) (replicate 1024 0) False"
  by (cases "i < length es"; cases "has_data env (es ! i)"; cases "is_large env opts (es ! i)")
    (auto simp: planned_item_def small_at_def)

text \<open>A move of the serializer: what it has taken from the order queue and the store.\<close>

lemma serializer_moves:
  assumes ok: "pipeline_ok env opts es k n P s" and live: "pp_serializer s \<noteq> S_returned" "ser \<noteq> S_returned"
    and nc: "cancelling_serializer (pp_serializer s) = None" "cancelling_serializer ser = None"
    and q: "cq_closed q = cq_closed (pp_order s)" "cq_max_size q = cq_max_size (pp_order s)"
      "length (cq_items q) \<le> length (cq_items (pp_order s))" "orders env opts es k' n (cq_items q)"
    and r: "rs_closed r = rs_closed (pp_results s)" "rs_max_size r = rs_max_size (pp_results s)"
      "set (rs_results r) \<subseteq> set (rs_results (pp_results s))"
    and at: "serializer_at env opts es k' P ser"
    and t: "\<And>L d. pp_error s = None \<Longrightarrow> indices_ok L \<Longrightarrow> L = under_way env opts es (wanted k (pp_serializer s)) (handed_out n (pp_main s)) \<Longrightarrow>
      spread es L d (cq_items (pp_work s)) (pp_workers s) (rs_results (pp_results s)) \<Longrightarrow>
      \<exists>d. spread es (under_way env opts es (wanted k' ser) (handed_out n (pp_main s))) d (cq_items (pp_work s)) (pp_workers s) (rs_results r)"
    and len: "length es < 2 ^ 64"
  shows "pipeline_ok env opts es k' n P (s\<lparr>pp_order := q, pp_results := r, pp_serializer := ser\<rparr>)" (is "pipeline_ok _ _ _ _ _ _ ?s")
proof -
  note D = pipeline_okD [OF ok]
  show ?thesis
  proof (rule pipeline_okI)
    show "configured opts ?s" using D(1) q r by (auto simp: configured_def)
    show "data_ok env opts es (cq_items (pp_work ?s)) (pp_workers ?s) (rs_results (pp_results ?s))"
      using D(4) r(3) by (auto simp: data_ok_def)
    show "cancelled ?s"
      by (rule cancelled_same [OF D(7)]) (simp_all add: cancellers_def stays_closed_def q r nc)
    show "healthy (item_count env es) k' n ?s" if "pp_error ?s = None"
      using D(9) that live q r by (auto simp: healthy_def)
    show "tokens_ok env opts es k' n ?s" if "pp_error ?s = None"
      using D(10) t [OF _ under_way_indices [OF len] refl] that by (auto simp: tokens_ok_def)
  qed (use D q(4) at live in simp_all)
qed

lemma serializer_fails_ok:
  assumes ok: "pipeline_ok env opts es k n P s" and c: "pp_error s = None \<longrightarrow> caused env opts es"
    and nc: "cancelling_serializer (pp_serializer s) = None"
    and q: "cq_closed q = cq_closed (pp_order s)" "cq_max_size q = cq_max_size (pp_order s)"
      "length (cq_items q) \<le> length (cq_items (pp_order s))" "orders env opts es k' n (cq_items q)"
    and P: "prefix P (concat (outs env opts es))"
  shows "pipeline_ok env opts es k' n P (serializer_fails (s\<lparr>pp_order := q\<rparr>))" (is "pipeline_ok _ _ _ _ _ _ ?s")
proof -
  note D = pipeline_okD [OF ok]
  have e: "pp_error ?s \<noteq> None" by (simp add: serializer_fails_def cancel_request_def)
  show ?thesis
  proof (rule pipeline_okI)
    show "configured opts ?s" using D(1) q by (auto simp: configured_def serializer_fails_def)
    show "cancelled ?s"
      by (rule cancelled_request [OF D(7)])
        (use e in \<open>auto simp: serializer_fails_def cancellers_def cancelling_serializer_def stays_closed_def q\<close>)
    show "caused env opts es" using c D(8) by auto
  qed (use D q(4) P in \<open>simp_all add: serializer_fails_def serializer_at_def cancel_request_def split: if_splits\<close>)
qed

text \<open>A push into the buffer.\<close>

lemma buffer_push_True:
  "buffer_push b x = Some (b', True) \<Longrightarrow> bb_buf b' = bb_buf b @ [x] \<and> bb_total_bytes b' = bb_total_bytes b + length x \<and>
     bb_capacity b' = bb_capacity b \<and> \<not> bb_closed b \<and> \<not> bb_closed b'"
  by (auto simp: buffer_push_def split: if_splits)

lemma buffer_push_False: "buffer_push b x = Some (b', False) \<Longrightarrow> b' = b \<and> bb_closed b"
  by (auto simp: buffer_push_def split: if_splits)

lemma output_push: "output_at P buf chunks t \<Longrightarrow> output_at (P @ x) (buf @ [x]) chunks t"
  by (auto simp: output_at_def split: pax_output.splits)

lemma serializer_pushes:
  assumes ok: "pipeline_ok env opts es k n P s" and live: "pp_serializer s \<noteq> S_returned" "ser \<noteq> S_returned"
    and nc: "cancelling_serializer (pp_serializer s) = None" "cancelling_serializer ser = None"
    and push: "buffer_push (pp_bb1 s) x = Some (b, True)" and x: "x \<noteq> []"
    and at: "serializer_at env opts es k (P @ x) ser" and w: "wanted k ser = wanted k (pp_serializer s)"
  shows "pipeline_ok env opts es k n (P @ x) (s\<lparr>pp_bb1 := b, pp_serializer := ser, pp_input_bytes := ib\<rparr>)" (is "pipeline_ok _ _ _ _ _ _ ?s")
proof -
  note D = pipeline_okD [OF ok]
  note b = buffer_push_True [OF push]
  have h: "healthy (item_count env es) k n ?s \<and> pp_output s \<noteq> O_returned" if "pp_error s = None"
    using D(9) [OF that] live b by (auto simp: healthy_def)
  show ?thesis
  proof (rule pipeline_okI)
    show "configured opts ?s" using D(1) b x by (auto simp: configured_def)
    show "output_at (P @ x) (bb_buf (pp_bb1 ?s)) (pp_chunks ?s) (pp_output ?s)" using output_push [OF D(6)] b by simp
    show "cancelled ?s"
      by (rule cancelled_same [OF D(7)]) (use b in \<open>simp_all add: cancellers_def stays_closed_def nc\<close>)
    show "tokens_ok env opts es k n ?s" if "pp_error ?s = None" using D(10) that w by (simp add: tokens_ok_def)
  qed (use D at live h in simp_all)
qed

text \<open>A push that is refused: the buffer is closed, and there was an error.\<close>

lemma push_refused_error:
  assumes ok: "pipeline_ok env opts es k n P s" and "pp_serializer s \<noteq> S_returned" and "bb_closed (pp_bb1 s)"
  shows "pp_error s \<noteq> None"
proof
  assume "pp_error s = None"
  from pipeline_okD(9) [OF ok this] assms(2,3) have "6 \<le> stage (pp_main s)" "\<not> 5 \<le> stage (pp_main s)" by (simp_all add: healthy_def)
  then show False by simp
qed

lemma serializer_prefix:
  assumes "serializer_at env opts es k P ser" and "k \<le> item_count env es"
  shows "prefix P (concat (outs env opts es))"
proof -
  have "prefix (done_bytes env opts es j @ fl) (concat (outs env opts es))"
    if "k = Suc j" "outs env opts es ! j = fl @ rest" for j fl rest
  proof -
    have "done_bytes env opts es (Suc j) = (done_bytes env opts es j @ fl) @ rest" using that assms(2) by (simp add: done_bytes_Suc)
    then have "prefix (done_bytes env opts es j @ fl) (done_bytes env opts es (Suc j))" by (metis prefixI)
    then show ?thesis using done_bytes_prefix prefix_order.trans by blast
  qed
  with assms(1) done_bytes_prefix show ?thesis by (auto simp: serializer_at_def split: pax_serializer.splits)
qed

lemma orders_Cons:
  assumes "orders env opts es k n (it # items)"
  shows "it = planned_item env opts es k" "orders env opts es (Suc k) n items" "k < n"
    "k < length es \<Longrightarrow> has_data env (es ! k) \<or> serialize_entry env (es ! k) None \<noteq> None"
proof -
  from assms have o: "it # items = map (planned_item env opts es) [k..<n]" "n \<le> item_count env es"
    "\<forall>i<n. i < length es \<longrightarrow> has_data env (es ! i) \<or> serialize_entry env (es ! i) None \<noteq> None" by (simp_all add: orders_def)
  then show "k < n" by (cases "k < n") auto
  with o(1) have "it # items = planned_item env opts es k # map (planned_item env opts es) [Suc k..<n]" by (simp add: upt_conv_Cons)
  then show "it = planned_item env opts es k" "orders env opts es (Suc k) n items" using o(2,3) \<open>k < n\<close> by (simp_all add: orders_def)
  show "k < length es \<Longrightarrow> has_data env (es ! k) \<or> serialize_entry env (es ! k) None \<noteq> None" using o(3) \<open>k < n\<close> by blast
qed

lemma begin_emit_at:
  assumes "j < item_count env es" and "P = done_bytes env opts es j" and "none_failed env opts es j" and "bs = outs env opts es ! j"
    and "j < length es \<Longrightarrow> \<not> entry_fails env opts (es ! j)"
  shows "serializer_at env opts es (Suc j) P (begin_emit bs c)" "cancelling_serializer (begin_emit bs c) = None" "begin_emit bs c \<noteq> S_returned"
    "wanted (Suc j) (begin_emit bs c) = Suc j"
  using assms by (simp_all add: begin_emit_def serializer_at_def cancelling_serializer_def wanted_def done_bytes_Suc none_failed_Suc)


lemma serializer_pops_ok:
  assumes ok: "pipeline_ok env opts es k n P s" and w: "pp_serializer s = S_pop"
    and st: "pipeline_serializer_main env s = Some s'" and len: "length es < 2 ^ 64"
  shows "\<exists>k. pipeline_ok env opts es k n P s'"
proof -
  note D = pipeline_okD [OF ok]
  from D(5) w have at: "P = done_bytes env opts es k" "none_failed env opts es k" by (simp_all add: serializer_at_def)
  from st w obtain q r where pop: "queue_pop (pp_order s) = Some (q, r)"
    by (auto simp: pipeline_serializer_main_def split: option.splits)
  show ?thesis
  proof (cases r)
    case None
    with pop cq.pop_end [of "pp_order s" q] have q: "q = pp_order s" "cq_items (pp_order s) = []" "cq_closed (pp_order s)" by auto
    have s': "s' = s\<lparr>pp_serializer := S_returned\<rparr>" using st w pop None q(1) by (simp add: pipeline_serializer_main_def)
    have kn: "k = n" using D(3) q(2) by (auto simp: orders_def)
    have "pipeline_ok env opts es k n P s'"
    proof (rule pipeline_okI)
      show "cancelled s'"
        by (rule cancelled_same [OF D(7)]) (simp_all add: s' w cancellers_def stays_closed_def cancelling_serializer_def)
      show "healthy (item_count env es) k n s'" if "pp_error s' = None"
        using D(9) that q(3) kn by (auto simp: s' healthy_def)
      show "tokens_ok env opts es k n s'" if "pp_error s' = None"
        using D(10) that by (simp add: s' tokens_ok_def w wanted_def)
    qed (use D at done_bytes_prefix in \<open>simp_all add: s' configured_def serializer_at_def\<close>)
    then show ?thesis ..
  next
    case (Some it)
    with pop cq.pop_item [of "pp_order s" q it] have q: "cq_items (pp_order s) = it # cq_items q" "cq_closed q = cq_closed (pp_order s)"
      by auto
    have mx: "cq_max_size q = cq_max_size (pp_order s)" using pop by (auto simp: queue_pop_def split: if_splits)
    from orders_Cons [OF D(3) [unfolded q(1)]] have it: "it = planned_item env opts es k" and oq: "orders env opts es (Suc k) n (cq_items q)"
      and kn: "k < n" and inl: "k < length es \<Longrightarrow> has_data env (es ! k) \<or> serialize_entry env (es ! k) None \<noteq> None" by blast+
    have k: "k < item_count env es" using D(3) kn by (simp add: orders_def)
    have ql: "length (cq_items q) \<le> length (cq_items (pp_order s))" by (simp add: q(1))
    have wk: "wanted k (pp_serializer s) = k" by (simp add: w wanted_def)
    have nc: "cancelling_serializer (pp_serializer s) = None" by (simp add: w cancelling_serializer_def)
    have s': "s' = begin_item env it (s\<lparr>pp_order := q\<rparr>)" using st w pop Some by (simp add: pipeline_serializer_main_def)
    have go: "pipeline_ok env opts es (Suc k) n P (s\<lparr>pp_order := q, pp_serializer := ser\<rparr>)"
      if "serializer_at env opts es (Suc k) P ser" "cancelling_serializer ser = None" "ser \<noteq> S_returned"
        "wanted (Suc k) ser = Suc k \<and> \<not> small_at env opts es k \<or> wanted (Suc k) ser = k" for ser
    proof -
      have u: "under_way env opts es (wanted (Suc k) ser) m = under_way env opts es k m" for m
        using that(4) under_way_simps(3) [of env opts es k m] by auto
      have "pipeline_ok env opts es (Suc k) n P (s\<lparr>pp_order := q, pp_results := pp_results s, pp_serializer := ser\<rparr>)"
        by (rule serializer_moves [OF ok _ that(3) nc that(2) q(2) mx ql oq _ _ _ that(1) _ len])
          (use w wk in \<open>auto simp: u\<close>)
      then show ?thesis by simp
    qed
    show ?thesis
    proof (cases rule: planned_cases [where i = k and env = env and opts = opts and es = es])
      case empty
      with inl obtain bs where bs: "serialize_entry env (es ! k) None = Some bs" by auto
      have "bs = outs env opts es ! k" "\<not> entry_fails env opts (es ! k)"
        using empty bs by (simp_all add: outs_nth entry_stream_def entry_fails_def entry_input_def)
      with begin_emit_at [OF k at, of bs True] go [of "begin_emit bs True"] empty
      have "pipeline_ok env opts es (Suc k) n P (s\<lparr>pp_order := q, pp_serializer := begin_emit bs True\<rparr>)" by blast
      with empty(4) bs show ?thesis by (auto simp: s' it begin_item_def inline_item_def)
    next
      case eoa
      then have "k = length es" "pe_last_slice env" using k by (simp_all add: item_count_def split: if_splits)
      with begin_emit_at [OF k at, of "replicate 1024 0" False] go [of "begin_emit (replicate 1024 0) False"] eoa(2)
      have "pipeline_ok env opts es (Suc k) n P (s\<lparr>pp_order := q, pp_serializer := begin_emit (replicate 1024 0) False\<rparr>)"
        by (auto simp: outs_last)
      with eoa(3) show ?thesis by (auto simp: s' it begin_item_def inline_item_def)
    next
      case small
      with go [of "S_take (seq_of k)"] at show ?thesis
        by (auto simp: s' it begin_item_def small_item_def serializer_at_def cancelling_serializer_def wanted_def)
    next
      case large
      show ?thesis
      proof (cases "open_entry_file env (es ! k)")
        case None
        then have "outs env opts es ! k = []" "\<not> entry_fails env opts (es ! k)"
          using large by (simp_all add: outs_nth entry_stream_def entry_fails_def entry_input_def)
        with go [of S_pop] at large None k show ?thesis
          by (auto simp: s' it begin_item_def large_item_def begin_large_def serializer_at_def cancelling_serializer_def wanted_def
              done_bytes_Suc none_failed_Suc)
      next
        case fd: (Some fd)
        show ?thesis
        proof (cases "pe_new_writer env")
          case None
          have "entry_fails env opts (es ! k)" using large fd None by (simp add: entry_fails_def entry_input_def)
          then have "caused env opts es" using large by (auto simp: caused_def)
          then have "pipeline_ok env opts es (Suc k) n P (serializer_fails (s\<lparr>pp_order := q\<rparr>))"
            using serializer_fails_ok [OF ok _ nc q(2) mx ql oq] by (simp add: at(1) done_bytes_prefix)
          with large fd None show ?thesis by (auto simp: s' it begin_item_def large_item_def begin_large_def)
        next
          case (Some wr)
          obtain out oc where we: "write_entry env wr (es ! k) (Some fd) = (out, oc)" by fastforce
          have "outs env opts es ! k = streamed [] out oc"
            using large fd Some we by (simp add: outs_nth entry_stream_def entry_input_def)
          moreover have "streaming env (es ! k) oc" unfolding streaming_def using fd Some we by auto
          ultimately have "serializer_at env opts es (Suc k) P (S_stream [] out oc)"
            using at large by (simp add: serializer_at_def)
          with go [of "S_stream [] out oc"] large fd Some we show ?thesis
            by (auto simp: s' it begin_item_def large_item_def begin_large_def cancelling_serializer_def wanted_def)
        qed
      qed
    qed
  qed
qed


lemma spread_take:
  assumes "spread es (j # L) d items ws rs" and "indices_ok (j # L)" and "map_of rs (seq_of j) \<noteq> None"
  shows "\<exists>d. spread es L d items ws (filter (\<lambda>e. fst e \<noteq> seq_of j) rs)"
proof -
  let ?rs = "filter (\<lambda>e. fst e \<noteq> seq_of j) rs"
  from assms(1) have d: "d \<le> Suc (length L)" "items = map (work_of es) (drop d (j # L))"
    "mset (busy ws) + mset (map fst rs) = mset (map seq_of (take d (j # L)))"
    "length ws = 1 \<longrightarrow> (\<forall>x\<in>set (busy ws). \<forall>y\<in>fst ` set rs. unat y < unat x)" by (simp_all add: spread_def)
  have "seq_of j \<in> fst ` set rs" using assms(3) by (metis map_of_eq_None_iff)
  then have m: "seq_of j \<in># mset (map fst rs)" by simp
  have "d \<noteq> 0"
  proof
    assume "d = 0"
    with d(3) have "mset (map fst rs) = {#}" by simp
    with m show False by simp
  qed
  then obtain d' where d': "d = Suc d'" by (cases d) auto
  have "mset (busy ws @ map fst rs) = mset (map seq_of (take d (j # L)))" using d(3) by simp
  then have "distinct (busy ws @ map fst rs)" using distinct_seqs [OF indices_take [OF assms(2), of d]] by (rule mset_eq_imp_distinct_iff [THEN iffD2])
  then have dist: "distinct (map fst rs)" by simp
  have f: "map fst ?rs = filter (\<lambda>q. q \<noteq> seq_of j) (map fst rs)" by (simp add: filter_map comp_def)
  have "mset (map fst ?rs) = mset (map fst rs) - {#seq_of j#}"
    unfolding f using distinct_remove1_removeAll [OF dist, of "seq_of j"] mset_remove1 [of "seq_of j" "map fst rs"]
    by (simp add: removeAll_filter_not_eq eq_commute)
  then have "add_mset (seq_of j) (mset (busy ws) + mset (map fst ?rs)) = add_mset (seq_of j) (mset (map seq_of (take d' L)))"
    using m d(3) by (simp add: d' multiset_eq_iff)
  then have "mset (busy ws) + mset (map fst ?rs) = mset (map seq_of (take d' L))" by simp
  then show ?thesis using d by (intro exI [of _ d']) (auto simp: spread_def d')
qed


lemma seq_of_inj: "i < 2 ^ 64 \<Longrightarrow> j < 2 ^ 64 \<Longrightarrow> seq_of i = seq_of j \<longleftrightarrow> i = j"
  by (metis unat_seq_of)

lemma under_way_taken:
  assumes "orders env opts es (Suc j) n items" and "small_at env opts es j"
  shows "under_way env opts es j (handed_out n m) = j # under_way env opts es (Suc j) (handed_out n m)"
proof -
  have "j < handed_out n m" using assms(1) by (auto simp: orders_def handed_out_def split: pax_main.split option.split)
  with under_way_simps(4) [OF assms(2)] show ?thesis by blast
qed

text \<open>The store is closed only when every result is in it.\<close>

lemma store_not_missing:
  assumes ok: "pipeline_ok env opts es (Suc j) n P s" and w: "pp_serializer s = S_take (seq_of j)" and j: "small_at env opts es j"
    and c: "rs_closed (pp_results s)" "map_of (rs_results (pp_results s)) (seq_of j) = None"
  shows "pp_error s \<noteq> None"
proof
  assume e: "pp_error s = None"
  note D = pipeline_okD [OF ok]
  from D(9) [OF e] c(1) have st: "4 \<le> stage (pp_main s)" "3 \<le> stage (pp_main s) \<longrightarrow> (\<forall>w\<in>set (pp_workers s). w = W_returned)"
    "W_returned \<in> set (pp_workers s) \<longrightarrow> cq_items (pp_work s) = []" by (simp_all add: healthy_def)
  then have ret: "\<forall>w\<in>set (pp_workers s). w = W_returned" by simp
  have "pipeline_worker_count opts \<noteq> 0" using j by (auto simp: small_at_def is_large_def)
  then have "pp_workers s \<noteq> []" using D(1) by (auto simp: configured_def)
  then have "W_returned \<in> set (pp_workers s)" using ret by (cases "pp_workers s") auto
  with st(3) have items: "cq_items (pp_work s) = []" by blast
  have "busy ws = []" if "\<forall>w\<in>set ws. w = W_returned" for ws :: "'a pax_worker list" using that by (induction ws) (auto simp: busy_def)
  with ret have b: "busy (pp_workers s) = []" by blast
  let ?L = "under_way env opts es (Suc j) (handed_out n (pp_main s))"
  have "under_way env opts es (wanted (Suc j) (pp_serializer s)) (handed_out n (pp_main s)) = j # ?L"
    using under_way_taken [OF D(3) j, where m = "pp_main s"] by (simp add: w wanted_def)
  with D(10) [OF e] obtain d where sp: "spread es (j # ?L) d [] (pp_workers s) (rs_results (pp_results s))"
    by (auto simp: tokens_ok_def items)
  then have "d \<ge> length (j # ?L)" "mset (map fst (rs_results (pp_results s))) = mset (map seq_of (take d (j # ?L)))"
    by (simp_all add: spread_def b)
  then have "seq_of j \<in># mset (map fst (rs_results (pp_results s)))" by simp
  then have "seq_of j \<in> fst ` set (rs_results (pp_results s))" by simp
  with c(2) show False by (simp add: map_of_eq_None_iff)
qed

lemma serializer_takes_ok:
  assumes ok: "pipeline_ok env opts es k n P s" and w: "pp_serializer s = S_take sq"
    and st: "pipeline_serializer_main env s = Some s'" and len: "length es < 2 ^ 64"
  shows "pipeline_ok env opts es k n P s'"
proof -
  note D = pipeline_okD [OF ok]
  from D(5) w obtain j where j: "k = Suc j" "small_at env opts es j" "sq = seq_of j" and at: "P = done_bytes env opts es j" "none_failed env opts es j"
    by (auto simp: serializer_at_def)
  have jl: "j < length es" using j(2) by (simp add: small_at_def)
  from st w obtain r v where take: "store_take (pp_results s) sq = Some (r, v)"
    by (auto simp: pipeline_serializer_main_def split: option.splits)
  show ?thesis
  proof (cases v)
    case None
    with take have r: "r = pp_results s" "rs_closed (pp_results s)" "map_of (rs_results (pp_results s)) (seq_of j) = None"
      by (auto simp: store_take_def j(3) split: if_splits option.splits)
    have err: "pp_error s \<noteq> None" by (rule store_not_missing [OF ok [unfolded j(1)] _ j(2) r(2,3)]) (simp add: w j(3))
    have s': "s' = s\<lparr>pp_serializer := S_returned\<rparr>" using st w take None r(1) by (simp add: pipeline_serializer_main_def)
    show ?thesis
    proof (rule pipeline_okI)
      show "cancelled s'"
        by (rule cancelled_same [OF D(7)]) (simp_all add: s' w cancellers_def stays_closed_def cancelling_serializer_def)
    qed (use D err at done_bytes_prefix in \<open>simp_all add: s' configured_def serializer_at_def\<close>)
  next
    case (Some bs)
    with take have r: "map_of (rs_results (pp_results s)) (seq_of j) = Some bs" "rs_closed r = rs_closed (pp_results s)"
      "rs_max_size r = rs_max_size (pp_results s)" "rs_results r = filter (\<lambda>e. fst e \<noteq> seq_of j) (rs_results (pp_results s))"
      by (auto simp: store_take_def j(3) split: if_splits option.splits)
    have "(seq_of j, bs) \<in> set (rs_results (pp_results s))" using r(1) by (rule map_of_SomeD)
    with D(4) have "result_ok env opts es (seq_of j) bs" by (auto simp: data_ok_def)
    then obtain i where i: "small_at env opts es i" "seq_of j = seq_of i" "bs = outs env opts es ! i" "\<not> entry_fails env opts (es ! i)"
      by (auto simp: result_ok_def)
    have "i = j" using seq_of_inj [of i j] i(1,2) jl len by (simp add: small_at_def)
    with i have b: "bs = outs env opts es ! j" "\<not> entry_fails env opts (es ! j)" by simp_all
    have emit: "serializer_at env opts es k P (begin_emit bs True)" "cancelling_serializer (begin_emit bs True) = None"
      "begin_emit bs True \<noteq> S_returned" "wanted k (begin_emit bs True) = Suc j"
      using begin_emit_at [OF _ at b(1)] jl b(2) by (auto simp: j(1) item_count_def)
    have s': "s' = s\<lparr>pp_results := r, pp_serializer := begin_emit bs True\<rparr>" using st w take Some by (simp add: pipeline_serializer_main_def)
    have t: "\<exists>d. spread es (under_way env opts es (wanted k (begin_emit bs True)) (handed_out n (pp_main s))) d
        (cq_items (pp_work s)) (pp_workers s) (rs_results r)"
      if "indices_ok L" "L = under_way env opts es (wanted k (pp_serializer s)) (handed_out n (pp_main s))"
        "spread es L d (cq_items (pp_work s)) (pp_workers s) (rs_results (pp_results s))" for L d
    proof -
      have L: "L = j # under_way env opts es (Suc j) (handed_out n (pp_main s))"
        using that(2) under_way_taken [OF D(3) [unfolded j(1)] j(2)] by (simp add: w wanted_def j(1))
      from spread_take [OF that(3) [unfolded L] that(1) [unfolded L]] r(1,4) show ?thesis unfolding emit(4) by simp
    qed
    have "pipeline_ok env opts es k n P (s\<lparr>pp_order := pp_order s, pp_results := r, pp_serializer := begin_emit bs True\<rparr>)"
      by (rule serializer_moves [OF ok _ emit(3) _ emit(2) _ _ _ _ r(2,3) _ emit(1) t len])
        (use D(3) r(4) in \<open>auto simp: w cancelling_serializer_def\<close>)
    then show ?thesis by (simp add: s')
  qed
qed

lemma serializer_emits_ok:
  assumes ok: "pipeline_ok env opts es k n P s" and w: "pp_serializer s = S_emit bs c" and st: "pipeline_serializer_main env s = Some s'"
  shows "\<exists>P. pipeline_ok env opts es k n P s'"
proof -
  note D = pipeline_okD [OF ok]
  have k: "k \<le> item_count env es" using D(3) by (simp add: orders_def)
  from D(5) w obtain j where j: "k = Suc j" "bs \<noteq> []" "bs = outs env opts es ! j" "P = done_bytes env opts es j" "none_failed env opts es k"
    by (auto simp: serializer_at_def)
  from st w obtain b acc where push: "buffer_push (pp_bb1 s) bs = Some (b, acc)"
    by (auto simp: pipeline_serializer_main_def emit_bytes_to_bb1_def split: option.splits)
  show ?thesis
  proof (cases acc)
    case False
    with buffer_push_False push have b: "b = pp_bb1 s" "bb_closed (pp_bb1 s)" by auto
    have err: "pp_error s \<noteq> None" by (rule push_refused_error [OF ok _ b(2)]) (simp add: w)
    have s': "s' = s\<lparr>pp_serializer := S_returned\<rparr>" using st w push False b(1) by (simp add: pipeline_serializer_main_def emit_bytes_to_bb1_def)
    have "pipeline_ok env opts es k n P s'"
    proof (rule pipeline_okI)
      show "cancelled s'"
        by (rule cancelled_same [OF D(7)]) (simp_all add: s' w cancellers_def stays_closed_def cancelling_serializer_def)
      show "serializer_at env opts es k P (pp_serializer s')" using serializer_prefix [OF D(5) k] by (simp add: s' serializer_at_def)
    qed (use D err in \<open>simp_all add: s' configured_def\<close>)
    then show ?thesis ..
  next
    case True
    then have push: "buffer_push (pp_bb1 s) bs = Some (b, True)" using push by simp
    have "serializer_at env opts es k (P @ bs) S_pop" using j k by (simp add: serializer_at_def done_bytes_Suc)
    from serializer_pushes [OF ok _ _ _ _ push j(2) this] w st push show ?thesis
      by (fastforce simp: pipeline_serializer_main_def emit_bytes_to_bb1_def cancelling_serializer_def wanted_def)
  qed
qed


lemma thresh_pos [simp]: "0 < stream_flush_thresh" "stream_flush_thresh \<noteq> 0"
  by (simp_all add: stream_flush_thresh_def)

lemma streamed_simps:
  "length accum \<ge> stream_flush_thresh \<Longrightarrow> streamed accum out oc = accum @ streamed [] out oc"
  "\<not> length accum \<ge> stream_flush_thresh \<Longrightarrow> streamed accum (bs # out) oc = streamed (accum @ bs) out oc"
  "\<not> length accum \<ge> stream_flush_thresh \<Longrightarrow> streamed accum [] oc = (case oc of Entry_written _ \<Rightarrow> accum | _ \<Rightarrow> [])"
  by (simp_all add: streamed.simps [of accum])

text \<open>A flush of the sink.\<close>

lemma flush_sink_ok:
  assumes ok: "pipeline_ok env opts es k n P s" and w: "pp_serializer s = S_stream accum out oc" and x: "accum \<noteq> []"
    and st: "flush_sink accum ser s = Some s'"
    and ser: "serializer_at env opts es k (P @ accum) ser" "ser \<noteq> S_returned" "cancelling_serializer ser = None" "wanted k ser = k"
  shows "\<exists>P. pipeline_ok env opts es k n P s'"
proof -
  note D = pipeline_okD [OF ok]
  have k: "k \<le> item_count env es" using D(3) by (simp add: orders_def)
  have nc: "cancelling_serializer (pp_serializer s) = None" by (simp add: w cancelling_serializer_def)
  from st obtain b acc where push: "buffer_push (pp_bb1 s) accum = Some (b, acc)" by (auto simp: flush_sink_def split: option.splits)
  show ?thesis
  proof (cases acc)
    case False
    with buffer_push_False push have b: "b = pp_bb1 s" "bb_closed (pp_bb1 s)" by auto
    have err: "pp_error s \<noteq> None" by (rule push_refused_error [OF ok _ b(2)]) (simp add: w)
    have "s' = serializer_fails (s\<lparr>pp_order := pp_order s\<rparr>)" using st push False b(1) by (simp add: flush_sink_def)
    moreover have "pipeline_ok env opts es k n P (serializer_fails (s\<lparr>pp_order := pp_order s\<rparr>))"
      by (rule serializer_fails_ok [OF ok _ nc]) (use err D(3) serializer_prefix [OF D(5) k] in auto)
    ultimately show ?thesis by blast
  next
    case True
    then have "buffer_push (pp_bb1 s) accum = Some (b, True)" using push by simp
    from serializer_pushes [OF ok _ ser(2) nc ser(3) this x ser(1)] ser(4) w st push True show ?thesis
      by (fastforce simp: flush_sink_def wanted_def [of k "S_stream accum out oc"])
  qed
qed

text \<open>A step of streaming that pushes nothing.\<close>

lemma stream_moves:
  assumes ok: "pipeline_ok env opts es k n P s" and w: "pp_serializer s = S_stream accum out oc"
    and ser: "serializer_at env opts es k P ser" "ser \<noteq> S_returned" "cancelling_serializer ser = None" "wanted k ser = k"
    and len: "length es < 2 ^ 64"
  shows "pipeline_ok env opts es k n P (s\<lparr>pp_serializer := ser\<rparr>)"
proof -
  have "pipeline_ok env opts es k n P (s\<lparr>pp_order := pp_order s, pp_results := pp_results s, pp_serializer := ser\<rparr>)"
    by (rule serializer_moves [OF ok _ ser(2) _ ser(3) _ _ _ _ _ _ _ ser(1) _ len])
      (use pipeline_okD(3) [OF ok] w ser(4) in \<open>auto simp: cancelling_serializer_def wanted_def [of k "S_stream accum out oc"]\<close>)
  then show ?thesis by simp
qed

lemma serializer_streams_ok:
  assumes ok: "pipeline_ok env opts es k n P s" and w: "pp_serializer s = S_stream accum out oc"
    and st: "pipeline_serializer_main env s = Some s'" and len: "length es < 2 ^ 64"
  shows "\<exists>P. pipeline_ok env opts es k n P s'"
proof -
  note D = pipeline_okD [OF ok]
  from D(5) w obtain j fl where j: "k = Suc j" "j < length es" "has_data env (es ! j)" "is_large env opts (es ! j)"
    "streaming env (es ! j) oc" "P = done_bytes env opts es j @ fl" "outs env opts es ! j = fl @ streamed accum out oc"
    "none_failed env opts es j" by (auto simp: serializer_at_def)
  have str: "serializer_at env opts es k P' (S_stream a o2 oc)" if "P' = done_bytes env opts es j @ f" "outs env opts es ! j = f @ streamed a o2 oc" for a o2 f P'
    using j that by (auto simp: serializer_at_def)
  have fails: "entry_fails env opts (es ! j) \<longleftrightarrow> oc = Entry_throws"
    using j(3-5) by (auto simp: entry_fails_def entry_input_def streaming_def)
  have pop: "serializer_at env opts es k P' S_pop" if "oc \<noteq> Entry_throws" "P' = done_bytes env opts es j @ outs env opts es ! j" for P'
    using j(1,2,8) that fails by (simp add: serializer_at_def done_bytes_Suc none_failed_Suc item_count_def)
  have step: "stream_large_entry accum out oc s = Some s'" using st w by (simp add: pipeline_serializer_main_def)
  show ?thesis
  proof (cases "length accum \<ge> stream_flush_thresh")
    case True
    then have "accum \<noteq> []" by (cases accum) (auto simp: stream_flush_thresh_def)
    moreover have "serializer_at env opts es k (P @ accum) (S_stream [] out oc)"
      by (rule str [of _ "fl @ accum"]) (simp_all add: j(6,7) streamed_simps(1) [OF True])
    ultimately show ?thesis using flush_sink_ok [OF ok w, of "S_stream [] out oc" s'] step True
      by (simp add: stream_large_entry_def cancelling_serializer_def wanted_def)
  next
    case False
    note go = stream_moves [OF ok w _ _ _ _ len]
    show ?thesis
    proof (cases out)
      case (Cons bs out')
      then have s': "s' = s\<lparr>pp_serializer := S_stream (accum @ bs) out' oc\<rparr>" using step False by (simp add: stream_large_entry_def)
      have "serializer_at env opts es k P (S_stream (accum @ bs) out' oc)"
        by (rule str [of _ fl]) (simp_all add: j(6,7) Cons streamed_simps(2) [OF False])
      from go [OF this] show ?thesis by (auto simp: s' cancelling_serializer_def wanted_def)
    next
      case Nil
      note emp = streamed_simps(3) [OF False, of oc]
      show ?thesis
      proof (cases oc)
        case Entry_throws
        then have s': "s' = serializer_fails (s\<lparr>pp_order := pp_order s\<rparr>)" using step False Nil by (simp add: stream_large_entry_def)
        have "caused env opts es" using fails Entry_throws j(2) by (auto simp: caused_def)
        moreover have "prefix P (concat (outs env opts es))" using serializer_prefix [OF D(5)] D(3) by (simp add: orders_def)
        ultimately have "pipeline_ok env opts es k n P (serializer_fails (s\<lparr>pp_order := pp_order s\<rparr>))"
          by (intro serializer_fails_ok [OF ok]) (use D(3) w in \<open>auto simp: cancelling_serializer_def\<close>)
        then show ?thesis unfolding s' by blast
      next
        case (Entry_rejected wr)
        then have s': "s' = s\<lparr>pp_serializer := S_pop\<rparr>" using step False Nil by (simp add: stream_large_entry_def)
        have "serializer_at env opts es k P S_pop" using pop [of P] j(6,7) Entry_rejected emp Nil by simp
        from go [OF this] show ?thesis by (auto simp: s' cancelling_serializer_def wanted_def)
      next
        case (Entry_written wr)
        then have at: "serializer_at env opts es k (P @ accum) S_pop" using pop [of "P @ accum"] j(6,7) emp Nil by simp
        show ?thesis
        proof (cases "accum = []")
          case True
          then have s': "s' = s\<lparr>pp_serializer := S_pop\<rparr>" using step Nil Entry_written by (simp add: stream_large_entry_def)
          from go [of S_pop] at True show ?thesis by (auto simp: s' cancelling_serializer_def wanted_def)
        next
          case False
          with flush_sink_ok [OF ok w False, of S_pop s'] at step Nil Entry_written \<open>\<not> length accum \<ge> stream_flush_thresh\<close> show ?thesis
            by (simp add: stream_large_entry_def cancelling_serializer_def wanted_def)
        qed
      qed
    qed
  qed
qed

lemma serializer_cancels_ok:
  assumes ok: "pipeline_ok env opts es k n P s" and w: "pp_serializer s = S_cancel c" and st: "pipeline_serializer_main env s = Some s'"
  shows "pipeline_ok env opts es k n P s'"
proof -
  note D = pipeline_okD [OF ok]
  have mem: "Some c \<in> cancellers s" using w by (simp add: cancellers_def cancelling_serializer_def)
  have err: "pp_error s \<noteq> None" by (rule canceller_error [OF D(7) mem])
  have P: "prefix P (concat (outs env opts es))" using D(5) w by (simp add: serializer_at_def)
  show ?thesis
  proof (cases c)
    case 0
    with st w have s': "s' = s\<lparr>pp_serializer := S_returned\<rparr>" by (simp add: pipeline_serializer_main_def)
    show ?thesis
    proof (rule pipeline_okI)
      show "cancelled s'"
        by (rule cancelled_last [OF D(7) mem [unfolded 0]]) (auto simp: s' cancellers_def cancelling_serializer_def stays_closed_def)
    qed (use D err P in \<open>simp_all add: s' serializer_at_def configured_def\<close>)
  next
    case (Suc c')
    with st w have s': "s' = (close_container c s)\<lparr>pp_serializer := S_cancel c'\<rparr>" by (simp add: pipeline_serializer_main_def)
    show ?thesis
    proof (rule pipeline_okI)
      show "cancelled s'"
        by (rule cancelled_next [OF D(7) mem [unfolded Suc]])
          (use close_container_closes(1) [where m = c' and s = s] close_container_closes(2) [where n = c and s = s] in
            \<open>auto simp: s' Suc cancellers_def cancelling_serializer_def stays_closed_def closed_to_def\<close>)
    qed (use D err P in \<open>simp_all add: s' serializer_at_def configured_def\<close>)
  qed
qed

lemma serializer_step_ok:
  assumes ok: "pipeline_ok env opts es k n P s" and st: "pipeline_serializer_main env s = Some s'" and len: "length es < 2 ^ 64"
  shows "\<exists>k P. pipeline_ok env opts es k n P s'"
proof (cases "pp_serializer s")
  case S_pop
  from serializer_pops_ok [OF ok this st len] show ?thesis by blast
next
  case (S_take sq)
  from serializer_takes_ok [OF ok this st len] show ?thesis by blast
next
  case (S_emit bs c)
  from serializer_emits_ok [OF ok this st] show ?thesis by blast
next
  case (S_stream accum out oc)
  from serializer_streams_ok [OF ok this st len] show ?thesis by blast
next
  case (S_cancel c)
  from serializer_cancels_ok [OF ok this st] show ?thesis by blast
qed (use st in \<open>simp add: pipeline_serializer_main_def\<close>)


section \<open>The output thread\<close>

lemma output_moves:
  assumes ok: "pipeline_ok env opts es k n P s" and live: "pp_output s \<noteq> O_returned" "t \<noteq> O_returned"
    and nc: "cancelling_output (pp_output s) = None" "cancelling_output t = None"
    and b: "bb_closed b = bb_closed (pp_bb1 s)" "bb_capacity b = bb_capacity (pp_bb1 s)" "set (bb_buf b) \<subseteq> set (bb_buf (pp_bb1 s))"
      "bb_total_bytes b = length (concat (bb_buf b))"
    and at: "output_at P (bb_buf b) cs t"
  shows "pipeline_ok env opts es k n P (s\<lparr>pp_bb1 := b, pp_output := t, pp_chunks := cs, pp_output_bytes := ob\<rparr>)" (is "pipeline_ok _ _ _ _ _ _ ?s")
proof -
  note D = pipeline_okD [OF ok]
  show ?thesis
  proof (rule pipeline_okI)
    show "configured opts ?s" using D(1) b by (auto simp: configured_def)
    show "cancelled ?s" by (rule cancelled_same [OF D(7)]) (simp_all add: cancellers_def stays_closed_def b nc)
    show "healthy (item_count env es) k n ?s" if "pp_error ?s = None" using D(9) that live b by (auto simp: healthy_def)
    show "tokens_ok env opts es k n ?s" if "pp_error ?s = None" using D(10) that by (simp add: tokens_ok_def)
  qed (use D live at in simp_all)
qed

lemma output_pops_ok:
  assumes ok: "pipeline_ok env opts es k n P s" and w: "pp_output s = O_pop wl" and st: "output_main env opts s = Some s'"
  shows "pipeline_ok env opts es k n P s'"
proof -
  note D = pipeline_okD [OF ok]
  from D(6) w have P: "P = concat (pp_chunks s) @ concat (bb_buf (pp_bb1 s))" by (simp add: output_at_def)
  have tot: "bb_total_bytes (pp_bb1 s) = length (concat (bb_buf (pp_bb1 s)))" "[] \<notin> set (bb_buf (pp_bb1 s))" using D(1) by (simp_all add: configured_def)
  from st w obtain b r where pop: "(if wl then buffer_pop_after_fill (pp_bb1 s) (output_restart_bytes opts) else buffer_pop (pp_bb1 s)) = Some (b, r)"
    by (auto simp: output_main_def split: option.splits if_splits)
  show ?thesis
  proof (cases r)
    case None
    then have e: "b = pp_bb1 s \<and> bb_buf (pp_bb1 s) = [] \<and> bb_closed (pp_bb1 s)"
      using pop bb.pop_end [of "pp_bb1 s" b] bf.pop_end [of "pp_bb1 s" _ b] by (cases wl) auto
    with st w pop None have s': "s' = s\<lparr>pp_output := O_returned\<rparr>" by (simp add: output_main_def item_or_empty_def)
    show ?thesis
    proof (rule pipeline_okI)
      show "cancelled s'"
        by (rule cancelled_same [OF D(7)]) (simp_all add: s' w cancellers_def stays_closed_def cancelling_output_def)
      show "healthy (item_count env es) k n s'" if "pp_error s' = None" using D(9) that e by (auto simp: s' healthy_def)
      show "tokens_ok env opts es k n s'" if "pp_error s' = None" using D(10) that by (simp add: s' tokens_ok_def)
    qed (use D P e in \<open>simp_all add: s' configured_def output_at_def\<close>)
  next
    case (Some c)
    then have e: "bb_buf (pp_bb1 s) = c # bb_buf b \<and> bb_closed b = bb_closed (pp_bb1 s)"
      using pop bb.pop_item [of "pp_bb1 s" b c] bf.pop_item [of "pp_bb1 s" _ b c] by (cases wl) auto
    have b: "bb_capacity b = bb_capacity (pp_bb1 s)" "bb_total_bytes b = bb_total_bytes (pp_bb1 s) - length (hd (bb_buf (pp_bb1 s)))"
      using pop Some by (auto simp: buffer_pop_def buffer_pop_after_fill_def buffer_take_def split: if_splits)
    have c: "c \<noteq> []" using tot(2) e by auto
    have s': "s' = s\<lparr>pp_bb1 := b, pp_output := O_write c\<rparr>" using st w pop Some c by (simp add: output_main_def item_or_empty_def)
    have "pipeline_ok env opts es k n P (s\<lparr>pp_bb1 := b, pp_output := O_write c, pp_chunks := pp_chunks s, pp_output_bytes := pp_output_bytes s\<rparr>)"
      by (rule output_moves [OF ok]) (use w e b tot P in \<open>auto simp: cancelling_output_def output_at_def\<close>)
    then show ?thesis by (simp add: s')
  qed
qed

lemma output_writes_ok:
  assumes ok: "pipeline_ok env opts es k n P s" and w: "pp_output s = O_write c" and st: "output_main env opts s = Some s'"
  shows "pipeline_ok env opts es k n P s'"
proof -
  note D = pipeline_okD [OF ok]
  from D(6) w have P: "P = concat (pp_chunks s) @ c @ concat (bb_buf (pp_bb1 s))" by (simp add: output_at_def)
  have tot: "bb_total_bytes (pp_bb1 s) = length (concat (bb_buf (pp_bb1 s)))" using D(1) by (simp add: configured_def)
  show ?thesis
  proof (cases "pe_callback_throws env (pp_chunks s) c")
    case True
    with st w have s': "s' = (cancel_request Callback_error s)\<lparr>pp_output := O_cancel 4\<rparr>" by (simp add: output_main_def)
    have e: "pp_error s' \<noteq> None" by (simp add: s' cancel_request_def)
    have "caused env opts es" using True by (auto simp: caused_def)
    show ?thesis
    proof (rule pipeline_okI)
      show "cancelled s'"
        by (rule cancelled_request [OF D(7)])
          (use e in \<open>auto simp: s' cancellers_def cancelling_output_def stays_closed_def\<close>)
    qed (use D e P \<open>caused env opts es\<close> in \<open>simp_all add: s' configured_def output_at_def\<close>)
  next
    case False
    with st w have s': "s' = s\<lparr>pp_output := O_check, pp_chunks := pp_chunks s @ [c], pp_output_bytes := pp_output_bytes s + of_nat (length c)\<rparr>"
      by (simp add: output_main_def)
    have "pipeline_ok env opts es k n P (s\<lparr>pp_bb1 := pp_bb1 s, pp_output := O_check, pp_chunks := pp_chunks s @ [c],
        pp_output_bytes := pp_output_bytes s + of_nat (length c)\<rparr>)"
      by (rule output_moves [OF ok]) (use w tot P in \<open>auto simp: cancelling_output_def output_at_def\<close>)
    then show ?thesis by (simp add: s')
  qed
qed

lemma output_checks_ok:
  assumes ok: "pipeline_ok env opts es k n P s" and w: "pp_output s = O_check" and st: "output_main env opts s = Some s'"
  shows "pipeline_ok env opts es k n P s'"
proof -
  note D = pipeline_okD [OF ok]
  have tot: "bb_total_bytes (pp_bb1 s) = length (concat (bb_buf (pp_bb1 s)))" using D(1) by (simp add: configured_def)
  let ?t = "O_pop (output_restart_bytes opts > 0 \<and> size_bytes (pp_bb1 s) = 0)"
  have s': "s' = s\<lparr>pp_output := ?t\<rparr>" using st w by (simp add: output_main_def)
  have "pipeline_ok env opts es k n P (s\<lparr>pp_bb1 := pp_bb1 s, pp_output := ?t, pp_chunks := pp_chunks s, pp_output_bytes := pp_output_bytes s\<rparr>)"
    by (rule output_moves [OF ok]) (use w tot D(6) in \<open>auto simp: cancelling_output_def output_at_def\<close>)
  then show ?thesis by (simp add: s')
qed

lemma output_cancels_ok:
  assumes ok: "pipeline_ok env opts es k n P s" and w: "pp_output s = O_cancel c" and st: "output_main env opts s = Some s'"
  shows "pipeline_ok env opts es k n P s'"
proof -
  note D = pipeline_okD [OF ok]
  have mem: "Some c \<in> cancellers s" using w by (simp add: cancellers_def cancelling_output_def)
  have err: "pp_error s \<noteq> None" by (rule canceller_error [OF D(7) mem])
  have P: "prefix (concat (pp_chunks s)) P" using D(6) w by (simp add: output_at_def)
  show ?thesis
  proof (cases c)
    case 0
    with st w have s': "s' = s\<lparr>pp_output := O_returned\<rparr>" by (simp add: output_main_def)
    show ?thesis
    proof (rule pipeline_okI)
      show "cancelled s'"
        by (rule cancelled_last [OF D(7) mem [unfolded 0]]) (auto simp: s' cancellers_def cancelling_output_def stays_closed_def)
    qed (use D err P in \<open>simp_all add: s' output_at_def configured_def\<close>)
  next
    case (Suc c')
    with st w have s': "s' = (close_container c s)\<lparr>pp_output := O_cancel c'\<rparr>" by (simp add: output_main_def)
    show ?thesis
    proof (rule pipeline_okI)
      show "cancelled s'"
        by (rule cancelled_next [OF D(7) mem [unfolded Suc]])
          (use close_container_closes(1) [where m = c' and s = s] close_container_closes(2) [where n = c and s = s] in
            \<open>auto simp: s' Suc cancellers_def cancelling_output_def stays_closed_def closed_to_def\<close>)
    qed (use D err P in \<open>simp_all add: s' output_at_def configured_def\<close>)
  qed
qed

lemma output_step_ok:
  assumes ok: "pipeline_ok env opts es k n P s" and st: "output_main env opts s = Some s'"
  shows "pipeline_ok env opts es k n P s'"
proof (cases "pp_output s")
  case (O_pop wl)
  from output_pops_ok [OF ok this st] show ?thesis .
next
  case (O_write c)
  from output_writes_ok [OF ok this st] show ?thesis .
next
  case O_check
  from output_checks_ok [OF ok this st] show ?thesis .
next
  case (O_cancel c)
  from output_cancels_ok [OF ok this st] show ?thesis .
qed (use st in \<open>simp add: output_main_def\<close>)

section \<open>Runs\<close>

lemma pipeline_step_ok:
  assumes ok: "pipeline_ok env opts es k n P s" and st: "pipeline_step env opts t s = Some s'" and len: "length es < 2 ^ 64"
  shows "\<exists>k n P. pipeline_ok env opts es k n P s'"
proof (cases t)
  case Main_thread
  with st have "main_step env opts s = Some s'" by (simp add: pipeline_step_def)
  from main_step_ok [OF ok this] show ?thesis by blast
next
  case (Worker_thread i)
  with st have "pipeline_worker_main env i s = Some s'" by (simp add: pipeline_step_def)
  from worker_step_ok [OF ok this len] show ?thesis by blast
next
  case Serializer_thread
  with st have "pipeline_serializer_main env s = Some s'" by (simp add: pipeline_step_def)
  from serializer_step_ok [OF ok this len] show ?thesis by blast
next
  case Output_thread
  with st have "output_main env opts s = Some s'" by (simp add: pipeline_step_def)
  from output_step_ok [OF ok this] show ?thesis by blast
qed

lemma start_ok: "pipeline_ok env opts es 0 0 [] (start_pipeline opts es)"
proof (rule pipeline_okI)
  have b: "busy (replicate m W_pop) = []" for m :: nat by (simp add: busy_def)
  show "tokens_ok env opts es 0 0 (start_pipeline opts es)"
    by (simp add: tokens_ok_def start_pipeline_def spread_def new_queue_def handed_out_def wanted_def under_way_def b)
  show "healthy (item_count env es) 0 0 (start_pipeline opts es)"
    by (simp add: healthy_def start_pipeline_def new_queue_def new_buffer_def stage_def late_def)
  show "cancelled (start_pipeline opts es)"
    by (auto simp: cancelled_def cancellers_def start_pipeline_def cancelling_main_def cancelling_worker_def cancelling_serializer_def
        cancelling_output_def)
qed (simp_all add: start_pipeline_def configured_def new_queue_def new_buffer_def main_at_def seq_of_def orders_def data_ok_def
    worker_ok_def serializer_at_def output_at_def)

lemma pipeline_run_ok:
  "pipeline_run env opts ts s = Some s' \<Longrightarrow> pipeline_ok env opts es k n P s \<Longrightarrow> length es < 2 ^ 64 \<Longrightarrow>
   \<exists>k n P. pipeline_ok env opts es k n P s'"
proof (induction ts arbitrary: s k n P)
  case (Cons t ts)
  then obtain q where q: "pipeline_step env opts t s = Some q" "pipeline_run env opts ts q = Some s'" by (auto split: option.splits)
  from pipeline_step_ok [OF Cons.prems(2) q(1) Cons.prems(3)] Cons.IH [OF q(2) _ Cons.prems(3)] show ?case by blast
qed auto

end
