(* ===== verification/PaxPipelineProps.thy ===== *)
theory PaxPipelineProps
  imports PaxPipelineRun
begin

text \<open>
  The pax pipeline never deadlocks, every run of it is finite, and a run that completes has
  handed the sequential stream to the callback.
\<close>

section \<open>Progress\<close>

definition can_step :: "('e, 'w) pax_env \<Rightarrow> pax_options \<Rightarrow> ('e, 'w) pipeline \<Rightarrow> bool" where
  "can_step env opts s \<longleftrightarrow> (\<exists>t. pipeline_step env opts t s \<noteq> None)"

lemma can_stepI:
  "main_step env opts s \<noteq> None \<Longrightarrow> can_step env opts s"
  "pipeline_worker_main env i s \<noteq> None \<Longrightarrow> can_step env opts s"
  "pipeline_serializer_main env s \<noteq> None \<Longrightarrow> can_step env opts s"
  "output_main env opts s \<noteq> None \<Longrightarrow> can_step env opts s"
  unfolding can_step_def
  by (rule exI [of _ Main_thread], simp add: pipeline_step_def)
    (rule exI [of _ "Worker_thread i"], simp add: pipeline_step_def,
     rule exI [of _ Serializer_thread], simp add: pipeline_step_def,
     rule exI [of _ Output_thread], simp add: pipeline_step_def)

text \<open>Which operations wait.\<close>

lemma waits:
  "queue_push q x = None \<Longrightarrow> \<not> cq_closed q \<and> cq_items q \<noteq> []"
  "queue_pop q' = None \<Longrightarrow> \<not> cq_closed q' \<and> cq_items q' = []"
  "store_put r sq v = None \<Longrightarrow> \<not> rs_closed r \<and> 0 < rs_max_size r \<and> rs_max_size r \<le> length (rs_results r)"
  "store_take r' sq = None \<Longrightarrow> \<not> rs_closed r' \<and> map_of (rs_results r') sq = None"
  "buffer_push b y = None \<Longrightarrow> \<not> bb_closed b \<and> bb_capacity b \<le> bb_total_bytes b"
  "buffer_pop b = None \<Longrightarrow> \<not> bb_closed b \<and> bb_buf b = []"
  "buffer_pop_after_fill b m = None \<Longrightarrow> \<not> bb_closed b \<and> (bb_buf b = [] \<or> bb_total_bytes b < m)"
  by (auto simp: queue_push_def queue_pop_def store_put_def store_take_def buffer_push_def buffer_pop_def buffer_pop_after_fill_def
      split: if_splits option.splits)

lemma output_waits:
  assumes "output_main env opts s = None"
  shows "pp_output s = O_returned \<or>
    \<not> bb_closed (pp_bb1 s) \<and> (bb_buf (pp_bb1 s) = [] \<or> bb_total_bytes (pp_bb1 s) < output_restart_bytes opts)"
  using assms waits(6,7) [of "pp_bb1 s"]
  by (cases "pp_output s") (auto simp: output_main_def Let_def split: option.splits if_splits nat.splits)

lemma worker_waits:
  assumes "pipeline_worker_main env i s = None" and "i < length (pp_workers s)"
  shows "pp_workers s ! i = W_returned \<or> pp_workers s ! i = W_pop \<and> \<not> cq_closed (pp_work s) \<and> cq_items (pp_work s) = [] \<or>
    (\<exists>sq bs. pp_workers s ! i = W_put sq bs \<and> \<not> rs_closed (pp_results s) \<and>
       rs_max_size (pp_results s) \<le> length (rs_results (pp_results s)))"
  using assms waits(2) [of "pp_work s"] waits(3) [of "pp_results s"]
  by (cases "pp_workers s ! i") (auto simp: pipeline_worker_main_def split: option.splits nat.splits)

lemma serializer_waits:
  assumes "pipeline_serializer_main env s = None"
  shows "pp_serializer s = S_returned \<or> pp_serializer s = S_pop \<and> \<not> cq_closed (pp_order s) \<and> cq_items (pp_order s) = [] \<or>
    (\<exists>sq. pp_serializer s = S_take sq \<and> \<not> rs_closed (pp_results s) \<and> map_of (rs_results (pp_results s)) sq = None) \<or>
    \<not> bb_closed (pp_bb1 s) \<and> bb_capacity (pp_bb1 s) \<le> bb_total_bytes (pp_bb1 s)"
  using assms waits(2) [of "pp_order s"] waits(4) [of "pp_results s"] waits(5) [of "pp_bb1 s"]
  by (cases "pp_serializer s") (auto simp: pipeline_serializer_main_def emit_bytes_to_bb1_def stream_large_entry_def flush_sink_def
      split: option.splits nat.splits if_splits list.splits write_outcome.splits bool.splits)

lemma main_waits:
  assumes "main_step env opts s = None"
  shows "pp_main s = M_done \<or> (\<exists>e rest. pp_main s = M_work e rest \<and> \<not> cq_closed (pp_work s) \<and> cq_items (pp_work s) \<noteq> []) \<or>
    (\<exists>it rest. pp_main s = M_order it rest \<and> \<not> cq_closed (pp_order s) \<and> cq_items (pp_order s) \<noteq> []) \<or>
    pp_main s = M_join_workers \<and> (\<exists>w\<in>set (pp_workers s). w \<noteq> W_returned) \<or>
    pp_main s = M_join_serializer \<and> pp_serializer s \<noteq> S_returned \<or> pp_main s = M_join_output \<and> pp_output s \<noteq> O_returned"
  using assms waits(1) [of "pp_work s"] waits(1) [of "pp_order s"]
  by (cases "pp_main s") (auto simp: main_step_def enqueue_work_def enqueue_order_def
      split: list.splits option.splits nat.splits if_splits bool.splits)


lemma closed_steps:
  assumes "closed_to 0 s" and "pp_main s \<noteq> M_done"
  shows "can_step env opts s"
proof (rule ccontr)
  assume "\<not> can_step env opts s"
  then have n: "main_step env opts s = None" "\<And>i. pipeline_worker_main env i s = None" "pipeline_serializer_main env s = None"
    "output_main env opts s = None" using can_stepI by blast+
  have c: "cq_closed (pp_work s)" "cq_closed (pp_order s)" "rs_closed (pp_results s)" "bb_closed (pp_bb1 s)"
    using assms(1) by (simp_all add: closed_to_def)
  have w: "w = W_returned" if "w \<in> set (pp_workers s)" for w
  proof -
    from that obtain i where "i < length (pp_workers s)" "w = pp_workers s ! i" by (auto simp: in_set_conv_nth)
    with worker_waits [OF n(2) this(1)] c show ?thesis by auto
  qed
  have "pp_serializer s = S_returned" using serializer_waits [OF n(3)] c by auto
  moreover have "pp_output s = O_returned" using output_waits [OF n(4)] c by auto
  ultimately show False using main_waits [OF n(1)] w c assms(2) by auto
qed

lemma cancelling_Some [simp]:
  "cancelling_main m = Some c \<longleftrightarrow> m = M_cancel c" "cancelling_serializer r = Some c \<longleftrightarrow> r = S_cancel c"
  "cancelling_output t = Some c \<longleftrightarrow> t = O_cancel c" "cancelling_worker w = Some c \<longleftrightarrow> w = W_cancel c"
  by (simp_all add: cancelling_main_def cancelling_serializer_def cancelling_output_def cancelling_worker_def
      split: pax_main.split pax_serializer.split pax_output.split pax_worker.split)

lemma canceller_steps:
  assumes "Some c \<in> cancellers s"
  shows "can_step env opts s"
proof -
  consider "pp_main s = M_cancel c" | "pp_serializer s = S_cancel c" | "pp_output s = O_cancel c"
    | i where "i < length (pp_workers s)" "pp_workers s ! i = W_cancel c"
    using assms by (auto simp: cancellers_def in_set_conv_nth eq_commute [of "Some c"])
  then show ?thesis
  proof cases
    case 1
    then show ?thesis by (intro can_stepI(1)) (cases c, simp_all add: main_step_def)
  next
    case 2
    then show ?thesis by (intro can_stepI(3)) (cases c, simp_all add: pipeline_serializer_main_def)
  next
    case 3
    then show ?thesis by (intro can_stepI(4)) (cases c, simp_all add: output_main_def)
  next
    case 4
    then show ?thesis by (intro can_stepI(2) [of _ i]) (cases c, simp_all add: pipeline_worker_main_def)
  qed
qed

lemma busy_member: "sq \<in> set (busy ws) \<Longrightarrow>
  \<exists>i < length ws. (\<exists>it. ws ! i = W_run it \<and> wi_seq it = sq) \<or> (\<exists>bs. ws ! i = W_put sq bs)"
proof -
  assume "sq \<in> set (busy ws)"
  then obtain w where "w \<in> set ws" "sq \<in> set (case w of W_run it \<Rightarrow> [wi_seq it] | W_put q bs \<Rightarrow> [q] | _ \<Rightarrow> [])" by (auto simp: busy_def)
  then have "w \<in> set ws" "(\<exists>it. w = W_run it \<and> wi_seq it = sq) \<or> (\<exists>bs. w = W_put sq bs)" by (auto split: pax_worker.splits)
  then show ?thesis by (metis in_set_conv_nth item_count_def)
qed

text \<open>The result the serializer waits for is on its way: some worker can step, because the store is
  larger than everything that may be in it before that result.\<close>

lemma awaited_result_steps:
  assumes ok: "pipeline_ok env opts es (Suc j) n P s" and e: "pp_error s = None"
    and w: "pp_serializer s = S_take (seq_of j)" and j: "small_at env opts es j"
    and c: "\<not> rs_closed (pp_results s)" "map_of (rs_results (pp_results s)) (seq_of j) = None" and len: "length es < 2 ^ 64"
  shows "\<exists>i. pipeline_worker_main env i s \<noteq> None"
proof (rule ccontr)
  assume "\<not> (\<exists>i. pipeline_worker_main env i s \<noteq> None)"
  then have stuck: "pp_workers s ! i = W_returned \<or> pp_workers s ! i = W_pop \<and> cq_items (pp_work s) = [] \<or>
    (\<exists>sq bs. pp_workers s ! i = W_put sq bs \<and> rs_max_size (pp_results s) \<le> length (rs_results (pp_results s)))"
    if "i < length (pp_workers s)" for i using worker_waits [OF _ that] by blast
  note D = pipeline_okD [OF ok]
  let ?L = "under_way env opts es (Suc j) (handed_out n (pp_main s))" and ?rs = "rs_results (pp_results s)"
  have L: "under_way env opts es (wanted (Suc j) (pp_serializer s)) (handed_out n (pp_main s)) = j # ?L"
    using under_way_taken [OF D(3) j, where m = "pp_main s"] by (simp add: w wanted_def)
  with D(10) [OF e] obtain d where sp: "spread es (j # ?L) d (cq_items (pp_work s)) (pp_workers s) ?rs"
    by (auto simp: tokens_ok_def)
  then have d: "d \<le> Suc (length ?L)" "cq_items (pp_work s) = map (work_of es) (drop d (j # ?L))"
    "mset (busy (pp_workers s)) + mset (map fst ?rs) = mset (map seq_of (take d (j # ?L)))" by (simp_all add: spread_def)
  have wc: "length (pp_workers s) = pipeline_worker_count opts" "0 < pipeline_worker_count opts"
    using D(1) j by (auto simp: configured_def small_at_def is_large_def)
  show False
  proof (cases d)
    case 0
    then have items: "cq_items (pp_work s) \<noteq> []" and b: "busy (pp_workers s) = []" using d by simp_all
    have "W_returned \<notin> set (pp_workers s)" using D(9) [OF e] items by (auto simp: healthy_def)
    moreover have i0: "0 < length (pp_workers s)" using wc by simp
    ultimately have nr: "pp_workers s ! 0 \<noteq> W_returned" using nth_mem [OF i0] by metis
    with stuck [OF i0] items obtain sq bs where "pp_workers s ! 0 = W_put sq bs" by auto
    then have "sq \<in> set (busy (pp_workers s))" using i0 by (cases "pp_workers s") (auto simp: busy_def)
    with b show False by simp
  next
    case (Suc d')
    have "seq_of j \<in># mset (busy (pp_workers s)) + mset (map fst ?rs)" unfolding d(3) Suc by simp
    moreover have "seq_of j \<notin> fst ` set ?rs" using c(2) by (simp add: map_of_eq_None_iff)
    ultimately have held: "seq_of j \<in> set (busy (pp_workers s))" by auto
    then obtain i where i: "i < length (pp_workers s)"
      "(\<exists>it. pp_workers s ! i = W_run it) \<or> (\<exists>bs. pp_workers s ! i = W_put (seq_of j) bs)" using busy_member by blast
    with stuck [OF i(1)] have full: "pipeline_result_capacity opts \<le> length ?rs" using D(1) by (auto simp: configured_def)
    have pos: "0 < length (busy (pp_workers s))" using held by (cases "busy (pp_workers s)") auto
    have "length (busy (pp_workers s)) + length ?rs = d" using arg_cong [OF d(3), of size] d(1) by simp
    moreover have "length ?L \<le> handed_out n (pp_main s) - Suc j" by (simp add: under_way_def length_filter_le [THEN order_trans])
    moreover have "handed_out n (pp_main s) \<le> Suc n" by (simp add: handed_out_def split: pax_main.split option.split)
    moreover have "n - Suc j = length (cq_items (pp_order s))" "length (cq_items (pp_order s)) \<le> pipeline_order_queue_capacity opts"
      using D(1,3) by (auto simp: orders_def configured_def)
    ultimately have "length (busy (pp_workers s)) + length ?rs \<le> pipeline_order_queue_capacity opts + 2" using d(1) by linarith
    with full pos have one: "pipeline_worker_count opts = 1" using wc(2) unfolding pipeline_result_capacity_def by linarith
    have "?rs = []"
    proof (rule ccontr)
      assume "?rs \<noteq> []"
      then obtain y where y: "y \<in> fst ` set ?rs" by (cases ?rs) auto
      with sp held one wc(1) have lt: "unat y < unat (seq_of j)" by (auto simp: spread_def)
      have "y \<in># mset (busy (pp_workers s)) + mset (map fst ?rs)" using y by simp
      then have "y \<in> seq_of ` set (take d (j # ?L))" unfolding d(3) by simp
      then obtain i where i: "i \<in> set (j # ?L)" "y = seq_of i" by (auto dest: in_set_takeD)
      then have "j \<le> i" "i < length es" using j by (auto simp: under_way_def small_at_def)
      with lt i(2) len show False by (simp add: unat_seq_of)
    qed
    with full wc(2) show False by (simp add: pipeline_result_capacity_def)
  qed
qed


lemma restart_le_capacity:
  assumes "px_buffer_percent opts \<le> 100"
  shows "output_restart_bytes opts \<le> unat (px_output_buf_size opts)"
proof -
  let ?c = "unat (px_output_buf_size opts)" and ?p = "unat (px_buffer_percent opts)"
  have p: "?p \<le> 100" using assms by (simp add: word_le_nat_alt)
  have up: "unat (ucast (px_buffer_percent opts) :: u64) = ?p" using p by (simp add: unsigned_ucast_eq take_bit_nat_eq_self)
  have "output_restart_bytes opts = unat (px_output_buf_size opts * ucast (px_buffer_percent opts)) div 100"
    by (simp add: output_restart_bytes_def unat_div)
  also have "\<dots> \<le> (?c * ?p) div 100" by (simp add: unat_word_ariths(2) up div_le_mono)
  also have "\<dots> \<le> (?c * 100) div 100" using p by (intro div_le_mono mult_le_mono2)
  finally show ?thesis by simp
qed

text \<open>A push waits only while the output thread can take something out.\<close>

lemma full_buffer_steps:
  assumes ok: "pipeline_ok env opts es k n P s" and e: "pp_error s = None" and ser: "pp_serializer s \<noteq> S_returned"
    and full: "\<not> bb_closed (pp_bb1 s)" "bb_capacity (pp_bb1 s) \<le> bb_total_bytes (pp_bb1 s)"
    and o: "0 < px_output_buf_size opts" "px_buffer_percent opts \<le> 100"
  shows "can_step env opts s"
proof (rule ccontr)
  assume "\<not> can_step env opts s"
  then have "output_main env opts s = None" using can_stepI(4) by blast
  note D = pipeline_okD [OF ok]
  have cap: "bb_capacity (pp_bb1 s) = unat (px_output_buf_size opts)" "bb_total_bytes (pp_bb1 s) = length (concat (bb_buf (pp_bb1 s)))"
    using D(1) by (simp_all add: configured_def)
  have "0 < unat (px_output_buf_size opts)" using o(1) by (simp add: word_less_nat_alt)
  then have "bb_buf (pp_bb1 s) \<noteq> []" using full(2) cap by auto
  moreover have "pp_output s \<noteq> O_returned" using D(9) [OF e] full(1) by (auto simp: healthy_def)
  moreover have "output_restart_bytes opts \<le> bb_total_bytes (pp_bb1 s)" using restart_le_capacity [OF o(2)] full(2) cap(1) by simp
  ultimately show False using output_waits [OF \<open>output_main env opts s = None\<close>] by auto
qed

lemma serializer_progress:
  assumes ok: "pipeline_ok env opts es k n P s" and e: "pp_error s = None" and len: "length es < 2 ^ 64"
    and o: "0 < px_output_buf_size opts" "px_buffer_percent opts \<le> 100"
    and ser: "pp_serializer s \<noteq> S_returned" "pp_serializer s = S_pop \<Longrightarrow> cq_closed (pp_order s) \<or> cq_items (pp_order s) \<noteq> []"
  shows "can_step env opts s"
proof (cases "pipeline_serializer_main env s")
  case (Some s')
  then show ?thesis by (intro can_stepI(3)) simp
next
  case None
  from serializer_waits [OF this] ser consider
      (take) sq where "pp_serializer s = S_take sq" "\<not> rs_closed (pp_results s)" "map_of (rs_results (pp_results s)) sq = None"
    | (full) "\<not> bb_closed (pp_bb1 s)" "bb_capacity (pp_bb1 s) \<le> bb_total_bytes (pp_bb1 s)" by auto
  then show ?thesis
  proof cases
    case take
    with pipeline_okD(5) [OF ok] obtain j where j: "k = Suc j" "small_at env opts es j" "sq = seq_of j" by (auto simp: serializer_at_def)
    from awaited_result_steps [OF ok [unfolded j(1)] e take(1) [unfolded j(3)] j(2) take(2) take(3) [unfolded j(3)] len]
    obtain i where "pipeline_worker_main env i s \<noteq> None" ..
    then show ?thesis by (rule can_stepI(2))
  next
    case full
    from full_buffer_steps [OF ok e ser(1) full o] show ?thesis .
  qed
qed

lemma idle_without_work:
  assumes ok: "pipeline_ok env opts es k n P s" and e: "pp_error s = None" and "k = n" and "handed_out n (pp_main s) = n"
    and "wanted k (pp_serializer s) = k"
  shows "cq_items (pp_work s) = [] \<and> busy (pp_workers s) = []"
proof -
  from pipeline_okD(10) [OF ok e] assms(3-5) obtain d where
    "spread es (under_way env opts es n n) d (cq_items (pp_work s)) (pp_workers s) (rs_results (pp_results s))"
    by (auto simp: tokens_ok_def)
  then show ?thesis by (simp add: spread_def under_way_def)
qed

lemma pipeline_progress:
  assumes ok: "pipeline_ok env opts es k n P s" and len: "length es < 2 ^ 64"
    and o: "0 < px_output_buf_size opts" "px_buffer_percent opts \<le> 100" and nd: "pp_main s \<noteq> M_done"
  shows "can_step env opts s"
proof (cases "pp_error s")
  case (Some err)
  with pipeline_okD(7) [OF ok] have "(\<exists>n. Some n \<in> cancellers s) \<or> closed_to 0 s" by (simp add: cancelled_def)
  with canceller_steps closed_steps [OF _ nd] show ?thesis by blast
next
  case e: None
  note D = pipeline_okD [OF ok] and H = pipeline_okD(9) [OF ok e]
  note ser = serializer_progress [OF ok e len o]
  show ?thesis
  proof (cases "main_step env opts s")
    case (Some s')
    then show ?thesis by (intro can_stepI(1)) simp
  next
    case None
    from main_waits [OF None] nd consider
        (work) en rest where "pp_main s = M_work en rest" "cq_items (pp_work s) \<noteq> []"
      | (order) it rest where "pp_main s = M_order it rest" "cq_items (pp_order s) \<noteq> []"
      | (workers) w where "pp_main s = M_join_workers" "w \<in> set (pp_workers s)" "w \<noteq> W_returned"
      | (serializer) "pp_main s = M_join_serializer" "pp_serializer s \<noteq> S_returned"
      | (writing) "pp_main s = M_join_output" "pp_output s \<noteq> O_returned" by blast
    then show ?thesis
    proof cases
      case work
      have sr: "pp_serializer s \<noteq> S_returned" using H work(1) by (auto simp: healthy_def stage_def)
      have "cq_items (pp_order s) \<noteq> []" if "pp_serializer s = S_pop"
      proof
        assume "cq_items (pp_order s) = []"
        then have "k = n" using D(3) by (auto simp: orders_def)
        from idle_without_work [OF ok e this] work that show False by (simp add: handed_out_def wanted_def)
      qed
      with ser sr show ?thesis by blast
    next
      case order
      have "pp_serializer s \<noteq> S_returned" using H order(1) by (auto simp: healthy_def stage_def)
      with ser order(2) show ?thesis by blast
    next
      case workers
      then have cl: "cq_closed (pp_work s)" "cq_closed (pp_order s)" "\<not> rs_closed (pp_results s)"
        using H by (auto simp: healthy_def stage_def)
      show ?thesis
      proof (cases "pp_serializer s = S_returned")
        case True
        with H have "k = n" by (simp add: healthy_def)
        from idle_without_work [OF ok e this] workers(1) True have b: "busy (pp_workers s) = []" by (simp add: handed_out_def wanted_def)
        from workers(2) obtain i where i: "i < length (pp_workers s)" "w = pp_workers s ! i" by (auto simp: in_set_conv_nth)
        show ?thesis
        proof (rule ccontr)
          assume "\<not> can_step env opts s"
          then have "pipeline_worker_main env i s = None" using can_stepI(2) by blast
          from worker_waits [OF this i(1)] i(2) workers(3) cl obtain sq bs where "w = W_put sq bs" by auto
          with workers(2) b show False by (auto simp: busy_def)
        qed
      next
        case False
        with ser cl(2) show ?thesis by blast
      qed
    next
      case serializer
      then have "cq_closed (pp_order s)" using H by (simp add: healthy_def stage_def)
      with ser serializer(2) show ?thesis by blast
    next
      case writing
      then have "bb_closed (pp_bb1 s)" using H by (simp add: healthy_def stage_def)
      with output_waits [of env opts s] writing(2) can_stepI(4) show ?thesis by blast
    qed
  qed
qed


section \<open>Termination\<close>

text \<open>The write callbacks of a streamed entry, and the steps that are left.\<close>

definition stream_writes :: "('e, 'w) pax_env \<Rightarrow> 'e \<Rightarrow> nat" where
  "stream_writes env e =
    (case open_entry_file env e of
       None \<Rightarrow> 0
     | Some fd \<Rightarrow> (case pe_new_writer env of None \<Rightarrow> 0 | Some w \<Rightarrow> length (fst (write_entry env w e (Some fd)))))"

definition item_cost :: "('e, 'w) pax_env \<Rightarrow> 'e pipeline_order_item \<Rightarrow> nat" where
  "item_cost env it = (case oi_kind it of Inline_bytes \<Rightarrow> 5 | Worker_result \<Rightarrow> 6
     | Large_entry \<Rightarrow> 2 + (case oi_entry it of None \<Rightarrow> 0 | Some e \<Rightarrow> 6 * stream_writes env e))"

definition entries_cost :: "('e, 'w) pax_env \<Rightarrow> 'e list \<Rightarrow> nat" where
  "entries_cost env es = sum_list (map (\<lambda>e. 12 + 6 * stream_writes env e) es)"

definition main_cost :: "('e, 'w) pax_env \<Rightarrow> 'e pax_main \<Rightarrow> nat" where
  "main_cost env m = (case m of
       M_entry es \<Rightarrow> 21 + entries_cost env es
     | M_work e rest \<Rightarrow> 32 + entries_cost env rest
     | M_order it rest \<Rightarrow> 15 + item_cost env it + (case rest of None \<Rightarrow> 0 | Some es \<Rightarrow> 7 + entries_cost env es)
     | M_cancel n \<Rightarrow> 10 + n
     | M_input n \<Rightarrow> if n = 2 then 9 else 8
     | M_join_workers \<Rightarrow> 7 | M_close_results \<Rightarrow> 6 | M_join_serializer \<Rightarrow> 5 | M_close_buffer \<Rightarrow> 4 | M_join_output \<Rightarrow> 3 | M_done \<Rightarrow> 2)"

definition worker_cost :: "'e pax_worker \<Rightarrow> nat" where
  "worker_cost w = (case w of W_pop \<Rightarrow> 6 | W_run _ \<Rightarrow> 8 | W_put _ _ \<Rightarrow> 7 | W_cancel n \<Rightarrow> n + 1 | W_returned \<Rightarrow> 0)"

definition serializer_cost :: "'w pax_serializer \<Rightarrow> nat" where
  "serializer_cost r = (case r of S_pop \<Rightarrow> 6 | S_take _ \<Rightarrow> 11 | S_emit _ _ \<Rightarrow> 10
     | S_stream accum out _ \<Rightarrow> 7 + 6 * length out + (if accum = [] then 0 else 4) | S_cancel n \<Rightarrow> n + 1 | S_returned \<Rightarrow> 0)"

definition output_cost :: "pax_output \<Rightarrow> nat" where
  "output_cost t = (case t of O_pop _ \<Rightarrow> 6 | O_write _ \<Rightarrow> 8 | O_check \<Rightarrow> 7 | O_cancel n \<Rightarrow> n + 1 | O_returned \<Rightarrow> 0)"

definition steps_left :: "('e, 'w) pax_env \<Rightarrow> ('e, 'w) pipeline \<Rightarrow> nat" where
  "steps_left env s = main_cost env (pp_main s) + sum_list (map (item_cost env) (cq_items (pp_order s))) +
     3 * length (cq_items (pp_work s)) + sum_list (map worker_cost (pp_workers s)) + serializer_cost (pp_serializer s) +
     3 * length (bb_buf (pp_bb1 s)) + output_cost (pp_output s)"

lemmas cost_defs = main_cost_def worker_cost_def serializer_cost_def output_cost_def

lemma entries_cost_simps [simp]:
  "entries_cost env [] = 0" "entries_cost env (e # es) = 12 + 6 * stream_writes env e + entries_cost env es"
  by (simp_all add: entries_cost_def)

lemma item_cost_simps [simp]:
  "item_cost env (inline_item sq bs c) = 5" "item_cost env (small_item sq) = 6"
  "item_cost env (large_item sq e) = 2 + 6 * stream_writes env e"
  by (simp_all add: item_cost_def inline_item_def small_item_def large_item_def)

lemma queue_push_cases:
  "queue_push q x = Some (q', True) \<Longrightarrow> cq_items q' = cq_items q @ [x]" "queue_push q x = Some (q', False) \<Longrightarrow> q' = q"
  by (auto simp: queue_push_def split: if_splits)

lemma queue_pop_cases:
  "queue_pop q = Some (q', Some x) \<Longrightarrow> cq_items q = x # cq_items q'" "queue_pop q = Some (q', None) \<Longrightarrow> q' = q"
  by (auto simp: queue_pop_def split: if_splits)

lemma main_steps_left:
  assumes "main_step env opts s = Some s'"
  shows "steps_left env s' < steps_left env s"
proof (cases "pp_main s")
  case (M_entry es)
  then show ?thesis
    using assms
    by (cases es) (auto simp: main_step_def emit_eoa_def dispatch_entry_to_pipeline_def Let_def main_fails_def steps_left_def main_cost_def
        split: option.splits if_splits)
next
  case (M_work e rest)
  then show ?thesis
    using assms
    by (auto simp: main_step_def enqueue_work_def main_fails_def steps_left_def main_cost_def dest: queue_push_cases
        split: option.splits prod.splits bool.splits)
next
  case (M_order it rest)
  then show ?thesis
    using assms
    by (auto simp: main_step_def enqueue_order_def main_fails_def steps_left_def main_cost_def dest: queue_push_cases
        split: option.splits prod.splits bool.splits)
next
  case (M_cancel n)
  then show ?thesis using assms by (cases n) (auto simp: main_step_def steps_left_def main_cost_def)
next
  case (M_input n)
  then show ?thesis using assms by (auto simp: main_step_def finish_input_def steps_left_def main_cost_def close_defs)
qed (use assms in \<open>auto simp: main_step_def steps_left_def main_cost_def close_defs split: if_splits\<close>)

lemma sum_list_worker:
  assumes "i < length ws"
  shows "sum_list (map worker_cost (ws[i := w])) + worker_cost (ws ! i) = sum_list (map worker_cost ws) + worker_cost w"
proof -
  have "ws = take i ws @ ws ! i # drop (Suc i) ws" using assms by (rule id_take_nth_drop)
  then have "sum_list (map worker_cost ws) = sum_list (map worker_cost (take i ws)) + worker_cost (ws ! i) +
      sum_list (map worker_cost (drop (Suc i) ws))"
    by (metis add.assoc list.simps(9) map_append sum_list.Cons sum_list.append)
  then show ?thesis using assms by (simp add: upd_conv_take_nth_drop)
qed

lemma worker_steps_left:
  assumes "pipeline_worker_main env i s = Some s'"
  shows "steps_left env s' < steps_left env s"
proof -
  have i: "i < length (pp_workers s)" using assms by (simp add: pipeline_worker_main_def split: if_splits)
  note u = sum_list_worker [OF i]
  show ?thesis
  proof (cases "pp_workers s ! i")
    case W_pop
    with assms i obtain q r where q: "queue_pop (pp_work s) = Some (q, r)" by (auto simp: pipeline_worker_main_def split: option.splits)
    then show ?thesis
      using assms i W_pop u [of W_returned] u [of "W_run (the r)"] queue_pop_cases [of "pp_work s" q]
      by (cases r) (auto simp: pipeline_worker_main_def steps_left_def worker_cost_def)
  next
    case (W_run it)
    have "worker_cost w \<le> 7 \<Longrightarrow> sum_list (map worker_cost ((pp_workers s)[i := w])) < sum_list (map worker_cost (pp_workers s))" for w
      using u [of w] W_run by (simp add: worker_cost_def [of "W_run it"])
    with W_run assms i show ?thesis
      by (auto simp: pipeline_worker_main_def worker_run_def steps_left_def worker_cost_def [of "W_put q bs" for q bs]
          worker_cost_def [of "W_cancel 4"] split: option.splits)
  next
    case (W_put sq bs)
    then show ?thesis
      using assms i u [of W_returned] u [of W_pop]
      by (auto simp: pipeline_worker_main_def steps_left_def worker_cost_def split: option.splits if_splits)
  next
    case (W_cancel n)
    then show ?thesis
      using assms i u [of W_returned] u [of "W_cancel (n - 1)"]
      by (cases n) (auto simp: pipeline_worker_main_def steps_left_def worker_cost_def)
  next
    case W_returned
    with assms i show ?thesis by (simp add: pipeline_worker_main_def)
  qed
qed

lemma flush_steps_left:
  assumes "flush_sink accum ser s = Some s'" and "serializer_cost (pp_serializer s) \<ge> serializer_cost ser + 4"
    and "serializer_cost (pp_serializer s) > 5"
  shows "steps_left env s' < steps_left env s"
  using assms
  by (auto simp: flush_sink_def serializer_fails_def steps_left_def serializer_cost_def [of "S_cancel 4"]
      dest: buffer_push_True buffer_push_False split: option.splits prod.splits bool.splits)

lemma serializer_steps_left:
  assumes "pipeline_serializer_main env s = Some s'"
  shows "steps_left env s' < steps_left env s"
proof (cases "pp_serializer s")
  case S_pop
  with assms obtain q r where q: "queue_pop (pp_order s) = Some (q, r)" by (auto simp: pipeline_serializer_main_def split: option.splits)
  show ?thesis
  proof (cases r)
    case None
    with assms S_pop q queue_pop_cases(2) [of "pp_order s" q] show ?thesis
      by (auto simp: pipeline_serializer_main_def steps_left_def serializer_cost_def)
  next
    case (Some it)
    with q queue_pop_cases(1) have it: "cq_items (pp_order s) = it # cq_items q" by auto
    from assms S_pop q Some have s': "s' = begin_item env it (s\<lparr>pp_order := q\<rparr>)" by (simp add: pipeline_serializer_main_def)
    show ?thesis
      by (cases "oi_kind it")
        (auto simp: s' it S_pop begin_item_def begin_emit_def begin_large_def serializer_fails_def steps_left_def serializer_cost_def
          item_cost_def stream_writes_def split: option.split prod.split)
  qed
next
  case (S_take sq)
  then show ?thesis
    using assms by (auto simp: pipeline_serializer_main_def steps_left_def serializer_cost_def begin_emit_def split: option.splits)
next
  case (S_emit bs c)
  then show ?thesis
    using assms
    by (auto simp: pipeline_serializer_main_def emit_bytes_to_bb1_def steps_left_def serializer_cost_def
        dest: buffer_push_True buffer_push_False split: option.splits prod.splits bool.splits)
next
  case (S_stream accum out oc)
  then have st: "stream_large_entry accum out oc s = Some s'" using assms by (simp add: pipeline_serializer_main_def)
  have c: "serializer_cost (pp_serializer s) = 7 + 6 * length out + (if accum = [] then 0 else 4)" by (simp add: S_stream serializer_cost_def)
  show ?thesis
  proof (cases "length accum \<ge> stream_flush_thresh")
    case True
    then have "accum \<noteq> []" by (cases accum) (auto simp: stream_flush_thresh_def)
    with flush_steps_left [of accum "S_stream [] out oc" s s'] st True c show ?thesis
      by (simp add: stream_large_entry_def serializer_cost_def [of "S_stream [] out oc"])
  next
    case False
    show ?thesis
    proof (cases out)
      case (Cons bs out')
      with st False show ?thesis by (auto simp: stream_large_entry_def steps_left_def S_stream serializer_cost_def)
    next
      case Nil
      with st False c flush_steps_left [of accum S_pop s s' env] show ?thesis
        by (cases oc) (auto simp: stream_large_entry_def serializer_fails_def steps_left_def serializer_cost_def [of "S_cancel 4"]
            serializer_cost_def [of S_pop] split: if_splits)
    qed
  qed
next
  case (S_cancel n)
  then show ?thesis using assms by (cases n) (auto simp: pipeline_serializer_main_def steps_left_def serializer_cost_def)
qed (use assms in \<open>simp add: pipeline_serializer_main_def\<close>)

lemma output_steps_left:
  assumes "output_main env opts s = Some s'"
  shows "steps_left env s' < steps_left env s"
proof (cases "pp_output s")
  case (O_pop wl)
  with assms obtain b r where pop: "(if wl then buffer_pop_after_fill (pp_bb1 s) (output_restart_bytes opts) else buffer_pop (pp_bb1 s)) = Some (b, r)"
    by (auto simp: output_main_def split: option.splits if_splits)
  have "length (bb_buf b) = (case r of None \<Rightarrow> length (bb_buf (pp_bb1 s)) | Some _ \<Rightarrow> length (bb_buf (pp_bb1 s)) - 1) \<and>
      (r \<noteq> None \<longrightarrow> bb_buf (pp_bb1 s) \<noteq> [])"
    using pop by (auto simp: buffer_pop_def buffer_pop_after_fill_def buffer_take_def split: if_splits option.split)
  with assms O_pop pop show ?thesis
    by (cases r; cases "bb_buf (pp_bb1 s)") (auto simp: output_main_def Let_def steps_left_def output_cost_def item_or_empty_def)
next
  case (O_cancel n)
  then show ?thesis using assms by (cases n) (auto simp: output_main_def steps_left_def output_cost_def)
qed (use assms in \<open>auto simp: output_main_def steps_left_def output_cost_def split: if_splits\<close>)

lemma run_steps_left: "pipeline_run env opts ts s = Some s' \<Longrightarrow> length ts + steps_left env s' \<le> steps_left env s"
proof (induction ts arbitrary: s)
  case (Cons t ts)
  then obtain q where q: "pipeline_step env opts t s = Some q" "pipeline_run env opts ts q = Some s'" by (auto split: option.splits)
  have "steps_left env q < steps_left env s"
    using q(1) by (cases t) (auto simp: pipeline_step_def intro: main_steps_left worker_steps_left serializer_steps_left output_steps_left)
  with Cons.IH [OF q(2)] show ?case by simp
qed simp

definition steps_bound :: "('e, 'w) pax_env \<Rightarrow> pax_options \<Rightarrow> 'e list \<Rightarrow> nat" where
  "steps_bound env opts es = 33 + 6 * pipeline_worker_count opts + entries_cost env es"

lemma start_steps_left: "steps_left env (start_pipeline opts es) = steps_bound env opts es"
  by (simp add: steps_left_def start_pipeline_def new_queue_def new_buffer_def cost_defs steps_bound_def sum_list_replicate)


section \<open>Property\<close>

lemma outs_stream:
  assumes "headers_fit env" and "\<forall>e\<in>set es. \<not> entry_fails env opts e"
  shows "concat (outs env opts es) = pax_stream env es"
proof -
  have "map (entry_stream env opts) es = map (entry_bytes env) es"
    by (intro map_cong refl) (use entry_stream_eq [OF assms(1)] assms(2) in blast)
  from this [THEN arg_cong, of concat] show ?thesis unfolding outs_def pax_stream_def by simp
qed

lemma chunks_prefix:
  assumes "pipeline_ok env opts es k n P s"
  shows "prefix (concat (pp_chunks s)) (concat (outs env opts es))"
proof -
  have "prefix (concat (pp_chunks s)) P"
    using pipeline_okD(6) [OF assms] by (auto simp: output_at_def split: pax_output.splits)
  moreover have "prefix P (concat (outs env opts es))"
    using serializer_prefix [OF pipeline_okD(5) [OF assms]] pipeline_okD(3) [OF assms] by (simp add: orders_def)
  ultimately show ?thesis by (rule prefix_order.trans)
qed

lemma pipeline_complete:
  assumes ok: "pipeline_ok env opts es k n P s" and m: "pp_main s = M_done" and e: "pp_error s = None"
  shows "concat (pp_chunks s) = concat (outs env opts es) \<and> (\<forall>x\<in>set es. \<not> entry_fails env opts x)"
proof -
  from pipeline_okD(9) [OF ok e] m have h: "n = item_count env es" "pp_serializer s = S_returned" "k = n" "pp_output s = O_returned"
    by (auto simp: healthy_def stage_def late_def)
  have "P = done_bytes env opts es k" "none_failed env opts es k" "P = concat (pp_chunks s)"
    using pipeline_okD(11,12) [OF ok e] h by auto
  then show ?thesis using h by (auto simp: done_bytes_def none_failed_def in_set_conv_nth item_count_def)
qed

text \<open>C6. The parallel pipeline equals the sequential writer.  For any number of threads, any
  buffer size and any interleaving: a run of one slice that completes has passed exactly the
  sequential stream of its entries, in order and with the end marker if it is the last slice, to
  the callback, and no entry failed; it ends with an error only if an entry fails or the callback throws; until then
  the callback has seen a prefix of that stream; some thread can always step, so that there is no
  deadlock; and no run is longer than an explicit bound.\<close>
theorem pipeline_equals_sequential:
  assumes run: "pipeline_run env opts ts (start_pipeline opts es) = Some s'" and "headers_fit env" and len: "length es < 2 ^ 64"
    and o: "0 < px_output_buf_size opts" "px_buffer_percent opts \<le> 100"
  shows "length ts \<le> steps_bound env opts es \<and>
    (if pp_main s' = M_done then
       (case pipeline_result s' of
          Inr chunks \<Rightarrow> concat chunks = pax_stream env es \<and> (\<forall>e\<in>set es. \<not> entry_fails env opts e)
        | Inl err \<Rightarrow> (\<exists>e\<in>set es. entry_fails env opts e) \<or> (\<exists>cs c. pe_callback_throws env cs c))
     else \<exists>t s''. pipeline_step env opts t s' = Some s'') \<and>
    ((\<exists>e\<in>set es. entry_fails env opts e) \<or> prefix (concat (pp_chunks s')) (pax_stream env es))"
proof -
  from pipeline_run_ok [OF run start_ok len] obtain k n P where ok: "pipeline_ok env opts es k n P s'" by blast
  have "length ts \<le> steps_bound env opts es" using run_steps_left [OF run] by (simp add: start_steps_left)
  moreover have "\<exists>t s''. pipeline_step env opts t s' = Some s''" if "pp_main s' \<noteq> M_done"
    using pipeline_progress [OF ok len o that] by (auto simp: can_step_def)
  moreover have "case pipeline_result s' of
          Inr chunks \<Rightarrow> concat chunks = pax_stream env es \<and> (\<forall>e\<in>set es. \<not> entry_fails env opts e)
        | Inl err \<Rightarrow> (\<exists>e\<in>set es. entry_fails env opts e) \<or> (\<exists>cs c. pe_callback_throws env cs c)" if "pp_main s' = M_done"
  proof (cases "pp_error s'")
    case None
    with pipeline_complete [OF ok that] outs_stream [OF assms(2)] show ?thesis by (simp add: pipeline_result_def)
  next
    case (Some err)
    with pipeline_okD(8) [OF ok] show ?thesis by (simp add: pipeline_result_def caused_def)
  qed
  ultimately show ?thesis using chunks_prefix [OF ok] outs_stream [OF assms(2), of es opts]
    by (cases "\<exists>e\<in>set es. entry_fails env opts e") auto
qed

section \<open>Witness\<close>

text \<open>A directory and a file of three bytes; a writer that puts a byte before and after the data.\<close>

definition sample_env :: "(nat, unit) pax_env" where
  "sample_env = \<lparr>
     pe_is_reg = (\<lambda>e. e = 1), pe_size = (\<lambda>e. 3), pe_sourcepath = (\<lambda>_. None), pe_pathname = (\<lambda>_. Some ''f''),
     pe_open = (\<lambda>_. Some [File_data [7, 8], File_data [9]]), pe_new_writer = Some (),
     pe_write_header = (\<lambda>w e. (A_ok, [[1]], ())), pe_write_data = (\<lambda>w bs. (int (length bs), [bs], ())),
     pe_finish_entry = (\<lambda>w. (A_ok, [[2]], ())), pe_close = (\<lambda>_. A_ok), pe_callback_throws = (\<lambda>_ _. False), pe_last_slice = True\<rparr>"

definition sample_options :: pax_options where
  "sample_options = \<lparr>px_output_buf_size = 1, px_buffer_percent = 0, px_io_thread = 2\<rparr>"

text \<open>The worker finishes after the serializer has begun to wait for it.\<close>

definition sample_schedule :: "pax_thread list" where
  "sample_schedule = (let m = Main_thread; r = Serializer_thread; w = Worker_thread 0; t = Output_thread in
     [m, m, m, m, m, r, r, r, w, w, w, r, t, t, t, r, m, m, m, m, w, m, r, t, t, t, r, t, t, t, r, m, m, m, t, m])"

lemmas sample_defs = sample_env_def sample_options_def

definition sample_result :: "(nat, unit) pipeline option" where
  "sample_result = pipeline_run sample_env sample_options sample_schedule (start_pipeline sample_options [0, 1])"

lemmas run_defs = pipeline_step_def main_step_def pipeline_worker_main_def pipeline_serializer_main_def output_main_def
  emit_eoa_def dispatch_entry_to_pipeline_def Let_def enqueue_work_def enqueue_order_def finish_input_def
  worker_run_def set_worker_def begin_item_def begin_emit_def emit_bytes_to_bb1_def
  queue_push_def queue_pop_def queue_close_def store_put_def store_take_def store_close_def
  buffer_push_def buffer_pop_def buffer_take_def buffer_close_def new_queue_def new_buffer_def
  has_data_def is_large_def inline_item_def small_item_def item_or_empty_def size_bytes_def
  open_entry_file_def entry_source_def serialize_entry_def write_entry_def copy_file_data_def check_archive_throw_def
  pipeline_worker_count_def small_file_threshold_def output_restart_bytes_def
  pipeline_order_queue_capacity_def pipeline_work_queue_capacity_def pipeline_result_capacity_def

lemma sample_result_done:
  "(case sample_result of None \<Rightarrow> False | Some s \<Rightarrow> pp_main s = M_done \<and> pp_error s = None)"
  by (simp add: sample_result_def sample_schedule_def start_pipeline_def sample_defs run_defs)

lemma sample_stream: "pax_stream sample_env [0, 1] = [1, 2, 1, 7, 8, 9, 2] @ replicate 1024 0"
  by (simp add: pax_stream_def entry_bytes_def entry_input_def sample_env_def run_defs)

theorem pipeline_equals_sequential_witness:
  "\<exists>s'. sample_result = Some s' \<and> length sample_schedule \<le> steps_bound sample_env sample_options [0, 1] \<and>
     pipeline_result s' = Inr (pp_chunks s') \<and> concat (pp_chunks s') = [1, 2, 1, 7, 8, 9, 2] @ replicate 1024 0"
proof -
  from sample_result_done obtain s' where s': "sample_result = Some s'" "pp_main s' = M_done" "pp_error s' = None"
    by (auto split: option.splits)
  have "headers_fit sample_env" by (simp add: headers_fit_def sample_env_def)
  from pipeline_equals_sequential [OF s'(1) [unfolded sample_result_def] this] s'
  have "length sample_schedule \<le> steps_bound sample_env sample_options [0, 1] \<and> concat (pp_chunks s') = pax_stream sample_env [0, 1]"
    by (simp add: sample_options_def pipeline_result_def)
  then show ?thesis unfolding sample_stream using s' by (intro exI [of _ s']) (simp add: pipeline_result_def)
qed

end
