(* ===== verification/PaxArchive.thy ===== *)
theory PaxArchive
  imports PaxPipelineProps Plan Paths
begin

text \<open>
  \<open>write_pax_archive\<close> of src/neotape_pax_writer.cpp: which entries go into which slice, in what
  order, and what the client's callbacks are told.  A slice is one run of the pipeline of
  \<open>PaxPipeline\<close>, under a schedule that is an argument; the entries come from a plan file or from
  a walk of the sources.

  libarchive's disk reader and link resolver, the working directory and the file system are
  parameters (\<open>archive_env\<close>).  The calling thread reads the plan while the pipeline runs; as the
  two share nothing but the queues, a slice is run when it is finished, with all its entries.  An
  exception ends the archive, and the state of the client after it is not described.  Progress and
  diagnostics are left out; memory allocation is taken to succeed.
\<close>

section \<open>Parameters and options\<close>

text \<open>A result of \<open>archive_read_next_header2\<close> before the end: an entry, with the result of the
  descent where the reader can descend, or a status other than \<open>ARCHIVE_OK\<close>.\<close>

datatype 'e disk_result = Disk_entry 'e "archive_status option" | Disk_status archive_status

record ('e, 'w, 'r) archive_env =
  ae_pax :: "string \<Rightarrow> ('e, 'w) pax_env"
  ae_cwd :: string
  ae_chdir :: "string \<Rightarrow> string \<Rightarrow> string option"
  ae_exists :: "string \<Rightarrow> bool"
  ae_open_plan :: "string \<Rightarrow> string \<Rightarrow> (string \<times> bool) option"
  ae_resolver :: "'r option"
  ae_linkify :: "'r \<Rightarrow> 'e \<Rightarrow> 'e option \<times> 'e option \<times> 'r"
  ae_deferred :: "'r \<Rightarrow> ('e option \<times> 'e option) list"
  ae_set_path :: "string \<Rightarrow> 'e \<Rightarrow> 'e"
  ae_set_source :: "string \<Rightarrow> 'e \<Rightarrow> 'e"
  ae_entry_from_file :: "string \<Rightarrow> string \<Rightarrow> archive_status \<times> 'e"
  ae_disk_reader :: "bool \<Rightarrow> bool"
  ae_disk_open :: "string \<Rightarrow> bool \<Rightarrow> string \<Rightarrow> archive_status \<times> 'e disk_result list"

text \<open>
  In this order: the entry accessors and pax writers in a working directory, the first working
  directory, \<open>chdir\<close>, whether a path exists, a plan file with whether reading it fails at its
  end, setting up the resolver, \<open>archive_entry_linkify\<close> on an entry, what it returns without one
  until it returns nothing, the two path setters, \<open>archive_read_disk_entry_from_file\<close>, whether
  \<open>open_disk_reader\<close> succeeds, and opening a source for a walk.
\<close>

record pax_writer_options =
  pw_pipeline :: pax_options
  pw_sources :: "string list"
  pw_plan_path :: "string option"
  pw_one_file_system :: bool
  pw_chdir_dir :: "string option"

text \<open>The client's callbacks; \<open>None\<close>: the callback throws.\<close>

record 'c slice_callbacks =
  cb_begin_slice :: "u64 \<Rightarrow> 'c \<Rightarrow> 'c option"
  cb_write_chunk :: "u64 \<Rightarrow> bytes \<Rightarrow> 'c \<Rightarrow> 'c option"
  cb_end_slice :: "u64 \<Rightarrow> 'c \<Rightarrow> 'c option"

text \<open>\<open>No_schedule\<close> is not an outcome of the code: the given schedules do not run a slice to its end.\<close>

datatype archive_error =
    Slice_already_active | Slice_not_active | Callback_threw | Slice_failed pipeline_error
  | Chdir_failed | Resolver_failed | Plan_failed plan_error | Plan_not_opened | Disk_reader_failed
  | Bad_source | Read_filesystem_failed | Descend_failed | No_schedule

record pax_write_result =
  pr_input_bytes :: u64
  pr_output_bytes :: u64
  pr_walked_entries :: u64
  pr_slices :: u64
  pr_blake3_hex :: string

section \<open>The slice pipeline\<close>

text \<open>The \<open>SlicePipeline\<close> object, with the locals of \<open>write_pax_archive\<close>: the resolver, the number
  of slices begun, the totals and the bytes given to the hasher.\<close>

record ('e, 'r, 'c) pax_state =
  xs_cwd :: string
  xs_resolver :: 'r
  xs_active :: "u64 option"
  xs_entries :: "'e list"
  xs_eoa :: bool
  xs_client :: 'c
  xs_schedules :: "pax_thread list list"
  xs_slice_count :: u64
  xs_hashed :: bytes
  xs_input_bytes :: u64
  xs_output_bytes :: u64
  xs_walked_entries :: u64

fun pass_chunks :: "'c slice_callbacks \<Rightarrow> u64 \<Rightarrow> bytes list \<Rightarrow> 'c \<Rightarrow> 'c option" where
  "pass_chunks cb n [] c = Some c"
| "pass_chunks cb n (bs # chunks) c =
    (case cb_write_chunk cb n bs c of None \<Rightarrow> None | Some c \<Rightarrow> pass_chunks cb n chunks c)"

definition slice_env :: "'c slice_callbacks \<Rightarrow> u64 \<Rightarrow> 'c \<Rightarrow> bool \<Rightarrow> ('e, 'w) pax_env \<Rightarrow> ('e, 'w) pax_env" where
  "slice_env cb n c eoa env = env\<lparr>
     pe_callback_throws := (\<lambda>chunks bs. case pass_chunks cb n chunks c of None \<Rightarrow> True | Some c \<Rightarrow> cb_write_chunk cb n bs c = None),
     pe_last_slice := eoa\<rparr>"

definition begin_slice ::
  "'c slice_callbacks \<Rightarrow> u64 \<Rightarrow> ('e, 'r, 'c) pax_state \<Rightarrow> archive_error + ('e, 'r, 'c) pax_state" where
  "begin_slice cb n s =
    (if xs_active s \<noteq> None then Inl Slice_already_active
     else case cb_begin_slice cb n (xs_client s) of
       None \<Rightarrow> Inl Callback_threw
     | Some c \<Rightarrow> Inr (s\<lparr>xs_active := Some n, xs_entries := [], xs_eoa := False, xs_client := c\<rparr>))"

definition emit_entry :: "'e \<Rightarrow> ('e, 'r, 'c) pax_state \<Rightarrow> archive_error + ('e, 'r, 'c) pax_state" where
  "emit_entry e s = (if xs_active s = None then Inl Slice_not_active else Inr (s\<lparr>xs_entries := xs_entries s @ [e]\<rparr>))"

text \<open>\<open>write_pax_archive\<close> asks for the end marker after the last entry.\<close>

definition emit_end_marker :: "('e, 'r, 'c) pax_state \<Rightarrow> archive_error + ('e, 'r, 'c) pax_state" where
  "emit_end_marker s = (if xs_active s = None then Inl Slice_not_active else Inr (s\<lparr>xs_eoa := True\<rparr>))"

text \<open>\<open>finish_slice\<close>: the pipeline has run to the join of its threads.\<close>

definition end_slice ::
  "'c slice_callbacks \<Rightarrow> u64 \<Rightarrow> ('e, 'w) pipeline \<Rightarrow> bytes list \<Rightarrow> ('e, 'r, 'c) pax_state \<Rightarrow>
   archive_error + ('e, 'r, 'c) pax_state" where
  "end_slice cb n p chunks s =
    (case pass_chunks cb n chunks (xs_client s) of
       None \<Rightarrow> Inl Callback_threw
     | Some c \<Rightarrow>
         (case cb_end_slice cb n c of
            None \<Rightarrow> Inl Callback_threw
          | Some c \<Rightarrow> Inr (s\<lparr>xs_active := None, xs_client := c, xs_hashed := xs_hashed s @ concat chunks,
              xs_input_bytes := xs_input_bytes s + pp_input_bytes p,
              xs_output_bytes := xs_output_bytes s + pp_output_bytes p,
              xs_walked_entries := xs_walked_entries s + pp_walked_entries p\<rparr>)))"

definition finish_slice ::
  "('e, 'w, 'r) archive_env \<Rightarrow> pax_options \<Rightarrow> 'c slice_callbacks \<Rightarrow> ('e, 'r, 'c) pax_state \<Rightarrow>
   archive_error + ('e, 'r, 'c) pax_state" where
  "finish_slice env opts cb s =
    (case xs_active s of
       None \<Rightarrow> Inr s
     | Some n \<Rightarrow>
         (case xs_schedules s of
            [] \<Rightarrow> Inl No_schedule
          | ts # rest \<Rightarrow>
              (case pipeline_run (slice_env cb n (xs_client s) (xs_eoa s) (ae_pax env (xs_cwd s))) opts ts
                      (start_pipeline opts (xs_entries s)) of
                 None \<Rightarrow> Inl No_schedule
               | Some p \<Rightarrow>
                   if pp_main p \<noteq> M_done then Inl No_schedule
                   else case pipeline_result p of
                     Inl e \<Rightarrow> Inl (Slice_failed e)
                   | Inr chunks \<Rightarrow> end_slice cb n p chunks (s\<lparr>xs_schedules := rest\<rparr>))))"

section \<open>Choosing the entries\<close>

text \<open>The lambdas of \<open>write_pax_archive\<close>; its \<open>active_slice\<close> is that of the slice pipeline.\<close>

definition enter_slice ::
  "('e, 'w, 'r) archive_env \<Rightarrow> pax_options \<Rightarrow> 'c slice_callbacks \<Rightarrow> u64 \<Rightarrow> ('e, 'r, 'c) pax_state \<Rightarrow>
   archive_error + ('e, 'r, 'c) pax_state" where
  "enter_slice env opts cb n s =
    (if xs_active s = Some n then Inr s
     else bind_res (finish_slice env opts cb s) (\<lambda>s.
          bind_res (begin_slice cb n s) (\<lambda>s. Inr (s\<lparr>xs_slice_count := xs_slice_count s + 1\<rparr>))))"

definition emit_pair :: "'e option \<Rightarrow> 'e option \<Rightarrow> ('e, 'r, 'c) pax_state \<Rightarrow> archive_error + ('e, 'r, 'c) pax_state" where
  "emit_pair linked other s =
    bind_res (case linked of None \<Rightarrow> Inr s | Some e \<Rightarrow> emit_entry e s)
      (\<lambda>s. case other of None \<Rightarrow> Inr s | Some e \<Rightarrow> emit_entry e s)"

definition emit_linked ::
  "('e, 'w, 'r) archive_env \<Rightarrow> 'e \<Rightarrow> ('e, 'r, 'c) pax_state \<Rightarrow> archive_error + ('e, 'r, 'c) pax_state" where
  "emit_linked env raw s =
    (case ae_linkify env (xs_resolver s) raw of
       (linked, spare, r) \<Rightarrow> emit_pair linked spare (s\<lparr>xs_resolver := r\<rparr>))"

definition planned_entry_from_path :: "('e, 'w, 'r) archive_env \<Rightarrow> string \<Rightarrow> string \<Rightarrow> 'e option" where
  "planned_entry_from_path env cwd path =
    (case ae_entry_from_file env cwd path of
       (r, e) \<Rightarrow> if r = A_fatal then None else Some (ae_set_source env path (ae_set_path env path e)))"

definition plan_record_step ::
  "('e, 'w, 'r) archive_env \<Rightarrow> pax_options \<Rightarrow> 'c slice_callbacks \<Rightarrow> plan_record \<Rightarrow> ('e, 'r, 'c) pax_state \<Rightarrow>
   archive_error + ('e, 'r, 'c) pax_state" where
  "plan_record_step env opts cb rec s =
    (case chdir_dir rec of
       Some dir \<Rightarrow>
         (case ae_chdir env (xs_cwd s) dir of None \<Rightarrow> Inl Chdir_failed | Some cwd \<Rightarrow> Inr (s\<lparr>xs_cwd := cwd\<rparr>))
     | None \<Rightarrow>
         (case entry rec of
            None \<Rightarrow> Inl (Plan_failed Empty_plan_record)
          | Some e \<Rightarrow>
              bind_res (enter_slice env opts cb (pe_slice e) s) (\<lambda>s.
                case planned_entry_from_path env (xs_cwd s) (pe_path e) of
                  None \<Rightarrow> Inl Read_filesystem_failed
                | Some raw \<Rightarrow> emit_linked env raw s)))"

function plan_loop ::
  "('e, 'w, 'r) archive_env \<Rightarrow> pax_options \<Rightarrow> 'c slice_callbacks \<Rightarrow> plan_reader \<Rightarrow> ('e, 'r, 'c) pax_state \<Rightarrow>
   archive_error + ('e, 'r, 'c) pax_state" where
  "plan_loop env opts cb reader s =
    (case reader_next reader of
       Inl e \<Rightarrow> Inl (Plan_failed e)
     | Inr (None, reader') \<Rightarrow> Inr s
     | Inr (Some rec, reader') \<Rightarrow> bind_res (plan_record_step env opts cb rec s) (\<lambda>s. plan_loop env opts cb reader' s))"
  by pat_completeness auto

termination plan_loop
  by (relation "measure (\<lambda>(env, opts, cb, r, s). length (rd_input r))") (auto dest: reader_next_shrinks [OF sym] reader_next_shrinks)

declare plan_loop.simps [simp del]

text \<open>The walk of one source.  An entry read with a warning is skipped.\<close>

definition disk_entry_step ::
  "('e, 'w, 'r) archive_env \<Rightarrow> source_spec \<Rightarrow> 'e \<Rightarrow> archive_status option \<Rightarrow> ('e, 'r, 'c) pax_state \<Rightarrow>
   archive_error + ('e, 'r, 'c) pax_state" where
  "disk_entry_step env spec e descent s =
    (if descent = Some A_fatal then Inl Descend_failed
     else case pe_sourcepath (ae_pax env (xs_cwd s)) e of
       None \<Rightarrow> emit_linked env e s
     | Some path \<Rightarrow>
         (case archive_path_for_source (xs_cwd s) spec path of
            None \<Rightarrow> Inl Bad_source
          | Some p \<Rightarrow> emit_linked env (ae_set_path env p e) s))"

fun disk_loop ::
  "('e, 'w, 'r) archive_env \<Rightarrow> source_spec \<Rightarrow> 'e disk_result list \<Rightarrow> ('e, 'r, 'c) pax_state \<Rightarrow>
   archive_error + ('e, 'r, 'c) pax_state" where
  "disk_loop env spec [] s = Inr s"
| "disk_loop env spec (Disk_status r # rest) s =
    (if r = A_fatal then Inl Read_filesystem_failed else disk_loop env spec rest s)"
| "disk_loop env spec (Disk_entry e descent # rest) s =
    bind_res (disk_entry_step env spec e descent s) (disk_loop env spec rest)"

definition walk_source ::
  "('e, 'w, 'r) archive_env \<Rightarrow> bool \<Rightarrow> string \<Rightarrow> ('e, 'r, 'c) pax_state \<Rightarrow> archive_error + ('e, 'r, 'c) pax_state" where
  "walk_source env one_file_system source s =
    (case make_source_spec (xs_cwd s) (ae_exists env) source of
       None \<Rightarrow> Inl Bad_source
     | Some spec \<Rightarrow>
         if \<not> ae_disk_reader env one_file_system then Inl Disk_reader_failed
         else case ae_disk_open env (xs_cwd s) one_file_system (sp_open_path spec) of
           (r, results) \<Rightarrow> if check_archive_throw r then Inl Read_filesystem_failed else disk_loop env spec results s)"

fun walk_sources ::
  "('e, 'w, 'r) archive_env \<Rightarrow> bool \<Rightarrow> string list \<Rightarrow> ('e, 'r, 'c) pax_state \<Rightarrow> archive_error + ('e, 'r, 'c) pax_state" where
  "walk_sources env one_file_system [] s = Inr s"
| "walk_sources env one_file_system (source # rest) s =
    bind_res (walk_source env one_file_system source s) (walk_sources env one_file_system rest)"

text \<open>The loop after the sources; the list is what the resolver still held back.\<close>

fun emit_deferred :: "('e option \<times> 'e option) list \<Rightarrow> ('e, 'r, 'c) pax_state \<Rightarrow> archive_error + ('e, 'r, 'c) pax_state" where
  "emit_deferred [] s = Inr s"
| "emit_deferred ((linked, other) # rest) s = bind_res (emit_pair linked other s) (emit_deferred rest)"

definition read_entries_from ::
  "('e, 'w, 'r) archive_env \<Rightarrow> pax_writer_options \<Rightarrow> 'c slice_callbacks \<Rightarrow> ('e, 'r, 'c) pax_state \<Rightarrow>
   archive_error + ('e, 'r, 'c) pax_state" where
  "read_entries_from env opts cb s =
    (case pw_plan_path opts of
       Some path \<Rightarrow>
         (case ae_open_plan env (xs_cwd s) path of
            None \<Rightarrow> Inl Plan_not_opened
          | Some (text, broken) \<Rightarrow>
              if \<not> ae_disk_reader env False then Inl Disk_reader_failed
              else plan_loop env (pw_pipeline opts) cb (new_plan_reader text broken path) s)
     | None \<Rightarrow>
         bind_res (enter_slice env (pw_pipeline opts) cb 0 s)
           (walk_sources env (pw_one_file_system opts) (pw_sources opts)))"

section \<open>The archive\<close>

definition enter_directory :: "('e, 'w, 'r) archive_env \<Rightarrow> string \<Rightarrow> string option \<Rightarrow> string option" where
  "enter_directory env cwd d = (case d of None \<Rightarrow> Some cwd | Some dir \<Rightarrow> ae_chdir env cwd dir)"

definition start_archive ::
  "('e, 'w, 'r) archive_env \<Rightarrow> pax_writer_options \<Rightarrow> 'c \<Rightarrow> pax_thread list list \<Rightarrow>
   archive_error + ('e, 'r, 'c) pax_state" where
  "start_archive env opts c schedules =
    (case enter_directory env (ae_cwd env) (pw_chdir_dir opts) of
       None \<Rightarrow> Inl Chdir_failed
     | Some cwd \<Rightarrow>
         (case ae_resolver env of
            None \<Rightarrow> Inl Resolver_failed
          | Some r \<Rightarrow> Inr \<lparr>xs_cwd = cwd, xs_resolver = r, xs_active = None, xs_entries = [], xs_eoa = False,
              xs_client = c, xs_schedules = schedules, xs_slice_count = 0, xs_hashed = [],
              xs_input_bytes = 0, xs_output_bytes = 0, xs_walked_entries = 0\<rparr>))"

definition finish_archive ::
  "('e, 'w, 'r) archive_env \<Rightarrow> pax_options \<Rightarrow> 'c slice_callbacks \<Rightarrow> ('e, 'r, 'c) pax_state \<Rightarrow>
   archive_error + ('e, 'r, 'c) pax_state" where
  "finish_archive env opts cb s =
    bind_res (emit_deferred (ae_deferred env (xs_resolver s)) s) (\<lambda>s.
      if xs_active s = None then Inr s
      else bind_res (emit_end_marker s) (finish_slice env opts cb))"

definition write_pax_archive ::
  "(bytes \<Rightarrow> bytes) \<Rightarrow> ('e, 'w, 'r) archive_env \<Rightarrow> pax_writer_options \<Rightarrow> 'c slice_callbacks \<Rightarrow> 'c \<Rightarrow>
   pax_thread list list \<Rightarrow> archive_error + pax_write_result \<times> 'c" where
  "write_pax_archive H env opts cb c schedules =
    bind_res (start_archive env opts c schedules) (\<lambda>s.
    bind_res (read_entries_from env opts cb s) (\<lambda>s.
    bind_res (finish_archive env (pw_pipeline opts) cb s) (\<lambda>s.
      Inr (\<lparr>pr_input_bytes = xs_input_bytes s, pr_output_bytes = xs_output_bytes s,
            pr_walked_entries = xs_walked_entries s, pr_slices = xs_slice_count s,
            pr_blake3_hex = hex_encode (H (xs_hashed s))\<rparr>, xs_client s))))"

end
