(* ===== verification/Archiver.thy ===== *)
theory Archiver
  imports PaxArchive VolumeServer
begin

text \<open>
  The producers of the volume server: the archiver's (src/neotape_tcp_server.cpp), which turns the
  slices of the pax writer into frames behind an optional catalog, and that of
  \<open>neotape-raw-store\<close> (src/neotape_raw_store_cmd.cpp), which stores one input as slice 0.

  The queue of records takes a number of pushes until its consumer closes it
  (\<open>ap_pushes_left\<close>); pushing waits as long as the queue is full, which changes nothing here.
  A failed assertion of the frame builder ends the program and counts as a failure.
\<close>

section \<open>Pushing frames\<close>

record producer =
  ap_builder :: frame_builder
  ap_pushed :: "volume_record list"
  ap_pushes_left :: nat

definition frame_record :: "built_frame \<Rightarrow> volume_record" where
  "frame_record f = \<lparr>vr_record = bf_record f, vr_global_seq = bf_global_seq f, vr_tape_eof = False, vr_done = False\<rparr>"

definition slice_boundary :: volume_record where
  "slice_boundary = \<lparr>vr_record = [], vr_global_seq = 0, vr_tape_eof = True, vr_done = False\<rparr>"

definition done_record :: "u64 \<Rightarrow> volume_record" where
  "done_record g = \<lparr>vr_record = [], vr_global_seq = g, vr_tape_eof = False, vr_done = True\<rparr>"

text \<open>\<open>None\<close>: the consumer has disconnected.\<close>

definition push_record :: "volume_record \<Rightarrow> producer \<Rightarrow> producer option" where
  "push_record r p =
    (if ap_pushes_left p = 0 then None
     else Some (p\<lparr>ap_pushed := ap_pushed p @ [r], ap_pushes_left := ap_pushes_left p - 1\<rparr>))"

fun push_frames :: "built_frame list \<Rightarrow> producer \<Rightarrow> producer option" where
  "push_frames [] p = Some p"
| "push_frames (f # fs) p = (case push_record (frame_record f) p of None \<Rightarrow> None | Some p \<Rightarrow> push_frames fs p)"

definition push_built :: "(build_error + frame_builder \<times> built_frame list) \<Rightarrow> producer \<Rightarrow> producer option" where
  "push_built r p = (case r of Inl _ \<Rightarrow> None | Inr (b, fs) \<Rightarrow> push_frames fs (p\<lparr>ap_builder := b\<rparr>))"

definition start_channel :: "u64 \<Rightarrow> channel \<Rightarrow> producer \<Rightarrow> producer option" where
  "start_channel n ch p =
    (case begin_channel (ap_builder p) n ch of Inl _ \<Rightarrow> None | Inr b \<Rightarrow> Some (p\<lparr>ap_builder := b\<rparr>))"

definition feed_producer :: "bytes \<Rightarrow> producer \<Rightarrow> producer option" where
  "feed_producer bs p = push_built (feed (ap_builder p) bs) p"

definition flush_producer :: "producer \<Rightarrow> producer option" where
  "flush_producer p = push_built (flush (ap_builder p)) p"

fun feed_chunks :: "bytes list \<Rightarrow> producer \<Rightarrow> producer option" where
  "feed_chunks [] p = Some p"
| "feed_chunks (c # cs) p = (case feed_producer c p of None \<Rightarrow> None | Some p \<Rightarrow> feed_chunks cs p)"

section \<open>The archiver\<close>

definition make_server_callbacks :: "producer slice_callbacks" where
  "make_server_callbacks = \<lparr>
     cb_begin_slice = (\<lambda>n p. start_channel n CH_CONTENT p),
     cb_write_chunk = (\<lambda>n bs p. feed_producer bs p),
     cb_end_slice = (\<lambda>n p. case flush_producer p of None \<Rightarrow> None | Some p \<Rightarrow> push_record slice_boundary p)\<rparr>"

text \<open>The reads of a buffer's length; the last one may be short.\<close>

function buffered_reads :: "nat \<Rightarrow> bytes \<Rightarrow> bytes list" where
  "buffered_reads n bs = (if n = 0 \<or> bs = [] then [] else take n bs # buffered_reads n (drop n bs))"
  by pat_completeness auto

termination buffered_reads
  by (relation "measure (\<lambda>(n, bs). length bs)") auto

declare buffered_reads.simps [simp del]

definition read_buffer_size :: nat where "read_buffer_size = 1024 * 1024"

text \<open>The plan file: its bytes and whether a read fails behind them, or \<open>None\<close> when it is not a
  regular file or cannot be opened.\<close>

definition write_catalog :: "(bytes \<times> bool) option \<Rightarrow> producer \<Rightarrow> producer option" where
  "write_catalog plan p =
    (case plan of
       None \<Rightarrow> None
     | Some (content, bad) \<Rightarrow>
         (case start_channel 0 CH_METADATA p of
            None \<Rightarrow> None
          | Some p \<Rightarrow>
              (case feed_chunks (buffered_reads read_buffer_size content) p of
                 None \<Rightarrow> None
               | Some p \<Rightarrow>
                   if bad then None
                   else case flush_producer p of None \<Rightarrow> None | Some p \<Rightarrow> start_channel 0 CH_CONTENT p)))"

record archiver_options =
  ao_block_size :: u32
  ao_archive_name :: bytes
  ao_write_plan_catalog :: bool
  ao_pax :: pax_writer_options

definition new_producer :: "u32 \<Rightarrow> bytes \<Rightarrow> bytes \<Rightarrow> nat \<Rightarrow> producer" where
  "new_producer block_size uuid name pushes =
    \<lparr>ap_builder = new_frame_builder block_size uuid name, ap_pushed = [], ap_pushes_left = pushes\<rparr>"

text \<open>What follows the last slice: a flush and the done record.\<close>

definition finish_producer :: "producer \<Rightarrow> producer option" where
  "finish_producer p =
    (case flush_producer p of
       None \<Rightarrow> None
     | Some p \<Rightarrow> push_record (done_record (fb_global_seq (ap_builder p))) p)"

text \<open>The producer that \<open>run_tcp_archiver\<close> starts.  \<open>plan_bytes\<close> is the file in the first working
  directory, where \<open>write_catalog\<close> opens it.\<close>

definition produce_archive ::
  "(bytes \<Rightarrow> bytes) \<Rightarrow> ('e, 'w, 'r) archive_env \<Rightarrow> archiver_options \<Rightarrow> (bytes \<times> bool) option \<Rightarrow> bytes \<Rightarrow> nat \<Rightarrow>
   pax_thread list list \<Rightarrow> producer option" where
  "produce_archive H env opts plan_bytes uuid pushes schedules =
    (let p = new_producer (ao_block_size opts) uuid (ao_archive_name opts) pushes
     in case (if pw_plan_path (ao_pax opts) \<noteq> None \<and> ao_write_plan_catalog opts then write_catalog plan_bytes p else Some p) of
       None \<Rightarrow> None
     | Some p \<Rightarrow>
         (case write_pax_archive H env (ao_pax opts) make_server_callbacks p schedules of
            Inl e \<Rightarrow> None
          | Inr (res, p) \<Rightarrow> finish_producer p))"

section \<open>The raw store\<close>

text \<open>An \<open>fread\<close> of the buffer: what it returns, and \<open>ferror\<close> after it.  A used-up script is at
  the end of the input.\<close>

fun raw_loop :: "(bytes \<times> bool) list \<Rightarrow> producer \<Rightarrow> producer option" where
  "raw_loop [] p = Some p"
| "raw_loop ((bs, failed) # reads) p =
    (case (if bs = [] then Some p else feed_producer bs p) of
       None \<Rightarrow> None
     | Some p \<Rightarrow>
         if length bs < read_buffer_size then (if failed then None else Some p)
         else raw_loop reads p)"

definition produce_raw_frames :: "(bytes \<times> bool) list \<Rightarrow> u32 \<Rightarrow> bytes \<Rightarrow> bytes \<Rightarrow> nat \<Rightarrow> producer option" where
  "produce_raw_frames reads block_size uuid name pushes =
    (case raw_loop reads (new_producer block_size uuid name pushes) of
       None \<Rightarrow> None
     | Some p \<Rightarrow>
         (case flush_producer p of
            None \<Rightarrow> None
          | Some p \<Rightarrow>
              (case push_record slice_boundary p of
                 None \<Rightarrow> None
               | Some p \<Rightarrow> push_record (done_record (fb_global_seq (ap_builder p))) p)))"

end
