(* ===== verification/ArchiveRuns.thy ===== *)
theory ArchiveRuns
  imports ValidateSpec FrameBuilderSpec
begin

text \<open>
  Runs of frames that a frame builder makes, as headers: when a channel run extends an archive,
  and which slice numbers an archive can have.
\<close>

section \<open>Archives by position\<close>

lemma archive_prefix_iff_nth:
  "archive_prefix p xs \<longleftrightarrow> (\<forall>i<length xs. fits (p @ take i xs) (xs ! i))"
proof (induction xs arbitrary: p)
  case (Cons x xs)
  show ?case unfolding archive_prefix.simps Cons.IH
    by (auto simp: less_Suc_eq_0_disj)
qed simp

definition one_archive :: "u32 \<Rightarrow> bytes \<Rightarrow> bytes \<Rightarrow> frame_header list \<Rightarrow> bool" where
  "one_archive bs uuid label hs \<longleftrightarrow>
    (\<forall>h\<in>set hs. decoded_block_size h = bs \<and> archive_uuid h = uuid \<and> archive_label h = label)"

lemma one_archive_simps [simp]:
  "one_archive bs uuid label []" "one_archive bs uuid label (h # hs) \<longleftrightarrow>
     decoded_block_size h = bs \<and> archive_uuid h = uuid \<and> archive_label h = label \<and> one_archive bs uuid label hs"
  "one_archive bs uuid label (xs @ ys) \<longleftrightarrow> one_archive bs uuid label xs \<and> one_archive bs uuid label ys"
  by (auto simp: one_archive_def)

lemma one_archive_same: "one_archive bs uuid label (p @ [h]) \<Longrightarrow> same_archive p h"
  by (auto simp: same_archive_def list_all_iff one_archive_def)

lemma one_archive_take: "one_archive bs uuid label xs \<Longrightarrow> one_archive bs uuid label (take i xs)"
  by (auto simp: one_archive_def dest: in_set_takeD)

section \<open>A channel run behind an archive prefix\<close>

text \<open>The frames of one channel run that starts at number g of the archive.\<close>

definition is_run :: "u64 \<Rightarrow> channel \<Rightarrow> nat \<Rightarrow> frame_header list \<Rightarrow> bool" where
  "is_run sl ch g hs \<longleftrightarrow> (\<forall>i<length hs. slice_seq_num (hs ! i) = sl \<and> channel_type (hs ! i) = ch \<and>
     channel_frame_seq_num (hs ! i) = word_of_nat i \<and> global_frame_seq_num (hs ! i) = word_of_nat (g + i) \<and>
     end_flag (hs ! i) = (i = length hs - 1))"

text \<open>What is there of slice sl already.\<close>

definition slice_part :: "u64 \<Rightarrow> frame_header list \<Rightarrow> frame_header list" where
  "slice_part sl p = takeWhile (\<lambda>x. slice_seq_num x = sl) (rev p)"

lemma current_run_part: "current_run p = slice_part (slice_seq_num (last p)) p"
  by (simp add: current_run_def slice_part_def)

lemma slice_part_append: "\<forall>x\<in>set q. slice_seq_num x = sl \<Longrightarrow> slice_part sl (p @ q) = rev q @ slice_part sl p"
  by (auto simp: slice_part_def takeWhile_append)

definition may_start :: "frame_header list \<Rightarrow> u64 \<Rightarrow> channel \<Rightarrow> bool" where
  "may_start p sl ch \<longleftrightarrow> \<not> archive_ended p \<and> ch \<noteq> ARCHIVE_END \<and> channel_frames ch (slice_part sl p) = [] \<and>
     (if p = [] then sl = 0 else sl = slice_seq_num (last p) \<or> sl = slice_seq_num (last p) + 1 \<and> slice_complete p)"

lemma run_fits:
  assumes "may_start p sl ch" and "one_archive bs uuid label (p @ hs)" and "is_run sl ch (length p) hs" and "i < length hs"
  shows "fits (p @ take i hs) (hs ! i)"
proof -
  have h: "slice_seq_num (hs ! j) = sl" "channel_type (hs ! j) = ch" "channel_frame_seq_num (hs ! j) = word_of_nat j"
    "global_frame_seq_num (hs ! j) = word_of_nat (length p + j)" "end_flag (hs ! j) = (j = length hs - 1)" if "j < length hs" for j
    using assms(3) that by (simp_all add: is_run_def)
  have t: "\<forall>x\<in>set (take i hs). slice_seq_num x = sl \<and> channel_type x = ch"
    using h(1,2) assms(4) by (auto simp: in_set_conv_nth)
  have ne: "\<not> archive_ended (p @ take i hs)" using assms(1) t by (auto simp: may_start_def archive_ended_def list_ex_iff)
  have sa: "same_archive (p @ take i hs) (hs ! i)"
    by (rule one_archive_same [of bs uuid label]) (use assms(2,4) in \<open>auto simp: one_archive_def dest: in_set_takeD\<close>)
  have part: "slice_part sl (p @ take i hs) = rev (take i hs) @ slice_part sl p" using t by (intro slice_part_append) blast
  have "filter (\<lambda>x. channel_type x = ch) (take i hs) = take i hs" using t by (simp add: filter_id_conv)
  then have cf: "channel_frames ch (slice_part sl (p @ take i hs)) = rev (take i hs)"
    using assms(1) by (simp add: part channel_frames_def may_start_def rev_filter [symmetric])
  have "slice_fits (p @ take i hs) (hs ! i)"
  proof (cases "i = 0")
    case True
    then have g: "slice_seq_num (hs ! i) = sl" "channel_type (hs ! i) = ch" "channel_frame_seq_num (hs ! i) = 0"
      using h assms(4) by simp_all
    have e: "channel_fits [] (hs ! i)" using g by (simp add: channel_fits_def channel_closed_def channel_frames_def)
    have "channel_fits (slice_part sl p) (hs ! i)"
      using g assms(1) by (simp add: channel_fits_def channel_closed_def may_start_def)
    then show ?thesis using assms(1) True g e by (auto simp: slice_fits_def may_start_def current_run_part)
  next
    case False
    then have l: "take i hs \<noteq> []" "last (take i hs) = hs ! (i - 1)"
      using assms(4) by (cases i; auto simp: take_Suc_conv_app_nth)+
    have s: "slice_seq_num (last (p @ take i hs)) = sl" using l h(1) [of "i - 1"] assms(4) False by simp
    have "\<not> channel_closed ch (slice_part sl (p @ take i hs))"
      using l h(5) [of "i - 1"] assms(4) False unfolding channel_closed_def cf by (simp add: hd_rev)
    then have "channel_fits (slice_part sl (p @ take i hs)) (hs ! i)"
      using h(2,3) [OF assms(4)] cf assms(4) by (simp add: channel_fits_def)
    then show ?thesis using s h(1) [OF assms(4)] l by (simp add: slice_fits_def current_run_part)
  qed
  then show ?thesis using ne sa h(2,4) [OF assms(4)] assms(1,4) by (simp add: fits_def may_start_def)
qed

lemma run_extends:
  assumes "may_start p sl ch" and "one_archive bs uuid label (p @ hs)" and "is_run sl ch (length p) hs"
  shows "archive_prefix p hs"
  using run_fits [OF assms] by (simp add: archive_prefix_iff_nth)

text \<open>Behind a whole run the slice is complete if it was before.\<close>

lemma run_completes:
  assumes "is_run sl ch g hs" and "hs \<noteq> []" and "channel_frames ch (slice_part sl p) = []" and "ch \<noteq> ARCHIVE_END" and "\<not> archive_ended p"
    and "\<forall>c. \<not> channel_open c (slice_part sl p)"
  shows "\<forall>c. \<not> channel_open c (slice_part sl (p @ hs))" and "slice_seq_num (last (p @ hs)) = sl" and "\<not> archive_ended (p @ hs)"
    and "\<And>c. c \<noteq> ch \<Longrightarrow> channel_frames c (slice_part sl (p @ hs)) = channel_frames c (slice_part sl p)"
proof -
  have h: "slice_seq_num x = sl \<and> channel_type x = ch" if "x \<in> set hs" for x using assms(1) that by (auto simp: is_run_def in_set_conv_nth)
  have part: "slice_part sl (p @ hs) = rev hs @ slice_part sl p" using h by (intro slice_part_append) blast
  have f: "filter (\<lambda>x. channel_type x = c) hs = (if c = ch then hs else [])" for c
    using h by (auto simp: filter_id_conv filter_empty_conv)
  then have cf: "channel_frames c (slice_part sl (p @ hs)) = (if c = ch then rev hs else []) @ channel_frames c (slice_part sl p)" for c
    by (simp add: part channel_frames_def rev_filter [symmetric])
  then show "channel_frames c (slice_part sl (p @ hs)) = channel_frames c (slice_part sl p)" if "c \<noteq> ch" for c using that by simp
  have "end_flag (last hs)" using assms(1,2) by (simp add: is_run_def last_conv_nth)
  then show "\<forall>c. \<not> channel_open c (slice_part sl (p @ hs))"
    using assms(2,3,6) by (auto simp: channel_open_def cf hd_append hd_rev)
  show "slice_seq_num (last (p @ hs)) = sl" using h assms(2) by simp
  show "\<not> archive_ended (p @ hs)" using assms(4,5) h by (auto simp: archive_ended_def list_ex_iff)
qed

lemma slice_part_other: "p \<noteq> [] \<Longrightarrow> slice_seq_num (last p) \<noteq> sl \<Longrightarrow> slice_part sl p = []"
  by (cases p rule: rev_cases) (simp_all add: slice_part_def)

section \<open>Slice numbers of an archive\<close>

text \<open>From frame to frame the slice number stays or grows by one, so that no slice is left out.\<close>

lemma archive_slice_steps:
  assumes "archive_prefix [] hs" and "Suc i < length hs" and "channel_type (hs ! Suc i) \<noteq> ARCHIVE_END"
  shows "slice_seq_num (hs ! Suc i) = slice_seq_num (hs ! i) \<or> slice_seq_num (hs ! Suc i) = slice_seq_num (hs ! i) + 1"
proof -
  have "fits (take (Suc i) hs) (hs ! Suc i)" using assms by (simp add: archive_prefix_iff_nth)
  moreover have "last (take (Suc i) hs) = hs ! i" "take (Suc i) hs \<noteq> []" using assms(2) by (auto simp: take_Suc_conv_app_nth)
  ultimately show ?thesis using assms(3) by (auto simp: fits_def slice_fits_def split: if_splits)
qed

lemma archive_first_slice:
  assumes "archive_prefix [] (h # hs)" and "channel_type h \<noteq> ARCHIVE_END"
  shows "slice_seq_num h = 0"
  using assms by (simp add: fits_def slice_fits_def)

lemma no_value_skipped:
  fixes f :: "nat \<Rightarrow> nat"
  assumes "f 0 = 0" and "\<And>i. Suc i < n \<Longrightarrow> f (Suc i) \<le> Suc (f i)" and "v \<le> f m" and "m < n"
  shows "\<exists>i\<le>m. f i = v"
  using assms(3,4)
proof (induction m)
  case (Suc m)
  show ?case
  proof (cases "v \<le> f m")
    case True
    with Suc show ?thesis by (meson Suc_lessD le_Suc_eq)
  next
    case False
    then have "f (Suc m) = v" using assms(2) [OF Suc.prems(2)] Suc.prems(1) by simp
    then show ?thesis by blast
  qed
qed (use assms(1) in simp)

lemma archive_no_slice_skipped:
  assumes "archive_prefix [] hs" and "\<forall>h\<in>set hs. channel_type h \<noteq> ARCHIVE_END"
    and "\<forall>i<length hs. slice_seq_num (hs ! i) = word_of_nat (f i)" and "\<forall>i<length hs. f i < 2 ^ 64"
    and "v \<le> f m" and "m < length hs" and "\<forall>i. Suc i < length hs \<longrightarrow> f i \<le> f (Suc i)"
  shows "\<exists>i<length hs. f i = v"
proof -
  have u: "unat (slice_seq_num (hs ! i)) = f i" if "i < length hs" for i
    using assms(3,4) that by (simp add: unat_of_nat)
  have "f 0 = 0"
    using archive_first_slice [of "hs ! 0" "tl hs"] assms(1,2,6) u [of 0] by (cases hs) auto
  moreover have "f (Suc i) \<le> Suc (f i)" if "Suc i < length hs" for i
  proof -
    have "slice_seq_num (hs ! Suc i) = slice_seq_num (hs ! i) \<or> slice_seq_num (hs ! Suc i) = slice_seq_num (hs ! i) + 1"
      using archive_slice_steps [OF assms(1) that] assms(2) that by simp
    moreover have "unat (x + 1) \<le> Suc (unat x)" for x :: u64
      using mod_less_eq_dividend [of "unat x + 1" "2 ^ 64"] by (simp add: unat_word_ariths)
    ultimately have "unat (slice_seq_num (hs ! Suc i)) \<le> Suc (unat (slice_seq_num (hs ! i)))" by (metis le_SucI order_refl)
    then show ?thesis using u [of i] u [OF that] that by simp
  qed
  ultimately obtain i where "i \<le> m" "f i = v" using no_value_skipped [of f "length hs" v m] assms(5,6) by blast
  with assms(6) show ?thesis by (intro exI [of _ i]) simp
qed

section \<open>Headers of built frames\<close>

definition frame_header_of :: "bytes \<Rightarrow> frame_header" where
  "frame_header_of rec = (case parse_fixed_header rec of Inr h \<Rightarrow> h | Inl _ \<Rightarrow> default_header)"

definition run_headers :: "built_frame list \<Rightarrow> frame_header list" where
  "run_headers fs = map (frame_header_of \<circ> bf_record) fs"

lemma advance_by_channel [simp]:
  "fb_channel (advance_by i b) = fb_channel b" "fb_slice (advance_by i b) = fb_slice b"
  "fb_block_size (advance_by i b) = fb_block_size b" "fb_archive_uuid (advance_by i b) = fb_archive_uuid b"
  "fb_archive_name (advance_by i b) = fb_archive_name b"
  by (induction i arbitrary: b) simp_all

lemma run_frames_record:
  assumes "builder_ok b" and "run_pieces b ps" and "i < length ps"
  shows "parse_fixed_header (bf_record (run_frames b ps ! i)) =
      Inr (canon_header (built_header (advance_by i b) (ps ! i) (i = length ps - 1)))"
    and "record_payload (bf_record (run_frames b ps ! i)) = ps ! i"
    and "length (bf_record (run_frames b ps ! i)) = unat (fb_block_size b)"
    and "bf_global_seq (run_frames b ps ! i) = fb_global_seq b + word_of_nat i"
  using built_record [of "advance_by i b" "ps ! i" "i = length ps - 1"] run_pieces_nth [OF assms(2,3)]
    run_frames_nth [OF assms(3), of b] assms(1) by (auto simp: built_def)

lemma run_frames_payload:
  "builder_ok b \<Longrightarrow> run_pieces b ps \<Longrightarrow> concat (map (record_payload \<circ> bf_record) (run_frames b ps)) = concat ps"
  by (rule concat_payloads) (simp_all add: run_frames_record(2))

lemma run_headers_run:
  assumes "builder_ok b" and "run_pieces b ps" and "fb_channel_seq b = 0" and "fb_global_seq b = word_of_nat g"
  shows "is_run (fb_slice b) (fb_channel b) g (run_headers (run_frames b ps))"
    and "one_archive (fb_block_size b) (canon_string nt_uuid_size (fb_archive_uuid b))
      (canon_string archive_label_size (fb_archive_name b)) (run_headers (run_frames b ps))"
proof -
  have h: "run_headers (run_frames b ps) ! i = canon_header (built_header (advance_by i b) (ps ! i) (i = length ps - 1))"
    if "i < length ps" for i
    using run_frames_record(1) [OF assms(1,2) that] that by (simp add: run_headers_def frame_header_of_def)
  have l: "length (run_headers (run_frames b ps)) = length ps" by (simp add: run_headers_def)
  show "is_run (fb_slice b) (fb_channel b) g (run_headers (run_frames b ps))"
    unfolding is_run_def l using h assms(3,4) by (simp add: end_flag_def)
  have v: "valid_block_size (fb_block_size b)" using assms(1) by (simp add: builder_ok_def)
  show "one_archive (fb_block_size b) (canon_string nt_uuid_size (fb_archive_uuid b))
      (canon_string archive_label_size (fb_archive_name b)) (run_headers (run_frames b ps))"
    unfolding one_archive_def
  proof
    fix x assume "x \<in> set (run_headers (run_frames b ps))"
    then obtain i where "i < length ps" "x = canon_header (built_header (advance_by i b) (ps ! i) (i = length ps - 1))"
      using h l by (metis in_set_conv_nth)
    then show "decoded_block_size x = fb_block_size b \<and> archive_uuid x = canon_string nt_uuid_size (fb_archive_uuid b) \<and>
        archive_label x = canon_string archive_label_size (fb_archive_name b)"
      using v by (simp add: canon_header_def built_header_def decoded_block_size_def valid_block_kib)
  qed
qed

end
