(* ===== verification/PaxArchiveSpec.thy ===== *)
theory PaxArchiveSpec
  imports PaxArchive
begin

text \<open>
  What an archive that is written without an error has told its client: the slices of the plan
  in order, each as one begin, chunks that concatenate to the stream of the slice's entries, and
  one end; whatever the schedules of the pipelines are.
\<close>

section \<open>Slices as the client sees them\<close>

definition served :: "'c slice_callbacks \<Rightarrow> u64 \<times> bytes \<Rightarrow> 'c \<Rightarrow> 'c \<Rightarrow> bool" where
  "served cb x c c' \<longleftrightarrow> (\<exists>c1 chunks c2. cb_begin_slice cb (fst x) c = Some c1 \<and> concat chunks = snd x \<and>
     pass_chunks cb (fst x) chunks c1 = Some c2 \<and> cb_end_slice cb (fst x) c2 = Some c')"

fun serves :: "'c slice_callbacks \<Rightarrow> (u64 \<times> bytes) list \<Rightarrow> 'c \<Rightarrow> 'c \<Rightarrow> bool" where
  "serves cb [] c c' \<longleftrightarrow> c' = c"
| "serves cb (x # xs) c c' \<longleftrightarrow> (\<exists>c1. served cb x c c1 \<and> serves cb xs c1 c')"

lemma serves_append: "serves cb (xs @ ys) c c' \<longleftrightarrow> (\<exists>c1. serves cb xs c c1 \<and> serves cb ys c1 c')"
  by (induction xs arbitrary: c) auto

definition slice_stream :: "('e, 'w) pax_env \<Rightarrow> bool \<Rightarrow> u64 \<times> 'e list \<Rightarrow> u64 \<times> bytes" where
  "slice_stream env eoa g = (fst g, pax_stream (env\<lparr>pe_last_slice := eoa\<rparr>) (snd g))"

text \<open>The streams of all slices; the last one gets the entries the resolver held back, and the end marker.\<close>

definition archive_streams :: "('e, 'w) pax_env \<Rightarrow> (u64 \<times> 'e list) list \<Rightarrow> 'e list \<Rightarrow> (u64 \<times> bytes) list" where
  "archive_streams env gs held =
    (if gs = [] then []
     else map (slice_stream env False) (butlast gs) @ [slice_stream env True (fst (last gs), snd (last gs) @ held)])"

section \<open>Entries by slice\<close>

definition add_entries :: "(u64 \<times> 'e list) list \<Rightarrow> u64 \<times> 'e list \<Rightarrow> (u64 \<times> 'e list) list" where
  "add_entries gs x =
    (if gs \<noteq> [] \<and> fst (last gs) = fst x then butlast gs @ [(fst x, snd (last gs) @ snd x)] else gs @ [x])"

definition pair_list :: "'e option \<Rightarrow> 'e option \<Rightarrow> 'e list" where
  "pair_list a b = (case a of None \<Rightarrow> [] | Some e \<Rightarrow> [e]) @ (case b of None \<Rightarrow> [] | Some e \<Rightarrow> [e])"

text \<open>The entries that the resolver makes of the planned ones, and the resolver after them.\<close>

fun linked_entries :: "('e, 'w, 'r) archive_env \<Rightarrow> string \<Rightarrow> 'r \<Rightarrow> planned_entry list \<Rightarrow> (u64 \<times> 'e list) list \<times> 'r" where
  "linked_entries env cwd r [] = ([], r)"
| "linked_entries env cwd r (e # es) =
    (case planned_entry_from_path env cwd (pe_path e) of
       None \<Rightarrow> ([], r)
     | Some raw \<Rightarrow>
         (case ae_linkify env r raw of (a, b, r') \<Rightarrow>
            (case linked_entries env cwd r' es of (xs, r'') \<Rightarrow> ((pe_slice e, pair_list a b) # xs, r''))))"

definition slice_groups :: "(u64 \<times> 'e list) list \<Rightarrow> (u64 \<times> 'e list) list" where
  "slice_groups xs = foldl add_entries [] xs"

definition held_back :: "('e, 'w, 'r) archive_env \<Rightarrow> 'r \<Rightarrow> 'e list" where
  "held_back env r = concat (map (\<lambda>(a, b). pair_list a b) (ae_deferred env r))"

definition short_groups :: "(u64 \<times> 'e list) list \<Rightarrow> bool" where
  "short_groups gs \<longleftrightarrow> (\<forall>g\<in>set gs. length (snd g) < 2 ^ 64)"

lemma add_entries_Nil [simp]: "add_entries [] x = [x]"
  by (simp add: add_entries_def)

lemma add_entries_nonempty [simp]: "add_entries gs x \<noteq> []"
  by (simp add: add_entries_def)

lemma short_add: "short_groups (add_entries gs x) \<Longrightarrow> short_groups gs"
  by (cases gs rule: rev_cases) (auto simp: short_groups_def add_entries_def split: if_splits)

section \<open>The pipeline under a client\<close>

lemma slice_env_simps [simp]:
  "entry_source (slice_env cb n c eoa env) = entry_source env" "pe_write_data (slice_env cb n c eoa env) = pe_write_data env"
  "open_entry_file (slice_env cb n c eoa env) = open_entry_file env" "has_data (slice_env cb n c eoa env) = has_data env"
  "pe_write_header (slice_env cb n c eoa env) = pe_write_header env" "pe_finish_entry (slice_env cb n c eoa env) = pe_finish_entry env"
  "pe_new_writer (slice_env cb n c eoa env) = pe_new_writer env" "pe_last_slice (slice_env cb n c eoa env) = eoa"
  by (auto simp: fun_eq_iff slice_env_def entry_source_def open_entry_file_def has_data_def split: option.split)

lemma last_slice_simps [simp]:
  "entry_source (env\<lparr>pe_last_slice := l\<rparr>) = entry_source env"
  "open_entry_file (env\<lparr>pe_last_slice := l\<rparr>) = open_entry_file env" "has_data (env\<lparr>pe_last_slice := l\<rparr>) = has_data env"
  by (auto simp: fun_eq_iff entry_source_def open_entry_file_def has_data_def split: option.split)

lemma copy_loop_cong: "pe_write_data env1 = pe_write_data env2 \<Longrightarrow> copy_loop env1 rs w = copy_loop env2 rs w"
  by (induction env1 rs w rule: copy_loop.induct) (auto split: prod.split)

lemma write_entry_cong:
  assumes "pe_write_header env1 = pe_write_header env2" and "pe_write_data env1 = pe_write_data env2"
    and "pe_finish_entry env1 = pe_finish_entry env2" and "entry_source env1 = entry_source env2"
  shows "write_entry env1 w e fd = write_entry env2 w e fd"
proof -
  have cf: "copy_file_data env1 = copy_file_data env2"
    using copy_loop_cong [OF assms(2)] by (intro ext) (simp add: assms(4) copy_file_data_def)
  show ?thesis unfolding write_entry_def assms(1,3) cf ..
qed

lemma write_entry_slice [simp]:
  "write_entry (slice_env cb n c eoa env) w e fd = write_entry env w e fd"
  "write_entry (env\<lparr>pe_last_slice := l\<rparr>) w e fd = write_entry env w e fd"
  by (rule write_entry_cong; simp)+

lemma entry_bytes_slice [simp]:
  "entry_bytes (slice_env cb n c eoa env) e = entry_bytes env e" "entry_bytes (env\<lparr>pe_last_slice := l\<rparr>) e = entry_bytes env e"
  by (simp_all add: entry_bytes_def entry_input_def split: option.split prod.split)

lemma pax_stream_slice: "pax_stream (slice_env cb n c eoa env) es = pax_stream (env\<lparr>pe_last_slice := eoa\<rparr>) es"
proof -
  have "entry_bytes (slice_env cb n c eoa env) = entry_bytes (env\<lparr>pe_last_slice := eoa\<rparr>)" by (simp add: fun_eq_iff)
  then show ?thesis by (simp add: pax_stream_def)
qed

lemma headers_fit_slice: "headers_fit env \<Longrightarrow> headers_fit (slice_env cb n c eoa env)"
  by (simp add: headers_fit_def)

text \<open>A pipeline that ends without an error has passed on the stream of its entries.\<close>

lemma completed_stream:
  assumes "pipeline_run env opts ts (start_pipeline opts es) = Some p" and "pp_main p = M_done"
    and "pipeline_result p = Inr chunks" and "headers_fit env" and "length es < 2 ^ 64"
  shows "concat chunks = pax_stream env es"
proof -
  from pipeline_run_ok [OF assms(1) start_ok assms(5)] obtain k n P where ok: "pipeline_ok env opts es k n P p" by blast
  from assms(3) have e: "pp_error p = None" "chunks = pp_chunks p" by (auto simp: pipeline_result_def split: option.splits)
  from pipeline_complete [OF ok assms(2) e(1)] have "concat chunks = concat (outs env opts es)" "\<forall>x\<in>set es. \<not> entry_fails env opts x"
    using e(2) by simp_all
  then show ?thesis using outs_stream [OF assms(4)] by simp
qed

section \<open>The state of the archive\<close>

text \<open>The slices begun so far with their entries; the last one is active.\<close>

definition archiving ::
  "('e, 'w, 'r) archive_env \<Rightarrow> string \<Rightarrow> 'c slice_callbacks \<Rightarrow> 'c \<Rightarrow> (u64 \<times> 'e list) list \<Rightarrow> ('e, 'r, 'c) pax_state \<Rightarrow> bool" where
  "archiving env cwd cb c0 gs s \<longleftrightarrow> xs_cwd s = cwd \<and> xs_slice_count s = of_nat (length gs) \<and>
     (if gs = [] then xs_active s = None \<and> xs_client s = c0 \<and> xs_hashed s = []
      else xs_active s = Some (fst (last gs)) \<and> xs_entries s = snd (last gs) \<and> \<not> xs_eoa s \<and>
        (short_groups (butlast gs) \<longrightarrow>
          (let done = map (slice_stream (ae_pax env cwd) False) (butlast gs)
           in xs_hashed s = concat (map snd done) \<and>
              (\<exists>c1. serves cb done c0 c1 \<and> cb_begin_slice cb (fst (last gs)) c1 = Some (xs_client s)))))"

lemma finish_slice_serves:
  assumes "finish_slice env opts cb s = Inr s'" and "xs_active s = Some n" and "headers_fit (ae_pax env (xs_cwd s))"
    and "length (xs_entries s) < 2 ^ 64" and "cb_begin_slice cb n c1 = Some (xs_client s)"
  shows "served cb (slice_stream (ae_pax env (xs_cwd s)) (xs_eoa s) (n, xs_entries s)) c1 (xs_client s')"
    and "xs_hashed s' = xs_hashed s @ snd (slice_stream (ae_pax env (xs_cwd s)) (xs_eoa s) (n, xs_entries s))"
proof -
  let ?env = "slice_env cb n (xs_client s) (xs_eoa s) (ae_pax env (xs_cwd s))"
  from assms(1,2) obtain ts rest p chunks where r: "pipeline_run ?env opts ts (start_pipeline opts (xs_entries s)) = Some p"
      "pp_main p = M_done" "pipeline_result p = Inr chunks" "end_slice cb n p chunks (s\<lparr>xs_schedules := rest\<rparr>) = Inr s'"
    by (auto simp: finish_slice_def split: list.splits option.splits if_splits sum.splits)
  have st: "concat chunks = pax_stream ((ae_pax env (xs_cwd s))\<lparr>pe_last_slice := xs_eoa s\<rparr>) (xs_entries s)"
    using completed_stream [OF r(1-3) headers_fit_slice [OF assms(3)] assms(4)] by (simp add: pax_stream_slice)
  from r(4) obtain c2 where c2: "pass_chunks cb n chunks (xs_client s) = Some c2" "cb_end_slice cb n c2 = Some (xs_client s')"
    "xs_hashed s' = xs_hashed s @ concat chunks"
    by (auto simp: end_slice_def split: option.splits)
  show "served cb (slice_stream (ae_pax env (xs_cwd s)) (xs_eoa s) (n, xs_entries s)) c1 (xs_client s')"
    using assms(5) c2 st unfolding served_def slice_stream_def by (intro exI [of _ "xs_client s"] exI [of _ chunks] exI [of _ c2]) simp
  show "xs_hashed s' = xs_hashed s @ snd (slice_stream (ae_pax env (xs_cwd s)) (xs_eoa s) (n, xs_entries s))"
    using c2(3) st by (simp add: slice_stream_def)
qed

lemma finish_slice_fields:
  assumes "finish_slice env opts cb s = Inr s'"
  shows "xs_cwd s' = xs_cwd s" "xs_slice_count s' = xs_slice_count s" "xs_active s' = None" "xs_resolver s' = xs_resolver s"
    "xs_active s = None \<Longrightarrow> s' = s"
  using assms by (auto simp: finish_slice_def end_slice_def split: option.splits list.splits if_splits sum.splits)

text \<open>The active slice, finished with or without the end marker.\<close>

lemma finish_archiving:
  assumes "archiving env cwd cb c0 gs s" and "gs \<noteq> []" and "headers_fit (ae_pax env cwd)" and "short_groups (butlast gs)"
    and "length (snd (last gs) @ held) < 2 ^ 64"
    and "finish_slice env opts cb (s\<lparr>xs_entries := snd (last gs) @ held, xs_eoa := eoa\<rparr>) = Inr s'"
  shows "serves cb (map (slice_stream (ae_pax env cwd) False) (butlast gs) @
      [slice_stream (ae_pax env cwd) eoa (fst (last gs), snd (last gs) @ held)]) c0 (xs_client s')"
    and "xs_hashed s' = concat (map snd (map (slice_stream (ae_pax env cwd) False) (butlast gs) @
      [slice_stream (ae_pax env cwd) eoa (fst (last gs), snd (last gs) @ held)]))"
proof -
  let ?s = "s\<lparr>xs_entries := snd (last gs) @ held, xs_eoa := eoa\<rparr>"
  from assms(1,2,4) obtain c1 where a: "xs_cwd s = cwd" "xs_active s = Some (fst (last gs))"
      "xs_hashed s = concat (map snd (map (slice_stream (ae_pax env cwd) False) (butlast gs)))"
      "serves cb (map (slice_stream (ae_pax env cwd) False) (butlast gs)) c0 c1" "cb_begin_slice cb (fst (last gs)) c1 = Some (xs_client s)"
    by (auto simp: archiving_def Let_def)
  from finish_slice_serves [OF assms(6), of "fst (last gs)" c1] a assms(3,5)
  have "served cb (slice_stream (ae_pax env cwd) eoa (fst (last gs), snd (last gs) @ held)) c1 (xs_client s')"
    "xs_hashed s' = xs_hashed s @ snd (slice_stream (ae_pax env cwd) eoa (fst (last gs), snd (last gs) @ held))" by simp_all
  then show "serves cb (map (slice_stream (ae_pax env cwd) False) (butlast gs) @
      [slice_stream (ae_pax env cwd) eoa (fst (last gs), snd (last gs) @ held)]) c0 (xs_client s')"
    "xs_hashed s' = concat (map snd (map (slice_stream (ae_pax env cwd) False) (butlast gs) @
      [slice_stream (ae_pax env cwd) eoa (fst (last gs), snd (last gs) @ held)]))"
    using a(3,4) by (auto simp: serves_append)
qed

lemma emit_pair_archiving:
  assumes "emit_pair a b s = Inr s'"
  shows "s' = s\<lparr>xs_entries := xs_entries s @ pair_list a b\<rparr>"
  using assms by (auto simp: emit_pair_def emit_entry_def pair_list_def split: option.splits if_splits)

lemma enter_slice_archiving:
  assumes "archiving env cwd cb c0 gs s" and "headers_fit (ae_pax env cwd)" and "enter_slice env opts cb n s = Inr s'"
    and "xs = (if gs \<noteq> [] \<and> fst (last gs) = n then gs else gs @ [(n, [])])"
  shows "archiving env cwd cb c0 xs s'" and "xs_resolver s' = xs_resolver s"
proof -
  have "archiving env cwd cb c0 xs s' \<and> xs_resolver s' = xs_resolver s"
  proof (cases "xs_active s = Some n")
    case True
    then have "gs \<noteq> [] \<and> fst (last gs) = n" using assms(1) by (auto simp: archiving_def split: if_splits)
    then show ?thesis using True assms(1,3,4) by (auto simp add: enter_slice_def)
  next
    case False
    then have xs: "xs = gs @ [(n, [])]" using assms(1,4) by (auto simp: archiving_def)
    from False assms(3) obtain s1 c where s1: "finish_slice env opts cb s = Inr s1" "cb_begin_slice cb n (xs_client s1) = Some c"
        "s' = s1\<lparr>xs_active := Some n, xs_entries := [], xs_eoa := False, xs_client := c, xs_slice_count := xs_slice_count s1 + 1\<rparr>"
      by (auto simp: enter_slice_def begin_slice_def bind_res_Inr split: if_splits option.splits)
    note f = finish_slice_fields [OF s1(1)]
    have a: "xs_cwd s = cwd" "xs_slice_count s = of_nat (length gs)" using assms(1) by (simp_all add: archiving_def)
    have "archiving env cwd cb c0 (gs @ [(n, [])]) s'"
    proof (cases "gs = []")
      case True
      then have "s1 = s" using f(5) assms(1) by (simp add: archiving_def)
      then show ?thesis using True assms(1) s1(2) by (simp add: archiving_def s1(3))
    next
      case ne: False
      have "xs_hashed s1 = concat (map snd (map (slice_stream (ae_pax env cwd) False) gs)) \<and>
          serves cb (map (slice_stream (ae_pax env cwd) False) gs) c0 (xs_client s1)" if sh: "short_groups gs"
      proof -
        have b: "short_groups (butlast gs)" "length (snd (last gs) @ []) < 2 ^ 64"
          using sh ne by (auto simp: short_groups_def dest: in_set_butlastD)
        have "s\<lparr>xs_entries := snd (last gs) @ [], xs_eoa := False\<rparr> = s" using assms(1) ne by (simp add: archiving_def)
        with s1(1) finish_archiving [OF assms(1) ne assms(2) b, of opts False s1]
        have "serves cb (map (slice_stream (ae_pax env cwd) False) (butlast gs @ [last gs])) c0 (xs_client s1)"
          "xs_hashed s1 = concat (map snd (map (slice_stream (ae_pax env cwd) False) (butlast gs @ [last gs])))" by simp_all
        then show ?thesis using ne by simp
      qed
      then show ?thesis using a f s1(2) ne by (auto simp add: archiving_def s1(3) Let_def)
    qed
    then show ?thesis using xs s1(3) f(4) by simp
  qed
  then show "archiving env cwd cb c0 xs s'" "xs_resolver s' = xs_resolver s" by blast+
qed

lemma add_to_archiving:
  assumes "archiving env cwd cb c0 (if gs \<noteq> [] \<and> fst (last gs) = n then gs else gs @ [(n, [])]) s"
  shows "archiving env cwd cb c0 (add_entries gs (n, es)) (s\<lparr>xs_resolver := r, xs_entries := xs_entries s @ es\<rparr>)"
  using assms by (auto simp: archiving_def add_entries_def Let_def split: if_splits)

lemma plan_entry_archiving:
  assumes "archiving env cwd cb c0 gs s" and "headers_fit (ae_pax env cwd)"
    and "plan_record_step env opts cb (entry_record e) s = Inr s'"
  obtains raw a b r where "planned_entry_from_path env cwd (pe_path e) = Some raw" "ae_linkify env (xs_resolver s) raw = (a, b, r)"
    "archiving env cwd cb c0 (add_entries gs (pe_slice e, pair_list a b)) s'" "xs_resolver s' = r"
proof -
  from assms(3) obtain s1 raw where s1: "enter_slice env opts cb (pe_slice e) s = Inr s1"
      "planned_entry_from_path env (xs_cwd s1) (pe_path e) = Some raw" "emit_linked env raw s1 = Inr s'"
    by (auto simp: plan_record_step_def entry_record_def bind_res_Inr split: option.splits)
  note a = enter_slice_archiving [OF assms(1,2) s1(1) refl]
  obtain x y r where l: "ae_linkify env (xs_resolver s) raw = (x, y, r)" by (metis prod_cases3)
  from s1(3) l a(2) have s': "s' = s1\<lparr>xs_resolver := r, xs_entries := xs_entries s1 @ pair_list x y\<rparr>"
    by (auto simp: emit_linked_def dest: emit_pair_archiving)
  have "xs_cwd s1 = cwd" using a(1) by (simp add: archiving_def)
  with s1(2) l add_to_archiving [OF a(1), of "pair_list x y" r] s' that show ?thesis by simp
qed

section \<open>The plan\<close>

fun plan_records :: "('e, 'w, 'r) archive_env \<Rightarrow> pax_options \<Rightarrow> 'c slice_callbacks \<Rightarrow> plan_record list \<Rightarrow> ('e, 'r, 'c) pax_state \<Rightarrow>
    archive_error + ('e, 'r, 'c) pax_state" where
  "plan_records env opts cb [] s = Inr s"
| "plan_records env opts cb (rec # recs) s = bind_res (plan_record_step env opts cb rec s) (plan_records env opts cb recs)"

lemma plan_loop_records:
  "read_plan reader = Inr recs \<Longrightarrow> plan_loop env opts cb reader s = plan_records env opts cb recs s"
proof (induction recs arbitrary: reader s)
  case Nil
  then show ?case
    by (subst (asm) read_plan.simps) (auto simp: plan_loop.simps [of env opts cb reader] bind_res_Inr split: sum.splits prod.splits option.splits)
next
  case (Cons rec recs)
  from Cons.prems obtain reader' where r: "reader_next reader = Inr (Some rec, reader')" "read_plan reader' = Inr recs"
    by (subst (asm) read_plan.simps) (auto simp: bind_res_Inr split: sum.splits prod.splits option.splits)
  have "plan_loop env opts cb reader' = plan_records env opts cb recs" by (rule ext) (rule Cons.IH [OF r(2)])
  with r(1) show ?case by (simp add: plan_loop.simps [of env opts cb reader])
qed

lemma plan_entries_archiving:
  assumes "archiving env cwd cb c0 gs s" and "headers_fit (ae_pax env cwd)"
    and "plan_records env opts cb (map entry_record es) s = Inr s'"
    and "linked_entries env cwd (xs_resolver s) es = (xs, r)"
  shows "archiving env cwd cb c0 (foldl add_entries gs xs) s' \<and> xs_resolver s' = r"
  using assms(1,3,4)
proof (induction es arbitrary: gs s xs)
  case (Cons e es)
  from Cons.prems(2) obtain s1 where s1: "plan_record_step env opts cb (entry_record e) s = Inr s1"
    "plan_records env opts cb (map entry_record es) s1 = Inr s'" by (auto simp: bind_res_Inr)
  obtain raw a b r1 where l: "planned_entry_from_path env cwd (pe_path e) = Some raw" "ae_linkify env (xs_resolver s) raw = (a, b, r1)"
    "archiving env cwd cb c0 (add_entries gs (pe_slice e, pair_list a b)) s1" "xs_resolver s1 = r1"
    using plan_entry_archiving [OF Cons.prems(1) assms(2) s1(1)] by blast
  obtain ys r2 where ys: "linked_entries env cwd r1 es = (ys, r2)" by fastforce
  then have "xs = (pe_slice e, pair_list a b) # ys" "r = r2" using Cons.prems(3) l by simp_all
  with Cons.IH [OF l(3) s1(2)] ys l(4) show ?case by simp
qed simp

lemma short_groups_foldl: "short_groups (foldl add_entries gs xs) \<Longrightarrow> short_groups gs"
  by (induction xs arbitrary: gs) (auto dest: short_add)

section \<open>The end of the archive\<close>

lemma emit_deferred_eq:
  assumes "emit_deferred l s = Inr s'"
  shows "s' = s\<lparr>xs_entries := xs_entries s @ concat (map (\<lambda>(a, b). pair_list a b) l)\<rparr>"
  using assms
proof (induction l arbitrary: s)
  case (Cons p l)
  obtain a b where p: "p = (a, b)" by force
  with Cons.prems obtain s1 where s1: "emit_pair a b s = Inr s1" "emit_deferred l s1 = Inr s'" by (auto simp: bind_res_Inr)
  from Cons.IH [OF s1(2)] emit_pair_archiving [OF s1(1)] show ?case by (simp add: p)
qed simp

lemma finish_archive_serves:
  assumes "archiving env cwd cb c0 gs s" and "headers_fit (ae_pax env cwd)" and "finish_archive env opts cb s = Inr s'"
    and "short_groups gs" and "gs = [] \<or> length (snd (last gs) @ held_back env (xs_resolver s)) < 2 ^ 64"
  shows "serves cb (archive_streams (ae_pax env cwd) gs (held_back env (xs_resolver s))) c0 (xs_client s')"
    and "xs_hashed s' = concat (map snd (archive_streams (ae_pax env cwd) gs (held_back env (xs_resolver s))))"
    and "xs_slice_count s' = of_nat (length gs)"
proof -
  let ?held = "held_back env (xs_resolver s)"
  from assms(3) obtain s1 where s1: "emit_deferred (ae_deferred env (xs_resolver s)) s = Inr s1"
    "(if xs_active s1 = None then Inr s1 else bind_res (emit_end_marker s1) (finish_slice env opts cb)) = Inr s'"
    by (auto simp: finish_archive_def bind_res_Inr)
  have e: "s1 = s\<lparr>xs_entries := xs_entries s @ ?held\<rparr>" using emit_deferred_eq [OF s1(1)] by (simp add: held_back_def)
  show "serves cb (archive_streams (ae_pax env cwd) gs ?held) c0 (xs_client s')"
    "xs_hashed s' = concat (map snd (archive_streams (ae_pax env cwd) gs ?held))" "xs_slice_count s' = of_nat (length gs)"
  proof (atomize (full), cases "gs = []")
    case True
    then show "serves cb (archive_streams (ae_pax env cwd) gs ?held) c0 (xs_client s') \<and>
      xs_hashed s' = concat (map snd (archive_streams (ae_pax env cwd) gs ?held)) \<and> xs_slice_count s' = of_nat (length gs)"
      using assms(1) s1(2) e by (auto simp: archiving_def archive_streams_def)
  next
    case False
    have b: "short_groups (butlast gs)" using assms(4) by (auto simp: short_groups_def dest: in_set_butlastD)
    have "finish_slice env opts cb (s\<lparr>xs_entries := snd (last gs) @ ?held, xs_eoa := True\<rparr>) = Inr s'"
      using s1(2) False assms(1) by (auto simp: e archiving_def emit_end_marker_def)
    from finish_archiving [OF assms(1) False assms(2) b _ this] finish_slice_fields(2) [OF this] assms(1,5) False
    show "serves cb (archive_streams (ae_pax env cwd) gs ?held) c0 (xs_client s') \<and>
      xs_hashed s' = concat (map snd (archive_streams (ae_pax env cwd) gs ?held)) \<and> xs_slice_count s' = of_nat (length gs)"
      by (simp add: archive_streams_def archiving_def)
  qed
qed

section \<open>Properties\<close>

lemma slice_groups_concat: "concat (map snd (slice_groups xs)) = concat (map snd xs)"
proof (induction xs rule: rev_induct)
  case (snoc x xs)
  then show ?case by (cases "slice_groups xs" rule: rev_cases) (auto simp: slice_groups_def add_entries_def)
qed (simp add: slice_groups_def)

lemma slice_groups_numbers: "map fst (slice_groups xs) = remdups_adj (map fst xs)"
proof (induction xs rule: rev_induct)
  case (snoc x xs)
  have "last (remdups_adj ys) = last ys" for ys :: "u64 list" by (induction ys rule: remdups_adj.induct) auto
  then have l: "slice_groups xs \<noteq> [] \<Longrightarrow> fst (last (slice_groups xs)) = last (map fst xs)"
    using snoc by (metis last_map map_is_Nil_conv)
  have ne: "slice_groups xs = [] \<longleftrightarrow> xs = []" using snoc by (metis map_is_Nil_conv remdups_adj_Nil_iff)
  show ?case
  proof (cases xs rule: rev_cases)
    case (snoc ys y)
    have "map fst (slice_groups (xs @ [x])) = (if fst y = fst x then remdups_adj (map fst xs) else remdups_adj (map fst xs) @ [fst x])"
    proof (cases "slice_groups xs" rule: rev_cases)
      case Nil
      then show ?thesis using ne snoc by simp
    next
      case (snoc gs g)
      have "fst g = fst y" using l snoc \<open>xs = ys @ [y]\<close> by simp
      then show ?thesis using \<open>map fst (slice_groups xs) = remdups_adj (map fst xs)\<close> snoc by (auto simp: slice_groups_def add_entries_def)
    qed
    also have "\<dots> = remdups_adj (map fst (xs @ [x]))"
      using remdups_adj_append [of "map fst ys" "fst y" "[fst x]"] snoc by simp
    finally show ?thesis .
  qed (simp add: slice_groups_def)
qed (simp add: slice_groups_def)

lemma length_archive_streams [simp]: "length (archive_streams env gs held) = length gs"
  by (cases gs rule: rev_cases) (simp_all add: archive_streams_def)

definition dir_records :: "string option \<Rightarrow> plan_record list" where
  "dir_records d = (case d of None \<Rightarrow> [] | Some dir \<Rightarrow> [chdir_record dir])"

lemma plan_dir_archiving:
  assumes "archiving env cwd0 cb c [] s" and "enter_directory env cwd0 d = Some cwd"
    and "plan_records env opts cb (dir_records d @ recs) s = Inr s'"
  obtains s1 where "archiving env cwd cb c [] s1" "xs_resolver s1 = xs_resolver s" "plan_records env opts cb recs s1 = Inr s'"
proof (cases d)
  case None
  with assms that [of s] show ?thesis by (simp add: enter_directory_def dir_records_def)
next
  case (Some dir)
  with assms that [of "s\<lparr>xs_cwd := cwd\<rparr>"] show ?thesis
    by (simp add: enter_directory_def dir_records_def chdir_record_def plan_record_step_def archiving_def)
qed

lemma linked_entries_slices:
  assumes "plan_records env opts cb (map entry_record es) s = Inr s'" and "archiving env cwd cb c0 gs s"
    and "headers_fit (ae_pax env cwd)"
  shows "map fst (fst (linked_entries env cwd (xs_resolver s) es)) = map pe_slice es"
  using assms(1,2)
proof (induction es arbitrary: gs s)
  case (Cons e es)
  from Cons.prems(1) obtain s1 where s1: "plan_record_step env opts cb (entry_record e) s = Inr s1"
    "plan_records env opts cb (map entry_record es) s1 = Inr s'" by (auto simp: bind_res_Inr)
  obtain raw a b r1 where l: "planned_entry_from_path env cwd (pe_path e) = Some raw" "ae_linkify env (xs_resolver s) raw = (a, b, r1)"
    "archiving env cwd cb c0 (add_entries gs (pe_slice e, pair_list a b)) s1" "xs_resolver s1 = r1"
    using plan_entry_archiving [OF Cons.prems(2) assms(3) s1(1)] by blast
  obtain ys r2 where "linked_entries env cwd r1 es = (ys, r2)" by fastforce
  with Cons.IH [OF s1(2) l(3)] l show ?case by simp
qed simp

lemma fst_archive_streams: "i < length gs \<Longrightarrow> fst (archive_streams env gs held ! i) = fst (gs ! i)"
  by (cases gs rule: rev_cases) (auto simp: archive_streams_def slice_stream_def nth_append less_Suc_eq)

text \<open>What a plan determines: the working directory, the entries of each slice, and those held back.\<close>

definition plan_directory :: "plan_record list \<Rightarrow> string option" where
  "plan_directory recs = (case recs of [] \<Rightarrow> None | rec # _ \<Rightarrow> chdir_dir rec)"

definition plan_groups ::
  "('e, 'w, 'r) archive_env \<Rightarrow> pax_writer_options \<Rightarrow> (string \<times> (u64 \<times> 'e list) list \<times> 'e list) option" where
  "plan_groups env opts =
    (case (pw_plan_path opts, enter_directory env (ae_cwd env) (pw_chdir_dir opts), ae_resolver env) of
       (Some path, Some cwd0, Some r) \<Rightarrow>
         (case ae_open_plan env cwd0 path of
            None \<Rightarrow> None
          | Some (text, broken) \<Rightarrow>
              (case read_plan (new_plan_reader text broken path) of
                 Inl e \<Rightarrow> None
               | Inr recs \<Rightarrow>
                   if list_ex (\<lambda>rec. chdir_dir rec \<noteq> None) (tl recs) then None
                   else case enter_directory env cwd0 (plan_directory recs) of
                     None \<Rightarrow> None
                   | Some cwd \<Rightarrow>
                       (case linked_entries env cwd r (plan_entries recs) of
                          (xs, r') \<Rightarrow> Some (cwd, slice_groups xs, held_back env r'))))
     | _ \<Rightarrow> None)"

lemma plan_shape:
  assumes "read_plan (new_plan_reader text broken path) = Inr recs" and "\<not> list_ex (\<lambda>rec. chdir_dir rec \<noteq> None) (tl recs)"
  shows "recs = dir_records (plan_directory recs) @ map entry_record (plan_entries recs)" and "contiguous None (plan_entries recs)"
proof -
  note c = read_plan_contents [OF assms(1)]
  then show "contiguous None (plan_entries recs)" by (simp add: new_plan_reader_def)
  have e: "rec = entry_record (the (entry rec)) \<and> entry rec \<noteq> None" if "rec \<in> set recs" "chdir_dir rec = None" for rec
    using c that by (auto simp: chdir_record_def entry_record_def)
  have es: "map entry_record (plan_entries rs) = rs" if "\<forall>rec\<in>set rs. rec = entry_record (the (entry rec)) \<and> entry rec \<noteq> None" for rs
    using that by (induction rs) (auto split: option.splits)
  show "recs = dir_records (plan_directory recs) @ map entry_record (plan_entries recs)"
  proof (cases recs)
    case Nil
    then show ?thesis by (simp add: dir_records_def plan_directory_def)
  next
    case (Cons rec rest)
    have r: "map entry_record (plan_entries rest) = rest" using assms(2) e Cons by (intro es) (auto simp: list_ex_iff)
    show ?thesis
    proof (cases "chdir_dir rec")
      case None
      have "map entry_record (plan_entries recs) = recs" using e None assms(2) Cons by (intro es) (auto simp: list_ex_iff)
      with None Cons show ?thesis by (simp add: dir_records_def plan_directory_def)
    next
      case (Some dir)
      then have "rec = chdir_record dir" using c Cons by (auto simp: chdir_record_def entry_record_def)
      with r Cons show ?thesis by (simp add: dir_records_def plan_directory_def chdir_record_def)
    qed
  qed
qed

lemma contiguous_slices:
  assumes "contiguous (Some p) es"
  shows "\<forall>i<length (remdups_adj (pe_slice p # map pe_slice es)). unat (remdups_adj (pe_slice p # map pe_slice es) ! i) = unat (pe_slice p) + i"
  using assms
proof (induction es arbitrary: p)
  case (Cons e es)
  from Cons.prems have n: "pe_slice e = pe_slice p \<or> unat (pe_slice e) = Suc (unat (pe_slice p))" and c: "contiguous (Some e) es"
    by (auto simp: follows_def word_next_iff split: if_splits)
  show ?case
  proof (cases "pe_slice e = pe_slice p")
    case True
    with Cons.IH [OF c] show ?thesis by simp
  next
    case False
    have "remdups_adj (pe_slice p # map pe_slice (e # es)) = pe_slice p # remdups_adj (pe_slice e # map pe_slice es)"
      using False by simp
    with Cons.IH [OF c] n False show ?thesis by (auto simp: nth_Cons split: nat.split)
  qed
qed simp

lemma contiguous_slices_from_0:
  assumes "contiguous None es" and "i < length (remdups_adj (map pe_slice es))"
  shows "unat (remdups_adj (map pe_slice es) ! i) = i"
proof (cases es)
  case (Cons e rest)
  with assms(1) have "pe_slice e = 0" "contiguous (Some e) rest" by (simp_all add: follows_def)
  with contiguous_slices [of e rest] assms(2) Cons show ?thesis by simp
qed (use assms in simp)

lemma plan_archive_served:
  assumes run: "write_pax_archive H env opts cb c schedules = Inr (res, c')"
    and plan: "plan_groups env opts = Some (cwd, gs, held)"
    and fit: "headers_fit (ae_pax env cwd)" and len: "length (concat (map snd gs) @ held) < 2 ^ 64"
  shows "serves cb (archive_streams (ae_pax env cwd) gs held) c c'" and "\<forall>i<length gs. unat (fst (gs ! i)) = i"
    and "pr_slices res = of_nat (length gs)"
    and "pr_blake3_hex res = hex_encode (H (concat (map snd (archive_streams (ae_pax env cwd) gs held))))"
proof -
  from plan obtain path cwd0 r content broken recs xs r' where
    p: "pw_plan_path opts = Some path" "enter_directory env (ae_cwd env) (pw_chdir_dir opts) = Some cwd0" "ae_resolver env = Some r"
      "ae_open_plan env cwd0 path = Some (content, broken)" "read_plan (new_plan_reader content broken path) = Inr recs"
      "\<not> list_ex (\<lambda>rec. chdir_dir rec \<noteq> None) (tl recs)" "enter_directory env cwd0 (plan_directory recs) = Some cwd"
      "linked_entries env cwd r (plan_entries recs) = (xs, r')" "gs = slice_groups xs" "held = held_back env r'"
    unfolding plan_groups_def by (auto split: option.splits sum.splits prod.splits if_splits)
  note sh = plan_shape [OF p(5,6)]
  from run obtain s s1 s2 where s: "start_archive env opts c schedules = Inr s" "read_entries_from env opts cb s = Inr s1"
      "finish_archive env (pw_pipeline opts) cb s1 = Inr s2" "xs_client s2 = c'"
      "pr_slices res = xs_slice_count s2" "pr_blake3_hex res = hex_encode (H (xs_hashed s2))"
    unfolding write_pax_archive_def by (auto simp: bind_res_Inr)
  have a0: "archiving env cwd0 cb c [] s" "xs_resolver s = r" using s(1) p(2,3) by (auto simp: start_archive_def archiving_def)
  then have "xs_cwd s = cwd0" by (simp add: archiving_def)
  then have "plan_records env (pw_pipeline opts) cb recs s = Inr s1"
    using s(2) p(1,4) by (auto simp: read_entries_from_def plan_loop_records [OF p(5)] split: if_splits)
  then have "plan_records env (pw_pipeline opts) cb (dir_records (plan_directory recs) @ map entry_record (plan_entries recs)) s = Inr s1"
    using sh(1) by simp
  from plan_dir_archiving [OF a0(1) p(7) this] obtain s0 where s0: "archiving env cwd cb c [] s0" "xs_resolver s0 = r"
    "plan_records env (pw_pipeline opts) cb (map entry_record (plan_entries recs)) s0 = Inr s1" using a0(2) by metis
  have a: "archiving env cwd cb c gs s1" "xs_resolver s1 = r'"
    using plan_entries_archiving [OF s0(1) fit s0(3)] s0(2) p(8,9) by (simp_all add: slice_groups_def)
  have "length (snd g) \<le> length (concat (map snd gs))" if "g \<in> set gs" for g
    using that by (simp add: length_concat member_le_sum_list)
  then have sg: "short_groups gs" using len by (fastforce simp: short_groups_def)
  have lh: "gs = [] \<or> length (snd (last gs) @ held_back env (xs_resolver s1)) < 2 ^ 64"
    by (cases gs rule: rev_cases) (use len p(10) a(2) in simp_all)
  note f = finish_archive_serves [OF a(1) fit s(3) sg lh]
  have n: "map fst gs = remdups_adj (map pe_slice (plan_entries recs))"
    using linked_entries_slices [OF s0(3,1) fit] s0(2) p(8,9) by (simp add: slice_groups_numbers)
  show "serves cb (archive_streams (ae_pax env cwd) gs held) c c'" "pr_slices res = of_nat (length gs)"
    "pr_blake3_hex res = hex_encode (H (concat (map snd (archive_streams (ae_pax env cwd) gs held))))"
    using f s(4-6) a(2) p(10) by simp_all
  show "\<forall>i<length gs. unat (fst (gs ! i)) = i"
    using contiguous_slices_from_0 [OF sh(2)] n by (metis length_map nth_map)
qed

text \<open>C9. An archive follows its plan.  Whatever the schedules of the threads, if the archive is
  written without an error, the client was given the slices of the plan, numbered from 0, each
  once and in order, as a begin, chunks that concatenate to the stream of the slice's entries, and
  an end; only the last slice has the end-of-archive marker; and the reported number of slices and
  hash are those of what the client got.\<close>
theorem archive_follows_plan:
  assumes "write_pax_archive H env opts cb c schedules = Inr (res, c')" and "plan_groups env opts = Some (cwd, gs, held)"
    and "headers_fit (ae_pax env cwd)" and "length (concat (map snd gs) @ held) < 2 ^ 64"
  shows "serves cb (archive_streams (ae_pax env cwd) gs held) c c' \<and> (\<forall>i<length gs. unat (fst (gs ! i)) = i) \<and>
    pr_slices res = of_nat (length gs) \<and>
    pr_blake3_hex res = hex_encode (H (concat (map snd (archive_streams (ae_pax env cwd) gs held))))"
  using plan_archive_served [OF assms] by blast

section \<open>A sample archive\<close>

text \<open>Two directories in two slices, written by the calling thread, the serializer and the output thread.\<close>

definition dir_schedule :: "bool \<Rightarrow> pax_thread list" where
  "dir_schedule eoa = (let m = Main_thread; r = Serializer_thread; t = Output_thread in
     [m, m] @ (if eoa then [m, m] else [m]) @ [m, m, m, m, r, r, t, t, t] @ (if eoa then [r, r, t, t, t] else []) @ [r, m, m, t, m])"

definition dir_options :: pax_options where
  "dir_options = \<lparr>px_output_buf_size = 4096, px_buffer_percent = 0, px_io_thread = 0\<rparr>"

lemmas machine_defs = pipeline_step_def main_step_def pipeline_serializer_main_def output_main_def
  emit_eoa_def dispatch_entry_to_pipeline_def Let_def enqueue_order_def finish_input_def
  begin_item_def begin_emit_def emit_bytes_to_bb1_def
  queue_push_def queue_pop_def queue_close_def store_close_def
  buffer_push_def buffer_pop_def buffer_take_def buffer_close_def new_queue_def new_buffer_def
  inline_item_def item_or_empty_def size_bytes_def
  pipeline_worker_count_def output_restart_bytes_def
  pipeline_order_queue_capacity_def pipeline_work_queue_capacity_def pipeline_result_capacity_def

lemma dir_slice_run:
  assumes "\<not> has_data env e" and "serialize_entry env e None = Some [x]" and "\<not> pe_last_slice env" and "\<not> pe_callback_throws env [] [x]"
  shows "\<exists>p. pipeline_run env dir_options (dir_schedule False) (start_pipeline dir_options [e]) = Some p \<and> pp_main p = M_done \<and>
    pipeline_result p = Inr [[x]]"
  using assms by (simp add: dir_schedule_def dir_options_def start_pipeline_def pipeline_result_def machine_defs)

lemma dir_last_run:
  assumes "\<not> has_data env e" and "serialize_entry env e None = Some [x]" and "pe_last_slice env" and "\<not> pe_callback_throws env [] [x]"
    and "\<not> pe_callback_throws env [[x]] (replicate 1024 0)"
  shows "\<exists>p. pipeline_run env dir_options (dir_schedule True) (start_pipeline dir_options [e]) = Some p \<and> pp_main p = M_done \<and>
    pipeline_result p = Inr [[x], replicate 1024 0]"
  using assms by (simp add: dir_schedule_def dir_options_def start_pipeline_def pipeline_result_def machine_defs)

definition dir_env :: "(nat, unit) pax_env" where
  "dir_env = \<lparr>
     pe_is_reg = (\<lambda>e. False), pe_size = (\<lambda>e. 0), pe_sourcepath = (\<lambda>_. None), pe_pathname = (\<lambda>_. Some ''f''),
     pe_open = (\<lambda>_. None), pe_new_writer = Some (),
     pe_write_header = (\<lambda>w e. (A_ok, [[of_nat e]], ())), pe_write_data = (\<lambda>w bs. (0, [], ())),
     pe_finish_entry = (\<lambda>w. (A_ok, [], ())), pe_close = (\<lambda>_. A_ok), pe_callback_throws = (\<lambda>_ _. False), pe_last_slice = False\<rparr>"

definition two_slice_plan :: "planned_entry list" where
  "two_slice_plan = map (\<lambda>n. \<lparr>pe_slice = n, pe_file_num = 0, pe_kind = CHR ''d'', planned_entry.pe_size = 0, pe_mtime = 0, pe_uid = 0,
     pe_uname = [], pe_gid = 0, pe_gname = [], pe_path = (if n = 0 then ''a'' else ''b'')\<rparr>) [0, 1]"

definition sample_archive :: "(nat, unit, unit) archive_env" where
  "sample_archive = \<lparr>
     ae_pax = (\<lambda>_. dir_env), ae_cwd = ''/'', ae_chdir = (\<lambda>_ _. None), ae_exists = (\<lambda>_. True),
     ae_open_plan = (\<lambda>_ _. Some (plan_text (map entry_record two_slice_plan), False)), ae_resolver = Some (),
     ae_linkify = (\<lambda>r e. (Some e, None, ())), ae_deferred = (\<lambda>_. []), ae_set_path = (\<lambda>_ e. e), ae_set_source = (\<lambda>_ e. e),
     ae_entry_from_file = (\<lambda>_ path. (A_ok, if path = ''a'' then 5 else 6)), ae_disk_reader = (\<lambda>_. True),
     ae_disk_open = (\<lambda>_ _ _. (A_ok, []))\<rparr>"

definition sample_writer :: pax_writer_options where
  "sample_writer = \<lparr>pw_pipeline = dir_options, pw_sources = [], pw_plan_path = Some ''p'', pw_one_file_system = False, pw_chdir_dir = None\<rparr>"

lemma two_slice_plan_read:
  "read_plan (new_plan_reader (plan_text (map entry_record two_slice_plan)) False ''p'') = Inr (map entry_record two_slice_plan)"
proof -
  have "map canon_entry two_slice_plan = two_slice_plan" by (simp add: two_slice_plan_def canon_entry_def plan_name_def)
  moreover have "read_plan (new_plan_reader (plan_text (map entry_record two_slice_plan)) False ''p'') =
      Inr (map (entry_record \<circ> canon_entry) two_slice_plan)"
    by (rule read_entries)
      (simp_all add: new_plan_reader_def two_slice_plan_def valid_entry_def plan_kinds_def NUL_def follows_def)
  ultimately show ?thesis unfolding map_map [symmetric] by simp
qed

lemma sample_groups: "plan_groups sample_archive sample_writer = Some (''/'', [(0, [5]), (1, [6])], [])"
proof -
  have "plan_entries (map entry_record es) = es" for es by (induction es) (simp_all add: entry_record_def)
  moreover have "list_ex (\<lambda>rec. chdir_dir rec \<noteq> None) (tl (map entry_record two_slice_plan)) = False"
    "plan_directory (map entry_record two_slice_plan) = None"
    by (simp_all add: two_slice_plan_def entry_record_def plan_directory_def)
  ultimately show ?thesis
    by (simp add: plan_groups_def sample_writer_def sample_archive_def enter_directory_def two_slice_plan_read)
      (simp add: two_slice_plan_def planned_entry_from_path_def pair_list_def slice_groups_def add_entries_def held_back_def)
qed

lemma dir_env_facts:
  "\<not> has_data dir_env e" "serialize_entry dir_env e None = Some [of_nat e]" "headers_fit dir_env" "entry_bytes dir_env e = [of_nat e]"
  by (simp_all add: dir_env_def has_data_def serialize_entry_def write_entry_def check_archive_throw_def headers_fit_def
      entry_bytes_def entry_input_def)

lemma slice_env_throws [simp]:
  "pe_callback_throws (slice_env cb n c eoa env) chunks bs \<longleftrightarrow>
    (case pass_chunks cb n chunks c of None \<Rightarrow> True | Some c \<Rightarrow> cb_write_chunk cb n bs c = None)"
  by (simp add: slice_env_def)

text \<open>It is written whenever the client's callbacks accept what they are told.\<close>

lemma sample_archive_written:
  assumes "cb_begin_slice cb 0 c = Some c1" "cb_write_chunk cb 0 [5] c1 = Some c2" "cb_end_slice cb 0 c2 = Some c3"
    and "cb_begin_slice cb 1 c3 = Some c4" "cb_write_chunk cb 1 [6] c4 = Some c5" "cb_write_chunk cb 1 (replicate 1024 0) c5 = Some c6"
    "cb_end_slice cb 1 c6 = Some c7"
  shows "\<exists>res. write_pax_archive H sample_archive sample_writer cb c [dir_schedule False, dir_schedule True] = Inr (res, c7)"
proof -
  have ser: "serialize_entry (slice_env cb n d eoa dir_env) e None = Some [of_nat e]" for n d eoa e
    using dir_env_facts(2) [of e] by (simp add: serialize_entry_def slice_env_def dir_env_def write_entry_def check_archive_throw_def)
  let ?e0 = "slice_env cb 0 c1 False dir_env" and ?e1 = "slice_env cb 1 c4 True dir_env"
  obtain p where p: "pipeline_run ?e0 dir_options (dir_schedule False) (start_pipeline dir_options [5]) = Some p" "pp_main p = M_done"
    "pipeline_result p = Inr [[5]]"
    using dir_slice_run [of ?e0 5 5] ser assms dir_env_facts by auto
  obtain q where q: "pipeline_run ?e1 dir_options (dir_schedule True) (start_pipeline dir_options [6]) = Some q" "pp_main q = M_done"
    "pipeline_result q = Inr [[6], replicate 1024 0]"
    using dir_last_run [of ?e1 6 6] ser assms dir_env_facts by auto
  note d = planned_entry_from_path_def emit_linked_def emit_pair_def emit_entry_def enter_slice_def begin_slice_def finish_slice_def
    end_slice_def plan_record_step_def entry_record_def
  have pl: "plan_loop sample_archive dir_options cb (new_plan_reader (plan_text (map entry_record two_slice_plan)) False ''p'') s =
      plan_records sample_archive dir_options cb (map entry_record two_slice_plan) s" for s
    by (rule plan_loop_records [OF two_slice_plan_read])
  have o: "ae_open_plan sample_archive x y = Some (plan_text (map entry_record two_slice_plan), False)" "ae_disk_reader sample_archive False" for x y
    by (simp_all add: sample_archive_def)
  show ?thesis
    unfolding write_pax_archive_def read_entries_from_def
    by (simp add: o pl sample_writer_def start_archive_def enter_directory_def)
      (simp add: sample_archive_def two_slice_plan_def d assms p q finish_archive_def emit_end_marker_def)
qed

text \<open>A client that collects the bytes, and a hash that is the first two bytes.\<close>

definition collector :: "bytes slice_callbacks" where
  "collector = \<lparr>cb_begin_slice = (\<lambda>n c. Some c), cb_write_chunk = (\<lambda>n bs c. Some (c @ bs)), cb_end_slice = (\<lambda>n c. Some c)\<rparr>"

theorem archive_follows_plan_witness:
  "\<exists>res c'. write_pax_archive (take 2) sample_archive sample_writer collector [] [dir_schedule False, dir_schedule True] = Inr (res, c') \<and>
     pr_slices res = 2 \<and> pr_blake3_hex res = ''0506'' \<and> serves collector [(0, [5]), (1, 6 # replicate 1024 0)] [] c'"
proof -
  obtain res c' where r: "write_pax_archive (take 2) sample_archive sample_writer collector [] [dir_schedule False, dir_schedule True] = Inr (res, c')"
    using sample_archive_written [of collector "[]"] by (fastforce simp: collector_def)
  have st: "archive_streams dir_env [(0, [5]), (1, [6])] [] = [(0, [5]), (1, 6 # replicate 1024 0)]"
    by (simp add: archive_streams_def slice_stream_def pax_stream_def dir_env_facts)
  have e: "ae_pax sample_archive ''/'' = dir_env" by (simp add: sample_archive_def)
  from archive_follows_plan [OF r sample_groups] dir_env_facts(3) r show ?thesis
    by (intro exI [of _ res] exI [of _ c']) (simp add: e st hex_encode_def hex_digit_def)
qed

end
