(* ===== verification/ArchiverSpec.thy ===== *)
theory ArchiverSpec
  imports Archiver ArchiveRuns PaxArchiveSpec
begin

text \<open>
  What the producers push: the catalog and one channel run for each slice, each slice closed by a
  boundary, and the done record; and when their frames form an archive.
\<close>

section \<open>Pushing is running a channel\<close>

lemma push_frames_pushed:
  "push_frames fs p = Some p' \<Longrightarrow> ap_builder p' = ap_builder p \<and> ap_pushed p' = ap_pushed p @ map frame_record fs"
  by (induction fs arbitrary: p) (fastforce simp: push_record_def split: option.splits if_splits)+

lemma push_built_Some:
  "push_built r p = Some p' \<Longrightarrow>
   \<exists>fs. r = Inr (ap_builder p', fs) \<and> ap_pushed p' = ap_pushed p @ map frame_record fs"
  by (auto simp: push_built_def dest!: push_frames_pushed split: sum.splits)

lemma feed_chunks_all:
  "feed_chunks cs p = Some p' \<Longrightarrow>
   \<exists>fs. feed_all (ap_builder p) cs = Inr (ap_builder p', fs) \<and> ap_pushed p' = ap_pushed p @ map frame_record fs"
proof (induction cs arbitrary: p)
  case (Cons c cs)
  then obtain q where q: "feed_producer c p = Some q" "feed_chunks cs q = Some p'" by (auto split: option.splits)
  from q(1) obtain fs where f: "feed (ap_builder p) c = Inr (ap_builder q, fs)" "ap_pushed q = ap_pushed p @ map frame_record fs"
    unfolding feed_producer_def by (blast dest: push_built_Some)
  from Cons.IH [OF q(2)] f show ?case by auto
qed simp

lemma pass_chunks_feed: "pass_chunks make_server_callbacks n cs p = feed_chunks cs p"
  by (induction cs arbitrary: p) (auto simp: make_server_callbacks_def split: option.split)

definition idle :: "frame_builder \<Rightarrow> bool" where
  "idle b \<longleftrightarrow> valid_block_size (fb_block_size b) \<and> fb_pending b = []"

definition run_after :: "frame_builder \<Rightarrow> u64 \<Rightarrow> channel \<Rightarrow> bytes list \<Rightarrow> frame_builder" where
  "run_after b n ch ps = advance_by (length ps) (run_start b n ch)"

lemma run_after_simps [simp]:
  "fb_block_size (run_after b n ch ps) = fb_block_size b" "fb_pending (run_after b n ch ps) = fb_pending b"
  "fb_archive_uuid (run_after b n ch ps) = fb_archive_uuid b" "fb_archive_name (run_after b n ch ps) = fb_archive_name b"
  "fb_global_seq (run_after b n ch ps) = fb_global_seq b + word_of_nat (length ps)" "capacity (run_after b n ch ps) = capacity b"
  "idle (run_after b n ch ps) = idle b"
  by (simp_all add: run_after_def run_start_def capacity_def idle_def)

lemma channel_pushed:
  assumes "idle (ap_builder p)" and "ch \<noteq> ARCHIVE_END" and "start_channel n ch p = Some p1" and "feed_chunks cs p1 = Some p2"
    and "flush_producer p2 = Some p3"
  obtains ps where "run_pieces (ap_builder p) ps" "concat ps = concat cs" "ap_builder p3 = run_after (ap_builder p) n ch ps"
    "ap_pushed p3 = ap_pushed p @ map frame_record (run_frames (run_start (ap_builder p) n ch) ps)"
proof -
  from assms(3) have 1: "begin_channel (ap_builder p) n ch = Inr (ap_builder p1)" "ap_pushed p1 = ap_pushed p"
    by (auto simp: start_channel_def split: sum.splits)
  from feed_chunks_all [OF assms(4)] obtain fs where 2: "feed_all (ap_builder p1) cs = Inr (ap_builder p2, fs)"
    "ap_pushed p2 = ap_pushed p1 @ map frame_record fs" by blast
  from assms(5) obtain gs where 3: "flush (ap_builder p2) = Inr (ap_builder p3, gs)" "ap_pushed p3 = ap_pushed p2 @ map frame_record gs"
    unfolding flush_producer_def by (blast dest: push_built_Some)
  have run: "channel_run (ap_builder p) n ch cs = Inr (ap_builder p3, fs @ gs)" using 1(1) 2(1) 3(1) by (simp add: channel_run_def)
  from channel_run_ok [of "ap_builder p" ch n cs] assms(1,2) obtain ps where
    "channel_run (ap_builder p) n ch cs = Inr (run_after (ap_builder p) n ch ps, run_frames (run_start (ap_builder p) n ch) ps)"
    "run_pieces (ap_builder p) ps" "concat ps = concat cs" by (auto simp: idle_def run_after_def)
  with run 1(2) 2(2) 3(2) that show ?thesis by simp
qed

section \<open>The runs of all slices\<close>

fun slice_runs :: "frame_builder \<Rightarrow> (u64 \<times> bytes list) list \<Rightarrow> built_frame list list" where
  "slice_runs b [] = []"
| "slice_runs b ((n, ps) # rest) = run_frames (run_start b n CH_CONTENT) ps # slice_runs (run_after b n CH_CONTENT ps) rest"

fun runs_after :: "frame_builder \<Rightarrow> (u64 \<times> bytes list) list \<Rightarrow> frame_builder" where
  "runs_after b [] = b"
| "runs_after b ((n, ps) # rest) = runs_after (run_after b n CH_CONTENT ps) rest"

lemma length_slice_runs [simp]: "length (slice_runs b nps) = length nps"
  by (induction b nps rule: slice_runs.induct) simp_all

lemma runs_after_simps [simp]:
  "fb_block_size (runs_after b nps) = fb_block_size b" "fb_pending (runs_after b nps) = fb_pending b"
  "fb_archive_uuid (runs_after b nps) = fb_archive_uuid b" "fb_archive_name (runs_after b nps) = fb_archive_name b"
  "fb_global_seq (runs_after b nps) = fb_global_seq b + word_of_nat (length (concat (slice_runs b nps)))"
  by (induction b nps rule: runs_after.induct) (simp_all add: algebra_simps)

text \<open>The pieces into which the builder cuts the stream of a slice.\<close>

definition cuts :: "frame_builder \<Rightarrow> u64 \<times> bytes \<Rightarrow> u64 \<times> bytes list \<Rightarrow> bool" where
  "cuts b x y \<longleftrightarrow> fst y = fst x \<and> run_pieces b (snd y) \<and> concat (snd y) = snd x"

lemma cuts_capacity: "capacity b = capacity b' \<Longrightarrow> cuts b = cuts b'"
  by (intro ext) (simp add: cuts_def run_pieces_def full_pieces_def)

lemma serves_runs:
  "serves make_server_callbacks streams p p' \<Longrightarrow> idle (ap_builder p) \<Longrightarrow>
   \<exists>nps. list_all2 (cuts (ap_builder p)) streams nps \<and> ap_builder p' = runs_after (ap_builder p) nps \<and>
     ap_pushed p' = ap_pushed p @ concat (map (\<lambda>fs. map frame_record fs @ [slice_boundary]) (slice_runs (ap_builder p) nps))"
proof (induction streams arbitrary: p)
  case (Cons x streams)
  then obtain q where q: "served make_server_callbacks x p q" "serves make_server_callbacks streams q p'" by auto
  from q(1) obtain p1 chunks p2 p3 where s: "start_channel (fst x) CH_CONTENT p = Some p1" "concat chunks = snd x"
    "feed_chunks chunks p1 = Some p2" "flush_producer p2 = Some p3" "push_record slice_boundary p3 = Some q"
    by (auto simp: served_def pass_chunks_feed) (auto simp: make_server_callbacks_def split: option.splits)
  obtain ps where ps: "run_pieces (ap_builder p) ps" "concat ps = concat chunks" "ap_builder p3 = run_after (ap_builder p) (fst x) CH_CONTENT ps"
    "ap_pushed p3 = ap_pushed p @ map frame_record (run_frames (run_start (ap_builder p) (fst x) CH_CONTENT) ps)"
    by (rule channel_pushed [OF Cons.prems(2) _ s(1,3,4)]) auto
  from s(5) have b: "ap_builder q = ap_builder p3" "ap_pushed q = ap_pushed p3 @ [slice_boundary]"
    by (auto simp: push_record_def split: if_splits)
  have "idle (ap_builder q)" using b(1) ps(3) Cons.prems(2) by simp
  from Cons.IH [OF q(2) this] obtain nps where nps: "list_all2 (cuts (ap_builder q)) streams nps" "ap_builder p' = runs_after (ap_builder q) nps"
    "ap_pushed p' = ap_pushed q @ concat (map (\<lambda>fs. map frame_record fs @ [slice_boundary]) (slice_runs (ap_builder q) nps))" by blast
  have "cuts (ap_builder q) = cuts (ap_builder p)" by (rule cuts_capacity) (simp add: b(1) ps(3))
  moreover have "cuts (ap_builder p) x (fst x, ps)" using ps(1,2) s(2) by (simp add: cuts_def)
  ultimately show ?case using nps b ps(3,4) by (intro exI [of _ "(fst x, ps) # nps"]) simp
qed simp

definition frames_payload :: "built_frame list \<Rightarrow> bytes" where
  "frames_payload fs = concat (map (record_payload \<circ> bf_record) fs)"

lemma slice_runs_payload:
  "idle b \<Longrightarrow> list_all2 (cuts b) streams nps \<Longrightarrow>
   map frames_payload (slice_runs b nps) = map snd streams"
proof (induction b nps arbitrary: streams rule: slice_runs.induct)
  case (2 b n ps rest)
  then obtain x xs where x: "streams = x # xs" "cuts b x (n, ps)" "list_all2 (cuts b) xs rest" by (auto simp: list_all2_Cons2)
  have ok: "builder_ok (run_start b n CH_CONTENT)" using "2.prems"(1) by (simp add: builder_ok_def run_start_def idle_def)
  have rp: "run_pieces (run_start b n CH_CONTENT) ps"
    using x(2) by (simp add: cuts_def run_pieces_def full_pieces_def run_start_def capacity_def)
  have "cuts (run_after b n CH_CONTENT ps) = cuts b" by (rule cuts_capacity) simp
  with "2.IH" [of xs] "2.prems"(1) x(1,3) have "map frames_payload (slice_runs (run_after b n CH_CONTENT ps) rest) = map snd xs"
    by simp
  then show ?case using run_frames_payload [OF ok rp, folded frames_payload_def] x(1,2) by (simp add: cuts_def)
qed simp

section \<open>The runs as an archive\<close>

text \<open>Content of slice n may follow the headers p.\<close>

definition ready :: "frame_header list \<Rightarrow> u64 \<Rightarrow> bool" where
  "ready p n \<longleftrightarrow> may_start p n CH_CONTENT \<and> (\<forall>c. \<not> channel_open c (slice_part n p))"

lemma ready_complete: "ready p n \<Longrightarrow> p = [] \<or> slice_complete p"
  by (auto simp: ready_def may_start_def slice_complete_def current_run_part split: if_splits)

lemma ready_next:
  assumes "\<not> archive_ended p" and "p \<noteq> []" and "slice_seq_num (last p) = n" and "\<forall>c. \<not> channel_open c (slice_part n p)"
  shows "ready p (n + 1)"
proof -
  have "slice_part (n + 1) p = []" by (rule slice_part_other) (use assms(2,3) in simp_all)
  moreover have "slice_complete p" using assms(3,4) by (simp add: slice_complete_def current_run_part)
  ultimately show ?thesis using assms(1-3) by (simp add: ready_def may_start_def channel_frames_def channel_open_def)
qed

definition same_builder :: "frame_builder \<Rightarrow> frame_header list \<Rightarrow> bool" where
  "same_builder b p \<longleftrightarrow> one_archive (fb_block_size b) (canon_string nt_uuid_size (fb_archive_uuid b))
      (canon_string archive_label_size (fb_archive_name b)) p \<and> fb_global_seq b = word_of_nat (length p)"

lemma run_step:
  fixes n :: u64
  assumes "idle b" and "ch \<noteq> ARCHIVE_END" and "same_builder b p" and "run_pieces b ps"
  defines "hs \<equiv> run_headers (run_frames (run_start b n ch) ps)"
  shows "is_run n ch (length p) hs" and "same_builder (run_after b n ch ps) (p @ hs)"
    and "may_start p n ch \<Longrightarrow> archive_prefix p hs" and "length hs = length ps"
proof -
  let ?b = "run_start b n ch"
  have ok: "builder_ok ?b" using assms(1,2) by (simp add: builder_ok_def run_start_def idle_def)
  have rp: "run_pieces ?b ps" using assms(4) by (simp add: run_pieces_def full_pieces_def run_start_def capacity_def)
  have f: "fb_channel_seq ?b = 0" "fb_global_seq ?b = word_of_nat (length p)" "fb_slice ?b = n" "fb_channel ?b = ch"
    "fb_block_size ?b = fb_block_size b" "fb_archive_uuid ?b = fb_archive_uuid b" "fb_archive_name ?b = fb_archive_name b"
    using assms(3) by (simp_all add: run_start_def same_builder_def)
  note r = run_headers_run [OF ok rp f(1,2), unfolded f, folded hs_def]
  show "is_run n ch (length p) hs" by (rule r(1))
  show l: "length hs = length ps" by (simp add: hs_def run_headers_def)
  show "same_builder (run_after b n ch ps) (p @ hs)" using r(2) assms(3) l by (simp add: same_builder_def)
  show "archive_prefix p hs" if "may_start p n ch"
  proof -
    have "one_archive (fb_block_size b) (canon_string nt_uuid_size (fb_archive_uuid b))
        (canon_string archive_label_size (fb_archive_name b)) (p @ hs)" using r(2) assms(3) by (simp add: same_builder_def)
    from run_extends [OF that this r(1)] show ?thesis .
  qed
qed

text \<open>No slice but the last may be without frames.\<close>

definition no_gap :: "frame_header list \<Rightarrow> u64 \<Rightarrow> (u64 \<times> bytes list) list \<Rightarrow> bool" where
  "no_gap p n nps \<longleftrightarrow> (\<forall>i. Suc i < length nps \<longrightarrow> snd (nps ! i) \<noteq> [] \<or> i = 0 \<and> p \<noteq> [] \<and> slice_seq_num (last p) = n)"

lemma no_gap_Cons:
  assumes "no_gap p n (x # rest)"
  shows "rest \<noteq> [] \<Longrightarrow> snd x \<noteq> [] \<or> p \<noteq> [] \<and> slice_seq_num (last p) = n" and "no_gap q m rest"
proof -
  show "rest \<noteq> [] \<Longrightarrow> snd x \<noteq> [] \<or> p \<noteq> [] \<and> slice_seq_num (last p) = n"
    using assms by (auto simp: no_gap_def dest: spec [of _ 0])
  show "no_gap q m rest" unfolding no_gap_def
  proof (intro allI impI)
    fix i assume "Suc i < length rest"
    with assms have "snd ((x # rest) ! Suc i) \<noteq> []" by (auto simp: no_gap_def dest: spec [of _ "Suc i"])
    then show "snd (rest ! i) \<noteq> [] \<or> i = 0 \<and> q \<noteq> [] \<and> slice_seq_num (last q) = m" by simp
  qed
qed

definition archive_so_far :: "frame_builder \<Rightarrow> frame_header list \<Rightarrow> bool" where
  "archive_so_far b p \<longleftrightarrow> same_builder b p \<and> \<not> archive_ended p \<and> (p = [] \<or> slice_complete p)"

lemma slice_runs_archive:
  "idle b \<Longrightarrow> ready p n \<Longrightarrow> same_builder b p \<Longrightarrow> list_all2 (cuts b) streams nps \<Longrightarrow>
   \<forall>i<length streams. fst (streams ! i) = n + word_of_nat i \<Longrightarrow> no_gap p n nps \<Longrightarrow>
   archive_prefix p (concat (map run_headers (slice_runs b nps))) \<and>
   archive_so_far (runs_after b nps) (p @ concat (map run_headers (slice_runs b nps)))"
proof (induction b nps arbitrary: p n streams rule: slice_runs.induct)
  case (1 b)
  then show ?case using ready_complete [of p n] by (auto simp: ready_def may_start_def archive_so_far_def)
next
  case (2 b m ps rest)
  from "2.prems"(4) obtain x xs where x: "streams = x # xs" "cuts b x (m, ps)" "list_all2 (cuts b) xs rest" by (auto simp: list_all2_Cons2)
  have m: "m = n" using "2.prems"(5) x(1,2) by (auto simp: cuts_def)
  have rp: "run_pieces b ps" using x(2) by (simp add: cuts_def)
  let ?hs = "run_headers (run_frames (run_start b n CH_CONTENT) ps)" and ?b = "run_after b n CH_CONTENT ps"
  have ms: "may_start p n CH_CONTENT" and op: "\<forall>c. \<not> channel_open c (slice_part n p)" using "2.prems"(2) by (simp_all add: ready_def)
  note s = run_step [OF "2.prems"(1) _ "2.prems"(3) rp, of CH_CONTENT n, simplified]
  note gap = no_gap_Cons [OF "2.prems"(6)]
  have IH: "archive_prefix (p @ ?hs) (concat (map run_headers (slice_runs ?b rest))) \<and>
      archive_so_far (runs_after ?b rest) ((p @ ?hs) @ concat (map run_headers (slice_runs ?b rest)))" if rd: "ready (p @ ?hs) (n + 1)"
  proof (rule "2.IH" [unfolded m])
    show "idle ?b" using "2.prems"(1) by simp
    show "list_all2 (cuts ?b) xs rest" using x(3) cuts_capacity [of ?b b] by simp
    show "\<forall>i<length xs. fst (xs ! i) = n + 1 + word_of_nat i" using "2.prems"(5) x(1) by (force simp: add.assoc)
  qed (use rd s(2) gap(2) in simp_all)
  have cf: "channel_frames CH_CONTENT (slice_part n p) = []" "\<not> archive_ended p" using ms by (simp_all add: may_start_def)
  show ?case
  proof (cases "ps = []")
    case True
    then have hs: "?hs = []" using s(4) by simp
    show ?thesis
    proof (cases "rest = []")
      case True
      with hs s(2) ready_complete [OF "2.prems"(2)] cf(2) "2.prems"(2) m show ?thesis
        by (auto simp: archive_so_far_def)
    next
      case False
      with gap(1) True have "p \<noteq> []" "slice_seq_num (last p) = n" by simp_all
      from IH [unfolded hs append_Nil2, OF ready_next [OF cf(2) this op]] hs m show ?thesis by simp
    qed
  next
    case False
    then have ne: "?hs \<noteq> []" using s(4) by auto
    note c = run_completes [OF s(1) ne cf(1) _ cf(2) op, simplified]
    have "ready (p @ ?hs) (n + 1)" using c(1-3) ne by (intro ready_next) auto
    from IH [OF this] s(3) [OF ms] m show ?thesis by (simp add: archive_prefix_append)
  qed
qed

section \<open>The catalog\<close>

lemma concat_buffered_reads: "0 < n \<Longrightarrow> concat (buffered_reads n bs) = bs"
  by (induction n bs rule: buffered_reads.induct) (subst buffered_reads.simps, auto)

lemma catalog_run:
  assumes "write_catalog plan p = Some p'" and "idle (ap_builder p)"
  obtains content ps where "plan = Some (content, False)" "run_pieces (ap_builder p) ps" "concat ps = content"
    "ap_builder p' = run_start (run_after (ap_builder p) 0 CH_METADATA ps) 0 CH_CONTENT"
    "ap_pushed p' = ap_pushed p @ map frame_record (run_frames (run_start (ap_builder p) 0 CH_METADATA) ps)"
proof -
  from assms(1) obtain content p1 p2 p3 where w: "plan = Some (content, False)" "start_channel 0 CH_METADATA p = Some p1"
    "feed_chunks (buffered_reads read_buffer_size content) p1 = Some p2" "flush_producer p2 = Some p3" "start_channel 0 CH_CONTENT p3 = Some p'"
    by (auto simp: write_catalog_def split: option.splits if_splits)
  obtain ps where ps: "run_pieces (ap_builder p) ps" "concat ps = concat (buffered_reads read_buffer_size content)"
    "ap_builder p3 = run_after (ap_builder p) 0 CH_METADATA ps"
    "ap_pushed p3 = ap_pushed p @ map frame_record (run_frames (run_start (ap_builder p) 0 CH_METADATA) ps)"
    by (rule channel_pushed [OF assms(2) _ w(2-4)]) auto
  from w(5) have "ap_builder p' = run_start (ap_builder p3) 0 CH_CONTENT" "ap_pushed p' = ap_pushed p3"
    by (auto simp: start_channel_def begin_channel_def run_start_def split: sum.splits if_splits)
  with ps w(1) that show ?thesis by (simp add: concat_buffered_reads read_buffer_size_def)
qed

lemma run_start_fields [simp]:
  "fb_block_size (run_start b n ch) = fb_block_size b" "fb_archive_uuid (run_start b n ch) = fb_archive_uuid b"
  "fb_archive_name (run_start b n ch) = fb_archive_name b"
  "idle (run_start b n ch) = idle b" "same_builder (run_start b n ch) p = same_builder b p" "capacity (run_start b n ch) = capacity b"
  by (simp_all add: idle_def run_start_def same_builder_def capacity_def)

lemma new_builder_fields [simp]:
  "fb_block_size (new_frame_builder bs uuid name) = bs" "fb_archive_uuid (new_frame_builder bs uuid name) = uuid"
  "fb_archive_name (new_frame_builder bs uuid name) = name" "idle (new_frame_builder bs uuid name) = valid_block_size bs"
  "same_builder (new_frame_builder bs uuid name) []"
  by (simp_all add: same_builder_def new_frame_builder_def idle_def)

lemma new_producer_fields [simp]:
  "ap_builder (new_producer bs uuid name pushes) = new_frame_builder bs uuid name" "ap_pushed (new_producer bs uuid name pushes) = []"
  by (simp_all add: new_producer_def)

lemma may_start_first [simp]: "may_start [] 0 ch = (ch \<noteq> ARCHIVE_END)"
  by (simp add: may_start_def archive_ended_def slice_part_def channel_frames_def)

text \<open>Behind the catalog the content of slice 0 may follow.\<close>

lemma catalog_ready:
  assumes "idle b" and "same_builder b []" and "run_pieces b ps"
  defines "hs \<equiv> run_headers (run_frames (run_start b 0 CH_METADATA) ps)"
  shows "archive_prefix [] hs" and "same_builder (run_after b 0 CH_METADATA ps) hs" and "ready hs 0"
    and "\<forall>h\<in>set hs. channel_type h = CH_METADATA \<and> slice_seq_num h = 0"
proof -
  note s = run_step [OF assms(1) _ assms(2,3), of CH_METADATA 0, folded hs_def, simplified]
  show "archive_prefix [] hs" "same_builder (run_after b 0 CH_METADATA ps) hs" by (rule s(3), rule s(2))
  show "\<forall>h\<in>set hs. channel_type h = CH_METADATA \<and> slice_seq_num h = 0" using s(1) by (auto simp: is_run_def in_set_conv_nth)
  have e: "channel_frames c (slice_part 0 []) = []" "\<not> archive_ended []" "\<forall>c. \<not> channel_open c (slice_part 0 [])" for c
    by (simp_all add: channel_frames_def slice_part_def archive_ended_def channel_open_def)
  show "ready hs 0"
  proof (cases "hs = []")
    case True
    then show ?thesis using e by (simp add: ready_def)
  next
    case False
    note c = run_completes [OF s(1) False e(1) _ e(2,3), simplified]
    show ?thesis using c(1,2,3) c(4) [of CH_CONTENT] e(1) [of CH_CONTENT] False by (simp add: ready_def may_start_def)
  qed
qed

section \<open>Slices without frames\<close>

lemma slice_runs_slices:
  "idle b \<Longrightarrow> list_all2 (cuts b) streams nps \<Longrightarrow>
   map (\<lambda>fs. map slice_seq_num (run_headers fs)) (slice_runs b nps) = map (\<lambda>(n, ps). replicate (length ps) n) nps \<and>
   (\<forall>fs\<in>set (slice_runs b nps). \<forall>h\<in>set (run_headers fs). channel_type h = CH_CONTENT)"
proof (induction b nps arbitrary: streams rule: slice_runs.induct)
  case (2 b n ps rest)
  then obtain x xs where x: "cuts b x (n, ps)" "list_all2 (cuts b) xs rest" by (auto simp: list_all2_Cons2)
  let ?b = "run_start b n CH_CONTENT"
  have ok: "builder_ok ?b" using "2.prems"(1) by (simp add: builder_ok_def run_start_def idle_def)
  have rp: "run_pieces ?b ps" using x(1) by (simp add: cuts_def run_pieces_def full_pieces_def)
  have "is_run n CH_CONTENT (unat (fb_global_seq b)) (run_headers (run_frames ?b ps))"
    using run_headers_run(1) [OF ok rp, of "unat (fb_global_seq b)"] by (simp add: run_start_def)
  then have r: "map slice_seq_num (run_headers (run_frames ?b ps)) = replicate (length ps) n"
    "\<forall>h\<in>set (run_headers (run_frames ?b ps)). channel_type h = CH_CONTENT"
    by (auto simp: is_run_def run_headers_def in_set_conv_nth intro: nth_equalityI)
  have "cuts (run_after b n CH_CONTENT ps) = cuts b" by (rule cuts_capacity) simp
  with "2.IH" [of xs] "2.prems"(1) x(2) r show ?case by simp
qed simp

lemma numbered_sorted:
  "\<forall>i<length nps. unat (fst (nps ! i)) = k + i \<Longrightarrow>
   sorted (concat (map (\<lambda>(n, ps). replicate (length ps) (unat n)) nps)) \<and>
   (\<forall>x\<in>set (concat (map (\<lambda>(n, ps). replicate (length ps) (unat n)) nps)). k \<le> x)"
proof (induction nps arbitrary: k)
  case (Cons x rest)
  obtain n ps where x: "x = (n, ps)" by force
  have n: "unat n = k" using Cons.prems x by (auto dest: spec [of _ 0])
  have "\<forall>i<length rest. unat (fst (rest ! i)) = Suc k + i" using Cons.prems by (auto dest: spec [of _ "Suc i" for i])
  from Cons.IH [OF this] show ?case unfolding x by (auto simp: sorted_append n)
qed simp

lemma sorted_map_step: "sorted (map f xs) \<Longrightarrow> Suc j < length xs \<Longrightarrow> f (xs ! j) \<le> f (xs ! Suc j)"
  using sorted_nth_mono [of "map f xs" j "Suc j"] by simp

lemma unat_bound_64: "unat (x :: u64) < 2 ^ 64"
  using unsigned_less [of x] by simp

lemma gap_breaks_archive:
  assumes "archive_prefix [] (cs @ concat (map run_headers (slice_runs b nps)))" and "idle b" and "list_all2 (cuts b) streams nps"
    and num: "\<forall>i<length nps. unat (fst (nps ! i)) = i" and l: "snd (last nps) \<noteq> []" and i: "Suc i < length nps"
    and cs: "\<forall>h\<in>set cs. channel_type h = CH_METADATA \<and> slice_seq_num h = 0"
  shows "snd (nps ! i) \<noteq> [] \<or> i = 0 \<and> cs \<noteq> []"
proof -
  let ?hs = "cs @ concat (map run_headers (slice_runs b nps))" and ?us = "concat (map (\<lambda>(n, ps). replicate (length ps) n) nps)"
  note r = slice_runs_slices [OF assms(2,3)]
  have sl: "map slice_seq_num ?hs = replicate (length cs) 0 @ ?us"
  proof -
    have "map slice_seq_num cs = replicate (length cs) 0" using cs by (induction cs) simp_all
    then show ?thesis using conjunct1 [OF r] by (simp add: map_concat comp_def)
  qed
  have us: "map unat ?us = concat (map (\<lambda>(n, ps). replicate (length ps) (unat n)) nps)"
    by (simp add: map_concat comp_def case_prod_unfold)
  have f: "map (unat \<circ> slice_seq_num) ?hs = replicate (length cs) 0 @ map unat ?us"
    unfolding map_map [symmetric] sl by simp
  have so: "sorted (map (unat \<circ> slice_seq_num) ?hs)"
    unfolding f us using numbered_sorted [of nps 0] num by (auto simp: sorted_append)
  obtain nps' n ps where nps: "nps = nps' @ [(n, ps)]" using i by (cases nps rule: rev_cases) auto
  have ps: "ps \<noteq> []" "unat n = length nps'" using l num nps by (auto dest: spec [of _ "length nps'"])
  have ne: "?us \<noteq> []" "last ?us = n" using ps nps by auto
  have lm: "map slice_seq_num ?hs \<noteq> []" "last (map slice_seq_num ?hs) = n" unfolding sl using ne by simp_all
  have h1: "?hs \<noteq> []" using lm(1) by blast
  from lm(2) have h2: "slice_seq_num (last ?hs) = n" unfolding last_map [OF h1] .
  note hs = h1 h2
  let ?f = "\<lambda>j. unat (slice_seq_num (?hs ! j))"
  have "\<exists>j<length ?hs. ?f j = i"
  proof (rule archive_no_slice_skipped [OF assms(1)])
    show "\<forall>h\<in>set ?hs. channel_type h \<noteq> ARCHIVE_END" using r cs by auto
    show "\<forall>j<length ?hs. slice_seq_num (?hs ! j) = word_of_nat (?f j)" by simp
    show "\<forall>j<length ?hs. ?f j < 2 ^ 64" using unat_bound_64 by blast
    have lc: "?hs ! (length ?hs - 1) = last ?hs" by (rule last_conv_nth [OF hs(1), symmetric])
    show "i \<le> ?f (length ?hs - 1)" unfolding lc hs(2) ps(2) using nps i by simp
    show "length ?hs - 1 < length ?hs" using hs(1) by simp
    show "\<forall>j. Suc j < length ?hs \<longrightarrow> ?f j \<le> ?f (Suc j)" using sorted_map_step [OF so] by simp
  qed
  then obtain j where j: "j < length ?hs" "?f j = i" by blast
  from nth_mem [OF j(1)] have "slice_seq_num (?hs ! j) \<in> set (map slice_seq_num ?hs)" unfolding set_map by (rule imageI)
  then have "slice_seq_num (?hs ! j) \<in> set (replicate (length cs) 0 @ ?us)" unfolding sl .
  then consider "cs \<noteq> []" "slice_seq_num (?hs ! j) = 0" | "slice_seq_num (?hs ! j) \<in> set ?us" by (auto split: if_splits)
  then show ?thesis
  proof cases
    case 1
    with j(2) show ?thesis by simp
  next
    case 2
    then obtain x where x: "x \<in> set nps" "slice_seq_num (?hs ! j) = fst x" "snd x \<noteq> []" by fastforce
    then obtain k where k: "k < length nps" "nps ! k = x" by (auto simp: in_set_conv_nth)
    with num x(2) j(2) have "k = i" by auto
    with k x(3) show ?thesis by blast
  qed
qed

section \<open>The archiver's frames\<close>

lemma run_headers_append: "run_headers (xs @ ys) = run_headers xs @ run_headers ys"
  by (simp add: run_headers_def)

lemma run_headers_concat: "run_headers (concat xss) = concat (map run_headers xss)"
  by (induction xss) (simp_all add: run_headers_def)

lemma last_stream_cuts:
  assumes "list_all2 (cuts b) (archive_streams env gs held) nps"
  shows "nps \<noteq> [] \<longrightarrow> snd (last nps) \<noteq> []"
proof
  assume "nps \<noteq> []"
  then obtain nps' x where x: "nps = nps' @ [x]" by (cases nps rule: rev_cases) auto
  with list_all2_lengthD [OF assms] have "gs \<noteq> []" by auto
  with assms x have "concat (snd x) = snd (slice_stream env True (fst (last gs), snd (last gs) @ held))"
    by (auto simp: archive_streams_def cuts_def list_all2_append2 list_all2_Cons2)
  then show "snd (last nps) \<noteq> []" using x by (auto simp: slice_stream_def pax_stream_def)
qed

lemma archive_end_fits:
  assumes "archive_so_far b p" and "valid_block_size (fb_block_size b)"
  shows "archive_prefix p [canon_header (archive_end_header (fb_block_size b) v (fb_archive_uuid b) (fb_archive_name b) (fb_global_seq b))]"
proof -
  let ?h = "canon_header (archive_end_header (fb_block_size b) v (fb_archive_uuid b) (fb_archive_name b) (fb_global_seq b))"
  have "decoded_block_size ?h = fb_block_size b" using archive_end_header_ok(3) [OF assms(2)] by simp
  then have "one_archive (fb_block_size b) (canon_string nt_uuid_size (fb_archive_uuid b))
      (canon_string archive_label_size (fb_archive_name b)) (p @ [?h])"
    using assms(1) by (simp add: archive_so_far_def same_builder_def) (simp add: canon_header_def archive_end_header_def)
  then have "same_archive p ?h" by (rule one_archive_same)
  moreover have "global_frame_seq_num ?h = word_of_nat (length p)" "channel_type ?h = ARCHIVE_END"
    using assms(1) by (simp_all add: archive_so_far_def same_builder_def archive_end_header_def)
  ultimately show ?thesis using assms(1) by (simp add: fits_def archive_so_far_def)
qed

text \<open>The frames cat of the catalog, and the builder behind them.\<close>

definition after_catalog :: "frame_builder \<Rightarrow> built_frame list \<Rightarrow> bool" where
  "after_catalog b cat \<longleftrightarrow> idle b \<and> same_builder b (run_headers cat) \<and> ready (run_headers cat) 0 \<and>
     archive_prefix [] (run_headers cat) \<and> (\<forall>h\<in>set (run_headers cat). channel_type h = CH_METADATA \<and> slice_seq_num h = 0)"

lemma no_catalog: "valid_block_size bs \<Longrightarrow> after_catalog (new_frame_builder bs uuid name) []"
  by (simp add: after_catalog_def run_headers_def ready_def channel_open_def channel_frames_def slice_part_def)

lemma producer_catalog:
  assumes "(if with_cat then write_catalog plan_bytes (new_producer bs uuid name pushes) else Some (new_producer bs uuid name pushes)) = Some p"
    and "valid_block_size bs"
  obtains cat where "ap_pushed p = map frame_record cat" "frames_payload cat = (if with_cat then fst (the plan_bytes) else [])"
    "after_catalog (ap_builder p) cat" "fb_block_size (ap_builder p) = bs" "fb_archive_uuid (ap_builder p) = uuid"
    "fb_archive_name (ap_builder p) = name"
proof (cases with_cat)
  case False
  with assms no_catalog [OF assms(2)] that [of "[]"] show ?thesis by (auto simp: frames_payload_def)
next
  case True
  let ?p0 = "new_producer bs uuid name pushes"
  have i: "idle (ap_builder ?p0)" using assms(2) by simp
  from True assms(1) have "write_catalog plan_bytes ?p0 = Some p" by simp
  from catalog_run [OF this i] obtain content ps where c: "plan_bytes = Some (content, False)" "run_pieces (ap_builder ?p0) ps" "concat ps = content"
      "ap_builder p = run_start (run_after (ap_builder ?p0) 0 CH_METADATA ps) 0 CH_CONTENT"
      "ap_pushed p = map frame_record (run_frames (run_start (ap_builder ?p0) 0 CH_METADATA) ps)" by auto
  let ?b = "run_start (ap_builder ?p0) 0 CH_METADATA"
  have "builder_ok ?b" using assms(2) by (simp add: builder_ok_def run_start_def)
  moreover have "run_pieces ?b ps" using c(2) by (simp add: run_pieces_def full_pieces_def)
  ultimately have pay: "frames_payload (run_frames ?b ps) = content" using run_frames_payload [of ?b ps] c(3) by (simp add: frames_payload_def)
  have "same_builder (ap_builder ?p0) []" by simp
  note k = catalog_ready [OF i this c(2)]
  have "after_catalog (ap_builder p) (run_frames ?b ps)" using k i by (simp add: after_catalog_def c(4) del: archive_prefix.simps)
  with that [of "run_frames ?b ps"] pay c True show ?thesis by simp
qed

lemma runs_archive_iff:
  assumes c: "after_catalog b cat" and v: "valid_block_size (fb_block_size b)" and n: "list_all2 (cuts b) streams nps"
    and num: "\<forall>i<length nps. unat (fst (nps ! i)) = i" and l: "nps \<noteq> [] \<longrightarrow> snd (last nps) \<noteq> []"
  shows "archive_prefix [] (run_headers (cat @ concat (slice_runs b nps)) @ [canon_header (archive_end_header (fb_block_size b) v'
      (fb_archive_uuid b) (fb_archive_name b) (fb_global_seq (runs_after b nps)))]) \<longleftrightarrow>
    (\<forall>i. Suc i < length nps \<longrightarrow> slice_runs b nps ! i \<noteq> [] \<or> i = 0 \<and> cat \<noteq> [])" (is "archive_prefix [] (?hs @ [?e]) \<longleftrightarrow> ?ok")
proof -
  note c = c [unfolded after_catalog_def]
  have hd: "?hs = run_headers cat @ concat (map run_headers (slice_runs b nps))" by (simp add: run_headers_append run_headers_concat)
  have "length (slice_runs b nps ! i) = length (snd (nps ! i))" if "i < length nps" for i
    using arg_cong [OF conjunct1 [OF slice_runs_slices [OF conjunct1 [OF c] n]], of "\<lambda>x. length (x ! i)"] that
    by (simp add: run_headers_def case_prod_unfold)
  then have gap: "?ok \<longleftrightarrow> (\<forall>i. Suc i < length nps \<longrightarrow> snd (nps ! i) \<noteq> [] \<or> i = 0 \<and> run_headers cat \<noteq> [])"
    by (auto simp: run_headers_def) (metis Suc_lessD length_0_conv)+
  show ?thesis
  proof
    assume ?ok
    then have ng: "no_gap (run_headers cat) 0 nps" unfolding gap using c by (auto simp: no_gap_def)
    have fs: "\<forall>i<length streams. fst (streams ! i) = 0 + word_of_nat i"
    proof (intro allI impI)
      fix i assume "i < length streams"
      with n num have "fst (nps ! i) = fst (streams ! i)" "unat (fst (nps ! i)) = i" by (simp_all add: list_all2_conv_all_nth cuts_def)
      moreover have "word_of_nat (unat (fst (nps ! i))) = fst (nps ! i)" by simp
      ultimately show "fst (streams ! i) = 0 + word_of_nat i" by simp
    qed
    from c slice_runs_archive [of b "run_headers cat" 0 streams nps] n fs ng
    have a: "archive_prefix (run_headers cat) (concat (map run_headers (slice_runs b nps)))" "archive_so_far (runs_after b nps) ?hs"
      by (simp_all add: hd)
    from archive_end_fits [OF a(2), of v'] v c a(1) show "archive_prefix [] (?hs @ [?e])"
      by (simp add: hd archive_prefix_append del: archive_prefix.simps)
  next
    assume "archive_prefix [] (?hs @ [?e])"
    then have a: "archive_prefix [] (run_headers cat @ concat (map run_headers (slice_runs b nps)))"
      by (simp add: hd archive_prefix_append del: archive_prefix.simps)
    show ?ok unfolding gap
    proof (intro allI impI)
      fix i assume i: "Suc i < length nps"
      then have "snd (last nps) \<noteq> []" using l by auto
      from gap_breaks_archive [OF a _ n num this i] c show "snd (nps ! i) \<noteq> [] \<or> i = 0 \<and> run_headers cat \<noteq> []" by blast
    qed
  qed
qed

lemma finish_pushed:
  assumes "finish_producer p = Some p'" and "idle (ap_builder p)"
  shows "ap_pushed p' = ap_pushed p @ [done_record (fb_global_seq (ap_builder p))]"
proof -
  have "flush (ap_builder p) = Inr (ap_builder p, [])" using assms(2) by (simp add: flush_def idle_def)
  with assms(1) show ?thesis by (auto simp: finish_producer_def flush_producer_def push_built_def push_record_def split: if_splits)
qed

section \<open>Properties\<close>

text \<open>C10. The archiver makes an archive of the plan.  If the producer ends without an error, then the plan file was read
  without one, if it was wanted as the catalog, and
  whatever the schedules were the producer has pushed the catalog, if one is wanted, whose payloads are the
  plan file; then for each slice one run of frames whose payloads are the stream of the slice, and
  a boundary; and the done record with the number of the next frame.  Together with an
  archive-end frame of that number the frames form an archive that the
  validator accepts, exactly if no slice before the last is without frames.\<close>
theorem archiver_frames_form_archive:
  assumes "produce_archive H env opts plan_bytes uuid pushes schedules = Some p'" and "plan_groups env (ao_pax opts) = Some (cwd, gs, held)"
    and "headers_fit (ae_pax env cwd)" and "length (concat (map snd gs) @ held) < 2 ^ 64" and "valid_block_size (ao_block_size opts)"
  shows "(ao_write_plan_catalog opts \<longrightarrow> (\<exists>bs. plan_bytes = Some (bs, False))) \<and>
    (\<exists>cat runs. let frames = cat @ concat runs; g = word_of_nat (length frames) in
    ap_pushed p' = map frame_record cat @ concat (map (\<lambda>fs. map frame_record fs @ [slice_boundary]) runs) @ [done_record g] \<and>
    frames_payload cat = (if ao_write_plan_catalog opts then fst (the plan_bytes) else []) \<and>
    map frames_payload runs = map snd (archive_streams (ae_pax env cwd) gs held) \<and>
    (archive_prefix [] (run_headers frames @ [canon_header (archive_end_header (ao_block_size opts) v uuid (ao_archive_name opts) g)]) \<longleftrightarrow>
      (\<forall>i. Suc i < length runs \<longrightarrow> runs ! i \<noteq> [] \<or> i = 0 \<and> cat \<noteq> [])))"
proof -
  have path: "pw_plan_path (ao_pax opts) \<noteq> None" using assms(2) by (auto simp: plan_groups_def split: option.splits)
  let ?p0 = "new_producer (ao_block_size opts) uuid (ao_archive_name opts) pushes"
  from assms(1) path obtain p1 res p2 where p: "(if ao_write_plan_catalog opts then write_catalog plan_bytes ?p0 else Some ?p0) = Some p1"
      "write_pax_archive H env (ao_pax opts) make_server_callbacks p1 schedules = Inr (res, p2)" "finish_producer p2 = Some p'"
    by (auto simp: produce_archive_def Let_def split: option.splits sum.splits)
  have clean: "ao_write_plan_catalog opts \<Longrightarrow> \<exists>bs. plan_bytes = Some (bs, False)"
    using p(1) by (auto simp: write_catalog_def split: option.splits if_splits)
  obtain cat where cat: "ap_pushed p1 = map frame_record cat"
    "frames_payload cat = (if ao_write_plan_catalog opts then fst (the plan_bytes) else [])" "after_catalog (ap_builder p1) cat"
    "fb_block_size (ap_builder p1) = ao_block_size opts" "fb_archive_uuid (ap_builder p1) = uuid" "fb_archive_name (ap_builder p1) = ao_archive_name opts"
    using producer_catalog [OF p(1) assms(5)] by metis
  have idle: "idle (ap_builder p1)" using cat(3) by (simp add: after_catalog_def)
  note s = plan_archive_served [OF p(2) assms(2-4)]
  let ?streams = "archive_streams (ae_pax env cwd) gs held"
  from serves_runs [OF s(1) idle] obtain nps where n: "list_all2 (cuts (ap_builder p1)) ?streams nps" "ap_builder p2 = runs_after (ap_builder p1) nps"
    "ap_pushed p2 = ap_pushed p1 @ concat (map (\<lambda>fs. map frame_record fs @ [slice_boundary]) (slice_runs (ap_builder p1) nps))" by blast
  let ?runs = "slice_runs (ap_builder p1) nps" and ?g = "word_of_nat (length (cat @ concat (slice_runs (ap_builder p1) nps))) :: u64"
  have num: "\<forall>i<length nps. unat (fst (nps ! i)) = i"
    using n(1) s(2) by (simp add: list_all2_conv_all_nth cuts_def fst_archive_streams)
  have l: "nps \<noteq> [] \<longrightarrow> snd (last nps) \<noteq> []"
    by (rule last_stream_cuts [OF n(1)])
  have g: "fb_global_seq (runs_after (ap_builder p1) nps) = ?g" using cat(3) by (simp add: after_catalog_def same_builder_def run_headers_def)
  have "idle (ap_builder p2)" using idle by (simp add: n(2) idle_def)
  from finish_pushed [OF p(3) this] have shape: "ap_pushed p' = map frame_record cat @
      concat (map (\<lambda>fs. map frame_record fs @ [slice_boundary]) ?runs) @ [done_record ?g]" by (simp only: n(2,3) cat(1) g append_assoc)
  have "archive_prefix [] (run_headers (cat @ concat ?runs) @ [canon_header (archive_end_header (ao_block_size opts) v uuid (ao_archive_name opts) ?g)]) \<longleftrightarrow>
      (\<forall>i. Suc i < length ?runs \<longrightarrow> ?runs ! i \<noteq> [] \<or> i = 0 \<and> cat \<noteq> [])"
    using runs_archive_iff [OF cat(3) _ n(1) num l, of v] assms(5) unfolding g cat(4-6) by simp
  with shape cat(2) slice_runs_payload [OF idle n(1)] clean show ?thesis unfolding Let_def by blast
qed

section \<open>A producer with enough room does not fail\<close>

definition in_run :: "producer \<Rightarrow> nat \<Rightarrow> bytes \<Rightarrow> bool" where
  "in_run p k q \<longleftrightarrow> builder_ok (ap_builder p) \<and> fb_block_size (ap_builder p) = 4096 \<and> fb_pending (ap_builder p) = q \<and>
     ap_pushes_left p = k"

lemma in_run_capacity: "in_run p k q \<Longrightarrow> capacity (ap_builder p) = 3584"
  by (simp add: in_run_def capacity_def fixed_header_size_def)

lemma in_run_start: "in_run p k [] \<Longrightarrow> ch \<noteq> ARCHIVE_END \<Longrightarrow> \<exists>p'. start_channel n ch p = Some p' \<and> in_run p' k []"
  by (auto simp: start_channel_def begin_channel_def in_run_def builder_ok_def)

lemma in_run_feed:
  assumes "in_run p k q" and "length (q @ bs) \<le> 3584"
  shows "\<exists>p'. feed_producer bs p = Some p' \<and> in_run p' k (q @ bs)"
proof -
  let ?b = "ap_builder p"
  have "valid_block_size (fb_block_size ?b)" using assms(1) unfolding in_run_def builder_ok_def by blast
  from payload_capacity_nat [OF this] have "unat (payload_capacity ?b) = 3584" using in_run_capacity [OF assms(1)] by simp
  then have "feed ?b bs = Inr (?b\<lparr>fb_pending := q @ bs\<rparr>, [])"
    using assms by (simp add: feed_def feed_loop.simps in_run_def payload_capacity_def)
  then show ?thesis using assms(1) by (simp add: feed_producer_def push_built_def in_run_def)
qed

lemma in_run_push: "in_run p (Suc k) q \<Longrightarrow> \<exists>p'. push_record r p = Some p' \<and> in_run p' k q"
  by (simp add: push_record_def in_run_def)

lemma in_run_flush:
  assumes "in_run p (Suc k) q" and "q \<noteq> []" and "length q \<le> 3584"
  shows "\<exists>p'. flush_producer p = Some p' \<and> in_run p' k []"
proof -
  let ?b = "ap_builder p"
  have "build_frame ?b q True = Inr (advance ?b, built ?b q True)"
    using assms in_run_capacity [OF assms(1)] by (intro build_frame_ok) (simp_all add: in_run_def)
  then have "flush ?b = Inr ((advance ?b)\<lparr>fb_pending := []\<rparr>, [built ?b q True])" using assms by (simp add: flush_def in_run_def)
  then show ?thesis using assms(1) by (simp add: flush_producer_def push_built_def push_record_def in_run_def)
qed

lemma in_run_flush_empty: "in_run p k [] \<Longrightarrow> flush_producer p = Some p"
  by (simp add: flush_producer_def flush_def in_run_def push_built_def)

definition sample_archiver :: archiver_options where
  "sample_archiver = \<lparr>ao_block_size = 4096, ao_archive_name = [65], ao_write_plan_catalog = True, ao_pax = sample_writer\<rparr>"

lemma sample_produced:
  "\<exists>p'. produce_archive (take 2) sample_archive sample_archiver (Some ([1, 2, 3], False)) [66] 6 [dir_schedule False, dir_schedule True] = Some p'"
proof -
  let ?p0 = "new_producer 4096 [66] [65] 6"
  have i: "in_run ?p0 6 []"
    by (simp add: in_run_def new_producer_def new_frame_builder_def builder_ok_def valid_block_size_def min_block_size_def max_block_size_def)
  obtain p1 where p1: "start_channel 0 CH_METADATA ?p0 = Some p1" "in_run p1 6 []" using in_run_start [OF i] by blast
  obtain p2 where p2: "feed_producer [1, 2, 3] p1 = Some p2" "in_run p2 6 [1, 2, 3]" using in_run_feed [OF p1(2), of "[1, 2, 3]"] by auto
  have "in_run p2 (Suc 5) [1, 2, 3]" using p2(2) by (simp add: numeral_eq_Suc)
  from in_run_flush [OF this] obtain p3 where p3: "flush_producer p2 = Some p3" "in_run p3 5 []" by auto
  obtain p4 where p4: "start_channel 0 CH_CONTENT p3 = Some p4" "in_run p4 5 []" using in_run_start [OF p3(2)] by blast
  have rd: "buffered_reads read_buffer_size [1, 2, 3 :: u8] = [[1, 2, 3]]"
    by (simp add: buffered_reads.simps read_buffer_size_def)
  have cat: "write_catalog (Some ([1, 2, 3], False)) ?p0 = Some p4" by (simp add: write_catalog_def p1(1) rd p2(1) p3(1) p4(1))
  obtain c1 where c1: "start_channel 0 CH_CONTENT p4 = Some c1" "in_run c1 5 []" using in_run_start [OF p4(2)] by blast
  obtain c2 where c2: "feed_producer [5] c1 = Some c2" "in_run c2 5 [5]" using in_run_feed [OF c1(2), of "[5]"] by auto
  have "in_run c2 (Suc 4) [5]" using c2(2) by (simp add: numeral_eq_Suc)
  from in_run_flush [OF this] obtain c3 where c3: "flush_producer c2 = Some c3" "in_run c3 4 []" by auto
  have "in_run c3 (Suc 3) []" using c3(2) by (simp add: numeral_eq_Suc)
  from in_run_push [OF this] obtain c4 where c4: "push_record slice_boundary c3 = Some c4" "in_run c4 3 []" by blast
  obtain c5 where c5: "start_channel 1 CH_CONTENT c4 = Some c5" "in_run c5 3 []" using in_run_start [OF c4(2)] by blast
  obtain c6 where c6: "feed_producer [6] c5 = Some c6" "in_run c6 3 [6]" using in_run_feed [OF c5(2), of "[6]"] by auto
  obtain c7 where c7: "feed_producer (replicate 1024 0) c6 = Some c7" "in_run c7 3 (6 # replicate 1024 0)"
    using in_run_feed [OF c6(2), of "replicate 1024 0"] by auto
  have "in_run c7 (Suc 2) (6 # replicate 1024 0)" using c7(2) by (simp add: numeral_eq_Suc)
  from in_run_flush [OF this] obtain c8 where c8: "flush_producer c7 = Some c8" "in_run c8 2 []" by auto
  have "in_run c8 (Suc 1) []" using c8(2) by (simp add: numeral_eq_Suc)
  from in_run_push [OF this] obtain c9 where c9: "push_record slice_boundary c8 = Some c9" "in_run c9 1 []" by blast
  have "in_run c9 (Suc 0) []" using c9(2) by simp
  from in_run_push [OF this] obtain c10 where c10: "push_record (done_record (fb_global_seq (ap_builder c9))) c9 = Some c10" by blast
  obtain res where "write_pax_archive (take 2) sample_archive sample_writer make_server_callbacks p4 [dir_schedule False, dir_schedule True] = Inr (res, c9)"
    using sample_archive_written [of make_server_callbacks p4 c1 c2 c4 c5 c6 c7 c9 "take 2"] c1 c2 c3 c4 c5 c6 c7 c8 c9
    by (auto simp: make_server_callbacks_def)
  then have "produce_archive (take 2) sample_archive sample_archiver (Some ([1, 2, 3], False)) [66] 6 [dir_schedule False, dir_schedule True] = Some c10"
    using cat in_run_flush_empty [OF c9(2)] c10 by (simp add: produce_archive_def sample_archiver_def Let_def finish_producer_def sample_writer_def)
  then show ?thesis ..
qed

theorem archiver_frames_form_archive_witness:
  "\<exists>p' cat runs. produce_archive (take 2) sample_archive sample_archiver (Some ([1, 2, 3], False)) [66] 6 [dir_schedule False, dir_schedule True] = Some p' \<and>
     ap_pushed p' = map frame_record cat @ concat (map (\<lambda>fs. map frame_record fs @ [slice_boundary]) runs) @
       [done_record (word_of_nat (length (cat @ concat runs)))] \<and>
     frames_payload cat = [1, 2, 3] \<and> map frames_payload runs = [[5], 6 # replicate 1024 0] \<and>
     archive_prefix [] (run_headers (cat @ concat runs) @ [canon_header (archive_end_header 4096 1 [66] [65] (word_of_nat (length (cat @ concat runs))))])"
proof -
  obtain p' where p': "produce_archive (take 2) sample_archive sample_archiver (Some ([1, 2, 3], False)) [66] 6 [dir_schedule False, dir_schedule True] = Some p'"
    using sample_produced by blast
  have g: "plan_groups sample_archive (ao_pax sample_archiver) = Some (''/'', [(0, [5]), (1, [6])], [])" by (simp add: sample_archiver_def sample_groups)
  have st: "archive_streams (ae_pax sample_archive ''/'') [(0, [5]), (1, [6])] [] = [(0, [5]), (1, 6 # replicate 1024 0)]"
    by (simp add: archive_streams_def slice_stream_def pax_stream_def dir_env_facts sample_archive_def)
  have f: "headers_fit (ae_pax sample_archive ''/'')" by (simp add: sample_archive_def dir_env_facts)
  have v: "valid_block_size (ao_block_size sample_archiver)" by (simp add: sample_archiver_def valid_block_size_def min_block_size_def max_block_size_def)
  have o: "ao_block_size sample_archiver = 4096" "ao_archive_name sample_archiver = [65]" by (simp_all add: sample_archiver_def)
  have l: "length (concat (map snd [(0 :: u64, [5 :: nat]), (1, [6])]) @ []) < 2 ^ 64" by simp
  from archiver_frames_form_archive [OF p' g f l v, of 1, THEN conjunct2, unfolded st Let_def o]
  obtain cat runs where c: "ap_pushed p' = map frame_record cat @ concat (map (\<lambda>fs. map frame_record fs @ [slice_boundary]) runs) @
       [done_record (word_of_nat (length (cat @ concat runs)))]"
      "frames_payload cat = (if ao_write_plan_catalog sample_archiver then fst (the (Some ([1, 2, 3], False))) else [])"
      "map frames_payload runs = map snd [(0 :: u64, [5]), (1, 6 # replicate 1024 0)]"
    and iff: "archive_prefix [] (run_headers (cat @ concat runs) @ [canon_header (archive_end_header 4096 1 [66] [65] (word_of_nat (length (cat @ concat runs))))]) \<longleftrightarrow>
      (\<forall>i. Suc i < length runs \<longrightarrow> runs ! i \<noteq> [] \<or> i = 0 \<and> cat \<noteq> [])" by blast
  have c2: "frames_payload cat = [1, 2, 3]" "map frames_payload runs = [[5], 6 # replicate 1024 0]"
    using c(2,3) by (simp_all add: sample_archiver_def)
  have "cat \<noteq> []" using c2(1) by (auto simp: frames_payload_def)
  moreover have "length runs = 2" using arg_cong [OF c2(2), of length] by simp
  ultimately have "\<forall>i. Suc i < length runs \<longrightarrow> runs ! i \<noteq> [] \<or> i = 0 \<and> cat \<noteq> []" by auto
  with iff have ar: "archive_prefix [] (run_headers (cat @ concat runs) @ [canon_header (archive_end_header 4096 1 [66] [65] (word_of_nat (length (cat @ concat runs))))])"
    by blast
  show ?thesis by (intro exI [of _ p'] exI [of _ cat] exI [of _ runs] conjI p' c(1) c2 ar)
qed

end
