(* ===== verification/RawStore.thy ===== *)
theory RawStore
  imports ArchiverSpec
begin

text \<open>
  \<open>neotape-raw-store\<close> makes a one-slice archive of its input.
\<close>

text \<open>The pieces of the input that \<open>fread\<close> returns, up to the first short one.\<close>

fun raw_chunks :: "(bytes \<times> bool) list \<Rightarrow> bytes list" where
  "raw_chunks [] = []"
| "raw_chunks ((bs, failed) # reads) =
    (if bs = [] then [] else [bs]) @ (if length bs < read_buffer_size then [] else raw_chunks reads)"

text \<open>The error of the read behind which the input is taken to end.\<close>

fun input_failed :: "(bytes \<times> bool) list \<Rightarrow> bool" where
  "input_failed [] = False"
| "input_failed ((bs, failed) # reads) = (if length bs < read_buffer_size then failed else input_failed reads)"

lemma raw_loop_clean: "raw_loop reads p = Some p' \<Longrightarrow> \<not> input_failed reads"
  by (induction reads p rule: raw_loop.induct) (auto split: option.splits if_splits)

lemma raw_loop_feeds: "raw_loop reads p = Some p' \<Longrightarrow> feed_chunks (raw_chunks reads) p = Some p'"
proof (induction reads p rule: raw_loop.induct)
  case (2 bs failed reads p)
  show ?case
  proof (cases "bs = []")
    case True
    then show ?thesis using "2.prems" by (auto simp: read_buffer_size_def split: if_splits)
  next
    case False
    with "2.prems" obtain q where q: "feed_producer bs p = Some q"
      "(if length bs < read_buffer_size then (if failed then None else Some q) else raw_loop reads q) = Some p'"
      by (auto split: option.splits)
    show ?thesis
    proof (cases "length bs < read_buffer_size")
      case True
      with q False show ?thesis by (auto split: if_splits)
    next
      case long: False
      have "(if bs = [] then Some p else feed_producer bs p) = Some q" using q(1) False by simp
      from "2.IH" [OF this long] q long False show ?thesis by simp
    qed
  qed
qed simp

lemma start_new: "start_channel 0 CH_CONTENT (new_producer bs uuid name pushes) = Some (new_producer bs uuid name pushes)"
  by (simp add: start_channel_def begin_channel_def new_producer_def new_frame_builder_def)

text \<open>C33. The raw store makes an archive of its input.  If the producer ends without an error, no read of the
  input failed, and it has pushed one run of content frames whose payloads are the whole input, a boundary and the done
  record, and with an archive-end frame the frames form an archive, also when the input is empty.\<close>
theorem raw_frames_form_archive:
  assumes "produce_raw_frames reads block_size uuid name pushes = Some p'" and "valid_block_size block_size"
  shows "\<not> input_failed reads \<and> (\<exists>fs. let g = word_of_nat (length fs) in
    ap_pushed p' = map frame_record fs @ [slice_boundary, done_record g] \<and> frames_payload fs = concat (raw_chunks reads) \<and>
    (\<forall>h\<in>set (run_headers fs). channel_type h = CH_CONTENT) \<and>
    archive_prefix [] (run_headers fs @ [canon_header (archive_end_header block_size v uuid name g)]))"
proof -
  let ?p0 = "new_producer block_size uuid name pushes"
  from assms(1) obtain p1 p2 p3 where p: "raw_loop reads ?p0 = Some p1" "flush_producer p1 = Some p2" "push_record slice_boundary p2 = Some p3"
      "push_record (done_record (fb_global_seq (ap_builder p3))) p3 = Some p'"
    by (auto simp: produce_raw_frames_def split: option.splits)
  have i: "idle (ap_builder ?p0)" using assms(2) by simp
  obtain ps where ps: "run_pieces (ap_builder ?p0) ps" "concat ps = concat (raw_chunks reads)"
    "ap_builder p2 = run_after (ap_builder ?p0) 0 CH_CONTENT ps"
    "ap_pushed p2 = map frame_record (run_frames (run_start (ap_builder ?p0) 0 CH_CONTENT) ps)"
    using channel_pushed [OF i _ start_new raw_loop_feeds [OF p(1)] p(2)] by auto
  let ?b = "ap_builder ?p0" and ?fs = "run_frames (run_start (ap_builder ?p0) 0 CH_CONTENT) ps"
  let ?nps = "[(0 :: u64, ps)]"
  have n: "list_all2 (cuts ?b) [(0, concat (raw_chunks reads))] ?nps" using ps(1,2) by (simp add: cuts_def)
  have rd: "ready [] 0" by (simp add: ready_def channel_open_def channel_frames_def slice_part_def)
  have "archive_prefix [] (run_headers ?fs) \<and> archive_so_far (runs_after ?b ?nps) (run_headers ?fs)"
    using slice_runs_archive [OF i rd _ n] by (simp add: no_gap_def del: archive_prefix.simps)
  moreover have g: "fb_global_seq (run_after ?b 0 CH_CONTENT ps) = word_of_nat (length ?fs)" by (simp add: new_frame_builder_def)
  ultimately have a: "archive_prefix [] (run_headers ?fs @ [canon_header (archive_end_header block_size v uuid name (word_of_nat (length ?fs)))])"
    using archive_end_fits [of "run_after ?b 0 CH_CONTENT ps" "run_headers ?fs" v] assms(2) unfolding g
    by (simp add: archive_prefix_append del: archive_prefix.simps)
  have pay: "frames_payload ?fs = concat (raw_chunks reads)" using slice_runs_payload [OF i n] by simp
  have ch: "\<forall>h\<in>set (run_headers ?fs). channel_type h = CH_CONTENT" using slice_runs_slices [OF i n] by simp
  have "ap_pushed p' = map frame_record ?fs @ [slice_boundary, done_record (word_of_nat (length ?fs))]"
    using p(3,4) ps(3,4) g by (auto simp: push_record_def split: if_splits)
  with a pay ch raw_loop_clean [OF p(1)] show ?thesis unfolding Let_def by blast
qed

theorem raw_frames_form_archive_witness:
  "\<exists>p' fs. produce_raw_frames [([1, 2], False), ([9], True)] 4096 [66] [65] 3 = Some p' \<and>
     ap_pushed p' = map frame_record fs @ [slice_boundary, done_record (word_of_nat (length fs))] \<and> frames_payload fs = [1, 2]"
proof -
  let ?p0 = "new_producer 4096 [66] [65] 3"
  have v: "valid_block_size 4096" by (simp add: valid_block_size_def min_block_size_def max_block_size_def)
  have i: "in_run ?p0 3 []" using v by (simp add: in_run_def new_producer_def new_frame_builder_def builder_ok_def)
  obtain p1 where p1: "feed_producer [1, 2] ?p0 = Some p1" "in_run p1 3 [1, 2]" using in_run_feed [OF i, of "[1, 2]"] by auto
  have "in_run p1 (Suc 2) [1, 2]" using p1(2) by (simp add: numeral_eq_Suc)
  from in_run_flush [OF this] obtain p2 where p2: "flush_producer p1 = Some p2" "in_run p2 2 []" by auto
  have "in_run p2 (Suc 1) []" using p2(2) by (simp add: numeral_eq_Suc)
  from in_run_push [OF this] obtain p3 where p3: "push_record slice_boundary p2 = Some p3" "in_run p3 1 []" by blast
  have "in_run p3 (Suc 0) []" using p3(2) by simp
  from in_run_push [OF this] obtain p4 where p4: "push_record (done_record (fb_global_seq (ap_builder p3))) p3 = Some p4" by blast
  have r: "produce_raw_frames [([1, 2], False), ([9], True)] 4096 [66] [65] 3 = Some p4"
    by (simp add: produce_raw_frames_def p1(1) p2(1) p3(1) p4 read_buffer_size_def)
  from raw_frames_form_archive [OF r v] obtain fs where fs: "ap_pushed p4 = map frame_record fs @ [slice_boundary, done_record (word_of_nat (length fs))]"
    "frames_payload fs = concat (raw_chunks [([1, 2], False), ([9], True)])" unfolding Let_def by blast
  have "frames_payload fs = [1, 2]" using fs(2) by (simp add: read_buffer_size_def)
  with r fs(1) show ?thesis by blast
qed

end
