(* ===== verification/PaxLocal.thy ===== *)
theory PaxLocal
  imports PaxArchiveSpec SpoolSpec
begin

text \<open>
  The local output of \<open>mt-pax\<close> (\<open>PaxOutputSession\<close> and \<open>write_pax_to_local_output\<close> in
  src/neotape_pax_writer.cpp): one file for all slices, or one file for each slice.

  Files are a map from paths to contents.  The results of the \<open>fopen\<close>, \<open>fwrite\<close> and \<open>fclose\<close>
  calls are a script; a used-up script succeeds.  What a failing call leaves in a file is not
  described, as it ends the program with an error.
\<close>

section \<open>The session\<close>

record local_output_options =
  lo_output_path :: string
  lo_slice_output_prefix :: "string option"

datatype output_file = To_stdout | To_path string

record output_session =
  os_file :: "output_file option"
  os_owned :: bool
  os_files :: "string \<Rightarrow> bytes option"
  os_stdout :: bytes
  os_calls :: "bool list"

definition call_succeeds :: "output_session \<Rightarrow> bool \<times> output_session" where
  "call_succeeds s = (case os_calls s of [] \<Rightarrow> (True, s) | ok # rest \<Rightarrow> (ok, s\<lparr>os_calls := rest\<rparr>))"

definition pax_slice_name :: "string \<Rightarrow> u64 \<Rightarrow> string" where
  "pax_slice_name base n = base @ pad6 (unat n) @ ''.pax''"

text \<open>\<open>fopen\<close> for writing empties the file.\<close>

definition open_local_output :: "string \<Rightarrow> output_session \<Rightarrow> output_session option" where
  "open_local_output path s =
    (case call_succeeds s of
       (ok, s) \<Rightarrow>
         if \<not> ok then None
         else Some (s\<lparr>os_file := Some (To_path path), os_owned := True, os_files := (os_files s)(path \<mapsto> [])\<rparr>))"

definition write_chunk :: "bytes \<Rightarrow> output_session \<Rightarrow> output_session option" where
  "write_chunk bs s =
    (case os_file s of
       None \<Rightarrow> None
     | Some f \<Rightarrow>
         (case call_succeeds s of
            (ok, s) \<Rightarrow>
              if \<not> ok then None
              else Some (case f of
                  To_stdout \<Rightarrow> s\<lparr>os_stdout := os_stdout s @ bs\<rparr>
                | To_path p \<Rightarrow> s\<lparr>os_files := (os_files s)(p \<mapsto> (case os_files s p of None \<Rightarrow> [] | Some old \<Rightarrow> old) @ bs)\<rparr>)))"

definition close_file :: "output_session \<Rightarrow> output_session option" where
  "close_file s =
    (if os_file s = None \<or> \<not> os_owned s then Some (s\<lparr>os_file := None, os_owned := False\<rparr>)
     else case call_succeeds s of
       (ok, s) \<Rightarrow> if ok then Some (s\<lparr>os_file := None, os_owned := False\<rparr>) else None)"

text \<open>\<open>callbacks()\<close>: what it opens at once, and the callbacks.\<close>

definition start_output :: "local_output_options \<Rightarrow> output_session \<Rightarrow> output_session option" where
  "start_output opts s =
    (if lo_slice_output_prefix opts \<noteq> None then Some s
     else if lo_output_path opts = ''-'' then Some (s\<lparr>os_file := Some To_stdout, os_owned := False\<rparr>)
     else open_local_output (lo_output_path opts) s)"

definition local_callbacks :: "local_output_options \<Rightarrow> output_session slice_callbacks" where
  "local_callbacks opts = \<lparr>
     cb_begin_slice = (\<lambda>n s. case lo_slice_output_prefix opts of None \<Rightarrow> Some s | Some base \<Rightarrow> open_local_output (pax_slice_name base n) s),
     cb_write_chunk = (\<lambda>n bs s. write_chunk bs s),
     cb_end_slice = (\<lambda>n s. case lo_slice_output_prefix opts of None \<Rightarrow> Some s | Some base \<Rightarrow> close_file s)\<rparr>"

definition finish_local_output :: "local_output_options \<Rightarrow> output_session \<Rightarrow> output_session option" where
  "finish_local_output opts s =
    (if lo_slice_output_prefix opts \<noteq> None then (if os_file s = None then Some s else close_file s)
     else if os_file s \<noteq> None \<and> os_owned s then
       (case call_succeeds s of (ok, s) \<Rightarrow> if ok then Some (s\<lparr>os_file := None, os_owned := False\<rparr>) else None)
     else Some (s\<lparr>os_file := None, os_owned := False\<rparr>))"

definition output_target :: "local_output_options \<Rightarrow> string" where
  "output_target opts = (case lo_slice_output_prefix opts of Some base \<Rightarrow> base | None \<Rightarrow> lo_output_path opts)"

definition write_pax_to_local_output ::
  "(bytes \<Rightarrow> bytes) \<Rightarrow> ('e, 'w, 'r) archive_env \<Rightarrow> pax_writer_options \<Rightarrow> local_output_options \<Rightarrow> output_session \<Rightarrow>
   pax_thread list list \<Rightarrow> ((pax_write_result \<times> string) \<times> output_session) option" where
  "write_pax_to_local_output H env opts out s schedules =
    (case start_output out s of
       None \<Rightarrow> None
     | Some s \<Rightarrow>
         (case write_pax_archive H env opts (local_callbacks out) s schedules of
            Inl e \<Rightarrow> None
          | Inr (res, s) \<Rightarrow> (case finish_local_output out s of None \<Rightarrow> None | Some s \<Rightarrow> Some ((res, output_target out), s))))"

section \<open>What is in the files\<close>

lemma call_succeeds_fields:
  "call_succeeds s = (ok, s') \<Longrightarrow> os_files s' = os_files s \<and> os_stdout s' = os_stdout s \<and> os_file s' = os_file s \<and> os_owned s' = os_owned s"
  by (auto simp: call_succeeds_def split: list.splits)

lemma open_output_fields:
  "open_local_output path s = Some s' \<Longrightarrow> os_file s' = Some (To_path path) \<and> os_files s' = (os_files s)(path \<mapsto> []) \<and>
     os_stdout s' = os_stdout s \<and> os_owned s'"
  by (auto simp: open_local_output_def dest: call_succeeds_fields split: prod.splits if_splits)

lemma close_file_fields: "close_file s = Some s' \<Longrightarrow> os_files s' = os_files s \<and> os_stdout s' = os_stdout s \<and> os_file s' = None"
  by (auto simp: close_file_def dest: call_succeeds_fields split: prod.splits if_splits)

lemma write_chunk_path:
  assumes "write_chunk bs s = Some s'" and "os_file s = Some (To_path p)" and "os_files s p = Some old"
  shows "os_files s' = (os_files s)(p \<mapsto> old @ bs) \<and> os_file s' = Some (To_path p) \<and> os_owned s' = os_owned s"
  using assms by (auto simp: write_chunk_def dest!: call_succeeds_fields split: prod.splits if_splits)

lemma pass_chunks_path:
  assumes "pass_chunks (local_callbacks out) n chunks s = Some s'" and "os_file s = Some (To_path p)" and "os_files s p = Some old"
  shows "os_files s' = (os_files s)(p \<mapsto> old @ concat chunks) \<and> os_file s' = Some (To_path p) \<and> os_owned s' = os_owned s"
  using assms
proof (induction chunks arbitrary: s old)
  case (Cons bs chunks)
  then obtain q where q: "write_chunk bs s = Some q" "pass_chunks (local_callbacks out) n chunks q = Some s'"
    by (auto simp: local_callbacks_def split: option.splits)
  note w = write_chunk_path [OF q(1) Cons.prems(2,3)]
  from Cons.IH [OF q(2), of "old @ bs"] w show ?case by (simp add: fun_eq_iff)
qed (simp add: fun_upd_idem)

text \<open>One file for each slice: the last one of a name wins.\<close>

lemma served_slice_file:
  assumes "served (local_callbacks out) x s s'" and "lo_slice_output_prefix out = Some base"
  shows "os_files s' = (os_files s)(pax_slice_name base (fst x) \<mapsto> snd x) \<and> os_file s' = None"
proof -
  from assms obtain s1 chunks s2 where s: "open_local_output (pax_slice_name base (fst x)) s = Some s1" "concat chunks = snd x"
    "pass_chunks (local_callbacks out) (fst x) chunks s1 = Some s2" "close_file s2 = Some s'"
    by (auto simp: served_def local_callbacks_def)
  from pass_chunks_path [OF s(3), of "pax_slice_name base (fst x)" "[]"] open_output_fields [OF s(1)] close_file_fields [OF s(4)] s(2)
  show ?thesis by (simp add: fun_upd_upd)
qed

lemma pax_slice_name_inj: "pax_slice_name base i = pax_slice_name base j \<Longrightarrow> i = j"
proof -
  assume "pax_slice_name base i = pax_slice_name base j"
  then have "pad6 (unat i) = pad6 (unat j)" by (simp add: pax_slice_name_def)
  then have "digits_value (pad6 (unat i)) = digits_value (pad6 (unat j))" by simp
  then show "i = j" unfolding pad6_digits word_unat_eq_iff .
qed

lemma serves_slice_files:
  assumes "serves (local_callbacks out) xs s s'" and "lo_slice_output_prefix out = Some base"
  shows "distinct (map fst xs) \<Longrightarrow> x \<in> set xs \<Longrightarrow> os_files s' (pax_slice_name base (fst x)) = Some (snd x)"
    and "p \<notin> pax_slice_name base ` fst ` set xs \<Longrightarrow> os_files s' p = os_files s p"
proof -
  have "(p \<notin> pax_slice_name base ` fst ` set xs \<longrightarrow> os_files s' p = os_files s p) \<and>
      (distinct (map fst xs) \<longrightarrow> (\<forall>x\<in>set xs. os_files s' (pax_slice_name base (fst x)) = Some (snd x)))" for p
    using assms(1)
  proof (induction xs arbitrary: s p)
    case (Cons y ys)
    then obtain s1 where s1: "served (local_callbacks out) y s s1" "serves (local_callbacks out) ys s1 s'" by auto
    note f = served_slice_file [OF s1(1) assms(2)]
    have "os_files s' (pax_slice_name base (fst y)) = Some (snd y)" if "fst y \<notin> fst ` set ys"
      using Cons.IH [OF s1(2), of "pax_slice_name base (fst y)"] f that pax_slice_name_inj by auto
    with Cons.IH [OF s1(2)] f show ?case by auto
  qed simp
  then show "distinct (map fst xs) \<Longrightarrow> x \<in> set xs \<Longrightarrow> os_files s' (pax_slice_name base (fst x)) = Some (snd x)"
    "p \<notin> pax_slice_name base ` fst ` set xs \<Longrightarrow> os_files s' p = os_files s p" by blast+
qed

text \<open>One file for all slices.\<close>

lemma serves_one_file:
  assumes "serves (local_callbacks out) xs s s'" and "lo_slice_output_prefix out = None"
    and "os_file s = Some (To_path p)" and "os_files s p = Some old"
  shows "os_files s' = (os_files s)(p \<mapsto> old @ concat (map snd xs)) \<and> os_file s' = Some (To_path p)"
  using assms(1,3,4)
proof (induction xs arbitrary: s old)
  case (Cons x xs)
  then obtain s1 where s1: "served (local_callbacks out) x s s1" "serves (local_callbacks out) xs s1 s'" by auto
  from s1(1) assms(2) obtain chunks where c: "concat chunks = snd x" "pass_chunks (local_callbacks out) (fst x) chunks s = Some s1"
    by (auto simp: served_def local_callbacks_def)
  note w = pass_chunks_path [OF c(2) Cons.prems(2,3)]
  from Cons.IH [OF s1(2), of "old @ snd x"] w c(1) show ?case by (simp add: fun_eq_iff)
qed (simp add: fun_upd_idem)

lemma finish_output_files: "finish_local_output out s = Some s' \<Longrightarrow> os_files s' = os_files s"
  by (auto simp: finish_local_output_def dest: call_succeeds_fields close_file_fields split: prod.splits if_splits)

text \<open>C34. Local output.  If \<open>mt-pax\<close> writes a plan without an error, then with a slice prefix the file
  of each slice holds exactly its stream, no other file is changed, and the printed hash is that of the
  slice files in order; without one the output file holds all streams and the hash is its hash.\<close>
theorem local_output_follows_plan:
  assumes "write_pax_to_local_output H env opts out s schedules = Some ((res, target), s')" and "plan_groups env opts = Some (cwd, gs, held)"
    and "headers_fit (ae_pax env cwd)" and "length (concat (map snd gs) @ held) < 2 ^ 64" and "lo_output_path out \<noteq> ''-''"
  shows "let streams = archive_streams (ae_pax env cwd) gs held in
    pr_blake3_hex res = hex_encode (H (concat (map snd streams))) \<and>
    (case lo_slice_output_prefix out of
       None \<Rightarrow> os_files s' = (os_files s)(lo_output_path out \<mapsto> concat (map snd streams))
     | Some base \<Rightarrow> (\<forall>x\<in>set streams. os_files s' (pax_slice_name base (fst x)) = Some (snd x)) \<and>
         (\<forall>p. p \<notin> pax_slice_name base ` fst ` set streams \<longrightarrow> os_files s' p = os_files s p))"
proof -
  let ?streams = "archive_streams (ae_pax env cwd) gs held"
  from assms(1) obtain s1 s2 where s: "start_output out s = Some s1"
    "write_pax_archive H env opts (local_callbacks out) s1 schedules = Inr (res, s2)" "finish_local_output out s2 = Some s'"
    by (auto simp: write_pax_to_local_output_def split: option.splits sum.splits)
  note a = plan_archive_served [OF s(2) assms(2-4)]
  note f = finish_output_files [OF s(3)]
  have "distinct (map fst ?streams)"
  proof -
    have "inj_on (\<lambda>i. fst (?streams ! i)) {..<length ?streams}"
      by (rule inj_onI) (metis a(2) fst_archive_streams length_archive_streams lessThan_iff)
    then show ?thesis by (auto simp: distinct_conv_nth inj_on_def)
  qed
  note d = this
  show ?thesis
  proof (cases "lo_slice_output_prefix out")
    case None
    with s(1) assms(5) have "open_local_output (lo_output_path out) s = Some s1" by (simp add: start_output_def)
    note o = open_output_fields [OF this]
    from serves_one_file [OF a(1) None, of "lo_output_path out" "[]"] o None f a(4) show ?thesis by (simp add: Let_def fun_upd_upd)
  next
    case (Some base)
    with s(1) have "s1 = s" by (simp add: start_output_def)
    with serves_slice_files [OF a(1) Some] d Some f a(4) show ?thesis by (auto simp: Let_def)
  qed
qed

definition sample_session :: output_session where
  "sample_session = \<lparr>os_file = None, os_owned = False, os_files = (\<lambda>_. None), os_stdout = [], os_calls = []\<rparr>"

definition sample_slices :: local_output_options where
  "sample_slices = \<lparr>lo_output_path = ''o'', lo_slice_output_prefix = Some ''s''\<rparr>"

theorem local_output_follows_plan_witness:
  "\<exists>res s'. write_pax_to_local_output (take 2) sample_archive sample_writer sample_slices sample_session [dir_schedule False, dir_schedule True] =
      Some ((res, ''s''), s') \<and> os_files s' ''s000000.pax'' = Some [5] \<and> os_files s' ''s000001.pax'' = Some (6 # replicate 1024 0) \<and>
      pr_blake3_hex res = ''0506''"
proof -
  let ?cb = "local_callbacks sample_slices"
  let ?f = "\<lambda>n. pax_slice_name ''s'' n"
  let ?o = "\<lambda>m p. sample_session\<lparr>os_file := p, os_owned := p \<noteq> None, os_files := m\<rparr>"
  note d = local_callbacks_def sample_slices_def open_local_output_def write_chunk_def close_file_def call_succeeds_def sample_session_def
  obtain res where r: "write_pax_archive (take 2) sample_archive sample_writer ?cb sample_session [dir_schedule False, dir_schedule True] =
      Inr (res, ?o [?f 0 \<mapsto> [5], ?f 1 \<mapsto> 6 # replicate 1024 0] None)"
    using sample_archive_written [of ?cb sample_session "?o [?f 0 \<mapsto> []] (Some (To_path (?f 0)))" "?o [?f 0 \<mapsto> [5]] (Some (To_path (?f 0)))"
        "?o [?f 0 \<mapsto> [5]] None" "?o [?f 0 \<mapsto> [5], ?f 1 \<mapsto> []] (Some (To_path (?f 1)))" "?o [?f 0 \<mapsto> [5], ?f 1 \<mapsto> [6]] (Some (To_path (?f 1)))"
        "?o [?f 0 \<mapsto> [5], ?f 1 \<mapsto> 6 # replicate 1024 0] (Some (To_path (?f 1)))" "?o [?f 0 \<mapsto> [5], ?f 1 \<mapsto> 6 # replicate 1024 0] None" "take 2"]
    by (auto simp: d)
  then have w: "write_pax_to_local_output (take 2) sample_archive sample_writer sample_slices sample_session [dir_schedule False, dir_schedule True] =
      Some ((res, ''s''), ?o [?f 0 \<mapsto> [5], ?f 1 \<mapsto> 6 # replicate 1024 0] None)"
    by (simp add: write_pax_to_local_output_def start_output_def finish_local_output_def output_target_def sample_slices_def)
  have st: "archive_streams (ae_pax sample_archive ''/'') [(0, [5]), (1, [6])] [] = [(0, [5]), (1, 6 # replicate 1024 0)]"
    by (simp add: archive_streams_def slice_stream_def pax_stream_def dir_env_facts sample_archive_def)
  have f: "headers_fit (ae_pax sample_archive ''/'')" by (simp add: sample_archive_def dir_env_facts)
  have n: "?f 0 = ''s000000.pax''" "?f 1 = ''s000001.pax''" by code_simp+
  have p: "lo_output_path sample_slices \<noteq> ''-''" "lo_slice_output_prefix sample_slices = Some ''s''" by (simp_all add: sample_slices_def)
  from local_output_follows_plan [OF w sample_groups f _ p(1)] w show ?thesis
    by (intro exI [of _ res] exI [of _ "?o [?f 0 \<mapsto> [5], ?f 1 \<mapsto> 6 # replicate 1024 0] None"])
      (simp add: st p(2) n Let_def hex_encode_def hex_digit_def)
qed

end
