(* ===== verification/RecordSource.thy ===== *)
theory RecordSource
  imports SpoolSpec
begin

text \<open>
  What the commands that read a medium rely on: a \<open>RecordReader\<close> (src/neotape_media.cpp) is
  a pair of functions, \<open>next()\<close> and \<open>skip_file()\<close>, over the reader of a spool or of a tape.

  Two contracts are stated as locales.  A \<open>finite_source\<close> ends after a known number of calls; a
  \<open>medium\<close> stands before the rest of a list of tape files and gives back their records.
  The spool reader is interpreted in both, a tape reader on a drive that
  obeys its documentation in the second.
\<close>

section \<open>Sources\<close>

text \<open>\<open>Never_returns\<close> is not an outcome of the code: it stands for calls that do not end within
  the number of steps the model allows them.\<close>

datatype source_error = Media_failure media_error | Never_returns

record 'r record_source =
  rs_next :: "'r \<Rightarrow> source_error + media_record \<times> 'r"
  rs_skip :: "'r \<Rightarrow> source_error + 'r"

definition media_result :: "media_error + 'a \<Rightarrow> source_error + 'a" where
  "media_result x = (case x of Inl e \<Rightarrow> Inl (Media_failure e) | Inr a \<Rightarrow> Inr a)"

definition spool_source :: "(bytes \<Rightarrow> bytes) \<Rightarrow> spool_reader record_source" where
  "spool_source H = \<lparr>rs_next = (\<lambda>r. media_result (spool_next H r)), rs_skip = (\<lambda>r. media_result (spool_skip_file r))\<rparr>"

definition tape_source :: "nat \<Rightarrow> (bytes \<Rightarrow> bytes) \<Rightarrow> string \<Rightarrow> 'd tape_drive \<Rightarrow> 'd tape_reader record_source" where
  "tape_source n H name drv = \<lparr>
     rs_next = (\<lambda>r. case tape_next n H name drv r of None \<Rightarrow> Inl Never_returns | Some x \<Rightarrow> media_result x),
     rs_skip = (\<lambda>r. media_result (tape_skip_file drv r))\<rparr>"

lemma media_result_simps [simp]: "media_result (Inl e) = Inl (Media_failure e)" "media_result (Inr a) = Inr a"
  "media_result x = Inr a \<longleftrightarrow> x = Inr a"
  by (auto simp: media_result_def split: sum.splits)

lemma source_simps [simp]:
  "rs_next (spool_source H) r = media_result (spool_next H r)" "rs_skip (spool_source H) r = media_result (spool_skip_file r)"
  by (simp_all add: spool_source_def)

section \<open>Sources that end\<close>

text \<open>\<open>wf\<close>: the states that a reader can be in; \<open>calls_left\<close>: a bound on the calls before the end.\<close>

locale finite_source =
  fixes src :: "'r record_source" and wf :: "'r \<Rightarrow> bool" and calls_left :: "'r \<Rightarrow> nat"
  assumes next_left: "wf r \<Longrightarrow> rs_next src r = Inr (m, r') \<Longrightarrow>
      wf r' \<and> calls_left r' \<le> calls_left r \<and> (mr_event m \<noteq> Ev_end \<longrightarrow> calls_left r' < calls_left r)"
    and skip_left: "wf r \<Longrightarrow> rs_skip src r = Inr r' \<Longrightarrow> wf r' \<and> calls_left r' \<le> calls_left r"
    and next_returns: "wf r \<Longrightarrow> rs_next src r \<noteq> Inl Never_returns"
    and skip_returns: "wf r \<Longrightarrow> rs_skip src r \<noteq> Inl Never_returns"

fun read_weight :: "read_result \<Rightarrow> nat" where
  "read_weight (Chunk bs) = Suc (length bs)"
| "read_weight r = 1"

definition stream_weight :: "read_result list \<Rightarrow> nat" where
  "stream_weight fd = sum_list (map read_weight fd)"

definition entry_weight :: "spool_entry \<Rightarrow> nat" where
  "entry_weight e = (case se_reads e of None \<Rightarrow> 1 | Some fd \<Rightarrow> Suc (stream_weight fd))"

definition spool_left :: "spool_reader \<Rightarrow> nat" where
  "spool_left r = (if sr_ended r then 0
     else Suc (case sr_fd r of None \<Rightarrow> 0 | Some fd \<Rightarrow> stream_weight fd) + sum_list (map entry_weight (drop (Suc (sr_index r)) (sr_files r))))"

definition spool_reader_ok :: "spool_reader \<Rightarrow> bool" where
  "spool_reader_ok r \<longleftrightarrow> sr_ended r \<or> sr_index r < length (sr_files r)"

lemma read_exact_weight: "read_exact fd n = Inr (bs, fd') \<Longrightarrow> stream_weight fd' + length bs \<le> stream_weight fd"
proof (induction fd n arbitrary: bs fd' rule: read_exact.induct)
  case (2 r rs n)
  show ?case
  proof (cases "n = 0")
    case False
    show ?thesis
    proof (cases r)
      case (Chunk c)
      show ?thesis
      proof (cases "c \<noteq> [] \<and> length c \<le> n")
        case True
        with 2(3) False Chunk obtain got where "read_exact rs (n - length c) = Inr (got, fd')" "bs = c @ got"
          by (auto simp: bind_res_Inr)
        with 2(1) [OF False Chunk] True Chunk show ?thesis by (fastforce simp: stream_weight_def)
      qed (use 2(3) False Chunk in \<open>auto simp: stream_weight_def split: if_splits\<close>)
    qed (use 2 False in \<open>auto simp: stream_weight_def\<close>)
  qed (use 2 in simp)
qed (simp add: stream_weight_def)

lemma read_stream_weight: "read_stream fd n = Inr (bs, fd') \<Longrightarrow> stream_weight fd' + length bs \<le> stream_weight fd"
  by (auto simp: read_stream_def dest: read_exact_weight split: sum.splits)

lemma open_spool_left:
  assumes "open_spool r = Inr r'" and "\<not> sr_ended r" and "sr_index r \<le> length (sr_files r)"
  shows "spool_reader_ok r' \<and> spool_left r' \<le> sum_list (map entry_weight (drop (sr_index r) (sr_files r)))"
proof (cases "sr_index r = length (sr_files r)")
  case True
  with assms show ?thesis by (auto simp: open_spool_def spool_left_def spool_reader_ok_def)
next
  case False
  with assms obtain fd where fd: "se_reads (sr_files r ! sr_index r) = Some fd" "sr_fd r' = Some fd" "sr_files r' = sr_files r"
    "sr_index r' = sr_index r" "sr_ended r' = sr_ended r"
    by (auto simp: open_spool_def Let_def bind_res_Inr split: option.splits)
  have "drop (sr_index r) (sr_files r) = sr_files r ! sr_index r # drop (Suc (sr_index r)) (sr_files r)"
    using False assms(3) by (simp add: Cons_nth_drop_Suc)
  then show ?thesis using assms False fd by (simp add: spool_left_def spool_reader_ok_def entry_weight_def)
qed

lemma spool_skip_left:
  assumes "spool_reader_ok r" and "spool_skip_file r = Inr r'"
  shows "spool_reader_ok r' \<and> (if sr_ended r then spool_left r' = 0 else spool_left r' < spool_left r)"
proof (cases "sr_ended r")
  case False
  let ?q = "r\<lparr>sr_fd := None, sr_index := Suc (sr_index r)\<rparr>"
  have "open_spool ?q = Inr r'" using assms(2) False by (simp add: spool_skip_file_def)
  from open_spool_left [OF this] show ?thesis using assms(1) False by (auto simp: spool_reader_ok_def spool_left_def)
qed (use assms in \<open>auto simp: spool_skip_file_def spool_left_def\<close>)

lemma spool_next_left:
  assumes "spool_reader_ok r" and "spool_next H r = Inr (m, r')"
  shows "spool_reader_ok r' \<and> (if sr_ended r then mr_event m = Ev_end \<and> r' = r else spool_left r' < spool_left r)"
proof (cases "sr_ended r")
  case False
  with assms(2) obtain fd hdr fd1 where fd: "sr_fd r = Some fd" "read_stream fd fixed_header_size = Inr (hdr, fd1)"
    by (auto simp: spool_next_def bind_res_Inr Let_def split: option.splits)
  note w = read_stream_weight [OF fd(2)]
  show ?thesis
  proof (cases "hdr = []")
    case True
    with assms(2) False fd have "spool_skip_file (r\<lparr>sr_fd := Some fd1\<rparr>) = Inr r'" by (auto simp: spool_next_def bind_res_Inr Let_def)
    from spool_skip_left [OF _ this] assms(1) False w fd(1) show ?thesis by (simp add: spool_reader_ok_def spool_left_def)
  next
    case hdr: False
    with assms(2) False fd obtain rest fd2 size where r: "read_stream fd1 (unat size - fixed_header_size) = Inr (rest, fd2)"
      "r' = r\<lparr>sr_fd := Some fd2, sr_block_size := size\<rparr> \<or> r' = r\<lparr>sr_fd := Some fd2, sr_block_size := 0\<rparr>"
      by (auto simp: spool_next_def bind_res_Inr Let_def split: if_splits option.splits)
    from read_stream_weight [OF r(1)] w hdr r(2) assms(1) False fd(1) show ?thesis
      by (cases hdr) (auto simp: spool_reader_ok_def spool_left_def)
  qed
qed (use assms in \<open>auto simp: spool_next_def end_record_def\<close>)

interpretation spool: finite_source "spool_source H" spool_reader_ok spool_left
proof
  show "rs_next (spool_source H) r \<noteq> Inl Never_returns" "rs_skip (spool_source H) r \<noteq> Inl Never_returns" for r
    by (simp_all add: media_result_def split: sum.splits)
next
  fix r m r' assume "spool_reader_ok r" "rs_next (spool_source H) r = Inr (m, r')"
  with spool_next_left [of r H m r']
  show "spool_reader_ok r' \<and> spool_left r' \<le> spool_left r \<and> (mr_event m \<noteq> Ev_end \<longrightarrow> spool_left r' < spool_left r)"
    by (auto split: if_splits)
next
  fix r r' assume "spool_reader_ok r" "rs_skip (spool_source H) r = Inr r'"
  with spool_skip_left [of r r'] show "spool_reader_ok r' \<and> spool_left r' \<le> spool_left r"
    by (auto split: if_splits)
qed

lemma new_spool_reader_ok:
  assumes "new_spool_reader es = Inr r"
  shows "spool_reader_ok r"
  using assms open_spool_left by (fastforce simp: new_spool_reader_def bind_res_Inr split: if_splits)

section \<open>Media\<close>

text \<open>A reader at a place of a volume: the number of the tape file it is in, the records of that file
  still to come, and the files behind it.\<close>

locale medium =
  fixes src :: "'r record_source" and at :: "nat \<Rightarrow> bytes list list \<Rightarrow> 'r \<Rightarrow> bool"
  assumes at_record: "at k ((rec # recs) # files) r \<Longrightarrow> \<exists>m r'. rs_next src r = Inr (m, r') \<and>
      mr_event m = Ev_record \<and> mr_record m = rec \<and> mr_file_num m = word_of_nat k \<and> at k (recs # files) r'"
    and at_filemark: "at k ([] # files) r \<Longrightarrow> \<exists>m r'. rs_next src r = Inr (m, r') \<and> mr_event m = Ev_filemark \<and> at (Suc k) files r'"
    and at_end: "at k [] r \<Longrightarrow> \<exists>m r'. rs_next src r = Inr (m, r') \<and> mr_event m = Ev_end \<and> at k [] r'"
    and at_skip: "at k (recs # files) r \<Longrightarrow> \<exists>r'. rs_skip src r = Inr r' \<and> at (Suc k) files r'"

text \<open>A spool reader at a place of a volume that a writer has left.\<close>

definition records_of :: "(bytes \<Rightarrow> bytes) \<Rightarrow> u32 \<Rightarrow> frame_header \<Rightarrow> bytes list \<Rightarrow> bool" where
  "records_of H block h0 recs \<longleftrightarrow>
     (\<forall>rec \<in> set recs. \<exists>h. intact_header H rec = Some h \<and> decoded_block_size h = block \<and> slice_of h = slice_of h0)"

definition files_behind :: "(bytes \<Rightarrow> bytes) \<Rightarrow> u32 \<Rightarrow> nat \<Rightarrow> bytes list list \<Rightarrow> spool_reader \<Rightarrow> bool" where
  "files_behind H block k files r \<longleftrightarrow> list_all (tape_file_ok H block) files \<and> length (sr_files r) = k + length files \<and>
     (\<forall>i < length files. entry_holds H (k + i) (files ! i) (sr_files r ! (k + i)))"

definition spool_at :: "(bytes \<Rightarrow> bytes) \<Rightarrow> u32 \<Rightarrow> nat \<Rightarrow> bytes list list \<Rightarrow> spool_reader \<Rightarrow> bool" where
  "spool_at H block k files r \<longleftrightarrow> (case files of
       [] \<Rightarrow> sr_ended r
     | recs # rest \<Rightarrow> files_behind H block (Suc k) rest r \<and>
         (\<exists>h0. reading block k (spool_final_name (word_of_nat k) h0) (concat recs) r \<and> records_of H block h0 recs))"

lemma tape_file_records: "tape_file_ok H block recs \<Longrightarrow> records_of H block (first_header H recs) recs"
  by (auto simp: records_of_def elim!: tape_file_headers)

lemma files_behind_tl:
  assumes "files_behind H block k (recs # files) r" and "sr_files r' = sr_files r"
  shows "files_behind H block (Suc k) files r'"
  using assms by (auto simp: files_behind_def)

lemma open_spool_at:
  assumes "files_behind H block k files r" and "sr_index r = k" and "\<not> sr_ended r" and "sr_block_size r \<in> {0, block}"
  shows "\<exists>r'. open_spool r = Inr r' \<and> spool_at H block k files r'"
proof (cases files)
  case Nil
  with assms show ?thesis by (auto simp: files_behind_def open_spool_def spool_at_def)
next
  case (Cons recs rest)
  have "entry_holds H (sr_index r) recs (sr_files r ! sr_index r)" "sr_index r < length (sr_files r)"
    using assms(1,2) Cons by (force simp: files_behind_def)+
  from open_spool_reading [OF this(2,1) assms(3,4)] obtain r' where r': "open_spool r = Inr r'"
    "reading block k (file_name H k recs) (concat recs) r'" "sr_files r' = sr_files r" unfolding assms(2) by blast
  moreover have "records_of H block (first_header H recs) recs"
    using assms(1) Cons by (intro tape_file_records) (simp add: files_behind_def)
  ultimately show ?thesis using files_behind_tl assms(1) Cons unfolding file_name_def by (fastforce simp: spool_at_def)
qed

interpretation spool_medium: medium "spool_source H" "spool_at H block"
proof
  fix k rec recs files r assume "spool_at H block k ((rec # recs) # files) r"
  then obtain h0 where a: "files_behind H block (Suc k) files r" "records_of H block h0 (rec # recs)"
    "reading block k (spool_final_name (word_of_nat k) h0) (rec @ concat recs) r" by (auto simp: spool_at_def)
  from a(2) obtain h where h: "intact_header H rec = Some h" "decoded_block_size h = block" "slice_of h = slice_of h0"
    by (auto simp: records_of_def)
  from spool_next_record [OF a(3) h(1,2) name_agrees_final [OF h(3)]] obtain r' where
    r': "spool_next H r = Inr (record_event (spool_final_name (word_of_nat k) h0) k rec, r')"
    "reading block k (spool_final_name (word_of_nat k) h0) (concat recs) r'" "sr_files r' = sr_files r" by blast
  have "records_of H block h0 recs" using a(2) by (simp add: records_of_def)
  with r' a(1) have "spool_at H block k (recs # files) r'" by (auto simp: spool_at_def files_behind_def)
  with r'(1) show "\<exists>m r'. rs_next (spool_source H) r = Inr (m, r') \<and> mr_event m = Ev_record \<and> mr_record m = rec \<and>
      mr_file_num m = word_of_nat k \<and> spool_at H block k (recs # files) r'" by (auto simp: record_event_def)
next
  fix k files r assume "spool_at H block k ([] # files) r"
  then obtain h0 where a: "files_behind H block (Suc k) files r" "reading block k (spool_final_name (word_of_nat k) h0) [] r"
    by (auto simp: spool_at_def)
  let ?q = "r\<lparr>sr_fd := None, sr_index := Suc k\<rparr>"
  have "files_behind H block (Suc k) files ?q" using a(1) by (simp add: files_behind_def)
  then obtain r' where "open_spool ?q = Inr r'" "spool_at H block (Suc k) files r'"
    using open_spool_at [of H block "Suc k" files ?q] a(2) by (auto simp: reading_def)
  with spool_next_filemark [OF a(2), of H]
  show "\<exists>m r'. rs_next (spool_source H) r = Inr (m, r') \<and> mr_event m = Ev_filemark \<and> spool_at H block (Suc k) files r'"
    by (auto simp: filemark_event_def)
next
  fix k r assume "spool_at H block k [] r"
  then show "\<exists>m r'. rs_next (spool_source H) r = Inr (m, r') \<and> mr_event m = Ev_end \<and> spool_at H block k [] r'"
    by (auto simp: spool_at_def spool_next_def end_record_def)
next
  fix k recs files r assume "spool_at H block k (recs # files) r"
  then obtain h0 where a: "files_behind H block (Suc k) files r" "reading block k (spool_final_name (word_of_nat k) h0) (concat recs) r"
    by (auto simp: spool_at_def)
  let ?q = "r\<lparr>sr_fd := None, sr_index := Suc k\<rparr>"
  have "files_behind H block (Suc k) files ?q" using a(1) by (simp add: files_behind_def)
  then obtain r' where "open_spool ?q = Inr r'" "spool_at H block (Suc k) files r'"
    using open_spool_at [of H block "Suc k" files ?q] a(2) by (auto simp: reading_def)
  then show "\<exists>r'. rs_skip (spool_source H) r = Inr r' \<and> spool_at H block (Suc k) files r'"
    using a(2) by (auto simp: spool_skip_file_def reading_def)
qed

text \<open>A directory that holds a volume, and its reader.\<close>

definition spool_volume :: "(bytes \<Rightarrow> bytes) \<Rightarrow> u32 \<Rightarrow> bytes list list \<Rightarrow> spool_entry list \<Rightarrow> bool" where
  "spool_volume H block files es \<longleftrightarrow> list_all (tape_file_ok H block) files \<and> length files \<le> 2 ^ 64 \<and>
     (\<exists>dir. listing es dir \<and> (\<forall>n. parse_spool_file_name n \<noteq> Inr None \<longrightarrow> dir n = map_of (named H files) n))"

lemma spool_volume_reader:
  assumes "spool_volume H block files es"
  shows "\<exists>r. new_spool_reader (Some es) = Inr r \<and> spool_at H block 0 files r"
proof -
  from assms obtain dir where d: "listing es dir" "\<forall>n. parse_spool_file_name n \<noteq> Inr None \<longrightarrow> dir n = map_of (named H files) n"
    "length files \<le> 2 ^ 64" "list_all (tape_file_ok H block) files" by (auto simp: spool_volume_def)
  from scan_volume [OF d(1-3)] obtain fs where fs: "scan_spool_files (Some es) = Inr fs"
    "map se_name fs = volume_names H files" "set fs \<subseteq> set es" "\<forall>e \<in> set fs. se_regular e" .
  let ?r = "\<lparr>sr_files = fs, sr_index = 0, sr_file_num = 0, sr_fd = None, sr_ended = False, sr_block_size = 0\<rparr>"
  have "length fs = length files" using arg_cong [OF fs(2), of length] by (simp add: volume_names_def)
  then have "files_behind H block 0 files ?r"
    using volume_entries [OF d(1,2) fs(2-4) _ d(3)] d(4) by (simp add: files_behind_def)
  from open_spool_at [OF this] show ?thesis by (simp add: new_spool_reader_def fs(1))
qed

lemma written_spool_volume:
  assumes "new_spool_device entries dir True writes faults = (None, d0)" and "listing entries dir"
    and "\<forall>n. dir n \<noteq> None \<longrightarrow> parse_spool_file_name n = Inr None"
    and "write_files files d0 = (None, d1)" and "list_all (tape_file_ok H block) files" and "length files \<le> 2 ^ 64"
    and "listing es (sd_dir (destroy_spool d1))"
  shows "spool_volume H block files es"
proof -
  have "writing H files [] d1"
    using write_files_writing [OF assms(4) new_device_writing [OF assms(1-3)] assms(5)] assms(6) by simp
  from destroyed [OF this] have "\<forall>n. parse_spool_file_name n \<noteq> Inr None \<longrightarrow> sd_dir (destroy_spool d1) n = map_of (named H files) n"
    by (simp add: stores_def)
  with assms(5-7) show ?thesis by (auto simp: spool_volume_def)
qed

section \<open>A tape\<close>

text \<open>
  A drive that works: a read returns the next record, or nothing at a filemark and at the end of the
  recorded data, where it reports that end from then on; a record longer than the buffer is an
  error.  The list is what lies before the head.
\<close>

record ideal_tape =
  it_rest :: "bytes list list"
  it_eod :: bool
  it_file :: int
  it_block :: int

definition ideal_read :: "ideal_tape \<Rightarrow> nat \<Rightarrow> tape_read \<times> ideal_tape" where
  "ideal_read d n = (case it_rest d of
       [] \<Rightarrow> (Tape_bytes [], d\<lparr>it_eod := True\<rparr>)
     | [] # files \<Rightarrow> (Tape_bytes [], d\<lparr>it_rest := files, it_file := it_file d + 1, it_block := 0\<rparr>)
     | (rec # recs) # files \<Rightarrow>
         if length rec > n then (Tape_other_error, d)
         else (Tape_bytes rec, d\<lparr>it_rest := recs # files, it_block := it_block d + 1\<rparr>))"

definition ideal_space_file :: "ideal_tape \<Rightarrow> bool \<times> ideal_tape" where
  "ideal_space_file d = (case it_rest d of
       [] \<Rightarrow> (False, d\<lparr>it_eod := True\<rparr>)
     | _ # files \<Rightarrow> (True, d\<lparr>it_rest := files, it_file := it_file d + 1, it_block := 0\<rparr>))"

definition ideal_space_record :: "ideal_tape \<Rightarrow> bool \<times> ideal_tape" where
  "ideal_space_record d = (case it_rest d of
       (rec # recs) # files \<Rightarrow> (True, d\<lparr>it_rest := recs # files, it_block := it_block d + 1\<rparr>)
     | _ \<Rightarrow> (False, d))"

definition ideal_drive :: "ideal_tape tape_drive" where
  "ideal_drive = \<lparr>dr_status = (\<lambda>d. (Some \<lparr>ts_eod = it_eod d, ts_fileno = it_file d, ts_blkno = it_block d\<rparr>, d)),
     dr_read = ideal_read, dr_space_file = ideal_space_file, dr_space_record = ideal_space_record\<rparr>"

definition loaded_tape :: "bytes list list \<Rightarrow> ideal_tape" where
  "loaded_tape files = \<lparr>it_rest = files, it_eod = False, it_file = 0, it_block = 0\<rparr>"

text \<open>Records of at most the maximal size; behind an intact frame none is longer than its blocks, as the reader
  then reads with a smaller buffer.\<close>

fun tape_records :: "(bytes \<Rightarrow> bytes) \<Rightarrow> u32 \<Rightarrow> bytes list \<Rightarrow> bool" where
  "tape_records H block [] = True"
| "tape_records H block (rec # recs) =
    (rec \<noteq> [] \<and> length rec \<le> max_tape_record \<and> tape_records H block recs \<and>
     (case intact_header H rec of None \<Rightarrow> True
      | Some h \<Rightarrow> decoded_block_size h = block \<and> list_all (\<lambda>x. length x \<le> unat block) recs))"

definition tape_at :: "(bytes \<Rightarrow> bytes) \<Rightarrow> u32 \<Rightarrow> nat \<Rightarrow> bytes list list \<Rightarrow> ideal_tape tape_reader \<Rightarrow> bool" where
  "tape_at H block k files r \<longleftrightarrow>
     (if tr_ended r then files = []
      else it_rest (tr_drive r) = files \<and> \<not> it_eod (tr_drive r) \<and> tr_file_num r = word_of_nat k \<and>
        tape_records H block (concat files) \<and> list_all (\<lambda>x. length x \<le> tr_read_size r) (concat files))"

lemma tape_records_append: "tape_records H block (xs @ ys) \<Longrightarrow> tape_records H block ys"
  by (induction xs) auto

lemma tape_records_max: "tape_records H block recs \<Longrightarrow> list_all (\<lambda>x. length x \<le> max_tape_record) recs"
  by (induction recs) auto

lemma tape_next_size:
  assumes "tape_records H block (rec # recs)" and "list_all (\<lambda>x. length x \<le> n) (rec # recs)"
  shows "list_all (\<lambda>x. length x \<le> next_read_size H rec n) recs"
  using assms tape_records_max [of H block recs] by (auto simp: next_read_size_def split: option.splits)

interpretation tape_medium: medium "tape_source (Suc n) H name ideal_drive" "tape_at H block"
proof
  fix k rec recs files r assume a: "tape_at H block k ((rec # recs) # files) r"
  then have "tape_records H block (rec # recs @ concat files)" "list_all (\<lambda>x. length x \<le> tr_read_size r) (rec # recs @ concat files)"
    by (auto simp: tape_at_def split: if_splits)
  from tape_next_size [OF this] this a
  show "\<exists>m r'. rs_next (tape_source (Suc n) H name ideal_drive) r = Inr (m, r') \<and> mr_event m = Ev_record \<and> mr_record m = rec \<and>
      mr_file_num m = word_of_nat k \<and> tape_at H block k (recs # files) r'"
    by (cases rec) (auto simp: tape_at_def tape_source_def ideal_drive_def ideal_read_def split: if_splits)
next
  fix k files r assume "tape_at H block k ([] # files) r"
  then show "\<exists>m r'. rs_next (tape_source (Suc n) H name ideal_drive) r = Inr (m, r') \<and> mr_event m = Ev_filemark \<and>
      tape_at H block (Suc k) files r'"
    by (auto simp: tape_at_def tape_source_def ideal_drive_def ideal_read_def split: if_splits)
next
  fix k r assume "tape_at H block k [] r"
  then show "\<exists>m r'. rs_next (tape_source (Suc n) H name ideal_drive) r = Inr (m, r') \<and> mr_event m = Ev_end \<and> tape_at H block k [] r'"
    by (auto simp: tape_at_def tape_source_def ideal_drive_def ideal_read_def end_record_def split: if_splits)
next
  fix k recs files r assume "tape_at H block k (recs # files) r"
  then show "\<exists>r'. rs_skip (tape_source (Suc n) H name ideal_drive) r = Inr r' \<and> tape_at H block (Suc k) files r'"
    using tape_records_append [of H block recs "concat files"]
    by (auto simp: tape_at_def tape_source_def ideal_drive_def tape_skip_file_def ideal_space_file_def split: if_splits)
qed

lemma loaded_tape_at: "tape_records H block (concat files) \<Longrightarrow> tape_at H block 0 files (new_tape_reader (loaded_tape files))"
  using tape_records_max [of H block "concat files"] by (simp add: tape_at_def new_tape_reader_def loaded_tape_def)

section \<open>The record reader\<close>

text \<open>\<open>RecordReader\<close>, over a spool or over a drive.\<close>

type_synonym 'd record_reader = "spool_reader + 'd tape_reader"

definition reader_source :: "nat \<Rightarrow> (bytes \<Rightarrow> bytes) \<Rightarrow> string \<Rightarrow> 'd tape_drive \<Rightarrow> 'd record_reader record_source" where
  "reader_source n H name drv = \<lparr>
     rs_next = (\<lambda>r. case r of
         Inl s \<Rightarrow> bind_res (rs_next (spool_source H) s) (\<lambda>(m, s). Inr (m, Inl s))
       | Inr t \<Rightarrow> bind_res (rs_next (tape_source n H name drv) t) (\<lambda>(m, t). Inr (m, Inr t))),
     rs_skip = (\<lambda>r. case r of
         Inl s \<Rightarrow> bind_res (rs_skip (spool_source H) s) (\<lambda>s. Inr (Inl s))
       | Inr t \<Rightarrow> bind_res (rs_skip (tape_source n H name drv) t) (\<lambda>t. Inr (Inr t)))\<rparr>"

definition reader_at :: "(bytes \<Rightarrow> bytes) \<Rightarrow> u32 \<Rightarrow> nat \<Rightarrow> bytes list list \<Rightarrow> ideal_tape record_reader \<Rightarrow> bool" where
  "reader_at H block k files r = (case r of Inl s \<Rightarrow> spool_at H block k files s | Inr t \<Rightarrow> tape_at H block k files t)"

interpretation reader: medium "reader_source (Suc n) H name ideal_drive" "reader_at H block"
proof
  fix k rec recs files r assume a: "reader_at H block k ((rec # recs) # files) r"
  then show "\<exists>m r'. rs_next (reader_source (Suc n) H name ideal_drive) r = Inr (m, r') \<and> mr_event m = Ev_record \<and>
      mr_record m = rec \<and> mr_file_num m = word_of_nat k \<and> reader_at H block k (recs # files) r'"
    using spool_medium.at_record [of H block k rec recs files] tape_medium.at_record [of H block k rec recs files _ n name]
    by (cases r) (fastforce simp: reader_at_def reader_source_def)+
next
  fix k files r assume "reader_at H block k ([] # files) r"
  then show "\<exists>m r'. rs_next (reader_source (Suc n) H name ideal_drive) r = Inr (m, r') \<and> mr_event m = Ev_filemark \<and>
      reader_at H block (Suc k) files r'"
    using spool_medium.at_filemark [of H block k files] tape_medium.at_filemark [of H block k files _ n name]
    by (cases r) (fastforce simp: reader_at_def reader_source_def)+
next
  fix k r assume "reader_at H block k [] r"
  then show "\<exists>m r'. rs_next (reader_source (Suc n) H name ideal_drive) r = Inr (m, r') \<and> mr_event m = Ev_end \<and> reader_at H block k [] r'"
    using spool_medium.at_end [of H block k] tape_medium.at_end [of H block k _ n name]
    by (cases r) (fastforce simp: reader_at_def reader_source_def)+
next
  fix k recs files r assume "reader_at H block k (recs # files) r"
  then show "\<exists>r'. rs_skip (reader_source (Suc n) H name ideal_drive) r = Inr r' \<and> reader_at H block (Suc k) files r'"
    using spool_medium.at_skip [of H block k recs files] tape_medium.at_skip [of H block k recs files _ n name]
    by (cases r) (fastforce simp: reader_at_def reader_source_def)+
qed

end
