(* ===== verification/ReadCmd.thy ===== *)
theory ReadCmd
  imports RecordSource Extractor
begin

text \<open>
  src/neotape_read_cmd.cpp: \<open>neotape-read\<close> connects to an extractor and sends it the frames of a
  medium, one for each request, after the acknowledgement of the one before.  What is printed
  is left out.
\<close>

section \<open>The state\<close>

datatype read_failure =
    Source_failed source_error | Bad_record format_error | Connection_failed
  | Disconnected_before_end | Disconnected_after_record | Not_an_ack message_type | Ack_mismatch
  | Peer_reported string | Unexpected_message message_type

text \<open>The request loop goes on, returns 0, or fails.\<close>

datatype read_outcome = Going | Volume_complete | Failed read_failure

record 'r read_session =
  nr_reader :: 'r
  nr_conn :: connection
  nr_records :: u64
  nr_filemarks :: u64
  nr_skipped :: u64
  nr_saw_frame :: bool
  nr_end_acked :: bool

definition new_read_session :: "'r \<Rightarrow> connection \<Rightarrow> 'r read_session" where
  "new_read_session r c = \<lparr>nr_reader = r, nr_conn = c, nr_records = 0, nr_filemarks = 0, nr_skipped = 0,
     nr_saw_frame = False, nr_end_acked = False\<rparr>"

section \<open>One request\<close>

text \<open>The loop over the records up to the next one to send; the number bounds the calls of \<open>next()\<close>.\<close>

fun next_to_send :: "nat \<Rightarrow> 'r record_source \<Rightarrow> 'r read_session \<Rightarrow> (read_failure + media_record) \<times> 'r read_session" where
  "next_to_send 0 src s = (Inl (Source_failed Never_returns), s)"
| "next_to_send (Suc n) src s =
    (case rs_next src (nr_reader s) of
       Inl e \<Rightarrow> (Inl (Source_failed e), s)
     | Inr (m, r) \<Rightarrow>
         let s = s\<lparr>nr_reader := r\<rparr>
         in case mr_event m of
              Ev_end \<Rightarrow> (Inr m, s)
            | Ev_filemark \<Rightarrow> next_to_send n src (s\<lparr>nr_filemarks := nr_filemarks s + 1\<rparr>)
            | Ev_record \<Rightarrow>
                if nr_saw_frame s then
                  (if is_ok (parse_fixed_header (mr_record m)) then (Inr m, s) else next_to_send n src s)
                else if has_frame_magic (mr_record m) then (Inr m, s\<lparr>nr_saw_frame := True\<rparr>)
                else next_to_send n src (s\<lparr>nr_skipped := nr_skipped s + 1\<rparr>))"

definition receive_ack :: "frame_header \<Rightarrow> 'r read_session \<Rightarrow> read_outcome \<times> 'r read_session" where
  "receive_ack h s =
    (case conn_read (nr_conn s) of
       (res, c) \<Rightarrow>
         let s = s\<lparr>nr_conn := c\<rparr>
         in case res of
              Inl e \<Rightarrow> (Failed Connection_failed, s)
            | Inr None \<Rightarrow> (Failed Disconnected_after_record, s)
            | Inr (Some ack) \<Rightarrow>
                if msg_type ack \<noteq> Ack_frame then (Failed (Not_an_ack (msg_type ack)), s)
                else if length (msg_payload ack) \<noteq> 8 \<or> le64_from_bytes (msg_payload ack) \<noteq> global_frame_seq_num h
                then (Failed Ack_mismatch, s)
                else (Going, s\<lparr>nr_end_acked := (channel_type h = ARCHIVE_END)\<rparr>))"

definition send_record :: "media_record \<Rightarrow> 'r read_session \<Rightarrow> read_outcome \<times> 'r read_session" where
  "send_record m s =
    (case parse_fixed_header (mr_record m) of
       Inl e \<Rightarrow> (Failed (Bad_record e), s)
     | Inr h \<Rightarrow>
         (case conn_write (nr_conn s) \<lparr>msg_type = Frame_record, msg_payload = mr_record m\<rparr> of
            (False, c) \<Rightarrow> (Failed Connection_failed, s\<lparr>nr_conn := c\<rparr>)
          | (True, c) \<Rightarrow> receive_ack h (s\<lparr>nr_conn := c, nr_records := nr_records s + 1\<rparr>)))"

definition answer_next_frame :: "nat \<Rightarrow> 'r record_source \<Rightarrow> 'r read_session \<Rightarrow> read_outcome \<times> 'r read_session" where
  "answer_next_frame n src s =
    (case next_to_send n src s of
       (Inl e, s) \<Rightarrow> (Failed e, s)
     | (Inr m, s) \<Rightarrow>
         if mr_event m = Ev_end then
           (case conn_write (nr_conn s) \<lparr>msg_type = Tape_eof, msg_payload = []\<rparr> of
              (ok, c) \<Rightarrow> (if ok then Volume_complete else Failed Connection_failed, s\<lparr>nr_conn := c\<rparr>))
         else send_record m s)"

section \<open>The request loop\<close>

definition peer_reason :: "bytes \<Rightarrow> string" where
  "peer_reason payload = (if payload = [] then ''extractor reported error'' else map (\<lambda>b. char_of (unat b)) payload)"

lemma next_to_send_conn: "next_to_send n src s = (r, s') \<Longrightarrow> nr_conn s' = nr_conn s"
proof (induction n arbitrary: s)
  case (Suc n)
  show ?case
  proof (cases "rs_next src (nr_reader s)")
    case (Inr x)
    with Suc show ?thesis by (cases x; cases "mr_event (fst x)") (auto simp: Let_def split: if_splits)
  qed (use Suc in auto)
qed auto

lemma receive_ack_reads: "receive_ack h s = (r, s') \<Longrightarrow> length (cn_reads (nr_conn s')) \<le> length (cn_reads (nr_conn s))"
  by (auto simp: receive_ack_def conn_read_def Let_def split: prod.splits list.splits sum.splits option.splits if_splits)

lemma answer_reads:
  assumes "answer_next_frame n src s = (r, s')"
  shows "length (cn_reads (nr_conn s')) \<le> length (cn_reads (nr_conn s))"
proof -
  obtain x t where x: "next_to_send n src s = (x, t)" by force
  note c = next_to_send_conn [OF x]
  show ?thesis using assms x c
    by (auto simp: answer_next_frame_def send_record_def dest!: receive_ack_reads conn_write_reads
        split: sum.splits prod.splits bool.splits if_splits)
qed

function read_loop :: "nat \<Rightarrow> 'r record_source \<Rightarrow> 'r read_session \<Rightarrow> read_outcome \<times> 'r read_session" where
  "read_loop n src s =
    (case conn_read (nr_conn s) of
       (Inl e, c) \<Rightarrow> (Failed Connection_failed, s\<lparr>nr_conn := c\<rparr>)
     | (Inr None, c) \<Rightarrow> (if nr_end_acked s then Volume_complete else Failed Disconnected_before_end, s\<lparr>nr_conn := c\<rparr>)
     | (Inr (Some msg), c) \<Rightarrow>
         let s = s\<lparr>nr_conn := c\<rparr>
         in case msg_type msg of
              Next_frame \<Rightarrow>
                (case answer_next_frame n src s of
                   (Going, s) \<Rightarrow> read_loop n src s
                 | res \<Rightarrow> res)
            | Error_msg \<Rightarrow> (Failed (Peer_reported (peer_reason (msg_payload msg))), s)
            | t \<Rightarrow> (Failed (Unexpected_message t), s))"
  by pat_completeness auto

termination read_loop
  by (relation "measure (\<lambda>(n, src, s). length (cn_reads (nr_conn s)))")
    (auto dest!: answer_reads [OF sym] conn_read_shrinks [OF sym])

declare read_loop.simps [simp del]

definition run_read :: "nat \<Rightarrow> 'r record_source \<Rightarrow> 'r \<Rightarrow> connection \<Rightarrow> read_outcome \<times> 'r read_session" where
  "run_read n src r c = read_loop n src (new_read_session r c)"

end
