(* ===== verification/CatalogCmd.thy ===== *)
theory CatalogCmd
  imports ReadCmd Plan
begin

text \<open>
  src/neotape_catalog_cmd.cpp: \<open>neotape-catalog\<close> presents the leading metadata frames of an archive as
  a stream and prints it unchanged, as a list or as a summary; or it does so with a plan file.

  The time zone is a parameter: \<open>mtime_text\<close> is what \<open>localtime_r\<close> and \<open>strftime\<close> make
  of a time, if anything.  The output is an \<open>out_file\<close>.  The warning about unverified signatures and the
  command line (see \<open>Options\<close>) are left out here.
\<close>

section \<open>The catalog stream\<close>

datatype catalog_error =
    Catalog_source source_error | Catalog_unfinished | No_frame_found | Not_archive_start u64 | No_catalog
  | Catalog_cut | Catalog_bad_record format_error | Catalog_rejected validate_error | Catalog_signature frame_signature_error
  | Catalog_plan plan_error | Catalog_read_failed | Catalog_write_failed

text \<open>\<open>CatalogStreambuf\<close>.\<close>

record 'r catalog_stream =
  cs_reader :: 'r
  cs_validator :: frame_validator
  cs_saw_frame :: bool
  cs_ended :: bool

definition new_catalog_stream :: "'r \<Rightarrow> 'r catalog_stream" where
  "new_catalog_stream r = \<lparr>cs_reader = r, cs_validator = initial_validator, cs_saw_frame = False, cs_ended = False\<rparr>"

text \<open>The checks of a frame's place: the first one must open the archive and be of the catalog.\<close>

definition check_place :: "bool \<Rightarrow> frame_header \<Rightarrow> catalog_error option" where
  "check_place saw_frame h =
    (if \<not> saw_frame then
       (if global_frame_seq_num h \<noteq> 0 then Some (Not_archive_start (global_frame_seq_num h))
        else if channel_type h \<noteq> CH_METADATA then Some No_catalog else None)
     else if channel_type h \<noteq> CH_METADATA then Some Catalog_cut else None)"

definition take_frame ::
  "(bytes \<Rightarrow> bytes) \<Rightarrow> ed_open \<Rightarrow> public_key list \<Rightarrow> bool \<Rightarrow> bytes \<Rightarrow> 'r catalog_stream \<Rightarrow> catalog_error + bytes \<times> 'r catalog_stream" where
  "take_frame H ed_open keys required rec s =
    (case check_frame H rec of
       Inl e \<Rightarrow> Inl (Catalog_bad_record e)
     | Inr f \<Rightarrow>
         (case check_place (cs_saw_frame s) (header f) of
            Some e \<Rightarrow> Inl e
          | None \<Rightarrow>
              (case validate H (cs_validator s) f rec False of
                 (v, Some e) \<Rightarrow> Inl (Catalog_rejected e)
               | (v, None) \<Rightarrow>
                   (case sig_error (validate_frame_signature ed_open (header f) keys required) of
                      Some e \<Rightarrow> Inl (Catalog_signature e)
                    | None \<Rightarrow> Inr (frame_payload rec (header f),
                        s\<lparr>cs_saw_frame := True, cs_validator := v, cs_ended := has_frame_flag_end (flags (header f))\<rparr>)))))"

definition load_frame ::
  "'r record_source \<Rightarrow> (bytes \<Rightarrow> bytes) \<Rightarrow> ed_open \<Rightarrow> public_key list \<Rightarrow> bool \<Rightarrow> 'r catalog_stream \<Rightarrow>
   catalog_error + bytes \<times> 'r catalog_stream" where
  "load_frame src H ed_open keys required s =
    (case rs_next src (cs_reader s) of
       Inl e \<Rightarrow> Inl (Catalog_source e)
     | Inr (m, r) \<Rightarrow>
         let s = s\<lparr>cs_reader := r\<rparr>
         in if mr_event m = Ev_filemark \<and> \<not> cs_saw_frame s then Inr ([], s)
            else if mr_event m \<noteq> Ev_record then Inl (if cs_saw_frame s then Catalog_unfinished else No_frame_found)
            else if \<not> cs_saw_frame s \<and> \<not> has_frame_magic (mr_record m) then
              (case rs_skip src r of Inl e \<Rightarrow> Inl (Catalog_source e) | Inr r \<Rightarrow> Inr ([], s\<lparr>cs_reader := r\<rparr>))
            else take_frame H ed_open keys required (mr_record m) s)"

text \<open>Reading the stream: its bytes before the error or the end, and the stream there; the number
  bounds the loaded frames.\<close>

fun catalog_bytes ::
  "nat \<Rightarrow> 'r record_source \<Rightarrow> (bytes \<Rightarrow> bytes) \<Rightarrow> ed_open \<Rightarrow> public_key list \<Rightarrow> bool \<Rightarrow> 'r catalog_stream \<Rightarrow>
   bytes \<times> (catalog_error + 'r catalog_stream)" where
  "catalog_bytes 0 src H ed_open keys required s = ([], if cs_ended s then Inr s else Inl (Catalog_source Never_returns))"
| "catalog_bytes (Suc n) src H ed_open keys required s =
    (if cs_ended s then ([], Inr s)
     else case load_frame src H ed_open keys required s of
       Inl e \<Rightarrow> ([], Inl e)
     | Inr (bs, s) \<Rightarrow> (case catalog_bytes n src H ed_open keys required s of (rest, res) \<Rightarrow> (bs @ rest, res)))"

section \<open>The three outputs\<close>

text \<open>A stream to print: its bytes, whether reading behind them fails without an exception, and the
  exception it throws there.\<close>

record catalog_input =
  ci_bytes :: bytes
  ci_bad :: bool
  ci_thrown :: "catalog_error option"

definition text_of :: "bytes \<Rightarrow> string" where
  "text_of bs = map (\<lambda>b. char_of (unat b)) bs"

definition bytes_of :: "string \<Rightarrow> bytes" where
  "bytes_of s = map (\<lambda>c. of_char c) s"

definition format_mtime :: "(u64 \<Rightarrow> string option) \<Rightarrow> u64 \<Rightarrow> string" where
  "format_mtime mtime_text t = (case mtime_text t of None \<Rightarrow> signed_decimal (sint t) | Some s \<Rightarrow> s)"

definition owner_text :: "string \<Rightarrow> u32 \<Rightarrow> string" where
  "owner_text name n = (if name = [] then decimal (unat n) else escape_bytes_for_diagnostic name)"

definition list_line :: "(u64 \<Rightarrow> string option) \<Rightarrow> planned_entry \<Rightarrow> string" where
  "list_line mtime_text e =
    pad_left 6 (decimal (unat (pe_slice e))) @ '' '' @ [pe_kind e] @ '' '' @ pad_left 14 (decimal (unat (pe_size e))) @ '' '' @
    format_mtime mtime_text (pe_mtime e) @ '' '' @ owner_text (pe_uname e) (pe_uid e) @ ''/'' @ owner_text (pe_gname e) (pe_gid e) @ '' '' @
    escape_bytes_for_diagnostic (pe_path e) @ [LF]"

text \<open>The loop over the records of a plan, up to the end or an error with the reader there.\<close>

function plan_records :: "plan_reader \<Rightarrow> plan_record list \<times> (plan_error \<times> plan_reader) option" where
  "plan_records r =
    (case reader_next r of
       Inl e \<Rightarrow> ([], Some (e, r))
     | Inr (None, r') \<Rightarrow> ([], None)
     | Inr (Some rec, r') \<Rightarrow> (case plan_records r' of (recs, e) \<Rightarrow> (rec # recs, e)))"
  by pat_completeness auto

termination plan_records
  by (relation "measure (\<lambda>r. length (rd_input r))") (auto dest: reader_next_shrinks [OF sym] reader_next_shrinks)

declare plan_records.simps [simp del]

definition print_list :: "(u64 \<Rightarrow> string option) \<Rightarrow> plan_record list \<Rightarrow> string" where
  "print_list mtime_text recs = concat (map (\<lambda>rec. case entry rec of None \<Rightarrow> [] | Some e \<Rightarrow> list_line mtime_text e) recs)"

text \<open>The counters of \<open>print_summary\<close>.\<close>

record summary_state =
  sm_slices :: u64
  sm_total_entries :: u64
  sm_total_bytes :: u64
  sm_slice :: u64
  sm_entries :: u64
  sm_bytes :: u64

definition summary_row :: "u64 \<Rightarrow> u64 \<Rightarrow> u64 \<Rightarrow> string" where
  "summary_row n entries bytes =
    pad_left 6 (decimal (unat n)) @ '' '' @ pad_left 12 (decimal (unat entries)) @ '' '' @ pad_left 16 (decimal (unat bytes)) @ [LF]"

definition flush_slice :: "summary_state \<Rightarrow> string \<times> summary_state" where
  "flush_slice s =
    (if sm_entries s = 0 then ([], s)
     else (summary_row (sm_slice s) (sm_entries s) (sm_bytes s),
           s\<lparr>sm_slices := sm_slices s + 1, sm_total_entries := sm_total_entries s + sm_entries s,
             sm_total_bytes := sm_total_bytes s + sm_bytes s\<rparr>))"

fun summary_loop :: "planned_entry list \<Rightarrow> summary_state \<Rightarrow> string \<times> summary_state" where
  "summary_loop [] s = ([], s)"
| "summary_loop (e # es) s =
    (case (if pe_slice e \<noteq> sm_slice s then
             (case flush_slice s of (t, s) \<Rightarrow> (t, s\<lparr>sm_slice := pe_slice e, sm_entries := 0, sm_bytes := 0\<rparr>))
           else ([], s)) of
       (t, s) \<Rightarrow>
         (case summary_loop es (s\<lparr>sm_entries := sm_entries s + 1, sm_bytes := sm_bytes s + pe_size e\<rparr>) of
            (rest, s) \<Rightarrow> (t @ rest, s)))"

definition summary_heading :: string where
  "summary_heading = pad_left 6 ''slice'' @ '' '' @ pad_left 12 ''entries'' @ '' '' @ pad_left 16 ''bytes'' @ [LF]"

definition summary_total :: "summary_state \<Rightarrow> string" where
  "summary_total s = ''total: slices='' @ decimal (unat (sm_slices s)) @ '' entries='' @ decimal (unat (sm_total_entries s)) @
     '' bytes='' @ decimal (unat (sm_total_bytes s)) @ [LF]"

text \<open>What is printed for the records read before an error, and at the end of the plan.\<close>

definition print_summary :: "plan_record list \<Rightarrow> bool \<Rightarrow> string" where
  "print_summary recs complete =
    (case summary_loop (List.map_filter entry recs) \<lparr>sm_slices = 0, sm_total_entries = 0, sm_total_bytes = 0, sm_slice = 0,
        sm_entries = 0, sm_bytes = 0\<rparr> of
       (rows, s) \<Rightarrow> summary_heading @ rows @
         (if complete then (case flush_slice s of (last_row, s) \<Rightarrow> last_row @ summary_total s) else []))"

datatype output_mode = Raw_mode | List_mode | Summary_mode

definition raw_buffer :: nat where "raw_buffer = 1024 * 1024"

text \<open>A record cut off where the stream throws: the exception, not the reader's error, ends the loop.\<close>

definition record_error :: "catalog_input \<Rightarrow> plan_error \<times> plan_reader \<Rightarrow> catalog_error" where
  "record_error input x = (case x of (e, r) \<Rightarrow>
     (case ci_thrown input of
        Some t \<Rightarrow> if length (dropWhile (\<lambda>c. c \<noteq> NUL) (rd_input r)) \<le> 1 then t else Catalog_plan e
      | None \<Rightarrow> Catalog_plan e))"

text \<open>\<open>run\<close> up to the flush: the text, and the exception.  An exception while a buffer is being filled
  loses what it holds.\<close>

definition produce_output ::
  "(u64 \<Rightarrow> string option) \<Rightarrow> output_mode \<Rightarrow> catalog_input \<Rightarrow> string \<Rightarrow> bytes \<times> catalog_error option" where
  "produce_output mtime_text mode input name =
    (case mode of
       Raw_mode \<Rightarrow>
         (case ci_thrown input of
            Some e \<Rightarrow> (take (length (ci_bytes input) div raw_buffer * raw_buffer) (ci_bytes input), Some e)
          | None \<Rightarrow> (ci_bytes input, if ci_bad input then Some Catalog_read_failed else None))
     | List_mode \<Rightarrow>
         (case plan_records (new_plan_reader (text_of (ci_bytes input)) (ci_bad input \<or> ci_thrown input \<noteq> None) name) of
            (recs, e) \<Rightarrow> (bytes_of (print_list mtime_text recs), map_option (record_error input) e))
     | Summary_mode \<Rightarrow>
         (case plan_records (new_plan_reader (text_of (ci_bytes input)) (ci_bad input \<or> ci_thrown input \<noteq> None) name) of
            (recs, e) \<Rightarrow> (bytes_of (print_summary recs (e = None)), map_option (record_error input) e)))"

definition run_catalog ::
  "(u64 \<Rightarrow> string option) \<Rightarrow> output_mode \<Rightarrow> catalog_input \<Rightarrow> string \<Rightarrow> out_file \<Rightarrow> catalog_error option \<times> out_file" where
  "run_catalog mtime_text mode input name out =
    (case produce_output mtime_text mode input name of
       (bs, e) \<Rightarrow>
         (case write_output out bs of
            (ok, out) \<Rightarrow> (case e of Some e \<Rightarrow> Some e
              | None \<Rightarrow> if ok \<and> flush_output out then None else Some Catalog_write_failed, out)))"

text \<open>The catalog of a medium.\<close>

definition catalog_input_of ::
  "nat \<Rightarrow> 'r record_source \<Rightarrow> (bytes \<Rightarrow> bytes) \<Rightarrow> ed_open \<Rightarrow> public_key list \<Rightarrow> bool \<Rightarrow> 'r \<Rightarrow> catalog_input" where
  "catalog_input_of n src H ed_open keys required r =
    (case catalog_bytes n src H ed_open keys required (new_catalog_stream r) of
       (bs, res) \<Rightarrow> \<lparr>ci_bytes = bs, ci_bad = False, ci_thrown = (case res of Inl e \<Rightarrow> Some e | Inr s \<Rightarrow> None)\<rparr>)"

definition print_catalog ::
  "(u64 \<Rightarrow> string option) \<Rightarrow> output_mode \<Rightarrow> nat \<Rightarrow> 'r record_source \<Rightarrow> (bytes \<Rightarrow> bytes) \<Rightarrow> ed_open \<Rightarrow> public_key list \<Rightarrow> bool \<Rightarrow> 'r \<Rightarrow>
   out_file \<Rightarrow> catalog_error option \<times> out_file" where
  "print_catalog mtime_text mode n src H ed_open keys required r out =
    run_catalog mtime_text mode (catalog_input_of n src H ed_open keys required r) ''catalog'' out"

end
