(* ===== verification/SampleArchive.thy ===== *)
theory SampleArchive
  imports RecordSource FrameBuilderSpec
begin

text \<open>
  A small archive for the concrete instances of the properties: a catalog frame, a content frame and
  the archive end, as intact records under \<open>zero_hash\<close>, in two tape files behind a foreign one.
\<close>

definition sample_frame :: "channel \<Rightarrow> u64 \<Rightarrow> frame_header" where
  "sample_frame ch g = sample_header\<lparr>channel_type := ch, global_frame_seq_num := g,
     frame_payload_size := (if ch = ARCHIVE_END then 0 else 10),
     flags := (if ch = ARCHIVE_END then frame_flag_end OR frame_flag_clean_end else frame_flag_end)\<rparr>"

definition frame_image :: "frame_header \<Rightarrow> bytes \<Rightarrow> bytes" where
  "frame_image h payload = header_layout h @ payload @ replicate (3584 - length payload) 0"

lemma sample_frame_ok:
  shows "arrays_ok (sample_frame ch g)" "validate_header (sample_frame ch g) = Inr ()"
    "validate_serialized_signature (sample_frame ch g) = Inr ()" "canon_header (sample_frame ch g) = sample_frame ch g"
    "decoded_block_size (sample_frame ch g) = 4096" "frame_hash (sample_frame ch g) = replicate hash_size 0"
  using sample_header_ok canon_sample_header archive_end_flags
  by (cases ch; simp add: sample_frame_def sample_header_def default_header_def arrays_ok_def validate_header_def decoded_block_size_def
      valid_block_size_def min_block_size_def max_block_size_def payload_limit_def fixed_header_size_def allowed_flags_def
      frame_flag_end_def frame_flag_signed_def frame_flag_sideband_def frame_flag_clean_end_def has_frame_flag_sideband_def
      has_frame_flag_clean_end_def has_frame_flag_end_def list_ex_iff sideband_size_def validate_serialized_signature_def
      has_nonzero_signature_def signature_size_def canon_header_def canon_string_def nt_uuid_size_def)+

lemma frame_image_check:
  assumes "length payload \<le> 3584"
  shows "check_frame zero_hash (frame_image (sample_frame ch g) payload) = Inr \<lparr>header = sample_frame ch g, size_ok = True, hash_ok = True\<rparr>"
  using sample_frame_ok assms length_header_layout [OF sample_frame_ok(1)]
  by (simp add: frame_image_def check_frame_def parse_layout_append compute_frame_hash_layout zero_hash_def fixed_header_size_def Let_def)

definition sample_catalog_record :: bytes where "sample_catalog_record = frame_image (sample_frame CH_METADATA 0) [1, 2, 3, 4, 5, 6, 7, 8, 9, 10]"
definition sample_content_record :: bytes where "sample_content_record = frame_image (sample_frame CH_CONTENT 1) [11, 12, 13, 14, 15, 16, 17, 18, 19, 20]"
definition sample_end_record :: bytes where "sample_end_record = frame_image (sample_frame ARCHIVE_END 2) []"
definition foreign_record :: bytes where "foreign_record = [7, 7]"

definition sample_volume :: "bytes list list" where
  "sample_volume = [[foreign_record], [sample_catalog_record, sample_content_record], [sample_end_record]]"

lemma sample_checks:
  "check_frame zero_hash sample_catalog_record = Inr \<lparr>header = sample_frame CH_METADATA 0, size_ok = True, hash_ok = True\<rparr>"
  "check_frame zero_hash sample_content_record = Inr \<lparr>header = sample_frame CH_CONTENT 1, size_ok = True, hash_ok = True\<rparr>"
  "check_frame zero_hash sample_end_record = Inr \<lparr>header = sample_frame ARCHIVE_END 2, size_ok = True, hash_ok = True\<rparr>"
  unfolding sample_catalog_record_def sample_content_record_def sample_end_record_def by (rule frame_image_check; simp)+

lemma sample_parses:
  "parse_fixed_header sample_catalog_record = Inr (sample_frame CH_METADATA 0)"
  "parse_fixed_header sample_content_record = Inr (sample_frame CH_CONTENT 1)"
  "parse_fixed_header sample_end_record = Inr (sample_frame ARCHIVE_END 2)"
  using sample_checks [THEN check_frame_InrD(1)] by simp_all

lemma sample_intact_headers:
  "intact_header zero_hash sample_catalog_record = Some (sample_frame CH_METADATA 0)"
  "intact_header zero_hash sample_content_record = Some (sample_frame CH_CONTENT 1)"
  "intact_header zero_hash sample_end_record = Some (sample_frame ARCHIVE_END 2)"
  by (simp_all add: intact_header_def sample_checks)

lemma foreign_not_intact: "intact_header zero_hash foreign_record = None" "parse_fixed_header foreign_record = Inl ShortFixedHeader"
  by (simp_all add: intact_header_def foreign_record_def check_frame_def parse_fixed_header_def fixed_header_size_def has_frame_magic_def format_consts)

lemma foreign_length: "foreign_record \<noteq> []" "length foreign_record = 2"
  by (simp_all add: foreign_record_def)

lemma sample_magic:
  "has_frame_magic sample_catalog_record" "has_frame_magic sample_content_record" "has_frame_magic sample_end_record" "\<not> has_frame_magic foreign_record"
  using sample_parses by (auto simp: parse_fixed_header_def foreign_record_def has_frame_magic_def fixed_header_size_def split: if_splits)

lemma sample_lengths:
  "length sample_catalog_record = 4096" "length sample_content_record = 4096" "length sample_end_record = 4096"
  using sample_intact_headers [THEN intact_headerD(2)] by (simp_all add: sample_frame_ok)

lemma sample_tape_at: "tape_at zero_hash 4096 0 sample_volume (new_tape_reader (loaded_tape sample_volume))"
  using sample_lengths by (intro loaded_tape_at) (auto simp: sample_volume_def sample_intact_headers foreign_not_intact sample_frame_ok max_tape_record_def max_block_size_def foreign_length)

lemma sample_reader_at: "reader_at zero_hash 4096 0 sample_volume (Inr (new_tape_reader (loaded_tape sample_volume)))"
  by (simp add: reader_at_def sample_tape_at)

lemma sample_archive_prefix: "archive_prefix [] [sample_frame CH_METADATA 0, sample_frame CH_CONTENT 1, sample_frame ARCHIVE_END 2]"
  by (simp add: sample_frame_def sample_header_def default_header_def fits_def archive_ended_def same_archive_def
      slice_fits_def channel_fits_def slice_complete_def channel_frames_def channel_closed_def channel_open_def
      decoded_block_size_def end_flag_def has_frame_flag_end_def frame_flag_end_def current_run_def)

lemma sample_unsigned: "sig_error (validate_frame_signature ed_open (sample_frame ch g) [] False) = None"
  by (cases ch) (simp_all add: validate_frame_signature_def sample_frame_def sample_header_def default_header_def has_frame_flag_signed_def
      frame_flag_signed_def frame_flag_end_def frame_flag_clean_end_def list_ex_iff signature_size_def)

lemma frame_image_payload: "length payload = n \<Longrightarrow> n \<le> 3584 \<Longrightarrow> take n (drop 512 (frame_image (sample_frame ch g) payload)) = payload"
proof -
  assume "length payload = n" "n \<le> 3584"
  moreover obtain l where "header_layout (sample_frame ch g) = l" "length l = 512"
    using length_header_layout [OF sample_frame_ok(1), of ch g] by (simp add: fixed_header_size_def)
  ultimately show ?thesis by (simp add: frame_image_def)
qed

lemma sample_frame_fields [simp]: "channel_type (sample_frame ch g) = ch" "global_frame_seq_num (sample_frame ch g) = g"
  "frame_payload_size (sample_frame ch g) = (if ch = ARCHIVE_END then 0 else 10)"
  by (simp_all add: sample_frame_def)

end
