(* ===== verification/ReadCmdSpec.thy ===== *)
theory ReadCmdSpec
  imports ReadCmd SampleArchive
begin

text \<open>
  What \<open>neotape-read\<close> sends, whatever the extractor answers, and the restoration of an archive: the
  frames of its volumes, sent by one reader after another, go through the extractor into the output.
\<close>

section \<open>What is sent\<close>

text \<open>The records of a volume that are sent: from the first with the frame magic, those with a valid header.\<close>

definition sendable :: "bool \<Rightarrow> bytes list \<Rightarrow> bytes list" where
  "sendable saw recs =
    (if saw then filter (\<lambda>rec. is_ok (parse_fixed_header rec)) recs
     else case dropWhile (\<lambda>rec. \<not> has_frame_magic rec) recs of
       [] \<Rightarrow> [] | rec # rest \<Rightarrow> rec # filter (\<lambda>rec. is_ok (parse_fixed_header rec)) rest)"

definition frame_message :: "bytes \<Rightarrow> message" where
  "frame_message rec = \<lparr>msg_type = Frame_record, msg_payload = rec\<rparr>"

lemma frame_message_simps [simp]: "msg_type (frame_message rec) = Frame_record" "msg_payload (frame_message rec) = rec"
  by (simp_all add: frame_message_def)

definition eof_message :: message where
  "eof_message = \<lparr>msg_type = Tape_eof, msg_payload = []\<rparr>"

definition record_header :: "bytes \<Rightarrow> frame_header" where
  "record_header rec = projr (parse_fixed_header rec)"

lemma sendable_simps:
  "sendable saw [] = []"
  "sendable True (rec # recs) = (if is_ok (parse_fixed_header rec) then rec # sendable True recs else sendable True recs)"
  "sendable False (rec # recs) = (if has_frame_magic rec then rec # sendable True recs else sendable False recs)"
  by (simp_all add: sendable_def)

text \<open>The acknowledgements among the messages read.\<close>

fun acked_numbers :: "(protocol_error + message option) list \<Rightarrow> u64 list" where
  "acked_numbers [] = []"
| "acked_numbers (x # xs) =
    (case x of Inr (Some m) \<Rightarrow> (if msg_type m = Ack_frame then [le64_from_bytes (msg_payload m)] else []) | _ \<Rightarrow> []) @ acked_numbers xs"

lemma acked_numbers_append [simp]: "acked_numbers (xs @ ys) = acked_numbers xs @ acked_numbers ys"
  by (induction xs) auto

text \<open>The account of a run that began in s and ended in s' with the given outcome.\<close>

definition forwarded :: "bytes list \<Rightarrow> 'r read_session \<Rightarrow> read_outcome \<times> 'r read_session \<Rightarrow> bool" where
  "forwarded recs s res \<longleftrightarrow> (case res of (out, s') \<Rightarrow> \<exists>j eof used.
     cn_sent (nr_conn s') = cn_sent (nr_conn s) @ map frame_message (take j recs) @ (if eof then [eof_message] else []) \<and>
     cn_reads (nr_conn s) = used @ cn_reads (nr_conn s') \<and>
     (out = Volume_complete \<longrightarrow>
        acked_numbers used = map (\<lambda>rec. global_frame_seq_num (record_header rec)) (take j recs) \<and>
        (eof \<and> length recs \<le> j \<or>
         \<not> eof \<and> (if take j recs = [] then nr_end_acked s else channel_type (record_header (last (take j recs))) = ARCHIVE_END))))"

lemma forwarded_failed:
  "cn_sent (nr_conn s') = cn_sent (nr_conn s) @ map frame_message (take j recs) \<Longrightarrow> cn_reads (nr_conn s) = used @ cn_reads (nr_conn s') \<Longrightarrow>
   out \<noteq> Volume_complete \<Longrightarrow> forwarded recs s (out, s')"
  unfolding forwarded_def by (auto intro!: exI [of _ j] exI [of _ False])

lemma forwarded_step:
  assumes "forwarded recs t res" and "cn_sent (nr_conn t) = cn_sent (nr_conn s) @ [frame_message rec]"
    and "cn_reads (nr_conn s) = used @ cn_reads (nr_conn t)" and "acked_numbers used = [global_frame_seq_num (record_header rec)]"
    and "nr_end_acked t \<longleftrightarrow> channel_type (record_header rec) = ARCHIVE_END"
  shows "forwarded (rec # recs) s res"
proof -
  obtain out s' where res: "res = (out, s')" by force
  with assms(1) obtain j eof us where f: "cn_sent (nr_conn s') = cn_sent (nr_conn t) @ map frame_message (take j recs) @ (if eof then [eof_message] else [])"
    "cn_reads (nr_conn t) = us @ cn_reads (nr_conn s')"
    "out = Volume_complete \<longrightarrow>
        acked_numbers us = map (\<lambda>rec. global_frame_seq_num (record_header rec)) (take j recs) \<and>
        (eof \<and> length recs \<le> j \<or>
         \<not> eof \<and> (if take j recs = [] then nr_end_acked t else channel_type (record_header (last (take j recs))) = ARCHIVE_END))"
    unfolding forwarded_def by auto
  have "cn_sent (nr_conn s') = cn_sent (nr_conn s) @ map frame_message (take (Suc j) (rec # recs)) @ (if eof then [eof_message] else [])"
    using f(1) assms(2) by simp
  moreover have "cn_reads (nr_conn s) = (used @ us) @ cn_reads (nr_conn s')" using f(2) assms(3) by simp
  moreover have "out = Volume_complete \<longrightarrow>
      acked_numbers (used @ us) = map (\<lambda>rec. global_frame_seq_num (record_header rec)) (take (Suc j) (rec # recs)) \<and>
      (eof \<and> length (rec # recs) \<le> Suc j \<or>
       \<not> eof \<and> (if take (Suc j) (rec # recs) = [] then nr_end_acked s
                  else channel_type (record_header (last (take (Suc j) (rec # recs)))) = ARCHIVE_END))"
    using f(3) assms(4,5) by auto
  ultimately show ?thesis unfolding forwarded_def res by (simp only: prod.case) blast
qed

context medium
begin

lemma next_sendable:
  assumes "at k files (nr_reader s)" and "call_count files < n"
  shows "\<exists>m s' k' files'. next_to_send n src s = (Inr m, s') \<and> nr_conn s' = nr_conn s \<and> nr_end_acked s' = nr_end_acked s \<and>
    nr_records s' = nr_records s \<and> at k' files' (nr_reader s') \<and> call_count files' \<le> call_count files \<and>
    (if sendable (nr_saw_frame s) (concat files) = [] then mr_event m = Ev_end
     else mr_event m = Ev_record \<and> mr_record m = hd (sendable (nr_saw_frame s) (concat files)) \<and> nr_saw_frame s' \<and>
       sendable True (concat files') = tl (sendable (nr_saw_frame s) (concat files)))"
  using assms
proof (induction n arbitrary: k files s)
  case (Suc n)
  show ?case
  proof (cases files)
    case Nil
    with at_end Suc.prems(1) obtain m r' where "rs_next src (nr_reader s) = Inr (m, r')" "mr_event m = Ev_end" "at k [] r'" by blast
    then show ?thesis using Nil by (auto simp: sendable_simps Let_def intro!: exI [of _ k] exI [of _ "[]"])
  next
    case (Cons recs rest)
    show ?thesis
    proof (cases recs)
      case Nil
      with at_filemark Suc.prems(1) Cons obtain m r' where m: "rs_next src (nr_reader s) = Inr (m, r')" "mr_event m = Ev_filemark"
        "at (Suc k) rest r'" by blast
      let ?s = "s\<lparr>nr_reader := r', nr_filemarks := nr_filemarks s + 1\<rparr>"
      have "call_count rest < n" "call_count rest \<le> call_count files" using Suc.prems(2) Cons Nil by (simp_all add: call_count_def)
      with Suc.IH [of "Suc k" rest ?s] m Cons Nil show ?thesis by (force simp: Let_def)
    next
      case (Cons rec recs')
      note files = \<open>files = recs # rest\<close> [unfolded Cons]
      with at_record Suc.prems(1) obtain m r' where m: "rs_next src (nr_reader s) = Inr (m, r')" "mr_event m = Ev_record"
        "mr_record m = rec" "at k (recs' # rest) r'" by blast
      have c: "call_count (recs' # rest) < n" "call_count (recs' # rest) \<le> call_count files"
        using Suc.prems(2) files by (simp_all add: call_count_def)
      show ?thesis
      proof (cases "if nr_saw_frame s then is_ok (parse_fixed_header rec) else has_frame_magic rec")
        case True
        then show ?thesis using m c(2) files
          by (cases "nr_saw_frame s") (auto simp: Let_def sendable_simps intro!: exI [of _ k] exI [of _ "recs' # rest"])
      next
        case False
        let ?s = "if nr_saw_frame s then s\<lparr>nr_reader := r'\<rparr> else s\<lparr>nr_reader := r', nr_skipped := nr_skipped s + 1\<rparr>"
        have "next_to_send (Suc n) src s = next_to_send n src ?s" using m False by (cases "nr_saw_frame s") (simp_all add: Let_def)
        moreover have "sendable (nr_saw_frame s) (concat files) = sendable (nr_saw_frame ?s) (concat (recs' # rest))"
          using False files by (cases "nr_saw_frame s") (simp_all add: sendable_simps)
        ultimately show ?thesis using Suc.IH [of k "recs' # rest" ?s] m(4) c by (auto split: if_splits) fastforce+
      qed
    qed
  qed
qed simp

lemma answer_forwards:
  assumes "at k files (nr_reader s)" and "call_count files < n" and "answer_next_frame n src s = (out, s')"
  defines "recs \<equiv> sendable (nr_saw_frame s) (concat files)"
  shows "case out of
     Going \<Rightarrow> \<exists>rec rest used k' files'. recs = rec # rest \<and> cn_sent (nr_conn s') = cn_sent (nr_conn s) @ [frame_message rec] \<and>
       cn_reads (nr_conn s) = used @ cn_reads (nr_conn s') \<and> acked_numbers used = [global_frame_seq_num (record_header rec)] \<and>
       (nr_end_acked s' \<longleftrightarrow> channel_type (record_header rec) = ARCHIVE_END) \<and> at k' files' (nr_reader s') \<and>
       call_count files' < n \<and> sendable (nr_saw_frame s') (concat files') = rest
   | Volume_complete \<Rightarrow> recs = [] \<and> cn_sent (nr_conn s') = cn_sent (nr_conn s) @ [eof_message] \<and> cn_reads (nr_conn s) = cn_reads (nr_conn s')
   | Failed e \<Rightarrow> \<exists>j used. cn_sent (nr_conn s') = cn_sent (nr_conn s) @ map frame_message (take j recs) \<and>
       cn_reads (nr_conn s) = used @ cn_reads (nr_conn s')"
proof -
  from next_sendable [OF assms(1,2)] obtain m t k' files' where t: "next_to_send n src s = (Inr m, t)" "nr_conn t = nr_conn s"
    "at k' files' (nr_reader t)" "call_count files' < n"
    "if recs = [] then mr_event m = Ev_end
     else mr_event m = Ev_record \<and> mr_record m = hd recs \<and> nr_saw_frame t \<and> sendable True (concat files') = tl recs"
    unfolding recs_def using assms(2) le_less_trans by blast
  show ?thesis
  proof (cases recs)
    case Nil
    have "take 0 recs = []" by simp
    with Nil assms(3) t(1,2,5) show ?thesis
      by (auto simp: answer_next_frame_def conn_write_def eof_message_def split: prod.splits if_splits intro!: exI [of _ "0 :: nat"])
  next
    case (Cons rec rest)
    with t(5) have m: "mr_event m = Ev_record" "mr_record m = rec" "nr_saw_frame t" "sendable True (concat files') = rest" by auto
    have s': "send_record m t = (out, s')" using assms(3) t(1) m(1) by (simp add: answer_next_frame_def)
    have j: "\<exists>j. xs = xs @ map frame_message (take j recs)" "\<exists>j. xs @ [frame_message rec] = xs @ map frame_message (take j recs)" for xs
      using Cons by (auto intro: exI [of _ "0 :: nat"] exI [of _ "1 :: nat"])
    show ?thesis
    proof (cases "parse_fixed_header rec")
      case (Inl e)
      then have "out = Failed (Bad_record e)" "s' = t" using s' m(2) by (auto simp: send_record_def)
      then show ?thesis using j(1) t(2) by simp
    next
      case (Inr h)
      then have h: "record_header rec = h" by (simp add: record_header_def)
      show ?thesis
      proof (cases "cn_writes_left (nr_conn s) = 0")
        case True
        then have "out = Failed Connection_failed" "nr_conn s' = nr_conn s"
          using s' m(2) Inr t(2) by (auto simp: send_record_def conn_write_def)
        then show ?thesis using j(1) by simp
      next
        case False
        let ?c = "(nr_conn s)\<lparr>cn_writes_left := cn_writes_left (nr_conn s) - 1, cn_sent := cn_sent (nr_conn s) @ [frame_message rec]\<rparr>"
        let ?t = "t\<lparr>nr_conn := ?c, nr_records := nr_records t + 1\<rparr>"
        have r: "receive_ack h ?t = (out, s')"
          using s' m(2) Inr t(2) False by (simp add: send_record_def conn_write_def frame_message_def)
        show ?thesis
        proof (cases out)
          case Going
          with r obtain ack where a: "cn_reads (nr_conn s) = Inr (Some ack) # cn_reads (nr_conn s')" "msg_type ack = Ack_frame"
            "le64_from_bytes (msg_payload ack) = global_frame_seq_num h" "cn_sent (nr_conn s') = cn_sent (nr_conn s) @ [frame_message rec]"
            "nr_end_acked s' \<longleftrightarrow> channel_type h = ARCHIVE_END" "nr_reader s' = nr_reader t" "nr_saw_frame s' = nr_saw_frame t"
            by (auto simp: receive_ack_def conn_read_def Let_def split: list.splits sum.splits option.splits if_splits)
          have "acked_numbers [Inr (Some ack)] = [global_frame_seq_num (record_header rec)]" using a h by simp
          moreover have "cn_reads (nr_conn s) = [Inr (Some ack)] @ cn_reads (nr_conn s')" using a(1) by simp
          ultimately show ?thesis unfolding Going read_outcome.case
            by (intro exI [of _ rec] exI [of _ rest] exI [of _ "[Inr (Some ack)]"] exI [of _ k'] exI [of _ files'] conjI)
              (use Cons a h t(3,4) m(3,4) in simp_all)
        next
          case Volume_complete
          with r show ?thesis by (auto simp: receive_ack_def conn_read_def Let_def split: list.splits sum.splits option.splits if_splits)
        next
          case (Failed e)
          with r have "cn_sent (nr_conn s') = cn_sent (nr_conn s) @ [frame_message rec]"
            "\<exists>used. cn_reads (nr_conn s) = used @ cn_reads (nr_conn s')"
            by (auto simp: receive_ack_def conn_read_def Let_def split: list.splits sum.splits option.splits if_splits)
          with Failed j(2) show ?thesis by auto
        qed
      qed
    qed
  qed
qed

lemma loop_forwards:
  "at k files (nr_reader s) \<Longrightarrow> call_count files < n \<Longrightarrow>
   forwarded (sendable (nr_saw_frame s) (concat files)) s (read_loop n src s)"
proof (induction "length (cn_reads (nr_conn s))" arbitrary: k files s rule: less_induct)
  case less
  let ?recs = "sendable (nr_saw_frame s) (concat files)"
  obtain res c where c: "conn_read (nr_conn s) = (res, c)" by force
  let ?t = "s\<lparr>nr_conn := c\<rparr>"
  obtain us where us: "cn_reads (nr_conn s) = us @ cn_reads c" "cn_sent c = cn_sent (nr_conn s)" "cn_reads (nr_conn s) = [] \<longrightarrow> res = Inr None"
    "us = [res] \<or> us = [] \<and> res = Inr None"
    using c by (auto simp: conn_read_def split: list.splits)
  have failed: "forwarded ?recs s (Failed e, ?t)" for e
    by (rule forwarded_failed [where j = 0 and used = us]) (use us in simp_all)
  show ?case
  proof (cases "\<exists>msg. res = Inr (Some msg) \<and> msg_type msg = Next_frame")
    case False
    have complete: "forwarded ?recs s (Volume_complete, ?t)" if "nr_end_acked s" "res = Inr None"
      unfolding forwarded_def prod.case
      by (intro exI [of _ "0 :: nat"] exI [of _ False] exI [of _ us]) (use us that in auto)
    show ?thesis
      using False c failed complete by (subst read_loop.simps) (auto simp: Let_def split: sum.splits option.splits message_type.splits)
  next
    case True
    then obtain msg where msg: "res = Inr (Some msg)" "msg_type msg = Next_frame" by blast
    obtain out s' where o: "answer_next_frame n src ?t = (out, s')" by force
    have at: "at k files (nr_reader ?t)" using less.prems(1) by simp
    note a = answer_forwards [OF at less.prems(2) o]
    have ack: "acked_numbers us = []" using us(4) msg by auto
    show ?thesis
    proof (cases out)
      case Going
      with a obtain rec rest used k' files' where g: "?recs = rec # rest" "cn_sent (nr_conn s') = cn_sent (nr_conn ?t) @ [frame_message rec]"
        "cn_reads (nr_conn ?t) = used @ cn_reads (nr_conn s')" "acked_numbers used = [global_frame_seq_num (record_header rec)]"
        "nr_end_acked s' \<longleftrightarrow> channel_type (record_header rec) = ARCHIVE_END" "at k' files' (nr_reader s')"
        "call_count files' < n" "sendable (nr_saw_frame s') (concat files') = rest" by auto
      have "length (cn_reads (nr_conn s')) < length (cn_reads (nr_conn s))" using g(3) us(1,4) msg by auto
      from less.hyps [OF this g(6,7)] have f: "forwarded rest s' (read_loop n src s')" unfolding g(8) .
      have "read_loop n src s = read_loop n src s'" using c msg o Going by (subst read_loop.simps) (simp add: Let_def)
      with forwarded_step [OF f, of s rec "us @ used"] g us ack show ?thesis by simp
    next
      case Volume_complete
      with a have v: "?recs = []" "cn_sent (nr_conn s') = cn_sent (nr_conn s) @ [eof_message]" "cn_reads c = cn_reads (nr_conn s')"
        using us(2) by simp_all
      have "read_loop n src s = (Volume_complete, s')" using c msg o Volume_complete by (subst read_loop.simps) (simp add: Let_def)
      then show ?thesis unfolding forwarded_def
        by (simp only: prod.case, intro exI [of _ "0 :: nat"] exI [of _ True] exI [of _ us]) (use v us ack in auto)
    next
      case (Failed e)
      with a obtain j used where f: "cn_sent (nr_conn s') = cn_sent (nr_conn s) @ map frame_message (take j ?recs)"
        "cn_reads c = used @ cn_reads (nr_conn s')" using us(2) by auto
      have "read_loop n src s = (Failed e, s')" using c msg o Failed by (subst read_loop.simps) (simp add: Let_def)
      then show ?thesis using forwarded_failed [OF f(1), of "us @ used"] f(2) us(1) by simp
    qed
  qed
qed

end

section \<open>The extractor's side\<close>

text \<open>An extractor that can write everything, after it has accepted the frames p.\<close>

definition healthy :: "extractor \<Rightarrow> bool" where
  "healthy st \<longleftrightarrow> \<not> ex_salvage st \<and> \<not> ex_fatal st \<and> unlimited (ex_output st) \<and> of_flush_ok (ex_output st) \<and>
     (case ex_metadata st of None \<Rightarrow> True | Some meta \<Rightarrow> unlimited meta \<and> of_flush_ok meta)"

definition restored :: "bytes \<Rightarrow> extractor \<Rightarrow> accepted \<Rightarrow> bool" where
  "restored b st p \<longleftrightarrow> healthy st \<and> tracks (ex_validator st) (acc_headers p) \<and> of_bytes (ex_output st) = b @ content_bytes p \<and>
     ex_processed st = word_of_nat (length p) \<and> ex_saw_archive_end st = archive_ended (acc_headers p)"

text \<open>A frame that the extractor takes as the next one.\<close>

definition acceptable :: "(bytes \<Rightarrow> bytes) \<Rightarrow> ed_open \<Rightarrow> public_key list \<Rightarrow> bool \<Rightarrow> checked_frame \<times> bytes \<Rightarrow> bool" where
  "acceptable H ed_open keys required fd \<longleftrightarrow> (case fd of (f, d) \<Rightarrow> check_frame H d = Inr f \<and> size_ok f \<and> hash_ok f \<and>
     sig_error (validate_frame_signature ed_open (header f) keys required) = None)"

lemma output_frame_healthy:
  assumes "healthy st"
  shows "\<exists>st'. output_frame prev st data f = (True, st') \<and> healthy st' \<and> ex_validator st' = ex_validator st \<and> ex_keys st' = ex_keys st \<and>
    ex_require_signed st' = ex_require_signed st \<and> ex_processed st' = ex_processed st + 1 \<and>
    (channel_type (header f) \<noteq> CH_METADATA \<and> saw_archive_end (ex_validator st) \<longrightarrow> ex_saw_archive_end st' \<and> ex_output st' = ex_output st) \<and>
    (\<not> saw_archive_end (ex_validator st) \<longrightarrow> ex_saw_archive_end st' = ex_saw_archive_end st \<and>
       of_bytes (ex_output st') = of_bytes (ex_output st) @ (if channel_type (header f) = CH_CONTENT then frame_payload data (header f) else []))"
proof -
  have w: "write_output out d = (True, out\<lparr>of_bytes := of_bytes out @ d\<rparr>)" if "unlimited out" for out d
    using that by (rule write_unlimited)
  have u: "unlimited (out\<lparr>of_bytes := x\<rparr>) = unlimited out" for out x by (simp add: unlimited_def)
  note h = assms [unfolded healthy_def]
  show ?thesis
  proof (cases "channel_type (header f) = CH_METADATA")
    case True
    with h show ?thesis
      by (cases "ex_metadata st") (simp_all add: output_frame_def healthy_def flush_output_def Let_def w u)
  next
    case False
    with h show ?thesis
      by (cases "saw_archive_end (ex_validator st)"; cases "channel_type (header f) = CH_CONTENT")
        (simp_all add: output_frame_def healthy_def flush_output_def Let_def w u split: option.splits)
  qed
qed

lemma handle_record_accepts:
  assumes "restored b st p" and "acceptable H ed_open (ex_keys st) (ex_require_signed st) (f, data)"
    and "fits (acc_headers p) (header f)"
  shows "\<exists>st'. handle_record H ed_open st data = (Some (global_frame_seq_num (header f)), st') \<and> restored b st' (p @ [(f, data)]) \<and>
    ex_keys st' = ex_keys st \<and> ex_require_signed st' = ex_require_signed st"
proof -
  note R = assms(1) [unfolded restored_def]
  have f: "check_frame H data = Inr f" "size_ok f" "hash_ok f"
    "sig_error (validate_frame_signature ed_open (header f) (ex_keys st) (ex_require_signed st)) = None"
    using assms(2) by (auto simp: acceptable_def)
  have bs: "decoded_block_size (header f) \<noteq> 0"
    using validate_header_block [OF parse_InrD(9) [OF check_frame_InrD(1) [OF f(1)]]] .
  let ?b = "channel_type (header f) = CH_METADATA"
  have fr: "fresh_frame ?b f (acc_headers p)" using f bs assms(3) by (simp add: fresh_frame_def fits_def)
  have tr: "tracks (ex_validator st) (acc_headers p)" using R by simp
  then have "tracks ((ex_validator st)\<lparr>last_was_replay := False\<rparr>) (acc_headers p)" by simp
  from validate_new_ok [OF this fr assms(3)] obtain v where
    v: "validate_new ((ex_validator st)\<lparr>last_was_replay := False\<rparr>) f ?b = (v, None)" "tracks v (acc_headers p @ [header f])"
    "\<not> last_was_replay v" by auto
  have val: "validate_restore_frame H (ex_validator st) f data = (v, Restore_ok, NoMessage)"
    using validate_fresh [OF tr fr, of H data] v(1) f(3) by (simp add: validate_restore_frame_def)
  have ae: "saw_archive_end v = (channel_type (header f) = ARCHIVE_END)" "\<not> archive_ended (acc_headers p)"
    using v(2) assms(3) by (simp_all add: tracks_def fits_def)
  let ?sv = "validate_frame_signature ed_open (header f) (ex_keys st) (ex_require_signed st)"
  obtain st1 where st1: "st1 = (if sig_status ?sv = Signed_unverified then st\<lparr>ex_warned := True\<rparr> else st)" by blast
  then have s1: "ex_validator st1 = ex_validator st" "\<not> ex_salvage st1" "ex_keys st1 = ex_keys st" "ex_require_signed st1 = ex_require_signed st"
    "ex_processed st1 = ex_processed st" "ex_saw_archive_end st1 = ex_saw_archive_end st" "ex_output st1 = ex_output st"
    using R by (simp_all add: healthy_def)
  have h: "healthy (st1\<lparr>ex_validator := v\<rparr>)" using R st1 by (simp add: healthy_def)
  let ?prev = "current_slice_seq_num (ex_validator st)"
  from output_frame_healthy [OF h, of ?prev data f] obtain st' where
    o: "output_frame ?prev (st1\<lparr>ex_validator := v\<rparr>) data f = (True, st')" "healthy st'" "ex_validator st' = v" "ex_keys st' = ex_keys st"
    "ex_require_signed st' = ex_require_signed st" "ex_processed st' = ex_processed st + 1"
    "channel_type (header f) \<noteq> CH_METADATA \<and> saw_archive_end v \<longrightarrow> ex_saw_archive_end st' \<and> ex_output st' = ex_output st"
    "\<not> saw_archive_end v \<longrightarrow> ex_saw_archive_end st' = ex_saw_archive_end st \<and>
       of_bytes (ex_output st') = of_bytes (ex_output st) @ (if channel_type (header f) = CH_CONTENT then frame_payload data (header f) else [])"
    using s1 by auto
  have "judge_frame H st1 data f = (True, st')" using o(1) s1 val v(3) by (simp add: judge_frame_def Let_def)
  then have "handle_record H ed_open st data = (Some (global_frame_seq_num (header f)), st')"
    using f unfolding st1 by (simp add: handle_record_def process_frame_def Let_def)
  moreover have "restored b st' (p @ [(f, data)])"
    using R o(2,3,6,7,8) v(2) ae by (auto simp: restored_def)
  ultimately show ?thesis using o(4,5) by blast
qed

section \<open>A conversation\<close>

definition next_message :: message where
  "next_message = \<lparr>msg_type = Next_frame, msg_payload = []\<rparr>"

text \<open>What the extractor sends while it takes the given records.\<close>

definition conversation :: "bytes list \<Rightarrow> message list" where
  "conversation recs = concat (map (\<lambda>rec. [next_message, ack_message (global_frame_seq_num (record_header rec))]) recs)"

definition said :: "message list \<Rightarrow> (protocol_error + message option) list" where
  "said ms = map (\<lambda>m. Inr (Some m)) ms"

lemma said_simps [simp]: "said [] = []" "said (m # ms) = Inr (Some m) # said ms" "said (ms @ ms') = said ms @ said ms'"
  by (simp_all add: said_def)

lemma conversation_simps [simp]:
  "conversation [] = []"
  "conversation (rec # recs) = next_message # ack_message (global_frame_seq_num (record_header rec)) # conversation recs"
  by (simp_all add: conversation_def)

definition restorable :: "(bytes \<Rightarrow> bytes) \<Rightarrow> ed_open \<Rightarrow> public_key list \<Rightarrow> bool \<Rightarrow> bytes \<Rightarrow> bool" where
  "restorable H ed_open keys required rec \<longleftrightarrow> intact_header H rec = Some (record_header rec) \<and>
     sig_error (validate_frame_signature ed_open (record_header rec) keys required) = None"

definition taken :: "(bytes \<Rightarrow> bytes) \<Rightarrow> bytes list \<Rightarrow> accepted" where
  "taken H recs = map (\<lambda>rec. (projr (check_frame H rec), rec)) recs"

definition record_content :: "bytes list \<Rightarrow> bytes" where
  "record_content recs = concat (map (\<lambda>rec. frame_payload rec (record_header rec))
     (filter (\<lambda>rec. channel_type (record_header rec) = CH_CONTENT) recs))"

lemma intact_frame:
  assumes "intact_header H rec = Some h"
  obtains f where "check_frame H rec = Inr f" and "hash_ok f" and "size_ok f" and "header f = h" and "record_header rec = h"
    and "parse_fixed_header rec = Inr h"
proof -
  from assms obtain f where f: "check_frame H rec = Inr f" "hash_ok f" "header f = h"
    by (auto simp: intact_header_def split: sum.splits if_splits)
  with check_frame_InrD [OF f(1)] that show ?thesis by (auto simp: record_header_def)
qed

text \<open>The strict validator takes an intact record that fits as a new frame.\<close>

lemma validate_fits:
  assumes "tracks w p" and "intact_header H rec = Some h" and "fits p h" and "check_frame H rec = Inr f"
  shows "\<exists>w'. validate H w f rec False = (w', None) \<and> tracks w' (p @ [h]) \<and> \<not> last_was_replay w'"
proof -
  from assms(2,4) have f: "hash_ok f" "size_ok f" "header f = h" by (auto elim!: intact_frame)
  have "decoded_block_size h \<noteq> 0"
    using validate_header_block [OF parse_InrD(9) [OF check_frame_InrD(1) [OF assms(4)]]] f(3) by auto
  then have fr: "fresh_frame False f p" using assms(3) f by (simp add: fresh_frame_def fits_def)
  have "tracks (w\<lparr>last_was_replay := False\<rparr>) p" using assms(1) by simp
  from validate_new_ok [OF this fr] assms(3) f(3) obtain w' where w':
    "validate_new (w\<lparr>last_was_replay := False\<rparr>) f False = (w', None)" "tracks w' (p @ [h])" "\<not> last_was_replay w'" by auto
  then show ?thesis using validate_fresh [OF assms(1) fr] by simp
qed

lemma restorable_acceptable:
  "restorable H ed_open keys required rec \<Longrightarrow> acceptable H ed_open keys required (projr (check_frame H rec), rec)"
  by (auto simp: restorable_def acceptable_def elim!: intact_frame)

lemma restorable_header: "restorable H ed_open keys required rec \<Longrightarrow> header (projr (check_frame H rec)) = record_header rec"
  by (auto simp: restorable_def elim!: intact_frame)

lemma intact_record: "intact_header H rec = Some (record_header rec) \<Longrightarrow> header (projr (check_frame H rec)) = record_header rec"
  by (auto elim!: intact_frame)

lemma taken_simps [simp]: "taken H [] = []" "taken H (rec # recs) = (projr (check_frame H rec), rec) # taken H recs"
  "taken H (recs @ recs') = taken H recs @ taken H recs'"
  by (simp_all add: taken_def)

lemma taken_headers: "list_all (restorable H ed_open keys required) recs \<Longrightarrow> acc_headers (taken H recs) = map record_header recs"
  by (induction recs) (auto simp: acc_headers_def restorable_def intact_record)

lemma taken_content: "list_all (restorable H ed_open keys required) recs \<Longrightarrow> content_bytes (taken H recs) = record_content recs"
  by (induction recs) (auto simp: content_bytes_def record_content_def restorable_def intact_record)

text \<open>The extractor's part, up to the end of a volume or of the archive.\<close>

lemma serve_conversation:
  assumes "restored b st (taken H old)" and "list_all (restorable H ed_open (ex_keys st) (ex_require_signed st)) (old @ recs)"
    and "archive_prefix (map record_header old) (map record_header recs)" and "\<not> archive_ended (map record_header old)"
    and "cn_reads c = said (map frame_message recs @ rest)" and "2 * length recs < cn_writes_left c"
    and "rest = (if archive_ended (map record_header recs) then [] else [eof_message])"
  shows "\<exists>st' c'. serve_frames H ed_open st c = (archive_ended (map record_header recs), st', c') \<and> restored b st' (taken H (old @ recs)) \<and>
    ex_keys st' = ex_keys st \<and> ex_require_signed st' = ex_require_signed st \<and>
    cn_sent c' = cn_sent c @ conversation recs @ (if archive_ended (map record_header recs) then [] else [next_message])"
  using assms
proof (induction recs arbitrary: old st c)
  case Nil
  then show ?case
    by (subst serve_frames.simps) (simp add: conn_write_def conn_read_def next_message_def eof_message_def)
next
  case (Cons rec recs)
  let ?fd = "(projr (check_frame H rec), rec)"
  have rec: "restorable H ed_open (ex_keys st) (ex_require_signed st) rec" using Cons.prems(2) by simp
  have old: "acc_headers (taken H old) = map record_header old" 
    using Cons.prems(2) taken_headers [of H ed_open "ex_keys st" "ex_require_signed st" old] by simp
  have fit: "fits (acc_headers (taken H old)) (header (fst ?fd))" using Cons.prems(3) old rec by (simp add: restorable_header)
  from handle_record_accepts [OF Cons.prems(1) restorable_acceptable [OF rec]] fit obtain st1 where
    st1: "handle_record H ed_open st rec = (Some (global_frame_seq_num (record_header rec)), st1)"
    "restored b st1 (taken H (old @ [rec]))" "ex_keys st1 = ex_keys st" "ex_require_signed st1 = ex_require_signed st"
    using restorable_header [OF rec] by auto
  have sae: "ex_saw_archive_end st1 \<longleftrightarrow> channel_type (record_header rec) = ARCHIVE_END"
    using st1(2) old Cons.prems(4) restorable_header [OF rec] by (simp add: restored_def)
  let ?a = "ack_message (global_frame_seq_num (record_header rec))"
  let ?c = "c\<lparr>cn_writes_left := cn_writes_left c - 2, cn_sent := cn_sent c @ [next_message, ?a], cn_reads := said (map frame_message recs @ rest)\<rparr>"
  have step: "serve_frames H ed_open st c = (if ex_saw_archive_end st1 then (True, st1, ?c) else serve_frames H ed_open st1 ?c)"
    using Cons.prems(5,6) st1(1) by (cases c, subst serve_frames.simps) (simp add: conn_write_def conn_read_def next_message_def numeral_2_eq_2)
  show ?case
  proof (cases "channel_type (record_header rec) = ARCHIVE_END")
    case True
    then have "recs = []" using Cons.prems(3) by (cases recs) (simp_all add: fits_def)
    then show ?thesis using step st1 sae True by (simp add: archive_ended_def)
  next
    case False
    have "list_all (restorable H ed_open (ex_keys st1) (ex_require_signed st1)) ((old @ [rec]) @ recs)"
      using Cons.prems(2) st1(3,4) by simp
    moreover have "archive_prefix (map record_header (old @ [rec])) (map record_header recs)" using Cons.prems(3) by simp
    moreover have "\<not> archive_ended (map record_header (old @ [rec]))" using Cons.prems(4) False by simp
    moreover have "archive_ended (map record_header (rec # recs)) \<longleftrightarrow> archive_ended (map record_header recs)"
      using False by (simp add: archive_ended_def)
    ultimately show ?thesis
      using Cons.IH [OF st1(2), of ?c] Cons.prems(6,7) step sae False st1(3,4) by auto
  qed
qed

text \<open>The reader's part.\<close>

context medium
begin

lemma loop_converses:
  assumes "at k files (nr_reader s)" and "call_count files < n" and "sendable (nr_saw_frame s) (concat files) = recs"
    and "list_all (\<lambda>rec. parse_fixed_header rec = Inr (record_header rec)) recs"
    and "cn_reads (nr_conn s) = said (conversation recs @ (if last_volume then [] else [next_message]))"
    and "length recs < cn_writes_left (nr_conn s)"
    and "last_volume \<Longrightarrow> if recs = [] then nr_end_acked s else channel_type (record_header (last recs)) = ARCHIVE_END"
  shows "\<exists>s'. read_loop n src s = (Volume_complete, s') \<and>
    cn_sent (nr_conn s') = cn_sent (nr_conn s) @ map frame_message recs @ (if last_volume then [] else [eof_message])"
  using assms
proof (induction recs arbitrary: k files s)
  case Nil
  show ?case
  proof (cases last_volume)
    case True
    then show ?thesis using Nil by (subst read_loop.simps) (simp add: conn_read_def)
  next
    case False
    let ?s = "s\<lparr>nr_conn := (nr_conn s)\<lparr>cn_reads := []\<rparr>\<rparr>"
    from next_sendable [of k files ?s n] Nil.prems(1-3) obtain m t where
      "next_to_send n src ?s = (Inr m, t)" "nr_conn t = (nr_conn s)\<lparr>cn_reads := []\<rparr>" "mr_event m = Ev_end" by auto
    with False Nil.prems(5,6) show ?thesis
      by (subst read_loop.simps) (simp add: conn_read_def next_message_def answer_next_frame_def conn_write_def eof_message_def Let_def)
  qed
next
  case (Cons rec recs)
  let ?g = "global_frame_seq_num (record_header rec)"
  let ?rest = "said (conversation recs @ (if last_volume then [] else [next_message]))"
  let ?c = "(nr_conn s)\<lparr>cn_reads := Inr (Some (ack_message ?g)) # ?rest\<rparr>"
  let ?s = "s\<lparr>nr_conn := ?c\<rparr>"
  from next_sendable [of k files ?s n] Cons.prems(1-3) obtain m t k' files' where
    t: "next_to_send n src ?s = (Inr m, t)" "nr_conn t = ?c" "mr_event m = Ev_record" "mr_record m = rec" "nr_saw_frame t"
    "at k' files' (nr_reader t)" "call_count files' \<le> call_count files" "sendable True (concat files') = recs" by auto
  let ?t = "t\<lparr>nr_records := nr_records t + 1, nr_conn := (nr_conn s)\<lparr>cn_writes_left := cn_writes_left (nr_conn s) - 1,
      cn_sent := cn_sent (nr_conn s) @ [frame_message rec], cn_reads := ?rest\<rparr>,
      nr_end_acked := (channel_type (record_header rec) = ARCHIVE_END)\<rparr>"
  have "read_loop n src s = read_loop n src ?t"
    using Cons.prems(4,5,6) t(1-4) by (subst read_loop.simps)
      (simp add: conn_read_def next_message_def answer_next_frame_def send_record_def conn_write_def frame_message_def
        receive_ack_def ack_message_def Let_def)
  moreover have "if recs = [] then nr_end_acked ?t else channel_type (record_header (last recs)) = ARCHIVE_END" if last_volume
    using Cons.prems(7) that by auto
  ultimately show ?case
    using Cons.IH [of k' files' ?t] Cons.prems(2,4,6) t(5-8) by auto
qed

end

section \<open>The restoration of an archive\<close>

declare serve_readers.simps [simp del]

definition talk :: "nat \<Rightarrow> message list \<Rightarrow> connection" where
  "talk w ms = \<lparr>cn_reads = said ms, cn_writes_left = w, cn_sent = []\<rparr>"

text \<open>
  The extractor serves one connection after the other: in each it reads what a reader
  sends, and sends what that reader reads.
\<close>

fun serves_readers :: "(bytes \<Rightarrow> bytes) \<Rightarrow> ed_open \<Rightarrow> nat \<Rightarrow> extractor \<Rightarrow> (message list \<times> message list) list \<Rightarrow> bool" where
  "serves_readers H ed_open w st [] = True"
| "serves_readers H ed_open w st ((heard, replies) # talks) =
    (case serve_client H ed_open st (talk w heard) of
       (complete, st, c) \<Rightarrow> cn_sent c = replies \<and> (if complete then talks = [] else \<not> ex_fatal st \<and> serves_readers H ed_open w st talks))"

text \<open>What the reader of a volume says, and what it hears.\<close>

fun volume_talks :: "bytes list list \<Rightarrow> (message list \<times> message list) list" where
  "volume_talks [] = []"
| "volume_talks (recs # vols) =
    (map frame_message recs @ (if vols = [] then [] else [eof_message]),
     conversation recs @ (if vols = [] then [] else [next_message])) # volume_talks vols"

lemma restored_begin: "restored b st p \<Longrightarrow> restored b (st\<lparr>ex_validator := begin_connection (ex_validator st)\<rparr>) p"
  by (simp add: restored_def healthy_def begin_connection_def tracks_def tracks_identity_def tracks_slices_def tracks_channels_def)

lemma volumes_served:
  assumes "restored b st (taken H old)" and "list_all (restorable H ed_open (ex_keys st) (ex_require_signed st)) (old @ concat vols)"
    and "archive_prefix (map record_header old) (map record_header (concat vols))" and "\<not> archive_ended (map record_header old)"
    and "archive_ended (map record_header (last vols))" and "vols \<noteq> []" and "\<forall>recs \<in> set vols. 2 * length recs < w"
  shows "serves_readers H ed_open w st (volume_talks vols) \<and>
    (\<exists>st'. serve_readers H ed_open st (map (talk w \<circ> fst) (volume_talks vols)) = (Extract_complete (ex_processed st'), st') \<and>
       restored b st' (taken H (old @ concat vols)))"
  using assms
proof (induction vols arbitrary: old st)
  case (Cons recs vols)
  let ?st = "st\<lparr>ex_validator := begin_connection (ex_validator st)\<rparr>"
  have rec: "list_all (restorable H ed_open (ex_keys ?st) (ex_require_signed ?st)) (old @ recs)" using Cons.prems(2) by simp
  have pre: "archive_prefix (map record_header old) (map record_header recs)"
    "archive_prefix (map record_header (old @ recs)) (map record_header (concat vols))"
    using Cons.prems(3) by (simp_all add: archive_prefix_append)
  have last: "archive_ended (map record_header recs) \<longleftrightarrow> vols = []"
  proof
    assume "vols = []" then show "archive_ended (map record_header recs)" using Cons.prems(5) by simp
  next
    assume e: "archive_ended (map record_header recs)"
    show "vols = []"
    proof (rule ccontr)
      assume "vols \<noteq> []"
      then have "archive_ended (map record_header (last vols))" "last vols \<in> set vols" using Cons.prems(5) by simp_all
      then have "last vols \<noteq> []" "last vols \<in> set vols" by (auto simp: archive_ended_def)
      then have "concat vols \<noteq> []" by auto
      then obtain r rs where "concat vols = r # rs" by (cases "concat vols") auto
      then show False using pre(2) e by (simp add: fits_def)
    qed
  qed
  let ?heard = "map frame_message recs @ (if vols = [] then [] else [eof_message])"
  have r: "restored b ?st (taken H old)" using Cons.prems(1) by (rule restored_begin)
  have c: "cn_reads (talk w ?heard) = said (map frame_message recs @ (if vols = [] then [] else [eof_message]))"
    "2 * length recs < cn_writes_left (talk w ?heard)" using Cons.prems(7) by (simp_all add: talk_def)
  from serve_conversation [OF r rec pre(1) Cons.prems(4) c] last obtain st1 c1 where
    s: "serve_client H ed_open st (talk w ?heard) = (vols = [], st1, c1)" "restored b st1 (taken H (old @ recs))"
    "ex_keys st1 = ex_keys st" "ex_require_signed st1 = ex_require_signed st"
    "cn_sent c1 = conversation recs @ (if vols = [] then [] else [next_message])"
    by (auto simp: serve_client_def talk_def)
  have nf: "\<not> ex_fatal st1" "\<not> ex_saw_archive_end st"
    using s(2) Cons.prems(1,2,4) taken_headers [of H ed_open "ex_keys st" "ex_require_signed st" old]
    by (simp_all add: restored_def healthy_def)
  show ?case
  proof (cases "vols = []")
    case True
    then show ?thesis using s nf by (subst serve_readers.simps) auto
  next
    case False
    have "list_all (restorable H ed_open (ex_keys st1) (ex_require_signed st1)) ((old @ recs) @ concat vols)"
      using Cons.prems(2) s(3,4) by simp
    moreover have "\<not> archive_ended (map record_header (old @ recs))" using Cons.prems(4) last False by simp
    ultimately have "serves_readers H ed_open w st1 (volume_talks vols) \<and>
      (\<exists>st'. serve_readers H ed_open st1 (map (talk w \<circ> fst) (volume_talks vols)) = (Extract_complete (ex_processed st'), st') \<and>
       restored b st' (taken H ((old @ recs) @ concat vols)))"
      using Cons.IH [OF s(2) _ pre(2)] Cons.prems(5,7) False by (simp add: o_def)
    moreover have "serve_readers H ed_open st (map (talk w \<circ> fst) (volume_talks (recs # vols))) =
        serve_readers H ed_open st1 (map (talk w \<circ> fst) (volume_talks vols))"
      using s(1) nf False by (subst serve_readers.simps) simp
    ultimately show ?thesis using s nf False by (simp add: o_def)
  qed
qed simp

lemma archive_end_last: "archive_prefix p hs \<Longrightarrow> archive_ended hs \<Longrightarrow> hs \<noteq> [] \<and> channel_type (last hs) = ARCHIVE_END"
proof (induction hs arbitrary: p)
  case (Cons h hs)
  show ?case
  proof (cases "channel_type h = ARCHIVE_END")
    case True
    with Cons.prems(1) have "hs = []" by (cases hs) (auto simp: fits_def)
    with True show ?thesis by simp
  next
    case False
    with Cons.prems(2) have "archive_ended hs" by (simp add: archive_ended_def)
    with Cons.IH [of "p @ [h]"] Cons.prems(1) show ?thesis by simp
  qed
qed simp

definition converses :: "nat \<Rightarrow> nat \<Rightarrow> 'r record_source \<Rightarrow> 'r \<Rightarrow> message list \<times> message list \<Rightarrow> bool" where
  "converses n w src r x \<longleftrightarrow> (case x of (says, hears) \<Rightarrow>
     \<exists>s'. run_read n src r (talk w hears) = (Volume_complete, s') \<and> cn_sent (nr_conn s') = says)"

context medium
begin

lemma volumes_read:
  assumes "list_all2 (at 0) volumes readers" and "vols = map (\<lambda>files. sendable False (concat files)) volumes"
    and "list_all (\<lambda>rec. parse_fixed_header rec = Inr (record_header rec)) (concat vols)" and "\<forall>files \<in> set volumes. call_count files < n"
    and "\<forall>recs \<in> set vols. length recs < w" and "vols \<noteq> []"
    and "last vols \<noteq> [] \<and> channel_type (record_header (last (last vols))) = ARCHIVE_END"
  shows "list_all2 (converses n w src) readers (volume_talks vols)"
  using assms
proof (induction volumes readers arbitrary: vols rule: list_all2_induct)
  case (Cons files volumes r readers)
  let ?recs = "sendable False (concat files)" and ?vols = "map (\<lambda>files. sendable False (concat files)) volumes"
  have vols: "vols = ?recs # ?vols" using Cons.prems(1) by simp
  let ?s = "new_read_session r (talk w (conversation ?recs @ (if ?vols = [] then [] else [next_message])))"
  have "at 0 files (nr_reader ?s)" "call_count files < n" "sendable (nr_saw_frame ?s) (concat files) = ?recs"
    "list_all (\<lambda>rec. parse_fixed_header rec = Inr (record_header rec)) ?recs"
    "cn_reads (nr_conn ?s) = said (conversation ?recs @ (if ?vols = [] then [] else [next_message]))"
    "length ?recs < cn_writes_left (nr_conn ?s)"
    "?vols = [] \<Longrightarrow> if ?recs = [] then nr_end_acked ?s else channel_type (record_header (last ?recs)) = ARCHIVE_END"
    using Cons.hyps(1) Cons.prems vols by (auto simp: new_read_session_def talk_def)
  from loop_converses [OF this] have "converses n w src r (map frame_message ?recs @ (if ?vols = [] then [] else [eof_message]),
      conversation ?recs @ (if ?vols = [] then [] else [next_message]))"
    by (auto simp: converses_def run_read_def new_read_session_def talk_def)
  moreover have "list_all2 (converses n w src) readers (volume_talks ?vols)"
  proof (cases "?vols = []")
    case True
    then show ?thesis using Cons.hyps(2) by simp
  next
    case False
    then show ?thesis using Cons.IH [of ?vols] Cons.prems vols by simp
  qed
  ultimately show ?case unfolding vols by simp
qed simp

end

section \<open>Properties\<close>

lemma new_session_fields: "nr_conn (new_read_session r c) = c" "nr_end_acked (new_read_session r c) = False"
  by (simp_all add: new_read_session_def)

text \<open>C35. \<open>neotape-read\<close> sends the frames of its medium.  Whatever the extractor answers and whatever is
  on the spool or tape, the messages sent are some of the first sendable records, unchanged and in
  order, and perhaps an end of tape; and when it reports a complete volume, each of them was acknowledged with
  its number, and either all were sent and then the end of tape, or the last one sent is an archive end.\<close>
theorem read_forwards_frames:
  assumes "reader_at H block k files r" and "call_count files < n"
    and "run_read n (reader_source (Suc m) H name ideal_drive) r c = (out, s')"
  shows "\<exists>j eof used. let recs = sendable False (concat files) in
    cn_sent (nr_conn s') = cn_sent c @ map frame_message (take j recs) @ (if eof then [eof_message] else []) \<and>
    cn_reads c = used @ cn_reads (nr_conn s') \<and>
    (out = Volume_complete \<longrightarrow>
       acked_numbers used = map (\<lambda>rec. global_frame_seq_num (record_header rec)) (take j recs) \<and>
       (if eof then length recs \<le> j else take j recs \<noteq> [] \<and> channel_type (record_header (last (take j recs))) = ARCHIVE_END))"
proof -
  have "reader_at H block k files (nr_reader (new_read_session r c))" using assms(1) by (simp add: new_read_session_def)
  from reader.loop_forwards [OF this assms(2), of m name] assms(3)
  have "forwarded (sendable False (concat files)) (new_read_session r c) (out, s')" by (simp add: run_read_def new_read_session_def)
  from this [unfolded forwarded_def prod.case new_session_fields] obtain j eof used where f: "cn_sent (nr_conn s') = cn_sent c @ map frame_message (take j (sendable False (concat files))) @ (if eof then [eof_message] else [])"
    "cn_reads c = used @ cn_reads (nr_conn s')"
    "out = Volume_complete \<longrightarrow>
        acked_numbers used = map (\<lambda>rec. global_frame_seq_num (record_header rec)) (take j (sendable False (concat files))) \<and>
        (eof \<and> length (sendable False (concat files)) \<le> j \<or> \<not> eof \<and> (if take j (sendable False (concat files)) = [] then False
           else channel_type (record_header (last (take j (sendable False (concat files))))) = ARCHIVE_END))"
    by blast
  show ?thesis
    by (intro exI [of _ j] exI [of _ eof] exI [of _ used]) (use f in \<open>simp add: Let_def split: if_splits\<close>)
qed

text \<open>C1. An archive is restored from its volumes.  When the frames that the readers send from their spools or tapes, one volume
  after the other, are an intact and complete archive that the signature policy accepts, and the outputs take
  all bytes, then the conversation of the readers with the extractor is this: each reader sends the frames of its
  volume and reports it complete, the extractor answers just what the readers hear, it completes, and
  its output is what it was before, followed by the content payloads in order.\<close>
theorem archive_restored:
  assumes "list_all2 (reader_at H block 0) volumes readers"
    and "vols = map (\<lambda>files. sendable False (concat files)) volumes" and "volumes \<noteq> []"
    and "list_all (restorable H ed_open (xo_keys opts) (xo_require_signed opts)) (concat vols)"
    and "archive_prefix [] (map record_header (concat vols))" and "archive_ended (map record_header (last vols))"
    and "\<forall>files \<in> set volumes. call_count files < n" and "\<forall>recs \<in> set vols. 2 * length recs < w"
    and "healthy (initial_extractor opts)"
  shows "list_all2 (converses n w (reader_source (Suc m) H name ideal_drive)) readers (volume_talks vols) \<and>
    serves_readers H ed_open w (initial_extractor opts) (volume_talks vols) \<and>
    (\<exists>st. run_tcp_extractor H ed_open opts (map (talk w \<circ> fst) (volume_talks vols)) =
       (Extract_complete (word_of_nat (length (concat vols))), st) \<and>
       of_bytes (ex_output st) = of_bytes (xo_output opts) @ record_content (concat vols))"
proof -
  let ?st = "initial_extractor opts" and ?b = "of_bytes (xo_output opts)"
  have st: "ex_keys ?st = xo_keys opts" "ex_require_signed ?st = xo_require_signed opts" by (simp_all add: initial_extractor_def)
  have ne: "vols \<noteq> []" using assms(2,3) by simp
  have r: "restored ?b ?st (taken H [])"
    using assms(9) tracks_initial by (simp add: restored_def initial_extractor_def)
  from volumes_served [OF r _ _ _ assms(6) ne, of ed_open w] assms(4,5,8) st obtain st' where s:
    "serves_readers H ed_open w ?st (volume_talks vols)"
    "serve_readers H ed_open ?st (map (talk w \<circ> fst) (volume_talks vols)) = (Extract_complete (ex_processed st'), st')"
    "restored ?b st' (taken H (concat vols))" by auto
  have p: "list_all (\<lambda>rec. parse_fixed_header rec = Inr (record_header rec)) (concat vols)"
    using assms(4) by (auto simp: list_all_iff restorable_def elim!: intact_frame)
  have l: "last vols \<noteq> [] \<and> channel_type (record_header (last (last vols))) = ARCHIVE_END"
  proof -
    have "concat vols = concat (butlast vols) @ last vols" using ne by (metis append_butlast_last_id concat.simps concat_append append_Nil2)
    then have "archive_prefix (map record_header (concat (butlast vols))) (map record_header (last vols))"
      using assms(5) by (simp add: archive_prefix_append)
    from archive_end_last [OF this assms(6)] show ?thesis by (auto simp: last_map)
  qed
  have lw: "\<forall>recs \<in> set vols. length recs < w" using assms(8) by fastforce
  have "list_all2 (converses n w (reader_source (Suc m) H name ideal_drive)) readers (volume_talks vols)"
    by (rule reader.volumes_read [OF assms(1,2) p assms(7) lw ne l])
  moreover have "ex_processed st' = word_of_nat (length (concat vols))" "of_bytes (ex_output st') = ?b @ record_content (concat vols)"
    using s(3) taken_content [OF assms(4)] by (simp_all add: restored_def taken_def)
  ultimately show ?thesis using s(1,2) by (simp add: run_tcp_extractor_def)
qed

lemma sample_sendable: "sendable False (concat sample_volume) = [sample_catalog_record, sample_content_record, sample_end_record]"
  by (simp add: sendable_simps sample_volume_def sample_magic sample_parses is_ok_def)

lemma sample_record_headers:
  "record_header sample_catalog_record = sample_frame CH_METADATA 0" "record_header sample_content_record = sample_frame CH_CONTENT 1"
  "record_header sample_end_record = sample_frame ARCHIVE_END 2"
  by (simp_all add: record_header_def sample_parses)

text \<open>An extractor that asks for one frame and goes away.\<close>

theorem read_forwards_frames_witness:
  "\<exists>s' j eof. cn_sent (nr_conn s') = map frame_message (take j [sample_catalog_record, sample_content_record, sample_end_record]) @ (if eof then [eof_message] else []) \<and>
     snd (run_read 8 (reader_source 1 zero_hash ''t'' ideal_drive) (Inr (new_tape_reader (loaded_tape sample_volume))) (talk 9 [next_message])) = s'"
proof -
  obtain out s' where s: "run_read 8 (reader_source (Suc 0) zero_hash ''t'' ideal_drive) (Inr (new_tape_reader (loaded_tape sample_volume)))
      (talk 9 [next_message]) = (out, s')" by force
  have "call_count sample_volume < 8" by (simp add: call_count_def sample_volume_def)
  from read_forwards_frames [OF sample_reader_at this s] obtain j eof where
    "cn_sent (nr_conn s') = cn_sent (talk 9 [next_message]) @ map frame_message (take j (sendable False (concat sample_volume))) @ (if eof then [eof_message] else [])"
    unfolding Let_def by blast
  then show ?thesis using s unfolding sample_sendable
    by (intro exI [of _ s'] exI [of _ j] exI [of _ eof]) (simp add: talk_def)
qed

theorem archive_restored_witness:
  "\<exists>s' st. run_read 8 (reader_source 1 zero_hash ''t'' ideal_drive) (Inr (new_tape_reader (loaded_tape sample_volume)))
       (talk 9 (conversation [sample_catalog_record, sample_content_record, sample_end_record])) = (Volume_complete, s') \<and>
     cn_sent (nr_conn s') = map frame_message [sample_catalog_record, sample_content_record, sample_end_record] \<and>
     run_tcp_extractor zero_hash toy_open sample_extractor_options
       [talk 9 (map frame_message [sample_catalog_record, sample_content_record, sample_end_record])] = (Extract_complete 3, st) \<and>
     of_bytes (ex_output st) = [9, 11, 12, 13, 14, 15, 16, 17, 18, 19, 20]"
proof -
  let ?recs = "[sample_catalog_record, sample_content_record, sample_end_record]" and ?r = "Inr (new_tape_reader (loaded_tape sample_volume))"
  have opts: "xo_keys sample_extractor_options = []" "\<not> xo_require_signed sample_extractor_options" "of_bytes (xo_output sample_extractor_options) = [9]"
    "healthy (initial_extractor sample_extractor_options)"
    by (simp_all add: sample_extractor_options_def healthy_def initial_extractor_def unlimited_def)
  have at: "list_all2 (reader_at zero_hash 4096 0) [sample_volume] [?r]" by (simp add: sample_reader_at)
  have vols: "[?recs] = map (\<lambda>files. sendable False (concat files)) [sample_volume]" by (simp add: sample_sendable)
  have ok: "list_all (restorable zero_hash toy_open (xo_keys sample_extractor_options) (xo_require_signed sample_extractor_options)) (concat [?recs])"
    using opts by (simp add: restorable_def sample_record_headers sample_intact_headers sample_unsigned)
  have pre: "archive_prefix [] (map record_header (concat [?recs]))" "archive_ended (map record_header (last [?recs]))"
    using sample_archive_prefix by (simp_all add: sample_record_headers archive_ended_def sample_frame_def)
  have count: "\<forall>files \<in> set [sample_volume]. call_count files < 8" "\<forall>recs \<in> set [?recs]. 2 * length recs < 9"
    by (simp_all add: call_count_def sample_volume_def)
  have "frame_payload sample_content_record (sample_frame CH_CONTENT 1) = [11, 12, 13, 14, 15, 16, 17, 18, 19, 20]"
    using frame_image_payload [of "[11, 12, 13, 14, 15, 16, 17, 18, 19, 20]" 10 CH_CONTENT 1]
    by (simp add: frame_payload_def sample_content_record_def fixed_header_size_def)
  then have "record_content ?recs = [11, 12, 13, 14, 15, 16, 17, 18, 19, 20]"
    by (simp add: record_content_def sample_record_headers)
  with archive_restored [OF at vols _ ok pre count opts(4), of 0 "''t''"] opts(3) show ?thesis
    by (auto simp: converses_def run_read_def)
qed

end
