(* ===== verification/CatalogCmdSpec.thy ===== *)
theory CatalogCmdSpec
  imports CatalogCmd ReadCmdSpec
begin

text \<open>
  What \<open>neotape-catalog\<close> prints: only payloads of checked frames of the catalog, all of a catalog
  that is on the medium, and a summary that is the table of the plan's slices.
\<close>

section \<open>The frames of the stream\<close>

definition catalog_payload :: "bytes \<Rightarrow> bytes" where
  "catalog_payload rec = frame_payload rec (record_header rec)"

definition catalog_record :: "(bytes \<Rightarrow> bytes) \<Rightarrow> ed_open \<Rightarrow> public_key list \<Rightarrow> bool \<Rightarrow> bytes \<Rightarrow> bool" where
  "catalog_record H ed_open keys required rec \<longleftrightarrow> intact_header H rec = Some (record_header rec) \<and>
     channel_type (record_header rec) = CH_METADATA \<and> sig_error (validate_frame_signature ed_open (record_header rec) keys required) = None"

definition arrivals :: "(bytes \<Rightarrow> bytes) \<Rightarrow> bytes list \<Rightarrow> arrival list" where
  "arrivals H recs = map (\<lambda>rec. Arrived (projr (check_frame H rec)) rec) recs"

lemma arrivals_simps [simp]:
  "arrivals H [] = []" "arrivals H (rec # recs) = Arrived (projr (check_frame H rec)) rec # arrivals H recs"
  by (simp_all add: arrivals_def)

text \<open>The records taken from a stream in state s, after which it is in state s'.\<close>

definition ends_catalog :: "bytes \<Rightarrow> bool" where
  "ends_catalog rec \<longleftrightarrow> has_frame_flag_end (flags (record_header rec))"

lemma take_frame_taken:
  assumes "take_frame H ed_open keys required rec s = Inr (bs, s')"
  shows "bs = catalog_payload rec \<and> catalog_record H ed_open keys required rec \<and> cs_saw_frame s' \<and> cs_reader s' = cs_reader s \<and>
    (cs_ended s' \<longleftrightarrow> ends_catalog rec) \<and>
    validate H (cs_validator s) (projr (check_frame H rec)) rec False = (cs_validator s', None)"
proof -
  from assms obtain f v where f: "check_frame H rec = Inr f" "check_place (cs_saw_frame s) (header f) = None"
    "validate H (cs_validator s) f rec False = (v, None)" "sig_error (validate_frame_signature ed_open (header f) keys required) = None"
    "bs = frame_payload rec (header f)"
    "s' = s\<lparr>cs_saw_frame := True, cs_validator := v, cs_ended := has_frame_flag_end (flags (header f))\<rparr>"
    by (auto simp: take_frame_def split: sum.splits option.splits prod.splits)
  have h: "record_header rec = header f" using check_frame_InrD(1) [OF f(1)] by (simp add: record_header_def)
  have "hash_ok f"
  proof -
    obtain v1 where c: "check_replay H ((cs_validator s)\<lparr>last_was_replay := False\<rparr>) f rec = (v1, None)"
      using f(3) by (cases "check_replay H ((cs_validator s)\<lparr>last_was_replay := False\<rparr>) f rec") (auto simp: validate_def split: option.splits)
    show ?thesis
    proof (cases "last_was_replay v1")
      case True
      with check_replay_cases [OF c] show ?thesis by auto
    next
      case False
      with f(3) c show ?thesis by (auto simp: validate_def validate_new_def Let_def split: if_splits)
    qed
  qed
  moreover have "channel_type (header f) = CH_METADATA" using f(2) by (auto simp: check_place_def split: if_splits)
  ultimately show ?thesis using f h by (auto simp: catalog_record_def intact_header_def ends_catalog_def catalog_payload_def)
qed

lemma load_frame_cases:
  assumes "load_frame src H ed_open keys required s = Inr (bs, s')"
  shows "bs = [] \<and> \<not> cs_saw_frame s \<and> cs_validator s' = cs_validator s \<and> cs_saw_frame s' = cs_saw_frame s \<and> cs_ended s' = cs_ended s \<or>
    (\<exists>rec. bs = catalog_payload rec \<and> catalog_record H ed_open keys required rec \<and> cs_saw_frame s' \<and> (cs_ended s' \<longleftrightarrow> ends_catalog rec) \<and>
       validate H (cs_validator s) (projr (check_frame H rec)) rec False = (cs_validator s', None))"
  using assms
  by (auto simp: load_frame_def Let_def split: sum.splits prod.splits if_splits dest!: take_frame_taken)

lemma catalog_bytes_taken:
  "catalog_bytes n src H ed_open keys required s = (bs, res) \<Longrightarrow> \<not> cs_ended s \<Longrightarrow>
   \<exists>recs hs. bs = concat (map catalog_payload recs) \<and> list_all (catalog_record H ed_open keys required) recs \<and>
     receive H (\<lambda>_. False) (cs_validator s) (arrivals H recs) = (hs, True) \<and>
     list_all (\<lambda>rec. \<not> ends_catalog rec) (butlast recs) \<and> (\<forall>s'. res = Inr s' \<longrightarrow> recs \<noteq> [] \<and> ends_catalog (last recs))"
proof (induction n arbitrary: s bs res)
  case 0
  then show ?case by (intro exI [of _ "[]"]) auto
next
  case (Suc n)
  show ?case
  proof (cases "load_frame src H ed_open keys required s")
    case (Inl e)
    with Suc.prems show ?thesis by (intro exI [of _ "[]"]) auto
  next
    case (Inr x)
    then obtain b t where l: "load_frame src H ed_open keys required s = Inr (b, t)" by (cases x) auto
    obtain rest where r: "catalog_bytes n src H ed_open keys required t = (rest, res)" "bs = b @ rest"
      using Suc.prems l by (auto split: prod.splits)
    from load_frame_cases [OF l] show ?thesis
    proof (elim disjE conjE exE)
      assume "b = []" "cs_validator t = cs_validator s" "cs_ended t = cs_ended s"
      with Suc.IH [OF r(1)] Suc.prems(2) r(2) show ?thesis by simp
    next
      fix rec assume rec: "b = catalog_payload rec" "catalog_record H ed_open keys required rec" "cs_ended t \<longleftrightarrow> ends_catalog rec"
        "validate H (cs_validator s) (projr (check_frame H rec)) rec False = (cs_validator t, None)"
      show ?thesis
      proof (cases "ends_catalog rec")
        case True
        with rec(3) r(1) have "rest = []" "res = Inr t" by (cases n; simp)+
        with rec True r(2) show ?thesis by (intro exI [of _ "[rec]"]) auto
      next
        case False
        with rec(3) Suc.IH [OF r(1)] obtain recs hs where recs: "rest = concat (map catalog_payload recs)"
          "list_all (catalog_record H ed_open keys required) recs" "receive H (\<lambda>_. False) (cs_validator t) (arrivals H recs) = (hs, True)"
          "list_all (\<lambda>rec. \<not> ends_catalog rec) (butlast recs)" "\<forall>s'. res = Inr s' \<longrightarrow> recs \<noteq> [] \<and> ends_catalog (last recs)" by blast
        then show ?thesis using rec r(2) False by (intro exI [of _ "rec # recs"]) auto
      qed
    qed
  qed
qed

lemma catalog_record_sized: "catalog_record H ed_open keys required rec \<Longrightarrow> sized (Arrived (projr (check_frame H rec)) rec)"
proof -
  assume "catalog_record H ed_open keys required rec"
  then obtain f where f: "check_frame H rec = Inr f" by (auto simp: catalog_record_def intact_header_def split: sum.splits)
  show ?thesis using validate_header_block [OF parse_InrD(9) [OF check_frame_InrD(1) [OF f]]] f by (auto simp: sized_def)
qed

section \<open>A catalog on a medium\<close>

definition foreign_file :: "bytes list \<Rightarrow> bool" where
  "foreign_file recs \<longleftrightarrow> (case recs of [] \<Rightarrow> True | rec # _ \<Rightarrow> \<not> has_frame_magic rec)"

lemma take_frame_accepts:
  assumes "tracks (cs_validator s) p" and "cs_saw_frame s = (p \<noteq> [])" and "catalog_record H ed_open keys required rec" and "fits p (record_header rec)"
  shows "\<exists>v. take_frame H ed_open keys required rec s = Inr (catalog_payload rec,
      s\<lparr>cs_saw_frame := True, cs_validator := v, cs_ended := ends_catalog rec\<rparr>) \<and> tracks v (p @ [record_header rec])"
proof -
  note c = assms(3) [unfolded catalog_record_def]
  then obtain f where f: "check_frame H rec = Inr f" "header f = record_header rec" by (auto elim!: intact_frame)
  from validate_fits [OF assms(1) _ assms(4) f(1)] c obtain v where
    v: "validate H (cs_validator s) f rec False = (v, None)" "tracks v (p @ [record_header rec])" by blast
  have "check_place (cs_saw_frame s) (header f) = None"
    using assms(2,4) c f(2) by (cases "p = []") (auto simp: check_place_def fits_def)
  then show ?thesis using f c v by (auto simp: take_frame_def catalog_payload_def ends_catalog_def)
qed

lemma catalog_record_magic: "catalog_record H ed_open keys required rec \<Longrightarrow> has_frame_magic rec"
  by (auto simp: catalog_record_def dest!: intact_headerD(1) simp: parse_fixed_header_def split: if_splits)

context medium
begin

lemma catalog_frames:
  assumes "at k ((recs @ rest) # files) (cs_reader s)" and "tracks (cs_validator s) p" and "cs_saw_frame s = (p \<noteq> [])" and "\<not> cs_ended s"
    and "list_all (catalog_record H ed_open keys required) recs" and "archive_prefix p (map record_header recs)"
    and "recs \<noteq> []" and "ends_catalog (last recs)" and "list_all (\<lambda>rec. \<not> ends_catalog rec) (butlast recs)" and "length recs \<le> n"
  shows "\<exists>s'. catalog_bytes n src H ed_open keys required s = (concat (map catalog_payload recs), Inr s') \<and> at k (rest # files) (cs_reader s')"
  using assms
proof (induction recs arbitrary: s p n)
  case (Cons rec recs)
  obtain m where n: "n = Suc m" using Cons.prems(10) by (cases n) auto
  from at_record [of k rec "recs @ rest" files "cs_reader s"] Cons.prems(1) obtain mr r' where r: "rs_next src (cs_reader s) = Inr (mr, r')"
    "mr_event mr = Ev_record" "mr_record mr = rec" "at k ((recs @ rest) # files) r'" by auto
  have c: "catalog_record H ed_open keys required rec" "fits p (record_header rec)" using Cons.prems(5,6) by auto
  from take_frame_accepts [of "s\<lparr>cs_reader := r'\<rparr>" p, OF _ _ c] Cons.prems(2,3) obtain v where
    t: "take_frame H ed_open keys required rec (s\<lparr>cs_reader := r'\<rparr>) = Inr (catalog_payload rec,
      s\<lparr>cs_reader := r', cs_saw_frame := True, cs_validator := v, cs_ended := ends_catalog rec\<rparr>)" "tracks v (p @ [record_header rec])" by auto
  let ?t = "s\<lparr>cs_reader := r', cs_saw_frame := True, cs_validator := v, cs_ended := ends_catalog rec\<rparr>"
  have l: "load_frame src H ed_open keys required s = Inr (catalog_payload rec, ?t)"
    using r t(1) catalog_record_magic [OF c(1)] by (simp add: load_frame_def Let_def)
  show ?case
  proof (cases "recs = []")
    case True
    then have "catalog_bytes m src H ed_open keys required ?t = ([], Inr ?t)" using Cons.prems(8) by (cases m) simp_all
    then show ?thesis using l n Cons.prems(4) r(4) True by simp
  next
    case False
    have "\<not> cs_ended ?t" using Cons.prems(9) False by simp
    moreover have "archive_prefix (p @ [record_header rec]) (map record_header recs)" using Cons.prems(6) by simp
    ultimately obtain s' where "catalog_bytes m src H ed_open keys required ?t = (concat (map catalog_payload recs), Inr s')"
      "at k (rest # files) (cs_reader s')"
      using Cons.IH [of ?t "p @ [record_header rec]" m] r(4) t(2) Cons.prems False n by auto
    then show ?thesis using l n Cons.prems(4) by simp
  qed
qed simp

lemma catalog_foreign:
  assumes "at k (foreign @ files) (cs_reader s)" and "list_all foreign_file foreign" and "\<not> cs_saw_frame s" and "\<not> cs_ended s"
  shows "\<exists>r. at (k + length foreign) files r \<and>
    catalog_bytes (length foreign + n) src H ed_open keys required s = catalog_bytes n src H ed_open keys required (s\<lparr>cs_reader := r\<rparr>)"
  using assms
proof (induction foreign arbitrary: k s)
  case Nil
  then show ?case by (intro exI [of _ "cs_reader s"]) simp
next
  case (Cons f foreign)
  have "\<exists>r. load_frame src H ed_open keys required s = Inr ([], s\<lparr>cs_reader := r\<rparr>) \<and> at (Suc k) (foreign @ files) r"
  proof (cases f)
    case Nil
    with at_filemark [of k "foreign @ files" "cs_reader s"] Cons.prems(1) obtain m r where
      "rs_next src (cs_reader s) = Inr (m, r)" "mr_event m = Ev_filemark" "at (Suc k) (foreign @ files) r" by auto
    then show ?thesis using Cons.prems(3) by (auto simp: load_frame_def)
  next
    case (Cons rec recs)
    with at_record [of k rec recs "foreign @ files" "cs_reader s"] Cons.prems(1) obtain m r where
      m: "rs_next src (cs_reader s) = Inr (m, r)" "mr_event m = Ev_record" "mr_record m = rec" "at k (recs # foreign @ files) r" by auto
    from at_skip [OF m(4)] obtain r' where "rs_skip src r = Inr r'" "at (Suc k) (foreign @ files) r'" by blast
    moreover have "\<not> has_frame_magic rec" using Cons.prems(2) Cons by (simp add: foreign_file_def)
    ultimately show ?thesis using m Cons.prems(3) by (auto simp: load_frame_def Let_def)
  qed
  then obtain r where r: "load_frame src H ed_open keys required s = Inr ([], s\<lparr>cs_reader := r\<rparr>)" "at (Suc k) (foreign @ files) r" by blast
  with Cons.IH [of "Suc k" "s\<lparr>cs_reader := r\<rparr>"] Cons.prems obtain r' where
    "at (Suc k + length foreign) files r'"
    "catalog_bytes (length foreign + n) src H ed_open keys required (s\<lparr>cs_reader := r\<rparr>) =
      catalog_bytes n src H ed_open keys required (s\<lparr>cs_reader := r'\<rparr>)" by auto
  then show ?case using r(1) Cons.prems(4) by (auto intro!: exI [of _ r'])
qed

lemma catalog_on_medium:
  assumes "at k (foreign @ (recs @ rest) # files) r" and "list_all foreign_file foreign"
    and "list_all (catalog_record H ed_open keys required) recs" and "archive_prefix [] (map record_header recs)"
    and "recs \<noteq> []" and "ends_catalog (last recs)" and "list_all (\<lambda>rec. \<not> ends_catalog rec) (butlast recs)"
    and "length foreign + length recs \<le> n"
  shows "\<exists>s'. catalog_bytes n src H ed_open keys required (new_catalog_stream r) = (concat (map catalog_payload recs), Inr s') \<and>
    at (k + length foreign) (rest # files) (cs_reader s')"
proof -
  let ?s = "new_catalog_stream r" and ?n = "n - length foreign"
  have s: "cs_reader ?s = r" "\<not> cs_saw_frame ?s" "\<not> cs_ended ?s" "cs_validator ?s = initial_validator"
    by (simp_all add: new_catalog_stream_def)
  have at: "at k (foreign @ (recs @ rest) # files) (cs_reader ?s)" using assms(1) s(1) by simp
  from catalog_foreign [OF at assms(2) s(2,3), of ?n H ed_open keys required] obtain r' where r': "at (k + length foreign) ((recs @ rest) # files) r'"
    "catalog_bytes n src H ed_open keys required ?s = catalog_bytes ?n src H ed_open keys required (?s\<lparr>cs_reader := r'\<rparr>)"
    using assms(8) by auto
  have "at (k + length foreign) ((recs @ rest) # files) (cs_reader (?s\<lparr>cs_reader := r'\<rparr>))" "tracks (cs_validator (?s\<lparr>cs_reader := r'\<rparr>)) []"
    "cs_saw_frame (?s\<lparr>cs_reader := r'\<rparr>) = ([] \<noteq> [])" "\<not> cs_ended (?s\<lparr>cs_reader := r'\<rparr>)" "length recs \<le> ?n"
    using r'(1) s tracks_initial assms(8) by simp_all
  from catalog_frames [OF this(1-4) assms(3-7) this(5)] show ?thesis unfolding r'(2) .
qed

end

section \<open>The summary\<close>

text \<open>The table of the slices below n of the entries, and of all of them.\<close>

definition slice_entries :: "planned_entry list \<Rightarrow> nat \<Rightarrow> planned_entry list" where
  "slice_entries es i = filter (\<lambda>e. unat (pe_slice e) = i) es"

definition entry_bytes :: "planned_entry list \<Rightarrow> u64" where
  "entry_bytes es = sum_list (map pe_size es)"

definition slice_row :: "planned_entry list \<Rightarrow> nat \<Rightarrow> string" where
  "slice_row es i = summary_row (word_of_nat i) (word_of_nat (length (slice_entries es i))) (entry_bytes (slice_entries es i))"

definition slice_total :: "planned_entry list \<Rightarrow> nat" where
  "slice_total es = (if es = [] then 0 else Suc (unat (pe_slice (last es))))"

definition summary_table :: "planned_entry list \<Rightarrow> string" where
  "summary_table es = summary_heading @ concat (map (slice_row es) [0..<slice_total es]) @
     ''total: slices='' @ decimal (slice_total es) @ '' entries='' @ decimal (length es) @
     '' bytes='' @ decimal (unat (entry_bytes es)) @ [LF]"

lemma summary_loop_append:
  "summary_loop (xs @ ys) s = (case summary_loop xs s of (t, s1) \<Rightarrow> case summary_loop ys s1 of (u, s2) \<Rightarrow> (t @ u, s2))"
  by (induction xs s rule: summary_loop.induct) (simp_all add: Let_def split: prod.splits)

lemma contiguous_snoc:
  "contiguous p (es @ [e]) \<longleftrightarrow> contiguous p es \<and> next_in_plan (if es = [] then p else Some (last es)) e"
  by (induction es arbitrary: p) simp_all

lemma next_slice:
  assumes "next_in_plan (Some p) e"
  shows "unat (pe_slice p) \<le> unat (pe_slice e)" and "pe_slice e \<noteq> pe_slice p \<Longrightarrow> unat (pe_slice e) = Suc (unat (pe_slice p)) \<and> pe_slice e = pe_slice p + 1"
  using assms word_next_iff [of "pe_slice e" "pe_slice p"] by (auto simp: follows_def split: if_splits)

lemma slices_upto_last:
  "contiguous p es \<Longrightarrow> es \<noteq> [] \<Longrightarrow> e \<in> set es \<Longrightarrow> unat (pe_slice e) \<le> unat (pe_slice (last es))"
proof (induction es rule: rev_induct)
  case (snoc x es)
  show ?case
  proof (cases "es = []")
    case False
    then have n: "next_in_plan (Some (last es)) x" "contiguous p es" using snoc.prems(1) by (simp_all add: contiguous_snoc)
    then have "unat (pe_slice (last es)) \<le> unat (pe_slice x)" using next_slice by blast
    with snoc.IH [OF n(2) False] snoc.prems(3) show ?thesis by fastforce
  qed (use snoc in simp)
qed simp

text \<open>The counters behind some entries of a plan: the rows before the last slice are printed.\<close>

definition summarised :: "planned_entry list \<Rightarrow> string \<times> summary_state \<Rightarrow> bool" where
  "summarised es x \<longleftrightarrow> (case x of (t, s) \<Rightarrow> let k = unat (pe_slice (last es)); before = filter (\<lambda>e. unat (pe_slice e) < k) es in
     t = concat (map (slice_row es) [0..<k]) \<and> sm_slice s = pe_slice (last es) \<and> sm_slices s = word_of_nat k \<and>
     sm_entries s = word_of_nat (length (slice_entries es k)) \<and> sm_bytes s = entry_bytes (slice_entries es k) \<and>
     sm_total_entries s = word_of_nat (length before) \<and> sm_total_bytes s = entry_bytes before)"

lemma slice_entries_append [simp]: "slice_entries (xs @ ys) i = slice_entries xs i @ slice_entries ys i"
  by (simp add: slice_entries_def)

lemma slice_entries_single: "slice_entries [e] i = (if unat (pe_slice e) = i then [e] else [])"
  by (simp add: slice_entries_def)

lemma entry_bytes_append [simp]: "entry_bytes (xs @ ys) = entry_bytes xs + entry_bytes ys" "entry_bytes [e] = pe_size e" "entry_bytes [] = 0"
  by (simp_all add: entry_bytes_def)

lemma split_before:
  assumes "\<forall>e \<in> set es. unat (pe_slice e) \<le> k"
  shows "length (filter (\<lambda>e. unat (pe_slice e) < k) es) + length (slice_entries es k) = length es"
    "entry_bytes (filter (\<lambda>e. unat (pe_slice e) < k) es) + entry_bytes (slice_entries es k) = entry_bytes es"
  using assms by (induction es) (auto simp: slice_entries_def entry_bytes_def)

lemma entries_nonzero: "length (slice_entries es i) \<le> length es"
  by (simp add: slice_entries_def)

lemma count_nonzero: "n < 2 ^ 64 \<Longrightarrow> n \<noteq> 0 \<Longrightarrow> (word_of_nat n :: u64) \<noteq> 0"
proof -
  assume "n < 2 ^ 64" "n \<noteq> 0"
  then have "unat (word_of_nat n :: u64) = n" by (simp add: unat_of_nat take_bit_nat_eq_self)
  then show ?thesis using \<open>n \<noteq> 0\<close> by auto
qed

lemma slices_below_length: "contiguous None es \<Longrightarrow> es \<noteq> [] \<Longrightarrow> unat (pe_slice (last es)) < length es"
proof (induction es rule: rev_induct)
  case (snoc e es)
  show ?case
  proof (cases "es = []")
    case True
    with snoc.prems show ?thesis by (simp add: follows_def)
  next
    case False
    then have "next_in_plan (Some (last es)) e" "contiguous None es" using snoc.prems(1) by (simp_all add: contiguous_snoc)
    with next_slice [of "last es" e] snoc.IH False show ?thesis by (cases "pe_slice e = pe_slice (last es)") auto
  qed
qed simp

lemma summary_loop_counts:
  "contiguous None es \<Longrightarrow> es \<noteq> [] \<Longrightarrow> length es < 2 ^ 64 \<Longrightarrow> summarised es (summary_loop es
     \<lparr>sm_slices = 0, sm_total_entries = 0, sm_total_bytes = 0, sm_slice = 0, sm_entries = 0, sm_bytes = 0\<rparr>)"
proof (induction es rule: rev_induct)
  case (snoc e es)
  let ?s0 = "\<lparr>sm_slices = 0, sm_total_entries = 0, sm_total_bytes = 0, sm_slice = 0, sm_entries = 0, sm_bytes = 0\<rparr>"
  show ?case
  proof (cases "es = []")
    case True
    with snoc.prems(1) have "pe_slice e = 0" by (simp add: follows_def)
    then show ?thesis using True by (simp add: summarised_def slice_entries_single)
  next
    case False
    let ?k = "unat (pe_slice (last es))"
    obtain t s where ts: "summary_loop es ?s0 = (t, s)" by force
    have n: "contiguous None es" "next_in_plan (Some (last es)) e" using snoc.prems(1) False by (simp_all add: contiguous_snoc)
    have S: "summarised es (t, s)" using snoc.IH [OF n(1) False] snoc.prems(3) ts by simp
    note S = S [unfolded summarised_def prod.case Let_def]
    have upto: "\<forall>x \<in> set es. unat (pe_slice x) \<le> ?k" using slices_upto_last [OF n(1) False] by blast
    have loop: "summary_loop (es @ [e]) ?s0 = (case summary_loop [e] s of (u, s2) \<Rightarrow> (t @ u, s2))"
      by (simp add: summary_loop_append ts)
    show ?thesis
    proof (cases "pe_slice e = pe_slice (last es)")
      case True
      have rows: "map (slice_row (es @ [e])) [0..<?k] = map (slice_row es) [0..<?k]"
        using True by (auto simp: slice_row_def slice_entries_single)
      show ?thesis unfolding loop using S True
        by (simp add: summarised_def slice_entries_single rows Let_def)
    next
      case new: False
      then have k: "unat (pe_slice e) = Suc ?k" "pe_slice e = pe_slice (last es) + 1"
        using next_slice(2) [OF n(2)] by blast+
      have "last es \<in> set (slice_entries es ?k)" using False by (simp add: slice_entries_def)
      then have "length (slice_entries es ?k) \<noteq> 0" by auto
      then have ne: "sm_entries s \<noteq> 0"
        using S count_nonzero [of "length (slice_entries es ?k)"] entries_nonzero [of es ?k] snoc.prems(3) by simp
      have none: "slice_entries es (Suc ?k) = []" using upto by (auto simp: slice_entries_def filter_empty_conv)
      have all: "filter (\<lambda>x. unat (pe_slice x) < Suc ?k) es = es" using upto by (auto simp: filter_id_conv)
      have rows: "concat (map (slice_row (es @ [e])) [0..<?k]) = concat (map (slice_row es) [0..<?k])" "slice_row (es @ [e]) ?k = slice_row es ?k"
        using k(1) by (auto simp: slice_row_def slice_entries_single intro!: arg_cong [of _ _ concat])
      have row: "summary_row (pe_slice (last es)) (sm_entries s) (sm_bytes s) = slice_row es ?k"
        using S by (simp add: slice_row_def)
      have loop1: "summary_loop [e] s = (slice_row es ?k, s\<lparr>sm_slices := sm_slices s + 1,
          sm_total_entries := sm_total_entries s + sm_entries s, sm_total_bytes := sm_total_bytes s + sm_bytes s,
          sm_slice := pe_slice e, sm_entries := 1, sm_bytes := pe_size e\<rparr>)"
        using S new ne row by (simp add: flush_slice_def)
      have b: "length es = length (filter (\<lambda>e. unat (pe_slice e) < ?k) es) + length (slice_entries es ?k)"
        "entry_bytes es = entry_bytes (filter (\<lambda>e. unat (pe_slice e) < ?k) es) + entry_bytes (slice_entries es ?k)"
        using split_before [OF upto] by simp_all
      have w: "(word_of_nat (length es) :: u64) = word_of_nat (length (filter (\<lambda>e. unat (pe_slice e) < ?k) es)) + word_of_nat (length (slice_entries es ?k))"
        by (subst b(1)) simp
      show ?thesis unfolding loop loop1 prod.case summarised_def Let_def last_snoc k(1)
        by (intro conjI) (use S k rows none all b w in \<open>simp_all add: slice_entries_single\<close>)
    qed
  qed
qed simp

text \<open>What the last flush adds completes the table.\<close>

lemma print_summary_table:
  assumes "contiguous None (List.map_filter entry recs)" and "length (List.map_filter entry recs) < 2 ^ 64"
  shows "print_summary recs True = summary_table (List.map_filter entry recs)"
proof (cases "List.map_filter entry recs = []")
  case True
  then show ?thesis by (simp add: print_summary_def summary_table_def flush_slice_def summary_total_def slice_total_def entry_bytes_def)
next
  case False
  let ?es = "List.map_filter entry recs" let ?k = "unat (pe_slice (last ?es))"
  let ?s0 = "\<lparr>sm_slices = 0, sm_total_entries = 0, sm_total_bytes = 0, sm_slice = 0, sm_entries = 0, sm_bytes = 0\<rparr>"
  obtain t s where ts: "summary_loop ?es ?s0 = (t, s)" by force
  note S = summary_loop_counts [OF assms(1) False assms(2), unfolded ts summarised_def prod.case Let_def]
  have upto: "\<forall>x \<in> set ?es. unat (pe_slice x) \<le> ?k" using slices_upto_last [OF assms(1) False] by blast
  have "last ?es \<in> set (slice_entries ?es ?k)" using False by (simp add: slice_entries_def)
  then have "length (slice_entries ?es ?k) \<noteq> 0" by auto
  then have ne: "sm_entries s \<noteq> 0"
    using S count_nonzero [of "length (slice_entries ?es ?k)"] entries_nonzero [of ?es ?k] assms(2) by simp
  have row: "summary_row (sm_slice s) (sm_entries s) (sm_bytes s) = slice_row ?es ?k"
    using S by (simp add: slice_row_def)
  note b = split_before [OF upto]
  have e: "unat (sm_total_entries s + sm_entries s) = length ?es"
    using S b(1) assms(2) by (simp add: of_nat_add [symmetric] unat_of_nat take_bit_nat_eq_self del: of_nat_add)
  have sl: "unat (sm_slices s + 1) = Suc ?k"
  proof -
    have "sm_slices s + 1 = word_of_nat (Suc ?k)" using S by simp
    moreover have "Suc ?k < 2 ^ 64" using slices_below_length [OF assms(1) False] assms(2) by simp
    ultimately show ?thesis by (simp add: unat_of_nat take_bit_nat_eq_self del: of_nat_Suc)
  qed
  show ?thesis using ts ne row e sl b(2) S False
    by (simp add: print_summary_def summary_table_def flush_slice_def summary_total_def slice_total_def)
qed

lemma plan_records_read: "read_plan r = Inr recs \<Longrightarrow> plan_records r = (recs, None)"
proof (induction r arbitrary: recs rule: read_plan.induct)
  case (1 r)
  show ?case
  proof (cases "reader_next r")
    case (Inl e)
    with "1.prems" show ?thesis by (simp add: read_plan.simps [of r])
  next
    case (Inr y)
    obtain x r' where y: "reader_next r = Inr (x, r')" using Inr by (cases y) simp
    show ?thesis
    proof (cases x)
      case None
      with "1.prems" y show ?thesis by (simp add: read_plan.simps [of r] plan_records.simps [of r])
    next
      case (Some p)
      with "1.prems" y obtain ps where ps: "read_plan r' = Inr ps" "recs = p # ps"
        by (auto simp: read_plan.simps [of r] bind_res_Inr)
      from "1.IH" [OF Inr _ Some ps(1)] y Inr have "plan_records r' = (ps, None)" by simp
      then show ?thesis using y Some ps(2) by (simp add: plan_records.simps [of r])
    qed
  qed
qed

lemma map_filter_entries: "List.map_filter entry recs = plan_entries recs"
  by (induction recs) (simp_all add: List.map_filter_def split: option.split)

lemma print_list_entries: "print_list mtime_text recs = concat (map (list_line mtime_text) (plan_entries recs))"
  by (induction recs) (simp_all add: print_list_def split: option.split)

section \<open>One line for each entry\<close>

definition one_line :: "string \<Rightarrow> bool" where
  "one_line s \<longleftrightarrow> (\<exists>t. s = t @ [LF] \<and> LF \<notin> set t)"

lemma LF_code: "of_char LF = (10 :: nat)"
  by (simp add: LF_def)

lemma safe_piece_LF: "safe_piece p \<Longrightarrow> LF \<notin> set p"
  using safe_piece_bytes [of p] LF_code by auto

lemma escape_LF: "LF \<notin> set (escape_bytes_for_diagnostic s)"
proof -
  obtain ps where "escape_bytes_for_diagnostic s = concat ps" "list_all safe_piece ps" using escape_pieces by blast
  then show ?thesis by (auto simp: list_all_iff dest: safe_piece_LF)
qed

lemma decimal_LF: "LF \<notin> set (decimal n)" "LF \<notin> set (signed_decimal i)"
proof -
  have "LF \<notin> set (decimal n)" for n using decimal_digits [of n] by (auto simp: list_all_iff is_digit_def LF_code)
  then show "LF \<notin> set (decimal n)" "LF \<notin> set (signed_decimal i)" by (simp_all add: signed_decimal_def LF_def)
qed

lemma list_line_one:
  assumes "valid_entry e" and "\<And>t s. mtime_text t = Some s \<Longrightarrow> LF \<notin> set s"
  shows "one_line (list_line mtime_text e)"
proof -
  have "LF \<notin> set (format_mtime mtime_text (pe_mtime e))"
    using assms(2) by (simp add: format_mtime_def decimal_LF split: option.split)
  moreover have "pe_kind e \<noteq> LF" using assms(1) by (auto simp: valid_entry_def plan_kinds_def LF_def)
  ultimately show ?thesis
    by (simp add: one_line_def list_line_def pad_left_def owner_text_def decimal_LF escape_LF LF_def [symmetric])
      (simp add: LF_def)
qed

section \<open>Properties\<close>

text \<open>C36. What is printed of a medium is authentic.  Whatever the source returns, the bytes of the catalog stream, up to its
  end or to the error that cuts it, are the payloads of catalog frames with a valid hash that the signature policy
  accepts; apart from verified replays, whose payloads are in the bytes too, their headers are the beginning of an archive.
  At most the last frame carries the end flag, and without an error it does.\<close>
theorem catalog_authentic:
  "let input = catalog_input_of n src H ed_open keys required r in
    \<exists>recs hs. ci_bytes input = concat (map catalog_payload recs) \<and> list_all (catalog_record H ed_open keys required) recs \<and>
    receive H (\<lambda>_. False) initial_validator (arrivals H recs) = (hs, True) \<and> archive_prefix [] hs \<and>
    list_all (\<lambda>rec. \<not> ends_catalog rec) (butlast recs) \<and> (ci_thrown input = None \<longrightarrow> recs \<noteq> [] \<and> ends_catalog (last recs))"
proof -
  let ?s = "new_catalog_stream r"
  obtain bs res where b: "catalog_bytes n src H ed_open keys required ?s = (bs, res)" by force
  have s: "\<not> cs_ended ?s" "cs_validator ?s = initial_validator" by (simp_all add: new_catalog_stream_def)
  from catalog_bytes_taken [OF b s(1)] s(2) obtain recs hs where r: "bs = concat (map catalog_payload recs)"
    "list_all (catalog_record H ed_open keys required) recs" "receive H (\<lambda>_. False) initial_validator (arrivals H recs) = (hs, True)"
    "list_all (\<lambda>rec. \<not> ends_catalog rec) (butlast recs)" "\<forall>s'. res = Inr s' \<longrightarrow> recs \<noteq> [] \<and> ends_catalog (last recs)" by auto
  have "list_all sized (arrivals H recs)" using r(2) by (auto simp: arrivals_def list_all_iff dest: catalog_record_sized)
  from receive_prefix [OF tracks_any_initial this, of H "\<lambda>_. False"] r(3) have "archive_prefix [] hs" by simp
  with r show ?thesis unfolding Let_def catalog_input_of_def b prod.case
    by (intro exI [of _ recs] exI [of _ hs]) (simp split: sum.splits)
qed

text \<open>C37. A catalog is printed from its medium.  If the spool or tape holds foreign tape files and then a file that
  starts with the accepted frames of a catalog, the last one with the end flag, then the raw output is
  their payloads in order, and the reader stands right behind the last of them.\<close>
theorem catalog_printed:
  assumes "reader_at H block k (foreign @ (recs @ rest) # files) r" and "list_all foreign_file foreign"
    and "list_all (catalog_record H ed_open keys required) recs" and "archive_prefix [] (map record_header recs)"
    and "recs \<noteq> []" and "ends_catalog (last recs)" and "list_all (\<lambda>rec. \<not> ends_catalog rec) (butlast recs)"
    and "length foreign + length recs \<le> n" and "unlimited out" and "of_flush_ok out"
    and src_def: "src = reader_source (Suc m) H name ideal_drive"
  shows "(\<exists>s'. catalog_bytes n src H ed_open keys required (new_catalog_stream r) = (concat (map catalog_payload recs), Inr s') \<and>
      reader_at H block (k + length foreign) (rest # files) (cs_reader s')) \<and>
    print_catalog mtime_text Raw_mode n src H ed_open keys required r out =
      (None, out\<lparr>of_bytes := of_bytes out @ concat (map catalog_payload recs)\<rparr>)"
proof -
  from reader.catalog_on_medium [OF assms(1-8), of m name] obtain s' where
    "catalog_bytes n src H ed_open keys required (new_catalog_stream r) = (concat (map catalog_payload recs), Inr s')"
    "reader_at H block (k + length foreign) (rest # files) (cs_reader s')" unfolding src_def by blast
  then show ?thesis using assms(9,10)
    by (simp add: print_catalog_def catalog_input_of_def run_catalog_def produce_output_def write_unlimited flush_output_def)
qed

text \<open>C38. The tables are those of the plan.  For a stream that is a valid plan with fewer than 2^64 entries, the summary is one row for each
  slice from 0 to the last, with the number of its entries and the sum of their sizes, and the totals of the plan;
  the list has exactly one line for each entry in order, which no owner name or path can break.\<close>
theorem catalog_tables_exact:
  assumes "read_plan (new_plan_reader (text_of bs) False name) = Inr recs" and "length (plan_entries recs) < 2 ^ 64"
    and "unlimited out" and "of_flush_ok out" and "\<And>t s. mtime_text t = Some s \<Longrightarrow> LF \<notin> set s"
  defines "input \<equiv> \<lparr>ci_bytes = bs, ci_bad = False, ci_thrown = None\<rparr>"
  shows "run_catalog mtime_text Summary_mode input name out =
      (None, out\<lparr>of_bytes := of_bytes out @ bytes_of (summary_table (plan_entries recs))\<rparr>) \<and>
    run_catalog mtime_text List_mode input name out =
      (None, out\<lparr>of_bytes := of_bytes out @ bytes_of (concat (map (list_line mtime_text) (plan_entries recs)))\<rparr>) \<and>
    list_all (\<lambda>e. one_line (list_line mtime_text e)) (plan_entries recs)"
proof -
  note r = plan_records_read [OF assms(1)]
  have c: "contiguous None (plan_entries recs)" "\<forall>p \<in> set recs. (\<exists>dir. p = chdir_record dir \<and> dir \<noteq> []) \<or> (\<exists>e. p = entry_record e \<and> valid_entry e)"
    using read_plan_contents [OF assms(1)] by (simp_all add: new_plan_reader_def)
  have v: "\<forall>e \<in> set (plan_entries recs). valid_entry e"
  proof
    fix e assume "e \<in> set (plan_entries recs)"
    then obtain p where "p \<in> set recs" "entry p = Some e" by (auto simp: plan_entries_def)
    with c(2) show "valid_entry e" by fastforce
  qed
  have "print_summary recs True = summary_table (plan_entries recs)"
    using print_summary_table [of recs] c(1) assms(2) by (simp add: map_filter_entries)
  then show ?thesis using r assms(3-5) v list_line_one
    by (simp add: run_catalog_def input_def produce_output_def write_unlimited flush_output_def print_list_entries list_all_iff)
qed

section \<open>Witnesses\<close>

lemma sample_catalog_taken: "list_all (catalog_record zero_hash toy_open [] False) [sample_catalog_record]"
  "archive_prefix [] (map record_header [sample_catalog_record])" "[sample_catalog_record] \<noteq> []" "ends_catalog (last [sample_catalog_record])"
  "list_all (\<lambda>rec. \<not> ends_catalog rec) (butlast [sample_catalog_record])"
  using sample_archive_prefix sample_unsigned
  by (simp_all add: catalog_record_def sample_record_headers sample_intact_headers ends_catalog_def)
    (simp add: sample_frame_def has_frame_flag_end_def frame_flag_end_def)

lemma sample_catalog_at: "reader_at zero_hash 4096 0 ([[foreign_record]] @ ([sample_catalog_record] @ [sample_content_record]) # [[sample_end_record]])
    (Inr (new_tape_reader (loaded_tape sample_volume)))"
  using sample_reader_at by (simp add: sample_volume_def)

lemma sample_catalog_foreign: "list_all foreign_file [[foreign_record]]"
  by (simp add: foreign_file_def sample_magic)

lemma sample_catalog_payload: "catalog_payload sample_catalog_record = [1, 2, 3, 4, 5, 6, 7, 8, 9, 10]"
  using frame_image_payload [of "[1, 2, 3, 4, 5, 6, 7, 8, 9, 10]" 10 CH_METADATA 0] sample_record_headers(1)
  by (simp add: catalog_payload_def frame_payload_def sample_catalog_record_def fixed_header_size_def)

definition sample_output :: out_file where
  "sample_output = \<lparr>of_bytes = [], of_space = None, of_flush_ok = True\<rparr>"

theorem catalog_printed_witness:
  "print_catalog (\<lambda>t. None) Raw_mode 2 (reader_source 1 zero_hash ''t'' ideal_drive) zero_hash toy_open [] False
     (Inr (new_tape_reader (loaded_tape sample_volume))) sample_output = (None, sample_output\<lparr>of_bytes := [1, 2, 3, 4, 5, 6, 7, 8, 9, 10]\<rparr>)"
proof -
  have "unlimited sample_output" "of_flush_ok sample_output" "of_bytes sample_output = []" by (simp_all add: sample_output_def unlimited_def)
  with catalog_printed [OF sample_catalog_at sample_catalog_foreign sample_catalog_taken, of 2 sample_output "reader_source 1 zero_hash ''t'' ideal_drive" 0 "''t''" "\<lambda>t. None"]
  show ?thesis by (simp add: sample_catalog_payload)
qed

theorem catalog_authentic_witness:
  "\<exists>recs hs. concat (map catalog_payload recs) = [1, 2, 3, 4, 5, 6, 7, 8, 9, 10] \<and>
     list_all (catalog_record zero_hash toy_open [] False) recs \<and> archive_prefix [] hs \<and> recs \<noteq> [] \<and> ends_catalog (last recs)"
proof -
  let ?r = "Inr (new_tape_reader (loaded_tape sample_volume))" and ?src = "reader_source (Suc 0) zero_hash ''t'' ideal_drive"
  from reader.catalog_on_medium [OF sample_catalog_at sample_catalog_foreign sample_catalog_taken, of 2 0 "''t''"] obtain s' where
    "catalog_bytes 2 ?src zero_hash toy_open [] False (new_catalog_stream ?r) = ([1, 2, 3, 4, 5, 6, 7, 8, 9, 10], Inr s')"
    by (auto simp: sample_catalog_payload)
  then have "ci_bytes (catalog_input_of 2 ?src zero_hash toy_open [] False ?r) = [1, 2, 3, 4, 5, 6, 7, 8, 9, 10]"
    "ci_thrown (catalog_input_of 2 ?src zero_hash toy_open [] False ?r) = None" by (simp_all add: catalog_input_of_def)
  with catalog_authentic [of 2 ?src zero_hash toy_open "[]" False ?r, unfolded Let_def] show ?thesis by auto
qed

lemma text_of_bytes [simp]: "text_of (bytes_of s) = s"
proof (induction s)
  case (Cons c s)
  have "char_of (unat (of_char c :: u8)) = c"
  proof -
    have "(of_char c :: u8) = word_of_nat (of_char c)" by (simp only: of_nat_of_char)
    moreover have "(of_char c :: nat) < 2 ^ 8" by simp
    ultimately have "unat (of_char c :: u8) = of_char c" by (simp only: unat_of_nat) (simp add: take_bit_nat_eq_self)
    then show ?thesis by simp
  qed
  with Cons show ?case by (simp add: text_of_def bytes_of_def)
qed (simp add: text_of_def bytes_of_def)

theorem catalog_tables_exact_witness:
  "run_catalog (\<lambda>t. None) Summary_mode \<lparr>ci_bytes = bytes_of (plan_text (map entry_record [sample_entry])), ci_bad = False, ci_thrown = None\<rparr> ''p'' sample_output =
     (None, sample_output\<lparr>of_bytes := bytes_of (summary_heading @ summary_row 0 1 7 @ ''total: slices=1 entries=1 bytes=7'' @ [LF])\<rparr>)"
proof -
  let ?bs = "bytes_of (plan_text (map entry_record [sample_entry]))"
  have r: "read_plan (new_plan_reader (text_of ?bs) False ''p'') = Inr (map (entry_record \<circ> canon_entry) [sample_entry])"
    unfolding text_of_bytes by (rule read_entries) (use sample_entry_ok in \<open>simp_all add: new_plan_reader_def\<close>)
  have e: "plan_entries (map (entry_record \<circ> canon_entry) [sample_entry]) = [sample_entry\<lparr>pe_uname := []\<rparr>]"
    by (simp add: sample_entry_ok(3))
  have t: "summary_table [sample_entry\<lparr>pe_uname := []\<rparr>] = summary_heading @ summary_row 0 1 7 @ ''total: slices=1 entries=1 bytes=7'' @ [LF]"
    by (simp add: summary_table_def slice_total_def slice_row_def slice_entries_def entry_bytes_def sample_entry_def decimal.simps digit_char_def char_of_def bit_0)
  have "length (plan_entries (map (entry_record \<circ> canon_entry) [sample_entry])) < 2 ^ 64" "unlimited sample_output"
    "of_flush_ok sample_output" "of_bytes sample_output = []" unfolding e by (simp_all add: sample_output_def unlimited_def)
  with catalog_tables_exact [OF r, of sample_output "\<lambda>t. None"] show ?thesis unfolding e t by simp
qed

end
