(* ===== verification/InspectCmd.thy ===== *)
theory InspectCmd
  imports RecordSource Validate Signature Plan
begin

text \<open>
  src/neotape_inspect_cmd.cpp: \<open>neotape-inspect\<close> goes through all records of a medium, checks its frames with a
  validator that starts where the medium does, and reports.  The table rows are part of the model; of the summary, the
  reported values.
\<close>

section \<open>The state\<close>

datatype inspect_issue =
    Header_parse_error u64 format_error | Frame_rejected u64 validate_error | Bad_frame_signature u64 frame_signature_error

record inspect_stats =
  total_frames :: u64
  content_frames :: u64
  metadata_frames :: u64
  archive_end_frames :: u64
  filemarks :: u64
  prefix_records :: u64
  is_errors :: u64
  unsigned_frames :: u64
  signed_frames :: u64
  signed_unverified :: u64
  signatures_verified :: u64
  signature_errors :: u64
  total_payload_bytes :: u64

record 'r inspect_state =
  is_reader :: 'r
  is_validator :: frame_validator
  is_stats :: inspect_stats
  is_frame_number :: u64
  is_starts_at_zero :: bool
  is_replayed_frames :: u64
  is_issues :: "inspect_issue list"
  is_rows :: string

definition no_stats :: inspect_stats where
  "no_stats = \<lparr>total_frames = 0, content_frames = 0, metadata_frames = 0, archive_end_frames = 0, filemarks = 0,
     prefix_records = 0, is_errors = 0, unsigned_frames = 0, signed_frames = 0, signed_unverified = 0, signatures_verified = 0,
     signature_errors = 0, total_payload_bytes = 0\<rparr>"

definition new_inspect :: "'r \<Rightarrow> 'r inspect_state" where
  "new_inspect r = \<lparr>is_reader = r, is_validator = initial_validator, is_stats = no_stats, is_frame_number = 0,
     is_starts_at_zero = False, is_replayed_frames = 0, is_issues = [], is_rows = []\<rparr>"

section \<open>Rows\<close>

definition flags_str :: "u64 \<Rightarrow> string" where
  "flags_str fl =
    (let s = (if has_frame_flag_end fl then ''E'' else []) @ (if has_frame_flag_clean_end fl then ''C'' else []) @
       (if has_frame_flag_signed fl then ''!'' else [])
     in if s = [] then ''.'' else s)"

fun channel_abbrev :: "channel \<Rightarrow> string" where
  "channel_abbrev CH_CONTENT = ''content ''"
| "channel_abbrev CH_METADATA = ''metadata''"
| "channel_abbrev ARCHIVE_END = ''arch_end''"

fun joined :: "(nat \<times> string) list \<Rightarrow> string" where
  "joined [] = [LF]"
| "joined [(n, s)] = pad_left n s @ [LF]"
| "joined ((n, s) # cols) = pad_left n s @ '' | '' @ joined cols"

definition inspect_row :: "nat \<Rightarrow> string list \<Rightarrow> string" where
  "inspect_row last_width cols = ''  '' @ joined (zip [3, 4, 6, 8, 9, 8, 7, 5, last_width] cols)"

definition file_column :: "media_record \<Rightarrow> string" where
  "file_column m = signed_decimal (sint (ucast (mr_file_num m) :: u32))"

definition filemark_row :: string where
  "filemark_row = inspect_row 5 [[], [], [], [], ''filemark'', [], [], [], []]"

definition prefix_row :: "media_record \<Rightarrow> string" where
  "prefix_row m = inspect_row 5 [[], file_column m, [], [], ''prefix'', [], decimal (length (mr_record m)), [], []]"

definition failed_row :: "u64 \<Rightarrow> media_record \<Rightarrow> string" where
  "failed_row n m = inspect_row 0 [decimal (unat n), file_column m, ''-'', ''-'', ''-'', ''-'', ''-'', ''-'', ''FAIL'']"

definition frame_row :: "u64 \<Rightarrow> media_record \<Rightarrow> checked_frame \<Rightarrow> string" where
  "frame_row n m frame =
    (let h = header frame in
     inspect_row 5 [decimal (unat n), file_column m, decimal (unat (global_frame_seq_num h)), decimal (unat (slice_seq_num h)),
       channel_abbrev (channel_type h), decimal (unat (channel_frame_seq_num h)), decimal (unat (frame_payload_size h)),
       flags_str (flags h), if hash_ok frame then ''OK'' else ''MISMATCH''])"

section \<open>The loop\<close>

definition count_channel :: "channel \<Rightarrow> inspect_stats \<Rightarrow> inspect_stats" where
  "count_channel c st =
    (case c of
       CH_CONTENT \<Rightarrow> st\<lparr>content_frames := content_frames st + 1\<rparr>
     | CH_METADATA \<Rightarrow> st\<lparr>metadata_frames := metadata_frames st + 1\<rparr>
     | ARCHIVE_END \<Rightarrow> st\<lparr>archive_end_frames := archive_end_frames st + 1\<rparr>)"

definition count_frame :: "frame_header \<Rightarrow> inspect_stats \<Rightarrow> inspect_stats" where
  "count_frame h st =
    (let st = count_channel (channel_type h) (st\<lparr>total_payload_bytes := total_payload_bytes st + ucast (frame_payload_size h)\<rparr>)
     in if has_frame_flag_signed (flags h) then st\<lparr>signed_frames := signed_frames st + 1\<rparr>
        else st\<lparr>unsigned_frames := unsigned_frames st + 1\<rparr>)"

definition inspect_validator :: "(bytes \<Rightarrow> bytes) \<Rightarrow> checked_frame \<Rightarrow> bytes \<Rightarrow> 'r inspect_state \<Rightarrow> 'r inspect_state" where
  "inspect_validator H frame data s =
    (let s = (if is_frame_number s = 1
              then s\<lparr>is_starts_at_zero := (global_frame_seq_num (header frame) = 0),
                     is_validator := seed_for_stream_start (is_validator s) (header frame)\<rparr>
              else s)
     in case validate H (is_validator s) frame data False of
          (v, Some e) \<Rightarrow> s\<lparr>is_validator := v, is_stats := (is_stats s)\<lparr>is_errors := is_errors (is_stats s) + 1\<rparr>,
                            is_issues := is_issues s @ [Frame_rejected (is_frame_number s) e]\<rparr>
        | (v, None) \<Rightarrow> if last_was_replay v then s\<lparr>is_validator := v, is_replayed_frames := is_replayed_frames s + 1\<rparr>
                        else s\<lparr>is_validator := v\<rparr>)"

definition inspect_signature :: "ed_open \<Rightarrow> public_key list \<Rightarrow> bool \<Rightarrow> frame_header \<Rightarrow> 'r inspect_state \<Rightarrow> 'r inspect_state" where
  "inspect_signature ed_open keys required h s =
    (let st = is_stats s; v = validate_frame_signature ed_open h keys required in
     case sig_error v of
       Some e \<Rightarrow> s\<lparr>is_stats := st\<lparr>is_errors := is_errors st + 1, signature_errors := signature_errors st + 1\<rparr>,
                    is_issues := is_issues s @ [Bad_frame_signature (is_frame_number s) e]\<rparr>
     | None \<Rightarrow>
         if sig_status v = Signed_unverified then s\<lparr>is_stats := st\<lparr>signed_unverified := signed_unverified st + 1\<rparr>\<rparr>
         else if sig_status v = Verified then s\<lparr>is_stats := st\<lparr>signatures_verified := signatures_verified st + 1\<rparr>\<rparr>
         else s)"

definition inspect_frame ::
  "(bytes \<Rightarrow> bytes) \<Rightarrow> ed_open \<Rightarrow> public_key list \<Rightarrow> bool \<Rightarrow> media_record \<Rightarrow> 'r inspect_state \<Rightarrow> 'r inspect_state" where
  "inspect_frame H ed_open keys required m s =
    (let s = s\<lparr>is_stats := (is_stats s)\<lparr>total_frames := total_frames (is_stats s) + 1\<rparr>, is_frame_number := is_frame_number s + 1\<rparr>
     in case check_frame H (mr_record m) of
          Inl e \<Rightarrow> s\<lparr>is_stats := (is_stats s)\<lparr>is_errors := is_errors (is_stats s) + 1\<rparr>,
                      is_issues := is_issues s @ [Header_parse_error (is_frame_number s) e],
                      is_rows := is_rows s @ failed_row (is_frame_number s) m\<rparr>
        | Inr frame \<Rightarrow>
            let s = inspect_validator H frame (mr_record m) s;
                s = inspect_signature ed_open keys required (header frame) (s\<lparr>is_stats := count_frame (header frame) (is_stats s)\<rparr>)
            in s\<lparr>is_rows := is_rows s @ frame_row (is_frame_number s) m frame\<rparr>)"

definition inspect_record ::
  "(bytes \<Rightarrow> bytes) \<Rightarrow> ed_open \<Rightarrow> public_key list \<Rightarrow> bool \<Rightarrow> media_record \<Rightarrow> 'r inspect_state \<Rightarrow> 'r inspect_state" where
  "inspect_record H ed_open keys required m s =
    (if mr_event m = Ev_filemark then
       s\<lparr>is_stats := (is_stats s)\<lparr>filemarks := filemarks (is_stats s) + 1\<rparr>, is_rows := is_rows s @ filemark_row\<rparr>
     else if is_frame_number s = 0 \<and> \<not> has_frame_magic (mr_record m) then
       s\<lparr>is_stats := (is_stats s)\<lparr>prefix_records := prefix_records (is_stats s) + 1\<rparr>, is_rows := is_rows s @ prefix_row m\<rparr>
     else inspect_frame H ed_open keys required m s)"

text \<open>The number bounds the calls of the reader; an error of the reader ends the command.\<close>

fun inspect_loop ::
  "nat \<Rightarrow> 'r record_source \<Rightarrow> (bytes \<Rightarrow> bytes) \<Rightarrow> ed_open \<Rightarrow> public_key list \<Rightarrow> bool \<Rightarrow> 'r inspect_state \<Rightarrow>
   source_error + 'r inspect_state" where
  "inspect_loop 0 src H ed_open keys required s = Inl Never_returns"
| "inspect_loop (Suc n) src H ed_open keys required s =
    (case rs_next src (is_reader s) of
       Inl e \<Rightarrow> Inl e
     | Inr (m, r) \<Rightarrow>
         if mr_event m = Ev_end then Inr (s\<lparr>is_reader := r\<rparr>)
         else inspect_loop n src H ed_open keys required (inspect_record H ed_open keys required m (s\<lparr>is_reader := r\<rparr>)))"

section \<open>The report\<close>

record inspect_report =
  rp_stats :: inspect_stats
  rp_identity :: "(bytes \<times> bytes) option"
  rp_block :: "u32 option"
  rp_replayed :: u64
  rp_verified :: bool
  rp_issues :: "inspect_issue list"
  rp_rows :: string

definition inspect_report_of :: "'r inspect_state \<Rightarrow> inspect_report" where
  "inspect_report_of s =
    (let v = is_validator s in
     \<lparr>rp_stats = is_stats s,
      rp_identity = (if saw_any_frame v \<and> v_archive_uuid v \<noteq> [] then Some (v_archive_uuid v, v_archive_label v) else None),
      rp_block = (if v_volume_block_size v > 0 then Some (v_volume_block_size v) else None),
      rp_replayed = is_replayed_frames s,
      rp_verified = (is_starts_at_zero s \<and> saw_archive_end v \<and> is_issues s = []),
      rp_issues = is_issues s, rp_rows = is_rows s\<rparr>)"

definition do_inspect ::
  "nat \<Rightarrow> 'r record_source \<Rightarrow> (bytes \<Rightarrow> bytes) \<Rightarrow> ed_open \<Rightarrow> public_key list \<Rightarrow> bool \<Rightarrow> 'r \<Rightarrow> source_error + inspect_report" where
  "do_inspect n src H ed_open keys required r =
    bind_res (inspect_loop n src H ed_open keys required (new_inspect r)) (\<lambda>s. Inr (inspect_report_of s))"

text \<open>The exit code.\<close>

definition inspect_passes :: "inspect_report \<Rightarrow> bool" where
  "inspect_passes rep \<longleftrightarrow> rp_issues rep = []"

end
