(* ===== verification/InspectSpec.thy ===== *)
theory InspectSpec
  imports InspectCmd ReadCmdSpec "HOL-Library.Sublist"
begin

text \<open>
  What a report of \<open>neotape-inspect\<close> means.  The validator starts at the first frame of the medium, so
  that it is compared with a run of frames numbered from there, and, where that is the start of an archive, with the strict
  validator.
\<close>

section \<open>A run of frames from any number\<close>

definition frame_run :: "u64 \<Rightarrow> frame_header list \<Rightarrow> bool" where
  "frame_run g hs \<longleftrightarrow> (\<forall>i < length hs. global_frame_seq_num (hs ! i) = g + word_of_nat i \<and>
     same_archive (take i hs) (hs ! i) \<and> \<not> archive_ended (take i hs))"

lemma frame_run_Nil [simp]: "frame_run g []"
  by (simp add: frame_run_def)

lemma frame_run_snoc:
  "frame_run g (hs @ [h]) \<longleftrightarrow>
     frame_run g hs \<and> global_frame_seq_num h = g + word_of_nat (length hs) \<and> same_archive hs h \<and> \<not> archive_ended hs"
  by (auto simp: frame_run_def less_Suc_eq nth_append)

text \<open>The state of a seeded validator behind a run.\<close>

definition tracks_run :: "u64 \<Rightarrow> frame_validator \<Rightarrow> frame_header list \<Rightarrow> bool" where
  "tracks_run g v hs \<longleftrightarrow> expected_global_frame_seq v = g + word_of_nat (length hs) \<and> saw_archive_end v = archive_ended hs \<and>
     (\<not> archive_ended hs \<longrightarrow> tracks_identity v hs) \<and> ri_global_seq ` set (replay_history v) \<subseteq> global_frame_seq_num ` set hs"

definition same_frame_state :: "checked_frame \<Rightarrow> frame_validator \<Rightarrow> frame_validator \<Rightarrow> bool" where
  "same_frame_state f st st' \<longleftrightarrow> keeps_identity f st st' \<and> expected_global_frame_seq st' = expected_global_frame_seq st \<and>
     saw_archive_end st' = saw_archive_end st"

lemma validate_channel_keeps: "validate_channel st f = (st', None) \<Longrightarrow> same_frame_state f st st'"
  by (auto simp: validate_channel_def Let_def same_frame_state_def keeps_identity_def split: option.splits if_splits)

lemma same_frame_state_update:
  "same_frame_state f (st\<lparr>current_slice_seq_num := s, saw_any_frame := b\<rparr>) st' = same_frame_state f st st'"
  "same_frame_state f (st\<lparr>current_slice_seq_num := s, next_channel_seq := n, channel_seen := c, channel_ended := d, channel_seq_unknown := u\<rparr>) st' =
     same_frame_state f st st'"
  "same_frame_state f (st\<lparr>current_slice_seq_num := s, saw_any_frame := b, next_channel_seq := n, channel_seen := c, channel_ended := d,
     channel_seq_unknown := u\<rparr>) st' = same_frame_state f st st'"
  by (simp_all add: same_frame_state_def keeps_identity_def)

lemma validate_slice_keeps: "validate_slice st f b = (st', None) \<Longrightarrow> same_frame_state f st st'"
  by (auto simp: validate_slice_def Let_def same_frame_state_update split: if_splits dest!: validate_channel_keeps)

lemma validate_sequence_keeps:
  assumes "validate_sequence st f b = (st', None)" and "\<not> saw_archive_end st"
  shows "global_frame_seq_num (header f) = expected_global_frame_seq st \<and> keeps_identity f st st' \<and>
    expected_global_frame_seq st' = expected_global_frame_seq st + 1 \<and>
    saw_archive_end st' = (channel_type (header f) = ARCHIVE_END)"
  using assms
  by (auto simp: validate_sequence_def Let_def keeps_identity_def same_frame_state_def split: if_splits dest!: validate_slice_keeps)

lemma push_history_numbers:
  "ri_global_seq ` set (push_history hist f) \<subseteq> insert (global_frame_seq_num (header f)) (ri_global_seq ` set hist)"
  by (cases hist) (auto simp: push_history_def identity_of_def)

lemma validate_new_run:
  assumes "validate_new st f False = (st', None)" and "tracks_run g st hs" and "decoded_block_size (header f) \<noteq> 0"
  shows "global_frame_seq_num (header f) = g + word_of_nat (length hs) \<and> same_archive hs (header f) \<and> \<not> archive_ended hs \<and>
    hash_ok f \<and> tracks_run g st' (hs @ [header f])"
proof -
  let ?h = "header f"
  have v: "\<not> saw_archive_end st" "hash_ok f" "validate_identity st f (saw_any_frame st) = (st', None)"
    using assms(1) by (auto simp: validate_new_def Let_def split: if_splits)
  have e: "\<not> archive_ended hs" and ti: "tracks_identity st hs" using v(1) assms(2) by (simp_all add: tracks_run_def)
  have sa: "same_archive hs ?h" using validate_identity_reject [OF ti, of f "saw_any_frame st"] v(3) by auto
  have "validate_sequence (pin_identity st ?h) f (saw_any_frame st) = (st', None)"
    using v(3) validate_identity_enters [OF ti sa] by simp
  from validate_sequence_keeps [OF this] v(1) have s: "global_frame_seq_num ?h = expected_global_frame_seq st"
    "keeps_identity f (pin_identity st ?h) st'" "expected_global_frame_seq st' = expected_global_frame_seq st + 1"
    "saw_archive_end st' = (channel_type ?h = ARCHIVE_END)" by (simp_all add: pin_identity_def)
  have "tracks_identity st' (hs @ [?h])"
    by (rule tracks_identity_snoc [OF ti sa assms(3)]) (use s(2) in \<open>simp_all add: keeps_identity_def pin_identity_def\<close>)
  moreover have "replay_history st' = push_history (replay_history st) f" using s(2) by (simp add: keeps_identity_def pin_identity_def)
  then have "ri_global_seq ` set (replay_history st') \<subseteq> global_frame_seq_num ` set (hs @ [?h])"
    using push_history_numbers [of "replay_history st" f] assms(2) by (auto simp: tracks_run_def)
  ultimately show ?thesis using s(1,3,4) sa e v(2) assms(2) by (auto simp: tracks_run_def algebra_simps)
qed

lemma tracks_run_flag [simp]: "tracks_run g (v\<lparr>last_was_replay := b\<rparr>) hs = tracks_run g v hs" "tracks_run g (v\<lparr>replay_next := r\<rparr>) hs = tracks_run g v hs"
  by (simp_all add: tracks_run_def tracks_identity_def)

lemma validate_run:
  assumes "validate H v f data False = (v', None)" and "tracks_run g v hs" and "decoded_block_size (header f) \<noteq> 0"
  shows "hash_ok f \<and>
    (last_was_replay v' \<and> tracks_run g v' hs \<and> global_frame_seq_num (header f) \<in> global_frame_seq_num ` set hs \<or>
     tracks_run g v' (hs @ [header f]) \<and> global_frame_seq_num (header f) = g + word_of_nat (length hs) \<and> same_archive hs (header f) \<and>
     \<not> archive_ended hs)"
proof -
  let ?v = "v\<lparr>last_was_replay := False\<rparr>"
  obtain w where c: "check_replay H ?v f data = (w, None)"
    using assms(1) by (cases "check_replay H ?v f data") (auto simp: validate_def split: option.splits)
  from check_replay_cases [OF this] consider
    (replay) r where "w = ?v\<lparr>replay_next := r, last_was_replay := True\<rparr>" "global_frame_seq_num (header f) < expected_global_frame_seq v" "hash_ok f" |
    (new) "w = ?v" by auto
  then show ?thesis
  proof cases
    case replay
    then obtain e where "find (\<lambda>e. ri_global_seq e = global_frame_seq_num (header f)) (replay_history v) = Some e"
      using c by (auto simp: check_replay_def Let_def split: option.splits if_splits)
    then have "global_frame_seq_num (header f) = ri_global_seq e \<and> e \<in> set (replay_history v)" unfolding find_Some_iff by auto
    then have "global_frame_seq_num (header f) \<in> ri_global_seq ` set (replay_history v)" by simp
    then have n: "global_frame_seq_num (header f) \<in> global_frame_seq_num ` set hs" using assms(2) by (auto simp: tracks_run_def)
    have "v' = w" using assms(1) c replay(1) by (simp add: validate_def)
    moreover have "tracks_run g w hs" "last_was_replay w" using assms(2) unfolding replay(1) by simp_all
    ultimately show ?thesis using n replay(3) by simp
  next
    case new
    then have "validate_new ?v f False = (v', None)" using assms(1) c by (simp add: validate_def)
    from validate_new_run [OF this _ assms(3)] assms(2) show ?thesis by simp
  qed
qed

lemma tracks_run_seeded: "tracks_run (global_frame_seq_num h) (seed_for_stream_start v h) []"
  by (simp add: tracks_run_def seed_for_stream_start_def reset_def tracks_identity_def archive_ended_def)

section \<open>At the start of an archive\<close>

text \<open>The seeded validator accepts what the strict one does.\<close>

definition relaxes :: "frame_validator \<Rightarrow> frame_validator \<Rightarrow> bool" where
  "relaxes w v \<longleftrightarrow> last_was_replay v = last_was_replay w \<and> v_archive_uuid v = v_archive_uuid w \<and> v_archive_label v = v_archive_label w \<and>
     expected_global_frame_seq v = expected_global_frame_seq w \<and> v_volume_block_size v = v_volume_block_size w \<and>
     saw_any_frame v = saw_any_frame w \<and> saw_archive_end v = saw_archive_end w \<and> channel_seen v = channel_seen w \<and>
     channel_ended v = channel_ended w \<and> replay_history v = replay_history w \<and> replay_next v = replay_next w \<and>
     stream_start_seeded v \<and> \<not> stream_start_seeded w \<and> channel_seq_unknown w = (\<lambda>_. False) \<and>
     (saw_any_frame w \<longrightarrow> current_slice_seq_num v = current_slice_seq_num w) \<and>
     (\<forall>i. \<not> channel_seq_unknown v i \<longrightarrow> next_channel_seq v i = next_channel_seq w i)"

lemma relaxes_channel:
  assumes "relaxes w v" and "validate_channel w f = (w', None)"
  shows "\<exists>v'. validate_channel v f = (v', None) \<and> relaxes w' v'"
  using assms
  by (cases "channel_index (channel_type (header f))")
    (auto simp: validate_channel_def Let_def relaxes_def fun_eq_iff split: if_splits)

lemma relaxes_slice:
  assumes "relaxes w v" and "validate_slice w f b = (w', None)"
  shows "\<exists>v'. validate_slice v f b = (v', None) \<and> relaxes w' v'"
proof -
  let ?s = "slice_seq_num (header f)"
  have e: "all_seen_channels_ended v = all_seen_channels_ended w" using assms(1) by (simp add: relaxes_def all_seen_channels_ended_def)
  consider (first) "\<not> saw_any_frame w" | (same) "saw_any_frame w" "?s = current_slice_seq_num w" | (advance) "saw_any_frame w" "?s \<noteq> current_slice_seq_num w"
    by blast
  then show ?thesis
  proof cases
    case first
    let ?u = "\<lambda>x. x\<lparr>current_slice_seq_num := ?s, saw_any_frame := True\<rparr>"
    have "validate_slice w f b = validate_channel (?u w) f" "validate_slice v f b = validate_channel (?u v) f"
      using first assms by (auto simp: validate_slice_def Let_def relaxes_def split: if_splits)
    moreover have "relaxes (?u w) (?u v)" using assms(1) by (simp add: relaxes_def)
    ultimately show ?thesis using relaxes_channel assms(2) by simp
  next
    case same
    then have "validate_slice w f b = validate_channel w f" "validate_slice v f b = validate_channel v f"
      using assms(1) by (auto simp: validate_slice_def Let_def relaxes_def)
    then show ?thesis using relaxes_channel assms by simp
  next
    case advance
    let ?u = "\<lambda>x. x\<lparr>current_slice_seq_num := ?s, next_channel_seq := (\<lambda>_. 0), channel_seen := (\<lambda>_. False),
        channel_ended := (\<lambda>_. False), channel_seq_unknown := (\<lambda>_. False)\<rparr>"
    have "?s = current_slice_seq_num w + 1" "\<not> (b \<and> \<not> all_seen_channels_ended w)"
      using advance assms(2) by (auto simp: validate_slice_def Let_def split: if_splits)
    then have "validate_slice w f b = validate_channel (?u w) f" "validate_slice v f b = validate_channel (?u v) f"
      using advance assms(1) e by (auto simp: validate_slice_def Let_def relaxes_def)
    moreover have "relaxes (?u w) (?u v)" using assms(1) by (simp add: relaxes_def)
    ultimately show ?thesis using relaxes_channel assms(2) by simp
  qed
qed

lemma relaxes_sequence:
  assumes "relaxes w v" and "validate_sequence w f b = (w', None)"
  shows "\<exists>v'. validate_sequence v f b = (v', None) \<and> relaxes w' v'"
proof -
  let ?u = "\<lambda>x. x\<lparr>expected_global_frame_seq := global_frame_seq_num (header f) + 1\<rparr>"
  have e: "all_seen_channels_ended (?u v) = all_seen_channels_ended (?u w)" "expected_global_frame_seq v = expected_global_frame_seq w"
    using assms(1) by (simp_all add: relaxes_def all_seen_channels_ended_def)
  have r: "relaxes (?u w) (?u v)" using assms(1) by (simp add: relaxes_def)
  show ?thesis
  proof (cases "channel_type (header f) = ARCHIVE_END")
    case True
    let ?e = "\<lambda>x. remember_record ((?u x)\<lparr>saw_archive_end := True\<rparr>) f"
    have "w' = ?e w" "validate_sequence v f b = (?e v, None)"
      using True assms(2) e by (auto simp: validate_sequence_def Let_def split: if_splits)
    moreover have "relaxes (?e w) (?e v)" using r by (simp add: relaxes_def)
    ultimately show ?thesis by simp
  next
    case False
    then have "validate_slice (?u w) f b = (w', None)" "validate_sequence v f b = validate_slice (?u v) f b"
      using assms(2) e by (auto simp: validate_sequence_def Let_def split: if_splits)
    then show ?thesis using relaxes_slice [OF r] by simp
  qed
qed

lemma relaxes_identity:
  assumes "relaxes w v" and "validate_identity w f b = (w', None)"
  shows "\<exists>v'. validate_identity v f b = (v', None) \<and> relaxes w' v'"
proof -
  let ?h = "header f"
  let ?i = "\<lambda>x. if v_volume_block_size x = 0 then x\<lparr>v_volume_block_size := decoded_block_size ?h\<rparr> else x"
  let ?u = "\<lambda>x. if v_archive_uuid (?i x) = [] then (?i x)\<lparr>v_archive_uuid := archive_uuid ?h, v_archive_label := archive_label ?h\<rparr> else ?i x"
  have "validate_sequence (?u w) f b = (w', None)" using assms(2) by (auto simp: validate_identity_def Let_def split: if_splits)
  moreover have "relaxes (?u w) (?u v)" using assms(1) by (auto simp: relaxes_def)
  moreover have "validate_identity v f b = validate_sequence (?u v) f b"
    using assms by (auto simp: validate_identity_def Let_def relaxes_def split: if_splits)
  ultimately show ?thesis using relaxes_sequence by simp
qed

lemma relaxes_validate:
  assumes "relaxes w v" and "validate H w f data b = (w', None)"
  shows "\<exists>v'. validate H v f data b = (v', None) \<and> relaxes w' v'"
proof -
  let ?f = "\<lambda>x. x\<lparr>last_was_replay := False\<rparr>"
  have r: "relaxes (?f w) (?f v)" using assms(1) by (simp add: relaxes_def)
  obtain w1 where c: "check_replay H (?f w) f data = (w1, None)"
    using assms(2) by (cases "check_replay H (?f w) f data") (auto simp: validate_def split: option.splits)
  obtain v1 where d: "check_replay H (?f v) f data = (v1, None)" "relaxes w1 v1"
    using c r by (auto simp: check_replay_def Let_def relaxes_def split: if_splits option.splits sum.splits)
  then have l: "last_was_replay v1 = last_was_replay w1" by (simp add: relaxes_def)
  show ?thesis
  proof (cases "last_was_replay w1")
    case True
    then show ?thesis using assms(2) c d l by (simp add: validate_def)
  next
    case False
    then have "validate_new w1 f b = (w', None)" using assms(2) c by (simp add: validate_def)
    then have "validate_identity w1 f (saw_any_frame w1) = (w', None)" "validate_new v1 f b = validate_identity v1 f (saw_any_frame v1)"
      "saw_any_frame v1 = saw_any_frame w1"
      using d(2) by (auto simp: validate_new_def Let_def relaxes_def split: if_splits)
    then show ?thesis using relaxes_identity [OF d(2)] d(1) False l by (simp add: validate_def)
  qed
qed

lemma relaxes_seeded:
  assumes "global_frame_seq_num h = 0"
  shows "relaxes initial_validator (seed_for_stream_start v h)"
  using assms by (simp add: relaxes_def seed_for_stream_start_def reset_def initial_validator_def)


section \<open>The loop\<close>

lemma count_frame_total [simp]: "total_frames (count_frame h st) = total_frames st"
  by (simp add: count_frame_def count_channel_def Let_def split: channel.split)

lemma inspect_frame_bad:
  assumes "check_frame H (mr_record m) = Inl e"
  shows "is_frame_number (inspect_frame H ed_open keys required m s) = is_frame_number s + 1"
    "total_frames (is_stats (inspect_frame H ed_open keys required m s)) = total_frames (is_stats s) + 1"
    "is_issues (inspect_frame H ed_open keys required m s) \<noteq> []"
  using assms by (simp_all add: inspect_frame_def)

lemma inspect_frame_fields:
  fixes s :: "'r inspect_state"
  assumes "check_frame H (mr_record m) = Inr f"
    and "v0 = (if is_frame_number s + 1 = 1 then seed_for_stream_start (is_validator s) (header f) else is_validator s)"
    and "validate H v0 f (mr_record m) False = (v, e)"
    and t_def: "t = inspect_frame H ed_open keys required m s"
  shows "is_frame_number t = is_frame_number s + 1" and "total_frames (is_stats t) = total_frames (is_stats s) + 1"
    and "is_validator t = v" and "is_starts_at_zero t = (if is_frame_number s + 1 = 1 then global_frame_seq_num (header f) = 0 else is_starts_at_zero s)"
    and "is_replayed_frames t = (if e = None \<and> last_was_replay v then is_replayed_frames s + 1 else is_replayed_frames s)"
    and "is_issues t = is_issues s @ (case e of None \<Rightarrow> [] | Some x \<Rightarrow> [Frame_rejected (is_frame_number s + 1) x]) @
      (case sig_error (validate_frame_signature ed_open (header f) keys required) of None \<Rightarrow> []
       | Some x \<Rightarrow> [Bad_frame_signature (is_frame_number s + 1) x])"
proof -
  define s1 where "s1 = s\<lparr>is_stats := (is_stats s)\<lparr>total_frames := total_frames (is_stats s) + 1\<rparr>, is_frame_number := is_frame_number s + 1\<rparr>"
  define s2 where "s2 = inspect_validator H f (mr_record m) s1"
  define s3 where "s3 = inspect_signature ed_open keys required (header f) (s2\<lparr>is_stats := count_frame (header f) (is_stats s2)\<rparr>)"
  have t: "t = s3\<lparr>is_rows := is_rows s3 @ frame_row (is_frame_number s3) m f\<rparr>"
    using assms(1) by (simp add: t_def inspect_frame_def s1_def s2_def s3_def Let_def)
  have s1: "is_frame_number s1 = is_frame_number s + 1" "total_frames (is_stats s1) = total_frames (is_stats s) + 1"
    "is_validator s1 = is_validator s" "is_starts_at_zero s1 = is_starts_at_zero s" "is_replayed_frames s1 = is_replayed_frames s" "is_issues s1 = is_issues s"
    by (simp_all add: s1_def)
  have s2: "is_frame_number s2 = is_frame_number s + 1" "total_frames (is_stats s2) = total_frames (is_stats s) + 1"
    "is_validator s2 = v" "is_starts_at_zero s2 = (if is_frame_number s + 1 = 1 then global_frame_seq_num (header f) = 0 else is_starts_at_zero s)"
    "is_replayed_frames s2 = (if e = None \<and> last_was_replay v then is_replayed_frames s + 1 else is_replayed_frames s)"
    "is_issues s2 = is_issues s @ (case e of None \<Rightarrow> [] | Some x \<Rightarrow> [Frame_rejected (is_frame_number s + 1) x])"
    using assms(2,3) s1 by (auto simp: s2_def inspect_validator_def Let_def split: option.splits if_splits)
  have s3: "is_frame_number s3 = is_frame_number s2" "total_frames (is_stats s3) = total_frames (is_stats s2)"
    "is_validator s3 = is_validator s2" "is_starts_at_zero s3 = is_starts_at_zero s2" "is_replayed_frames s3 = is_replayed_frames s2"
    "is_issues s3 = is_issues s2 @ (case sig_error (validate_frame_signature ed_open (header f) keys required) of None \<Rightarrow> []
       | Some x \<Rightarrow> [Bad_frame_signature (is_frame_number s2) x])"
    by (simp_all add: s3_def inspect_signature_def Let_def split: option.split)
  show "is_frame_number t = is_frame_number s + 1" "total_frames (is_stats t) = total_frames (is_stats s) + 1" "is_validator t = v"
    "is_starts_at_zero t = (if is_frame_number s + 1 = 1 then global_frame_seq_num (header f) = 0 else is_starts_at_zero s)"
    "is_replayed_frames t = (if e = None \<and> last_was_replay v then is_replayed_frames s + 1 else is_replayed_frames s)"
    "is_issues t = is_issues s @ (case e of None \<Rightarrow> [] | Some x \<Rightarrow> [Frame_rejected (is_frame_number s + 1) x]) @
      (case sig_error (validate_frame_signature ed_open (header f) keys required) of None \<Rightarrow> []
       | Some x \<Rightarrow> [Bad_frame_signature (is_frame_number s + 1) x])"
    using s2 s3 by (simp_all add: t split: option.split)
qed

text \<open>Behind the frames \<open>seen\<close>: without an issue they contain a run, apart from replays; and if
  they start an intact archive there is no issue.\<close>

definition run_inspected :: "bytes list \<Rightarrow> frame_header list \<Rightarrow> 'r inspect_state \<Rightarrow> bool" where
  "run_inspected seen hs s \<longleftrightarrow> subseq hs (map record_header seen) \<and>
     (\<forall>rec \<in> set seen. global_frame_seq_num (record_header rec) \<in> global_frame_seq_num ` set hs) \<and>
     (if seen = [] then \<not> is_starts_at_zero s
      else hs \<noteq> [] \<and> frame_run (global_frame_seq_num (hd hs)) hs \<and> tracks_run (global_frame_seq_num (hd hs)) (is_validator s) hs \<and>
        is_starts_at_zero s = (global_frame_seq_num (hd hs) = 0))"

definition archive_inspected :: "bytes list \<Rightarrow> 'r inspect_state \<Rightarrow> bool" where
  "archive_inspected seen s \<longleftrightarrow> is_issues s = [] \<and> is_replayed_frames s = 0 \<and>
     (seen \<noteq> [] \<longrightarrow> is_starts_at_zero s \<and> (\<exists>w. tracks w (map record_header seen) \<and> relaxes w (is_validator s)))"

definition inspected ::
  "(bytes \<Rightarrow> bytes) \<Rightarrow> ed_open \<Rightarrow> public_key list \<Rightarrow> bool \<Rightarrow> bytes list \<Rightarrow> 'r inspect_state \<Rightarrow> bool" where
  "inspected H ed_open keys required seen s \<longleftrightarrow>
     is_frame_number s = word_of_nat (length seen) \<and> total_frames (is_stats s) = word_of_nat (length seen) \<and>
     (is_issues s = [] \<longrightarrow> list_all (restorable H ed_open keys required) seen \<and> (\<exists>hs. run_inspected seen hs s)) \<and>
     (list_all (restorable H ed_open keys required) seen \<and> archive_prefix [] (map record_header seen) \<longrightarrow> archive_inspected seen s)"

lemma first_frame_number: "Suc (length seen) < 2 ^ 64 \<Longrightarrow> (word_of_nat (length seen) :: u64) + 1 = 1 \<longleftrightarrow> seen = []"
proof -
  assume "Suc (length seen) < 2 ^ 64"
  then have "unat (word_of_nat (length seen) :: u64) = length seen" by (simp add: unat_of_nat take_bit_nat_eq_self)
  then have "(word_of_nat (length seen) :: u64) = 0 \<longleftrightarrow> seen = []" using unat_eq_0 [of "word_of_nat (length seen) :: u64"] by simp
  then show ?thesis by (metis add_cancel_left_left)
qed

lemma run_inspected_step:
  assumes "run_inspected seen hs s" and "validate H v0 f rec False = (v, None)" and "check_frame H rec = Inr f"
    and "v0 = (if seen = [] then seed_for_stream_start (is_validator s) (header f) else is_validator s)"
    and "is_validator t = v" and "is_starts_at_zero t = (if seen = [] then global_frame_seq_num (header f) = 0 else is_starts_at_zero s)"
  shows "hash_ok f \<and> (\<exists>hs. run_inspected (seen @ [rec]) hs t)"
proof -
  note R = assms(1) [unfolded run_inspected_def]
  have h: "record_header rec = header f" using check_frame_InrD(1) [OF assms(3)] by (simp add: record_header_def)
  have bs: "decoded_block_size (header f) \<noteq> 0"
    using validate_header_block [OF parse_InrD(9) [OF check_frame_InrD(1) [OF assms(3)]]] by auto
  let ?g = "if seen = [] then global_frame_seq_num (header f) else global_frame_seq_num (hd hs)"
  have none: "hs = []" if "seen = []" using R that by (auto dest: list_emb_length)
  have "tracks_run ?g v0 hs" using R assms(4) none tracks_run_seeded by auto
  from validate_run [OF assms(2) this bs] have V: "hash_ok f"
    "last_was_replay v \<and> tracks_run ?g v hs \<and> global_frame_seq_num (header f) \<in> global_frame_seq_num ` set hs \<or>
     tracks_run ?g v (hs @ [header f]) \<and> global_frame_seq_num (header f) = ?g + word_of_nat (length hs) \<and> same_archive hs (header f) \<and>
     \<not> archive_ended hs" by blast+
  from V(2) show ?thesis
  proof (elim disjE conjE)
    assume a: "tracks_run ?g v hs" "global_frame_seq_num (header f) \<in> global_frame_seq_num ` set hs"
    then have "seen \<noteq> []" using none by auto
    then have "run_inspected (seen @ [rec]) hs t" using R a h assms(5,6) by (auto simp: run_inspected_def intro: subseq_order.trans)
    with V(1) show ?thesis by blast
  next
    assume a: "tracks_run ?g v (hs @ [header f])" "global_frame_seq_num (header f) = ?g + word_of_nat (length hs)"
      "same_archive hs (header f)" "\<not> archive_ended hs"
    have "run_inspected (seen @ [rec]) (hs @ [header f]) t"
    proof (cases "seen = []")
      case True
      then show ?thesis using a none h assms(5,6) by (simp add: run_inspected_def frame_run_def same_archive_def archive_ended_def)
    next
      case False
      then show ?thesis using R a h assms(5,6) by (auto simp: run_inspected_def frame_run_snoc list_emb_append_mono)
    qed
    with V(1) show ?thesis by blast
  qed
qed

lemma archive_inspected_step:
  assumes "seen \<noteq> [] \<longrightarrow> (\<exists>w. tracks w (map record_header seen) \<and> relaxes w (is_validator s))"
    and "restorable H ed_open keys required rec" and "fits (map record_header seen) (record_header rec)" and "check_frame H rec = Inr f"
    and "v0 = (if seen = [] then seed_for_stream_start (is_validator s) (header f) else is_validator s)"
  shows "\<exists>w v. validate H v0 f rec False = (v, None) \<and> \<not> last_was_replay v \<and> tracks w (map record_header (seen @ [rec])) \<and> relaxes w v"
proof -
  have i: "intact_header H rec = Some (record_header rec)" "header f = record_header rec"
    using assms(2,4) check_frame_InrD(1) [OF assms(4)] by (simp_all add: restorable_def record_header_def)
  obtain w where w: "tracks w (map record_header seen)" "relaxes w v0"
  proof (cases "seen = []")
    case True
    then have "global_frame_seq_num (header f) = 0" using assms(3) i by (simp add: fits_def)
    then show ?thesis using that [of initial_validator] True assms(5) tracks_initial relaxes_seeded by simp
  next
    case False
    then show ?thesis using that assms(1,5) by auto
  qed
  from validate_fits [OF w(1) i(1) assms(3,4)] obtain w' where w': "validate H w f rec False = (w', None)"
    "tracks w' (map record_header (seen @ [rec]))" "\<not> last_was_replay w'" by auto
  from relaxes_validate [OF w(2) w'(1)] obtain v where "validate H v0 f rec False = (v, None)" "relaxes w' v" by blast
  then show ?thesis using w' by (auto simp: relaxes_def)
qed

lemma inspected_step:
  assumes "inspected H ed_open keys required seen s" and "Suc (length seen) < 2 ^ 64"
  shows "inspected H ed_open keys required (seen @ [mr_record m]) (inspect_frame H ed_open keys required m s)"
proof -
  let ?rec = "mr_record m" and ?t = "inspect_frame H ed_open keys required m s"
  note I = assms(1) [unfolded inspected_def]
  have n: "is_frame_number s + 1 = 1 \<longleftrightarrow> seen = []" using I first_frame_number [OF assms(2)] by simp
  show ?thesis
  proof (cases "check_frame H ?rec")
    case (Inl e)
    then have "\<not> restorable H ed_open keys required ?rec" by (simp add: restorable_def intact_header_def)
    then show ?thesis using I inspect_frame_bad [OF Inl, of ed_open keys required s] by (simp add: inspected_def)
  next
    case (Inr f)
    define v0 where "v0 = (if seen = [] then seed_for_stream_start (is_validator s) (header f) else is_validator s)"
    obtain v e where v: "validate H v0 f ?rec False = (v, e)" by force
    have "v0 = (if is_frame_number s + 1 = 1 then seed_for_stream_start (is_validator s) (header f) else is_validator s)"
      using n by (simp add: v0_def)
    note T = inspect_frame_fields [OF Inr this v refl, of ed_open keys required, unfolded n]
    have h: "record_header ?rec = header f" using check_frame_InrD(1) [OF Inr] by (simp add: record_header_def)
    have sound: "list_all (restorable H ed_open keys required) (seen @ [?rec]) \<and> (\<exists>hs. run_inspected (seen @ [?rec]) hs ?t)"
      if "is_issues ?t = []"
    proof -
      from that T(6) have e: "is_issues s = []" "e = None" "sig_error (validate_frame_signature ed_open (header f) keys required) = None"
        by (auto split: option.splits)
      with I obtain hs where hs: "list_all (restorable H ed_open keys required) seen" "run_inspected seen hs s" by blast
      from run_inspected_step [OF hs(2) v [unfolded e(2)] Inr v0_def T(3,4)] show ?thesis
        using hs(1) e(3) Inr h by (simp add: restorable_def intact_header_def)
    qed
    have complete: "archive_inspected (seen @ [?rec]) ?t"
      if "list_all (restorable H ed_open keys required) (seen @ [?rec])" "archive_prefix [] (map record_header (seen @ [?rec]))"
    proof -
      from that have r: "list_all (restorable H ed_open keys required) seen" "archive_prefix [] (map record_header seen)"
        "restorable H ed_open keys required ?rec" "fits (map record_header seen) (record_header ?rec)"
        by (simp_all add: archive_prefix_append)
      with I have a: "archive_inspected seen s" by blast
      then have "seen \<noteq> [] \<longrightarrow> (\<exists>w. tracks w (map record_header seen) \<and> relaxes w (is_validator s))" by (simp add: archive_inspected_def)
      from archive_inspected_step [OF this r(3,4) Inr v0_def] v obtain w where
        w: "e = None" "\<not> last_was_replay v" "tracks w (map record_header (seen @ [?rec]))" "relaxes w v" by auto
      have "sig_error (validate_frame_signature ed_open (header f) keys required) = None" using r(3) h by (simp add: restorable_def)
      moreover have "global_frame_seq_num (header f) = 0" if "seen = []" using that r(4) h by (simp add: fits_def)
      ultimately show ?thesis using a w T by (auto simp: archive_inspected_def)
    qed
    show ?thesis using I T(1,2) sound complete by (simp add: inspected_def)
  qed
qed

definition frames_on :: "bytes list list \<Rightarrow> bytes list" where
  "frames_on files = dropWhile (\<lambda>rec. \<not> has_frame_magic rec) (concat files)"

lemma inspected_cong:
  "is_frame_number s' = is_frame_number s \<Longrightarrow> total_frames (is_stats s') = total_frames (is_stats s) \<Longrightarrow> is_issues s' = is_issues s \<Longrightarrow>
   is_validator s' = is_validator s \<Longrightarrow> is_starts_at_zero s' = is_starts_at_zero s \<Longrightarrow> is_replayed_frames s' = is_replayed_frames s \<Longrightarrow>
   inspected H ed_open keys required seen s' = inspected H ed_open keys required seen s"
  by (simp add: inspected_def run_inspected_def archive_inspected_def)

context medium
begin

lemma loop_inspects:
  assumes "at k files (is_reader s)" and "call_count files < n" and "inspected H ed_open keys required seen s"
    and "length seen + length (concat files) < 2 ^ 64"
  shows "\<exists>s'. inspect_loop n src H ed_open keys required s = Inr s' \<and>
    inspected H ed_open keys required (seen @ (if seen = [] then frames_on files else concat files)) s'"
  using assms
proof (induction n arbitrary: k files s seen)
  case (Suc n)
  have zero: "is_frame_number s = 0 \<longleftrightarrow> seen = []"
  proof -
    have "unat (word_of_nat (length seen) :: u64) = length seen" using Suc.prems(4) by (simp add: unat_of_nat take_bit_nat_eq_self)
    then show ?thesis using Suc.prems(3) unat_eq_0 [of "word_of_nat (length seen) :: u64"] by (simp add: inspected_def)
  qed
  show ?case
  proof (cases files)
    case Nil
    with at_end Suc.prems(1) obtain m r' where "rs_next src (is_reader s) = Inr (m, r')" "mr_event m = Ev_end" by blast
    then show ?thesis using Nil Suc.prems(3) inspected_cong [of "s\<lparr>is_reader := r'\<rparr>" s]
      by (cases "seen = []") (simp_all add: frames_on_def)
  next
    case (Cons recs rest)
    show ?thesis
    proof (cases recs)
      case Nil
      with at_filemark Suc.prems(1) Cons obtain m r' where m: "rs_next src (is_reader s) = Inr (m, r')" "mr_event m = Ev_filemark"
        "at (Suc k) rest r'" by blast
      let ?s = "inspect_record H ed_open keys required m (s\<lparr>is_reader := r'\<rparr>)"
      have s: "inspected H ed_open keys required seen ?s" "is_reader ?s = r'"
        using m(2) Suc.prems(3) inspected_cong [of ?s s] by (simp_all add: inspect_record_def)
      have "call_count rest < n" "length seen + length (concat rest) < 2 ^ 64"
        using Suc.prems(2,4) Cons Nil by (simp_all add: call_count_def)
      with Suc.IH [of "Suc k" rest ?s seen] s m Cons Nil show ?thesis by (cases "seen = []") (simp_all add: frames_on_def)
    next
      case (Cons rec recs')
      note files = \<open>files = recs # rest\<close> [unfolded Cons]
      with at_record Suc.prems(1) obtain m r' where m: "rs_next src (is_reader s) = Inr (m, r')" "mr_event m = Ev_record"
        "mr_record m = rec" "at k (recs' # rest) r'" by blast
      let ?s = "inspect_record H ed_open keys required m (s\<lparr>is_reader := r'\<rparr>)"
      have c: "call_count (recs' # rest) < n" using Suc.prems(2) files by (simp add: call_count_def)
      have loop: "inspect_loop (Suc n) src H ed_open keys required s = inspect_loop n src H ed_open keys required ?s" using m by simp
      show ?thesis
      proof (cases "seen = [] \<and> \<not> has_frame_magic rec")
        case True
        have s: "inspected H ed_open keys required seen ?s" "is_reader ?s = r'"
          using m True zero Suc.prems(3) inspected_cong [of ?s s] by (simp_all add: inspect_record_def)
        from Suc.IH [of k "recs' # rest" ?s seen] s m(4) c Suc.prems(4) files True show ?thesis
          unfolding loop by (simp add: frames_on_def)
      next
        case False
        have f: "?s = inspect_frame H ed_open keys required m (s\<lparr>is_reader := r'\<rparr>)"
          using m(2,3) False zero by (auto simp: inspect_record_def)
        have r: "is_reader ?s = r'"
          unfolding f by (auto simp: inspect_frame_def inspect_validator_def inspect_signature_def Let_def split: sum.splits option.splits prod.splits)
        have "inspected H ed_open keys required seen (s\<lparr>is_reader := r'\<rparr>)" using Suc.prems(3) inspected_cong [of "s\<lparr>is_reader := r'\<rparr>" s] by simp
        from inspected_step [OF this, of m] Suc.prems(4) files m(3) f
        have i: "inspected H ed_open keys required (seen @ [rec]) ?s" by simp
        from Suc.IH [of k "recs' # rest" ?s "seen @ [rec]"] i r m(4) c Suc.prems(4) files False show ?thesis
          unfolding loop by (auto simp: frames_on_def)
      qed
    qed
  qed
qed simp

end

lemma new_inspected: "inspected H ed_open keys required [] (new_inspect r)"
  by (auto simp: inspected_def new_inspect_def no_stats_def run_inspected_def archive_inspected_def intro: exI [of _ "[]"])

lemma inspect_result:
  assumes "reader_at H block k files r" and "call_count files < n" and "length (concat files) < 2 ^ 64"
    and "src = reader_source (Suc m) H name ideal_drive"
  shows "\<exists>s :: ideal_tape record_reader inspect_state. do_inspect n src H ed_open keys required r = Inr (inspect_report_of s) \<and> inspected H ed_open keys required (frames_on files) s"
proof -
  have at: "reader_at H block k files (is_reader (new_inspect r))" using assms(1) by (simp add: new_inspect_def)
  have "length ([] :: bytes list) + length (concat files) < 2 ^ 64" using assms(3) by simp
  note r = reader.loop_inspects [OF at assms(2) new_inspected this]
  have "\<exists>s. inspect_loop n src H ed_open keys required (new_inspect r) = Inr s \<and>
      inspected H ed_open keys required ([] @ (if ([] :: bytes list) = [] then frames_on files else concat files)) s"
    unfolding assms(4) by (rule r)
  then obtain s where s: "inspect_loop n src H ed_open keys required (new_inspect r) = Inr s"
    "inspected H ed_open keys required (frames_on files) s" by auto
  then have "do_inspect n src H ed_open keys required r = Inr (inspect_report_of s)" by (simp add: do_inspect_def)
  then show ?thesis using s(2) by blast
qed

lemma frame_run_ends: "frame_run g hs \<Longrightarrow> archive_ended hs \<Longrightarrow> hs \<noteq> [] \<and> channel_type (last hs) = ARCHIVE_END"
  by (cases hs rule: rev_cases) (simp_all add: frame_run_snoc)

section \<open>Properties\<close>

text \<open>C8. A report can be trusted.  Of any spool or tape the whole is read and reported; if the report is PASS, then every record from the first frame on is an
  intact frame that the signature policy accepts, and, apart from repeated ones, they are one run of frames of one archive,
  numbered without a gap, in which nothing follows an archive end; if the archive is reported complete, the run
  goes from frame 0 to an archive end, so that no frame is missing.\<close>
theorem inspect_report_sound:
  assumes "reader_at H block k files r" and "call_count files < n" and "length (concat files) < 2 ^ 64"
    and "src = reader_source (Suc m) H name ideal_drive"
  shows "\<exists>rep. do_inspect n src H ed_open keys required r = Inr rep \<and> total_frames (rp_stats rep) = word_of_nat (length (frames_on files)) \<and>
    (inspect_passes rep \<longrightarrow> list_all (restorable H ed_open keys required) (frames_on files) \<and>
      (\<exists>g hs. subseq hs (map record_header (frames_on files)) \<and> frame_run g hs \<and>
        (\<forall>rec \<in> set (frames_on files). global_frame_seq_num (record_header rec) \<in> global_frame_seq_num ` set hs) \<and>
        (rp_verified rep \<longrightarrow> g = 0 \<and> hs \<noteq> [] \<and> channel_type (last hs) = ARCHIVE_END)))"
proof -
  from inspect_result [OF assms(1-4)] obtain s :: "ideal_tape record_reader inspect_state" where
    rep: "do_inspect n src H ed_open keys required r = Inr (inspect_report_of s)" and s: "inspected H ed_open keys required (frames_on files) s"
    by blast
  have "\<exists>g. frame_run g hs \<and> (is_starts_at_zero s \<and> saw_archive_end (is_validator s) \<longrightarrow> g = 0 \<and> hs \<noteq> [] \<and> channel_type (last hs) = ARCHIVE_END)"
    if "run_inspected (frames_on files) hs s" for hs
  proof (cases "frames_on files = []")
    case True
    with that show ?thesis by (auto simp: run_inspected_def dest: list_emb_length)
  next
    case False
    with that frame_run_ends show ?thesis by (auto simp: run_inspected_def tracks_run_def)
  qed
  then show ?thesis using rep s
    by (fastforce simp: inspected_def inspect_report_of_def inspect_passes_def run_inspected_def Let_def)
qed

text \<open>C39. An intact archive passes.  If the frames on a medium, behind any records without the frame magic, are the beginning of an archive,
  intact and accepted by the signature policy, then \<open>neotape-inspect\<close> reports PASS without replays, and reports the archive as
  complete exactly if its end is among them.\<close>
theorem inspect_verifies_archive:
  assumes "reader_at H block k files r" and "call_count files < n" and "length (concat files) < 2 ^ 64"
    and "src = reader_source (Suc m) H name ideal_drive"
    and "list_all (restorable H ed_open keys required) (frames_on files)" and "archive_prefix [] (map record_header (frames_on files))"
  shows "\<exists>rep. do_inspect n src H ed_open keys required r = Inr rep \<and> inspect_passes rep \<and> rp_replayed rep = 0 \<and>
    (rp_verified rep \<longleftrightarrow> archive_ended (map record_header (frames_on files)))"
proof -
  from inspect_result [OF assms(1-4)] obtain s :: "ideal_tape record_reader inspect_state" where
    rep: "do_inspect n src H ed_open keys required r = Inr (inspect_report_of s)" and s: "inspected H ed_open keys required (frames_on files) s"
    by blast
  from s assms(5,6) have a: "archive_inspected (frames_on files) s" "is_issues s = []" by (auto simp: inspected_def archive_inspected_def)
  have "is_starts_at_zero s \<and> saw_archive_end (is_validator s) \<longleftrightarrow> archive_ended (map record_header (frames_on files))"
  proof (cases "frames_on files = []")
    case True
    then have "\<not> is_starts_at_zero s" using s a(2) by (auto simp: inspected_def run_inspected_def)
    then show ?thesis using True by (simp add: archive_ended_def)
  next
    case False
    then show ?thesis using a(1) by (auto simp: archive_inspected_def tracks_def relaxes_def)
  qed
  then show ?thesis using rep a
    by (auto simp: inspect_report_of_def inspect_passes_def archive_inspected_def Let_def)
qed

text \<open>The first frame is accepted whatever its slice and channel numbers are, also at global number 0, where the strict
  validator of the restoring side accepts only 0.\<close>

lemma first_frame_unchecked:
  assumes "size_ok f" and "hash_ok f"
  shows "snd (validate H (seed_for_stream_start v (header f)) f data False) = None"
  using assms
  by (cases "channel_type (header f)")
    (simp_all add: validate_def check_replay_def validate_new_def validate_identity_def validate_sequence_def validate_slice_def validate_channel_def
      seed_for_stream_start_def reset_def Let_def)

lemma archive_start_numbers:
  assumes "fits [] h" and "channel_type h \<noteq> ARCHIVE_END"
  shows "slice_seq_num h = 0 \<and> channel_frame_seq_num h = 0"
  using assms by (simp add: fits_def slice_fits_def channel_fits_def)

section \<open>Witnesses\<close>

lemma sample_frames_on: "frames_on sample_volume = [sample_catalog_record, sample_content_record, sample_end_record]"
  by (simp add: frames_on_def sample_volume_def sample_magic)

lemma sample_inspectable: "call_count sample_volume < 8" "length (concat sample_volume) < 2 ^ 64"
  "list_all (restorable zero_hash toy_open [] False) (frames_on sample_volume)" "archive_prefix [] (map record_header (frames_on sample_volume))"
  "archive_ended (map record_header (frames_on sample_volume))"
  unfolding sample_frames_on using sample_archive_prefix
  by (simp_all add: call_count_def sample_volume_def restorable_def sample_record_headers sample_intact_headers sample_unsigned archive_ended_def)

theorem inspect_verifies_archive_witness:
  "\<exists>rep. do_inspect 8 (reader_source 1 zero_hash ''t'' ideal_drive) zero_hash toy_open [] False (Inr (new_tape_reader (loaded_tape sample_volume))) = Inr rep \<and>
     inspect_passes rep \<and> rp_verified rep"
  using inspect_verifies_archive [OF sample_reader_at sample_inspectable(1,2) refl sample_inspectable(3,4), of 0 "''t''"] sample_inspectable(5)
  by auto

theorem inspect_report_sound_witness:
  "\<exists>rep. do_inspect 8 (reader_source 1 zero_hash ''t'' ideal_drive) zero_hash toy_open [] False (Inr (new_tape_reader (loaded_tape sample_volume))) = Inr rep \<and>
     total_frames (rp_stats rep) = 3"
  using inspect_report_sound [OF sample_reader_at sample_inspectable(1,2) refl, of 0 "''t''" toy_open "[]" False]
  by (auto simp: sample_frames_on)

end
