(* ===== verification/ScanCmd.thy ===== *)
theory ScanCmd
  imports RecordSource
begin

text \<open>
  src/neotape_scan_cmd.cpp: \<open>neotape-scan\<close> looks at the first frame of every tape file and lists the archives it
  sees, and \<open>read_spool_file_header\<close> of src/neotape_media.cpp, by which it does so on a spool.
\<close>

section \<open>The state\<close>

datatype header_problem = Short_header_read | Bad_first_header format_error

record scan_issue =
  si_file :: u64
  si_source :: string
  si_problem :: header_problem

record scan_archive =
  sa_uuid :: bytes
  sa_label :: bytes
  sa_first_file :: u64

record scan_state =
  sc_archives :: "scan_archive list"
  sc_tapefiles :: u64
  sc_issues :: "scan_issue list"
  sc_output :: string

definition new_scan :: scan_state where
  "new_scan = \<lparr>sc_archives = [], sc_tapefiles = 0, sc_issues = [], sc_output = []\<rparr>"

section \<open>What is printed\<close>

definition header_text :: "bytes \<Rightarrow> string" where
  "header_text bs = map (\<lambda>b. char_of (unat b)) bs"

definition source_display :: "media_locator \<Rightarrow> string" where
  "source_display source =
    (case ml_kind source of
       Tape_media \<Rightarrow> ''tape:'' @ ml_path source
     | Spool_media \<Rightarrow> ''spool:'' @ ml_path source
     | _ \<Rightarrow> ml_path source)"

definition print_new_archive :: "u64 \<Rightarrow> frame_header \<Rightarrow> string" where
  "print_new_archive num h = ''Archive first seen at tapefile #'' @ decimal (unat num) @ '': archive_uuid='' @ header_text (archive_uuid h) @
     '' archive_label='' @ [CHR 0x22] @ header_text (archive_label h) @ [CHR 0x22, CHR 0x0A]"

definition print_verbose_first_frame :: "u64 \<Rightarrow> frame_header \<Rightarrow> bool \<Rightarrow> string" where
  "print_verbose_first_frame num h is_new = ''Tapefile #'' @ decimal (unat num) @ '': channel='' @ channel_type_name (channel_type h) @
     '' global_frame_seq_num='' @ decimal (unat (global_frame_seq_num h)) @ '' slice_seq_num='' @ decimal (unat (slice_seq_num h)) @
     '' channel_frame_seq_num='' @ decimal (unat (channel_frame_seq_num h)) @ '' archive_uuid='' @ header_text (archive_uuid h) @
     '' archive_label='' @ [CHR 0x22] @ header_text (archive_label h) @ [CHR 0x22] @ '' new_archive='' @
     (if is_new then ''yes'' else ''no'') @ [CHR 0x0A]"

definition print_prefix_file :: "u64 \<Rightarrow> string" where
  "print_prefix_file num = ''Tapefile #'' @ decimal (unat num) @ '': non-NeoTape prefix'' @ [CHR 0x0A]"

section \<open>A first frame\<close>

definition find_archive :: "scan_archive list \<Rightarrow> frame_header \<Rightarrow> scan_archive option" where
  "find_archive archives h = find (\<lambda>e. sa_uuid e = archive_uuid h \<and> sa_label e = archive_label h) archives"

definition handle_first_frame :: "bool \<Rightarrow> u64 \<Rightarrow> frame_header \<Rightarrow> scan_state \<Rightarrow> scan_state" where
  "handle_first_frame verbose num h s =
    (let s = s\<lparr>sc_tapefiles := sc_tapefiles s + 1\<rparr>;
         is_new = (find_archive (sc_archives s) h = None);
         s = (if is_new then s\<lparr>sc_archives := sc_archives s @ [\<lparr>sa_uuid = archive_uuid h, sa_label = archive_label h, sa_first_file = num\<rparr>]\<rparr> else s)
     in if verbose then s\<lparr>sc_output := sc_output s @ print_verbose_first_frame num h is_new\<rparr>
        else if is_new then s\<lparr>sc_output := sc_output s @ print_new_archive num h\<rparr>
        else s)"

definition add_issue :: "u64 \<Rightarrow> string \<Rightarrow> header_problem \<Rightarrow> scan_state \<Rightarrow> scan_state" where
  "add_issue num name p s = s\<lparr>sc_issues := sc_issues s @ [\<lparr>si_file = num, si_source = name, si_problem = p\<rparr>]\<rparr>"

definition record_first_frame :: "bool \<Rightarrow> u64 \<Rightarrow> bytes \<Rightarrow> string \<Rightarrow> scan_state \<Rightarrow> scan_state" where
  "record_first_frame verbose num data name s =
    (case parse_fixed_header data of
       Inl e \<Rightarrow> add_issue num name (Bad_first_header e) s
     | Inr h \<Rightarrow> handle_first_frame verbose num h s)"

section \<open>A spool\<close>

text \<open>A stream that cannot be opened or read gives no header.\<close>

definition read_spool_file_header :: "spool_entry \<Rightarrow> header_problem + frame_header" where
  "read_spool_file_header e =
    (case se_reads e of
       None \<Rightarrow> Inl Short_header_read
     | Some fd \<Rightarrow>
         (case read_stream fd fixed_header_size of
            Inl _ \<Rightarrow> Inl Short_header_read
          | Inr (bs, _) \<Rightarrow>
              if length bs < fixed_header_size then Inl Short_header_read
              else case parse_fixed_header bs of Inl e \<Rightarrow> Inl (Bad_first_header e) | Inr h \<Rightarrow> Inr h))"

definition scan_spool_file :: "bool \<Rightarrow> spool_entry \<Rightarrow> scan_state \<Rightarrow> scan_state" where
  "scan_spool_file verbose e s =
    (let num = spool_number (se_name e) in
     case read_spool_file_header e of
       Inl p \<Rightarrow> add_issue num (se_name e) p s
     | Inr h \<Rightarrow> handle_first_frame verbose num h s)"

definition scan_spool_source :: "bool \<Rightarrow> spool_entry list option \<Rightarrow> scan_state \<Rightarrow> source_error + scan_state" where
  "scan_spool_source verbose root s =
    (if root = None then Inl (Media_failure Spool_missing)
     else bind_res (media_result (scan_spool_files root)) (\<lambda>files. Inr (fold (scan_spool_file verbose) files s)))"

section \<open>A tape\<close>

text \<open>The number bounds the calls of \<open>next()\<close>.\<close>

fun scan_tape_source :: "nat \<Rightarrow> 'r record_source \<Rightarrow> bool \<Rightarrow> bool \<Rightarrow> 'r \<Rightarrow> scan_state \<Rightarrow> source_error + scan_state" where
  "scan_tape_source 0 src verbose saw_frame r s = Inl Never_returns"
| "scan_tape_source (Suc n) src verbose saw_frame r s =
    (case rs_next src r of
       Inl e \<Rightarrow> Inl e
     | Inr (m, r) \<Rightarrow>
         (case mr_event m of
            Ev_end \<Rightarrow> Inr s
          | Ev_filemark \<Rightarrow> scan_tape_source n src verbose saw_frame r s
          | Ev_record \<Rightarrow>
              if \<not> saw_frame \<and> \<not> has_frame_magic (mr_record m) then
                bind_res (rs_skip src r) (\<lambda>r. scan_tape_source n src verbose saw_frame r
                  (if verbose then s\<lparr>sc_output := sc_output s @ print_prefix_file (mr_file_num m)\<rparr> else s))
              else bind_res (rs_skip src r) (\<lambda>r. scan_tape_source n src verbose True r
                  (record_first_frame verbose (mr_file_num m) (mr_record m) (mr_source_name m) s))))"

section \<open>The command\<close>

datatype 'r scan_target = Scan_spool "spool_entry list option" | Scan_tape "'r record_source" 'r

definition do_scan :: "nat \<Rightarrow> media_locator \<Rightarrow> bool \<Rightarrow> 'r scan_target \<Rightarrow> source_error + scan_state" where
  "do_scan n source verbose target =
    (let s = new_scan\<lparr>sc_output := ''Source: '' @ source_display source @ [CHR 0x0A]\<rparr> in
     bind_res (case target of
         Scan_spool root \<Rightarrow> scan_spool_source verbose root s
       | Scan_tape src r \<Rightarrow> scan_tape_source n src verbose False r s)
       (\<lambda>s. Inr (s\<lparr>sc_output := sc_output s @ ''Unique archives found: '' @ decimal (length (sc_archives s)) @ [CHR 0x0A] @
          ''Tapefiles scanned: '' @ decimal (unat (sc_tapefiles s)) @ [CHR 0x0A]\<rparr>)))"

text \<open>The exit code 0.\<close>

definition scan_succeeds :: "scan_state \<Rightarrow> bool" where
  "scan_succeeds s \<longleftrightarrow> sc_issues s = []"

end
