(* ===== verification/ScanSpec.thy ===== *)
theory ScanSpec
  imports ScanCmd CatalogCmdSpec
begin

text \<open>
  What \<open>neotape-scan\<close> finds: the archives of the first frames, each with the tape file where it appears
  first, on a spool directory as on a tape.
\<close>

section \<open>The archives of a list of first frames\<close>

definition archive_identity :: "frame_header \<Rightarrow> bytes \<times> bytes" where
  "archive_identity h = (archive_uuid h, archive_label h)"

definition identities :: "(nat \<times> frame_header) list \<Rightarrow> (bytes \<times> bytes) list" where
  "identities xs = map (\<lambda>(k, h). archive_identity h) xs"

definition seen_first :: "(nat \<times> frame_header) list \<Rightarrow> (nat \<times> frame_header) list" where
  "seen_first xs = map (\<lambda>i. xs ! i) (filter (\<lambda>i. identities xs ! i \<notin> set (take i (identities xs))) [0..<length xs])"

definition archives_of :: "(nat \<times> frame_header) list \<Rightarrow> scan_archive list" where
  "archives_of xs = map (\<lambda>(k, h). \<lparr>sa_uuid = archive_uuid h, sa_label = archive_label h, sa_first_file = word_of_nat k\<rparr>) (seen_first xs)"

lemma identities_simps [simp]: "identities [] = []" "identities (xs @ ys) = identities xs @ identities ys"
    "identities ((k, h) # xs) = archive_identity h # identities xs" "length (identities xs) = length xs"
  by (simp_all add: identities_def)

lemma seen_first_snoc:
  "seen_first (xs @ [(k, h)]) = seen_first xs @ (if archive_identity h \<in> set (identities xs) then [] else [(k, h)])"
proof -
  let ?P = "\<lambda>i. identities xs ! i \<notin> set (take i (identities xs))"
  let ?Q = "\<lambda>i. identities (xs @ [(k, h)]) ! i \<notin> set (take i (identities (xs @ [(k, h)])))"
  have u: "[0..<length (xs @ [(k, h)])] = [0..<length xs] @ [length xs]" by simp
  have q: "filter ?Q [0..<length xs] = filter ?P [0..<length xs]" by (rule filter_cong) (simp_all add: nth_append)
  have m: "map (\<lambda>i. (xs @ [(k, h)]) ! i) (filter ?P [0..<length xs]) = map (\<lambda>i. xs ! i) (filter ?P [0..<length xs])"
    by (rule map_cong) (auto simp: nth_append)
  have l: "?Q (length xs) \<longleftrightarrow> archive_identity h \<notin> set (identities xs)"
    using nth_append_length [of "identities xs" "archive_identity h" "[]"] by simp
  show ?thesis unfolding seen_first_def u filter_append map_append q m using l by simp
qed

lemma seen_first_identities: "set (identities (seen_first xs)) = set (identities xs)"
proof (induction xs rule: rev_induct)
  case (snoc x xs)
  obtain k h where x: "x = (k, h)" by force
  show ?case using snoc by (cases "archive_identity h \<in> set (identities xs)") (simp_all add: x seen_first_snoc insert_absorb)
qed (simp add: seen_first_def)

lemma archive_keys: "map (\<lambda>a. (sa_uuid a, sa_label a)) (archives_of xs) = identities (seen_first xs)"
  by (simp add: archives_of_def identities_def archive_identity_def case_prod_beta)

lemma set_identities: "set (identities xs) = archive_identity ` snd ` set xs"
  by (simp add: identities_def image_image case_prod_beta)

definition scanned :: "(nat \<times> frame_header) list \<Rightarrow> scan_state \<Rightarrow> bool" where
  "scanned xs s \<longleftrightarrow> sc_archives s = archives_of xs \<and> sc_tapefiles s = word_of_nat (length xs) \<and> sc_issues s = []"

lemma handle_scanned:
  assumes "scanned xs s"
  shows "scanned (xs @ [(k, h)]) (handle_first_frame verbose (word_of_nat k) h s)"
proof -
  have "find_archive (archives_of xs) h = None \<longleftrightarrow> archive_identity h \<notin> set (identities (seen_first xs))"
    unfolding archive_keys [symmetric] by (force simp: find_archive_def find_None_iff archive_identity_def)
  then show ?thesis using assms
    by (auto simp: scanned_def handle_first_frame_def Let_def archives_of_def seen_first_snoc seen_first_identities)
qed

section \<open>Both sources\<close>

definition first_frames :: "(bytes \<Rightarrow> bytes) \<Rightarrow> nat \<Rightarrow> bytes list list \<Rightarrow> (nat \<times> frame_header) list" where
  "first_frames H k files = enumerate k (map (first_header H) files)"

lemma first_frames_Cons: "first_frames H k (f # files) = (k, first_header H f) # first_frames H (Suc k) files"
  by (simp add: first_frames_def)

lemma tape_file_head:
  assumes "tape_file_ok H block recs"
  obtains rec rest where "recs = rec # rest" and "intact_header H rec = Some (first_header H recs)" and "has_frame_magic rec"
proof (cases recs)
  case Nil
  with assms show ?thesis by (simp add: tape_file_ok_def)
next
  case (Cons rec rest)
  with tape_file_headers [OF assms, of rec] obtain h where h: "intact_header H rec = Some h" by auto
  moreover have "has_frame_magic rec" using intact_headerD(1) [OF h] by (auto simp: parse_fixed_header_def split: if_splits)
  ultimately show ?thesis using that Cons by (simp add: first_header_def)
qed

lemma read_header_of_file:
  assumes "entry_holds H k recs e" and "tape_file_ok H block recs"
  shows "read_spool_file_header e = Inr (first_header H recs)"
proof -
  obtain fd where fd: "se_reads e = Some fd" "delivers fd (concat recs)" using assms(1) by (auto simp: entry_holds_def)
  note f = tape_file_first [OF assms(2)]
  have len: "length (take fixed_header_size (concat recs)) = fixed_header_size" using f(2) by simp
  have "delivers fd (take fixed_header_size (concat recs) @ drop fixed_header_size (concat recs))" using fd(2) by simp
  from read_stream_delivers [OF this len] obtain fd' where "read_stream fd fixed_header_size = Inr (take fixed_header_size (concat recs), fd')" .
  then show ?thesis using fd(1) f(1) len by (simp add: read_spool_file_header_def)
qed

lemma fold_scan_spool:
  assumes "list_all (tape_file_ok H block) files" and "length es = length files"
    and "\<forall>i < length files. entry_holds H (k + i) (files ! i) (es ! i)" and "scanned xs s"
  shows "scanned (xs @ first_frames H k files) (fold (scan_spool_file verbose) es s)"
  using assms
proof (induction files arbitrary: es k xs s)
  case Nil
  then show ?case by (simp add: first_frames_def)
next
  case (Cons f files)
  then obtain e es' where es: "es = e # es'" by (cases es) auto
  have e: "entry_holds H k f e" using Cons.prems(3) es by fastforce
  have "read_spool_file_header e = Inr (first_header H f)" using read_header_of_file [OF e, of block] Cons.prems(1) by simp
  then have "scan_spool_file verbose e s = handle_first_frame verbose (word_of_nat k) (first_header H f) s"
    using e file_name_number [of H k f] by (simp add: scan_spool_file_def entry_holds_def Let_def)
  then have "scanned (xs @ [(k, first_header H f)]) (scan_spool_file verbose e s)" using handle_scanned [OF Cons.prems(4)] by simp
  moreover have "\<forall>i < length files. entry_holds H (Suc k + i) (files ! i) (es' ! i)" using Cons.prems(3) es by fastforce
  ultimately show ?case using Cons.IH [of es' "Suc k" "xs @ [(k, first_header H f)]" "scan_spool_file verbose e s"] Cons.prems es
    by (simp add: first_frames_Cons)
qed

context medium
begin

lemma scan_files:
  assumes "at k files r" and "list_all (tape_file_ok H block) files" and "length files < n" and "scanned xs s"
  shows "\<exists>s'. scan_tape_source n src verbose saw r s = Inr s' \<and> scanned (xs @ first_frames H k files) s'"
  using assms
proof (induction n arbitrary: k files r xs s saw)
  case (Suc n)
  show ?case
  proof (cases files)
    case Nil
    with at_end Suc.prems(1) obtain m r' where "rs_next src r = Inr (m, r')" "mr_event m = Ev_end" by blast
    then show ?thesis using Nil Suc.prems(4) by (simp add: first_frames_def)
  next
    case (Cons f rest)
    with Suc.prems(2) have "tape_file_ok H block f" by simp
    then obtain rec recs where f: "f = rec # recs" "intact_header H rec = Some (first_header H f)" "has_frame_magic rec"
      by (rule tape_file_head)
    from at_record [of k rec recs rest r] Suc.prems(1) Cons f(1) obtain m r' where m: "rs_next src r = Inr (m, r')" "mr_event m = Ev_record"
      "mr_record m = rec" "mr_file_num m = word_of_nat k" "at k (recs # rest) r'" by blast
    from at_skip [OF m(5)] obtain r'' where r'': "rs_skip src r' = Inr r''" "at (Suc k) rest r''" by blast
    let ?s = "handle_first_frame verbose (word_of_nat k) (first_header H f) s"
    have "record_first_frame verbose (word_of_nat k) rec (mr_source_name m) s = ?s"
      using intact_headerD(1) [OF f(2)] by (simp add: record_first_frame_def)
    then have "scan_tape_source (Suc n) src verbose saw r s = scan_tape_source n src verbose True r'' ?s"
      using m r''(1) f(3) by simp
    moreover have "length rest < n" using Suc.prems(3) Cons by simp
    ultimately show ?thesis
      using Suc.IH [OF r''(2) _ _ handle_scanned [OF Suc.prems(4), of k "first_header H f" verbose]] Suc.prems(2) Cons
      by (simp add: first_frames_Cons)
  qed
qed simp

lemma scan_foreign:
  assumes "at k (foreign @ files) r" and "list_all foreign_file foreign" and "scanned xs s"
  shows "\<exists>r' s'. at (k + length foreign) files r' \<and> scanned xs s' \<and>
    scan_tape_source (length foreign + n) src verbose False r s = scan_tape_source n src verbose False r' s'"
  using assms
proof (induction foreign arbitrary: k r s)
  case Nil
  then show ?case by auto
next
  case (Cons f foreign)
  have "\<exists>r' s'. at (Suc k) (foreign @ files) r' \<and> scanned xs s' \<and>
      scan_tape_source (Suc (length foreign + n)) src verbose False r s = scan_tape_source (length foreign + n) src verbose False r' s'"
  proof (cases f)
    case Nil
    with at_filemark [of k "foreign @ files" r] Cons.prems(1) obtain m r' where
      "rs_next src r = Inr (m, r')" "mr_event m = Ev_filemark" "at (Suc k) (foreign @ files) r'" by auto
    then show ?thesis using Cons.prems(3) by (intro exI [of _ r'] exI [of _ s]) simp
  next
    case (Cons rec recs)
    with at_record [of k rec recs "foreign @ files" r] Cons.prems(1) obtain m r' where
      m: "rs_next src r = Inr (m, r')" "mr_event m = Ev_record" "mr_record m = rec" "at k (recs # foreign @ files) r'" by auto
    from at_skip [OF m(4)] obtain r'' where r'': "rs_skip src r' = Inr r''" "at (Suc k) (foreign @ files) r''" by blast
    let ?s = "if verbose then s\<lparr>sc_output := sc_output s @ print_prefix_file (mr_file_num m)\<rparr> else s"
    have "\<not> has_frame_magic rec" using Cons.prems(2) Cons by (simp add: foreign_file_def)
    moreover have "scanned xs ?s" using Cons.prems(3) by (simp add: scanned_def)
    ultimately show ?thesis using m r'' by (intro exI [of _ r''] exI [of _ ?s]) simp
  qed
  then obtain r1 s1 where 1: "at (Suc k) (foreign @ files) r1" "scanned xs s1"
    "scan_tape_source (Suc (length foreign + n)) src verbose False r s = scan_tape_source (length foreign + n) src verbose False r1 s1" by blast
  from Cons.IH [OF 1(1) _ 1(2)] Cons.prems(2) obtain r' s' where "at (Suc k + length foreign) files r'" "scanned xs s'"
    "scan_tape_source (length foreign + n) src verbose False r1 s1 = scan_tape_source n src verbose False r' s'" by auto
  then show ?case using 1(3) by (intro exI [of _ r'] exI [of _ s']) simp
qed

end

lemma archives_of_first:
  "distinct (map (\<lambda>a. (sa_uuid a, sa_label a)) (archives_of xs)) \<and>
   set (map (\<lambda>a. (sa_uuid a, sa_label a)) (archives_of xs)) = archive_identity ` snd ` set xs"
proof -
  have "distinct (identities (seen_first xs))"
  proof (induction xs rule: rev_induct)
    case (snoc x xs)
    then show ?case by (cases x) (auto simp: seen_first_snoc seen_first_identities)
  qed (simp add: seen_first_def)
  moreover have "set (identities (seen_first xs)) = archive_identity ` snd ` set xs" using seen_first_identities [of xs] unfolding set_identities [of xs] .
  ultimately show ?thesis unfolding archive_keys by simp
qed

section \<open>Properties\<close>

text \<open>C13. A scan of a spool directory and of a tape that hold the same volume, the tape with foreign files before it, find the same archives:
  the uuids and labels of the first frames of the tape files, each once, in the order of their first appearance, with the number of the
  tape file where that is; every tape file is counted and there is no issue.\<close>
theorem scan_finds_archives:
  assumes "spool_volume H block files es" and "tape_at H block k (foreign @ files) r" and "list_all foreign_file foreign"
    and "length foreign + length files < n" and "src = tape_source (Suc m) H name ideal_drive"
  shows "\<exists>s t. do_scan n source verbose (Scan_spool (Some es) :: ideal_tape tape_reader scan_target) = Inr s \<and> do_scan n source verbose (Scan_tape src r) = Inr t \<and>
    scan_succeeds s \<and> scan_succeeds t \<and>
    sc_archives s = archives_of (enumerate 0 (map (first_header H) files)) \<and>
    sc_archives t = archives_of (enumerate (k + length foreign) (map (first_header H) files)) \<and>
    sc_tapefiles s = word_of_nat (length files) \<and> sc_tapefiles t = word_of_nat (length files) \<and>
    distinct (map (\<lambda>a. (sa_uuid a, sa_label a)) (sc_archives s)) \<and>
    set (map (\<lambda>a. (sa_uuid a, sa_label a)) (sc_archives s)) = archive_identity ` first_header H ` set files"
proof -
  define fin where "fin s = s\<lparr>sc_output := sc_output s @ ''Unique archives found: '' @ decimal (length (sc_archives s)) @ [CHR 0x0A] @
      ''Tapefiles scanned: '' @ decimal (unat (sc_tapefiles s)) @ [CHR 0x0A]\<rparr>" for s :: scan_state
  define s0 where "s0 = new_scan\<lparr>sc_output := ''Source: '' @ source_display source @ [CHR 0x0A]\<rparr>"
  have z: "scanned [] s0" by (simp add: scanned_def s0_def new_scan_def archives_of_def seen_first_def)
  from assms(1) obtain dir where d: "listing es dir" "\<forall>n. parse_spool_file_name n \<noteq> Inr None \<longrightarrow> dir n = map_of (named H files) n"
    "length files \<le> 2 ^ 64" "list_all (tape_file_ok H block) files" by (auto simp: spool_volume_def)
  from scan_volume [OF d(1-3)] obtain fs where fs: "scan_spool_files (Some es) = Inr fs"
    "map se_name fs = volume_names H files" "set fs \<subseteq> set es" "\<forall>e \<in> set fs. se_regular e" .
  have len: "length fs = length files" using arg_cong [OF fs(2), of length] by (simp add: volume_names_def)
  have holds: "\<forall>i < length files. entry_holds H (0 + i) (files ! i) (fs ! i)" using volume_entries [OF d(1,2) fs(2-4) _ d(3)] by simp
  have s: "scanned (first_frames H 0 files) (fold (scan_spool_file verbose) fs s0)"
    using fold_scan_spool [OF d(4) len holds z] by simp
  obtain r' s' where f: "tape_at H block (k + length foreign) files r'" "scanned [] s'"
    "scan_tape_source (length foreign + (n - length foreign)) src verbose False r s0 = scan_tape_source (n - length foreign) src verbose False r' s'"
    using tape_medium.scan_foreign [OF assms(2,3) z] unfolding assms(5) by blast
  have nf: "length files < n - length foreign" using assms(4) by simp
  from tape_medium.scan_files [OF f(1) d(4) nf f(2)] obtain t where
    t: "scan_tape_source (n - length foreign) src verbose False r' s' = Inr t" "scanned ([] @ first_frames H (k + length foreign) files) t"
    unfolding assms(5) by blast
  have n: "length foreign + (n - length foreign) = n" using assms(4) by simp
  have ids: "snd ` set (enumerate 0 (map (first_header H) files)) = first_header H ` set files"
    unfolding set_map [symmetric] by simp
  have "do_scan n source verbose (Scan_spool (Some es) :: ideal_tape tape_reader scan_target) = Inr (fin (fold (scan_spool_file verbose) fs s0))"
    by (simp only: do_scan_def Let_def scan_target.case scan_spool_source_def fs(1) s0_def fin_def) simp
  moreover have "do_scan n source verbose (Scan_tape src r) = Inr (fin t)"
    using t(1) f(3) unfolding n by (simp only: do_scan_def Let_def scan_target.case s0_def [symmetric] fin_def) simp
  moreover have "sc_archives (fin s) = sc_archives s" "sc_tapefiles (fin s) = sc_tapefiles s" "sc_issues (fin s) = sc_issues s" for s
    by (simp_all add: fin_def)
  ultimately show ?thesis
    using s t(2) archives_of_first [of "enumerate 0 (map (first_header H) files)", unfolded ids]
    by (intro exI [of _ "fin (fold (scan_spool_file verbose) fs s0)"] exI [of _ "fin t"] conjI)
      (simp_all add: scanned_def scan_succeeds_def first_frames_def)
qed

section \<open>Witness\<close>

definition sample_directory :: "spool_entry list" where
  "sample_directory = [\<lparr>se_name = sample_name, se_regular = True, se_reads = Some [Chunk sample_record]\<rparr>]"

lemma sample_spool_volume: "spool_volume zero_hash 4096 [[sample_record]] sample_directory"
proof -
  let ?dir = "\<lambda>n. if n = sample_name then Some sample_record else None"
  have "sample_record \<noteq> []" using intact_headerD(4) [OF sample_intact] by (auto simp: fixed_header_size_def)
  then have "listing sample_directory ?dir" by (auto simp: sample_directory_def listing_def delivers_def)
  moreover have "named zero_hash [[sample_record]] = [(sample_name, sample_record)]"
    by (simp add: named_def file_name_def first_header_def sample_intact sample_name_def)
  ultimately show ?thesis using sample_file_ok unfolding spool_volume_def by (intro conjI exI [of _ ?dir]) simp_all
qed

lemma sample_tape_volume: "tape_at zero_hash 4096 0 ([[foreign_record]] @ [[sample_record]]) (new_tape_reader (loaded_tape [[foreign_record], [sample_record]]))"
proof -
  have "tape_records zero_hash 4096 (concat [[foreign_record], [sample_record]])"
    using intact_headerD(2,4) [OF sample_intact]
    by (auto simp: foreign_not_intact foreign_length sample_intact signed_sample_def sample_header_def default_header_def decoded_block_size_def
        max_tape_record_def max_block_size_def fixed_header_size_def)
  then show ?thesis using loaded_tape_at by simp
qed

theorem scan_finds_archives_witness:
  "\<exists>s t. do_scan 4 \<lparr>ml_kind = Spool_media, ml_path = ''d''\<rparr> True (Scan_spool (Some sample_directory) :: ideal_tape tape_reader scan_target) = Inr s \<and>
     do_scan 4 \<lparr>ml_kind = Spool_media, ml_path = ''d''\<rparr> True
       (Scan_tape (tape_source 1 zero_hash ''t'' ideal_drive) (new_tape_reader (loaded_tape [[foreign_record], [sample_record]]))) = Inr t \<and>
     map sa_first_file (sc_archives s) = [0] \<and> map sa_first_file (sc_archives t) = [1]"
proof -
  have f: "list_all foreign_file [[foreign_record]]" by (simp add: foreign_file_def sample_magic)
  have l: "length [[foreign_record]] + length [[sample_record]] < 4" by simp
  have a: "map sa_first_file (archives_of (enumerate k (map (first_header zero_hash) [[sample_record]]))) = [word_of_nat k]" for k
    by (simp add: archives_of_def seen_first_def identities_def)
  from scan_finds_archives [OF sample_spool_volume sample_tape_volume f l refl, of "\<lparr>ml_kind = Spool_media, ml_path = ''d''\<rparr>" True 0 "''t''"]
  obtain s t where "do_scan 4 \<lparr>ml_kind = Spool_media, ml_path = ''d''\<rparr> True (Scan_spool (Some sample_directory) :: ideal_tape tape_reader scan_target) = Inr s"
    "do_scan 4 \<lparr>ml_kind = Spool_media, ml_path = ''d''\<rparr> True
       (Scan_tape (tape_source 1 zero_hash ''t'' ideal_drive) (new_tape_reader (loaded_tape [[foreign_record], [sample_record]]))) = Inr t"
    "sc_archives s = archives_of (enumerate 0 (map (first_header zero_hash) [[sample_record]]))"
    "sc_archives t = archives_of (enumerate (0 + length [[foreign_record]]) (map (first_header zero_hash) [[sample_record]]))"
    unfolding One_nat_def by blast
  then show ?thesis unfolding One_nat_def by (intro exI [of _ s] exI [of _ t] conjI) (simp_all only: a, simp_all)
qed

end
