(* ===== verification/TapeDrive.thy ===== *)
theory TapeDrive
  imports Writer
begin

text \<open>
  src/neotape_tape.cpp: \<open>TapeDevice\<close> on a physical drive.  Each system call takes its result from a script (an
  exhausted script succeeds, except for status and position, which then fail with \<open>EIO\<close>); the handle keeps what
  the drive has stored, the operations it was asked for and the descriptors passed to \<open>close\<close>.
\<close>

section \<open>Errors and status\<close>

datatype errno = EINTR | EIO | EINVAL | ENOTTY | ENOSPC | Other_errno nat

record drive_error =
  de_device :: string
  de_operation :: string
  de_errno :: errno

record drive_status =
  ds_type :: "64 word"
  ds_resid :: "64 word"
  ds_dsreg :: "64 word"
  ds_gstat :: "64 word"
  ds_erreg :: "64 word"
  ds_fileno :: "32 word"
  ds_blkno :: "32 word"

definition status_eof :: "drive_status \<Rightarrow> bool" where "status_eof st \<longleftrightarrow> ds_gstat st AND 0x80000000 \<noteq> 0"
definition status_bot :: "drive_status \<Rightarrow> bool" where "status_bot st \<longleftrightarrow> ds_gstat st AND 0x40000000 \<noteq> 0"
definition status_eot :: "drive_status \<Rightarrow> bool" where "status_eot st \<longleftrightarrow> ds_gstat st AND 0x20000000 \<noteq> 0"
definition status_eod :: "drive_status \<Rightarrow> bool" where "status_eod st \<longleftrightarrow> ds_gstat st AND 0x08000000 \<noteq> 0"
definition status_online :: "drive_status \<Rightarrow> bool" where "status_online st \<longleftrightarrow> ds_gstat st AND 0x01000000 \<noteq> 0"

section \<open>The handle\<close>

record tape_handle =
  th_fd :: "nat option"
  th_path :: string
  th_read_write :: bool
  th_writes :: "(errno + nat) list"
  th_ioctls :: "errno option list"
  th_statuses :: "(errno + drive_status) list"
  th_positions :: "(errno + 64 word) list"
  th_closes :: "errno option list"
  th_stored :: "bytes list"
  th_issued :: "(nat \<times> int) list"
  th_closed :: "nat list"

definition drive_fails :: "tape_handle \<Rightarrow> string \<Rightarrow> errno \<Rightarrow> drive_error" where
  "drive_fails h operation e = \<lparr>de_device = th_path h, de_operation = operation, de_errno = e\<rparr>"

text \<open>\<open>close(2)\<close> on a descriptor.\<close>

definition close_descriptor :: "nat \<Rightarrow> tape_handle \<Rightarrow> errno option \<times> tape_handle" where
  "close_descriptor fd h =
    (case th_closes h of
       [] \<Rightarrow> (None, h\<lparr>th_closed := th_closed h @ [fd]\<rparr>)
     | r # rs \<Rightarrow> (r, h\<lparr>th_closes := rs, th_closed := th_closed h @ [fd]\<rparr>))"

text \<open>The constructor, with the results of \<open>open\<close> and of \<open>fstat\<close> (whether it is a character device).\<close>

definition open_tape :: "errno + nat \<Rightarrow> errno + bool \<Rightarrow> tape_handle \<Rightarrow> drive_error option \<times> tape_handle" where
  "open_tape opened stat h =
    (case opened of
       Inl e \<Rightarrow> (Some (drive_fails h ''open'' e), h\<lparr>th_fd := None\<rparr>)
     | Inr fd \<Rightarrow>
         (case stat of
            Inl e \<Rightarrow> (Some (drive_fails h ''fstat'' e), (snd (close_descriptor fd h))\<lparr>th_fd := None\<rparr>)
          | Inr False \<Rightarrow> (Some (drive_fails h ''not a character device'' ENOTTY), (snd (close_descriptor fd h))\<lparr>th_fd := None\<rparr>)
          | Inr True \<Rightarrow> (None, h\<lparr>th_fd := Some fd\<rparr>)))"

definition close_tape :: "tape_handle \<Rightarrow> drive_error option \<times> tape_handle" where
  "close_tape h =
    (case th_fd h of
       None \<Rightarrow> (None, h)
     | Some fd \<Rightarrow>
         (case close_descriptor fd (h\<lparr>th_fd := None\<rparr>) of
            (None, h) \<Rightarrow> (None, h)
          | (Some e, h) \<Rightarrow> (Some (drive_fails h ''close'' e), h)))"

text \<open>The destructor only prints the error.\<close>

definition destroy_tape :: "tape_handle \<Rightarrow> tape_handle" where
  "destroy_tape h = snd (close_tape h)"

section \<open>Records\<close>

text \<open>\<open>write(2)\<close>, repeated while it is interrupted.\<close>

fun write_uninterrupted :: "(errno + nat) list \<Rightarrow> nat \<Rightarrow> (errno + nat) \<times> (errno + nat) list" where
  "write_uninterrupted [] size_n = (Inr size_n, [])"
| "write_uninterrupted (r # rs) size_n = (if r = Inl EINTR then write_uninterrupted rs size_n else (r, rs))"

definition drive_write_record :: "tape_handle \<Rightarrow> bytes \<Rightarrow> drive_error option \<times> tape_handle" where
  "drive_write_record h data =
    (if data = [] then (Some (drive_fails h ''empty record'' EINVAL), h)
     else case write_uninterrupted (th_writes h) (length data) of
       (Inl e, ws) \<Rightarrow> (Some (drive_fails h ''write_record'' e), h\<lparr>th_writes := ws\<rparr>)
     | (Inr written, ws) \<Rightarrow>
         let h = h\<lparr>th_writes := ws, th_stored := th_stored h @ [take written data]\<rparr>
         in if written \<noteq> length data then (Some (drive_fails h ''short record write'' EIO), h) else (None, h))"

section \<open>Operations\<close>

definition drive_mtop :: "nat \<Rightarrow> int \<Rightarrow> tape_handle \<Rightarrow> drive_error option \<times> tape_handle" where
  "drive_mtop operation times_n h =
    (let h = h\<lparr>th_issued := th_issued h @ [(operation, times_n)]\<rparr> in
     case th_ioctls h of
       [] \<Rightarrow> (None, h)
     | None # rs \<Rightarrow> (None, h\<lparr>th_ioctls := rs\<rparr>)
     | Some e # rs \<Rightarrow> (Some (drive_fails h ''ioctl'' e), h\<lparr>th_ioctls := rs\<rparr>))"

definition drive_get_status :: "tape_handle \<Rightarrow> (drive_error + drive_status) \<times> tape_handle" where
  "drive_get_status h =
    (case th_statuses h of
       [] \<Rightarrow> (Inl (drive_fails h ''status'' EIO), h)
     | Inl e # rs \<Rightarrow> (Inl (drive_fails h ''status'' e), h\<lparr>th_statuses := rs\<rparr>)
     | Inr st # rs \<Rightarrow> (Inr st, h\<lparr>th_statuses := rs\<rparr>))"

definition drive_tell :: "tape_handle \<Rightarrow> (drive_error + 64 word) \<times> tape_handle" where
  "drive_tell h =
    (case th_positions h of
       [] \<Rightarrow> (Inl (drive_fails h ''tell'' EIO), h)
     | Inl e # rs \<Rightarrow> (Inl (drive_fails h ''tell'' e), h\<lparr>th_positions := rs\<rparr>)
     | Inr p # rs \<Rightarrow> (Inr p, h\<lparr>th_positions := rs\<rparr>))"

text \<open>The operation codes of tape_ioctl.hpp.\<close>

definition op_fsf :: nat where "op_fsf = 1"
definition op_bsf :: nat where "op_bsf = 2"
definition op_fsr :: nat where "op_fsr = 3"
definition op_bsr :: nat where "op_bsr = 4"
definition op_weof :: nat where "op_weof = 5"
definition op_rew :: nat where "op_rew = 6"
definition op_bsfm :: nat where "op_bsfm = 10"
definition op_fsfm :: nat where "op_fsfm = 11"
definition op_eom :: nat where "op_eom = 12"
definition op_setblk :: nat where "op_setblk = 20"
definition op_seek :: nat where "op_seek = 22"

definition drive_rewind :: "tape_handle \<Rightarrow> drive_error option \<times> tape_handle" where
  "drive_rewind = drive_mtop op_rew 1"

definition drive_space_to_eod :: "tape_handle \<Rightarrow> drive_error option \<times> tape_handle" where
  "drive_space_to_eod h =
    (case drive_mtop op_eom 1 h of
       (None, h) \<Rightarrow> (None, h)
     | (Some e, h) \<Rightarrow>
         if de_errno e = EIO then
           (case drive_get_status h of
              (Inr st, h) \<Rightarrow> (if status_eod st then None else Some e, h)
            | (Inl _, h) \<Rightarrow> (Some e, h))
         else (Some e, h))"

definition drive_space_fwd :: "int \<Rightarrow> tape_handle \<Rightarrow> drive_error option \<times> tape_handle" where "drive_space_fwd = drive_mtop op_fsf"
definition drive_space_bwd :: "int \<Rightarrow> tape_handle \<Rightarrow> drive_error option \<times> tape_handle" where "drive_space_bwd = drive_mtop op_bsf"
definition drive_space_fwd_filemark :: "int \<Rightarrow> tape_handle \<Rightarrow> drive_error option \<times> tape_handle" where
  "drive_space_fwd_filemark = drive_mtop op_fsfm"
definition drive_space_bwd_filemark :: "int \<Rightarrow> tape_handle \<Rightarrow> drive_error option \<times> tape_handle" where
  "drive_space_bwd_filemark = drive_mtop op_bsfm"
definition drive_space_fwd_records :: "int \<Rightarrow> tape_handle \<Rightarrow> drive_error option \<times> tape_handle" where
  "drive_space_fwd_records = drive_mtop op_fsr"
definition drive_space_bwd_records :: "int \<Rightarrow> tape_handle \<Rightarrow> drive_error option \<times> tape_handle" where
  "drive_space_bwd_records = drive_mtop op_bsr"

text \<open>The \<open>long\<close> block number is cut to an \<open>int\<close>.\<close>

definition drive_seek_block :: "64 word \<Rightarrow> tape_handle \<Rightarrow> drive_error option \<times> tape_handle" where
  "drive_seek_block block_no = drive_mtop op_seek (sint (ucast block_no :: 32 word))"

definition drive_write_filemark :: "int \<Rightarrow> tape_handle \<Rightarrow> drive_error option \<times> tape_handle" where
  "drive_write_filemark = drive_mtop op_weof"

definition drive_set_variable_block_mode :: "tape_handle \<Rightarrow> drive_error option \<times> tape_handle" where
  "drive_set_variable_block_mode = drive_mtop op_setblk 0"

section \<open>The drive behind a record sink\<close>

definition mt_error_of :: "drive_error \<Rightarrow> mt_error" where
  "mt_error_of e = (if de_errno e = ENOSPC then No_space else Device_error)"

definition whole_records :: "bytes list \<Rightarrow> tape_item list" where
  "whole_records = map Tape_record"

text \<open>A record is stored whole exactly when the call succeeds; a failing call stores nothing or, at a short write, one cut record.\<close>

lemma drive_write_stored:
  assumes "drive_write_record h data = (res, h')"
  shows "(res = None \<longrightarrow> th_stored h' = th_stored h @ [data]) \<and>
    (res \<noteq> None \<longrightarrow> th_stored h' = th_stored h \<or> (\<exists>n. n \<noteq> length data \<and> th_stored h' = th_stored h @ [take n data]))"
  using assms by (auto simp: drive_write_record_def Let_def split: if_splits prod.splits sum.splits)

text \<open>The scripted device of \<open>Writer\<close> behaves as the drive does: every result of the drive is a result of a script, and
  the log gains the record exactly when the drive has stored it whole.\<close>

lemma drive_refines_device:
  assumes "drive_write_record h data = (res, h')" and "td_write_results d = map_option mt_error_of res # rs"
  shows "device_write d data = (map_option mt_error_of res,
      d\<lparr>td_write_results := rs, td_log := td_log d @ (if res = None then whole_records [last (th_stored h')] else [])\<rparr>)"
  using drive_write_stored [OF assms(1)] assms(2) by (cases res) (auto simp: device_write_def whole_records_def)

lemma drive_mark_refines_device:
  assumes "drive_write_filemark 1 h = (res, h')" and "td_mark_results d = map_option mt_error_of res # rs"
  shows "fst (device_mark d) = map_option mt_error_of res" and "th_issued h' = th_issued h @ [(op_weof, 1)]"
  using assms by (auto simp: device_mark_def drive_write_filemark_def drive_mtop_def Let_def split: option.splits list.splits)

text \<open>A full drive is told from a broken one.\<close>

lemma drive_no_space:
  assumes "drive_write_record h data = (Some e, h')" and "data \<noteq> []"
  shows "mt_error_of e = No_space \<longleftrightarrow> fst (write_uninterrupted (th_writes h) (length data)) = Inl ENOSPC"
  using assms by (auto simp: drive_write_record_def mt_error_of_def drive_fails_def Let_def split: if_splits prod.splits sum.splits)

lemma space_to_eod_succeeds:
  assumes "drive_space_to_eod h = (None, h')"
  shows "(th_ioctls h = [] \<or> hd (th_ioctls h) = None) \<or>
    (hd (th_ioctls h) = Some EIO \<and> (\<exists>st rs. th_statuses h = Inr st # rs \<and> status_eod st))"
  using assms
  by (auto simp: drive_space_to_eod_def drive_mtop_def drive_get_status_def drive_fails_def Let_def
      split: list.splits option.splits sum.splits if_splits)

section \<open>Descriptors\<close>

datatype drive_op = Op_write bytes | Op_mtop nat int | Op_eod | Op_status | Op_tell | Op_close

fun run_op :: "drive_op \<Rightarrow> tape_handle \<Rightarrow> tape_handle" where
  "run_op (Op_write data) h = snd (drive_write_record h data)"
| "run_op (Op_mtop operation n) h = snd (drive_mtop operation n h)"
| "run_op Op_eod h = snd (drive_space_to_eod h)"
| "run_op Op_status h = snd (drive_get_status h)"
| "run_op Op_tell h = snd (drive_tell h)"
| "run_op Op_close h = snd (close_tape h)"

definition owns :: "nat \<Rightarrow> nat list \<Rightarrow> tape_handle \<Rightarrow> bool" where
  "owns fd before h \<longleftrightarrow> th_fd h = Some fd \<and> th_closed h = before \<or> th_fd h = None \<and> th_closed h = before @ [fd]"

lemma owns_write: "owns fd before h \<Longrightarrow> owns fd before (snd (drive_write_record h data))"
  by (auto simp: owns_def drive_write_record_def Let_def split: prod.splits sum.splits)

lemma owns_mtop: "owns fd before h \<Longrightarrow> owns fd before (snd (drive_mtop operation n h))"
  by (auto simp: owns_def drive_mtop_def Let_def split: list.splits option.splits)

lemma owns_status: "owns fd before h \<Longrightarrow> owns fd before (snd (drive_get_status h))"
  by (auto simp: owns_def drive_get_status_def split: list.splits sum.splits)

lemma owns_tell: "owns fd before h \<Longrightarrow> owns fd before (snd (drive_tell h))"
  by (auto simp: owns_def drive_tell_def split: list.splits sum.splits)

lemma owns_eod: "owns fd before h \<Longrightarrow> owns fd before (snd (drive_space_to_eod h))"
  using owns_mtop [of fd before h op_eom 1] owns_status [of fd before "snd (drive_mtop op_eom 1 h)"]
  by (auto simp: drive_space_to_eod_def split: prod.splits option.splits sum.splits)

lemma owns_close: "owns fd before h \<Longrightarrow> owns fd before (snd (close_tape h)) \<and> th_fd (snd (close_tape h)) = None"
  by (auto simp: owns_def close_tape_def close_descriptor_def split: list.splits option.splits)

lemma owns_op: "owns fd before h \<Longrightarrow> owns fd before (run_op operation h)"
  using owns_write owns_mtop owns_status owns_tell owns_eod owns_close by (cases operation) auto

text \<open>The descriptor of an opened drive is closed exactly once, whatever is done and whatever fails, close included.\<close>

lemma descriptor_closed_once:
  assumes "open_tape (Inr fd) stat h = (None, h')"
  shows "th_closed (destroy_tape (fold run_op ops h')) = th_closed h @ [fd]"
proof -
  have "owns fd (th_closed h) h'" using assms by (auto simp: owns_def open_tape_def split: sum.splits bool.splits)
  then have "owns fd (th_closed h) (fold run_op ops h')" by (induction ops arbitrary: h') (auto intro: owns_op)
  from owns_close [OF this] show ?thesis by (auto simp: destroy_tape_def owns_def)
qed

text \<open>A drive that is not accepted is closed, too.\<close>

lemma refused_descriptor_closed:
  "open_tape (Inr fd) stat h = (Some e, h') \<Longrightarrow> th_closed (destroy_tape h') = th_closed h @ [fd]"
  by (auto simp: open_tape_def destroy_tape_def close_tape_def close_descriptor_def split: sum.splits bool.splits list.splits)

end
