(* ===== verification/WriteCmd.thy ===== *)
theory WriteCmd
  imports Writer Dump Signature TapeDrive
begin

text \<open>
  src/neotape_write_cmd.cpp: what \<open>neotape-write\<close> does before the session of \<open>Writer\<close>: it authenticates the
  archiver, opens and positions the target, and stores the recovery bundle.

  The files that commands read are their bytes, or \<open>None\<close>; \<open>std::filesystem\<close> calls take their results from
  a script, as in \<open>Spool\<close>.  The nonce of \<open>random_auth_nonce\<close> and the process number are arguments.
\<close>

section \<open>Authentication\<close>

datatype auth_failure =
    Auth_send_failed | Auth_read_failed protocol_error | Auth_disconnected | Auth_response_size | Auth_not_verified
  | Auth_peer string | Auth_unexpected message_type

definition decode_error_payload :: "bytes \<Rightarrow> string \<Rightarrow> string" where
  "decode_error_payload payload fallback = (if payload = [] then fallback else map (\<lambda>b. char_of (unat b)) payload)"

definition auth_challenge_payload :: "bytes \<Rightarrow> bytes" where
  "auth_challenge_payload nonce = nonce"

definition decode_auth_response_payload :: "bytes \<Rightarrow> auth_failure + bytes" where
  "decode_auth_response_payload payload = (if length payload \<noteq> detached_size then Inl Auth_response_size else Inr payload)"

definition check_auth_response :: "ed_open \<Rightarrow> bytes \<Rightarrow> public_key list \<Rightarrow> message \<Rightarrow> auth_failure option" where
  "check_auth_response ed_open nonce keys response =
    (case msg_type response of
       Auth_response \<Rightarrow>
         (case decode_auth_response_payload (msg_payload response) of
            Inl e \<Rightarrow> Some e
          | Inr sig \<Rightarrow> if list_ex (verify_auth_nonce_signature ed_open sig nonce) keys then None else Some Auth_not_verified)
     | Error_msg \<Rightarrow> Some (Auth_peer (decode_error_payload (msg_payload response) ''archiver auth failure''))
     | t \<Rightarrow> Some (Auth_unexpected t))"

definition authenticate_source_server :: "ed_open \<Rightarrow> bytes \<Rightarrow> public_key list \<Rightarrow> connection \<Rightarrow> auth_failure option \<times> connection" where
  "authenticate_source_server ed_open nonce keys c =
    (if keys = [] then (None, c)
     else case conn_write c \<lparr>msg_type = Auth_challenge, msg_payload = auth_challenge_payload nonce\<rparr> of
       (False, c) \<Rightarrow> (Some Auth_send_failed, c)
     | (True, c) \<Rightarrow>
         (case conn_read c of
            (Inl e, c) \<Rightarrow> (Some (Auth_read_failed e), c)
          | (Inr None, c) \<Rightarrow> (Some Auth_disconnected, c)
          | (Inr (Some response), c) \<Rightarrow> (check_auth_response ed_open nonce keys response, c)))"

section \<open>The recovery bundle on a tape\<close>

datatype bundle_failure =
    Bundle_not_opened | Bundle_read_failed | Bundle_device mt_error | Bundle_directory | Bundle_copy | Bundle_stat | Bundle_rename
  | Bundle_stale

text \<open>An input file: whether it opens, its bytes, and whether reading breaks off behind them.\<close>

record bundle_file =
  bf_opens :: bool
  bf_bytes :: bytes
  bf_broken :: bool

text \<open>The loop over the records, with the bytes left; the number counts the records.\<close>

function bundle_loop :: "nat \<Rightarrow> bool \<Rightarrow> bytes \<Rightarrow> tape_device \<Rightarrow> u64 \<Rightarrow> (bundle_failure + u64) \<times> tape_device" where
  "bundle_loop block_size broken left d records =
    (let chunk = take block_size left in
     if chunk = [] then (if broken \<or> block_size = 0 then Inl Bundle_read_failed else Inr records, d)
     else case device_write d (chunk @ replicate (block_size - length chunk) 0) of
       (Some e, d) \<Rightarrow> (Inl (Bundle_device e), d)
     | (None, d) \<Rightarrow>
         if length chunk < block_size then (if broken then Inl Bundle_read_failed else Inr (records + 1), d)
         else bundle_loop block_size broken (drop block_size left) d (records + 1))"
  by pat_completeness auto

termination bundle_loop
  by (relation "measure (\<lambda>(n, b, left, d, k). length left)") auto

declare bundle_loop.simps [simp del]

definition write_tape_recovery_bundle :: "tape_device \<Rightarrow> bundle_file \<Rightarrow> nat \<Rightarrow> (bundle_failure + u64) \<times> tape_device" where
  "write_tape_recovery_bundle d source block_size =
    (if \<not> bf_opens source then (Inl Bundle_not_opened, d)
     else case bundle_loop block_size (bf_broken source) (bf_bytes source) d 0 of
       (Inl e, d) \<Rightarrow> (Inl e, d)
     | (Inr records, d) \<Rightarrow>
         (case device_mark d of
            (Some e, d) \<Rightarrow> (Inl (Bundle_device e), d)
          | (None, d) \<Rightarrow> (Inr (records * word_of_nat block_size), d)))"

section \<open>The recovery bundle in a spool\<close>

definition bundle_pending :: "nat \<Rightarrow> string" where
  "bundle_pending pid = ''recovery-bundle.tar.pending.'' @ decimal pid"

text \<open>The results of the calls in order: \<open>create_directories\<close>, the first \<open>remove\<close>, \<open>copy_file\<close>
  (how much of a failed copy is left), \<open>file_size\<close>, \<open>rename\<close>.\<close>

record bundle_calls =
  bc_directories :: bool
  bc_removed :: bool
  bc_copied :: "nat option"
  bc_sized :: bool
  bc_renamed :: bool

definition install_spool_recovery_bundle ::
  "nat \<Rightarrow> bundle_calls \<Rightarrow> bytes \<Rightarrow> (string \<Rightarrow> bytes option) \<Rightarrow> (bundle_failure + u64) \<times> (string \<Rightarrow> bytes option)" where
  "install_spool_recovery_bundle pid calls source dir =
    (if \<not> bc_directories calls then (Inl Bundle_directory, dir)
     else
       let pending = bundle_pending pid;
           dir = (if bc_removed calls then dir(pending := None) else dir)
       in case bc_copied calls of
            Some n \<Rightarrow> (Inl Bundle_copy, dir(pending := Some (take n source)))
          | None \<Rightarrow>
              let dir = dir(pending := Some source)
              in if \<not> bc_sized calls then (Inl Bundle_stat, dir(pending := None))
                 else if \<not> bc_renamed calls then (Inl Bundle_rename, dir(pending := None))
                 else (Inr (word_of_nat (length source)), dir(pending := None, recovery_bundle := Some source)))"

section \<open>The command\<close>

record write_options =
  wo_source_address :: string
  wo_target :: media_locator
  wo_erase :: bool
  wo_append :: bool
  wo_recovery_bundle :: "string option"
  wo_recovery_bundle_block_size :: "u64 option"
  wo_output_buffer_size :: u64
  wo_max_volume_bytes :: "u64 option"
  wo_verify_pubkey_paths :: "string list"
  wo_debug :: bool

definition default_recovery_bundle_block_size :: u64 where
  "default_recovery_bundle_block_size = 256 * 1024"

datatype write_failure =
    Write_auth auth_failure | Write_target target_error | Write_bundle bundle_failure | Write_device mt_error

text \<open>A spool: the device behind the opened target, and the bytes of the bundle.  The call of \<open>fs::remove\<close> on a
  stale bundle is the last argument.\<close>

definition prepare_spool ::
  "write_options \<Rightarrow> spool_entry list \<Rightarrow> (string \<Rightarrow> bytes option) \<Rightarrow> write_result list \<Rightarrow> bool list \<Rightarrow> nat \<Rightarrow> bundle_calls \<Rightarrow> bytes \<Rightarrow> bool \<Rightarrow>
   write_failure + u64 \<times> spool_device" where
  "prepare_spool opts entries dir writes faults pid calls source removed =
    (case open_spool_target (wo_erase opts) (wo_append opts) entries dir writes faults of
       Inl e \<Rightarrow> Inl (Write_target e)
     | Inr d \<Rightarrow>
         if wo_recovery_bundle opts \<noteq> None then
           (case install_spool_recovery_bundle pid calls source (sd_dir d) of
              (Inl e, dir) \<Rightarrow> Inl (Write_bundle e)
            | (Inr n, dir) \<Rightarrow> Inr (n, d\<lparr>sd_dir := dir\<rparr>))
         else if wo_erase opts then
           (if removed then Inr (0, d\<lparr>sd_dir := (sd_dir d)(recovery_bundle := None)\<rparr>) else Inl (Write_bundle Bundle_stale))
         else Inr (0, d))"

definition bundle_block_size :: "write_options \<Rightarrow> nat" where
  "bundle_block_size opts =
    unat (case wo_recovery_bundle_block_size opts of None \<Rightarrow> default_recovery_bundle_block_size | Some n \<Rightarrow> n)"

text \<open>
  A tape: the handle of the drive, and the device of \<open>Writer\<close> whose log is what is recorded on the
  tape.  Where the head stands follows from the operations the drive was asked for: a rewind takes it to the
  beginning, spacing to the end of data behind the last item, and setting the block mode leaves it.  The next write
  ends the recording at the head, so that of the log only what is before the head is left.
\<close>

definition head_moves :: "nat \<Rightarrow> nat \<Rightarrow> nat \<times> int \<Rightarrow> nat" where
  "head_moves recorded pos issued = (if fst issued = op_rew then 0 else if fst issued = op_eom then recorded else pos)"

definition head_after :: "nat \<Rightarrow> nat \<Rightarrow> (nat \<times> int) list \<Rightarrow> nat" where
  "head_after recorded start issued = foldl (head_moves recorded) start issued"

definition cut_at_head :: "nat \<Rightarrow> tape_handle \<Rightarrow> tape_device \<Rightarrow> tape_device" where
  "cut_at_head start h d = d\<lparr>td_log := take (head_after (length (td_log d)) start (th_issued h)) (td_log d)\<rparr>"

text \<open>The default policy: a tape that is not at its beginning, or not at its end there, is refused.\<close>

definition refuse_recorded :: "write_options \<Rightarrow> tape_handle \<Rightarrow> write_failure option \<times> tape_handle" where
  "refuse_recorded opts h =
    (if wo_erase opts \<or> wo_append opts then (None, h)
     else case drive_get_status h of
       (Inl e, h) \<Rightarrow> (Some (Write_device (mt_error_of e)), h)
     | (Inr st, h) \<Rightarrow>
         (if \<not> status_bot st then Some (Write_target Not_at_bot)
          else if \<not> status_eod st then Some (Write_target Contains_data) else None, h))"

definition position_tape :: "write_options \<Rightarrow> tape_handle \<Rightarrow> drive_error option \<times> tape_handle" where
  "position_tape opts h = (if wo_append opts then drive_space_to_eod h else drive_rewind h)"

text \<open>The results of \<open>open\<close> and \<open>fstat\<close> and the place of the head before are arguments.  A drive without variable
  block mode is warned about only.\<close>

definition prepare_tape ::
  "write_options \<Rightarrow> errno + nat \<Rightarrow> errno + bool \<Rightarrow> nat \<Rightarrow> bundle_file \<Rightarrow> tape_handle \<times> tape_device \<Rightarrow>
   (write_failure + u64) \<times> tape_handle \<times> tape_device" where
  "prepare_tape opts opened stat start source target =
    (case target of (h, d) \<Rightarrow>
     (case open_tape opened stat h of
        (Some e, h) \<Rightarrow> (Inl (Write_device (mt_error_of e)), h, d)
      | (None, h) \<Rightarrow>
     (case refuse_recorded opts (snd (drive_set_variable_block_mode h)) of
        (Some e, h) \<Rightarrow> (Inl e, h, d)
      | (None, h) \<Rightarrow>
     (case position_tape opts h of
        (Some e, h) \<Rightarrow> (Inl (Write_device (mt_error_of e)), h, d)
      | (None, h) \<Rightarrow>
          let d = cut_at_head start h d
          in if wo_recovery_bundle opts = None then (Inr 0, h, d)
             else (case write_tape_recovery_bundle d source (bundle_block_size opts) of
               (Inl e, d) \<Rightarrow> (Inl (Write_bundle e), h, d)
             | (Inr n, d) \<Rightarrow> (Inr n, h, d))))))"

definition tape_target ::
  "write_options \<Rightarrow> errno + nat \<Rightarrow> errno + bool \<Rightarrow> nat \<Rightarrow> bundle_file \<Rightarrow> tape_handle \<times> tape_device \<Rightarrow>
   (write_failure + u64 \<times> tape_device option) \<times> tape_handle \<times> tape_device" where
  "tape_target opts opened stat start source target =
    (case prepare_tape opts opened stat start source target of
       (Inl e, target) \<Rightarrow> (Inl e, target)
     | (Inr used, h, d) \<Rightarrow> (Inr (used, Some d), h, d))"

text \<open>The command up to the session: authentication comes before anything is done to the target, which is only opened by the
  function given here (for a null device it gives no device).  What the archiver waits for before each of its
  responses is an argument, as in \<open>Writer\<close>.\<close>

definition start_write ::
  "ed_open \<Rightarrow> bytes \<Rightarrow> public_key list \<Rightarrow> write_options \<Rightarrow> nat list \<Rightarrow> connection \<Rightarrow> ('t \<Rightarrow> (write_failure + u64 \<times> tape_device option) \<times> 't) \<Rightarrow> 't \<Rightarrow>
   (write_failure + session) \<times> 't" where
  "start_write ed_open nonce keys opts needs c prepare target =
    (case authenticate_source_server ed_open nonce keys c of
       (Some e, c) \<Rightarrow> (Inl (Write_auth e), target)
     | (None, c) \<Rightarrow>
         (case prepare target of
            (Inl e, target) \<Rightarrow> (Inl e, target)
          | (Inr (used, device), target) \<Rightarrow>
              (case new_record_sink device (wo_max_volume_bytes opts) used of
                 Inl e \<Rightarrow> Inl (Write_device e)
               | Inr sink \<Rightarrow> Inr (initial_session needs c sink), target)))"

text \<open>The exit code.  Behind the session a tape is closed (\<open>None\<close>: it succeeded, or there is no tape), and an error of
  that close counts.\<close>

definition exit_volume_change_required :: nat where "exit_volume_change_required = 3"

definition write_exit_code :: "writer_error + write_result_record \<Rightarrow> drive_error option \<Rightarrow> nat" where
  "write_exit_code res closed =
    (case res of
       Inl e \<Rightarrow> 1
     | Inr r \<Rightarrow> (case closed of Some e \<Rightarrow> 1 | None \<Rightarrow> if wr_complete r then 0 else exit_volume_change_required))"

end
