(* ===== verification/WriteSpec.thy ===== *)
theory WriteSpec
  imports WriteCmd WriterSpec VolumeServer
begin

text \<open>
  What \<open>neotape-write\<close> promises before its session: nothing is done to the target for an archiver that has not shown a
  configured key, and the recovery bundle is stored completely or not at all.
\<close>

section \<open>Authentication\<close>

definition proves_key :: "ed_open \<Rightarrow> bytes \<Rightarrow> public_key list \<Rightarrow> message \<Rightarrow> bool" where
  "proves_key ed_open nonce keys m \<longleftrightarrow> msg_type m = Auth_response \<and> length (msg_payload m) = detached_size \<and>
     list_ex (verify_auth_nonce_signature ed_open (msg_payload m) nonce) keys"

lemma check_auth_response_iff: "check_auth_response ed_open nonce keys m = None \<longleftrightarrow> proves_key ed_open nonce keys m"
  by (auto simp: check_auth_response_def proves_key_def decode_auth_response_payload_def split: message_type.splits)

lemma authenticate_iff:
  "fst (authenticate_source_server ed_open nonce keys c) = None \<longleftrightarrow>
     keys = [] \<or> (cn_writes_left c > 0 \<and>
       (\<exists>m rest. cn_reads c = Inr (Some m) # rest \<and> proves_key ed_open nonce keys m))"
  by (auto simp: authenticate_source_server_def conn_write_def conn_read_def check_auth_response_iff
      split: list.splits sum.splits option.splits)

lemma authenticate_sends:
  assumes "authenticate_source_server ed_open nonce keys c = (None, c')" and "keys \<noteq> []"
  shows "cn_sent c' = cn_sent c @ [\<lparr>msg_type = Auth_challenge, msg_payload = nonce\<rparr>]"
  using assms by (auto simp: authenticate_source_server_def conn_write_def conn_read_def auth_challenge_payload_def
      split: list.splits sum.splits option.splits if_splits)

text \<open>The answer of the archiver's volume server.\<close>

lemma challenge_answered:
  assumes "ed_pair ed_sign ed_open sk pk" and "pk \<in> set keys" and "vo_signer opts = Some sk"
    and "handle_auth_challenge ed_sign opts (auth_challenge_payload nonce) sv = (Value True, sv')"
  shows "\<exists>m. cn_sent (sv_conn sv') = cn_sent (sv_conn sv) @ [m] \<and> proves_key ed_open nonce keys m"
proof -
  from assms(3,4) obtain sig where sig: "sign_auth_nonce ed_sign sk nonce = Inr sig"
    and sent: "cn_sent (sv_conn sv') = cn_sent (sv_conn sv) @ [\<lparr>msg_type = Auth_response, msg_payload = sig\<rparr>]"
    by (auto simp: handle_auth_challenge_def auth_challenge_payload_def then_act_def error_act_def write_act_def done_act_def
        throw_act_def split: if_splits sum.splits)
  from sig assms(1) have "length sig = detached_size" "verify_auth_nonce_signature ed_open sig nonce pk"
    by (auto simp: sign_auth_nonce_def sign_detached_message_def verify_auth_nonce_signature_def
        verify_detached_message_signature_def ed_pair_def split: option.splits)
  with assms(2) have "proves_key ed_open nonce keys \<lparr>msg_type = Auth_response, msg_payload = sig\<rparr>"
    by (auto simp: proves_key_def list_ex_iff)
  with sent show ?thesis by blast
qed

lemma no_start_unauthenticated:
  "fst (authenticate_source_server ed_open nonce keys c) = Some e \<Longrightarrow>
    start_write ed_open nonce keys wopts needs c prepare target = (Inl (Write_auth e), target)"
  by (auto simp: start_write_def split: prod.splits)

text \<open>C12. The archiver is authenticated before anything is done to the target: with verification keys, a
  challenge is passed exactly when it could be sent and the next message of the connection is a response of 64 bytes that verifies under a
  configured key over the nonce sent; in every other case (an error message, another message, a wrong size, a bad
  signature, a lost connection) the command ends with the failure and leaves the target as it was.  The
  volume server of an archiver that signs with the secret half of a configured key answers a challenge so that it is passed.\<close>
theorem archiver_authenticated_first:
  assumes "ed_pair ed_sign ed_open sk pk" and "pk \<in> set keys" and "vo_signer opts = Some sk"
  shows "(fst (authenticate_source_server ed_open nonce keys c) = None \<longleftrightarrow>
      cn_writes_left c > 0 \<and> (\<exists>m rest. cn_reads c = Inr (Some m) # rest \<and> proves_key ed_open nonce keys m)) \<and>
    (\<forall>e. fst (authenticate_source_server ed_open nonce keys c) = Some e \<longrightarrow>
      start_write ed_open nonce keys wopts needs c prepare target = (Inl (Write_auth e), target)) \<and>
    (handle_auth_challenge ed_sign opts (auth_challenge_payload nonce) sv = (Value True, sv') \<longrightarrow>
      (\<exists>m. cn_sent (sv_conn sv') = cn_sent (sv_conn sv) @ [m] \<and>
        (\<forall>d rest. cn_writes_left d > 0 \<longrightarrow> cn_reads d = Inr (Some m) # rest \<longrightarrow>
          fst (authenticate_source_server ed_open nonce keys d) = None)))"
proof (intro conjI allI impI)
  show "fst (authenticate_source_server ed_open nonce keys c) = None \<longleftrightarrow>
      cn_writes_left c > 0 \<and> (\<exists>m rest. cn_reads c = Inr (Some m) # rest \<and> proves_key ed_open nonce keys m)"
    using assms(2) by (auto simp: authenticate_iff)
  show "start_write ed_open nonce keys wopts needs c prepare target = (Inl (Write_auth e), target)"
    if "fst (authenticate_source_server ed_open nonce keys c) = Some e" for e
    using that by (rule no_start_unauthenticated)
  assume "handle_auth_challenge ed_sign opts (auth_challenge_payload nonce) sv = (Value True, sv')"
  from challenge_answered [OF assms this] show
    "\<exists>m. cn_sent (sv_conn sv') = cn_sent (sv_conn sv) @ [m] \<and>
        (\<forall>d rest. cn_writes_left d > 0 \<longrightarrow> cn_reads d = Inr (Some m) # rest \<longrightarrow>
          fst (authenticate_source_server ed_open nonce keys d) = None)"
    using authenticate_iff [of ed_open nonce keys] by meson
qed

definition sample_write_options :: write_options where
  "sample_write_options = \<lparr>wo_source_address = ''a:1'', wo_target = \<lparr>ml_kind = Spool_media, ml_path = ''d''\<rparr>, wo_erase = False,
     wo_append = False, wo_recovery_bundle = None, wo_recovery_bundle_block_size = None, wo_output_buffer_size = 1,
     wo_max_volume_bytes = None, wo_verify_pubkey_paths = [''k''], wo_debug = False\<rparr>"

definition sample_challenged :: connection where
  "sample_challenged = \<lparr>cn_reads = [Inr (Some \<lparr>msg_type = Auth_response, msg_payload = 9 # replicate 63 2\<rparr>)],
     cn_writes_left = 1, cn_sent = []\<rparr>"

lemma sample_nonce_signed:
  "\<exists>sv'. handle_auth_challenge toy_sign (sample_options\<lparr>vo_signer := Some toy_sk\<rparr>) (auth_challenge_payload (replicate 32 7))
     (sample_server [] []) = (Value True, sv') \<and> cn_sent (sv_conn sv') =
       cn_sent (sv_conn (sample_server [] [])) @ [\<lparr>msg_type = Auth_response, msg_payload = 9 # replicate 63 1\<rparr>]"
  by (simp add: handle_auth_challenge_def auth_challenge_payload_def auth_nonce_size_def sign_auth_nonce_def
      sign_detached_message_def toy_sign_def toy_sk_def detached_size_def then_act_def write_act_def done_act_def
      sample_server_def)

theorem archiver_authenticated_first_witness:
  "start_write toy_open (replicate 32 7) [toy_pk] sample_write_options [] sample_challenged (\<lambda>t. (Inr (0, None), t + 1)) (0 :: nat) =
     (Inl (Write_auth Auth_not_verified), 0) \<and>
   fst (authenticate_source_server toy_open (replicate 32 7) [toy_pk]
     (sample_challenged\<lparr>cn_reads := [Inr (Some \<lparr>msg_type = Auth_response, msg_payload = 9 # replicate 63 1\<rparr>)]\<rparr>)) = None"
proof -
  let ?nonce = "replicate 32 7 :: bytes" and ?opts = "sample_options\<lparr>vo_signer := Some toy_sk\<rparr>"
  obtain sv' where sv: "handle_auth_challenge toy_sign ?opts (auth_challenge_payload ?nonce) (sample_server [] []) = (Value True, sv')"
    "cn_sent (sv_conn sv') = cn_sent (sv_conn (sample_server [] [])) @ [\<lparr>msg_type = Auth_response, msg_payload = 9 # replicate 63 1\<rparr>]"
    using sample_nonce_signed by blast
  have fails: "fst (authenticate_source_server toy_open ?nonce [toy_pk] sample_challenged) = Some Auth_not_verified"
    by (simp add: authenticate_source_server_def sample_challenged_def conn_write_def conn_read_def check_auth_response_def
        decode_auth_response_payload_def detached_size_def verify_auth_nonce_signature_def verify_detached_message_signature_def
        toy_open_def toy_pk_def)
  note main = archiver_authenticated_first [OF toy_pair, of "[toy_pk]" ?opts ?nonce sample_challenged sample_write_options "[]"
      "\<lambda>t. (Inr (0, None), t + 1)" "0 :: nat" "sample_server [] []" sv']
  show ?thesis using main fails sv by (simp add: sample_challenged_def)
qed

section \<open>The recovery bundle\<close>

text \<open>The records a bundle is cut into.\<close>

lemma bundle_loop_log:
  assumes "bundle_loop block_size broken left d k = (Inr cnt, d')"
  shows "\<exists>recs pad. td_log d' = td_log d @ map Tape_record recs \<and> list_all (\<lambda>r. length r = block_size) recs \<and>
    concat recs = left @ replicate pad 0 \<and> pad < block_size \<and> cnt = k + word_of_nat (length recs) \<and>
    td_mark_results d' = td_mark_results d"
  using assms
proof (induction block_size broken left d k arbitrary: cnt d' rule: bundle_loop.induct)
  case (1 block_size broken left d k)
  let ?chunk = "take block_size left"
  show ?case
  proof (cases "?chunk = []")
    case True
    with 1(2) have "left = []" "block_size > 0" "cnt = k" "d' = d"
      by (auto simp: bundle_loop.simps [of block_size] split: if_splits)
    then show ?thesis by (intro exI [of _ "[]"] exI [of _ 0]) simp
  next
    case False
    let ?rec = "?chunk @ replicate (block_size - length ?chunk) 0"
    from False 1(2) obtain d1 where w: "device_write d ?rec = (None, d1)"
      by (cases "device_write d ?rec") (auto simp: bundle_loop.simps [of block_size] Let_def split: option.splits)
    from w have log: "td_log d1 = td_log d @ [Tape_record ?rec]" "td_mark_results d1 = td_mark_results d"
      by (auto simp: device_write_def split: list.splits option.splits)
    show ?thesis
    proof (cases "length ?chunk < block_size")
      case True
      with 1(2) False w have "cnt = k + 1" "d' = d1"
        by (auto simp: bundle_loop.simps [of block_size] Let_def split: if_splits)
      moreover from True have "?chunk = left" "0 < block_size" by auto
      ultimately show ?thesis using log False True
        by (intro exI [of _ "[?rec]"] exI [of _ "block_size - length ?chunk"]) simp
    next
      case whole: False
      with 1(2) False w have "bundle_loop block_size broken (drop block_size left) d1 (k + 1) = (Inr cnt, d')"
        by (simp add: bundle_loop.simps [of block_size] Let_def)
      from 1(1) [OF refl False w [symmetric] refl whole this] obtain recs pad where
        IH: "td_log d' = td_log d1 @ map Tape_record recs" "list_all (\<lambda>r. length r = block_size) recs"
          "concat recs = drop block_size left @ replicate pad 0" "pad < block_size"
          "cnt = k + 1 + word_of_nat (length recs)" "td_mark_results d' = td_mark_results d1"
        by blast
      then show ?thesis using log whole
        by (intro exI [of _ "?chunk # recs"] exI [of _ pad]) (simp add: algebra_simps)
    qed
  qed
qed

lemma length_concat_records: "list_all (\<lambda>r. length r = n) recs \<Longrightarrow> length (concat recs) = length recs * n"
  by (induction recs) auto

lemma tape_bundle_log:
  assumes "write_tape_recovery_bundle d source block_size = (Inr used, d')"
  shows "\<exists>recs pad. td_log d' = td_log d @ map Tape_record recs @ [Tape_mark] \<and> list_all (\<lambda>r. length r = block_size) recs \<and>
      concat recs = bf_bytes source @ replicate pad 0 \<and> pad < block_size \<and> used = word_of_nat (length (concat recs))"
proof -
  from assms obtain cnt d1 where
    run: "bundle_loop block_size (bf_broken source) (bf_bytes source) d 0 = (Inr cnt, d1)"
    and used: "used = cnt * word_of_nat block_size" and mark: "device_mark d1 = (None, d')"
    by (auto simp: write_tape_recovery_bundle_def split: if_splits prod.splits sum.splits option.splits)
  from bundle_loop_log [OF run] obtain recs pad where
    recs: "td_log d1 = td_log d @ map Tape_record recs" "list_all (\<lambda>r. length r = block_size) recs"
      "concat recs = bf_bytes source @ replicate pad 0" "pad < block_size" "cnt = word_of_nat (length recs)"
    by auto
  from mark have "td_log d' = td_log d1 @ [Tape_mark]"
    by (auto simp: device_mark_def split: list.splits option.splits)
  moreover have "used = word_of_nat (length (concat recs))"
    unfolding used length_concat_records [OF recs(2)] recs(5) by simp
  ultimately show ?thesis using recs by (intro exI [of _ recs] exI [of _ pad]) simp
qed

lemma pending_not_bundle [simp]: "bundle_pending pid \<noteq> recovery_bundle" "recovery_bundle \<noteq> bundle_pending pid"
  by (simp_all add: bundle_pending_def recovery_bundle_def)

lemma spool_bundle_installed:
  assumes "install_spool_recovery_bundle pid calls source dir = (res, dir')"
  shows "dir' recovery_bundle = (if isl res then dir recovery_bundle else Some source) \<and>
    (\<not> isl res \<longrightarrow> dir' (bundle_pending pid) = None) \<and>
    (\<forall>n. n \<noteq> recovery_bundle \<and> n \<noteq> bundle_pending pid \<longrightarrow> dir' n = dir n)"
  using assms by (auto simp: install_spool_recovery_bundle_def Let_def split: if_splits option.splits)

text \<open>The recovery bundle is stored exactly: on a tape it is one tape file of full records of the requested size
  that hold the bytes of the source followed by less than one record of zeros, with a filemark
  behind them, and the bytes counted against the volume are those written.  In a spool the
  bundle has exactly the bytes of the source when the command goes on, the temporary file is gone, and every failure leaves the
  bundle that was there before; no other file is touched.\<close>
lemma recovery_bundle_exact:
  assumes "write_tape_recovery_bundle d source block_size = (Inr used, d')"
    and "install_spool_recovery_bundle pid calls (bf_bytes source) dir = (res, dir')"
  shows "(\<exists>recs pad. td_log d' = td_log d @ map Tape_record recs @ [Tape_mark] \<and> list_all (\<lambda>r. length r = block_size) recs \<and>
      concat recs = bf_bytes source @ replicate pad 0 \<and> pad < block_size \<and> used = word_of_nat (length (concat recs))) \<and>
    dir' recovery_bundle = (if isl res then dir recovery_bundle else Some (bf_bytes source)) \<and>
    (\<not> isl res \<longrightarrow> dir' (bundle_pending pid) = None) \<and>
    (\<forall>n. n \<noteq> recovery_bundle \<and> n \<noteq> bundle_pending pid \<longrightarrow> dir' n = dir n)"
  using tape_bundle_log [OF assms(1)] spool_bundle_installed [OF assms(2)] by blast

definition sample_bundle :: bundle_file where
  "sample_bundle = \<lparr>bf_opens = True, bf_bytes = [1, 2, 3, 4, 5], bf_broken = False\<rparr>"

definition sample_drive :: tape_device where
  "sample_drive = \<lparr>td_status = [], td_write_results = [], td_mark_results = [], td_log = []\<rparr>"

lemma sample_bundle_written:
  "write_tape_recovery_bundle sample_drive sample_bundle 4 =
    (Inr 8, sample_drive\<lparr>td_log := [Tape_record [1, 2, 3, 4], Tape_record [5, 0, 0, 0], Tape_mark]\<rparr>)"
  by (simp add: write_tape_recovery_bundle_def sample_bundle_def sample_drive_def bundle_loop.simps device_write_def
      device_mark_def numeral_3_eq_3)

lemma sample_bundle_installed:
  "install_spool_recovery_bundle 7 \<lparr>bc_directories = True, bc_removed = False, bc_copied = None, bc_sized = True, bc_renamed = False\<rparr>
     (bf_bytes sample_bundle) [recovery_bundle \<mapsto> [9]] = (Inl Bundle_rename, [recovery_bundle \<mapsto> [9]](bundle_pending 7 := None))"
  by (simp add: install_spool_recovery_bundle_def)

lemma recovery_bundle_exact_witness:
  "(\<exists>recs pad. map Tape_record recs @ [Tape_mark] = [Tape_record [1, 2, 3, 4], Tape_record [5, 0, 0, 0], Tape_mark] \<and>
     concat recs = [1, 2, 3, 4, 5] @ replicate pad 0 \<and> pad < 4) \<and>
   ([recovery_bundle \<mapsto> [9 :: u8]](bundle_pending 7 := None)) recovery_bundle = Some [9]"
proof -
  note main = recovery_bundle_exact [OF sample_bundle_written sample_bundle_installed]
  from main obtain recs pad where
    "td_log (sample_drive\<lparr>td_log := [Tape_record [1, 2, 3, 4], Tape_record [5, 0, 0, 0], Tape_mark]\<rparr>) =
      td_log sample_drive @ map Tape_record recs @ [Tape_mark]"
    "concat recs = bf_bytes sample_bundle @ replicate pad 0" "pad < 4" by blast
  then have "map Tape_record recs @ [Tape_mark] = [Tape_record [1, 2, 3, 4], Tape_record [5, 0, 0, 0], Tape_mark] \<and>
     concat recs = [1, 2, 3, 4, 5] @ replicate pad 0 \<and> pad < 4"
    unfolding sample_drive_def sample_bundle_def by simp
  moreover have "([recovery_bundle \<mapsto> [9 :: u8]](bundle_pending 7 := None)) recovery_bundle = Some [9]" by simp
  ultimately show ?thesis by blast
qed

section \<open>The command on a tape\<close>

text \<open>What the target holds when the session starts.\<close>

definition bundle_part :: "write_options \<Rightarrow> bytes \<Rightarrow> tape_item list \<Rightarrow> bool" where
  "bundle_part opts source part \<longleftrightarrow>
     (if wo_recovery_bundle opts = None then part = []
      else \<exists>recs pad. part = map Tape_record recs @ [Tape_mark] \<and> list_all (\<lambda>r. length r = bundle_block_size opts) recs \<and>
        concat recs = source @ replicate pad 0 \<and> pad < bundle_block_size opts)"

text \<open>Where the head stands when the volume starts: behind all that is recorded with \<open>--append\<close>, at the beginning otherwise.\<close>

lemma head_after_snoc [simp]:
  "head_after recorded start (ops @ [issued]) = head_moves recorded (head_after recorded start ops) issued"
  by (simp add: head_after_def)

lemma issued_mtop: "drive_mtop operation n h = (res, h') \<Longrightarrow> th_issued h' = th_issued h @ [(operation, n)]"
  by (auto simp: drive_mtop_def Let_def split: list.splits option.splits)

lemma issued_status: "drive_get_status h = (res, h') \<Longrightarrow> th_issued h' = th_issued h"
  by (auto simp: drive_get_status_def split: list.splits sum.splits)

lemma position_head:
  assumes "position_tape opts h = (None, h')"
  shows "head_after recorded start (th_issued h') = (if wo_append opts then recorded else 0)"
proof (cases "wo_append opts")
  case True
  with assms have "th_issued h' = th_issued h @ [(op_eom, 1)]"
    by (auto simp: position_tape_def drive_space_to_eod_def dest!: issued_mtop issued_status
        split: prod.splits option.splits sum.splits if_splits)
  with True show ?thesis by (simp add: head_moves_def op_rew_def op_eom_def)
next
  case False
  with assms have "th_issued h' = th_issued h @ [(op_rew, 1)]"
    by (auto simp: position_tape_def drive_rewind_def dest!: issued_mtop)
  with False show ?thesis by (simp add: head_moves_def)
qed

lemma open_tape_statuses: "open_tape opened stat h = (None, h') \<Longrightarrow> th_statuses h' = th_statuses h"
  by (auto simp: open_tape_def split: sum.splits bool.splits)

lemma block_mode_statuses: "th_statuses (snd (drive_set_variable_block_mode h)) = th_statuses h"
  by (auto simp: drive_set_variable_block_mode_def drive_mtop_def Let_def split: list.splits option.splits)

lemma refuse_recorded_empty:
  assumes "refuse_recorded opts h = (None, h')"
  shows "wo_erase opts \<or> wo_append opts \<or> (\<exists>st rs. th_statuses h = Inr st # rs \<and> status_bot st \<and> status_eod st)"
  using assms
  by (auto simp: refuse_recorded_def drive_get_status_def split: if_splits prod.splits sum.splits list.splits)

lemma tape_target_log:
  assumes "tape_target opts opened stat start source (h, d) = (Inr (used, device), h', d')"
  shows "device = Some d' \<and>
    (wo_erase opts \<or> wo_append opts \<or> (\<exists>st rs. th_statuses h = Inr st # rs \<and> status_bot st \<and> status_eod st)) \<and>
    (\<exists>part. td_log d' = (if wo_append opts then td_log d else []) @ part \<and> bundle_part opts (bf_bytes source) part)"
proof -
  from assms have prep: "prepare_tape opts opened stat start source (h, d) = (Inr used, h', d')" and dev: "device = Some d'"
    by (auto simp: tape_target_def split: prod.splits sum.splits)
  from prep obtain h1 h2 h3 where o: "open_tape opened stat h = (None, h1)"
    and r: "refuse_recorded opts (snd (drive_set_variable_block_mode h1)) = (None, h2)"
    and p: "position_tape opts h2 = (None, h3)"
    and b: "(if wo_recovery_bundle opts = None then used = 0 \<and> d' = cut_at_head start h3 d
      else write_tape_recovery_bundle (cut_at_head start h3 d) source (bundle_block_size opts) = (Inr used, d'))"
    by (simp add: prepare_tape_def Let_def split: prod.splits sum.splits option.splits if_splits)
  have cut: "td_log (cut_at_head start h3 d) = (if wo_append opts then td_log d else [])"
    by (simp add: cut_at_head_def position_head [OF p])
  have "\<exists>part. td_log d' = td_log (cut_at_head start h3 d) @ part \<and> bundle_part opts (bf_bytes source) part"
  proof (cases "wo_recovery_bundle opts")
    case None
    with b show ?thesis by (simp add: bundle_part_def)
  next
    case (Some path)
    with b have "write_tape_recovery_bundle (cut_at_head start h3 d) source (bundle_block_size opts) = (Inr used, d')" by simp
    from tape_bundle_log [OF this] Some show ?thesis by (auto simp: bundle_part_def)
  qed
  with cut dev refuse_recorded_empty [OF r] show ?thesis
    by (simp add: block_mode_statuses open_tape_statuses [OF o])
qed

lemma authenticate_keeps_acks:
  assumes "authenticate_source_server ed_open nonce keys c = (None, c')"
  shows "filter (\<lambda>m. msg_type m = Ack_frame) (cn_sent c') = filter (\<lambda>m. msg_type m = Ack_frame) (cn_sent c)"
  using authenticate_sends [OF assms] assms by (cases "keys = []") (auto simp: authenticate_source_server_def)

lemma start_write_session:
  assumes "start_write ed_open nonce keys opts needs c (tape_target opts opened stat start source) (h, d) = (Inr s0, h', d')"
  obtains c' sk part where "authenticate_source_server ed_open nonce keys c = (None, c')" and "s0 = initial_session needs c' sk"
    and "rk_device sk = Some d'" and "td_log d' = (if wo_append opts then td_log d else []) @ part"
    and "bundle_part opts (bf_bytes source) part"
    and "wo_erase opts \<or> wo_append opts \<or> (\<exists>st rs. th_statuses h = Inr st # rs \<and> status_bot st \<and> status_eod st)"
proof -
  from assms obtain c' used device where auth: "authenticate_source_server ed_open nonce keys c = (None, c')"
    and target: "tape_target opts opened stat start source (h, d) = (Inr (used, device), h', d')"
    and s0: "\<exists>sk. new_record_sink device (wo_max_volume_bytes opts) used = Inr sk \<and> s0 = initial_session needs c' sk"
    by (simp add: start_write_def split: prod.splits option.splits sum.splits)
  from s0 tape_target_log [OF target] auth that show thesis
    by (auto simp: new_record_sink_def split: if_splits)
qed

text \<open>C2. The whole of \<open>neotape-write\<close> on a tape: when it ends with exit code 0, the archiver has shown a configured key if there
  are any.  The tape holds what was recorded before only with \<open>--append\<close>; otherwise the writing started at the beginning
  of the tape, with \<open>--erase\<close> over whatever was there, without it on a tape that the drive reported to be at its beginning
  and empty.  Behind that are the recovery bundle, if one was asked for, as a tape file of
  full records with the bytes of its source and less than a record of zeros, and then the volume: frames numbered
  without gap up to the archive end, each intact and authorised, and a final filemark; every frame on it, and nothing
  else, has been acknowledged.  The drive was closed without an error.\<close>
theorem neotape_write_tape:
  assumes "start_write ed_open nonce keys opts needs c (tape_target opts opened stat start source) (h, d) = (Inr s0, h', d')"
    and "cn_sent c = []" and "writer_reaches H ed_open keys limit s0 s" and "ss_opc s = O_done"
    and "write_exit_code (write_volume_result s) (fst (close_tape h')) = 0"
  shows "(keys = [] \<or> (\<exists>m rest. cn_reads c = Inr (Some m) # rest \<and> proves_key ed_open nonce keys m)) \<and>
    (wo_erase opts \<or> wo_append opts \<or> (\<exists>st rs. th_statuses h = Inr st # rs \<and> status_bot st \<and> status_eod st)) \<and>
    (\<exists>part ws. tape_log s = (if wo_append opts then td_log d else []) @ part @ map tape_entry ws @ [Tape_mark] \<and>
      bundle_part opts (bf_bytes source) part \<and>
      ends_archive ws \<and> consecutive (frames_of ws) \<and> list_all (checked_item H ed_open keys) (frames_of ws) \<and>
      acks_sent s = map ack_of (frames_of ws)) \<and>
    fst (close_tape h') = None"
proof -
  from start_write_session [OF assms(1)] obtain c' sk part where
    auth: "authenticate_source_server ed_open nonce keys c = (None, c')" and s0: "s0 = initial_session needs c' sk"
    and dev: "rk_device sk = Some d'" and log: "td_log d' = (if wo_append opts then td_log d else []) @ part"
    and part: "bundle_part opts (bf_bytes source) part"
    and empty: "wo_erase opts \<or> wo_append opts \<or> (\<exists>st rs. th_statuses h = Inr st # rs \<and> status_bot st \<and> status_eod st)" .
  from authenticate_keeps_acks [OF auth] assms(2) have none: "filter (\<lambda>m. msg_type m = Ack_frame) (cn_sent c') = []" by simp
  obtain r where r: "write_volume_result s = Inr r" "wr_complete r" and closed: "fst (close_tape h') = None"
    using assms(5) by (auto simp: write_exit_code_def exit_volume_change_required_def split: sum.splits option.splits if_splits)
  from completed_log [OF assms(3) [unfolded s0] dev none assms(4) r] obtain ws where
    ws: "tape_log s = td_log d' @ map tape_entry ws @ [Tape_mark]" "ends_archive ws" "acks_sent s = map ack_of (frames_of ws)"
      "consecutive (frames_of ws)" "list_all (checked_item H ed_open keys) (frames_of ws)" by blast
  have "keys = [] \<or> (\<exists>m rest. cn_reads c = Inr (Some m) # rest \<and> proves_key ed_open nonce keys m)"
    using authenticate_iff [of ed_open nonce keys c] auth by auto
  moreover have "tape_log s = (if wo_append opts then td_log d else []) @ part @ map tape_entry ws @ [Tape_mark]"
    using ws(1) log by simp
  ultimately show ?thesis using part ws empty closed by blast
qed

definition sample_source :: bundle_file where
  "sample_source = \<lparr>bf_opens = True, bf_bytes = [], bf_broken = False\<rparr>"

definition sample_handle :: tape_handle where
  "sample_handle = \<lparr>th_fd = None, th_path = ''t'', th_read_write = True, th_writes = [], th_ioctls = [Some EINVAL],
     th_statuses = [], th_positions = [], th_closes = [], th_stored = [], th_issued = [], th_closed = []\<rparr>"

definition sample_erasing :: write_options where
  "sample_erasing = sample_write_options\<lparr>wo_erase := True, wo_recovery_bundle := Some ''b''\<rparr>"

text \<open>A tape with a record on it, the head behind that record, and a drive that refuses the variable block mode.\<close>

definition recorded_tape :: tape_device where
  "recorded_tape = sample_tape\<lparr>td_log := [Tape_record [9]]\<rparr>"

lemma sample_start:
  "start_write toy_open [] [] sample_erasing [0, 1] end_connection (tape_target sample_erasing (Inr 3) (Inr True) 1 sample_source)
     (sample_handle, recorded_tape) =
     (Inr (initial_session [0, 1] end_connection sample_sink),
      sample_handle\<lparr>th_fd := Some 3, th_ioctls := [], th_issued := [(op_setblk, 0), (op_rew, 1)]\<rparr>, sample_tape)"
  by (simp add: start_write_def authenticate_source_server_def tape_target_def prepare_tape_def sample_write_options_def
      sample_erasing_def sample_handle_def open_tape_def drive_set_variable_block_mode_def drive_mtop_def refuse_recorded_def
      position_tape_def drive_rewind_def cut_at_head_def head_after_def head_moves_def recorded_tape_def
      write_tape_recovery_bundle_def sample_source_def bundle_loop.simps bundle_block_size_def default_recovery_bundle_block_size_def
      device_mark_def sample_tape_def new_record_sink_def sample_sink_def)

theorem neotape_write_tape_witness:
  "\<exists>s part ws. tape_log s = part @ map tape_entry ws @ [Tape_mark] \<and>
     bundle_part sample_erasing [] part \<and> ends_archive ws \<and> acks_sent s = map ack_of (frames_of ws)"
proof -
  let ?h = "sample_handle\<lparr>th_fd := Some 3, th_ioctls := [], th_issued := [(op_setblk, 0), (op_rew, 1)]\<rparr>"
  from end_reaches obtain s where s: "writer_reaches zero_hash toy_open [] 100 (initial_session [0, 1] end_connection sample_sink) s"
    "ss_opc s = O_done" "write_volume_result s = Inr \<lparr>wr_complete = True, wr_frames = 1, wr_final_global_seq = 3\<rparr>" by blast
  have "fst (close_tape ?h) = None" by (simp add: close_tape_def close_descriptor_def sample_handle_def)
  then have "cn_sent end_connection = []" "write_exit_code (write_volume_result s) (fst (close_tape ?h)) = 0"
    by (simp_all add: end_connection_def s(3) write_exit_code_def)
  from neotape_write_tape [OF sample_start this(1) s(1,2) this(2)] show ?thesis
    by (auto simp: sample_source_def sample_erasing_def sample_write_options_def)
qed

end
