(* ===== verification/Options.thy ===== *)
theory Options
  imports WriteCmd Extractor Archiver Planner
begin

text \<open>
  The command lines: \<open>parse_args\<close> of every command.  \<open>getopt_long\<close> of the C library is a parameter: each parser takes the
  options it returns in order, each with its argument (\<open>[]\<close> for an option without one and for the code
  \<open>?\<close> of an unknown option), and the positional arguments that are left behind them.  What a
  command does instead of starting is an error with its exit code.
\<close>

section \<open>Parsing\<close>

datatype options_error =
    Help_shown | Unknown_option | Usage_shown | Usage_failure string | Failure string
  | Bad_value text_error | Bad_media media_error | Bad_plan_mode string

text \<open>\<open>fail\<close> and an exception that reaches \<open>main\<close> exit with 1, \<open>usage_error\<close> and the handlers of the parsers with 2.\<close>

definition options_exit_code :: "options_error \<Rightarrow> nat" where
  "options_exit_code e = (case e of Help_shown \<Rightarrow> 0 | Failure _ \<Rightarrow> 1 | Bad_media _ \<Rightarrow> 1 | _ \<Rightarrow> 2)"

type_synonym arguments = "(char \<times> string) list"

fun parse_options :: "('o \<Rightarrow> char \<Rightarrow> string \<Rightarrow> options_error + 'o) \<Rightarrow> arguments \<Rightarrow> 'o \<Rightarrow> options_error + 'o" where
  "parse_options step [] opts = Inr opts"
| "parse_options step ((c, optarg) # rest) opts = bind_res (step opts c optarg) (parse_options step rest)"

definition value_arg :: "text_error + 'a \<Rightarrow> ('a \<Rightarrow> 'o) \<Rightarrow> options_error + 'o" where
  "value_arg r f = (case r of Inl e \<Rightarrow> Inl (Bad_value e) | Inr v \<Rightarrow> Inr (f v))"

definition media_arg :: "string \<Rightarrow> bool \<Rightarrow> (media_locator \<Rightarrow> 'o) \<Rightarrow> options_error + 'o" where
  "media_arg optarg allow_null f = (case parse_media optarg allow_null of Inl e \<Rightarrow> Inl (Bad_media e) | Inr l \<Rightarrow> Inr (f l))"

text \<open>The cases every parser shares, and the \<open>default\<close> of those that have one.\<close>

definition common_option :: "char \<Rightarrow> options_error + 'o \<Rightarrow> options_error + 'o" where
  "common_option c other = (if c = CHR ''h'' then Inl Help_shown else if c = CHR ''?'' then Inl Unknown_option else other)"

definition unexpected_code :: "char \<Rightarrow> options_error + 'o" where
  "unexpected_code c = Inl (Usage_failure (''unexpected option code '' @ decimal (of_char c)))"

definition no_locator :: media_locator where
  "no_locator = \<lparr>ml_kind = No_media, ml_path = []\<rparr>"

section \<open>The readers of a medium\<close>

record read_options =
  ro_source :: media_locator
  ro_connect_address :: string

definition read_option :: "read_options \<Rightarrow> char \<Rightarrow> string \<Rightarrow> options_error + read_options" where
  "read_option opts c optarg =
    (if c = CHR ''s'' then media_arg optarg False (\<lambda>l. opts\<lparr>ro_source := l\<rparr>)
     else if c = CHR ''c'' then Inr (opts\<lparr>ro_connect_address := optarg\<rparr>)
     else common_option c (Inr opts))"

definition parse_read_args :: "arguments \<Rightarrow> options_error + read_options" where
  "parse_read_args args =
    bind_res (parse_options read_option args \<lparr>ro_source = no_locator, ro_connect_address = []\<rparr>) (\<lambda>opts.
    bind_res (require (ml_kind (ro_source opts) \<noteq> No_media) (Usage_failure ''--source is required'')) (\<lambda>_.
    bind_res (require (ro_connect_address opts \<noteq> []) (Usage_failure ''--connect is required'')) (\<lambda>_.
      Inr opts)))"

record scan_options =
  so_source :: media_locator
  so_verbose :: bool

definition scan_option :: "scan_options \<Rightarrow> char \<Rightarrow> string \<Rightarrow> options_error + scan_options" where
  "scan_option opts c optarg =
    (if c = CHR ''s'' then media_arg optarg False (\<lambda>l. opts\<lparr>so_source := l\<rparr>)
     else if c = CHR ''v'' then Inr (opts\<lparr>so_verbose := True\<rparr>)
     else common_option c (unexpected_code c))"

definition parse_scan_args :: "arguments \<Rightarrow> string list \<Rightarrow> options_error + scan_options" where
  "parse_scan_args args positional =
    bind_res (parse_options scan_option args \<lparr>so_source = no_locator, so_verbose = False\<rparr>) (\<lambda>opts.
    bind_res (require (ml_kind (so_source opts) \<noteq> No_media) (Usage_failure ''--source is required'')) (\<lambda>_.
    bind_res (require (positional = []) (Usage_failure ''unexpected positional arguments'')) (\<lambda>_.
      Inr opts)))"

record inspect_options =
  io_source :: media_locator
  io_debug :: bool
  io_raw :: bool
  io_require_signed :: bool
  io_verify_pubkey_paths :: "string list"

definition inspect_option :: "inspect_options \<Rightarrow> char \<Rightarrow> string \<Rightarrow> options_error + inspect_options" where
  "inspect_option opts c optarg =
    (if c = CHR ''s'' then media_arg optarg False (\<lambda>l. opts\<lparr>io_source := l\<rparr>)
     else if c = CHR ''d'' then Inr (opts\<lparr>io_debug := True\<rparr>)
     else if c = CHR ''r'' then Inr (opts\<lparr>io_raw := True\<rparr>)
     else if c = CHR ''k'' then Inr (opts\<lparr>io_verify_pubkey_paths := io_verify_pubkey_paths opts @ [optarg]\<rparr>)
     else if c = CHR ''S'' then Inr (opts\<lparr>io_require_signed := True\<rparr>)
     else common_option c (unexpected_code c))"

definition signed_needs_key :: "bool \<Rightarrow> string list \<Rightarrow> options_error + unit" where
  "signed_needs_key require_signed paths =
    require (\<not> (require_signed \<and> paths = [])) (Usage_failure ''--require-signed requires at least one --verify-pubkey'')"

definition parse_inspect_args :: "arguments \<Rightarrow> options_error + inspect_options" where
  "parse_inspect_args args =
    bind_res (parse_options inspect_option args \<lparr>io_source = no_locator, io_debug = False, io_raw = False,
      io_require_signed = False, io_verify_pubkey_paths = []\<rparr>) (\<lambda>opts.
    bind_res (require (ml_kind (io_source opts) \<noteq> No_media) (Usage_failure ''--source is required'')) (\<lambda>_.
    bind_res (signed_needs_key (io_require_signed opts) (io_verify_pubkey_paths opts)) (\<lambda>_.
      Inr opts)))"

datatype output_mode = Mode_raw | Mode_list | Mode_summary

record catalog_options =
  co_source :: media_locator
  co_plan_path :: "string option"
  co_list :: bool
  co_summary :: bool
  co_mode :: output_mode
  co_output_path :: "string option"
  co_require_signed :: bool
  co_verify_pubkey_paths :: "string list"

text \<open>The fields \<open>co_list\<close> and \<open>co_summary\<close> are the locals \<open>list\<close> and \<open>summary\<close> of the parser.\<close>

definition catalog_option :: "catalog_options \<Rightarrow> char \<Rightarrow> string \<Rightarrow> options_error + catalog_options" where
  "catalog_option opts c optarg =
    (if c = CHR ''s'' then media_arg optarg False (\<lambda>l. opts\<lparr>co_source := l\<rparr>)
     else if c = CHR ''p'' then Inr (opts\<lparr>co_plan_path := Some optarg\<rparr>)
     else if c = CHR ''l'' then Inr (opts\<lparr>co_list := True\<rparr>)
     else if c = CHR ''u'' then Inr (opts\<lparr>co_summary := True\<rparr>)
     else if c = CHR ''o'' then Inr (opts\<lparr>co_output_path := Some optarg\<rparr>)
     else if c = CHR ''k'' then Inr (opts\<lparr>co_verify_pubkey_paths := co_verify_pubkey_paths opts @ [optarg]\<rparr>)
     else if c = CHR ''S'' then Inr (opts\<lparr>co_require_signed := True\<rparr>)
     else common_option c (unexpected_code c))"

definition parse_catalog_args :: "arguments \<Rightarrow> string list \<Rightarrow> options_error + catalog_options" where
  "parse_catalog_args args positional =
    bind_res (parse_options catalog_option args \<lparr>co_source = no_locator, co_plan_path = None, co_list = False, co_summary = False,
      co_mode = Mode_raw, co_output_path = None, co_require_signed = False, co_verify_pubkey_paths = []\<rparr>) (\<lambda>opts.
    let has_source = ml_kind (co_source opts) \<noteq> No_media in
    bind_res (require (has_source \<noteq> (co_plan_path opts \<noteq> None))
      (Usage_failure ''exactly one of --source and --plan is required'')) (\<lambda>_.
    bind_res (require (\<not> (co_list opts \<and> co_summary opts)) (Usage_failure ''--list and --summary are mutually exclusive'')) (\<lambda>_.
    bind_res (require (\<not> (\<not> has_source \<and> (co_require_signed opts \<or> co_verify_pubkey_paths opts \<noteq> [])))
      (Usage_failure ''signature options require --source'')) (\<lambda>_.
    bind_res (signed_needs_key (co_require_signed opts) (co_verify_pubkey_paths opts)) (\<lambda>_.
    bind_res (require (positional = []) (Usage_failure ''unexpected positional arguments'')) (\<lambda>_.
      Inr (opts\<lparr>co_mode := (if co_list opts then Mode_list else if co_summary opts then Mode_summary else Mode_raw)\<rparr>)))))))"

section \<open>The extractor\<close>

record extract_options =
  eo_listen_address :: string
  eo_output_path :: string
  eo_metadata_output_path :: string
  eo_verbose :: bool
  eo_require_signed :: bool
  eo_salvage :: bool
  eo_verify_pubkey_paths :: "string list"

definition extract_option :: "extract_options \<Rightarrow> char \<Rightarrow> string \<Rightarrow> options_error + extract_options" where
  "extract_option opts c optarg =
    (if c = CHR ''l'' then Inr (opts\<lparr>eo_listen_address := optarg\<rparr>)
     else if c = CHR ''o'' then Inr (opts\<lparr>eo_output_path := optarg\<rparr>)
     else if c = CHR ''m'' then Inr (opts\<lparr>eo_metadata_output_path := optarg\<rparr>)
     else if c = CHR ''v'' then Inr (opts\<lparr>eo_verbose := True\<rparr>)
     else if c = CHR ''k'' then Inr (opts\<lparr>eo_verify_pubkey_paths := eo_verify_pubkey_paths opts @ [optarg]\<rparr>)
     else if c = CHR ''S'' then Inr (opts\<lparr>eo_require_signed := True\<rparr>)
     else if c = CHR ''s'' then Inr (opts\<lparr>eo_salvage := True\<rparr>)
     else common_option c (Inr opts))"

definition parse_extractor_args :: "arguments \<Rightarrow> string list \<Rightarrow> options_error + extract_options" where
  "parse_extractor_args args positional =
    bind_res (parse_options extract_option args \<lparr>eo_listen_address = [], eo_output_path = [], eo_metadata_output_path = [],
      eo_verbose = False, eo_require_signed = False, eo_salvage = False, eo_verify_pubkey_paths = []\<rparr>) (\<lambda>opts.
    bind_res (require (eo_listen_address opts \<noteq> []) Usage_shown) (\<lambda>_.
    bind_res (require (positional = []) (Usage_failure ''unexpected positional arguments'')) (\<lambda>_.
    bind_res (signed_needs_key (eo_require_signed opts) (eo_verify_pubkey_paths opts)) (\<lambda>_.
      Inr opts))))"

text \<open>The keys that \<open>main\<close> loads before the command starts; the first that cannot be loaded ends the command.\<close>

fun load_verify_keys ::
  "(string \<Rightarrow> nat \<Rightarrow> bytes option) \<Rightarrow> (string \<Rightarrow> string option) \<Rightarrow> string list \<Rightarrow> signature_error + public_key list" where
  "load_verify_keys b64 files [] = Inr []"
| "load_verify_keys b64 files (path # paths) =
    bind_res (load_signify_public_key b64 path (files path)) (\<lambda>key.
    bind_res (load_verify_keys b64 files paths) (\<lambda>keys. Inr (key # keys)))"

definition extractor_main_options ::
  "(string \<Rightarrow> nat \<Rightarrow> bytes option) \<Rightarrow> (string \<Rightarrow> string option) \<Rightarrow> out_file option \<Rightarrow> out_file \<Rightarrow> extract_options \<Rightarrow>
   signature_error + extractor_options" where
  "extractor_main_options b64 files metadata out opts =
    bind_res (load_verify_keys b64 files (eo_verify_pubkey_paths opts)) (\<lambda>keys.
      Inr \<lparr>xo_require_signed = eo_require_signed opts, xo_keys = keys, xo_salvage = eo_salvage opts,
           xo_metadata = metadata, xo_output = out\<rparr>)"

section \<open>The writer\<close>

definition default_write_options :: write_options where
  "default_write_options = \<lparr>wo_source_address = [], wo_target = no_locator, wo_erase = False, wo_append = False,
     wo_recovery_bundle = None, wo_recovery_bundle_block_size = None, wo_output_buffer_size = 256 * 1024 * 1024,
     wo_max_volume_bytes = None, wo_verify_pubkey_paths = [], wo_debug = False\<rparr>"

definition write_option :: "write_options \<Rightarrow> char \<Rightarrow> string \<Rightarrow> options_error + write_options" where
  "write_option opts c optarg =
    (if c = CHR ''s'' then Inr (opts\<lparr>wo_source_address := optarg\<rparr>)
     else if c = CHR ''t'' then media_arg optarg True (\<lambda>l. opts\<lparr>wo_target := l\<rparr>)
     else if c = CHR ''e'' then Inr (opts\<lparr>wo_erase := True\<rparr>)
     else if c = CHR ''a'' then Inr (opts\<lparr>wo_append := True\<rparr>)
     else if c = CHR ''R'' then Inr (opts\<lparr>wo_recovery_bundle := Some optarg\<rparr>)
     else if c = CHR ''r'' then value_arg (parse_size optarg ''recovery bundle block size'' (- 1))
       (\<lambda>n. opts\<lparr>wo_recovery_bundle_block_size := Some n\<rparr>)
     else if c = CHR ''B'' then value_arg (parse_size optarg ''output buffer size'' (- 1)) (\<lambda>n. opts\<lparr>wo_output_buffer_size := n\<rparr>)
     else if c = CHR ''m'' then value_arg (parse_size optarg ''max volume bytes'' (- 1)) (\<lambda>n. opts\<lparr>wo_max_volume_bytes := Some n\<rparr>)
     else if c = CHR ''d'' then Inr (opts\<lparr>wo_debug := True\<rparr>)
     else if c = CHR ''k'' then Inr (opts\<lparr>wo_verify_pubkey_paths := wo_verify_pubkey_paths opts @ [optarg]\<rparr>)
     else common_option c (Inr opts))"

text \<open>The checks on the combination of the options, in order.\<close>

definition check_bundle_block_size :: "write_options \<Rightarrow> options_error + unit" where
  "check_bundle_block_size opts =
    (case wo_recovery_bundle_block_size opts of
       None \<Rightarrow> Inr ()
     | Some n \<Rightarrow>
         bind_res (require (wo_recovery_bundle opts \<noteq> None)
           (Usage_failure ''--recovery-bundle-block-size requires --recovery-bundle'')) (\<lambda>_.
         bind_res (require (ml_kind (wo_target opts) = Tape_media)
           (Usage_failure ''--recovery-bundle-block-size is only valid with tape targets'')) (\<lambda>_.
         require (\<not> (n > ucast max_block_size \<or> n < ucast min_block_size \<or> n mod 1024 \<noteq> 0))
           (Usage_failure (''--recovery-bundle-block-size must be from '' @ decimal (unat min_block_size) @ '' to '' @
             decimal (unat max_block_size) @ '' bytes and a multiple of 1 KiB'')))))"

text \<open>The file of the bundle: whether it is a regular file, and its size or \<open>None\<close> if that cannot be read.\<close>

definition check_bundle_file :: "(string \<Rightarrow> bool \<times> nat option) \<Rightarrow> write_options \<Rightarrow> options_error + unit" where
  "check_bundle_file stat opts =
    (case wo_recovery_bundle opts of
       None \<Rightarrow> Inr ()
     | Some path \<Rightarrow>
         bind_res (require (fst (stat path)) (Usage_failure (''recovery bundle is not a regular file: '' @ path))) (\<lambda>_.
         case snd (stat path) of
           None \<Rightarrow> Inl (Usage_failure (''cannot stat recovery bundle '' @ path))
         | Some n \<Rightarrow> require (n \<noteq> 0) (Usage_failure ''recovery bundle must not be empty'')))"

definition min_output_buffer_size :: u64 where "min_output_buffer_size = 8 * 1024 * 1024"

definition check_write_options :: "(string \<Rightarrow> bool \<times> nat option) \<Rightarrow> write_options \<Rightarrow> options_error + unit" where
  "check_write_options stat opts =
    bind_res (require (wo_source_address opts \<noteq> []) Usage_shown) (\<lambda>_.
    bind_res (require (ml_kind (wo_target opts) \<noteq> No_media) (Usage_failure ''--target is required'')) (\<lambda>_.
    bind_res (require (\<not> (wo_erase opts \<and> wo_append opts)) (Usage_failure ''--erase and --append are mutually exclusive'')) (\<lambda>_.
    bind_res (require (\<not> (wo_append opts \<and> wo_recovery_bundle opts \<noteq> None))
      (Usage_failure ''--recovery-bundle cannot be used with --append'')) (\<lambda>_.
    bind_res (require (\<not> (ml_kind (wo_target opts) = Null_sink \<and> (wo_erase opts \<or> wo_append opts)))
      (Usage_failure ''--erase and --append are not valid with a null target'')) (\<lambda>_.
    bind_res (require (\<not> (ml_kind (wo_target opts) = Null_sink \<and> wo_recovery_bundle opts \<noteq> None))
      (Usage_failure ''--recovery-bundle is not valid with a null target'')) (\<lambda>_.
    bind_res (check_bundle_block_size opts) (\<lambda>_.
    bind_res (check_bundle_file stat opts) (\<lambda>_.
      require (wo_output_buffer_size opts \<ge> min_output_buffer_size)
        (Usage_failure ''--output-buffer-size must be at least 8 MiB'')))))))))"

definition parse_write_args :: "(string \<Rightarrow> bool \<times> nat option) \<Rightarrow> arguments \<Rightarrow> options_error + write_options" where
  "parse_write_args stat args =
    bind_res (parse_options write_option args default_write_options) (\<lambda>opts.
    bind_res (check_write_options stat opts) (\<lambda>_. Inr opts))"

section \<open>The archivers\<close>

record signer_options =
  sg_secret_key_file :: "string option"
  sg_passphrase_file :: "string option"

definition check_signer_options :: "signer_options \<Rightarrow> bool" where
  "check_signer_options sg \<longleftrightarrow> \<not> (sg_passphrase_file sg \<noteq> None \<and> sg_secret_key_file sg = None)"

definition load_frame_signer ::
  "(string \<Rightarrow> nat \<Rightarrow> bytes option) \<Rightarrow> (string \<Rightarrow> bytes \<Rightarrow> nat \<Rightarrow> u32 \<Rightarrow> bytes option) \<Rightarrow> (bytes \<Rightarrow> bytes) \<Rightarrow>
   (signature_error + string) \<Rightarrow> (string \<Rightarrow> string option) \<Rightarrow> signer_options \<Rightarrow> signature_error + secret_key option" where
  "load_frame_signer b64 bcrypt sha512 prompt files sg =
    (case sg_secret_key_file sg of
       None \<Rightarrow> Inr None
     | Some path \<Rightarrow>
         bind_res (case sg_passphrase_file sg of
             None \<Rightarrow> Inr None
           | Some p \<Rightarrow> bind_res (read_signify_passphrase_file (files p)) (\<lambda>phrase. Inr (Some phrase))) (\<lambda>passphrase.
         bind_res (load_signify_secret_key b64 bcrypt sha512 prompt path passphrase (files path)) (\<lambda>key. Inr (Some key))))"

definition default_pax_options :: pax_writer_options where
  "default_pax_options = \<lparr>pw_pipeline = \<lparr>px_output_buf_size = 64 * 1024 * 1024, px_buffer_percent = 0, px_io_thread = 1\<rparr>,
     pw_sources = [], pw_plan_path = None, pw_one_file_system = False, pw_chdir_dir = None\<rparr>"

text \<open>The options of the pax writer that \<open>neotape-archiver\<close> and \<open>mt-pax\<close> share.\<close>

definition pax_writer_option :: "pax_writer_options \<Rightarrow> char \<Rightarrow> string \<Rightarrow> (text_error + pax_writer_options) option" where
  "pax_writer_option w c optarg =
    (let pipeline = pw_pipeline w in
     if c = CHR ''C'' then Some (Inr (w\<lparr>pw_chdir_dir := Some optarg\<rparr>))
     else if c = CHR ''P'' then Some (bind_res (parse_uint optarg ''buffer percent'' 0 100)
       (\<lambda>n. Inr (w\<lparr>pw_pipeline := pipeline\<lparr>px_buffer_percent := ucast n\<rparr>\<rparr>)))
     else if c = CHR ''x'' then Some (Inr (w\<lparr>pw_one_file_system := True\<rparr>))
     else if c = CHR ''B'' then Some (bind_res (parse_size optarg ''output buffer size'' (- 1))
       (\<lambda>n. Inr (w\<lparr>pw_pipeline := pipeline\<lparr>px_output_buf_size := n\<rparr>\<rparr>)))
     else if c = CHR ''j'' then Some (bind_res (parse_uint optarg ''I/O threads'' 0 0xffffffff)
       (\<lambda>n. Inr (w\<lparr>pw_pipeline := pipeline\<lparr>px_io_thread := ucast n\<rparr>\<rparr>)))
     else if c = CHR ''p'' then Some (Inr (w\<lparr>pw_plan_path := Some optarg\<rparr>))
     else None)"

record archive_options =
  ar_listen_address :: string
  ar_volume_block_size :: u32
  ar_archive_name :: string
  ar_retention_frame_count :: u64
  ar_pax :: pax_writer_options
  ar_verbose :: nat
  ar_write_plan_catalog :: "bool option"
  ar_signer :: signer_options
  ar_debug :: bool

definition default_archive_options :: archive_options where
  "default_archive_options = \<lparr>ar_listen_address = [], ar_volume_block_size = 4 * 1024 * 1024, ar_archive_name = ''archive'',
     ar_retention_frame_count = 256, ar_pax = default_pax_options, ar_verbose = 0, ar_write_plan_catalog = None,
     ar_signer = \<lparr>sg_secret_key_file = None, sg_passphrase_file = None\<rparr>, ar_debug = False\<rparr>"

definition parse_plan_write_mode :: "string \<Rightarrow> bool option" where
  "parse_plan_write_mode text = (if text = ''no'' then Some False else if text = ''slice0'' then Some True else None)"

definition archive_option :: "archive_options \<Rightarrow> char \<Rightarrow> string \<Rightarrow> options_error + archive_options" where
  "archive_option opts c optarg =
    (if c = CHR ''l'' then Inr (opts\<lparr>ar_listen_address := optarg\<rparr>)
     else if c = CHR ''b'' then value_arg (parse_size optarg ''volume block size'' 0xffffffff)
       (\<lambda>n. opts\<lparr>ar_volume_block_size := ucast n\<rparr>)
     else if c = CHR ''n'' then Inr (opts\<lparr>ar_archive_name := optarg\<rparr>)
     else if c = CHR ''v'' then Inr (opts\<lparr>ar_verbose := min (ar_verbose opts + 1) 2\<rparr>)
     else if c = CHR ''w'' then (case parse_plan_write_mode optarg of
         None \<Rightarrow> Inl (Bad_plan_mode optarg) | Some b \<Rightarrow> Inr (opts\<lparr>ar_write_plan_catalog := Some b\<rparr>))
     else if c = CHR ''r'' then value_arg (parse_uint optarg ''retention frame count'' 1 1000000)
       (\<lambda>n. opts\<lparr>ar_retention_frame_count := n\<rparr>)
     else if c = CHR ''d'' then Inr (opts\<lparr>ar_debug := True\<rparr>)
     else if c = CHR ''k'' then Inr (opts\<lparr>ar_signer := (ar_signer opts)\<lparr>sg_secret_key_file := Some optarg\<rparr>\<rparr>)
     else if c = CHR ''K'' then Inr (opts\<lparr>ar_signer := (ar_signer opts)\<lparr>sg_passphrase_file := Some optarg\<rparr>\<rparr>)
     else case pax_writer_option (ar_pax opts) c optarg of
         Some r \<Rightarrow> value_arg r (\<lambda>w. opts\<lparr>ar_pax := w\<rparr>)
       | None \<Rightarrow> common_option c (Inr opts))"

definition check_archive_options :: "archive_options \<Rightarrow> options_error + unit" where
  "check_archive_options opts =
    (let has_plan = pw_plan_path (ar_pax opts) \<noteq> None; has_sources = pw_sources (ar_pax opts) \<noteq> [] in
    bind_res (require (ar_listen_address opts \<noteq> []) (Failure ''--listen is required'')) (\<lambda>_.
    bind_res (require (check_signer_options (ar_signer opts)) (Failure ''--sign-passphrase-file requires --sign-secret-key'')) (\<lambda>_.
    bind_res (require (\<not> (has_plan \<and> has_sources)) (Failure ''positional sources cannot be used with --plan'')) (\<lambda>_.
    bind_res (require (\<not> (\<not> has_plan \<and> ar_write_plan_catalog opts \<noteq> None)) (Failure ''--plan-write-mode requires --plan'')) (\<lambda>_.
      require (has_plan \<or> has_sources) Usage_shown)))))"

definition parse_archiver_args :: "arguments \<Rightarrow> string list \<Rightarrow> options_error + archive_options" where
  "parse_archiver_args args positional =
    bind_res (parse_options archive_option args default_archive_options) (\<lambda>opts.
    let opts = opts\<lparr>ar_pax := (ar_pax opts)\<lparr>pw_sources := pw_sources (ar_pax opts) @ positional\<rparr>\<rparr> in
    bind_res (check_archive_options opts) (\<lambda>_. Inr opts))"

text \<open>What \<open>main\<close> passes on: the catalog is written unless \<open>--plan-write-mode no\<close> was given.\<close>

definition archiver_main_options :: "archive_options \<Rightarrow> archiver_options" where
  "archiver_main_options opts =
    \<lparr>ao_block_size = ar_volume_block_size opts, ao_archive_name = map of_char (ar_archive_name opts),
     ao_write_plan_catalog = (case ar_write_plan_catalog opts of None \<Rightarrow> True | Some b \<Rightarrow> b), ao_pax = ar_pax opts\<rparr>"

record raw_store_args =
  rs_listen_address :: string
  rs_input_name :: string
  rs_volume_block_size :: u32
  rs_archive_name :: string
  rs_retention_frame_count :: u64
  rs_signer :: signer_options
  rs_debug :: bool

definition raw_store_option :: "raw_store_args \<Rightarrow> char \<Rightarrow> string \<Rightarrow> options_error + raw_store_args" where
  "raw_store_option opts c optarg =
    (if c = CHR ''l'' then Inr (opts\<lparr>rs_listen_address := optarg\<rparr>)
     else if c = CHR ''i'' then Inr (opts\<lparr>rs_input_name := optarg\<rparr>)
     else if c = CHR ''b'' then value_arg (parse_size optarg ''volume block size'' 0xffffffff)
       (\<lambda>n. opts\<lparr>rs_volume_block_size := ucast n\<rparr>)
     else if c = CHR ''n'' then Inr (opts\<lparr>rs_archive_name := optarg\<rparr>)
     else if c = CHR ''r'' then value_arg (parse_uint optarg ''retention frame count'' 1 1000000)
       (\<lambda>n. opts\<lparr>rs_retention_frame_count := n\<rparr>)
     else if c = CHR ''d'' then Inr (opts\<lparr>rs_debug := True\<rparr>)
     else if c = CHR ''k'' then Inr (opts\<lparr>rs_signer := (rs_signer opts)\<lparr>sg_secret_key_file := Some optarg\<rparr>\<rparr>)
     else if c = CHR ''K'' then Inr (opts\<lparr>rs_signer := (rs_signer opts)\<lparr>sg_passphrase_file := Some optarg\<rparr>\<rparr>)
     else common_option c (unexpected_code c))"

definition parse_raw_store_args :: "arguments \<Rightarrow> string list \<Rightarrow> options_error + raw_store_args" where
  "parse_raw_store_args args positional =
    bind_res (parse_options raw_store_option args \<lparr>rs_listen_address = [], rs_input_name = ''-'',
      rs_volume_block_size = 4 * 1024 * 1024, rs_archive_name = ''raw'', rs_retention_frame_count = 256,
      rs_signer = \<lparr>sg_secret_key_file = None, sg_passphrase_file = None\<rparr>, rs_debug = False\<rparr>) (\<lambda>opts.
    bind_res (require (rs_listen_address opts \<noteq> []) Usage_shown) (\<lambda>_.
    bind_res (require (positional = []) (Usage_failure ''unexpected positional arguments'')) (\<lambda>_.
    bind_res (require (valid_block_size (rs_volume_block_size opts)) (Usage_failure ''invalid volume block size'')) (\<lambda>_.
    bind_res (require (check_signer_options (rs_signer opts))
      (Usage_failure ''--sign-passphrase-file requires --sign-secret-key'')) (\<lambda>_.
      Inr opts)))))"

section \<open>\<open>mt-pax\<close>, the planner and the dump\<close>

record mt_pax_options =
  mp_writer :: pax_writer_options
  mp_verbose :: nat
  mp_output :: string
  mp_slice_output_prefix :: "string option"

definition mt_pax_option :: "mt_pax_options \<Rightarrow> char \<Rightarrow> string \<Rightarrow> options_error + mt_pax_options" where
  "mt_pax_option opts c optarg =
    (if c = CHR ''f'' then Inr (opts\<lparr>mp_output := optarg\<rparr>)
     else if c = CHR ''v'' then Inr (opts\<lparr>mp_verbose := min (mp_verbose opts + 1) 2\<rparr>)
     else if c = CHR ''S'' then Inr (opts\<lparr>mp_slice_output_prefix := Some optarg\<rparr>)
     else case pax_writer_option (mp_writer opts) c optarg of
         Some r \<Rightarrow> value_arg r (\<lambda>w. opts\<lparr>mp_writer := w\<rparr>)
       | None \<Rightarrow> common_option c (Inr opts))"

definition parse_mt_pax_args :: "arguments \<Rightarrow> string list \<Rightarrow> options_error + mt_pax_options" where
  "parse_mt_pax_args args positional =
    bind_res (parse_options mt_pax_option args \<lparr>mp_writer = default_pax_options, mp_verbose = 0, mp_output = [],
      mp_slice_output_prefix = None\<rparr>) (\<lambda>opts.
    let opts = opts\<lparr>mp_writer := (mp_writer opts)\<lparr>pw_sources := pw_sources (mp_writer opts) @ positional\<rparr>\<rparr>;
        has_plan = pw_plan_path (mp_writer opts) \<noteq> None; has_prefix = mp_slice_output_prefix opts \<noteq> None;
        has_sources = pw_sources (mp_writer opts) \<noteq> []
    in
    bind_res (require (has_plan = has_prefix) Usage_shown) (\<lambda>_.
    bind_res (require (\<not> (has_prefix \<and> mp_output opts \<noteq> [])) (Failure ''-f cannot be used with --slice-output-prefix'')) (\<lambda>_.
    bind_res (require (has_prefix \<or> mp_output opts \<noteq> []) Usage_shown) (\<lambda>_.
    bind_res (require (has_plan \<or> has_sources) Usage_shown) (\<lambda>_.
    bind_res (require (\<not> (has_plan \<and> has_sources)) (Failure ''positional sources cannot be used with --plan'')) (\<lambda>_.
      Inr opts))))))"

record plan_args =
  pa_options :: plan_options
  pa_verbose :: bool
  pa_output_path :: string
  pa_io_threads :: u32
  pa_saw_chdir :: bool

definition plan_option :: "plan_args \<Rightarrow> char \<Rightarrow> string \<Rightarrow> options_error + plan_args" where
  "plan_option opts c optarg =
    (if c = CHR ''s'' then value_arg (parse_size optarg ''slice size'' (- 1))
       (\<lambda>n. opts\<lparr>pa_options := (pa_options opts)\<lparr>po_slice_size := n\<rparr>\<rparr>)
     else if c = CHR ''m'' then value_arg (parse_size optarg ''metadata buffer size'' (- 1))
       (\<lambda>n. opts\<lparr>pa_options := (pa_options opts)\<lparr>po_metadata_buffer_size := n\<rparr>\<rparr>)
     else if c = CHR ''o'' then Inr (opts\<lparr>pa_output_path := optarg\<rparr>)
     else if c = CHR ''C'' then
       (if pa_saw_chdir opts then Inl (Failure ''-C may be specified at most once'')
        else Inr (opts\<lparr>pa_saw_chdir := True, pa_options := (pa_options opts)\<lparr>po_chdir_dir := optarg\<rparr>\<rparr>))
     else if c = CHR ''x'' then Inr (opts\<lparr>pa_options := (pa_options opts)\<lparr>po_one_file_system := True\<rparr>\<rparr>)
     else if c = CHR ''v'' then Inr (opts\<lparr>pa_verbose := True\<rparr>)
     else if c = CHR ''j'' then value_arg (parse_uint optarg ''I/O threads'' 0 0xffffffff) (\<lambda>n. opts\<lparr>pa_io_threads := ucast n\<rparr>)
     else common_option c (Inr opts))"

text \<open>The first argument is \<open>sizeof(EntryMeta)\<close>.\<close>

definition parse_plan_args :: "u64 \<Rightarrow> arguments \<Rightarrow> string list \<Rightarrow> options_error + plan_args" where
  "parse_plan_args entry_size args positional =
    bind_res (parse_options plan_option args \<lparr>pa_options = \<lparr>po_slice_size = 64 * 1024 * 1024 * 1024,
      po_metadata_buffer_size = 256 * 1024 * 1024, po_one_file_system = False, po_chdir_dir = [], po_sources = [],
      po_entry_struct_size = entry_size\<rparr>, pa_verbose = False, pa_output_path = ''-'', pa_io_threads = 1,
      pa_saw_chdir = False\<rparr>) (\<lambda>opts.
    let opts = opts\<lparr>pa_options := (pa_options opts)\<lparr>po_sources := po_sources (pa_options opts) @ positional\<rparr>\<rparr> in
    bind_res (require (pa_output_path opts \<noteq> [] \<and> po_sources (pa_options opts) \<noteq> []) Usage_shown) (\<lambda>_.
      Inr opts))"

record dump_options =
  do_source :: string
  do_target :: string
  do_verbose :: bool

definition strip_locator :: "string \<Rightarrow> string \<Rightarrow> string \<Rightarrow> options_error + string" where
  "strip_locator value pre option_name =
    (if \<not> starts_with value pre \<or> length value = length pre
     then Inl (Usage_failure (option_name @ '' must use '' @ pre @ ''<path>''))
     else Inr (drop (length pre) value))"

definition dump_option :: "dump_options \<Rightarrow> char \<Rightarrow> string \<Rightarrow> options_error + dump_options" where
  "dump_option opts c optarg =
    (if c = CHR ''s'' then bind_res (strip_locator optarg ''tape:'' ''--source'') (\<lambda>s. Inr (opts\<lparr>do_source := s\<rparr>))
     else if c = CHR ''t'' then bind_res (strip_locator optarg ''spool:'' ''--target'') (\<lambda>s. Inr (opts\<lparr>do_target := s\<rparr>))
     else if c = CHR ''v'' then Inr (opts\<lparr>do_verbose := True\<rparr>)
     else common_option c (unexpected_code c))"

definition parse_dump_args :: "arguments \<Rightarrow> string list \<Rightarrow> options_error + dump_options" where
  "parse_dump_args args positional =
    bind_res (parse_options dump_option args \<lparr>do_source = [], do_target = [], do_verbose = False\<rparr>) (\<lambda>opts.
    bind_res (require (do_source opts \<noteq> []) (Usage_failure ''--source is required'')) (\<lambda>_.
    bind_res (require (do_target opts \<noteq> []) (Usage_failure ''--target is required'')) (\<lambda>_.
    bind_res (require (positional = []) (Usage_failure ''unexpected positional arguments'')) (\<lambda>_.
      Inr opts))))"

end
