(* ===== verification/OptionsSpec.thy ===== *)
theory OptionsSpec
  imports Options
begin

text \<open>
  What an accepted command line guarantees: \<open>neotape-write\<close> accepts exactly the option sets that are described here, and
  a command that is told to require signatures has a key to verify them with.
\<close>

section \<open>Parsing in general\<close>

lemma parse_options_append:
  "parse_options step (xs @ ys) opts = bind_res (parse_options step xs opts) (parse_options step ys)"
  by (induction step xs opts rule: parse_options.induct) (auto simp: bind_res_def split: sum.splits)

lemma parse_options_invariant:
  assumes "parse_options step args opts = Inr opts'" and "Q opts"
    and "\<And>opts c optarg opts'. Q opts \<Longrightarrow> step opts c optarg = Inr opts' \<Longrightarrow> Q opts'"
  shows "Q opts'"
  using assms(1,2)
proof (induction args arbitrary: opts)
  case (Cons arg args)
  then obtain a where "step opts (fst arg) (snd arg) = Inr a" "parse_options step args a = Inr opts'"
    by (cases arg) (auto simp: bind_res_Inr)
  with Cons.IH [of a] Cons.prems(2) assms(3) show ?case by blast
qed simp

lemma common_option_Inr: "common_option c other = Inr v \<longleftrightarrow> c \<noteq> CHR ''h'' \<and> c \<noteq> CHR ''?'' \<and> other = Inr v"
  by (simp add: common_option_def)

lemma value_arg_Inr: "value_arg r f = Inr opts \<longleftrightarrow> (\<exists>v. r = Inr v \<and> opts = f v)"
  by (auto simp: value_arg_def split: sum.splits)

lemma media_arg_Inr: "media_arg t allow_null f = Inr opts \<longleftrightarrow> (\<exists>l. parse_media t allow_null = Inr l \<and> opts = f l)"
  by (auto simp: media_arg_def split: sum.splits)

definition valid_locator :: "bool \<Rightarrow> media_locator \<Rightarrow> bool" where
  "valid_locator allow_null l \<longleftrightarrow>
     (case ml_kind l of No_media \<Rightarrow> False | Null_sink \<Rightarrow> allow_null \<and> ml_path l = [] | _ \<Rightarrow> ml_path l \<noteq> [])"

definition locator_text :: "media_locator \<Rightarrow> string" where
  "locator_text l = (case ml_kind l of Tape_media \<Rightarrow> ''tape:'' @ ml_path l | Spool_media \<Rightarrow> ''spool:'' @ ml_path l | _ \<Rightarrow> ''null'')"

lemma parse_media_valid: "parse_media t allow_null = Inr l \<Longrightarrow> valid_locator allow_null l"
  by (auto simp: parse_media_def valid_locator_def split: if_splits)

lemma parse_media_text: "valid_locator allow_null l \<Longrightarrow> parse_media (locator_text l) allow_null = Inr l"
  by (cases l) (auto simp: parse_media_def valid_locator_def locator_text_def starts_with_def split: media_kind.splits)

lemma parse_size_decimal: "0 < v \<Longrightarrow> v \<le> maximum \<Longrightarrow> parse_size (decimal (unat v)) name maximum = Inr v"
proof -
  assume v: "0 < v" "v \<le> maximum"
  have "is_digit (last (decimal (unat v)))" using decimal_simps(1,2) [of "unat v"] by (metis last_in_set list_all_iff)
  then have "size_multiplier (last (decimal (unat v))) = None" by (auto simp: is_digit_def size_multiplier_def)
  moreover have "1 \<le> v" using v(1) by (simp add: word_le_nat_alt word_less_nat_alt)
  ultimately show ?thesis using parse_uint_decimal [of 1 v maximum name] v(2) by (simp add: parse_size_def)
qed

lemma parse_size_positive:
  assumes "parse_size s name maximum = Inr v"
  shows "0 < v"
proof -
  from parse_size_Inr [OF assms] obtain d m where m: "m = 1 \<or> size_multiplier (last s) = Some m"
    and v: "unat v = d * unat m" "1 \<le> d" by metis
  from m have "m \<noteq> 0" by (auto simp: size_multiplier_def split: if_splits)
  with v have "unat v > 0" by (simp add: unat_gt_0)
  then show ?thesis by (simp add: word_gt_0 unat_gt_0)
qed

section \<open>\<open>neotape-write\<close>\<close>

definition valid_write_options :: "(string \<Rightarrow> bool \<times> nat option) \<Rightarrow> write_options \<Rightarrow> bool" where
  "valid_write_options stat opts \<longleftrightarrow>
     wo_source_address opts \<noteq> [] \<and> valid_locator True (wo_target opts) \<and>
     \<not> (wo_erase opts \<and> wo_append opts) \<and>
     (ml_kind (wo_target opts) = Null_sink \<longrightarrow> \<not> wo_erase opts \<and> \<not> wo_append opts \<and> wo_recovery_bundle opts = None) \<and>
     (case wo_recovery_bundle opts of None \<Rightarrow> True
      | Some path \<Rightarrow> \<not> wo_append opts \<and> fst (stat path) \<and> (case snd (stat path) of None \<Rightarrow> False | Some n \<Rightarrow> 0 < n)) \<and>
     (case wo_recovery_bundle_block_size opts of None \<Rightarrow> True
      | Some n \<Rightarrow> wo_recovery_bundle opts \<noteq> None \<and> ml_kind (wo_target opts) = Tape_media \<and>
          ucast min_block_size \<le> n \<and> n \<le> ucast max_block_size \<and> n mod 1024 = 0) \<and>
     min_output_buffer_size \<le> wo_output_buffer_size opts \<and> wo_max_volume_bytes opts \<noteq> Some 0"

text \<open>The shape of the options before the checks.\<close>

definition plain_write_options :: "write_options \<Rightarrow> bool" where
  "plain_write_options opts \<longleftrightarrow>
     (ml_kind (wo_target opts) \<noteq> No_media \<longrightarrow> valid_locator True (wo_target opts)) \<and> wo_max_volume_bytes opts \<noteq> Some 0"

lemma plain_default: "plain_write_options default_write_options"
  by (simp add: plain_write_options_def default_write_options_def no_locator_def)

lemma plain_step: "plain_write_options opts \<Longrightarrow> write_option opts c optarg = Inr opts' \<Longrightarrow> plain_write_options opts'"
  by (auto simp: write_option_def plain_write_options_def media_arg_Inr value_arg_Inr common_option_Inr
      dest: parse_media_valid parse_size_positive split: if_splits)

lemma check_write_options_iff:
  assumes "plain_write_options opts"
  shows "check_write_options stat opts = Inr () \<longleftrightarrow> valid_write_options stat opts"
proof -
  have source: "check_bundle_file stat opts = Inr () \<longleftrightarrow> (case wo_recovery_bundle opts of None \<Rightarrow> True
      | Some path \<Rightarrow> fst (stat path) \<and> (case snd (stat path) of None \<Rightarrow> False | Some n \<Rightarrow> 0 < n))"
    by (auto simp: check_bundle_file_def bind_res_Inr split: option.splits)
  have size: "check_bundle_block_size opts = Inr () \<longleftrightarrow> (case wo_recovery_bundle_block_size opts of None \<Rightarrow> True
      | Some n \<Rightarrow> wo_recovery_bundle opts \<noteq> None \<and> ml_kind (wo_target opts) = Tape_media \<and>
          ucast min_block_size \<le> n \<and> n \<le> ucast max_block_size \<and> n mod 1024 = 0)"
    by (cases "wo_recovery_bundle_block_size opts") (simp_all add: check_bundle_block_size_def bind_res_Inr not_less conj_ac)
  have "ml_kind (wo_target opts) \<noteq> No_media \<longleftrightarrow> valid_locator True (wo_target opts)"
    using assms by (auto simp: plain_write_options_def valid_locator_def)
  with assms show ?thesis
    unfolding check_write_options_def valid_write_options_def
    by (cases "wo_recovery_bundle opts") (auto simp: bind_res_Inr source size plain_write_options_def)
qed

text \<open>A command line for given options.\<close>

definition flag_arg :: "char \<Rightarrow> bool \<Rightarrow> arguments" where
  "flag_arg c b = (if b then [(c, [])] else [])"

definition optional_arg :: "char \<Rightarrow> ('a \<Rightarrow> string) \<Rightarrow> 'a option \<Rightarrow> arguments" where
  "optional_arg c f v = (case v of None \<Rightarrow> [] | Some a \<Rightarrow> [(c, f a)])"

definition write_args :: "write_options \<Rightarrow> arguments" where
  "write_args opts =
    [(CHR ''s'', wo_source_address opts), (CHR ''t'', locator_text (wo_target opts)),
     (CHR ''B'', decimal (unat (wo_output_buffer_size opts)))] @
    flag_arg (CHR ''e'') (wo_erase opts) @ flag_arg (CHR ''a'') (wo_append opts) @ flag_arg (CHR ''d'') (wo_debug opts) @
    optional_arg (CHR ''R'') id (wo_recovery_bundle opts) @
    optional_arg (CHR ''r'') (decimal \<circ> unat) (wo_recovery_bundle_block_size opts) @
    optional_arg (CHR ''m'') (decimal \<circ> unat) (wo_max_volume_bytes opts) @
    map (Pair (CHR ''k'')) (wo_verify_pubkey_paths opts)"

lemma parse_key_options:
  "parse_options write_option (map (Pair (CHR ''k'')) paths) opts =
     Inr (opts\<lparr>wo_verify_pubkey_paths := wo_verify_pubkey_paths opts @ paths\<rparr>)"
  by (induction paths arbitrary: opts) (simp_all add: write_option_def)

lemma parse_flag_options:
  "parse_options write_option (flag_arg (CHR ''e'') b) opts = Inr (opts\<lparr>wo_erase := wo_erase opts \<or> b\<rparr>)"
  "parse_options write_option (flag_arg (CHR ''a'') b) opts = Inr (opts\<lparr>wo_append := wo_append opts \<or> b\<rparr>)"
  "parse_options write_option (flag_arg (CHR ''d'') b) opts = Inr (opts\<lparr>wo_debug := wo_debug opts \<or> b\<rparr>)"
  by (simp_all add: write_option_def flag_arg_def)

lemma parse_bundle_option:
  "parse_options write_option (optional_arg (CHR ''R'') id v) opts =
     Inr (opts\<lparr>wo_recovery_bundle := (case v of None \<Rightarrow> wo_recovery_bundle opts | Some p \<Rightarrow> Some p)\<rparr>)"
  by (simp add: write_option_def optional_arg_def split: option.splits)

lemma parse_size_option: "0 < v \<Longrightarrow> parse_size (decimal (unat v)) name (- 1) = Inr v"
  by (rule parse_size_decimal) simp_all

lemma parse_size_options:
  "v \<noteq> Some 0 \<Longrightarrow> parse_options write_option (optional_arg (CHR ''r'') (decimal \<circ> unat) v) opts =
     Inr (opts\<lparr>wo_recovery_bundle_block_size := (case v of None \<Rightarrow> wo_recovery_bundle_block_size opts | Some n \<Rightarrow> Some n)\<rparr>)"
  "v \<noteq> Some 0 \<Longrightarrow> parse_options write_option (optional_arg (CHR ''m'') (decimal \<circ> unat) v) opts =
     Inr (opts\<lparr>wo_max_volume_bytes := (case v of None \<Rightarrow> wo_max_volume_bytes opts | Some n \<Rightarrow> Some n)\<rparr>)"
  by (cases v; simp add: write_option_def optional_arg_def value_arg_def parse_size_option word_gt_0)+

lemma some_or_none: "(case v of None \<Rightarrow> None | Some n \<Rightarrow> Some n) = v"
  by (simp split: option.splits)

lemma parse_write_args_exact:
  assumes "valid_write_options stat opts"
  shows "parse_options write_option (write_args opts) default_write_options = Inr opts"
proof -
  have buffer: "0 < wo_output_buffer_size opts" and target: "valid_locator True (wo_target opts)"
    and volume: "wo_max_volume_bytes opts \<noteq> Some 0"
    using assms by (auto simp: valid_write_options_def min_output_buffer_size_def word_le_nat_alt word_less_nat_alt)
  have size: "wo_recovery_bundle_block_size opts \<noteq> Some 0"
    using assms by (auto simp: valid_write_options_def min_block_size_def word_le_nat_alt)
  let ?a = "[(CHR ''s'', wo_source_address opts), (CHR ''t'', locator_text (wo_target opts)),
     (CHR ''B'', decimal (unat (wo_output_buffer_size opts)))]"
  have "parse_options write_option ?a default_write_options =
      Inr (default_write_options\<lparr>wo_source_address := wo_source_address opts, wo_target := wo_target opts,
        wo_output_buffer_size := wo_output_buffer_size opts\<rparr>)"
    using buffer parse_media_text [OF target]
    by (simp add: write_option_def media_arg_def value_arg_def parse_size_option)
  then have "parse_options write_option (write_args opts) default_write_options =
      parse_options write_option (optional_arg (CHR ''R'') id (wo_recovery_bundle opts) @
        optional_arg (CHR ''r'') (decimal \<circ> unat) (wo_recovery_bundle_block_size opts) @
        optional_arg (CHR ''m'') (decimal \<circ> unat) (wo_max_volume_bytes opts) @ map (Pair (CHR ''k'')) (wo_verify_pubkey_paths opts))
      (default_write_options\<lparr>wo_source_address := wo_source_address opts, wo_target := wo_target opts,
        wo_output_buffer_size := wo_output_buffer_size opts, wo_erase := wo_erase opts, wo_append := wo_append opts,
        wo_debug := wo_debug opts\<rparr>)"
    unfolding write_args_def parse_options_append [of _ ?a] bind_res_simps
    by (simp add: parse_options_append parse_flag_options) (simp add: default_write_options_def)
  also have "\<dots> = Inr opts"
    by (cases "wo_recovery_bundle opts"; cases "wo_recovery_bundle_block_size opts"; cases "wo_max_volume_bytes opts")
      (use size volume in \<open>simp_all add: parse_options_append parse_key_options parse_bundle_option parse_size_options,
        auto intro!: write_options.equality simp: default_write_options_def\<close>)
  finally show ?thesis .
qed

section \<open>Property\<close>

text \<open>C40. \<open>neotape-write\<close> accepts exactly the option sets described here: a source address; a target that is a tape, a
  spool or null, each with its path; not both erasing and appending, and neither with a null target; a
  recovery bundle only for a new tape or spool, from a regular file that is not empty; a block size for it only on a tape, a
  multiple of 1024 within the limits of a frame; at least 8 MiB of output buffer and
  no volume limit of zero.  Every accepted command line gives such options, and every such set of options is given by a command line.\<close>
theorem write_options_exact:
  "(\<exists>args. parse_write_args stat args = Inr opts) \<longleftrightarrow> valid_write_options stat opts"
proof
  assume "\<exists>args. parse_write_args stat args = Inr opts"
  then obtain args where p: "parse_options write_option args default_write_options = Inr opts"
    "check_write_options stat opts = Inr ()"
    by (auto simp: parse_write_args_def bind_res_Inr)
  have "plain_write_options opts"
    by (rule parse_options_invariant [where Q = plain_write_options, OF p(1) plain_default plain_step])
  with p(2) show "valid_write_options stat opts" using check_write_options_iff by blast
next
  assume valid: "valid_write_options stat opts"
  then have "plain_write_options opts" by (simp add: plain_write_options_def valid_write_options_def)
  with valid have "check_write_options stat opts = Inr ()" using check_write_options_iff by blast
  with parse_write_args_exact [OF valid] show "\<exists>args. parse_write_args stat args = Inr opts"
    by (intro exI [of _ "write_args opts"]) (simp add: parse_write_args_def)
qed

section \<open>Commands that verify signatures\<close>

text \<open>Signatures are only required where there are keys.\<close>

lemma required_signatures_have_keys:
  "parse_extractor_args args positional = Inr e \<Longrightarrow> eo_require_signed e \<Longrightarrow> eo_verify_pubkey_paths e \<noteq> []"
  "parse_inspect_args args = Inr i \<Longrightarrow> io_require_signed i \<Longrightarrow> io_verify_pubkey_paths i \<noteq> []"
  "parse_catalog_args args positional = Inr c \<Longrightarrow> co_require_signed c \<Longrightarrow> co_verify_pubkey_paths c \<noteq> []"
  by (auto simp: parse_extractor_args_def parse_inspect_args_def parse_catalog_args_def bind_res_Inr signed_needs_key_def Let_def)

lemma load_verify_keys_length:
  "load_verify_keys b64 files paths = Inr keys \<Longrightarrow> length keys = length paths"
  by (induction paths arbitrary: keys) (auto simp: bind_res_Inr)

lemma extractor_keys_configured:
  "parse_extractor_args args positional = Inr e \<Longrightarrow> extractor_main_options b64 files metadata out e = Inr xo \<Longrightarrow>
    xo_require_signed xo \<Longrightarrow> xo_keys xo \<noteq> []"
  using load_verify_keys_length required_signatures_have_keys(1)
  by (fastforce simp: extractor_main_options_def bind_res_Inr)

text \<open>The raw store accepts only valid block sizes; the archiver leaves that to \<open>run_volume_server\<close>.\<close>

lemma raw_store_block_size: "parse_raw_store_args args positional = Inr o' \<Longrightarrow> valid_block_size (rs_volume_block_size o')"
  by (auto simp: parse_raw_store_args_def bind_res_Inr)

lemma archiver_any_block_size:
  "\<exists>opts. parse_archiver_args [(CHR ''l'', ''a:1''), (CHR ''b'', ''5'')] [''x''] = Inr opts \<and>
     \<not> valid_block_size (ar_volume_block_size opts)"
  by (simp add: parse_archiver_args_def archive_option_def value_arg_def parse_size_def size_multiplier_def parse_uint_def
      from_chars_u64_def is_digit_def digits_value_def digit_value_def default_archive_options_def check_archive_options_def
      default_pax_options_def check_signer_options_def require_def valid_block_size_def min_block_size_def bind_res_def)

end
