(* ===== verification/Sockets.thy ===== *)
theory Sockets
  imports Protocol
begin

text \<open>
  src/neotape_socket_util.cpp: creating a listener and connecting.  Each system call takes its result from a script; an
  exhausted script fails.  The state keeps the descriptors that were opened and closed and the paths that were removed.
\<close>

datatype socket_failure =
    Bad_address protocol_error | Socket_failed | Path_too_long | Bind_failed | Resolve_failed | Listen_failed | Connect_failed

record socket_system =
  ss_sockets :: "nat option list"
  ss_binds :: "bool list"
  ss_listens :: "bool list"
  ss_connects :: "bool list"
  ss_resolved :: "bool list"
  ss_opened :: "nat list"
  ss_closed :: "nat list"
  ss_unlinked :: "string list"

text \<open>\<open>sizeof(sockaddr_un::sun_path)\<close>.\<close>

definition sun_path_size :: nat where "sun_path_size = 108"

definition next_result :: "bool list \<Rightarrow> bool \<times> bool list" where
  "next_result rs = (case rs of [] \<Rightarrow> (False, []) | r # rs \<Rightarrow> (r, rs))"

definition sys_socket :: "socket_system \<Rightarrow> nat option \<times> socket_system" where
  "sys_socket s =
    (case ss_sockets s of
       [] \<Rightarrow> (None, s)
     | None # rs \<Rightarrow> (None, s\<lparr>ss_sockets := rs\<rparr>)
     | Some fd # rs \<Rightarrow> (Some fd, s\<lparr>ss_sockets := rs, ss_opened := ss_opened s @ [fd]\<rparr>))"

definition sys_close :: "nat \<Rightarrow> socket_system \<Rightarrow> socket_system" where
  "sys_close fd s = s\<lparr>ss_closed := ss_closed s @ [fd]\<rparr>"

definition sys_bind :: "socket_system \<Rightarrow> bool \<times> socket_system" where
  "sys_bind s = (case next_result (ss_binds s) of (r, rs) \<Rightarrow> (r, s\<lparr>ss_binds := rs\<rparr>))"

definition sys_listen :: "socket_system \<Rightarrow> bool \<times> socket_system" where
  "sys_listen s = (case next_result (ss_listens s) of (r, rs) \<Rightarrow> (r, s\<lparr>ss_listens := rs\<rparr>))"

definition sys_connect :: "socket_system \<Rightarrow> bool \<times> socket_system" where
  "sys_connect s = (case next_result (ss_connects s) of (r, rs) \<Rightarrow> (r, s\<lparr>ss_connects := rs\<rparr>))"

definition sys_getaddrinfo :: "socket_system \<Rightarrow> bool \<times> socket_system" where
  "sys_getaddrinfo s = (case next_result (ss_resolved s) of (r, rs) \<Rightarrow> (r, s\<lparr>ss_resolved := rs\<rparr>))"

definition sys_unlink :: "string \<Rightarrow> socket_system \<Rightarrow> socket_system" where
  "sys_unlink path s = s\<lparr>ss_unlinked := ss_unlinked s @ [path]\<rparr>"

section \<open>Listening\<close>

definition bind_unix :: "string \<Rightarrow> socket_system \<Rightarrow> (socket_failure + nat) \<times> socket_system" where
  "bind_unix path s =
    (case sys_socket s of
       (None, s) \<Rightarrow> (Inl Socket_failed, s)
     | (Some fd, s) \<Rightarrow>
         let s = sys_unlink path s
         in if length path \<ge> sun_path_size then (Inl Path_too_long, sys_close fd s)
            else (case sys_bind s of
                    (False, s) \<Rightarrow> (Inl Bind_failed, sys_close fd s)
                  | (True, s) \<Rightarrow> (Inr fd, s)))"

definition bind_tcp :: "socket_system \<Rightarrow> (socket_failure + nat) \<times> socket_system" where
  "bind_tcp s =
    (case sys_getaddrinfo s of
       (False, s) \<Rightarrow> (Inl Resolve_failed, s)
     | (True, s) \<Rightarrow>
         (case sys_socket s of
            (None, s) \<Rightarrow> (Inl Socket_failed, s)
          | (Some fd, s) \<Rightarrow>
              (case sys_bind s of
                 (False, s) \<Rightarrow> (Inl Bind_failed, sys_close fd s)
               | (True, s) \<Rightarrow> (Inr fd, s))))"

definition create_listener :: "string \<Rightarrow> socket_system \<Rightarrow> (socket_failure + nat) \<times> socket_system" where
  "create_listener addr s =
    (case parse_address addr of
       Inl e \<Rightarrow> (Inl (Bad_address e), s)
     | Inr a \<Rightarrow>
         (case (if is_unix a then bind_unix (addr_path a) s else bind_tcp s) of
            (Inl e, s) \<Rightarrow> (Inl e, s)
          | (Inr fd, s) \<Rightarrow>
              (case sys_listen s of
                 (False, s) \<Rightarrow> (Inl Listen_failed, sys_close fd s)
               | (True, s) \<Rightarrow> (Inr fd, s))))"

section \<open>Connecting\<close>

definition connect_unix :: "string \<Rightarrow> socket_system \<Rightarrow> (socket_failure + nat) \<times> socket_system" where
  "connect_unix path s =
    (case sys_socket s of
       (None, s) \<Rightarrow> (Inl Socket_failed, s)
     | (Some fd, s) \<Rightarrow>
         if length path \<ge> sun_path_size then (Inl Path_too_long, sys_close fd s)
         else (case sys_connect s of
                 (False, s) \<Rightarrow> (Inl Connect_failed, sys_close fd s)
               | (True, s) \<Rightarrow> (Inr fd, s)))"

definition connect_tcp :: "socket_system \<Rightarrow> (socket_failure + nat) \<times> socket_system" where
  "connect_tcp s =
    (case sys_getaddrinfo s of
       (False, s) \<Rightarrow> (Inl Resolve_failed, s)
     | (True, s) \<Rightarrow>
         (case sys_socket s of
            (None, s) \<Rightarrow> (Inl Socket_failed, s)
          | (Some fd, s) \<Rightarrow>
              (case sys_connect s of
                 (False, s) \<Rightarrow> (Inl Connect_failed, sys_close fd s)
               | (True, s) \<Rightarrow> (Inr fd, s))))"

definition connect_to_server :: "string \<Rightarrow> socket_system \<Rightarrow> (socket_failure + nat) \<times> socket_system" where
  "connect_to_server addr s =
    (case parse_address addr of
       Inl e \<Rightarrow> (Inl (Bad_address e), s)
     | Inr a \<Rightarrow> if is_unix a then connect_unix (addr_path a) s else connect_tcp s)"

section \<open>No descriptor is lost\<close>

text \<open>A call that returns a descriptor has opened it and not closed it; one that fails has closed what it opened.\<close>

definition accounted :: "socket_system \<Rightarrow> (socket_failure + nat) \<times> socket_system \<Rightarrow> bool" where
  "accounted s r \<longleftrightarrow> (case r of
     (Inr fd, t) \<Rightarrow> ss_opened t = ss_opened s @ [fd] \<and> ss_closed t = ss_closed s
   | (Inl _, t) \<Rightarrow> (\<exists>fds. ss_opened t = ss_opened s @ fds \<and> ss_closed t = ss_closed s @ fds))"

named_theorems sys_defs

lemmas sys_call_defs [sys_defs] = sys_socket_def sys_close_def sys_bind_def sys_listen_def sys_connect_def
  sys_getaddrinfo_def sys_unlink_def next_result_def

lemma bind_accounted: "accounted s (bind_unix path s)" "accounted s (bind_tcp s)"
  by (auto simp: accounted_def bind_unix_def bind_tcp_def sys_defs Let_def split: list.splits option.splits bool.splits)

lemma connect_accounted: "accounted s (connect_unix path s)" "accounted s (connect_tcp s)"
  by (auto simp: accounted_def connect_unix_def connect_tcp_def sys_defs split: list.splits option.splits bool.splits)

lemma listen_accounted:
  assumes "accounted s (Inr fd, t)"
  shows "accounted s (case sys_listen t of (False, t) \<Rightarrow> (Inl Listen_failed, sys_close fd t) | (True, t) \<Rightarrow> (Inr fd, t))"
  using assms by (auto simp: accounted_def sys_defs split: list.splits bool.splits)

lemma descriptors_accounted: "accounted s (create_listener addr s)" "accounted s (connect_to_server addr s)"
proof -
  have none: "accounted s (Inl e, s)" for e by (simp add: accounted_def)
  have stop: "accounted s (Inl e, t)" if "accounted s (Inl e', t)" for e e' t using that by (simp add: accounted_def)
  have bound: "accounted s (if is_unix a then bind_unix (addr_path a) s else bind_tcp s)" for a
    using bind_accounted by simp
  show "accounted s (create_listener addr s)"
  proof (cases "parse_address addr")
    case (Inr a)
    obtain r t where rt: "(if is_unix a then bind_unix (addr_path a) s else bind_tcp s) = (r, t)" by force
    then show ?thesis using bound [of a] listen_accounted
      by (cases r) (simp_all add: create_listener_def Inr)
  qed (simp add: create_listener_def none)
  show "accounted s (connect_to_server addr s)"
    using connect_accounted none by (auto simp: connect_to_server_def split: sum.splits)
qed

text \<open>A listener on a path removes the file of that name before it looks at the length of the path: a path that
  is too long is refused, but the file is gone.\<close>

lemma long_path_unlinked:
  assumes "parse_address addr = Inr a" and "is_unix a" and "length (addr_path a) \<ge> sun_path_size"
    and "ss_sockets s = Some fd # rest"
  shows "fst (create_listener addr s) = Inl Path_too_long \<and>
    ss_unlinked (snd (create_listener addr s)) = ss_unlinked s @ [addr_path a]"
  using assms by (simp add: create_listener_def bind_unix_def sys_socket_def sys_unlink_def sys_close_def)

end
