(* ===== verification/Terminal.thy ===== *)
theory Terminal
  imports Text
begin

text \<open>
  src/neotape_common.cpp: diagnostics and the progress line on standard error, which share one lock and so are
  steps on one state, and the choice of a UTF-8 locale.
\<close>

section \<open>Diagnostics\<close>

record terminal =
  tm_stderr :: string
  tm_progress_active :: bool

definition line_feed :: char where "line_feed = CHR 0x0A"

definition end_progress :: "terminal \<Rightarrow> terminal" where
  "end_progress t = (if tm_progress_active t then t\<lparr>tm_stderr := tm_stderr t @ [line_feed], tm_progress_active := False\<rparr> else t)"

definition write_diagnostic :: "string \<Rightarrow> terminal \<Rightarrow> terminal" where
  "write_diagnostic msg t =
    (let t = end_progress t;
         t = t\<lparr>tm_stderr := tm_stderr t @ msg\<rparr>
     in if msg \<noteq> [] \<and> last msg \<noteq> line_feed then t\<lparr>tm_stderr := tm_stderr t @ [line_feed]\<rparr> else t)"

definition write_progress :: "string \<Rightarrow> terminal \<Rightarrow> terminal" where
  "write_progress msg t = t\<lparr>tm_stderr := tm_stderr t @ [CHR 0x0D] @ msg, tm_progress_active := True\<rparr>"

definition finish_progress :: "terminal \<Rightarrow> terminal" where
  "finish_progress t = end_progress t"

text \<open>\<open>fail\<close> and \<open>usage_error\<close>: the exit code and what is printed before.\<close>

definition fail_exit :: "string \<Rightarrow> string \<Rightarrow> terminal \<Rightarrow> nat \<times> terminal" where
  "fail_exit program_name msg t = (1, write_diagnostic (program_name @ '': '' @ msg) t)"

definition usage_error_exit :: "string \<Rightarrow> string \<Rightarrow> terminal \<Rightarrow> nat \<times> terminal" where
  "usage_error_exit program_name msg t = (2, write_diagnostic (program_name @ '': '' @ msg) t)"

text \<open>Outside of progress the output is a sequence of whole lines, so that a diagnostic always starts a line of its own.\<close>

definition at_line_start :: "terminal \<Rightarrow> bool" where
  "at_line_start t \<longleftrightarrow> tm_stderr t = [] \<or> last (tm_stderr t) = line_feed"

datatype terminal_op = Diagnostic string | Progress string | Progress_done

fun terminal_step :: "terminal_op \<Rightarrow> terminal \<Rightarrow> terminal" where
  "terminal_step (Diagnostic msg) t = write_diagnostic msg t"
| "terminal_step (Progress msg) t = write_progress msg t"
| "terminal_step Progress_done t = finish_progress t"

lemma end_progress_line:
  "tm_progress_active t \<or> at_line_start t \<Longrightarrow> at_line_start (end_progress t) \<and> \<not> tm_progress_active (end_progress t)"
  by (auto simp: end_progress_def at_line_start_def)

lemma terminal_step_line:
  "tm_progress_active t \<or> at_line_start t \<Longrightarrow> tm_progress_active (terminal_step act t) \<or> at_line_start (terminal_step act t)"
  using end_progress_line [of t]
  by (cases act) (auto simp: write_diagnostic_def write_progress_def finish_progress_def at_line_start_def Let_def last_append)

lemma diagnostic_on_own_line:
  assumes "t = fold terminal_step ops \<lparr>tm_stderr = [], tm_progress_active = False\<rparr>" and "msg \<noteq> []"
  shows "\<exists>before. (before = [] \<or> last before = line_feed) \<and>
    tm_stderr (write_diagnostic msg t) = before @ msg @ (if last msg = line_feed then [] else [line_feed])"
proof -
  have "tm_progress_active (fold terminal_step ops u) \<or> at_line_start (fold terminal_step ops u)"
    if "tm_progress_active u \<or> at_line_start u" for u
    using that by (induction ops arbitrary: u) (simp_all only: fold_simps terminal_step_line)
  from this [of "\<lparr>tm_stderr = [], tm_progress_active = False\<rparr>"] have "at_line_start (end_progress t)"
    using end_progress_line [of t] assms(1) by (auto simp: at_line_start_def)
  with assms(2) show ?thesis
    by (intro exI [of _ "tm_stderr (end_progress t)"]) (simp add: write_diagnostic_def at_line_start_def Let_def)
qed

section \<open>Locale\<close>

definition to_lower :: "char \<Rightarrow> char" where
  "to_lower c = (if 65 \<le> (of_char c :: nat) \<and> (of_char c :: nat) \<le> 90 then char_of (of_char c + 32 :: nat) else c)"

fun contains :: "string \<Rightarrow> string \<Rightarrow> bool" where
  "contains [] pat \<longleftrightarrow> pat = []"
| "contains (c # s) pat \<longleftrightarrow> take (length pat) (c # s) = pat \<or> contains s pat"

definition locale_name_is_utf8 :: "string option \<Rightarrow> bool" where
  "locale_name_is_utf8 name =
    (case name of
       None \<Rightarrow> False
     | Some n \<Rightarrow> contains (map to_lower n) ''utf-8'' \<or> contains (map to_lower n) ''utf8'')"

text \<open>\<open>setlocale\<close> is a function from the requested name to the name of the locale set; the result is the
  list of the requests made.\<close>

definition ensure_utf8_ctype_locale :: "(string \<Rightarrow> string option) \<Rightarrow> string list" where
  "ensure_utf8_ctype_locale setlocale =
    (if locale_name_is_utf8 (setlocale []) then [[]]
     else if locale_name_is_utf8 (setlocale ''C.UTF-8'') then [[], ''C.UTF-8'']
     else [[], ''C.UTF-8'', ''en_US.UTF-8''])"

lemma locale_examples:
  "locale_name_is_utf8 (Some ''de_DE.UTF-8'')" "locale_name_is_utf8 (Some ''C.utf8'')"
  "\<not> locale_name_is_utf8 (Some ''C'')" "\<not> locale_name_is_utf8 None"
  by code_simp+

lemma ensured_locale_is_utf8:
  "locale_name_is_utf8 (setlocale (last (ensure_utf8_ctype_locale setlocale))) \<longleftrightarrow>
     (\<exists>n \<in> {[], ''C.UTF-8'', ''en_US.UTF-8''}. locale_name_is_utf8 (setlocale n))"
  by (auto simp: ensure_utf8_ctype_locale_def)

end
