(* ===== verification/Spec2Isabelle.thy ===== *)
theory Spec2Isabelle
  imports Extractor WriterSpec VolumeServer PlannerWalk StatPool Dump RawStore PaxLocal CatalogCmdSpec InspectSpec ScanSpec WriteSpec OptionsSpec TapeDrive Sockets Terminal
begin

text \<open>
  NeoTape stores archives on tapes (or in spool directories that stand for tapes) as
  fixed-size, hashed and optionally signed frames.  This development models the programs
  under src/ and proves what makes them correct.

  How the program is put together.  \<open>neotape-plan\<close> walks the sources and writes a plan
  file; the archiver (or \<open>neotape-raw-store\<close>) turns file data into frames with the frame
  builder and hands them to the volume server, which numbers them for a volume, seals them and
  sends them over the message protocol to \<open>neotape-write\<close>.  The writer checks each frame,
  writes it to a tape or spool and acknowledges it; the server retains what is not yet
  acknowledged, so that a lost connection or a full volume can be continued.  On the way back
  \<open>neotape-read\<close> reads records from the medium and sends them to the extractor, which
  validates and writes their payloads.  \<open>neotape-dump\<close> copies a tape into files;
  \<open>neotape-scan\<close>, \<open>neotape-catalog\<close> and \<open>neotape-inspect\<close> report what a medium holds.

  Theories, and the code each of them models:

  \<^item> Prelude, Bytes: result types, lists, little-endian fields and overwriting (shared lemmas).
  \<^item> Format (neotape_format.cpp, format.hpp): the header layout byte by byte, parser, serializer,
    validation, the canonical hash of a record.  Serializing and parsing are inverse; equal
    hashes bind payload and header.
  \<^item> Signature (neotape_signature.cpp): key files, detached messages, frame signatures and the
    policy of a verifier.  Signing verifies; what passes the policy is signed by a configured key.
  \<^item> Validate, ValidateSpec (neotape_validate.cpp): the frame validator as a state machine with
    its replay history, against \<open>archive_prefix\<close>, the declarative grammar of archives.
    Accepted frames form an archive prefix, archive prefixes are accepted, replays are accepted
    exactly when they repeat a remembered record.
  \<^item> FrameBuilder, FrameBuilderSpec (neotape_frame_builder.cpp, frame_builder.hpp): cutting a
    channel into frames, sealing, re-numbering for a volume, the retention buffer.
  \<^item> Protocol (neotape_tcp_protocol.cpp, neotape_socket_util.cpp): messages over reads and
    writes that return any number of bytes, and addresses.
  \<^item> Queues (closable_queue.hpp, result_store.hpp, neotape_bounded_buffer.cpp): each operation
    is one critical section; an operation that would block is \<open>None\<close>.
  \<^item> VolumeServer (neotape_volume_server.cpp): the archiver's side of the connections.  A
    complete archive is reported only behind an archive-end frame that was sent and acknowledged.
  \<^item> Extractor (neotape_extractor.cpp): the restoring side; its output is sound whatever arrives.
  \<^item> Writer, WriterSpec (neotape_writer.cpp): the two threads of a writer session as a step
    relation over the shared state; invariant, bound, deadlock freedom, termination.  A read of a
    response blocks while the peer waits for acknowledgements (a list of numbers, arbitrary in
    every theorem) until the output thread shuts the reading side of the socket down.
  \<^item> Text, Paths (neotape_common.cpp): numbers, sizes, escaping, source specifications over the
    path arithmetic of the standard library.
  \<^item> Plan (neotape_plan.cpp): plan records, reader and writer.
  \<^item> Planner, PlannerSpec, PlannerWalk (neotape_plan_cmd.cpp): the scan, slice packing, hard
    links and the bounded directory walk.  Plans are contiguous, packed, readable and complete.
  \<^item> StatPool (neotape_plan_cmd.cpp): the worker pool as interleaved steps; it refines the
    sequential collection that Planner uses.
  \<^item> PaxPipeline, PaxPipelineSpec, PaxPipelineSteps, PaxPipelineRun, PaxPipelineProps
    (neotape_pax_writer.cpp): the entries of a slice through the parallel pipeline of queues, as
    interleaved steps of its threads.  Every run gives the sequential stream, never deadlocks
    and ends; libarchive is a parameter, of which it is assumed that a rejected header
    has not filled the sink's buffer.
  \<^item> PaxArchive, PaxArchiveSpec (neotape_pax_writer.cpp): which entries go into which slice, from a
    plan file or from a walk, link resolution and the client's callbacks.  An archive written
    without an error gives the client the slices of the plan and exactly their streams.
  \<^item> PaxLocal (neotape_pax_writer.cpp): the output files of \<open>mt-pax\<close>, against the same streams.
  \<^item> Archiver, ArchiveRuns, ArchiverSpec, RawStore (neotape_tcp_server.cpp,
    neotape_raw_store_cmd.cpp): the producers of the volume server.  Their frames are runs of
    the frame builder, whose payloads are the catalog and the slice streams, or the raw input,
    and whose headers are compared with the archive grammar of ValidateSpec.
  \<^item> RecordSource (neotape_media.cpp): the record reader as a pair of functions, with two contracts,
    of sources that end and of media that give back their files.  SampleArchive: a small archive for instances.
  \<^item> ReadCmd, ReadCmdSpec (neotape_read_cmd.cpp): the request loop of the reading side, and the restoration of an
    archive from its volumes by readers and extractor in conversation.
  \<^item> CatalogCmd, CatalogCmdSpec (neotape_catalog_cmd.cpp): the catalog stream and its three outputs.
  \<^item> InspectCmd, InspectSpec (neotape_inspect_cmd.cpp): the inspection loop and its report; the validator seeded at the
    first frame is compared with runs of frames from any number, and at number 0 with the strict validator.
  \<^item> ScanCmd, ScanSpec (neotape_scan_cmd.cpp): the list of archives of a medium, from the first frames of its tape files.
  \<^item> WriteCmd, WriteSpec (neotape_write_cmd.cpp): authentication of the archiver, the target and the recovery bundle before a
    writer session.  Nothing is done to the target unless the archiver shows a configured key.
    A tape is positioned by the operations of TapeDrive, and what they leave of the recording follows from those operations.
  \<^item> Options, OptionsSpec (\<open>parse_args\<close> of every command): from the options that \<open>getopt_long\<close> returns to those
    the command starts with, or its exit code.  The options \<open>neotape-write\<close> accepts are described exactly.
  \<^item> TapeDrive (neotape_tape.cpp): a physical drive over the results of its system calls; its records are those of the
    device of Writer, and its descriptor is closed exactly once.
  \<^item> Sockets (neotape_socket_util.cpp): listeners and connections; no descriptor is lost on any path.
  \<^item> Terminal (neotape_common.cpp): diagnostics and the progress line, and the locale.
  \<^item> Media (neotape_media.cpp): locators, spool names, the spool scan and the record reader over
    a spool and over a drive.
  \<^item> Spool, SpoolSpec (neotape_tape.cpp): the spool device; what it stores is read back.
  \<^item> Dump (neotape_dump_cmd.cpp and the target check of neotape_write_cmd.cpp): the output files
    are buffered streams; what a close that fails has flushed is a script.

  Interfaces.  Contracts that several parts rely on are locales, interpreted on the model's own
  definitions in the theory that provides them; the properties use the interpreted facts.

  Parameters.  Code that is not in the repository is an argument: \<open>H\<close> is BLAKE3 (any
  function from bytes to bytes; theorems that need 32-byte results or no collision at given
  records say so), \<open>ed_sign\<close> and \<open>ed_open\<close> the signature primitives, \<open>plan_env\<close>
  the file system and the user database.  System calls that may fail are scripts: a list of
  their results, arbitrary in every theorem, so that each interruption, short transfer and
  failure is a branch of the model.  Files and directories are maps from names to contents.

  Threads are steps of a relation or of a schedule; a theorem about them holds for every
  interleaving.  Each critical section of the code is one step.

  Fuel and bounds.  Recursions that follow a structure need no fuel.  The directory walk of the
  planner takes fuel: twice the number of directory entries plus a constant is enough, which
  \<open>planner_lists_every_entry_once\<close> proves.  \<open>spool_calls\<close> counts the calls of the reader,
  \<open>tape_next\<close> the drive operations of one call.  Writer sessions have an explicit bound on
  their steps (\<open>session_terminates\<close>), pool schedules one of four steps for each path,
  pipeline runs \<open>steps_bound\<close>.
  Machine integers are words of the width of the code; where a number must not wrap a theorem
  states the bound.

  Not modelled: libarchive and the drive themselves, the timer thread and the floating-point numbers of the progress
  line and of printed statistics, the passphrase prompt and the random number generator (parameters),
  the join guard of thread_util.hpp.
\<close>

end
